(* ===== verification/Prelude.thy ===== *)
theory Prelude
  imports Main "HOL-Library.Monad_Syntax" "HOL-Library.Word" "HOL-Library.Signed_Division"
begin

text \<open>
  The vocabulary every component of the development shares: addresses and the null pointer,
  a typed store per structure member with loads and stores that fault on \<open>NULL\<close>, the
  C sign convention of comparators, and the named collections the component proofs use.

  A pointer is a natural number and \<open>NULL\<close> is 0. The intrusive structures of the
  repository (\<open>struct rb_node\<close>, \<open>struct list_head\<close>, \<open>struct bst_node\<close>) are
  members of larger structs and are reached by \<open>container_of\<close>; a store therefore maps
  the address of the containing struct to the value of one member, and \<open>container_of\<close>
  is the identity. A computation that dereferences \<open>NULL\<close>, fails an assertion or does
  not return has the value \<open>None\<close>; a theorem that says \<open>Some\<close> rules all three out.
\<close>

section \<open>Pointers and stores\<close>

type_synonym addr = nat

abbreviation NULL :: addr where
  "NULL \<equiv> 0"

text \<open>A pointer test stays the inequation it is in the code.\<close>

declare neq0_conv [iff del] bot_nat_0.not_eq_extremum [simp del]

definition load :: "(addr \<Rightarrow> 'n) \<Rightarrow> addr \<Rightarrow> 'n option" where
  "load h p = (if p = NULL then None else Some (h p))"

definition store :: "(addr \<Rightarrow> 'n) \<Rightarrow> addr \<Rightarrow> ('n \<Rightarrow> 'n) \<Rightarrow> (addr \<Rightarrow> 'n) option" where
  "store h p f = (if p = NULL then None else Some (h(p := f (h p))))"

definition c_assert :: "bool \<Rightarrow> unit option" where
  "c_assert b = (if b then Some () else None)"

named_theorems mem_simps "loads, stores and assertions at known addresses"

lemma load_Some [mem_simps]: "p \<noteq> NULL \<Longrightarrow> load h p = Some (h p)"
  by (simp add: load_def)

lemma load_NULL [mem_simps]: "load h NULL = None"
  by (simp add: load_def)

lemma store_Some [mem_simps]: "p \<noteq> NULL \<Longrightarrow> store h p f = Some (h(p := f (h p)))"
  by (simp add: store_def)

lemma store_NULL [mem_simps]: "store h NULL f = None"
  by (simp add: store_def)

lemma c_assert_True [mem_simps]: "c_assert True = Some ()"
  by (simp add: c_assert_def)

lemma c_assert_False [mem_simps]: "c_assert False = None"
  by (simp add: c_assert_def)

lemma c_assert_SomeD: "c_assert b = Some u \<Longrightarrow> b"
  by (simp add: c_assert_def split: if_splits)

text \<open>
  Recursive programs in the option monad are evaluated with a weak congruence for
  \<open>bind\<close>: the continuation is simplified only once its argument is a value.
\<close>

lemma bind_weak_cong: "m = m' \<Longrightarrow> Option.bind m f = Option.bind m' f"
  by simp

section \<open>Partial results\<close>

text \<open>What holds of the result of a computation if it has one.\<close>

definition pwp :: "'r option \<Rightarrow> ('r \<Rightarrow> bool) \<Rightarrow> bool" where
  "pwp m Q \<longleftrightarrow> (\<forall>r. m = Some r \<longrightarrow> Q r)"

lemma pwp_bind: "pwp m (\<lambda>r. pwp (f r) Q) \<Longrightarrow> pwp (m \<bind> f) Q"
  by (auto simp: pwp_def bind_eq_Some_conv)

lemma pwp_Some: "Q r \<Longrightarrow> pwp (Some r) Q"
  by (simp add: pwp_def)

lemma pwp_mono: "pwp m P \<Longrightarrow> (\<And>r. P r \<Longrightarrow> Q r) \<Longrightarrow> pwp m Q"
  by (auto simp: pwp_def)

lemma pwp_if: "(b \<Longrightarrow> pwp m Q) \<Longrightarrow> (\<not> b \<Longrightarrow> pwp m' Q) \<Longrightarrow> pwp (if b then m else m') Q"
  by simp

lemma pwp_let: "pwp (f a) Q \<Longrightarrow> pwp (let x = a in f x) Q"
  by simp

lemma pwp_pair: "pwp (f a b) Q \<Longrightarrow> pwp (case (a, b) of (x, y) \<Rightarrow> f x y) Q"
  by simp

section \<open>Comparators\<close>

text \<open>
  The trees take a C comparator: negative, zero or positive. \<open>cmp_on A cmp\<close> says that
  \<open>cmp\<close> orders the addresses of \<open>A\<close> the way the trees rely on.
\<close>

type_synonym comparator = "addr \<Rightarrow> addr \<Rightarrow> int"

definition cmp_on :: "addr set \<Rightarrow> comparator \<Rightarrow> bool" where
  "cmp_on A cmp \<longleftrightarrow>
     (\<forall>a\<in>A. \<forall>b\<in>A. cmp a b < 0 \<longleftrightarrow> 0 < cmp b a) \<and>
     (\<forall>a\<in>A. \<forall>b\<in>A. \<forall>c\<in>A. cmp a b < 0 \<longrightarrow> cmp b c < 0 \<longrightarrow> cmp a c < 0) \<and>
     (\<forall>a\<in>A. \<forall>b\<in>A. \<forall>c\<in>A. cmp a b = 0 \<longrightarrow> cmp b c < 0 \<longrightarrow> cmp a c < 0) \<and>
     (\<forall>a\<in>A. \<forall>b\<in>A. \<forall>c\<in>A. cmp a b < 0 \<longrightarrow> cmp b c = 0 \<longrightarrow> cmp a c < 0)"

lemma cmp_on_subset: "cmp_on A cmp \<Longrightarrow> B \<subseteq> A \<Longrightarrow> cmp_on B cmp"
  unfolding cmp_on_def by blast

lemma cmp_on_antisym: "cmp_on A cmp \<Longrightarrow> a \<in> A \<Longrightarrow> b \<in> A \<Longrightarrow> cmp a b < 0 \<longleftrightarrow> 0 < cmp b a"
  unfolding cmp_on_def by blast

lemma cmp_on_trans:
  "cmp_on A cmp \<Longrightarrow> a \<in> A \<Longrightarrow> b \<in> A \<Longrightarrow> c \<in> A \<Longrightarrow> cmp a b < 0 \<Longrightarrow> cmp b c < 0 \<Longrightarrow> cmp a c < 0"
  unfolding cmp_on_def by blast

lemma cmp_on_eq_less:
  "cmp_on A cmp \<Longrightarrow> a \<in> A \<Longrightarrow> b \<in> A \<Longrightarrow> c \<in> A \<Longrightarrow> cmp a b = 0 \<Longrightarrow> cmp b c < 0 \<Longrightarrow> cmp a c < 0"
  unfolding cmp_on_def by blast

lemma cmp_on_less_eq:
  "cmp_on A cmp \<Longrightarrow> a \<in> A \<Longrightarrow> b \<in> A \<Longrightarrow> c \<in> A \<Longrightarrow> cmp a b < 0 \<Longrightarrow> cmp b c = 0 \<Longrightarrow> cmp a c < 0"
  unfolding cmp_on_def by blast

text \<open>The in-order list of a search tree under a comparator.\<close>

abbreviation cmp_sorted :: "comparator \<Rightarrow> addr list \<Rightarrow> bool" where
  "cmp_sorted cmp \<equiv> sorted_wrt (\<lambda>a b. cmp a b < 0)"

text \<open>Where a search tree puts a new element: before the first larger one.\<close>

fun cmp_insert :: "comparator \<Rightarrow> addr \<Rightarrow> addr list \<Rightarrow> addr list" where
  "cmp_insert cmp x [] = [x]"
| "cmp_insert cmp x (y # ys) = (if cmp x y < 0 then x # y # ys else y # cmp_insert cmp x ys)"

lemma set_cmp_insert [simp]: "set (cmp_insert cmp x ys) = insert x (set ys)"
  by (induction ys) auto

lemma length_cmp_insert [simp]: "length (cmp_insert cmp x ys) = Suc (length ys)"
  by (induction ys) auto

lemma cmp_insert_split:
  "(\<forall>y\<in>set ys. \<not> cmp x y < 0) \<Longrightarrow> (\<forall>z\<in>set zs. cmp x z < 0) \<Longrightarrow>
   cmp_insert cmp x (ys @ zs) = ys @ x # zs"
proof (induction ys)
  case Nil
  then show ?case by (cases zs) auto
next
  case (Cons y ys)
  then show ?case by simp
qed

lemma cmp_sorted_insert:
  assumes "cmp_sorted cmp ys" and "cmp_on (insert x (set ys)) cmp" and "\<forall>y\<in>set ys. cmp x y \<noteq> 0"
  shows "cmp_sorted cmp (cmp_insert cmp x ys)"
  using assms
proof (induction ys)
  case Nil
  then show ?case by simp
next
  case (Cons y ys)
  have sub: "cmp_on (insert x (set ys)) cmp"
    using Cons.prems(2) by (rule cmp_on_subset) auto
  show ?case
  proof (cases "cmp x y < 0")
    case True
    then have "\<forall>z\<in>set ys. cmp x z < 0"
      using Cons.prems(1,2) by (auto intro: cmp_on_trans [of _ cmp x y])
    with True Cons.prems show ?thesis by simp
  next
    case False
    with Cons.prems(3) have "0 < cmp x y" by (simp add: not_less order_le_less)
    then have "cmp y x < 0" using cmp_on_antisym [OF Cons.prems(2), of y x] by simp
    with False Cons sub show ?thesis by simp
  qed
qed

section \<open>Counting\<close>

text \<open>How many keys of a map have a property after one update; the thread counters rely on it.\<close>

lemma card_upd:
  assumes "finite {x. P (f x)}"
  shows "finite {x. P ((f(a := q)) x)} \<and>
    int (card {x. P ((f(a := q)) x)}) = int (card {x. P (f x)}) + of_bool (P q) - of_bool (P (f a))"
proof -
  have "{x. P ((f(a := q)) x)} = (if P q then insert a {x. P (f x)} else {x. P (f x)} - {a})" by auto
  moreover have "P (f a) \<Longrightarrow> 1 \<le> card {x. P (f x)}" using assms by (auto simp: Suc_le_eq card_gt_0_iff)
  ultimately show ?thesis using assms
    by (cases "P (f a)") (auto simp: card_insert_if card_Diff_singleton of_nat_diff)
qed

end
