(* ===== verification/RB_Tree.thy ===== *)
theory RB_Tree
  imports Prelude
begin

text \<open>
  The red-black tree of \<open>include/rb_tree.h\<close> and \<open>common/rb_tree.c\<close>, as the C code has
  it: nodes with parent, left and right pointers and an integer colour, mutated in place.
  \<open>rb_tree\<close> holds the root pointer, the counter and the store of all nodes; the
  comparator and the searcher, function pointers of the C struct, are arguments.
  Every loop is a \<open>partial_function\<close> in the option monad; that it returns is
  a theorem of \<open>RB_Insert\<close>, \<open>RB_Remove\<close> and \<open>RB_Query\<close>.
\<close>

section \<open>Nodes and trees (include/rb_tree.h)\<close>

record rb_node =
  rb_parent :: addr
  rb_left :: addr
  rb_right :: addr
  rb_color :: int

record rb_tree =
  rb_root :: addr
  rb_count :: "64 word"
  rb_nodes :: "addr \<Rightarrow> rb_node"

definition RB_RED :: int where
  "RB_RED = 0"

definition RB_BLACK :: int where
  "RB_BLACK = 1"

definition rb_get :: "rb_tree \<Rightarrow> addr \<Rightarrow> rb_node option" where
  "rb_get T p = load (rb_nodes T) p"

definition rb_set :: "rb_tree \<Rightarrow> addr \<Rightarrow> (rb_node \<Rightarrow> rb_node) \<Rightarrow> rb_tree option" where
  "rb_set T p f = map_option (\<lambda>h. T\<lparr>rb_nodes := h\<rparr>) (store (rb_nodes T) p f)"

definition rb_tree_init :: "rb_tree \<Rightarrow> rb_tree" where
  "rb_tree_init T = T\<lparr>rb_root := NULL, rb_count := 0\<rparr>"

definition rb_is_red :: "rb_tree \<Rightarrow> addr \<Rightarrow> bool option" where
  "rb_is_red T p = do { n \<leftarrow> rb_get T p; Some (rb_color n = RB_RED) }"

definition rb_is_red_safe :: "rb_tree \<Rightarrow> addr \<Rightarrow> bool" where
  "rb_is_red_safe T p \<longleftrightarrow> p \<noteq> NULL \<and> rb_color (rb_nodes T p) = RB_RED"

definition rb_is_black :: "rb_tree \<Rightarrow> addr \<Rightarrow> bool" where
  "rb_is_black T p \<longleftrightarrow> p = NULL \<or> rb_color (rb_nodes T p) = RB_BLACK"

definition rb_set_red :: "rb_tree \<Rightarrow> addr \<Rightarrow> rb_tree option" where
  "rb_set_red T p = rb_set T p (rb_color_update (\<lambda>_. RB_RED))"

definition rb_set_black :: "rb_tree \<Rightarrow> addr \<Rightarrow> rb_tree option" where
  "rb_set_black T p = rb_set T p (rb_color_update (\<lambda>_. RB_BLACK))"

section \<open>Rotations\<close>

text \<open>
  The block both rotations and \<open>rb_remove\<close> share: the child link of \<open>parent\<close> that
  points to \<open>old\<close>, or the root pointer when there is no parent, is redirected to \<open>new\<close>.
\<close>

definition rb_replace_child :: "addr \<Rightarrow> addr \<Rightarrow> addr \<Rightarrow> rb_tree \<Rightarrow> rb_tree option" where
  "rb_replace_child parent old new T =
     (if parent \<noteq> NULL then do {
        p \<leftarrow> rb_get T parent;
        if rb_left p = old then rb_set T parent (rb_left_update (\<lambda>_. new))
        else rb_set T parent (rb_right_update (\<lambda>_. new))
      } else Some (T\<lparr>rb_root := new\<rparr>))"

definition rb_rotate_left :: "addr \<Rightarrow> rb_tree \<Rightarrow> rb_tree option" where
  "rb_rotate_left node T = do {
     n \<leftarrow> rb_get T node;
     let parent = rb_parent n;
     let right = rb_right n;
     r \<leftarrow> rb_get T right;
     T \<leftarrow> rb_set T node (rb_right_update (\<lambda>_. rb_left r));
     r \<leftarrow> rb_get T right;
     T \<leftarrow> (if rb_left r \<noteq> NULL then rb_set T (rb_left r) (rb_parent_update (\<lambda>_. node)) else Some T);
     T \<leftarrow> rb_set T right (rb_left_update (\<lambda>_. node));
     T \<leftarrow> rb_set T node (rb_parent_update (\<lambda>_. right));
     T \<leftarrow> rb_replace_child parent node right T;
     rb_set T right (rb_parent_update (\<lambda>_. parent))
   }"

definition rb_rotate_right :: "addr \<Rightarrow> rb_tree \<Rightarrow> rb_tree option" where
  "rb_rotate_right node T = do {
     n \<leftarrow> rb_get T node;
     let parent = rb_parent n;
     let left = rb_left n;
     l \<leftarrow> rb_get T left;
     T \<leftarrow> rb_set T node (rb_left_update (\<lambda>_. rb_right l));
     l \<leftarrow> rb_get T left;
     T \<leftarrow> (if rb_right l \<noteq> NULL then rb_set T (rb_right l) (rb_parent_update (\<lambda>_. node)) else Some T);
     T \<leftarrow> rb_set T left (rb_right_update (\<lambda>_. node));
     T \<leftarrow> rb_set T node (rb_parent_update (\<lambda>_. left));
     T \<leftarrow> rb_replace_child parent node left T;
     rb_set T left (rb_parent_update (\<lambda>_. parent))
   }"

section \<open>Insertion\<close>

partial_function (option) rb_insert_color :: "addr \<Rightarrow> rb_tree \<Rightarrow> rb_tree option" where
  "rb_insert_color node T = do {
     n \<leftarrow> rb_get T node;
     let parent = rb_parent n;
     if \<not> rb_is_red_safe T parent then rb_set_black T (rb_root T)
     else do {
       p \<leftarrow> rb_get T parent;
       let grandparent = rb_parent p;
       g \<leftarrow> rb_get T grandparent;
       if parent = rb_left g then do {
         let uncle = rb_right g;
         if rb_is_red_safe T uncle then do {
           T \<leftarrow> rb_set_black T parent;
           T \<leftarrow> rb_set_black T uncle;
           T \<leftarrow> rb_set_red T grandparent;
           rb_insert_color grandparent T
         } else do {
           (node, parent, T) \<leftarrow>
             (if node = rb_right p
              then do { T \<leftarrow> rb_rotate_left parent T; Some (parent, node, T) }
              else Some (node, parent, T));
           T \<leftarrow> rb_set_red T grandparent;
           T \<leftarrow> rb_set_black T parent;
           rb_rotate_right grandparent T
         }
       } else do {
         let uncle = rb_left g;
         if rb_is_red_safe T uncle then do {
           T \<leftarrow> rb_set_black T parent;
           T \<leftarrow> rb_set_black T uncle;
           T \<leftarrow> rb_set_red T grandparent;
           rb_insert_color grandparent T
         } else do {
           (node, parent, T) \<leftarrow>
             (if node = rb_left p
              then do { T \<leftarrow> rb_rotate_right parent T; Some (parent, node, T) }
              else Some (node, parent, T));
           T \<leftarrow> rb_set_red T grandparent;
           T \<leftarrow> rb_set_black T parent;
           rb_rotate_left grandparent T
         }
       }
     }
   }"

text \<open>The \<open>struct rb_node **link\<close> of \<open>rb_insert\<close>: the root pointer or a child field.\<close>

datatype rb_link = RootLink | LeftLink addr | RightLink addr

fun rb_read_link :: "rb_tree \<Rightarrow> rb_link \<Rightarrow> addr option" where
  "rb_read_link T RootLink = Some (rb_root T)"
| "rb_read_link T (LeftLink p) = map_option rb_left (rb_get T p)"
| "rb_read_link T (RightLink p) = map_option rb_right (rb_get T p)"

fun rb_write_link :: "rb_tree \<Rightarrow> rb_link \<Rightarrow> addr \<Rightarrow> rb_tree option" where
  "rb_write_link T RootLink v = Some (T\<lparr>rb_root := v\<rparr>)"
| "rb_write_link T (LeftLink p) v = rb_set T p (rb_left_update (\<lambda>_. v))"
| "rb_write_link T (RightLink p) v = rb_set T p (rb_right_update (\<lambda>_. v))"

partial_function (option) rb_insert_find ::
    "comparator \<Rightarrow> addr \<Rightarrow> rb_link \<Rightarrow> addr \<Rightarrow> rb_tree \<Rightarrow> (addr + rb_link \<times> addr) option" where
  "rb_insert_find comparator node link parent T = do {
     cur \<leftarrow> rb_read_link T link;
     if cur = NULL then Some (Inr (link, parent))
     else let cmp = comparator node cur in
       if cmp = 0 then Some (Inl cur)
       else rb_insert_find comparator node (if cmp > 0 then RightLink cur else LeftLink cur) cur T
   }"

definition rb_insert :: "comparator \<Rightarrow> addr \<Rightarrow> rb_tree \<Rightarrow> (addr \<times> rb_tree) option" where
  "rb_insert comparator node T = do {
     res \<leftarrow> rb_insert_find comparator node RootLink NULL T;
     case res of
       Inl dup \<Rightarrow> Some (dup, T)
     | Inr (link, parent) \<Rightarrow> do {
         T \<leftarrow> rb_set T node (\<lambda>n. n\<lparr>rb_color := RB_RED, rb_left := NULL, rb_right := NULL, rb_parent := parent\<rparr>);
         T \<leftarrow> rb_write_link T link node;
         T \<leftarrow> rb_insert_color node T;
         Some (node, T\<lparr>rb_count := rb_count T + 1\<rparr>)
       }
   }"

section \<open>Removal\<close>

text \<open>The exchange of two colours by three exclusive-ors.\<close>

definition rb_swap_color :: "addr \<Rightarrow> addr \<Rightarrow> rb_tree \<Rightarrow> rb_tree option" where
  "rb_swap_color p s T = do {
     a \<leftarrow> rb_get T p;
     b \<leftarrow> rb_get T s;
     T \<leftarrow> rb_set T p (rb_color_update (\<lambda>_. xor (rb_color a) (rb_color b)));
     a \<leftarrow> rb_get T p;
     b \<leftarrow> rb_get T s;
     T \<leftarrow> rb_set T s (rb_color_update (\<lambda>_. xor (rb_color a) (rb_color b)));
     a \<leftarrow> rb_get T p;
     b \<leftarrow> rb_get T s;
     rb_set T p (rb_color_update (\<lambda>_. xor (rb_color a) (rb_color b)))
   }"

partial_function (option) rb_remove_color :: "addr \<Rightarrow> addr \<Rightarrow> rb_tree \<Rightarrow> rb_tree option" where
  "rb_remove_color node parent T =
     (if rb_is_black T node \<and> node \<noteq> rb_root T then do {
        p \<leftarrow> rb_get T parent;
        if rb_left p = node then do {
          let silbing = rb_right p;
          red \<leftarrow> rb_is_red T silbing;
          (silbing, T) \<leftarrow>
            (if red then do {
               T \<leftarrow> rb_set_red T parent;
               T \<leftarrow> rb_set_black T silbing;
               T \<leftarrow> rb_rotate_left parent T;
               p \<leftarrow> rb_get T parent;
               Some (rb_right p, T)
             } else Some (silbing, T));
          s \<leftarrow> rb_get T silbing;
          if rb_is_black T (rb_left s) \<and> rb_is_black T (rb_right s) then do {
            T \<leftarrow> rb_set_red T silbing;
            p \<leftarrow> rb_get T parent;
            rb_remove_color parent (rb_parent p) T
          } else do {
            (silbing, T) \<leftarrow>
              (if rb_is_black T (rb_right s) then do {
                 T \<leftarrow> rb_set_red T silbing;
                 T \<leftarrow> rb_set_black T (rb_left s);
                 T \<leftarrow> rb_rotate_right silbing T;
                 p \<leftarrow> rb_get T parent;
                 Some (rb_right p, T)
               } else Some (silbing, T));
            T \<leftarrow> rb_swap_color parent silbing T;
            s \<leftarrow> rb_get T silbing;
            T \<leftarrow> rb_set_black T (rb_right s);
            T \<leftarrow> rb_rotate_left parent T;
            if rb_root T \<noteq> NULL then rb_set_black T (rb_root T) else Some T
          }
        } else do {
          let silbing = rb_left p;
          red \<leftarrow> rb_is_red T silbing;
          (silbing, T) \<leftarrow>
            (if red then do {
               T \<leftarrow> rb_set_black T silbing;
               T \<leftarrow> rb_set_red T parent;
               T \<leftarrow> rb_rotate_right parent T;
               p \<leftarrow> rb_get T parent;
               Some (rb_left p, T)
             } else Some (silbing, T));
          s \<leftarrow> rb_get T silbing;
          if rb_is_black T (rb_left s) \<and> rb_is_black T (rb_right s) then do {
            T \<leftarrow> rb_set_red T silbing;
            p \<leftarrow> rb_get T parent;
            rb_remove_color parent (rb_parent p) T
          } else do {
            (silbing, T) \<leftarrow>
              (if rb_is_black T (rb_left s) then do {
                 T \<leftarrow> rb_set_red T silbing;
                 T \<leftarrow> rb_set_black T (rb_right s);
                 T \<leftarrow> rb_rotate_left silbing T;
                 p \<leftarrow> rb_get T parent;
                 Some (rb_left p, T)
               } else Some (silbing, T));
            T \<leftarrow> rb_swap_color parent silbing T;
            s \<leftarrow> rb_get T silbing;
            T \<leftarrow> rb_set_black T (rb_left s);
            T \<leftarrow> rb_rotate_right parent T;
            if rb_root T \<noteq> NULL then rb_set_black T (rb_root T) else Some T
          }
        }
      } else if node \<noteq> NULL then rb_set_black T node else Some T)"

partial_function (option) rb_leftmost :: "addr \<Rightarrow> rb_tree \<Rightarrow> addr option" where
  "rb_leftmost p T = do {
     n \<leftarrow> rb_get T p;
     if rb_left n \<noteq> NULL then rb_leftmost (rb_left n) T else Some p
   }"

partial_function (option) rb_rightmost :: "addr \<Rightarrow> rb_tree \<Rightarrow> addr option" where
  "rb_rightmost p T = do {
     n \<leftarrow> rb_get T p;
     if rb_right n \<noteq> NULL then rb_rightmost (rb_right n) T else Some p
   }"

text \<open>
  The branch of \<open>rb_remove\<close> for a node with two children: \<open>replace\<close>, the leftmost
  node of the right subtree, takes the place and the colour of \<open>node\<close>. The result is the
  pair \<open>child\<close>, \<open>parent\<close> handed to the label \<open>color_fix\<close>.
\<close>

definition rb_remove_two :: "addr \<Rightarrow> rb_tree \<Rightarrow> (addr \<times> addr \<times> rb_tree) option" where
  "rb_remove_two node T = do {
     n \<leftarrow> rb_get T node;
     replace \<leftarrow> rb_leftmost (rb_right n) T;
     s \<leftarrow> rb_get T replace;
     let child = rb_right s;
     let parent = rb_parent s;
     T \<leftarrow> rb_replace_child (rb_parent n) node replace T;
     T \<leftarrow> rb_set T replace (rb_parent_update (\<lambda>_. rb_parent n));
     T \<leftarrow> rb_set T replace (rb_left_update (\<lambda>_. rb_left n));
     T \<leftarrow> rb_set T (rb_left n) (rb_parent_update (\<lambda>_. replace));
     (parent, T) \<leftarrow>
       (if parent = node then Some (replace, T)
        else do {
          T \<leftarrow> (if child \<noteq> NULL then rb_set T child (rb_parent_update (\<lambda>_. parent)) else Some T);
          T \<leftarrow> rb_set T parent (rb_left_update (\<lambda>_. child));
          T \<leftarrow> rb_set T replace (rb_right_update (\<lambda>_. rb_right n));
          T \<leftarrow> rb_set T (rb_right n) (rb_parent_update (\<lambda>_. replace));
          Some (parent, T)
        });
     T \<leftarrow> rb_swap_color replace node T;
     Some (child, parent, T)
   }"

definition rb_remove_one :: "addr \<Rightarrow> addr \<Rightarrow> rb_tree \<Rightarrow> (addr \<times> addr \<times> rb_tree) option" where
  "rb_remove_one node child T = do {
     n \<leftarrow> rb_get T node;
     let parent = rb_parent n;
     T \<leftarrow> (if child \<noteq> NULL then rb_set T child (rb_parent_update (\<lambda>_. parent)) else Some T);
     T \<leftarrow> rb_replace_child parent node child T;
     Some (child, parent, T)
   }"

definition rb_remove :: "addr \<Rightarrow> rb_tree \<Rightarrow> rb_tree option" where
  "rb_remove node T = do {
     n \<leftarrow> rb_get T node;
     (child, parent, T) \<leftarrow>
       (if rb_left n = NULL then rb_remove_one node (rb_right n) T
        else if rb_right n = NULL then rb_remove_one node (rb_left n) T
        else rb_remove_two node T);
     n \<leftarrow> rb_get T node;
     T \<leftarrow> (if rb_color n = RB_BLACK then rb_remove_color child parent T else Some T);
     Some (T\<lparr>rb_count := rb_count T - 1\<rparr>)
   }"

section \<open>Search and traversal\<close>

partial_function (option) rb_search_from :: "(addr \<Rightarrow> int) \<Rightarrow> addr \<Rightarrow> rb_tree \<Rightarrow> addr option" where
  "rb_search_from searcher t T =
     (if t = NULL then Some NULL
      else do {
        n \<leftarrow> rb_get T t;
        let cmp = searcher t;
        if cmp < 0 then rb_search_from searcher (rb_left n) T
        else if cmp > 0 then rb_search_from searcher (rb_right n) T
        else Some t
      })"

definition rb_search :: "(addr \<Rightarrow> int) \<Rightarrow> rb_tree \<Rightarrow> addr option" where
  "rb_search searcher T = rb_search_from searcher (rb_root T) T"

definition rb_first :: "rb_tree \<Rightarrow> addr option" where
  "rb_first T = (if rb_root T = NULL then Some NULL else rb_leftmost (rb_root T) T)"

definition rb_last :: "rb_tree \<Rightarrow> addr option" where
  "rb_last T = (if rb_root T = NULL then Some NULL else rb_rightmost (rb_root T) T)"

partial_function (option) rb_climb_right :: "addr \<Rightarrow> rb_tree \<Rightarrow> addr option" where
  "rb_climb_right node T = do {
     n \<leftarrow> rb_get T node;
     if rb_parent n = NULL then Some NULL
     else do {
       p \<leftarrow> rb_get T (rb_parent n);
       if rb_right p = node then rb_climb_right (rb_parent n) T else Some (rb_parent n)
     }
   }"

partial_function (option) rb_climb_left :: "addr \<Rightarrow> rb_tree \<Rightarrow> addr option" where
  "rb_climb_left node T = do {
     n \<leftarrow> rb_get T node;
     if rb_parent n = NULL then Some NULL
     else do {
       p \<leftarrow> rb_get T (rb_parent n);
       if rb_left p = node then rb_climb_left (rb_parent n) T else Some (rb_parent n)
     }
   }"

definition rb_next :: "addr \<Rightarrow> rb_tree \<Rightarrow> addr option" where
  "rb_next node T = do {
     n \<leftarrow> rb_get T node;
     if rb_right n \<noteq> NULL then rb_leftmost (rb_right n) T else rb_climb_right node T
   }"

definition rb_prev :: "addr \<Rightarrow> rb_tree \<Rightarrow> addr option" where
  "rb_prev node T = do {
     n \<leftarrow> rb_get T node;
     if rb_left n \<noteq> NULL then rb_rightmost (rb_left n) T else rb_climb_left node T
   }"

end
