(* ===== verification/RB_Shape.thy ===== *)
theory RB_Shape
  imports RB_Tree
begin

text \<open>
  What the node store of \<open>RB_Tree\<close> means: \<open>zip_at T t k\<close> says that the store of \<open>T\<close>
  holds the tree \<open>t\<close> at the hole of the context \<open>k\<close> (the path from the hole to the root,
  innermost first), with all parent pointers right. The focus moves freely
  (\<open>zip_at_left\<close>, \<open>zip_at_right\<close>), and each pointer operation of the code is one
  lemma on \<open>zip_at\<close>. The red-black invariant is stated for trees (\<open>rbinv\<close>) and for
  contexts (\<open>kinv\<close>).
\<close>

section \<open>Trees and contexts of addresses\<close>

datatype rbt = Lf | Nd rbt addr int rbt

datatype crumb = LeftOf addr int rbt | RightOf addr int rbt

fun root_of :: "rbt \<Rightarrow> addr" where
  "root_of Lf = NULL"
| "root_of (Nd l a c r) = a"

fun addrs :: "rbt \<Rightarrow> addr list" where
  "addrs Lf = []"
| "addrs (Nd l a c r) = addrs l @ a # addrs r"

fun crumb_addr :: "crumb \<Rightarrow> addr" where
  "crumb_addr (LeftOf a c r) = a"
| "crumb_addr (RightOf a c l) = a"

fun crumb_color :: "crumb \<Rightarrow> int" where
  "crumb_color (LeftOf a c r) = c"
| "crumb_color (RightOf a c l) = c"

fun crumb_tree :: "crumb \<Rightarrow> rbt" where
  "crumb_tree (LeftOf a c r) = r"
| "crumb_tree (RightOf a c l) = l"

fun par_of :: "crumb list \<Rightarrow> addr" where
  "par_of [] = NULL"
| "par_of (x # k) = crumb_addr x"

fun kaddrs :: "crumb list \<Rightarrow> addr list" where
  "kaddrs [] = []"
| "kaddrs (x # k) = crumb_addr x # addrs (crumb_tree x) @ kaddrs k"

fun plug :: "rbt \<Rightarrow> crumb \<Rightarrow> rbt" where
  "plug t (LeftOf a c r) = Nd t a c r"
| "plug t (RightOf a c l) = Nd l a c t"

fun zip_up :: "rbt \<Rightarrow> crumb list \<Rightarrow> rbt" where
  "zip_up t [] = t"
| "zip_up t (x # k) = zip_up (plug t x) k"

text \<open>The in-order list around the hole.\<close>

fun kbefore :: "crumb list \<Rightarrow> addr list" where
  "kbefore [] = []"
| "kbefore (LeftOf a c r # k) = kbefore k"
| "kbefore (RightOf a c l # k) = kbefore k @ addrs l @ [a]"

fun kafter :: "crumb list \<Rightarrow> addr list" where
  "kafter [] = []"
| "kafter (LeftOf a c r # k) = a # addrs r @ kafter k"
| "kafter (RightOf a c l # k) = kafter k"

lemma addrs_zip_up: "addrs (zip_up t k) = kbefore k @ addrs t @ kafter k"
proof (induction k arbitrary: t)
  case (Cons x k)
  then show ?case by (cases x) auto
qed simp

lemma set_kaddrs: "set (kaddrs k) = set (kbefore k) \<union> set (kafter k)"
proof (induction k)
  case (Cons x k)
  then show ?case by (cases x) auto
qed simp

lemma zip_up_append: "zip_up t (k1 @ k2) = zip_up (zip_up t k1) k2"
  by (induction k1 arbitrary: t) auto

lemma kaddrs_append [simp]: "kaddrs (k1 @ k2) = kaddrs k1 @ kaddrs k2"
  by (induction k1) auto

lemma crumb_addr_in: "x \<in> set k \<Longrightarrow> crumb_addr x \<in> set (kaddrs k)"
  by (induction k) auto

lemma root_of_NULL: "NULL \<notin> set (addrs t) \<Longrightarrow> root_of t = NULL \<longleftrightarrow> t = Lf"
  by (cases t) auto

lemma root_of_in: "t \<noteq> Lf \<Longrightarrow> root_of t \<in> set (addrs t)"
  by (cases t) auto

lemma par_of_in: "k \<noteq> [] \<Longrightarrow> par_of k \<in> set (kaddrs k)"
  by (cases k) auto

text \<open>Every address of a tree is the focus of some zipper.\<close>

lemma focus_exists: "n \<in> set (addrs t) \<Longrightarrow> \<exists>l c r k. zip_up (Nd l n c r) k = zip_up t k0"
proof (induction t arbitrary: k0)
  case (Nd l a c r)
  consider "n = a" | "n \<in> set (addrs l)" | "n \<in> set (addrs r)" using Nd.prems by auto
  then show ?case
  proof cases
    case 1
    then show ?thesis by blast
  next
    case 2
    from Nd.IH(1) [OF this, of "LeftOf a c r # k0"] show ?thesis by simp
  next
    case 3
    from Nd.IH(2) [OF this, of "RightOf a c l # k0"] show ?thesis by simp
  qed
qed simp

section \<open>Trees in the store\<close>

fun tree_at :: "(addr \<Rightarrow> rb_node) \<Rightarrow> addr \<Rightarrow> rbt \<Rightarrow> bool" where
  "tree_at h par Lf \<longleftrightarrow> True"
| "tree_at h par (Nd l a c r) \<longleftrightarrow> a \<noteq> NULL \<and>
     h a = \<lparr>rb_parent = par, rb_left = root_of l, rb_right = root_of r, rb_color = c\<rparr> \<and>
     tree_at h a l \<and> tree_at h a r"

fun ctx_at :: "(addr \<Rightarrow> rb_node) \<Rightarrow> addr \<Rightarrow> addr \<Rightarrow> crumb list \<Rightarrow> bool" where
  "ctx_at h rt p [] \<longleftrightarrow> rt = p"
| "ctx_at h rt p (LeftOf a c r # k) \<longleftrightarrow> a \<noteq> NULL \<and>
     h a = \<lparr>rb_parent = par_of k, rb_left = p, rb_right = root_of r, rb_color = c\<rparr> \<and>
     tree_at h a r \<and> ctx_at h rt a k"
| "ctx_at h rt p (RightOf a c l # k) \<longleftrightarrow> a \<noteq> NULL \<and>
     h a = \<lparr>rb_parent = par_of k, rb_left = root_of l, rb_right = p, rb_color = c\<rparr> \<and>
     tree_at h a l \<and> ctx_at h rt a k"

definition zip_at :: "rb_tree \<Rightarrow> rbt \<Rightarrow> crumb list \<Rightarrow> bool" where
  "zip_at T t k \<longleftrightarrow>
     tree_at (rb_nodes T) (par_of k) t \<and>
     ctx_at (rb_nodes T) (rb_root T) (root_of t) k \<and>
     distinct (addrs t @ kaddrs k)"

lemma tree_at_cong: "(\<And>a. a \<in> set (addrs t) \<Longrightarrow> h a = h' a) \<Longrightarrow> tree_at h par t = tree_at h' par t"
  by (induction t arbitrary: par) auto

lemma ctx_at_cong: "(\<And>a. a \<in> set (kaddrs k) \<Longrightarrow> h a = h' a) \<Longrightarrow> ctx_at h rt p k = ctx_at h' rt p k"
proof (induction k arbitrary: p)
  case (Cons y k)
  have "tree_at h par (crumb_tree y) = tree_at h' par (crumb_tree y)" for par
    by (rule tree_at_cong) (simp add: Cons.prems)
  with Cons show ?case by (cases y) auto
qed simp

lemma tree_at_upd [simp]: "a \<notin> set (addrs t) \<Longrightarrow> tree_at (h(a := x)) par t = tree_at h par t"
  by (rule tree_at_cong) auto

lemma ctx_at_upd [simp]: "a \<notin> set (kaddrs k) \<Longrightarrow> ctx_at (h(a := x)) rt p k = ctx_at h rt p k"
  by (rule ctx_at_cong) auto

lemma tree_at_NULL: "tree_at h par t \<Longrightarrow> NULL \<notin> set (addrs t)"
  by (induction t arbitrary: par) auto

lemma ctx_at_NULL: "ctx_at h rt p k \<Longrightarrow> NULL \<notin> set (kaddrs k)"
proof (induction k arbitrary: p)
  case (Cons y k)
  then show ?case by (cases y) (auto dest: tree_at_NULL)
qed simp

lemma zip_at_NULL: "zip_at T t k \<Longrightarrow> NULL \<notin> set (addrs t) \<and> NULL \<notin> set (kaddrs k)"
  unfolding zip_at_def by (blast dest: tree_at_NULL ctx_at_NULL)

text \<open>Moving the focus.\<close>

lemma zip_at_left: "zip_at T (Nd l a c r) k \<longleftrightarrow> zip_at T l (LeftOf a c r # k)"
  unfolding zip_at_def by auto

lemma zip_at_right: "zip_at T (Nd l a c r) k \<longleftrightarrow> zip_at T r (RightOf a c l # k)"
  unfolding zip_at_def by auto

lemma zip_at_plug: "zip_at T (plug t x) k \<longleftrightarrow> zip_at T t (x # k)"
  using zip_at_left zip_at_right by (cases x) auto

lemma zip_at_up: "zip_at T (zip_up t k) k' \<longleftrightarrow> zip_at T t (k @ k')"
  by (induction k arbitrary: t) (auto simp: zip_at_plug)

lemma zip_at_top: "zip_at T (zip_up t k) [] \<longleftrightarrow> zip_at T t k"
  using zip_at_up [of T t k "[]"] by simp

lemma zip_at_node:
  assumes "zip_at T (Nd l a c r) k"
  shows "a \<noteq> NULL"
    and "rb_nodes T a = \<lparr>rb_parent = par_of k, rb_left = root_of l, rb_right = root_of r, rb_color = c\<rparr>"
  using assms unfolding zip_at_def by auto

lemma zip_at_root: "zip_at T t [] \<Longrightarrow> rb_root T = root_of t"
  unfolding zip_at_def by simp

lemma zip_at_get:
  "zip_at T (Nd l a c r) k \<Longrightarrow>
   rb_get T a = Some \<lparr>rb_parent = par_of k, rb_left = root_of l, rb_right = root_of r, rb_color = c\<rparr>"
  using zip_at_node [of T l a c r k] by (simp add: rb_get_def mem_simps)

lemma zip_at_count [simp]: "zip_at (T\<lparr>rb_count := n\<rparr>) t k = zip_at T t k"
  unfolding zip_at_def by simp

text \<open>The parent crumb, read from the hole.\<close>

lemma zip_at_crumb:
  assumes "zip_at T t (x # k)"
  shows "rb_get T (crumb_addr x) = Some
    (case x of
       LeftOf a c r \<Rightarrow> \<lparr>rb_parent = par_of k, rb_left = root_of t, rb_right = root_of r, rb_color = c\<rparr>
     | RightOf a c l \<Rightarrow> \<lparr>rb_parent = par_of k, rb_left = root_of l, rb_right = root_of t, rb_color = c\<rparr>)"
proof (cases x)
  case (LeftOf a c r)
  with assms have "zip_at T (Nd t a c r) k" by (simp add: zip_at_left)
  with LeftOf show ?thesis by (simp add: zip_at_get)
next
  case (RightOf a c l)
  with assms have "zip_at T (Nd l a c t) k" by (simp add: zip_at_right)
  with RightOf show ?thesis by (simp add: zip_at_get)
qed

text \<open>Only the root of a hole can be the tree's root.\<close>

lemma zip_at_root_iff:
  assumes "zip_at T t (x # k)"
  shows "root_of t \<noteq> rb_root T"
proof -
  have top: "zip_at T (zip_up t (x # k)) []" using assms by (simp only: zip_at_top)
  have ne: "zip_up t (x # k) \<noteq> Lf"
  proof -
    have "addrs (zip_up t (x # k)) \<noteq> []"
      by (cases x) (auto simp: addrs_zip_up simp del: zip_up.simps)
    then show ?thesis by auto
  qed
  have last: "\<exists>y\<in>set (x # k). root_of (zip_up t (x # k)) = crumb_addr y" for x k t
  proof (induction k arbitrary: t x)
    case Nil
    then show ?case by (cases x) auto
  next
    case (Cons y k)
    from Cons [of y "plug t x"] show ?case by auto
  qed
  have sub: "y \<in> set (x # k) \<Longrightarrow> crumb_addr y \<in> set (kaddrs (x # k))" for y
    by (rule crumb_addr_in)
  have "rb_root T = root_of (zip_up t (x # k))" using top by (rule zip_at_root)
  with last [of x k t] sub have mem: "rb_root T \<in> set (kaddrs (x # k))" by metis
  show ?thesis
  proof (cases t)
    case Lf
    with mem zip_at_NULL [OF assms] show ?thesis by auto
  next
    case (Nd l a c r)
    with mem assms show ?thesis unfolding zip_at_def by auto
  qed
qed


text \<open>
  The pointer operations of \<open>RB_Tree\<close> on \<open>zip_at\<close> (child replacement, the two
  rotations, painting and the colour exchange), and the red-black invariant for trees and
  contexts.
\<close>

section \<open>Pointer surgery\<close>

lemma replace_child:
  assumes "ctx_at (rb_nodes T) (rb_root T) old k" and "old \<notin> set (kaddrs k)" and "old \<noteq> NULL"
    and "distinct (kaddrs k)"
  obtains T' where "rb_replace_child (par_of k) old new T = Some T'"
    and "ctx_at (rb_nodes T') (rb_root T') new k" and "rb_count T' = rb_count T"
    and "\<And>p. p \<notin> set (kaddrs k) \<Longrightarrow> rb_nodes T' p = rb_nodes T p"
proof (cases k)
  case Nil
  with assms that [of "T\<lparr>rb_root := new\<rparr>"] show ?thesis
    by (simp add: rb_replace_child_def)
next
  case (Cons x k')
  show ?thesis
  proof (cases x)
    case (LeftOf a c r)
    with assms Cons that [of "T\<lparr>rb_nodes := (rb_nodes T)(a := (rb_nodes T a)\<lparr>rb_left := new\<rparr>)\<rparr>"]
    show ?thesis by (simp add: rb_replace_child_def rb_get_def rb_set_def mem_simps)
  next
    case (RightOf a c l)
    have "root_of l \<noteq> old" using assms Cons RightOf by (cases l) auto
    with assms Cons RightOf that [of "T\<lparr>rb_nodes := (rb_nodes T)(a := (rb_nodes T a)\<lparr>rb_right := new\<rparr>)\<rparr>"]
    show ?thesis by (simp add: rb_replace_child_def rb_get_def rb_set_def mem_simps)
  qed
qed

lemma tree_at_frame:
  "tree_at h par t \<Longrightarrow> (\<And>a. a \<in> set (addrs t) \<Longrightarrow> h' a = h a) \<Longrightarrow> tree_at h' par t"
  using tree_at_cong by metis

lemma ctx_at_frame:
  "ctx_at h rt p k \<Longrightarrow> (\<And>a. a \<in> set (kaddrs k) \<Longrightarrow> h' a = h a) \<Longrightarrow> ctx_at h' rt p k"
  using ctx_at_cong by metis

lemma tree_at_reparent:
  assumes "tree_at h par t" and "distinct (addrs t)"
  shows "tree_at (if root_of t = NULL then h else h(root_of t := (h (root_of t))\<lparr>rb_parent := par'\<rparr>)) par' t"
  using assms by (cases t) auto

lemma rotate_left:
  assumes "zip_at T (Nd a n c (Nd y x d z)) k"
  obtains T' where "rb_rotate_left n T = Some T'" and "zip_at T' (Nd (Nd a n c y) x d z) k"
    and "rb_count T' = rb_count T"
proof -
  let ?h = "rb_nodes T"
  have n: "n \<noteq> NULL" "?h n = \<lparr>rb_parent = par_of k, rb_left = root_of a, rb_right = x, rb_color = c\<rparr>"
    and x: "x \<noteq> NULL" "?h x = \<lparr>rb_parent = n, rb_left = root_of y, rb_right = root_of z, rb_color = d\<rparr>"
    and ta: "tree_at ?h n a" and ty: "tree_at ?h x y" and tz: "tree_at ?h x z"
    and k: "ctx_at ?h (rb_root T) n k"
    and dist: "distinct (addrs (Nd a n c (Nd y x d z)) @ kaddrs k)"
    using assms unfolding zip_at_def by auto
  have y0: "root_of y = NULL \<longleftrightarrow> y = Lf" using tree_at_NULL [OF ty] by (rule root_of_NULL)
  define h1 where "h1 = ?h(n := (?h n)\<lparr>rb_right := root_of y\<rparr>)"
  define h2 where "h2 = (if root_of y = NULL then h1 else h1(root_of y := (h1 (root_of y))\<lparr>rb_parent := n\<rparr>))"
  define h3 where "h3 = h2(x := (h2 x)\<lparr>rb_left := n\<rparr>)"
  define h4 where "h4 = h3(n := (h3 n)\<lparr>rb_parent := x\<rparr>)"
  have ry: "y \<noteq> Lf \<Longrightarrow> root_of y \<in> set (addrs y)" by (rule root_of_in)
  have out: "p \<noteq> n \<Longrightarrow> p \<noteq> x \<Longrightarrow> p \<notin> set (addrs y) \<Longrightarrow> h4 p = ?h p" for p
    using ry y0 by (auto simp: h1_def h2_def h3_def h4_def)
  have h4n: "h4 n = \<lparr>rb_parent = x, rb_left = root_of a, rb_right = root_of y, rb_color = c\<rparr>"
    using n dist ry y0 by (auto simp: h1_def h2_def h3_def h4_def)
  have h4x: "h4 x = \<lparr>rb_parent = n, rb_left = n, rb_right = root_of z, rb_color = d\<rparr>"
    using x dist ry y0 by (auto simp: h1_def h2_def h3_def h4_def)
  have t4y: "tree_at h4 n y"
  proof -
    have "tree_at h1 x y" using ty dist by (simp add: h1_def)
    then have "tree_at h2 n y" using dist by (simp add: h2_def tree_at_reparent)
    then show ?thesis using dist by (simp add: h3_def h4_def)
  qed
  have t4a: "tree_at h4 n a" by (rule tree_at_frame [OF ta], rule out) (use dist in auto)
  have t4z: "tree_at h4 x z" by (rule tree_at_frame [OF tz], rule out) (use dist in auto)
  have k4: "ctx_at (rb_nodes (T\<lparr>rb_nodes := h4\<rparr>)) (rb_root (T\<lparr>rb_nodes := h4\<rparr>)) n k"
    by simp (rule ctx_at_frame [OF k], rule out, use dist in auto)
  from dist have nk: "n \<notin> set (kaddrs k)" "distinct (kaddrs k)" by auto
  from k4 nk(1) n(1) nk(2) obtain T5 where T5: "rb_replace_child (par_of k) n x (T\<lparr>rb_nodes := h4\<rparr>) = Some T5"
    "ctx_at (rb_nodes T5) (rb_root T5) x k" "rb_count T5 = rb_count T"
    "\<And>p. p \<notin> set (kaddrs k) \<Longrightarrow> rb_nodes T5 p = h4 p"
    by (rule replace_child [where new = x]) auto
  let ?T' = "T5\<lparr>rb_nodes := (rb_nodes T5)(x := (rb_nodes T5 x)\<lparr>rb_parent := par_of k\<rparr>)\<rparr>"
  have "rb_rotate_left n T = Some ?T'"
    using n x T5(1) dist y0 ry
    by (auto simp: rb_rotate_left_def rb_get_def rb_set_def mem_simps h1_def h2_def h3_def h4_def)
  moreover have "zip_at ?T' (Nd (Nd a n c y) x d z) k"
  proof -
    have "tree_at (rb_nodes T5) n a" by (rule tree_at_frame [OF t4a], rule T5(4)) (use dist in auto)
    moreover have "tree_at (rb_nodes T5) n y" by (rule tree_at_frame [OF t4y], rule T5(4)) (use dist in auto)
    moreover have "tree_at (rb_nodes T5) x z" by (rule tree_at_frame [OF t4z], rule T5(4)) (use dist in auto)
    ultimately show ?thesis using T5(2,4) h4n h4x n(1) x(1) dist by (auto simp: zip_at_def)
  qed
  ultimately show ?thesis using that T5(3) by simp
qed

lemma rotate_right:
  assumes "zip_at T (Nd (Nd b x d y) n c a) k"
  obtains T' where "rb_rotate_right n T = Some T'" and "zip_at T' (Nd b x d (Nd y n c a)) k"
    and "rb_count T' = rb_count T"
proof -
  let ?h = "rb_nodes T"
  have n: "n \<noteq> NULL" "?h n = \<lparr>rb_parent = par_of k, rb_left = x, rb_right = root_of a, rb_color = c\<rparr>"
    and x: "x \<noteq> NULL" "?h x = \<lparr>rb_parent = n, rb_left = root_of b, rb_right = root_of y, rb_color = d\<rparr>"
    and ta: "tree_at ?h n a" and ty: "tree_at ?h x y" and tb: "tree_at ?h x b"
    and k: "ctx_at ?h (rb_root T) n k"
    and dist: "distinct (addrs (Nd (Nd b x d y) n c a) @ kaddrs k)"
    using assms unfolding zip_at_def by auto
  have y0: "root_of y = NULL \<longleftrightarrow> y = Lf" using tree_at_NULL [OF ty] by (rule root_of_NULL)
  define h1 where "h1 = ?h(n := (?h n)\<lparr>rb_left := root_of y\<rparr>)"
  define h2 where "h2 = (if root_of y = NULL then h1 else h1(root_of y := (h1 (root_of y))\<lparr>rb_parent := n\<rparr>))"
  define h3 where "h3 = h2(x := (h2 x)\<lparr>rb_right := n\<rparr>)"
  define h4 where "h4 = h3(n := (h3 n)\<lparr>rb_parent := x\<rparr>)"
  have ry: "y \<noteq> Lf \<Longrightarrow> root_of y \<in> set (addrs y)" by (rule root_of_in)
  have out: "p \<noteq> n \<Longrightarrow> p \<noteq> x \<Longrightarrow> p \<notin> set (addrs y) \<Longrightarrow> h4 p = ?h p" for p
    using ry y0 by (auto simp: h1_def h2_def h3_def h4_def)
  have h4n: "h4 n = \<lparr>rb_parent = x, rb_left = root_of y, rb_right = root_of a, rb_color = c\<rparr>"
    using n dist ry y0 by (auto simp: h1_def h2_def h3_def h4_def)
  have h4x: "h4 x = \<lparr>rb_parent = n, rb_left = root_of b, rb_right = n, rb_color = d\<rparr>"
    using x dist ry y0 by (auto simp: h1_def h2_def h3_def h4_def)
  have t4y: "tree_at h4 n y"
  proof -
    have "tree_at h1 x y" using ty dist by (simp add: h1_def)
    then have "tree_at h2 n y" using dist by (simp add: h2_def tree_at_reparent)
    then show ?thesis using dist by (simp add: h3_def h4_def)
  qed
  have t4a: "tree_at h4 n a" by (rule tree_at_frame [OF ta], rule out) (use dist in auto)
  have t4b: "tree_at h4 x b" by (rule tree_at_frame [OF tb], rule out) (use dist in auto)
  have k4: "ctx_at (rb_nodes (T\<lparr>rb_nodes := h4\<rparr>)) (rb_root (T\<lparr>rb_nodes := h4\<rparr>)) n k"
    by simp (rule ctx_at_frame [OF k], rule out, use dist in auto)
  from dist have nk: "n \<notin> set (kaddrs k)" "distinct (kaddrs k)" by auto
  from k4 nk(1) n(1) nk(2) obtain T5 where T5: "rb_replace_child (par_of k) n x (T\<lparr>rb_nodes := h4\<rparr>) = Some T5"
    "ctx_at (rb_nodes T5) (rb_root T5) x k" "rb_count T5 = rb_count T"
    "\<And>p. p \<notin> set (kaddrs k) \<Longrightarrow> rb_nodes T5 p = h4 p"
    by (rule replace_child [where new = x]) auto
  let ?T' = "T5\<lparr>rb_nodes := (rb_nodes T5)(x := (rb_nodes T5 x)\<lparr>rb_parent := par_of k\<rparr>)\<rparr>"
  have "rb_rotate_right n T = Some ?T'"
    using n x T5(1) dist y0 ry
    by (auto simp: rb_rotate_right_def rb_get_def rb_set_def mem_simps h1_def h2_def h3_def h4_def)
  moreover have "zip_at ?T' (Nd b x d (Nd y n c a)) k"
  proof -
    have "tree_at (rb_nodes T5) n a" by (rule tree_at_frame [OF t4a], rule T5(4)) (use dist in auto)
    moreover have "tree_at (rb_nodes T5) n y" by (rule tree_at_frame [OF t4y], rule T5(4)) (use dist in auto)
    moreover have "tree_at (rb_nodes T5) x b" by (rule tree_at_frame [OF t4b], rule T5(4)) (use dist in auto)
    ultimately show ?thesis using T5(2,4) h4n h4x n(1) x(1) dist by (auto simp: zip_at_def)
  qed
  ultimately show ?thesis using that T5(3) by simp
qed

section \<open>Colours\<close>

text \<open>Painting the focus; \<open>rb_set_red\<close> and \<open>rb_set_black\<close> are instances.\<close>

lemma paint_focus:
  assumes "zip_at T (Nd l a c r) k"
  obtains T' where "rb_set T a (rb_color_update (\<lambda>_. c')) = Some T'" and "zip_at T' (Nd l a c' r) k"
    and "rb_count T' = rb_count T"
proof -
  let ?T' = "T\<lparr>rb_nodes := (rb_nodes T)(a := (rb_nodes T a)\<lparr>rb_color := c'\<rparr>)\<rparr>"
  have "rb_set T a (rb_color_update (\<lambda>_. c')) = Some ?T'"
    using zip_at_node(1) [OF assms] by (simp add: rb_set_def mem_simps)
  moreover have "zip_at ?T' (Nd l a c' r) k"
    using assms unfolding zip_at_def by (auto simp: fun_upd_def [symmetric])
  ultimately show ?thesis using that by simp
qed

lemma rb_swap_color_eq:
  assumes "p \<noteq> NULL" and "s \<noteq> NULL" and "p \<noteq> s"
  shows "rb_swap_color p s T = Some (T\<lparr>rb_nodes := (rb_nodes T)
    (s := (rb_nodes T s)\<lparr>rb_color := rb_color (rb_nodes T p)\<rparr>,
     p := (rb_nodes T p)\<lparr>rb_color := rb_color (rb_nodes T s)\<rparr>)\<rparr>)"
proof -
  have x: "xor (xor a b) b = a" "xor (xor a b) a = b" for a b :: int
    by (simp_all add: xor.assoc xor.left_commute xor.commute)
  show ?thesis using assms
    by (simp add: rb_swap_color_def rb_get_def rb_set_def mem_simps x fun_upd_twist)
qed

section \<open>The red-black invariant\<close>

fun tcol :: "rbt \<Rightarrow> int" where
  "tcol Lf = RB_BLACK"
| "tcol (Nd l a c r) = c"

text \<open>\<open>rbt_ok t n\<close>: no red node has a red child, every path has \<open>n\<close> black nodes.\<close>

fun rbt_ok :: "rbt \<Rightarrow> nat \<Rightarrow> bool" where
  "rbt_ok Lf n \<longleftrightarrow> n = 0"
| "rbt_ok (Nd l a c r) n \<longleftrightarrow>
     c = RB_RED \<and> tcol l = RB_BLACK \<and> tcol r = RB_BLACK \<and> rbt_ok l n \<and> rbt_ok r n \<or>
     c = RB_BLACK \<and> n \<noteq> 0 \<and> rbt_ok l (n - 1) \<and> rbt_ok r (n - 1)"

text \<open>
  \<open>kinv k n\<close>: the context accepts a tree of black height \<open>n\<close>, red only if \<open>kcol k\<close>
  is black. The empty context accepts no red tree: a root is black.
\<close>

fun kcol :: "crumb list \<Rightarrow> int" where
  "kcol [] = RB_RED"
| "kcol (x # k) = crumb_color x"

fun kinv :: "crumb list \<Rightarrow> nat \<Rightarrow> bool" where
  "kinv [] n \<longleftrightarrow> True"
| "kinv (x # k) n \<longleftrightarrow> rbt_ok (crumb_tree x) n \<and>
     (crumb_color x = RB_RED \<and> tcol (crumb_tree x) = RB_BLACK \<and> kcol k = RB_BLACK \<and> kinv k n \<or>
      crumb_color x = RB_BLACK \<and> kinv k (Suc n))"

lemma RB_colors [simp]: "RB_RED \<noteq> RB_BLACK" "RB_BLACK \<noteq> RB_RED"
  by (simp_all add: RB_RED_def RB_BLACK_def)

lemma rbt_ok_zip_up:
  "rbt_ok t n \<Longrightarrow> kinv k n \<Longrightarrow> (tcol t = RB_RED \<Longrightarrow> kcol k = RB_BLACK) \<Longrightarrow>
   \<exists>m. rbt_ok (zip_up t k) m \<and> tcol (zip_up t k) = RB_BLACK"
proof (induction k arbitrary: t n)
  case Nil
  then have "tcol t \<noteq> RB_RED" by auto
  then have "tcol t = RB_BLACK" using Nil.prems(1) by (cases t) auto
  with Nil show ?case by auto
next
  case (Cons x k)
  have col: "tcol t = RB_RED \<or> tcol t = RB_BLACK" using Cons.prems(1) by (cases t) auto
  from Cons.prems(2) consider
      (red) "crumb_color x = RB_RED" "tcol (crumb_tree x) = RB_BLACK" "kcol k = RB_BLACK" "kinv k n"
        "rbt_ok (crumb_tree x) n"
    | (black) "crumb_color x = RB_BLACK" "kinv k (Suc n)" "rbt_ok (crumb_tree x) n"
    by auto
  then show ?case
  proof cases
    case red
    then have "rbt_ok (plug t x) n" "tcol (plug t x) = RB_RED"
      using Cons.prems(1,3) col by (cases x; auto)+
    with red show ?thesis using Cons.IH [of "plug t x" n] by simp
  next
    case black
    then have "rbt_ok (plug t x) (Suc n)" "tcol (plug t x) = RB_BLACK"
      using Cons.prems(1) by (cases x; auto)+
    with black show ?thesis using Cons.IH [of "plug t x" "Suc n"] by simp
  qed
qed

text \<open>
  \<open>rb_shape T xs\<close>: the store of \<open>T\<close> holds a red-black tree with a black root whose
  in-order list of nodes is \<open>xs\<close>.
\<close>

definition rb_shape :: "rb_tree \<Rightarrow> addr list \<Rightarrow> bool" where
  "rb_shape T xs \<longleftrightarrow>
     (\<exists>t m. zip_at T t [] \<and> rbt_ok t m \<and> tcol t = RB_BLACK \<and> addrs t = xs)"

lemma rb_shape_zip:
  assumes "zip_at T t k" and "rbt_ok t n" and "kinv k n" and "tcol t = RB_RED \<Longrightarrow> kcol k = RB_BLACK"
  shows "rb_shape T (addrs (zip_up t k))"
  using rbt_ok_zip_up [OF assms(2-4)] assms(1) unfolding rb_shape_def
  by (blast intro: zip_at_top [THEN iffD2])

lemma rb_shape_count [simp]: "rb_shape (T\<lparr>rb_count := n\<rparr>) xs = rb_shape T xs"
  by (simp add: rb_shape_def)

lemma rb_shape_distinct: "rb_shape T xs \<Longrightarrow> distinct xs \<and> NULL \<notin> set xs"
  by (auto simp: rb_shape_def zip_at_def dest: tree_at_NULL)

text \<open>Painting a black root black again changes nothing.\<close>

lemma rb_set_black_root:
  assumes "zip_at T t k" and "rbt_ok t n" and "kinv k n" and "tcol t = RB_RED \<Longrightarrow> kcol k = RB_BLACK"
    and "zip_up t k \<noteq> Lf"
  shows "rb_set_black T (rb_root T) = Some T"
proof -
  from rbt_ok_zip_up [OF assms(2-4)] assms(5) obtain l a r
    where z: "zip_up t k = Nd l a RB_BLACK r" by (cases "zip_up t k") auto
  with assms(1) have top: "zip_at T (Nd l a RB_BLACK r) []" by (metis zip_at_top)
  then have "rb_root T = a" using zip_at_root by fastforce
  with zip_at_node [OF top] show ?thesis
    by (simp add: rb_set_black_def rb_set_def mem_simps fun_upd_idem)
qed

text \<open>The colour tests of the code at the root of the focus.\<close>

lemma red_safe_focus: "zip_at T t k \<Longrightarrow> rb_is_red_safe T (root_of t) \<longleftrightarrow> tcol t = RB_RED"
  using zip_at_node by (cases t) (fastforce simp: rb_is_red_safe_def)+

lemma black_focus: "zip_at T t k \<Longrightarrow> rb_is_black T (root_of t) \<longleftrightarrow> tcol t = RB_BLACK"
  using zip_at_node by (cases t) (fastforce simp: rb_is_black_def)+

lemma red_focus: "zip_at T (Nd l a c r) k \<Longrightarrow> rb_is_red T a = Some (c = RB_RED)"
  by (simp add: rb_is_red_def zip_at_get)

lemma rbt_ok_col: "rbt_ok t n \<Longrightarrow> tcol t \<noteq> RB_RED \<Longrightarrow> tcol t = RB_BLACK"
  by (cases t) auto

lemma rbt_ok_red: "rbt_ok t n \<Longrightarrow> tcol t = RB_RED \<Longrightarrow> \<exists>l a r. t = Nd l a RB_RED r"
  by (cases t) auto

end
