(* ===== verification/RB_Insert.thy ===== *)
theory RB_Insert
  imports RB_Shape
begin

text \<open>
  Insertion: the recolouring loop \<open>rb_insert_color\<close> returns and restores the red-black
  invariant without changing the in-order list; \<open>rb_insert\<close> finds the place of the new
  node, or the duplicate.
\<close>

section \<open>The recolouring loop\<close>

text \<open>
  A red node \<open>n\<close> with a red parent \<open>p\<close> and a black uncle \<open>u\<close>: the four
  positions of \<open>n\<close> below the grandparent \<open>g\<close>, in the order of the code's comments
  (3A, 2A, 3B, 2B).
\<close>

definition fixed :: "addr \<Rightarrow> rb_tree \<Rightarrow> addr list \<Rightarrow> bool" where
  "fixed n T xs \<longleftrightarrow> (\<exists>T'. rb_insert_color n T = Some T' \<and> rb_count T' = rb_count T \<and> rb_shape T' xs)"

lemma not_root_of_right: "zip_at T (Nd t p c s) k \<Longrightarrow> n \<in> set (addrs t) \<Longrightarrow> n \<noteq> root_of s"
  using zip_at_NULL [of T "Nd t p c s" k] by (cases s) (auto simp: zip_at_def)

lemma not_root_of_left: "zip_at T (Nd t p c s) k \<Longrightarrow> n \<in> set (addrs s) \<Longrightarrow> n \<noteq> root_of t"
  using zip_at_NULL [of T "Nd t p c s" k] by (cases t) (auto simp: zip_at_def)

lemma insert_color_LL:
  assumes Z: "zip_at T (Nd (Nd (Nd l n RB_RED r) p RB_RED s) g RB_BLACK u) k"
    and ok: "rbt_ok (Nd l n RB_RED r) m" "rbt_ok s m" "rbt_ok u m" "tcol s = RB_BLACK"
    and k: "kinv k (Suc m)" and u: "tcol u = RB_BLACK"
  shows "fixed n T (addrs (zip_up (Nd (Nd (Nd l n RB_RED r) p RB_RED s) g RB_BLACK u) k))"
proof -
  let ?t = "Nd l n RB_RED r"
  have Zp: "zip_at T (Nd ?t p RB_RED s) (LeftOf g RB_BLACK u # k)" using Z by (simp add: zip_at_left)
  then have Zn: "zip_at T ?t (LeftOf p RB_RED s # LeftOf g RB_BLACK u # k)" by (simp add: zip_at_left)
  have Zu: "zip_at T u (RightOf g RB_BLACK (Nd ?t p RB_RED s) # k)" using Z by (simp add: zip_at_right)
  have tests: "rb_is_red_safe T p" "\<not> rb_is_red_safe T (root_of u)" "n \<noteq> root_of s"
    using red_safe_focus [OF Zp] red_safe_focus [OF Zu] u not_root_of_right [OF Zp, of n] by simp_all
  from paint_focus [OF Z, of RB_RED] obtain T1 where T1: "rb_set_red T g = Some T1"
    "zip_at T1 (Nd ?t p RB_RED s) (LeftOf g RB_RED u # k)" "rb_count T1 = rb_count T"
    by (auto simp: rb_set_red_def zip_at_left)
  from paint_focus [OF T1(2), of RB_BLACK] obtain T2 where T2: "rb_set_black T1 p = Some T2"
    "zip_at T2 (Nd (Nd ?t p RB_BLACK s) g RB_RED u) k" "rb_count T2 = rb_count T1"
    by (auto simp: rb_set_black_def zip_at_left)
  from rotate_right [OF T2(2)] obtain T3 where T3: "rb_rotate_right g T2 = Some T3"
    "zip_at T3 (Nd ?t p RB_BLACK (Nd s g RB_RED u)) k" "rb_count T3 = rb_count T2" by blast
  have "rb_insert_color n T = Some T3"
    using T1(1) T2(1) T3(1) tests
    by (subst rb_insert_color.simps) (simp add: zip_at_get [OF Zn] zip_at_get [OF Zp] zip_at_get [OF Z])
  moreover have "rb_shape T3 (addrs (zip_up (Nd ?t p RB_BLACK (Nd s g RB_RED u)) k))"
    by (rule rb_shape_zip [OF T3(2) _ k]) (use ok u in auto)
  ultimately show ?thesis using T1 T2 T3 by (simp add: fixed_def addrs_zip_up)
qed

lemma insert_color_LR:
  assumes Z: "zip_at T (Nd (Nd s p RB_RED (Nd l n RB_RED r)) g RB_BLACK u) k"
    and ok: "rbt_ok (Nd l n RB_RED r) m" "rbt_ok s m" "rbt_ok u m" "tcol s = RB_BLACK"
    and k: "kinv k (Suc m)" and u: "tcol u = RB_BLACK"
  shows "fixed n T (addrs (zip_up (Nd (Nd s p RB_RED (Nd l n RB_RED r)) g RB_BLACK u) k))"
proof -
  let ?t = "Nd l n RB_RED r"
  have Zp: "zip_at T (Nd s p RB_RED ?t) (LeftOf g RB_BLACK u # k)" using Z by (simp add: zip_at_left)
  then have Zn: "zip_at T ?t (RightOf p RB_RED s # LeftOf g RB_BLACK u # k)" by (simp add: zip_at_right)
  have Zu: "zip_at T u (RightOf g RB_BLACK (Nd s p RB_RED ?t) # k)" using Z by (simp add: zip_at_right)
  have tests: "rb_is_red_safe T p" "\<not> rb_is_red_safe T (root_of u)"
    using red_safe_focus [OF Zp] red_safe_focus [OF Zu] u by simp_all
  from rotate_left [OF Zp] obtain T0 where T0: "rb_rotate_left p T = Some T0"
    "zip_at T0 (Nd (Nd (Nd s p RB_RED l) n RB_RED r) g RB_BLACK u) k" "rb_count T0 = rb_count T"
    by (auto simp: zip_at_left)
  from paint_focus [OF T0(2), of RB_RED] obtain T1 where T1: "rb_set_red T0 g = Some T1"
    "zip_at T1 (Nd (Nd s p RB_RED l) n RB_RED r) (LeftOf g RB_RED u # k)" "rb_count T1 = rb_count T0"
    by (auto simp: rb_set_red_def zip_at_left)
  from paint_focus [OF T1(2), of RB_BLACK] obtain T2 where T2: "rb_set_black T1 n = Some T2"
    "zip_at T2 (Nd (Nd (Nd s p RB_RED l) n RB_BLACK r) g RB_RED u) k" "rb_count T2 = rb_count T1"
    by (auto simp: rb_set_black_def zip_at_left)
  from rotate_right [OF T2(2)] obtain T3 where T3: "rb_rotate_right g T2 = Some T3"
    "zip_at T3 (Nd (Nd s p RB_RED l) n RB_BLACK (Nd r g RB_RED u)) k" "rb_count T3 = rb_count T2" by blast
  have "rb_insert_color n T = Some T3"
    using T0(1) T1(1) T2(1) T3(1) tests
    by (subst rb_insert_color.simps) (simp add: zip_at_get [OF Zn] zip_at_get [OF Zp] zip_at_get [OF Z])
  moreover have "rb_shape T3 (addrs (zip_up (Nd (Nd s p RB_RED l) n RB_BLACK (Nd r g RB_RED u)) k))"
    by (rule rb_shape_zip [OF T3(2) _ k]) (use ok u in auto)
  ultimately show ?thesis using T0 T1 T2 T3 by (simp add: fixed_def addrs_zip_up)
qed

lemma insert_color_RR:
  assumes Z: "zip_at T (Nd u g RB_BLACK (Nd s p RB_RED (Nd l n RB_RED r))) k"
    and ok: "rbt_ok (Nd l n RB_RED r) m" "rbt_ok s m" "rbt_ok u m" "tcol s = RB_BLACK"
    and k: "kinv k (Suc m)" and u: "tcol u = RB_BLACK"
  shows "fixed n T (addrs (zip_up (Nd u g RB_BLACK (Nd s p RB_RED (Nd l n RB_RED r))) k))"
proof -
  let ?t = "Nd l n RB_RED r"
  have Zp: "zip_at T (Nd s p RB_RED ?t) (RightOf g RB_BLACK u # k)" using Z by (simp add: zip_at_right)
  then have Zn: "zip_at T ?t (RightOf p RB_RED s # RightOf g RB_BLACK u # k)" by (simp add: zip_at_right)
  have Zu: "zip_at T u (LeftOf g RB_BLACK (Nd s p RB_RED ?t) # k)" using Z by (simp add: zip_at_left)
  have tests: "rb_is_red_safe T p" "\<not> rb_is_red_safe T (root_of u)" "n \<noteq> root_of s" "p \<noteq> root_of u"
    using red_safe_focus [OF Zp] red_safe_focus [OF Zu] u not_root_of_left [OF Zp, of n]
      not_root_of_left [OF Z, of p] by simp_all
  from paint_focus [OF Z, of RB_RED] obtain T1 where T1: "rb_set_red T g = Some T1"
    "zip_at T1 (Nd s p RB_RED ?t) (RightOf g RB_RED u # k)" "rb_count T1 = rb_count T"
    by (auto simp: rb_set_red_def zip_at_right)
  from paint_focus [OF T1(2), of RB_BLACK] obtain T2 where T2: "rb_set_black T1 p = Some T2"
    "zip_at T2 (Nd u g RB_RED (Nd s p RB_BLACK ?t)) k" "rb_count T2 = rb_count T1"
    by (auto simp: rb_set_black_def zip_at_right)
  from rotate_left [OF T2(2)] obtain T3 where T3: "rb_rotate_left g T2 = Some T3"
    "zip_at T3 (Nd (Nd u g RB_RED s) p RB_BLACK ?t) k" "rb_count T3 = rb_count T2" by blast
  have "rb_insert_color n T = Some T3"
    using T1(1) T2(1) T3(1) tests
    by (subst rb_insert_color.simps) (simp add: zip_at_get [OF Zn] zip_at_get [OF Zp] zip_at_get [OF Z])
  moreover have "rb_shape T3 (addrs (zip_up (Nd (Nd u g RB_RED s) p RB_BLACK ?t) k))"
    by (rule rb_shape_zip [OF T3(2) _ k]) (use ok u in auto)
  ultimately show ?thesis using T1 T2 T3 by (simp add: fixed_def addrs_zip_up)
qed

lemma insert_color_RL:
  assumes Z: "zip_at T (Nd u g RB_BLACK (Nd (Nd l n RB_RED r) p RB_RED s)) k"
    and ok: "rbt_ok (Nd l n RB_RED r) m" "rbt_ok s m" "rbt_ok u m" "tcol s = RB_BLACK"
    and k: "kinv k (Suc m)" and u: "tcol u = RB_BLACK"
  shows "fixed n T (addrs (zip_up (Nd u g RB_BLACK (Nd (Nd l n RB_RED r) p RB_RED s)) k))"
proof -
  let ?t = "Nd l n RB_RED r"
  have Zp: "zip_at T (Nd ?t p RB_RED s) (RightOf g RB_BLACK u # k)" using Z by (simp add: zip_at_right)
  then have Zn: "zip_at T ?t (LeftOf p RB_RED s # RightOf g RB_BLACK u # k)" by (simp add: zip_at_left)
  have Zu: "zip_at T u (LeftOf g RB_BLACK (Nd ?t p RB_RED s) # k)" using Z by (simp add: zip_at_left)
  have tests: "rb_is_red_safe T p" "\<not> rb_is_red_safe T (root_of u)" "p \<noteq> root_of u"
    using red_safe_focus [OF Zp] red_safe_focus [OF Zu] u not_root_of_left [OF Z, of p] by simp_all
  from rotate_right [OF Zp] obtain T0 where T0: "rb_rotate_right p T = Some T0"
    "zip_at T0 (Nd u g RB_BLACK (Nd l n RB_RED (Nd r p RB_RED s))) k" "rb_count T0 = rb_count T"
    by (auto simp: zip_at_right)
  from paint_focus [OF T0(2), of RB_RED] obtain T1 where T1: "rb_set_red T0 g = Some T1"
    "zip_at T1 (Nd l n RB_RED (Nd r p RB_RED s)) (RightOf g RB_RED u # k)" "rb_count T1 = rb_count T0"
    by (auto simp: rb_set_red_def zip_at_right)
  from paint_focus [OF T1(2), of RB_BLACK] obtain T2 where T2: "rb_set_black T1 n = Some T2"
    "zip_at T2 (Nd u g RB_RED (Nd l n RB_BLACK (Nd r p RB_RED s))) k" "rb_count T2 = rb_count T1"
    by (auto simp: rb_set_black_def zip_at_right)
  from rotate_left [OF T2(2)] obtain T3 where T3: "rb_rotate_left g T2 = Some T3"
    "zip_at T3 (Nd (Nd u g RB_RED l) n RB_BLACK (Nd r p RB_RED s)) k" "rb_count T3 = rb_count T2" by blast
  have "rb_insert_color n T = Some T3"
    using T0(1) T1(1) T2(1) T3(1) tests
    by (subst rb_insert_color.simps) (simp add: zip_at_get [OF Zn] zip_at_get [OF Zp] zip_at_get [OF Z])
  moreover have "rb_shape T3 (addrs (zip_up (Nd (Nd u g RB_RED l) n RB_BLACK (Nd r p RB_RED s)) k))"
    by (rule rb_shape_zip [OF T3(2) _ k]) (use ok u in auto)
  ultimately show ?thesis using T0 T1 T2 T3 by (simp add: fixed_def addrs_zip_up)
qed

text \<open>
  A red uncle (cases 1A and 1B): parent and uncle are painted black, the grandparent red, and
  the loop goes on from the grandparent.
\<close>

lemma insert_color_uncle_right:
  assumes Z: "zip_at T (Nd (Nd pl p RB_RED pr) g RB_BLACK (Nd ul u RB_RED ur)) k"
    and n: "rb_get T n = Some nn" "rb_parent nn = p"
  obtains T' where "rb_insert_color n T = rb_insert_color g T'"
    and "zip_at T' (Nd (Nd pl p RB_BLACK pr) g RB_RED (Nd ul u RB_BLACK ur)) k"
    and "rb_count T' = rb_count T"
proof -
  let ?P = "\<lambda>c. Nd pl p c pr" and ?U = "\<lambda>c. Nd ul u c ur"
  have Zp: "zip_at T (?P RB_RED) (LeftOf g RB_BLACK (?U RB_RED) # k)" using Z by (simp only: zip_at_left)
  have Zu: "zip_at T (?U RB_RED) (RightOf g RB_BLACK (?P RB_RED) # k)" using Z by (simp only: zip_at_right)
  have tests: "rb_is_red_safe T p" "rb_is_red_safe T u"
    using red_safe_focus [OF Zp] red_safe_focus [OF Zu] by simp_all
  from paint_focus [OF Zp, of RB_BLACK] obtain T1 where T1: "rb_set_black T p = Some T1"
    "zip_at T1 (?U RB_RED) (RightOf g RB_BLACK (?P RB_BLACK) # k)" "rb_count T1 = rb_count T"
    by (metis rb_set_black_def zip_at_left zip_at_right)
  from paint_focus [OF T1(2), of RB_BLACK] obtain T2 where T2: "rb_set_black T1 u = Some T2"
    "zip_at T2 (Nd (?P RB_BLACK) g RB_BLACK (?U RB_BLACK)) k" "rb_count T2 = rb_count T1"
    by (metis rb_set_black_def zip_at_right)
  from paint_focus [OF T2(2), of RB_RED] obtain T3 where T3: "rb_set_red T2 g = Some T3"
    "zip_at T3 (Nd (?P RB_BLACK) g RB_RED (?U RB_BLACK)) k" "rb_count T3 = rb_count T2"
    by (metis rb_set_red_def)
  have "rb_insert_color n T = rb_insert_color g T3"
    using n T1(1) T2(1) T3(1) tests
    by (subst rb_insert_color.simps) (simp add: zip_at_get [OF Zp] zip_at_get [OF Z])
  then show ?thesis using that T1 T2 T3 by simp
qed

lemma insert_color_uncle_left:
  assumes Z: "zip_at T (Nd (Nd ul u RB_RED ur) g RB_BLACK (Nd pl p RB_RED pr)) k"
    and n: "rb_get T n = Some nn" "rb_parent nn = p"
  obtains T' where "rb_insert_color n T = rb_insert_color g T'"
    and "zip_at T' (Nd (Nd ul u RB_BLACK ur) g RB_RED (Nd pl p RB_BLACK pr)) k"
    and "rb_count T' = rb_count T"
proof -
  let ?P = "\<lambda>c. Nd pl p c pr" and ?U = "\<lambda>c. Nd ul u c ur"
  have Zp: "zip_at T (?P RB_RED) (RightOf g RB_BLACK (?U RB_RED) # k)" using Z by (simp only: zip_at_right)
  have Zu: "zip_at T (?U RB_RED) (LeftOf g RB_BLACK (?P RB_RED) # k)" using Z by (simp only: zip_at_left)
  have tests: "rb_is_red_safe T p" "rb_is_red_safe T u" "p \<noteq> u"
    using red_safe_focus [OF Zp] red_safe_focus [OF Zu] not_root_of_left [OF Z, of p] by simp_all
  from paint_focus [OF Zp, of RB_BLACK] obtain T1 where T1: "rb_set_black T p = Some T1"
    "zip_at T1 (?U RB_RED) (LeftOf g RB_BLACK (?P RB_BLACK) # k)" "rb_count T1 = rb_count T"
    by (metis rb_set_black_def zip_at_left zip_at_right)
  from paint_focus [OF T1(2), of RB_BLACK] obtain T2 where T2: "rb_set_black T1 u = Some T2"
    "zip_at T2 (Nd (?U RB_BLACK) g RB_BLACK (?P RB_BLACK)) k" "rb_count T2 = rb_count T1"
    by (metis rb_set_black_def zip_at_left)
  from paint_focus [OF T2(2), of RB_RED] obtain T3 where T3: "rb_set_red T2 g = Some T3"
    "zip_at T3 (Nd (?U RB_BLACK) g RB_RED (?P RB_BLACK)) k" "rb_count T3 = rb_count T2"
    by (metis rb_set_red_def)
  have "rb_insert_color n T = rb_insert_color g T3"
    using n T1(1) T2(1) T3(1) tests
    by (subst rb_insert_color.simps) (simp add: zip_at_get [OF Zp] zip_at_get [OF Z])
  then show ?thesis using that T1 T2 T3 by simp
qed

text \<open>The loop stops at the root and below a black parent.\<close>

lemma insert_color_root:
  assumes Z: "zip_at T (Nd l n RB_RED r) []" and ok: "rbt_ok (Nd l n RB_RED r) m"
  shows "fixed n T (addrs (Nd l n RB_RED r))"
proof -
  from paint_focus [OF Z, of RB_BLACK] obtain T1 where T1: "rb_set_black T n = Some T1"
    "zip_at T1 (Nd l n RB_BLACK r) []" "rb_count T1 = rb_count T" by (metis rb_set_black_def)
  have "rb_insert_color n T = Some T1"
    using T1(1) zip_at_root [OF Z]
    by (subst rb_insert_color.simps) (simp add: zip_at_get [OF Z] rb_is_red_safe_def)
  moreover have "rb_shape T1 (addrs (zip_up (Nd l n RB_BLACK r) []))"
    by (rule rb_shape_zip [OF T1(2), of "Suc m"]) (use ok in auto)
  ultimately show ?thesis using T1 by (simp add: fixed_def)
qed

lemma insert_color_black:
  assumes Z: "zip_at T (Nd l n RB_RED r) (x # k)" and ok: "rbt_ok (Nd l n RB_RED r) m"
    and k: "kinv (x # k) m" and x: "crumb_color x = RB_BLACK"
  shows "fixed n T (addrs (zip_up (Nd l n RB_RED r) (x # k)))"
proof -
  have Zp: "zip_at T (plug (Nd l n RB_RED r) x) k" using Z by (simp add: zip_at_plug)
  have "\<not> rb_is_red_safe T (crumb_addr x)" using red_safe_focus [OF Zp] x by (cases x) auto
  moreover have "rb_set_black T (rb_root T) = Some T"
    by (rule rb_set_black_root [OF Z ok k]) (use x in \<open>auto dest: arg_cong [of _ _ addrs] simp: addrs_zip_up simp del: zip_up.simps\<close>)
  ultimately have "rb_insert_color n T = Some T"
    by (subst rb_insert_color.simps) (simp add: zip_at_get [OF Z])
  then show ?thesis
    unfolding fixed_def using rb_shape_zip [OF Z ok k] x by simp
qed

lemma insert_color_uncle:
  assumes Z: "zip_at T (Nd l n RB_RED r) (x # y # k)" and ok: "rbt_ok (Nd l n RB_RED r) m"
    and x: "crumb_color x = RB_RED" "tcol (crumb_tree x) = RB_BLACK" "rbt_ok (crumb_tree x) m"
    and y: "crumb_color y = RB_BLACK" "tcol (crumb_tree y) = RB_RED" "rbt_ok (crumb_tree y) m"
  obtains T' l' r' where "rb_insert_color n T = rb_insert_color (crumb_addr y) T'"
    and "zip_at T' (Nd l' (crumb_addr y) RB_RED r') k" and "rb_count T' = rb_count T"
    and "rbt_ok (Nd l' (crumb_addr y) RB_RED r') (Suc m)"
    and "addrs (Nd l' (crumb_addr y) RB_RED r') = addrs (plug (plug (Nd l n RB_RED r) x) y)"
proof -
  let ?t = "Nd l n RB_RED r" and ?p = "crumb_addr x"
  from y(2,3) obtain ul u ur where u: "crumb_tree y = Nd ul u RB_RED ur" by (blast dest: rbt_ok_red)
  obtain pl pr where P: "plug ?t x = Nd pl ?p RB_RED pr" using x(1) by (cases x) auto
  have okP: "rbt_ok (Nd pl ?p RB_BLACK pr) (Suc m)" using P x ok by (cases x) auto
  have okU: "rbt_ok (Nd ul u RB_BLACK ur) (Suc m)" using y(3) u by simp
  have Zg: "zip_at T (plug (plug ?t x) y) k" using Z by (simp add: zip_at_plug)
  have n: "\<exists>nn. rb_get T n = Some nn \<and> rb_parent nn = ?p" using zip_at_get [OF Z] by simp
  show ?thesis
  proof (cases y)
    case (LeftOf g c w)
    with Zg u P y(1) have "zip_at T (Nd (Nd pl ?p RB_RED pr) g RB_BLACK (Nd ul u RB_RED ur)) k" by simp
    with n obtain T' where "rb_insert_color n T = rb_insert_color g T'"
      "zip_at T' (Nd (Nd pl ?p RB_BLACK pr) g RB_RED (Nd ul u RB_BLACK ur)) k"
      "rb_count T' = rb_count T" by (metis insert_color_uncle_right)
    with okP okU LeftOf P u show ?thesis
      by (intro that [of T' "Nd pl ?p RB_BLACK pr" "Nd ul u RB_BLACK ur"]) simp_all
  next
    case (RightOf g c w)
    with Zg u P y(1) have "zip_at T (Nd (Nd ul u RB_RED ur) g RB_BLACK (Nd pl ?p RB_RED pr)) k" by simp
    with n obtain T' where "rb_insert_color n T = rb_insert_color g T'"
      "zip_at T' (Nd (Nd ul u RB_BLACK ur) g RB_RED (Nd pl ?p RB_BLACK pr)) k"
      "rb_count T' = rb_count T" by (metis insert_color_uncle_left)
    with okP okU RightOf P u show ?thesis
      by (intro that [of T' "Nd ul u RB_BLACK ur" "Nd pl ?p RB_BLACK pr"]) simp_all
  qed
qed

lemma insert_color_ok:
  assumes "zip_at T (Nd l n RB_RED r) k" and "rbt_ok (Nd l n RB_RED r) m" and "kinv k m"
  shows "fixed n T (addrs (zip_up (Nd l n RB_RED r) k))"
  using assms
proof (induction "length k" arbitrary: T l n r k m rule: less_induct)
  case less
  consider (root) "k = []" | (black) x k1 where "k = x # k1" "crumb_color x = RB_BLACK"
    | (red) x k1 where "k = x # k1" "crumb_color x = RB_RED"
    using less.prems(3) by (cases k) auto
  then show ?case
  proof cases
    case root
    with less.prems insert_color_root [of T l n r m] show ?thesis by simp
  next
    case black
    with less.prems show ?thesis by (simp only: insert_color_black)
  next
    case (red x k1)
    with less.prems(3) have x: "rbt_ok (crumb_tree x) m" "tcol (crumb_tree x) = RB_BLACK"
      and k1: "kcol k1 = RB_BLACK" "kinv k1 m" by auto
    then obtain y k2 where k2: "k1 = y # k2" by (cases k1) auto
    with k1 have y: "crumb_color y = RB_BLACK" "rbt_ok (crumb_tree y) m" "kinv k2 (Suc m)" by auto
    have Z: "zip_at T (Nd l n RB_RED r) (x # y # k2)" using less.prems(1) red k2 by simp
    show ?thesis
    proof (cases "tcol (crumb_tree y) = RB_RED")
      case True
      from insert_color_uncle [OF Z less.prems(2) red(2) x(2,1) y(1) True y(2)]
      obtain T' l' r' where T': "rb_insert_color n T = rb_insert_color (crumb_addr y) T'"
        "zip_at T' (Nd l' (crumb_addr y) RB_RED r') k2" "rb_count T' = rb_count T"
        "rbt_ok (Nd l' (crumb_addr y) RB_RED r') (Suc m)"
        "addrs (Nd l' (crumb_addr y) RB_RED r') = addrs (plug (plug (Nd l n RB_RED r) x) y)" by metis
      have "fixed (crumb_addr y) T' (addrs (zip_up (Nd l' (crumb_addr y) RB_RED r') k2))"
        by (rule less.hyps [OF _ T'(2,4) y(3)]) (use red k2 in simp)
      with T' red k2 show ?thesis by (simp add: fixed_def addrs_zip_up)
    next
      case False
      with y(2) have "tcol (crumb_tree y) = RB_BLACK" by (rule rbt_ok_col)
      moreover have "zip_at T (plug (plug (Nd l n RB_RED r) x) y) k2" using Z by (simp add: zip_at_plug)
      ultimately show ?thesis using x y less.prems(2) red k2
        by (cases x; cases y)
          (simp_all del: rbt_ok.simps add: insert_color_LL insert_color_LR insert_color_RL insert_color_RR)
    qed
  qed
qed

section \<open>Finding the place\<close>

text \<open>The context of a hole of a red-black tree.\<close>

lemma kinv_zip_up:
  "rbt_ok (zip_up t k) m \<Longrightarrow> tcol (zip_up t k) = RB_BLACK \<Longrightarrow>
   \<exists>n. rbt_ok t n \<and> kinv k n \<and> (tcol t = RB_RED \<longrightarrow> kcol k = RB_BLACK)"
proof (induction k arbitrary: t)
  case Nil
  then show ?case by auto
next
  case (Cons x k)
  from Cons.IH [of "plug t x"] Cons.prems obtain n where n: "rbt_ok (plug t x) n" "kinv k n"
    "tcol (plug t x) = RB_RED \<longrightarrow> kcol k = RB_BLACK" by auto
  show ?case
  proof (cases "crumb_color x = RB_RED")
    case True
    with n show ?thesis by (cases x) auto
  next
    case False
    with n have "crumb_color x = RB_BLACK" by (cases x) auto
    with n show ?thesis by (intro exI [of _ "n - 1"]) (cases x; auto)
  qed
qed

fun link_of :: "crumb list \<Rightarrow> rb_link" where
  "link_of [] = RootLink"
| "link_of (LeftOf a c r # k) = LeftLink a"
| "link_of (RightOf a c l # k) = RightLink a"

lemma read_link: "zip_at T t k \<Longrightarrow> rb_read_link T (link_of k) = Some (root_of t)"
proof (cases k)
  case (Cons x k')
  assume "zip_at T t k"
  with Cons zip_at_crumb [of T t x k'] show ?thesis by (cases x) auto
qed (simp add: zip_at_root)

lemma write_link:
  assumes "ctx_at (rb_nodes T) (rb_root T) p k" and "distinct (kaddrs k)"
  obtains T' where "rb_write_link T (link_of k) q = Some T'"
    and "ctx_at (rb_nodes T') (rb_root T') q k" and "rb_count T' = rb_count T"
    and "\<And>a. a \<notin> set (kaddrs k) \<Longrightarrow> rb_nodes T' a = rb_nodes T a"
proof (cases k)
  case Nil
  with assms that [of "T\<lparr>rb_root := q\<rparr>"] show ?thesis by simp
next
  case (Cons x k')
  show ?thesis
  proof (cases x)
    case (LeftOf a c r)
    with assms Cons that [of "T\<lparr>rb_nodes := (rb_nodes T)(a := (rb_nodes T a)\<lparr>rb_left := q\<rparr>)\<rparr>"]
    show ?thesis by (simp add: rb_set_def mem_simps)
  next
    case (RightOf a c l)
    with assms Cons that [of "T\<lparr>rb_nodes := (rb_nodes T)(a := (rb_nodes T a)\<lparr>rb_right := q\<rparr>)\<rparr>"]
    show ?thesis by (simp add: rb_set_def mem_simps)
  qed
qed

text \<open>
  The descent keeps everything before the hole below the new node and everything after the
  hole above it.
\<close>

lemma insert_find_ok:
  assumes "zip_at T t k" and "cmp_sorted cmp (addrs (zip_up t k))"
    and "cmp_on (insert n (set (addrs (zip_up t k)))) cmp"
    and "\<forall>y\<in>set (kbefore k). 0 < cmp n y" and "\<forall>z\<in>set (kafter k). cmp n z < 0"
  shows "(\<exists>a\<in>set (addrs t). cmp n a = 0 \<and>
            rb_insert_find cmp n (link_of k) (par_of k) T = Some (Inl a)) \<or>
         (\<exists>k'. rb_insert_find cmp n (link_of k) (par_of k) T = Some (Inr (link_of k', par_of k')) \<and>
            zip_up Lf k' = zip_up t k \<and>
            (\<forall>y\<in>set (kbefore k'). 0 < cmp n y) \<and> (\<forall>z\<in>set (kafter k'). cmp n z < 0))"
  using assms
proof (induction t arbitrary: k)
  case Lf
  then have "rb_insert_find cmp n (link_of k) (par_of k) T = Some (Inr (link_of k, par_of k))"
    by (subst rb_insert_find.simps) (simp add: read_link)
  with Lf show ?case by blast
next
  case (Nd l a c r)
  let ?all = "insert n (set (addrs (zip_up (Nd l a c r) k)))"
  have a: "a \<noteq> NULL" and rd: "rb_read_link T (link_of k) = Some a"
    using Nd.prems(1) zip_at_node(1) read_link by fastforce+
  have mem: "a \<in> ?all" "n \<in> ?all" "set (addrs l) \<subseteq> ?all" "set (addrs r) \<subseteq> ?all"
    by (auto simp: addrs_zip_up)
  have srt: "\<forall>y\<in>set (addrs l). cmp y a < 0" "\<forall>z\<in>set (addrs r). cmp a z < 0"
    using Nd.prems(2) by (auto simp: addrs_zip_up sorted_wrt_append)
  note anti = cmp_on_antisym [OF Nd.prems(3)] and trans = cmp_on_trans [OF Nd.prems(3)]
  consider (eq) "cmp n a = 0" | (gt) "0 < cmp n a" | (lt) "cmp n a < 0" by linarith
  then show ?case
  proof cases
    case eq
    then have "rb_insert_find cmp n (link_of k) (par_of k) T = Some (Inl a)"
      by (subst rb_insert_find.simps) (simp add: rd a)
    with eq show ?thesis by auto
  next
    case gt
    then have step: "rb_insert_find cmp n (link_of k) (par_of k) T =
        rb_insert_find cmp n (link_of (RightOf a c l # k)) (par_of (RightOf a c l # k)) T"
      by (subst rb_insert_find.simps) (simp add: rd a)
    have "cmp a n < 0" using gt anti mem by blast
    then have "\<forall>y\<in>set (addrs l). 0 < cmp n y" using srt(1) mem anti trans by (meson subsetD)
    then have "\<forall>y\<in>set (kbefore (RightOf a c l # k)). 0 < cmp n y" using Nd.prems(4) gt by auto
    moreover have "zip_at T r (RightOf a c l # k)" using Nd.prems(1) by (simp only: zip_at_right)
    ultimately show ?thesis using Nd.IH(2) [of "RightOf a c l # k"] Nd.prems step by auto
  next
    case lt
    then have step: "rb_insert_find cmp n (link_of k) (par_of k) T =
        rb_insert_find cmp n (link_of (LeftOf a c r # k)) (par_of (LeftOf a c r # k)) T"
      by (subst rb_insert_find.simps) (simp add: rd a)
    have "\<forall>z\<in>set (addrs r). cmp n z < 0" using srt(2) lt mem trans by (meson subsetD)
    then have "\<forall>z\<in>set (kafter (LeftOf a c r # k)). cmp n z < 0" using Nd.prems(5) lt by auto
    moreover have "zip_at T l (LeftOf a c r # k)" using Nd.prems(1) by (simp only: zip_at_left)
    ultimately show ?thesis using Nd.IH(1) [of "LeftOf a c r # k"] Nd.prems step by auto
  qed
qed

section \<open>Insertion\<close>

text \<open>
  \<open>rb_wf cmp T xs\<close>: a well-formed tree whose in-order list is \<open>xs\<close>, sorted by the
  comparator, with the counter equal to the number of nodes.
\<close>

definition rb_wf :: "comparator \<Rightarrow> rb_tree \<Rightarrow> addr list \<Rightarrow> bool" where
  "rb_wf cmp T xs \<longleftrightarrow> rb_shape T xs \<and> cmp_sorted cmp xs \<and> rb_count T = of_nat (length xs)"

lemma attach_ok:
  assumes "zip_at T Lf k" and n: "n \<noteq> NULL" "n \<notin> set (kaddrs k)"
  obtains T1 T2 where
    "rb_set T n (\<lambda>r. r\<lparr>rb_color := RB_RED, rb_left := NULL, rb_right := NULL, rb_parent := par_of k\<rparr>) = Some T1"
    and "rb_write_link T1 (link_of k) n = Some T2"
    and "zip_at T2 (Nd Lf n RB_RED Lf) k" and "rb_count T2 = rb_count T"
proof -
  let ?T1 = "T\<lparr>rb_nodes := (rb_nodes T)(n := \<lparr>rb_parent = par_of k, rb_left = NULL, rb_right = NULL, rb_color = RB_RED\<rparr>)\<rparr>"
  have "ctx_at (rb_nodes ?T1) (rb_root ?T1) NULL k" "distinct (kaddrs k)"
    using assms by (simp_all add: zip_at_def)
  then obtain T2 where T2: "rb_write_link ?T1 (link_of k) n = Some T2"
    "ctx_at (rb_nodes T2) (rb_root T2) n k" "rb_count T2 = rb_count ?T1"
    "\<And>a. a \<notin> set (kaddrs k) \<Longrightarrow> rb_nodes T2 a = rb_nodes ?T1 a" by (metis write_link)
  have "zip_at T2 (Nd Lf n RB_RED Lf) k"
    using T2(2,4) n \<open>distinct (kaddrs k)\<close> by (auto simp: zip_at_def)
  moreover have rec: "(rb_nodes T n)\<lparr>rb_color := RB_RED, rb_left := NULL, rb_right := NULL, rb_parent := par_of k\<rparr> =
      \<lparr>rb_parent = par_of k, rb_left = NULL, rb_right = NULL, rb_color = RB_RED\<rparr>"
    by (cases "rb_nodes T n") simp
  ultimately show ?thesis using T2 n by (intro that [of ?T1 T2]) (simp_all add: rb_set_def mem_simps rec)
qed

lemma rb_insert_new:
  assumes wf: "rb_wf cmp T xs" and ord: "cmp_on (insert n (set xs)) cmp"
    and n: "n \<noteq> NULL" "n \<notin> set xs" and new: "\<forall>y\<in>set xs. cmp n y \<noteq> 0"
  shows "\<exists>T'. rb_insert cmp n T = Some (n, T') \<and> rb_wf cmp T' (cmp_insert cmp n xs)"
proof -
  from wf obtain t m where t: "zip_at T t []" "rbt_ok t m" "tcol t = RB_BLACK" "addrs t = xs"
    and srt: "cmp_sorted cmp xs" and cnt: "rb_count T = of_nat (length xs)"
    by (auto simp: rb_wf_def rb_shape_def)
  from insert_find_ok [OF t(1), of cmp n] t(4) srt ord new obtain k
    where f: "rb_insert_find cmp n RootLink NULL T = Some (Inr (link_of k, par_of k))"
      and z: "zip_up Lf k = t" and be: "\<forall>y\<in>set (kbefore k). 0 < cmp n y"
      and af: "\<forall>z\<in>set (kafter k). cmp n z < 0" by auto
  have xs: "xs = kbefore k @ kafter k" using t(4) z addrs_zip_up [of Lf k] by simp
  have Zk: "zip_at T Lf k" using t(1) z zip_at_top by blast
  have "n \<notin> set (kaddrs k)" using n(2) xs by (simp add: set_kaddrs)
  from attach_ok [OF Zk n(1) this] obtain T1 T5 where
    T: "rb_set T n (\<lambda>r. r\<lparr>rb_color := RB_RED, rb_left := NULL, rb_right := NULL, rb_parent := par_of k\<rparr>) = Some T1"
      "rb_write_link T1 (link_of k) n = Some T5"
    and T5: "zip_at T5 (Nd Lf n RB_RED Lf) k" "rb_count T5 = rb_count T" by metis
  have "kinv k 0" using kinv_zip_up [of Lf k m] t(2,3) z by auto
  then have "fixed n T5 (addrs (zip_up (Nd Lf n RB_RED Lf) k))"
    by (intro insert_color_ok [OF T5(1), of 0]) simp_all
  then obtain T6 where T6: "rb_insert_color n T5 = Some T6" "rb_count T6 = rb_count T5"
    "rb_shape T6 (addrs (zip_up (Nd Lf n RB_RED Lf) k))" by (auto simp: fixed_def)
  have "cmp_insert cmp n xs = kbefore k @ n # kafter k"
    unfolding xs by (rule cmp_insert_split) (use be af in auto)
  with T6(3) have sh: "rb_shape T6 (cmp_insert cmp n xs)" by (simp add: addrs_zip_up)
  have "rb_insert cmp n T = Some (n, T6\<lparr>rb_count := rb_count T6 + 1\<rparr>)"
    using f T T6(1) by (simp add: rb_insert_def)
  moreover have "rb_wf cmp (T6\<lparr>rb_count := rb_count T6 + 1\<rparr>) (cmp_insert cmp n xs)"
    using sh T6(2) T5(2) cnt cmp_sorted_insert [OF srt ord new] by (simp add: rb_wf_def)
  ultimately show ?thesis by blast
qed

lemma rb_insert_dup:
  assumes wf: "rb_wf cmp T xs" and ord: "cmp_on (insert n (set xs)) cmp"
    and y: "y \<in> set xs" "cmp n y = 0"
  shows "rb_insert cmp n T = Some (y, T)"
proof -
  from wf obtain t where t: "zip_at T t []" "addrs t = xs" and srt: "cmp_sorted cmp xs"
    by (auto simp: rb_wf_def rb_shape_def)
  from insert_find_ok [OF t(1), of cmp n] t(2) srt ord
  consider (dup) a where "a \<in> set xs" "cmp n a = 0" "rb_insert_find cmp n RootLink NULL T = Some (Inl a)"
    | (new) k where "zip_up Lf k = t" "\<forall>y\<in>set (kbefore k). 0 < cmp n y" "\<forall>z\<in>set (kafter k). cmp n z < 0"
    by auto
  then show ?thesis
  proof cases
    case dup
    have "a = y"
    proof (rule ccontr)
      assume "a \<noteq> y"
      then have "cmp a y < 0 \<or> cmp y a < 0"
        using srt dup(1) y(1) by (auto simp: in_set_conv_nth sorted_wrt_iff_nth_less) (metis linorder_neqE_nat)
      then show False
        using cmp_on_eq_less [OF ord, of n a y] cmp_on_eq_less [OF ord, of n y a] dup(1,2) y by auto
    qed
    with dup(3) show ?thesis by (simp add: rb_insert_def)
  next
    case new
    then have "y \<in> set (kbefore k) \<union> set (kafter k)" using t(2) y(1) addrs_zip_up [of Lf k] by auto
    with new y(2) show ?thesis by auto
  qed
qed

end
