(* ===== verification/RB_Recolor.thy ===== *)
theory RB_Recolor
  imports RB_Insert
begin

text \<open>
  The recolouring loop of removal: \<open>rb_remove_color\<close> returns and restores the black
  heights without changing the in-order list.
\<close>

section \<open>The recolouring loop\<close>

text \<open>
  The loop is entered with a tree \<open>t\<close> whose black height is one less than its place
  wants. Once the sibling is black, the rest of the loop's body is
  \<open>remove_left_tail\<close> (\<open>t\<close> a left child) or \<open>remove_right_tail\<close>.
\<close>

definition repaired :: "rb_tree option \<Rightarrow> 64 word \<Rightarrow> addr list \<Rightarrow> bool" where
  "repaired R n xs \<longleftrightarrow> (\<exists>T'. R = Some T' \<and> rb_count T' = n \<and> rb_shape T' xs)"

definition remove_left_tail :: "addr \<Rightarrow> addr \<Rightarrow> rb_tree \<Rightarrow> rb_tree option" where
  "remove_left_tail parent silbing T = do {
     s \<leftarrow> rb_get T silbing;
     if rb_is_black T (rb_left s) \<and> rb_is_black T (rb_right s) then do {
       T \<leftarrow> rb_set_red T silbing;
       p \<leftarrow> rb_get T parent;
       rb_remove_color parent (rb_parent p) T
     } else do {
       (silbing, T) \<leftarrow>
         (if rb_is_black T (rb_right s) then do {
            T \<leftarrow> rb_set_red T silbing;
            T \<leftarrow> rb_set_black T (rb_left s);
            T \<leftarrow> rb_rotate_right silbing T;
            p \<leftarrow> rb_get T parent;
            Some (rb_right p, T)
          } else Some (silbing, T));
       T \<leftarrow> rb_swap_color parent silbing T;
       s \<leftarrow> rb_get T silbing;
       T \<leftarrow> rb_set_black T (rb_right s);
       T \<leftarrow> rb_rotate_left parent T;
       if rb_root T \<noteq> NULL then rb_set_black T (rb_root T) else Some T
     }
   }"

definition remove_right_tail :: "addr \<Rightarrow> addr \<Rightarrow> rb_tree \<Rightarrow> rb_tree option" where
  "remove_right_tail parent silbing T = do {
     s \<leftarrow> rb_get T silbing;
     if rb_is_black T (rb_left s) \<and> rb_is_black T (rb_right s) then do {
       T \<leftarrow> rb_set_red T silbing;
       p \<leftarrow> rb_get T parent;
       rb_remove_color parent (rb_parent p) T
     } else do {
       (silbing, T) \<leftarrow>
         (if rb_is_black T (rb_left s) then do {
            T \<leftarrow> rb_set_red T silbing;
            T \<leftarrow> rb_set_black T (rb_right s);
            T \<leftarrow> rb_rotate_left silbing T;
            p \<leftarrow> rb_get T parent;
            Some (rb_left p, T)
          } else Some (silbing, T));
       T \<leftarrow> rb_swap_color parent silbing T;
       s \<leftarrow> rb_get T silbing;
       T \<leftarrow> rb_set_black T (rb_left s);
       T \<leftarrow> rb_rotate_right parent T;
       if rb_root T \<noteq> NULL then rb_set_black T (rb_root T) else Some T
     }
   }"

lemma remove_color_unfold:
  "rb_remove_color node parent T =
     (if rb_is_black T node \<and> node \<noteq> rb_root T then do {
        p \<leftarrow> rb_get T parent;
        if rb_left p = node then do {
          red \<leftarrow> rb_is_red T (rb_right p);
          if red then do {
            T \<leftarrow> rb_set_red T parent;
            T \<leftarrow> rb_set_black T (rb_right p);
            T \<leftarrow> rb_rotate_left parent T;
            p \<leftarrow> rb_get T parent;
            remove_left_tail parent (rb_right p) T
          } else remove_left_tail parent (rb_right p) T
        } else do {
          red \<leftarrow> rb_is_red T (rb_left p);
          if red then do {
            T \<leftarrow> rb_set_black T (rb_left p);
            T \<leftarrow> rb_set_red T parent;
            T \<leftarrow> rb_rotate_right parent T;
            p \<leftarrow> rb_get T parent;
            remove_right_tail parent (rb_left p) T
          } else remove_right_tail parent (rb_left p) T
        }
      } else if node \<noteq> NULL then rb_set_black T node else Some T)"
  by (subst rb_remove_color.simps)
    (auto simp: remove_left_tail_def remove_right_tail_def Let_def split_def
      intro!: Option.bind_cong [OF refl])

lemma repaired_zip:
  assumes "zip_at T t k" and "rbt_ok t m" and "kinv k m" and "tcol t = RB_RED \<Longrightarrow> kcol k = RB_BLACK"
  shows "repaired (if rb_root T \<noteq> NULL then rb_set_black T (rb_root T) else Some T) (rb_count T) (addrs (zip_up t k))"
proof (cases "zip_up t k = Lf")
  case True
  then have "zip_at T Lf []" using assms(1) by (metis zip_at_top)
  then have "rb_root T = NULL" by (simp add: zip_at_def)
  then show ?thesis using rb_shape_zip [OF assms] by (simp add: repaired_def)
next
  case False
  then show ?thesis
    using rb_shape_zip [OF assms] rb_set_black_root [OF assms False] by (simp add: repaired_def)
qed

text \<open>A red node, or the root, ends the loop: it is painted black.\<close>

lemma remove_color_red:
  assumes Z: "zip_at T (Nd l a RB_RED r) k" and "rbt_ok (Nd l a RB_BLACK r) m" and "kinv k m"
  shows "repaired (rb_remove_color a (par_of k) T) (rb_count T) (addrs (zip_up (Nd l a RB_RED r) k))"
proof -
  from paint_focus [OF Z, of RB_BLACK] obtain T1 where T1: "rb_set_black T a = Some T1"
    "zip_at T1 (Nd l a RB_BLACK r) k" "rb_count T1 = rb_count T" by (metis rb_set_black_def)
  have "\<not> rb_is_black T a" using black_focus [OF Z] by simp
  then have "rb_remove_color a (par_of k) T = Some T1"
    using T1(1) zip_at_node(1) [OF Z] by (subst remove_color_unfold) simp
  moreover have "rb_shape T1 (addrs (zip_up (Nd l a RB_BLACK r) k))"
    by (rule rb_shape_zip [OF T1(2) assms(2,3)]) simp
  ultimately show ?thesis using T1(3) by (simp add: repaired_def addrs_zip_up)
qed

lemma remove_color_root:
  assumes Z: "zip_at T t []" and ok: "rbt_ok t m" and col: "tcol t = RB_BLACK"
  shows "repaired (rb_remove_color (root_of t) p T) (rb_count T) (addrs t)"
proof -
  have rt: "rb_root T = root_of t" by (rule zip_at_root [OF Z])
  have "rb_remove_color (root_of t) p T = (if rb_root T \<noteq> NULL then rb_set_black T (rb_root T) else Some T)"
    by (subst remove_color_unfold) (simp add: rt)
  then show ?thesis using repaired_zip [OF Z ok] col by simp
qed

text \<open>The exchange of the colours of a parent and its child.\<close>

lemma swap_right:
  assumes Z: "zip_at T (Nd t p c (Nd u a d v)) k"
  obtains T' where "rb_swap_color p a T = Some T'" and "zip_at T' (Nd t p d (Nd u a c v)) k"
    and "rb_count T' = rb_count T"
proof -
  have a: "a \<noteq> NULL" "p \<noteq> NULL" "p \<noteq> a" using Z by (auto simp: zip_at_def)
  have "zip_at (T\<lparr>rb_nodes := (rb_nodes T)
    (a := (rb_nodes T a)\<lparr>rb_color := rb_color (rb_nodes T p)\<rparr>,
     p := (rb_nodes T p)\<lparr>rb_color := rb_color (rb_nodes T a)\<rparr>)\<rparr>) (Nd t p d (Nd u a c v)) k"
    using Z unfolding zip_at_def by (auto simp: fun_upd_def [symmetric])
  then show ?thesis by (intro that [OF rb_swap_color_eq [OF a(2,1,3)]]) simp_all
qed

lemma swap_left:
  assumes Z: "zip_at T (Nd (Nd u a d v) p c t) k"
  obtains T' where "rb_swap_color p a T = Some T'" and "zip_at T' (Nd (Nd u a c v) p d t) k"
    and "rb_count T' = rb_count T"
proof -
  have a: "a \<noteq> NULL" "p \<noteq> NULL" "p \<noteq> a" using Z by (auto simp: zip_at_def)
  have "zip_at (T\<lparr>rb_nodes := (rb_nodes T)
    (a := (rb_nodes T a)\<lparr>rb_color := rb_color (rb_nodes T p)\<rparr>,
     p := (rb_nodes T p)\<lparr>rb_color := rb_color (rb_nodes T a)\<rparr>)\<rparr>) (Nd (Nd u a c v) p d t) k"
    using Z unfolding zip_at_def by (auto simp: fun_upd_def [symmetric])
  then show ?thesis by (intro that [OF rb_swap_color_eq [OF a(2,1,3)]]) simp_all
qed

text \<open>
  A black sibling with a red far child (case 4): one rotation ends the loop.
\<close>

lemma remove_left_far:
  assumes Z: "zip_at T (Nd t p c (Nd sl a RB_BLACK (Nd x b RB_RED y))) k"
    and ok: "rbt_ok t m" "rbt_ok sl m" "rbt_ok x m" "rbt_ok y m"
    and k: "c = RB_RED \<and> kcol k = RB_BLACK \<and> kinv k (Suc m) \<or> c = RB_BLACK \<and> kinv k (Suc (Suc m))"
  shows "repaired (do {
       T \<leftarrow> rb_swap_color p a T;
       s \<leftarrow> rb_get T a;
       T \<leftarrow> rb_set_black T (rb_right s);
       T \<leftarrow> rb_rotate_left p T;
       if rb_root T \<noteq> NULL then rb_set_black T (rb_root T) else Some T
     }) (rb_count T) (addrs (zip_up (Nd t p c (Nd sl a RB_BLACK (Nd x b RB_RED y))) k))"
proof -
  from swap_right [OF Z] obtain T1 where T1: "rb_swap_color p a T = Some T1"
    "zip_at T1 (Nd sl a c (Nd x b RB_RED y)) (RightOf p RB_BLACK t # k)" "rb_count T1 = rb_count T"
    by (metis zip_at_right)
  have Zb: "zip_at T1 (Nd x b RB_RED y) (RightOf a c sl # RightOf p RB_BLACK t # k)"
    using T1(2) by (simp add: zip_at_right)
  from paint_focus [OF Zb, of RB_BLACK] obtain T2 where T2: "rb_set_black T1 b = Some T2"
    "zip_at T2 (Nd t p RB_BLACK (Nd sl a c (Nd x b RB_BLACK y))) k" "rb_count T2 = rb_count T1"
    by (metis rb_set_black_def zip_at_right)
  from rotate_left [OF T2(2)] obtain T3 where T3: "rb_rotate_left p T2 = Some T3"
    "zip_at T3 (Nd (Nd t p RB_BLACK sl) a c (Nd x b RB_BLACK y)) k" "rb_count T3 = rb_count T2" by metis
  have "repaired (if rb_root T3 \<noteq> NULL then rb_set_black T3 (rb_root T3) else Some T3) (rb_count T3)
      (addrs (zip_up (Nd (Nd t p RB_BLACK sl) a c (Nd x b RB_BLACK y)) k))"
    by (rule repaired_zip [OF T3(2), of "if c = RB_RED then Suc m else Suc (Suc m)"]) (use ok k in auto)
  then show ?thesis using T1 T2 T3 by (simp add: zip_at_get [OF T1(2)] addrs_zip_up)
qed

lemma remove_left_tail_ok:
  assumes Z: "zip_at T (Nd t p c (Nd sl a RB_BLACK sr)) k"
    and ok: "rbt_ok t m" "rbt_ok sl m" "rbt_ok sr m"
    and k: "c = RB_RED \<and> kcol k = RB_BLACK \<and> kinv k (Suc m) \<or> c = RB_BLACK \<and> kinv k (Suc (Suc m))"
    and IH: "\<And>T' t'. c = RB_BLACK \<Longrightarrow> zip_at T' t' k \<Longrightarrow> rbt_ok t' (Suc m) \<Longrightarrow>
      repaired (rb_remove_color (root_of t') (par_of k) T') (rb_count T') (addrs (zip_up t' k))"
  shows "repaired (remove_left_tail p a T) (rb_count T) (addrs (zip_up (Nd t p c (Nd sl a RB_BLACK sr)) k))"
proof -
  let ?kr = "RightOf p c t # k"
  have Za: "zip_at T (Nd sl a RB_BLACK sr) ?kr" using Z by (simp add: zip_at_right)
  have Zl: "zip_at T sl (LeftOf a RB_BLACK sr # ?kr)" and Zr: "zip_at T sr (RightOf a RB_BLACK sl # ?kr)"
    using Za by (simp_all add: zip_at_left [symmetric] zip_at_right [symmetric])
  note tests = black_focus [OF Zl] black_focus [OF Zr] zip_at_get [OF Za]
  consider (both) "tcol sl = RB_BLACK" "tcol sr = RB_BLACK"
    | (far) x b y where "sr = Nd x b RB_RED y"
    | (near) x b y where "sl = Nd x b RB_RED y" "tcol sr = RB_BLACK"
    using ok(2,3) rbt_ok_col rbt_ok_red by metis
  then show ?thesis
  proof cases
    case both
    from paint_focus [OF Za, of RB_RED] obtain T1 where T1: "rb_set_red T a = Some T1"
      "zip_at T1 (Nd t p c (Nd sl a RB_RED sr)) k" "rb_count T1 = rb_count T"
      by (metis rb_set_red_def zip_at_right)
    have "remove_left_tail p a T = rb_remove_color p (par_of k) T1"
      using T1(1) both by (simp add: remove_left_tail_def tests zip_at_get [OF T1(2)])
    moreover have "repaired (rb_remove_color p (par_of k) T1) (rb_count T1) (addrs (zip_up (Nd t p c (Nd sl a RB_RED sr)) k))"
    proof (cases "c = RB_RED")
      case True
      with remove_color_red [of T1 t p "Nd sl a RB_RED sr" k "Suc m"] T1(2) ok both k show ?thesis by simp
    next
      case False
      with IH [OF _ T1(2)] ok both k show ?thesis by simp
    qed
    ultimately show ?thesis using T1(3) by (simp add: addrs_zip_up)
  next
    case (far x b y)
    then have "\<not> rb_is_black T b" using black_focus [OF Zr] by simp
    with far remove_left_far [of T t p c sl a x b y k m] Z ok k show ?thesis
      by (simp add: remove_left_tail_def tests)
  next
    case (near x b y)
    then have nb: "\<not> rb_is_black T b" using black_focus [OF Zl] by simp
    from paint_focus [OF Za, of RB_RED] obtain T1 where T1: "rb_set_red T a = Some T1"
      "zip_at T1 (Nd x b RB_RED y) (LeftOf a RB_RED sr # ?kr)" "rb_count T1 = rb_count T"
      using near by (metis rb_set_red_def zip_at_left)
    from paint_focus [OF T1(2), of RB_BLACK] obtain T2 where T2: "rb_set_black T1 b = Some T2"
      "zip_at T2 (Nd (Nd x b RB_BLACK y) a RB_RED sr) ?kr" "rb_count T2 = rb_count T1"
      by (metis rb_set_black_def zip_at_left)
    from rotate_right [OF T2(2)] obtain T3 where T3: "rb_rotate_right a T2 = Some T3"
      "zip_at T3 (Nd t p c (Nd x b RB_BLACK (Nd y a RB_RED sr))) k" "rb_count T3 = rb_count T2"
      by (metis zip_at_right)
    from remove_left_far [OF T3(2), of m] T1 T2 T3 near nb ok k show ?thesis
      by (simp add: remove_left_tail_def tests zip_at_get [OF T3(2)] addrs_zip_up)
  qed
qed

text \<open>The sibling of a tree whose place wants one more black node.\<close>

lemma kinv_sibling:
  assumes "kinv (x # k) (Suc m)"
  obtains (black) sl a sr where "crumb_tree x = Nd sl a RB_BLACK sr" "rbt_ok sl m" "rbt_ok sr m"
      "crumb_color x = RB_RED \<and> kcol k = RB_BLACK \<and> kinv k (Suc m) \<or>
       crumb_color x = RB_BLACK \<and> kinv k (Suc (Suc m))"
    | (red) ll b lr a rl c rr where
      "crumb_tree x = Nd (Nd ll b RB_BLACK lr) a RB_RED (Nd rl c RB_BLACK rr)"
      "rbt_ok ll m" "rbt_ok lr m" "rbt_ok rl m" "rbt_ok rr m" "crumb_color x = RB_BLACK"
      "kinv k (Suc (Suc m))"
proof -
  have ok: "rbt_ok (crumb_tree x) (Suc m)"
    and k: "crumb_color x = RB_RED \<and> tcol (crumb_tree x) = RB_BLACK \<and> kcol k = RB_BLACK \<and> kinv k (Suc m) \<or>
      crumb_color x = RB_BLACK \<and> kinv k (Suc (Suc m))"
    using assms by simp_all
  have black_node: "\<exists>l a r. t = Nd l a RB_BLACK r \<and> rbt_ok l m \<and> rbt_ok r m"
    if "rbt_ok t (Suc m)" "tcol t = RB_BLACK" for t
    using that by (cases t) auto
  show ?thesis
  proof (cases "tcol (crumb_tree x) = RB_RED")
    case True
    with ok obtain l a r where s: "crumb_tree x = Nd l a RB_RED r" by (blast dest: rbt_ok_red)
    with ok have "rbt_ok l (Suc m)" "tcol l = RB_BLACK" "rbt_ok r (Suc m)" "tcol r = RB_BLACK" by simp_all
    with black_node [of l] black_node [of r] red k s True show ?thesis by fastforce
  next
    case False
    then have "tcol (crumb_tree x) = RB_BLACK" by (rule rbt_ok_col [OF ok])
    with black_node [OF ok] k black show ?thesis by blast
  qed
qed

lemma remove_color_left:
  assumes Z: "zip_at T t (LeftOf p c s # k)" and ok: "rbt_ok t m" and col: "tcol t = RB_BLACK"
    and k: "kinv (LeftOf p c s # k) (Suc m)"
    and IH: "\<And>T' t'. c = RB_BLACK \<Longrightarrow> zip_at T' t' k \<Longrightarrow> rbt_ok t' (Suc m) \<Longrightarrow>
      repaired (rb_remove_color (root_of t') (par_of k) T') (rb_count T') (addrs (zip_up t' k))"
  shows "repaired (rb_remove_color (root_of t) p T) (rb_count T) (addrs (zip_up (Nd t p c s) k))"
proof -
  have Zp: "zip_at T (Nd t p c s) k" using Z by (simp add: zip_at_left)
  then have Zs: "zip_at T s (RightOf p c t # k)" by (simp add: zip_at_right)
  have tests: "rb_is_black T (root_of t)" "root_of t \<noteq> rb_root T"
    using black_focus [OF Z] col zip_at_root_iff [OF Z] by simp_all
  note unf = remove_color_unfold [of "root_of t" p T] zip_at_get [OF Zp]
  from k show ?thesis
  proof (cases rule: kinv_sibling)
    case (black sl a sr)
    then have s: "s = Nd sl a RB_BLACK sr" by simp
    have "rb_remove_color (root_of t) p T = remove_left_tail p a T"
      using tests red_focus [OF Zs [unfolded s]] by (simp add: unf s)
    moreover have "repaired (remove_left_tail p a T) (rb_count T) (addrs (zip_up (Nd t p c s) k))"
      unfolding s by (rule remove_left_tail_ok [OF Zp [unfolded s] ok]) (use black IH in simp_all)
    ultimately show ?thesis by simp
  next
    case (red ll b lr a rl e rr)
    let ?sl = "Nd ll b RB_BLACK lr" and ?sr = "Nd rl e RB_BLACK rr"
    from red have s: "s = Nd ?sl a RB_RED ?sr" and c: "c = RB_BLACK" by simp_all
    from paint_focus [OF Zp [unfolded s], of RB_RED] obtain T1 where T1: "rb_set_red T p = Some T1"
      "zip_at T1 (Nd ?sl a RB_RED ?sr) (RightOf p RB_RED t # k)" "rb_count T1 = rb_count T"
      by (metis rb_set_red_def zip_at_right)
    from paint_focus [OF T1(2), of RB_BLACK] obtain T2 where T2: "rb_set_black T1 a = Some T2"
      "zip_at T2 (Nd t p RB_RED (Nd ?sl a RB_BLACK ?sr)) k" "rb_count T2 = rb_count T1"
      by (metis rb_set_black_def zip_at_right)
    from rotate_left [OF T2(2)] obtain T3 where T3: "rb_rotate_left p T2 = Some T3"
      "zip_at T3 (Nd t p RB_RED ?sl) (LeftOf a RB_BLACK ?sr # k)" "rb_count T3 = rb_count T2"
      by (metis zip_at_left)
    have "rb_remove_color (root_of t) p T = remove_left_tail p b T3"
      using tests red_focus [OF Zs [unfolded s]] T1(1) T2(1) T3(1) by (simp add: unf s zip_at_get [OF T3(2)])
    moreover have "repaired (remove_left_tail p b T3) (rb_count T3)
        (addrs (zip_up (Nd t p RB_RED ?sl) (LeftOf a RB_BLACK ?sr # k)))"
      by (rule remove_left_tail_ok [OF T3(2) ok]) (use red in simp_all)
    ultimately show ?thesis using T1 T2 T3 s by (simp add: addrs_zip_up)
  qed
qed

text \<open>The mirror images, for a tree that is a right child.\<close>

lemma remove_right_far:
  assumes Z: "zip_at T (Nd (Nd (Nd x b RB_RED y) a RB_BLACK sr) p c t) k"
    and ok: "rbt_ok t m" "rbt_ok sr m" "rbt_ok x m" "rbt_ok y m"
    and k: "c = RB_RED \<and> kcol k = RB_BLACK \<and> kinv k (Suc m) \<or> c = RB_BLACK \<and> kinv k (Suc (Suc m))"
  shows "repaired (do {
       T \<leftarrow> rb_swap_color p a T;
       s \<leftarrow> rb_get T a;
       T \<leftarrow> rb_set_black T (rb_left s);
       T \<leftarrow> rb_rotate_right p T;
       if rb_root T \<noteq> NULL then rb_set_black T (rb_root T) else Some T
     }) (rb_count T) (addrs (zip_up (Nd (Nd (Nd x b RB_RED y) a RB_BLACK sr) p c t) k))"
proof -
  from swap_left [OF Z] obtain T1 where T1: "rb_swap_color p a T = Some T1"
    "zip_at T1 (Nd (Nd x b RB_RED y) a c sr) (LeftOf p RB_BLACK t # k)" "rb_count T1 = rb_count T"
    by (metis zip_at_left)
  have Zb: "zip_at T1 (Nd x b RB_RED y) (LeftOf a c sr # LeftOf p RB_BLACK t # k)"
    using T1(2) by (simp add: zip_at_left)
  from paint_focus [OF Zb, of RB_BLACK] obtain T2 where T2: "rb_set_black T1 b = Some T2"
    "zip_at T2 (Nd (Nd (Nd x b RB_BLACK y) a c sr) p RB_BLACK t) k" "rb_count T2 = rb_count T1"
    by (metis rb_set_black_def zip_at_left)
  from rotate_right [OF T2(2)] obtain T3 where T3: "rb_rotate_right p T2 = Some T3"
    "zip_at T3 (Nd (Nd x b RB_BLACK y) a c (Nd sr p RB_BLACK t)) k" "rb_count T3 = rb_count T2" by metis
  have "repaired (if rb_root T3 \<noteq> NULL then rb_set_black T3 (rb_root T3) else Some T3) (rb_count T3)
      (addrs (zip_up (Nd (Nd x b RB_BLACK y) a c (Nd sr p RB_BLACK t)) k))"
    by (rule repaired_zip [OF T3(2), of "if c = RB_RED then Suc m else Suc (Suc m)"]) (use ok k in auto)
  then show ?thesis using T1 T2 T3 by (simp add: zip_at_get [OF T1(2)] addrs_zip_up)
qed

lemma remove_right_tail_ok:
  assumes Z: "zip_at T (Nd (Nd sl a RB_BLACK sr) p c t) k"
    and ok: "rbt_ok t m" "rbt_ok sl m" "rbt_ok sr m"
    and k: "c = RB_RED \<and> kcol k = RB_BLACK \<and> kinv k (Suc m) \<or> c = RB_BLACK \<and> kinv k (Suc (Suc m))"
    and IH: "\<And>T' t'. c = RB_BLACK \<Longrightarrow> zip_at T' t' k \<Longrightarrow> rbt_ok t' (Suc m) \<Longrightarrow>
      repaired (rb_remove_color (root_of t') (par_of k) T') (rb_count T') (addrs (zip_up t' k))"
  shows "repaired (remove_right_tail p a T) (rb_count T) (addrs (zip_up (Nd (Nd sl a RB_BLACK sr) p c t) k))"
proof -
  let ?kl = "LeftOf p c t # k"
  have Za: "zip_at T (Nd sl a RB_BLACK sr) ?kl" using Z by (simp add: zip_at_left)
  have Zl: "zip_at T sl (LeftOf a RB_BLACK sr # ?kl)" and Zr: "zip_at T sr (RightOf a RB_BLACK sl # ?kl)"
    using Za by (simp_all add: zip_at_left [symmetric] zip_at_right [symmetric])
  note tests = black_focus [OF Zl] black_focus [OF Zr] zip_at_get [OF Za]
  consider (both) "tcol sl = RB_BLACK" "tcol sr = RB_BLACK"
    | (far) x b y where "sl = Nd x b RB_RED y"
    | (near) x b y where "sr = Nd x b RB_RED y" "tcol sl = RB_BLACK"
    using ok(2,3) rbt_ok_col rbt_ok_red by metis
  then show ?thesis
  proof cases
    case both
    from paint_focus [OF Za, of RB_RED] obtain T1 where T1: "rb_set_red T a = Some T1"
      "zip_at T1 (Nd (Nd sl a RB_RED sr) p c t) k" "rb_count T1 = rb_count T"
      by (metis rb_set_red_def zip_at_left)
    have "remove_right_tail p a T = rb_remove_color p (par_of k) T1"
      using T1(1) both by (simp add: remove_right_tail_def tests zip_at_get [OF T1(2)])
    moreover have "repaired (rb_remove_color p (par_of k) T1) (rb_count T1) (addrs (zip_up (Nd (Nd sl a RB_RED sr) p c t) k))"
    proof (cases "c = RB_RED")
      case True
      with remove_color_red [of T1 "Nd sl a RB_RED sr" p t k "Suc m"] T1(2) ok both k show ?thesis by simp
    next
      case False
      with IH [OF _ T1(2)] ok both k show ?thesis by simp
    qed
    ultimately show ?thesis using T1(3) by (simp add: addrs_zip_up)
  next
    case (far x b y)
    then have "\<not> rb_is_black T b" using black_focus [OF Zl] by simp
    with far remove_right_far [of T x b y a sr p c t k m] Z ok k show ?thesis
      by (simp add: remove_right_tail_def tests)
  next
    case (near x b y)
    then have nb: "\<not> rb_is_black T b" using black_focus [OF Zr] by simp
    from paint_focus [OF Za, of RB_RED] obtain T1 where T1: "rb_set_red T a = Some T1"
      "zip_at T1 (Nd x b RB_RED y) (RightOf a RB_RED sl # ?kl)" "rb_count T1 = rb_count T"
      using near by (metis rb_set_red_def zip_at_right)
    from paint_focus [OF T1(2), of RB_BLACK] obtain T2 where T2: "rb_set_black T1 b = Some T2"
      "zip_at T2 (Nd sl a RB_RED (Nd x b RB_BLACK y)) ?kl" "rb_count T2 = rb_count T1"
      by (metis rb_set_black_def zip_at_right)
    from rotate_left [OF T2(2)] obtain T3 where T3: "rb_rotate_left a T2 = Some T3"
      "zip_at T3 (Nd (Nd (Nd sl a RB_RED x) b RB_BLACK y) p c t) k" "rb_count T3 = rb_count T2"
      by (metis zip_at_left)
    from remove_right_far [OF T3(2), of m] T1 T2 T3 near nb ok k show ?thesis
      by (simp add: remove_right_tail_def tests zip_at_get [OF T3(2)] addrs_zip_up)
  qed
qed

lemma remove_color_right:
  assumes Z: "zip_at T t (RightOf p c s # k)" and ok: "rbt_ok t m" and col: "tcol t = RB_BLACK"
    and k: "kinv (RightOf p c s # k) (Suc m)"
    and IH: "\<And>T' t'. c = RB_BLACK \<Longrightarrow> zip_at T' t' k \<Longrightarrow> rbt_ok t' (Suc m) \<Longrightarrow>
      repaired (rb_remove_color (root_of t') (par_of k) T') (rb_count T') (addrs (zip_up t' k))"
  shows "repaired (rb_remove_color (root_of t) p T) (rb_count T) (addrs (zip_up (Nd s p c t) k))"
proof -
  have Zp: "zip_at T (Nd s p c t) k" using Z by (simp add: zip_at_right)
  then have Zs: "zip_at T s (LeftOf p c t # k)" by (simp add: zip_at_left)
  have "s \<noteq> Lf" using k by auto
  then have tests: "rb_is_black T (root_of t)" "root_of t \<noteq> rb_root T" "root_of s \<noteq> root_of t"
    using black_focus [OF Z] col zip_at_root_iff [OF Z] not_root_of_right [OF Zp root_of_in] by simp_all
  note unf = remove_color_unfold [of "root_of t" p T] zip_at_get [OF Zp]
  from k show ?thesis
  proof (cases rule: kinv_sibling)
    case (black sl a sr)
    then have s: "s = Nd sl a RB_BLACK sr" by simp
    have "rb_remove_color (root_of t) p T = remove_right_tail p a T"
      using tests red_focus [OF Zs [unfolded s]] by (simp add: unf s)
    moreover have "repaired (remove_right_tail p a T) (rb_count T) (addrs (zip_up (Nd s p c t) k))"
      unfolding s by (rule remove_right_tail_ok [OF Zp [unfolded s] ok]) (use black IH in simp_all)
    ultimately show ?thesis by simp
  next
    case (red ll b lr a rl e rr)
    let ?sl = "Nd ll b RB_BLACK lr" and ?sr = "Nd rl e RB_BLACK rr"
    from red have s: "s = Nd ?sl a RB_RED ?sr" and c: "c = RB_BLACK" by simp_all
    from paint_focus [OF Zs [unfolded s], of RB_BLACK] obtain T1 where T1: "rb_set_black T a = Some T1"
      "zip_at T1 (Nd (Nd ?sl a RB_BLACK ?sr) p c t) k" "rb_count T1 = rb_count T"
      by (metis rb_set_black_def zip_at_left)
    from paint_focus [OF T1(2), of RB_RED] obtain T2 where T2: "rb_set_red T1 p = Some T2"
      "zip_at T2 (Nd (Nd ?sl a RB_BLACK ?sr) p RB_RED t) k" "rb_count T2 = rb_count T1"
      by (metis rb_set_red_def)
    from rotate_right [OF T2(2)] obtain T3 where T3: "rb_rotate_right p T2 = Some T3"
      "zip_at T3 (Nd ?sr p RB_RED t) (RightOf a RB_BLACK ?sl # k)" "rb_count T3 = rb_count T2"
      by (metis zip_at_right)
    have "rb_remove_color (root_of t) p T = remove_right_tail p e T3"
      using tests red_focus [OF Zs [unfolded s]] T1(1) T2(1) T3(1) by (simp add: unf s zip_at_get [OF T3(2)])
    moreover have "repaired (remove_right_tail p e T3) (rb_count T3)
        (addrs (zip_up (Nd ?sr p RB_RED t) (RightOf a RB_BLACK ?sl # k)))"
      by (rule remove_right_tail_ok [OF T3(2) ok]) (use red in simp_all)
    ultimately show ?thesis using T1 T2 T3 s by (simp add: addrs_zip_up)
  qed
qed

lemma remove_color_ok:
  assumes "zip_at T t k" and "rbt_ok t m" and "kinv k (Suc m)"
  shows "repaired (rb_remove_color (root_of t) (par_of k) T) (rb_count T) (addrs (zip_up t k))"
  using assms
proof (induction "length k" arbitrary: T t k m rule: less_induct)
  case less
  show ?case
  proof (cases "tcol t = RB_RED")
    case True
    with less.prems(2) obtain l a r where t: "t = Nd l a RB_RED r" by (blast dest: rbt_ok_red)
    with less.prems have "rbt_ok (Nd l a RB_BLACK r) (Suc m)" by simp
    with remove_color_red [of T l a r k "Suc m"] less.prems t show ?thesis by simp
  next
    case False
    then have col: "tcol t = RB_BLACK" by (rule rbt_ok_col [OF less.prems(2)])
    show ?thesis
    proof (cases k)
      case Nil
      with remove_color_root [of T t m] less.prems col show ?thesis by simp
    next
      case (Cons x k1)
      have IH: "repaired (rb_remove_color (root_of t') (par_of k1) T') (rb_count T') (addrs (zip_up t' k1))"
        if "crumb_color x = RB_BLACK" "zip_at T' t' k1" "rbt_ok t' (Suc m)" for T' t'
        by (rule less.hyps [OF _ that(2,3)]) (use less.prems(3) Cons that in simp_all)
      show ?thesis
      proof (cases x)
        case (LeftOf p c s)
        with remove_color_left [of T t p c s k1 m] less.prems col Cons IH show ?thesis by simp
      next
        case (RightOf p c s)
        with remove_color_right [of T t p c s k1 m] less.prems col Cons IH show ?thesis by simp
      qed
    qed
  qed
qed

end
