(* ===== verification/RB_Remove.thy ===== *)
theory RB_Remove
  imports RB_Recolor
begin

text \<open>
  Removal: \<open>rb_remove\<close> unlinks exactly the given node, whatever its number of children,
  and the tree stays well formed.
\<close>

section \<open>Unlinking a node with at most one child\<close>

lemma remove_one_ok:
  assumes Z: "zip_at T (Nd l n c r) k" and t: "t = r \<and> l = Lf \<or> t = l \<and> r = Lf"
  obtains T' where "rb_remove_one n (root_of t) T = Some (root_of t, par_of k, T')"
    and "zip_at T' t k" and "rb_count T' = rb_count T" and "rb_color (rb_nodes T' n) = c"
proof -
  let ?h = "rb_nodes T"
  let ?h1 = "if root_of t = NULL then ?h else ?h(root_of t := (?h (root_of t))\<lparr>rb_parent := par_of k\<rparr>)"
  have n: "n \<noteq> NULL" "?h n = \<lparr>rb_parent = par_of k, rb_left = root_of l, rb_right = root_of r, rb_color = c\<rparr>"
    by (rule zip_at_node [OF Z])+
  have tt: "tree_at ?h n t" and k: "ctx_at ?h (rb_root T) n k"
    and d: "n \<notin> set (addrs t)" "n \<notin> set (kaddrs k)" "distinct (addrs t @ kaddrs k)"
    using Z t unfolding zip_at_def by auto
  have rt: "root_of t \<noteq> NULL \<Longrightarrow> root_of t \<in> set (addrs t)" by (cases t) auto
  have t1: "tree_at ?h1 (par_of k) t" using tt d(3) by (simp add: tree_at_reparent)
  have k1: "ctx_at ?h1 (rb_root T) n k" by (rule ctx_at_frame [OF k]) (use rt d in auto)
  have k2: "ctx_at (rb_nodes (T\<lparr>rb_nodes := ?h1\<rparr>)) (rb_root (T\<lparr>rb_nodes := ?h1\<rparr>)) n k" using k1 by simp
  have "distinct (kaddrs k)" using d(3) by simp
  from k2 d(2) n(1) this obtain T' where T': "rb_replace_child (par_of k) n (root_of t) (T\<lparr>rb_nodes := ?h1\<rparr>) = Some T'"
    "ctx_at (rb_nodes T') (rb_root T') (root_of t) k" "rb_count T' = rb_count (T\<lparr>rb_nodes := ?h1\<rparr>)"
    "\<And>p. p \<notin> set (kaddrs k) \<Longrightarrow> rb_nodes T' p = rb_nodes (T\<lparr>rb_nodes := ?h1\<rparr>) p"
    by (rule replace_child [where new = "root_of t"]) auto
  have out: "rb_nodes T' p = ?h1 p" if "p \<notin> set (kaddrs k)" for p
    using T'(4) [OF that] by simp
  have "tree_at (rb_nodes T') (par_of k) t" by (rule tree_at_frame [OF t1], rule out) (use d in auto)
  then have "zip_at T' t k" using T'(2) d by (simp add: zip_at_def)
  moreover have "rb_color (rb_nodes T' n) = c" using out [of n] d n rt by auto
  moreover have "rb_remove_one n (root_of t) T = Some (root_of t, par_of k, T')"
    using T'(1) n by (cases "root_of t = NULL") (simp_all add: rb_remove_one_def rb_get_def rb_set_def mem_simps Let_def)
  ultimately show ?thesis using that T'(3) by simp
qed

section \<open>The leftmost node of a subtree\<close>

fun is_left :: "crumb \<Rightarrow> bool" where
  "is_left (LeftOf a c r) \<longleftrightarrow> True"
| "is_left (RightOf a c l) \<longleftrightarrow> False"

lemma leftmost_split:
  "t \<noteq> Lf \<Longrightarrow> \<exists>s c r kl. t = zip_up (Nd Lf s c r) kl \<and> list_all is_left kl"
proof (induction t)
  case (Nd l a c r)
  show ?case
  proof (cases "l = Lf")
    case True
    then have "Nd l a c r = zip_up (Nd Lf a c r) [] \<and> list_all is_left []" by simp
    then show ?thesis by blast
  next
    case False
    with Nd.IH(1) obtain s d u kl where "l = zip_up (Nd Lf s d u) kl" "list_all is_left kl" by blast
    then have "Nd l a c r = zip_up (Nd Lf s d u) (kl @ [LeftOf a c r]) \<and> list_all is_left (kl @ [LeftOf a c r])"
      by (simp add: zip_up_append)
    then show ?thesis by blast
  qed
qed simp

lemma kbefore_left: "list_all is_left kl \<Longrightarrow> kbefore (kl @ k) = kbefore k"
proof (induction kl)
  case (Cons x kl)
  then show ?case by (cases x) auto
qed simp

lemma root_of_zip_up: "kl \<noteq> [] \<Longrightarrow> root_of (zip_up t kl) = crumb_addr (last kl)"
proof (induction kl arbitrary: t)
  case (Cons x kl)
  then show ?case by (cases x) auto
qed simp

lemma leftmost_ok:
  "tree_at (rb_nodes T) par (zip_up (Nd Lf s c r) kl) \<Longrightarrow> list_all is_left kl \<Longrightarrow>
   rb_leftmost (root_of (zip_up (Nd Lf s c r) kl)) T = Some s"
proof (induction kl arbitrary: par rule: rev_induct)
  case Nil
  then show ?case by (subst rb_leftmost.simps) (simp add: rb_get_def mem_simps)
next
  case (snoc x kl)
  then obtain a d u where x: "x = LeftOf a d u" by (cases x) auto
  have "root_of (zip_up (Nd Lf s c r) kl) \<in> set (addrs (zip_up (Nd Lf s c r) kl))"
    by (rule root_of_in) (auto dest: arg_cong [of _ _ addrs] simp: addrs_zip_up)
  with snoc x have "root_of (zip_up (Nd Lf s c r) kl) \<noteq> NULL"
    using tree_at_NULL by (fastforce simp: zip_up_append)
  with snoc x show ?case
    by (subst rb_leftmost.simps) (auto simp: rb_get_def mem_simps zip_up_append)
qed

text \<open>Cutting the leftmost node out of a subtree in which it is not the root.\<close>

definition unlink_min :: "(addr \<Rightarrow> rb_node) \<Rightarrow> addr \<Rightarrow> addr \<Rightarrow> addr \<Rightarrow> rb_node" where
  "unlink_min h q child =
     (let h1 = (if child = NULL then h else h(child := (h child)\<lparr>rb_parent := q\<rparr>))
      in h1(q := (h1 q)\<lparr>rb_left := child\<rparr>))"

lemma unlink_min_out: "x \<noteq> q \<Longrightarrow> x \<noteq> child \<Longrightarrow> unlink_min h q child x = h x"
  by (simp add: unlink_min_def Let_def)

lemma unlink_min_ok:
  assumes "kl \<noteq> []" and "list_all is_left kl" and "tree_at h par (zip_up (Nd Lf s c r) kl)"
    and "distinct (addrs (zip_up (Nd Lf s c r) kl))"
  shows "tree_at (unlink_min h (par_of kl) (root_of r)) par (zip_up r kl)"
  using assms
proof (induction kl arbitrary: par rule: rev_induct)
  case (snoc x kl)
  then obtain a d u where x: "x = LeftOf a d u" by (cases x) auto
  have rr: "root_of r = NULL \<or> root_of r \<in> set (addrs r)" by (cases r) auto
  show ?case
  proof (cases "kl = []")
    case True
    have q: "par_of (kl @ [x]) = a" using True x by simp
    have pre: "a \<noteq> NULL" "h a = \<lparr>rb_parent = par, rb_left = s, rb_right = root_of u, rb_color = d\<rparr>"
      "tree_at h s r" "tree_at h a u" "distinct (addrs r)" "a \<notin> set (addrs r)" "a \<notin> set (addrs u)"
      "set (addrs r) \<inter> set (addrs u) = {}"
      using snoc.prems True x by auto
    let ?h1 = "if root_of r = NULL then h else h(root_of r := (h (root_of r))\<lparr>rb_parent := a\<rparr>)"
    have "tree_at ?h1 a r" by (rule tree_at_reparent [OF pre(3,5)])
    then have "tree_at (unlink_min h a (root_of r)) a r"
      using pre by (simp add: unlink_min_def Let_def)
    moreover have "tree_at (unlink_min h a (root_of r)) a u"
      by (rule tree_at_frame [OF pre(4)], rule unlink_min_out) (use pre rr tree_at_NULL [OF pre(4)] in auto)
    moreover have "unlink_min h a (root_of r) a = \<lparr>rb_parent = par, rb_left = root_of r, rb_right = root_of u, rb_color = d\<rparr>"
      using pre rr by (auto simp: unlink_min_def Let_def)
    ultimately show ?thesis using True x q pre(1) by simp
  next
    case False
    let ?t = "zip_up (Nd Lf s c r) kl" and ?h' = "unlink_min h (par_of kl) (root_of r)"
    have pre: "a \<noteq> NULL" "h a = \<lparr>rb_parent = par, rb_left = root_of ?t, rb_right = root_of u, rb_color = d\<rparr>"
      "tree_at h a ?t" "tree_at h a u" "distinct (addrs ?t)" "a \<notin> set (addrs ?t)" "a \<notin> set (addrs u)"
      "set (addrs ?t) \<inter> set (addrs u) = {}"
      using snoc.prems x by (auto simp: zip_up_append)
    have q: "par_of (kl @ [x]) = par_of kl" using False by (cases kl) auto
    have mem: "par_of kl \<in> set (addrs ?t)" "set (addrs r) \<subseteq> set (addrs ?t)"
      using par_of_in [OF False] by (auto simp: addrs_zip_up set_kaddrs)
    have ih: "tree_at ?h' a (zip_up r kl)"
      using snoc.IH [OF False] snoc.prems pre by simp
    have a: "?h' a = h a" by (rule unlink_min_out) (use mem pre rr in auto)
    have "tree_at ?h' a u" by (rule tree_at_frame [OF pre(4)], rule unlink_min_out)
      (use mem pre rr tree_at_NULL [OF pre(4)] in auto)
    with ih a pre(1,2) q x show ?thesis by (simp add: zip_up_append root_of_zip_up [OF False])
  qed
qed simp

section \<open>Unlinking a node with two children\<close>

lemma reparent_root:
  assumes "tree_at h par t" and "distinct (addrs t)" and "t \<noteq> Lf"
  shows "tree_at (h(root_of t := (h (root_of t))\<lparr>rb_parent := par'\<rparr>)) par' t"
  using assms tree_at_reparent [OF assms(1,2), of par'] by (cases t) auto

lemma take_colour:
  assumes s: "rb_nodes T s = \<lparr>rb_parent = par_of k, rb_left = root_of l, rb_right = root_of r, rb_color = d\<rparr>"
    and "tree_at (rb_nodes T) s l" "tree_at (rb_nodes T) s r" "ctx_at (rb_nodes T) (rb_root T) s k"
    and n: "rb_color (rb_nodes T n) = c" "n \<noteq> NULL" "n \<notin> set (addrs (Nd l s c r))" "n \<notin> set (kaddrs k)"
    and "s \<noteq> NULL" "distinct (addrs (Nd l s c r) @ kaddrs k)"
  obtains T' where "rb_swap_color s n T = Some T'" "zip_at T' (Nd l s c r) k"
    "rb_count T' = rb_count T" "rb_color (rb_nodes T' n) = d"
proof (intro that [OF rb_swap_color_eq])
  show "s \<noteq> NULL" "n \<noteq> NULL" "s \<noteq> n" using assms by auto
  show "zip_at (T\<lparr>rb_nodes := (rb_nodes T)
    (n := (rb_nodes T n)\<lparr>rb_color := rb_color (rb_nodes T s)\<rparr>,
     s := (rb_nodes T s)\<lparr>rb_color := rb_color (rb_nodes T n)\<rparr>)\<rparr>) (Nd l s c r) k"
    using assms by (auto simp: zip_at_def)
  show "rb_color (rb_nodes (T\<lparr>rb_nodes := (rb_nodes T)
    (n := (rb_nodes T n)\<lparr>rb_color := rb_color (rb_nodes T s)\<rparr>,
     s := (rb_nodes T s)\<lparr>rb_color := rb_color (rb_nodes T n)\<rparr>)\<rparr>) n) = d"
    using assms by auto
qed simp_all

text \<open>
  The first half of \<open>rb_remove_two\<close>: the replacement \<open>s\<close> is hung below the parent of
  \<open>n\<close> and takes over the left subtree.
\<close>

lemma hang_replace:
  assumes Z: "zip_at T (Nd l n c r) k" and l: "l \<noteq> Lf" and s: "s \<in> set (addrs r)"
  obtains T1 h where "rb_replace_child (par_of k) n s T = Some T1"
    and "h = (rb_nodes T1)(s := (rb_nodes T1 s)\<lparr>rb_parent := par_of k, rb_left := root_of l\<rparr>,
        root_of l := (rb_nodes T1 (root_of l))\<lparr>rb_parent := s\<rparr>)"
    and "rb_count T1 = rb_count T" and "ctx_at h (rb_root T1) s k" and "tree_at h s l"
    and "\<And>x. x = n \<or> x \<in> set (addrs r) \<Longrightarrow> x \<noteq> s \<Longrightarrow> h x = rb_nodes T x"
    and "h s = (rb_nodes T s)\<lparr>rb_parent := par_of k, rb_left := root_of l\<rparr>"
proof -
  have n: "n \<noteq> NULL" and tl: "tree_at (rb_nodes T) n l"
    and k: "ctx_at (rb_nodes T) (rb_root T) n k" "n \<notin> set (kaddrs k)" "distinct (kaddrs k)"
    and d: "distinct (addrs (Nd l n c r) @ kaddrs k)"
    using Z unfolding zip_at_def by auto
  have rl: "root_of l \<in> set (addrs l)" using l by (rule root_of_in)
  from k(1,2) n k(3) obtain T1 where T1: "rb_replace_child (par_of k) n s T = Some T1"
    "ctx_at (rb_nodes T1) (rb_root T1) s k" "rb_count T1 = rb_count T"
    "\<And>p. p \<notin> set (kaddrs k) \<Longrightarrow> rb_nodes T1 p = rb_nodes T p"
    by (rule replace_child [where new = s]) auto
  let ?h1 = "(rb_nodes T1)(s := (rb_nodes T1 s)\<lparr>rb_parent := par_of k, rb_left := root_of l\<rparr>)"
  let ?h = "?h1(root_of l := (rb_nodes T1 (root_of l))\<lparr>rb_parent := s\<rparr>)"
  have ne: "root_of l \<noteq> s" using rl s d by auto
  have "ctx_at ?h (rb_root T1) s k" by (rule ctx_at_frame [OF T1(2)]) (use d s rl in auto)
  moreover have "tree_at ?h1 n l" by (rule tree_at_frame [OF tl]) (use T1(4) d s in auto)
  then have "tree_at (?h1(root_of l := (?h1 (root_of l))\<lparr>rb_parent := s\<rparr>)) s l"
    by (rule reparent_root) (use d l in auto)
  then have "tree_at ?h s l" using ne by simp
  moreover have "\<And>x. x = n \<or> x \<in> set (addrs r) \<Longrightarrow> x \<noteq> s \<Longrightarrow> ?h x = rb_nodes T x"
    using T1(4) d rl by auto
  moreover have "?h s = (rb_nodes T s)\<lparr>rb_parent := par_of k, rb_left := root_of l\<rparr>"
    using T1(4) [of s] d s ne by (metis Un_iff disjoint_iff distinct_append addrs.simps(2) fun_upd_other fun_upd_same set_append list.set_intros(2))
  ultimately show ?thesis using T1 that [of T1 ?h] by blast
qed

text \<open>The second half, when the replacement is not the right child itself.\<close>

definition move_min :: "(addr \<Rightarrow> rb_node) \<Rightarrow> addr \<Rightarrow> addr \<Rightarrow> addr \<Rightarrow> addr \<Rightarrow> addr \<Rightarrow> rb_node" where
  "move_min h q child s rr =
     (let h1 = unlink_min h q child; h2 = h1(s := (h1 s)\<lparr>rb_right := rr\<rparr>)
      in h2(rr := (h2 rr)\<lparr>rb_parent := s\<rparr>))"

lemma unlink_min_cong: "h x = h' x \<Longrightarrow> unlink_min h q child x = unlink_min h' q child x"
  by (auto simp: unlink_min_def Let_def)

lemma move_min_out: "x \<noteq> q \<Longrightarrow> x \<noteq> child \<Longrightarrow> x \<noteq> s \<Longrightarrow> x \<noteq> rr \<Longrightarrow> move_min h q child s rr x = h x"
  by (simp add: move_min_def Let_def unlink_min_out)

lemma move_min_ok:
  assumes r: "kl \<noteq> []" "list_all is_left kl" "r = zip_up (Nd Lf s d sr) kl"
    and t: "tree_at h0 n r" "distinct (addrs r)"
    and out: "\<And>x. x \<in> set (addrs r) \<Longrightarrow> x \<noteq> s \<Longrightarrow> h x = h0 x"
  shows "tree_at (move_min h (par_of kl) (root_of sr) s (root_of r)) s (zip_up sr kl)"
    and "move_min h (par_of kl) (root_of sr) s (root_of r) s = (h s)\<lparr>rb_right := root_of (zip_up sr kl)\<rparr>"
    and "x \<notin> set (addrs r) \<Longrightarrow> x \<noteq> NULL \<Longrightarrow> move_min h (par_of kl) (root_of sr) s (root_of r) x = h x"
proof -
  let ?r = "zip_up sr kl" and ?q = "par_of kl" and ?c = "root_of sr"
  let ?u = "unlink_min h ?q ?c"
  have mem: "set (addrs ?r) = set (addrs r) - {s}" "s \<in> set (addrs r)" "distinct (addrs ?r)"
    using t(2) r(3) by (auto simp: addrs_zip_up)
  have root: "root_of ?r = root_of r" using r by (simp add: root_of_zip_up)
  have in_r: "?q \<in> set (addrs ?r)" "?c = NULL \<or> ?c \<in> set (addrs ?r)" "?r \<noteq> Lf"
  proof -
    have "?c = NULL \<or> ?c \<in> set (addrs sr)" by (cases sr) auto
    then show "?q \<in> set (addrs ?r)" "?c = NULL \<or> ?c \<in> set (addrs ?r)"
      using par_of_in [OF r(1)] by (auto simp: addrs_zip_up set_kaddrs)
    then show "?r \<noteq> Lf" by auto
  qed
  then have rr: "root_of r \<in> set (addrs ?r)" using root root_of_in by metis
  have s0: "s \<noteq> NULL" using tree_at_NULL [OF t(1)] mem(2) by auto
  have "tree_at (unlink_min h0 ?q ?c) n ?r"
    using unlink_min_ok [OF r(1,2), of h0 n s d sr] t r(3) by simp
  then have "tree_at ?u n ?r"
    by (rule tree_at_frame, intro unlink_min_cong out) (use mem in auto)
  then have "tree_at (?u(s := (?u s)\<lparr>rb_right := root_of r\<rparr>)) n ?r" using mem by simp
  from reparent_root [OF this mem(3) in_r(3), of s]
  show "tree_at (move_min h ?q ?c s (root_of r)) s ?r" by (simp add: move_min_def Let_def root)
  have "?u s = h s" by (rule unlink_min_out) (use in_r mem s0 in auto)
  moreover have "s \<noteq> root_of r" using rr mem by auto
  ultimately show "move_min h ?q ?c s (root_of r) s = (h s)\<lparr>rb_right := root_of ?r\<rparr>"
    by (simp add: move_min_def Let_def root)
  show "move_min h ?q ?c s (root_of r) x = h x" if "x \<notin> set (addrs r)" "x \<noteq> NULL"
    by (rule move_min_out) (use that in_r rr mem in auto)
qed

lemma move_min_run:
  assumes "q \<noteq> NULL" "s \<noteq> NULL" "rr \<noteq> NULL"
  shows "(do {
      T \<leftarrow> (if child \<noteq> NULL then rb_set T child (rb_parent_update (\<lambda>_. q)) else Some T);
      T \<leftarrow> rb_set T q (rb_left_update (\<lambda>_. child));
      T \<leftarrow> rb_set T s (rb_right_update (\<lambda>_. rr));
      T \<leftarrow> rb_set T rr (rb_parent_update (\<lambda>_. s));
      f T
    }) = f (T\<lparr>rb_nodes := move_min (rb_nodes T) q child s rr\<rparr>)"
  using assms by (cases "child = NULL") (simp_all add: rb_set_def mem_simps move_min_def unlink_min_def Let_def)

lemma hang_run:
  assumes "s \<noteq> NULL" "rl \<noteq> NULL" "rl \<noteq> s"
  shows "(do {
      T \<leftarrow> rb_set T s (rb_parent_update (\<lambda>_. p));
      T \<leftarrow> rb_set T s (rb_left_update (\<lambda>_. rl));
      T \<leftarrow> rb_set T rl (rb_parent_update (\<lambda>_. s));
      f T
    }) = f (T\<lparr>rb_nodes := (rb_nodes T)(s := (rb_nodes T s)\<lparr>rb_parent := p, rb_left := rl\<rparr>,
        rl := (rb_nodes T rl)\<lparr>rb_parent := s\<rparr>)\<rparr>)"
  using assms by (simp add: rb_set_def mem_simps)

lemma remove_two_ok:
  assumes Z: "zip_at T (Nd l n c r) k" and l: "l \<noteq> Lf"
    and r: "r = zip_up (Nd Lf s d sr) kl" "list_all is_left kl"
  obtains T' where "rb_remove_two n T = Some (root_of sr, par_of (kl @ RightOf s c l # k), T')"
    and "zip_at T' sr (kl @ RightOf s c l # k)" and "rb_count T' = rb_count T"
    and "rb_color (rb_nodes T' n) = d"
proof -
  let ?r = "zip_up sr kl" and ?rr = "root_of r"
  have mem: "s \<in> set (addrs r)" "set (addrs sr) \<subseteq> set (addrs r) - {s}" "set (addrs ?r) = set (addrs r) - {s}"
    "distinct (addrs r)" "distinct (addrs ?r)"
    using Z r by (auto simp: zip_at_def addrs_zip_up)
  have dd: "distinct (addrs (Nd l s c ?r) @ kaddrs k)" "n \<notin> set (addrs (Nd l s c ?r))" "n \<notin> set (kaddrs k)"
    "n \<noteq> NULL" "tree_at (rb_nodes T) n r" "NULL \<notin> set (addrs r)" "NULL \<notin> set (addrs l)" "n \<notin> set (addrs r)"
    "set (addrs l) \<inter> set (addrs r) = {}" "set (kaddrs k) \<inter> set (addrs r) = {}" "NULL \<notin> set (kaddrs k)"
    using Z mem tree_at_NULL ctx_at_NULL by (auto simp: zip_at_def)
  have rl: "root_of l \<noteq> NULL" "root_of l \<noteq> s" "root_of l \<in> set (addrs l)"
    using root_of_in [OF l] dd mem by auto
  have s0: "s \<noteq> NULL" "s \<noteq> n" using mem(1) dd(6,8) by auto
  have hn: "rb_nodes T n = \<lparr>rb_parent = par_of k, rb_left = root_of l, rb_right = ?rr, rb_color = c\<rparr>"
    by (rule zip_at_node(2) [OF Z])
  have lm: "rb_leftmost ?rr T = Some s" using leftmost_ok [of T n s d sr kl] dd(5) r by simp
  have "zip_at T (Nd Lf s d sr) (kl @ RightOf n c l # k)" using Z r(1) by (simp add: zip_at_right zip_at_up)
  note hs = zip_at_node(2) [OF this] and get = zip_at_get [OF this] zip_at_get [OF Z]
  from hang_replace [OF Z l mem(1)] obtain T1 h where
    T1: "rb_replace_child (par_of k) n s T = Some T1" "rb_count T1 = rb_count T"
    and h: "h = (rb_nodes T1)(s := (rb_nodes T1 s)\<lparr>rb_parent := par_of k, rb_left := root_of l\<rparr>,
        root_of l := (rb_nodes T1 (root_of l))\<lparr>rb_parent := s\<rparr>)"
    and hk: "ctx_at h (rb_root T1) s k" and hl: "tree_at h s l"
    and out: "\<And>x. x = n \<or> x \<in> set (addrs r) \<Longrightarrow> x \<noteq> s \<Longrightarrow> h x = rb_nodes T x"
    and h_s: "h s = (rb_nodes T s)\<lparr>rb_parent := par_of k, rb_left := root_of l\<rparr>" by metis
  define h' where "h' = (if kl = [] then h else move_min h (par_of kl) (root_of sr) s ?rr)"
  have h's: "h' s = \<lparr>rb_parent = par_of k, rb_left = root_of l, rb_right = root_of ?r, rb_color = d\<rparr>"
    and h'r: "tree_at h' s ?r" and h'out: "\<And>x. x \<notin> set (addrs r) \<Longrightarrow> x \<noteq> NULL \<Longrightarrow> h' x = h x"
  proof -
    have "h' s = \<lparr>rb_parent = par_of k, rb_left = root_of l, rb_right = root_of ?r, rb_color = d\<rparr> \<and>
      tree_at h' s ?r \<and> (\<forall>x. x \<notin> set (addrs r) \<longrightarrow> x \<noteq> NULL \<longrightarrow> h' x = h x)"
    proof (cases "kl = []")
      case True
      have "tree_at (rb_nodes T) s sr" using dd(5) r(1) True by simp
      then have "tree_at h s sr" by (rule tree_at_frame, intro out) (use mem in auto)
      with True show ?thesis using h_s hs by (simp add: h'_def)
    next
      case False
      from move_min_ok [OF False r(2,1) dd(5) mem(4), of h] out False show ?thesis
        using h_s hs by (simp add: h'_def)
    qed
    then show "h' s = \<lparr>rb_parent = par_of k, rb_left = root_of l, rb_right = root_of ?r, rb_color = d\<rparr>"
      "tree_at h' s ?r" "\<And>x. x \<notin> set (addrs r) \<Longrightarrow> x \<noteq> NULL \<Longrightarrow> h' x = h x" by blast+
  qed
  have "tree_at h' s l" by (rule tree_at_frame [OF hl], rule h'out) (use dd in auto)
  moreover have "ctx_at h' (rb_root T1) s k" by (rule ctx_at_frame [OF hk], rule h'out) (use dd in auto)
  moreover have "rb_color (h' n) = c" using h'out [of n] dd out [of n] s0 hn by simp
  ultimately obtain T' where T': "rb_swap_color s n (T1\<lparr>rb_nodes := h'\<rparr>) = Some T'" "zip_at T' (Nd l s c ?r) k"
    "rb_count T' = rb_count T" "rb_color (rb_nodes T' n) = d"
    using take_colour [of "T1\<lparr>rb_nodes := h'\<rparr>" s k l ?r d n c] h's h'r dd s0 T1(2) by auto
  have "rb_remove_two n T = Some (root_of sr, par_of (kl @ RightOf s c l # k), T')"
  proof (cases "kl = []")
    case True
    then show ?thesis using T1 T'(1) s0 rl
      by (simp add: rb_remove_two_def get lm hang_run h [symmetric] h'_def)
  next
    case False
    then have q: "par_of (kl @ RightOf n c l # k) = par_of kl" "par_of (kl @ RightOf s c l # k) = par_of kl"
      by (cases kl; simp)+
    have "par_of kl \<in> set (addrs r)" using par_of_in [OF False] r(1) by (auto simp: addrs_zip_up set_kaddrs)
    with dd have q0: "par_of kl \<noteq> n" "par_of kl \<noteq> NULL" by auto
    have "?rr \<noteq> NULL" using mem(1) dd(6) root_of_in [of r] by (cases r) auto
    with T1 T'(1) s0 rl q q0 False show ?thesis
      by (simp add: rb_remove_two_def get lm hang_run h [symmetric] h'_def move_min_run)
  qed
  moreover have "zip_at T' sr (kl @ RightOf s c l # k)" using T'(2) by (simp add: zip_at_right zip_at_up)
  ultimately show ?thesis using that T' by blast
qed

section \<open>Removal\<close>

text \<open>What taking a node of colour \<open>c\<close> out of its place leaves to repair.\<close>

definition short_by :: "int \<Rightarrow> rbt \<Rightarrow> crumb list \<Rightarrow> bool" where
  "short_by c t k \<longleftrightarrow>
     c = RB_BLACK \<and> (\<exists>m. rbt_ok t m \<and> kinv k (Suc m)) \<or>
     c = RB_RED \<and> (\<exists>m. rbt_ok t m \<and> kinv k m \<and> tcol t = RB_BLACK)"

lemma short_by_child:
  assumes "rbt_ok (Nd l n c r) m" and "kinv k m" and "t = r \<and> l = Lf \<or> t = l \<and> r = Lf"
  shows "short_by c t k"
proof (cases "c = RB_BLACK")
  case True
  with assms have "rbt_ok t (m - 1)" "kinv k (Suc (m - 1))" by auto
  with True show ?thesis unfolding short_by_def by blast
next
  case False
  with assms have "c = RB_RED" "rbt_ok t m" "kinv k m" "tcol t = RB_BLACK" by auto
  then show ?thesis unfolding short_by_def by blast
qed

lemma recolour_after_unlink:
  assumes "zip_at T t k" and "short_by c t k"
  shows "repaired (if c = RB_BLACK then rb_remove_color (root_of t) (par_of k) T else Some T)
    (rb_count T) (addrs (zip_up t k))"
proof (cases "c = RB_BLACK")
  case True
  with assms remove_color_ok [OF assms(1)] show ?thesis by (auto simp: short_by_def)
next
  case False
  with assms rb_shape_zip [OF assms(1)] show ?thesis by (auto simp: short_by_def repaired_def)
qed

lemma rb_remove_from:
  assumes u: "(if rb_left n = NULL then rb_remove_one node (rb_right n) T
        else if rb_right n = NULL then rb_remove_one node (rb_left n) T
        else rb_remove_two node T) = Some (root_of t, par_of k, T1)"
    and n: "rb_get T node = Some n" and c: "rb_color (rb_nodes T1 node) = c"
    and Z: "zip_at T1 t k" "rb_count T1 = rb_count T" "short_by c t k"
  shows "\<exists>T'. rb_remove node T = Some T' \<and> rb_count T' = rb_count T - 1 \<and> rb_shape T' (addrs (zip_up t k))"
proof -
  from recolour_after_unlink [OF Z(1,3)] obtain T2 where
    T2: "(if c = RB_BLACK then rb_remove_color (root_of t) (par_of k) T1 else Some T1) = Some T2"
      "rb_count T2 = rb_count T" "rb_shape T2 (addrs (zip_up t k))" using Z(2) by (auto simp: repaired_def)
  have "node \<noteq> NULL" using n by (auto simp: rb_get_def mem_simps)
  then have "rb_remove node T = Some (T2\<lparr>rb_count := rb_count T2 - 1\<rparr>)"
    using u n c T2(1) by (simp add: rb_remove_def rb_get_def mem_simps)
  with T2 show ?thesis by simp
qed

lemma rb_remove_ok:
  assumes wf: "rb_wf cmp T xs" and n: "n \<in> set xs"
  shows "\<exists>T'. rb_remove n T = Some T' \<and> rb_wf cmp T' (remove1 n xs)"
proof -
  from wf obtain t m where t: "zip_at T t []" "rbt_ok t m" "tcol t = RB_BLACK" "addrs t = xs"
    and srt: "cmp_sorted cmp xs" and cnt: "rb_count T = of_nat (length xs)"
    by (auto simp: rb_wf_def rb_shape_def)
  from focus_exists [of n t "[]"] n t(4) obtain l c r k where z: "zip_up (Nd l n c r) k = t" by auto
  with t have Z: "zip_at T (Nd l n c r) k" using zip_at_top by blast
  from kinv_zip_up [of "Nd l n c r" k m] t z obtain p where
    ok: "rbt_ok (Nd l n c r) p" "kinv k p" "c = RB_RED \<longrightarrow> kcol k = RB_BLACK" by auto
  have xs: "xs = kbefore k @ addrs l @ n # addrs r @ kafter k" using t(4) z by (auto simp: addrs_zip_up)
  have "distinct xs" using wf rb_shape_distinct by (auto simp: rb_wf_def)
  then have rem: "remove1 n xs = kbefore k @ addrs l @ addrs r @ kafter k"
    by (auto simp: xs remove1_append)
  have roots: "root_of l = NULL \<longleftrightarrow> l = Lf" "root_of r = NULL \<longleftrightarrow> r = Lf"
    using zip_at_NULL [OF Z] by (auto simp: root_of_NULL)
  have "\<exists>T'. rb_remove n T = Some T' \<and> rb_count T' = rb_count T - 1 \<and> rb_shape T' (remove1 n xs)"
  proof (cases "l = Lf \<or> r = Lf")
    case True
    define t' where "t' = (if l = Lf then r else l)"
    with True have t': "t' = r \<and> l = Lf \<or> t' = l \<and> r = Lf" by auto
    from remove_one_ok [OF Z t'] obtain T1 where
      T1: "rb_remove_one n (root_of t') T = Some (root_of t', par_of k, T1)"
        "zip_at T1 t' k" "rb_count T1 = rb_count T" "rb_color (rb_nodes T1 n) = c" by metis
    have "addrs (zip_up t' k) = remove1 n xs" using True by (auto simp: rem t'_def addrs_zip_up)
    with rb_remove_from [OF _ zip_at_get [OF Z] T1(4,2,3) short_by_child [OF ok(1,2) t']] T1(1) roots True
    show ?thesis by (auto simp: t'_def)
  next
    case False
    then obtain s d sr kl where r: "r = zip_up (Nd Lf s d sr) kl" "list_all is_left kl"
      using leftmost_split by blast
    let ?k = "kl @ RightOf s c l # k"
    from remove_two_ok [OF Z _ r] False obtain T1 where
      T1: "rb_remove_two n T = Some (root_of sr, par_of ?k, T1)"
        "zip_at T1 sr ?k" "rb_count T1 = rb_count T" "rb_color (rb_nodes T1 n) = d" by metis
    have up: "zip_up (Nd Lf s d sr) ?k = zip_up (Nd l s c r) k" by (simp add: zip_up_append r(1))
    have "\<exists>m. rbt_ok (zip_up (Nd l s c r) k) m \<and> tcol (zip_up (Nd l s c r) k) = RB_BLACK"
      by (rule rbt_ok_zip_up [of _ p]) (use ok in auto)
    then obtain q where "rbt_ok (Nd Lf s d sr) q" "kinv ?k q"
      using kinv_zip_up [of "Nd Lf s d sr" ?k] up by auto
    then have "short_by d sr ?k" by (rule short_by_child) simp
    moreover have "addrs (zip_up sr ?k) = remove1 n xs"
      using kbefore_left [OF r(2), of "[]"] by (simp add: rem zip_up_append addrs_zip_up r(1))
    ultimately show ?thesis
      using rb_remove_from [OF _ zip_at_get [OF Z] T1(4,2,3)] T1(1) roots False by simp
  qed
  moreover have "cmp_sorted cmp (remove1 n xs)" 
    using srt unfolding rem by (subst (asm) xs) (auto simp: sorted_wrt_append)
  moreover have "length (remove1 n xs) = length xs - 1" "length xs \<noteq> 0" using n by (auto simp: length_remove1)
  ultimately show ?thesis using cnt by (auto simp: rb_wf_def of_nat_diff Suc_leI)
qed

end
