(* ===== verification/Ordered_Table.thy ===== *)
theory Ordered_Table
  imports Prelude
begin

text \<open>
  The contract of the two search trees of the repository, \<open>common/rb_tree.c\<close> and
  \<open>common/bst.c\<close>: a table of nodes kept in comparator order, with insertion, removal and
  search by a searcher. The laws are about the in-order list; what the clients of a tree rely
  on is proved here once.
\<close>

section \<open>Answers\<close>

definition first_or_NULL :: "addr list \<Rightarrow> addr" where
  "first_or_NULL xs = (case xs of [] \<Rightarrow> NULL | x # _ \<Rightarrow> x)"

lemma first_or_NULL_simps [simp]:
  "first_or_NULL [] = NULL" "first_or_NULL (x # xs) = x"
  "first_or_NULL (xs @ y # ys) = (if xs = [] then y else first_or_NULL xs)"
  by (auto simp: first_or_NULL_def split: list.splits)

text \<open>
  A searcher answers for each node whether the key is to the left (negative), here or to the
  right of it. \<open>points_to f xs\<close>: along the in-order list the answers fall from positive
  over at most one zero to negative.
\<close>

abbreviation points_to :: "(addr \<Rightarrow> int) \<Rightarrow> addr list \<Rightarrow> bool" where
  "points_to f \<equiv> sorted_wrt (\<lambda>a b. f a \<le> 0 \<longrightarrow> f b < 0)"

lemma points_to_find:
  assumes "points_to f (xs @ a # ys)"
  shows "f a < 0 \<Longrightarrow> find (\<lambda>x. f x = 0) (xs @ a # ys) = find (\<lambda>x. f x = 0) xs"
    and "0 < f a \<Longrightarrow> find (\<lambda>x. f x = 0) (xs @ a # ys) = find (\<lambda>x. f x = 0) ys"
    and "f a = 0 \<Longrightarrow> find (\<lambda>x. f x = 0) (xs @ a # ys) = Some a"
proof -
  have ap: "find P (us @ vs) = (case find P us of None \<Rightarrow> find P vs | r \<Rightarrow> r)" for P and us vs :: "addr list"
    by (induction us) auto
  have none: "find (\<lambda>x. f x = 0) us = None" if "\<forall>x\<in>set us. f x \<noteq> 0" for us
    using that by (auto simp: find_None_iff)
  have "f a < 0 \<Longrightarrow> \<forall>y\<in>set ys. f y \<noteq> 0" using assms by (auto simp: sorted_wrt_append)
  moreover have "0 \<le> f a \<Longrightarrow> \<forall>x\<in>set xs. f x \<noteq> 0" using assms by (fastforce simp: sorted_wrt_append)
  ultimately show "f a < 0 \<Longrightarrow> find (\<lambda>x. f x = 0) (xs @ a # ys) = find (\<lambda>x. f x = 0) xs"
    "0 < f a \<Longrightarrow> find (\<lambda>x. f x = 0) (xs @ a # ys) = find (\<lambda>x. f x = 0) ys"
    "f a = 0 \<Longrightarrow> find (\<lambda>x. f x = 0) (xs @ a # ys) = Some a"
    by (auto simp: ap none split: option.splits)
qed

definition found :: "addr option \<Rightarrow> addr" where
  "found r = (case r of None \<Rightarrow> NULL | Some a \<Rightarrow> a)"

text \<open>The comparator against a listed node is such a searcher.\<close>

lemma points_to_cmp:
  assumes "cmp_sorted cmp xs" and "cmp_on (insert n (set xs)) cmp"
  shows "points_to (cmp n) xs"
proof (rule sorted_wrt_mono_rel [OF _ assms(1)])
  fix a b assume ab: "a \<in> set xs" "b \<in> set xs" "cmp a b < 0"
  show "cmp n a \<le> 0 \<longrightarrow> cmp n b < 0"
    using cmp_on_trans [OF assms(2), of n a b] cmp_on_eq_less [OF assms(2), of n a b] ab
    by (auto simp: order_le_less)
qed

lemma cmp_refl: "cmp_on A cmp \<Longrightarrow> a \<in> A \<Longrightarrow> cmp a a = 0"
  using cmp_on_antisym [of A cmp a a] by linarith

lemma find_cmp_self:
  assumes "cmp_sorted cmp xs" and "cmp_on (set xs) cmp" and "n \<in> set xs"
  shows "find (\<lambda>x. cmp n x = 0) xs = Some n"
proof -
  from assms(3) obtain ys zs where xs: "xs = ys @ n # zs" by (meson split_list)
  have "points_to (cmp n) (ys @ n # zs)"
    using points_to_cmp [OF assms(1), of n] assms(2,3) xs by (simp add: insert_absorb)
  from points_to_find(3) [OF this] cmp_refl [OF assms(2,3)] xs show ?thesis by simp
qed

lemma find_cmp_other:
  assumes "cmp_sorted cmp xs" and "cmp_on (set xs) cmp" and "n \<in> set xs" and "distinct xs"
  shows "find (\<lambda>x. cmp n x = 0) (remove1 n xs) = None"
proof -
  from assms(3) obtain ys zs where xs: "xs = ys @ n # zs" by (meson split_list)
  have "\<forall>y\<in>set ys. cmp y n < 0" "\<forall>z\<in>set zs. cmp n z < 0" using assms(1) xs by (auto simp: sorted_wrt_append)
  then have "\<forall>y\<in>set ys. 0 < cmp n y" "\<forall>z\<in>set zs. cmp n z < 0"
    using cmp_on_antisym [OF assms(2)] xs by auto
  moreover have "remove1 n xs = ys @ zs" using assms(4) xs by (simp add: remove1_append)
  ultimately show ?thesis by (auto simp: find_None_iff)
qed

lemma remove1_cmp_insert: "n \<notin> set xs \<Longrightarrow> remove1 n (cmp_insert cmp n xs) = xs"
  by (induction xs) auto

section \<open>The contract\<close>

locale ordered_table =
  fixes wf :: "comparator \<Rightarrow> 's \<Rightarrow> addr list \<Rightarrow> bool"
    and ins :: "comparator \<Rightarrow> addr \<Rightarrow> 's \<Rightarrow> (addr \<times> 's) option"
    and del :: "comparator \<Rightarrow> addr \<Rightarrow> 's \<Rightarrow> 's option"
    and look :: "(addr \<Rightarrow> int) \<Rightarrow> 's \<Rightarrow> addr option"
  assumes wf_list: "wf cmp t xs \<Longrightarrow> distinct xs \<and> NULL \<notin> set xs \<and> cmp_sorted cmp xs"
    and ins_new: "\<lbrakk>wf cmp t xs; cmp_on (insert n (set xs)) cmp; n \<noteq> NULL; n \<notin> set xs; \<forall>y\<in>set xs. cmp n y \<noteq> 0\<rbrakk>
      \<Longrightarrow> \<exists>t'. ins cmp n t = Some (n, t') \<and> wf cmp t' (cmp_insert cmp n xs)"
    and ins_dup: "\<lbrakk>wf cmp t xs; cmp_on (insert n (set xs)) cmp; y \<in> set xs; cmp n y = 0\<rbrakk>
      \<Longrightarrow> ins cmp n t = Some (y, t)"
    and del_ok: "\<lbrakk>wf cmp t xs; cmp_on (set xs) cmp; n \<in> set xs\<rbrakk>
      \<Longrightarrow> \<exists>t'. del cmp n t = Some t' \<and> wf cmp t' (remove1 n xs)"
    and look_ok: "\<lbrakk>wf cmp t xs; points_to f xs\<rbrakk> \<Longrightarrow> look f t = Some (found (find (\<lambda>x. f x = 0) xs))"
begin

lemma look_member:
  assumes "wf cmp t xs" and "cmp_on (set xs) cmp" and "n \<in> set xs"
  shows "look (cmp n) t = Some n"
proof -
  have s: "cmp_sorted cmp xs" using wf_list [OF assms(1)] by blast
  have "points_to (cmp n) xs" by (rule points_to_cmp [OF s]) (use assms in \<open>simp add: insert_absorb\<close>)
  from look_ok [OF assms(1) this] find_cmp_self [OF s assms(2,3)] show ?thesis by (simp add: found_def)
qed

lemma look_after_ins:
  assumes "wf cmp t xs" and "cmp_on (insert n (set xs)) cmp" and "n \<noteq> NULL" and "n \<notin> set xs"
    and "\<forall>y\<in>set xs. cmp n y \<noteq> 0"
  shows "\<exists>t'. ins cmp n t = Some (n, t') \<and> look (cmp n) t' = Some n"
  using ins_new [OF assms] look_member [of cmp _ "cmp_insert cmp n xs" n] assms(2) by auto

lemma look_after_del:
  assumes "wf cmp t xs" and "cmp_on (set xs) cmp" and "n \<in> set xs"
  shows "\<exists>t'. del cmp n t = Some t' \<and> look (cmp n) t' = Some NULL"
proof -
  from del_ok [OF assms] obtain t' where t': "del cmp n t = Some t'" "wf cmp t' (remove1 n xs)" by blast
  have l: "cmp_sorted cmp xs" "distinct xs" "cmp_sorted cmp (remove1 n xs)"
    using wf_list [OF assms(1)] wf_list [OF t'(2)] by blast+
  have "points_to (cmp n) (remove1 n xs)"
    by (rule points_to_cmp [OF l(3)], rule cmp_on_subset [OF assms(2)])
      (use assms(3) set_remove1_subset in fastforce)
  from look_ok [OF t'(2) this] find_cmp_other [OF l(1) assms(2,3) l(2)] t'(1)
  show ?thesis by (simp add: found_def)
qed

text \<open>Insertion and removal are inverse on the order of the other nodes.\<close>

lemma del_ins:
  assumes "wf cmp t xs" and "cmp_on (insert n (set xs)) cmp" and "n \<noteq> NULL" and "n \<notin> set xs"
    and "\<forall>y\<in>set xs. cmp n y \<noteq> 0"
  shows "\<exists>t' t''. ins cmp n t = Some (n, t') \<and> del cmp n t' = Some t'' \<and> wf cmp t'' xs"
proof -
  from ins_new [OF assms] obtain t' where t': "ins cmp n t = Some (n, t')" "wf cmp t' (cmp_insert cmp n xs)"
    by blast
  from del_ok [OF t'(2), of n] assms(2) remove1_cmp_insert [OF assms(4), of cmp] t'(1) show ?thesis by auto
qed

end

end
