(* ===== verification/RB_Query.thy ===== *)
theory RB_Query
  imports RB_Remove Ordered_Table
begin

text \<open>
  Search and traversal: \<open>rb_search\<close>, \<open>rb_first\<close>, \<open>rb_last\<close>, \<open>rb_next\<close> and
  \<open>rb_prev\<close> are list operations on the in-order list, and the tree is balanced.
\<close>

section \<open>Searching\<close>

lemma search_from_ok:
  "tree_at (rb_nodes T) par t \<Longrightarrow> points_to f (addrs t) \<Longrightarrow>
   rb_search_from f (root_of t) T = Some (found (find (\<lambda>x. f x = 0) (addrs t)))"
proof (induction t arbitrary: par)
  case Lf
  then show ?case by (subst rb_search_from.simps) (simp add: found_def)
next
  case (Nd l a c r)
  have sub: "points_to f (addrs l)" "points_to f (addrs r)" using Nd.prems(2) by (auto simp: sorted_wrt_append)
  have node: "a \<noteq> NULL" "rb_nodes T a = \<lparr>rb_parent = par, rb_left = root_of l, rb_right = root_of r, rb_color = c\<rparr>"
    and tl: "tree_at (rb_nodes T) a l" and tr: "tree_at (rb_nodes T) a r" using Nd.prems(1) by simp_all
  have unf: "rb_search_from f a T =
      (if f a < 0 then rb_search_from f (root_of l) T
       else if f a > 0 then rb_search_from f (root_of r) T else Some a)"
    by (subst rb_search_from.simps) (simp add: rb_get_def mem_simps node)
  have pts: "points_to f (addrs l @ a # addrs r)" using Nd.prems(2) by (simp only: addrs.simps)
  consider (lt) "f a < 0" | (gt) "0 < f a" | (eq) "f a = 0" by linarith
  then show ?case
  proof cases
    case lt
    then show ?thesis using Nd.IH(1) [OF tl sub(1)] points_to_find(1) [OF pts lt] unf by (simp only: addrs.simps root_of.simps if_True)
  next
    case gt
    then have "\<not> f a < 0" by simp
    then show ?thesis using gt Nd.IH(2) [OF tr sub(2)] points_to_find(2) [OF pts gt] unf
      by (simp only: addrs.simps root_of.simps if_True if_False)
  next
    case eq
    then show ?thesis using points_to_find(3) [OF pts eq] unf by (simp add: found_def)
  qed
qed

lemma rb_search_ok:
  assumes "rb_wf cmp T xs" and "points_to f xs"
  shows "rb_search f T = Some (found (find (\<lambda>x. f x = 0) xs))"
proof -
  from assms(1) obtain t where t: "zip_at T t []" "addrs t = xs" by (auto simp: rb_wf_def rb_shape_def)
  then have "tree_at (rb_nodes T) NULL t" by (simp add: zip_at_def)
  from search_from_ok [OF this, of f] assms(2) t(2) show ?thesis
    unfolding rb_search_def zip_at_root [OF t(1)] by blast
qed

section \<open>Traversal\<close>

lemma leftmost_hd:
  "tree_at (rb_nodes T) par t \<Longrightarrow> t \<noteq> Lf \<Longrightarrow> rb_leftmost (root_of t) T = Some (first_or_NULL (addrs t))"
proof (induction t arbitrary: par)
  case (Nd l a c r)
  have "root_of l \<noteq> NULL \<longleftrightarrow> l \<noteq> Lf" using Nd.prems(1) tree_at_NULL root_of_NULL by fastforce
  with Nd show ?case
    by (subst rb_leftmost.simps) (cases l; auto simp: rb_get_def mem_simps)
qed simp

lemma rightmost_last:
  "tree_at (rb_nodes T) par t \<Longrightarrow> t \<noteq> Lf \<Longrightarrow> rb_rightmost (root_of t) T = Some (first_or_NULL (rev (addrs t)))"
proof (induction t arbitrary: par)
  case (Nd l a c r)
  have "root_of r \<noteq> NULL \<longleftrightarrow> r \<noteq> Lf" using Nd.prems(1) tree_at_NULL root_of_NULL by fastforce
  with Nd show ?case
    by (subst rb_rightmost.simps) (cases r; auto simp: rb_get_def mem_simps)
qed simp

lemma rb_first_ok: "rb_wf cmp T xs \<Longrightarrow> rb_first T = Some (first_or_NULL xs)"
proof -
  assume "rb_wf cmp T xs"
  then obtain t where t: "zip_at T t []" "addrs t = xs" by (auto simp: rb_wf_def rb_shape_def)
  show ?thesis using t zip_at_root [OF t(1)] zip_at_NULL [OF t(1)] leftmost_hd [of T NULL t]
    by (cases t) (auto simp: rb_first_def zip_at_def)
qed

lemma rb_last_ok: "rb_wf cmp T xs \<Longrightarrow> rb_last T = Some (first_or_NULL (rev xs))"
proof -
  assume "rb_wf cmp T xs"
  then obtain t where t: "zip_at T t []" "addrs t = xs" by (auto simp: rb_wf_def rb_shape_def)
  show ?thesis using t zip_at_root [OF t(1)] zip_at_NULL [OF t(1)] rightmost_last [of T NULL t]
    by (cases t) (auto simp: rb_last_def zip_at_def)
qed

lemma climb_right_ok:
  "zip_at T (Nd l a c r) k \<Longrightarrow> rb_climb_right a T = Some (first_or_NULL (kafter k))"
proof (induction k arbitrary: l a c r)
  case Nil
  then show ?case by (subst rb_climb_right.simps) (simp add: zip_at_get)
next
  case (Cons x k)
  note Z = Cons.prems
  show ?case
  proof (cases x)
    case (LeftOf p d s)
    with Z have Zp: "zip_at T (Nd (Nd l a c r) p d s) k" by (simp add: zip_at_left)
    have "root_of s \<noteq> a" using not_root_of_right [OF Zp, of a] by auto
    with LeftOf zip_at_node(1) [OF Zp] show ?thesis
      by (subst rb_climb_right.simps) (simp add: zip_at_get [OF Z] zip_at_get [OF Zp])
  next
    case (RightOf p d s)
    with Z have Zp: "zip_at T (Nd s p d (Nd l a c r)) k" by (simp add: zip_at_right)
    with RightOf zip_at_node(1) [OF Zp] Cons.IH [OF Zp] show ?thesis
      by (subst rb_climb_right.simps) (simp add: zip_at_get [OF Z] zip_at_get [OF Zp])
  qed
qed

lemma climb_left_ok:
  "zip_at T (Nd l a c r) k \<Longrightarrow> rb_climb_left a T = Some (first_or_NULL (rev (kbefore k)))"
proof (induction k arbitrary: l a c r)
  case Nil
  then show ?case by (subst rb_climb_left.simps) (simp add: zip_at_get)
next
  case (Cons x k)
  note Z = Cons.prems
  show ?case
  proof (cases x)
    case (RightOf p d s)
    with Z have Zp: "zip_at T (Nd s p d (Nd l a c r)) k" by (simp add: zip_at_right)
    have "root_of s \<noteq> a" using not_root_of_left [OF Zp, of a] by auto
    with RightOf zip_at_node(1) [OF Zp] show ?thesis
      by (subst rb_climb_left.simps) (simp add: zip_at_get [OF Z] zip_at_get [OF Zp])
  next
    case (LeftOf p d s)
    with Z have Zp: "zip_at T (Nd (Nd l a c r) p d s) k" by (simp add: zip_at_left)
    with LeftOf zip_at_node(1) [OF Zp] Cons.IH [OF Zp] show ?thesis
      by (subst rb_climb_left.simps) (simp add: zip_at_get [OF Z] zip_at_get [OF Zp])
  qed
qed

text \<open>The focus on a listed node splits the list.\<close>

lemma rb_wf_focus:
  assumes "rb_wf cmp T (xs @ n # ys)"
  obtains l c r k where "zip_at T (Nd l n c r) k" and "xs = kbefore k @ addrs l" and "ys = addrs r @ kafter k"
proof -
  from assms obtain t where t: "zip_at T t []" "addrs t = xs @ n # ys" by (auto simp: rb_wf_def rb_shape_def)
  from focus_exists [of n t "[]"] t(2) obtain l c r k where z: "zip_up (Nd l n c r) k = t" by auto
  with t have Z: "zip_at T (Nd l n c r) k" using zip_at_top by blast
  have "(kbefore k @ addrs l) @ n # (addrs r @ kafter k) = xs @ n # ys"
    using t(2) z by (auto simp: addrs_zip_up)
  moreover have "n \<notin> set (kbefore k @ addrs l)" "n \<notin> set (addrs r @ kafter k)"
    using Z by (auto simp: zip_at_def set_kaddrs)
  ultimately have "xs = kbefore k @ addrs l \<and> ys = addrs r @ kafter k"
    using append_Cons_eq_iff [of n "kbefore k @ addrs l" "addrs r @ kafter k" xs ys] by metis
  with Z that show ?thesis by blast
qed

lemma rb_next_ok: "rb_wf cmp T (xs @ n # ys) \<Longrightarrow> rb_next n T = Some (first_or_NULL ys)"
proof -
  assume "rb_wf cmp T (xs @ n # ys)"
  then obtain l c r k where Z: "zip_at T (Nd l n c r) k" and ys: "ys = addrs r @ kafter k"
    by (rule rb_wf_focus)
  have r: "tree_at (rb_nodes T) n r" "root_of r \<noteq> NULL \<longleftrightarrow> r \<noteq> Lf"
    using Z zip_at_NULL [OF Z] by (auto simp: zip_at_def root_of_NULL)
  show ?thesis using ys r climb_right_ok [OF Z] leftmost_hd [OF r(1)]
    by (cases r) (auto simp: rb_next_def zip_at_get [OF Z])
qed

lemma rb_prev_ok: "rb_wf cmp T (xs @ n # ys) \<Longrightarrow> rb_prev n T = Some (first_or_NULL (rev xs))"
proof -
  assume "rb_wf cmp T (xs @ n # ys)"
  then obtain l c r k where Z: "zip_at T (Nd l n c r) k" and xs: "xs = kbefore k @ addrs l"
    by (rule rb_wf_focus)
  have l: "tree_at (rb_nodes T) n l" "root_of l \<noteq> NULL \<longleftrightarrow> l \<noteq> Lf"
    using Z zip_at_NULL [OF Z] by (auto simp: zip_at_def root_of_NULL)
  show ?thesis using xs l climb_left_ok [OF Z] rightmost_last [OF l(1)]
    by (cases l) (auto simp: rb_prev_def zip_at_get [OF Z])
qed

section \<open>Balance\<close>

fun rbt_height :: "rbt \<Rightarrow> nat" where
  "rbt_height Lf = 0"
| "rbt_height (Nd l a c r) = Suc (max (rbt_height l) (rbt_height r))"

lemma rbt_ok_height:
  "rbt_ok t m \<Longrightarrow> rbt_height t \<le> 2 * m + (if tcol t = RB_RED then 1 else 0)"
proof (induction t arbitrary: m)
  case (Nd l a c r)
  show ?case
  proof (cases "c = RB_RED")
    case True
    with Nd.prems have "rbt_height l \<le> 2 * m" "rbt_height r \<le> 2 * m"
      using Nd.IH [of m] by auto
    with True show ?thesis by simp
  next
    case False
    with Nd.prems have "m \<noteq> 0" "rbt_height l \<le> 2 * (m - 1) + 1" "rbt_height r \<le> 2 * (m - 1) + 1" "c = RB_BLACK"
      using Nd.IH [of "m - 1"] by (auto split: if_splits)
    then show ?thesis by auto
  qed
qed simp

lemma rbt_ok_size: "rbt_ok t m \<Longrightarrow> 2 ^ m \<le> length (addrs t) + 1"
proof (induction t arbitrary: m)
  case (Nd l a c r)
  show ?case
  proof (cases "c = RB_RED")
    case True
    with Nd.prems have "2 ^ m \<le> length (addrs l) + 1" using Nd.IH(1) [of m] by auto
    then show ?thesis by simp
  next
    case False
    with Nd.prems have m: "m \<noteq> 0" "2 ^ (m - 1) \<le> length (addrs l) + 1" "2 ^ (m - 1) \<le> length (addrs r) + 1"
      using Nd.IH [of "m - 1"] by auto
    then have "2 ^ m = 2 * (2 ^ (m - 1) :: nat)" by (cases m) auto
    with m show ?thesis by simp
  qed
qed simp

lemma rb_shape_height:
  assumes "rb_shape T xs"
  obtains t where "zip_at T t []" "addrs t = xs" "2 ^ rbt_height t \<le> (length xs + 1)\<^sup>2"
proof -
  from assms obtain t m where t: "zip_at T t []" "rbt_ok t m" "tcol t = RB_BLACK" "addrs t = xs"
    by (auto simp: rb_shape_def)
  have "rbt_height t \<le> 2 * m" using rbt_ok_height [OF t(2)] t(3) by simp
  then have "2 ^ rbt_height t \<le> (2 ^ m :: nat)\<^sup>2" by (simp add: power_even_eq [symmetric] power_increasing)
  also have "\<dots> \<le> (length xs + 1)\<^sup>2" using rbt_ok_size [OF t(2)] t(4) by (intro power_mono) simp_all
  finally show ?thesis using that t by blast
qed

section \<open>The red-black tree is an ordered table\<close>

interpretation rb: ordered_table rb_wf rb_insert "\<lambda>cmp. rb_remove" rb_search
proof unfold_locales
  fix cmp T xs n
  show "rb_wf cmp T xs \<Longrightarrow> distinct xs \<and> NULL \<notin> set xs \<and> cmp_sorted cmp xs"
    using rb_shape_distinct by (auto simp: rb_wf_def)
qed (simp_all add: rb_insert_new rb_insert_dup rb_remove_ok rb_search_ok)

end
