(* ===== verification/RB_Properties.thy ===== *)
theory RB_Properties
  imports RB_Query
begin

text \<open>
  What the red-black tree of \<open>common/rb_tree.c\<close> promises its clients, each with an
  instance on a small concrete tree.
\<close>

section \<open>A concrete tree\<close>

text \<open>Node 2 at the root, nodes 1 and 3 below it, ordered by address.\<close>

definition demo_cmp :: comparator where
  "demo_cmp a b = int a - int b"

definition demo_tree :: rb_tree where
  "demo_tree = \<lparr>rb_root = 2, rb_count = 3, rb_nodes = (\<lambda>_. \<lparr>rb_parent = 0, rb_left = 0, rb_right = 0, rb_color = 0\<rparr>)
     (1 := \<lparr>rb_parent = 2, rb_left = 0, rb_right = 0, rb_color = RB_RED\<rparr>,
      2 := \<lparr>rb_parent = 0, rb_left = 1, rb_right = 3, rb_color = RB_BLACK\<rparr>,
      3 := \<lparr>rb_parent = 2, rb_left = 0, rb_right = 0, rb_color = RB_RED\<rparr>)\<rparr>"

lemma demo_cmp_on: "cmp_on A demo_cmp"
  by (auto simp: cmp_on_def demo_cmp_def)

lemma demo_wf: "rb_wf demo_cmp demo_tree [1, 2, 3]"
proof -
  have "zip_at demo_tree (Nd (Nd Lf 1 RB_RED Lf) 2 RB_BLACK (Nd Lf 3 RB_RED Lf)) [] \<and>
    rbt_ok (Nd (Nd Lf 1 RB_RED Lf) 2 RB_BLACK (Nd Lf 3 RB_RED Lf)) 1"
    by (simp add: zip_at_def demo_tree_def)
  then have "rb_shape demo_tree [1, 2, 3]" unfolding rb_shape_def by fastforce
  then show ?thesis by (simp add: rb_wf_def demo_cmp_def) (simp add: demo_tree_def)
qed

section \<open>Properties\<close>

text \<open>
  C1: \<open>rb_insert\<close> of a fresh node that compares equal to no node of the tree returns
  that node; the recolouring loop ends, and the result is again a red-black tree (no red node
  with a red child, equal black heights, black root, right parent pointers, right counter)
  whose in-order list is the old one with the node at its place.
\<close>

theorem rb_insert_correct:
  assumes "rb_wf cmp T xs" and "cmp_on (insert n (set xs)) cmp"
    and "n \<noteq> NULL" and "n \<notin> set xs" and "\<forall>y\<in>set xs. cmp n y \<noteq> 0"
  shows "\<exists>T'. rb_insert cmp n T = Some (n, T') \<and> rb_wf cmp T' (cmp_insert cmp n xs)"
  using assms by (rule rb_insert_new)

theorem rb_insert_correct_witness:
  "\<exists>T'. rb_insert demo_cmp 4 demo_tree = Some (4, T') \<and> rb_wf demo_cmp T' [1, 2, 3, 4]"
  using rb_insert_correct [OF demo_wf demo_cmp_on, of 4] by (simp add: demo_cmp_def)

text \<open>
  \<open>rb_insert\<close> of a node that compares equal to a node of the tree returns that node
  and leaves the tree, links, colours and counter, as it was.
\<close>

theorem rb_insert_duplicate:
  assumes "rb_wf cmp T xs" and "cmp_on (insert n (set xs)) cmp" and "y \<in> set xs" and "cmp n y = 0"
  shows "rb_insert cmp n T = Some (y, T)"
  using assms by (rule rb_insert_dup)

theorem rb_insert_duplicate_witness: "rb_insert demo_cmp 2 demo_tree = Some (2, demo_tree)"
  using rb_insert_duplicate [OF demo_wf demo_cmp_on, of 2 2] by (simp add: demo_cmp_def)

text \<open>
  C2: \<open>rb_remove\<close> of a node of the tree, with no, one or two children, returns; the
  repair loop ends, the result is a red-black tree, the counter is one less, and the in-order
  list has lost exactly that node.
\<close>

theorem rb_remove_correct:
  assumes "rb_wf cmp T xs" and "n \<in> set xs"
  shows "\<exists>T'. rb_remove n T = Some T' \<and> rb_wf cmp T' (remove1 n xs)"
  using assms by (rule rb_remove_ok)

theorem rb_remove_correct_witness:
  "\<exists>T'. rb_remove 2 demo_tree = Some T' \<and> rb_wf demo_cmp T' [1, 3]"
  using rb_remove_correct [OF demo_wf, of 2] by simp

text \<open>
  \<open>rb_search\<close> with a searcher that agrees with the order of the tree returns the
  node the searcher answers 0 for, and \<open>NULL\<close> when there is none.
\<close>

theorem rb_search_correct:
  assumes "rb_wf cmp T xs" and "points_to f xs"
  shows "rb_search f T = Some (found (find (\<lambda>x. f x = 0) xs))"
  using assms by (rule rb_search_ok)

theorem rb_search_correct_witness:
  "rb_search (demo_cmp 3) demo_tree = Some 3 \<and> rb_search (demo_cmp 7) demo_tree = Some NULL"
  using rb_search_correct [OF demo_wf, of "demo_cmp 3"] rb_search_correct [OF demo_wf, of "demo_cmp 7"]
  by (simp add: demo_cmp_def found_def)

text \<open>
  \<open>rb_first\<close> returns the head of the in-order list, and from a node of the list
  \<open>rb_next\<close> returns its successor and \<open>rb_prev\<close> its predecessor, \<open>NULL\<close> at the ends:
  a traversal visits every node once, in order, and ends.
\<close>

theorem rb_traversal_correct:
  assumes "rb_wf cmp T (xs @ n # ys)"
  shows "rb_first T = Some (first_or_NULL (xs @ n # ys)) \<and> rb_last T = Some (first_or_NULL (rev (xs @ n # ys))) \<and>
    rb_next n T = Some (first_or_NULL ys) \<and> rb_prev n T = Some (first_or_NULL (rev xs))"
  using rb_first_ok [OF assms] rb_last_ok [OF assms] rb_next_ok [OF assms] rb_prev_ok [OF assms] by blast

theorem rb_traversal_correct_witness:
  "rb_first demo_tree = Some 1 \<and> rb_last demo_tree = Some 3 \<and> rb_next 2 demo_tree = Some 3 \<and> rb_prev 2 demo_tree = Some 1"
  using rb_traversal_correct [of demo_cmp demo_tree "[1]" 2 "[3]"] demo_wf by simp

text \<open>
  The tree is balanced: with \<open>n\<close> nodes no path from the root has more than
  \<open>2 log (n + 1)\<close> of them, so neither search nor insertion descends further.
\<close>

theorem rb_height_bound:
  assumes "rb_wf cmp T xs"
  shows "\<exists>t. zip_at T t [] \<and> addrs t = xs \<and> 2 ^ rbt_height t \<le> (length xs + 1)\<^sup>2"
  using assms rb_shape_height [of T xs] unfolding rb_wf_def by blast

theorem rb_height_bound_witness:
  "\<exists>t. zip_at demo_tree t [] \<and> addrs t = [1, 2, 3] \<and> 2 ^ rbt_height t \<le> (length [1, 2, 3 :: addr] + 1)\<^sup>2"
  using rb_height_bound [OF demo_wf] .

end
