(* ===== verification/Intrusive_List.thy ===== *)
theory Intrusive_List
  imports Prelude
begin

text \<open>
  The circular doubly linked lists of \<open>include/list.h\<close> (the same file is in
  \<open>ipc/list.h\<close>). Links live in a store of \<open>struct list_head\<close> cells; \<open>ring h head xs\<close>
  says that the list at \<open>head\<close> holds the entries \<open>xs\<close>, first to last. Each operation is a
  list operation on \<open>xs\<close> and leaves all other cells alone.
\<close>

section \<open>The code\<close>

record list_head =
  list_next :: addr
  list_prev :: addr

type_synonym links = "addr \<Rightarrow> list_head"

definition LIST_POISON1 :: addr where
  "LIST_POISON1 = NULL"

definition LIST_POISON2 :: addr where
  "LIST_POISON2 = NULL"

definition INIT_LIST_HEAD :: "addr \<Rightarrow> links \<Rightarrow> links option" where
  "INIT_LIST_HEAD list h = do {
     h \<leftarrow> store h list (list_prev_update (\<lambda>_. list));
     store h list (list_next_update (\<lambda>_. list))
   }"

definition list_add_between :: "addr \<Rightarrow> addr \<Rightarrow> addr \<Rightarrow> links \<Rightarrow> links option" where
  "list_add_between new pre nxt h = do {
     h \<leftarrow> store h nxt (list_prev_update (\<lambda>_. new));
     h \<leftarrow> store h new (list_next_update (\<lambda>_. nxt));
     h \<leftarrow> store h new (list_prev_update (\<lambda>_. pre));
     store h pre (list_next_update (\<lambda>_. new))
   }"

definition list_add :: "addr \<Rightarrow> addr \<Rightarrow> links \<Rightarrow> links option" where
  "list_add new head h = do { c \<leftarrow> load h head; list_add_between new head (list_next c) h }"

definition list_add_tail :: "addr \<Rightarrow> addr \<Rightarrow> links \<Rightarrow> links option" where
  "list_add_tail new head h = do { c \<leftarrow> load h head; list_add_between new (list_prev c) head h }"

definition list_del_between :: "addr \<Rightarrow> addr \<Rightarrow> links \<Rightarrow> links option" where
  "list_del_between pre nxt h = do {
     h \<leftarrow> store h nxt (list_prev_update (\<lambda>_. pre));
     store h pre (list_next_update (\<lambda>_. nxt))
   }"

definition list_del :: "addr \<Rightarrow> links \<Rightarrow> links option" where
  "list_del entry h = do {
     c \<leftarrow> load h entry;
     h \<leftarrow> list_del_between (list_prev c) (list_next c) h;
     h \<leftarrow> store h entry (list_next_update (\<lambda>_. LIST_POISON1));
     store h entry (list_prev_update (\<lambda>_. LIST_POISON2))
   }"

definition list_del_init :: "addr \<Rightarrow> links \<Rightarrow> links option" where
  "list_del_init entry h = do {
     c \<leftarrow> load h entry;
     h \<leftarrow> list_del_between (list_prev c) (list_next c) h;
     INIT_LIST_HEAD entry h
   }"

definition list_delete :: "addr \<Rightarrow> links \<Rightarrow> links option" where
  "list_delete entry h = do {
     c \<leftarrow> load h entry;
     h \<leftarrow> store h (list_prev c) (list_next_update (\<lambda>_. list_next c));
     c \<leftarrow> load h entry;
     store h (list_next c) (list_prev_update (\<lambda>_. list_prev c))
   }"

definition list_empty :: "addr \<Rightarrow> links \<Rightarrow> bool option" where
  "list_empty head h = do { c \<leftarrow> load h head; Some (list_next c = head) }"

definition list_first_entry :: "addr \<Rightarrow> links \<Rightarrow> addr option" where
  "list_first_entry head h = do { c \<leftarrow> load h head; Some (list_next c) }"

text \<open>
  The iteration macros as the sequence of entries their body runs on; \<open>list_for_each_entry\<close>
  and its safe form visit the same entries when the body does not change the list.
\<close>

partial_function (option) list_for_each_from :: "addr \<Rightarrow> addr \<Rightarrow> links \<Rightarrow> addr list option" where
  "list_for_each_from pos head h =
     (if pos = head then Some []
      else do { c \<leftarrow> load h pos; ps \<leftarrow> list_for_each_from (list_next c) head h; Some (pos # ps) })"

definition list_for_each :: "addr \<Rightarrow> links \<Rightarrow> addr list option" where
  "list_for_each head h = do { c \<leftarrow> load h head; list_for_each_from (list_next c) head h }"

partial_function (option) list_for_each_prev_from :: "addr \<Rightarrow> addr \<Rightarrow> links \<Rightarrow> addr list option" where
  "list_for_each_prev_from pos head h =
     (if pos = head then Some []
      else do { c \<leftarrow> load h pos; ps \<leftarrow> list_for_each_prev_from (list_prev c) head h; Some (pos # ps) })"

definition list_for_each_prev :: "addr \<Rightarrow> links \<Rightarrow> addr list option" where
  "list_for_each_prev head h = do { c \<leftarrow> load h head; list_for_each_prev_from (list_prev c) head h }"

section \<open>Rings\<close>

text \<open>\<open>dlseg h p xs q\<close>: from \<open>p\<close> the links lead over \<open>xs\<close> to \<open>q\<close>, and back.\<close>

fun dlseg :: "links \<Rightarrow> addr \<Rightarrow> addr list \<Rightarrow> addr \<Rightarrow> bool" where
  "dlseg h p [] q \<longleftrightarrow> list_next (h p) = q \<and> list_prev (h q) = p"
| "dlseg h p (x # xs) q \<longleftrightarrow> list_next (h p) = x \<and> list_prev (h x) = p \<and> dlseg h x xs q"

definition ring :: "links \<Rightarrow> addr \<Rightarrow> addr list \<Rightarrow> bool" where
  "ring h head xs \<longleftrightarrow> distinct (head # xs) \<and> NULL \<notin> set (head # xs) \<and> dlseg h head xs head"

lemma dlseg_append: "dlseg h p (xs @ y # ys) q \<longleftrightarrow> dlseg h p xs y \<and> dlseg h y ys q"
  by (induction xs arbitrary: p) auto

lemma dlseg_frame:
  "dlseg h p xs q \<Longrightarrow> (\<And>a. a \<in> set (p # xs) \<Longrightarrow> list_next (h' a) = list_next (h a)) \<Longrightarrow>
   (\<And>a. a \<in> set (xs @ [q]) \<Longrightarrow> list_prev (h' a) = list_prev (h a)) \<Longrightarrow> dlseg h' p xs q"
  by (induction xs arbitrary: p) auto

lemma ring_frame:
  "ring h head xs \<Longrightarrow> (\<And>a. a \<in> set (head # xs) \<Longrightarrow> h' a = h a) \<Longrightarrow> ring h' head xs"
  unfolding ring_def by (auto elim!: dlseg_frame)

lemma dlseg_prev: "dlseg h p xs q \<Longrightarrow> list_prev (h q) = last (p # xs)"
  by (induction xs arbitrary: p) auto

lemma dlseg_next: "dlseg h p xs q \<Longrightarrow> list_next (h p) = hd (xs @ [q])"
  by (cases xs) auto

lemma ring_head: "ring h head xs \<Longrightarrow> head \<noteq> NULL"
  by (auto simp: ring_def)

text \<open>Two rings in one store that share no cell.\<close>

definition apart :: "addr list \<Rightarrow> addr list \<Rightarrow> bool" where
  "apart xs ys \<longleftrightarrow> set xs \<inter> set ys = {}"

text \<open>\<open>only h h' A\<close>: a step from \<open>h\<close> to \<open>h'\<close> wrote only cells of \<open>A\<close>.\<close>

definition only :: "links \<Rightarrow> links \<Rightarrow> addr set \<Rightarrow> bool" where
  "only h h' A \<longleftrightarrow> (\<forall>a. a \<notin> A \<longrightarrow> h' a = h a)"

lemma ring_only: "ring h g ys \<Longrightarrow> only h h' A \<Longrightarrow> A \<inter> set (g # ys) = {} \<Longrightarrow> ring h' g ys"
  by (erule ring_frame) (auto simp: only_def)

section \<open>Each operation as a list operation\<close>

lemma INIT_LIST_HEAD_ok:
  "l \<noteq> NULL \<Longrightarrow> \<exists>h'. INIT_LIST_HEAD l h = Some h' \<and> ring h' l [] \<and> only h h' {l}"
  by (auto simp: INIT_LIST_HEAD_def mem_simps ring_def only_def)

lemma list_add_ok:
  assumes "ring h head xs" and n: "n \<noteq> NULL" "n \<notin> set (head # xs)"
  shows "\<exists>h'. list_add n head h = Some h' \<and> ring h' head (n # xs) \<and> only h h' (set (n # head # xs))"
proof -
  let ?q = "hd (xs @ [head])"
  have d: "distinct (head # xs)" "NULL \<notin> set (head # xs)" "dlseg h head xs head"
    using assms(1) by (auto simp: ring_def)
  have q: "list_next (h head) = ?q" "?q \<noteq> NULL" "?q \<in> set (head # xs)"
    using dlseg_next [OF d(3)] d(2) by (cases xs; auto)+
  let ?h1 = "h(?q := (h ?q)\<lparr>list_prev := n\<rparr>)"
  let ?h2 = "?h1(n := (?h1 n)\<lparr>list_next := ?q, list_prev := head\<rparr>)"
  let ?h' = "?h2(head := (?h2 head)\<lparr>list_next := n\<rparr>)"
  have run: "list_add n head h = Some ?h'"
    using d(2) n(1) q by (simp add: list_add_def list_add_between_def mem_simps)
  have "dlseg ?h' n xs head"
  proof (cases xs)
    case Nil
    then show ?thesis using n by auto
  next
    case (Cons x ys)
    have "dlseg h x ys head" using d(3) Cons by simp
    then have "dlseg ?h' x ys head" by (rule dlseg_frame) (use d(1) n Cons in auto)
    then show ?thesis using Cons n d(1) by auto
  qed
  then have "ring ?h' head (n # xs)" using n d by (auto simp: ring_def)
  with run q show ?thesis by (auto simp: only_def)
qed

lemma list_add_tail_ok:
  assumes "ring h head xs" and n: "n \<noteq> NULL" "n \<notin> set (head # xs)"
  shows "\<exists>h'. list_add_tail n head h = Some h' \<and> ring h' head (xs @ [n]) \<and> only h h' (set (n # head # xs))"
proof -
  let ?p = "last (head # xs)"
  have d: "distinct (head # xs)" "NULL \<notin> set (head # xs)" "dlseg h head xs head"
    using assms(1) by (auto simp: ring_def)
  have p: "list_prev (h head) = ?p" "?p \<noteq> NULL" "?p \<in> set (head # xs)"
    using dlseg_prev [OF d(3)] d(2) last_in_set [of "head # xs"] by (metis list.simps(3))+
  let ?h1 = "h(head := (h head)\<lparr>list_prev := n\<rparr>)"
  let ?h2 = "?h1(n := (?h1 n)\<lparr>list_next := head, list_prev := ?p\<rparr>)"
  let ?h' = "?h2(?p := (?h2 ?p)\<lparr>list_next := n\<rparr>)"
  have pn: "?p \<noteq> n" using p(3) n(2) by metis
  have run: "list_add_tail n head h = Some ?h'"
    using d(2) n(1) p by (simp add: list_add_tail_def list_add_between_def mem_simps)
  have end_seg: "dlseg ?h' ?p [n] head"
    using n pn by auto
  have "dlseg ?h' head (xs @ [n]) head"
  proof (cases xs rule: rev_cases)
    case Nil
    with end_seg show ?thesis by simp
  next
    case (snoc ys x)
    have "dlseg h head ys x" using d(3) snoc by (simp add: dlseg_append)
    then have "dlseg ?h' head ys x" by (rule dlseg_frame) (use d(1) n snoc in auto)
    with end_seg snoc show ?thesis by (simp add: dlseg_append)
  qed
  then have "ring ?h' head (xs @ [n])" using n d by (auto simp: ring_def)
  with run p show ?thesis by (auto simp: only_def)
qed

text \<open>Called with an entry instead of the head, \<open>list_add_tail\<close> inserts before that entry.\<close>

lemma list_insert_before_ok:
  assumes "ring h head (xs @ ys)" and n: "n \<noteq> NULL" "n \<notin> set (head # xs @ ys)"
  shows "\<exists>h'. list_add_tail n (hd (ys @ [head])) h = Some h' \<and> ring h' head (xs @ n # ys) \<and>
    only h h' (set (n # head # xs @ ys))"
proof (cases ys)
  case Nil
  with list_add_tail_ok [of h head xs n] assms show ?thesis by simp
next
  case (Cons y zs)
  let ?p = "last (head # xs)"
  have d: "distinct (head # xs @ y # zs)" "NULL \<notin> set (head # xs @ y # zs)" "dlseg h head xs y" "dlseg h y zs head"
    using assms(1) Cons by (auto simp: ring_def dlseg_append)
  have p: "list_prev (h y) = ?p" "?p \<in> set (head # xs)"
    using dlseg_prev [OF d(3)] last_in_set [of "head # xs"] by auto
  have in1: "a \<in> set (head # xs) \<Longrightarrow> a \<noteq> NULL \<and> a \<noteq> n \<and> a \<noteq> y \<and> a \<notin> set zs" for a
    using d(1,2) n Cons by auto
  have ne: "?p \<noteq> NULL" "?p \<noteq> n" "?p \<noteq> y" "y \<noteq> NULL" "y \<noteq> n" "?p \<notin> set zs"
    using in1 [OF p(2)] d(2) n Cons by auto
  let ?h1 = "h(y := (h y)\<lparr>list_prev := n\<rparr>)"
  let ?h2 = "?h1(n := (?h1 n)\<lparr>list_next := y, list_prev := ?p\<rparr>)"
  let ?h' = "?h2(?p := (?h2 ?p)\<lparr>list_next := n\<rparr>)"
  have run: "list_add_tail n (hd (ys @ [head])) h = Some ?h'"
    using ne n(1) p Cons by (simp add: list_add_tail_def list_add_between_def mem_simps)
  have "dlseg ?h' y zs head" using d(4) by (rule dlseg_frame) (use ne d(1) n Cons in auto)
  moreover have "dlseg ?h' ?p [n] y" using ne by auto
  moreover have "dlseg ?h' head xs n"
  proof (cases xs rule: rev_cases)
    case Nil
    then show ?thesis using ne by auto
  next
    case (snoc us u)
    have "dlseg h head us u" using d(3) snoc by (simp add: dlseg_append)
    then have "dlseg ?h' head us u" by (rule dlseg_frame) (use d(1) n Cons snoc in auto)
    with snoc ne show ?thesis by (auto simp: dlseg_append)
  qed
  ultimately have "ring ?h' head (xs @ n # ys)" using n d Cons by (auto simp: ring_def dlseg_append)
  with run p(2) Cons show ?thesis by (auto simp: only_def)
qed

text \<open>Unlinking an entry; the entry's own cell keeps its pointers.\<close>

lemma unlink_ok:
  assumes "ring h head (xs @ x # ys)"
  shows "\<exists>h'. list_del_between (list_prev (h x)) (list_next (h x)) h = Some h' \<and> ring h' head (xs @ ys) \<and>
    h' x = h x \<and> only h h' (set (head # xs @ ys))"
proof -
  have d: "distinct (head # xs @ x # ys)" "NULL \<notin> set (head # xs @ x # ys)"
    "dlseg h head xs x" "dlseg h x ys head"
    using assms by (auto simp: ring_def dlseg_append)
  let ?p = "last (head # xs)" and ?q = "hd (ys @ [head])"
  have p: "list_prev (h x) = ?p" "?p \<in> set (head # xs)"
    using dlseg_prev [OF d(3)] last_in_set [of "head # xs"] by auto
  have q: "list_next (h x) = ?q" "?q \<in> set (ys @ [head])" using dlseg_next [OF d(4)] by (cases ys; auto)+
  have in1: "a \<in> set (head # xs) \<Longrightarrow> a \<noteq> NULL \<and> a \<noteq> x"
    and in2: "a \<in> set (ys @ [head]) \<Longrightarrow> a \<noteq> NULL \<and> a \<noteq> x" for a using d(1,2) by auto
  have ne: "?p \<noteq> NULL" "?q \<noteq> NULL" "?p \<noteq> x" "?q \<noteq> x"
    using in1 [OF p(2)] in2 [OF q(2)] by blast+
  let ?h1 = "h(?q := (h ?q)\<lparr>list_prev := ?p\<rparr>)"
  let ?h' = "?h1(?p := (?h1 ?p)\<lparr>list_next := ?q\<rparr>)"
  have run: "list_del_between (list_prev (h x)) (list_next (h x)) h = Some ?h'"
    using p q ne by (simp add: list_del_between_def mem_simps)
  have "dlseg ?h' head (xs @ ys) head"
  proof (cases xs rule: rev_cases)
    case Nil
    then show ?thesis
    proof (cases ys)
      case (Cons y zs)
      have "dlseg h y zs head" using d(4) Cons by simp
      then have "dlseg ?h' y zs head" by (rule dlseg_frame) (use d(1) Cons Nil in auto)
      with Cons Nil d(1) show ?thesis by auto
    qed simp
  next
    case (snoc us u)
    have "dlseg h head us u" using d(3) snoc by (simp add: dlseg_append)
    then have us: "dlseg ?h' head us u" by (rule dlseg_frame) (use d(1) snoc q(2) in auto)
    show ?thesis
    proof (cases ys)
      case Nil
      with us snoc d(1) show ?thesis by (auto simp: dlseg_append)
    next
      case (Cons y zs)
      have "dlseg h y zs head" using d(4) Cons by simp
      then have "dlseg ?h' y zs head" by (rule dlseg_frame) (use d(1) Cons snoc in auto)
      with us Cons snoc d(1) show ?thesis by (auto simp: dlseg_append)
    qed
  qed
  then have "ring ?h' head (xs @ ys)" using d by (auto simp: ring_def)
  with run ne p(2) q(2) show ?thesis by (auto simp: only_def)
qed

lemma list_del_ok:
  assumes "ring h head (xs @ x # ys)"
  shows "\<exists>h'. list_del x h = Some h' \<and> ring h' head (xs @ ys) \<and>
    h' x = \<lparr>list_next = NULL, list_prev = NULL\<rparr> \<and> only h h' (set (head # xs @ x # ys))"
proof -
  from unlink_ok [OF assms] obtain h1 where
    h1: "list_del_between (list_prev (h x)) (list_next (h x)) h = Some h1" "ring h1 head (xs @ ys)"
    "only h h1 (set (head # xs @ ys))" by blast
  have x: "x \<noteq> NULL" "x \<notin> set (head # xs @ ys)" using assms by (auto simp: ring_def)
  let ?h' = "h1(x := \<lparr>list_next = NULL, list_prev = NULL\<rparr>)"
  have poison: "(h1 x)\<lparr>list_next := NULL, list_prev := NULL\<rparr> = \<lparr>list_next = NULL, list_prev = NULL\<rparr>"
    by (cases "h1 x") simp
  have "list_del x h = Some ?h'"
    using h1(1) x(1) by (simp add: list_del_def mem_simps LIST_POISON1_def LIST_POISON2_def poison)
  moreover have "ring ?h' head (xs @ ys)" by (rule ring_frame [OF h1(2)]) (use x(2) in auto)
  ultimately show ?thesis using h1(3) by (auto simp: only_def)
qed

lemma list_del_init_ok:
  assumes "ring h head (xs @ x # ys)"
  shows "\<exists>h'. list_del_init x h = Some h' \<and> ring h' head (xs @ ys) \<and> ring h' x [] \<and>
    only h h' (set (head # xs @ x # ys))"
proof -
  from unlink_ok [OF assms] obtain h1 where
    h1: "list_del_between (list_prev (h x)) (list_next (h x)) h = Some h1" "ring h1 head (xs @ ys)"
    "only h h1 (set (head # xs @ ys))" by blast
  have x: "x \<noteq> NULL" "x \<notin> set (head # xs @ ys)" using assms by (auto simp: ring_def)
  from INIT_LIST_HEAD_ok [OF x(1), of h1] obtain h2 where
    h2: "INIT_LIST_HEAD x h1 = Some h2" "ring h2 x []" "only h1 h2 {x}" by blast
  have "ring h2 head (xs @ ys)" by (rule ring_only [OF h1(2) h2(3)]) (use x(2) in auto)
  with h1 h2 x(1) show ?thesis by (auto simp: list_del_init_def mem_simps only_def)
qed

text \<open>The macro \<open>list_delete\<close> writes the same two links in the other order.\<close>

lemma list_delete_ok:
  assumes "ring h head (xs @ x # ys)"
  shows "\<exists>h'. list_delete x h = Some h' \<and> ring h' head (xs @ ys) \<and> only h h' (set (head # xs @ ys))"
proof -
  from unlink_ok [OF assms] obtain h1 where
    h1: "list_del_between (list_prev (h x)) (list_next (h x)) h = Some h1" "ring h1 head (xs @ ys)"
    "only h h1 (set (head # xs @ ys))" by blast
  have d: "dlseg h head xs x" "dlseg h x ys head" "distinct (head # xs @ x # ys)" "NULL \<notin> set (head # xs @ x # ys)"
    using assms by (auto simp: ring_def dlseg_append)
  have p: "list_prev (h x) \<in> set (head # xs)" "list_next (h x) \<in> set (ys @ [head])"
    using dlseg_prev [OF d(1)] dlseg_next [OF d(2)] last_in_set [of "head # xs"] hd_in_set [of "ys @ [head]"] by auto
  then have ne: "list_prev (h x) \<noteq> NULL" "list_next (h x) \<noteq> NULL" "list_prev (h x) \<noteq> x" "x \<noteq> NULL"
    using d(3,4) by auto
  then have "list_delete x h = Some h1"
    using h1(1) by (auto simp: list_delete_def list_del_between_def mem_simps fun_upd_twist
        split: if_splits intro!: ext)
  with h1 show ?thesis by blast
qed

lemma list_empty_ok: "ring h head xs \<Longrightarrow> list_empty head h = Some (xs = [])"
  by (cases xs) (auto simp: list_empty_def ring_def mem_simps)

lemma list_first_entry_ok: "ring h head (x # xs) \<Longrightarrow> list_first_entry head h = Some x"
  by (auto simp: list_first_entry_def ring_def mem_simps)

lemma for_each_from:
  "dlseg h p xs head \<Longrightarrow> head \<notin> set xs \<Longrightarrow> NULL \<notin> set xs \<Longrightarrow>
   list_for_each_from (list_next (h p)) head h = Some xs"
  by (induction xs arbitrary: p) (subst list_for_each_from.simps; auto simp: mem_simps)+

lemma list_for_each_ok: "ring h head xs \<Longrightarrow> list_for_each head h = Some xs"
  by (auto simp: list_for_each_def ring_def mem_simps intro!: for_each_from)

lemma for_each_prev_from:
  "dlseg h head xs q \<Longrightarrow> head \<notin> set xs \<Longrightarrow> NULL \<notin> set xs \<Longrightarrow>
   list_for_each_prev_from (list_prev (h q)) head h = Some (rev xs)"
proof (induction xs arbitrary: q rule: rev_induct)
  case Nil
  then show ?case by (subst list_for_each_prev_from.simps) simp
next
  case (snoc x xs)
  then show ?case by (subst list_for_each_prev_from.simps) (auto simp: dlseg_append mem_simps)
qed

lemma list_for_each_prev_ok: "ring h head xs \<Longrightarrow> list_for_each_prev head h = Some (rev xs)"
  by (auto simp: list_for_each_prev_def ring_def mem_simps intro!: for_each_prev_from)

section \<open>Several lists in one store\<close>

text \<open>\<open>rings L H ls\<close>: at each head of \<open>H\<close> stands the list \<open>ls\<close> gives it, no two share a cell.\<close>

definition rings :: "links \<Rightarrow> addr set \<Rightarrow> (addr \<Rightarrow> addr list) \<Rightarrow> bool" where
  "rings L H ls \<longleftrightarrow> (\<forall>a\<in>H. ring L a (ls a)) \<and>
     (\<forall>a\<in>H. \<forall>b\<in>H. a \<noteq> b \<longrightarrow> set (a # ls a) \<inter> set (b # ls b) = {})"

lemma ringsD: "rings L H ls \<Longrightarrow> a \<in> H \<Longrightarrow> ring L a (ls a)"
  by (simp add: rings_def)

lemma rings_cong: "(\<And>a. a \<in> H \<Longrightarrow> ls a = ls' a) \<Longrightarrow> rings L H ls = rings L H ls'"
  by (simp add: rings_def)

lemma rings_disj: "rings L H ls \<Longrightarrow> a \<in> H \<Longrightarrow> b \<in> H \<Longrightarrow> a \<noteq> b \<Longrightarrow> set (a # ls a) \<inter> set (b # ls b) = {}"
  unfolding rings_def by blast

lemma rings_upd:
  assumes "rings L H ls" and "a \<in> H" and "ring L' a ys" and "only L L' A" and "A \<subseteq> set (a # ls a) \<union> N"
    and "set ys \<subseteq> set (ls a) \<union> N" and "\<forall>b\<in>H. N \<inter> set (b # ls b) = {}"
  shows "rings L' H (ls(a := ys))"
  unfolding rings_def
proof (intro conjI ballI impI)
  fix b assume b: "b \<in> H"
  show "ring L' b ((ls(a := ys)) b)"
  proof (cases "b = a")
    case False
    have "ring L b (ls b)" using assms(1) b by (rule ringsD)
    moreover have "A \<inter> set (b # ls b) = {}"
      using assms(5,7) rings_disj [OF assms(1,2) b] b False by blast
    ultimately show ?thesis using ring_only [OF _ assms(4)] False by simp
  qed (use assms(3) in simp)
next
  fix b c assume bc: "b \<in> H" "c \<in> H" "b \<noteq> c"
  show "set (b # (ls(a := ys)) b) \<inter> set (c # (ls(a := ys)) c) = {}"
    using rings_disj [OF assms(1) bc] assms(6,7) bc by auto
qed

lemma rings_push:
  assumes "rings L H ls" and "a \<in> H" and "n \<noteq> NULL" and "\<forall>b\<in>H. n \<notin> set (b # ls b)"
  shows "\<exists>L'. list_add n a L = Some L' \<and> rings L' H (ls(a := n # ls a))"
proof -
  from list_add_ok [OF ringsD [OF assms(1,2)] assms(3)] assms(2,4) obtain L' where
    L': "list_add n a L = Some L'" "ring L' a (n # ls a)" "only L L' (set (n # a # ls a))" by auto
  have "rings L' H (ls(a := n # ls a))"
    by (rule rings_upd [OF assms(1,2) L'(2,3), of "{n}"]) (use assms(4) in auto)
  with L' show ?thesis by blast
qed

lemma ring_del:
  assumes "ring L a xs" and "x \<in> set xs"
  shows "\<exists>L'. list_del x L = Some L' \<and> ring L' a (remove1 x xs) \<and> only L L' (set (a # xs))"
proof -
  from assms(2) obtain us vs where xs: "xs = us @ x # vs" by (meson split_list)
  with assms(1) have "x \<notin> set us" by (auto simp: ring_def)
  with xs have "remove1 x xs = us @ vs" by (simp add: remove1_append)
  with list_del_ok [of L a us x vs] assms(1) xs show ?thesis by auto
qed

lemma rings_del:
  assumes "rings L H ls" and "a \<in> H" and "x \<in> set (ls a)"
  shows "\<exists>L'. list_del x L = Some L' \<and> rings L' H (ls(a := remove1 x (ls a)))"
proof -
  from ring_del [OF ringsD [OF assms(1,2)] assms(3)] obtain L' where
    L': "list_del x L = Some L'" "ring L' a (remove1 x (ls a))" "only L L' (set (a # ls a))" by blast
  have "rings L' H (ls(a := remove1 x (ls a)))"
    by (rule rings_upd [OF assms(1,2) L'(2,3), of "{}"]) (use set_remove1_subset in fastforce)+
  with L' show ?thesis by blast
qed

lemma rings_move:
  assumes R: "rings L H ls" and a: "a \<in> H" "b \<in> H" "a \<noteq> b" and x: "x \<in> set (ls a)"
  shows "\<exists>L1 L2. list_del x L = Some L1 \<and> list_add x b L1 = Some L2 \<and>
    rings L2 H (ls(a := remove1 x (ls a), b := x # ls b))"
proof -
  let ?ls = "ls(a := remove1 x (ls a))"
  from rings_del [OF R a(1) x] obtain L1 where L1: "list_del x L = Some L1" "rings L1 H ?ls" by blast
  have d: "distinct (a # ls a)" "x \<noteq> NULL" using ringsD [OF R a(1)] x by (auto simp: ring_def)
  have "\<forall>c\<in>H. x \<notin> set (c # ?ls c)"
    using rings_disj [OF R a(1)] d x by (fastforce simp: set_remove1_eq)
  then obtain L2 where "list_add x b L1 = Some L2" "rings L2 H (?ls(b := x # ?ls b))"
    using rings_push [OF L1(2) a(2) d(2)] by blast
  moreover have "?ls(b := x # ?ls b) = ls(a := remove1 x (ls a), b := x # ls b)" using a(3) by simp
  ultimately show ?thesis using L1(1) by (intro exI [of _ L1] exI [of _ L2]) (simp only: simp_thms)
qed

lemma rings_only:
  "rings L H ls \<Longrightarrow> only L L' A \<Longrightarrow> \<forall>a\<in>H. A \<inter> set (a # ls a) = {} \<Longrightarrow> rings L' H ls"
  unfolding rings_def by (blast intro: ring_only)

lemma rings_new_head:
  assumes "rings L H ls" and "a \<noteq> NULL" and "a \<notin> H" and "\<forall>b\<in>H. a \<notin> set (ls b)"
  shows "\<exists>L'. INIT_LIST_HEAD a L = Some L' \<and> rings L' (insert a H) (ls(a := []))"
proof -
  from INIT_LIST_HEAD_ok [OF assms(2), of L] obtain L' where
    L': "INIT_LIST_HEAD a L = Some L'" "ring L' a []" "only L L' {a}" by blast
  have "rings L' H ls" by (rule rings_only [OF assms(1) L'(3)]) (use assms(3,4) in auto)
  then have "rings L' (insert a H) (ls(a := []))"
    using L'(2) assms(3,4) unfolding rings_def by auto
  with L' show ?thesis by blast
qed

lemma rings_append:
  assumes "rings L H ls" and "a \<in> H" and "n \<noteq> NULL" and "\<forall>b\<in>H. n \<notin> set (b # ls b)"
  shows "\<exists>L'. list_add_tail n a L = Some L' \<and> rings L' H (ls(a := ls a @ [n])) \<and> only L L' (set (n # a # ls a))"
proof -
  from list_add_tail_ok [OF ringsD [OF assms(1,2)] assms(3)] assms(2,4) obtain L' where
    L': "list_add_tail n a L = Some L'" "ring L' a (ls a @ [n])" "only L L' (set (n # a # ls a))" by auto
  have "rings L' H (ls(a := ls a @ [n]))"
    by (rule rings_upd [OF assms(1,2) L'(2,3), of "{n}"]) (use assms(4) in auto)
  with L' show ?thesis by blast
qed

lemma rings_delete:
  assumes "rings L H ls" and "a \<in> H" and "x \<in> set (ls a)"
  shows "\<exists>L'. list_delete x L = Some L' \<and> rings L' H (ls(a := remove1 x (ls a))) \<and> only L L' (set (a # ls a))"
proof -
  from assms(3) obtain us vs where xs: "ls a = us @ x # vs" by (meson split_list)
  have r: "ring L a (us @ x # vs)" using ringsD [OF assms(1,2)] xs by simp
  then have "x \<notin> set us" by (auto simp: ring_def)
  with xs have rm: "remove1 x (ls a) = us @ vs" by (simp add: remove1_append)
  from list_delete_ok [OF r] obtain L' where
    L': "list_delete x L = Some L'" "ring L' a (us @ vs)" "only L L' (set (a # us @ vs))" by blast
  have "rings L' H (ls(a := us @ vs))"
    by (rule rings_upd [OF assms(1,2) L'(2,3), of "{}"]) (use xs in auto)
  moreover have "only L L' (set (a # ls a))" using L'(3) xs by (auto simp: only_def)
  ultimately show ?thesis using L'(1) rm by auto
qed

text \<open>The test for a second entry.\<close>

lemma ring_second:
  assumes "ring h q xs" and "xs \<noteq> []"
  shows "list_next (h q) \<noteq> NULL \<and> (list_next (h (list_next (h q))) \<noteq> q \<longleftrightarrow> 2 \<le> length xs)"
proof (cases xs)
  case (Cons x ys)
  with assms(1) show ?thesis by (cases ys) (auto simp: ring_def)
qed (use assms in simp)

section \<open>The contract of a list\<close>

text \<open>
  What the clients of \<open>list.h\<close> (the memory pool, the thread pool, the timers, the message
  broker) rely on: entries are pushed at the front or appended at the back, any entry is
  unlinked, and cells outside the list are not touched.
\<close>

locale linked_queue =
  fixes holds :: "'h \<Rightarrow> addr \<Rightarrow> addr list \<Rightarrow> bool"
    and push :: "addr \<Rightarrow> addr \<Rightarrow> 'h \<Rightarrow> 'h option"
    and enq :: "addr \<Rightarrow> addr \<Rightarrow> 'h \<Rightarrow> 'h option"
    and unlink :: "addr \<Rightarrow> 'h \<Rightarrow> 'h option"
    and front :: "addr \<Rightarrow> 'h \<Rightarrow> addr option"
    and keeps :: "'h \<Rightarrow> 'h \<Rightarrow> addr set \<Rightarrow> bool"
  assumes holds_distinct: "holds h q xs \<Longrightarrow> distinct (q # xs) \<and> NULL \<notin> set (q # xs)"
    and push_ok: "\<lbrakk>holds h q xs; n \<noteq> NULL; n \<notin> set (q # xs)\<rbrakk>
      \<Longrightarrow> \<exists>h'. push n q h = Some h' \<and> holds h' q (n # xs) \<and> keeps h h' (set (n # q # xs))"
    and enq_ok: "\<lbrakk>holds h q xs; n \<noteq> NULL; n \<notin> set (q # xs)\<rbrakk>
      \<Longrightarrow> \<exists>h'. enq n q h = Some h' \<and> holds h' q (xs @ [n]) \<and> keeps h h' (set (n # q # xs))"
    and unlink_ok: "holds h q (xs @ x # ys)
      \<Longrightarrow> \<exists>h'. unlink x h = Some h' \<and> holds h' q (xs @ ys) \<and> keeps h h' (set (q # xs @ x # ys))"
    and front_ok: "holds h q (x # xs) \<Longrightarrow> front q h = Some x"
    and holds_keep: "\<lbrakk>holds h q xs; keeps h h' A; A \<inter> set (q # xs) = {}\<rbrakk> \<Longrightarrow> holds h' q xs"
begin

text \<open>Taking from the front what was appended at the back: first in, first out.\<close>

lemma take_front:
  assumes "holds h q (x # xs)"
  shows "\<exists>h'. front q h = Some x \<and> unlink x h = Some h' \<and> holds h' q xs"
  using unlink_ok [of h q "[]" x xs] front_ok [OF assms] assms by auto

lemma enq_take:
  assumes "holds h q xs" and "n \<noteq> NULL" and "n \<notin> set (q # xs)"
  shows "\<exists>h1 h2. enq n q h = Some h1 \<and> front q h1 = Some (hd (xs @ [n])) \<and>
    unlink (hd (xs @ [n])) h1 = Some h2 \<and> holds h2 q (tl (xs @ [n]))"
proof -
  from enq_ok [OF assms] obtain h1 where h1: "enq n q h = Some h1" "holds h1 q (xs @ [n])" by blast
  then have "holds h1 q (hd (xs @ [n]) # tl (xs @ [n]))" by simp
  from take_front [OF this] h1(1) show ?thesis by blast
qed

text \<open>Moving an entry from one list to another of the same store.\<close>

lemma move_push:
  assumes "holds h q (xs @ x # ys)" and "holds h r zs" and "set (q # xs @ x # ys) \<inter> set (r # zs) = {}"
  shows "\<exists>h1 h2. unlink x h = Some h1 \<and> push x r h1 = Some h2 \<and> holds h2 q (xs @ ys) \<and> holds h2 r (x # zs)"
proof -
  from unlink_ok [OF assms(1)] obtain h1 where
    h1: "unlink x h = Some h1" "holds h1 q (xs @ ys)" "keeps h h1 (set (q # xs @ x # ys))" by blast
  have r: "holds h1 r zs" by (rule holds_keep [OF assms(2) h1(3) assms(3)])
  have d: "distinct (q # xs @ x # ys)" "x \<noteq> NULL" using holds_distinct [OF assms(1)] by auto
  from push_ok [OF r, of x] d assms(3) obtain h2 where
    h2: "push x r h1 = Some h2" "holds h2 r (x # zs)" "keeps h1 h2 (set (x # r # zs))" by auto
  have "holds h2 q (xs @ ys)" by (rule holds_keep [OF h1(2) h2(3)]) (use d assms(3) in auto)
  with h1 h2 show ?thesis by blast
qed

end

interpretation list: linked_queue ring list_add list_add_tail list_del list_first_entry only
proof unfold_locales
  fix h head xs and x ys
  show "ring h head xs \<Longrightarrow> distinct (head # xs) \<and> NULL \<notin> set (head # xs)" by (simp add: ring_def)
  show "ring h head (xs @ x # ys) \<Longrightarrow> \<exists>h'. list_del x h = Some h' \<and> ring h' head (xs @ ys) \<and>
      only h h' (set (head # xs @ x # ys))" using list_del_ok by blast
qed (simp_all add: list_add_ok list_add_tail_ok list_first_entry_ok ring_only del: set_simps)

end
