(* ===== verification/Mem_Pool.thy ===== *)
theory Mem_Pool
  imports RB_Query Intrusive_List
begin

text \<open>
  The memory pool of \<open>memory-pool/mem_pool.c\<close>: slots of equal-sized chunks, cut from
  stocks that are found again by address through a red-black tree. The model follows the
  x86-64 build: \<open>ALIGN\<close> is 8, \<open>sizeof(struct mem_stock)\<close> is 72 and equals the offset of
  \<open>start\<close>, \<open>size_t\<close> is 64 bits wide.

  \<open>mem\<close> is what the functions read and write: the slots, the stocks, the \<open>next\<close> words
  of recycled chunks, the list cells, the tree, and the set of blocks obtained from
  \<open>posix_memalign\<close> and not yet freed. \<open>posix_memalign\<close> itself is an argument: the block
  it returns, or \<open>None\<close> when it fails. The mutex only serialises the calls.
\<close>

section \<open>Data\<close>

record mem_slot =
  chunk_size :: nat
  chunk_count :: nat
  stock_size :: nat

record mem_stock =
  stock_slot :: addr
  recycle :: addr
  recycnt :: int
  index :: int

record mem =
  slots :: "addr \<Rightarrow> mem_slot"
  stocks :: "addr \<Rightarrow> mem_stock"
  chunk_next :: "addr \<Rightarrow> addr"
  links :: links
  onrbt :: rb_tree
  live :: "addr set"

definition ALIGN :: nat where
  "ALIGN = 8"

definition sizeof_mem_stock :: nat where
  "sizeof_mem_stock = 72"

definition sizeof_mem_chunk :: nat where
  "sizeof_mem_chunk = 8"

definition size_t :: "nat \<Rightarrow> nat" where
  "size_t n = n mod 2 ^ 64"

definition start :: "addr \<Rightarrow> addr" where
  "start stock = stock + sizeof_mem_stock"

text \<open>The two list heads embedded in a slot.\<close>

definition full_head :: "addr \<Rightarrow> addr" where
  "full_head slot = slot + 24"

definition free_head :: "addr \<Rightarrow> addr" where
  "free_head slot = slot + 40"

section \<open>Stocks\<close>

definition stock_compare :: comparator where
  "stock_compare n1 n2 = (if n1 > n2 then 1 else if n1 < n2 then -1 else 0)"

definition stock_search :: "mem \<Rightarrow> addr \<Rightarrow> addr \<Rightarrow> int" where
  "stock_search M a n =
     (let ssz = stock_size (slots M (stock_slot (stocks M n))) in
      if a \<ge> size_t (n + ssz) then 1 else if a < start n then -1 else 0)"

definition stock_exhausted :: "mem \<Rightarrow> addr \<Rightarrow> bool option" where
  "stock_exhausted M stock = do {
     s \<leftarrow> load (stocks M) stock;
     sl \<leftarrow> load (slots M) (stock_slot s);
     Some (index s = int (chunk_count sl) \<and> recycle s = NULL)
   }"

definition stock_alloc :: "addr option \<Rightarrow> addr \<Rightarrow> mem \<Rightarrow> (addr \<times> mem) option" where
  "stock_alloc blk slot M = do {
     e \<leftarrow> list_empty (free_head slot) (links M);
     c_assert e;
     case blk of
       None \<Rightarrow> Some (NULL, M)
     | Some stock \<Rightarrow> do {
         let M = M\<lparr>live := insert stock (live M)\<rparr>;
         h \<leftarrow> INIT_LIST_HEAD stock (links M);
         st \<leftarrow> store (stocks M) stock
                (\<lambda>_. \<lparr>stock_slot = slot, recycle = NULL, recycnt = 0, index = 0\<rparr>);
         h \<leftarrow> list_add stock (free_head slot) h;
         (_, T) \<leftarrow> rb_insert stock_compare stock (onrbt M);
         Some (stock, M\<lparr>stocks := st, links := h, onrbt := T\<rparr>)
       }
   }"

definition stock_slot_init :: "addr option \<Rightarrow> addr \<Rightarrow> nat \<Rightarrow> nat \<Rightarrow> mem \<Rightarrow> (addr \<times> mem) option" where
  "stock_slot_init blk slot count sz M = do {
     h \<leftarrow> INIT_LIST_HEAD (full_head slot) (links M);
     h \<leftarrow> INIT_LIST_HEAD (free_head slot) h;
     let align = sz mod ALIGN;
     let sz = (if align \<noteq> 0 then size_t (sz + (ALIGN - align)) else sz);
     let sz = (if sz < sizeof_mem_chunk then sizeof_mem_chunk else sz);
     sl \<leftarrow> store (slots M) slot
            (\<lambda>_. \<lparr>chunk_size = sz, chunk_count = count,
                  stock_size = size_t (count * sz + sizeof_mem_stock)\<rparr>);
     (stock, M) \<leftarrow> stock_alloc blk slot (M\<lparr>slots := sl, links := h\<rparr>);
     Some (if stock \<noteq> NULL then slot else NULL, M)
   }"

section \<open>Chunks\<close>

definition chunk_alloc :: "addr option \<Rightarrow> addr \<Rightarrow> mem \<Rightarrow> (addr \<times> mem) option" where
  "chunk_alloc blk slot M = do {
     e \<leftarrow> list_empty (free_head slot) (links M);
     (ok, M) \<leftarrow> (if e then do { (stock, M) \<leftarrow> stock_alloc blk slot M; Some (stock \<noteq> NULL, M) }
                 else Some (True, M));
     if \<not> ok then Some (NULL, M)
     else do {
       stock \<leftarrow> list_first_entry (free_head slot) (links M);
       s \<leftarrow> load (stocks M) stock;
       sl \<leftarrow> load (slots M) slot;
       (chunk, M) \<leftarrow>
         (if recycle s \<noteq> NULL then do {
            c \<leftarrow> load (chunk_next M) (recycle s);
            st \<leftarrow> store (stocks M) stock (\<lambda>s. s\<lparr>recycle := c, recycnt := recycnt s - 1\<rparr>);
            Some (recycle s, M\<lparr>stocks := st\<rparr>)
          } else if index s < int (chunk_count sl) then do {
            st \<leftarrow> store (stocks M) stock (\<lambda>s. s\<lparr>index := index s + 1\<rparr>);
            Some (start stock + nat (index s) * chunk_size sl, M\<lparr>stocks := st\<rparr>)
          } else None);
       x \<leftarrow> stock_exhausted M stock;
       if x then do {
         h \<leftarrow> list_del stock (links M);
         h \<leftarrow> list_add stock (full_head slot) h;
         Some (chunk, M\<lparr>links := h\<rparr>)
       } else Some (chunk, M)
     }
   }"

definition chunk_free :: "addr \<Rightarrow> mem \<Rightarrow> mem option" where
  "chunk_free p M = do {
     stock \<leftarrow> rb_search (stock_search M p) (onrbt M);
     c_assert (stock \<noteq> NULL);
     s \<leftarrow> load (stocks M) stock;
     let slot = stock_slot s;
     x \<leftarrow> stock_exhausted M stock;
     h \<leftarrow> (if x then do { h \<leftarrow> list_del stock (links M); list_add stock (free_head slot) h }
           else Some (links M));
     nx \<leftarrow> store (chunk_next M) p (\<lambda>_. recycle s);
     st \<leftarrow> store (stocks M) stock (\<lambda>s. s\<lparr>recycnt := recycnt s + 1, recycle := p\<rparr>);
     let M = M\<lparr>links := h, stocks := st, chunk_next := nx\<rparr>;
     s \<leftarrow> load (stocks M) stock;
     if recycnt s = index s then do {
       c \<leftarrow> load (links M) (free_head slot);
       d \<leftarrow> load (links M) (list_next c);
       if list_next d \<noteq> free_head slot then do {
         h \<leftarrow> list_del stock (links M);
         T \<leftarrow> rb_remove stock (onrbt M);
         Some (M\<lparr>links := h, onrbt := T, live := live M - {stock}\<rparr>)
       } else Some M
     } else Some M
   }"

definition mem_chunk_count :: "nat \<Rightarrow> nat \<Rightarrow> nat \<Rightarrow> nat" where
  "mem_chunk_count pagesize pages sz = (pagesize * pages - sizeof_mem_stock) div sz"

section \<open>Caches and pools\<close>

text \<open>
  A cache is one slot with its own tree; a pool is an array of slots with one tree. Element
  \<open>i\<close> of the array lies at \<open>slot_at base i\<close>. The locks are \<open>malloc\<close>ed: their arguments
  say whether that succeeded.
\<close>

definition free_list :: "addr \<Rightarrow> mem \<Rightarrow> mem option" where
  "free_list head M = do {
     xs \<leftarrow> list_for_each head (links M);
     Some (M\<lparr>live := live M - set xs\<rparr>)
   }"

definition mem_cache_create ::
    "addr option \<Rightarrow> addr option \<Rightarrow> bool \<Rightarrow> nat \<Rightarrow> nat \<Rightarrow> bool \<Rightarrow> mem \<Rightarrow> (addr \<times> mem) option" where
  "mem_cache_create cache_blk blk lock_ok count sz threadsafe M =
     (case cache_blk of
        None \<Rightarrow> Some (NULL, M)
      | Some cache \<Rightarrow> do {
          let M = M\<lparr>onrbt := rb_tree_init (onrbt M), live := insert cache (live M)\<rparr>;
          (r, M) \<leftarrow> stock_slot_init blk cache count sz M;
          if r = NULL \<or> threadsafe \<and> \<not> lock_ok
          then Some (NULL, M\<lparr>live := live M - {cache}\<rparr>)
          else Some (cache, M)
        })"

definition mem_cache_destroy :: "addr \<Rightarrow> mem \<Rightarrow> mem option" where
  "mem_cache_destroy cache M = do {
     M \<leftarrow> free_list (full_head cache) M;
     M \<leftarrow> free_list (free_head cache) M;
     Some (M\<lparr>live := live M - {cache}\<rparr>)
   }"

definition mem_cache_alloc :: "addr option \<Rightarrow> addr \<Rightarrow> mem \<Rightarrow> (addr \<times> mem) option" where
  "mem_cache_alloc blk cache M = chunk_alloc blk cache M"

definition mem_cache_free :: "addr \<Rightarrow> mem \<Rightarrow> mem option" where
  "mem_cache_free p M = chunk_free p M"

record mem_pool =
  start_size :: nat
  diff_size :: nat
  slot_count :: nat
  pool_slots :: addr

definition slot_at :: "addr \<Rightarrow> nat \<Rightarrow> addr" where
  "slot_at base i = base + i * 56"

fun mem_pool_destroy_slots :: "addr \<Rightarrow> nat \<Rightarrow> mem \<Rightarrow> mem option" where
  "mem_pool_destroy_slots base 0 M = Some M"
| "mem_pool_destroy_slots base (Suc n) M = do {
     M \<leftarrow> mem_pool_destroy_slots base n M;
     M \<leftarrow> free_list (full_head (slot_at base n)) M;
     free_list (free_head (slot_at base n)) M
   }"

definition mem_pool_destroy :: "mem_pool \<Rightarrow> mem \<Rightarrow> mem option" where
  "mem_pool_destroy pool M = do {
     M \<leftarrow> mem_pool_destroy_slots (pool_slots pool) (slot_count pool) M;
     Some (M\<lparr>live := live M - {pool_slots pool}\<rparr>)
   }"

fun mem_pool_init_slots :: "addr option list \<Rightarrow> mem_pool \<Rightarrow> nat \<Rightarrow> nat \<Rightarrow> mem \<Rightarrow> (bool \<times> mem) option" where
  "mem_pool_init_slots [] pool i count M = Some (True, M)"
| "mem_pool_init_slots (blk # blks) pool i count M = do {
     (r, M) \<leftarrow> stock_slot_init blk (slot_at (pool_slots pool) i) count
                (size_t (start_size pool + size_t (i * diff_size pool))) M;
     if r = NULL then do { M \<leftarrow> mem_pool_destroy pool M; Some (False, M) }
     else mem_pool_init_slots blks pool (Suc i) count M
   }"

definition mem_pool_create ::
    "bool \<Rightarrow> addr option \<Rightarrow> bool \<Rightarrow> addr option list \<Rightarrow> nat \<Rightarrow> nat \<Rightarrow> nat \<Rightarrow> bool \<Rightarrow> mem \<Rightarrow>
     (mem_pool option \<times> mem) option" where
  "mem_pool_create pool_ok slots_blk lock_ok blks ssize dsize count threadsafe M =
     (case (pool_ok, slots_blk) of
        (True, Some base) \<Rightarrow> do {
          let M = M\<lparr>onrbt := rb_tree_init (onrbt M), live := insert base (live M)\<rparr>;
          let pool = \<lparr>start_size = ssize, diff_size = dsize, slot_count = length blks, pool_slots = base\<rparr>;
          if threadsafe \<and> \<not> lock_ok then Some (None, M)
          else do {
            (r, M) \<leftarrow> mem_pool_init_slots blks pool 0 count M;
            Some (if r then Some pool else None, M)
          }
        }
      | _ \<Rightarrow> Some (None, M))"

text \<open>
  The quotient is kept in an \<open>int\<close>: it loses its upper half and, when negative, is a huge
  \<open>size_t\<close> in the comparison.
\<close>

definition int_as_size_t :: "nat \<Rightarrow> nat" where
  "int_as_size_t q = (let r = q mod 2 ^ 32 in if r < 2 ^ 31 then r else r + (2 ^ 64 - 2 ^ 32))"

text \<open>
  The test is the code's: index \<open>slot_count\<close> passes it. Division by zero faults.
\<close>

definition mem_pool_alloc :: "addr option \<Rightarrow> mem_pool \<Rightarrow> nat \<Rightarrow> mem \<Rightarrow> (addr \<times> mem) option" where
  "mem_pool_alloc blk pool sz M = do {
     c_assert (diff_size pool \<noteq> 0);
     let i = int_as_size_t (sz div diff_size pool);
     if i > slot_count pool then Some (NULL, M)
     else chunk_alloc blk (slot_at (pool_slots pool) i) M
   }"

definition mem_pool_free :: "addr \<Rightarrow> mem \<Rightarrow> mem option" where
  "mem_pool_free p M = chunk_free p M"

end
