(* ===== verification/Mem_Pool_Inv.thy ===== *)
theory Mem_Pool_Inv
  imports Mem_Pool
begin

text \<open>
  The allocator invariant: which lists the stocks are on, what each stock's recycle chain
  holds, how the address tree relates to them; and its preservation by allocation and release.
\<close>

section \<open>The invariant\<close>

text \<open>The recycle chain of a stock.\<close>

fun chain :: "(addr \<Rightarrow> addr) \<Rightarrow> addr \<Rightarrow> addr list \<Rightarrow> bool" where
  "chain nx p [] \<longleftrightarrow> p = NULL"
| "chain nx p (c # cs) \<longleftrightarrow> p = c \<and> c \<noteq> NULL \<and> chain nx (nx c) cs"

lemma chain_frame: "chain nx p cs \<Longrightarrow> (\<And>c. c \<in> set cs \<Longrightarrow> nx' c = nx c) \<Longrightarrow> chain nx' p cs"
  by (induction cs arbitrary: p) auto

lemma chain_NULL: "chain nx p cs \<Longrightarrow> p = NULL \<longleftrightarrow> cs = []"
  by (cases cs) auto

definition chunk_at :: "mem \<Rightarrow> addr \<Rightarrow> nat \<Rightarrow> addr" where
  "chunk_at M st i = start st + i * chunk_size (slots M (stock_slot (stocks M st)))"

definition slot_ok :: "mem \<Rightarrow> addr \<Rightarrow> bool" where
  "slot_ok M s \<longleftrightarrow> s \<noteq> NULL \<and> 0 < chunk_size (slots M s) \<and> 0 < chunk_count (slots M s) \<and>
     stock_size (slots M s) = chunk_count (slots M s) * chunk_size (slots M s) + sizeof_mem_stock"

definition stock_ok :: "mem \<Rightarrow> addr \<Rightarrow> addr \<Rightarrow> addr list \<Rightarrow> bool" where
  "stock_ok M s st rs \<longleftrightarrow>
     stock_slot (stocks M st) = s \<and>
     0 \<le> index (stocks M st) \<and> index (stocks M st) \<le> int (chunk_count (slots M s)) \<and>
     chain (chunk_next M) (recycle (stocks M st)) rs \<and> recycnt (stocks M st) = int (length rs) \<and>
     distinct rs \<and> set rs \<subseteq> chunk_at M st ` {..<nat (index (stocks M st))}"

definition used_up :: "mem \<Rightarrow> addr \<Rightarrow> addr \<Rightarrow> addr list \<Rightarrow> bool" where
  "used_up M s st rs \<longleftrightarrow> index (stocks M st) = int (chunk_count (slots M s)) \<and> rs = []"

definition heads :: "addr set \<Rightarrow> addr set" where
  "heads S = full_head ` S \<union> free_head ` S"

definition stocks_of :: "(addr \<Rightarrow> addr list) \<Rightarrow> addr \<Rightarrow> addr set" where
  "stocks_of ls s = set (ls (full_head s)) \<union> set (ls (free_head s))"

definition block_end :: "mem \<Rightarrow> addr \<Rightarrow> nat" where
  "block_end M st = st + stock_size (slots M (stock_slot (stocks M st)))"

definition pool_base :: "mem \<Rightarrow> addr set \<Rightarrow> (addr \<Rightarrow> addr list) \<Rightarrow> addr list \<Rightarrow> (addr \<Rightarrow> addr list) \<Rightarrow> bool" where
  "pool_base M S ls xs rc \<longleftrightarrow>
     rings (links M) (heads S) ls \<and> (\<forall>s\<in>S. \<forall>t\<in>S. full_head s \<noteq> free_head t) \<and>
     rb_wf stock_compare (onrbt M) xs \<and> set xs = (\<Union>s\<in>S. stocks_of ls s) \<and>
     (\<forall>s\<in>S. slot_ok M s) \<and>
     (\<forall>s\<in>S. \<forall>st\<in>stocks_of ls s. stock_ok M s st (rc st)) \<and>
     (\<forall>a\<in>set xs. block_end M a < 2 ^ 64) \<and>
     (\<forall>a\<in>set xs. \<forall>b\<in>set xs. a < b \<longrightarrow> block_end M a \<le> b) \<and>
     set xs \<subseteq> live M"

text \<open>A stock is on the full list exactly when nothing is left in it.\<close>

definition pool_ok :: "mem \<Rightarrow> addr set \<Rightarrow> (addr \<Rightarrow> addr list) \<Rightarrow> addr list \<Rightarrow> (addr \<Rightarrow> addr list) \<Rightarrow> bool" where
  "pool_ok M S ls xs rc \<longleftrightarrow> pool_base M S ls xs rc \<and>
     (\<forall>s\<in>S. \<forall>st\<in>stocks_of ls s. st \<in> set (ls (full_head s)) \<longleftrightarrow> used_up M s st (rc st))"

text \<open>The chunks handed out and not returned.\<close>

definition taken :: "mem \<Rightarrow> addr list \<Rightarrow> (addr \<Rightarrow> addr list) \<Rightarrow> addr set" where
  "taken M xs rc = (\<Union>st\<in>set xs. chunk_at M st ` {..<nat (index (stocks M st))} - set (rc st))"

text \<open>None of these looks at the list cells, the tree or the set of live blocks.\<close>

lemma links_irrelevant [simp]:
  "chunk_at (M\<lparr>links := L\<rparr>) = chunk_at M" "slot_ok (M\<lparr>links := L\<rparr>) = slot_ok M"
  "stock_ok (M\<lparr>links := L\<rparr>) = stock_ok M" "used_up (M\<lparr>links := L\<rparr>) = used_up M"
  "block_end (M\<lparr>links := L\<rparr>) = block_end M" "taken (M\<lparr>links := L\<rparr>) = taken M"
  by (intro ext, simp add: chunk_at_def slot_ok_def stock_ok_def used_up_def block_end_def taken_def)+

lemma tree_irrelevant [simp]:
  "chunk_at (M\<lparr>onrbt := T\<rparr>) = chunk_at M" "slot_ok (M\<lparr>onrbt := T\<rparr>) = slot_ok M"
  "stock_ok (M\<lparr>onrbt := T\<rparr>) = stock_ok M" "used_up (M\<lparr>onrbt := T\<rparr>) = used_up M"
  "block_end (M\<lparr>onrbt := T\<rparr>) = block_end M" "taken (M\<lparr>onrbt := T\<rparr>) = taken M"
  by (intro ext, simp add: chunk_at_def slot_ok_def stock_ok_def used_up_def block_end_def taken_def)+

lemma live_irrelevant [simp]:
  "chunk_at (M\<lparr>live := A\<rparr>) = chunk_at M" "slot_ok (M\<lparr>live := A\<rparr>) = slot_ok M"
  "stock_ok (M\<lparr>live := A\<rparr>) = stock_ok M" "used_up (M\<lparr>live := A\<rparr>) = used_up M"
  "block_end (M\<lparr>live := A\<rparr>) = block_end M" "taken (M\<lparr>live := A\<rparr>) = taken M"
  by (intro ext, simp add: chunk_at_def slot_ok_def stock_ok_def used_up_def block_end_def taken_def)+

lemma stock_compare_on: "cmp_on A stock_compare"
  by (auto simp: cmp_on_def stock_compare_def split: if_splits)

lemma stock_compare_0 [simp]: "stock_compare a b = 0 \<longleftrightarrow> a = b"
  by (auto simp: stock_compare_def)

section \<open>Where chunks lie\<close>

lemma base_parts:
  assumes "pool_base M S ls xs rc"
  shows base_rings: "rings (links M) (heads S) ls"
    and base_tree: "rb_wf stock_compare (onrbt M) xs"
    and base_set: "set xs = (\<Union>s\<in>S. stocks_of ls s)"
    and base_live: "set xs \<subseteq> live M"
  using assms unfolding pool_base_def by - (elim conjE, assumption)+

lemma base_bounds:
  assumes "pool_base M S ls xs rc"
  shows base_heads: "\<forall>s\<in>S. \<forall>t\<in>S. full_head s \<noteq> free_head t"
    and base_slot: "\<forall>s\<in>S. slot_ok M s"
    and base_stock: "\<forall>s\<in>S. \<forall>st\<in>stocks_of ls s. stock_ok M s st (rc st)"
    and base_end: "\<forall>a\<in>set xs. block_end M a < 2 ^ 64"
    and base_gap: "\<forall>a\<in>set xs. \<forall>b\<in>set xs. a < b \<longrightarrow> block_end M a \<le> b"
  using assms unfolding pool_base_def by - (elim conjE, assumption)+

lemmas base_slot' = base_slot [THEN bspec] and base_stock' = base_stock [THEN bspec, THEN bspec]
  and base_gap' = base_gap [THEN bspec, THEN bspec, THEN mp]

lemma base_member:
  assumes "pool_base M S ls xs rc" and "st \<in> set xs"
  obtains s where "s \<in> S" "st \<in> stocks_of ls s" "stock_slot (stocks M st) = s" "stock_ok M s st (rc st)" "slot_ok M s"
proof -
  from assms obtain s where "s \<in> S" "st \<in> stocks_of ls s" using base_set by blast
  with base_stock' [OF assms(1)] base_slot' [OF assms(1)] that show ?thesis by (auto simp: stock_ok_def)
qed

lemma chunk_range:
  assumes "stock_ok M s st rs" and "slot_ok M s" and "i < chunk_count (slots M s)"
  shows "start st \<le> chunk_at M st i" and "chunk_at M st i < block_end M st" and "st < start st"
proof -
  have "i * chunk_size (slots M s) < chunk_count (slots M s) * chunk_size (slots M s)"
    using assms(2,3) by (simp add: slot_ok_def)
  then show "chunk_at M st i < block_end M st"
    using assms(1,2) by (simp add: chunk_at_def block_end_def start_def stock_ok_def slot_ok_def)
qed (simp_all add: chunk_at_def start_def sizeof_mem_stock_def)

lemma chunk_inj:
  "stock_ok M s st rs \<Longrightarrow> slot_ok M s \<Longrightarrow> chunk_at M st i = chunk_at M st j \<longleftrightarrow> i = j"
  by (auto simp: chunk_at_def stock_ok_def slot_ok_def)

lemma chunk_owner:
  assumes B: "pool_base M S ls xs rc" and ab: "a \<in> set xs" "b \<in> set xs"
    and i: "i < nat (index (stocks M a))" and j: "j < chunk_count (slots M (stock_slot (stocks M b)))"
    and eq: "chunk_at M a i = chunk_at M b j"
  shows "a = b"
proof (rule ccontr)
  assume "a \<noteq> b"
  from base_member [OF B ab(1)] obtain s where s: "stock_ok M s a (rc a)" "slot_ok M s" by metis
  from base_member [OF B ab(2)] obtain t where t: "stock_ok M t b (rc b)" "slot_ok M t" "stock_slot (stocks M b) = t" by metis
  have "i < chunk_count (slots M s)" using i s(1) by (auto simp: stock_ok_def)
  note ra = chunk_range [OF s this] and rb = chunk_range [OF t(1,2) j [unfolded t(3)]]
  from \<open>a \<noteq> b\<close> base_gap' [OF B ab] base_gap' [OF B ab(2,1)] show False
    using ra rb eq by linarith
qed

lemma rc_owner:
  assumes B: "pool_base M S ls xs rc" and ab: "a \<in> set xs" "b \<in> set xs" "a \<noteq> b"
    and j: "j < chunk_count (slots M (stock_slot (stocks M b)))"
  shows "chunk_at M b j \<notin> set (rc a)"
proof
  assume "chunk_at M b j \<in> set (rc a)"
  moreover from base_member [OF B ab(1)] obtain s where "stock_ok M s a (rc a)" by metis
  ultimately obtain i where "i < nat (index (stocks M a))" "chunk_at M a i = chunk_at M b j"
    by (auto simp: stock_ok_def)
  with chunk_owner [OF B ab(1,2) _ j] ab(3) show False by blast
qed

lemma exhausted_eq:
  assumes "stock_ok M s st rs" and "slot_ok M s" and "st \<noteq> NULL"
  shows "stock_exhausted M st = Some (used_up M s st rs)"
  using assms chain_NULL by (auto simp: stock_exhausted_def mem_simps stock_ok_def slot_ok_def used_up_def)

section \<open>Changes to a part of the memory\<close>

text \<open>Rewriting one stock, and the \<open>next\<close> words of chunks that are on no other chain.\<close>

lemma base_stock_upd:
  assumes B: "pool_base M S ls xs rc" and s: "s \<in> S" "st \<in> stocks_of ls s"
    and M': "M' = M\<lparr>stocks := (stocks M)(st := v), chunk_next := nx\<rparr>" and v: "stock_slot v = s"
    and ok: "stock_ok M' s st rs"
    and nx: "\<And>a c. a \<in> set xs \<Longrightarrow> a \<noteq> st \<Longrightarrow> c \<in> set (rc a) \<Longrightarrow> nx c = chunk_next M c"
  shows "pool_base M' S ls xs (rc(st := rs))"
proof -
  have slot: "stock_slot (stocks M' a) = stock_slot (stocks M a)" for a
    using base_stock' [OF B s] v M' by (simp add: stock_ok_def)
  have sl: "slots M' = slots M" using M' by simp
  have "stock_ok M' t a ((rc(st := rs)) a)" if t: "t \<in> S" "a \<in> stocks_of ls t" for t a
  proof (cases "a = st")
    case True
    moreover have "t = s" using base_stock' [OF B t] base_stock' [OF B s] True by (auto simp: stock_ok_def)
    ultimately show ?thesis using ok by simp
  next
    case False
    have "a \<in> set xs" using base_set [OF B] t by blast
    with nx False have "\<forall>c\<in>set (rc a). chunk_next M' c = chunk_next M c" using M' by simp
    with base_stock' [OF B t] False show ?thesis
      using M' by (auto simp: stock_ok_def chunk_at_def elim: chain_frame)
  qed
  moreover have "block_end M' a = block_end M a" for a by (simp add: block_end_def slot sl)
  moreover have "slot_ok M' t \<longleftrightarrow> slot_ok M t" for t by (simp add: slot_ok_def sl)
  ultimately show ?thesis using B unfolding pool_base_def M' by (elim conjE, intro conjI) simp_all
qed

text \<open>Moving a stock between the two lists of its slot.\<close>

lemma base_move:
  assumes B: "pool_base M S ls xs rc" and s: "s \<in> S" and ab: "{a, b} = {full_head s, free_head s}" "a \<noteq> b"
    and st: "st \<in> set (ls a)"
  shows "\<exists>L1 L2. list_del st (links M) = Some L1 \<and> list_add st b L1 = Some L2 \<and>
    pool_base (M\<lparr>links := L2\<rparr>) S (ls(a := remove1 st (ls a), b := st # ls b)) xs rc"
proof -
  have H: "a \<in> heads S" "b \<in> heads S" using ab s by (auto simp: heads_def doubleton_eq_iff)
  from rings_move [OF base_rings [OF B] H ab(2) st] obtain L1 L2 where
    L: "list_del st (links M) = Some L1" "list_add st b L1 = Some L2"
      "rings L2 (heads S) (ls(a := remove1 st (ls a), b := st # ls b))" by blast
  have dis: "distinct (ls a)" using ringsD [OF base_rings [OF B] H(1)] by (auto simp: ring_def)
  let ?ls = "ls(a := remove1 st (ls a), b := st # ls b)"
  have same: "stocks_of ?ls t = stocks_of ls t" if "t \<in> S" for t
  proof (cases "t = s")
    case True
    with ab dis st show ?thesis by (auto simp: stocks_of_def doubleton_eq_iff)
  next
    case False
    then have "full_head t \<noteq> full_head s" "free_head t \<noteq> free_head s"
      by (simp_all add: full_head_def free_head_def)
    then have "{full_head t, free_head t} \<inter> {a, b} = {}" using ab(1) base_heads [OF B] s that by auto
    then show ?thesis by (auto simp: stocks_of_def)
  qed
  have "pool_base (M\<lparr>links := L2\<rparr>) S ?ls xs rc"
    using B L(3) same unfolding pool_base_def by (elim conjE, intro conjI) simp_all
  with L show ?thesis by blast
qed

section \<open>A new stock\<close>

text \<open>
  What \<open>posix_memalign\<close> promises of the block it returns for slot \<open>s\<close>: an address range
  that does not wrap and overlaps no stock and no list head in use.
\<close>

definition fresh_block :: "mem \<Rightarrow> addr set \<Rightarrow> addr list \<Rightarrow> addr \<Rightarrow> addr \<Rightarrow> bool" where
  "fresh_block M S xs s b \<longleftrightarrow> b \<noteq> NULL \<and> b \<notin> heads S \<and> b \<notin> set xs \<and>
     b + stock_size (slots M s) < 2 ^ 64 \<and>
     (\<forall>a\<in>set xs. (a < b \<longrightarrow> block_end M a \<le> b) \<and> (b < a \<longrightarrow> b + stock_size (slots M s) \<le> a))"

lemma not_in_cells:
  assumes "pool_base M S ls xs rc" and "b \<notin> heads S" and "b \<notin> set xs" and "a \<in> heads S"
  shows "b \<notin> set (a # ls a)"
proof -
  from assms(4) obtain s where "s \<in> S" "a = full_head s \<or> a = free_head s" by (auto simp: heads_def)
  then have "set (ls a) \<subseteq> set xs" using base_set [OF assms(1)] by (auto simp: stocks_of_def)
  with assms(2-4) show ?thesis by auto
qed

lemma free_head_inj [simp]: "free_head a = free_head b \<longleftrightarrow> a = b" "full_head a = full_head b \<longleftrightarrow> a = b"
  by (simp_all add: free_head_def full_head_def)

lemma stock_alloc_ok:
  assumes P: "pool_ok M S ls xs rc" and s: "s \<in> S" and e: "ls (free_head s) = []"
    and f: "fresh_block M S xs s b"
  shows "\<exists>M'. stock_alloc (Some b) s M = Some (b, M') \<and>
    pool_ok M' S (ls(free_head s := [b])) (cmp_insert stock_compare b xs) (rc(b := [])) \<and>
    taken M' (cmp_insert stock_compare b xs) (rc(b := [])) = taken M xs rc \<and> slots M' = slots M"
proof -
  have B: "pool_base M S ls xs rc" using P by (simp add: pool_ok_def)
  have b: "b \<noteq> NULL" "b \<notin> heads S" "b \<notin> set xs" "b + stock_size (slots M s) < 2 ^ 64"
    using f by (auto simp: fresh_block_def)
  have cells: "\<forall>a\<in>heads S. b \<notin> set (a # ls a)" using not_in_cells [OF B b(2,3)] by blast
  have H: "free_head s \<in> heads S" using s by (simp add: heads_def)
  have emp: "list_empty (free_head s) (links M) = Some True"
    using list_empty_ok [OF ringsD [OF base_rings [OF B] H]] e by simp
  from INIT_LIST_HEAD_ok [OF b(1), of "links M"] obtain L1 where
    L1: "INIT_LIST_HEAD b (links M) = Some L1" "only (links M) L1 {b}" by blast
  have "rings L1 (heads S) ls" by (rule rings_only [OF base_rings [OF B] L1(2)]) (use cells in auto)
  from rings_push [OF this H b(1) cells] e obtain L2 where
    L2: "list_add b (free_head s) L1 = Some L2" "rings L2 (heads S) (ls(free_head s := [b]))" by auto
  from rb_insert_new [OF base_tree [OF B] stock_compare_on b(1,3)] b(3) obtain T where
    T: "rb_insert stock_compare b (onrbt M) = Some (b, T)" "rb_wf stock_compare T (cmp_insert stock_compare b xs)"
    by auto
  let ?new = "\<lparr>stock_slot = s, recycle = NULL, recycnt = 0, index = 0\<rparr>"
  define M' where "M' = M\<lparr>live := insert b (live M), stocks := (stocks M)(b := ?new), links := L2, onrbt := T\<rparr>"
  let ?ls = "ls(free_head s := [b])" and ?xs = "cmp_insert stock_compare b xs" and ?rc = "rc(b := [])"
  have run: "stock_alloc (Some b) s M = Some (b, M')"
    using emp L1(1) L2(1) T(1) b(1) by (simp add: stock_alloc_def mem_simps M'_def)
  have M': "slots M' = slots M" "links M' = L2" "onrbt M' = T" "live M' = insert b (live M)"
    "chunk_next M' = chunk_next M" "stocks M' = (stocks M)(b := ?new)" by (simp_all add: M'_def)
  have of_s: "stocks_of ?ls t = (if t = s then insert b (stocks_of ls s) else stocks_of ls t)" if "t \<in> S" for t
    using base_heads [OF B] e s that by (auto simp: stocks_of_def)
  have nb: "t \<in> S \<Longrightarrow> b \<notin> stocks_of ls t" for t using base_set [OF B] b(3) by blast
  have sok: "slot_ok M' = slot_ok M" by (intro ext) (simp add: slot_ok_def M')
  have stk: "stock_ok M' t a (?rc a)" if "t \<in> S" "a \<in> stocks_of ?ls t" for t a
  proof (cases "a = b")
    case True
    with that nb of_s have "t = s" by (auto split: if_splits)
    with True base_slot' [OF B s] show ?thesis by (simp add: stock_ok_def M')
  next
    case False
    with that of_s have "stock_ok M t a (rc a)" using base_stock' [OF B] by (auto split: if_splits)
    with False show ?thesis by (auto simp: stock_ok_def chunk_at_def M')
  qed
  have be: "block_end M' a = (if a = b then b + stock_size (slots M s) else block_end M a)" for a
    by (simp add: block_end_def M')
  have gap: "\<forall>a\<in>set ?xs. \<forall>c\<in>set ?xs. a < c \<longrightarrow> block_end M' a \<le> c"
    using base_gap [OF B] f by (auto simp: be fresh_block_def)
  have end_ok: "\<forall>a\<in>set ?xs. block_end M' a < 2 ^ 64" using base_end [OF B] b(4) by (auto simp: be)
  have "set ?xs = (\<Union>t\<in>S. stocks_of ?ls t)" using base_set [OF B] of_s s by auto
  then have base: "pool_base M' S ?ls ?xs ?rc"
    unfolding pool_base_def using L2(2) base_heads [OF B] T(2) base_slot [OF B] sok stk end_ok gap base_live [OF B]
    by (intro conjI) (auto simp: M')
  have "st \<in> set (?ls (full_head t)) \<longleftrightarrow> used_up M' t st (?rc st)" if t: "t \<in> S" "st \<in> stocks_of ?ls t" for t st
  proof (cases "st = b")
    case True
    have "t = s" using t True nb of_s by (auto split: if_splits)
    then show ?thesis using True base_slot' [OF B s] base_heads [OF B] s nb [OF s]
      by (auto simp: used_up_def slot_ok_def stocks_of_def M')
  next
    case False
    then have "st \<in> stocks_of ls t" using t of_s by (auto split: if_splits)
    then show ?thesis using P t(1) False base_heads [OF B] s by (auto simp: pool_ok_def used_up_def M')
  qed
  then have "pool_ok M' S ?ls ?xs ?rc" using base by (simp add: pool_ok_def)
  moreover have "taken M' ?xs ?rc = taken M xs rc" 
  proof -
    have "chunk_at M' a ` {..<nat (index (stocks M' a))} - set (?rc a) =
        (if a = b then {} else chunk_at M a ` {..<nat (index (stocks M a))} - set (rc a))" for a
      by (simp add: M' chunk_at_def)
    then show ?thesis unfolding taken_def using b(3) by auto
  qed
  ultimately show ?thesis using run M'(1) by blast
qed

end
