(* ===== verification/Mem_Pool_Ops.thy ===== *)
theory Mem_Pool_Ops
  imports Mem_Pool_Inv
begin

text \<open>
  Allocation and release on the invariant of \<open>Mem_Pool_Inv\<close>: a chunk handed out was not
  out before and lies inside a stock; a released one can be handed out again.
\<close>

lemma in_stocks: "st \<in> set (ls (free_head s)) \<Longrightarrow> st \<in> stocks_of ls s"
  "st \<in> set (ls (full_head s)) \<Longrightarrow> st \<in> stocks_of ls s"
  by (simp_all add: stocks_of_def)

lemma stock_not_NULL: "pool_base M S ls xs rc \<Longrightarrow> s \<in> S \<Longrightarrow> st \<in> stocks_of ls s \<Longrightarrow> st \<in> set xs \<and> st \<noteq> NULL"
  using base_set [of M S ls xs rc] base_tree [of M S ls xs rc] rb.wf_list by blast

text \<open>Rewriting one stock changes only its own part of the chunks handed out.\<close>

lemma taken_stock_upd:
  assumes "st \<in> set xs" and "M' = M\<lparr>stocks := (stocks M)(st := v), chunk_next := nx\<rparr>"
    and "stock_slot v = stock_slot (stocks M st)"
  shows "taken M' xs (rc(st := rs)) = (taken M xs rc - (chunk_at M st ` {..<nat (index (stocks M st))} - set (rc st))) \<union>
      (\<Union>a\<in>set xs - {st}. chunk_at M a ` {..<nat (index (stocks M a))} - set (rc a)) \<union>
      (chunk_at M st ` {..<nat (index v)} - set rs)"
    and "taken M xs rc = (\<Union>a\<in>set xs - {st}. chunk_at M a ` {..<nat (index (stocks M a))} - set (rc a)) \<union>
      (chunk_at M st ` {..<nat (index (stocks M st))} - set (rc st))"
proof -
  have "chunk_at M' = chunk_at M" using assms(2,3) by (auto simp: chunk_at_def fun_eq_iff)
  then have part: "chunk_at M' a ` {..<nat (index (stocks M' a))} - set ((rc(st := rs)) a) =
      (if a = st then chunk_at M st ` {..<nat (index v)} - set rs
       else chunk_at M a ` {..<nat (index (stocks M a))} - set (rc a))" for a
    using assms(2) by simp
  show "taken M xs rc = (\<Union>a\<in>set xs - {st}. chunk_at M a ` {..<nat (index (stocks M a))} - set (rc a)) \<union>
      (chunk_at M st ` {..<nat (index (stocks M st))} - set (rc st))"
    unfolding taken_def using assms(1) by blast
  show "taken M' xs (rc(st := rs)) = (taken M xs rc - (chunk_at M st ` {..<nat (index (stocks M st))} - set (rc st))) \<union>
      (\<Union>a\<in>set xs - {st}. chunk_at M a ` {..<nat (index (stocks M a))} - set (rc a)) \<union>
      (chunk_at M st ` {..<nat (index v)} - set rs)"
    unfolding taken_def part using assms(1) by (auto split: if_splits)
qed

text \<open>A chunk of one stock is not counted for another.\<close>

lemma other_parts:
  assumes "pool_base M S ls xs rc" and "st \<in> set xs" and "j < chunk_count (slots M (stock_slot (stocks M st)))"
  shows "chunk_at M st j \<notin> (\<Union>a\<in>set xs - {st}. chunk_at M a ` {..<nat (index (stocks M a))} - set (rc a))"
  using chunk_owner [OF assms(1) _ assms(2) _ assms(3)] by fastforce

section \<open>Allocation\<close>

definition pick_chunk :: "addr \<Rightarrow> addr \<Rightarrow> mem \<Rightarrow> (addr \<times> mem) option" where
  "pick_chunk slot stock M = do {
     s \<leftarrow> load (stocks M) stock;
     sl \<leftarrow> load (slots M) slot;
     if recycle s \<noteq> NULL then do {
       c \<leftarrow> load (chunk_next M) (recycle s);
       st \<leftarrow> store (stocks M) stock (\<lambda>s. s\<lparr>recycle := c, recycnt := recycnt s - 1\<rparr>);
       Some (recycle s, M\<lparr>stocks := st\<rparr>)
     } else if index s < int (chunk_count sl) then do {
       st \<leftarrow> store (stocks M) stock (\<lambda>s. s\<lparr>index := index s + 1\<rparr>);
       Some (start stock + nat (index s) * chunk_size sl, M\<lparr>stocks := st\<rparr>)
     } else None
   }"

lemma upd_self [simp]: "M\<lparr>chunk_next := chunk_next M\<rparr> = (M :: mem)"
  by (cases M) simp

lemma pick_chunk_ok:
  assumes P: "pool_ok M S ls xs rc" and s: "s \<in> S" and st: "st \<in> set (ls (free_head s))"
  obtains p v rs j where "pick_chunk s st M = Some (p, M\<lparr>stocks := (stocks M)(st := v)\<rparr>)"
    and "pool_base (M\<lparr>stocks := (stocks M)(st := v)\<rparr>) S ls xs (rc(st := rs))"
    and "p = chunk_at M st j" and "j < chunk_count (slots M s)"
    and "p \<notin> taken M xs rc"
    and "taken (M\<lparr>stocks := (stocks M)(st := v)\<rparr>) xs (rc(st := rs)) = insert p (taken M xs rc)"
proof -
  have B: "pool_base M S ls xs rc" using P by (simp add: pool_ok_def)
  have mem: "st \<in> stocks_of ls s" "st \<in> set xs" "st \<noteq> NULL"
    using st in_stocks stock_not_NULL [OF B s] by auto
  have ok: "stock_ok M s st (rc st)" and sl: "slot_ok M s" using base_stock' [OF B s mem(1)] base_slot' [OF B s] by auto
  have "st \<notin> set (ls (full_head s))"
  proof -
    have "full_head s \<noteq> free_head s" "full_head s \<in> heads S" "free_head s \<in> heads S"
      using base_heads [OF B] s by (auto simp: heads_def)
    with rings_disj [OF base_rings [OF B]] st show ?thesis by fastforce
  qed
  then have free: "\<not> used_up M s st (rc st)" using P s mem(1) by (auto simp: pool_ok_def)
  have slot: "stock_slot (stocks M st) = s" using ok by (simp add: stock_ok_def)
  note result = that
  have finish: "thesis" if v: "pick_chunk s st M = Some (chunk_at M st j, M\<lparr>stocks := (stocks M)(st := v)\<rparr>)"
      "stock_slot v = s" "stock_ok (M\<lparr>stocks := (stocks M)(st := v)\<rparr>) s st rs" "j < chunk_count (slots M s)"
      "chunk_at M st j \<notin> chunk_at M st ` {..<nat (index (stocks M st))} - set (rc st)"
      "chunk_at M st ` {..<nat (index v)} - set rs =
        insert (chunk_at M st j) (chunk_at M st ` {..<nat (index (stocks M st))} - set (rc st))" for v rs j
  proof -
    let ?M = "M\<lparr>stocks := (stocks M)(st := v)\<rparr>"
    have M: "?M = M\<lparr>stocks := (stocks M)(st := v), chunk_next := chunk_next M\<rparr>" by simp
    have "pool_base ?M S ls xs (rc(st := rs))"
      by (rule base_stock_upd [OF B s mem(1) M v(2,3)]) simp
    moreover have sv: "stock_slot v = stock_slot (stocks M st)" using v(2) slot by simp
    note t = taken_stock_upd(1) [OF mem(2) M sv, where rc = rc and rs = rs] taken_stock_upd(2) [OF mem(2) M sv, where rc = rc]
      and o = other_parts [OF B mem(2), of j]
    have "chunk_at M st j \<notin> taken M xs rc" using t(2) o v slot by auto
    moreover have "taken ?M xs (rc(st := rs)) = insert (chunk_at M st j) (taken M xs rc)"
      using t v slot by auto
    ultimately show thesis using result [OF v(1)] v(4) by blast
  qed
  show thesis
  proof (cases "rc st")
    case (Cons c cs)
    with ok obtain j where c: "recycle (stocks M st) = c" "c \<noteq> NULL" "c = chunk_at M st j"
      "j < nat (index (stocks M st))" by (auto simp: stock_ok_def)
    let ?v = "(stocks M st)\<lparr>recycle := chunk_next M c, recycnt := recycnt (stocks M st) - 1\<rparr>"
    show thesis
    proof (rule finish [of j ?v cs])
      show "pick_chunk s st M = Some (chunk_at M st j, M\<lparr>stocks := (stocks M)(st := ?v)\<rparr>)"
        using c mem sl by (simp add: pick_chunk_def mem_simps slot_ok_def)
      show "stock_ok (M\<lparr>stocks := (stocks M)(st := ?v)\<rparr>) s st cs"
        using ok Cons by (auto simp: stock_ok_def chunk_at_def)
      show "j < chunk_count (slots M s)" using c(4) ok by (auto simp: stock_ok_def)
    qed (use ok Cons c slot in \<open>auto simp: stock_ok_def\<close>)
  next
    case Nil
    with free ok have i: "index (stocks M st) < int (chunk_count (slots M s))" "recycle (stocks M st) = NULL"
      "0 \<le> index (stocks M st)" by (auto simp: used_up_def stock_ok_def)
    let ?j = "nat (index (stocks M st))"
    let ?v = "(stocks M st)\<lparr>index := index (stocks M st) + 1\<rparr>"
    have nat: "nat (index (stocks M st) + 1) = Suc ?j" using i by simp
    show thesis
    proof (rule finish [of ?j ?v "[]"])
      show "pick_chunk s st M = Some (chunk_at M st ?j, M\<lparr>stocks := (stocks M)(st := ?v)\<rparr>)"
        using i mem sl slot by (simp add: pick_chunk_def mem_simps slot_ok_def chunk_at_def)
      show "stock_ok (M\<lparr>stocks := (stocks M)(st := ?v)\<rparr>) s st []"
        using ok Nil i by (auto simp: stock_ok_def)
      show "?j < chunk_count (slots M s)" using i by linarith
      show "chunk_at M st ?j \<notin> chunk_at M st ` {..<nat (index (stocks M st))} - set (rc st)"
        using chunk_inj [OF ok sl] by auto
      show "chunk_at M st ` {..<nat (index ?v)} - set [] =
          insert (chunk_at M st ?j) (chunk_at M st ` {..<nat (index (stocks M st))} - set (rc st))"
        using Nil by (simp add: nat lessThan_Suc)
    qed (simp add: slot)
  qed
qed

lemma stock_unique:
  "pool_base M S ls xs rc \<Longrightarrow> s \<in> S \<Longrightarrow> t \<in> S \<Longrightarrow> st \<in> stocks_of ls s \<Longrightarrow> st \<in> stocks_of ls t \<Longrightarrow> s = t"
  using base_stock' [of M S ls xs rc s st] base_stock' [of M S ls xs rc t st] by (simp add: stock_ok_def)

lemma one_list:
  assumes "pool_base M S ls xs rc" and "s \<in> S"
  shows "set (ls (full_head s)) \<inter> set (ls (free_head s)) = {}"
proof -
  have "full_head s \<noteq> free_head s" "full_head s \<in> heads S" "free_head s \<in> heads S"
    using base_heads [OF assms(1)] assms(2) by (auto simp: heads_def)
  with rings_disj [OF base_rings [OF assms(1)]] show ?thesis by fastforce
qed

text \<open>Only the rewritten stock can be on the wrong list.\<close>

lemma ok_after_upd:
  assumes P: "pool_ok M S ls xs rc" and B': "pool_base M' S ls xs (rc(st := rs))"
    and s: "s \<in> S" "st \<in> stocks_of ls s"
    and M': "slots M' = slots M" "\<And>a. a \<noteq> st \<Longrightarrow> stocks M' a = stocks M a"
    and st: "st \<in> set (ls (full_head s)) \<longleftrightarrow> used_up M' s st rs"
  shows "pool_ok M' S ls xs (rc(st := rs))"
  unfolding pool_ok_def
proof (intro conjI ballI, rule B')
  fix t a assume t: "t \<in> S" "a \<in> stocks_of ls t"
  show "a \<in> set (ls (full_head t)) \<longleftrightarrow> used_up M' t a ((rc(st := rs)) a)"
  proof (cases "a = st")
    case True
    with stock_unique [OF B' s(1) t(1) s(2)] t st show ?thesis by simp
  next
    case False
    with P t M' show ?thesis by (auto simp: pool_ok_def used_up_def)
  qed
qed

definition serve :: "addr \<Rightarrow> mem \<Rightarrow> (addr \<times> mem) option" where
  "serve slot M = do {
     stock \<leftarrow> list_first_entry (free_head slot) (links M);
     (chunk, M) \<leftarrow> pick_chunk slot stock M;
     x \<leftarrow> stock_exhausted M stock;
     if x then do {
       h \<leftarrow> list_del stock (links M);
       h \<leftarrow> list_add stock (full_head slot) h;
       Some (chunk, M\<lparr>links := h\<rparr>)
     } else Some (chunk, M)
   }"

lemma chunk_alloc_unfold:
  "chunk_alloc blk slot M = do {
     e \<leftarrow> list_empty (free_head slot) (links M);
     (ok, M) \<leftarrow> (if e then do { (stock, M) \<leftarrow> stock_alloc blk slot M; Some (stock \<noteq> NULL, M) }
                 else Some (True, M));
     if \<not> ok then Some (NULL, M) else serve slot M
   }"
  unfolding chunk_alloc_def serve_def pick_chunk_def
  by (simp add: Let_def split_def if_distrib [of "\<lambda>m. Option.bind m f" for f] cong: if_cong)

lemma full_after_move:
  assumes P: "pool_ok M S ls xs rc" and B': "pool_base M' S ls xs (rc(st := rs))"
    and s: "s \<in> S" "st \<in> set (ls (free_head s))"
    and M': "slots M' = slots M" "\<And>a. a \<noteq> st \<Longrightarrow> stocks M' a = stocks M a" and up: "used_up M' s st rs"
  shows "\<exists>L1 L2. list_del st (links M') = Some L1 \<and> list_add st (full_head s) L1 = Some L2 \<and>
    pool_ok (M'\<lparr>links := L2\<rparr>) S
      (ls(free_head s := remove1 st (ls (free_head s)), full_head s := st # ls (full_head s))) xs (rc(st := rs))"
proof -
  have ne: "free_head s \<noteq> full_head s" using base_heads [OF B'] s by metis
  let ?ls = "ls(free_head s := remove1 st (ls (free_head s)), full_head s := st # ls (full_head s))"
  from base_move [OF B' s(1) _ ne s(2)] obtain L1 L2 where
    L: "list_del st (links M') = Some L1" "list_add st (full_head s) L1 = Some L2"
      "pool_base (M'\<lparr>links := L2\<rparr>) S ?ls xs (rc(st := rs))" by auto
  have full: "?ls (full_head t) = (if t = s then st # ls (full_head s) else ls (full_head t))" if "t \<in> S" for t
    using base_heads [OF B'] s(1) that by auto
  have sub: "stocks_of ?ls t \<subseteq> stocks_of ls t" if "t \<in> S" for t
  proof -
    have "free_head t \<noteq> full_head s" "full_head t \<noteq> free_head s" using base_heads [OF B'] s(1) that by metis+
    then show ?thesis using s(2) set_remove1_subset [of st "ls (free_head s)"]
      by (auto simp: stocks_of_def split: if_splits)
  qed
  have "a \<in> set (?ls (full_head t)) \<longleftrightarrow> used_up M' t a ((rc(st := rs)) a)" if t: "t \<in> S" "a \<in> stocks_of ?ls t" for t a
  proof -
    have a: "a \<in> stocks_of ls t" using sub t by blast
    show ?thesis
    proof (cases "a = st")
      case True
      have "s = t" using stock_unique [OF B' s(1) t(1)] in_stocks(1) [where ls = ls, OF s(2)] a True by blast
      with True up show ?thesis by simp
    next
      case False
      with P t a M' full [OF t(1)] show ?thesis by (auto simp: pool_ok_def used_up_def)
    qed
  qed
  with L show ?thesis by (auto simp: pool_ok_def)
qed

lemma serve_ok:
  assumes P: "pool_ok M S ls xs rc" and s: "s \<in> S" and st: "ls (free_head s) = st # ys"
  shows "\<exists>j M' ls' rc'. serve s M = Some (chunk_at M st j, M') \<and> j < chunk_count (slots M s) \<and>
    pool_ok M' S ls' xs rc' \<and> chunk_at M st j \<notin> taken M xs rc \<and>
    taken M' xs rc' = insert (chunk_at M st j) (taken M xs rc)"
proof -
  have B: "pool_base M S ls xs rc" using P by (simp add: pool_ok_def)
  have H: "free_head s \<in> heads S" using s by (simp add: heads_def)
  have first: "list_first_entry (free_head s) (links M) = Some st"
    using list_first_entry_ok ringsD [OF base_rings [OF B] H] st by metis
  have mem: "st \<in> set (ls (free_head s))" using st by simp
  have so: "st \<in> stocks_of ls s" using mem by (rule in_stocks)
  have nn: "st \<noteq> NULL" using stock_not_NULL [OF B s so] by simp
  from pick_chunk_ok [OF P s mem] obtain v rs j where
    v: "pick_chunk s st M = Some (chunk_at M st j, M\<lparr>stocks := (stocks M)(st := v)\<rparr>)"
      "pool_base (M\<lparr>stocks := (stocks M)(st := v)\<rparr>) S ls xs (rc(st := rs))"
      "j < chunk_count (slots M s)" "chunk_at M st j \<notin> taken M xs rc"
      "taken (M\<lparr>stocks := (stocks M)(st := v)\<rparr>) xs (rc(st := rs)) = insert (chunk_at M st j) (taken M xs rc)"
    by metis
  let ?M = "M\<lparr>stocks := (stocks M)(st := v)\<rparr>"
  have M: "slots ?M = slots M" "\<And>a. a \<noteq> st \<Longrightarrow> stocks ?M a = stocks M a" by simp_all
  have rs: "(rc(st := rs)) st = rs" by simp
  have ex: "stock_exhausted ?M st = Some (used_up ?M s st rs)"
    using exhausted_eq [OF base_stock' [OF v(2) s so] base_slot' [OF v(2) s] nn] by simp
  show ?thesis
  proof (cases "used_up ?M s st rs")
    case True
    from full_after_move [OF P v(2) s mem M this] obtain L1 L2 where
      L: "list_del st (links ?M) = Some L1" "list_add st (full_head s) L1 = Some L2"
        "pool_ok (?M\<lparr>links := L2\<rparr>) S
          (ls(free_head s := remove1 st (ls (free_head s)), full_head s := st # ls (full_head s))) xs (rc(st := rs))"
      by blast
    have "serve s M = Some (chunk_at M st j, ?M\<lparr>links := L2\<rparr>)"
      using first v(1) ex True L(1,2) by (simp add: serve_def)
    moreover have "taken (?M\<lparr>links := L2\<rparr>) xs (rc(st := rs)) = insert (chunk_at M st j) (taken M xs rc)"
      using v(5) by (simp only: links_irrelevant)
    ultimately show ?thesis using L(3) v(3,4) by blast
  next
    case False
    have "st \<in> set (ls (full_head s)) \<longleftrightarrow> used_up ?M s st rs" using False one_list [OF B s] mem by blast
    from ok_after_upd [OF P v(2) s so M this] have "pool_ok ?M S ls xs (rc(st := rs))" .
    moreover have "serve s M = Some (chunk_at M st j, ?M)"
      using first v(1) ex False by (simp add: serve_def)
    ultimately show ?thesis using v by blast
  qed
qed

lemma chunk_alloc_ok:
  assumes P: "pool_ok M S ls xs rc" and s: "s \<in> S"
    and blk: "ls (free_head s) = [] \<Longrightarrow> blk = Some b \<and> fresh_block M S xs s b"
  shows "\<exists>p M' ls' xs' rc'. chunk_alloc blk s M = Some (p, M') \<and> pool_ok M' S ls' xs' rc' \<and>
    p \<notin> taken M xs rc \<and> taken M' xs' rc' = insert p (taken M xs rc) \<and>
    (\<exists>st\<in>set xs'. \<exists>j<chunk_count (slots M s). p = start st + j * chunk_size (slots M s))"
proof -
  have B: "pool_base M S ls xs rc" using P by (simp add: pool_ok_def)
  have H: "free_head s \<in> heads S" using s by (simp add: heads_def)
  have emp: "list_empty (free_head s) (links M) = Some (ls (free_head s) = [])"
    by (rule list_empty_ok [OF ringsD [OF base_rings [OF B] H]])
  have slot: "chunk_at N st j = start st + j * chunk_size (slots N s)"
    if "pool_ok N S us zs qs" "us (free_head s) = st # ys" for N us zs qs st ys j
    using that base_stock' [of N S us zs qs s st] s
    by (auto simp: pool_ok_def chunk_at_def stock_ok_def stocks_of_def)
  have inx: "st \<in> set zs" if "pool_ok N S us zs qs" "us (free_head s) = st # ys" for N us zs qs st ys
  proof -
    have "st \<in> stocks_of us s" using that(2) by (simp add: stocks_of_def)
    moreover have "set zs = (\<Union>s\<in>S. stocks_of us s)" using that(1) base_set by (auto simp: pool_ok_def)
    ultimately show ?thesis using s by blast
  qed
  show ?thesis
  proof (cases "ls (free_head s)")
    case (Cons st ys)
    from serve_ok [where ls = ls, OF P s Cons] show ?thesis
      using emp Cons slot [OF P Cons] inx [OF P Cons]
      by (auto simp: chunk_alloc_unfold) blast
  next
    case Nil
    with blk have b: "blk = Some b" "fresh_block M S xs s b" by auto
    from stock_alloc_ok [OF P s Nil b(2)] obtain M1 where
      M1: "stock_alloc (Some b) s M = Some (b, M1)"
        "pool_ok M1 S (ls(free_head s := [b])) (cmp_insert stock_compare b xs) (rc(b := []))"
        "taken M1 (cmp_insert stock_compare b xs) (rc(b := [])) = taken M xs rc" "slots M1 = slots M" by blast
    have bn: "b \<noteq> NULL" using b(2) by (simp add: fresh_block_def)
    have c: "(ls(free_head s := [b])) (free_head s) = b # []" by simp
    from serve_ok [where ls = "ls(free_head s := [b])", OF M1(2) s c] obtain j M' ls' rc' where
      r: "serve s M1 = Some (chunk_at M1 b j, M')" "j < chunk_count (slots M1 s)"
        "pool_ok M' S ls' (cmp_insert stock_compare b xs) rc'" "chunk_at M1 b j \<notin> taken M xs rc"
        "taken M' (cmp_insert stock_compare b xs) rc' = insert (chunk_at M1 b j) (taken M xs rc)"
      unfolding M1(3) by blast
    have "chunk_alloc blk s M = Some (chunk_at M1 b j, M')"
      using emp Nil M1(1) bn b(1) r(1) by (simp add: chunk_alloc_unfold)
    moreover have "\<exists>st\<in>set (cmp_insert stock_compare b xs). \<exists>i<chunk_count (slots M s).
        chunk_at M1 b j = start st + i * chunk_size (slots M s)"
      using slot [OF M1(2) c] r(2) M1(4) by auto
    ultimately show ?thesis using r(3-5) by blast
  qed
qed


text \<open>Release: the owning stock is found by address, and a stock with no chunk out may go.\<close>

section \<open>Finding the stock of a chunk\<close>

lemma search_finds_owner:
  assumes B: "pool_base M S ls xs rc" and st: "st \<in> set xs" and i: "i < nat (index (stocks M st))"
  shows "rb_search (stock_search M (chunk_at M st i)) (onrbt M) = Some st"
proof -
  let ?p = "chunk_at M st i" and ?f = "stock_search M (chunk_at M st i)"
  have f: "?f n = (if block_end M n \<le> ?p then 1 else if ?p < start n then -1 else 0)" if "n \<in> set xs" for n
  proof -
    have "block_end M n < 2 ^ 64" using base_end [OF B] that by blast
    then have "size_t (n + stock_size (slots M (stock_slot (stocks M n)))) = block_end M n"
      by (simp add: size_t_def block_end_def)
    then show ?thesis by (simp add: stock_search_def Let_def)
  qed
  from base_member [OF B st] obtain s where s: "stock_ok M s st (rc st)" "slot_ok M s" by metis
  have "i < chunk_count (slots M s)" using i s(1) by (auto simp: stock_ok_def)
  note r = chunk_range [OF s this]
  have srt: "sorted_wrt (<) xs"
    using rb.wf_list [OF base_tree [OF B]]
    by (auto simp: stock_compare_def elim!: sorted_wrt_mono_rel [rotated] split: if_splits)
  have pts: "points_to ?f xs"
  proof (rule sorted_wrt_mono_rel [OF _ srt])
    fix a b assume ab: "a \<in> set xs" "b \<in> set xs" "a < b"
    then have "block_end M a \<le> b" using base_gap' [OF B] by blast
    moreover have "b < start b" by (simp add: start_def sizeof_mem_stock_def)
    moreover have "b \<le> block_end M b" by (simp add: block_end_def)
    ultimately show "?f a \<le> 0 \<longrightarrow> ?f b < 0" using f [OF ab(1)] f [OF ab(2)] by (auto split: if_splits)
  qed
  from st obtain us vs where xs: "xs = us @ st # vs" by (meson split_list)
  have "?f st = 0" using f [OF st] r by simp
  then have "find (\<lambda>x. ?f x = 0) xs = Some st" using points_to_find(3) pts xs by blast
  with rb_search_ok [OF base_tree [OF B] pts] show ?thesis by (simp add: found_def)
qed

section \<open>Putting the stock on the free list\<close>

text \<open>All stocks but \<open>st\<close> are on the right list.\<close>

definition ok_but :: "addr \<Rightarrow> mem \<Rightarrow> addr set \<Rightarrow> (addr \<Rightarrow> addr list) \<Rightarrow> (addr \<Rightarrow> addr list) \<Rightarrow> bool" where
  "ok_but st M S ls rc \<longleftrightarrow> (\<forall>s\<in>S. \<forall>a\<in>stocks_of ls s. a \<noteq> st \<longrightarrow>
     (a \<in> set (ls (full_head s)) \<longleftrightarrow> used_up M s a (rc a)))"

definition to_free :: "addr \<Rightarrow> mem \<Rightarrow> links option" where
  "to_free stock M = do {
     s \<leftarrow> load (stocks M) stock;
     x \<leftarrow> stock_exhausted M stock;
     if x then do { h \<leftarrow> list_del stock (links M); list_add stock (free_head (stock_slot s)) h }
     else Some (links M)
   }"

lemma to_free_ok:
  assumes P: "pool_ok M S ls xs rc" and s: "s \<in> S" "st \<in> stocks_of ls s"
  shows "\<exists>L ls'. to_free st M = Some L \<and> pool_base (M\<lparr>links := L\<rparr>) S ls' xs rc \<and>
    st \<in> set (ls' (free_head s)) \<and> ok_but st M S ls' rc"
proof -
  have B: "pool_base M S ls xs rc" using P by (simp add: pool_ok_def)
  have nn: "st \<noteq> NULL" using stock_not_NULL [OF B s] by simp
  have slot: "stock_slot (stocks M st) = s" using base_stock' [OF B s] by (simp add: stock_ok_def)
  have ex: "stock_exhausted M st = Some (used_up M s st (rc st))"
    by (rule exhausted_eq [OF base_stock' [OF B s] base_slot' [OF B s(1)] nn])
  show ?thesis
  proof (cases "used_up M s st (rc st)")
    case True
    then have full: "st \<in> set (ls (full_head s))" using P s by (auto simp: pool_ok_def)
    have ne: "full_head s \<noteq> free_head s" using base_heads [OF B] s(1) by blast
    let ?ls = "ls(full_head s := remove1 st (ls (full_head s)), free_head s := st # ls (free_head s))"
    from base_move [OF B s(1) _ ne full] obtain L1 L2 where
      L: "list_del st (links M) = Some L1" "list_add st (free_head s) L1 = Some L2"
        "pool_base (M\<lparr>links := L2\<rparr>) S ?ls xs rc" by auto
    have "to_free st M = Some L2" using L ex True nn slot by (simp add: to_free_def mem_simps)
    moreover have "ok_but st M S ?ls rc"
      unfolding ok_but_def
    proof (intro ballI impI)
      fix t a assume t: "t \<in> S" "a \<in> stocks_of ?ls t" "a \<noteq> st"
      have ne': "free_head t \<noteq> full_head s" "full_head t \<noteq> free_head s" using base_heads [OF B] s(1) t(1) by metis+
      then have "a \<in> stocks_of ls t" using t(2,3) set_remove1_subset [of st "ls (full_head s)"]
        by (auto simp: stocks_of_def split: if_splits)
      moreover have "a \<in> set (?ls (full_head t)) \<longleftrightarrow> a \<in> set (ls (full_head t))"
        using ne' t(3) by auto
      ultimately show "a \<in> set (?ls (full_head t)) \<longleftrightarrow> used_up M t a (rc a)"
        using P t(1) by (auto simp: pool_ok_def)
    qed
    ultimately show ?thesis using L(3) by (intro exI [of _ L2] exI [of _ ?ls]) simp
  next
    case False
    then have "st \<in> set (ls (free_head s))" using P s by (auto simp: pool_ok_def stocks_of_def)
    moreover have "to_free st M = Some (links M)" using ex False nn by (simp add: to_free_def mem_simps)
    moreover have "M\<lparr>links := links M\<rparr> = M" by (cases M) simp
    moreover have "ok_but st M S ls rc" using P by (simp add: pool_ok_def ok_but_def)
    ultimately show ?thesis using B by auto
  qed
qed

section \<open>Linking the chunk into the recycle chain\<close>

definition recycle_chunk :: "addr \<Rightarrow> addr \<Rightarrow> mem \<Rightarrow> mem" where
  "recycle_chunk p st M = M\<lparr>stocks := (stocks M)(st := (stocks M st)\<lparr>recycnt := recycnt (stocks M st) + 1, recycle := p\<rparr>),
     chunk_next := (chunk_next M)(p := recycle (stocks M st))\<rparr>"

lemma recycle_chunk_ok:
  assumes B: "pool_base M S ls xs rc" and s: "s \<in> S" "st \<in> set (ls (free_head s))" and ok: "ok_but st M S ls rc"
    and p: "p = chunk_at M st i" "i < nat (index (stocks M st))" "p \<notin> set (rc st)"
  shows "pool_ok (recycle_chunk p st M) S ls xs (rc(st := p # rc st))"
    and "taken (recycle_chunk p st M) xs (rc(st := p # rc st)) = taken M xs rc - {p}"
proof -
  let ?M = "recycle_chunk p st M" and ?rs = "p # rc st"
  have so: "st \<in> stocks_of ls s" using s(2) by (rule in_stocks)
  have mem: "st \<in> set xs" using stock_not_NULL [OF B s(1) so] by simp
  have st: "stock_ok M s st (rc st)" and sl: "slot_ok M s" using base_stock' [OF B s(1) so] base_slot' [OF B s(1)] by auto
  have slot: "stock_slot (stocks M st) = s" using st by (simp add: stock_ok_def)
  have i: "i < chunk_count (slots M s)" using p(2) st by (auto simp: stock_ok_def)
  have p0: "p \<noteq> NULL" using chunk_range [OF st sl i] p(1) by auto
  have st': "stock_ok ?M s st ?rs"
    using st p p0 by (auto simp: stock_ok_def recycle_chunk_def chunk_at_def elim!: chain_frame)
  have rest: "c \<noteq> p" if "a \<in> set xs" "a \<noteq> st" "c \<in> set (rc a)" for a c
    using rc_owner [OF B that(1) mem that(2)] that(3) p(1) i slot by auto
  have B': "pool_base ?M S ls xs (rc(st := ?rs))"
    by (rule base_stock_upd [OF B s(1) so recycle_chunk_def _ st']) (use slot rest in auto)
  show "pool_ok ?M S ls xs (rc(st := ?rs))"
    unfolding pool_ok_def
  proof (intro conjI ballI, rule B')
    fix t a assume t: "t \<in> S" "a \<in> stocks_of ls t"
    show "a \<in> set (ls (full_head t)) \<longleftrightarrow> used_up ?M t a ((rc(st := ?rs)) a)"
    proof (cases "a = st")
      case True
      moreover have "t = s" using stock_unique [OF B s(1) t(1) so] t(2) True by simp
      ultimately show ?thesis using one_list [OF B s(1)] s(2) by (auto simp: used_up_def)
    next
      case False
      with ok t show ?thesis by (auto simp: ok_but_def used_up_def recycle_chunk_def)
    qed
  qed
  let ?v = "(stocks M st)\<lparr>recycnt := recycnt (stocks M st) + 1, recycle := p\<rparr>"
  have v: "stock_slot ?v = stock_slot (stocks M st)" "index ?v = index (stocks M st)" by simp_all
  note t1 = taken_stock_upd(1) [OF mem recycle_chunk_def v(1), where rc = rc and rs = ?rs]
    and t2 = taken_stock_upd(2) [OF mem recycle_chunk_def v(1), where rc = rc]
  have "p \<notin> (\<Union>a\<in>set xs - {st}. chunk_at M a ` {..<nat (index (stocks M a))} - set (rc a))"
    using other_parts [OF B mem, of i] i slot p(1) by simp
  then show "taken ?M xs (rc(st := ?rs)) = taken M xs rc - {p}"
    unfolding t1 v(2) t2 by auto
qed

section \<open>Giving an unused stock back\<close>

lemma drop_stock_ok:
  assumes P: "pool_ok M S ls xs rc" and s: "s \<in> S" "st \<in> set (ls (free_head s))"
    and full: "recycnt (stocks M st) = index (stocks M st)"
  shows "\<exists>L T. list_del st (links M) = Some L \<and> rb_remove st (onrbt M) = Some T \<and>
    pool_ok (M\<lparr>links := L, onrbt := T, live := live M - {st}\<rparr>) S
      (ls(free_head s := remove1 st (ls (free_head s)))) (remove1 st xs) rc \<and>
    taken (M\<lparr>links := L, onrbt := T, live := live M - {st}\<rparr>) (remove1 st xs) rc = taken M xs rc"
proof -
  have B: "pool_base M S ls xs rc" using P by (simp add: pool_ok_def)
  have so: "st \<in> stocks_of ls s" using s(2) by (rule in_stocks)
  have mem: "st \<in> set xs" using stock_not_NULL [OF B s(1) so] by simp
  have H: "free_head s \<in> heads S" using s by (simp add: heads_def)
  have dx: "distinct xs" using rb.wf_list [OF base_tree [OF B]] by blast
  have df: "distinct (ls (free_head s))" using ringsD [OF base_rings [OF B] H] by (simp add: ring_def)
  from rings_del [OF base_rings [OF B] H s(2)] obtain L where
    L: "list_del st (links M) = Some L" "rings L (heads S) (ls(free_head s := remove1 st (ls (free_head s))))" by blast
  from rb_remove_ok [OF base_tree [OF B] mem] obtain T where
    T: "rb_remove st (onrbt M) = Some T" "rb_wf stock_compare T (remove1 st xs)" by blast
  let ?ls = "ls(free_head s := remove1 st (ls (free_head s)))"
  have of: "stocks_of ?ls t = stocks_of ls t - {st}" if "t \<in> S" for t
  proof (cases "t = s")
    case True
    have "full_head s \<noteq> free_head s" using base_heads [OF B] s(1) by blast
    then show ?thesis using True df one_list [OF B s(1)] s(2) by (auto simp: stocks_of_def)
  next
    case False
    then have "st \<notin> stocks_of ls t" using stock_unique [OF B s(1) that so] by blast
    moreover have "full_head t \<noteq> free_head s" using base_heads [OF B] s(1) that by blast
    ultimately show ?thesis using False by (auto simp: stocks_of_def)
  qed
  have sx: "set (remove1 st xs) = set xs - {st}" using dx by simp
  have be: "\<forall>a\<in>set (remove1 st xs). block_end M a < 2 ^ 64"
    and gap: "\<forall>a\<in>set (remove1 st xs). \<forall>b\<in>set (remove1 st xs). a < b \<longrightarrow> block_end M a \<le> b"
    and lv: "set (remove1 st xs) \<subseteq> live M - {st}"
    using base_end [OF B] base_gap [OF B] base_live [OF B] unfolding sx by blast+
  have sokb: "\<forall>t\<in>S. \<forall>a\<in>stocks_of ?ls t. stock_ok M t a (rc a)" using base_stock [OF B] of by blast
  have "set (remove1 st xs) = (\<Union>t\<in>S. stocks_of ?ls t)" using sx base_set [OF B] of by auto
  then have base: "pool_base (M\<lparr>links := L, onrbt := T, live := live M - {st}\<rparr>) S ?ls (remove1 st xs) rc"
    unfolding pool_base_def using L(2) T(2) base_heads [OF B] base_slot [OF B] sokb be gap lv
    by (intro conjI) simp_all
  have "full_head t \<noteq> free_head s" if "t \<in> S" for t using base_heads [OF B] s(1) that by blast
  then have "pool_ok (M\<lparr>links := L, onrbt := T, live := live M - {st}\<rparr>) S ?ls (remove1 st xs) rc"
    using P base of by (auto simp: pool_ok_def)
  moreover have "chunk_at M st ` {..<nat (index (stocks M st))} - set (rc st) = {}"
  proof -
    have st: "stock_ok M s st (rc st)" by (rule base_stock' [OF B s(1) so])
    then have sub: "set (rc st) \<subseteq> chunk_at M st ` {..<nat (index (stocks M st))}"
      and len: "card (set (rc st)) = nat (index (stocks M st))"
      using full by (auto simp: stock_ok_def distinct_card)
    have "card (chunk_at M st ` {..<nat (index (stocks M st))}) \<le> card (set (rc st))"
      using card_image_le [of "{..<nat (index (stocks M st))}" "chunk_at M st"] len by simp
    then have "set (rc st) = chunk_at M st ` {..<nat (index (stocks M st))}"
      using sub by (intro card_seteq) auto
    then show ?thesis by simp
  qed
  then have "taken M (remove1 st xs) rc = taken M xs rc" unfolding taken_def sx by blast
  ultimately show ?thesis using L(1) T(1) by auto
qed

section \<open>Release\<close>

lemma chunk_free_unfold:
  assumes "rb_search (stock_search M p) (onrbt M) = Some st" and "st \<noteq> NULL" and "p \<noteq> NULL"
    and "stock_slot (stocks M st) = s" and "to_free st M = Some L" and "free_head s \<noteq> NULL"
    and "M' = recycle_chunk p st (M\<lparr>links := L\<rparr>)" and "list_next (L (free_head s)) \<noteq> NULL"
  shows "chunk_free p M =
    (if recycnt (stocks M' st) = index (stocks M' st) \<and> list_next (L (list_next (L (free_head s)))) \<noteq> free_head s
     then do {
       h \<leftarrow> list_del st (links M');
       T \<leftarrow> rb_remove st (onrbt M');
       Some (M'\<lparr>links := h, onrbt := T, live := live M' - {st}\<rparr>)
     } else Some M')"
proof -
  have "to_free st M = do {
      x \<leftarrow> stock_exhausted M st;
      if x then do { h \<leftarrow> list_del st (links M); list_add st (free_head s) h } else Some (links M) }"
    using assms(2,4) by (simp add: to_free_def mem_simps cong: if_cong)
  with assms(5) obtain x where x: "stock_exhausted M st = Some x"
    "(if x then do { h \<leftarrow> list_del st (links M); list_add st (free_head s) h } else Some (links M)) = Some L"
    by (cases "stock_exhausted M st") auto
  show ?thesis
    using assms x by (simp add: chunk_free_def mem_simps recycle_chunk_def split del: if_split) (simp add: Let_def mem_simps)
qed

lemma chunk_free_ok:
  assumes P: "pool_ok M S ls xs rc" and p: "p \<in> taken M xs rc"
  shows "\<exists>M' ls' xs' rc'. chunk_free p M = Some M' \<and> pool_ok M' S ls' xs' rc' \<and>
    taken M' xs' rc' = taken M xs rc - {p}"
proof -
  have B: "pool_base M S ls xs rc" using P by (simp add: pool_ok_def)
  from p obtain st i where st: "st \<in> set xs" "i < nat (index (stocks M st))" "p = chunk_at M st i" "p \<notin> set (rc st)"
    by (auto simp: taken_def)
  from base_member [OF B st(1)] obtain s where s: "s \<in> S" "st \<in> stocks_of ls s" "stock_slot (stocks M st) = s" by metis
  from to_free_ok [OF P s(1,2)] obtain L ls' where
    L: "to_free st M = Some L" "pool_base (M\<lparr>links := L\<rparr>) S ls' xs rc" "st \<in> set (ls' (free_head s))"
      "ok_but st M S ls' rc" by blast
  define M' where "M' = recycle_chunk p st (M\<lparr>links := L\<rparr>)"
  have okb: "ok_but st (M\<lparr>links := L\<rparr>) S ls' rc" using L(4) by (simp add: ok_but_def)
  have "p = chunk_at (M\<lparr>links := L\<rparr>) st i" "i < nat (index (stocks (M\<lparr>links := L\<rparr>) st))" using st by simp_all
  from recycle_chunk_ok [OF L(2) s(1) L(3) okb this st(4)]
  have P': "pool_ok M' S ls' xs (rc(st := p # rc st))" and t': "taken M' xs (rc(st := p # rc st)) = taken M xs rc - {p}"
    by (simp_all add: M'_def)
  have nn: "st \<noteq> NULL" "p \<noteq> NULL" "free_head s \<noteq> NULL"
    using stock_not_NULL [OF B s(1,2)] st(3) by (auto simp: chunk_at_def start_def sizeof_mem_stock_def free_head_def)
  have "ring L (free_head s) (ls' (free_head s))"
    using ringsD [OF base_rings [OF L(2)]] s(1) by (auto simp: heads_def)
  from ring_second [OF this] L(3) have sec: "list_next (L (free_head s)) \<noteq> NULL" by force
  have search: "rb_search (stock_search M p) (onrbt M) = Some st"
    using search_finds_owner [OF B st(1,2)] st(3) by simp
  note run = chunk_free_unfold [OF search nn(1,2) s(3) L(1) nn(3) M'_def sec]
  show ?thesis
  proof (cases "recycnt (stocks M' st) = index (stocks M' st) \<and> list_next (L (list_next (L (free_head s)))) \<noteq> free_head s")
    case True
    then have "recycnt (stocks M' st) = index (stocks M' st)" by blast
    from drop_stock_ok [OF P' s(1) L(3) this] obtain L2 T where
      d: "list_del st (links M') = Some L2" "rb_remove st (onrbt M') = Some T"
        "pool_ok (M'\<lparr>links := L2, onrbt := T, live := live M' - {st}\<rparr>) S
          (ls'(free_head s := remove1 st (ls' (free_head s)))) (remove1 st xs) (rc(st := p # rc st))"
        "taken (M'\<lparr>links := L2, onrbt := T, live := live M' - {st}\<rparr>) (remove1 st xs) (rc(st := p # rc st)) =
          taken M' xs (rc(st := p # rc st))" by blast
    with run True have "chunk_free p M = Some (M'\<lparr>links := L2, onrbt := T, live := live M' - {st}\<rparr>)" by simp
    with d(3,4) t' show ?thesis by metis
  next
    case False
    with run have "chunk_free p M = Some M'" by (simp only: if_False)
    with P' t' show ?thesis by metis
  qed
qed

end
