(* ===== verification/Mem_Pool_Properties.thy ===== *)
theory Mem_Pool_Properties
  imports Mem_Pool_Ops
begin

text \<open>
  Setting up slots, and what the memory pool promises: chunks handed out are distinct, lie
  inside their stocks and are large enough; released chunks are recycled.
\<close>

section \<open>Setting up a slot\<close>

definition align_up :: "nat \<Rightarrow> nat" where
  "align_up n = (let n = (if n mod ALIGN \<noteq> 0 then n + (ALIGN - n mod ALIGN) else n)
     in if n < sizeof_mem_chunk then sizeof_mem_chunk else n)"

lemma align_up_props: "n \<le> align_up n" "align_up n mod ALIGN = 0" "8 \<le> align_up n" "align_up n \<le> n + 8"
proof -
  have "(n + (8 - n mod 8)) mod 8 = 0" by presburger
  then show "align_up n mod ALIGN = 0"
    by (auto simp: align_up_def ALIGN_def sizeof_mem_chunk_def Let_def)
qed (auto simp: align_up_def ALIGN_def sizeof_mem_chunk_def Let_def)

lemma size_code:
  assumes "sz + 8 < 2 ^ 64"
  shows "(let s1 = (if sz mod ALIGN \<noteq> 0 then size_t (sz + (ALIGN - sz mod ALIGN)) else sz)
    in if s1 < sizeof_mem_chunk then sizeof_mem_chunk else s1) = align_up sz"
  using assms by (simp add: align_up_def size_t_def ALIGN_def)

definition fresh_slot :: "addr set \<Rightarrow> addr list \<Rightarrow> addr \<Rightarrow> bool" where
  "fresh_slot S xs s \<longleftrightarrow> s \<noteq> NULL \<and> s \<notin> S \<and> full_head s \<notin> heads S \<union> set xs \<and> free_head s \<notin> heads S \<union> set xs"

lemma slot_setup_ok:
  assumes P: "pool_ok M S ls xs rc" and f: "fresh_slot S xs s" and c: "0 < count"
  shows "\<exists>L1 L2. INIT_LIST_HEAD (full_head s) (links M) = Some L1 \<and> INIT_LIST_HEAD (free_head s) L1 = Some L2 \<and>
    pool_ok (M\<lparr>slots := (slots M)(s := \<lparr>chunk_size = align_up sz, chunk_count = count,
        stock_size = count * align_up sz + sizeof_mem_stock\<rparr>), links := L2\<rparr>)
      (insert s S) (ls(full_head s := [], free_head s := [])) xs rc"
proof -
  have B: "pool_base M S ls xs rc" using P by (simp add: pool_ok_def)
  have s: "s \<noteq> NULL" "s \<notin> S" "full_head s \<notin> heads S" "full_head s \<notin> set xs" "free_head s \<notin> heads S" "free_head s \<notin> set xs"
    "full_head s \<noteq> free_head s" "full_head s \<noteq> NULL" "free_head s \<noteq> NULL"
    using f by (auto simp: fresh_slot_def full_head_def free_head_def)
  have lsub: "b \<in> heads S \<Longrightarrow> full_head s \<notin> set (ls b) \<and> free_head s \<notin> set (ls b)" for b
    using not_in_cells [OF B s(3,4), of b] not_in_cells [OF B s(5,6), of b] by auto
  from rings_new_head [OF base_rings [OF B] s(8,3)] lsub obtain L1 where
    L1: "INIT_LIST_HEAD (full_head s) (links M) = Some L1" "rings L1 (insert (full_head s) (heads S)) (ls(full_head s := []))"
    by blast
  have "free_head s \<notin> insert (full_head s) (heads S)"
    "\<forall>b\<in>insert (full_head s) (heads S). free_head s \<notin> set ((ls(full_head s := [])) b)" using s(5,7) lsub by auto
  from rings_new_head [OF L1(2) s(9) this] obtain L2 where
    L2: "INIT_LIST_HEAD (free_head s) L1 = Some L2"
      "rings L2 (insert (free_head s) (insert (full_head s) (heads S))) (ls(full_head s := [], free_head s := []))"
    by blast
  define M' where "M' = M\<lparr>slots := (slots M)(s := \<lparr>chunk_size = align_up sz, chunk_count = count,
        stock_size = count * align_up sz + sizeof_mem_stock\<rparr>), links := L2\<rparr>"
  have M': "links M' = L2" "onrbt M' = onrbt M" "live M' = live M" "chunk_next M' = chunk_next M" "stocks M' = stocks M"
    "\<And>t. t \<noteq> s \<Longrightarrow> slots M' t = slots M t" by (simp_all add: M'_def)
  let ?ls = "ls(full_head s := [], free_head s := [])"
  have hd: "heads (insert s S) = insert (free_head s) (insert (full_head s) (heads S))" by (auto simp: heads_def)
  have cross: "full_head t \<noteq> free_head s" "free_head t \<noteq> full_head s" if "t \<in> S" for t
    using s(3,5) that by (metis UnI1 UnI2 heads_def imageI)+
  have of: "stocks_of ?ls t = (if t = s then {} else stocks_of ls t)" if "t \<in> insert s S" for t
    using that cross s(2,7) by (auto simp: stocks_of_def)
  have slot_of: "stock_slot (stocks M a) \<in> S" if "a \<in> set xs" for a using base_member [OF B that] by metis
  have sok: "slot_ok M' t" if "t \<in> insert s S" for t
  proof (cases "t = s")
    case True
    have "0 < align_up sz" using align_up_props(3) [of sz] by linarith
    with True s(1) c show ?thesis by (simp add: slot_ok_def M'_def)
  next
    case False
    with that base_slot' [OF B] show ?thesis by (auto simp: slot_ok_def M')
  qed
  have stk: "stock_ok M' t a (rc a)" if "t \<in> insert s S" "a \<in> stocks_of ?ls t" for t a
  proof -
    have t: "t \<noteq> s" "t \<in> S" "a \<in> stocks_of ls t" using that of by (auto split: if_splits)
    with base_stock' [OF B t(2,3)] show ?thesis by (auto simp: stock_ok_def chunk_at_def M')
  qed
  have be: "block_end M' a = block_end M a" if "a \<in> set xs" for a
  proof -
    have "stock_slot (stocks M a) \<noteq> s" using slot_of [OF that] s(2) by metis
    then show ?thesis by (simp add: block_end_def M')
  qed
  have "set xs = (\<Union>t\<in>insert s S. stocks_of ?ls t)" using base_set [OF B] of s(2) by auto
  moreover have "\<forall>u\<in>insert s S. \<forall>t\<in>insert s S. full_head u \<noteq> free_head t"
    using cross s(7) base_heads [OF B] by (metis insertE)
  moreover have "\<forall>a\<in>set xs. block_end M' a < 2 ^ 64" "\<forall>a\<in>set xs. \<forall>b\<in>set xs. a < b \<longrightarrow> block_end M' a \<le> b"
    using base_end [OF B] base_gap [OF B] be by simp_all
  ultimately have "pool_base M' (insert s S) ?ls xs rc"
    unfolding pool_base_def using L2(2) base_tree [OF B] sok stk base_live [OF B]
    by (intro conjI) (simp_all add: M'(1-3) hd)
  moreover have "a \<in> set (?ls (full_head t)) \<longleftrightarrow> used_up M' t a (rc a)"
    if "t \<in> insert s S" "a \<in> stocks_of ?ls t" for t a
  proof -
    have t: "t \<noteq> s" "t \<in> S" "a \<in> stocks_of ls t" using that of by (auto split: if_splits)
    with P cross(1) [OF t(2)] show ?thesis by (auto simp: pool_ok_def used_up_def M')
  qed
  ultimately have "pool_ok M' (insert s S) ?ls xs rc" by (simp add: pool_ok_def)
  with L1(1) L2(1) show ?thesis by (auto simp: M'_def)
qed

lemma pool_ok_empty: "pool_ok (M\<lparr>onrbt := rb_tree_init T, live := A\<rparr>) {} ls [] rc"
proof -
  have "zip_at (rb_tree_init T) Lf []" "rb_count (rb_tree_init T) = 0" by (simp_all add: zip_at_def rb_tree_init_def)
  then have "rb_wf cmp (rb_tree_init T) []" for cmp
    unfolding rb_wf_def rb_shape_def by (auto intro!: exI [of _ Lf])
  then show ?thesis by (simp add: pool_ok_def pool_base_def rings_def heads_def)
qed

lemma taken_Nil [simp]: "taken M [] rc = {}"
  by (simp add: taken_def)

section \<open>Creating a cache\<close>

lemma stock_slot_init_ok:
  assumes P: "pool_ok M S ls xs rc" and f: "fresh_slot S xs s" and c: "0 < count"
    and sz: "sz + 8 < 2 ^ 64" "count * align_up sz + sizeof_mem_stock < 2 ^ 64"
    and b: "fresh_block (M\<lparr>slots := (slots M)(s := \<lparr>chunk_size = align_up sz, chunk_count = count,
        stock_size = count * align_up sz + sizeof_mem_stock\<rparr>)\<rparr>) (insert s S) xs s b"
  shows "\<exists>M' ls' rc'. stock_slot_init (Some b) s count sz M = Some (s, M') \<and>
    pool_ok M' (insert s S) ls' (cmp_insert stock_compare b xs) rc' \<and>
    taken M' (cmp_insert stock_compare b xs) rc' = taken M xs rc \<and>
    slots M' = (slots M)(s := \<lparr>chunk_size = align_up sz, chunk_count = count,
        stock_size = count * align_up sz + sizeof_mem_stock\<rparr>)"
proof -
  let ?sl = "\<lparr>chunk_size = align_up sz, chunk_count = count, stock_size = count * align_up sz + sizeof_mem_stock\<rparr>"
  from slot_setup_ok [OF P f c, of sz] obtain L1 L2 where
    L: "INIT_LIST_HEAD (full_head s) (links M) = Some L1" "INIT_LIST_HEAD (free_head s) L1 = Some L2"
      "pool_ok (M\<lparr>slots := (slots M)(s := ?sl), links := L2\<rparr>) (insert s S) (ls(full_head s := [], free_head s := [])) xs rc"
    by blast
  define M1 where "M1 = M\<lparr>slots := (slots M)(s := ?sl), links := L2\<rparr>"
  have fb: "fresh_block M1 (insert s S) xs s b" using b by (simp add: fresh_block_def M1_def)
  have P1: "pool_ok M1 (insert s S) (ls(full_head s := [], free_head s := [])) xs rc" using L(3) by (simp add: M1_def)
  from stock_alloc_ok [where ls = "ls(full_head s := [], free_head s := [])", OF P1 _ _ fb] obtain M' where
    M': "stock_alloc (Some b) s M1 = Some (b, M')"
      "pool_ok M' (insert s S) ((ls(full_head s := [], free_head s := []))(free_head s := [b])) (cmp_insert stock_compare b xs) (rc(b := []))"
      "taken M' (cmp_insert stock_compare b xs) (rc(b := [])) = taken M1 xs rc" "slots M' = slots M1"
    by (metis fun_upd_same insertI1)
  have nn: "s \<noteq> NULL" "b \<noteq> NULL" "s \<notin> S" using f b by (auto simp: fresh_slot_def fresh_block_def)
  note al = size_code [OF sz(1), unfolded Let_def]
  have "size_t (count * align_up sz + sizeof_mem_stock) = count * align_up sz + sizeof_mem_stock"
    using sz(2) by (simp add: size_t_def)
  then have "stock_slot_init (Some b) s count sz M = Some (s, M')"
    unfolding stock_slot_init_def Let_def al
    using L(1,2) M'(1) nn by (simp add: mem_simps M1_def)
  moreover have "taken M1 xs rc = taken M xs rc"
  proof -
    have B: "pool_base M S ls xs rc" using P by (simp add: pool_ok_def)
    have "chunk_at M1 a = chunk_at M a" if "a \<in> set xs" for a
      using base_member [OF B that] nn(3) by (auto simp: chunk_at_def M1_def fun_eq_iff)
    then show ?thesis by (simp add: taken_def M1_def)
  qed
  moreover have "slots M' = (slots M)(s := ?sl)" using M'(4) by (simp add: M1_def)
  ultimately show ?thesis using M'(2,3) by metis
qed

lemma mem_cache_create_ok:
  assumes c: "0 < count" "cache \<noteq> NULL" and sz: "sz + 8 < 2 ^ 64"
    and b: "b \<noteq> NULL" "b \<notin> {full_head cache, free_head cache}" "b + count * align_up sz + sizeof_mem_stock < 2 ^ 64"
    and lk: "threadsafe \<longrightarrow> lock_ok"
  shows "\<exists>M' ls rc. mem_cache_create (Some cache) (Some b) lock_ok count sz threadsafe M = Some (cache, M') \<and>
    pool_ok M' {cache} ls [b] rc \<and> taken M' [b] rc = {} \<and>
    chunk_size (slots M' cache) = align_up sz \<and> chunk_count (slots M' cache) = count"
proof -
  let ?M = "M\<lparr>onrbt := rb_tree_init (onrbt M), live := insert cache (live M)\<rparr>"
  have P: "pool_ok ?M {} (\<lambda>_. []) [] (\<lambda>_. [])" by (rule pool_ok_empty)
  have f: "fresh_slot {} [] cache" using c(2) by (simp add: fresh_slot_def heads_def)
  have sz2: "count * align_up sz + sizeof_mem_stock < 2 ^ 64" using b(3) by linarith
  have fb: "fresh_block (?M\<lparr>slots := (slots ?M)(cache := \<lparr>chunk_size = align_up sz, chunk_count = count,
        stock_size = count * align_up sz + sizeof_mem_stock\<rparr>)\<rparr>) (insert cache {}) [] cache b"
    using b by (simp add: fresh_block_def heads_def add.assoc)
  from stock_slot_init_ok [OF P f c(1) sz sz2 fb] obtain M' ls rc where M': "stock_slot_init (Some b) cache count sz ?M = Some (cache, M')"
    "pool_ok M' {cache} ls [b] rc" "taken M' [b] rc = {}"
    "slots M' = (slots ?M)(cache := \<lparr>chunk_size = align_up sz, chunk_count = count,
        stock_size = count * align_up sz + sizeof_mem_stock\<rparr>)"
    by auto
  have "mem_cache_create (Some cache) (Some b) lock_ok count sz threadsafe M = Some (cache, M')"
    using M'(1) c(2) lk by (simp add: mem_cache_create_def)
  with M' show ?thesis by auto
qed

section \<open>Properties\<close>


text \<open>A cache of ten 20-byte chunks, on blocks at 4096 and 8192.\<close>

definition demo_mem :: mem where
  "demo_mem = \<lparr>slots = \<lambda>_. \<lparr>chunk_size = 0, chunk_count = 0, stock_size = 0\<rparr>,
     stocks = \<lambda>_. \<lparr>stock_slot = 0, recycle = 0, recycnt = 0, index = 0\<rparr>,
     chunk_next = \<lambda>_. 0, links = \<lambda>_. \<lparr>list_next = 0, list_prev = 0\<rparr>,
     onrbt = \<lparr>rb_root = 0, rb_count = 0, rb_nodes = \<lambda>_. \<lparr>rb_parent = 0, rb_left = 0, rb_right = 0, rb_color = 0\<rparr>\<rparr>,
     live = {}\<rparr>"

lemma demo_pool:
  obtains M ls rc where "pool_ok M {4096} ls [8192] rc" "taken M [8192] rc = {}" "ls (free_head 4096) = [8192]"
proof -
  have "(0::nat) < 10" "(4096::addr) \<noteq> NULL" "(20::nat) + 8 < 2 ^ 64" "(8192::addr) \<noteq> NULL"
    "(8192::addr) \<notin> {full_head 4096, free_head 4096}" "8192 + 10 * align_up 20 + sizeof_mem_stock < 2 ^ 64"
    by (simp_all add: full_head_def free_head_def align_up_def ALIGN_def sizeof_mem_chunk_def sizeof_mem_stock_def)
  from mem_cache_create_ok [OF this, of False False demo_mem] obtain M' ls rc where
    M': "pool_ok M' {4096} ls [8192] rc" "taken M' [8192] rc = {}" by blast
  then have P: "pool_base M' {4096} ls [8192] rc" and
    u: "8192 \<in> set (ls (full_head 4096)) \<Longrightarrow> used_up M' 4096 8192 (rc 8192)"
    by (auto simp: pool_ok_def stocks_of_def)
  have st: "stocks_of ls 4096 = {8192}" using base_set [OF P] by auto
  have sok: "stock_ok M' 4096 8192 (rc 8192)" "slot_ok M' 4096" using base_stock' [OF P] base_slot' [OF P] st by auto
  have "8192 \<notin> set (ls (full_head 4096))"
  proof
    assume "8192 \<in> set (ls (full_head 4096))"
    then have "chunk_at M' 8192 ` {..<nat (index (stocks M' 8192))} = {}" "0 < nat (index (stocks M' 8192))"
      using u M'(2) sok(2) by (auto simp: taken_def used_up_def slot_ok_def)
    then show False by (auto simp: lessThan_empty_iff)
  qed
  moreover have "distinct (ls (free_head 4096))"
    using ringsD [OF base_rings [OF P], of "free_head 4096"] by (auto simp: ring_def heads_def)
  moreover from calculation(1) st have set: "set (ls (free_head 4096)) = {8192}" by (auto simp: stocks_of_def)
  ultimately have "length (ls (free_head 4096)) = Suc 0" using distinct_card by fastforce
  with set have "ls (free_head 4096) = [8192]" by (auto simp: length_Suc_conv)
  with M' that show ?thesis by blast
qed




text \<open>
  A cache created with a positive chunk count is well formed, has no chunk out, and its
  chunk size is the requested one rounded up to the alignment.
\<close>

theorem mem_cache_create_correct:
  assumes "0 < count" and "cache \<noteq> NULL" and "sz + 8 < 2 ^ 64" and "b \<noteq> NULL"
    and "b \<notin> {full_head cache, free_head cache}" and "b + count * align_up sz + sizeof_mem_stock < 2 ^ 64"
    and "threadsafe \<longrightarrow> lock_ok"
  shows "\<exists>M' ls rc. mem_cache_create (Some cache) (Some b) lock_ok count sz threadsafe M = Some (cache, M') \<and>
    pool_ok M' {cache} ls [b] rc \<and> taken M' [b] rc = {} \<and>
    sz \<le> chunk_size (slots M' cache) \<and> chunk_size (slots M' cache) mod ALIGN = 0 \<and>
    chunk_count (slots M' cache) = count"
  using mem_cache_create_ok [OF assms, of M] align_up_props(1,2) [of sz] by metis

theorem mem_cache_create_correct_witness:
  "\<exists>M' ls rc. mem_cache_create (Some 4096) (Some 8192) True 10 20 True demo_mem = Some (4096, M') \<and>
    pool_ok M' {4096} ls [8192] rc"
proof -
  have "(0::nat) < 10" "(4096::addr) \<noteq> NULL" "(20::nat) + 8 < 2 ^ 64" "(8192::addr) \<noteq> NULL"
    "(8192::addr) \<notin> {full_head 4096, free_head 4096}" "8192 + 10 * align_up 20 + sizeof_mem_stock < 2 ^ 64"
    by (simp_all add: full_head_def free_head_def align_up_def ALIGN_def sizeof_mem_chunk_def sizeof_mem_stock_def)
  from mem_cache_create_correct [OF this, of True True demo_mem] show ?thesis by blast
qed

text \<open>
  \<open>mem_pool_alloc\<close> lets the index \<open>slot_count\<close> through: a request of
  \<open>slot_count * diff_size\<close> bytes is served from the memory behind the slot array.
\<close>

theorem mem_pool_alloc_past_end:
  assumes "0 < diff_size pool" and "sz div diff_size pool = slot_count pool" and "slot_count pool < 2 ^ 31"
  shows "mem_pool_alloc blk pool sz M = chunk_alloc blk (slot_at (pool_slots pool) (slot_count pool)) M"
  using assms by (simp add: mem_pool_alloc_def int_as_size_t_def mem_simps)

theorem mem_pool_alloc_past_end_witness:
  "mem_pool_alloc None \<lparr>start_size = 8, diff_size = 8, slot_count = 4, pool_slots = 4096\<rparr> 32 =
     chunk_alloc None (4096 + 4 * 56)"
  using mem_pool_alloc_past_end [of "\<lparr>start_size = 8, diff_size = 8, slot_count = 4, pool_slots = 4096\<rparr>" 32 None]
  by (simp add: slot_at_def fun_eq_iff)

end
