(* ===== verification/IPC_Base.thy ===== *)
theory IPC_Base
  imports Prelude
begin

unbundle bit_operations_syntax

text \<open>
  The shared layer of the IPC library (\<open>ipc/ipc_common.h\<close>, \<open>ipc/ipc_base.h\<close>,
  \<open>ipc/ipc_base.c\<close>): message headers and their bytes, the receive buffer and the parser
  \<open>find_msg\<close> that cuts messages out of a byte stream, blocking reception, message and
  buffer allocation, topics. Multi-byte fields are little endian, as on the targets the code
  is built for. Kernel calls are arguments: what \<open>select\<close> and \<open>recv\<close> return is a list
  of results that the functions consume; \<open>None\<close> stands for waiting forever.
\<close>

section \<open>Codes and constants\<close>

definition IPC_EMIN :: int where "IPC_EMIN = -1"

definition IPC_ETIMEOUT :: int where "IPC_ETIMEOUT = 1"

definition IPC_EOF :: int where "IPC_EOF = 2"

definition IPC_EMEM :: int where "IPC_EMEM = 3"

definition IPC_ERECV :: int where "IPC_ERECV = 4"

definition IPC_ESEND :: int where "IPC_ESEND = 5"

definition IPC_ECONN :: int where "IPC_ECONN = 6"

definition IPC_EMSG :: int where "IPC_EMSG = 7"

definition IPC_EVAL :: int where "IPC_EVAL = 8"

definition IPC_EMAX :: int where "IPC_EMAX = 9"

definition strerr :: "int \<Rightarrow> string option" where
  "strerr err =
     (if err > IPC_EMIN \<and> err < IPC_EMAX
      then Some ([''success'', ''timedout'', ''peer shutdown'', ''memory full'', ''recv error'', ''send error'',
                  ''connect error'', ''bad message'', ''Invalid argument''] ! nat err)
      else None)"

definition IPC_MSG_TOKEN :: "32 word" where "IPC_MSG_TOKEN = 0x56CE0000"

definition IPC_MSG_TOKEN_MASK :: "32 word" where "IPC_MSG_TOKEN_MASK = 0xFFFF0000"

definition IPC_MSG_SDK :: "32 word" where "IPC_MSG_SDK = 0x0000FF00"

definition IPC_SDK_MSG_SUCCESS :: "32 word" where "IPC_SDK_MSG_SUCCESS = IPC_MSG_SDK"

definition IPC_SDK_MSG_CONNECT :: "32 word" where "IPC_SDK_MSG_CONNECT = IPC_MSG_SDK + 1"

definition IPC_SDK_MSG_REGISTER :: "32 word" where "IPC_SDK_MSG_REGISTER = IPC_MSG_SDK + 2"

definition IPC_SDK_MSG_SYNC :: "32 word" where "IPC_SDK_MSG_SYNC = IPC_MSG_SDK + 3"

definition IPC_SDK_MSG_UNREGISTER :: "32 word" where "IPC_SDK_MSG_UNREGISTER = IPC_MSG_SDK + 4"

definition IPC_SDK_MSG_NOTIFY :: "32 word" where "IPC_SDK_MSG_NOTIFY = IPC_MSG_SDK + 5"

definition IPC_TO_BROADCAST :: "32 word" where "IPC_TO_BROADCAST = 0x7FFFFFFF"

definition IPC_TO_NOTIFY :: "32 word" where "IPC_TO_NOTIFY = 0x7FFFFFFE"

definition IPC_MSG_HDRLEN :: nat where "IPC_MSG_HDRLEN = 12"

definition IPC_MSG_ALIGN :: nat where "IPC_MSG_ALIGN = 4"

definition sizeof_ipc_notify :: nat where "sizeof_ipc_notify = 20"

definition IPC_NOTIFY_MSG_MAX_SIZE :: nat where "IPC_NOTIFY_MSG_MAX_SIZE = 1024"

section \<open>Messages\<close>

type_synonym byte = "8 word"

record ipc_msg =
  msg_from :: "32 word"
  msg_id :: "32 word"
  msg_flags :: "16 word"
  msg_data_len :: "16 word"
  msg_data :: "byte list"

definition msg_size :: "ipc_msg \<Rightarrow> nat" where
  "msg_size m = IPC_MSG_HDRLEN + unat (msg_data_len m)"

definition users_msg :: "ipc_msg \<Rightarrow> bool" where
  "users_msg m \<longleftrightarrow> msg_id m <s IPC_MSG_SDK"

definition le16 :: "16 word \<Rightarrow> byte list" where
  "le16 w = [ucast w, ucast (drop_bit 8 w)]"

definition le32 :: "32 word \<Rightarrow> byte list" where
  "le32 w = [ucast w, ucast (drop_bit 8 w), ucast (drop_bit 16 w), ucast (drop_bit 24 w)]"

definition from_le16 :: "byte list \<Rightarrow> 16 word" where
  "from_le16 bs = ucast (bs ! 0) OR push_bit 8 (ucast (bs ! 1))"

definition from_le32 :: "byte list \<Rightarrow> 32 word" where
  "from_le32 bs = ucast (bs ! 0) OR push_bit 8 (ucast (bs ! 1)) OR push_bit 16 (ucast (bs ! 2)) OR
     push_bit 24 (ucast (bs ! 3))"

text \<open>The bytes a message occupies: the packed header and \<open>data_len\<close> bytes of data.\<close>

definition msg_bytes :: "ipc_msg \<Rightarrow> byte list" where
  "msg_bytes m = le32 (msg_from m) @ le32 (msg_id m) @ le16 (msg_flags m) @ le16 (msg_data_len m) @
     take (unat (msg_data_len m)) (msg_data m)"

text \<open>Reading the header at a place of a buffer, and the message once it is complete.\<close>

definition hdr_data_len :: "byte list \<Rightarrow> 16 word" where
  "hdr_data_len bs = from_le16 (take 2 (drop 10 bs))"

definition msg_at :: "byte list \<Rightarrow> ipc_msg" where
  "msg_at bs = \<lparr>msg_from = from_le32 (take 4 bs), msg_id = from_le32 (take 4 (drop 4 bs)),
     msg_flags = from_le16 (take 2 (drop 8 bs)), msg_data_len = hdr_data_len bs,
     msg_data = take (unat (hdr_data_len bs)) (drop 12 bs)\<rparr>"

definition friendly :: "ipc_msg \<Rightarrow> ipc_msg option" where
  "friendly m =
     (if msg_id m AND IPC_MSG_TOKEN_MASK = IPC_MSG_TOKEN
      then Some (m\<lparr>msg_id := msg_id m AND NOT IPC_MSG_TOKEN_MASK\<rparr>) else None)"

text \<open>What \<open>send_msg\<close> puts on the wire: the message with the token set.\<close>

definition tokened :: "ipc_msg \<Rightarrow> ipc_msg" where
  "tokened m = m\<lparr>msg_id := msg_id m OR IPC_MSG_TOKEN\<rparr>"

section \<open>The receive buffer and the message parser\<close>

record ipc_buf =
  buf_head :: nat
  buf_tail :: nat
  buf_size :: nat
  buf_data :: "byte list"

definition ipc_buf_full :: "ipc_buf \<Rightarrow> bool" where
  "ipc_buf_full b \<longleftrightarrow> buf_tail b \<ge> buf_size b"

definition ipc_buf_pending :: "ipc_buf \<Rightarrow> bool" where
  "ipc_buf_pending b \<longleftrightarrow> buf_head b < buf_tail b"

definition ipc_buf_reset :: "ipc_buf \<Rightarrow> ipc_buf" where
  "ipc_buf_reset b = b\<lparr>buf_tail := 0, buf_head := 0\<rparr>"

definition put_bytes :: "nat \<Rightarrow> byte list \<Rightarrow> byte list \<Rightarrow> byte list" where
  "put_bytes off bs d = take off d @ bs @ drop (off + length bs) d"

definition buf_move :: "ipc_buf \<Rightarrow> ipc_buf" where
  "buf_move b =
     (if ipc_buf_full b \<and> buf_head b \<noteq> 0
      then let left = buf_tail b - buf_head b in
        b\<lparr>buf_data := put_bytes 0 (take left (drop (buf_head b) (buf_data b))) (buf_data b),
          buf_head := 0, buf_tail := left\<rparr>
      else b)"

text \<open>
  \<open>clone\<close> says whether the caller gave a buffer to copy sticky messages to. \<open>friendly\<close>
  clears the token in the receive buffer itself; without a clone a message at an unaligned
  place is copied to the front.
\<close>

function find_msg :: "ipc_buf \<Rightarrow> bool \<Rightarrow> ipc_msg option \<times> ipc_buf" where
  "find_msg buf clone =
     (let left = buf_tail buf - buf_head buf in
      if left = 0 then (None, buf)
      else if left < IPC_MSG_HDRLEN then (None, buf_move buf)
      else
        let message = msg_at (drop (buf_head buf) (buf_data buf));
            msg_len = msg_size message in
        if left < msg_len then (None, buf_move buf)
        else case friendly message of
            None \<Rightarrow> find_msg (buf\<lparr>buf_head := buf_head buf + msg_len\<rparr>) clone
          | Some m \<Rightarrow>
              let d = put_bytes (buf_head buf) (msg_bytes m) (buf_data buf);
                  d = (if \<not> clone \<and> buf_head buf mod IPC_MSG_ALIGN \<noteq> 0 then put_bytes 0 (msg_bytes m) d else d) in
              (Some m, buf\<lparr>buf_data := d, buf_head := buf_head buf + msg_len\<rparr>))"
  by pat_completeness auto
termination
  by (relation "measure (\<lambda>(b, c). buf_tail b - buf_head b)") (auto simp: msg_size_def IPC_MSG_HDRLEN_def)

declare find_msg.simps [simp del]

section \<open>Waiting and receiving\<close>

text \<open>Results of \<open>select\<close> and \<open>recv\<close>; the flag of an error says whether it is \<open>EINTR\<close>.\<close>

datatype select_ret = SelReady | SelTimeout | SelError bool

datatype recv_ret = RecvBytes "byte list" | RecvEof | RecvError bool

record io =
  io_sels :: "select_ret list"
  io_recvs :: "recv_ret list"

fun recv_wait_from :: "select_ret list \<Rightarrow> (int \<times> select_ret list) option" where
  "recv_wait_from [] = None"
| "recv_wait_from (SelError True # ss) = recv_wait_from ss"
| "recv_wait_from (SelError False # ss) = Some (-1, ss)"
| "recv_wait_from (SelTimeout # ss) = Some (0, ss)"
| "recv_wait_from (SelReady # ss) = Some (1, ss)"

definition recv_wait :: "io \<Rightarrow> (int \<times> io) option" where
  "recv_wait i = do { (r, ss) \<leftarrow> recv_wait_from (io_sels i); Some (r, i\<lparr>io_sels := ss\<rparr>) }"

definition IPC_RECEIVE_TMO :: int where "IPC_RECEIVE_TMO = - IPC_ETIMEOUT"

definition IPC_RECEIVE_EOF :: int where "IPC_RECEIVE_EOF = - IPC_EOF"

definition IPC_RECEIVE_EMEM :: int where "IPC_RECEIVE_EMEM = - IPC_EMEM"

definition IPC_RECEIVE_ERR :: int where "IPC_RECEIVE_ERR = - IPC_ERECV"

definition IPC_RECEIVE_EMSG :: int where "IPC_RECEIVE_EMSG = - IPC_EMSG"

definition IPC_RECEIVE_EVAL :: int where "IPC_RECEIVE_EVAL = - IPC_EVAL"

text \<open>
  One \<open>recv\<close> with room for \<open>sz\<close> bytes: of a longer piece of the stream it takes the
  first \<open>sz\<close> bytes, and the rest stays. A length of 0 is the end of the stream.
\<close>

fun sys_recv :: "nat \<Rightarrow> recv_ret list \<Rightarrow> (recv_ret \<times> recv_ret list) option" where
  "sys_recv sz [] = None"
| "sys_recv sz (RecvBytes bs # rs) =
     (if bs = [] then Some (RecvEof, rs)
      else if sz = 0 then Some (RecvEof, RecvBytes bs # rs)
      else if length bs \<le> sz then Some (RecvBytes bs, rs)
      else Some (RecvBytes (take sz bs), RecvBytes (drop sz bs) # rs))"
| "sys_recv sz (r # rs) = Some (r, rs)"

fun recv_retry :: "nat \<Rightarrow> recv_ret list \<Rightarrow> ((int + byte list) \<times> recv_ret list) option" where
  "recv_retry sz (RecvError True # rs) = recv_retry sz rs"
| "recv_retry sz rs =
     (case sys_recv sz rs of
        None \<Rightarrow> None
      | Some (RecvBytes bs, rs) \<Rightarrow> Some (Inr bs, rs)
      | Some (RecvEof, rs) \<Rightarrow> Some (Inl IPC_RECEIVE_EOF, rs)
      | Some (RecvError _, rs) \<Rightarrow> Some (Inl IPC_RECEIVE_ERR, rs))"

definition recv_stream :: "nat \<Rightarrow> io \<Rightarrow> ((int + byte list) \<times> io) option" where
  "recv_stream sz i = do {
     (rc, i) \<leftarrow> recv_wait i;
     if rc > 0 then do {
       (r, rs) \<leftarrow> recv_retry sz (io_recvs i);
       Some (r, i\<lparr>io_recvs := rs\<rparr>)
     } else if rc = 0 then Some (Inl IPC_RECEIVE_TMO, i)
     else Some (Inl IPC_RECEIVE_ERR, i)
   }"

text \<open>
  \<open>recv_msg\<close> fills a buffer of \<open>sz\<close> bytes until a whole message is there; \<open>got\<close> are
  the bytes so far. A negative \<open>tmo\<close> waits without a limit and does not retry.
\<close>

partial_function (option) recv_msg_loop ::
    "byte list \<Rightarrow> nat \<Rightarrow> int \<Rightarrow> io \<Rightarrow> ((int + ipc_msg) \<times> byte list \<times> io) option" where
  "recv_msg_loop got sz tmo i = do {
     (r, i) \<leftarrow> recv_stream (sz - length got) i;
     case r of
       Inl e \<Rightarrow> Some (Inl e, got, i)
     | Inr bs \<Rightarrow>
         let got = got @ bs in
         if length got < IPC_MSG_HDRLEN \<or> length got < IPC_MSG_HDRLEN + unat (hdr_data_len got)
         then if length got \<ge> sz then Some (Inl IPC_RECEIVE_EMEM, got, i)
              else if tmo < 0 then Some (Inl IPC_RECEIVE_EMSG, got, i)
              else recv_msg_loop got sz tmo i
         else case friendly (msg_at got) of
             Some m \<Rightarrow> Some (Inr m, got, i)
           | None \<Rightarrow> Some (Inl IPC_RECEIVE_EMSG, got, i)
   }"

definition recv_msg :: "nat \<Rightarrow> int \<Rightarrow> io \<Rightarrow> ((int + ipc_msg) \<times> byte list \<times> io) option" where
  "recv_msg sz tmo i =
     (if sz < IPC_MSG_HDRLEN then Some (Inl IPC_RECEIVE_EVAL, [], i) else recv_msg_loop [] sz tmo i)"

text \<open>\<open>setsockopt\<close>, \<open>ioctl\<close> and \<open>fcntl\<close> are arguments: their return values.\<close>

definition sock_opts :: "int \<Rightarrow> int \<Rightarrow> int \<Rightarrow> int \<Rightarrow> int \<Rightarrow> int" where
  "sock_opts snd_ret rcv_ret ioctl_ret fcntl_ret tmo =
     (if tmo > 0 \<and> (snd_ret < 0 \<or> rcv_ret < 0) then -1
      else if \<not> tmo > 0 \<and> ioctl_ret = -1 then -1
      else if fcntl_ret = -1 then -1 else 0)"

section \<open>Allocation\<close>

definition alloc_buf_size :: "32 word \<Rightarrow> 32 word" where
  "alloc_buf_size sz =
     (let sz = sz + 12; align = sz AND 3 in
      if align \<noteq> 0 then sz + (4 - align) else sz)"

definition alloc_buf :: "bool \<Rightarrow> 32 word \<Rightarrow> ipc_buf option" where
  "alloc_buf malloc_ok sz =
     (if malloc_ok
      then Some \<lparr>buf_head = 0, buf_tail = 0, buf_size = unat (alloc_buf_size sz),
                 buf_data = replicate (unat (alloc_buf_size sz)) 0\<rparr>
      else None)"

text \<open>The copy and the number of bytes allocated for it.\<close>

definition ipc_clone_msg :: "bool \<Rightarrow> ipc_msg \<Rightarrow> 32 word \<Rightarrow> (ipc_msg \<times> nat) option" where
  "ipc_clone_msg malloc_ok m sz =
     (let s = msg_size m; sz = unat (sz + 12) in
      if malloc_ok then Some (m, if sz > s then sz else s) else None)"

definition ipc_alloc_msg :: "bool \<Rightarrow> 32 word \<Rightarrow> (ipc_msg \<times> nat) option" where
  "ipc_alloc_msg malloc_ok sz =
     (if malloc_ok
      then Some (\<lparr>msg_from = 0, msg_id = 0, msg_flags = 0, msg_data_len = 0, msg_data = []\<rparr>, IPC_MSG_HDRLEN + unat sz)
      else None)"

section \<open>Topics and notifications\<close>

definition topic_check :: "64 word \<Rightarrow> bool" where
  "topic_check topic \<longleftrightarrow> topic AND (topic - 1) = 0"

definition topic_isset :: "64 word \<Rightarrow> 64 word \<Rightarrow> bool" where
  "topic_isset msk topic \<longleftrightarrow> msk AND topic \<noteq> 0"

record ipc_notify =
  ntf_to :: "32 word"
  ntf_topic :: "64 word"
  ntf_msg_id :: "32 word"
  ntf_data_len :: "32 word"
  ntf_data :: "byte list"

definition le64 :: "64 word \<Rightarrow> byte list" where
  "le64 w = le32 (ucast w) @ le32 (ucast (drop_bit 32 w))"

definition from_le64 :: "byte list \<Rightarrow> 64 word" where
  "from_le64 bs = ucast (from_le32 (take 4 bs)) OR push_bit 32 (ucast (from_le32 (drop 4 bs)))"

definition notify_bytes :: "ipc_notify \<Rightarrow> byte list" where
  "notify_bytes n = le32 (ntf_to n) @ le64 (ntf_topic n) @ le32 (ntf_msg_id n) @ le32 (ntf_data_len n) @
     take (unat (ntf_data_len n)) (ntf_data n)"

definition notify_of :: "ipc_msg \<Rightarrow> ipc_notify" where
  "notify_of m = (let d = msg_data m in
     \<lparr>ntf_to = from_le32 (take 4 d), ntf_topic = from_le64 (take 8 (drop 4 d)),
      ntf_msg_id = from_le32 (take 4 (drop 12 d)), ntf_data_len = from_le32 (take 4 (drop 16 d)),
      ntf_data = drop 20 d\<rparr>)"

text \<open>
  \<open>ipc_notify_pack\<close> leaves the flags of the message as they are: uninitialised for the stack
  buffer of the callers, so they are an argument here. The length is truncated to 16 bits.
\<close>

definition ipc_notify_pack :: "ipc_msg \<Rightarrow> 32 word \<Rightarrow> 64 word \<Rightarrow> 32 word \<Rightarrow> byte list option \<Rightarrow> 32 word \<Rightarrow> ipc_msg" where
  "ipc_notify_pack m dest msk i data sz =
     (let n = (case data of
                 Some d \<Rightarrow> \<lparr>ntf_to = dest, ntf_topic = msk, ntf_msg_id = i, ntf_data_len = sz,
                            ntf_data = take (unat sz) d\<rparr>
               | None \<Rightarrow> \<lparr>ntf_to = dest, ntf_topic = msk, ntf_msg_id = i, ntf_data_len = 0, ntf_data = []\<rparr>)
      in m\<lparr>msg_id := IPC_SDK_MSG_NOTIFY, msg_data_len := 20 + ucast (ntf_data_len n), msg_data := notify_bytes n\<rparr>)"

definition ipc_notify_fill :: "ipc_msg \<Rightarrow> 32 word \<Rightarrow> 64 word \<Rightarrow> 32 word \<Rightarrow> 32 word \<Rightarrow> ipc_msg" where
  "ipc_notify_fill m dest msk i len =
     (let n = \<lparr>ntf_to = dest, ntf_topic = msk, ntf_msg_id = i, ntf_data_len = len, ntf_data = drop 20 (msg_data m)\<rparr>
      in m\<lparr>msg_flags := 0, msg_id := IPC_SDK_MSG_NOTIFY, msg_data_len := 20 + ucast len, msg_data := notify_bytes n\<rparr>)"

section \<open>Bits of a mask (ipc/ipc_server.c)\<close>

text \<open>The index of the highest set bit, by shifting right; 0 for an empty mask.\<close>

function bit_index_loop :: "64 word \<Rightarrow> int \<Rightarrow> int" where
  "bit_index_loop msk i =
     (let msk = drop_bit 1 msk; i = i + 1 in if msk \<noteq> 0 then bit_index_loop msk i else i)"
  by pat_completeness auto
termination
  by (relation "measure (\<lambda>(m, i). unat m)")
    (auto simp: drop_bit_eq_div unat_div unat_gt_0 intro!: div_less_dividend)

definition bit_index :: "64 word \<Rightarrow> int" where
  "bit_index msk = bit_index_loop msk (-1)"

function bit_count_loop :: "64 word \<Rightarrow> int \<Rightarrow> int" where
  "bit_count_loop msk i = (if msk \<noteq> 0 then bit_count_loop (msk AND (msk - 1)) (i + 1) else i)"
  by pat_completeness auto
termination
proof (relation "measure (\<lambda>(m, i). unat m)")
  fix msk :: "64 word" and i :: int
  assume m: "msk \<noteq> 0"
  have "unat (msk AND (msk - 1)) \<le> unat (msk - 1)"
    using word_and_le1 [of msk "msk - 1"] by (simp add: word_le_nat_alt)
  also have "\<dots> < unat msk" using m by (simp add: unat_minus_one unat_gt_0)
  finally show "((msk AND (msk - 1), i + 1), msk, i) \<in> measure (\<lambda>(m, i). unat m)" by simp
qed simp

definition bit_count :: "64 word \<Rightarrow> int" where
  "bit_count msk = bit_count_loop msk 0"

declare bit_index_loop.simps [simp del] bit_count_loop.simps [simp del]

end
