(* ===== verification/IPC_Server.thy ===== *)
theory IPC_Server
  imports IPC_Base Intrusive_List
begin

unbundle bit_operations_syntax

text \<open>
  The IPC server core of \<open>ipc/ipc_server.c\<close> (the \<open>select\<close> build: \<open>IPC_EPOLL\<close> is 0): client
  handles, the per-topic node lists that notifications are dispatched through, timers,
  asynchronous requests and the event loop.

  \<open>core\<close> is \<open>struct ipc_core\<close> with the objects it reaches. A handle (\<open>struct ipc_server\<close>, the
  peer around it included) and a node are named by their addresses; the list cells of all of
  them are in one store. \<open>live\<close> holds the allocated handles and asynchronous cookies: using
  one that was freed faults, as dereferencing \<open>NULL\<close> does. The log \<open>sent\<close> has every
  message handed to \<open>send\<close>.

  The user's callbacks are arguments (\<open>hooks\<close>) and may change the core in any way, as in C
  where they may call back into the library; so are the results of \<open>send\<close>, \<open>recv\<close>,
  \<open>select\<close>, \<open>accept\<close> and \<open>malloc\<close>. The mutexes only serialise calls.
\<close>

section \<open>Data\<close>

datatype ipc_class = CLASS_DUMMY | CLASS_REQUESTER | CLASS_SUBSCRIBER | CLASS_MASTER | CLASS_PROXY

fun class_code :: "ipc_class \<Rightarrow> 16 word" where
  "class_code CLASS_DUMMY = 0"
| "class_code CLASS_REQUESTER = 1"
| "class_code CLASS_SUBSCRIBER = 2"
| "class_code CLASS_MASTER = 3"
| "class_code CLASS_PROXY = 4"

datatype sock_handler = COMMON_HANDLER | MASTER_HANDLER | PROXY_HANDLER

record ipc_server =
  clazz :: ipc_class
  sock :: int
  sv_handler :: sock_handler
  identity :: "32 word"
  cookie :: addr
  peer_mask :: "64 word"
  peer_node :: addr

record ipc_timing =
  cycle :: bool
  tv_sec :: int
  tv_usec :: int
  expire_sec :: int
  expire_usec :: int

datatype async_state = ASYNC_IDLE | ASYNC_PENDING | ASYNC_EXECUTING | ASYNC_EXECUTING_EXITED

record ipc_async =
  as_state :: async_state
  as_sevr :: addr
  as_msg :: "ipc_msg option"
  as_func :: addr
  as_release :: addr
  as_arg :: addr

record ipc_pool =
  mintasks :: int
  maxtasks :: int
  ntasks :: int
  idletasks :: int
  linger :: int
  pool_destroy :: bool

datatype manager_cmd = CLIENT_RELEASE | CLIENT_CONNECT | CLIENT_REGISTER | CLIENT_SYNC | CLIENT_UNREGISTER | CLIENT_SHUTDOWN

record core =
  links :: links
  handles :: "addr \<Rightarrow> ipc_server"
  node_sevr :: "addr \<Rightarrow> addr"
  timings :: "addr \<Rightarrow> ipc_timing"
  asyncs :: "addr \<Rightarrow> ipc_async"
  cookie_types :: "addr \<Rightarrow> nat"
  live :: "addr set"
  node_hb :: addr
  rfds :: "int set"
  nfds :: int
  filter_set :: bool
  manager_set :: bool
  mutex_set :: bool
  core_arg :: addr
  buf :: "ipc_buf option"
  clone :: bool
  pool_set :: bool
  async_pool :: ipc_pool
  inited :: bool
  running :: bool
  tid :: int
  sent :: "(int \<times> ipc_msg) list"
  closed :: "int list"

text \<open>
  \<open>core->pool\<close> is \<open>NULL\<close> or points to the one static pool. The list heads below are
  embedded in the static core and the static pool; the dummy handle is static too.
\<close>

definition pool :: "core \<Rightarrow> ipc_pool option" where
  "pool C = (if pool_set C then Some (async_pool C) else None)"

definition core_head :: addr where "core_head = 1"

definition timing_head :: addr where "timing_head = 2"

definition async_head :: addr where "async_head = 3"

definition active_task_head :: addr where "active_task_head = 4"

definition ipc_dummy :: addr where "ipc_dummy = 5"

definition IPC_COOKIE_USER :: nat where "IPC_COOKIE_USER = 0x8000"

definition IPC_COOKIE_NONE :: nat where "IPC_COOKIE_NONE = 0x8001"

definition IPC_COOKIE_ASYNC :: nat where "IPC_COOKIE_ASYNC = 0x8002"

definition ipc_cookie_type :: "core \<Rightarrow> addr \<Rightarrow> nat" where
  "ipc_cookie_type C c = (if c \<noteq> NULL then cookie_types C c else IPC_COOKIE_NONE)"

record hooks =
  h_handler :: "ipc_msg \<Rightarrow> addr \<Rightarrow> core \<Rightarrow> int \<times> ipc_msg \<times> core"
  h_filter :: "ipc_notify \<Rightarrow> core \<Rightarrow> int \<times> core"
  h_manager :: "addr \<Rightarrow> manager_cmd \<Rightarrow> byte list \<Rightarrow> core \<Rightarrow> int \<times> core"
  h_proxy :: "addr \<Rightarrow> int \<Rightarrow> core \<Rightarrow> int \<times> core"
  h_timing :: "addr \<Rightarrow> core \<Rightarrow> core"
  h_async_release :: "addr \<Rightarrow> core \<Rightarrow> core"
  h_send :: "int \<Rightarrow> ipc_msg \<Rightarrow> core \<Rightarrow> int"

definition sevr_get :: "core \<Rightarrow> addr \<Rightarrow> ipc_server option" where
  "sevr_get C p = (if p \<noteq> NULL \<and> p \<in> live C then Some (handles C p) else None)"

definition bucket :: "core \<Rightarrow> nat \<Rightarrow> addr" where
  "bucket C i = node_hb C + 16 * i"

definition node_cell :: "addr \<Rightarrow> nat \<Rightarrow> addr" where
  "node_cell base j = base + 24 * j"

section \<open>Sending\<close>

definition sys_send :: "hooks \<Rightarrow> int \<Rightarrow> ipc_msg \<Rightarrow> core \<Rightarrow> int \<times> core" where
  "sys_send H sk m C = (h_send H sk m C, C\<lparr>sent := sent C @ [(sk, m)]\<rparr>)"

definition send_msg :: "hooks \<Rightarrow> int \<Rightarrow> ipc_msg \<Rightarrow> core \<Rightarrow> int \<times> core" where
  "send_msg H sk m C = sys_send H sk (tokened m) C"

definition ipc_server_manager :: "hooks \<Rightarrow> addr \<Rightarrow> manager_cmd \<Rightarrow> byte list \<Rightarrow> core \<Rightarrow> int \<times> core" where
  "ipc_server_manager H p cmd d C = (if manager_set C then h_manager H p cmd d C else (0, C))"

section \<open>Asynchronous requests\<close>

definition async_get :: "core \<Rightarrow> addr \<Rightarrow> ipc_async option" where
  "async_get C p = (if p \<noteq> NULL \<and> p \<in> live C then Some (asyncs C p) else None)"

definition async_set :: "core \<Rightarrow> addr \<Rightarrow> (ipc_async \<Rightarrow> ipc_async) \<Rightarrow> core" where
  "async_set C p f = C\<lparr>asyncs := (asyncs C)(p := f (asyncs C p))\<rparr>"

definition ipc_async_alloc :: "addr option \<Rightarrow> addr \<Rightarrow> core \<Rightarrow> (addr \<times> core) option" where
  "ipc_async_alloc blk p C = do {
     s \<leftarrow> sevr_get C p;
     c_assert (cookie s = NULL);
     case blk of
       None \<Rightarrow> Some (NULL, C)
     | Some a \<Rightarrow> do {
         L \<leftarrow> INIT_LIST_HEAD a (links C);
         Some (a, C\<lparr>links := L, live := insert a (live C), cookie_types := (cookie_types C)(a := IPC_COOKIE_ASYNC),
           asyncs := (asyncs C)(a := \<lparr>as_state = ASYNC_IDLE, as_sevr = p, as_msg = None, as_func = NULL,
             as_release = NULL, as_arg = NULL\<rparr>)\<rparr>)
       }
   }"

definition ipc_async_release :: "hooks \<Rightarrow> addr \<Rightarrow> core \<Rightarrow> core option" where
  "ipc_async_release H a C = do {
     _ \<leftarrow> pool C;
     s \<leftarrow> async_get C a;
     case as_state s of
       ASYNC_EXECUTING \<Rightarrow> Some (async_set C a (\<lambda>s. s\<lparr>as_state := ASYNC_EXECUTING_EXITED, as_sevr := NULL\<rparr>))
     | ASYNC_EXECUTING_EXITED \<Rightarrow> None
     | st \<Rightarrow> do {
         L \<leftarrow> (if st = ASYNC_PENDING then list_delete a (links C) else Some (links C));
         let C = C\<lparr>links := L\<rparr>;
         let C = (if as_release s \<noteq> NULL then h_async_release H a C else C);
         Some (C\<lparr>live := live C - {a}\<rparr>)
       }
   }"

text \<open>
  \<open>clone_ok\<close> and \<open>thread_ok\<close> say whether the copy of the message and a new task could be
  made. When the copy fails the state stays \<open>ASYNC_PENDING\<close>, as in the code.
\<close>

definition ipc_async_execute ::
    "bool \<Rightarrow> bool \<Rightarrow> addr \<Rightarrow> ipc_msg \<Rightarrow> 32 word \<Rightarrow> addr \<Rightarrow> addr \<Rightarrow> addr \<Rightarrow> core \<Rightarrow> (int \<times> ipc_msg \<times> core) option" where
  "ipc_async_execute clone_ok thread_ok a m sz func rel arg C =
     (if \<not> running C then Some (-1, m, C)
      else case pool C of
        None \<Rightarrow> Some (-1, m, C)
      | Some P \<Rightarrow>
          if ipc_cookie_type C a \<noteq> IPC_COOKIE_ASYNC then Some (-1, m, C)
          else do {
            s \<leftarrow> async_get C a;
            if as_state s \<noteq> ASYNC_IDLE then Some (-1, m, C)
            else do {
              c_assert (as_msg s = None);
              let C = async_set C a (\<lambda>s. s\<lparr>as_func := func, as_release := rel, as_arg := arg, as_state := ASYNC_PENDING,
                        as_msg := map_option fst (ipc_clone_msg clone_ok m sz)\<rparr>);
              if \<not> clone_ok then Some (-1, m, C)
              else do {
                L \<leftarrow> list_add_tail a async_head (links C);
                let P = (if idletasks P > 0 then P
                         else if ntasks P < maxtasks P \<and> thread_ok then P\<lparr>ntasks := ntasks P + 1\<rparr> else P);
                Some (0, m\<lparr>msg_flags := msg_flags m OR 0x8000\<rparr>, C\<lparr>links := L, async_pool := P\<rparr>)
              }
            }
          })"

text \<open>
  The two critical sections of a task \<open>t\<close> (its record is on the task's stack): it takes the
  first pending request, and cleans up after running it.
\<close>

definition ipc_async_take :: "addr \<Rightarrow> core \<Rightarrow> (addr \<times> core) option" where
  "ipc_async_take t C = do {
     e \<leftarrow> list_empty async_head (links C);
     if e then Some (NULL, C)
     else do {
       a \<leftarrow> list_first_entry async_head (links C);
       L \<leftarrow> list_del_init a (links C);
       L \<leftarrow> list_add_tail t active_task_head L;
       Some (a, (async_set C a (\<lambda>s. s\<lparr>as_state := ASYNC_EXECUTING\<rparr>))\<lparr>links := L\<rparr>)
     }
   }"

definition ipc_async_cleanup :: "hooks \<Rightarrow> addr \<Rightarrow> addr \<Rightarrow> core \<Rightarrow> core option" where
  "ipc_async_cleanup H t a C = do {
     L \<leftarrow> list_delete t (links C);
     let C = C\<lparr>links := L\<rparr>;
     s \<leftarrow> async_get C a;
     if as_state s = ASYNC_EXECUTING_EXITED then Some (C\<lparr>live := live C - {a}\<rparr>)
     else do {
       m \<leftarrow> as_msg s;
       C \<leftarrow> (if msg_flags m AND 1 \<noteq> 0
             then do { p \<leftarrow> sevr_get C (as_sevr s); Some (snd (send_msg H (sock p) m C)) }
             else Some C);
       Some (async_set C a (\<lambda>s. s\<lparr>as_msg := None, as_state := ASYNC_IDLE, as_func := NULL, as_release := NULL\<rparr>))
     }
   }"

definition ipc_async_task_cleanup :: "ipc_pool \<Rightarrow> bool \<times> ipc_pool" where
  "ipc_async_task_cleanup P =
     (let P = P\<lparr>ntasks := ntasks P - 1\<rparr> in (pool_destroy P \<and> ntasks P = 0, P))"

definition ipc_async_setup :: "ipc_pool \<Rightarrow> links \<Rightarrow> (ipc_pool \<times> links) option" where
  "ipc_async_setup P L = do {
     L \<leftarrow> INIT_LIST_HEAD async_head L;
     L \<leftarrow> INIT_LIST_HEAD active_task_head L;
     Some (P\<lparr>pool_destroy := False, ntasks := 0, idletasks := 0\<rparr>, L)
   }"

section \<open>Handles\<close>

definition fds_add :: "int \<Rightarrow> core \<Rightarrow> core" where
  "fds_add sk C = C\<lparr>rfds := insert sk (rfds C), nfds := (if nfds C < sk then sk else nfds C)\<rparr>"

definition fds_del :: "int \<Rightarrow> core \<Rightarrow> core option" where
  "fds_del sk C = do {
     let C = C\<lparr>rfds := rfds C - {sk}\<rparr>;
     if nfds C = sk then do {
       hs \<leftarrow> list_for_each core_head (links C);
       Some (C\<lparr>nfds := foldl (\<lambda>n p. if sock (handles C p) > n then sock (handles C p) else n) 0 hs\<rparr>)
     } else Some C
   }"

definition sevr_init ::
    "addr \<Rightarrow> ipc_class \<Rightarrow> 32 word \<Rightarrow> int \<Rightarrow> sock_handler \<Rightarrow> core \<Rightarrow> core option" where
  "sevr_init p cl i sk h C = do {
     let C = C\<lparr>handles := (handles C)(p := (handles C p)\<lparr>clazz := cl, sock := sk, identity := i, sv_handler := h, cookie := NULL\<rparr>)\<rparr>;
     L \<leftarrow> list_add_tail p core_head (links C);
     Some (fds_add sk (C\<lparr>links := L\<rparr>))
   }"

text \<open>The node of every set bit of the mask goes to the end of that bit's list.\<close>

function ipc_peer_node_init_loop :: "addr \<Rightarrow> addr \<Rightarrow> 64 word \<Rightarrow> nat \<Rightarrow> nat \<Rightarrow> core \<Rightarrow> core option" where
  "ipc_peer_node_init_loop p base msk i j C =
     (if msk = 0 then Some C
      else if msk AND 1 \<noteq> 0 then do {
        let C = C\<lparr>node_sevr := (node_sevr C)(node_cell base j := p)\<rparr>;
        L \<leftarrow> list_add_tail (node_cell base j) (bucket C i) (links C);
        ipc_peer_node_init_loop p base (drop_bit 1 msk) (Suc i) (Suc j) (C\<lparr>links := L\<rparr>)
      } else ipc_peer_node_init_loop p base (drop_bit 1 msk) (Suc i) j C)"
  by pat_completeness auto
termination
  by (relation "measure (\<lambda>(p, base, m, i, j, C). unat m)")
    (auto simp: drop_bit_eq_div unat_div unat_gt_0 intro!: div_less_dividend)

declare ipc_peer_node_init_loop.simps [simp del]

definition ipc_peer_node_init :: "addr \<Rightarrow> core \<Rightarrow> core option" where
  "ipc_peer_node_init p C = do {
     s \<leftarrow> sevr_get C p;
     ipc_peer_node_init_loop p (peer_node s) (peer_mask s) 0 0 C
   }"

fun init_heads :: "addr \<Rightarrow> nat \<Rightarrow> links \<Rightarrow> links option" where
  "init_heads base 0 L = Some L"
| "init_heads base (Suc n) L = do { L \<leftarrow> init_heads base n L; INIT_LIST_HEAD (base + 16 * n) L }"

definition node_hash_bucket_init :: "addr option \<Rightarrow> core \<Rightarrow> (int \<times> core) option" where
  "node_hash_bucket_init blk C =
     (case blk of
        None \<Rightarrow> Some (-1, C)
      | Some b \<Rightarrow> do { L \<leftarrow> init_heads b 64 (links C); Some (0, C\<lparr>node_hb := b, links := L\<rparr>) })"

fun unlink_nodes :: "addr \<Rightarrow> nat \<Rightarrow> core \<Rightarrow> core option" where
  "unlink_nodes base 0 C = Some C"
| "unlink_nodes base (Suc n) C = do {
     C \<leftarrow> unlink_nodes base n C;
     if node_sevr C (node_cell base n) \<noteq> NULL
     then do { L \<leftarrow> list_delete (node_cell base n) (links C); Some (C\<lparr>links := L\<rparr>) }
     else Some C
   }"

definition ipc_release :: "hooks \<Rightarrow> addr \<Rightarrow> core \<Rightarrow> core option" where
  "ipc_release H p C = do {
     s \<leftarrow> sevr_get C p;
     C \<leftarrow> (case clazz s of
        CLASS_DUMMY \<Rightarrow> None
      | CLASS_REQUESTER \<Rightarrow> do {
          let C = snd (ipc_server_manager H p CLIENT_RELEASE [] C);
          s \<leftarrow> sevr_get C p;
          if cookie s \<noteq> NULL \<and> ipc_cookie_type C (cookie s) = IPC_COOKIE_ASYNC
          then ipc_async_release H (cookie s) C else Some C
        }
      | CLASS_SUBSCRIBER \<Rightarrow> do {
          let C = snd (ipc_server_manager H p CLIENT_RELEASE [] C);
          s \<leftarrow> sevr_get C p;
          unlink_nodes (peer_node s) (nat (bit_count (peer_mask s))) C
        }
      | CLASS_MASTER \<Rightarrow> Some C
      | CLASS_PROXY \<Rightarrow> Some C);
     s \<leftarrow> sevr_get C p;
     L \<leftarrow> list_delete p (links C);
     C \<leftarrow> fds_del (sock s) (C\<lparr>links := L\<rparr>);
     Some (C\<lparr>closed := closed C @ [sock s], live := live C - {p}\<rparr>)
   }"

definition ipc_server_create ::
    "addr option \<Rightarrow> ipc_class \<Rightarrow> 32 word \<Rightarrow> int \<Rightarrow> sock_handler \<Rightarrow> core \<Rightarrow> (addr \<times> core) option" where
  "ipc_server_create blk cl i sk h C =
     (case blk of
        None \<Rightarrow> Some (NULL, C)
      | Some p \<Rightarrow> do { C \<leftarrow> sevr_init p cl i sk h (C\<lparr>live := insert p (live C)\<rparr>); Some (p, C) })"

definition ipc_server_sync :: "hooks \<Rightarrow> addr \<Rightarrow> ipc_msg \<Rightarrow> core \<Rightarrow> (int \<times> core) option" where
  "ipc_server_sync H p m C = do {
     s \<leftarrow> sevr_get C p;
     c_assert (clazz s = CLASS_SUBSCRIBER);
     c_assert (peer_node s \<noteq> NULL);
     C \<leftarrow> ipc_peer_node_init p C;
     Some (0, snd (ipc_server_manager H p CLIENT_SYNC (msg_data m) C))
   }"

definition ipc_server_unregister :: "hooks \<Rightarrow> addr \<Rightarrow> ipc_msg \<Rightarrow> core \<Rightarrow> (int \<times> core) option" where
  "ipc_server_unregister H p m C = do {
     s \<leftarrow> sevr_get C p;
     if clazz s \<noteq> CLASS_SUBSCRIBER then Some (-1, C)
     else if peer_node s = NULL then Some (-1, C)
     else do {
       let C = snd (ipc_server_manager H p CLIENT_UNREGISTER [] C);
       s \<leftarrow> sevr_get C p;
       let C = snd (send_msg H (sock s) m C);
       C \<leftarrow> ipc_release H p C;
       Some (0, C)
     }
   }"

section \<open>Notifications\<close>

definition msg_report :: "hooks \<Rightarrow> addr \<Rightarrow> ipc_msg \<Rightarrow> core \<Rightarrow> core option" where
  "msg_report H p m C = do { s \<leftarrow> sevr_get C p; Some (snd (sys_send H (sock s) m C)) }"

fun report_all :: "hooks \<Rightarrow> addr list \<Rightarrow> ipc_msg \<Rightarrow> core \<Rightarrow> core option" where
  "report_all H [] m C = Some C"
| "report_all H (n # ns) m C = do { C \<leftarrow> msg_report H (node_sevr C n) m C; report_all H ns m C }"

definition msg_broadcast :: "hooks \<Rightarrow> addr \<Rightarrow> ipc_msg \<Rightarrow> core \<Rightarrow> core option" where
  "msg_broadcast H head m C = do {
     ns \<leftarrow> list_for_each head (links C);
     report_all H ns (tokened m) C
   }"

fun report_first :: "hooks \<Rightarrow> 32 word \<Rightarrow> addr list \<Rightarrow> ipc_msg \<Rightarrow> core \<Rightarrow> core option" where
  "report_first H dest [] m C = Some C"
| "report_first H dest (n # ns) m C = do {
     s \<leftarrow> sevr_get C (node_sevr C n);
     if identity s = dest then msg_report H (node_sevr C n) m C else report_first H dest ns m C
   }"

definition msg_unicast :: "hooks \<Rightarrow> addr \<Rightarrow> ipc_msg \<Rightarrow> 32 word \<Rightarrow> core \<Rightarrow> core option" where
  "msg_unicast H head m dest C = do {
     ns \<leftarrow> list_for_each head (links C);
     report_first H dest ns (tokened m) C
   }"

definition msg_notify :: "hooks \<Rightarrow> addr \<Rightarrow> ipc_msg \<Rightarrow> core \<Rightarrow> core option" where
  "msg_notify H p m C = msg_report H p (tokened m) C"

definition dispatch_topic :: "hooks \<Rightarrow> 32 word \<Rightarrow> 64 word \<Rightarrow> ipc_msg \<Rightarrow> core \<Rightarrow> core option" where
  "dispatch_topic H dest topic m C =
     (if node_hb C = NULL then Some C
      else let i = nat (bit_index topic) in
        if dest = IPC_TO_BROADCAST then msg_broadcast H (bucket C i) m C
        else msg_unicast H (bucket C i) m dest C)"

definition ipc_broker_publish :: "hooks \<Rightarrow> ipc_msg \<Rightarrow> core \<Rightarrow> (int \<times> core) option" where
  "ipc_broker_publish H m C = do {
     let n = notify_of m;
     if \<not> topic_check (ntf_topic n) then Some (-1, C)
     else do {
       let (r, C) = (if filter_set C then h_filter H n C else (0, C));
       if r < 0 then Some (-1, C)
       else do { C \<leftarrow> dispatch_topic H (ntf_to n) (ntf_topic n) m C; Some (0, C) }
     }
   }"

text \<open>
  The four ways the server itself sends a notification. \<open>alloc_ok\<close> is the result of the
  allocation that replaces the stack buffer for a large one; \<open>fl\<close> are the flag bits
  the message buffer happens to hold.
\<close>

definition notify_space_check :: "nat \<Rightarrow> 32 word \<Rightarrow> bool" where
  "notify_space_check lim sz \<longleftrightarrow> lim \<ge> IPC_MSG_HDRLEN + sizeof_ipc_notify + unat sz"

definition ipc_server_publish ::
    "hooks \<Rightarrow> bool \<Rightarrow> 16 word \<Rightarrow> 32 word \<Rightarrow> 64 word \<Rightarrow> 32 word \<Rightarrow> byte list option \<Rightarrow> 32 word \<Rightarrow> core \<Rightarrow> (int \<times> core) option" where
  "ipc_server_publish H alloc_ok fl dest topic i data sz C =
     (if \<not> running C then Some (-1, C)
      else if \<not> topic_check topic then Some (-1, C)
      else
        let dyn = \<not> notify_space_check IPC_NOTIFY_MSG_MAX_SIZE sz in
        if dyn \<and> \<not> alloc_ok then Some (-1, C)
        else do {
          let m = \<lparr>msg_from = 0, msg_id = 0, msg_flags = (if dyn then 0 else fl), msg_data_len = 0, msg_data = []\<rparr>;
          C \<leftarrow> dispatch_topic H dest topic (ipc_notify_pack m dest topic i data sz) C;
          Some (0, C)
        })"

definition ipc_server_publishx ::
    "hooks \<Rightarrow> ipc_msg \<Rightarrow> 32 word \<Rightarrow> 64 word \<Rightarrow> 32 word \<Rightarrow> 32 word \<Rightarrow> core \<Rightarrow> (int \<times> core) option" where
  "ipc_server_publishx H m dest topic i len C =
     (if \<not> running C then Some (-1, C)
      else if \<not> topic_check topic then Some (-1, C)
      else do { C \<leftarrow> dispatch_topic H dest topic (ipc_notify_fill m dest topic i len) C; Some (0, C) })"

definition notify_refused :: "ipc_server \<Rightarrow> 64 word \<Rightarrow> core \<Rightarrow> bool" where
  "notify_refused s topic C \<longleftrightarrow>
     clazz s \<noteq> CLASS_SUBSCRIBER \<or> \<not> topic_check topic \<or> \<not> topic_isset (peer_mask s) topic \<or>
     node_sevr C (node_cell (peer_node s) (nat (bit_count (peer_mask s AND (topic - 1))))) = NULL"

definition ipc_server_notify ::
    "hooks \<Rightarrow> bool \<Rightarrow> 16 word \<Rightarrow> addr \<Rightarrow> 64 word \<Rightarrow> 32 word \<Rightarrow> byte list option \<Rightarrow> 32 word \<Rightarrow> core \<Rightarrow> (int \<times> core) option" where
  "ipc_server_notify H alloc_ok fl p topic i data sz C =
     (if \<not> running C then Some (-1, C)
      else do {
        s \<leftarrow> sevr_get C p;
        if notify_refused s topic C then Some (-1, C)
        else
          let dyn = \<not> notify_space_check IPC_NOTIFY_MSG_MAX_SIZE sz in
          if dyn \<and> \<not> alloc_ok then Some (-1, C)
          else do {
            let m = \<lparr>msg_from = 0, msg_id = 0, msg_flags = (if dyn then 0 else fl), msg_data_len = 0, msg_data = []\<rparr>;
            C \<leftarrow> msg_notify H p (ipc_notify_pack m IPC_TO_NOTIFY topic i data sz) C;
            Some (0, C)
          }
      })"

definition ipc_server_notifyx ::
    "hooks \<Rightarrow> addr \<Rightarrow> ipc_msg \<Rightarrow> 64 word \<Rightarrow> 32 word \<Rightarrow> 32 word \<Rightarrow> core \<Rightarrow> (int \<times> core) option" where
  "ipc_server_notifyx H p m topic i len C =
     (if \<not> running C then Some (-1, C)
      else do {
        s \<leftarrow> sevr_get C p;
        if notify_refused s topic C then Some (-1, C)
        else do { C \<leftarrow> msg_notify H p (ipc_notify_fill m IPC_TO_NOTIFY topic i len) C; Some (0, C) }
      })"

definition ipc_server_forward :: "hooks \<Rightarrow> addr \<Rightarrow> ipc_msg \<Rightarrow> core \<Rightarrow> (int \<times> core) option" where
  "ipc_server_forward H p m C = do {
     s \<leftarrow> sevr_get C p;
     let (r, C) = send_msg H (sock s) m C;
     Some (if r > 0 then 0 else -1, C)
   }"

definition ipc_subscribed :: "addr \<Rightarrow> 64 word \<Rightarrow> core \<Rightarrow> 64 word option" where
  "ipc_subscribed p msk C = do {
     s \<leftarrow> sevr_get C p;
     c_assert (clazz s = CLASS_SUBSCRIBER);
     Some (peer_mask s AND msk)
   }"

end
