(* ===== verification/IPC_Timing.thy ===== *)
theory IPC_Timing
  imports IPC_Server
begin

text \<open>
  Timing events of \<open>ipc/ipc_server.c\<close>: the list of armed timings, sorted by expiry, and the
  expiry pass of the event loop. Times are pairs of seconds and microseconds; the clock value
  is an argument. \<open>gettid\<close> is an argument of the calls that check their context.
\<close>

section \<open>The code\<close>

type_synonym timeval = "int \<times> int"

definition timercmp_less :: "timeval \<Rightarrow> timeval \<Rightarrow> bool" where
  "timercmp_less a b \<longleftrightarrow> (if fst a = fst b then snd a < snd b else fst a < fst b)"

definition timersub :: "timeval \<Rightarrow> timeval \<Rightarrow> timeval" where
  "timersub a b =
     (if snd a - snd b < 0 then (fst a - fst b - 1, snd a - snd b + 1000000) else (fst a - fst b, snd a - snd b))"

text \<open>\<open>clock_gettime\<close> gives seconds and nanoseconds.\<close>

definition timing_time :: "timeval \<Rightarrow> timeval" where
  "timing_time ts = (fst ts, snd ts div 1000)"

function timing_carry :: "int \<Rightarrow> int \<Rightarrow> timeval" where
  "timing_carry s u = (if u \<ge> 1000000 then timing_carry (s + 1) (u - 1000000) else (s, u))"
  by pat_completeness auto
termination
  by (relation "measure (\<lambda>(s, u). nat u)") auto

declare timing_carry.simps [simp del]

definition timing_refresh :: "addr \<Rightarrow> timeval \<Rightarrow> core \<Rightarrow> core option" where
  "timing_refresh t now C = do {
     tm \<leftarrow> load (timings C) t;
     let (s, u) = timing_carry (fst now + tv_sec tm) (snd now + tv_usec tm);
     Some (C\<lparr>timings := (timings C)(t := tm\<lparr>expire_sec := s, expire_usec := u\<rparr>)\<rparr>)
   }"

definition expire_of :: "core \<Rightarrow> addr \<Rightarrow> timeval" where
  "expire_of C t = (expire_sec (timings C t), expire_usec (timings C t))"

text \<open>Where the scan of \<open>timing_insert\<close> stops: at the first later entry, or back at the head.\<close>

fun timing_pos :: "core \<Rightarrow> addr \<Rightarrow> addr list \<Rightarrow> addr" where
  "timing_pos C t [] = timing_head"
| "timing_pos C t (p # ps) = (if timercmp_less (expire_of C t) (expire_of C p) then p else timing_pos C t ps)"

definition timing_insert :: "addr \<Rightarrow> core \<Rightarrow> core option" where
  "timing_insert t C = do {
     ps \<leftarrow> list_for_each timing_head (links C);
     L \<leftarrow> list_add_tail t (timing_pos C t ps) (links C);
     Some (C\<lparr>links := L\<rparr>)
   }"

definition ipc_core_context :: "core \<Rightarrow> int \<Rightarrow> bool" where
  "ipc_core_context C me \<longleftrightarrow> tid C = me"

definition ipc_timing_register :: "int \<Rightarrow> timeval \<Rightarrow> addr \<Rightarrow> core \<Rightarrow> (int \<times> core) option" where
  "ipc_timing_register me now t C =
     (if \<not> inited C then Some (-1, C)
      else if \<not> ipc_core_context C me then Some (-1, C)
      else do {
        C \<leftarrow> timing_refresh t now C;
        L \<leftarrow> list_del_init t (links C);
        C \<leftarrow> timing_insert t (C\<lparr>links := L\<rparr>);
        Some (0, C)
      })"

definition ipc_timing_unregister :: "int \<Rightarrow> addr \<Rightarrow> core \<Rightarrow> (int \<times> core) option" where
  "ipc_timing_unregister me t C =
     (if \<not> inited C then Some (-1, C)
      else if \<not> ipc_core_context C me then Some (-1, C)
      else do { L \<leftarrow> list_del_init t (links C); Some (0, C\<lparr>links := L\<rparr>) })"

definition ipc_timing_refresh :: "int \<Rightarrow> timeval \<Rightarrow> addr \<Rightarrow> timeval option \<Rightarrow> core \<Rightarrow> (int \<times> core) option" where
  "ipc_timing_refresh me now t tv C =
     (case tv of
        Some v \<Rightarrow> do {
          tm \<leftarrow> load (timings C) t;
          ipc_timing_register me now t (C\<lparr>timings := (timings C)(t := tm\<lparr>tv_sec := fst v, tv_usec := snd v\<rparr>)\<rparr>)
        }
      | None \<Rightarrow> ipc_timing_register me now t C)"

fun del_init_all :: "addr list \<Rightarrow> links \<Rightarrow> links option" where
  "del_init_all [] L = Some L"
| "del_init_all (p # ps) L = do { L \<leftarrow> list_del_init p L; del_init_all ps L }"

definition ipc_timing_release :: "core \<Rightarrow> (int \<times> core) option" where
  "ipc_timing_release C =
     (if \<not> inited C then Some (-1, C)
      else do {
        ps \<leftarrow> list_for_each timing_head (links C);
        L \<leftarrow> del_init_all ps (links C);
        Some (0, C\<lparr>links := L\<rparr>)
      })"

definition ipc_timing_idle :: "addr \<Rightarrow> core \<Rightarrow> bool option" where
  "ipc_timing_idle t C = list_empty t (links C)"

definition ipc_timing_init :: "addr \<Rightarrow> bool \<Rightarrow> int \<Rightarrow> int \<Rightarrow> core \<Rightarrow> core option" where
  "ipc_timing_init t cyclic sec usec C = do {
     tm \<leftarrow> load (timings C) t;
     L \<leftarrow> INIT_LIST_HEAD t (links C);
     Some (C\<lparr>links := L, timings := (timings C)(t := tm\<lparr>cycle := cyclic, tv_sec := sec, tv_usec := usec\<rparr>)\<rparr>)
   }"

text \<open>How long \<open>ipc_loop\<close> lets \<open>select\<close> wait: \<open>None\<close> is without a limit.\<close>

definition loop_timeout :: "timeval \<Rightarrow> core \<Rightarrow> timeval option option" where
  "loop_timeout now C = do {
     e \<leftarrow> list_empty timing_head (links C);
     if e then Some None
     else do {
       t \<leftarrow> list_first_entry timing_head (links C);
       Some (Some (if timercmp_less now (expire_of C t) then timersub (expire_of C t) now else (0, 0)))
     }
   }"

text \<open>
  The expiry pass. The successor is read before the timing is unlinked and its handler
  called, as \<open>list_for_each_entry_safe\<close> does.
\<close>

partial_function (option) timing_expire_from :: "hooks \<Rightarrow> timeval \<Rightarrow> addr \<Rightarrow> core \<Rightarrow> core option" where
  "timing_expire_from H now t C =
     (if t = timing_head then Some C
      else do {
        c \<leftarrow> load (links C) t;
        if \<not> timercmp_less now (expire_of C t) then do {
          L \<leftarrow> list_del_init t (links C);
          C \<leftarrow> (if cycle (timings C t)
                then do { C \<leftarrow> timing_refresh t now (C\<lparr>links := L\<rparr>); timing_insert t C }
                else Some (C\<lparr>links := L\<rparr>));
          timing_expire_from H now (list_next c) (h_timing H t C)
        } else Some C
      })"

definition timing_expire :: "hooks \<Rightarrow> timeval \<Rightarrow> core \<Rightarrow> core option" where
  "timing_expire H now C = do {
     c \<leftarrow> load (links C) timing_head;
     timing_expire_from H now (list_next c) C
   }"

end
