(* ===== verification/IPC_Handlers.thy ===== *)
theory IPC_Handlers
  imports IPC_Timing
begin

unbundle bit_operations_syntax

text \<open>
  The rest of \<open>ipc/ipc_server.c\<close>: what the server does with a message, the socket handlers
  (\<open>ipc_common_socket_handler\<close>, \<open>ipc_master_socket_handler\<close>, \<open>ipc_proxy_socket_handler\<close>),
  connection and registration, the event loop, start, stop and options. What the kernel
  answers is an argument, one \<open>handler_in\<close> for each run of a handler.
\<close>

section \<open>Messages of a connection\<close>

definition IPC_FLAG_CLIENT_MASK :: "16 word" where "IPC_FLAG_CLIENT_MASK = 0xFF"

definition IPC_FLAG_REPLY :: "16 word" where "IPC_FLAG_REPLY = 1"

definition IPC_FLAG_REQUESTER :: "16 word" where "IPC_FLAG_REQUESTER = 0x100"

definition IPC_FLAG_SUBSCRIBER :: "16 word" where "IPC_FLAG_SUBSCRIBER = 0x200"

definition IPC_FLAG_ASYNC :: "16 word" where "IPC_FLAG_ASYNC = 0x8000"

definition ipc_class_of :: "ipc_msg \<Rightarrow> 16 word" where
  "ipc_class_of m = drop_bit 8 (msg_flags m AND (IPC_FLAG_REQUESTER OR IPC_FLAG_SUBSCRIBER))"

definition ipc_handler_invoke :: "hooks \<Rightarrow> addr \<Rightarrow> ipc_msg \<Rightarrow> core \<Rightarrow> (int \<times> core) option" where
  "ipc_handler_invoke H p m C = do {
     s \<leftarrow> sevr_get C p;
     let m = m\<lparr>msg_flags := msg_flags m AND IPC_FLAG_CLIENT_MASK\<rparr>;
     if clazz s = CLASS_MASTER \<or> clazz s = CLASS_PROXY then Some (-1, C)
     else do {
       let m = (case clazz s of
           CLASS_REQUESTER \<Rightarrow> m\<lparr>msg_flags := msg_flags m OR IPC_FLAG_REQUESTER\<rparr>
         | CLASS_SUBSCRIBER \<Rightarrow> m\<lparr>msg_flags := msg_flags m OR IPC_FLAG_SUBSCRIBER\<rparr>
         | _ \<Rightarrow> m);
       c_assert (class_code (clazz s) = ipc_class_of m);
       let (r, m, C) = h_handler H m (cookie s) C;
       if r < 0 then Some (0, C)
       else if msg_flags m AND IPC_FLAG_ASYNC \<noteq> 0 then Some (0, C)
       else if msg_flags m AND IPC_FLAG_REPLY = 0 \<or> clazz s = CLASS_SUBSCRIBER then Some (0, C)
       else do {
         s \<leftarrow> sevr_get C p;
         let (r, C) = send_msg H (sock s) m C;
         if r < 0 then Some (-1, C) else Some (0, C)
       }
     }
   }"

text \<open>One message of an established connection; \<open>False\<close> is the way to the error exit.\<close>

definition common_dispatch :: "hooks \<Rightarrow> addr \<Rightarrow> ipc_msg \<Rightarrow> core \<Rightarrow> (bool \<times> core) option" where
  "common_dispatch H p m C =
     (if msg_id m = IPC_SDK_MSG_CONNECT \<or> msg_id m = IPC_SDK_MSG_REGISTER then Some (False, C)
      else if msg_id m = IPC_SDK_MSG_SYNC then do { (r, C) \<leftarrow> ipc_server_sync H p m C; Some (\<not> r < 0, C) }
      else if msg_id m = IPC_SDK_MSG_UNREGISTER then do { (r, C) \<leftarrow> ipc_server_unregister H p m C; Some (\<not> r < 0, C) }
      else if msg_id m = IPC_SDK_MSG_NOTIFY then do { (r, C) \<leftarrow> ipc_broker_publish H m C; Some (True, C) }
      else do { (r, C) \<leftarrow> ipc_handler_invoke H p m C; Some (\<not> r < 0, C) })"

text \<open>
  \<open>ipc_common_socket_handler\<close> after the reset of the buffer: \<open>rx\<close> says whether it is about
  to receive or to look for a message. Everything that touches the handle checks that it is
  still allocated; looking for the next message does not touch it.
\<close>

partial_function (option) common_loop ::
    "hooks \<Rightarrow> addr \<Rightarrow> bool \<Rightarrow> io \<Rightarrow> core \<Rightarrow> (int \<times> io \<times> core) option" where
  "common_loop H p rx i C = do {
     b \<leftarrow> buf C;
     if rx then do {
       s \<leftarrow> sevr_get C p;
       (r, rs) \<leftarrow> recv_retry (buf_size b - buf_tail b) (io_recvs i);
       case r of
         Inr bs \<Rightarrow>
           common_loop H p False (i\<lparr>io_recvs := rs\<rparr>)
             (C\<lparr>buf := Some (b\<lparr>buf_data := put_bytes (buf_tail b) bs (buf_data b), buf_tail := buf_tail b + length bs\<rparr>)\<rparr>)
       | Inl e \<Rightarrow> do {
           let C = (if clazz s = CLASS_SUBSCRIBER then snd (ipc_server_manager H p CLIENT_SHUTDOWN [] C) else C);
           C \<leftarrow> ipc_release H p C;
           Some (-1, i\<lparr>io_recvs := rs\<rparr>, C)
         }
     } else
       case find_msg b (clone C) of
         (None, b) \<Rightarrow> do {
           let C = C\<lparr>buf := Some b\<rparr>;
           if ipc_buf_full b then do { C \<leftarrow> ipc_release H p C; Some (-1, i, C) }
           else do {
             _ \<leftarrow> sevr_get C p;
             (r, i) \<leftarrow> recv_wait i;
             if r \<le> 0 then do { C \<leftarrow> ipc_release H p C; Some (-1, i, C) }
             else common_loop H p True i C
           }
         }
       | (Some m, b) \<Rightarrow> do {
           (ok, C) \<leftarrow> common_dispatch H p m (C\<lparr>buf := Some b\<rparr>);
           if \<not> ok then do { C \<leftarrow> ipc_release H p C; Some (-1, i, C) }
           else do {
             b \<leftarrow> buf C;
             if ipc_buf_pending b then common_loop H p False i C else Some (0, i, C)
           }
         }
   }"

definition ipc_common_socket_handler :: "hooks \<Rightarrow> addr \<Rightarrow> io \<Rightarrow> core \<Rightarrow> (int \<times> io \<times> core) option" where
  "ipc_common_socket_handler H p i C = do {
     b \<leftarrow> buf C;
     common_loop H p True i (C\<lparr>buf := Some (ipc_buf_reset b)\<rparr>)
   }"

definition ipc_proxy_socket_handler :: "hooks \<Rightarrow> addr \<Rightarrow> core \<Rightarrow> (int \<times> core) option" where
  "ipc_proxy_socket_handler H p C = do {
     s \<leftarrow> sevr_get C p;
     c_assert (clazz s = CLASS_PROXY);
     Some (h_proxy H p (sock s) C)
   }"

section \<open>Connecting and registering\<close>

text \<open>The blocks the allocations of one handler run return; \<open>None\<close> is a failure.\<close>

record mem =
  m_handle :: "addr option"
  m_nodes :: "addr option"
  m_bucket :: "addr option"

definition ipc_proxy_create :: "addr option \<Rightarrow> int \<Rightarrow> core \<Rightarrow> (addr \<times> core) option" where
  "ipc_proxy_create blk fd C =
     (case blk of
        None \<Rightarrow> Some (NULL, C)
      | Some p \<Rightarrow> do { C \<leftarrow> sevr_init p CLASS_PROXY 0 fd PROXY_HANDLER (C\<lparr>live := insert p (live C)\<rparr>); Some (p, C) })"

fun clear_nodes :: "addr \<Rightarrow> nat \<Rightarrow> core \<Rightarrow> core" where
  "clear_nodes base 0 C = C"
| "clear_nodes base (Suc n) C =
     (let C = clear_nodes base n C in C\<lparr>node_sevr := (node_sevr C)(node_cell base n := NULL)\<rparr>)"

definition ipc_peer_create ::
    "mem \<Rightarrow> 64 word \<Rightarrow> ipc_class \<Rightarrow> 32 word \<Rightarrow> int \<Rightarrow> core \<Rightarrow> (addr \<times> core) option" where
  "ipc_peer_create M msk cl i sk C = do {
     c_assert (msk \<noteq> 0);
     case m_handle M of
       None \<Rightarrow> Some (NULL, C)
     | Some p \<Rightarrow>
         (case m_nodes M of
            None \<Rightarrow> Some (NULL, C)
          | Some nb \<Rightarrow> do {
              (r, C) \<leftarrow> (if node_hb C = NULL then node_hash_bucket_init (m_bucket M) C else Some (0, C));
              if r < 0 then Some (NULL, C)
              else do {
                let C = clear_nodes nb (nat (bit_count msk)) C;
                let C = C\<lparr>live := insert p (live C),
                           handles := (handles C)(p := (handles C p)\<lparr>peer_mask := msk, peer_node := nb\<rparr>)\<rparr>;
                C \<leftarrow> sevr_init p cl i sk COMMON_HANDLER C;
                Some (p, C)
              }
            })
   }"

text \<open>The payload of a registration: the mask, a length and the user's data.\<close>

definition reg_mask :: "ipc_msg \<Rightarrow> 64 word" where
  "reg_mask m = from_le64 (take 8 (msg_data m))"

definition reg_data :: "ipc_msg \<Rightarrow> byte list" where
  "reg_data m = drop 12 (msg_data m)"

definition register_fatal :: "hooks \<Rightarrow> int \<Rightarrow> ipc_msg \<Rightarrow> core \<Rightarrow> int \<times> core" where
  "register_fatal H sk m C =
     (let C = snd (send_msg H sk (m\<lparr>msg_data_len := 0\<rparr>) C) in (-1, C\<lparr>closed := closed C @ [sk]\<rparr>))"

definition ipc_server_register :: "hooks \<Rightarrow> mem \<Rightarrow> int \<Rightarrow> ipc_msg \<Rightarrow> core \<Rightarrow> (int \<times> core) option" where
  "ipc_server_register H M sk m C =
     (if reg_mask m = 0 then Some (register_fatal H sk m C)
      else do {
        (p, C) \<leftarrow> ipc_peer_create M (reg_mask m) CLASS_SUBSCRIBER (msg_from m) sk C;
        if p = NULL then Some (register_fatal H sk m C)
        else do {
          let (r, C) = ipc_server_manager H p CLIENT_REGISTER (reg_data m) C;
          if r < 0 then do {
            let C = snd (send_msg H sk (m\<lparr>msg_data_len := 0\<rparr>) C);
            C \<leftarrow> ipc_release H p C;
            Some (-1, C)
          } else do {
            b \<leftarrow> buf C;
            let m = m\<lparr>msg_id := IPC_SDK_MSG_SUCCESS, msg_data_len := 4,
                      msg_data := put_bytes 0 (le32 (of_nat (buf_size b))) (msg_data m)\<rparr>;
            let (r, C) = send_msg H sk m C;
            if r < 0 then do {
              let C = snd (ipc_server_manager H p CLIENT_SHUTDOWN [] C);
              C \<leftarrow> ipc_release H p C;
              Some (-1, C)
            } else Some (0, C)
          }
        }
      })"

definition ipc_server_connect :: "hooks \<Rightarrow> mem \<Rightarrow> int \<Rightarrow> ipc_msg \<Rightarrow> core \<Rightarrow> (int \<times> core) option" where
  "ipc_server_connect H M sk m C = do {
     (p, C) \<leftarrow> ipc_server_create (m_handle M) CLASS_REQUESTER (from_le32 (take 4 (msg_data m))) sk COMMON_HANDLER C;
     if p = NULL then do {
       let C = snd (send_msg H sk m C);
       Some (-1, C\<lparr>closed := closed C @ [sk]\<rparr>)
     } else do {
       let (r, C) = ipc_server_manager H p CLIENT_CONNECT [] C;
       if r < 0 then do {
         let C = snd (send_msg H sk m C);
         C \<leftarrow> ipc_release H p C;
         Some (-1, C)
       } else do {
         let (r, C) = send_msg H sk (m\<lparr>msg_id := IPC_SDK_MSG_SUCCESS, msg_data_len := 0\<rparr>) C;
         if r < 0 then do { C \<leftarrow> ipc_release H p C; Some (-1, C) } else Some (0, C)
       }
     }
   }"

section \<open>The master socket\<close>

text \<open>Results of \<open>accept\<close>: a positive descriptor or an error.\<close>

datatype accept_ret = AcceptSock int | AcceptIntr | AcceptAgain | AcceptError

record handler_in =
  in_io :: io
  in_accepts :: "accept_ret list"
  in_opts :: int
  in_mem :: mem

fun accept_retry :: "accept_ret list \<Rightarrow> accept_ret option" where
  "accept_retry [] = None"
| "accept_retry (AcceptIntr # as) = accept_retry as"
| "accept_retry (a # as) = Some a"

definition master_dispatch :: "hooks \<Rightarrow> mem \<Rightarrow> int \<Rightarrow> ipc_msg \<Rightarrow> core \<Rightarrow> (int \<times> core) option" where
  "master_dispatch H M sk m C =
     (if msg_id m = IPC_SDK_MSG_CONNECT then ipc_server_connect H M sk m C
      else if msg_id m = IPC_SDK_MSG_REGISTER then ipc_server_register H M sk m C
      else if msg_id m = IPC_SDK_MSG_SYNC \<or> msg_id m = IPC_SDK_MSG_UNREGISTER
      then Some (-1, C\<lparr>closed := closed C @ [sk]\<rparr>)
      else if msg_id m = IPC_SDK_MSG_NOTIFY then do {
        (r, C) \<leftarrow> ipc_broker_publish H m C;
        Some (0, C\<lparr>closed := closed C @ [sk]\<rparr>)
      } else do {
        let C = C\<lparr>handles := (handles C)(ipc_dummy := (handles C ipc_dummy)\<lparr>sock := sk\<rparr>)\<rparr>;
        (r, C) \<leftarrow> ipc_handler_invoke H ipc_dummy m C;
        Some (if r < 0 then -1 else 0, C\<lparr>closed := closed C @ [sk]\<rparr>)
      })"

definition ipc_master_socket_handler :: "hooks \<Rightarrow> addr \<Rightarrow> handler_in \<Rightarrow> core \<Rightarrow> (int \<times> core) option" where
  "ipc_master_socket_handler H p I C = do {
     b \<leftarrow> buf C;
     _ \<leftarrow> sevr_get C p;
     a \<leftarrow> accept_retry (in_accepts I);
     case a of
       AcceptSock sk \<Rightarrow>
         if in_opts I < 0 then Some (-1, C\<lparr>closed := closed C @ [sk]\<rparr>)
         else do {
           (r, got, i) \<leftarrow> recv_msg (buf_size b) 1 (in_io I);
           let C = C\<lparr>buf := Some (b\<lparr>buf_data := put_bytes 0 got (buf_data b)\<rparr>)\<rparr>;
           case r of
             Inl e \<Rightarrow> Some (-1, C\<lparr>closed := closed C @ [sk]\<rparr>)
           | Inr m \<Rightarrow> master_dispatch H (in_mem I) sk m C
         }
     | AcceptAgain \<Rightarrow> Some (0, C)
     | _ \<Rightarrow> Some (-1, C)
   }"

text \<open>\<open>socket\<close>, \<open>bind\<close> and \<open>listen\<close> results: the descriptor, or -1 after closing it.\<close>

definition ipc_socket_create :: "int \<Rightarrow> int \<Rightarrow> int \<Rightarrow> core \<Rightarrow> int \<times> core" where
  "ipc_socket_create sock_ret bind_ret listen_ret C =
     (if sock_ret < 0 then (-1, C)
      else if bind_ret < 0 \<or> listen_ret < 0 then (-1, C\<lparr>closed := closed C @ [sock_ret]\<rparr>)
      else (sock_ret, C))"

definition ipc_master_init :: "addr option \<Rightarrow> int \<times> int \<times> int \<Rightarrow> int \<Rightarrow> core \<Rightarrow> (int \<times> core) option" where
  "ipc_master_init blk k opts C = do {
     let (sk, C) = (case k of (s, b, l) \<Rightarrow> ipc_socket_create s b l C);
     if sk < 0 then Some (-1, C)
     else if opts = -1 then Some (-1, C\<lparr>closed := closed C @ [sk]\<rparr>)
     else do {
       (p, C) \<leftarrow> ipc_server_create blk CLASS_MASTER 0 sk MASTER_HANDLER C;
       if p = NULL then Some (-1, C\<lparr>closed := closed C @ [sk]\<rparr>) else Some (0, C)
     }
   }"

end
