(* ===== verification/IPC_Bits.thy ===== *)
theory IPC_Bits
  imports IPC_Base
begin

unbundle bit_operations_syntax

text \<open>
  The bit loops of \<open>ipc/ipc_server.c\<close> and the topic test of \<open>ipc/ipc_base.h\<close> as what they
  count: a mask is the set of its bits.
\<close>

definition bits :: "64 word \<Rightarrow> nat set" where
  "bits m = {i. bit m i}"

lemma bits_finite [simp]: "finite (bits m)"
proof -
  have "bits m \<subseteq> {..<64}" using bit_imp_le_length by (fastforce simp: bits_def)
  then show ?thesis by (rule finite_subset) simp
qed

lemma bits_less: "i \<in> bits m \<Longrightarrow> i < 64"
  using bit_imp_le_length by (fastforce simp: bits_def)

lemma bits_empty [simp]: "bits m = {} \<longleftrightarrow> m = 0"
  by (auto simp: bits_def intro: bit_word_eqI)

lemma bits_0 [simp]: "bits 0 = {}"
  by simp

lemma bits_and: "bits (a AND b) = bits a \<inter> bits b"
  by (auto simp: bits_def bit_simps)

lemma bits_exp: "i < 64 \<Longrightarrow> bits (2 ^ i) = {i}"
  by (auto simp: bits_def bit_exp_iff)

lemma bits_inj: "bits a = bits b \<longleftrightarrow> a = b"
  by (auto simp: bits_def set_eq_iff intro: bit_word_eqI)

text \<open>The step both \<open>bit_count\<close> and \<open>topic_check\<close> rest on: the lowest bit goes.\<close>

lemma clear_lowest:
  assumes "m \<noteq> 0"
  shows "bits (m AND (m - 1)) = bits m - {Min (bits m)}"
proof -
  define i where "i = Min (bits m)"
  have i: "i \<in> bits m" "\<And>j. j \<in> bits m \<Longrightarrow> i \<le> j" using assms by (auto simp: i_def)
  then have i64: "i < 64" by (blast dest: bits_less)
  define h where "h = unset_bit i m"
  have hb: "bit h n \<longleftrightarrow> bit m n \<and> n \<noteq> i" for n
    by (auto simp: h_def bit_unset_bit_iff)
  have "h + 2 ^ i = h OR 2 ^ i" by (rule disjunctive_add) (auto simp: hb bit_exp_iff)
  also have "\<dots> = m" by (rule bit_word_eqI) (use i(1) i64 in \<open>auto simp: bit_or_iff bit_exp_iff hb bits_def\<close>)
  finally have m: "m = h + 2 ^ i" ..
  have "m - 1 = h + (2 ^ i - 1)" by (simp add: m)
  also have "(2 ^ i - 1 :: 64 word) = Bit_Operations.mask i" by (simp add: mask_eq_exp_minus_1)
  also have "h + Bit_Operations.mask i = h OR Bit_Operations.mask i"
  proof (rule disjunctive_add)
    fix n show "\<not> bit h n \<or> \<not> bit (Bit_Operations.mask i :: 64 word) n"
      using i(2) [of n] by (auto simp: hb bit_mask_iff bits_def)
  qed
  finally have m1: "m - 1 = h OR Bit_Operations.mask i" .
  have "bit (m AND (m - 1)) n \<longleftrightarrow> bit m n \<and> n \<noteq> i" for n
    using i(2) [of n] unfolding m1 by (auto simp: bit_and_iff bit_or_iff bit_mask_iff hb bits_def)
  then show ?thesis by (auto simp: bits_def i_def)
qed

lemma bit_count_loop_eq: "bit_count_loop m i = i + int (card (bits m))"
proof (induction m i rule: bit_count_loop.induct)
  case (1 m i)
  show ?case
  proof (cases "m = 0")
    case True
    then show ?thesis by (subst bit_count_loop.simps) simp
  next
    case False
    then have "Min (bits m) \<in> bits m" by simp
    then have "card (bits m - {Min (bits m)}) = card (bits m) - 1" "0 < card (bits m)"
      by (auto simp: card_gt_0_iff)
    with 1 False show ?thesis by (subst bit_count_loop.simps) (simp add: clear_lowest)
  qed
qed

lemma bit_count_eq: "bit_count m = int (card (bits m))"
  by (simp add: bit_count_def bit_count_loop_eq)

lemma topic_check_iff: "topic_check m \<longleftrightarrow> m = 0 \<or> (\<exists>i<64. m = 2 ^ i)"
proof
  assume "topic_check m"
  then have z: "m AND (m - 1) = 0" by (simp add: topic_check_def)
  show "m = 0 \<or> (\<exists>i<64. m = 2 ^ i)"
  proof (cases "m = 0")
    case False
    then have "bits m - {Min (bits m)} = {}" using clear_lowest [OF False] z by simp
    then have "bits m = {Min (bits m)}" using False by auto
    moreover have lt: "Min (bits m) < 64" using False by (meson Min_in bits_empty bits_finite bits_less)
    ultimately have "m = 2 ^ Min (bits m)" using bits_exp [OF lt] by (metis bits_inj)
    with lt show ?thesis by blast
  qed simp
next
  assume "m = 0 \<or> (\<exists>i<64. m = 2 ^ i)"
  then show "topic_check m"
  proof
    assume "\<exists>i<64. m = 2 ^ i"
    then obtain i where i: "i < 64" "m = 2 ^ i" by blast
    then have "m \<noteq> 0" by (metis bits_exp bits_0 insert_not_empty)
    then have "bits (m AND (m - 1)) = {}" using clear_lowest i bits_exp by simp
    then show ?thesis by (simp add: topic_check_def)
  qed (simp add: topic_check_def)
qed

lemma bit_index_loop_exp: "i < 64 \<Longrightarrow> bit_index_loop (2 ^ i) k = k + 1 + int i"
proof (induction i arbitrary: k)
  case 0
  then show ?case by (subst bit_index_loop.simps) (simp add: drop_bit_eq_div)
next
  case (Suc i)
  have "drop_bit 1 (2 ^ Suc i :: 64 word) = 2 ^ i"
    using Suc.prems by (intro bit_word_eqI) (auto simp: bit_simps)
  moreover have "(2 ^ i :: 64 word) \<noteq> 0" using bits_exp [of i] Suc.prems by (metis Suc_lessD bits_0 insert_not_empty)
  ultimately show ?case using Suc by (subst bit_index_loop.simps) (simp add: Let_def)
qed

lemma bit_index_exp: "i < 64 \<Longrightarrow> bit_index (2 ^ i) = int i"
  by (simp add: bit_index_def bit_index_loop_exp)

lemma bit_index_0: "bit_index 0 = 0"
  by (simp add: bit_index_def bit_index_loop.simps)

lemma topic_isset_exp: "i < 64 \<Longrightarrow> topic_isset m (2 ^ i) \<longleftrightarrow> i \<in> bits m"
  using bits_and [of m "2 ^ i"] bits_exp [of i] bits_empty [of "m AND 2 ^ i"] by (auto simp: topic_isset_def)

text \<open>The place of a bit among the set bits, as \<open>ipc_server_notify\<close> computes it.\<close>

lemma bits_below:
  assumes "i < 64"
  shows "bits (m AND (2 ^ i - 1)) = {j \<in> bits m. j < i}"
  using assms by (auto simp: bits_def bit_simps mask_eq_exp_minus_1 [symmetric])

text \<open>The rank of a bit enumerates the set bits from 0.\<close>

definition rank :: "64 word \<Rightarrow> nat \<Rightarrow> nat" where
  "rank m i = card {j \<in> bits m. j < i}"

lemma rank_0 [simp]: "rank m 0 = 0"
  by (simp add: rank_def)

lemma rank_Suc: "rank m (Suc i) = rank m i + (if i \<in> bits m then 1 else 0)"
proof -
  have "{j \<in> bits m. j < Suc i} = {j \<in> bits m. j < i} \<union> (if i \<in> bits m then {i} else {})" by (auto simp: less_Suc_eq)
  then show ?thesis by (simp add: rank_def card_insert_if)
qed

lemma rank_all: "\<forall>j\<in>bits m. j < i \<Longrightarrow> rank m i = card (bits m)"
  unfolding rank_def by (metis (no_types, lifting) Collect_cong Collect_mem_eq)

lemma rank_less: "i \<in> bits m \<Longrightarrow> rank m i < card (bits m)"
  unfolding rank_def by (intro psubset_card_mono) auto

lemma rank_mono: "i \<in> bits m \<Longrightarrow> i < k \<Longrightarrow> rank m i < rank m k"
  unfolding rank_def by (intro psubset_card_mono) auto

lemma rank_inj: "inj_on (rank m) (bits m)"
  by (rule inj_onI) (metis linorder_neqE_nat nat_neq_iff rank_mono)

lemma rank_onto: "rank m ` bits m = {..<card (bits m)}"
proof (rule card_subset_eq)
  show "rank m ` bits m \<subseteq> {..<card (bits m)}" by (auto intro: rank_less)
  show "card (rank m ` bits m) = card {..<card (bits m)}" by (simp add: card_image [OF rank_inj])
qed simp

lemma bit_count_below: "i < 64 \<Longrightarrow> bit_count (m AND (2 ^ i - 1)) = int (rank m i)"
  by (simp add: bit_count_eq bits_below rank_def)

lemma drop_bit_bits: "drop_bit i m AND 1 \<noteq> 0 \<longleftrightarrow> i \<in> bits m"
  by (simp add: bits_def and_one_eq bit_iff_odd_drop_bit odd_iff_mod_2_eq_one)

lemma drop_bit_zero: "drop_bit i m = 0 \<longleftrightarrow> (\<forall>j\<in>bits m. j < i)"
proof
  assume z: "drop_bit i m = 0"
  show "\<forall>j\<in>bits m. j < i"
  proof (rule ccontr)
    assume "\<not> (\<forall>j\<in>bits m. j < i)"
    then obtain j where "bit m j" "i \<le> j" by (auto simp: bits_def not_less)
    then have "bit (drop_bit i m) (j - i)" by (simp add: bit_drop_bit_eq)
    with z show False by simp
  qed
next
  assume "\<forall>j\<in>bits m. j < i"
  then show "drop_bit i m = 0" by (intro bit_word_eqI) (auto simp: bit_drop_bit_eq bits_def)
qed

end
