(* ===== verification/IPC_Broker.thy ===== *)
theory IPC_Broker
  imports IPC_Handlers IPC_Bits
begin

text \<open>
  The broker of the IPC server: which lists hold which nodes. The abstract state is three
  sequences: the handles in the order of connection, the armed timings, and the subscribers in
  the order of their \<open>SYNC\<close> messages. \<open>broker\<close> says that the store of list cells
  represents them: the list of topic \<open>2 ^ i\<close> holds one node of every subscriber whose mask
  has bit \<open>i\<close>, in the order of subscription.
\<close>

section \<open>The representation\<close>

definition node_at :: "core \<Rightarrow> addr \<Rightarrow> nat \<Rightarrow> addr" where
  "node_at C p i = node_cell (peer_node (handles C p)) (rank (peer_mask (handles C p)) i)"

definition wants :: "core \<Rightarrow> nat \<Rightarrow> addr \<Rightarrow> bool" where
  "wants C i p \<longleftrightarrow> i \<in> bits (peer_mask (handles C p))"

definition topic_nodes :: "core \<Rightarrow> addr list \<Rightarrow> nat \<Rightarrow> addr list" where
  "topic_nodes C subs i = map (\<lambda>p. node_at C p i) (filter (wants C i) subs)"

definition node_cells :: "core \<Rightarrow> addr \<Rightarrow> addr set" where
  "node_cells C p = node_cell (peer_node (handles C p)) ` {..<card (bits (peer_mask (handles C p)))}"

definition heads :: "core \<Rightarrow> addr set" where
  "heads C = {core_head, timing_head} \<union> (if node_hb C = NULL then {} else bucket C ` {..<64})"

definition peers :: "core \<Rightarrow> addr list \<Rightarrow> addr list" where
  "peers C hs = filter (\<lambda>p. clazz (handles C p) = CLASS_SUBSCRIBER) hs"

definition bkt_index :: "core \<Rightarrow> addr \<Rightarrow> nat" where
  "bkt_index C a = (a - node_hb C) div 16"

definition rep_lists :: "core \<Rightarrow> addr list \<Rightarrow> addr list \<Rightarrow> addr list \<Rightarrow> addr \<Rightarrow> addr list" where
  "rep_lists C hs ts subs a =
     (if a = core_head then hs else if a = timing_head then ts else topic_nodes C subs (bkt_index C a))"

definition peer_ok :: "core \<Rightarrow> addr list \<Rightarrow> addr list \<Rightarrow> addr list \<Rightarrow> addr \<Rightarrow> bool" where
  "peer_ok C hs ts subs p \<longleftrightarrow>
     peer_node (handles C p) \<noteq> NULL \<and> node_cells C p \<inter> (heads C \<union> set hs \<union> set ts) = {} \<and>
     (\<forall>a\<in>node_cells C p. node_sevr C a = (if p \<in> set subs then p else NULL)) \<and>
     (\<forall>q\<in>set (peers C hs). q \<noteq> p \<longrightarrow> node_cells C p \<inter> node_cells C q = {})"

definition broker :: "core \<Rightarrow> addr list \<Rightarrow> addr list \<Rightarrow> addr list \<Rightarrow> bool" where
  "broker C hs ts subs \<longleftrightarrow>
     rings (links C) (heads C) (rep_lists C hs ts subs) \<and> distinct subs \<and> set subs \<subseteq> set (peers C hs) \<and>
     set hs \<subseteq> live C \<and>
     (if node_hb C = NULL then peers C hs = [] else {core_head, timing_head} \<inter> bucket C ` {..<64} = {}) \<and>
     (\<forall>p\<in>set (peers C hs). peer_ok C hs ts subs p)"

lemma bkt_index_bucket [simp]: "bkt_index C (bucket C i) = i"
  by (simp add: bkt_index_def bucket_def)

lemma bucket_inj [simp]: "bucket C i = bucket C j \<longleftrightarrow> i = j"
  by (simp add: bucket_def)

lemma node_cell_inj [simp]: "node_cell b i = node_cell b j \<longleftrightarrow> i = j"
  by (simp add: node_cell_def)

lemma node_cell_NULL: "b \<noteq> NULL \<Longrightarrow> node_cell b j \<noteq> NULL"
  by (simp add: node_cell_def)

lemma node_at_in: "wants C i p \<Longrightarrow> node_at C p i \<in> node_cells C p"
  by (auto simp: node_at_def node_cells_def wants_def rank_less)

lemma lists_bucket:
  "node_hb C \<noteq> NULL \<Longrightarrow> {core_head, timing_head} \<inter> bucket C ` {..<64} = {} \<Longrightarrow> i < 64 \<Longrightarrow>
   rep_lists C hs ts subs (bucket C i) = topic_nodes C subs i"
  unfolding rep_lists_def by (subst if_not_P, blast, subst if_not_P, blast) simp

lemma topic_nodes_cells: "n \<in> set (topic_nodes C subs i) \<Longrightarrow> \<exists>p\<in>set subs. wants C i p \<and> n \<in> node_cells C p"
  by (auto simp: topic_nodes_def intro: node_at_in)

text \<open>Cells of a peer are in a list only when the peer is synchronised.\<close>

lemma unsynced_cells:
  assumes B: "broker C hs ts subs" and p: "p \<in> set (peers C hs)" "p \<notin> set subs" and a: "a \<in> heads C"
  shows "node_cells C p \<inter> set (a # rep_lists C hs ts subs a) = {}"
proof -
  have ok: "peer_ok C hs ts subs p" using B p by (simp add: broker_def)
  have "node_cells C p \<inter> set (topic_nodes C subs i) = {}" for i
  proof -
    have "node_cells C p \<inter> node_cells C q = {}" if "q \<in> set subs" for q
    proof -
      have "q \<in> set (peers C hs)" "q \<noteq> p" using that p B unfolding broker_def by blast+
      with ok show ?thesis unfolding peer_ok_def by blast
    qed
    then show ?thesis by (auto dest!: topic_nodes_cells)
  qed
  then show ?thesis using ok a by (auto simp: peer_ok_def rep_lists_def)
qed

section \<open>Synchronisation\<close>

text \<open>The lists while the loop of \<open>ipc_peer_node_init\<close> stands at bit \<open>i\<close>.\<close>

definition nodes_upto :: "core \<Rightarrow> addr \<Rightarrow> 64 word \<Rightarrow> nat \<Rightarrow> (addr \<Rightarrow> addr list) \<Rightarrow> addr \<Rightarrow> addr list" where
  "nodes_upto C base m i ls a =
     (if a \<in> bucket C ` {..<i} \<and> bkt_index C a \<in> bits m then ls a @ [node_cell base (rank m (bkt_index C a))] else ls a)"

definition marked :: "addr \<Rightarrow> addr \<Rightarrow> nat \<Rightarrow> (addr \<Rightarrow> addr) \<Rightarrow> addr \<Rightarrow> addr" where
  "marked p base n S a = (if a \<in> node_cell base ` {..<n} then p else S a)"

lemma core_upd_swap: "C\<lparr>node_sevr := S, links := L\<rparr> = C\<lparr>links := L, node_sevr := S\<rparr>"
  by (cases C) simp

lemma node_init_loop:
  assumes H: "bucket C ` {..<64} \<subseteq> H" and b: "base \<noteq> NULL"
    and fresh: "\<forall>a\<in>H. node_cell base ` {..<card (bits m)} \<inter> set (a # ls a) = {}"
  shows "i \<le> 64 \<Longrightarrow> rings L H (nodes_upto C base m i ls) \<Longrightarrow>
    \<exists>L'. ipc_peer_node_init_loop p base (drop_bit i m) i (rank m i)
        (C\<lparr>links := L, node_sevr := marked p base (rank m i) S\<rparr>) =
      Some (C\<lparr>links := L', node_sevr := marked p base (card (bits m)) S\<rparr>) \<and>
    rings L' H (nodes_upto C base m 64 ls)"
proof (induction "64 - i" arbitrary: i L)
  case 0
  then have i: "i = 64" by simp
  have "\<forall>j\<in>bits m. j < 64" by (blast dest: bits_less)
  then have "drop_bit i m = 0" "rank m i = card (bits m)" unfolding i by (simp_all only: drop_bit_zero rank_all simp_thms)
  with 0 i show ?case by (subst ipc_peer_node_init_loop.simps) (auto intro!: exI [of _ L])
next
  case (Suc d)
  let ?n = "rank m i" and ?C = "C\<lparr>links := L, node_sevr := marked p base (rank m i) S\<rparr>"
  have i: "i < 64" using Suc.hyps(2) by linarith
  have step: "drop_bit 1 (drop_bit i m) = drop_bit (Suc i) m" by (simp add: drop_bit_drop_bit)
  show ?case
  proof (cases "drop_bit i m = 0")
    case True
    then have lt: "\<forall>j\<in>bits m. j < i" by (simp only: drop_bit_zero)
    have "nodes_upto C base m i ls = nodes_upto C base m 64 ls"
      using lt i by (auto simp: nodes_upto_def fun_eq_iff)
    with True Suc.prems(2) rank_all [OF lt] show ?thesis
      by (subst ipc_peer_node_init_loop.simps) (auto intro!: exI [of _ L])
  next
    case nz: False
    show ?thesis
    proof (cases "i \<in> bits m")
      case False
      have "nodes_upto C base m (Suc i) ls = nodes_upto C base m i ls"
        using False by (auto simp: nodes_upto_def fun_eq_iff less_Suc_eq)
      moreover have "rank m (Suc i) = ?n" using False by (simp add: rank_Suc)
      ultimately show ?thesis
        using Suc.hyps(1) [of "Suc i" L] Suc.hyps(2) Suc.prems(2) i nz False
        by (subst ipc_peer_node_init_loop.simps) (simp add: drop_bit_bits step)
    next
      case True
      let ?b = "bucket C i" and ?c = "node_cell base ?n" and ?ls = "nodes_upto C base m i ls"
      have r: "rank m (Suc i) = Suc ?n" using True by (simp add: rank_Suc)
      have bH: "?b \<in> H" using H i by auto
      have c: "?n < card (bits m)" "?c \<noteq> NULL" using rank_less [OF True] node_cell_NULL [OF b] by auto
      have "?c \<notin> set (a # ?ls a)" if a: "a \<in> H" for a
      proof -
        have "?c \<notin> set (a # ls a)" using fresh c(1) a by blast
        moreover have "rank m (bkt_index C a) \<noteq> ?n" if "a \<in> bucket C ` {..<i}" "bkt_index C a \<in> bits m"
          using that rank_mono [of "bkt_index C a" m i] by auto
        ultimately show ?thesis by (auto simp: nodes_upto_def)
      qed
      then obtain L1 where L1: "list_add_tail ?c ?b L = Some L1" "rings L1 H (?ls(?b := ?ls ?b @ [?c]))"
        using rings_append [OF Suc.prems(2) bH c(2)] by blast
      have "?ls(?b := ?ls ?b @ [?c]) = nodes_upto C base m (Suc i) ls"
        using True by (auto simp: nodes_upto_def fun_eq_iff less_Suc_eq)
      then have R: "rings L1 H (nodes_upto C base m (Suc i) ls)" using L1(2) by simp
      have mk: "(marked p base ?n S)(?c := p) = marked p base (Suc ?n) S"
        by (auto simp: marked_def fun_eq_iff less_Suc_eq)
      show ?thesis
        using Suc.hyps(1) [of "Suc i" L1] Suc.hyps(2) R i nz True L1(1)
        by (subst ipc_peer_node_init_loop.simps) (simp add: drop_bit_bits step r mk bucket_def core_upd_swap)
    qed
  qed
qed

text \<open>The shape of the lists depends on the handles and the bucket array only.\<close>

lemma rep_upd [simp]:
  "node_at (C\<lparr>links := L\<rparr>) = node_at C" "node_at (C\<lparr>node_sevr := S\<rparr>) = node_at C"
  "wants (C\<lparr>links := L\<rparr>) = wants C" "wants (C\<lparr>node_sevr := S\<rparr>) = wants C"
  "node_cells (C\<lparr>links := L\<rparr>) = node_cells C" "node_cells (C\<lparr>node_sevr := S\<rparr>) = node_cells C"
  "heads (C\<lparr>links := L\<rparr>) = heads C" "heads (C\<lparr>node_sevr := S\<rparr>) = heads C"
  "peers (C\<lparr>links := L\<rparr>) = peers C" "peers (C\<lparr>node_sevr := S\<rparr>) = peers C"
  "bkt_index (C\<lparr>links := L\<rparr>) = bkt_index C" "bkt_index (C\<lparr>node_sevr := S\<rparr>) = bkt_index C"
  "bucket (C\<lparr>links := L\<rparr>) = bucket C" "bucket (C\<lparr>node_sevr := S\<rparr>) = bucket C"
  by (simp_all add: node_at_def wants_def node_cells_def heads_def peers_def bkt_index_def bucket_def fun_eq_iff)

lemma topic_nodes_upd [simp]:
  "topic_nodes (C\<lparr>links := L\<rparr>) = topic_nodes C" "topic_nodes (C\<lparr>node_sevr := S\<rparr>) = topic_nodes C"
  by (simp_all add: topic_nodes_def fun_eq_iff)

lemma rep_lists_upd [simp]:
  "rep_lists (C\<lparr>links := L\<rparr>) = rep_lists C" "rep_lists (C\<lparr>node_sevr := S\<rparr>) = rep_lists C"
  by (simp_all add: rep_lists_def fun_eq_iff)

lemma topic_nodes_append [simp]: "topic_nodes C (subs @ subs') i = topic_nodes C subs i @ topic_nodes C subs' i"
  by (simp add: topic_nodes_def)

lemma broker_peer: "broker C hs ts subs \<Longrightarrow> p \<in> set (peers C hs) \<Longrightarrow> peer_ok C hs ts subs p \<and> node_hb C \<noteq> NULL \<and>
    {core_head, timing_head} \<inter> bucket C ` {..<64} = {} \<and> p \<in> live C \<and> p \<in> set hs"
  by (auto simp: broker_def peers_def filter_empty_conv split: if_splits)

lemma sevr_get_live: "p \<in> live C \<Longrightarrow> p \<noteq> NULL \<Longrightarrow> sevr_get C p = Some (handles C p)"
  by (simp add: sevr_get_def)

lemma broker_handle: "broker C hs ts subs \<Longrightarrow> p \<in> set hs \<Longrightarrow> p \<noteq> NULL \<and> p \<in> live C"
proof -
  assume B: "broker C hs ts subs" and p: "p \<in> set hs"
  have "core_head \<in> heads C" by (simp add: heads_def)
  then have "ring (links C) core_head (rep_lists C hs ts subs core_head)"
    using B unfolding broker_def by (blast intro: ringsD)
  with p B show ?thesis by (auto simp: rep_lists_def ring_def broker_def)
qed

lemma node_init_ok:
  assumes B: "broker C hs ts subs" and p: "p \<in> set (peers C hs)" "p \<notin> set subs"
  shows "\<exists>L S. ipc_peer_node_init p C = Some (C\<lparr>links := L, node_sevr := S\<rparr>) \<and>
    broker (C\<lparr>links := L, node_sevr := S\<rparr>) hs ts (subs @ [p])"
proof -
  let ?m = "peer_mask (handles C p)" and ?base = "peer_node (handles C p)" and ?ls = "rep_lists C hs ts subs"
  have pk: "peer_ok C hs ts subs p" "node_hb C \<noteq> NULL" "{core_head, timing_head} \<inter> bucket C ` {..<64} = {}"
    "p \<in> live C" "p \<noteq> NULL" using broker_peer [OF B p(1)] broker_handle [OF B] by auto
  have base: "?base \<noteq> NULL" using pk(1) by (simp add: peer_ok_def)
  have H: "bucket C ` {..<64} \<subseteq> heads C" using pk(2) by (auto simp: heads_def)
  have fresh: "\<forall>a\<in>heads C. node_cell ?base ` {..<card (bits ?m)} \<inter> set (a # ?ls a) = {}"
    using unsynced_cells [OF B p] unfolding node_cells_def by blast
  have "nodes_upto C ?base ?m 0 ?ls = ?ls" by (simp add: nodes_upto_def fun_eq_iff)
  then have "rings (links C) (heads C) (nodes_upto C ?base ?m 0 ?ls)" using B by (simp add: broker_def)
  with node_init_loop [OF H base fresh, of 0 "links C" p "node_sevr C"] obtain L where
    L: "ipc_peer_node_init_loop p ?base ?m 0 0 (C\<lparr>links := links C, node_sevr := marked p ?base 0 (node_sevr C)\<rparr>) =
      Some (C\<lparr>links := L, node_sevr := marked p ?base (card (bits ?m)) (node_sevr C)\<rparr>)"
    "rings L (heads C) (nodes_upto C ?base ?m 64 ?ls)" by auto
  have "C\<lparr>links := links C, node_sevr := marked p ?base 0 (node_sevr C)\<rparr> = C"
    by (cases C) (simp add: marked_def fun_eq_iff)
  with L(1) have run: "ipc_peer_node_init p C =
      Some (C\<lparr>links := L, node_sevr := marked p ?base (card (bits ?m)) (node_sevr C)\<rparr>)"
    using sevr_get_live [OF pk(4,5)] by (simp add: ipc_peer_node_init_def)
  have "rep_lists C hs ts (subs @ [p]) a = nodes_upto C ?base ?m 64 ?ls a" if "a \<in> heads C" for a
  proof (cases "a \<in> bucket C ` {..<64}")
    case True
    then obtain i where i: "i < 64" "a = bucket C i" by auto
    then show ?thesis
      using lists_bucket [OF pk(2,3) i(1)]
      by (auto simp: nodes_upto_def topic_nodes_def wants_def node_at_def)
  next
    case False
    with that pk(2) have "a = core_head \<or> a = timing_head" by (auto simp: heads_def)
    with False show ?thesis by (auto simp: rep_lists_def nodes_upto_def)
  qed
  then have R: "rings L (heads C) (rep_lists C hs ts (subs @ [p]))" using L(2)
    by (subst rings_cong [where ls' = "nodes_upto C ?base ?m 64 ?ls"]) (simp_all only:)
  let ?C = "C\<lparr>links := L, node_sevr := marked p ?base (card (bits ?m)) (node_sevr C)\<rparr>"
  have "peer_ok ?C hs ts (subs @ [p]) q" if q: "q \<in> set (peers C hs)" for q
  proof -
    have ok: "peer_ok C hs ts subs q" using B q by (simp add: broker_def)
    have "node_sevr ?C a = (if q \<in> set (subs @ [p]) then q else NULL)" if a: "a \<in> node_cells C q" for a
    proof (cases "q = p")
      case True
      with a show ?thesis by (simp add: marked_def node_cells_def)
    next
      case False
      with pk(1) q a have "a \<notin> node_cells C p" by (auto simp: peer_ok_def)
      with False a ok show ?thesis by (auto simp: marked_def node_cells_def peer_ok_def)
    qed
    with ok show ?thesis by (simp add: peer_ok_def)
  qed
  with R B p have "broker ?C hs ts (subs @ [p])" by (auto simp: broker_def)
  with run show ?thesis by blast
qed

section \<open>Dispatch\<close>

text \<open>Who gets a message for bit \<open>i\<close>: all that want it, or the first with the identity.\<close>

definition deliver :: "core \<Rightarrow> addr list \<Rightarrow> 32 word \<Rightarrow> nat \<Rightarrow> addr list" where
  "deliver C subs dest i =
     (let ps = filter (wants C i) subs in
      if dest = IPC_TO_BROADCAST then ps
      else case find (\<lambda>p. identity (handles C p) = dest) ps of None \<Rightarrow> [] | Some p \<Rightarrow> [p])"

abbreviation logged :: "core \<Rightarrow> addr list \<Rightarrow> ipc_msg \<Rightarrow> core" where
  "logged C ps m \<equiv> C\<lparr>sent := sent C @ map (\<lambda>p. (sock (handles C p), m)) ps\<rparr>"

lemma sevr_get_sent [simp]: "sevr_get (C\<lparr>sent := x\<rparr>) = sevr_get C"
  by (simp add: sevr_get_def fun_eq_iff)

lemma msg_report_ok: "p \<in> live C \<Longrightarrow> p \<noteq> NULL \<Longrightarrow> msg_report H p m C = Some (logged C [p] m)"
  by (simp add: msg_report_def sevr_get_live sys_send_def)

lemma report_all_ok:
  "\<forall>n\<in>set ns. node_sevr C n \<in> live C \<and> node_sevr C n \<noteq> NULL \<Longrightarrow>
   report_all H ns m C = Some (logged C (map (node_sevr C) ns) m)"
proof (induction ns arbitrary: C)
  case Nil
  then show ?case by (cases C) simp
next
  case (Cons n ns)
  then show ?case by (simp add: msg_report_ok)
qed

lemma report_first_ok:
  "\<forall>n\<in>set ns. node_sevr C n \<in> live C \<and> node_sevr C n \<noteq> NULL \<Longrightarrow>
   report_first H dest ns m C =
     Some (logged C (case find (\<lambda>p. identity (handles C p) = dest) (map (node_sevr C) ns) of None \<Rightarrow> [] | Some p \<Rightarrow> [p]) m)"
proof (induction ns)
  case Nil
  then show ?case by (cases C) simp
next
  case (Cons n ns)
  then show ?case by (simp add: msg_report_ok sevr_get_live)
qed

lemma topic_sevrs:
  assumes B: "broker C hs ts subs"
  shows "map (node_sevr C) (topic_nodes C subs i) = filter (wants C i) subs"
proof -
  have "node_sevr C (node_at C p i) = p" if p: "p \<in> set subs" "wants C i p" for p
  proof -
    have "p \<in> set (peers C hs)" using B p by (auto simp: broker_def)
    then have "peer_ok C hs ts subs p" using B by (simp add: broker_def)
    with p node_at_in show ?thesis by (simp add: peer_ok_def)
  qed
  then show ?thesis by (auto simp: topic_nodes_def intro!: map_idI)
qed

lemma broker_sub: "broker C hs ts subs \<Longrightarrow> p \<in> set subs \<Longrightarrow> p \<in> live C \<and> p \<noteq> NULL \<and> p \<in> set (peers C hs)"
proof -
  assume B: "broker C hs ts subs" and p: "p \<in> set subs"
  then have "p \<in> set (peers C hs)" by (auto simp: broker_def)
  with broker_handle [OF B] show ?thesis by (auto simp: peers_def)
qed

lemma dispatch_ok:
  assumes B: "broker C hs ts subs" and i: "i < 64"
  shows "dispatch_topic H dest (2 ^ i) m C = Some (logged C (deliver C subs dest i) (tokened m))"
proof (cases "node_hb C = NULL")
  case True
  then have "subs = []" using B by (auto simp: broker_def)
  then show ?thesis using True by (cases C) (simp add: dispatch_topic_def deliver_def)
next
  case False
  then have d: "{core_head, timing_head} \<inter> bucket C ` {..<64} = {}" using B by (simp add: broker_def)
  have "bucket C i \<in> heads C" using False i by (auto simp: heads_def)
  then have "ring (links C) (bucket C i) (rep_lists C hs ts subs (bucket C i))"
    using B unfolding broker_def by (blast intro: ringsD)
  then have each: "list_for_each (bucket C i) (links C) = Some (topic_nodes C subs i)"
    unfolding lists_bucket [OF False d i] by (rule list_for_each_ok)
  have sv: "map (node_sevr C) (topic_nodes C subs i) = filter (wants C i) subs" by (rule topic_sevrs [OF B])
  have "node_sevr C n \<in> live C \<and> node_sevr C n \<noteq> NULL" if "n \<in> set (topic_nodes C subs i)" for n
  proof -
    have "node_sevr C n \<in> set (map (node_sevr C) (topic_nodes C subs i))" using that by simp
    then have "node_sevr C n \<in> set subs" unfolding sv by simp
    then show ?thesis using broker_sub [OF B] by blast
  qed
  then have all: "\<forall>n\<in>set (topic_nodes C subs i). node_sevr C n \<in> live C \<and> node_sevr C n \<noteq> NULL" by blast
  show ?thesis
    using False each report_all_ok [OF all] report_first_ok [OF all]
    by (simp add: dispatch_topic_def bit_index_exp i msg_broadcast_def msg_unicast_def deliver_def sv)
qed

lemma broker_cong:
  assumes "links C' = links C" "handles C' = handles C" "node_sevr C' = node_sevr C" "node_hb C' = node_hb C" "live C' = live C"
  shows "broker C' hs ts subs = broker C hs ts subs"
proof -
  have b: "bucket C' = bucket C" "bkt_index C' = bkt_index C" "node_at C' = node_at C" "wants C' = wants C"
    "node_cells C' = node_cells C" "peers C' = peers C"
    using assms by (simp_all add: fun_eq_iff bucket_def bkt_index_def node_at_def wants_def node_cells_def peers_def)
  then have "heads C' = heads C" "topic_nodes C' = topic_nodes C"
    using assms by (auto simp: heads_def topic_nodes_def intro!: ext)
  with assms b have "rep_lists C' = rep_lists C" "peer_ok C' = peer_ok C" "heads C' = heads C"
    by (auto simp: rep_lists_def peer_ok_def intro!: ext)
  with assms b show ?thesis by (simp add: broker_def)
qed

lemma broker_sent [simp]: "broker (C\<lparr>sent := x\<rparr>) hs ts subs = broker C hs ts subs"
  by (rule broker_cong) simp_all

section \<open>Release\<close>

lemma map_remove1_distinct: "distinct (map f xs) \<Longrightarrow> p \<in> set xs \<Longrightarrow> map f (remove1 p xs) = remove1 (f p) (map f xs)"
  by (induction xs) (auto simp: image_iff)

text \<open>The lists while the loop of \<open>ipc_release\<close> has unlinked the first \<open>n\<close> nodes.\<close>

definition nodes_without :: "core \<Rightarrow> addr \<Rightarrow> 64 word \<Rightarrow> nat \<Rightarrow> (addr \<Rightarrow> addr list) \<Rightarrow> addr \<Rightarrow> addr list" where
  "nodes_without C base m n ls a =
     (if a \<in> bucket C ` bits m \<and> rank m (bkt_index C a) < n then remove1 (node_cell base (rank m (bkt_index C a))) (ls a)
      else ls a)"

lemma unlink_nodes_ok:
  assumes H: "bucket C ` {..<64} \<subseteq> H" and R: "rings (links C) H ls"
    and mem: "\<forall>i\<in>bits m. node_cell base (rank m i) \<in> set (ls (bucket C i))"
    and set: "\<forall>j<card (bits m). node_sevr C (node_cell base j) \<noteq> NULL"
  shows "n \<le> card (bits m) \<Longrightarrow>
    \<exists>L. unlink_nodes base n C = Some (C\<lparr>links := L\<rparr>) \<and> rings L H (nodes_without C base m n ls)"
proof (induction n)
  case 0
  have "nodes_without C base m 0 ls = ls" by (simp add: nodes_without_def fun_eq_iff)
  with R show ?case by (intro exI [of _ "links C"]) (cases C, simp)
next
  case (Suc n)
  then obtain L where L: "unlink_nodes base n C = Some (C\<lparr>links := L\<rparr>)" "rings L H (nodes_without C base m n ls)" by auto
  have "n \<in> rank m ` bits m" using Suc.prems by (simp add: rank_onto)
  then obtain i where i: "i \<in> bits m" "rank m i = n" by auto
  let ?b = "bucket C i" and ?c = "node_cell base n" and ?ls = "nodes_without C base m n ls"
  have same: "?ls ?b = ls ?b" using i by (simp add: nodes_without_def)
  have bH: "?b \<in> H" using H bits_less [OF i(1)] by auto
  have "?c \<in> set (?ls ?b)" using mem i same by auto
  from rings_delete [OF L(2) bH this] obtain L' where
    L': "list_delete ?c L = Some L'" "rings L' H (?ls(?b := remove1 ?c (?ls ?b)))" by blast
  have "?ls(?b := remove1 ?c (?ls ?b)) = nodes_without C base m (Suc n) ls"
  proof
    fix a
    show "(?ls(?b := remove1 ?c (?ls ?b))) a = nodes_without C base m (Suc n) ls a"
    proof (cases "a = ?b")
      case True
      with i same show ?thesis by (simp add: nodes_without_def)
    next
      case False
      have "rank m (bkt_index C a) \<noteq> n" if "a \<in> bucket C ` bits m"
        using that False i rank_inj [of m] by (auto simp: inj_on_def)
      with False show ?thesis by (auto simp: nodes_without_def less_Suc_eq)
    qed
  qed
  with L L' set Suc.prems show ?case by auto
qed

lemma unlinked_lists:
  assumes B: "broker C hs ts subs" and p: "p \<in> set subs" and a: "a \<in> heads C"
  shows "nodes_without C (peer_node (handles C p)) (peer_mask (handles C p)) (card (bits (peer_mask (handles C p))))
      (rep_lists C hs ts subs) a = rep_lists C hs ts (remove1 p subs) a"
proof -
  let ?m = "peer_mask (handles C p)"
  have pk: "node_hb C \<noteq> NULL" "{core_head, timing_head} \<inter> bucket C ` {..<64} = {}"
    using broker_peer [OF B] broker_sub [OF B p] by blast+
  show ?thesis
  proof (cases "a \<in> bucket C ` {..<64}")
    case False
    with a pk(1) have "a = core_head \<or> a = timing_head" by (auto simp: heads_def)
    moreover have "a \<notin> bucket C ` bits ?m" using False bits_less by auto
    ultimately show ?thesis by (auto simp: nodes_without_def rep_lists_def)
  next
    case True
    then obtain i where i: "i < 64" "a = bucket C i" by auto
    have "ring (links C) a (rep_lists C hs ts subs a)" using B a unfolding broker_def by (blast intro: ringsD)
    then have d: "distinct (topic_nodes C subs i)" using lists_bucket [OF pk i(1)] i by (auto simp: ring_def)
    have dw: "distinct (filter (wants C i) subs)" using B by (simp add: broker_def)
    have "topic_nodes C (remove1 p subs) i =
        (if wants C i p then remove1 (node_at C p i) (topic_nodes C subs i) else topic_nodes C subs i)"
    proof (cases "wants C i p")
      case True
      with p have "p \<in> set (filter (wants C i) subs)" by simp
      from map_remove1_distinct [OF d [unfolded topic_nodes_def] this] True show ?thesis
        by (simp add: topic_nodes_def filter_remove1)
    qed (simp add: topic_nodes_def filter_remove1 remove1_idem)
    then show ?thesis
      using lists_bucket [OF pk i(1)] i
      by (auto simp: nodes_without_def wants_def node_at_def rank_less)
  qed
qed

text \<open>Unlinking the nodes of a peer, synchronised or not.\<close>

lemma unlink_peer:
  assumes B: "broker C hs ts subs" and p: "p \<in> set (peers C hs)"
  shows "\<exists>L. unlink_nodes (peer_node (handles C p)) (nat (bit_count (peer_mask (handles C p)))) C = Some (C\<lparr>links := L\<rparr>) \<and>
    rings L (heads C) (rep_lists C hs ts (remove1 p subs))"
proof -
  let ?m = "peer_mask (handles C p)" and ?b = "peer_node (handles C p)"
  have pk: "peer_ok C hs ts subs p" "node_hb C \<noteq> NULL" "{core_head, timing_head} \<inter> bucket C ` {..<64} = {}"
    using broker_peer [OF B p] by auto
  have R: "rings (links C) (heads C) (rep_lists C hs ts subs)" using B by (simp add: broker_def)
  have n: "nat (bit_count ?m) = card (bits ?m)" by (simp add: bit_count_eq)
  have S: "node_sevr C (node_cell ?b j) = (if p \<in> set subs then p else NULL)" if "j < card (bits ?m)" for j
    using pk(1) that by (auto simp: peer_ok_def node_cells_def)
  show ?thesis
  proof (cases "p \<in> set subs")
    case True
    have p0: "p \<noteq> NULL" using broker_sub [OF B True] by simp
    have H: "bucket C ` {..<64} \<subseteq> heads C" using pk(2) by (auto simp: heads_def)
    have mem: "\<forall>i\<in>bits ?m. node_cell ?b (rank ?m i) \<in> set (rep_lists C hs ts subs (bucket C i))"
      using True lists_bucket [OF pk(2,3)] bits_less by (auto simp: topic_nodes_def node_at_def wants_def)
    have set: "\<forall>j<card (bits ?m). node_sevr C (node_cell ?b j) \<noteq> NULL" using S True p0 by auto
    from unlink_nodes_ok [OF H R mem set order.refl] obtain L where
      L: "unlink_nodes ?b (card (bits ?m)) C = Some (C\<lparr>links := L\<rparr>)"
      "rings L (heads C) (nodes_without C ?b ?m (card (bits ?m)) (rep_lists C hs ts subs))" by blast
    moreover have "rings L (heads C) (rep_lists C hs ts (remove1 p subs))"
      using L(2) unlinked_lists [OF B True]
      by (subst rings_cong [where ls' = "nodes_without C ?b ?m (card (bits ?m)) (rep_lists C hs ts subs)"]) simp_all
    ultimately show ?thesis by (auto simp: n)
  next
    case False
    have "k \<le> card (bits ?m) \<Longrightarrow> unlink_nodes ?b k C = Some C" for k
      by (induction k) (use S False in auto)
    then have "unlink_nodes ?b (card (bits ?m)) C = Some (C\<lparr>links := links C\<rparr>)" by (cases C) simp
    then show ?thesis using R False by (intro exI [of _ "links C"]) (simp add: n remove1_idem)
  qed
qed

section \<open>The set of sockets\<close>

text \<open>The descriptor set and its maximum are what the list of handles says.\<close>

abbreviation sock_of :: "core \<Rightarrow> addr \<Rightarrow> int" where
  "sock_of C p \<equiv> sock (handles C p)"

definition fds_ok :: "core \<Rightarrow> addr list \<Rightarrow> bool" where
  "fds_ok C hs \<longleftrightarrow> inj_on (sock_of C) (set hs) \<and> rfds C = sock_of C ` set hs \<and>
     nfds C = Max (insert 0 (sock_of C ` set hs))"

lemma foldl_max: "foldl (\<lambda>n p. if f p > n then f p else n) (a :: int) xs = Max (insert a (f ` set xs))"
proof (induction xs arbitrary: a)
  case (Cons x xs)
  have "Max (insert a (insert (f x) (f ` set xs))) = Max (insert (max a (f x)) (f ` set xs))"
    by (cases "f ` set xs = {}") (simp_all add: max.assoc)
  with Cons show ?case by (simp add: max_def)
qed simp

lemma fds_del_ok:
  assumes "ring (links C) core_head hs"
  shows "fds_del sk C = Some (C\<lparr>rfds := rfds C - {sk},
    nfds := (if nfds C = sk then Max (insert 0 (sock_of C ` set hs)) else nfds C)\<rparr>)"
  using list_for_each_ok [OF assms] by (cases C) (simp add: fds_del_def foldl_max)

lemma Max_insert_minus:
  assumes "finite S" and "x \<noteq> Max (insert 0 S)"
  shows "Max (insert 0 (S - {x})) = Max (insert (0::int) S)"
proof (rule Max_eqI)
  have "Max (insert 0 S) \<in> insert 0 S" using assms(1) by (intro Max_in) auto
  then show "Max (insert 0 S) \<in> insert 0 (S - {x})" using assms(2) by auto
qed (use assms(1) in auto)

section \<open>Releasing a handle\<close>

definition quiet_manager :: "hooks \<Rightarrow> bool" where
  "quiet_manager H \<longleftrightarrow> (\<forall>p c d C. snd (h_manager H p c d C) = C)"

lemma quiet_manager [simp]: "quiet_manager H \<Longrightarrow> snd (ipc_server_manager H p c d C) = C"
  by (simp add: ipc_server_manager_def quiet_manager_def)

text \<open>A requester with an asynchronous cookie also gives up the cookie; other handles do not.\<close>

definition plain :: "core \<Rightarrow> addr \<Rightarrow> bool" where
  "plain C p \<longleftrightarrow> clazz (handles C p) \<noteq> CLASS_DUMMY \<and>
     (clazz (handles C p) = CLASS_REQUESTER \<longrightarrow> cookie (handles C p) = NULL \<or>
        ipc_cookie_type C (cookie (handles C p)) \<noteq> IPC_COOKIE_ASYNC)"

lemma broker_ring: "broker C hs ts subs \<Longrightarrow> ring (links C) core_head hs"
  using ringsD [of "links C" "heads C" "rep_lists C hs ts subs" core_head]
  by (simp add: broker_def heads_def rep_lists_def)

text \<open>Everything up to the descriptor set: nodes and handle are out of their lists.\<close>

lemma release_links:
  assumes H: "quiet_manager H" and B: "broker C hs ts subs" and p: "p \<in> set hs" "plain C p"
  shows "\<exists>L. ipc_release H p C = (do { D \<leftarrow> fds_del (sock_of C p) (C\<lparr>links := L\<rparr>);
       Some (D\<lparr>closed := closed D @ [sock_of C p], live := live D - {p}\<rparr>) }) \<and>
     rings L (heads C) (rep_lists C (remove1 p hs) ts (remove1 p subs))"
proof -
  have pl: "p \<noteq> NULL" "p \<in> live C" using broker_handle [OF B p(1)] by auto
  have get: "sevr_get (C\<lparr>links := L\<rparr>) p = Some (handles C p)" for L using pl by (simp add: sevr_get_def)
  have ch: "core_head \<in> heads C" by (simp add: heads_def)
  have upd: "(rep_lists C hs ts ss)(core_head := remove1 p hs) = rep_lists C (remove1 p hs) ts ss" for ss
    by (auto simp: rep_lists_def fun_eq_iff)
  obtain L1 where L1: "rings L1 (heads C) (rep_lists C hs ts (remove1 p subs))"
    "clazz (handles C p) = CLASS_SUBSCRIBER \<longrightarrow>
       unlink_nodes (peer_node (handles C p)) (nat (bit_count (peer_mask (handles C p)))) C = Some (C\<lparr>links := L1\<rparr>)"
    "clazz (handles C p) \<noteq> CLASS_SUBSCRIBER \<longrightarrow> L1 = links C"
  proof (cases "clazz (handles C p) = CLASS_SUBSCRIBER")
    case True
    then have "p \<in> set (peers C hs)" using p(1) by (simp add: peers_def)
    from unlink_peer [OF B this] that True show ?thesis by blast
  next
    case False
    then have "p \<notin> set subs" using broker_sub [OF B, of p] by (auto simp: peers_def)
    with that [of "links C"] B False show ?thesis by (simp add: broker_def remove1_idem)
  qed
  have "p \<in> set (rep_lists C hs ts (remove1 p subs) core_head)" using p(1) by (simp add: rep_lists_def)
  from rings_delete [OF L1(1) ch this] obtain L where
    L: "list_delete p L1 = Some L" "rings L (heads C) (rep_lists C (remove1 p hs) ts (remove1 p subs))"
    by (auto simp: upd rep_lists_def [of _ _ _ _ core_head])
  have idle: "C = C\<lparr>links := links C\<rparr>" by (cases C) simp
  have "ipc_release H p C = (do { D \<leftarrow> fds_del (sock_of C p) (C\<lparr>links := L\<rparr>);
       Some (D\<lparr>closed := closed D @ [sock_of C p], live := live D - {p}\<rparr>) })"
    using p(2) L(1) L1(2,3) H get [of L1] sevr_get_live [OF pl(2,1)]
    by (cases "clazz (handles C p)") (auto simp: ipc_release_def plain_def)
  with L(2) show ?thesis by blast
qed

lemma peers_remove1: "distinct hs \<Longrightarrow> set (peers C (remove1 p hs)) = set (peers C hs) - {p}"
  by (auto simp: peers_def)

lemma release_ok:
  assumes H: "quiet_manager H" and B: "broker C hs ts subs" and p: "p \<in> set hs" "plain C p"
  shows "\<exists>L n. ipc_release H p C = Some (C\<lparr>links := L, rfds := rfds C - {sock_of C p}, nfds := n,
        closed := closed C @ [sock_of C p], live := live C - {p}\<rparr>) \<and>
     broker (C\<lparr>links := L, rfds := rfds C - {sock_of C p}, nfds := n,
        closed := closed C @ [sock_of C p], live := live C - {p}\<rparr>) (remove1 p hs) ts (remove1 p subs) \<and>
     n = (if nfds C = sock_of C p then Max (insert 0 (sock_of C ` set (remove1 p hs))) else nfds C)"
proof -
  from release_links [OF assms] obtain L where
    L: "ipc_release H p C = (do { D \<leftarrow> fds_del (sock_of C p) (C\<lparr>links := L\<rparr>);
       Some (D\<lparr>closed := closed D @ [sock_of C p], live := live D - {p}\<rparr>) })"
    "rings L (heads C) (rep_lists C (remove1 p hs) ts (remove1 p subs))" by blast
  have dh: "distinct hs" using broker_ring [OF B] by (simp add: ring_def)
  have ds: "distinct subs" using B by (simp add: broker_def)
  have "ring L core_head (rep_lists C (remove1 p hs) ts (remove1 p subs) core_head)"
    by (rule ringsD [OF L(2)]) (simp add: heads_def)
  then have "ring L core_head (remove1 p hs)" by (simp add: rep_lists_def)
  note fd = fds_del_ok [of "C\<lparr>links := L\<rparr>", simplified, OF this]
  let ?C1 = "C\<lparr>links := L, live := live C - {p}\<rparr>"
  have lv [simp]: "peers (C\<lparr>live := l\<rparr>) = peers C" "node_cells (C\<lparr>live := l\<rparr>) = node_cells C"
    "heads (C\<lparr>live := l\<rparr>) = heads C" "rep_lists (C\<lparr>live := l\<rparr>) = rep_lists C"
    "bucket (C\<lparr>live := l\<rparr>) = bucket C" for C l
    by (auto simp: fun_eq_iff peers_def node_cells_def heads_def rep_lists_def topic_nodes_def node_at_def wants_def [abs_def]
        bkt_index_def bucket_def intro!: ext)
  have pr: "set (peers C (remove1 p hs)) = set (peers C hs) - {p}" by (rule peers_remove1 [OF dh])
  have "peer_ok ?C1 (remove1 p hs) ts (remove1 p subs) q" if "q \<in> set (peers C hs)" "q \<noteq> p" for q
  proof -
    have ok: "peer_ok C hs ts subs q" using B that(1) by (simp add: broker_def)
    have "q \<in> set (remove1 p subs) \<longleftrightarrow> q \<in> set subs" "set (remove1 p hs) = set hs - {p}" using that(2) ds dh by auto
    then show ?thesis using ok unfolding peer_ok_def by (auto simp: pr)
  qed
  moreover have "peers C hs = [] \<Longrightarrow> peers C (remove1 p hs) = []" using pr by (metis Diff_empty empty_Diff set_empty)
  ultimately have "broker ?C1 (remove1 p hs) ts (remove1 p subs)"
    using B L(2) dh ds by (auto simp: broker_def pr)
  then have "broker (C\<lparr>links := L, rfds := r, nfds := n, closed := c, live := live C - {p}\<rparr>) (remove1 p hs) ts (remove1 p subs)" for r n c
    by (subst broker_cong [where C = ?C1]) simp_all
  moreover have "ipc_release H p C = Some (C\<lparr>links := L, rfds := rfds C - {sock_of C p},
      nfds := (if nfds C = sock_of C p then Max (insert 0 (sock_of C ` set (remove1 p hs))) else nfds C),
      closed := closed C @ [sock_of C p], live := live C - {p}\<rparr>)"
    using L(1) fd by simp
  ultimately show ?thesis by blast
qed

lemma release_fds:
  assumes F: "fds_ok C hs" and p: "p \<in> set hs" "distinct hs" and s: "handles C' = handles C"
    "rfds C' = rfds C - {sock_of C p}"
    "nfds C' = (if nfds C = sock_of C p then Max (insert 0 (sock_of C ` set (remove1 p hs))) else nfds C)"
  shows "fds_ok C' (remove1 p hs)"
proof -
  have S: "sock_of C ` (set hs - {p}) = sock_of C ` set hs - {sock_of C p}"
    using F p(1) by (auto simp: fds_ok_def inj_on_def)
  moreover have "sock_of C p \<noteq> Max (insert 0 (sock_of C ` set hs)) \<Longrightarrow>
      Max (insert 0 (sock_of C ` set hs - {sock_of C p})) = Max (insert 0 (sock_of C ` set hs))"
    by (rule Max_insert_minus) simp
  ultimately show ?thesis using F p s by (auto simp: fds_ok_def inj_on_def)
qed

end
