(* ===== verification/IPC_Connect.thy ===== *)
theory IPC_Connect
  imports IPC_Broker
begin

text \<open>
  New handles: connection and registration keep the representation of \<open>IPC_Broker\<close>, given
  that \<open>malloc\<close> returns blocks that are not in use.
\<close>

section \<open>Memory that is not in use\<close>

text \<open>The cells the broker uses: heads, handles, timings and the nodes of all peers.\<close>

definition used :: "core \<Rightarrow> addr list \<Rightarrow> addr list \<Rightarrow> addr set" where
  "used C hs ts = heads C \<union> set hs \<union> set ts \<union> (\<Union>q\<in>set (peers C hs). node_cells C q)"

lemma rep_lists_used:
  assumes B: "broker C hs ts subs" and a: "a \<in> heads C"
  shows "set (a # rep_lists C hs ts subs a) \<subseteq> used C hs ts"
proof -
  have "set (topic_nodes C subs i) \<subseteq> (\<Union>q\<in>set (peers C hs). node_cells C q)" for i
    using B by (fastforce simp: broker_def dest!: topic_nodes_cells)
  then show ?thesis using a by (auto simp: used_def rep_lists_def)
qed

text \<open>Changing a handle that is not in the list, or the server mark of a node not in use.\<close>

lemma broker_handle_upd:
  assumes B: "broker C hs ts subs" and p: "p \<notin> set hs"
  shows "broker (C\<lparr>handles := (handles C)(p := s)\<rparr>) hs ts subs"
proof -
  let ?C = "C\<lparr>handles := (handles C)(p := s)\<rparr>"
  have same: "q \<in> set hs \<Longrightarrow> node_cells ?C q = node_cells C q" "q \<in> set hs \<Longrightarrow> wants ?C i q = wants C i q"
    "q \<in> set hs \<Longrightarrow> node_at ?C q i = node_at C q i" for q i
    using p by (auto simp: node_cells_def wants_def node_at_def)
  have pr: "peers ?C hs = peers C hs" using p unfolding peers_def by (intro filter_cong) auto
  have sub: "set subs \<subseteq> set hs" using B by (auto simp: broker_def peers_def)
  have "topic_nodes ?C subs = topic_nodes C subs"
    unfolding topic_nodes_def using same sub by (auto intro!: ext map_cong filter_cong)
  then have L: "rep_lists ?C hs ts subs = rep_lists C hs ts subs" "heads ?C = heads C" "bucket ?C = bucket C"
    by (auto simp: rep_lists_def heads_def bkt_index_def bucket_def intro!: ext)
  have "peer_ok ?C hs ts subs q" if "q \<in> set (peers C hs)" for q
  proof -
    have q: "q \<in> set hs" "q \<noteq> p" using that p by (auto simp: peers_def)
    have ok: "peer_ok C hs ts subs q" using B that by (simp add: broker_def)
    have "node_cells ?C r = node_cells C r" if "r \<in> set (peers C hs)" for r using that same by (simp add: peers_def)
    then show ?thesis using ok q same(1) [OF q(1)] unfolding peer_ok_def L pr by simp
  qed
  then show ?thesis using B unfolding broker_def L pr by simp
qed

lemma broker_node_upd:
  assumes B: "broker C hs ts subs" and "\<And>q a. q \<in> set (peers C hs) \<Longrightarrow> a \<in> node_cells C q \<Longrightarrow> S a = node_sevr C a"
  shows "broker (C\<lparr>node_sevr := S\<rparr>) hs ts subs"
  using assms by (auto simp: broker_def peer_ok_def)

lemma clear_nodes_eq:
  "clear_nodes base n C = C\<lparr>node_sevr := marked NULL base n (node_sevr C)\<rparr>"
proof (induction n)
  case (Suc n)
  have "(marked NULL base n (node_sevr C))(node_cell base n := NULL) = marked NULL base (Suc n) (node_sevr C)"
    by (auto simp: marked_def fun_eq_iff less_Suc_eq)
  with Suc show ?case by (simp add: Let_def)
qed (cases C, simp add: marked_def)

lemma broker_live: "broker C hs ts subs \<Longrightarrow> live C \<subseteq> l \<Longrightarrow> broker (C\<lparr>live := l\<rparr>) hs ts subs"
proof -
  assume B: "broker C hs ts subs" and l: "live C \<subseteq> l"
  let ?C = "C\<lparr>live := l\<rparr>"
  have b: "bucket ?C = bucket C" "bkt_index ?C = bkt_index C" "node_at ?C = node_at C" "wants ?C = wants C"
    "node_cells ?C = node_cells C" "peers ?C = peers C" "heads ?C = heads C"
    by (simp_all add: fun_eq_iff bucket_def bkt_index_def node_at_def wants_def node_cells_def peers_def heads_def)
  then have "rep_lists ?C = rep_lists C" "peer_ok ?C = peer_ok C"
    by (auto simp: rep_lists_def peer_ok_def topic_nodes_def intro!: ext)
  with B l b show ?thesis by (auto simp: broker_def)
qed

section \<open>Adding a handle\<close>

definition new_peer :: "core \<Rightarrow> addr list \<Rightarrow> addr list \<Rightarrow> addr \<Rightarrow> bool" where
  "new_peer C hs ts p \<longleftrightarrow> node_hb C \<noteq> NULL \<and> peer_node (handles C p) \<noteq> NULL \<and>
     node_cells C p \<inter> insert p (used C hs ts) = {} \<and> (\<forall>a\<in>node_cells C p. node_sevr C a = NULL)"

lemma add_handle:
  assumes B: "broker C hs ts subs" and p: "p \<noteq> NULL" "p \<notin> used C hs ts" "p \<in> live C"
    and new: "clazz (handles C p) = CLASS_SUBSCRIBER \<longrightarrow> new_peer C hs ts p"
  shows "\<exists>L. list_add_tail p core_head (links C) = Some L \<and> broker (C\<lparr>links := L\<rparr>) (hs @ [p]) ts subs"
proof -
  have R: "rings (links C) (heads C) (rep_lists C hs ts subs)" using B by (simp add: broker_def)
  have ch: "core_head \<in> heads C" by (simp add: heads_def)
  have "\<forall>b\<in>heads C. p \<notin> set (b # rep_lists C hs ts subs b)" using rep_lists_used [OF B] p(2) by blast
  from rings_append [OF R ch p(1) this] obtain L where
    L: "list_add_tail p core_head (links C) = Some L"
    "rings L (heads C) ((rep_lists C hs ts subs)(core_head := rep_lists C hs ts subs core_head @ [p]))" by blast
  have "(rep_lists C hs ts subs)(core_head := rep_lists C hs ts subs core_head @ [p]) = rep_lists C (hs @ [p]) ts subs"
    by (auto simp: rep_lists_def fun_eq_iff)
  with L(2) have R': "rings L (heads C) (rep_lists C (hs @ [p]) ts subs)" by simp
  have pr: "set (peers C (hs @ [p])) = set (peers C hs) \<union> (if clazz (handles C p) = CLASS_SUBSCRIBER then {p} else {})"
    by (auto simp: peers_def)
  have ps: "p \<notin> set subs" "p \<notin> set (peers C hs)" using B p(2) by (auto simp: broker_def peers_def used_def)
  have old: "peer_ok (C\<lparr>links := L\<rparr>) (hs @ [p]) ts subs q" if q: "q \<in> set (peers C hs)" for q
  proof -
    have ok: "peer_ok C hs ts subs q" using B q by (simp add: broker_def)
    have "p \<notin> node_cells C q" using p(2) q by (auto simp: used_def)
    moreover have "clazz (handles C p) = CLASS_SUBSCRIBER \<longrightarrow> node_cells C q \<inter> node_cells C p = {}"
      using new q unfolding new_peer_def used_def by blast
    ultimately show ?thesis using ok unfolding peer_ok_def by (auto simp: pr)
  qed
  have "peer_ok (C\<lparr>links := L\<rparr>) (hs @ [p]) ts subs p" if "clazz (handles C p) = CLASS_SUBSCRIBER"
  proof -
    have n: "new_peer C hs ts p" using new that by simp
    have "node_cells C p \<inter> node_cells C q = {}" if "q \<in> set (peers C hs)" for q
      using n that unfolding new_peer_def used_def by blast
    moreover have "node_cells C p \<inter> (heads C \<union> set (hs @ [p]) \<union> set ts) = {}"
      using n unfolding new_peer_def used_def by auto
    ultimately show ?thesis using n ps(1) unfolding new_peer_def peer_ok_def by (simp add: pr)
  qed
  with old R' B p(3) new have "broker (C\<lparr>links := L\<rparr>) (hs @ [p]) ts subs"
    by (auto simp: broker_def pr new_peer_def peers_def split: if_splits)
  with L(1) show ?thesis by blast
qed

definition init_handle :: "ipc_class \<Rightarrow> 32 word \<Rightarrow> int \<Rightarrow> sock_handler \<Rightarrow> ipc_server \<Rightarrow> ipc_server" where
  "init_handle cl i sk h s = s\<lparr>clazz := cl, sock := sk, identity := i, sv_handler := h, cookie := NULL\<rparr>"

lemma used_handle_upd:
  assumes "p \<notin> set hs"
  shows "used (C\<lparr>handles := (handles C)(p := s)\<rparr>) hs ts = used C hs ts"
proof -
  have "peers (C\<lparr>handles := (handles C)(p := s)\<rparr>) hs = peers C hs"
    using assms unfolding peers_def by (intro filter_cong) auto
  moreover have "node_cells (C\<lparr>handles := (handles C)(p := s)\<rparr>) q = node_cells C q" if "q \<in> set (peers C hs)" for q
    using that assms by (auto simp: node_cells_def peers_def)
  ultimately show ?thesis by (simp add: used_def heads_def bucket_def [abs_def])
qed

lemma sevr_init_ok:
  assumes B: "broker C hs ts subs" and p: "p \<noteq> NULL" "p \<notin> used C hs ts" "p \<in> live C"
    and new: "cl = CLASS_SUBSCRIBER \<longrightarrow> new_peer C hs ts p"
  shows "\<exists>L. sevr_init p cl i sk h C = Some (fds_add sk (C\<lparr>handles := (handles C)(p := init_handle cl i sk h (handles C p)), links := L\<rparr>)) \<and>
    broker (fds_add sk (C\<lparr>handles := (handles C)(p := init_handle cl i sk h (handles C p)), links := L\<rparr>)) (hs @ [p]) ts subs"
proof -
  let ?C = "C\<lparr>handles := (handles C)(p := init_handle cl i sk h (handles C p))\<rparr>"
  have ph: "p \<notin> set hs" using p(2) by (simp add: used_def)
  have u: "used ?C hs ts = used C hs ts" by (rule used_handle_upd [OF ph])
  have B': "broker ?C hs ts subs" by (rule broker_handle_upd [OF B ph])
  have nc: "node_cells ?C p = node_cells C p" "clazz (handles ?C p) = cl" "peer_node (handles ?C p) = peer_node (handles C p)"
    "node_hb ?C = node_hb C" "node_sevr ?C = node_sevr C" by (simp_all add: node_cells_def init_handle_def)
  have "clazz (handles ?C p) = CLASS_SUBSCRIBER \<longrightarrow> new_peer ?C hs ts p"
    using new unfolding new_peer_def nc u .
  from add_handle [OF B' p(1) _ _ this] p(2,3) u obtain L where
    L: "list_add_tail p core_head (links C) = Some L" "broker (?C\<lparr>links := L\<rparr>) (hs @ [p]) ts subs" by auto
  have "broker (fds_add sk (?C\<lparr>links := L\<rparr>)) (hs @ [p]) ts subs"
    using L(2) by (subst broker_cong [where C = "?C\<lparr>links := L\<rparr>"]) (simp_all add: fds_add_def)
  with L(1) show ?thesis by (auto simp: sevr_init_def init_handle_def)
qed

lemma add_fds:
  assumes F: "fds_ok C hs" and p: "p \<notin> set hs" and s: "\<forall>q\<in>set hs. handles C' q = handles C q"
    "sock_of C' p \<notin> sock_of C ` set hs" "rfds C' = insert (sock_of C' p) (rfds C)"
    "nfds C' = (if nfds C < sock_of C' p then sock_of C' p else nfds C)"
  shows "fds_ok C' (hs @ [p])"
proof -
  let ?S = "sock_of C ` set hs"
  have im: "sock_of C' ` set hs = ?S" using s(1) by force
  have im': "sock_of C' ` set (hs @ [p]) = insert (sock_of C' p) ?S" using im by simp
  have "nfds C' = max (sock_of C' p) (nfds C)" using s(4) by (simp add: max_def)
  also have "nfds C = Max (insert 0 ?S)" using F by (simp add: fds_ok_def)
  also have "max (sock_of C' p) (Max (insert 0 ?S)) = Max (insert 0 (insert (sock_of C' p) ?S))"
    by (subst insert_commute) simp
  finally have n: "nfds C' = Max (insert 0 (sock_of C' ` set (hs @ [p])))" unfolding im' .
  have i: "inj_on (sock_of C) (set hs)" "rfds C = ?S" using F by (simp_all add: fds_ok_def)
  have "inj_on (sock_of C') (set hs)" using i(1) s(1) by (simp cong: inj_on_cong)
  then have "inj_on (sock_of C') (set (hs @ [p]))" using s(2) p im by simp
  then show ?thesis unfolding fds_ok_def using n s(3) i(2) im' by (simp only: simp_thms)
qed

section \<open>The bucket array\<close>

definition region :: "addr \<Rightarrow> nat \<Rightarrow> addr set" where
  "region b n = (\<lambda>k. b + 16 * k) ` {..<n}"

lemma init_heads_ok:
  assumes R: "rings L H ls" and b: "b \<noteq> NULL"
  shows "region b n \<inter> (\<Union>a\<in>H. set (a # ls a)) = {} \<Longrightarrow>
    \<exists>L'. init_heads b n L = Some L' \<and> rings L' (H \<union> region b n) (\<lambda>a. if a \<in> region b n then [] else ls a)"
proof (induction n)
  case 0
  then show ?case using R by (simp add: region_def)
next
  case (Suc n)
  let ?a = "b + 16 * n"
  let ?ls = "\<lambda>a. if a \<in> region b n then [] else ls a"
  have rs: "region b (Suc n) = insert ?a (region b n)" "?a \<notin> region b n" by (auto simp: region_def lessThan_Suc)
  then obtain L1 where L1: "init_heads b n L = Some L1" "rings L1 (H \<union> region b n) ?ls"
    using Suc by (metis Int_insert_left_if0 Int_Un_distrib2 Un_empty insert_is_Un inf_sup_absorb Int_insert_left insert_not_empty)
  have "?a \<notin> H \<union> region b n" "\<forall>c\<in>H \<union> region b n. ?a \<notin> set (?ls c)"
    using Suc.prems rs by auto
  from rings_new_head [OF L1(2) _ this] b obtain L' where
    L': "INIT_LIST_HEAD ?a L1 = Some L'" "rings L' (insert ?a (H \<union> region b n)) (?ls(?a := []))" by auto
  have "?ls(?a := []) = (\<lambda>a. if a \<in> region b (Suc n) then [] else ls a)" by (auto simp: rs(1))
  moreover have "insert ?a (H \<union> region b n) = H \<union> region b (Suc n)" by (auto simp: rs(1))
  ultimately show ?case using L1(1) L' by auto
qed

lemma bucket_init_ok:
  assumes B: "broker C hs ts subs" and n: "node_hb C = NULL" and b: "b \<noteq> NULL" "region b 64 \<inter> used C hs ts = {}"
  shows "\<exists>L. node_hash_bucket_init (Some b) C = Some (0, C\<lparr>node_hb := b, links := L\<rparr>) \<and>
    broker (C\<lparr>node_hb := b, links := L\<rparr>) hs ts subs"
proof -
  have pr: "peers C hs = []" "subs = []" using B n by (auto simp: broker_def)
  have R: "rings (links C) (heads C) (rep_lists C hs ts subs)" using B by (simp add: broker_def)
  have "region b 64 \<inter> (\<Union>a\<in>heads C. set (a # rep_lists C hs ts subs a)) = {}"
    using b(2) rep_lists_used [OF B] by blast
  from init_heads_ok [OF R b(1) this] obtain L where
    L: "init_heads b 64 (links C) = Some L"
    "rings L (heads C \<union> region b 64) (\<lambda>a. if a \<in> region b 64 then [] else rep_lists C hs ts subs a)" by blast
  let ?C = "C\<lparr>node_hb := b, links := L\<rparr>"
  have bk: "bucket ?C ` {..<64} = region b 64" by (simp add: bucket_def region_def)
  have hd: "heads ?C = heads C \<union> region b 64" using b(1) n bk by (simp add: heads_def)
  have dis: "{core_head, timing_head} \<inter> region b 64 = {}" using b(2) by (auto simp: used_def heads_def)
  have "rep_lists ?C hs ts subs a = (if a \<in> region b 64 then [] else rep_lists C hs ts subs a)" for a
    using dis pr(2) by (auto simp: rep_lists_def topic_nodes_def)
  then have "rings L (heads ?C) (rep_lists ?C hs ts subs)" using L(2) unfolding hd
    by (subst rings_cong [where ls' = "\<lambda>a. if a \<in> region b 64 then [] else rep_lists C hs ts subs a"]) simp_all
  moreover have "peers ?C hs = []" using pr(1) by (simp add: peers_def)
  ultimately have "broker ?C hs ts subs" using B b(1) bk dis by (simp add: broker_def pr)
  with L(1) show ?thesis by (intro exI [of _ L]) (simp add: node_hash_bucket_init_def)
qed

section \<open>Registration\<close>

text \<open>What \<open>malloc\<close> promises the registration of a mask: blocks nobody uses.\<close>

definition fresh_mem :: "core \<Rightarrow> addr list \<Rightarrow> addr list \<Rightarrow> 64 word \<Rightarrow> addr \<Rightarrow> addr \<Rightarrow> mem \<Rightarrow> bool" where
  "fresh_mem C hs ts msk p nb M \<longleftrightarrow>
     (let N = node_cell nb ` {..<card (bits msk)} in
      m_handle M = Some p \<and> m_nodes M = Some nb \<and> p \<noteq> NULL \<and> nb \<noteq> NULL \<and> p \<notin> used C hs ts \<and>
      N \<inter> insert p (used C hs ts) = {} \<and>
      (node_hb C = NULL \<longrightarrow> (case m_bucket M of
          None \<Rightarrow> False
        | Some b \<Rightarrow> b \<noteq> NULL \<and> region b 64 \<inter> (insert p (used C hs ts) \<union> N) = {})))"

lemma used_upd [simp]: "used (C\<lparr>links := L\<rparr>) = used C" "used (C\<lparr>node_sevr := S\<rparr>) = used C"
  by (simp_all add: used_def fun_eq_iff)

lemma used_live [simp]: "used (C\<lparr>live := l\<rparr>) = used C"
  by (simp add: used_def fun_eq_iff heads_def peers_def node_cells_def bucket_def [abs_def])

text \<open>The first step: the bucket array is there, and the fresh blocks stay fresh.\<close>

lemma bucket_step:
  assumes B: "broker C hs ts subs" and M: "fresh_mem C hs ts msk p nb M"
  shows "\<exists>L b. (if node_hb C = NULL then node_hash_bucket_init (m_bucket M) C else Some (0, C)) =
      Some (0, C\<lparr>node_hb := b, links := L\<rparr>) \<and> b \<noteq> NULL \<and> broker (C\<lparr>node_hb := b, links := L\<rparr>) hs ts subs \<and>
    insert p (node_cell nb ` {..<card (bits msk)}) \<inter> used (C\<lparr>node_hb := b\<rparr>) hs ts = {}"
proof (cases "node_hb C = NULL")
  case False
  have "C = C\<lparr>node_hb := node_hb C, links := links C\<rparr>" "C = C\<lparr>node_hb := node_hb C\<rparr>" by (cases C, simp)+
  with False M B show ?thesis
    by (intro exI [of _ "links C"] exI [of _ "node_hb C"]) (auto simp: fresh_mem_def Let_def)
next
  case True
  let ?N = "node_cell nb ` {..<card (bits msk)}"
  from M True obtain b where b: "m_bucket M = Some b" "b \<noteq> NULL" "region b 64 \<inter> (insert p (used C hs ts) \<union> ?N) = {}"
    by (auto simp: fresh_mem_def Let_def split: option.splits)
  have dj: "region b 64 \<inter> used C hs ts = {}" using b(3) by blast
  from bucket_init_ok [OF B True b(2) dj] obtain L where
    L: "node_hash_bucket_init (Some b) C = Some (0, C\<lparr>node_hb := b, links := L\<rparr>)"
    "broker (C\<lparr>node_hb := b, links := L\<rparr>) hs ts subs" by blast
  have "peers C hs = []" using B True by (simp add: broker_def)
  then have "used (C\<lparr>node_hb := b\<rparr>) hs ts = used C hs ts \<union> region b 64"
    using True b(2) by (auto simp: used_def heads_def peers_def bucket_def region_def)
  moreover have "insert p ?N \<inter> used C hs ts = {}" using M by (simp add: fresh_mem_def Let_def)
  ultimately have "insert p ?N \<inter> used (C\<lparr>node_hb := b\<rparr>) hs ts = {}" using b(3) by blast
  with L b(1,2) True show ?thesis by (intro exI [of _ L] exI [of _ b]) simp
qed

lemma peer_create_ok:
  assumes B: "broker C hs ts subs" and M: "fresh_mem C hs ts msk p nb M" and msk: "msk \<noteq> 0"
  shows "\<exists>C'. ipc_peer_create M msk CLASS_SUBSCRIBER i sk C = Some (p, C') \<and> broker C' (hs @ [p]) ts subs \<and>
    handles C' p = (init_handle CLASS_SUBSCRIBER i sk COMMON_HANDLER (handles C p))\<lparr>peer_mask := msk, peer_node := nb\<rparr> \<and>
    (\<forall>q\<in>set hs. handles C' q = handles C q) \<and> buf C' = buf C \<and> sent C' = sent C \<and> closed C' = closed C \<and>
    rfds C' = insert sk (rfds C) \<and> nfds C' = (if nfds C < sk then sk else nfds C)"
proof -
  let ?n = "card (bits msk)"
  let ?N = "node_cell nb ` {..<?n}"
  from bucket_step [OF B M] obtain L b where
    L: "(if node_hb C = NULL then node_hash_bucket_init (m_bucket M) C else Some (0, C)) = Some (0, C\<lparr>node_hb := b, links := L\<rparr>)"
    "b \<noteq> NULL" "broker (C\<lparr>node_hb := b, links := L\<rparr>) hs ts subs"
    "insert p ?N \<inter> used (C\<lparr>node_hb := b\<rparr>) hs ts = {}" by blast
  define C1 where "C1 = C\<lparr>node_hb := b, links := L\<rparr>"
  define C2 where "C2 = C1\<lparr>node_sevr := (marked NULL nb ?n (node_sevr C)), live := insert p (live C)\<rparr>"
  define s where "s = (handles C p)\<lparr>peer_mask := msk, peer_node := nb\<rparr>"
  define C3 where "C3 = C2\<lparr>handles := (handles C2)(p := s)\<rparr>"
  have p: "p \<noteq> NULL" "nb \<noteq> NULL" "p \<notin> ?N" "m_handle M = Some p" "m_nodes M = Some nb"
    using M by (auto simp: fresh_mem_def Let_def)
  have us: "used C2 hs ts = used C1 hs ts" "used C1 hs ts = used (C\<lparr>node_hb := b\<rparr>) hs ts" by (simp_all add: C2_def C1_def)
  have ph: "p \<notin> set hs" using L(4) by (auto simp: used_def)
  have "broker (C1\<lparr>node_sevr := (marked NULL nb ?n (node_sevr C))\<rparr>) hs ts subs"
  proof (rule broker_node_upd)
    show "broker C1 hs ts subs" using L(3) by (simp add: C1_def)
    fix q a assume "q \<in> set (peers C1 hs)" "a \<in> node_cells C1 q"
    then have "a \<in> used C1 hs ts" by (auto simp: used_def)
    then have "a \<notin> ?N" using L(4) us(2) by blast
    then show "marked NULL nb ?n (node_sevr C) a = node_sevr C1 a" by (simp add: marked_def C1_def)
  qed
  then have "broker C2 hs ts subs" unfolding C2_def by (rule broker_live) (auto simp: C1_def)
  then have B3: "broker C3 hs ts subs" unfolding C3_def by (rule broker_handle_upd [OF _ ph])
  have u3: "used C3 hs ts = used (C\<lparr>node_hb := b\<rparr>) hs ts" using used_handle_upd [OF ph] us by (simp add: C3_def)
  have h3: "handles C3 p = s" "node_hb C3 = b" "node_sevr C3 = (marked NULL nb ?n (node_sevr C))" "p \<in> live C3"
    by (simp_all add: C3_def C2_def C1_def)
  have n3: "node_cells C3 p = ?N" by (simp add: node_cells_def h3 s_def)
  have "new_peer C3 hs ts p" unfolding new_peer_def n3 u3 h3 using L(2,4) p by (auto simp: s_def marked_def)
  then have new: "CLASS_SUBSCRIBER = CLASS_SUBSCRIBER \<longrightarrow> new_peer C3 hs ts p" by simp
  have "p \<notin> used C3 hs ts" using L(4) u3 by blast
  from sevr_init_ok [OF B3 p(1) this h3(4) new, of i sk COMMON_HANDLER] obtain L' where
    L': "sevr_init p CLASS_SUBSCRIBER i sk COMMON_HANDLER C3 = Some (fds_add sk (C3\<lparr>handles := (handles C3)(p := init_handle CLASS_SUBSCRIBER i sk COMMON_HANDLER s), links := L'\<rparr>))"
    "broker (fds_add sk (C3\<lparr>handles := (handles C3)(p := init_handle CLASS_SUBSCRIBER i sk COMMON_HANDLER s), links := L'\<rparr>)) (hs @ [p]) ts subs"
    by (auto simp: h3(1))
  have "nat (bit_count msk) = ?n" by (simp add: bit_count_eq)
  then have "ipc_peer_create M msk CLASS_SUBSCRIBER i sk C = Some (p, fds_add sk (C3\<lparr>handles := (handles C3)(p := init_handle CLASS_SUBSCRIBER i sk COMMON_HANDLER s), links := L'\<rparr>))"
    using L(1) L'(1) msk p(4,5)
    by (simp add: ipc_peer_create_def mem_simps clear_nodes_eq C3_def C2_def C1_def s_def)
  with L'(2) ph show ?thesis
    by (auto simp: fds_add_def C3_def C2_def C1_def s_def init_handle_def)
qed

text \<open>A handle just added and then released leaves the broker as it was.\<close>

lemma release_new:
  assumes H: "quiet_manager H" and B: "broker C (hs @ [p]) ts subs" and p: "plain C p" "p \<notin> set hs" "p \<notin> set subs"
  shows "\<exists>C'. ipc_release H p C = Some C' \<and> broker C' hs ts subs \<and> closed C' = closed C @ [sock_of C p] \<and> sent C' = sent C"
proof -
  have "remove1 p (hs @ [p]) = hs" "remove1 p subs = subs" using p(2,3) by (simp_all add: remove1_append remove1_idem)
  with release_ok [OF H B _ p(1)] show ?thesis by auto
qed

lemma send_msg_eq: "send_msg H sk m C = (h_send H sk (tokened m) C, C\<lparr>sent := sent C @ [(sk, tokened m)]\<rparr>)"
  by (simp add: send_msg_def sys_send_def)

lemma register_ok:
  assumes H: "quiet_manager H" and B: "broker C hs ts subs" and b: "buf C = Some b"
    and M: "fresh_mem C hs ts (reg_mask m) p nb M" and msk: "reg_mask m \<noteq> 0"
  shows "\<exists>r C'. ipc_server_register H M sk m C = Some (r, C') \<and>
    (if r = 0 then broker C' (hs @ [p]) ts subs \<and> closed C' = closed C \<and>
        sent C' = sent C @ [(sk, tokened (m\<lparr>msg_id := IPC_SDK_MSG_SUCCESS, msg_data_len := 4,
          msg_data := put_bytes 0 (le32 (of_nat (buf_size b))) (msg_data m)\<rparr>))]
     else r = -1 \<and> broker C' hs ts subs \<and> closed C' = closed C @ [sk])"
proof -
  from peer_create_ok [OF B M msk, of "msg_from m" sk] obtain C1 where
    C1: "ipc_peer_create M (reg_mask m) CLASS_SUBSCRIBER (msg_from m) sk C = Some (p, C1)" "broker C1 (hs @ [p]) ts subs"
    "handles C1 p = (init_handle CLASS_SUBSCRIBER (msg_from m) sk COMMON_HANDLER (handles C p))\<lparr>peer_mask := reg_mask m, peer_node := nb\<rparr>"
    "buf C1 = buf C" "sent C1 = sent C" "closed C1 = closed C" by blast
  have p: "p \<noteq> NULL" "p \<notin> set hs" using M by (auto simp: fresh_mem_def Let_def used_def)
  have ps: "p \<notin> set subs" using B p(2) by (auto simp: broker_def peers_def)
  have pl: "plain (C1\<lparr>sent := x\<rparr>) p" "sock_of (C1\<lparr>sent := x\<rparr>) p = sk" for x
    by (simp_all add: plain_def C1(3) init_handle_def)
  have "\<exists>C'. ipc_release H p (C1\<lparr>sent := x\<rparr>) = Some C' \<and> broker C' hs ts subs \<and> closed C' = closed C @ [sk]" for x
    using release_new [OF H, of "C1\<lparr>sent := x\<rparr>" hs p ts subs] C1(2,6) pl p(2) ps by auto
  then obtain rel where rel: "\<And>x. ipc_release H p (C1\<lparr>sent := x\<rparr>) = Some (rel x)" "\<And>x. broker (rel x) hs ts subs"
    "\<And>x. closed (rel x) = closed C @ [sk]" by metis
  show ?thesis
    using msk C1(1) p(1) H C1(2,4,5,6) b rel
    by (cases "fst (ipc_server_manager H p CLIENT_REGISTER (reg_data m) C1) < 0")
      (auto simp: ipc_server_register_def send_msg_eq Let_def split_def)
qed

text \<open>The same for a requester.\<close>

lemma connect_ok:
  assumes H: "quiet_manager H" and B: "broker C hs ts subs"
    and M: "m_handle M = Some p" "p \<noteq> NULL" "p \<notin> used C hs ts"
  shows "\<exists>r C'. ipc_server_connect H M sk m C = Some (r, C') \<and>
    (if r = 0 then broker C' (hs @ [p]) ts subs \<and> closed C' = closed C \<and>
        sent C' = sent C @ [(sk, tokened (m\<lparr>msg_id := IPC_SDK_MSG_SUCCESS, msg_data_len := 0\<rparr>))]
     else r = -1 \<and> broker C' hs ts subs \<and> closed C' = closed C @ [sk])"
proof -
  let ?C = "C\<lparr>live := insert p (live C)\<rparr>" and ?i = "from_le32 (take 4 (msg_data m))"
  have B1: "broker ?C hs ts subs" by (rule broker_live [OF B]) auto
  from sevr_init_ok [OF B1 M(2), of CLASS_REQUESTER ?i sk COMMON_HANDLER] M(3) obtain L where
    L: "sevr_init p CLASS_REQUESTER ?i sk COMMON_HANDLER ?C = Some (fds_add sk (?C\<lparr>handles := (handles C)(p := init_handle CLASS_REQUESTER ?i sk COMMON_HANDLER (handles C p)), links := L\<rparr>))"
    "broker (fds_add sk (?C\<lparr>handles := (handles C)(p := init_handle CLASS_REQUESTER ?i sk COMMON_HANDLER (handles C p)), links := L\<rparr>)) (hs @ [p]) ts subs"
    by auto
  define C1 where "C1 = fds_add sk (?C\<lparr>handles := (handles C)(p := init_handle CLASS_REQUESTER ?i sk COMMON_HANDLER (handles C p)), links := L\<rparr>)"
  have c1: "ipc_server_create (m_handle M) CLASS_REQUESTER ?i sk COMMON_HANDLER C = Some (p, C1)" "broker C1 (hs @ [p]) ts subs"
    "sent C1 = sent C" "closed C1 = closed C"
    using L M(1) by (simp_all add: ipc_server_create_def C1_def fds_add_def)
  have p: "p \<notin> set hs" using M(3) by (auto simp: used_def)
  have ps: "p \<notin> set subs" using B p by (auto simp: broker_def peers_def)
  have pl: "plain (C1\<lparr>sent := x\<rparr>) p" "sock_of (C1\<lparr>sent := x\<rparr>) p = sk" for x
    by (simp_all add: plain_def C1_def init_handle_def fds_add_def)
  have "\<exists>C'. ipc_release H p (C1\<lparr>sent := x\<rparr>) = Some C' \<and> broker C' hs ts subs \<and> closed C' = closed C @ [sk]" for x
    using release_new [OF H, of "C1\<lparr>sent := x\<rparr>" hs p ts subs] c1(2,4) pl p ps by auto
  then obtain rel where rel: "\<And>x. ipc_release H p (C1\<lparr>sent := x\<rparr>) = Some (rel x)" "\<And>x. broker (rel x) hs ts subs"
    "\<And>x. closed (rel x) = closed C @ [sk]" by metis
  show ?thesis
    using c1 M(2) H rel
    by (cases "fst (ipc_server_manager H p CLIENT_CONNECT [] C1) < 0")
      (auto simp: ipc_server_connect_def send_msg_eq Let_def split_def)
qed

end
