(* ===== verification/IPC_Timing_Proofs.thy ===== *)
theory IPC_Timing_Proofs
  imports IPC_Timing
begin

text \<open>
  Timing events: the order of expiry times, the sorted list that \<open>timing_insert\<close> keeps, and
  the expiry pass as a function on the list of armed timings.
\<close>

section \<open>Times\<close>

lemma timercmp_irrefl [simp]: "\<not> timercmp_less a a"
  by (simp add: timercmp_less_def)

lemma timercmp_trans: "timercmp_less a b \<Longrightarrow> timercmp_less b c \<Longrightarrow> timercmp_less a c"
  by (auto simp: timercmp_less_def split: if_splits)

lemma timercmp_le_trans: "\<not> timercmp_less b a \<Longrightarrow> \<not> timercmp_less c b \<Longrightarrow> \<not> timercmp_less c a"
  by (auto simp: timercmp_less_def split: if_splits)

lemma timercmp_asym: "timercmp_less a b \<Longrightarrow> \<not> timercmp_less b a"
  by (auto simp: timercmp_less_def split: if_splits)

lemma timing_carry_eq: "0 \<le> u \<Longrightarrow> timing_carry s u = (s + u div 1000000, u mod 1000000)"
proof (induction s u rule: timing_carry.induct)
  case (1 s u)
  show ?case
  proof (cases "u \<ge> 1000000")
    case True
    have q: "(s + 1) + (u - 1000000) div 1000000 = s + u div 1000000" "(u - 1000000) mod 1000000 = u mod 1000000"
      using div_add_self2 [of "1000000::int" "u - 1000000"] mod_add_self2 [of "u - 1000000" "1000000::int"]
      by simp_all
    have "timing_carry s u = timing_carry (s + 1) (u - 1000000)" using True by (subst timing_carry.simps) simp
    also have "\<dots> = (s + 1 + (u - 1000000) div 1000000, (u - 1000000) mod 1000000)" using 1 True by simp
    finally show ?thesis by (simp only: q)
  qed (use 1 in \<open>subst timing_carry.simps, simp\<close>)
qed

section \<open>The sorted list\<close>

definition expire_at :: "(addr \<Rightarrow> ipc_timing) \<Rightarrow> addr \<Rightarrow> timeval" where
  "expire_at T t = (expire_sec (T t), expire_usec (T t))"

lemma expire_of_at: "expire_of C t = expire_at (timings C) t"
  by (simp add: expire_of_def expire_at_def)

definition by_expiry :: "(addr \<Rightarrow> ipc_timing) \<Rightarrow> addr list \<Rightarrow> bool" where
  "by_expiry T = sorted_wrt (\<lambda>a b. \<not> timercmp_less (expire_at T b) (expire_at T a))"

fun ins :: "(addr \<Rightarrow> ipc_timing) \<Rightarrow> addr \<Rightarrow> addr list \<Rightarrow> addr list" where
  "ins T t [] = [t]"
| "ins T t (p # ps) = (if timercmp_less (expire_at T t) (expire_at T p) then t # p # ps else p # ins T t ps)"

lemma set_ins [simp]: "set (ins T t ps) = insert t (set ps)"
  by (induction ps) auto

lemma ins_cong: "T t = T' t \<Longrightarrow> (\<And>p. p \<in> set ps \<Longrightarrow> T p = T' p) \<Longrightarrow> ins T t ps = ins T' t ps"
  by (induction ps) (auto simp: expire_at_def)

lemma by_expiry_cong: "(\<And>p. p \<in> set ps \<Longrightarrow> T p = T' p) \<Longrightarrow> by_expiry T ps = by_expiry T' ps"
  unfolding by_expiry_def expire_at_def by (induction ps) auto

lemma by_expiry_ins: "by_expiry T ps \<Longrightarrow> by_expiry T (ins T t ps)"
  unfolding by_expiry_def
  by (induction ps) (auto dest: timercmp_asym timercmp_trans intro: timercmp_le_trans)

lemma ins_past: "\<forall>e\<in>set es. \<not> timercmp_less (expire_at T t) (expire_at T e) \<Longrightarrow> ins T t (es @ ps) = es @ ins T t ps"
  by (induction es) auto

lemma timing_pos_ins:
  "\<exists>us vs. ps = us @ vs \<and> timing_pos C t ps = hd (vs @ [timing_head]) \<and> ins (timings C) t ps = us @ t # vs"
proof (induction ps)
  case (Cons p ps)
  then obtain us vs where "ps = us @ vs" "timing_pos C t ps = hd (vs @ [timing_head])" "ins (timings C) t ps = us @ t # vs"
    by blast
  then show ?case
    by (cases "timercmp_less (expire_of C t) (expire_of C p)")
      (fastforce simp: expire_of_at intro: exI [of _ "[]"] exI [of _ "p # us"])+
qed simp

lemma timing_insert_ok:
  assumes "ring (links C) timing_head ps" and "t \<noteq> NULL" and "t \<notin> set (timing_head # ps)"
  shows "\<exists>L. timing_insert t C = Some (C\<lparr>links := L\<rparr>) \<and> ring L timing_head (ins (timings C) t ps) \<and>
    only (links C) L (set (t # timing_head # ps))"
proof -
  obtain us vs where uv: "ps = us @ vs" "timing_pos C t ps = hd (vs @ [timing_head])"
    "ins (timings C) t ps = us @ t # vs" using timing_pos_ins by blast
  with list_insert_before_ok [of "links C" timing_head us vs t] assms obtain L where
    "list_add_tail t (timing_pos C t ps) (links C) = Some L" "ring L timing_head (us @ t # vs)"
    "only (links C) L (set (t # timing_head # ps))" by auto
  with uv list_for_each_ok [OF assms(1)] show ?thesis by (auto simp: timing_insert_def)
qed

text \<open>A timing that is not armed is a ring of its own, and deleting it again changes nothing.\<close>

lemma list_del_init_idle: "ring h t [] \<Longrightarrow> list_del_init t h = Some h"
proof -
  assume r: "ring h t []"
  then have "t \<noteq> NULL" "h t = \<lparr>list_next = t, list_prev = t\<rparr>" by (auto simp: ring_def intro: list_head.equality)
  then show ?thesis
    by (simp add: list_del_init_def list_del_between_def INIT_LIST_HEAD_def mem_simps fun_upd_idem)
qed

lemma del_init_any:
  assumes "ring h head ps" and "t \<in> set ps \<or> t \<notin> set (head # ps) \<and> ring h t []"
  shows "\<exists>h'. list_del_init t h = Some h' \<and> ring h' head (remove1 t ps) \<and> ring h' t [] \<and>
    only h h' (set (t # head # ps))"
proof (cases "t \<in> set ps")
  case True
  then obtain us vs where uv: "ps = us @ t # vs" by (meson split_list)
  with assms(1) have "t \<notin> set us" by (auto simp: ring_def)
  with uv have "remove1 t ps = us @ vs" by (simp add: remove1_append)
  with list_del_init_ok [of h head us t vs] assms(1) uv show ?thesis by (fastforce simp: only_def)
next
  case False
  with assms have "ring h t []" "remove1 t ps = ps" by (auto simp: remove1_idem)
  with list_del_init_idle assms(1) show ?thesis by (auto simp: only_def)
qed

definition rearmed :: "timeval \<Rightarrow> ipc_timing \<Rightarrow> ipc_timing" where
  "rearmed now tm = (let (s, u) = timing_carry (fst now + tv_sec tm) (snd now + tv_usec tm)
     in tm\<lparr>expire_sec := s, expire_usec := u\<rparr>)"

lemma timing_refresh_eq:
  "t \<noteq> NULL \<Longrightarrow> timing_refresh t now C = Some (C\<lparr>timings := (timings C)(t := rearmed now (timings C t))\<rparr>)"
  by (simp add: timing_refresh_def rearmed_def mem_simps Let_def split_def)

lemma core_upd_idle [simp]: "C\<lparr>links := links C\<rparr> = C" "C\<lparr>timings := timings C\<rparr> = C"
  by (cases C, simp)+

text \<open>Registration arms an idle timing and moves an armed one to its new place.\<close>

lemma timing_register_ok:
  fixes now :: timeval
  assumes "inited C" and "tid C = me" and r: "ring (links C) timing_head ps" and s: "by_expiry (timings C) ps"
    and t: "t \<in> set ps \<or> t \<notin> set (timing_head # ps) \<and> ring (links C) t []"
  defines "T \<equiv> (timings C)(t := rearmed now (timings C t))"
  shows "\<exists>L. ipc_timing_register me now t C = Some (0, C\<lparr>timings := T, links := L\<rparr>) \<and>
    ring L timing_head (ins T t (remove1 t ps)) \<and> by_expiry T (ins T t (remove1 t ps)) \<and>
    only (links C) L (set (t # timing_head # ps))"
proof -
  have t0: "t \<noteq> NULL" and d: "distinct ps" using r t by (auto simp: ring_def)
  from del_init_any [OF r t] obtain L1 where L1: "list_del_init t (links C) = Some L1"
    "ring L1 timing_head (remove1 t ps)" "only (links C) L1 (set (t # timing_head # ps))" by blast
  let ?C = "C\<lparr>timings := T, links := L1\<rparr>"
  have nt: "t \<notin> set (timing_head # remove1 t ps)" using t d r by (auto simp: ring_def)
  from timing_insert_ok [of ?C "remove1 t ps" t] L1(2) t0 nt obtain L where
    L: "timing_insert t ?C = Some (?C\<lparr>links := L\<rparr>)" "ring L timing_head (ins T t (remove1 t ps))"
    "only L1 L (set (t # timing_head # remove1 t ps))" by auto
  have "by_expiry (timings C) (remove1 t ps)"
    using s unfolding by_expiry_def by (induction ps) (auto dest: set_mp [OF set_remove1_subset])
  then have "by_expiry T (remove1 t ps)"
    using by_expiry_cong [of "remove1 t ps" T "timings C"] nt by (simp add: T_def) metis
  then have "by_expiry T (ins T t (remove1 t ps))" by (rule by_expiry_ins)
  moreover have "only (links C) L (set (t # timing_head # ps))"
    using L1(3) L(3) set_remove1_subset [of t ps] unfolding only_def by fastforce
  ultimately show ?thesis
    using L1(1) L(1,2) assms(1,2) t0
    by (auto simp: ipc_timing_register_def ipc_core_context_def timing_refresh_eq T_def)
qed

section \<open>The expiry pass\<close>

text \<open>The list after the pass: each expired cyclic timing goes back to its new place.\<close>

fun rearm :: "(addr \<Rightarrow> ipc_timing) \<Rightarrow> addr list \<Rightarrow> addr list \<Rightarrow> addr list" where
  "rearm T [] qs = qs"
| "rearm T (t # es) qs = rearm T es (if cycle (T t) then ins T t qs else qs)"

definition after_expiry :: "timeval \<Rightarrow> addr list \<Rightarrow> (addr \<Rightarrow> ipc_timing) \<Rightarrow> addr \<Rightarrow> ipc_timing" where
  "after_expiry now es T t = (if t \<in> set es \<and> cycle (T t) then rearmed now (T t) else T t)"

lemma cycle_rearmed [simp]: "cycle (rearmed now tm) = cycle tm"
  by (simp add: rearmed_def Let_def split_def)

lemma set_rearm: "set (rearm T es qs) = {t \<in> set es. cycle (T t)} \<union> set qs"
  by (induction es arbitrary: qs) auto

lemma by_expiry_rearm: "by_expiry T qs \<Longrightarrow> by_expiry T (rearm T es qs)"
  by (induction es arbitrary: qs) (auto intro: by_expiry_ins)

text \<open>
  A handler of the pass that leaves the lists and the timings alone, and what it does to an
  observation of the rest.
\<close>

definition quiet_timing :: "hooks \<Rightarrow> (core \<Rightarrow> addr list) \<Rightarrow> bool" where
  "quiet_timing H obs \<longleftrightarrow>
     (\<forall>t C. links (h_timing H t C) = links C \<and> timings (h_timing H t C) = timings C \<and>
        obs (h_timing H t C) = obs C @ [t]) \<and>
     (\<forall>C L. obs (C\<lparr>links := L\<rparr>) = obs C) \<and> (\<forall>C T. obs (C\<lparr>timings := T\<rparr>) = obs C)"

text \<open>What happens to one expired timing: it is unlinked, and put back if it is cyclic.\<close>

lemma expire_one:
  assumes H: "quiet_timing H obs" and r: "ring (links C) timing_head (t # es @ qs)"
    and due: "\<forall>e\<in>set es. \<not> timercmp_less now (expire_of C e)"
    and pos: "cycle (timings C t) \<longrightarrow> timercmp_less now (expire_at (\<lambda>_. rearmed now (timings C t)) t)"
    and now: "\<not> timercmp_less now (expire_of C t)"
  shows "\<exists>C'. timing_expire_from H now t C = timing_expire_from H now (hd (es @ qs @ [timing_head])) C' \<and>
    timings C' = after_expiry now [t] (timings C) \<and> obs C' = obs C @ [t] \<and>
    ring (links C') timing_head (es @ (if cycle (timings C t) then ins (timings C') t qs else qs))"
proof -
  have t: "t \<noteq> NULL" "t \<noteq> timing_head" "t \<notin> set (timing_head # es @ qs)" using r by (auto simp: ring_def)
  have "dlseg (links C) t (es @ qs) timing_head" using r by (simp add: ring_def)
  then have nx: "list_next (links C t) = hd (es @ qs @ [timing_head])" using dlseg_next by fastforce
  from list_del_init_ok [of "links C" timing_head "[]" t "es @ qs"] r obtain L where
    L: "list_del_init t (links C) = Some L" "ring L timing_head (es @ qs)" by auto
  note q = H [unfolded quiet_timing_def]
  show ?thesis
  proof (cases "cycle (timings C t)")
    case False
    let ?C = "h_timing H t (C\<lparr>links := L\<rparr>)"
    have "timing_expire_from H now t C = timing_expire_from H now (hd (es @ qs @ [timing_head])) ?C"
      using t L(1) nx now False by (subst timing_expire_from.simps) (simp add: mem_simps)
    moreover have "timings ?C = after_expiry now [t] (timings C)"
      using q False by (auto simp: after_expiry_def)
    ultimately show ?thesis using q L(2) False by (intro exI [of _ ?C]) auto
  next
    case True
    let ?T = "(timings C)(t := rearmed now (timings C t))"
    let ?C1 = "C\<lparr>links := L, timings := ?T\<rparr>"
    from timing_insert_ok [of ?C1 "es @ qs" t] L(2) t obtain L2 where
      L2: "timing_insert t ?C1 = Some (?C1\<lparr>links := L2\<rparr>)" "ring L2 timing_head (ins ?T t (es @ qs))" by auto
    have "\<forall>e\<in>set es. \<not> timercmp_less (expire_at ?T t) (expire_at ?T e)"
      using due pos True t(3) by (auto simp: expire_at_def expire_of_def dest: timercmp_trans)
    then have ins: "ins ?T t (es @ qs) = es @ ins ?T t qs" by (rule ins_past)
    let ?C = "h_timing H t (?C1\<lparr>links := L2\<rparr>)"
    have "timing_expire_from H now t C = timing_expire_from H now (hd (es @ qs @ [timing_head])) ?C"
      using t L(1) L2(1) nx now True by (subst timing_expire_from.simps) (simp add: mem_simps timing_refresh_eq)
    moreover have "timings ?C = after_expiry now [t] (timings C)" "timings ?C = ?T"
      using q True by (auto simp: after_expiry_def)
    moreover have "obs ?C = obs C @ [t]" using q by simp
    ultimately show ?thesis using q L2(2) True ins by (intro exI [of _ ?C]) simp
  qed
qed

lemma after_expiry_Cons:
  "t \<notin> set es \<Longrightarrow> after_expiry now es (after_expiry now [t] T) = after_expiry now (t # es) T"
  by (auto simp: after_expiry_def fun_eq_iff)

lemma expire_from_ok:
  assumes H: "quiet_timing H obs"
  shows "\<lbrakk>ring (links C) timing_head (es @ qs); \<forall>e\<in>set es. \<not> timercmp_less now (expire_of C e);
    \<forall>e\<in>set es. cycle (timings C e) \<longrightarrow> timercmp_less now (expire_at (\<lambda>_. rearmed now (timings C e)) e);
    \<forall>q\<in>set qs. timercmp_less now (expire_of C q);
    q = timing_head \<or> q \<noteq> NULL \<and> timercmp_less now (expire_of C q)\<rbrakk>
    \<Longrightarrow> \<exists>C'. timing_expire_from H now (hd (es @ [q])) C = Some C' \<and>
      timings C' = after_expiry now es (timings C) \<and> obs C' = obs C @ es \<and>
      ring (links C') timing_head (rearm (timings C') es qs)"
proof (induction es arbitrary: C qs q)
  case Nil
  have "timing_expire_from H now q C = Some C"
    using Nil.prems(5) by (subst timing_expire_from.simps) (auto simp: mem_simps)
  with Nil.prems(1) show ?case by (auto simp: after_expiry_def fun_eq_iff)
next
  case (Cons t es)
  have r: "ring (links C) timing_head (t # es @ qs)" using Cons.prems(1) by simp
  then have nt: "t \<notin> set es" "t \<notin> set qs" by (auto simp: ring_def)
  obtain C1 where C1: "timing_expire_from H now t C = timing_expire_from H now (hd (es @ qs @ [timing_head])) C1"
    "timings C1 = after_expiry now [t] (timings C)" "obs C1 = obs C @ [t]"
    "ring (links C1) timing_head (es @ (if cycle (timings C t) then ins (timings C1) t qs else qs))"
    using expire_one [OF H r, of now] Cons.prems(2,3) unfolding list.set ball_simps by blast
  let ?qs = "if cycle (timings C t) then ins (timings C1) t qs else qs" and ?q = "hd (qs @ [timing_head])"
  have same: "u \<noteq> t \<Longrightarrow> timings C1 u = timings C u" for u by (simp add: C1(2) after_expiry_def)
  have same_in: "u \<in> set es \<Longrightarrow> timings C1 u = timings C u" "u \<in> set qs \<Longrightarrow> timings C1 u = timings C u" for u
    using nt same [of u] by blast+
  have new: "cycle (timings C t) \<Longrightarrow> timercmp_less now (expire_of C1 t)"
    using Cons.prems(3) by (simp add: expire_of_def C1(2) after_expiry_def expire_at_def)
  have "?q = timing_head \<or> ?q \<in> set qs" by (cases qs) auto
  moreover have "u \<noteq> NULL \<and> timercmp_less now (expire_of C1 u)" if "u \<in> set qs" for u
  proof -
    have "NULL \<notin> set qs" using r by (auto simp: ring_def)
    moreover have "u \<noteq> t" using that nt(2) by blast
    ultimately show ?thesis using that Cons.prems(4) same [of u] unfolding expire_of_def by metis
  qed
  ultimately have q: "?q = timing_head \<or> ?q \<noteq> NULL \<and> timercmp_less now (expire_of C1 ?q)" by blast
  have "\<forall>e\<in>set es. \<not> timercmp_less now (expire_of C1 e)"
    "\<forall>e\<in>set es. cycle (timings C1 e) \<longrightarrow> timercmp_less now (expire_at (\<lambda>_. rearmed now (timings C1 e)) e)"
    "\<forall>q\<in>set ?qs. timercmp_less now (expire_of C1 q)"
    using Cons.prems(2-4) same_in new by (auto simp: expire_of_def)
  from Cons.IH [OF C1(4) this q] obtain C' where
    C': "timing_expire_from H now (hd (es @ [?q])) C1 = Some C'" "timings C' = after_expiry now es (timings C1)"
    "obs C' = obs C1 @ es" "ring (links C') timing_head (rearm (timings C') es ?qs)" by blast
  have T: "timings C' = after_expiry now (t # es) (timings C)"
    using C'(2) C1(2) after_expiry_Cons [OF nt(1)] by simp
  have late: "timings C' u = timings C1 u" if "u \<notin> set es" for u using that by (simp add: C'(2) after_expiry_def)
  have "u \<notin> set es" if "u \<in> set qs" for u using that r by (auto simp: ring_def)
  then have "ins (timings C1) t qs = ins (timings C') t qs" using late nt(1) by (intro ins_cong) metis+
  moreover have "cycle (timings C' t) = cycle (timings C t)" using late [OF nt(1)] by (simp add: C1(2) after_expiry_def)
  ultimately have "?qs = (if cycle (timings C' t) then ins (timings C') t qs else qs)" by simp
  moreover have "hd (es @ qs @ [timing_head]) = hd (es @ [?q])" by (cases es) auto
  ultimately show ?case using C1(1,3) C'(1,3,4) T by simp
qed

lemma timing_expire_ok:
  assumes H: "quiet_timing H obs" and r: "ring (links C) timing_head ps" and s: "by_expiry (timings C) ps"
    and pos: "\<forall>e\<in>set ps. cycle (timings C e) \<longrightarrow> timercmp_less now (expire_at (\<lambda>_. rearmed now (timings C e)) e)"
  defines "es \<equiv> takeWhile (\<lambda>t. \<not> timercmp_less now (expire_of C t)) ps"
  shows "\<exists>C'. timing_expire H now C = Some C' \<and> obs C' = obs C @ es \<and>
    timings C' = after_expiry now es (timings C) \<and>
    ring (links C') timing_head (rearm (timings C') es (drop (length es) ps)) \<and>
    by_expiry (timings C') (rearm (timings C') es (drop (length es) ps))"
proof -
  let ?d = "\<lambda>t. \<not> timercmp_less now (expire_of C t)"
  let ?qs = "drop (length es) ps" and ?q = "hd (dropWhile ?d ps @ [timing_head])"
  have qs: "?qs = dropWhile ?d ps" "ps = es @ ?qs"
    by (simp_all add: es_def dropWhile_eq_drop [symmetric])
  have late: "\<forall>q\<in>set ?qs. timercmp_less now (expire_of C q)"
  proof (cases ?qs)
    case (Cons x xs)
    then have "timercmp_less now (expire_of C x)" using hd_dropWhile [of ?d ps] qs(1) by simp
    moreover have "by_expiry (timings C) (x # xs)"
      using s qs(2) Cons by (metis by_expiry_def sorted_wrt_append)
    ultimately show ?thesis
      unfolding Cons by (auto simp: by_expiry_def expire_of_at) (metis timercmp_le_trans timercmp_asym timercmp_irrefl)
  qed simp
  have nz: "NULL \<notin> set ps" "distinct ps" using r by (auto simp: ring_def)
  have q: "?q = timing_head \<or> ?q \<noteq> NULL \<and> timercmp_less now (expire_of C ?q)"
  proof -
    have sub: "set (dropWhile ?d ps) \<subseteq> set ps" by (auto dest: set_dropWhileD)
    have "?q = timing_head \<or> ?q \<in> set (dropWhile ?d ps)" by (metis append_Nil hd_append hd_in_set list.sel(1))
    with late [unfolded qs(1)] nz(1) sub show ?thesis by (metis subsetD)
  qed
  have ring: "ring (links C) timing_head (es @ ?qs)" using r qs(2) by simp
  have due: "\<forall>e\<in>set es. ?d e" by (auto simp: es_def dest: set_takeWhileD)
  have pos': "\<forall>e\<in>set es. cycle (timings C e) \<longrightarrow> timercmp_less now (expire_at (\<lambda>_. rearmed now (timings C e)) e)"
    using pos by (auto simp: es_def dest: set_takeWhileD)
  obtain C' where C': "timing_expire_from H now (hd (es @ [?q])) C = Some C'"
    "timings C' = after_expiry now es (timings C)" "obs C' = obs C @ es"
    "ring (links C') timing_head (rearm (timings C') es ?qs)"
    using expire_from_ok [OF H ring due pos' late q] by blast
  have "list_next (links C timing_head) = hd (ps @ [timing_head])" using r dlseg_next by (fastforce simp: ring_def)
  also have "\<dots> = hd (es @ ?qs @ [timing_head])" by (subst qs(2)) (simp only: append_assoc)
  also have "\<dots> = hd (es @ [?q])" unfolding qs(1) by (cases es) simp_all
  finally have run: "timing_expire H now C = Some C'"
    using C'(1) ring_head [OF r] by (simp add: timing_expire_def mem_simps)
  have "by_expiry (timings C) ?qs" using s qs(2) by (metis by_expiry_def sorted_wrt_append)
  then have "by_expiry (timings C') ?qs"
    using by_expiry_cong [of ?qs "timings C'" "timings C"] nz(2) qs(2)
    by (auto simp: C'(2) after_expiry_def) (metis IntI distinct_append empty_iff)
  with run C' show ?thesis by (auto intro: by_expiry_rearm)
qed

end
