(* ===== verification/IPC_Parse.thy ===== *)
theory IPC_Parse
  imports IPC_Base
begin

unbundle bit_operations_syntax

text \<open>
  What the shared layer of the IPC library does: header bytes decode to the header they were
  made from, tokens, the message parser on a buffer that holds a stream of messages, topics and
  bit counts.
\<close>

section \<open>Bytes\<close>

lemma from_le16_le16: "from_le16 (le16 w) = w"
  by (rule bit_word_eqI) (auto simp: from_le16_def le16_def bit_simps)

lemma from_le32_le32: "from_le32 (le32 w) = w"
proof (rule bit_word_eqI)
  fix n assume "n < LENGTH(32)"
  then consider "n < 8" | "8 \<le> n" "n < 16" | "16 \<le> n" "n < 24" | "24 \<le> n" "n < 32" by auto linarith
  then show "bit (from_le32 (le32 w)) n = bit w n"
    by cases (auto simp: from_le32_def le32_def bit_simps)
qed

lemma length_le [simp]: "length (le16 v) = 2" "length (le32 w) = 4"
  by (simp_all add: le16_def le32_def)

lemma from_le64_le64: "from_le64 (le64 w) = w"
proof -
  have "from_le64 (le64 w) = ucast (ucast w :: 32 word) OR push_bit 32 (ucast (ucast (drop_bit 32 w) :: 32 word))"
    by (simp add: from_le64_def le64_def from_le32_le32)
  also have "\<dots> = w" by (rule bit_word_eqI) (auto simp: bit_simps)
  finally show ?thesis .
qed

text \<open>A message whose data has the announced length.\<close>

definition msg_wf :: "ipc_msg \<Rightarrow> bool" where
  "msg_wf m \<longleftrightarrow> length (msg_data m) = unat (msg_data_len m)"

lemma length_msg_bytes: "msg_wf m \<Longrightarrow> length (msg_bytes m) = msg_size m"
  by (simp add: msg_bytes_def msg_wf_def msg_size_def IPC_MSG_HDRLEN_def)

lemma drop_hdr:
  assumes "msg_wf m"
  shows "take 4 (msg_bytes m @ r) = le32 (msg_from m)" "take 4 (drop 4 (msg_bytes m @ r)) = le32 (msg_id m)"
    "take 2 (drop 8 (msg_bytes m @ r)) = le16 (msg_flags m)" "take 2 (drop 10 (msg_bytes m @ r)) = le16 (msg_data_len m)"
    "drop 12 (msg_bytes m @ r) = msg_data m @ r"
  using assms by (simp_all add: msg_bytes_def msg_wf_def)

lemma hdr_data_len_msg_bytes: "msg_wf m \<Longrightarrow> hdr_data_len (msg_bytes m @ r) = msg_data_len m"
  by (simp only: hdr_data_len_def drop_hdr from_le16_le16)

lemma msg_at_msg_bytes: "msg_wf m \<Longrightarrow> msg_at (msg_bytes m @ r) = m"
proof -
  assume m: "msg_wf m"
  then have "take (unat (msg_data_len m)) (msg_data m @ r) = msg_data m" by (simp add: msg_wf_def)
  then show ?thesis
    unfolding msg_at_def hdr_data_len_msg_bytes [OF m] drop_hdr [OF m] from_le16_le16 from_le32_le32 by simp
qed

section \<open>Tokens\<close>

text \<open>Message ids of users and of the library fit in 16 bits.\<close>

definition id_ok :: "ipc_msg \<Rightarrow> bool" where
  "id_ok m \<longleftrightarrow> msg_id m AND IPC_MSG_TOKEN_MASK = 0"

lemma token_masks: "IPC_MSG_TOKEN AND IPC_MSG_TOKEN_MASK = IPC_MSG_TOKEN" "IPC_MSG_TOKEN AND NOT IPC_MSG_TOKEN_MASK = 0"
  by (simp_all add: IPC_MSG_TOKEN_def IPC_MSG_TOKEN_MASK_def)

lemma id_ok_not: "id_ok m \<Longrightarrow> msg_id m AND NOT IPC_MSG_TOKEN_MASK = msg_id m"
  unfolding id_ok_def by (metis (no_types) bit.conj_disj_distrib2 bit.disj_cancel_right or.comm_neutral and.right_neutral word_bw_comms(1) or.commute)

lemma friendly_tokened: "id_ok m \<Longrightarrow> friendly (tokened m) = Some m"
  using id_ok_not [of m] token_masks
  by (simp add: friendly_def tokened_def bit.conj_disj_distrib2 id_ok_def)

lemma msg_wf_tokened [simp]: "msg_wf (tokened m) = msg_wf m" "msg_size (tokened m) = msg_size m"
  by (simp_all add: msg_wf_def tokened_def msg_size_def)

section \<open>The parser\<close>

text \<open>The unread bytes of a buffer, and when a buffer is in order.\<close>

definition pending :: "ipc_buf \<Rightarrow> byte list" where
  "pending b = take (buf_tail b - buf_head b) (drop (buf_head b) (buf_data b))"

definition buf_ok :: "ipc_buf \<Rightarrow> bool" where
  "buf_ok b \<longleftrightarrow> buf_head b \<le> buf_tail b \<and> buf_tail b \<le> buf_size b \<and> length (buf_data b) = buf_size b"

lemma length_pending: "buf_ok b \<Longrightarrow> length (pending b) = buf_tail b - buf_head b"
  by (auto simp: pending_def buf_ok_def)

lemma drop_head:
  assumes "buf_ok b"
  shows "drop (buf_head b) (buf_data b) = pending b @ drop (buf_tail b) (buf_data b)"
proof -
  have "buf_tail b - buf_head b + buf_head b = buf_tail b" using assms by (simp add: buf_ok_def)
  then have "drop (buf_tail b) (buf_data b) = drop (buf_tail b - buf_head b) (drop (buf_head b) (buf_data b))" by simp
  then show ?thesis by (simp only: pending_def append_take_drop_id)
qed

text \<open>
  The specification: all messages of a byte sequence, without the unfriendly ones, and the
  incomplete rest.
\<close>

function parse :: "byte list \<Rightarrow> ipc_msg list \<times> byte list" where
  "parse bs =
     (if length bs < IPC_MSG_HDRLEN then ([], bs)
      else let m = msg_at bs; n = msg_size m in
        if length bs < n then ([], bs)
        else let (ms, r) = parse (drop n bs) in
          (case friendly m of Some m' \<Rightarrow> m' # ms | None \<Rightarrow> ms, r))"
  by pat_completeness auto
termination
  by (relation "measure length") (auto simp: msg_size_def IPC_MSG_HDRLEN_def)

declare parse.simps [simp del]

lemma hdr_prefix: "12 \<le> length p \<Longrightarrow> hdr_data_len (p @ x) = hdr_data_len p"
  by (simp add: hdr_data_len_def)

lemma msg_size_at: "msg_size (msg_at bs) = 12 + unat (hdr_data_len bs)"
  by (simp add: msg_size_def msg_at_def IPC_MSG_HDRLEN_def)

lemma msg_at_prefix:
  assumes "12 \<le> length p" and "msg_size (msg_at p) \<le> length p"
  shows "msg_at (p @ x) = msg_at p"
proof -
  have "take (unat (hdr_data_len p)) (drop 12 (p @ x)) = take (unat (hdr_data_len p)) (drop 12 p)"
    using assms by (simp add: msg_size_at)
  then show ?thesis using assms(1) by (simp add: msg_at_def hdr_prefix)
qed

lemma msg_at_wf: "msg_size (msg_at p) \<le> length p \<Longrightarrow> msg_wf (msg_at p)"
  by (simp add: msg_size_at msg_wf_def) (simp add: msg_at_def)

lemma friendly_wf: "friendly m = Some m' \<Longrightarrow> msg_wf m' = msg_wf m \<and> msg_size m' = msg_size m"
  by (auto simp: friendly_def msg_wf_def msg_size_def split: if_splits)

text \<open>Cutting a stream anywhere does not change what is parsed.\<close>

lemma parse_append:
  "parse (xs @ ys) = (fst (parse xs) @ fst (parse (snd (parse xs) @ ys)), snd (parse (snd (parse xs) @ ys)))"
proof (induction xs rule: parse.induct)
  case (1 xs)
  let ?m = "msg_at xs"
  show ?case
  proof (cases "12 \<le> length xs \<and> msg_size ?m \<le> length xs")
    case False
    then have "parse xs = ([], xs)" by (subst parse.simps) (auto simp: IPC_MSG_HDRLEN_def Let_def)
    then show ?thesis by simp
  next
    case True
    then have at: "msg_at (xs @ ys) = ?m" by (intro msg_at_prefix) auto
    have ih: "parse (drop (msg_size ?m) xs @ ys) =
      (fst (parse (drop (msg_size ?m) xs)) @ fst (parse (snd (parse (drop (msg_size ?m) xs)) @ ys)),
       snd (parse (snd (parse (drop (msg_size ?m) xs)) @ ys)))"
      using "1.IH" True by (simp add: IPC_MSG_HDRLEN_def)
    have px: "parse xs = (case friendly ?m of Some m' \<Rightarrow> m' # fst (parse (drop (msg_size ?m) xs))
          | None \<Rightarrow> fst (parse (drop (msg_size ?m) xs)), snd (parse (drop (msg_size ?m) xs)))"
      using True by (subst parse.simps) (auto simp: IPC_MSG_HDRLEN_def Let_def split_def)
    have "parse (xs @ ys) = (case friendly ?m of Some m' \<Rightarrow> m' # fst (parse (drop (msg_size ?m) xs @ ys))
          | None \<Rightarrow> fst (parse (drop (msg_size ?m) xs @ ys)), snd (parse (drop (msg_size ?m) xs @ ys)))"
      using True at by (subst parse.simps) (auto simp: IPC_MSG_HDRLEN_def Let_def split_def)
    then show ?thesis unfolding ih px by (auto split: option.splits)
  qed
qed

lemma parse_msg:
  assumes "msg_wf m" "id_ok m"
  shows "parse (msg_bytes (tokened m) @ r) = (m # fst (parse r), snd (parse r))"
proof -
  let ?bs = "msg_bytes (tokened m) @ r"
  have "length (msg_bytes (tokened m)) = msg_size m" using length_msg_bytes [of "tokened m"] assms by simp
  moreover have "msg_at ?bs = tokened m" using assms by (simp add: msg_at_msg_bytes)
  ultimately show ?thesis
    by (subst parse.simps) (simp add: friendly_tokened assms Let_def split_def, simp add: msg_size_def IPC_MSG_HDRLEN_def)
qed

lemma parse_concat:
  "\<forall>m\<in>set ms. msg_wf m \<and> id_ok m \<Longrightarrow>
   parse (concat (map (msg_bytes \<circ> tokened) ms)) = (ms, [])"
proof (induction ms)
  case Nil
  then show ?case by (subst parse.simps) (simp add: IPC_MSG_HDRLEN_def)
next
  case (Cons m ms)
  then show ?case using parse_msg [of m "concat (map (msg_bytes \<circ> tokened) ms)"] by (simp add: comp_def)
qed

section \<open>The buffer parser refines the specification\<close>

lemma length_put_bytes: "off + length bs \<le> length d \<Longrightarrow> length (put_bytes off bs d) = length d"
  by (simp add: put_bytes_def)

lemma drop_put_bytes: "off + length bs \<le> n \<Longrightarrow> n \<le> length d \<Longrightarrow> drop n (put_bytes off bs d) = drop n d"
  by (simp add: put_bytes_def)

lemma buf_move_ok:
  assumes "buf_ok b"
  shows "buf_ok (buf_move b)" "pending (buf_move b) = pending b" "buf_size (buf_move b) = buf_size b"
    "length (pending b) < buf_size b \<Longrightarrow> \<not> ipc_buf_full (buf_move b)"
proof -
  have p: "take (buf_tail b - buf_head b) (drop (buf_head b) (buf_data b)) = pending b" by (simp add: pending_def)
  have l: "length (pending b) = buf_tail b - buf_head b" using assms by (rule length_pending)
  show "buf_ok (buf_move b)" "pending (buf_move b) = pending b" "buf_size (buf_move b) = buf_size b"
    "length (pending b) < buf_size b \<Longrightarrow> \<not> ipc_buf_full (buf_move b)"
    using assms l by (auto simp: buf_move_def buf_ok_def Let_def p length_put_bytes ipc_buf_full_def)
      (simp add: pending_def put_bytes_def p)
qed

lemma skip_ok:
  assumes "buf_ok b" and "n \<le> buf_tail b - buf_head b"
  shows "buf_ok (b\<lparr>buf_head := buf_head b + n\<rparr>)" "pending (b\<lparr>buf_head := buf_head b + n\<rparr>) = drop n (pending b)"
  using assms by (auto simp: buf_ok_def pending_def drop_take add.commute)

lemma found_ok:
  assumes b: "buf_ok b" and n: "msg_wf m" "msg_size m \<le> buf_tail b - buf_head b"
    and d: "d = put_bytes (buf_head b) (msg_bytes m) (buf_data b)" "d' = (if c then put_bytes 0 (msg_bytes m) d else d)"
  shows "buf_ok (b\<lparr>buf_data := d', buf_head := buf_head b + msg_size m\<rparr>)"
    "pending (b\<lparr>buf_data := d', buf_head := buf_head b + msg_size m\<rparr>) = drop (msg_size m) (pending b)"
proof -
  have l: "length (msg_bytes m) = msg_size m" by (rule length_msg_bytes [OF n(1)])
  have fit: "buf_head b + msg_size m \<le> buf_tail b" "buf_tail b \<le> length (buf_data b)"
    using b n(2) by (auto simp: buf_ok_def)
  have len: "length d = length (buf_data b)" "length d' = length (buf_data b)"
    using fit l by (auto simp: d length_put_bytes)
  have dr: "drop (buf_head b + msg_size m) d' = drop (buf_head b + msg_size m) (buf_data b)"
    using fit l len by (auto simp: d drop_put_bytes length_put_bytes)
  show "buf_ok (b\<lparr>buf_data := d', buf_head := buf_head b + msg_size m\<rparr>)"
    using b fit len by (auto simp: buf_ok_def)
  show "pending (b\<lparr>buf_data := d', buf_head := buf_head b + msg_size m\<rparr>) = drop (msg_size m) (pending b)"
    using dr by (simp add: pending_def drop_take add.commute diff_diff_left)
qed

lemma find_msg_refines:
  assumes "buf_ok b"
  shows "buf_ok (snd (find_msg b c)) \<and> buf_size (snd (find_msg b c)) = buf_size b \<and>
    (case fst (find_msg b c) of
       None \<Rightarrow> fst (parse (pending b)) = [] \<and> pending (snd (find_msg b c)) = snd (parse (pending b)) \<and>
         (length (pending (snd (find_msg b c))) < buf_size b \<longrightarrow>
            pending (snd (find_msg b c)) = [] \<or> \<not> ipc_buf_full (snd (find_msg b c)))
     | Some m \<Rightarrow> parse (pending b) = (m # fst (parse (pending (snd (find_msg b c)))), snd (parse (pending (snd (find_msg b c))))) \<and>
         length (pending (snd (find_msg b c))) < length (pending b))"
  using assms
proof (induction b c rule: find_msg.induct)
  case (1 b c)
  note ok = "1.prems"
  let ?left = "buf_tail b - buf_head b" and ?p = "pending b"
  have lp: "length ?p = ?left" using ok by (rule length_pending)
  let ?m = "msg_at (drop (buf_head b) (buf_data b))"
  consider (empty) "?left = 0" | (short) "?left \<noteq> 0" "?left < 12 \<or> ?left < msg_size ?m" | (whole) "12 \<le> ?left" "msg_size ?m \<le> ?left"
    by linarith
  then show ?case
  proof cases
    case empty
    then have "find_msg b c = (None, b)" by (subst find_msg.simps) simp
    moreover have "parse ?p = ([], [])" using lp empty by (subst parse.simps) (simp add: IPC_MSG_HDRLEN_def)
    ultimately show ?thesis using ok lp empty by simp
  next
    case short
    then have f: "find_msg b c = (None, buf_move b)"
      by (subst find_msg.simps) (auto simp: IPC_MSG_HDRLEN_def Let_def)
    have "12 \<le> ?left \<Longrightarrow> hdr_data_len (?p @ drop (buf_tail b) (buf_data b)) = hdr_data_len ?p"
      using lp by (intro hdr_prefix) simp
    then have "parse ?p = ([], ?p)"
      using short lp drop_head [OF ok] by (subst parse.simps) (auto simp: IPC_MSG_HDRLEN_def Let_def msg_size_at)
    with f buf_move_ok [OF ok] show ?thesis by simp
  next
    case whole
    have hd: "hdr_data_len (drop (buf_head b) (buf_data b)) = hdr_data_len ?p"
      unfolding drop_head [OF ok] using lp whole(1) by (intro hdr_prefix) simp
    have at: "?m = msg_at ?p"
      unfolding drop_head [OF ok] using lp whole hd by (intro msg_at_prefix) (auto simp: msg_size_at)
    have px: "parse ?p = (case friendly ?m of Some m' \<Rightarrow> m' # fst (parse (drop (msg_size ?m) ?p))
          | None \<Rightarrow> fst (parse (drop (msg_size ?m) ?p)), snd (parse (drop (msg_size ?m) ?p)))"
      using whole lp unfolding at by (subst parse.simps) (auto simp: IPC_MSG_HDRLEN_def Let_def split_def)
    have nz: "\<not> buf_tail b \<le> buf_head b" using whole(1) by linarith
    show ?thesis
    proof (cases "friendly ?m")
      case None
      let ?b = "b\<lparr>buf_head := buf_head b + msg_size ?m\<rparr>"
      have f: "find_msg b c = find_msg ?b c"
        using whole None nz by (subst find_msg.simps) (simp add: IPC_MSG_HDRLEN_def Let_def)
      note sk = skip_ok [OF ok whole(2)]
      have "buf_ok (snd (find_msg ?b c)) \<and> buf_size (snd (find_msg ?b c)) = buf_size ?b \<and>
        (case fst (find_msg ?b c) of
           None \<Rightarrow> fst (parse (pending ?b)) = [] \<and> pending (snd (find_msg ?b c)) = snd (parse (pending ?b)) \<and>
             (length (pending (snd (find_msg ?b c))) < buf_size ?b \<longrightarrow>
                pending (snd (find_msg ?b c)) = [] \<or> \<not> ipc_buf_full (snd (find_msg ?b c)))
         | Some m \<Rightarrow> parse (pending ?b) = (m # fst (parse (pending (snd (find_msg ?b c)))), snd (parse (pending (snd (find_msg ?b c))))) \<and>
             length (pending (snd (find_msg ?b c))) < length (pending ?b))"
        using "1.IH" [OF refl _ _ refl refl _ None sk(1)] whole by (simp add: IPC_MSG_HDRLEN_def)
      then show ?thesis unfolding f px sk(2) None by (auto split: option.splits)
    next
      case (Some m)
      have w: "msg_wf m" "msg_size m = msg_size ?m"
        using friendly_wf [OF Some] msg_at_wf [of ?p] whole(2) lp at by auto
      define d' where "d' = (if \<not> c \<and> buf_head b mod IPC_MSG_ALIGN \<noteq> 0
          then put_bytes 0 (msg_bytes m) (put_bytes (buf_head b) (msg_bytes m) (buf_data b))
          else put_bytes (buf_head b) (msg_bytes m) (buf_data b))"
      let ?b = "b\<lparr>buf_data := d', buf_head := buf_head b + msg_size m\<rparr>"
      have f: "find_msg b c = (Some m, ?b)"
        using whole Some w(2) nz by (subst find_msg.simps) (simp add: IPC_MSG_HDRLEN_def Let_def d'_def)
      have "msg_size m \<le> ?left" using whole(2) w(2) by simp
      note fo = found_ok [OF ok w(1) this refl d'_def]
      have "0 < msg_size m" by (simp add: msg_size_def IPC_MSG_HDRLEN_def)
      then show ?thesis unfolding f px Some using fo w(2) lp whole by simp
    qed
  qed
qed

end
