(* ===== verification/IPC_Loop.thy ===== *)
theory IPC_Loop
  imports IPC_Handlers
begin

text \<open>
  The event loop of \<open>ipc/ipc_server.c\<close> (the \<open>select\<close> build with \<open>IPC_PERF\<close>), start, stop,
  options and cookies. One \<open>tick\<close> is what the kernel answers in one turn of the loop: the
  two clock readings, the results of \<open>select\<close> with the readable sockets, and the input of
  each socket handler. The loop runs over a list of ticks; when they are used up it is waiting
  in \<open>select\<close>.
\<close>

section \<open>The loop\<close>

datatype tick_select = TickReady int "int set" | TickIntr | TickError

record tick =
  tk_before :: timeval
  tk_selects :: "tick_select list"
  tk_after :: timeval
  tk_input :: "addr \<Rightarrow> handler_in"

fun select_retry :: "tick_select list \<Rightarrow> tick_select option" where
  "select_retry [] = None"
| "select_retry (TickIntr # ss) = select_retry ss"
| "select_retry (s # ss) = Some s"

definition run_handler :: "hooks \<Rightarrow> addr \<Rightarrow> handler_in \<Rightarrow> core \<Rightarrow> core option" where
  "run_handler H p I C = do {
     s \<leftarrow> sevr_get C p;
     case sv_handler s of
       COMMON_HANDLER \<Rightarrow> do { (r, i, C) \<leftarrow> ipc_common_socket_handler H p (in_io I) C; Some C }
     | MASTER_HANDLER \<Rightarrow> do { (r, C) \<leftarrow> ipc_master_socket_handler H p I C; Some C }
     | PROXY_HANDLER \<Rightarrow> do { (r, C) \<leftarrow> ipc_proxy_socket_handler H p C; Some C }
   }"

text \<open>
  The pass over the handles: the successor is read before the handler runs, and the pass stops
  once \<open>res\<close> readable handles were served.
\<close>

partial_function (option) serve_from ::
    "hooks \<Rightarrow> int set \<Rightarrow> int \<Rightarrow> (addr \<Rightarrow> handler_in) \<Rightarrow> int \<Rightarrow> addr \<Rightarrow> core \<Rightarrow> core option" where
  "serve_from H ready res inp n p C =
     (if p = core_head then Some C
      else do {
        s \<leftarrow> sevr_get C p;
        c \<leftarrow> load (links C) p;
        if sock s \<in> ready then do {
          C \<leftarrow> run_handler H p (inp p) C;
          if n + 1 = res then Some C else serve_from H ready res inp (n + 1) (list_next c) C
        } else serve_from H ready res inp n (list_next c) C
      })"

definition serve :: "hooks \<Rightarrow> int set \<Rightarrow> int \<Rightarrow> (addr \<Rightarrow> handler_in) \<Rightarrow> core \<Rightarrow> core option" where
  "serve H ready res inp C = do {
     c \<leftarrow> load (links C) core_head;
     serve_from H ready res inp 0 (list_next c) C
   }"

text \<open>One turn; \<open>False\<close> when the loop leaves.\<close>

definition loop_turn :: "hooks \<Rightarrow> tick \<Rightarrow> core \<Rightarrow> (bool \<times> core) option" where
  "loop_turn H k C = do {
     tmo \<leftarrow> loop_timeout (timing_time (tk_before k)) C;
     r \<leftarrow> select_retry (tk_selects k);
     case r of
       TickReady res ready \<Rightarrow> do {
         e \<leftarrow> list_empty timing_head (links C);
         C \<leftarrow> (if e then Some C else timing_expire H (timing_time (tk_after k)) C);
         C \<leftarrow> (if res > 0 then serve H ready res (tk_input k) C else Some C);
         Some (True, C)
       }
     | _ \<Rightarrow> Some (False, C)
   }"

fun ipc_loop :: "hooks \<Rightarrow> tick list \<Rightarrow> core \<Rightarrow> (int option \<times> core) option" where
  "ipc_loop H ks C =
     (if \<not> running C then Some (Some (-1), C)
      else do {
        e \<leftarrow> list_empty core_head (links C);
        if e then Some (Some (-1), C)
        else case ks of
            [] \<Rightarrow> Some (None, C)
          | k # ks \<Rightarrow> do {
              (go, C) \<leftarrow> loop_turn H k C;
              if go then ipc_loop H ks C else Some (Some (-1), C)
            }
      })"

declare ipc_loop.simps [simp del]

section \<open>Start and stop\<close>

definition ipc_server_init ::
    "bool \<Rightarrow> bool \<Rightarrow> addr option \<Rightarrow> int \<times> int \<times> int \<Rightarrow> int \<Rightarrow> int \<Rightarrow> core \<Rightarrow> (int \<times> core) option" where
  "ipc_server_init args_ok path_ok blk k opts me C =
     (if \<not> args_ok \<or> \<not> path_ok then Some (-1, C)
      else do {
        L \<leftarrow> INIT_LIST_HEAD core_head (links C);
        L \<leftarrow> INIT_LIST_HEAD timing_head L;
        let C = C\<lparr>links := L, filter_set := False, manager_set := False, mutex_set := False, node_hb := NULL,
                   buf := None, core_arg := NULL, pool_set := False, nfds := 0, rfds := {}\<rparr>;
        (r, C) \<leftarrow> ipc_master_init blk k opts C;
        if r < 0 then Some (-1, C)
        else Some (0, C\<lparr>tid := me, inited := True\<rparr>)
      })"

definition IPC_MSG_BUFFER_SIZE :: "32 word" where "IPC_MSG_BUFFER_SIZE = 8192"

definition ipc_server_run ::
    "hooks \<Rightarrow> bool \<Rightarrow> bool \<Rightarrow> int \<Rightarrow> tick list \<Rightarrow> core \<Rightarrow> (int option \<times> core) option" where
  "ipc_server_run H buf_mem clone_mem me ks C =
     (if \<not> inited C then Some (Some (-1), C)
      else
        let C = (case buf C of None \<Rightarrow> C\<lparr>buf := alloc_buf buf_mem IPC_MSG_BUFFER_SIZE\<rparr> | Some b \<Rightarrow> C) in
        if buf C = None then Some (Some (-1), C)
        else if \<not> clone_mem then Some (Some (-1), C\<lparr>clone := False\<rparr>)
        else ipc_loop H ks (C\<lparr>clone := True, tid := me, running := True\<rparr>))"

text \<open>
  \<open>ipc_server_exit\<close> walks the handles with the safe iterator, so releasing each is a loop over
  the list as it was when the successor was read.
\<close>

partial_function (option) release_from :: "hooks \<Rightarrow> addr \<Rightarrow> core \<Rightarrow> core option" where
  "release_from H p C =
     (if p = core_head then Some C
      else do {
        c \<leftarrow> load (links C) p;
        C \<leftarrow> ipc_release H p C;
        release_from H (list_next c) C
      })"

definition ipc_async_exit :: "ipc_pool \<Rightarrow> ipc_pool" where
  "ipc_async_exit P = P\<lparr>pool_destroy := True, ntasks := 0\<rparr>"

definition ipc_server_exit :: "hooks \<Rightarrow> core \<Rightarrow> (int \<times> core) option" where
  "ipc_server_exit H C =
     (if \<not> inited C then Some (-1, C)
      else do {
        let C = C\<lparr>running := False\<rparr>;
        c \<leftarrow> load (links C) core_head;
        C \<leftarrow> release_from H (list_next c) C;
        ps \<leftarrow> list_for_each timing_head (links C);
        L \<leftarrow> del_init_all ps (links C);
        let C = C\<lparr>links := L, node_hb := NULL, buf := None, clone := False, inited := False\<rparr>;
        Some (0, if pool_set C then C\<lparr>async_pool := ipc_async_exit (async_pool C)\<rparr> else C)
      })"

section \<open>Options and cookies\<close>

text \<open>The option with its argument; a missing pointer argument is \<open>None\<close> or \<open>False\<close>.\<close>

datatype seropt =
    IPC_SEROPT_SET_FILTER bool
  | IPC_SEROPT_SET_MANAGER bool
  | IPC_SEROPT_SET_MUTEX bool
  | IPC_SEROPT_SET_BUF_SIZE "32 word option" bool
  | IPC_SEROPT_SET_ARG addr
  | IPC_SEROPT_ENABLE_ASYNC "(int \<times> int \<times> int) option"
  | IPC_SEROPT_OTHER

definition set_opt_flt :: "bool \<Rightarrow> core \<Rightarrow> int \<times> core" where
  "set_opt_flt a C = (if \<not> a then (-1, C) else (0, C\<lparr>filter_set := True\<rparr>))"

definition set_opt_mng :: "bool \<Rightarrow> core \<Rightarrow> int \<times> core" where
  "set_opt_mng a C = (if \<not> a then (-1, C) else (0, C\<lparr>manager_set := True\<rparr>))"

definition set_opt_mtx :: "bool \<Rightarrow> core \<Rightarrow> int \<times> core" where
  "set_opt_mtx a C = (0, C\<lparr>mutex_set := a\<rparr>)"

definition set_opt_buf :: "32 word option \<Rightarrow> bool \<Rightarrow> core \<Rightarrow> int \<times> core" where
  "set_opt_buf a malloc_ok C =
     (case a of
        None \<Rightarrow> (-1, C)
      | Some sz \<Rightarrow>
          if buf C \<noteq> None then (-1, C)
          else (if malloc_ok then 0 else -1, C\<lparr>buf := alloc_buf malloc_ok sz\<rparr>))"

definition set_opt_arg :: "addr \<Rightarrow> core \<Rightarrow> int \<times> core" where
  "set_opt_arg a C = (0, C\<lparr>core_arg := a\<rparr>)"

definition set_opt_async :: "(int \<times> int \<times> int) option \<Rightarrow> core \<Rightarrow> (int \<times> core) option" where
  "set_opt_async a C =
     (case a of
        Some (mn, mx, lg) \<Rightarrow>
          if mn < 0 \<or> mn > mx then Some (-1, C\<lparr>pool_set := False\<rparr>)
          else do {
            let P = async_pool C;
            let P = (if mn > 0 then P\<lparr>mintasks := mn\<rparr> else P);
            let P = (if mx > 0 then P\<lparr>maxtasks := mx\<rparr> else P);
            let P = (if lg > 0 then P\<lparr>linger := lg\<rparr> else P);
            (P, L) \<leftarrow> ipc_async_setup P (links C);
            Some (0, C\<lparr>pool_set := True, async_pool := P, links := L\<rparr>)
          }
      | None \<Rightarrow> do {
          (P, L) \<leftarrow> ipc_async_setup (async_pool C) (links C);
          Some (0, C\<lparr>pool_set := True, async_pool := P, links := L\<rparr>)
        })"

definition ipc_server_setopt :: "seropt \<Rightarrow> core \<Rightarrow> (int \<times> core) option" where
  "ipc_server_setopt opt C =
     (if \<not> inited C then Some (-1, C)
      else case opt of
          IPC_SEROPT_SET_FILTER a \<Rightarrow> Some (set_opt_flt a C)
        | IPC_SEROPT_SET_MANAGER a \<Rightarrow> Some (set_opt_mng a C)
        | IPC_SEROPT_SET_MUTEX a \<Rightarrow> Some (set_opt_mtx a C)
        | IPC_SEROPT_SET_BUF_SIZE a ok \<Rightarrow> Some (set_opt_buf a ok C)
        | IPC_SEROPT_SET_ARG a \<Rightarrow> Some (set_opt_arg a C)
        | IPC_SEROPT_ENABLE_ASYNC a \<Rightarrow> set_opt_async a C
        | IPC_SEROPT_OTHER \<Rightarrow> Some (-1, C))"

definition ipc_server_proxy :: "int \<Rightarrow> bool \<Rightarrow> addr option \<Rightarrow> core \<Rightarrow> (int \<times> core) option" where
  "ipc_server_proxy fd handler_ok blk C =
     (if \<not> inited C then Some (-1, C)
      else if fd < 0 then Some (-1, C)
      else if \<not> handler_ok then Some (-1, C)
      else do { (p, C) \<leftarrow> ipc_proxy_create blk fd C; Some (if p \<noteq> NULL then 0 else -1, C) })"

definition ipc_server_bind :: "addr option \<Rightarrow> addr \<Rightarrow> nat \<Rightarrow> addr \<Rightarrow> core \<Rightarrow> (int \<times> core) option" where
  "ipc_server_bind blk p type ck C = do {
     s \<leftarrow> sevr_get C p;
     if clazz s \<noteq> CLASS_REQUESTER \<and> clazz s \<noteq> CLASS_SUBSCRIBER then Some (-1, C)
     else if cookie s \<noteq> NULL then Some (-1, C)
     else if type = IPC_COOKIE_ASYNC then do {
       (a, C) \<leftarrow> ipc_async_alloc blk p C;
       if a = NULL then Some (-1, C)
       else Some (0, C\<lparr>handles := (handles C)(p := s\<lparr>cookie := a\<rparr>)\<rparr>)
     } else do {
       c_assert (type = IPC_COOKIE_USER);
       if ipc_cookie_type C ck \<ge> IPC_COOKIE_USER then Some (-1, C)
       else Some (0, C\<lparr>handles := (handles C)(p := s\<lparr>cookie := ck\<rparr>)\<rparr>)
     }
   }"

end
