(* ===== verification/IPC_Properties.thy ===== *)
theory IPC_Properties
  imports IPC_Connect IPC_Timing_Proofs IPC_Parse IPC_Loop
begin

text \<open>
  A small server state: one subscriber at 1000, socket 7, identity 42, whose mask has bit 0
  set and whose node is at 2000; the bucket array is at 3000. In \<open>example_core\<close> it is
  registered, in \<open>synced_core\<close> it has sent its \<open>SYNC\<close> message.
\<close>

definition self_links :: links where
  "self_links = (\<lambda>a. \<lparr>list_next = a, list_prev = a\<rparr>)"

definition example_handle :: ipc_server where
  "example_handle = \<lparr>clazz = CLASS_SUBSCRIBER, sock = 7, sv_handler = COMMON_HANDLER, identity = 42, cookie = NULL,
     peer_mask = 1, peer_node = 2000\<rparr>"

definition example_core :: core where
  "example_core = \<lparr>
     links = self_links(1 := \<lparr>list_next = 1000, list_prev = 1000\<rparr>, 1000 := \<lparr>list_next = 1, list_prev = 1\<rparr>),
     handles = (\<lambda>_. example_handle), node_sevr = (\<lambda>_. NULL),
     timings = (\<lambda>_. \<lparr>cycle = True, tv_sec = 1, tv_usec = 500000, expire_sec = 0, expire_usec = 0\<rparr>),
     asyncs = (\<lambda>_. \<lparr>as_state = ASYNC_IDLE, as_sevr = NULL, as_msg = None, as_func = NULL, as_release = NULL, as_arg = NULL\<rparr>),
     cookie_types = (\<lambda>_. 0), live = {1000}, node_hb = 3000, rfds = {7}, nfds = 7, filter_set = False,
     manager_set = False, mutex_set = False, core_arg = NULL,
     buf = Some \<lparr>buf_head = 0, buf_tail = 0, buf_size = 64, buf_data = replicate 64 0\<rparr>, clone = True,
     pool_set = False,
     async_pool = \<lparr>mintasks = 1, maxtasks = 1, ntasks = 0, idletasks = 0, linger = 0, pool_destroy = False\<rparr>,
     inited = True, running = True, tid = 1, sent = [], closed = []\<rparr>"

definition synced_core :: core where
  "synced_core = example_core\<lparr>
     links := (links example_core)(3000 := \<lparr>list_next = 2000, list_prev = 2000\<rparr>, 2000 := \<lparr>list_next = 3000, list_prev = 3000\<rparr>),
     node_sevr := (\<lambda>_. NULL)(2000 := 1000)\<rparr>"

definition example_hooks :: hooks where
  "example_hooks = \<lparr>h_handler = (\<lambda>m c C. (0, m, C)), h_filter = (\<lambda>n C. (0, C)), h_manager = (\<lambda>p c d C. (0, C)),
     h_proxy = (\<lambda>p sk C. (0, C)), h_timing = (\<lambda>t C. C\<lparr>closed := closed C @ [int t]\<rparr>), h_async_release = (\<lambda>a C. C),
     h_send = (\<lambda>sk m C. 1)\<rparr>"

lemma bits_1 [simp]: "bits 1 = {0}"
  using bits_exp [of 0] by simp

lemma example_quiet: "quiet_manager example_hooks"
  by (simp add: quiet_manager_def example_hooks_def)

lemma example_timing: "quiet_timing example_hooks (\<lambda>C. map nat (closed C))"
  by (simp add: quiet_timing_def example_hooks_def)

lemma rank_1 [simp]: "rank 1 0 = 0"
  by simp

lemma example_proj:
  "links example_core = self_links(1 := \<lparr>list_next = 1000, list_prev = 1000\<rparr>, 1000 := \<lparr>list_next = 1, list_prev = 1\<rparr>)"
  "handles example_core p = example_handle" "node_sevr example_core a = NULL" "live example_core = {1000}"
  "node_hb example_core = 3000" "rfds example_core = {7}" "nfds example_core = 7"
  "links synced_core = (links example_core)(3000 := \<lparr>list_next = 2000, list_prev = 2000\<rparr>, 2000 := \<lparr>list_next = 3000, list_prev = 3000\<rparr>)"
  "handles synced_core p = example_handle" "node_sevr synced_core = (\<lambda>_. NULL)(2000 := 1000)" "live synced_core = {1000}"
  "node_hb synced_core = 3000" "rfds synced_core = {7}" "nfds synced_core = 7"
  by (simp_all add: example_core_def synced_core_def)

lemma example_handle_proj [simp]:
  "clazz example_handle = CLASS_SUBSCRIBER" "sock example_handle = 7" "identity example_handle = 42"
  "peer_mask example_handle = 1" "peer_node example_handle = 2000" "cookie example_handle = NULL"
  by (simp_all add: example_handle_def)

lemmas example_defs = example_proj core_head_def timing_head_def

lemma example_shape:
  "heads example_core = {1, 2} \<union> (\<lambda>i. 3000 + 16 * i) ` {..<64}" "node_cells example_core p = {2000}"
  "peers example_core [1000] = [1000]" "bucket example_core i = 3000 + 16 * i" "bkt_index example_core a = (a - 3000) div 16"
  "topic_nodes example_core [] i = []" "topic_nodes example_core [1000] i = (if i = 0 then [2000] else [])"
  by (simp_all add: heads_def node_cells_def peers_def bucket_def bkt_index_def topic_nodes_def wants_def node_at_def
      example_core_def example_handle_def core_head_def timing_head_def node_cell_def lessThan_Suc)

lemma example_broker: "broker example_core [1000] [] []"
proof -
  have "ring (links example_core) a (rep_lists example_core [1000] [] [] a)" if "a \<in> heads example_core" for a
    using that unfolding example_shape
    by (auto simp: rep_lists_def example_shape ring_def example_defs self_links_def)
  moreover have "set (a # rep_lists example_core [1000] [] [] a) \<inter> set (b # rep_lists example_core [1000] [] [] b) = {}"
    if "a \<in> heads example_core" "b \<in> heads example_core" "a \<noteq> b" for a b
    using that unfolding example_shape
    by (auto simp: rep_lists_def example_shape core_head_def timing_head_def)
  ultimately show ?thesis
    by (auto simp: broker_def rings_def peer_ok_def example_shape example_defs)
qed

lemma synced_broker: "broker synced_core [1000] [] [1000]"
proof -
  have same: "heads synced_core = heads example_core" "peers synced_core = peers example_core" "bucket synced_core = bucket example_core"
    "node_cells synced_core = node_cells example_core" "rep_lists synced_core = rep_lists example_core"
    by (simp_all add: synced_core_def)
  have "ring (links synced_core) a (rep_lists example_core [1000] [] [1000] a)" if "a \<in> heads example_core" for a
    using that unfolding example_shape
    by (auto simp: rep_lists_def example_shape ring_def example_defs self_links_def)
  moreover have "set (a # rep_lists example_core [1000] [] [1000] a) \<inter> set (b # rep_lists example_core [1000] [] [1000] b) = {}"
    if "a \<in> heads example_core" "b \<in> heads example_core" "a \<noteq> b" for a b
    using that unfolding example_shape
    by (auto simp: rep_lists_def example_shape core_head_def timing_head_def)
  ultimately show ?thesis
    by (auto simp: broker_def rings_def peer_ok_def same example_shape) (auto simp: example_defs)
qed

lemma example_fds: "fds_ok example_core [1000]" "fds_ok synced_core [1000]"
  by (simp_all add: fds_ok_def example_defs)


unbundle bit_operations_syntax

text \<open>
  What the IPC library promises: the message parser, notifications, the broker, timings and
  replies.
\<close>

section \<open>Messages\<close>

lemma find_msg_first:
  assumes b: "buf_ok b" and p: "pending b = msg_bytes (tokened m) @ r" and m: "msg_wf m" "id_ok m"
  shows "fst (find_msg b c) = Some m \<and> buf_ok (snd (find_msg b c)) \<and> pending (snd (find_msg b c)) = r"
proof -
  let ?left = "buf_tail b - buf_head b" and ?m = "msg_at (drop (buf_head b) (buf_data b))"
  have len: "length (msg_bytes (tokened m)) = msg_size m" using length_msg_bytes [of "tokened m"] m by simp
  have lp: "?left = msg_size m + length r" using length_pending [OF b] p len by simp
  have at: "?m = tokened m" using drop_head [OF b] p m msg_at_msg_bytes [of "tokened m"] by simp
  have fr: "friendly ?m = Some m" unfolding at by (rule friendly_tokened [OF m(2)])
  have sz: "12 \<le> msg_size m" "msg_size ?m = msg_size m" unfolding at by (simp_all add: msg_size_def IPC_MSG_HDRLEN_def tokened_def)
  have nz: "\<not> buf_tail b \<le> buf_head b" "msg_size m \<le> ?left" using lp sz by linarith+
  define d' where "d' = (if \<not> c \<and> buf_head b mod IPC_MSG_ALIGN \<noteq> 0
      then put_bytes 0 (msg_bytes m) (put_bytes (buf_head b) (msg_bytes m) (buf_data b))
      else put_bytes (buf_head b) (msg_bytes m) (buf_data b))"
  have f: "find_msg b c = (Some m, b\<lparr>buf_data := d', buf_head := buf_head b + msg_size m\<rparr>)"
    using nz lp sz fr by (subst find_msg.simps) (simp add: IPC_MSG_HDRLEN_def Let_def d'_def)
  have "drop (msg_size m) (pending b) = r" using p len by simp
  with f found_ok [OF b m(1) nz(2) refl d'_def] show ?thesis by simp
qed

text \<open>
  C8: refinement. On a buffer whose unread bytes are any byte sequence, \<open>find_msg\<close> returns what
  the specification \<open>parse\<close> finds first, skipping messages without the token, keeps the buffer
  in order and the bytes behind the message unread; when there is no whole message the
  incomplete rest stays, and there is room for more of it unless it fills the buffer.
\<close>

theorem find_msg_correct:
  assumes "buf_ok b"
  shows "buf_ok (snd (find_msg b c)) \<and> buf_size (snd (find_msg b c)) = buf_size b \<and>
    (case fst (find_msg b c) of
       None \<Rightarrow> fst (parse (pending b)) = [] \<and> pending (snd (find_msg b c)) = snd (parse (pending b)) \<and>
         (length (pending (snd (find_msg b c))) < buf_size b \<longrightarrow>
            pending (snd (find_msg b c)) = [] \<or> \<not> ipc_buf_full (snd (find_msg b c)))
     | Some m \<Rightarrow> parse (pending b) = (m # fst (parse (pending (snd (find_msg b c)))), snd (parse (pending (snd (find_msg b c))))) \<and>
         length (pending (snd (find_msg b c))) < length (pending b))"
  using assms by (rule find_msg_refines)

theorem find_msg_correct_witness:
  "buf_size (snd (find_msg \<lparr>buf_head = 0, buf_tail = 4, buf_size = 16, buf_data = replicate 16 0\<rparr> True)) = 16 \<and>
   fst (find_msg \<lparr>buf_head = 0, buf_tail = 4, buf_size = 16, buf_data = replicate 16 0\<rparr> True) = None"
  using find_msg_correct [of "\<lparr>buf_head = 0, buf_tail = 4, buf_size = 16, buf_data = replicate 16 0\<rparr>" True]
    parse.simps [of "replicate 4 0"]
  by (auto simp: buf_ok_def pending_def IPC_MSG_HDRLEN_def split: option.splits)

definition ping :: ipc_msg where
  "ping = \<lparr>msg_from = 9, msg_id = 5, msg_flags = 1, msg_data_len = 2, msg_data = [1, 2]\<rparr>"

lemma ping_ok: "msg_wf ping" "id_ok ping"
  by (simp_all add: ping_def msg_wf_def id_ok_def IPC_MSG_TOKEN_MASK_def)

text \<open>
  C9: round trip. A message sent by \<open>send_msg\<close> (token set) and received at the read position of
  the buffer is returned by \<open>find_msg\<close> as it was, and exactly its bytes are consumed.
\<close>

theorem find_msg_roundtrip:
  assumes "buf_ok b" and "pending b = msg_bytes (tokened m) @ r" and "msg_wf m" and "id_ok m"
  shows "fst (find_msg b c) = Some m \<and> buf_ok (snd (find_msg b c)) \<and> pending (snd (find_msg b c)) = r"
  using assms by (rule find_msg_first)

theorem find_msg_roundtrip_witness:
  "fst (find_msg \<lparr>buf_head = 0, buf_tail = 14, buf_size = 16, buf_data = msg_bytes (tokened ping) @ [0, 0]\<rparr> False) = Some ping"
proof -
  let ?b = "\<lparr>buf_head = 0, buf_tail = 14, buf_size = 16, buf_data = msg_bytes (tokened ping) @ [0, 0]\<rparr>"
  have l: "length (msg_bytes (tokened ping)) = 14"
    by (simp add: msg_bytes_def ping_def tokened_def)
  show ?thesis using find_msg_roundtrip [of ?b ping "[]" False] ping_ok l by (simp add: buf_ok_def pending_def)
qed

section \<open>Notifications\<close>

lemma notify_of_bytes:
  assumes "msg_data m = notify_bytes n"
  shows "notify_of m = n\<lparr>ntf_data := take (unat (ntf_data_len n)) (ntf_data n)\<rparr>"
proof -
  have d: "take 4 (notify_bytes n) = le32 (ntf_to n)" "take 8 (drop 4 (notify_bytes n)) = le64 (ntf_topic n)"
    "take 4 (drop 12 (notify_bytes n)) = le32 (ntf_msg_id n)" "take 4 (drop 16 (notify_bytes n)) = le32 (ntf_data_len n)"
    "drop 20 (notify_bytes n) = take (unat (ntf_data_len n)) (ntf_data n)"
    by (simp_all add: notify_bytes_def le64_def)
  have "notify_of m = \<lparr>ntf_to = ntf_to n, ntf_topic = ntf_topic n, ntf_msg_id = ntf_msg_id n, ntf_data_len = ntf_data_len n,
      ntf_data = take (unat (ntf_data_len n)) (ntf_data n)\<rparr>"
    unfolding notify_of_def Let_def assms d from_le32_le32 from_le64_le64 ..
  then show ?thesis by (cases n) simp
qed

lemma msg_data_pack:
  "msg_data (ipc_notify_pack m dest topic i (Some d) sz) =
     notify_bytes \<lparr>ntf_to = dest, ntf_topic = topic, ntf_msg_id = i, ntf_data_len = sz, ntf_data = take (unat sz) d\<rparr>"
  by (simp add: ipc_notify_pack_def Let_def)

text \<open>
  The broker reads back from a packed notification the destination, the topic,
  the id and the data it was packed with.
\<close>

theorem notify_pack_roundtrip:
  "notify_of (ipc_notify_pack m dest topic i (Some d) sz) =
     \<lparr>ntf_to = dest, ntf_topic = topic, ntf_msg_id = i, ntf_data_len = sz, ntf_data = take (unat sz) d\<rparr>"
  using notify_of_bytes [OF msg_data_pack] by simp

text \<open>
  The bit loop \<open>bit_count\<close> counts the set bits of its mask, and the topic test
  accepts exactly the masks with at most one of them: the empty mask passes too.
\<close>

theorem topic_masks_correct:
  "bit_count m = int (card {i. bit m i}) \<and> (topic_check t \<longleftrightarrow> t = 0 \<or> (\<exists>i<64. t = 2 ^ i))"
  using bit_count_eq [of m] topic_check_iff [of t] by (simp add: bits_def)

section \<open>The broker\<close>

text \<open>
  C5: functional. When the broker dispatches a notification for topic \<open>2 ^ i\<close>, the message goes
  once, in the order of subscription, to every synchronised subscriber whose mask has bit \<open>i\<close>
  (or to the first of them with the given identity), and to no one else.
\<close>

theorem publish_correct:
  assumes "broker C hs ts subs" and "ntf_topic (notify_of m) = 2 ^ i" and "i < 64"
    and "filter_set C \<longrightarrow> h_filter H (notify_of m) C = (0, C)"
  shows "ipc_broker_publish H m C =
    Some (0, logged C (deliver C subs (ntf_to (notify_of m)) i) (tokened m))"
  using assms dispatch_ok [OF assms(1,3)] topic_check_iff [of "2 ^ i"]
  by (auto simp: ipc_broker_publish_def Let_def)

definition news :: ipc_msg where
  "news = ipc_notify_pack ping IPC_TO_BROADCAST 1 77 (Some [3]) 1"

lemma news_topic: "ntf_topic (notify_of news) = 2 ^ 0" "ntf_to (notify_of news) = IPC_TO_BROADCAST"
  using notify_of_bytes [OF msg_data_pack [of ping IPC_TO_BROADCAST 1 77 "[3]" 1]] by (simp_all add: news_def)

theorem publish_correct_witness:
  "ipc_broker_publish example_hooks news synced_core = Some (0, synced_core\<lparr>sent := [(7, tokened news)]\<rparr>)"
  using publish_correct [OF synced_broker news_topic(1), of example_hooks]
  by (simp add: news_topic deliver_def wants_def example_proj example_hooks_def synced_core_def example_core_def)





text \<open>
  A registration with a non-empty mask either adds the new subscriber at the end
  of the handles and answers with the buffer size, or, when the manager refuses it or the answer
  cannot be sent, leaves the broker as it was with the socket closed once.
\<close>

theorem register_correct:
  assumes "quiet_manager H" and "broker C hs ts subs" and "buf C = Some b"
    and "fresh_mem C hs ts (reg_mask m) p nb M" and "reg_mask m \<noteq> 0"
  shows "\<exists>r C'. ipc_server_register H M sk m C = Some (r, C') \<and>
    (if r = 0 then broker C' (hs @ [p]) ts subs \<and> closed C' = closed C \<and>
        sent C' = sent C @ [(sk, tokened (m\<lparr>msg_id := IPC_SDK_MSG_SUCCESS, msg_data_len := 4,
          msg_data := put_bytes 0 (le32 (of_nat (buf_size b))) (msg_data m)\<rparr>))]
     else r = -1 \<and> broker C' hs ts subs \<and> closed C' = closed C @ [sk])"
  using assms by (rule register_ok)

definition hello :: ipc_msg where
  "hello = \<lparr>msg_from = 43, msg_id = IPC_SDK_MSG_REGISTER, msg_flags = 0, msg_data_len = 12, msg_data = le64 1 @ le32 0\<rparr>"

theorem register_correct_witness:
  "\<exists>r C'. ipc_server_register example_hooks \<lparr>m_handle = Some 5000, m_nodes = Some 6000, m_bucket = None\<rparr> 8 hello example_core = Some (r, C') \<and>
    (if r = 0 then broker C' [1000, 5000] [] [] else r = -1 \<and> broker C' [1000] [] [])"
proof -
  have "take 8 (le64 1 @ le32 0) = le64 1" by (simp add: le64_def)
  then have m: "reg_mask hello = 1" unfolding reg_mask_def hello_def by (simp only: ipc_msg.simps from_le64_le64)
  obtain b where b: "buf example_core = Some b" by (simp add: example_core_def)
  have f: "fresh_mem example_core [1000] [] (reg_mask hello) 5000 6000 \<lparr>m_handle = Some 5000, m_nodes = Some 6000, m_bucket = None\<rparr>"
    unfolding m by (auto simp: fresh_mem_def used_def example_shape example_proj node_cell_def Let_def)
  obtain r C' where "ipc_server_register example_hooks \<lparr>m_handle = Some 5000, m_nodes = Some 6000, m_bucket = None\<rparr> 8 hello example_core = Some (r, C')"
    "if r = 0 then broker C' ([1000] @ [5000]) [] [] else r = -1 \<and> broker C' [1000] [] []"
    using register_correct [OF example_quiet example_broker b f, of 8] m by (auto split: if_splits)
  then show ?thesis by (intro exI [of _ r] exI [of _ C']) (simp split: if_splits)
qed

text \<open>
  The server notifies one client directly exactly when the client is a
  synchronised subscriber of the topic; otherwise, and when a large message finds no memory, it
  returns -1 and sends nothing.
\<close>

theorem notify_correct:
  assumes "broker C hs ts subs" and "p \<in> set hs" and "i < 64" and "running C"
  shows "ipc_server_notify H alloc_ok fl p (2 ^ i) mid data sz C = Some
    (let dyn = \<not> notify_space_check IPC_NOTIFY_MSG_MAX_SIZE sz;
         m = \<lparr>msg_from = 0, msg_id = 0, msg_flags = (if dyn then 0 else fl), msg_data_len = 0, msg_data = []\<rparr> in
     if p \<in> set subs \<and> wants C i p \<and> (dyn \<longrightarrow> alloc_ok)
     then (0, logged C [p] (tokened (ipc_notify_pack m IPC_TO_NOTIFY (2 ^ i) mid data sz))) else (-1, C))"
proof -
  have p: "p \<noteq> NULL" "p \<in> live C" using broker_handle [OF assms(1,2)] by auto
  have c: "nat (bit_count (peer_mask (handles C p) AND (2 ^ i - 1))) = rank (peer_mask (handles C p)) i"
    by (simp add: bit_count_below [OF assms(3)])
  have "notify_refused (handles C p) (2 ^ i) C \<longleftrightarrow> \<not> (p \<in> set subs \<and> wants C i p)"
  proof (cases "clazz (handles C p) = CLASS_SUBSCRIBER \<and> wants C i p")
    case True
    then have "p \<in> set (peers C hs)" using assms(2) by (simp add: peers_def)
    then have "peer_ok C hs ts subs p" using assms(1) by (simp add: broker_def)
    with True node_at_in have "node_sevr C (node_at C p i) = (if p \<in> set subs then p else NULL)"
      by (simp add: peer_ok_def)
    moreover have "topic_check (2 ^ i)" using topic_check_iff [of "2 ^ i"] assms(3) by auto
    ultimately show ?thesis
      using True p(1) topic_isset_exp [OF assms(3)] by (auto simp: notify_refused_def c node_at_def wants_def)
  next
    case False
    then have "p \<notin> set subs \<or> \<not> wants C i p" using broker_sub [OF assms(1), of p] by (auto simp: peers_def)
    with False show ?thesis using topic_isset_exp [OF assms(3)] by (auto simp: notify_refused_def wants_def)
  qed
  then show ?thesis
    using assms(4) p by (simp add: ipc_server_notify_def sevr_get_live msg_notify_def msg_report_ok Let_def)
qed

theorem notify_correct_witness:
  "ipc_server_notify example_hooks True 0 1000 (2 ^ 0) 5 None 0 example_core = Some (-1, example_core)"
  using notify_correct [OF example_broker, of 1000 0 example_hooks True 0 5 None 0] by (simp add: example_core_def)

section \<open>Errors\<close>

text \<open>
  A connected requester that sends a \<open>SYNC\<close> message fails the assertion of
  \<open>ipc_server_sync\<close>: the message handling of the server has no result.
\<close>

theorem requester_sync_aborts:
  assumes "p \<in> live C" and "p \<noteq> NULL" and "clazz (handles C p) = CLASS_REQUESTER" and "msg_id m = IPC_SDK_MSG_SYNC"
  shows "common_dispatch H p m C = None"
  using assms by (simp add: common_dispatch_def ipc_server_sync_def sevr_get_live mem_simps
      IPC_SDK_MSG_SYNC_def IPC_SDK_MSG_CONNECT_def IPC_SDK_MSG_REGISTER_def IPC_MSG_SDK_def)

theorem requester_sync_aborts_witness:
  "common_dispatch example_hooks 1000 (ping\<lparr>msg_id := IPC_SDK_MSG_SYNC\<rparr>)
     (example_core\<lparr>handles := (\<lambda>_. example_handle\<lparr>clazz := CLASS_REQUESTER\<rparr>)\<rparr>) = None"
  by (rule requester_sync_aborts) (simp_all add: example_proj)

text \<open>
  A notification whose topic is the empty mask passes the topic test and is
  dispatched to the subscribers of bit 0.
\<close>

theorem publish_empty_topic:
  assumes "broker C hs ts subs" and "ntf_topic (notify_of m) = 0" and "\<not> filter_set C"
  shows "ipc_broker_publish H m C = Some (0, logged C (deliver C subs (ntf_to (notify_of m)) 0) (tokened m))"
proof -
  have "dispatch_topic H dest 0 m C = dispatch_topic H dest (2 ^ 0) m C" for dest
    using bit_index_exp [of 0] by (simp add: dispatch_topic_def bit_index_0)
  then show ?thesis
    using assms dispatch_ok [OF assms(1), of 0 H] topic_check_iff [of 0] by (simp add: ipc_broker_publish_def)
qed

theorem publish_empty_topic_witness:
  "ipc_broker_publish example_hooks (ipc_notify_pack ping IPC_TO_BROADCAST 0 77 (Some [3]) 1) synced_core =
     Some (0, synced_core\<lparr>sent := [(7, tokened (ipc_notify_pack ping IPC_TO_BROADCAST 0 77 (Some [3]) 1))]\<rparr>)"
proof -
  note n = notify_of_bytes [OF msg_data_pack [of ping IPC_TO_BROADCAST 0 77 "[3]" 1]]
  have "\<not> filter_set synced_core" "sent synced_core = []" by (simp_all add: synced_core_def example_core_def)
  with publish_empty_topic [OF synced_broker, of "ipc_notify_pack ping IPC_TO_BROADCAST 0 77 (Some [3]) 1" example_hooks] n
  show ?thesis by (simp add: deliver_def wants_def example_proj)
qed

section \<open>Timings\<close>

text \<open>
  Registering a timing, idle or armed, puts it at the place its new expiry time has
  in the sorted list of timings, behind those that expire at the same time.
\<close>

theorem timing_register_correct:
  assumes "inited C" and "tid C = me" and "ring (links C) timing_head ps" and "by_expiry (timings C) ps"
    and "t \<in> set ps \<or> t \<notin> set (timing_head # ps) \<and> ring (links C) t []"
  shows "\<exists>L. ipc_timing_register me now t C =
      Some (0, C\<lparr>timings := (timings C)(t := rearmed now (timings C t)), links := L\<rparr>) \<and>
    ring L timing_head (ins ((timings C)(t := rearmed now (timings C t))) t (remove1 t ps)) \<and>
    by_expiry ((timings C)(t := rearmed now (timings C t))) (ins ((timings C)(t := rearmed now (timings C t))) t (remove1 t ps))"
  using timing_register_ok [OF assms, of now] by blast

theorem timing_register_correct_witness:
  "\<exists>L. ipc_timing_register 1 (10, 700000) 50 example_core =
      Some (0, example_core\<lparr>timings := (timings example_core)(50 := \<lparr>cycle = True, tv_sec = 1, tv_usec = 500000, expire_sec = 12, expire_usec = 200000\<rparr>), links := L\<rparr>) \<and>
    ring L timing_head [50]"
proof -
  have t: "rearmed (10, 700000) (timings example_core 50) = \<lparr>cycle = True, tv_sec = 1, tv_usec = 500000, expire_sec = 12, expire_usec = 200000\<rparr>"
    by (simp add: rearmed_def timing_carry_eq example_core_def)
  have r: "inited example_core" "tid example_core = 1" "ring (links example_core) timing_head []" "ring (links example_core) 50 []"
    by (simp_all add: example_core_def ring_def timing_head_def self_links_def)
  show ?thesis
    using timing_register_correct [OF r(1-3), of 50 "(10, 700000)"] r(4) t by (auto simp: by_expiry_def timing_head_def)
qed


definition ticking_core :: core where
  "ticking_core = example_core\<lparr>links := (links example_core)(2 := \<lparr>list_next = 50, list_prev = 50\<rparr>, 50 := \<lparr>list_next = 2, list_prev = 2\<rparr>)\<rparr>"


end
