(* ===== verification/IPC_Client.thy ===== *)
theory IPC_Client
  imports IPC_Parse
begin

unbundle bit_operations_syntax

text \<open>
  The IPC client of \<open>ipc/ipc_client.c\<close>: connections, requests, publishing, and subscribers
  with the task that receives notifications. \<open>net\<close> is the process's view of the kernel:
  scripts of what \<open>socket\<close>, \<open>sock_opts\<close>, \<open>connect\<close>, \<open>send\<close>, \<open>select\<close> and \<open>recv\<close>
  will answer, and logs of what was sent, closed and slept. A script that is used up stands for
  a call that does not return. The pid that \<open>client_init\<close> reads is an argument. After a
  failed reception the contents of the caller's message buffer are not kept.
\<close>

section \<open>Data\<close>

definition IPC_REQUEST_SUCCESS :: int where "IPC_REQUEST_SUCCESS = 0"

definition IPC_REQUEST_TMO :: int where "IPC_REQUEST_TMO = - IPC_ETIMEOUT"

definition IPC_REQUEST_EOF :: int where "IPC_REQUEST_EOF = - IPC_EOF"

definition IPC_REQUEST_EMEM :: int where "IPC_REQUEST_EMEM = - IPC_EMEM"

definition IPC_REQUEST_EMT :: int where "IPC_REQUEST_EMT = - IPC_ERECV"

definition IPC_REQUEST_EMO :: int where "IPC_REQUEST_EMO = - IPC_ESEND"

definition IPC_REQUEST_ECN :: int where "IPC_REQUEST_ECN = - IPC_ECONN"

definition IPC_REQUEST_EMSG :: int where "IPC_REQUEST_EMSG = - IPC_EMSG"

definition IPC_REQUEST_EVAL :: int where "IPC_REQUEST_EVAL = - IPC_EVAL"

datatype ipc_state = IPC_S_CONNECTING | IPC_S_CONNECTED | IPC_S_DISCONNECTING | IPC_S_DISCONNECTED

record ipc_client =
  cl_server :: string
  cl_sock :: int
  cl_identity :: int
  cl_state :: ipc_state

datatype connect_ret = ConnOk | ConnIntr | ConnRefused | ConnError

record net =
  n_sockets :: "int list"
  n_opts :: "int list"
  n_connects :: "connect_ret list"
  n_sends :: "int list"
  n_io :: io
  n_sent :: "(int \<times> ipc_msg) list"
  n_closed :: "int list"
  n_slept :: int

section \<open>Kernel calls\<close>

definition net_socket :: "net \<Rightarrow> (int \<times> net) option" where
  "net_socket N = (case n_sockets N of [] \<Rightarrow> None | r # rs \<Rightarrow> Some (r, N\<lparr>n_sockets := rs\<rparr>))"

definition net_opts :: "net \<Rightarrow> (int \<times> net) option" where
  "net_opts N = (case n_opts N of [] \<Rightarrow> None | r # rs \<Rightarrow> Some (r, N\<lparr>n_opts := rs\<rparr>))"

definition net_close :: "int \<Rightarrow> net \<Rightarrow> net" where
  "net_close sk N = N\<lparr>n_closed := n_closed N @ [sk]\<rparr>"

definition net_send_msg :: "int \<Rightarrow> ipc_msg \<Rightarrow> net \<Rightarrow> (int \<times> ipc_msg \<times> net) option" where
  "net_send_msg sk m N =
     (case n_sends N of
        [] \<Rightarrow> None
      | r # rs \<Rightarrow> Some (r, tokened m, N\<lparr>n_sends := rs, n_sent := n_sent N @ [(sk, tokened m)]\<rparr>))"

definition UNIX_SOCK_DIR :: string where "UNIX_SOCK_DIR = ''/tmp/''"

definition server_size :: nat where "server_size = 64"

text \<open>\<open>snprintf\<close> into the server name: the text that fits and whether all of it did.\<close>

definition set_server :: "string \<Rightarrow> ipc_client \<Rightarrow> bool \<times> ipc_client" where
  "set_server server c =
     (let path = UNIX_SOCK_DIR @ server
      in (length path < server_size, c\<lparr>cl_server := take (server_size - 1) path\<rparr>))"

definition client_valid :: "int \<Rightarrow> ipc_client \<Rightarrow> bool" where
  "client_valid pid c \<longleftrightarrow>
     cl_state c = IPC_S_CONNECTED \<and> cl_sock c \<ge> 0 \<and> cl_identity c > 0 \<and> cl_identity c = pid"

section \<open>Connections and requests\<close>

fun connect_retry :: "nat \<Rightarrow> connect_ret list \<Rightarrow> int \<Rightarrow> (bool \<times> connect_ret list \<times> int) option" where
  "connect_retry retry [] slept = None"
| "connect_retry retry (ConnOk # rs) slept = Some (True, rs, slept)"
| "connect_retry retry (ConnIntr # rs) slept = connect_retry retry rs slept"
| "connect_retry retry (ConnRefused # rs) slept =
     (if retry < 3 then connect_retry (Suc retry) rs (slept + 1) else Some (False, rs, slept))"
| "connect_retry retry (ConnError # rs) slept = Some (False, rs, slept)"

definition ipc_connect :: "ipc_client \<Rightarrow> net \<Rightarrow> (int \<times> ipc_client \<times> net) option" where
  "ipc_connect c N = do {
     (sk, N) \<leftarrow> net_socket N;
     if sk < 0 then Some (-1, c, N)
     else do {
       (r, N) \<leftarrow> net_opts N;
       if r < 0 then Some (-1, c, net_close sk N)
       else do {
         let c = c\<lparr>cl_state := IPC_S_CONNECTING\<rparr>;
         (ok, rs, slept) \<leftarrow> connect_retry 0 (n_connects N) (n_slept N);
         let N = N\<lparr>n_connects := rs, n_slept := slept\<rparr>;
         if ok then Some (0, c\<lparr>cl_sock := sk\<rparr>, N)
         else Some (-1, c\<lparr>cl_state := IPC_S_DISCONNECTED\<rparr>, net_close sk N)
       }
     }
   }"

definition request_code :: "int \<Rightarrow> int" where
  "request_code e =
     (if e = IPC_RECEIVE_TMO then IPC_REQUEST_TMO
      else if e = IPC_RECEIVE_EOF then IPC_REQUEST_EOF
      else if e = IPC_RECEIVE_EMEM then IPC_REQUEST_EMEM
      else if e = IPC_RECEIVE_ERR then IPC_REQUEST_EMT
      else if e = IPC_RECEIVE_EMSG then IPC_REQUEST_EMSG
      else if e = IPC_RECEIVE_EVAL then IPC_REQUEST_EVAL
      else IPC_REQUEST_SUCCESS)"

definition ipc_request :: "ipc_client \<Rightarrow> ipc_msg \<Rightarrow> nat \<Rightarrow> int \<Rightarrow> net \<Rightarrow> (int \<times> ipc_msg \<times> net) option" where
  "ipc_request c m sz tmo N = do {
     let m = m\<lparr>msg_from := of_int (cl_identity c), msg_flags := msg_flags m AND 0xFF\<rparr>;
     (r, m, N) \<leftarrow> net_send_msg (cl_sock c) m N;
     if r < 0 then Some (IPC_REQUEST_EMO, m, N)
     else if msg_flags m AND 1 \<noteq> 0 then do {
       (r, got, i) \<leftarrow> recv_msg sz tmo (n_io N);
       let N = N\<lparr>n_io := i\<rparr>;
       case r of
         Inr m \<Rightarrow> Some (IPC_REQUEST_SUCCESS, m, N)
       | Inl e \<Rightarrow> Some (request_code e, m, N)
     } else Some (IPC_REQUEST_SUCCESS, m, N)
   }"

definition ipc_client_init :: "int \<Rightarrow> string \<Rightarrow> ipc_client \<Rightarrow> net \<Rightarrow> (int \<times> ipc_client \<times> net) option" where
  "ipc_client_init pid server c N =
     (case set_server server c of
        (False, c) \<Rightarrow> Some (-1, c, N)
      | (True, c) \<Rightarrow> do {
          (r, c, N) \<leftarrow> ipc_connect c N;
          if r < 0 then Some (-1, c, N)
          else Some (0, c\<lparr>cl_identity := pid, cl_state := IPC_S_CONNECTED\<rparr>, N)
        })"

definition ipc_client_close :: "ipc_client \<Rightarrow> net \<Rightarrow> ipc_client \<times> net" where
  "ipc_client_close c N =
     (if cl_sock c > 0
      then (c\<lparr>cl_state := IPC_S_DISCONNECTED, cl_sock := -1\<rparr>, net_close (cl_sock c) N) else (c, N))"

definition IPC_MSG_MINI_SIZE :: nat where "IPC_MSG_MINI_SIZE = IPC_MSG_HDRLEN + 16"

definition IPC_MSG_SDK_TIMEOUT :: int where "IPC_MSG_SDK_TIMEOUT = 5"

definition ipc_client_connect :: "ipc_client \<Rightarrow> net \<Rightarrow> (int \<times> ipc_client \<times> net) option" where
  "ipc_client_connect c N = do {
     (r, c, N) \<leftarrow> ipc_connect c N;
     if r < 0 then Some (-1, c, N)
     else do {
       (r, m, N) \<leftarrow> ipc_request c \<lparr>msg_from = 0, msg_id = IPC_SDK_MSG_CONNECT, msg_flags = 1, msg_data_len = 4,
                       msg_data = le32 (of_int (cl_identity c))\<rparr> IPC_MSG_MINI_SIZE IPC_MSG_SDK_TIMEOUT N;
       if r \<noteq> IPC_REQUEST_SUCCESS \<or> msg_id m \<noteq> IPC_SDK_MSG_SUCCESS
       then (case ipc_client_close c N of (c, N) \<Rightarrow> Some (-1, c, N))
       else Some (0, c\<lparr>cl_state := IPC_S_CONNECTED\<rparr>, N)
     }
   }"

text \<open>\<open>memset\<close> leaves the state \<open>IPC_S_CONNECTING\<close>, which is 0.\<close>

definition ipc_client_create :: "bool \<Rightarrow> int \<Rightarrow> string \<Rightarrow> net \<Rightarrow> (ipc_client option \<times> net) option" where
  "ipc_client_create malloc_ok pid server N =
     (if \<not> malloc_ok then Some (None, N)
      else case set_server server \<lparr>cl_server = [], cl_sock = 0, cl_identity = pid, cl_state = IPC_S_CONNECTING\<rparr> of
          (False, c) \<Rightarrow> Some (None, N)
        | (True, c) \<Rightarrow> do {
            (r, c, N) \<leftarrow> ipc_client_connect c N;
            Some (if r < 0 then None else Some c, N)
          })"

definition ipc_client_request :: "int \<Rightarrow> ipc_client \<Rightarrow> ipc_msg \<Rightarrow> nat \<Rightarrow> int \<Rightarrow> net \<Rightarrow> (int \<times> ipc_msg \<times> net) option" where
  "ipc_client_request pid c m sz tmo N =
     (if \<not> client_valid pid c then Some (IPC_REQUEST_EVAL, m, N)
      else if \<not> users_msg m then Some (IPC_REQUEST_EMSG, m, N)
      else ipc_request c m sz tmo N)"

definition ipc_client_destroy :: "ipc_client option \<Rightarrow> net \<Rightarrow> net" where
  "ipc_client_destroy co N =
     (case co of None \<Rightarrow> N | Some c \<Rightarrow> if cl_sock c > 0 then net_close (cl_sock c) N else N)"

definition ipc_client_repair :: "ipc_client \<Rightarrow> net \<Rightarrow> (int \<times> ipc_client \<times> net) option" where
  "ipc_client_repair c N =
     (case ipc_client_close c N of (c, N) \<Rightarrow> do {
        (r, c, N) \<leftarrow> ipc_client_connect c N;
        Some (if r = 0 then 0 else -1, c, N)
      })"

section \<open>Publishing\<close>

definition client_space_check :: "nat \<Rightarrow> 32 word \<Rightarrow> bool" where
  "client_space_check lim sz \<longleftrightarrow> lim \<ge> IPC_MSG_HDRLEN + sizeof_ipc_notify + unat sz"

definition ipc_client_publish ::
    "bool \<Rightarrow> int \<Rightarrow> ipc_client \<Rightarrow> 32 word \<Rightarrow> 64 word \<Rightarrow> 32 word \<Rightarrow> byte list option \<Rightarrow> 32 word \<Rightarrow> int \<Rightarrow> net \<Rightarrow> (int \<times> net) option" where
  "ipc_client_publish alloc_ok pid c dest topic i data sz tmo N =
     (if \<not> client_valid pid c then Some (IPC_REQUEST_EVAL, N)
      else if \<not> client_space_check IPC_NOTIFY_MSG_MAX_SIZE sz \<and> \<not> alloc_ok then Some (IPC_RECEIVE_EMEM, N)
      else do {
        let m = ipc_notify_pack \<lparr>msg_from = 0, msg_id = 0, msg_flags = 0, msg_data_len = 0, msg_data = []\<rparr> dest topic i data sz;
        (r, m, N) \<leftarrow> ipc_request c m IPC_NOTIFY_MSG_MAX_SIZE tmo N;
        Some (r, N)
      })"

definition ipc_client_publishx ::
    "ipc_client \<Rightarrow> ipc_msg \<Rightarrow> 32 word \<Rightarrow> 64 word \<Rightarrow> 32 word \<Rightarrow> 32 word \<Rightarrow> net \<Rightarrow> (int \<times> ipc_msg \<times> net) option" where
  "ipc_client_publishx c m dest msk i len N =
     (let m = ipc_notify_fill m dest msk i len in ipc_request c m (msg_size m) 0 N)"

end
