(* ===== verification/IPC_Subscriber.thy ===== *)
theory IPC_Subscriber
  imports IPC_Client
begin

unbundle bit_operations_syntax

text \<open>
  Subscribers of \<open>ipc/ipc_client.c\<close>: registration with a broker, the receive task and the
  delivery of notifications to the user's handler. The handler calls are logged with the
  notification they are made for.
\<close>

section \<open>Data and requests\<close>

record ipc_subscriber =
  su_task_id :: nat
  su_mask :: "64 word"
  su_handler :: bool
  su_arg :: nat
  su_buf :: "ipc_buf option"
  su_client :: ipc_client
  su_data_len :: "32 word"
  su_data :: "byte list"

definition ipc_subscriber_report :: "int \<Rightarrow> ipc_subscriber \<Rightarrow> ipc_msg \<Rightarrow> net \<Rightarrow> (int \<times> net) option" where
  "ipc_subscriber_report pid s m N =
     (if \<not> client_valid pid (su_client s) then Some (IPC_REQUEST_EVAL, N)
      else if \<not> users_msg m then Some (IPC_REQUEST_EMSG, N)
      else do {
        let m = m\<lparr>msg_flags := (msg_flags m AND NOT 1) AND 0xFF, msg_from := of_int (cl_identity (su_client s))\<rparr>;
        (r, m, N) \<leftarrow> net_send_msg (cl_sock (su_client s)) m N;
        Some (if r > 0 then IPC_REQUEST_SUCCESS else IPC_REQUEST_EMO, N)
      })"

text \<open>\<open>sock0\<close> and \<open>state0\<close> are what the stack holds in the dummy client before \<open>ipc_connect\<close>.\<close>

definition ipc_subscriber_request ::
    "int \<Rightarrow> int \<Rightarrow> ipc_state \<Rightarrow> ipc_subscriber \<Rightarrow> ipc_msg \<Rightarrow> nat \<Rightarrow> int \<Rightarrow> net \<Rightarrow> (int \<times> ipc_msg \<times> net) option" where
  "ipc_subscriber_request pid sock0 state0 s m sz tmo N =
     (if cl_identity (su_client s) \<le> 0 \<or> cl_identity (su_client s) \<noteq> pid then Some (IPC_REQUEST_EVAL, m, N)
      else do {
        (r, d, N) \<leftarrow> ipc_connect \<lparr>cl_server = cl_server (su_client s), cl_sock = sock0,
                       cl_identity = cl_identity (su_client s), cl_state = state0\<rparr> N;
        if r < 0 then Some (IPC_REQUEST_ECN, m, N)
        else do {
          (r, m, N) \<leftarrow> ipc_client_request pid d m sz tmo N;
          Some (r, m, snd (ipc_client_close d N))
        }
      })"

definition ipc_subscriber_destroy :: "ipc_subscriber option \<Rightarrow> net \<Rightarrow> net" where
  "ipc_subscriber_destroy so N =
     (case so of
        None \<Rightarrow> N
      | Some s \<Rightarrow> if cl_sock (su_client s) > 0 then net_close (cl_sock (su_client s)) N else N)"

section \<open>Connecting\<close>

definition sizeof_ipc_reg :: nat where "sizeof_ipc_reg = 16"

text \<open>The registration: mask, length and data, in a message of \<open>sizeof (struct ipc_reg)\<close> bytes more than the data.\<close>

definition reg_msg :: "ipc_subscriber \<Rightarrow> ipc_msg" where
  "reg_msg s = \<lparr>msg_from = 0, msg_id = IPC_SDK_MSG_REGISTER, msg_flags = 1,
     msg_data_len = ucast (16 + su_data_len s),
     msg_data = le64 (su_mask s) @ le32 (su_data_len s) @ take (unat (su_data_len s)) (su_data s) @ replicate 4 0\<rparr>"

definition ipc_subscriber_connect ::
    "bool \<Rightarrow> bool \<Rightarrow> ipc_subscriber \<Rightarrow> net \<Rightarrow> (int \<times> ipc_subscriber \<times> net) option" where
  "ipc_subscriber_connect alloc_ok buf_mem s N = do {
     let sz = sizeof_ipc_reg + unat (su_data_len s);
     let dyn = \<not> 1024 \<ge> IPC_MSG_HDRLEN + sz;
     if dyn \<and> \<not> alloc_ok then Some (-1, s, N)
     else do {
       let sbuf = (if dyn then sz + IPC_MSG_HDRLEN else 1024);
       (r, c, N) \<leftarrow> ipc_connect ((su_client s)\<lparr>cl_state := IPC_S_CONNECTING\<rparr>) N;
       if r < 0 then (case ipc_client_close c N of (c, N) \<Rightarrow> Some (-1, s\<lparr>su_client := c\<rparr>, N))
       else do {
         (r, m, N) \<leftarrow> ipc_request c (reg_msg s) sbuf IPC_MSG_SDK_TIMEOUT N;
         let b = (case su_buf s of Some b \<Rightarrow> Some b | None \<Rightarrow> alloc_buf buf_mem (from_le32 (take 4 (msg_data m))));
         if r \<noteq> IPC_REQUEST_SUCCESS \<or> msg_id m \<noteq> IPC_SDK_MSG_SUCCESS
         then (case ipc_client_close c N of (c, N) \<Rightarrow> Some (-1, s\<lparr>su_client := c\<rparr>, N))
         else case b of
             None \<Rightarrow> (case ipc_client_close c N of (c, N) \<Rightarrow> Some (-1, s\<lparr>su_client := c\<rparr>, N))
           | Some b \<Rightarrow> Some (0, s\<lparr>su_client := c\<lparr>cl_state := IPC_S_CONNECTED\<rparr>, su_buf := Some b\<rparr>, N)
       }
     }
   }"

definition ipc_subscriber_sync :: "32 word \<Rightarrow> ipc_subscriber \<Rightarrow> net \<Rightarrow> (int \<times> net) option" where
  "ipc_subscriber_sync tid s N = do {
     (r, m, N) \<leftarrow> net_send_msg (cl_sock (su_client s))
        \<lparr>msg_from = of_int (cl_identity (su_client s)), msg_id = IPC_SDK_MSG_SYNC, msg_flags = 0, msg_data_len = 4,
         msg_data = le32 tid\<rparr> N;
     Some (if r > 0 then 0 else -1, N)
   }"

definition ipc_subscriber_repair ::
    "bool \<Rightarrow> bool \<Rightarrow> 32 word \<Rightarrow> ipc_subscriber \<Rightarrow> net \<Rightarrow> (int \<times> ipc_subscriber \<times> net) option" where
  "ipc_subscriber_repair alloc_ok buf_mem tid s N =
     (case ipc_client_close (su_client s) N of (c, N) \<Rightarrow> do {
        (r, s, N) \<leftarrow> ipc_subscriber_connect alloc_ok buf_mem (s\<lparr>su_client := c\<rparr>) N;
        if r = 0 then do { (r, N) \<leftarrow> ipc_subscriber_sync tid s N; Some (0, s, N) }
        else Some (-1, s, N)
      })"

section \<open>Receiving\<close>

lemma find_msg_less:
  "find_msg b c = (Some m, b') \<Longrightarrow> buf_tail b' - buf_head b' < buf_tail b - buf_head b"
proof (induction b c arbitrary: m b' rule: find_msg.induct)
  case (1 b c)
  let ?left = "buf_tail b - buf_head b" and ?m = "msg_at (drop (buf_head b) (buf_data b))"
  have w: "12 \<le> ?left" "msg_size ?m \<le> ?left" "0 < msg_size ?m"
    using "1.prems" by (subst (asm) find_msg.simps, auto simp: IPC_MSG_HDRLEN_def Let_def msg_size_def split: if_splits)+
  then have nz: "\<not> buf_tail b \<le> buf_head b" by linarith
  show ?case
  proof (cases "friendly ?m")
    case None
    then have f: "find_msg b c = find_msg (b\<lparr>buf_head := buf_head b + msg_size ?m\<rparr>) c"
      using w nz by (subst find_msg.simps) (simp add: IPC_MSG_HDRLEN_def Let_def)
    have "buf_tail b' - buf_head b' < buf_tail b - (buf_head b + msg_size ?m)"
      using "1.IH" [OF refl _ _ refl refl _ None] w "1.prems" f by (simp add: IPC_MSG_HDRLEN_def)
    then show ?thesis by simp
  next
    case (Some n)
    then have "\<exists>d. find_msg b c = (Some n, b\<lparr>buf_data := d, buf_head := buf_head b + msg_size ?m\<rparr>)"
      using w nz by (subst find_msg.simps) (simp add: IPC_MSG_HDRLEN_def Let_def, blast)
    with w "1.prems" show ?thesis by auto
  qed
qed

text \<open>
  \<open>ipc_subscriber_process\<close>: the notifications the handler is called with, whether the task
  leaves (\<open>pthread_exit\<close>), and the buffer afterwards.
\<close>

function ipc_subscriber_process :: "64 word \<Rightarrow> ipc_buf \<Rightarrow> ipc_notify list \<times> bool \<times> ipc_buf" where
  "ipc_subscriber_process msk buf =
     (case find_msg buf False of
        (None, b) \<Rightarrow> ([], False, if ipc_buf_full b then ipc_buf_reset b else b)
      | (Some m, b) \<Rightarrow>
          if msg_id m = IPC_SDK_MSG_NOTIFY then
            let n = notify_of m;
                call = (if topic_isset msk (ntf_topic n) \<and> topic_check (ntf_topic n) then [n] else []) in
            if ipc_buf_pending b
            then (case ipc_subscriber_process msk b of (ns, ex, b) \<Rightarrow> (call @ ns, ex, b))
            else (call, False, ipc_buf_reset b)
          else if msg_id m = IPC_SDK_MSG_UNREGISTER then ([], True, b)
          else ([], False, ipc_buf_reset b))"
  by pat_completeness auto
termination
  by (relation "measure (\<lambda>(m, b). buf_tail b - buf_head b)") (auto dest: find_msg_less [OF sym])

declare ipc_subscriber_process.simps [simp del]

text \<open>The inner loop that repairs a connection: it goes on until it succeeds.\<close>

partial_function (option) repair_loop ::
    "bool \<Rightarrow> bool \<Rightarrow> 32 word \<Rightarrow> ipc_subscriber \<Rightarrow> net \<Rightarrow> (ipc_subscriber \<times> net) option" where
  "repair_loop alloc_ok buf_mem tid s N =
     (if su_mask s = 0 then Some (s, N)
      else do {
        (r, s, N) \<leftarrow> ipc_subscriber_repair alloc_ok buf_mem tid s N;
        if r < 0 then repair_loop alloc_ok buf_mem tid s (N\<lparr>n_slept := n_slept N + 5\<rparr>)
        else Some (s, N)
      })"

partial_function (option) subscriber_loop ::
    "bool \<Rightarrow> bool \<Rightarrow> 32 word \<Rightarrow> ipc_subscriber \<Rightarrow> ipc_buf \<Rightarrow> ipc_notify list \<Rightarrow> net \<Rightarrow> (ipc_subscriber \<times> ipc_notify list \<times> net) option" where
  "subscriber_loop alloc_ok buf_mem tid s b log N =
     (if su_mask s = 0 then Some (s, log, N)
      else do {
        (r, i) \<leftarrow> recv_stream (buf_size b - buf_tail b) (n_io N);
        let N = N\<lparr>n_io := i\<rparr>;
        case r of
          Inr bs \<Rightarrow>
            (case ipc_subscriber_process (su_mask s)
                (b\<lparr>buf_data := put_bytes (buf_tail b) bs (buf_data b), buf_tail := buf_tail b + length bs\<rparr>) of
               (ns, ex, b) \<Rightarrow>
                 if ex then Some (s\<lparr>su_mask := 0\<rparr>, log @ ns, N)
                 else subscriber_loop alloc_ok buf_mem tid s b (log @ ns) N)
        | Inl e \<Rightarrow>
            if e = IPC_RECEIVE_EOF \<or> e = IPC_RECEIVE_ERR then do {
              (s, N) \<leftarrow> repair_loop alloc_ok buf_mem tid s N;
              subscriber_loop alloc_ok buf_mem tid s (ipc_buf_reset b) log N
            } else subscriber_loop alloc_ok buf_mem tid s b log N
      })"

definition ipc_subscriber_task ::
    "bool \<Rightarrow> bool \<Rightarrow> 32 word \<Rightarrow> ipc_subscriber \<Rightarrow> net \<Rightarrow> (ipc_subscriber \<times> ipc_notify list \<times> net) option" where
  "ipc_subscriber_task alloc_ok buf_mem tid s N = do {
     b \<leftarrow> su_buf s;
     (r, N) \<leftarrow> ipc_subscriber_sync tid s N;
     subscriber_loop alloc_ok buf_mem tid s b [] N
   }"

section \<open>Registration\<close>

definition ipc_subscriber_create ::
    "bool \<Rightarrow> bool \<Rightarrow> bool \<Rightarrow> int \<Rightarrow> string \<Rightarrow> 64 word \<Rightarrow> byte list option \<Rightarrow> 32 word \<Rightarrow> bool \<Rightarrow> nat \<Rightarrow> net
      \<Rightarrow> (ipc_subscriber option \<times> net) option" where
  "ipc_subscriber_create malloc_ok alloc_ok buf_mem pid broker msk data sz handler arg N =
     (let sz = (if \<not> handler \<or> msk = 0 \<or> data = None then 0 else sz) in
      if \<not> malloc_ok then Some (None, N)
      else case set_server broker \<lparr>cl_server = [], cl_sock = 0, cl_identity = 0, cl_state = IPC_S_CONNECTING\<rparr> of
          (False, c) \<Rightarrow> Some (None, N)
        | (True, c) \<Rightarrow>
            let s = \<lparr>su_task_id = 0, su_mask = (if handler then msk else 0), su_handler = False, su_arg = arg, su_buf = None,
                     su_client = c\<lparr>cl_identity := pid\<rparr>, su_data_len = 0, su_data = []\<rparr> in
            if su_mask s = 0 then Some (Some s, N)
            else do {
              let s = (case data of
                  Some d \<Rightarrow> s\<lparr>su_data_len := sz, su_data := take (unat sz) d\<rparr>
                | None \<Rightarrow> s\<lparr>su_data_len := 0\<rparr>);
              (r, s, N) \<leftarrow> ipc_subscriber_connect alloc_ok buf_mem s N;
              if r < 0 then Some (None, N) else Some (Some (s\<lparr>su_handler := True\<rparr>), N)
            })"

text \<open>\<open>thread\<close> is the result of \<open>pthread_create\<close>: an error code, or 0 and the thread's id.\<close>

definition ipc_subscriber_run :: "int \<times> nat \<Rightarrow> ipc_subscriber \<Rightarrow> int \<times> ipc_subscriber" where
  "ipc_subscriber_run thread s = (fst thread, if fst thread = 0 then s\<lparr>su_task_id := snd thread\<rparr> else s)"

definition ipc_subscriber_register ::
    "bool \<Rightarrow> bool \<Rightarrow> bool \<Rightarrow> int \<times> nat \<Rightarrow> int \<Rightarrow> string \<Rightarrow> 64 word \<Rightarrow> byte list option \<Rightarrow> 32 word \<Rightarrow> bool \<Rightarrow> nat \<Rightarrow> net
      \<Rightarrow> (ipc_subscriber option \<times> net) option" where
  "ipc_subscriber_register malloc_ok alloc_ok buf_mem thread pid broker msk data sz handler arg N = do {
     (so, N) \<leftarrow> ipc_subscriber_create malloc_ok alloc_ok buf_mem pid broker msk data sz handler arg N;
     case so of
       None \<Rightarrow> Some (None, N)
     | Some s \<Rightarrow>
         if su_mask s \<noteq> 0 then
           (case ipc_subscriber_run thread s of (r, s) \<Rightarrow>
              if r \<noteq> 0 then Some (None, ipc_subscriber_destroy (Some s) N) else Some (Some s, N))
         else Some (Some s, N)
   }"

text \<open>What the caller's thread does; the task is cancelled or ends by itself and is joined.\<close>

definition ipc_subscriber_unregister :: "ipc_subscriber \<Rightarrow> net \<Rightarrow> net option" where
  "ipc_subscriber_unregister s N = do {
     N \<leftarrow> (if su_task_id s > 0 \<and> su_mask s \<noteq> 0 then do {
             (r, m, N) \<leftarrow> net_send_msg (cl_sock (su_client s))
                \<lparr>msg_from = of_int (cl_identity (su_client s)), msg_id = IPC_SDK_MSG_UNREGISTER, msg_flags = 0,
                 msg_data_len = 0, msg_data = []\<rparr> N;
             Some N
           } else Some N);
     Some (ipc_subscriber_destroy (Some s) N)
   }"

end
