(* ===== verification/IPC_Client_Properties.thy ===== *)
theory IPC_Client_Properties
  imports IPC_Subscriber
begin

unbundle bit_operations_syntax

text \<open>
  What the IPC client promises: reception of a message in any number of pieces, delivery of
  notifications to the subscriber's handler, bounded reconnection, and guarded requests.
\<close>

section \<open>Reception\<close>

lemma tokened_len [simp]: "msg_data_len (tokened m) = msg_data_len m"
  by (simp add: tokened_def)

lemma msg_at_prefix_len:
  assumes m: "msg_wf m" and p: "msg_bytes m = got @ r" and g: "12 \<le> length got"
  shows "hdr_data_len got = msg_data_len m"
  using hdr_data_len_msg_bytes [OF m, of "[]"] hdr_prefix [OF g, of r] p by simp

text \<open>The pieces of a stream as results of \<open>recv\<close>.\<close>

definition ready :: "byte list list \<Rightarrow> select_ret list \<Rightarrow> recv_ret list \<Rightarrow> io" where
  "ready cs ss rs = \<lparr>io_sels = replicate (length cs) SelReady @ ss, io_recvs = map RecvBytes cs @ rs\<rparr>"

lemma recv_stream_ready:
  assumes "c \<noteq> []" and "length c \<le> sz" and "0 < sz"
  shows "recv_stream sz (ready (c # cs) ss rs) = Some (Inr c, ready cs ss rs)"
  using assms by (simp add: recv_stream_def recv_wait_def ready_def)

lemma recv_msg_loop_ready:
  assumes m: "msg_wf m" "id_ok m" and sz: "msg_size m \<le> sz" and t: "\<not> tmo < 0"
  shows "msg_bytes (tokened m) = got @ concat cs \<Longrightarrow> cs \<noteq> [] \<Longrightarrow> \<forall>c\<in>set cs. c \<noteq> [] \<Longrightarrow>
    recv_msg_loop got sz tmo (ready cs ss rs) = Some (Inr m, msg_bytes (tokened m), ready [] ss rs)"
proof (induction cs arbitrary: got)
  case (Cons c cs)
  let ?t = "msg_bytes (tokened m)"
  have len: "length ?t = msg_size m" using length_msg_bytes [of "tokened m"] m by simp
  have tot: "length got + length c + length (concat cs) = msg_size m"
    using arg_cong [OF Cons.prems(1), of length] len by simp
  have c: "c \<noteq> []" "0 < length c" using Cons.prems(3) by auto
  have "recv_stream (sz - length got) (ready (c # cs) ss rs) = Some (Inr c, ready cs ss rs)"
    by (rule recv_stream_ready) (use c tot sz in linarith)+
  then have step: "recv_msg_loop got sz tmo (ready (c # cs) ss rs) =
      (if length (got @ c) < 12 \<or> length (got @ c) < 12 + unat (hdr_data_len (got @ c))
       then if length (got @ c) \<ge> sz then Some (Inl IPC_RECEIVE_EMEM, got @ c, ready cs ss rs)
            else recv_msg_loop (got @ c) sz tmo (ready cs ss rs)
       else case friendly (msg_at (got @ c)) of
           Some m \<Rightarrow> Some (Inr m, got @ c, ready cs ss rs) | None \<Rightarrow> Some (Inl IPC_RECEIVE_EMSG, got @ c, ready cs ss rs))"
    using t by (subst recv_msg_loop.simps) (simp add: IPC_MSG_HDRLEN_def Let_def)
  show ?case
  proof (cases "cs = []")
    case True
    then have e: "?t = got @ c" using Cons.prems(1) by simp
    have "hdr_data_len (got @ c) = msg_data_len m" "msg_at (got @ c) = tokened m"
      using hdr_data_len_msg_bytes [of "tokened m" "[]"] msg_at_msg_bytes [of "tokened m" "[]"] m e
      by simp_all
    moreover have "length (got @ c) = 12 + unat (msg_data_len m)" using len e by (simp add: msg_size_def IPC_MSG_HDRLEN_def)
    ultimately show ?thesis using step True e friendly_tokened [OF m(2)] by simp
  next
    case False
    then have "concat cs \<noteq> []" using Cons.prems(3) by (cases cs) auto
    then have lt: "length (got @ c) < msg_size m" using tot by (cases "concat cs") auto
    have "length (got @ c) < 12 \<or> hdr_data_len (got @ c) = msg_data_len m"
      using msg_at_prefix_len [of "tokened m" "got @ c" "concat cs"] m(1) Cons.prems(1)
      by (cases "length (got @ c) < 12") auto
    then have "length (got @ c) < 12 \<or> length (got @ c) < 12 + unat (hdr_data_len (got @ c))"
      using lt by (auto simp: msg_size_def IPC_MSG_HDRLEN_def)
    then have "recv_msg_loop got sz tmo (ready (c # cs) ss rs) = recv_msg_loop (got @ c) sz tmo (ready cs ss rs)"
      using step lt sz by simp
    also have "\<dots> = Some (Inr m, ?t, ready [] ss rs)"
      by (rule Cons.IH) (use Cons.prems False in auto)
    finally show ?thesis .
  qed
qed simp

definition pong :: ipc_msg where
  "pong = \<lparr>msg_from = 9, msg_id = 5, msg_flags = 1, msg_data_len = 2, msg_data = [1, 2]\<rparr>"

lemma pong_ok: "msg_wf pong" "id_ok pong"
  by (simp_all add: pong_def msg_wf_def id_ok_def IPC_MSG_TOKEN_MASK_def)

text \<open>
  C12: liveness. A message that arrives in any pieces, each announced by \<open>select\<close>, is received:
  \<open>recv_msg\<close> returns it with the token taken off, and reads nothing beyond it.
\<close>

theorem recv_msg_returns:
  assumes "msg_wf m" and "id_ok m" and "msg_size m \<le> sz" and "\<not> tmo < 0"
    and "msg_bytes (tokened m) = concat cs" and "\<forall>c\<in>set cs. c \<noteq> []"
  shows "recv_msg sz tmo (ready cs ss rs) = Some (Inr m, msg_bytes (tokened m), ready [] ss rs)"
proof -
  have "length (msg_bytes (tokened m)) = msg_size m" using length_msg_bytes [of "tokened m"] assms(1) by simp
  then have "cs \<noteq> []" using assms(5) by (auto simp: msg_size_def IPC_MSG_HDRLEN_def)
  moreover have "\<not> sz < IPC_MSG_HDRLEN" using assms(3) by (simp add: msg_size_def)
  ultimately show ?thesis using recv_msg_loop_ready [OF assms(1-4), of "[]" cs] assms(5,6) by (simp add: recv_msg_def)
qed

theorem recv_msg_returns_witness:
  "recv_msg 28 5 (ready [take 5 (msg_bytes (tokened pong)), drop 5 (msg_bytes (tokened pong))] [] []) =
     Some (Inr pong, msg_bytes (tokened pong), ready [] [] [])"
proof (rule recv_msg_returns [OF pong_ok])
  show "\<forall>c\<in>set [take 5 (msg_bytes (tokened pong)), drop 5 (msg_bytes (tokened pong))]. c \<noteq> []"
    by (simp add: msg_bytes_def tokened_def pong_def le32_def)
qed (simp_all add: msg_size_def pong_def IPC_MSG_HDRLEN_def)

section \<open>Delivery to the subscriber\<close>

definition wanted :: "64 word \<Rightarrow> ipc_msg \<Rightarrow> bool" where
  "wanted msk m \<longleftrightarrow> topic_isset msk (ntf_topic (notify_of m)) \<and> topic_check (ntf_topic (notify_of m))"

lemma pending_reset [simp]: "pending (ipc_buf_reset b) = []"
  by (simp add: pending_def ipc_buf_reset_def)

lemma buf_ok_reset [simp]: "buf_ok b \<Longrightarrow> buf_ok (ipc_buf_reset b)"
  by (simp add: buf_ok_def ipc_buf_reset_def)

lemma pending_Nil: "buf_ok b \<Longrightarrow> pending b = [] \<longleftrightarrow> \<not> ipc_buf_pending b"
  using length_pending [of b] by (auto simp: ipc_buf_pending_def buf_ok_def)

lemma process_ok:
  "\<lbrakk>buf_ok b; parse (pending b) = (ms, r); \<forall>m\<in>set ms. msg_id m = IPC_SDK_MSG_NOTIFY; length r < buf_size b\<rbrakk>
   \<Longrightarrow> \<exists>b'. ipc_subscriber_process msk b = (map notify_of (filter (wanted msk) ms), False, b') \<and>
     buf_ok b' \<and> buf_size b' = buf_size b \<and> pending b' = r"
proof (induction msk b arbitrary: ms rule: ipc_subscriber_process.induct)
  case (1 msk b)
  obtain mo b1 where f: "find_msg b False = (mo, b1)" by fastforce
  note R = find_msg_refines [OF "1.prems"(1), of False, unfolded f fst_conv snd_conv]
  show ?case
  proof (cases mo)
    case None
    then have "ms = []" "pending b1 = r" "buf_ok b1" "buf_size b1 = buf_size b" "r = [] \<or> \<not> ipc_buf_full b1"
      using R "1.prems"(2,4) by auto
    then show ?thesis
      using f None by (subst ipc_subscriber_process.simps) (auto simp: ipc_buf_reset_def buf_ok_def pending_def)
  next
    case (Some m)
    then obtain ms' where ms: "ms = m # ms'" "parse (pending b1) = (ms', r)" and ok: "buf_ok b1" "buf_size b1 = buf_size b"
      using R "1.prems"(2) by (cases "parse (pending b1)") auto
    have id: "msg_id m = IPC_SDK_MSG_NOTIFY" using "1.prems"(3) ms by simp
    let ?call = "if topic_isset msk (ntf_topic (notify_of m)) \<and> topic_check (ntf_topic (notify_of m)) then [notify_of m] else []"
    show ?thesis
    proof (cases "ipc_buf_pending b1")
      case True
      have "\<exists>b'. ipc_subscriber_process msk b1 = (map notify_of (filter (wanted msk) ms'), False, b') \<and>
          buf_ok b' \<and> buf_size b' = buf_size b1 \<and> pending b' = r"
        by (rule "1.IH" [OF f [symmetric] Some id refl refl True ok(1) ms(2)])
          (use "1.prems" ms ok in auto)
      then show ?thesis
        using f Some id True ok(2) ms(1) by (subst ipc_subscriber_process.simps) (auto simp: Let_def wanted_def)
    next
      case False
      then have "pending b1 = []" using pending_Nil [OF ok(1)] by simp
      then have "ms' = []" "r = []" using ms(2) by (subst (asm) parse.simps, simp add: IPC_MSG_HDRLEN_def)+
      then show ?thesis
        using f Some id False ok ms(1) by (subst ipc_subscriber_process.simps)
          (auto simp: Let_def wanted_def ipc_buf_reset_def buf_ok_def pending_def)
    qed
  qed
qed

text \<open>
  C11: functional. When the unread bytes of the subscriber's buffer hold any number of
  notifications and possibly the beginning of another message, the handler is called with
  exactly the notifications whose topic is one bit of the subscriber's mask, in order, and the
  incomplete rest is kept for the next reception.
\<close>

theorem subscriber_process_correct:
  assumes "buf_ok b" and "parse (pending b) = (ms, r)" and "\<forall>m\<in>set ms. msg_id m = IPC_SDK_MSG_NOTIFY"
    and "length r < buf_size b"
  shows "\<exists>b'. ipc_subscriber_process msk b = (map notify_of (filter (wanted msk) ms), False, b') \<and>
     buf_ok b' \<and> buf_size b' = buf_size b \<and> pending b' = r"
  using assms by (rule process_ok)

definition news_msg :: ipc_msg where
  "news_msg = \<lparr>msg_from = 0, msg_id = IPC_SDK_MSG_NOTIFY, msg_flags = 0, msg_data_len = 20,
     msg_data = notify_bytes \<lparr>ntf_to = IPC_TO_BROADCAST, ntf_topic = 2, ntf_msg_id = 7, ntf_data_len = 0, ntf_data = []\<rparr>\<rparr>"

lemma news_msg_ok: "msg_wf news_msg" "id_ok news_msg" "msg_id news_msg = IPC_SDK_MSG_NOTIFY"
  by (simp_all add: news_msg_def msg_wf_def id_ok_def IPC_MSG_TOKEN_MASK_def IPC_SDK_MSG_NOTIFY_def IPC_MSG_SDK_def
      notify_bytes_def le64_def)

theorem subscriber_process_correct_witness:
  "\<exists>b'. ipc_subscriber_process 0 \<lparr>buf_head = 0, buf_tail = 32, buf_size = 64, buf_data = msg_bytes (tokened news_msg) @ replicate 32 0\<rparr> =
     ([], False, b') \<and> buf_ok b' \<and> buf_size b' = 64 \<and> pending b' = []"
proof -
  let ?b = "\<lparr>buf_head = 0, buf_tail = 32, buf_size = 64, buf_data = msg_bytes (tokened news_msg) @ replicate 32 0\<rparr>"
  have l: "length (msg_bytes (tokened news_msg)) = 32"
    using length_msg_bytes [of "tokened news_msg"] news_msg_ok by (simp add: msg_size_def IPC_MSG_HDRLEN_def) (simp add: news_msg_def tokened_def)
  have p: "parse (pending ?b) = ([news_msg], [])"
    using l parse_concat [of "[news_msg]"] news_msg_ok by (simp add: pending_def)
  have "filter (wanted 0) [news_msg] = []" by (simp add: wanted_def topic_isset_def)
  then show ?thesis
    using subscriber_process_correct [of ?b "[news_msg]" "[]" 0] p l news_msg_ok by (simp add: buf_ok_def)
qed

section \<open>Connections\<close>

lemma connect_retry_bounds:
  "connect_retry retry rs sl = Some (ok, rs', sl') \<Longrightarrow> retry \<le> 3 \<Longrightarrow>
   sl \<le> sl' \<and> sl' \<le> sl + int (3 - retry) \<and>
   (\<exists>used. rs = used @ rs' \<and> length (filter (\<lambda>r. r \<noteq> ConnIntr) used) \<le> 4 - retry)"
proof (induction retry rs sl rule: connect_retry.induct)
  case (3 retry rs slept)
  then obtain us where "rs = us @ rs'" "length (filter (\<lambda>r. r \<noteq> ConnIntr) us) \<le> 4 - retry" by auto
  with 3 show ?case by (auto intro!: exI [of _ "ConnIntr # us"])
next
  case (4 retry rs slept)
  show ?case
  proof (cases "retry < 3")
    case True
    then obtain us where "rs = us @ rs'" "length (filter (\<lambda>r. r \<noteq> ConnIntr) us) \<le> 4 - Suc retry"
      "slept + 1 \<le> sl'" "sl' \<le> slept + 1 + int (3 - Suc retry)" using 4 by auto
    with True show ?thesis by (auto intro!: exI [of _ "ConnRefused # us"])
  qed (use 4 in \<open>auto intro!: exI [of _ "[ConnRefused]"]\<close>)
qed (auto intro!: exI [of _ "[ConnOk]"] exI [of _ "[ConnError]"])

text \<open>
  One \<open>ipc_connect\<close> makes at most four attempts that are not interrupted and sleeps
  at most three seconds.
\<close>

theorem connect_bounded:
  assumes "connect_retry 0 rs sl = Some (ok, rs', sl')"
  shows "sl \<le> sl' \<and> sl' \<le> sl + 3 \<and> (\<exists>used. rs = used @ rs' \<and> length (filter (\<lambda>r. r \<noteq> ConnIntr) used) \<le> 4)"
  using connect_retry_bounds [OF assms] by simp

theorem connect_bounded_witness:
  "\<exists>used. [ConnIntr, ConnRefused, ConnRefused, ConnRefused, ConnRefused, ConnOk] = used @ [ConnOk] \<and>
     length (filter (\<lambda>r. r \<noteq> ConnIntr) used) \<le> 4"
  using connect_bounded [of "[ConnIntr, ConnRefused, ConnRefused, ConnRefused, ConnRefused, ConnOk]" 0 False "[ConnOk]" 3]
  by simp

lemma ipc_connect_cases:
  assumes "ipc_connect c N = Some (r, c', N')" and "n_sockets N = sk # sks"
  shows "(r = 0 \<and> sk \<ge> 0 \<and> c' = c\<lparr>cl_state := IPC_S_CONNECTING, cl_sock := sk\<rparr> \<and> n_closed N' = n_closed N \<or>
      r = -1 \<and> cl_sock c' = cl_sock c \<and> n_closed N' = (if sk < 0 then n_closed N else n_closed N @ [sk])) \<and>
    n_sent N' = n_sent N \<and> cl_identity c' = cl_identity c"
  using assms by (auto simp: ipc_connect_def net_socket_def net_opts_def net_close_def Let_def
      split: if_splits list.splits option.splits bind_splits prod.splits)

lemma ipc_request_frame:
  assumes "ipc_request c m sz tmo N = Some (r, m', N')"
  shows "n_closed N' = n_closed N"
  using assms by (auto simp: ipc_request_def net_send_msg_def Let_def
      split: if_splits list.splits option.splits bind_splits prod.splits sum.splits)

lemma client_connect_cases:
  assumes "ipc_client_connect c N = Some (r, c', N')" and "n_sockets N = sk # sks" and "0 < sk"
  shows "r = 0 \<and> cl_state c' = IPC_S_CONNECTED \<and> cl_sock c' = sk \<and> cl_identity c' = cl_identity c \<and> n_closed N' = n_closed N \<or>
    r = -1 \<and> n_closed N' = n_closed N @ [sk]"
proof -
  from assms(1) obtain r1 c1 N1 where c1: "ipc_connect c N = Some (r1, c1, N1)"
    by (auto simp: ipc_client_connect_def split: bind_splits)
  note k = ipc_connect_cases [OF c1 assms(2)]
  show ?thesis
  proof (cases "r1 < 0")
    case True
    with assms(1,3) c1 k show ?thesis by (auto simp: ipc_client_connect_def)
  next
    case False
    with k assms(1) c1 show ?thesis using assms(3)
      by (auto simp: ipc_client_connect_def ipc_client_close_def net_close_def split: bind_splits if_splits
          dest!: ipc_request_frame)
  qed
qed

text \<open>
  \<open>ipc_client_create\<close> does not leak its socket: when it returns a client the client is
  connected over the socket and accepted by \<open>client_valid\<close>; when it returns \<open>NULL\<close> after the
  server name was accepted, the socket is closed, exactly once.
\<close>

theorem client_create_no_leak:
  assumes "ipc_client_create True pid server N = Some (co, N')" and "n_sockets N = sk # sks" and "0 < sk" and "0 < pid"
    and "length server < 59"
  shows "case co of Some c \<Rightarrow> client_valid pid c \<and> cl_sock c = sk \<and> n_closed N' = n_closed N
     | None \<Rightarrow> n_closed N' = n_closed N @ [sk]"
proof -
  let ?c = "\<lparr>cl_server = take 63 (UNIX_SOCK_DIR @ server), cl_sock = 0, cl_identity = pid, cl_state = IPC_S_CONNECTING\<rparr>"
  have s: "set_server server \<lparr>cl_server = [], cl_sock = 0, cl_identity = pid, cl_state = IPC_S_CONNECTING\<rparr> = (True, ?c)"
    using assms(5) by (simp add: set_server_def UNIX_SOCK_DIR_def server_size_def)
  from assms(1) s obtain r c' where c': "ipc_client_connect ?c N = Some (r, c', N')" "co = (if r < 0 then None else Some c')"
    by (auto simp: ipc_client_create_def split: bind_splits)
  from client_connect_cases [OF c'(1) assms(2,3)] c'(2) assms(3,4) show ?thesis by (auto simp: client_valid_def)
qed

definition example_net :: net where
  "example_net = \<lparr>n_sockets = [5], n_opts = [0], n_connects = [ConnError], n_sends = [], n_io = \<lparr>io_sels = [], io_recvs = []\<rparr>,
     n_sent = [], n_closed = [], n_slept = 0\<rparr>"

lemma example_create: "ipc_client_create True 9 ''mc'' example_net = Some (None, example_net\<lparr>n_sockets := [], n_opts := [], n_connects := [], n_closed := [5]\<rparr>)"
  by (simp add: ipc_client_create_def ipc_client_connect_def ipc_connect_def example_net_def net_socket_def net_opts_def
      net_close_def set_server_def UNIX_SOCK_DIR_def server_size_def)

theorem client_create_no_leak_witness:
  "n_closed (snd (the (ipc_client_create True 9 ''mc'' example_net))) = n_closed example_net @ [5]"
  using client_create_no_leak [OF example_create, of 5 "[]"] example_create by (simp add: example_net_def)

text \<open>
  \<open>ipc_subscriber_request\<close> never sends the request: the temporary client it connects stays
  in the state \<open>IPC_S_CONNECTING\<close>, so the request is refused as invalid (or the connection failed).
\<close>

theorem subscriber_request_refused:
  assumes "ipc_subscriber_request pid sock0 state0 s m sz tmo N = Some (r, m', N')" and "n_sockets N = sk # sks"
  shows "(r = IPC_REQUEST_EVAL \<or> r = IPC_REQUEST_ECN) \<and> n_sent N' = n_sent N"
proof (cases "cl_identity (su_client s) \<le> 0 \<or> cl_identity (su_client s) \<noteq> pid")
  case True
  with assms show ?thesis by (auto simp: ipc_subscriber_request_def)
next
  case False
  let ?c = "\<lparr>cl_server = cl_server (su_client s), cl_sock = sock0, cl_identity = cl_identity (su_client s), cl_state = state0\<rparr>"
  from assms(1) False obtain r1 d N1 where d: "ipc_connect ?c N = Some (r1, d, N1)"
    by (auto simp: ipc_subscriber_request_def split: bind_splits)
  from ipc_connect_cases [OF d assms(2)] assms(1) d False show ?thesis
    by (auto simp: ipc_subscriber_request_def ipc_client_request_def client_valid_def ipc_client_close_def net_close_def
        split: bind_splits if_splits)
qed

definition example_subscriber :: ipc_subscriber where
  "example_subscriber = \<lparr>su_task_id = 0, su_mask = 1, su_handler = True, su_arg = 0, su_buf = None,
     su_client = \<lparr>cl_server = ''/tmp/mc'', cl_sock = 4, cl_identity = 9, cl_state = IPC_S_CONNECTED\<rparr>, su_data_len = 0, su_data = []\<rparr>"

theorem subscriber_request_refused_witness:
  "n_sent (snd (snd (the (ipc_subscriber_request 9 0 IPC_S_CONNECTING example_subscriber pong 28 5 (example_net\<lparr>n_connects := [ConnOk]\<rparr>))))) = []"
proof -
  have r: "ipc_subscriber_request 9 0 IPC_S_CONNECTING example_subscriber pong 28 5 (example_net\<lparr>n_connects := [ConnOk]\<rparr>) =
    Some (IPC_REQUEST_EVAL, pong, example_net\<lparr>n_sockets := [], n_opts := [], n_connects := [], n_closed := [5]\<rparr>)"
    by (simp add: ipc_subscriber_request_def example_subscriber_def ipc_connect_def example_net_def net_socket_def
        net_opts_def net_close_def ipc_client_request_def client_valid_def ipc_client_close_def)
  show ?thesis using subscriber_request_refused [OF r, of 5 "[]"] r by (simp add: example_net_def)
qed

end
