(* ===== verification/Timer.thy ===== *)
theory Timer
  imports RB_Query Intrusive_List
begin

unbundle bit_operations_syntax

text \<open>
  The timers of \<open>timer/timer.c\<close>: timers wait in a red-black tree ordered by expiry, an
  inspector thread takes the due ones out and runs them itself or queues them for a pool of
  executor threads. All state is guarded by one mutex. A thread is modelled by a program
  counter at each point where the mutex is acquired, waited on or released, and at the head of
  its loop; the functions of the client interface are critical sections.

  The clock readings, the results of \<open>malloc\<close>, \<open>pthread_create\<close> and of timed waits are
  arguments. Seconds are unbounded: a \<open>long\<close> of milliseconds is at most 2^63/1000 seconds, so
  the 64-bit sums of the code stay in range. The 32-bit timer ids are checked.
\<close>

section \<open>Time\<close>

record timespec =
  tv_sec :: int
  tv_nsec :: int

definition timespec_init :: "int \<Rightarrow> timespec" where
  "timespec_init ms = \<lparr>tv_sec = ms sdiv 1000, tv_nsec = (ms smod 1000) * 1000000\<rparr>"

definition timespec_add :: "timespec \<Rightarrow> timespec \<Rightarrow> timespec" where
  "timespec_add a b =
     (let sec = tv_sec a + tv_sec b; nsec = tv_nsec a + tv_nsec b in
      if nsec \<ge> 1000000000 then \<lparr>tv_sec = sec + 1, tv_nsec = nsec - 1000000000\<rparr>
      else \<lparr>tv_sec = sec, tv_nsec = nsec\<rparr>)"

definition timespec_cmp :: "timespec \<Rightarrow> timespec \<Rightarrow> (int \<Rightarrow> int \<Rightarrow> bool) \<Rightarrow> bool" where
  "timespec_cmp a b c \<longleftrightarrow> c (tv_sec a) (tv_sec b) \<or> tv_sec a = tv_sec b \<and> c (tv_nsec a) (tv_nsec b)"

text \<open>Signed overflow of an \<open>int\<close> is undefined.\<close>

definition c_int :: "int \<Rightarrow> int option" where
  "c_int x = (if - (2 ^ 31) \<le> x \<and> x < 2 ^ 31 then Some x else None)"

section \<open>Data\<close>

type_synonym bits32 = "32 word"

record timer_struct =
  interval :: timespec
  expire :: timespec
  t_timerid :: int
  t_option :: bits32
  t_flags :: bits32
  t_arg :: addr
  t_func :: addr
  t_base :: addr
  t_thread :: addr
  t_cond :: bool

text \<open>\<open>t_cond\<close>: the condition variable is initialised and not destroyed.\<close>

record timer_option =
  linger :: int
  thread_min :: int
  thread_max :: int
  thread_stack_size :: nat

definition TMR_OPT_CYCLE :: bits32 where "TMR_OPT_CYCLE = 1"
definition TMR_OPT_THREAD :: bits32 where "TMR_OPT_THREAD = 2"
definition TMR_F_ACTIVE :: bits32 where "TMR_F_ACTIVE = 1"
definition TMR_F_MOUNTED :: bits32 where "TMR_F_MOUNTED = 2"
definition TMR_F_PENDING :: bits32 where "TMR_F_PENDING = 4"
definition TMR_F_EXECUTING :: bits32 where "TMR_F_EXECUTING = 8"
definition TMR_F_WAITING :: bits32 where "TMR_F_WAITING = 16"
definition TMR_F_DETACH :: bits32 where "TMR_F_DETACH = 32"

datatype base_state = TMR_BASE_INITIAL | TMR_BASE_WAITING | TMR_BASE_TIMING | TMR_BASE_SHOOTING | TMR_BASE_DESTROY

text \<open>Where a thread of the timer is; the flag of an executor is its local \<open>timedout\<close>.\<close>

datatype thread_pc =
    Gone
  | Inspector_start | Inspector_loop | Inspector_wait | Inspector_timedwait addr | Inspector_run addr
  | Executor_start | Executor_loop bool | Executor_wait bool | Executor_timedwait bool
  | Executor_drain bool | Executor_run addr bool

record timer_thread =
  tid :: nat
  th_timer :: addr
  th_pc :: thread_pc

text \<open>The condition variables; \<open>wakeups\<close> records the signals sent on them.\<close>

datatype tcond = Exec_cond | Work_cond | Exit_cond | Timer_cond addr

record timer_base =
  b_state :: base_state
  nthreads :: int
  b_timerid :: int
  idlethreads :: int
  expired_links :: links
  b_table :: rb_tree
  running_timer :: addr
  b_opt :: timer_option
  timers :: "addr \<Rightarrow> timer_struct"
  threads :: "addr \<Rightarrow> timer_thread"
  holder :: addr
  init_done :: bool
  wakeups :: "tcond list"
  calls :: "(addr \<times> addr \<times> addr) list"

text \<open>
  \<open>holder\<close> is the thread that holds the mutex between two of its steps, \<open>NULL\<close> when the mutex
  is free; \<open>calls\<close> is the history of timer functions called.
\<close>

definition current_base :: addr where "current_base = 1"
definition expired_timer :: addr where "expired_timer = 1"

definition working_base :: "timer_base \<Rightarrow> bool" where
  "working_base b \<longleftrightarrow> nthreads b > 0 \<and> b_state b \<noteq> TMR_BASE_DESTROY"

definition upd_timer :: "addr \<Rightarrow> (timer_struct \<Rightarrow> timer_struct) \<Rightarrow> timer_base \<Rightarrow> timer_base option" where
  "upd_timer t f b = map_option (\<lambda>h. b\<lparr>timers := h\<rparr>) (store (timers b) t f)"

definition upd_thread :: "addr \<Rightarrow> (timer_thread \<Rightarrow> timer_thread) \<Rightarrow> timer_base \<Rightarrow> timer_base option" where
  "upd_thread a f b = map_option (\<lambda>h. b\<lparr>threads := h\<rparr>) (store (threads b) a f)"

definition set_flags :: "addr \<Rightarrow> bits32 \<Rightarrow> timer_base \<Rightarrow> timer_base option" where
  "set_flags t m = upd_timer t (\<lambda>r. r\<lparr>t_flags := t_flags r OR m\<rparr>)"

definition clear_flags :: "addr \<Rightarrow> bits32 \<Rightarrow> timer_base \<Rightarrow> timer_base option" where
  "clear_flags t m = upd_timer t (\<lambda>r. r\<lparr>t_flags := t_flags r AND NOT m\<rparr>)"

definition has_flag :: "addr \<Rightarrow> bits32 \<Rightarrow> timer_base \<Rightarrow> bool" where
  "has_flag t m b \<longleftrightarrow> t_flags (timers b t) AND m \<noteq> 0"

definition signal :: "tcond \<Rightarrow> timer_base \<Rightarrow> timer_base" where
  "signal c b = b\<lparr>wakeups := wakeups b @ [c]\<rparr>"

definition unlock :: "timer_base \<Rightarrow> timer_base" where
  "unlock b = b\<lparr>holder := NULL\<rparr>"

text \<open>The thread moves to another point of its routine and releases or keeps the mutex.\<close>

definition goto_pc :: "addr \<Rightarrow> thread_pc \<Rightarrow> timer_base \<Rightarrow> timer_base option" where
  "goto_pc a p b = upd_thread a (\<lambda>r. r\<lparr>th_pc := p\<rparr>) b"

definition wait_at :: "addr \<Rightarrow> thread_pc \<Rightarrow> timer_base \<Rightarrow> timer_base option" where
  "wait_at a p b = goto_pc a p (unlock b)"

definition run_at :: "addr \<Rightarrow> thread_pc \<Rightarrow> timer_base \<Rightarrow> timer_base option" where
  "run_at a p b = goto_pc a p (b\<lparr>holder := a\<rparr>)"

section \<open>The table\<close>

definition timer_comparator :: "(addr \<Rightarrow> timer_struct) \<Rightarrow> comparator" where
  "timer_comparator ts n1 n2 =
     (if timespec_cmp (expire (ts n1)) (expire (ts n2)) (<) then - 1
      else if timespec_cmp (expire (ts n1)) (expire (ts n2)) (>) then 1
      else t_timerid (ts n1) - t_timerid (ts n2))"

definition timer_searcher :: "(addr \<Rightarrow> timer_struct) \<Rightarrow> addr \<Rightarrow> addr \<Rightarrow> int" where
  "timer_searcher ts data n =
     (if timespec_cmp (expire (ts data)) (expire (ts n)) (<) then - 1
      else if timespec_cmp (expire (ts data)) (expire (ts n)) (>) then 1
      else t_timerid (ts data) - t_timerid (ts n))"

definition timer_insert :: "addr \<Rightarrow> timer_base \<Rightarrow> timer_base option" where
  "timer_insert timer b = do {
     b \<leftarrow> upd_timer timer (\<lambda>r. r\<lparr>expire := timespec_add (expire r) (interval r)\<rparr>) b;
     b \<leftarrow> upd_timer timer (\<lambda>r. r\<lparr>t_timerid := b_timerid b\<rparr>) b;
     n \<leftarrow> c_int (b_timerid b + 1);
     (_, T) \<leftarrow> rb_insert (timer_comparator (timers b)) timer (b_table b);
     set_flags timer TMR_F_MOUNTED (b\<lparr>b_timerid := n, b_table := T\<rparr>)
   }"

definition timer_remove :: "addr \<Rightarrow> timer_base \<Rightarrow> timer_base option" where
  "timer_remove timer b = do {
     T \<leftarrow> rb_remove timer (b_table b);
     clear_flags timer TMR_F_MOUNTED (b\<lparr>b_table := T\<rparr>)
   }"

definition timer_search :: "addr \<Rightarrow> timer_base \<Rightarrow> bool option" where
  "timer_search timer b = do {
     n \<leftarrow> rb_search (timer_searcher (timers b) timer) (b_table b);
     Some (n = timer)
   }"

section \<open>Threads\<close>

definition thread_cleanup :: "addr \<Rightarrow> timer_base \<Rightarrow> timer_base option" where
  "thread_cleanup a b = do {
     let b = b\<lparr>nthreads := nthreads b - 1\<rparr>;
     let b = (if nthreads b = 0 \<and> b_state b = TMR_BASE_DESTROY then signal Exit_cond b else b);
     wait_at a Gone b
   }"

text \<open>
  What \<open>malloc\<close> and \<open>pthread_create\<close> return: the block of the \<open>struct timer_thread\<close>, the error
  code and the thread id.
\<close>

type_synonym spawn = "addr \<times> int \<times> nat"

definition ENOMEM :: int where "ENOMEM = 12"
definition ETIMEDOUT :: int where "ETIMEDOUT = 110"

definition timer_thread_create :: "spawn \<Rightarrow> thread_pc \<Rightarrow> timer_base \<Rightarrow> (int \<times> timer_base) option" where
  "timer_thread_create sp routine b =
     (case sp of (thread, err, pid) \<Rightarrow>
      if thread = NULL then Some (ENOMEM, b)
      else if err \<noteq> 0 then Some (err, b)
      else do {
        b \<leftarrow> upd_thread thread (\<lambda>_. \<lparr>tid = pid, th_timer = NULL, th_pc = routine\<rparr>) b;
        Some (err, b\<lparr>nthreads := nthreads b + 1\<rparr>)
      })"

definition timer_cleanup :: "addr \<Rightarrow> timer_base \<Rightarrow> timer_base option" where
  "timer_cleanup a b = do {
     th \<leftarrow> load (threads b) a;
     let timer = th_timer th;
     b \<leftarrow> clear_flags timer TMR_F_EXECUTING b;
     b \<leftarrow> (if has_flag timer TMR_F_WAITING b then do {
            b \<leftarrow> clear_flags timer TMR_F_WAITING b;
            Some (signal (Timer_cond timer) b)
          } else Some b);
     (if has_flag timer TMR_F_DETACH b then do {
        b \<leftarrow> clear_flags timer TMR_F_ACTIVE b;
        upd_timer timer (\<lambda>r. r\<lparr>t_cond := False\<rparr>) b
      } else Some b)
   }"

text \<open>\<open>timer_execute\<close> up to the call of the timer's function, with the mutex released.\<close>

definition timer_execute :: "addr \<Rightarrow> addr \<Rightarrow> thread_pc \<Rightarrow> timer_base \<Rightarrow> timer_base option" where
  "timer_execute timer a at b = do {
     b \<leftarrow> upd_thread a (\<lambda>r. r\<lparr>th_timer := timer\<rparr>) b;
     b \<leftarrow> upd_timer timer (\<lambda>r. r\<lparr>t_thread := a\<rparr>) b;
     b \<leftarrow> set_flags timer TMR_F_EXECUTING b;
     r \<leftarrow> load (timers b) timer;
     wait_at a at (b\<lparr>calls := calls b @ [(timer, t_func r, t_arg r)]\<rparr>)
   }"

text \<open>The executor: the head of its \<open>for\<close> loop, and the inner loop over the expired timers.\<close>

definition executor_turn :: "addr \<Rightarrow> bool \<Rightarrow> timer_base \<Rightarrow> timer_base option" where
  "executor_turn a timedout b =
     (if b_state b = TMR_BASE_DESTROY then thread_cleanup a b
      else do {
        let b = b\<lparr>idlethreads := idlethreads b + 1\<rparr>;
        empty \<leftarrow> list_empty expired_timer (expired_links b);
        if empty \<and> nthreads b \<le> thread_min (b_opt b) then wait_at a (Executor_wait timedout) b
        else if empty \<and> linger (b_opt b) > 0 then wait_at a (Executor_timedwait timedout) b
        else goto_pc a (Executor_drain (timedout \<or> empty)) (b\<lparr>idlethreads := idlethreads b - 1\<rparr>)
      })"

definition executor_drain :: "addr \<Rightarrow> bool \<Rightarrow> timer_base \<Rightarrow> timer_base option" where
  "executor_drain a timedout b = do {
     empty \<leftarrow> list_empty expired_timer (expired_links b);
     if \<not> empty then do {
       timer \<leftarrow> list_first_entry expired_timer (expired_links b);
       L \<leftarrow> list_delete timer (expired_links b);
       let b = b\<lparr>expired_links := L\<rparr>;
       _ \<leftarrow> c_assert (has_flag timer TMR_F_PENDING b);
       b \<leftarrow> clear_flags timer TMR_F_PENDING b;
       timer_execute timer a (Executor_run timer timedout) b
     }
     else if timedout \<and> nthreads b > thread_min (b_opt b) then thread_cleanup a b
     else goto_pc a (Executor_loop timedout) b
   }"

definition executor_wake :: "addr \<Rightarrow> bool \<Rightarrow> timer_base \<Rightarrow> timer_base option" where
  "executor_wake a timedout b = run_at a (Executor_drain timedout) (b\<lparr>idlethreads := idlethreads b - 1\<rparr>)"

definition timer_thread_execute :: "addr \<Rightarrow> spawn \<Rightarrow> timer_base \<Rightarrow> (int \<times> timer_base) option" where
  "timer_thread_execute timer sp b = do {
     b \<leftarrow> set_flags timer TMR_F_PENDING b;
     L \<leftarrow> list_add_tail timer expired_timer (expired_links b);
     let b = b\<lparr>expired_links := L\<rparr>;
     if idlethreads b > 0 then Some (0, signal Exec_cond b)
     else if nthreads b < thread_max (b_opt b) then timer_thread_create sp Executor_start b
     else Some (0, b)
   }"

text \<open>The inspector: the part of its loop that fires a timer, one turn, and the return of a wait.\<close>

definition inspector_fire :: "addr \<Rightarrow> addr \<Rightarrow> spawn \<Rightarrow> timer_base \<Rightarrow> timer_base option" where
  "inspector_fire a timer sp b = do {
     let b = b\<lparr>b_state := TMR_BASE_SHOOTING\<rparr>;
     b \<leftarrow> timer_remove timer b;
     b \<leftarrow> (if t_option (timers b timer) AND TMR_OPT_CYCLE \<noteq> 0 then timer_insert timer b else Some b);
     if has_flag timer (TMR_F_PENDING OR TMR_F_EXECUTING) b then goto_pc a Inspector_loop b
     else if t_option (timers b timer) AND TMR_OPT_THREAD \<noteq> 0 then do {
       (_, b) \<leftarrow> timer_thread_execute timer sp b;
       goto_pc a Inspector_loop b
     }
     else timer_execute timer a (Inspector_run timer) b
   }"

definition inspector_turn :: "addr \<Rightarrow> timespec \<Rightarrow> spawn \<Rightarrow> timer_base \<Rightarrow> timer_base option" where
  "inspector_turn a current sp b =
     (if b_state b = TMR_BASE_DESTROY then thread_cleanup a b
      else do {
        node \<leftarrow> rb_first (b_table b);
        if node = NULL then wait_at a Inspector_wait (b\<lparr>b_state := TMR_BASE_WAITING\<rparr>)
        else if timespec_cmp current (expire (timers b node)) (<) then
          wait_at a (Inspector_timedwait node) (b\<lparr>b_state := TMR_BASE_TIMING, running_timer := node\<rparr>)
        else inspector_fire a node sp b
      })"

definition inspector_wake :: "addr \<Rightarrow> addr \<Rightarrow> int \<Rightarrow> spawn \<Rightarrow> timer_base \<Rightarrow> timer_base option" where
  "inspector_wake a timer err sp b = do {
     b \<leftarrow> run_at a Inspector_loop b;
     if running_timer b = NULL then Some b
     else do {
       let b = b\<lparr>running_timer := NULL\<rparr>;
       if err \<noteq> ETIMEDOUT then Some b else inspector_fire a timer sp b
     }
   }"

section \<open>Setting up and shutting down\<close>

definition DEFAULT_TIMER_OPTION :: timer_option where
  "DEFAULT_TIMER_OPTION = \<lparr>linger = 0, thread_min = 2, thread_max = 2, thread_stack_size = 1024 * 1024\<rparr>"

definition timer_init_opts :: "timer_option \<Rightarrow> timer_option \<Rightarrow> timer_option" where
  "timer_init_opts users_opt timer_opt =
     (let o1 = (if linger users_opt \<ge> 0 then timer_opt\<lparr>linger := linger users_opt\<rparr> else timer_opt);
          o2 = (if thread_min users_opt > 0 then o1\<lparr>thread_min := thread_min users_opt + 1\<rparr> else o1);
          o3 = (if thread_max users_opt > 0 then o2\<lparr>thread_max := thread_max users_opt + 1\<rparr> else o2);
          o4 = (if thread_stack_size users_opt > 0 then o3\<lparr>thread_stack_size := thread_stack_size users_opt\<rparr> else o3)
      in if thread_min o4 > thread_max o4 then o4\<lparr>thread_min := thread_max o4\<rparr> else o4)"

definition timer_init_once :: "timer_option option \<Rightarrow> timer_base \<Rightarrow> timer_base option" where
  "timer_init_once users_opts b = do {
     L \<leftarrow> INIT_LIST_HEAD expired_timer (expired_links b);
     let b = b\<lparr>expired_links := L\<rparr>;
     Some (case users_opts of None \<Rightarrow> b | Some users_opt \<Rightarrow> b\<lparr>b_opt := timer_init_opts users_opt (b_opt b)\<rparr>)
   }"

definition timer_destroy_cleanup :: "timer_base \<Rightarrow> timer_base" where
  "timer_destroy_cleanup b =
     unlock (b\<lparr>b_opt := DEFAULT_TIMER_OPTION, b_table := rb_tree_init (b_table b), b_state := TMR_BASE_INITIAL\<rparr>)"

text \<open>\<open>attr_ok\<close>: the calls that fill in the thread attributes succeed; they are asserted.\<close>

definition timer_setup :: "timer_option option \<Rightarrow> bool \<Rightarrow> spawn \<Rightarrow> timer_base \<Rightarrow> (int \<times> timer_base) option" where
  "timer_setup users_opts attr_ok sp b = do {
     b \<leftarrow> (if init_done b then Some b
          else do { b \<leftarrow> timer_init_once users_opts b; Some (b\<lparr>init_done := True\<rparr>) });
     _ \<leftarrow> c_assert (nthreads b = 0);
     _ \<leftarrow> c_assert attr_ok;
     let b = b\<lparr>b_timerid := 0, running_timer := NULL, nthreads := 0, idlethreads := 0\<rparr>;
     (err, b) \<leftarrow> timer_thread_create sp Inspector_start b;
     if err \<noteq> 0 then Some (- 1, b) else Some (0, b)
   }"

text \<open>\<open>timer_destroy\<close> up to its wait, and the test after each return of the wait.\<close>

definition timer_destroy :: "timer_base \<Rightarrow> int \<times> timer_base" where
  "timer_destroy b =
     (if \<not> working_base b then (- 1, b)
      else
        let b = (if b_state b = TMR_BASE_WAITING \<or> b_state b = TMR_BASE_TIMING then signal Work_cond b else b);
            b = (if idlethreads b > 0 then signal Exec_cond b else b)
        in (0, b\<lparr>b_state := TMR_BASE_DESTROY\<rparr>))"

definition timer_destroy_wake :: "timer_base \<Rightarrow> bool \<times> timer_base" where
  "timer_destroy_wake b = (if nthreads b > 0 then (False, b) else (True, timer_destroy_cleanup b))"

section \<open>The client interface\<close>

definition timer_add ::
  "addr \<Rightarrow> bits32 \<Rightarrow> int \<Rightarrow> addr \<Rightarrow> addr \<Rightarrow> timespec \<Rightarrow> timer_base \<Rightarrow> (int \<times> timer_base) option" where
  "timer_add timer opts msec func arg now b =
     (if \<not> working_base b then Some (- 1, b)
      else if has_flag timer TMR_F_ACTIVE b then Some (- 1, b)
      else do {
        exists \<leftarrow> (if has_flag timer TMR_F_MOUNTED b then timer_search timer b else Some False);
        if exists then Some (- 1, b)
        else do {
          b \<leftarrow> upd_timer timer (\<lambda>r. r\<lparr>t_option := opts, t_func := func, t_arg := arg, t_flags := 0,
                 interval := timespec_init msec, expire := now\<rparr>) b;
          b \<leftarrow> timer_insert timer b;
          b \<leftarrow> set_flags timer TMR_F_ACTIVE b;
          b \<leftarrow> upd_timer timer (\<lambda>r. r\<lparr>t_base := current_base, t_cond := True\<rparr>) b;
          Some (0, if b_state b = TMR_BASE_WAITING \<or>
            running_timer b \<noteq> NULL \<and>
              timespec_cmp (expire (timers b timer)) (expire (timers b (running_timer b))) (<)
            then signal Work_cond b else b)
        }
      })"

text \<open>
  \<open>timer_exit\<close> answers whether it returned; otherwise the caller waits on the timer's
  condition variable and tests again when it is woken.
\<close>

definition timer_exit :: "nat \<Rightarrow> addr \<Rightarrow> timer_base \<Rightarrow> (bool \<times> timer_base) option" where
  "timer_exit self timer b = do {
     b \<leftarrow> clear_flags timer TMR_F_ACTIVE b;
     own \<leftarrow> (if has_flag timer TMR_F_EXECUTING b
            then do { th \<leftarrow> load (threads b) (t_thread (timers b timer)); Some (tid th = self) }
            else Some False);
     if own then do { b \<leftarrow> set_flags timer TMR_F_DETACH b; Some (True, b) }
     else if has_flag timer (TMR_F_PENDING OR TMR_F_EXECUTING) b then do {
       b \<leftarrow> set_flags timer TMR_F_WAITING b;
       Some (False, b)
     }
     else do { b \<leftarrow> upd_timer timer (\<lambda>r. r\<lparr>t_cond := False\<rparr>) b; Some (True, b) }
   }"

definition timer_exit_wake :: "addr \<Rightarrow> timer_base \<Rightarrow> (bool \<times> timer_base) option" where
  "timer_exit_wake timer b =
     (if has_flag timer (TMR_F_PENDING OR TMR_F_EXECUTING) b then do {
        b \<leftarrow> set_flags timer TMR_F_WAITING b;
        Some (False, b)
      }
      else do { b \<leftarrow> upd_timer timer (\<lambda>r. r\<lparr>t_cond := False\<rparr>) b; Some (True, b) })"

definition timer_del :: "nat \<Rightarrow> addr \<Rightarrow> timer_base \<Rightarrow> (int \<times> bool \<times> timer_base) option" where
  "timer_del self timer b =
     (if \<not> working_base b then Some (- 1, True, b)
      else if \<not> has_flag timer TMR_F_ACTIVE b then Some (- 1, True, b)
      else do {
        known \<leftarrow> (if has_flag timer TMR_F_MOUNTED b then timer_search timer b else Some True);
        if \<not> known then Some (- 1, True, b)
        else do {
          b \<leftarrow> (if has_flag timer TMR_F_MOUNTED b then do {
                 b \<leftarrow> timer_remove timer b;
                 Some (if running_timer b = timer then signal Work_cond (b\<lparr>running_timer := NULL\<rparr>) else b)
               } else Some b);
          (finished, b) \<leftarrow> timer_exit self timer b;
          Some (0, finished, b)
        }
      })"

definition timer_mod :: "addr \<Rightarrow> int \<Rightarrow> timespec \<Rightarrow> timer_base \<Rightarrow> (int \<times> timer_base) option" where
  "timer_mod timer msec now b =
     (if \<not> working_base b then Some (- 1, b)
      else if \<not> has_flag timer TMR_F_ACTIVE b then Some (- 1, b)
      else do {
        known \<leftarrow> (if has_flag timer TMR_F_MOUNTED b then timer_search timer b else Some True);
        if \<not> known then Some (- 1, b)
        else do {
          b \<leftarrow> (if has_flag timer TMR_F_MOUNTED b then timer_remove timer b else Some b);
          b \<leftarrow> upd_timer timer (\<lambda>r. r\<lparr>interval := timespec_init msec, expire := now\<rparr>) b;
          b \<leftarrow> timer_insert timer b;
          Some (0, if running_timer b = timer \<or>
            running_timer b \<noteq> NULL \<and>
              timespec_cmp (expire (timers b timer)) (expire (timers b (running_timer b))) (<)
            then signal Work_cond b else b)
        }
      })"

end
