(* ===== verification/Timer_Inv.thy ===== *)
theory Timer_Inv
  imports Timer
begin

text \<open>
  The invariant of the timer base: the table holds exactly the mounted timers, in the order of
  their expiry, the expired list exactly the pending ones, a timer is executing exactly when one
  thread runs it, and the counters of threads are exact. Insertion, removal and search of a timer
  are stated over it.
\<close>

section \<open>Flags\<close>

named_theorems flag_simps "tests and updates of the timer flags, bit by bit"

lemmas tmr_flags_def = TMR_F_ACTIVE_def TMR_F_MOUNTED_def TMR_F_PENDING_def TMR_F_EXECUTING_def
  TMR_F_WAITING_def TMR_F_DETACH_def

lemma and_bit: "m = 2 ^ k \<Longrightarrow> w AND m \<noteq> 0 \<longleftrightarrow> bit w k" for w :: bits32
  by (simp add: and_exp_eq_0_iff_not_bit)

lemma flag_bits [flag_simps]:
  "has_flag t TMR_F_ACTIVE b \<longleftrightarrow> bit (t_flags (timers b t)) 0"
  "has_flag t TMR_F_MOUNTED b \<longleftrightarrow> bit (t_flags (timers b t)) 1"
  "has_flag t TMR_F_PENDING b \<longleftrightarrow> bit (t_flags (timers b t)) 2"
  "has_flag t TMR_F_EXECUTING b \<longleftrightarrow> bit (t_flags (timers b t)) 3"
  "has_flag t TMR_F_WAITING b \<longleftrightarrow> bit (t_flags (timers b t)) 4"
  "has_flag t TMR_F_DETACH b \<longleftrightarrow> bit (t_flags (timers b t)) 5"
  unfolding has_flag_def by (rule and_bit; simp add: tmr_flags_def)+

lemma busy_bits [flag_simps]:
  "has_flag t (TMR_F_PENDING OR TMR_F_EXECUTING) b \<longleftrightarrow>
     bit (t_flags (timers b t)) 2 \<or> bit (t_flags (timers b t)) 3"
proof -
  have "w AND (u OR v) \<noteq> 0 \<longleftrightarrow> w AND u \<noteq> 0 \<or> w AND v \<noteq> 0" for w u v :: bits32
    by (auto simp: bit_eq_iff bit_simps)
  then show ?thesis unfolding has_flag_def flag_bits(3,4) [unfolded has_flag_def, symmetric] .
qed

lemma bit_exp: "m = 2 ^ k \<Longrightarrow> k < 32 \<Longrightarrow> bit m n \<longleftrightarrow> n = k" for m :: bits32
  by (auto simp: bit_exp_iff possible_bit_def)

lemma bit_flag [flag_simps]:
  "bit TMR_F_ACTIVE n \<longleftrightarrow> n = 0" "bit TMR_F_MOUNTED n \<longleftrightarrow> n = 1" "bit TMR_F_PENDING n \<longleftrightarrow> n = 2"
  "bit TMR_F_EXECUTING n \<longleftrightarrow> n = 3" "bit TMR_F_WAITING n \<longleftrightarrow> n = 4" "bit TMR_F_DETACH n \<longleftrightarrow> n = 5"
  by (rule bit_exp; simp add: tmr_flags_def)+

lemma or_flag [flag_simps]:
  "bit (w OR TMR_F_ACTIVE) n \<longleftrightarrow> bit w n \<or> n = 0" "bit (w OR TMR_F_MOUNTED) n \<longleftrightarrow> bit w n \<or> n = 1"
  "bit (w OR TMR_F_PENDING) n \<longleftrightarrow> bit w n \<or> n = 2" "bit (w OR TMR_F_EXECUTING) n \<longleftrightarrow> bit w n \<or> n = 3"
  "bit (w OR TMR_F_WAITING) n \<longleftrightarrow> bit w n \<or> n = 4" "bit (w OR TMR_F_DETACH) n \<longleftrightarrow> bit w n \<or> n = 5"
  by (simp_all add: bit_or_iff bit_flag)

lemma bit_and_not: "bit (w AND NOT m) n \<longleftrightarrow> bit w n \<and> \<not> bit m n" for w m :: bits32
  using bit_imp_le_length [of w n] by (auto simp: bit_and_iff bit_not_iff possible_bit_def)

lemma clear_flag [flag_simps]:
  "bit (w AND NOT TMR_F_ACTIVE) n \<longleftrightarrow> bit w n \<and> n \<noteq> 0" "bit (w AND NOT TMR_F_MOUNTED) n \<longleftrightarrow> bit w n \<and> n \<noteq> 1"
  "bit (w AND NOT TMR_F_PENDING) n \<longleftrightarrow> bit w n \<and> n \<noteq> 2" "bit (w AND NOT TMR_F_EXECUTING) n \<longleftrightarrow> bit w n \<and> n \<noteq> 3"
  "bit (w AND NOT TMR_F_WAITING) n \<longleftrightarrow> bit w n \<and> n \<noteq> 4" "bit (w AND NOT TMR_F_DETACH) n \<longleftrightarrow> bit w n \<and> n \<noteq> 5"
  by (simp_all add: bit_and_not bit_flag)


section \<open>The order of timers\<close>

lemmas timer_order_defs = timer_comparator_def timespec_cmp_def

lemma timer_cmp_on: "cmp_on A (timer_comparator ts)"
  unfolding cmp_on_def by (auto simp: timer_order_defs split: if_splits)

lemma timer_cmp_zero:
  "timer_comparator ts a c = 0 \<longleftrightarrow> expire (ts a) = expire (ts c) \<and> t_timerid (ts a) = t_timerid (ts c)"
  by (auto simp: timer_order_defs)

lemma timer_searcher_eq: "timer_searcher ts n = timer_comparator ts n"
  by (rule ext) (simp add: timer_searcher_def timer_comparator_def)

lemma timer_cmp_cong:
  "expire (ts' a) = expire (ts a) \<Longrightarrow> expire (ts' c) = expire (ts c) \<Longrightarrow>
   t_timerid (ts' a) = t_timerid (ts a) \<Longrightarrow> t_timerid (ts' c) = t_timerid (ts c) \<Longrightarrow>
   timer_comparator ts' a c = timer_comparator ts a c"
  by (simp add: timer_comparator_def)

lemma rb_wf_timers:
  assumes "rb_wf (timer_comparator ts) T xs"
    and "\<And>a. a \<in> set xs \<Longrightarrow> expire (ts' a) = expire (ts a) \<and> t_timerid (ts' a) = t_timerid (ts a)"
  shows "rb_wf (timer_comparator ts') T xs"
proof -
  have "timer_comparator ts' a c = timer_comparator ts a c" if "a \<in> set xs" "c \<in> set xs" for a c
    using assms(2) that by (intro timer_cmp_cong) auto
  then have "cmp_sorted (timer_comparator ts') xs \<longleftrightarrow> cmp_sorted (timer_comparator ts) xs"
    by (auto intro: sorted_wrt_mono_rel [rotated])
  with assms(1) show ?thesis by (simp add: rb_wf_def)
qed

section \<open>The table and the expired list\<close>

definition table_inv :: "timer_base \<Rightarrow> addr list \<Rightarrow> addr list \<Rightarrow> bool" where
  "table_inv b xs ys \<longleftrightarrow>
     rb_wf (timer_comparator (timers b)) (b_table b) xs \<and> ring (expired_links b) expired_timer ys \<and>
     expired_timer \<notin> set xs \<and>
     (\<forall>t. bit (t_flags (timers b t)) 1 \<longleftrightarrow> t \<in> set xs) \<and>
     (\<forall>t. bit (t_flags (timers b t)) 2 \<longleftrightarrow> t \<in> set ys) \<and>
     (\<forall>t\<in>set xs. 0 \<le> t_timerid (timers b t) \<and> t_timerid (timers b t) < b_timerid b) \<and>
     inj_on (\<lambda>t. t_timerid (timers b t)) (set xs) \<and> 0 \<le> b_timerid b \<and> b_timerid b < 2 ^ 31"

lemma table_inv_wf: "table_inv b xs ys \<Longrightarrow> rb_wf (timer_comparator (timers b)) (b_table b) xs"
  and table_inv_ring: "table_inv b xs ys \<Longrightarrow> ring (expired_links b) expired_timer ys"
  and table_inv_mounted: "table_inv b xs ys \<Longrightarrow> bit (t_flags (timers b t)) (Suc 0) \<longleftrightarrow> t \<in> set xs"
  and table_inv_pending: "table_inv b xs ys \<Longrightarrow> bit (t_flags (timers b t)) 2 \<longleftrightarrow> t \<in> set ys"
  by (simp_all add: table_inv_def)

lemma table_inv_member:
  assumes "table_inv b xs ys" and "t \<in> set xs"
  shows "t \<noteq> NULL" and "t \<noteq> expired_timer"
  using assms rb.wf_list [OF table_inv_wf [OF assms(1)]] by (auto simp: table_inv_def)

text \<open>What table and list do not depend on.\<close>

lemma table_inv_frame:
  assumes "table_inv b xs ys"
    and "b_table b' = b_table b" "expired_links b' = expired_links b" "b_timerid b' = b_timerid b"
    and "\<And>t. t \<in> set xs \<Longrightarrow> expire (timers b' t) = expire (timers b t) \<and> t_timerid (timers b' t) = t_timerid (timers b t)"
    and "\<And>t. bit (t_flags (timers b' t)) (Suc 0) = bit (t_flags (timers b t)) (Suc 0)"
    and "\<And>t. bit (t_flags (timers b' t)) 2 = bit (t_flags (timers b t)) 2"
  shows "table_inv b' xs ys"
proof -
  have "inj_on (\<lambda>t. t_timerid (timers b' t)) (set xs) \<longleftrightarrow> inj_on (\<lambda>t. t_timerid (timers b t)) (set xs)"
    using assms(5) by (intro inj_on_cong) auto
  moreover have "rb_wf (timer_comparator (timers b')) (b_table b') xs"
    using rb_wf_timers [OF table_inv_wf [OF assms(1)], of "timers b'"] assms(2,5) by simp
  ultimately show ?thesis using assms by (simp add: table_inv_def)
qed

lemma timer_search_ok:
  assumes "table_inv b xs ys" and "t \<in> set xs"
  shows "timer_search t b = Some True"
  using rb.look_member [OF table_inv_wf [OF assms(1)] timer_cmp_on assms(2)]
  by (simp add: timer_search_def timer_searcher_eq)

abbreviation armed :: "timer_base \<Rightarrow> addr \<Rightarrow> timer_struct" where
  "armed b t \<equiv> (timers b t)\<lparr>expire := timespec_add (expire (timers b t)) (interval (timers b t)),
     t_timerid := b_timerid b, t_flags := t_flags (timers b t) OR TMR_F_MOUNTED\<rparr>"

lemma timer_insert_ok:
  assumes inv: "table_inv b xs ys" and t: "t \<notin> set xs" "t \<noteq> NULL" "t \<noteq> expired_timer"
    and ids: "b_timerid b < 2 ^ 31 - 1"
  shows "\<exists>T. timer_insert t b = Some (b\<lparr>timers := (timers b)(t := armed b t), b_timerid := b_timerid b + 1, b_table := T\<rparr>) \<and>
    table_inv (b\<lparr>timers := (timers b)(t := armed b t), b_timerid := b_timerid b + 1, b_table := T\<rparr>)
      (cmp_insert (timer_comparator ((timers b)(t := armed b t))) t xs) ys"
proof -
  let ?ts = "(timers b)(t := (timers b t)\<lparr>expire := timespec_add (expire (timers b t)) (interval (timers b t)),
      t_timerid := b_timerid b\<rparr>)"
  let ?us = "(timers b)(t := armed b t)"
  have cmp: "timer_comparator ?us = timer_comparator ?ts"
    by (intro ext) (simp add: timer_comparator_def)
  have wf: "rb_wf (timer_comparator ?ts) (b_table b) xs"
    by (rule rb_wf_timers [OF table_inv_wf [OF inv]]) (use t in auto)
  have new: "\<forall>y\<in>set xs. timer_comparator ?ts t y \<noteq> 0"
  proof
    fix y assume "y \<in> set xs"
    then have "t_timerid (timers b y) < b_timerid b" "y \<noteq> t" using inv t(1) by (auto simp: table_inv_def)
    then show "timer_comparator ?ts t y \<noteq> 0" by (simp add: timer_cmp_zero)
  qed
  from rb_insert_new [OF wf timer_cmp_on t(2,1) new] obtain T where
    T: "rb_insert (timer_comparator ?ts) t (b_table b) = Some (t, T)"
      "rb_wf (timer_comparator ?ts) T (cmp_insert (timer_comparator ?ts) t xs)" by blast
  let ?b = "b\<lparr>timers := ?us, b_timerid := b_timerid b + 1, b_table := T\<rparr>"
  have "timer_insert t b = Some ?b"
    using t(2) T(1) ids inv
    by (simp add: timer_insert_def upd_timer_def set_flags_def mem_simps c_int_def table_inv_def)
  moreover have "inj_on (\<lambda>x. t_timerid (?us x)) (insert t (set xs))"
    using inv t(1) by (auto simp: table_inv_def inj_on_def)
  then have "table_inv ?b (cmp_insert (timer_comparator ?us) t xs) ys"
    using inv T(2) t ids unfolding cmp by (auto simp: table_inv_def cmp flag_simps)
  ultimately show ?thesis by blast
qed

lemma timer_remove_ok:
  assumes inv: "table_inv b xs ys" and t: "t \<in> set xs"
  shows "\<exists>T. timer_remove t b = Some (b\<lparr>b_table := T, timers := (timers b)
      (t := (timers b t)\<lparr>t_flags := t_flags (timers b t) AND NOT TMR_F_MOUNTED\<rparr>)\<rparr>) \<and>
    table_inv (b\<lparr>b_table := T, timers := (timers b)
      (t := (timers b t)\<lparr>t_flags := t_flags (timers b t) AND NOT TMR_F_MOUNTED\<rparr>)\<rparr>) (remove1 t xs) ys"
proof -
  have d: "distinct xs" using rb.wf_list [OF table_inv_wf [OF inv]] by blast
  from rb_remove_ok [OF table_inv_wf [OF inv] t] obtain T where
    T: "rb_remove t (b_table b) = Some T" "rb_wf (timer_comparator (timers b)) T (remove1 t xs)" by blast
  let ?us = "(timers b)(t := (timers b t)\<lparr>t_flags := t_flags (timers b t) AND NOT TMR_F_MOUNTED\<rparr>)"
  have "rb_wf (timer_comparator ?us) T (remove1 t xs)"
    by (rule rb_wf_timers [OF T(2)]) auto
  moreover have "inj_on (\<lambda>x. t_timerid (?us x)) (set xs - {t})"
    using inv by (auto simp: table_inv_def inj_on_def)
  ultimately have "table_inv (b\<lparr>b_table := T, timers := ?us\<rparr>) (remove1 t xs) ys"
    using inv d by (auto simp: table_inv_def flag_simps)
  with T(1) table_inv_member(1) [OF inv t] show ?thesis
    by (auto simp: timer_remove_def clear_flags_def upd_timer_def mem_simps)
qed


text \<open>
  The threads of the timer: who holds the mutex, how many threads there are and how many are idle,
  which thread runs which timer.
\<close>

fun pc_timer :: "thread_pc \<Rightarrow> addr option" where
  "pc_timer (Inspector_run t) = Some t"
| "pc_timer (Executor_run t _) = Some t"
| "pc_timer _ = None"

fun pc_idle :: "thread_pc \<Rightarrow> bool" where
  "pc_idle (Executor_wait _) = True"
| "pc_idle (Executor_timedwait _) = True"
| "pc_idle _ = False"

fun pc_holds :: "thread_pc \<Rightarrow> bool" where
  "pc_holds Inspector_loop = True"
| "pc_holds (Executor_loop _) = True"
| "pc_holds (Executor_drain _) = True"
| "pc_holds _ = False"

fun pc_inspects :: "thread_pc \<Rightarrow> bool" where
  "pc_inspects Inspector_start = True"
| "pc_inspects Inspector_loop = True"
| "pc_inspects Inspector_wait = True"
| "pc_inspects (Inspector_timedwait _) = True"
| "pc_inspects (Inspector_run _) = True"
| "pc_inspects _ = False"

section \<open>Counting threads\<close>

definition pcs_inv :: "(addr \<Rightarrow> thread_pc) \<Rightarrow> addr \<Rightarrow> int \<Rightarrow> int \<Rightarrow> bool" where
  "pcs_inv pc h n i \<longleftrightarrow> pc NULL = Gone \<and> (\<forall>a. pc_holds (pc a) \<longleftrightarrow> h = a \<and> a \<noteq> NULL) \<and>
     finite {a. pc a \<noteq> Gone} \<and> n = int (card {a. pc a \<noteq> Gone}) \<and> i = int (card {a. pc_idle (pc a)}) \<and>
     (\<forall>a c. pc_inspects (pc a) \<longrightarrow> pc_inspects (pc c) \<longrightarrow> a = c)"

lemma pcs_finite_idle: "pcs_inv pc h n i \<Longrightarrow> finite {a. pc_idle (pc a)}"
  by (rule finite_subset [of _ "{a. pc a \<noteq> Gone}"]) (auto simp: pcs_inv_def)

lemma pcs_upd:
  assumes "pcs_inv pc h n i" and "a \<noteq> NULL" and "h = NULL \<or> h = a"
    and "pc_inspects q \<Longrightarrow> pc_inspects (pc a)"
    and "h' = (if pc_holds q then a else NULL)"
    and "n' = n + of_bool (q \<noteq> Gone) - of_bool (pc a \<noteq> Gone)"
    and "i' = i + of_bool (pc_idle q) - of_bool (pc_idle (pc a))"
  shows "pcs_inv (pc(a := q)) h' n' i'"
proof -
  have "finite {a. pc a \<noteq> Gone}" using assms(1) by (simp add: pcs_inv_def)
  from card_upd [where P = "\<lambda>p. p \<noteq> Gone", OF this, of a q]
    card_upd [where P = pc_idle, OF pcs_finite_idle [OF assms(1)], of a q] assms
  show ?thesis unfolding pcs_inv_def by auto
qed

text \<open>A new executor has not taken the mutex yet.\<close>

lemma pcs_new:
  assumes "pcs_inv pc h n i" and "a \<noteq> NULL" and "pc a = Gone"
  shows "pcs_inv (pc(a := Executor_start)) h (n + 1) i"
proof -
  have "pc_holds (pc a) \<longleftrightarrow> h = a \<and> a \<noteq> NULL" using assms(1) unfolding pcs_inv_def by blast
  with assms(2,3) have "h \<noteq> a" by simp
  have "finite {a. pc a \<noteq> Gone}" using assms(1) by (simp add: pcs_inv_def)
  from \<open>h \<noteq> a\<close> card_upd [where P = "\<lambda>p. p \<noteq> Gone", OF this, of a Executor_start]
    card_upd [where P = pc_idle, OF pcs_finite_idle [OF assms(1)], of a Executor_start] assms
  show ?thesis unfolding pcs_inv_def by auto
qed

section \<open>Which thread runs which timer\<close>

definition run_inv :: "(addr \<Rightarrow> timer_thread) \<Rightarrow> (addr \<Rightarrow> timer_struct) \<Rightarrow> addr \<Rightarrow> bool" where
  "run_inv th ts running \<longleftrightarrow>
     (\<forall>t. bit (t_flags (ts t)) 3 \<longrightarrow> pc_timer (th_pc (th (t_thread (ts t)))) = Some t) \<and>
     (\<forall>a t. pc_timer (th_pc (th a)) = Some t \<longrightarrow> bit (t_flags (ts t)) 3 \<and> t_thread (ts t) = a \<and>
        th_timer (th a) = t \<and> t \<noteq> NULL \<and> \<not> bit (t_flags (ts t)) 2) \<and>
     (running \<noteq> NULL \<longrightarrow> bit (t_flags (ts running)) 1 \<and> (\<exists>a. th_pc (th a) = Inspector_timedwait running))"

definition timer_inv :: "timer_base \<Rightarrow> addr list \<Rightarrow> addr list \<Rightarrow> bool" where
  "timer_inv b xs ys \<longleftrightarrow> table_inv b xs ys \<and>
     pcs_inv (\<lambda>a. th_pc (threads b a)) (holder b) (nthreads b) (idlethreads b) \<and>
     run_inv (threads b) (timers b) (running_timer b)"

lemma timer_invD:
  assumes "timer_inv b xs ys"
  shows "table_inv b xs ys" and "pcs_inv (\<lambda>a. th_pc (threads b a)) (holder b) (nthreads b) (idlethreads b)"
    and "run_inv (threads b) (timers b) (running_timer b)"
  using assms by (simp_all add: timer_inv_def)

text \<open>A thread that is not running a timer moves to a point where it does not either.\<close>

lemma run_inv_set:
  assumes "run_inv th ts r" and "pc_timer (th_pc (th a)) = None" and "pc_timer (th_pc v) = None"
    and "\<And>t. th_pc (th a) \<noteq> Inspector_timedwait t"
  shows "run_inv (th(a := v)) ts r"
proof -
  have "(\<exists>c. th_pc (th c) = Inspector_timedwait r) \<Longrightarrow> \<exists>c. th_pc ((th(a := v)) c) = Inspector_timedwait r"
    using assms(4) by (metis fun_upd_other)
  with assms(1-3) show ?thesis unfolding run_inv_def by (auto split: if_splits)
qed

lemma run_inv_move:
  assumes "run_inv th ts r" and "pc_timer (th_pc (th a)) = None" and "pc_timer q = None"
    and "\<And>t. th_pc (th a) \<noteq> Inspector_timedwait t"
  shows "run_inv (th(a := (th a)\<lparr>th_pc := q\<rparr>)) ts r"
  by (rule run_inv_set [OF assms(1,2)]) (use assms(3,4) in simp_all)

lemma run_inv_timing:
  assumes "run_inv th ts r" and "pc_timer (th_pc (th a)) = None" and "bit (t_flags (ts t)) 1"
  shows "run_inv (th(a := (th a)\<lparr>th_pc := Inspector_timedwait t\<rparr>)) ts t"
  using assms unfolding run_inv_def by (auto split: if_splits)

lemma run_inv_timed:
  assumes "run_inv th ts r" and "pc_timer (th_pc (th a)) = None" and "pc_timer q = None"
  shows "run_inv (th(a := (th a)\<lparr>th_pc := q\<rparr>)) ts NULL"
  using assms unfolding run_inv_def by (auto split: if_splits)

lemma run_inv_timers:
  assumes "run_inv th ts r"
    and "\<And>t. bit (t_flags (ts' t)) 3 = bit (t_flags (ts t)) 3"
    and "\<And>t. bit (t_flags (ts t)) 3 \<Longrightarrow> t_thread (ts' t) = t_thread (ts t)"
    and "\<And>t. bit (t_flags (ts t)) 3 \<Longrightarrow> bit (t_flags (ts' t)) 2 = bit (t_flags (ts t)) 2"
    and "r \<noteq> NULL \<Longrightarrow> bit (t_flags (ts' r)) 1 = bit (t_flags (ts r)) 1"
  shows "run_inv th ts' r"
  using assms unfolding run_inv_def by auto

lemma run_inv_stop: "run_inv th ts r \<Longrightarrow> run_inv th ts NULL"
  unfolding run_inv_def by blast

text \<open>The inspector is in its loop only when it is not timing a timer.\<close>

lemma inspector_not_timing:
  assumes "run_inv (threads b) ts r" and "pcs_inv (\<lambda>a. th_pc (threads b a)) h n i"
    and "pc_inspects (th_pc (threads b a))" and "\<And>t. th_pc (threads b a) \<noteq> Inspector_timedwait t"
  shows "r = NULL"
proof (rule ccontr)
  assume "r \<noteq> NULL"
  then obtain c where c: "th_pc (threads b c) = Inspector_timedwait r" using assms(1) unfolding run_inv_def by blast
  then have "c = a" using assms(2,3) unfolding pcs_inv_def by (metis pc_inspects.simps(4))
  with c assms(4) show False by blast
qed

lemma run_inv_begin:
  assumes "run_inv th ts r" and "\<not> bit (t_flags (ts t)) 3" and "\<not> bit (t_flags (ts t)) 2" and "t \<noteq> NULL"
    and "pc_timer (th_pc (th a)) = None" and "pc_timer q = Some t" and "\<And>t. th_pc (th a) \<noteq> Inspector_timedwait t"
  shows "run_inv (th(a := (th a)\<lparr>th_timer := t, th_pc := q\<rparr>))
    (ts(t := (ts t)\<lparr>t_thread := a, t_flags := t_flags (ts t) OR TMR_F_EXECUTING\<rparr>)) r"
proof -
  let ?th = "th(a := (th a)\<lparr>th_timer := t, th_pc := q\<rparr>)"
  have "(\<exists>c. th_pc (th c) = Inspector_timedwait r) \<Longrightarrow> \<exists>c. th_pc (?th c) = Inspector_timedwait r"
    using assms(7) by (metis fun_upd_other)
  with assms(1-6) show ?thesis unfolding run_inv_def by (auto simp: flag_simps split: if_splits)
qed

lemma run_inv_finish:
  assumes "run_inv th ts r" and "pc_timer (th_pc (th a)) = Some t" and "pc_timer q = None"
    and "\<And>u. bit (t_flags (ts' u)) 3 \<longleftrightarrow> bit (t_flags (ts u)) 3 \<and> u \<noteq> t"
    and "\<And>u. t_thread (ts' u) = t_thread (ts u)"
    and "\<And>u. bit (t_flags (ts' u)) 2 = bit (t_flags (ts u)) 2"
    and "\<And>u. bit (t_flags (ts' u)) 1 = bit (t_flags (ts u)) 1"
  shows "run_inv (th(a := (th a)\<lparr>th_pc := q\<rparr>)) ts' r"
proof -
  let ?th = "th(a := (th a)\<lparr>th_pc := q\<rparr>)"
  have own: "c = a" if "pc_timer (th_pc (th c)) = Some t" for c
    using assms(1,2) that unfolding run_inv_def by metis
  have "pc_timer (th_pc (?th (t_thread (ts' u)))) = Some u" if "bit (t_flags (ts' u)) 3" for u
    using assms(1,2,4,5) that unfolding run_inv_def by (auto split: if_splits)
  moreover have "bit (t_flags (ts' u)) 3 \<and> t_thread (ts' u) = c \<and> th_timer (?th c) = u \<and> u \<noteq> NULL \<and> \<not> bit (t_flags (ts' u)) 2"
    if "pc_timer (th_pc (?th c)) = Some u" for c u
  proof -
    have c: "c \<noteq> a" "pc_timer (th_pc (th c)) = Some u" using that assms(3) by (auto split: if_splits)
    then have "u \<noteq> t" using own by blast
    with c assms(1,4-6) show ?thesis unfolding run_inv_def by simp
  qed
  moreover have "\<exists>c. th_pc (?th c) = Inspector_timedwait r" if "th_pc (th c) = Inspector_timedwait r" for c
    using that assms(2) by (intro exI [of _ c]) auto
  then have "r \<noteq> NULL \<longrightarrow> bit (t_flags (ts' r)) 1 \<and> (\<exists>c. th_pc (?th c) = Inspector_timedwait r)"
    using assms(1,7) unfolding run_inv_def by blast
  ultimately show ?thesis unfolding run_inv_def by blast
qed

end
