(* ===== verification/Timer_Steps.thy ===== *)
theory Timer_Steps
  imports Timer_Inv
begin

text \<open>
  The timer as a transition system: every call of the client interface and every stretch of a
  timer thread between two points of its routine is an event. The invariant is kept by all of
  them, and none faults.
\<close>

section \<open>Events\<close>

datatype event =
    Add addr bits32 int addr addr timespec
  | Del nat addr | Del_wake addr
  | Mod addr int timespec
  | Destroy
  | Start addr | Turn addr timespec spawn | Wake addr int spawn | Returned addr

fun perform :: "event \<Rightarrow> timer_base \<Rightarrow> timer_base option" where
  "perform (Add t opts msec func arg now) b = map_option snd (timer_add t opts msec func arg now b)"
| "perform (Del self t) b = map_option (\<lambda>r. snd (snd r)) (timer_del self t b)"
| "perform (Del_wake t) b = map_option snd (timer_exit_wake t b)"
| "perform (Mod t msec now) b = map_option snd (timer_mod t msec now b)"
| "perform Destroy b = Some (snd (timer_destroy b))"
| "perform (Start a) b = (case th_pc (threads b a) of
     Inspector_start \<Rightarrow> run_at a Inspector_loop b
   | Executor_start \<Rightarrow> run_at a (Executor_loop False) b
   | _ \<Rightarrow> None)"
| "perform (Turn a now sp) b = (case th_pc (threads b a) of
     Inspector_loop \<Rightarrow> inspector_turn a now sp b
   | Executor_loop d \<Rightarrow> executor_turn a d b
   | Executor_drain d \<Rightarrow> executor_drain a d b
   | _ \<Rightarrow> None)"
| "perform (Wake a err sp) b = (case th_pc (threads b a) of
     Inspector_wait \<Rightarrow> run_at a Inspector_loop b
   | Inspector_timedwait t \<Rightarrow> inspector_wake a t err sp b
   | Executor_wait d \<Rightarrow> executor_wake a d b
   | Executor_timedwait d \<Rightarrow> executor_wake a (d \<or> err = ETIMEDOUT) b
   | _ \<Rightarrow> None)"
| "perform (Returned a) b = (case th_pc (threads b a) of
     Inspector_run t \<Rightarrow> do { b \<leftarrow> timer_cleanup a b; run_at a Inspector_loop b }
   | Executor_run t d \<Rightarrow> do { b \<leftarrow> timer_cleanup a b; run_at a (Executor_drain d) b }
   | _ \<Rightarrow> None)"

text \<open>
  When an event can happen. A thread takes a step only with the mutex; \<open>malloc\<close> returns memory
  no thread uses; a client passes a timer that is neither queued nor running to \<open>timer_add\<close>.
\<close>

definition spawn_ok :: "spawn \<Rightarrow> timer_base \<Rightarrow> bool" where
  "spawn_ok sp b \<longleftrightarrow> fst sp \<noteq> NULL \<longrightarrow> th_pc (threads b (fst sp)) = Gone"

definition client_ok :: "addr \<Rightarrow> timer_base \<Rightarrow> bool" where
  "client_ok t b \<longleftrightarrow> holder b = NULL \<and> t \<noteq> NULL \<and> t \<noteq> expired_timer"

fun pc_waits :: "thread_pc \<Rightarrow> bool" where
  "pc_waits Inspector_wait = True"
| "pc_waits (Inspector_timedwait _) = True"
| "pc_waits p = pc_idle p"

fun enabled :: "event \<Rightarrow> timer_base \<Rightarrow> bool" where
  "enabled (Add t opts msec func arg now) b \<longleftrightarrow> client_ok t b \<and> \<not> has_flag t (TMR_F_PENDING OR TMR_F_EXECUTING) b"
| "enabled (Del self t) b \<longleftrightarrow> client_ok t b"
| "enabled (Del_wake t) b \<longleftrightarrow> client_ok t b \<and> \<not> has_flag t TMR_F_ACTIVE b"
| "enabled (Mod t msec now) b \<longleftrightarrow> client_ok t b"
| "enabled Destroy b \<longleftrightarrow> holder b = NULL"
| "enabled (Start a) b \<longleftrightarrow> holder b = NULL \<and> (th_pc (threads b a) = Inspector_start \<or> th_pc (threads b a) = Executor_start)"
| "enabled (Turn a now sp) b \<longleftrightarrow> holder b = a \<and> a \<noteq> NULL \<and> spawn_ok sp b"
| "enabled (Wake a err sp) b \<longleftrightarrow> holder b = NULL \<and> pc_waits (th_pc (threads b a)) \<and> spawn_ok sp b"
| "enabled (Returned a) b \<longleftrightarrow> holder b = NULL \<and> pc_timer (th_pc (threads b a)) \<noteq> None"

section \<open>Threads moving\<close>

lemma pc_upd:
  "th_pc v = q \<Longrightarrow> (\<lambda>x. th_pc (if x = a then v else threads b x)) = (\<lambda>x. th_pc (threads b x))(a := q)"
  by auto

lemma pcs_thread: "pcs_inv (\<lambda>a. th_pc (threads b a)) h n i \<Longrightarrow> th_pc (threads b a) \<noteq> Gone \<Longrightarrow> a \<noteq> NULL"
  by (auto simp: pcs_inv_def)

lemma pcs_holder: "pcs_inv (\<lambda>a. th_pc (threads b a)) h n i \<Longrightarrow> pc_holds (th_pc (threads b a)) \<Longrightarrow> h = a \<and> a \<noteq> NULL"
  by (auto simp: pcs_inv_def)

text \<open>
  A thread goes from one point to another; \<open>h\<close>, \<open>n\<close>, \<open>i\<close> are the holder and the counters before.
\<close>

lemma goto_ok:
  assumes "table_inv b xs ys" and "run_inv (threads b) (timers b) r"
    and pcs: "pcs_inv (\<lambda>a. th_pc (threads b a)) h n i" and a: "th_pc (threads b a) \<noteq> Gone" "h = NULL \<or> h = a"
    and "pc_timer (th_pc (threads b a)) = None" and "pc_timer q = None"
    and r: "if \<exists>t. th_pc (threads b a) = Inspector_timedwait t then running_timer b = NULL
      else if \<exists>t. q = Inspector_timedwait t then q = Inspector_timedwait (running_timer b) \<and> running_timer b \<in> set xs
      else running_timer b = r"
    and "pc_inspects q \<Longrightarrow> pc_inspects (th_pc (threads b a))"
    and "holder b = (if pc_holds q then a else NULL)"
    and "nthreads b = (if q = Gone then n - 1 else n)"
    and "idlethreads b = i + of_bool (pc_idle q) - of_bool (pc_idle (th_pc (threads b a)))"
  shows "goto_pc a q b = Some (b\<lparr>threads := (threads b)(a := (threads b a)\<lparr>th_pc := q\<rparr>)\<rparr>) \<and>
    timer_inv (b\<lparr>threads := (threads b)(a := (threads b a)\<lparr>th_pc := q\<rparr>)\<rparr>) xs ys"
proof -
  have nn: "a \<noteq> NULL" using pcs_thread [OF pcs a(1)] .
  have "pcs_inv ((\<lambda>x. th_pc (threads b x))(a := q)) (holder b) (nthreads b) (idlethreads b)"
    by (rule pcs_upd [OF pcs nn a(2)]) (use assms in auto)
  moreover have "run_inv ((threads b)(a := (threads b a)\<lparr>th_pc := q\<rparr>)) (timers b) (running_timer b)"
  proof (cases "\<exists>t. th_pc (threads b a) = Inspector_timedwait t")
    case True
    with r run_inv_timed [OF assms(2,6,7)] show ?thesis by simp
  next
    case False
    with r run_inv_move [OF assms(2,6,7)] table_inv_mounted [OF assms(1)] run_inv_timing [OF assms(2,6)] show ?thesis
      by (auto split: if_splits)
  qed
  moreover have "table_inv (b\<lparr>threads := (threads b)(a := (threads b a)\<lparr>th_pc := q\<rparr>)\<rparr>) xs ys"
    by (rule table_inv_frame [OF assms(1)]) simp_all
  ultimately show ?thesis using nn by (simp add: goto_pc_def upd_thread_def mem_simps timer_inv_def pc_upd)
qed

lemma timer_execute_ok:
  assumes "table_inv b xs ys" and "run_inv (threads b) (timers b) (running_timer b)"
    and pcs: "pcs_inv (\<lambda>a. th_pc (threads b a)) (holder b) (nthreads b) (idlethreads b)"
    and a: "pc_holds (th_pc (threads b a))"
    and t: "t \<noteq> NULL" "\<not> bit (t_flags (timers b t)) 3" "\<not> bit (t_flags (timers b t)) 2"
    and q: "pc_timer q = Some t" "pc_inspects q \<Longrightarrow> pc_inspects (th_pc (threads b a))"
  shows "\<exists>b'. timer_execute t a q b = Some b' \<and> timer_inv b' xs ys \<and>
    calls b' = calls b @ [(t, t_func (timers b t), t_arg (timers b t))] \<and>
    (\<forall>u. expire (timers b' u) = expire (timers b u)) \<and> b_state b' = b_state b"
proof -
  have nn: "a \<noteq> NULL" and h: "holder b = a" using pcs_holder [OF pcs a] by auto
  have pa: "pc_timer (th_pc (threads b a)) = None" "\<And>t. th_pc (threads b a) \<noteq> Inspector_timedwait t"
    "\<not> pc_idle (th_pc (threads b a))" "th_pc (threads b a) \<noteq> Gone"
    using a by (cases "th_pc (threads b a)"; simp)+
  have pq: "\<not> pc_holds q" "\<not> pc_idle q" "q \<noteq> Gone" using q(1) by (cases q; simp)+
  let ?th = "(threads b)(a := (threads b a)\<lparr>th_timer := t, th_pc := q\<rparr>)"
  let ?ts = "(timers b)(t := (timers b t)\<lparr>t_thread := a, t_flags := t_flags (timers b t) OR TMR_F_EXECUTING\<rparr>)"
  let ?b = "b\<lparr>threads := ?th, timers := ?ts, calls := calls b @ [(t, t_func (timers b t), t_arg (timers b t))], holder := NULL\<rparr>"
  have "pcs_inv ((\<lambda>x. th_pc (threads b x))(a := q)) NULL (nthreads b) (idlethreads b)"
    by (rule pcs_upd [OF pcs nn]) (use h pa pq q(2) in auto)
  moreover have "table_inv ?b xs ys" by (rule table_inv_frame [OF assms(1)]) (auto simp: flag_simps)
  moreover have "run_inv ?th ?ts (running_timer b)"
    by (rule run_inv_begin [OF assms(2)]) (use t pa q in auto)
  ultimately have "timer_inv ?b xs ys" by (simp add: timer_inv_def pc_upd)
  moreover have "timer_execute t a q b = Some ?b"
    using nn t(1)
    by (simp add: timer_execute_def upd_thread_def upd_timer_def set_flags_def wait_at_def goto_pc_def unlock_def mem_simps)
  ultimately show ?thesis by (intro exI [of _ ?b]) simp
qed


section \<open>Executors\<close>

lemma thread_cleanup_ok:
  assumes "timer_inv b xs ys" and "pc_holds (th_pc (threads b a))" and "\<And>t. th_pc (threads b a) \<noteq> Inspector_timedwait t"
  shows "\<exists>b'. thread_cleanup a b = Some b' \<and> timer_inv b' xs ys"
proof -
  have pa: "pc_timer (th_pc (threads b a)) = None" "\<not> pc_idle (th_pc (threads b a))" "th_pc (threads b a) \<noteq> Gone"
    using assms(2) by (cases "th_pc (threads b a)"; simp)+
  let ?w = "wakeups b @ (if nthreads b - 1 = 0 \<and> b_state b = TMR_BASE_DESTROY then [Exit_cond] else [])"
  let ?b = "b\<lparr>nthreads := nthreads b - 1, wakeups := ?w, holder := NULL\<rparr>"
  have "thread_cleanup a b = goto_pc a Gone ?b"
    by (simp add: thread_cleanup_def wait_at_def unlock_def signal_def Let_def cong del: if_weak_cong)
  moreover have "table_inv ?b xs ys" by (rule table_inv_frame [OF timer_invD(1) [OF assms(1)]]) simp_all
  ultimately show ?thesis
    using goto_ok [of ?b xs ys "running_timer b" "holder b" "nthreads b" "idlethreads b" a Gone] timer_invD [OF assms(1)]
      pcs_holder [OF timer_invD(2) [OF assms(1)] assms(2)] pa assms(3) by auto
qed

lemma executor_turn_ok:
  assumes inv: "timer_inv b xs ys" and pa: "th_pc (threads b a) = Executor_loop d"
  shows "\<exists>b'. executor_turn a d b = Some b' \<and> timer_inv b' xs ys"
proof (cases "b_state b = TMR_BASE_DESTROY")
  case True
  with thread_cleanup_ok [OF inv, of a] pa show ?thesis by (simp add: executor_turn_def)
next
  case False
  note D = timer_invD [OF inv]
  have h: "holder b = a" "a \<noteq> NULL" using pcs_holder [OF D(2)] pa by auto
  have emp: "list_empty expired_timer (expired_links b) = Some (ys = [])"
    using list_empty_ok [OF table_inv_ring [OF D(1)]] .
  let ?b1 = "b\<lparr>idlethreads := idlethreads b + 1, holder := NULL\<rparr>"
  have T: "table_inv ?b1 xs ys" by (rule table_inv_frame [OF D(1)]) simp_all
  have wait: "\<exists>b'. goto_pc a q ?b1 = Some b' \<and> timer_inv b' xs ys"
    if "pc_idle q" "pc_timer q = None" "\<not> pc_holds q" "\<not> pc_inspects q" "q \<noteq> Gone" "\<And>t. q \<noteq> Inspector_timedwait t" for q
    using goto_ok [OF T, of "running_timer b" "holder b" "nthreads b" "idlethreads b" a q] D pa h that by auto
  have go: "\<exists>b'. goto_pc a (Executor_drain e) b = Some b' \<and> timer_inv b' xs ys" for e
    using goto_ok [OF D(1), of "running_timer b" "holder b" "nthreads b" "idlethreads b" a "Executor_drain e"] D pa h by auto
  show ?thesis using False emp wait [of "Executor_wait d"] wait [of "Executor_timedwait d"] go [of "d \<or> ys = []"]
    by (auto simp: executor_turn_def wait_at_def unlock_def Let_def cong del: if_weak_cong)
qed


lemma executor_drain_ok:
  assumes inv: "timer_inv b xs ys" and pa: "th_pc (threads b a) = Executor_drain d"
  shows "\<exists>b'. executor_drain a d b = Some b' \<and> timer_inv b' xs (tl ys) \<and>
    calls b' = calls b @ map (\<lambda>t. (t, t_func (timers b t), t_arg (timers b t))) (take 1 ys)"
proof (cases ys)
  case Nil
  note D = timer_invD [OF inv]
  have emp: "list_empty expired_timer (expired_links b) = Some True"
    using list_empty_ok [OF table_inv_ring [OF D(1)]] Nil by simp
  have "\<exists>b'. goto_pc a (Executor_loop d) b = Some b' \<and> timer_inv b' xs ys \<and> calls b' = calls b"
    using goto_ok [OF D(1), of "running_timer b" "holder b" "nthreads b" "idlethreads b" a "Executor_loop d"] D pa
      pcs_holder [OF D(2), of a] by auto
  moreover have "\<exists>b'. thread_cleanup a b = Some b' \<and> timer_inv b' xs ys \<and> calls b' = calls b"
    using thread_cleanup_ok [OF inv, of a] pa
    by (auto simp: thread_cleanup_def wait_at_def goto_pc_def upd_thread_def unlock_def signal_def store_def Let_def
        split: if_splits)
  ultimately show ?thesis using emp Nil by (simp add: executor_drain_def cong del: if_weak_cong)
next
  case (Cons t zs)
  note D = timer_invD [OF inv]
  have ring: "ring (expired_links b) expired_timer (t # zs)" using table_inv_ring [OF D(1)] Cons by simp
  then have t: "t \<noteq> NULL" "t \<notin> set zs" by (auto simp: ring_def)
  from list_delete_ok [of "expired_links b" expired_timer "[]" t zs] ring obtain L where
    L: "list_delete t (expired_links b) = Some L" "ring L expired_timer zs" by auto
  have pend: "bit (t_flags (timers b t)) 2" using table_inv_pending [OF D(1)] Cons by simp
  then have exec: "\<not> bit (t_flags (timers b t)) 3" using D(3) unfolding run_inv_def by blast
  let ?ts = "(timers b)(t := (timers b t)\<lparr>t_flags := t_flags (timers b t) AND NOT TMR_F_PENDING\<rparr>)"
  let ?b = "b\<lparr>expired_links := L, timers := ?ts\<rparr>"
  have wf: "rb_wf (timer_comparator ?ts) (b_table b) xs" by (rule rb_wf_timers [OF table_inv_wf [OF D(1)]]) simp
  have ids: "(\<lambda>u. t_timerid (?ts u)) = (\<lambda>u. t_timerid (timers b u))" by auto
  have T: "table_inv ?b xs zs"
    using D(1) L(2) Cons t(2) wf ids by (simp add: table_inv_def flag_simps)
  have R: "run_inv (threads b) ?ts (running_timer b)"
    by (rule run_inv_timers [OF D(3)]) (use exec in \<open>auto simp: flag_simps\<close>)
  have "executor_drain a d b = timer_execute t a (Executor_run t d) ?b"
    using list_empty_ok [OF ring] list_first_entry_ok [OF ring] L(1) pend t(1)
    by (simp add: executor_drain_def flag_simps clear_flags_def upd_timer_def mem_simps)
  with timer_execute_ok [OF T, of a t "Executor_run t d"] R D(2) pa t exec Cons show ?thesis
    by (auto simp: flag_simps)
qed

lemma executor_wake_ok:
  assumes inv: "timer_inv b xs ys" and pa: "pc_idle (th_pc (threads b a))" and h: "holder b = NULL"
  shows "\<exists>b'. executor_wake a d b = Some b' \<and> timer_inv b' xs ys"
proof -
  note D = timer_invD [OF inv]
  have p: "pc_timer (th_pc (threads b a)) = None" "th_pc (threads b a) \<noteq> Gone" "\<And>t. th_pc (threads b a) \<noteq> Inspector_timedwait t"
    using pa by (cases "th_pc (threads b a)"; simp)+
  let ?b = "b\<lparr>idlethreads := idlethreads b - 1, holder := a\<rparr>"
  have T: "table_inv ?b xs ys" by (rule table_inv_frame [OF D(1)]) simp_all
  show ?thesis
    using goto_ok [OF T, of "running_timer b" NULL "nthreads b" "idlethreads b" a "Executor_drain d"] D p pa h
    by (auto simp: executor_wake_def run_at_def)
qed


section \<open>The inspector\<close>

text \<open>Queueing an expired timer for the executors.\<close>

lemma timer_thread_execute_ok:
  assumes inv: "timer_inv b xs ys" and t: "t \<noteq> NULL" "t \<noteq> expired_timer" "\<not> bit (t_flags (timers b t)) 3" "\<not> bit (t_flags (timers b t)) 2"
    and sp: "spawn_ok sp b"
  shows "\<exists>r b'. timer_thread_execute t sp b = Some (r, b') \<and> timer_inv b' xs (ys @ [t]) \<and> calls b' = calls b \<and>
    (\<forall>u. expire (timers b' u) = expire (timers b u)) \<and> b_state b' = b_state b \<and>
    (\<forall>a. th_pc (threads b a) \<noteq> Gone \<longrightarrow> threads b' a = threads b a)"
proof -
  note D = timer_invD [OF inv]
  have "t \<notin> set ys" using t(4) table_inv_pending [OF D(1)] by simp
  with list_add_tail_ok [OF table_inv_ring [OF D(1)], of t] t obtain L where
    L: "list_add_tail t expired_timer (expired_links b) = Some L" "ring L expired_timer (ys @ [t])" by auto
  let ?ts = "(timers b)(t := (timers b t)\<lparr>t_flags := t_flags (timers b t) OR TMR_F_PENDING\<rparr>)"
  let ?b = "b\<lparr>timers := ?ts, expired_links := L\<rparr>"
  have wf: "rb_wf (timer_comparator ?ts) (b_table b) xs" by (rule rb_wf_timers [OF table_inv_wf [OF D(1)]]) simp
  have ids: "(\<lambda>u. t_timerid (?ts u)) = (\<lambda>u. t_timerid (timers b u))" by auto
  have T: "table_inv ?b xs (ys @ [t])"
    using D(1) L(2) wf ids by (simp add: table_inv_def flag_simps)
  have R: "run_inv (threads b) ?ts (running_timer b)"
    by (rule run_inv_timers [OF D(3)]) (use t in \<open>auto simp: flag_simps\<close>)
  have inv': "timer_inv (?b\<lparr>wakeups := w\<rparr>) xs (ys @ [t])" for w
    using table_inv_frame [OF T, of "?b\<lparr>wakeups := w\<rparr>"] R D(2) by (simp add: timer_inv_def)
  have start: "timer_inv (?b\<lparr>threads := (threads b)(p := v), nthreads := nthreads b + 1\<rparr>) xs (ys @ [t])"
    if "p \<noteq> NULL" "th_pc (threads b p) = Gone" "th_pc v = Executor_start" for p v
  proof -
    have "run_inv ((threads b)(p := v)) ?ts (running_timer b)"
      by (rule run_inv_set [OF R]) (use that in simp_all)
    with table_inv_frame [OF T, of "?b\<lparr>threads := (threads b)(p := v), nthreads := nthreads b + 1\<rparr>"]
      pcs_new [OF D(2) that(1,2)] that(3) show ?thesis by (simp add: timer_inv_def pc_upd)
  qed
  obtain p err pid where "sp = (p, err, pid)" by (cases sp)
  then show ?thesis
    using t(1) L(1) inv' [of "wakeups b"] inv' [of "wakeups b @ [Exec_cond]"] sp
      start [of p "\<lparr>tid = pid, th_timer = NULL, th_pc = Executor_start\<rparr>"]
    by (auto simp: timer_thread_execute_def timer_thread_create_def set_flags_def upd_timer_def upd_thread_def mem_simps
        signal_def spawn_ok_def Let_def cong del: if_weak_cong)
qed


text \<open>The table part of a change carries over to the whole state when no thread moves.\<close>

lemma client_frame:
  assumes "timer_inv b xs ys" and "table_inv b' xs' ys"
    and "threads b' = threads b" "holder b' = holder b" "nthreads b' = nthreads b" "idlethreads b' = idlethreads b"
    and "\<And>t. bit (t_flags (timers b' t)) 3 = bit (t_flags (timers b t)) 3"
    and "\<And>t. bit (t_flags (timers b t)) 3 \<Longrightarrow> t_thread (timers b' t) = t_thread (timers b t)"
    and "running_timer b' = NULL \<or> running_timer b' = running_timer b \<and> running_timer b' \<in> set xs'"
  shows "timer_inv b' xs' ys"
proof -
  note D = timer_invD [OF assms(1)]
  have p: "bit (t_flags (timers b' t)) 2 = bit (t_flags (timers b t)) 2" for t
    using table_inv_pending [OF D(1)] table_inv_pending [OF assms(2)] by simp
  have m: "bit (t_flags (timers b' t)) 1 \<longleftrightarrow> t \<in> set xs'" for t
    using table_inv_mounted [OF assms(2)] by simp
  have "run_inv (threads b) (timers b') (running_timer b')"
    using D(3) assms(7,8,9) p m unfolding run_inv_def by auto
  with assms D(2) show ?thesis by (simp add: timer_inv_def)
qed

abbreviation cyclic :: "timer_base \<Rightarrow> addr \<Rightarrow> bool" where
  "cyclic b t \<equiv> t_option (timers b t) AND TMR_OPT_CYCLE \<noteq> 0"

abbreviation threaded :: "timer_base \<Rightarrow> addr \<Rightarrow> bool" where
  "threaded b t \<equiv> t_option (timers b t) AND TMR_OPT_THREAD \<noteq> 0"

abbreviation busy :: "timer_base \<Rightarrow> addr \<Rightarrow> bool" where
  "busy b t \<equiv> has_flag t (TMR_F_PENDING OR TMR_F_EXECUTING) b"

text \<open>Taking a due timer off the table and putting a cyclic one back.\<close>

lemma rearm_ok:
  assumes inv: "timer_inv b xs ys" and t: "t \<in> set xs" and ids: "b_timerid b < 2 ^ 31 - 1" and r: "running_timer b = NULL"
  shows "\<exists>b1 xs'. do {
       b \<leftarrow> timer_remove t b;
       if cyclic b t then timer_insert t b else Some b } = Some b1 \<and>
     timer_inv b1 xs' ys \<and> set xs' = (if cyclic b t then set xs else set xs - {t}) \<and>
     expire (timers b1 t) = (if cyclic b t then timespec_add (expire (timers b t)) (interval (timers b t)) else expire (timers b t)) \<and>
     (\<forall>u. u \<noteq> t \<longrightarrow> timers b1 u = timers b u) \<and> busy b1 t = busy b t \<and> threaded b1 t = threaded b t \<and>
     t_func (timers b1 t) = t_func (timers b t) \<and> t_arg (timers b1 t) = t_arg (timers b t) \<and>
     threads b1 = threads b \<and> calls b1 = calls b \<and> running_timer b1 = NULL \<and> b_state b1 = b_state b"
proof -
  note D = timer_invD [OF inv]
  have d: "distinct xs" using rb.wf_list [OF table_inv_wf [OF D(1)]] by blast
  let ?ts = "(timers b)(t := (timers b t)\<lparr>t_flags := t_flags (timers b t) AND NOT TMR_F_MOUNTED\<rparr>)"
  from timer_remove_ok [OF D(1) t] obtain T where
    T: "timer_remove t b = Some (b\<lparr>b_table := T, timers := ?ts\<rparr>)"
      "table_inv (b\<lparr>b_table := T, timers := ?ts\<rparr>) (remove1 t xs) ys" by blast
  let ?b = "b\<lparr>b_table := T, timers := ?ts\<rparr>"
  have i1: "timer_inv ?b (remove1 t xs) ys"
    by (rule client_frame [OF inv T(2)]) (use r in \<open>auto simp: flag_simps\<close>)
  show ?thesis
  proof (cases "cyclic b t")
    case False
    with T(1) i1 d r show ?thesis
      by (intro exI [of _ ?b] exI [of _ "remove1 t xs"]) (simp add: flag_simps)
  next
    case True
    have "t \<notin> set (remove1 t xs)" using d by simp
    from timer_insert_ok [OF T(2) this table_inv_member [OF D(1) t]] ids obtain T2 where
      T2: "timer_insert t ?b = Some (?b\<lparr>timers := (timers ?b)(t := armed ?b t), b_timerid := b_timerid ?b + 1, b_table := T2\<rparr>)"
        "table_inv (?b\<lparr>timers := (timers ?b)(t := armed ?b t), b_timerid := b_timerid ?b + 1, b_table := T2\<rparr>)
          (cmp_insert (timer_comparator ((timers ?b)(t := armed ?b t))) t (remove1 t xs)) ys" by auto
    let ?b2 = "?b\<lparr>timers := (timers ?b)(t := armed ?b t), b_timerid := b_timerid ?b + 1, b_table := T2\<rparr>"
    have "timer_inv ?b2 (cmp_insert (timer_comparator ((timers ?b)(t := armed ?b t))) t (remove1 t xs)) ys"
      by (rule client_frame [OF i1 T2(2)]) (use r in \<open>auto simp: flag_simps\<close>)
    with True T(1) T2(1) d t r show ?thesis
      by (intro exI [of _ ?b2] exI [of _ "cmp_insert (timer_comparator ((timers ?b)(t := armed ?b t))) t (remove1 t xs)"])
        (auto simp: flag_simps)
  qed
qed


definition fired :: "timer_base \<Rightarrow> addr \<Rightarrow> addr list \<Rightarrow> addr list \<Rightarrow> timer_base \<Rightarrow> bool" where
  "fired b t xs ys b' \<longleftrightarrow> (\<exists>xs'. timer_inv b' xs' (if busy b t \<or> \<not> threaded b t then ys else ys @ [t]) \<and>
     set xs' = (if cyclic b t then set xs else set xs - {t}) \<and>
     expire (timers b' t) = (if cyclic b t then timespec_add (expire (timers b t)) (interval (timers b t)) else expire (timers b t)) \<and>
     calls b' = calls b @ (if busy b t \<or> threaded b t then [] else [(t, t_func (timers b t), t_arg (timers b t))]) \<and>
     b_state b' = TMR_BASE_SHOOTING)"

lemma fired_inv: "fired b t xs ys b' \<Longrightarrow> \<exists>xs ys. timer_inv b' xs ys"
  unfolding fired_def by blast

lemma inspector_fire_ok:
  assumes inv: "timer_inv b xs ys" and pa: "th_pc (threads b a) = Inspector_loop" and t: "t \<in> set xs"
    and ids: "b_timerid b < 2 ^ 31 - 1" and sp: "spawn_ok sp b"
  shows "\<exists>b'. inspector_fire a t sp b = Some b' \<and> fired b t xs ys b'"
proof -
  note D = timer_invD [OF inv]
  have r: "running_timer b = NULL" by (rule inspector_not_timing [OF D(3,2), of a]) (use pa in simp_all)
  have tn: "t \<noteq> NULL" "t \<noteq> expired_timer" using table_inv_member [OF D(1) t] by blast+
  let ?b0 = "b\<lparr>b_state := TMR_BASE_SHOOTING\<rparr>"
  have "timer_inv ?b0 xs ys" using inv table_inv_frame [OF D(1), of ?b0] by (simp add: timer_inv_def)
  from rearm_ok [OF this t] ids r obtain b1 xs' where
    b1: "do { b \<leftarrow> timer_remove t ?b0; if cyclic b t then timer_insert t b else Some b } = Some b1"
      "timer_inv b1 xs' ys" "set xs' = (if cyclic b t then set xs else set xs - {t})"
      "expire (timers b1 t) = (if cyclic b t then timespec_add (expire (timers b t)) (interval (timers b t)) else expire (timers b t))"
      "busy b1 t = busy b t" "threaded b1 t = threaded b t" "t_func (timers b1 t) = t_func (timers b t)"
      "t_arg (timers b1 t) = t_arg (timers b t)" "threads b1 = threads b" "calls b1 = calls b" "b_state b1 = TMR_BASE_SHOOTING"
    by (auto simp: has_flag_def)
  note D1 = timer_invD [OF b1(2)]
  have fire: "inspector_fire a t sp b = (if busy b1 t then goto_pc a Inspector_loop b1
     else if threaded b1 t then do { (_, b) \<leftarrow> timer_thread_execute t sp b1; goto_pc a Inspector_loop b }
     else timer_execute t a (Inspector_run t) b1)"
    using b1(1) unfolding inspector_fire_def Let_def by (simp add: bind_assoc [symmetric])
  have loop: "goto_pc a Inspector_loop b2 = Some b2" if "timer_inv b2 us vs" "threads b2 a = threads b a" for b2 us vs
  proof -
    have "a \<noteq> NULL" using pcs_holder [OF D(2)] pa by simp
    moreover have "(threads b2)(a := (threads b2 a)\<lparr>th_pc := Inspector_loop\<rparr>) = threads b2" using that(2) pa by auto
    ultimately show ?thesis by (simp add: goto_pc_def upd_thread_def mem_simps)
  qed
  consider (busy) "busy b1 t" | (thr) "\<not> busy b1 t" "threaded b1 t" | (own) "\<not> busy b1 t" "\<not> threaded b1 t" by blast
  then show ?thesis
  proof cases
    case busy
    with fire loop [OF b1(2)] b1 show ?thesis by (auto simp: fired_def)
  next
    case thr
    have "\<not> bit (t_flags (timers b1 t)) 3" "\<not> bit (t_flags (timers b1 t)) 2" using thr(1) by (simp_all add: flag_simps)
    moreover have "spawn_ok sp b1" using sp b1(9) by (simp add: spawn_ok_def)
    ultimately obtain e b2 where b2: "timer_thread_execute t sp b1 = Some (e, b2)" "timer_inv b2 xs' (ys @ [t])" "calls b2 = calls b1"
      "\<forall>u. expire (timers b2 u) = expire (timers b1 u)" "threads b2 a = threads b a" "b_state b2 = b_state b1"
      using timer_thread_execute_ok [OF b1(2) tn] b1(9) pa by fastforce
    with thr fire loop [OF b2(2)] b1 show ?thesis by (auto simp: fired_def)
  next
    case own
    have "\<not> bit (t_flags (timers b1 t)) 3" "\<not> bit (t_flags (timers b1 t)) 2" using own(1) by (simp_all add: flag_simps)
    with timer_execute_ok [OF D1(1,3,2), of a t "Inspector_run t"] b1(9) pa tn obtain b2 where
      b2: "timer_execute t a (Inspector_run t) b1 = Some b2" "timer_inv b2 xs' ys"
      "calls b2 = calls b1 @ [(t, t_func (timers b1 t), t_arg (timers b1 t))]" "\<forall>u. expire (timers b2 u) = expire (timers b1 u)"
      "b_state b2 = b_state b1" by auto
    with own fire b1 show ?thesis by (auto simp: fired_def)
  qed
qed


text \<open>
  One turn of the inspector: it leaves on destruction, waits without limit on an empty table, waits for the
  earliest timer when that is not due, and fires the earliest timer when it is.
\<close>

lemma inspector_turn_ok:
  assumes inv: "timer_inv b xs ys" and pa: "th_pc (threads b a) = Inspector_loop"
    and ids: "b_timerid b < 2 ^ 31 - 1" and sp: "spawn_ok sp b"
  shows "\<exists>b'. inspector_turn a now sp b = Some b' \<and>
    (if b_state b = TMR_BASE_DESTROY \<or> xs = [] then timer_inv b' xs ys
     else if timespec_cmp now (expire (timers b (hd xs))) (<)
       then timer_inv b' xs ys \<and> b' = b\<lparr>b_state := TMR_BASE_TIMING, running_timer := hd xs, holder := NULL,
         threads := (threads b)(a := (threads b a)\<lparr>th_pc := Inspector_timedwait (hd xs)\<rparr>)\<rparr>
     else fired b (hd xs) xs ys b')"
proof (cases "b_state b = TMR_BASE_DESTROY")
  case True
  with thread_cleanup_ok [OF inv, of a] pa show ?thesis by (simp add: inspector_turn_def)
next
  case False
  note D = timer_invD [OF inv]
  have h: "holder b = a" "a \<noteq> NULL" using pcs_holder [OF D(2)] pa by auto
  have r: "running_timer b = NULL" by (rule inspector_not_timing [OF D(3,2), of a]) (use pa in simp_all)
  have first: "rb_first (b_table b) = Some (first_or_NULL xs)" by (rule rb_first_ok [OF table_inv_wf [OF D(1)]])
  show ?thesis
  proof (cases xs)
    case Nil
    let ?b = "b\<lparr>b_state := TMR_BASE_WAITING, holder := NULL\<rparr>"
    have T: "table_inv ?b xs ys" by (rule table_inv_frame [OF D(1)]) simp_all
    show ?thesis
      using goto_ok [OF T, of "running_timer b" "holder b" "nthreads b" "idlethreads b" a Inspector_wait] D pa h r first False Nil
      by (auto simp: inspector_turn_def wait_at_def unlock_def)
  next
    case (Cons t zs)
    have tn: "t \<noteq> NULL" using table_inv_member [OF D(1)] Cons by simp
    let ?b = "b\<lparr>b_state := TMR_BASE_TIMING, running_timer := t, holder := NULL\<rparr>"
    have T: "table_inv ?b xs ys" by (rule table_inv_frame [OF D(1)]) simp_all
    have "\<exists>b'. goto_pc a (Inspector_timedwait t) ?b = Some b' \<and> timer_inv b' xs ys \<and>
      b' = ?b\<lparr>threads := (threads b)(a := (threads b a)\<lparr>th_pc := Inspector_timedwait t\<rparr>)\<rparr>"
      using goto_ok [OF T, of "running_timer b" "holder b" "nthreads b" "idlethreads b" a "Inspector_timedwait t"] D pa h r Cons
      by auto
    then show ?thesis using inspector_fire_ok [OF inv pa _ ids sp, of t] first False Cons tn
      by (simp add: inspector_turn_def wait_at_def unlock_def cong del: if_weak_cong)
  qed
qed

lemma inspector_wake_ok:
  assumes inv: "timer_inv b xs ys" and pa: "th_pc (threads b a) = Inspector_timedwait t" and h: "holder b = NULL"
    and ids: "b_timerid b < 2 ^ 31 - 1" and sp: "spawn_ok sp b"
  shows "\<exists>b'. inspector_wake a t err sp b = Some b' \<and>
    (if running_timer b = NULL \<or> err \<noteq> ETIMEDOUT then timer_inv b' xs ys \<and> calls b' = calls b
     else fired b t xs ys b')"
proof -
  note D = timer_invD [OF inv]
  have nn: "a \<noteq> NULL" using pcs_thread [OF D(2)] pa by simp
  have run: "running_timer b = t" if "running_timer b \<noteq> NULL"
  proof -
    from that D(3) obtain c where c: "th_pc (threads b c) = Inspector_timedwait (running_timer b)"
      unfolding run_inv_def by blast
    then have "c = a" using D(2) pa unfolding pcs_inv_def by (metis pc_inspects.simps(4))
    with c pa show ?thesis by simp
  qed
  let ?b = "b\<lparr>holder := a, running_timer := NULL\<rparr>"
  let ?b' = "?b\<lparr>threads := (threads b)(a := (threads b a)\<lparr>th_pc := Inspector_loop\<rparr>)\<rparr>"
  have T: "table_inv ?b xs ys" by (rule table_inv_frame [OF D(1)]) simp_all
  have i: "timer_inv ?b' xs ys"
    using goto_ok [OF T, of "running_timer b" NULL "nthreads b" "idlethreads b" a Inspector_loop] D pa h by auto
  have go: "run_at a Inspector_loop b = Some (b\<lparr>holder := a, threads := (threads b)(a := (threads b a)\<lparr>th_pc := Inspector_loop\<rparr>)\<rparr>)"
    using nn by (simp add: run_at_def goto_pc_def upd_thread_def mem_simps)
  have wake: "inspector_wake a t err sp b =
     (if running_timer b = NULL \<or> err \<noteq> ETIMEDOUT then Some ?b' else inspector_fire a t sp ?b')"
  proof -
    have "inspector_fire a t sp (b\<lparr>holder := a, threads := (threads b)(a := (threads b a)\<lparr>th_pc := Inspector_loop\<rparr>),
        running_timer := NULL\<rparr>) = inspector_fire a t sp ?b'"
      by (rule arg_cong) simp
    then show ?thesis unfolding inspector_wake_def go by (cases "running_timer b = NULL") simp_all
  qed
  have sp': "spawn_ok sp ?b'" using sp pa by (auto simp: spawn_ok_def)
  have mem: "running_timer b \<noteq> NULL \<Longrightarrow> t \<in> set xs"
    using run D(3) table_inv_mounted [OF D(1)] unfolding run_inv_def by auto
  have "running_timer b \<noteq> NULL \<Longrightarrow> \<exists>b'. inspector_fire a t sp ?b' = Some b' \<and> fired ?b' t xs ys b'"
    by (rule inspector_fire_ok [OF i _ mem _ sp']) (use ids in simp_all)
  then show ?thesis using wake i by (auto simp: fired_def has_flag_def)
qed


section \<open>The return of a timer's function\<close>

lemma timer_cleanup_ok:
  assumes inv: "timer_inv b xs ys" and pa: "pc_timer (th_pc (threads b a)) = Some t" and h: "holder b = NULL"
    and q: "pc_timer q = None" "pc_holds q" "pc_inspects q \<Longrightarrow> pc_inspects (th_pc (threads b a))"
  shows "\<exists>b'. do { b \<leftarrow> timer_cleanup a b; run_at a q b } = Some b' \<and> timer_inv b' xs ys \<and> calls b' = calls b"
proof -
  note D = timer_invD [OF inv]
  have p: "th_pc (threads b a) \<noteq> Gone" "\<not> pc_idle (th_pc (threads b a))" using pa by (cases "th_pc (threads b a)"; simp)+
  have pq: "q \<noteq> Gone" "\<not> pc_idle q" using q(2) by (cases q; simp)+
  have nn: "a \<noteq> NULL" using pcs_thread [OF D(2) p(1)] .
  have t: "th_timer (threads b a) = t" "t \<noteq> NULL" using D(3) pa unfolding run_inv_def by blast+
  define w where "w = has_flag t TMR_F_WAITING b"
  define d where "d = has_flag t TMR_F_DETACH b"
  define f1 where "f1 = t_flags (timers b t) AND NOT TMR_F_EXECUTING"
  define f2 where "f2 = (if w then f1 AND NOT TMR_F_WAITING else f1)"
  define f3 where "f3 = (if d then f2 AND NOT TMR_F_ACTIVE else f2)"
  let ?r = "(timers b t)\<lparr>t_flags := f3, t_cond := t_cond (timers b t) \<and> \<not> d\<rparr>"
  let ?b = "b\<lparr>timers := (timers b)(t := ?r), wakeups := wakeups b @ (if w then [Timer_cond t] else [])\<rparr>"
  have run: "timer_cleanup a b = Some ?b"
    using nn t unfolding timer_cleanup_def w_def d_def f3_def f2_def f1_def
    by (auto simp: mem_simps clear_flags_def upd_timer_def flag_simps signal_def)
  have bits: "bit f3 3 = False" "bit f3 2 = bit (t_flags (timers b t)) 2" "bit f3 (Suc 0) = bit (t_flags (timers b t)) (Suc 0)"
    by (auto simp: f3_def f2_def f1_def flag_simps)
  let ?b' = "?b\<lparr>holder := a, threads := (threads b)(a := (threads b a)\<lparr>th_pc := q\<rparr>)\<rparr>"
  have "table_inv ?b' xs ys" by (rule table_inv_frame [OF D(1)]) (auto simp: bits)
  moreover have "run_inv ((threads b)(a := (threads b a)\<lparr>th_pc := q\<rparr>)) ((timers b)(t := ?r)) (running_timer b)"
    by (rule run_inv_finish [OF D(3) pa q(1)]) (auto simp: bits)
  moreover have "pcs_inv ((\<lambda>x. th_pc (threads b x))(a := q)) a (nthreads b) (idlethreads b)"
    by (rule pcs_upd [OF D(2) nn]) (use h p pq q in auto)
  ultimately have "timer_inv ?b' xs ys" by (simp add: timer_inv_def pc_upd)
  with run nn show ?thesis by (simp add: run_at_def goto_pc_def upd_thread_def mem_simps)
qed

section \<open>The client interface\<close>

lemma timer_destroy_ok: "timer_inv b xs ys \<Longrightarrow> timer_inv (snd (timer_destroy b)) xs ys"
  by (rule client_frame) (auto simp: timer_destroy_def Let_def signal_def timer_inv_def run_inv_def
      elim!: table_inv_frame dest: table_inv_mounted)


text \<open>Writing the fields of an unmounted timer and mounting it.\<close>

lemma arm_ok:
  assumes inv: "table_inv b xs ys" and t: "t \<notin> set xs" "t \<noteq> NULL" "t \<noteq> expired_timer" and ids: "b_timerid b < 2 ^ 31 - 1"
    and flags: "\<not> bit (t_flags v) (Suc 0)" "bit (t_flags v) 2 = bit (t_flags (timers b t)) 2"
  defines "u \<equiv> v\<lparr>expire := timespec_add (expire v) (interval v), t_timerid := b_timerid b, t_flags := t_flags v OR TMR_F_MOUNTED\<rparr>"
  shows "\<exists>T. timer_insert t (b\<lparr>timers := (timers b)(t := v)\<rparr>) =
      Some (b\<lparr>timers := (timers b)(t := u), b_timerid := b_timerid b + 1, b_table := T\<rparr>) \<and>
    table_inv (b\<lparr>timers := (timers b)(t := u), b_timerid := b_timerid b + 1, b_table := T\<rparr>)
      (cmp_insert (timer_comparator ((timers b)(t := u))) t xs) ys"
proof -
  let ?b = "b\<lparr>timers := (timers b)(t := v)\<rparr>"
  have "table_inv ?b xs ys"
    by (rule table_inv_frame [OF inv]) (use t flags table_inv_mounted [OF inv] in auto)
  from timer_insert_ok [OF this t] ids show ?thesis by (simp add: u_def)
qed

text \<open>What arming a timer leaves alone.\<close>

definition same_threads :: "timer_base \<Rightarrow> timer_base \<Rightarrow> bool" where
  "same_threads b b' \<longleftrightarrow> threads b' = threads b \<and> holder b' = holder b \<and> nthreads b' = nthreads b \<and> b_state b' = b_state b \<and>
     running_timer b' = running_timer b \<and> b_timerid b' = b_timerid b + 1 \<and> calls b' = calls b"

lemma timer_add_ok:
  assumes inv: "timer_inv b xs ys" and c: "client_ok t b" "\<not> busy b t" and ids: "b_timerid b < 2 ^ 31 - 1"
  shows "\<exists>r b' xs'. timer_add t opts msec func arg now b = Some (r, b') \<and> timer_inv b' xs' ys \<and>
    (if working_base b \<and> \<not> has_flag t TMR_F_ACTIVE b \<and> t \<notin> set xs then
       r = 0 \<and> xs' = cmp_insert (timer_comparator (timers b')) t xs \<and>
       expire (timers b' t) = timespec_add now (timespec_init msec) \<and>
       t_option (timers b' t) = opts \<and> t_func (timers b' t) = func \<and> t_arg (timers b' t) = arg \<and>
       has_flag t TMR_F_ACTIVE b' \<and> (\<forall>u. u \<noteq> t \<longrightarrow> timers b' u = timers b u) \<and> same_threads b b' \<and>
       (b_state b = TMR_BASE_WAITING \<or> running_timer b \<noteq> NULL \<and>
         timespec_cmp (expire (timers b' t)) (expire (timers b (running_timer b))) (<) \<longrightarrow> last (wakeups b') = Work_cond)
     else r = - 1 \<and> b' = b)"
proof (cases "working_base b \<and> \<not> has_flag t TMR_F_ACTIVE b \<and> t \<notin> set xs")
  case False
  note D = timer_invD [OF inv]
  have "timer_add t opts msec func arg now b = Some (- 1, b)"
    using False timer_search_ok [OF D(1), of t] table_inv_mounted [OF D(1), of t]
    by (auto simp: timer_add_def flag_simps)
  with False inv show ?thesis by auto
next
  case True
  note D = timer_invD [OF inv]
  have t: "t \<notin> set xs" "t \<noteq> NULL" "t \<noteq> expired_timer" using c(1) True by (auto simp: client_ok_def)
  have nb: "\<not> bit (t_flags (timers b t)) 2" "\<not> bit (t_flags (timers b t)) 3" using c(2) by (simp_all add: flag_simps)
  have run: "running_timer b \<noteq> t" "running_timer b \<noteq> NULL \<Longrightarrow> running_timer b \<in> set xs"
    using D(3) t table_inv_mounted [OF D(1)] unfolding run_inv_def by auto
  let ?v = "(timers b t)\<lparr>t_option := opts, t_func := func, t_arg := arg, t_flags := 0, interval := timespec_init msec, expire := now\<rparr>"
  let ?u = "?v\<lparr>expire := timespec_add now (timespec_init msec), t_timerid := b_timerid b, t_flags := 0 OR TMR_F_MOUNTED\<rparr>"
  let ?w = "?u\<lparr>t_flags := (0 OR TMR_F_MOUNTED) OR TMR_F_ACTIVE, t_base := current_base, t_cond := True\<rparr>"
  from arm_ok [OF D(1) t ids, of ?v] nb obtain T where
    T: "timer_insert t (b\<lparr>timers := (timers b)(t := ?v)\<rparr>) = Some (b\<lparr>timers := (timers b)(t := ?u), b_timerid := b_timerid b + 1, b_table := T\<rparr>)"
      "table_inv (b\<lparr>timers := (timers b)(t := ?u), b_timerid := b_timerid b + 1, b_table := T\<rparr>)
        (cmp_insert (timer_comparator ((timers b)(t := ?u))) t xs) ys" by auto
  have cmp: "timer_comparator ((timers b)(t := ?u)) = timer_comparator ((timers b)(t := ?w))"
    by (intro ext) (simp add: timer_comparator_def)
  let ?c = "b_state b = TMR_BASE_WAITING \<or> running_timer b \<noteq> NULL \<and>
    timespec_cmp (timespec_add now (timespec_init msec)) (expire (timers b (running_timer b))) (<)"
  let ?b = "b\<lparr>timers := (timers b)(t := ?w), b_timerid := b_timerid b + 1, b_table := T,
    wakeups := wakeups b @ (if ?c then [Work_cond] else [])\<rparr>"
  have "table_inv ?b (cmp_insert (timer_comparator ((timers b)(t := ?w))) t xs) ys"
    unfolding cmp [symmetric] by (rule table_inv_frame [OF T(2)]) (auto simp: flag_simps)
  then have "timer_inv ?b (cmp_insert (timer_comparator (timers ?b)) t xs) ys"
    by (intro client_frame [OF inv]) (use nb run in \<open>auto simp: flag_simps\<close>)
  moreover have "timer_add t opts msec func arg now b = Some (0, ?b)"
    using True T(1) t run(1) table_inv_mounted [OF D(1), of t]
    by (auto simp: timer_add_def flag_simps upd_timer_def set_flags_def mem_simps signal_def)
  ultimately show ?thesis using True
    by (intro exI [of _ 0] exI [of _ ?b] exI [of _ "cmp_insert (timer_comparator (timers ?b)) t xs"])
      (simp add: flag_simps run same_threads_def cong del: if_weak_cong)
qed


text \<open>Unmounting a timer that may be mounted, as \<open>timer_del\<close> and \<open>timer_mod\<close> do.\<close>

lemma unmount_ok:
  assumes inv: "table_inv b xs ys"
  shows "\<exists>T f. (if has_flag t TMR_F_MOUNTED b then timer_remove t b else Some b) =
      Some (b\<lparr>b_table := T, timers := (timers b)(t := (timers b t)\<lparr>t_flags := f\<rparr>)\<rparr>) \<and>
    table_inv (b\<lparr>b_table := T, timers := (timers b)(t := (timers b t)\<lparr>t_flags := f\<rparr>)\<rparr>) (remove1 t xs) ys \<and>
    (\<forall>k. bit f k \<longleftrightarrow> bit (t_flags (timers b t)) k \<and> k \<noteq> Suc 0)"
proof (cases "t \<in> set xs")
  case True
  from timer_remove_ok [OF inv this] obtain T where
    T: "timer_remove t b = Some (b\<lparr>b_table := T, timers := (timers b)
        (t := (timers b t)\<lparr>t_flags := t_flags (timers b t) AND NOT TMR_F_MOUNTED\<rparr>)\<rparr>)"
      "table_inv (b\<lparr>b_table := T, timers := (timers b)
        (t := (timers b t)\<lparr>t_flags := t_flags (timers b t) AND NOT TMR_F_MOUNTED\<rparr>)\<rparr>) (remove1 t xs) ys" by blast
  show ?thesis
    by (intro exI [of _ T] exI [of _ "t_flags (timers b t) AND NOT TMR_F_MOUNTED"])
      (use T True table_inv_mounted [OF inv, of t] in \<open>simp add: flag_simps\<close>)
next
  case False
  have "(timers b)(t := (timers b t)\<lparr>t_flags := t_flags (timers b t)\<rparr>) = timers b" by auto
  moreover have "\<not> bit (t_flags (timers b t)) (Suc 0)" using False table_inv_mounted [OF inv] by simp
  ultimately show ?thesis using False inv
    by (intro exI [of _ "b_table b"] exI [of _ "t_flags (timers b t)"]) (auto simp: flag_simps remove1_idem)
qed

text \<open>The search of a mounted timer in \<open>timer_del\<close> and \<open>timer_mod\<close> always finds it.\<close>

lemma known_ok:
  assumes "table_inv b xs ys"
  shows "(if has_flag t TMR_F_MOUNTED b then timer_search t b else Some True) = Some True"
  using timer_search_ok [OF assms, of t] table_inv_mounted [OF assms, of t] by (simp add: flag_simps)

lemma timer_mod_ok:
  assumes inv: "timer_inv b xs ys" and c: "client_ok t b" and ids: "b_timerid b < 2 ^ 31 - 1"
  shows "\<exists>r b' xs'. timer_mod t msec now b = Some (r, b') \<and> timer_inv b' xs' ys \<and>
    (if working_base b \<and> has_flag t TMR_F_ACTIVE b then
       r = 0 \<and> xs' = cmp_insert (timer_comparator (timers b')) t (remove1 t xs) \<and>
       expire (timers b' t) = timespec_add now (timespec_init msec) \<and>
       (\<forall>u. u \<noteq> t \<longrightarrow> timers b' u = timers b u) \<and> same_threads b b' \<and>
       t_option (timers b' t) = t_option (timers b t) \<and> busy b' t = busy b t \<and>
       wakeups b' = wakeups b @ (if running_timer b = t \<or> running_timer b \<noteq> NULL \<and>
         timespec_cmp (expire (timers b' t)) (expire (timers b (running_timer b))) (<) then [Work_cond] else [])
     else r = - 1 \<and> b' = b)"
proof (cases "working_base b \<and> has_flag t TMR_F_ACTIVE b")
  case False
  then have "timer_mod t msec now b = Some (- 1, b)" by (auto simp: timer_mod_def)
  with False inv show ?thesis by auto
next
  case True
  note D = timer_invD [OF inv]
  have t: "t \<noteq> NULL" "t \<noteq> expired_timer" using c by (auto simp: client_ok_def)
  have d: "distinct xs" using rb.wf_list [OF table_inv_wf [OF D(1)]] by blast
  have run: "running_timer b \<noteq> NULL \<Longrightarrow> running_timer b \<in> set xs"
    using D(3) table_inv_mounted [OF D(1)] unfolding run_inv_def by auto
  from unmount_ok [OF D(1)] obtain T f where
    T: "(if has_flag t TMR_F_MOUNTED b then timer_remove t b else Some b) =
        Some (b\<lparr>b_table := T, timers := (timers b)(t := (timers b t)\<lparr>t_flags := f\<rparr>)\<rparr>)"
      "table_inv (b\<lparr>b_table := T, timers := (timers b)(t := (timers b t)\<lparr>t_flags := f\<rparr>)\<rparr>) (remove1 t xs) ys"
      "\<forall>k. bit f k \<longleftrightarrow> bit (t_flags (timers b t)) k \<and> k \<noteq> Suc 0" by blast
  let ?v = "(timers b t)\<lparr>t_flags := f, interval := timespec_init msec, expire := now\<rparr>"
  let ?u = "?v\<lparr>expire := timespec_add now (timespec_init msec), t_timerid := b_timerid b, t_flags := f OR TMR_F_MOUNTED\<rparr>"
  let ?b1 = "b\<lparr>b_table := T, timers := (timers b)(t := (timers b t)\<lparr>t_flags := f\<rparr>)\<rparr>"
  let ?xs = "cmp_insert (timer_comparator ((timers b)(t := ?u))) t (remove1 t xs)"
  from arm_ok [OF T(2) _ t, of ?v] ids d T(3) obtain T2 where
    T2: "timer_insert t (b\<lparr>b_table := T, timers := (timers b)(t := ?v)\<rparr>) =
        Some (b\<lparr>timers := (timers b)(t := ?u), b_timerid := b_timerid b + 1, b_table := T2\<rparr>)"
      "table_inv (b\<lparr>timers := (timers b)(t := ?u), b_timerid := b_timerid b + 1, b_table := T2\<rparr>) ?xs ys" by auto
  let ?c = "running_timer b = t \<or> running_timer b \<noteq> NULL \<and>
    timespec_cmp (timespec_add now (timespec_init msec)) (expire (timers b (running_timer b))) (<)"
  let ?b = "b\<lparr>timers := (timers b)(t := ?u), b_timerid := b_timerid b + 1, b_table := T2,
    wakeups := wakeups b @ (if ?c then [Work_cond] else [])\<rparr>"
  have "table_inv ?b ?xs ys" by (rule table_inv_frame [OF T2(2)]) auto
  then have "timer_inv ?b ?xs ys"
    by (rule client_frame [OF inv]) (use run d T(3) in \<open>auto simp: flag_simps\<close>)
  moreover have "timer_mod t msec now b = Some (0, ?b)"
    using True T2(1) t known_ok [OF D(1), of t]
    by (auto simp: timer_mod_def T(1) upd_timer_def mem_simps signal_def)
  ultimately show ?thesis using True
    by (intro exI [of _ 0] exI [of _ ?b] exI [of _ ?xs]) (auto simp: same_threads_def flag_simps T(3))
qed


lemma flags_frame:
  assumes inv: "timer_inv b xs ys"
    and "bit f (Suc 0) = bit (t_flags (timers b t)) (Suc 0)" "bit f 2 = bit (t_flags (timers b t)) 2" "bit f 3 = bit (t_flags (timers b t)) 3"
  shows "timer_inv (b\<lparr>timers := (timers b)(t := (timers b t)\<lparr>t_flags := f, t_cond := v\<rparr>)\<rparr>) xs ys"
    and "timer_inv (b\<lparr>timers := (timers b)(t := (timers b t)\<lparr>t_flags := f\<rparr>)\<rparr>) xs ys"
proof -
  note D = timer_invD [OF inv]
  show flags: "timer_inv (b\<lparr>timers := (timers b)(t := (timers b t)\<lparr>t_flags := f, t_cond := v\<rparr>)\<rparr>) xs ys" for v
  proof (rule client_frame [OF inv])
    show "table_inv (b\<lparr>timers := (timers b)(t := (timers b t)\<lparr>t_flags := f, t_cond := v\<rparr>)\<rparr>) xs ys"
      by (rule table_inv_frame [OF D(1)]) (use assms(2-4) in auto)
  qed (use assms(2-4) D(3) table_inv_mounted [OF D(1)] in \<open>auto simp: run_inv_def\<close>)
  from flags [of "t_cond (timers b t)"]
  show "timer_inv (b\<lparr>timers := (timers b)(t := (timers b t)\<lparr>t_flags := f\<rparr>)\<rparr>) xs ys" by simp
qed

lemma timer_exit_ok:
  assumes inv: "timer_inv b xs ys" and c: "client_ok t b"
  shows "\<exists>r b'. timer_exit self t b = Some (r, b') \<and> timer_inv b' xs ys \<and> \<not> has_flag t TMR_F_ACTIVE b'"
proof -
  note D = timer_invD [OF inv]
  have t: "t \<noteq> NULL" using c by (auto simp: client_ok_def)
  let ?f = "t_flags (timers b t) AND NOT TMR_F_ACTIVE"
  have thr: "load (threads b) (t_thread (timers b t)) = Some (threads b (t_thread (timers b t)))"
    if "bit (t_flags (timers b t)) 3"
  proof -
    have "pc_timer (th_pc (threads b (t_thread (timers b t)))) = Some t" using that D(3) unfolding run_inv_def by blast
    then have "th_pc (threads b (t_thread (timers b t))) \<noteq> Gone" by auto
    with pcs_thread [OF D(2)] show ?thesis by (simp add: mem_simps)
  qed
  note i = flags_frame(2) [OF inv, of "?f OR TMR_F_DETACH" t] flags_frame(2) [OF inv, of "?f OR TMR_F_WAITING" t]
    flags_frame(1) [OF inv, of ?f t False]
  consider (own) "bit (t_flags (timers b t)) 3" "tid (threads b (t_thread (timers b t))) = self"
    | (wait) "bit (t_flags (timers b t)) 2 \<or> bit (t_flags (timers b t)) 3"
        "\<not> (bit (t_flags (timers b t)) 3 \<and> tid (threads b (t_thread (timers b t))) = self)"
    | (free) "\<not> bit (t_flags (timers b t)) 2" "\<not> bit (t_flags (timers b t)) 3" by blast
  then show ?thesis
  proof cases
    case own
    with i(1) t thr show ?thesis
      by (auto simp: timer_exit_def clear_flags_def set_flags_def upd_timer_def mem_simps flag_simps)
  next
    case wait
    with i(2) t thr show ?thesis
      by (cases "bit (t_flags (timers b t)) 3")
        (auto simp: timer_exit_def clear_flags_def set_flags_def upd_timer_def mem_simps flag_simps)
  next
    case free
    with i(3) t show ?thesis
      by (auto simp: timer_exit_def clear_flags_def set_flags_def upd_timer_def mem_simps flag_simps)
  qed
qed

lemma timer_exit_wake_ok:
  assumes inv: "timer_inv b xs ys" and c: "client_ok t b"
  shows "\<exists>r b'. timer_exit_wake t b = Some (r, b') \<and> timer_inv b' xs ys"
proof -
  have t: "t \<noteq> NULL" using c by (auto simp: client_ok_def)
  from flags_frame(2) [OF inv, of "t_flags (timers b t) OR TMR_F_WAITING" t]
    flags_frame(1) [OF inv, of "t_flags (timers b t)" t False] t
  show ?thesis by (cases "busy b t") (auto simp: timer_exit_wake_def set_flags_def upd_timer_def mem_simps flag_simps)
qed

lemma timer_del_ok:
  assumes inv: "timer_inv b xs ys" and c: "client_ok t b"
  shows "\<exists>r e b' xs'. timer_del self t b = Some (r, e, b') \<and> timer_inv b' xs' ys \<and>
    (if working_base b \<and> has_flag t TMR_F_ACTIVE b then
       r = 0 \<and> xs' = remove1 t xs \<and> \<not> has_flag t TMR_F_ACTIVE b'
     else r = - 1 \<and> e \<and> b' = b)"
proof (cases "working_base b \<and> has_flag t TMR_F_ACTIVE b")
  case False
  then have "timer_del self t b = Some (- 1, True, b)" by (auto simp: timer_del_def)
  with False inv show ?thesis by auto
next
  case True
  note D = timer_invD [OF inv]
  have d: "distinct xs" using rb.wf_list [OF table_inv_wf [OF D(1)]] by blast
  have run: "running_timer b \<noteq> NULL \<Longrightarrow> running_timer b \<in> set xs"
    using D(3) table_inv_mounted [OF D(1)] unfolding run_inv_def by auto
  from unmount_ok [OF D(1)] obtain T f where
    T: "(if has_flag t TMR_F_MOUNTED b then timer_remove t b else Some b) =
        Some (b\<lparr>b_table := T, timers := (timers b)(t := (timers b t)\<lparr>t_flags := f\<rparr>)\<rparr>)"
      "table_inv (b\<lparr>b_table := T, timers := (timers b)(t := (timers b t)\<lparr>t_flags := f\<rparr>)\<rparr>) (remove1 t xs) ys"
      "\<forall>k. bit f k \<longleftrightarrow> bit (t_flags (timers b t)) k \<and> k \<noteq> Suc 0" by blast
  let ?b = "b\<lparr>b_table := T, timers := (timers b)(t := (timers b t)\<lparr>t_flags := f\<rparr>)\<rparr>"
  let ?b1 = "if has_flag t TMR_F_MOUNTED b \<and> running_timer b = t then signal Work_cond (?b\<lparr>running_timer := NULL\<rparr>) else ?b"
  have un: "(if has_flag t TMR_F_MOUNTED b then do {
        b \<leftarrow> timer_remove t b;
        Some (if running_timer b = t then signal Work_cond (b\<lparr>running_timer := NULL\<rparr>) else b)
      } else Some b) = Some ?b1"
    using T(1) by (auto split: if_splits)
  have tab: "table_inv ?b1 (remove1 t xs) ys"
    by (rule table_inv_frame [OF T(2)]) (simp_all add: signal_def)
  have mt: "has_flag t TMR_F_MOUNTED b \<longleftrightarrow> t \<in> set xs" using table_inv_mounted [OF D(1)] by (simp add: flag_simps)
  have i1: "timer_inv ?b1 (remove1 t xs) ys"
    by (rule client_frame [OF inv tab]) (use run mt d T(3) in \<open>auto simp: signal_def flag_simps\<close>)
  have "client_ok t ?b1" using c by (simp add: client_ok_def signal_def)
  from timer_exit_ok [OF i1 this] obtain r b2 where
    b2: "timer_exit self t ?b1 = Some (r, b2)" "timer_inv b2 (remove1 t xs) ys" "\<not> has_flag t TMR_F_ACTIVE b2" by blast
  have "timer_del self t b = Some (0, r, b2)"
    using True known_ok [OF D(1), of t] b2(1) unfolding timer_del_def un by simp
  with True b2 show ?thesis by auto
qed


section \<open>Every event keeps the invariant\<close>

lemma run_at_ok:
  assumes inv: "timer_inv b xs ys" and h: "holder b = NULL"
    and p: "th_pc (threads b a) = Inspector_start \<and> q = Inspector_loop \<or> th_pc (threads b a) = Inspector_wait \<and> q = Inspector_loop \<or>
      th_pc (threads b a) = Executor_start \<and> q = Executor_loop False"
  shows "\<exists>b'. run_at a q b = Some b' \<and> timer_inv b' xs ys"
proof -
  note D = timer_invD [OF inv]
  let ?b = "b\<lparr>holder := a\<rparr>"
  have T: "table_inv ?b xs ys" by (rule table_inv_frame [OF D(1)]) simp_all
  show ?thesis using goto_ok [OF T, of "running_timer b" NULL "nthreads b" "idlethreads b" a q] D h p
    by (auto simp: run_at_def)
qed

definition timer_good :: "timer_base option \<Rightarrow> bool" where
  "timer_good r \<longleftrightarrow> (\<exists>b xs ys. r = Some b \<and> timer_inv b xs ys)"

lemma timer_goodI: "\<exists>b'. r = Some b' \<and> timer_inv b' xs ys \<Longrightarrow> timer_good r"
  unfolding timer_good_def by blast

lemma inspector_turn_good:
  assumes "timer_inv b xs ys" "th_pc (threads b a) = Inspector_loop" "b_timerid b < 2 ^ 31 - 1" "spawn_ok sp b"
  shows "timer_good (inspector_turn a now sp b)"
proof -
  from inspector_turn_ok [OF assms, of now] obtain b' where b': "inspector_turn a now sp b = Some b'"
    "timer_inv b' xs ys \<or> fired b (hd xs) xs ys b'" by (metis (no_types, lifting))
  from b'(2) have "\<exists>xs ys. timer_inv b' xs ys" by (elim disjE) (blast dest: fired_inv)+
  with b'(1) show ?thesis by (simp add: timer_good_def)
qed

lemma inspector_wake_good:
  assumes "timer_inv b xs ys" "th_pc (threads b a) = Inspector_timedwait t" "holder b = NULL" "b_timerid b < 2 ^ 31 - 1" "spawn_ok sp b"
  shows "timer_good (inspector_wake a t err sp b)"
proof -
  from inspector_wake_ok [OF assms, of err] obtain b' where b': "inspector_wake a t err sp b = Some b'"
    "timer_inv b' xs ys \<or> fired b t xs ys b'" by (metis (no_types, lifting))
  from b'(2) have "\<exists>xs ys. timer_inv b' xs ys" by (elim disjE) (blast dest: fired_inv)+
  with b'(1) show ?thesis by (simp add: timer_good_def)
qed

lemma executor_good:
  assumes "timer_inv b xs ys"
  shows "th_pc (threads b a) = Executor_loop d \<Longrightarrow> timer_good (executor_turn a d b)"
    and "th_pc (threads b a) = Executor_drain d \<Longrightarrow> timer_good (executor_drain a d b)"
    and "pc_idle (th_pc (threads b a)) \<Longrightarrow> holder b = NULL \<Longrightarrow> timer_good (executor_wake a d b)"
  using executor_turn_ok [OF assms, of a d] executor_drain_ok [OF assms, of a d] executor_wake_ok [OF assms, of a d]
  unfolding timer_good_def by blast+

lemma returned_good:
  assumes "timer_inv b xs ys" and "pc_timer (th_pc (threads b a)) \<noteq> None" and "holder b = NULL"
  shows "timer_good (perform (Returned a) b)"
proof (cases "th_pc (threads b a)")
  case (Inspector_run t)
  with timer_cleanup_ok [OF assms(1), of a t Inspector_loop] assms(3) show ?thesis
    unfolding timer_good_def by (auto simp: Let_def)
next
  case (Executor_run t d)
  with timer_cleanup_ok [OF assms(1), of a t "Executor_drain d"] assms(3) show ?thesis
    unfolding timer_good_def by (auto simp: Let_def)
qed (use assms(2) in simp_all)

lemma perform_ok:
  assumes inv: "timer_inv b xs ys" and en: "enabled e b" and ids: "b_timerid b < 2 ^ 31 - 1"
  shows "\<exists>b' xs' ys'. perform e b = Some b' \<and> timer_inv b' xs' ys'"
proof (cases e)
  case (Add t opts msec func arg now)
  with timer_add_ok [OF inv _ _ ids, of t opts msec func arg now] en show ?thesis by auto
next
  case (Del self t)
  with timer_del_ok [OF inv, of t self] en show ?thesis by auto
next
  case (Del_wake t)
  with timer_exit_wake_ok [OF inv, of t] en show ?thesis by auto
next
  case (Mod t msec now)
  with timer_mod_ok [OF inv _ ids, of t msec now] en show ?thesis by auto
next
  case Destroy
  with timer_destroy_ok [OF inv] show ?thesis by auto
next
  case (Start a)
  with run_at_ok [OF inv, of a Inspector_loop] run_at_ok [OF inv, of a "Executor_loop False"] en
  have "timer_good (perform e b)" by (auto intro: timer_goodI)
  then show ?thesis by (simp add: timer_good_def)
next
  case (Turn a now sp)
  with en have "pc_holds (th_pc (threads b a))" "spawn_ok sp b" using timer_invD(2) [OF inv] by (auto simp: pcs_inv_def)
  then have "timer_good (perform e b)" unfolding Turn
    by (cases "th_pc (threads b a)") (simp_all add: inspector_turn_good [OF inv _ ids] executor_good [OF inv])
  then show ?thesis by (simp add: timer_good_def)
next
  case (Wake a err sp)
  with en have "pc_waits (th_pc (threads b a))" "spawn_ok sp b" "holder b = NULL" by auto
  then have "timer_good (perform e b)" unfolding Wake
    by (cases "th_pc (threads b a)")
      (simp_all add: inspector_wake_good [OF inv _ _ ids] executor_good(3) [OF inv] timer_goodI [OF run_at_ok [OF inv]])
  then show ?thesis by (simp add: timer_good_def)
next
  case (Returned a)
  with returned_good [OF inv, of a] en show ?thesis by (simp add: timer_good_def)
qed

section \<open>Reachable states\<close>

text \<open>
  The static initial state: no thread, no timer in use, an empty table.
\<close>

definition timer_boot :: "timer_base \<Rightarrow> bool" where
  "timer_boot b \<longleftrightarrow> b_state b = TMR_BASE_INITIAL \<and> nthreads b = 0 \<and> rb_root (b_table b) = NULL \<and> rb_count (b_table b) = 0 \<and>
     (\<forall>t. t_flags (timers b t) = 0) \<and> (\<forall>a. th_pc (threads b a) = Gone) \<and> holder b = NULL \<and> \<not> init_done b \<and>
     b_opt b = DEFAULT_TIMER_OPTION"

inductive timer_reach :: "timer_base \<Rightarrow> bool" where
  reach_setup: "timer_boot b \<Longrightarrow> timer_setup opts True (a, 0, pid) b = Some (0, b') \<Longrightarrow> timer_reach b'"
| reach_step: "timer_reach b \<Longrightarrow> enabled e b \<Longrightarrow> b_timerid b < 2 ^ 31 - 1 \<Longrightarrow> perform e b = Some b' \<Longrightarrow> timer_reach b'"

lemma rb_wf_empty: "rb_root T = NULL \<Longrightarrow> rb_count T = 0 \<Longrightarrow> rb_wf cmp T []"
proof -
  assume "rb_root T = NULL" "rb_count T = 0"
  moreover from this have "zip_at T Lf [] \<and> rbt_ok Lf 0 \<and> tcol Lf = RB_BLACK \<and> addrs Lf = []" by (simp add: zip_at_def)
  ultimately show ?thesis unfolding rb_wf_def rb_shape_def by fastforce
qed

lemma timer_setup_ok:
  assumes boot: "timer_boot b" and a: "a \<noteq> NULL"
  shows "\<exists>b'. timer_setup opts True (a, 0, pid) b = Some (0, b') \<and> timer_inv b' [] [] \<and> working_base b' \<and>
    th_pc (threads b' a) = Inspector_start \<and> b_timerid b' = 0 \<and> holder b' = NULL \<and> b_state b' = TMR_BASE_INITIAL \<and>
    timers b' = timers b \<and> (\<forall>x. x \<noteq> a \<longrightarrow> th_pc (threads b' x) = Gone)"
proof -
  obtain L where L: "INIT_LIST_HEAD expired_timer (expired_links b) = Some L" "ring L expired_timer []"
    using INIT_LIST_HEAD_ok [of expired_timer] by (auto simp: expired_timer_def)
  let ?th = "(threads b)(a := \<lparr>tid = pid, th_timer = NULL, th_pc = Inspector_start\<rparr>)"
  let ?o = "case opts of None \<Rightarrow> b_opt b | Some u \<Rightarrow> timer_init_opts u (b_opt b)"
  let ?b = "b\<lparr>expired_links := L, b_opt := ?o, init_done := True, b_timerid := 0, running_timer := NULL, nthreads := 1,
    idlethreads := 0, threads := ?th\<rparr>"
  have run: "timer_setup opts True (a, 0, pid) b = Some (0, ?b)"
    using boot a L(1)
    by (auto simp: timer_setup_def timer_init_once_def timer_boot_def mem_simps timer_thread_create_def upd_thread_def
        split: option.splits)
  have th: "{x. th_pc (?th x) \<noteq> Gone} = {a}" "{x. pc_idle (th_pc (?th x))} = {}" "\<And>x. th_pc (?th x) = (if x = a then Inspector_start else Gone)"
    using boot by (auto simp: timer_boot_def)
  have "pcs_inv (\<lambda>x. th_pc (?th x)) NULL 1 0" using th a by (simp add: pcs_inv_def)
  moreover have "run_inv ?th (timers b) NULL" using boot th(3) by (auto simp: run_inv_def timer_boot_def)
  moreover have "table_inv ?b [] []" using boot L(2) rb_wf_empty by (auto simp: table_inv_def timer_boot_def)
  ultimately have "timer_inv ?b [] []" using boot by (simp add: timer_inv_def timer_boot_def)
  moreover have "working_base ?b" using boot by (simp add: working_base_def timer_boot_def)
  ultimately show ?thesis using run boot by (intro exI [of _ ?b]) (simp add: timer_boot_def)
qed

lemma timer_reach_inv: "timer_reach b \<Longrightarrow> \<exists>xs ys. timer_inv b xs ys"
proof (induction rule: timer_reach.induct)
  case (reach_setup b opts a pid b')
  then have "a \<noteq> NULL" by (auto simp: timer_setup_def timer_thread_create_def ENOMEM_def split: bind_splits if_splits)
  with timer_setup_ok [OF reach_setup(1), of a opts pid] reach_setup(2) show ?case by auto
next
  case (reach_step b e b')
  then show ?case using perform_ok [of b _ _ e] by fastforce
qed

end
