(* ===== verification/Timer_Properties.thy ===== *)
theory Timer_Properties
  imports Timer_Steps
begin

text \<open>
  What the timers of \<open>timer/timer.c\<close> promise, and three races.
\<close>

section \<open>A concrete run\<close>

text \<open>All memory zero; then set up with the inspector at 2, and a timer at 5 that expires at second 1.\<close>

definition timer_zero :: timer_base where
  "timer_zero = \<lparr>b_state = TMR_BASE_INITIAL, nthreads = 0, b_timerid = 0, idlethreads = 0,
     expired_links = (\<lambda>_. \<lparr>list_next = 0, list_prev = 0\<rparr>),
     b_table = \<lparr>rb_root = 0, rb_count = 0, rb_nodes = (\<lambda>_. \<lparr>rb_parent = 0, rb_left = 0, rb_right = 0, rb_color = 0\<rparr>)\<rparr>,
     running_timer = 0, b_opt = DEFAULT_TIMER_OPTION,
     timers = (\<lambda>_. \<lparr>interval = \<lparr>tv_sec = 0, tv_nsec = 0\<rparr>, expire = \<lparr>tv_sec = 0, tv_nsec = 0\<rparr>, t_timerid = 0, t_option = 0,
       t_flags = 0, t_arg = 0, t_func = 0, t_base = 0, t_thread = 0, t_cond = False\<rparr>),
     threads = (\<lambda>_. \<lparr>tid = 0, th_timer = 0, th_pc = Gone\<rparr>), holder = 0, init_done = False, wakeups = [], calls = []\<rparr>"

lemma timer_zero_boot: "timer_boot timer_zero"
  by (simp add: timer_boot_def timer_zero_def)

abbreviation at_second :: "int \<Rightarrow> timespec" where
  "at_second s \<equiv> \<lparr>tv_sec = s, tv_nsec = 0\<rparr>"

lemma demo_setup:
  obtains b where "timer_setup None True (2, 0, 7) timer_zero = Some (0, b)" "timer_inv b [] []" "working_base b"
    "th_pc (threads b 2) = Inspector_start" "b_timerid b = 0" "holder b = NULL" "timers b = timers timer_zero"
    "\<And>x. x \<noteq> 2 \<Longrightarrow> th_pc (threads b x) = Gone" "b_state b = TMR_BASE_INITIAL"
  using timer_setup_ok [OF timer_zero_boot, of 2 None 7] by auto

lemma demo_flags: "t_flags (timers timer_zero t) = 0"
  by (simp add: timer_zero_def)

text \<open>The inspector in its loop with one timer mounted.\<close>

lemma demo_loop:
  obtains b where "timer_inv b [5] []" "th_pc (threads b 2) = Inspector_loop" "b_timerid b = 1"
    "expire (timers b 5) = at_second 1" "b_state b = TMR_BASE_INITIAL" "nthreads b > 0" "has_flag 5 TMR_F_ACTIVE b"
    "t_option (timers b 5) = TMR_OPT_CYCLE" "\<not> busy b 5" "th_pc (threads b 9) = Gone" "t_func (timers b 5) = 40"
proof -
  obtain b0 where b0: "timer_inv b0 [] []" "working_base b0" "th_pc (threads b0 2) = Inspector_start" "b_timerid b0 = 0"
    "holder b0 = NULL" "timers b0 = timers timer_zero" "\<And>x. x \<noteq> 2 \<Longrightarrow> th_pc (threads b0 x) = Gone" "b_state b0 = TMR_BASE_INITIAL"
    using demo_setup by metis
  have c: "client_ok 5 b0" "\<not> busy b0 5" "\<not> has_flag 5 TMR_F_ACTIVE b0"
    using b0(5,6) demo_flags [of 5] by (simp_all add: client_ok_def expired_timer_def flag_simps)
  from timer_add_ok [OF b0(1) c(1,2), of TMR_OPT_CYCLE 1000 40 41 "at_second 0"] b0 c(3) obtain b1 where
    b1: "timer_inv b1 [5] []" "expire (timers b1 5) = timespec_add (at_second 0) (timespec_init 1000)" "same_threads b0 b1"
      "t_option (timers b1 5) = TMR_OPT_CYCLE" "has_flag 5 TMR_F_ACTIVE b1" "t_func (timers b1 5) = 40" by auto
  let ?b = "b1\<lparr>holder := 2, threads := (threads b1)(2 := (threads b1 2)\<lparr>th_pc := Inspector_loop\<rparr>)\<rparr>"
  have h: "holder b1 = NULL" "th_pc (threads b1 2) = Inspector_start" using b1(3) b0 by (simp_all add: same_threads_def)
  from run_at_ok [OF b1(1) h(1), of 2 Inspector_loop] h(2) have i: "timer_inv ?b [5] []"
    by (auto simp: run_at_def goto_pc_def upd_thread_def mem_simps)
  note D = timer_invD [OF i]
  have "\<not> bit (t_flags (timers b1 5)) 2" using table_inv_pending [OF D(1), of 5] by simp
  moreover have "\<not> bit (t_flags (timers b1 5)) 3"
  proof
    assume "bit (t_flags (timers b1 5)) 3"
    then have "pc_timer (th_pc (threads b1 (t_thread (timers b1 5)))) = Some 5"
      using timer_invD(3) [OF b1(1)] unfolding run_inv_def by blast
    with b0(3,7) b1(3) show False by (cases "t_thread (timers b1 5) = 2") (simp_all add: same_threads_def)
  qed
  ultimately have "\<not> busy ?b 5" by (simp add: flag_simps)
  moreover have "timespec_add (at_second 0) (timespec_init 1000) = at_second 1"
    by (simp add: timespec_add_def timespec_init_def signed_divide_int_def signed_modulo_int_def)
  ultimately show ?thesis using that [OF i] b0 b1
    by (simp add: same_threads_def working_base_def has_flag_def)
qed


text \<open>The inspector waiting for the timer.\<close>

lemma demo_timing:
  obtains b where "timer_inv b [5] []" "th_pc (threads b 2) = Inspector_timedwait 5" "running_timer b = 5" "holder b = NULL"
    "b_timerid b = 1" "working_base b" "has_flag 5 TMR_F_ACTIVE b" "\<not> busy b 5" "th_pc (threads b 9) = Gone"
proof -
  obtain b where b: "timer_inv b [5] []" "th_pc (threads b 2) = Inspector_loop" "b_timerid b = 1"
    "expire (timers b 5) = at_second 1" "b_state b = TMR_BASE_INITIAL" "nthreads b > 0" "has_flag 5 TMR_F_ACTIVE b"
    "\<not> busy b 5" "th_pc (threads b 9) = Gone" using demo_loop by metis
  have sp: "spawn_ok (9, 0, 8) b" using b(9) by (simp add: spawn_ok_def)
  from inspector_turn_ok [OF b(1,2) _ sp, of "at_second 0"] b(3,4,5) obtain b1 where
    b1: "timer_inv b1 [5] []" "b1 = b\<lparr>b_state := TMR_BASE_TIMING, running_timer := 5, holder := NULL,
         threads := (threads b)(2 := (threads b 2)\<lparr>th_pc := Inspector_timedwait 5\<rparr>)\<rparr>"
    by (auto simp: timespec_cmp_def)
  show ?thesis using that [of b1] b1 b by (simp add: working_base_def has_flag_def)
qed

text \<open>The inspector waiting without limit while the one-shot timer at 5 has fired and is still active.\<close>

definition timer_idle :: timer_base where
  "timer_idle = timer_zero\<lparr>b_state := TMR_BASE_WAITING, nthreads := 1, b_timerid := 1, init_done := True,
     expired_links := (\<lambda>_. \<lparr>list_next = 1, list_prev = 1\<rparr>),
     timers := (timers timer_zero)(5 := (timers timer_zero 5)\<lparr>t_flags := 1\<rparr>),
     threads := (threads timer_zero)(2 := \<lparr>tid = 7, th_timer = 5, th_pc = Inspector_wait\<rparr>)\<rparr>"

lemma timer_idle_inv: "timer_inv timer_idle [] []"
proof -
  have bits: "t_flags (timers timer_idle t) = (if t = 5 then 1 else 0)" for t by (simp add: timer_idle_def timer_zero_def)
  have "rb_wf (timer_comparator (timers timer_idle)) (b_table timer_idle) []"
    by (rule rb_wf_empty) (simp_all add: timer_idle_def timer_zero_def)
  moreover have "ring (expired_links timer_idle) expired_timer []"
    by (simp add: ring_def timer_idle_def timer_zero_def expired_timer_def)
  moreover have "b_timerid timer_idle = 1" by (simp add: timer_idle_def)
  ultimately have "table_inv timer_idle [] []" by (simp add: table_inv_def bits)
  moreover have th: "th_pc (threads timer_idle a) = (if a = 2 then Inspector_wait else Gone)" for a
    by (simp add: timer_idle_def timer_zero_def)
  then have "{a. th_pc (threads timer_idle a) \<noteq> Gone} = {2}" "{a. pc_idle (th_pc (threads timer_idle a))} = {}" by auto
  then have "pcs_inv (\<lambda>a. th_pc (threads timer_idle a)) NULL 1 0" by (simp add: pcs_inv_def th)
  moreover have "run_inv (threads timer_idle) (timers timer_idle) NULL" by (simp add: run_inv_def bits th)
  moreover have "holder timer_idle = NULL" "nthreads timer_idle = 1" "idlethreads timer_idle = 0" "running_timer timer_idle = NULL"
    by (simp_all add: timer_idle_def timer_zero_def)
  ultimately show ?thesis by (simp add: timer_inv_def)
qed

section \<open>Safety of the whole\<close>



section \<open>Adding and firing\<close>

text \<open>
  \<open>timer_add\<close> of an idle timer to a working base returns 0 exactly when the timer is
  neither active nor mounted; it then stands at its place among the mounted timers with expiry
  \<open>now + msec\<close>, all other timers are untouched, and the inspector is signalled whenever it waits
  without limit or for a later timer. Otherwise -1 is returned and nothing changes.
\<close>

theorem timer_add_correct:
  assumes "timer_inv b xs ys" and "client_ok t b" and "\<not> has_flag t (TMR_F_PENDING OR TMR_F_EXECUTING) b"
    and "b_timerid b < 2 ^ 31 - 1"
  shows "\<exists>r b' xs'. timer_add t opts msec func arg now b = Some (r, b') \<and> timer_inv b' xs' ys \<and>
    (if working_base b \<and> \<not> has_flag t TMR_F_ACTIVE b \<and> t \<notin> set xs then
       r = 0 \<and> xs' = cmp_insert (timer_comparator (timers b')) t xs \<and>
       expire (timers b' t) = timespec_add now (timespec_init msec) \<and>
       t_option (timers b' t) = opts \<and> t_func (timers b' t) = func \<and> t_arg (timers b' t) = arg \<and>
       has_flag t TMR_F_ACTIVE b' \<and> (\<forall>u. u \<noteq> t \<longrightarrow> timers b' u = timers b u) \<and> same_threads b b' \<and>
       (b_state b = TMR_BASE_WAITING \<or> running_timer b \<noteq> NULL \<and>
         timespec_cmp (expire (timers b' t)) (expire (timers b (running_timer b))) (<) \<longrightarrow> last (wakeups b') = Work_cond)
     else r = - 1 \<and> b' = b)"
  using assms by (rule timer_add_ok)

theorem timer_add_correct_witness:
  "\<exists>b r b' xs'. timer_setup None True (2, 0, 7) timer_zero = Some (0, b) \<and>
     timer_add 5 TMR_OPT_CYCLE 1500 40 41 (at_second 3) b = Some (r, b') \<and> timer_inv b' xs' [] \<and> r = 0 \<and> xs' = [5] \<and>
     expire (timers b' 5) = \<lparr>tv_sec = 4, tv_nsec = 500000000\<rparr>"
proof -
  obtain b where b: "timer_setup None True (2, 0, 7) timer_zero = Some (0, b)" "timer_inv b [] []" "working_base b"
    "b_timerid b = 0" "holder b = NULL" "timers b = timers timer_zero" using demo_setup by metis
  have "client_ok 5 b" "\<not> has_flag 5 (TMR_F_PENDING OR TMR_F_EXECUTING) b" "\<not> has_flag 5 TMR_F_ACTIVE b"
    using b(5,6) demo_flags [of 5] by (simp_all add: client_ok_def expired_timer_def flag_simps)
  from timer_add_correct [OF b(2) this(1,2), of TMR_OPT_CYCLE 1500 40 41 "at_second 3"] this(3) b show ?thesis
    by (auto simp: timespec_add_def timespec_init_def signed_divide_int_def signed_modulo_int_def)
qed



section \<open>Races\<close>

text \<open>
  \<open>timer_mod\<close> wakes the inspector only for a timer it is timing. When the inspector waits
  without limit because no timer is mounted, re-arming an active timer succeeds and mounts it, but no
  signal is sent: the inspector is not told, and the timer does not fire until something else wakes it.
\<close>

theorem timer_mod_no_wakeup:
  assumes "timer_inv b xs ys" and "client_ok t b" and "b_timerid b < 2 ^ 31 - 1"
    and "working_base b" and "has_flag t TMR_F_ACTIVE b"
    and "th_pc (threads b a) = Inspector_wait"
  shows "\<exists>b' xs'. timer_mod t msec now b = Some (0, b') \<and> timer_inv b' xs' ys \<and> t \<in> set xs' \<and>
    th_pc (threads b' a) = Inspector_wait \<and> wakeups b' = wakeups b"
proof -
  note D = timer_invD [OF assms(1)]
  have r: "running_timer b = NULL" by (rule inspector_not_timing [OF D(3,2), of a]) (use assms(6) in simp_all)
  from assms(2) have "t \<noteq> NULL" by (simp add: client_ok_def)
  with timer_mod_ok [OF assms(1-3), of msec now] assms(4,5) r obtain b' xs' where
    b': "timer_mod t msec now b = Some (0, b')" "timer_inv b' xs' ys"
      "xs' = cmp_insert (timer_comparator (timers b')) t (remove1 t xs)" "same_threads b b'" "wakeups b' = wakeups b" by auto
  then have "t \<in> set xs'" by simp
  with b' assms(6) show ?thesis by (auto simp: same_threads_def)
qed

theorem timer_mod_no_wakeup_witness:
  "\<exists>b' xs'. timer_mod 5 1000 (at_second 1) timer_idle = Some (0, b') \<and> timer_inv b' xs' [] \<and> 5 \<in> set xs' \<and>
     th_pc (threads b' 2) = Inspector_wait \<and> wakeups b' = []"
proof -
  have "client_ok 5 timer_idle" "b_timerid timer_idle < 2 ^ 31 - 1" "working_base timer_idle" "has_flag 5 TMR_F_ACTIVE timer_idle"
    "th_pc (threads timer_idle 2) = Inspector_wait" "wakeups timer_idle = []"
    by (simp_all add: timer_idle_def timer_zero_def client_ok_def expired_timer_def working_base_def has_flag_def TMR_F_ACTIVE_def)
  from timer_mod_no_wakeup [OF timer_idle_inv this(1-5), of 1000 "at_second 1"] this(6) show ?thesis by simp
qed

text \<open>
  When the wait of the inspector for a timer times out, \<open>timer_mod\<close> may take the mutex before
  the inspector does. It moves the timer to its new expiry and succeeds, but leaves \<open>running_timer\<close>
  set, and the inspector then fires the timer at once, however far away the new expiry is.
\<close>

theorem timer_mod_fires_early:
  assumes "timer_inv b xs ys" and "client_ok t b" and "b_timerid b < 2 ^ 31 - 2"
    and "working_base b" and "has_flag t TMR_F_ACTIVE b" and "spawn_ok sp b"
    and "th_pc (threads b a) = Inspector_timedwait t" and "running_timer b = t"
  shows "\<exists>b1 b2 xs1. timer_mod t msec now b = Some (0, b1) \<and>
    expire (timers b1 t) = timespec_add now (timespec_init msec) \<and>
    inspector_wake a t ETIMEDOUT sp b1 = Some b2 \<and> fired b1 t xs1 ys b2"
proof -
  from timer_mod_ok [OF assms(1,2), of msec now] assms(3-5) obtain b1 xs1 where
    b1: "timer_mod t msec now b = Some (0, b1)" "timer_inv b1 xs1 ys" "same_threads b b1"
      "expire (timers b1 t) = timespec_add now (timespec_init msec)" by auto
  have "inspector_wake a t ETIMEDOUT sp b1 \<noteq> None \<and> fired b1 t xs1 ys (the (inspector_wake a t ETIMEDOUT sp b1))"
    using inspector_wake_ok [OF b1(2), of a t sp ETIMEDOUT] b1(3) assms
    by (auto simp: same_threads_def client_ok_def spawn_ok_def)
  with b1 show ?thesis by auto
qed

theorem timer_mod_fires_early_witness:
  "\<exists>b b1 b2 xs1. timer_inv b [5] [] \<and> timer_mod 5 3600000 (at_second 1) b = Some (0, b1) \<and>
     expire (timers b1 5) = at_second 3601 \<and> inspector_wake 2 5 ETIMEDOUT (9, 0, 8) b1 = Some b2 \<and> fired b1 5 xs1 [] b2"
proof -
  obtain b where b: "timer_inv b [5] []" "th_pc (threads b 2) = Inspector_timedwait 5" "running_timer b = 5" "holder b = NULL"
    "b_timerid b = 1" "working_base b" "has_flag 5 TMR_F_ACTIVE b" "th_pc (threads b 9) = Gone" using demo_timing by metis
  have "client_ok 5 b" "spawn_ok (9, 0, 8) b" using b by (simp_all add: client_ok_def expired_timer_def spawn_ok_def)
  from timer_mod_fires_early [OF b(1) this(1) _ b(6,7) this(2) b(2,3), of 3600000 "at_second 1"] b(1,5) show ?thesis
    by (auto simp: timespec_add_def timespec_init_def signed_divide_int_def signed_modulo_int_def)
qed


text \<open>
  When its wait for a
  timer has timed out but \<open>timer_destroy\<close> takes the mutex first, the inspector fires the timer and
  writes the state \<open>TMR_BASE_SHOOTING\<close> over \<open>TMR_BASE_DESTROY\<close>: it never leaves its loop, and
  \<open>timer_destroy\<close> keeps waiting.
\<close>

theorem timer_destroy_lost:
  assumes "timer_inv b xs ys" and "holder b = NULL" and "b_timerid b < 2 ^ 31 - 1" and "working_base b" and "spawn_ok sp b"
    and "th_pc (threads b a) = Inspector_timedwait t" and "running_timer b = t" and "t \<noteq> NULL"
  shows "\<exists>b1 b2 xs2 ys2. timer_destroy b = (0, b1) \<and> b_state b1 = TMR_BASE_DESTROY \<and>
    inspector_wake a t ETIMEDOUT sp b1 = Some b2 \<and> timer_inv b2 xs2 ys2 \<and> b_state b2 = TMR_BASE_SHOOTING"
proof -
  let ?b1 = "snd (timer_destroy b)"
  have b1: "timer_destroy b = (0, ?b1)" "b_state ?b1 = TMR_BASE_DESTROY" "holder ?b1 = NULL" "b_timerid ?b1 = b_timerid b"
    "threads ?b1 = threads b" "running_timer ?b1 = t"
    using assms(2,4,7) by (simp_all add: timer_destroy_def Let_def signal_def)
  have "\<exists>b2. inspector_wake a t ETIMEDOUT sp ?b1 = Some b2 \<and> fired ?b1 t xs ys b2"
    using inspector_wake_ok [OF timer_destroy_ok [OF assms(1)], of a t sp ETIMEDOUT] b1 assms(3,5,6,8)
    by (simp add: spawn_ok_def)
  with b1(1,2) show ?thesis unfolding fired_def by blast
qed

theorem timer_destroy_lost_witness:
  "\<exists>b b1 b2 xs2 ys2. timer_inv b [5] [] \<and> timer_destroy b = (0, b1) \<and> b_state b1 = TMR_BASE_DESTROY \<and>
     inspector_wake 2 5 ETIMEDOUT (9, 0, 8) b1 = Some b2 \<and> timer_inv b2 xs2 ys2 \<and> b_state b2 = TMR_BASE_SHOOTING"
proof -
  obtain b where b: "timer_inv b [5] []" "th_pc (threads b 2) = Inspector_timedwait 5" "running_timer b = 5" "holder b = NULL"
    "b_timerid b = 1" "working_base b" "th_pc (threads b 9) = Gone" using demo_timing by metis
  have "b_timerid b < 2 ^ 31 - 1" "spawn_ok (9, 0, 8) b" "5 \<noteq> NULL" using b by (simp_all add: spawn_ok_def)
  from timer_destroy_lost [OF b(1,4) this(1) b(6) this(2) b(2,3) this(3)] b(1) show ?thesis by blast
qed

end
