(* ===== verification/BST.thy ===== *)
theory BST
  imports Prelude
begin

unbundle bit_operations_syntax

text \<open>
  The binary search tree of \<open>include/bst.h\<close> and \<open>common/bst.c\<close>: nodes with two links and no
  parent pointer, balanced on demand by turning the tree into a vine and folding the vine back.
  The code treats the address of \<open>bst_root\<close> as a node whose first link is the root; \<open>Table\<close>
  stands for that node. Comparator and searcher, function pointers of the C struct, are
  arguments; the printer is output only.
\<close>

section \<open>Nodes and tables (include/bst.h)\<close>

record bst_node =
  bst_link0 :: addr
  bst_link1 :: addr

record bst_table =
  bst_root :: addr
  bst_count :: "64 word"
  bst_max_height :: "32 word"
  bst_generation :: "64 word"
  bst_nodes :: "addr \<Rightarrow> bst_node"

datatype bst_ptr = Table | Node addr

text \<open>\<open>p->bst_link[dir]\<close>, read and written; behind the root pointer the table holds no second link.\<close>

fun get_link :: "bst_ptr \<Rightarrow> bool \<Rightarrow> bst_table \<Rightarrow> addr option" where
  "get_link Table dir T = (if dir then None else Some (bst_root T))"
| "get_link (Node p) dir T = do { n \<leftarrow> load (bst_nodes T) p; Some (if dir then bst_link1 n else bst_link0 n) }"

fun set_link :: "bst_ptr \<Rightarrow> bool \<Rightarrow> addr \<Rightarrow> bst_table \<Rightarrow> bst_table option" where
  "set_link Table dir v T = (if dir then None else Some (T\<lparr>bst_root := v\<rparr>))"
| "set_link (Node p) dir v T =
     map_option (\<lambda>h. T\<lparr>bst_nodes := h\<rparr>)
       (store (bst_nodes T) p (\<lambda>n. if dir then n\<lparr>bst_link1 := v\<rparr> else n\<lparr>bst_link0 := v\<rparr>))"

definition bst_create :: "32 word \<Rightarrow> bool \<Rightarrow> bst_table \<Rightarrow> bst_table option" where
  "bst_create height allocated T =
     (if allocated then Some (T\<lparr>bst_root := NULL, bst_count := 0, bst_generation := 0, bst_max_height := height\<rparr>) else None)"

section \<open>Search, insertion, removal\<close>

partial_function (option) bst_search_from :: "(addr \<Rightarrow> int) \<Rightarrow> addr \<Rightarrow> bst_table \<Rightarrow> addr option" where
  "bst_search_from f t T =
     (if t = NULL then Some NULL
      else if f t < 0 then do { l \<leftarrow> get_link (Node t) False T; bst_search_from f l T }
      else if f t > 0 then do { r \<leftarrow> get_link (Node t) True T; bst_search_from f r T }
      else Some t)"

definition bst_search :: "(addr \<Rightarrow> int) \<Rightarrow> bst_table \<Rightarrow> addr option" where
  "bst_search f T = bst_search_from f (bst_root T) T"

text \<open>
  The descent of \<open>bst_insert\<close>, \<open>bst_remove\<close> and \<open>bst_delete\<close>: the link of \<open>p\<close> in
  direction \<open>dir\<close> is followed until a node answers 0 or the link is null.
\<close>

partial_function (option) bst_descend ::
  "(addr \<Rightarrow> int) \<Rightarrow> bst_ptr \<Rightarrow> bool \<Rightarrow> bst_table \<Rightarrow> (addr \<times> bst_ptr \<times> bool) option" where
  "bst_descend f p dir T = do {
     t \<leftarrow> get_link p dir T;
     if t = NULL then Some (NULL, p, dir)
     else if f t = 0 then Some (t, p, dir)
     else bst_descend f (Node t) (f t > 0) T
   }"

definition bst_insert :: "comparator \<Rightarrow> addr \<Rightarrow> bst_table \<Rightarrow> (addr \<times> bst_table) option" where
  "bst_insert cmp n T = do {
     (t, p, dir) \<leftarrow> bst_descend (cmp n) Table False T;
     if t \<noteq> NULL then Some (t, T)
     else do {
       let T = T\<lparr>bst_count := bst_count T + 1\<rparr>;
       T \<leftarrow> set_link (Node n) False NULL T;
       T \<leftarrow> set_link (Node n) True NULL T;
       T \<leftarrow> set_link p dir n T;
       Some (n, T)
     }
   }"

partial_function (option) bst_successor :: "addr \<Rightarrow> bst_table \<Rightarrow> (addr \<times> addr) option" where
  "bst_successor r T = do {
     s \<leftarrow> get_link (Node r) False T;
     s0 \<leftarrow> get_link (Node s) False T;
     if s0 = NULL then Some (r, s) else bst_successor s T
   }"

definition bst_unlink :: "addr \<Rightarrow> bst_ptr \<Rightarrow> bool \<Rightarrow> bst_table \<Rightarrow> bst_table option" where
  "bst_unlink d p dir T = do {
     r \<leftarrow> get_link (Node d) True T;
     T \<leftarrow> (if r = NULL then do { l \<leftarrow> get_link (Node d) False T; set_link p dir l T }
          else do {
            rl \<leftarrow> get_link (Node r) False T;
            if rl = NULL then do {
              l \<leftarrow> get_link (Node d) False T;
              T \<leftarrow> set_link (Node r) False l T;
              set_link p dir r T
            } else do {
              (r, s) \<leftarrow> bst_successor r T;
              s1 \<leftarrow> get_link (Node s) True T;
              T \<leftarrow> set_link (Node r) False s1 T;
              l \<leftarrow> get_link (Node d) False T;
              T \<leftarrow> set_link (Node s) False l T;
              r1 \<leftarrow> get_link (Node d) True T;
              T \<leftarrow> set_link (Node s) True r1 T;
              set_link p dir s T
            }
          });
     Some (T\<lparr>bst_count := bst_count T - 1, bst_generation := bst_generation T + 1\<rparr>)
   }"

definition bst_remove :: "comparator \<Rightarrow> addr \<Rightarrow> bool \<Rightarrow> bst_table \<Rightarrow> (addr \<times> bst_table) option" where
  "bst_remove cmp n self T = do {
     (d, p, dir) \<leftarrow> bst_descend (cmp n) Table False T;
     if d = NULL then Some (NULL, T)
     else if d = n \<or> \<not> self then do { T \<leftarrow> bst_unlink d p dir T; Some (d, T) }
     else Some (d, T)
   }"

definition bst_delete :: "(addr \<Rightarrow> int) \<Rightarrow> bst_table \<Rightarrow> (addr \<times> bst_table) option" where
  "bst_delete f T = do {
     (d, p, dir) \<leftarrow> bst_descend f Table False T;
     if d = NULL then Some (NULL, T)
     else do { T \<leftarrow> bst_unlink d p dir T; Some (d, T) }
   }"

section \<open>Balancing\<close>

partial_function (option) slant_left_from :: "bst_ptr \<Rightarrow> addr \<Rightarrow> bst_table \<Rightarrow> bst_table option" where
  "slant_left_from q p T =
     (if p = NULL then Some T
      else do {
        r \<leftarrow> get_link (Node p) True T;
        if r = NULL then do { l \<leftarrow> get_link (Node p) False T; slant_left_from (Node p) l T }
        else do {
          rl \<leftarrow> get_link (Node r) False T;
          T \<leftarrow> set_link (Node p) True rl T;
          T \<leftarrow> set_link (Node r) False p T;
          T \<leftarrow> set_link q False r T;
          slant_left_from q r T
        }
      })"

definition slant_left :: "bst_table \<Rightarrow> bst_table option" where
  "slant_left T = slant_left_from Table (bst_root T) T"

primrec slant_left_back :: "nat \<Rightarrow> bst_ptr \<Rightarrow> bst_table \<Rightarrow> bst_table option" where
  "slant_left_back 0 root T = Some T"
| "slant_left_back (Suc n) root T = do {
     red \<leftarrow> get_link root False T;
     black \<leftarrow> get_link (Node red) False T;
     T \<leftarrow> set_link root False black T;
     b1 \<leftarrow> get_link (Node black) True T;
     T \<leftarrow> set_link (Node red) False b1 T;
     T \<leftarrow> set_link (Node black) True red T;
     slant_left_back n (Node black) T
   }"

function leaves_loop :: "64 word \<Rightarrow> 64 word" where
  "leaves_loop leaves = (if leaves AND (leaves - 1) = 0 then leaves else leaves_loop (leaves AND (leaves - 1)))"
  by auto

termination
proof (relation "measure unat")
  fix leaves :: "64 word" assume "leaves AND (leaves - 1) \<noteq> 0"
  then have "leaves \<noteq> 0" by auto
  then have "unat (leaves - 1) < unat leaves" by (metis unat_minus_one lessI Suc_pred' unat_gt_0)
  moreover have "unat (leaves AND (leaves - 1)) \<le> unat (leaves - 1)"
    by (simp add: word_le_nat_alt [symmetric] word_and_le1)
  ultimately show "(leaves AND (leaves - 1), leaves) \<in> measure unat" by simp
qed simp

declare leaves_loop.simps [simp del]

text \<open>The folding loop also counts the height; the code compares it with \<open>bst_max_height\<close>.\<close>

partial_function (option) slant_back_loop :: "64 word \<Rightarrow> nat \<Rightarrow> bst_table \<Rightarrow> (nat \<times> bst_table) option" where
  "slant_back_loop vine height T =
     (if vine > 1 then do {
        T \<leftarrow> slant_left_back (unat (drop_bit 1 vine)) Table T;
        slant_back_loop (drop_bit 1 vine) (height + 1) T
      } else Some (height, T))"

definition slant_back :: "bst_table \<Rightarrow> (nat \<times> bst_table) option" where
  "slant_back T = do {
     let leaves = bst_count T + 1 - leaves_loop (bst_count T + 1);
     T \<leftarrow> slant_left_back (unat leaves) Table T;
     slant_back_loop (bst_count T - leaves) (1 + (if leaves > 0 then 1 else 0)) T
   }"

definition bst_balance :: "bst_table \<Rightarrow> bst_table option" where
  "bst_balance T = do {
     T \<leftarrow> slant_left T;
     (_, T) \<leftarrow> slant_back T;
     Some (T\<lparr>bst_generation := bst_generation T + 1\<rparr>)
   }"

text \<open>\<open>bst_destroy\<close>: the nodes in the order the destroyer gets them, and the table if it is kept.\<close>

partial_function (option) bst_destroy_from :: "addr \<Rightarrow> addr list \<Rightarrow> bst_table \<Rightarrow> (addr list \<times> bst_table) option" where
  "bst_destroy_from p done T =
     (if p = NULL then Some (done, T)
      else do {
        q \<leftarrow> get_link (Node p) False T;
        if q = NULL then do { r \<leftarrow> get_link (Node p) True T; bst_destroy_from r (done @ [p]) T }
        else do {
          q1 \<leftarrow> get_link (Node q) True T;
          T \<leftarrow> set_link (Node p) False q1 T;
          T \<leftarrow> set_link (Node q) True p T;
          bst_destroy_from q done T
        }
      })"

definition bst_destroy :: "bool \<Rightarrow> bst_table \<Rightarrow> (addr list \<times> bst_table option) option" where
  "bst_destroy cleanall T = do {
     (ds, T) \<leftarrow> bst_destroy_from (bst_root T) [] T;
     Some (ds, if cleanall then None else Some (T\<lparr>bst_count := 0, bst_generation := 0, bst_root := NULL\<rparr>))
   }"

end
