(* ===== verification/BST_Rep.thy ===== *)
theory BST_Rep
  imports BST Ordered_Table
begin

text \<open>
  The store of a binary search tree as a functional tree with a hole: \<open>bst_at T t k\<close> says that the
  table holds the tree \<open>t\<close> in the context \<open>k\<close>, a path from the hole up to the root. Writing the
  link into the hole replaces the tree there.
\<close>

datatype bt = Lf | Nd bt addr bt

fun bt_addrs :: "bt \<Rightarrow> addr list" where
  "bt_addrs Lf = []"
| "bt_addrs (Nd l a r) = bt_addrs l @ a # bt_addrs r"

fun bt_root :: "bt \<Rightarrow> addr" where
  "bt_root Lf = NULL"
| "bt_root (Nd l a r) = a"

fun bt_height :: "bt \<Rightarrow> nat" where
  "bt_height Lf = 0"
| "bt_height (Nd l a r) = Suc (max (bt_height l) (bt_height r))"

fun bt_at :: "(addr \<Rightarrow> bst_node) \<Rightarrow> bt \<Rightarrow> bool" where
  "bt_at h Lf \<longleftrightarrow> True"
| "bt_at h (Nd l a r) \<longleftrightarrow> a \<noteq> NULL \<and> h a = \<lparr>bst_link0 = bt_root l, bst_link1 = bt_root r\<rparr> \<and> bt_at h l \<and> bt_at h r"

datatype frame = InLeft addr bt | InRight bt addr

fun plug :: "bt \<Rightarrow> frame list \<Rightarrow> bt" where
  "plug t [] = t"
| "plug t (InLeft a r # k) = plug (Nd t a r) k"
| "plug t (InRight l a # k) = plug (Nd l a t) k"

fun ctx_before :: "frame list \<Rightarrow> addr list" where
  "ctx_before [] = []"
| "ctx_before (InLeft a r # k) = ctx_before k"
| "ctx_before (InRight l a # k) = ctx_before k @ bt_addrs l @ [a]"

fun ctx_after :: "frame list \<Rightarrow> addr list" where
  "ctx_after [] = []"
| "ctx_after (InLeft a r # k) = a # bt_addrs r @ ctx_after k"
| "ctx_after (InRight l a # k) = ctx_after k"

abbreviation ctx_addrs :: "frame list \<Rightarrow> addr list" where
  "ctx_addrs k \<equiv> ctx_before k @ ctx_after k"

fun hole :: "frame list \<Rightarrow> bst_ptr \<times> bool" where
  "hole [] = (Table, False)"
| "hole (InLeft a r # k) = (Node a, False)"
| "hole (InRight l a # k) = (Node a, True)"

fun bctx_at :: "(addr \<Rightarrow> bst_node) \<Rightarrow> addr \<Rightarrow> frame list \<Rightarrow> addr \<Rightarrow> bool" where
  "bctx_at h rt [] v \<longleftrightarrow> rt = v"
| "bctx_at h rt (InLeft a r # k) v \<longleftrightarrow>
     a \<noteq> NULL \<and> h a = \<lparr>bst_link0 = v, bst_link1 = bt_root r\<rparr> \<and> bt_at h r \<and> bctx_at h rt k a"
| "bctx_at h rt (InRight l a # k) v \<longleftrightarrow>
     a \<noteq> NULL \<and> h a = \<lparr>bst_link0 = bt_root l, bst_link1 = v\<rparr> \<and> bt_at h l \<and> bctx_at h rt k a"

definition bst_at :: "bst_table \<Rightarrow> bt \<Rightarrow> frame list \<Rightarrow> bool" where
  "bst_at T t k \<longleftrightarrow> bt_at (bst_nodes T) t \<and> bctx_at (bst_nodes T) (bst_root T) k (bt_root t) \<and>
     distinct (bt_addrs t) \<and> distinct (ctx_addrs k) \<and> set (bt_addrs t) \<inter> set (ctx_addrs k) = {}"

lemma bt_addrs_plug: "bt_addrs (plug t k) = ctx_before k @ bt_addrs t @ ctx_after k"
  by (induction t k rule: plug.induct) auto

lemma bt_at_NULL: "bt_at h t \<Longrightarrow> NULL \<notin> set (bt_addrs t)"
  by (induction t) auto

lemma bctx_NULL: "bctx_at h rt k v \<Longrightarrow> NULL \<notin> set (ctx_addrs k)"
  by (induction h rt k v rule: bctx_at.induct) (auto dest: bt_at_NULL)

lemma bt_root_NULL: "bt_at h t \<Longrightarrow> bt_root t = NULL \<longleftrightarrow> t = Lf"
  by (cases t) auto

lemma bt_at_cong: "(\<And>a. a \<in> set (bt_addrs t) \<Longrightarrow> h' a = h a) \<Longrightarrow> bt_at h' t = bt_at h t"
  by (induction t) auto

lemma bt_at_upd [simp]: "a \<notin> set (bt_addrs t) \<Longrightarrow> bt_at (h(a := v)) t = bt_at h t"
  by (rule bt_at_cong) auto

lemma bctx_cong: "(\<And>a. a \<in> set (ctx_addrs k) \<Longrightarrow> h' a = h a) \<Longrightarrow> bctx_at h' rt k v = bctx_at h rt k v"
proof (induction h rt k v rule: bctx_at.induct)
  case (2 h rt a r k v)
  have "bt_at h' r = bt_at h r" by (rule bt_at_cong) (use 2(2) in auto)
  moreover have "bctx_at h' rt k a = bctx_at h rt k a" by (rule 2(1)) (use 2(2) in auto)
  ultimately show ?case using 2(2) by simp
next
  case (3 h rt l a k v)
  have "bt_at h' l = bt_at h l" by (rule bt_at_cong) (use 3(2) in auto)
  moreover have "bctx_at h' rt k a = bctx_at h rt k a" by (rule 3(1)) (use 3(2) in auto)
  ultimately show ?case using 3(2) by simp
qed simp

lemma bctx_upd [simp]: "a \<notin> set (ctx_addrs k) \<Longrightarrow> bctx_at (h(a := v)) rt k u = bctx_at h rt k u"
  by (rule bctx_cong) auto

lemma bst_at_left: "bst_at T (Nd l a r) k \<longleftrightarrow> bst_at T l (InLeft a r # k) \<and> a \<notin> set (bt_addrs l)"
  unfolding bst_at_def by auto

lemma bst_at_right: "bst_at T (Nd l a r) k \<longleftrightarrow> bst_at T r (InRight l a # k) \<and> a \<notin> set (bt_addrs r)"
  unfolding bst_at_def by auto

lemma bst_at_up: "bst_at T t k \<longleftrightarrow> bst_at T (plug t k) []"
proof (induction t k rule: plug.induct)
  case (2 t a r k)
  have "a \<notin> set (bt_addrs t)" if "bst_at T t (InLeft a r # k)" using that by (auto simp: bst_at_def)
  with 2 bst_at_left [of T t a r k] show ?case by auto
next
  case (3 t l a k)
  have "a \<notin> set (bt_addrs t)" if "bst_at T t (InRight l a # k)" using that by (auto simp: bst_at_def)
  with 3 bst_at_right [of T l a t k] show ?case by auto
qed simp

lemma bst_at_get:
  assumes "bst_at T (Nd l a r) k"
  shows "a \<noteq> NULL" and "get_link (Node a) False T = Some (bt_root l)" and "get_link (Node a) True T = Some (bt_root r)"
  using assms by (auto simp: bst_at_def mem_simps)

lemma bst_at_hole: "bst_at T t k \<Longrightarrow> get_link (fst (hole k)) (snd (hole k)) T = Some (bt_root t)"
  by (cases k; cases "hd k") (auto simp: bst_at_def mem_simps)

text \<open>
  The two writes the operations are made of: into the hole, and into a node that is detached from
  the table. \<open>detached T t k u\<close>: besides the context \<open>k\<close>, whose hole is to be filled, the store holds
  the separate tree \<open>u\<close>.
\<close>

definition holds_apart :: "bst_table \<Rightarrow> bt \<Rightarrow> frame list \<Rightarrow> bool" where
  "holds_apart T t k \<longleftrightarrow> bt_at (bst_nodes T) t \<and> (\<exists>v. bctx_at (bst_nodes T) (bst_root T) k v) \<and>
     distinct (bt_addrs t) \<and> distinct (ctx_addrs k) \<and> set (bt_addrs t) \<inter> set (ctx_addrs k) = {}"

lemma bst_at_apart: "bst_at T t k \<Longrightarrow> holds_apart T t k"
  by (auto simp: bst_at_def holds_apart_def)

lemma fill_hole:
  assumes "holds_apart T t k"
  shows "\<exists>T'. set_link (fst (hole k)) (snd (hole k)) (bt_root t) T = Some T' \<and> bst_at T' t k \<and>
    bst_count T' = bst_count T \<and> bst_generation T' = bst_generation T \<and> bst_max_height T' = bst_max_height T \<and>
    (\<forall>x. x \<notin> set (ctx_addrs k) \<longrightarrow> bst_nodes T' x = bst_nodes T x)"
proof (cases k)
  case Nil
  with assms show ?thesis by (auto simp: holds_apart_def bst_at_def)
next
  case (Cons f ks)
  show ?thesis using assms Cons
  proof (cases f)
    case (InLeft a r)
    with assms Cons show ?thesis
      by (cases "bst_nodes T a") (auto simp: mem_simps bst_at_def holds_apart_def)
  next
    case (InRight l a)
    with assms Cons show ?thesis
      by (cases "bst_nodes T a") (auto simp: mem_simps bst_at_def holds_apart_def)
  qed
qed

text \<open>Writing only the cells of a detached tree.\<close>

lemma holds_apart_upd:
  assumes "holds_apart T t k" and "bt_at h t'" and "distinct (bt_addrs t')" and "set (bt_addrs t') \<inter> set (ctx_addrs k) = {}"
    and "\<And>a. a \<in> set (ctx_addrs k) \<Longrightarrow> h a = bst_nodes T a" and "bst_root T' = bst_root T" and "bst_nodes T' = h"
  shows "holds_apart T' t' k"
  using assms bctx_cong [of k h "bst_nodes T"] by (auto simp: holds_apart_def)

definition bst_wf :: "comparator \<Rightarrow> bst_table \<Rightarrow> addr list \<Rightarrow> bool" where
  "bst_wf cmp T xs \<longleftrightarrow> (\<exists>t. bst_at T t [] \<and> bt_addrs t = xs) \<and> cmp_sorted cmp xs \<and> bst_count T = of_nat (length xs)"

lemma bst_wf_list: "bst_wf cmp T xs \<Longrightarrow> distinct xs \<and> NULL \<notin> set xs \<and> cmp_sorted cmp xs"
  by (auto simp: bst_wf_def bst_at_def dest: bt_at_NULL)

section \<open>The descent\<close>

text \<open>
  A searcher that agrees with the order leads to its node, or to the hole where it would stand.
\<close>

lemma descend_ok:
  assumes "bst_at T t k" and "points_to f (bt_addrs t)"
  shows "\<exists>t' k' us vs. bst_descend f (fst (hole k)) (snd (hole k)) T = Some (bt_root t', hole k') \<and> bst_at T t' k' \<and>
    plug t' k' = plug t k \<and> ctx_before k' = ctx_before k @ us \<and> ctx_after k' = vs @ ctx_after k \<and> bt_addrs t = us @ bt_addrs t' @ vs \<and>
    (\<forall>u\<in>set us. 0 < f u) \<and> (\<forall>v\<in>set vs. f v < 0) \<and> (t' = Lf \<or> f (bt_root t') = 0)"
  using assms
proof (induction t arbitrary: k)
  case Lf
  have "bst_descend f (fst (hole k)) (snd (hole k)) T = Some (NULL, hole k)"
    using bst_at_hole [OF Lf(1)] by (subst bst_descend.simps) simp
  with Lf show ?case by (intro exI [of _ Lf] exI [of _ k] exI [of _ "[]"]) simp
next
  case (Nd l a r)
  note Z = Nd.prems(1)
  have step: "bst_descend f (fst (hole k)) (snd (hole k)) T =
     (if f a = 0 then Some (a, hole k) else bst_descend f (Node a) (f a > 0) T)"
    using bst_at_hole [OF Z] bst_at_get(1) [OF Z] by (subst bst_descend.simps) simp
  have sub: "points_to f (bt_addrs l)" "points_to f (bt_addrs r)"
    "\<forall>x\<in>set (bt_addrs l). f x \<le> 0 \<longrightarrow> f a < 0" "\<forall>x\<in>set (bt_addrs r). f a \<le> 0 \<longrightarrow> f x < 0"
    using Nd.prems(2) by (auto simp: sorted_wrt_append)
  consider (eq) "f a = 0" | (lt) "f a < 0" | (gt) "0 < f a" by linarith
  then show ?case
  proof cases
    case eq
    with step Z show ?thesis by (intro exI [of _ "Nd l a r"] exI [of _ k] exI [of _ "[]"]) simp
  next
    case lt
    have "bst_at T l (InLeft a r # k)" using Z bst_at_left by blast
    from Nd.IH(1) [OF this sub(1)] obtain t' k' us vs where
      "bst_descend f (Node a) False T = Some (bt_root t', hole k')" "bst_at T t' k'" "plug t' k' = plug (Nd l a r) k"
      "ctx_before k' = ctx_before k @ us" "ctx_after k' = vs @ a # bt_addrs r @ ctx_after k" "bt_addrs l = us @ bt_addrs t' @ vs"
      "\<forall>u\<in>set us. 0 < f u" "\<forall>v\<in>set vs. f v < 0" "t' = Lf \<or> f (bt_root t') = 0" by auto
    with lt step sub(4) show ?thesis
      by (intro exI [of _ t'] exI [of _ k'] exI [of _ us] exI [of _ "vs @ a # bt_addrs r"]) auto
  next
    case gt
    have "bst_at T r (InRight l a # k)" using Z bst_at_right by blast
    from Nd.IH(2) [OF this sub(2)] obtain t' k' us vs where
      "bst_descend f (Node a) True T = Some (bt_root t', hole k')" "bst_at T t' k'" "plug t' k' = plug (Nd l a r) k"
      "ctx_before k' = ctx_before k @ bt_addrs l @ a # us" "ctx_after k' = vs @ ctx_after k" "bt_addrs r = us @ bt_addrs t' @ vs"
      "\<forall>u\<in>set us. 0 < f u" "\<forall>v\<in>set vs. f v < 0" "t' = Lf \<or> f (bt_root t') = 0" by auto
    moreover have "\<forall>x\<in>set (bt_addrs l). 0 < f x" using sub(3) gt by (auto simp: not_le [symmetric])
    ultimately show ?thesis using gt step
      by (intro exI [of _ t'] exI [of _ k'] exI [of _ "bt_addrs l @ a # us"] exI [of _ vs]) auto
  qed
qed

section \<open>Search\<close>

lemma bst_search_from_ok:
  "bt_at (bst_nodes T) t \<Longrightarrow> points_to f (bt_addrs t) \<Longrightarrow>
   bst_search_from f (bt_root t) T = Some (found (find (\<lambda>x. f x = 0) (bt_addrs t)))"
proof (induction t)
  case Lf
  then show ?case by (subst bst_search_from.simps) (simp add: found_def)
next
  case (Nd l a r)
  have pts: "points_to f (bt_addrs l @ a # bt_addrs r)" using Nd.prems(2) by simp
  have sub: "points_to f (bt_addrs l)" "points_to f (bt_addrs r)" using Nd.prems(2) by (auto simp: sorted_wrt_append)
  have unf: "bst_search_from f a T = (if f a < 0 then bst_search_from f (bt_root l) T
      else if f a > 0 then bst_search_from f (bt_root r) T else Some a)"
    using Nd.prems(1) by (subst bst_search_from.simps) (simp add: mem_simps)
  consider (lt) "f a < 0" | (gt) "0 < f a" | (eq) "f a = 0" by linarith
  then show ?case
  proof cases
    case lt
    with unf Nd.IH(1) Nd.prems(1) sub points_to_find(1) [OF pts lt] show ?thesis by simp
  next
    case gt
    with unf Nd.IH(2) Nd.prems(1) sub points_to_find(2) [OF pts gt] show ?thesis by simp
  next
    case eq
    with unf points_to_find(3) [OF pts eq] show ?thesis by (simp add: found_def)
  qed
qed

lemma bst_search_ok:
  assumes "bst_wf cmp T xs" and "points_to f xs"
  shows "bst_search f T = Some (found (find (\<lambda>x. f x = 0) xs))"
proof -
  from assms(1) obtain t where "bst_at T t []" "bt_addrs t = xs" by (auto simp: bst_wf_def)
  with bst_search_from_ok [of T t f] assms(2) show ?thesis by (simp add: bst_search_def bst_at_def)
qed

section \<open>Insertion\<close>

lemma bst_insert_new:
  assumes wf: "bst_wf cmp T xs" and ord: "cmp_on (insert n (set xs)) cmp" and n: "n \<noteq> NULL" "n \<notin> set xs"
    and new: "\<forall>y\<in>set xs. cmp n y \<noteq> 0"
  shows "\<exists>T'. bst_insert cmp n T = Some (n, T') \<and> bst_wf cmp T' (cmp_insert cmp n xs)"
proof -
  from wf obtain t where t: "bst_at T t []" "bt_addrs t = xs" and srt: "cmp_sorted cmp xs"
    and cnt: "bst_count T = of_nat (length xs)" by (auto simp: bst_wf_def)
  have pts: "points_to (cmp n) (bt_addrs t)" using points_to_cmp [OF srt ord] t(2) by simp
  from descend_ok [OF t(1) pts] obtain t' k us vs where
    d: "bst_descend (cmp n) Table False T = Some (bt_root t', hole k)" "bst_at T t' k" "ctx_before k = us" "ctx_after k = vs"
      "xs = us @ bt_addrs t' @ vs" "\<forall>u\<in>set us. 0 < cmp n u" "\<forall>v\<in>set vs. cmp n v < 0" "t' = Lf \<or> cmp n (bt_root t') = 0"
    using t(2) by auto
  have Lf: "t' = Lf" using d(5,8) new by (cases t') auto
  let ?T = "T\<lparr>bst_count := bst_count T + 1, bst_nodes := (bst_nodes T)(n := \<lparr>bst_link0 = NULL, bst_link1 = NULL\<rparr>)\<rparr>"
  have "holds_apart ?T (Nd Lf n Lf) k"
    using bst_at_apart [OF d(2)] Lf n d(3,4,5) by (auto simp: holds_apart_def)
  from fill_hole [OF this] obtain T' where T': "set_link (fst (hole k)) (snd (hole k)) n ?T = Some T'"
    "bst_at T' (Nd Lf n Lf) k" "bst_count T' = bst_count T + 1" by auto
  have cell: "(bst_nodes T n)\<lparr>bst_link0 := NULL, bst_link1 := NULL\<rparr> = \<lparr>bst_link0 = NULL, bst_link1 = NULL\<rparr>"
    by (cases "bst_nodes T n") simp
  have "bst_insert cmp n T = Some (n, T')"
    using d(1) Lf T'(1) n(1) by (cases "hole k") (simp add: bst_insert_def mem_simps cell)
  moreover have ins: "cmp_insert cmp n xs = us @ n # vs"
    using cmp_insert_split [of us cmp n vs] d(5-7) Lf by fastforce
  have "bst_at T' (plug (Nd Lf n Lf) k) []" using T'(2) bst_at_up by blast
  then have "bst_wf cmp T' (cmp_insert cmp n xs)"
    using cmp_sorted_insert [OF srt ord new] T'(3) cnt ins d(3,4,5) Lf
    unfolding bst_wf_def by (auto simp: bt_addrs_plug intro!: exI [of _ "plug (Nd Lf n Lf) k"])
  ultimately show ?thesis by blast
qed

lemma bst_insert_dup:
  assumes wf: "bst_wf cmp T xs" and ord: "cmp_on (insert n (set xs)) cmp" and y: "y \<in> set xs" "cmp n y = 0"
  shows "bst_insert cmp n T = Some (y, T)"
proof -
  from wf obtain t where t: "bst_at T t []" "bt_addrs t = xs" and srt: "cmp_sorted cmp xs" by (auto simp: bst_wf_def)
  have pts: "points_to (cmp n) (bt_addrs t)" using points_to_cmp [OF srt ord] t(2) by simp
  from descend_ok [OF t(1) pts] obtain t' k us vs where
    d: "bst_descend (cmp n) Table False T = Some (bt_root t', hole k)" "bst_at T t' k"
      "xs = us @ bt_addrs t' @ vs" "\<forall>u\<in>set us. 0 < cmp n u" "\<forall>v\<in>set vs. cmp n v < 0" "t' = Lf \<or> cmp n (bt_root t') = 0"
    using t(2) by auto
  have "y \<in> set (bt_addrs t')" using y d(3-5) by force
  then obtain l a r where t': "t' = Nd l a r" by (cases t') auto
  have "a = y"
  proof -
    have "a \<in> set xs" "cmp n a = 0" using d(3,6) t' by auto
    moreover have "find (\<lambda>x. cmp n x = 0) xs = Some a" if "cmp n a = 0" "a \<in> set xs" for a
    proof -
      from that(2) obtain us vs where "xs = us @ a # vs" by (meson split_list)
      with points_to_find(3) [of "cmp n" us a vs] pts t(2) that(1) show ?thesis by simp
    qed
    ultimately show ?thesis using y by (metis option.inject)
  qed
  then show ?thesis using d(1) t' bst_at_get(1) [of T l a r k] d(2) by (cases "hole k") (simp add: bst_insert_def)
qed


text \<open>
  Removal from the binary search tree, and the tree as a second provider of the ordered-table contract.
\<close>

lemma plug_append: "plug t (k @ k') = plug (plug t k) k'"
  by (induction t k rule: plug.induct) auto

lemma bst_at_append: "bst_at T t (k @ k') \<longleftrightarrow> bst_at T (plug t k) k'"
  by (metis bst_at_up plug_append)

lemma ctx_before_append: "ctx_before (k @ k') = ctx_before k' @ ctx_before k" and ctx_after_append: "ctx_after (k @ k') = ctx_after k @ ctx_after k'"
  by (induction k rule: ctx_before.induct) auto

text \<open>The loop for the successor runs down the left spine.\<close>

lemma successor_ok:
  assumes "bst_at T (Nd l b r) K" and "l \<noteq> Lf"
  shows "\<exists>q s s1 R k. bst_successor b T = Some (q, s) \<and> plug (Nd Lf s s1) (InLeft q R # k) = Nd l b r \<and>
    ctx_before k = [] \<and> bst_at T (Nd Lf s s1) (InLeft q R # k @ K)"
  using assms
proof (induction l arbitrary: b r K)
  case (Nd ll c lr)
  note Z = Nd.prems(1)
  have Zl: "bst_at T (Nd ll c lr) (InLeft b r # K)" using Z bst_at_left by blast
  have unf: "bst_successor b T = (if bt_root ll = NULL then Some (b, c) else bst_successor c T)"
    using bst_at_get [OF Z] bst_at_get [OF Zl] by (subst bst_successor.simps) (simp add: mem_simps)
  show ?case
  proof (cases "ll = Lf")
    case True
    with unf Zl show ?thesis
      by (intro exI [of _ b] exI [of _ c] exI [of _ lr] exI [of _ r] exI [of _ "[]"]) simp
  next
    case False
    then have "bt_root ll \<noteq> NULL" using Zl bt_root_NULL by (auto simp: bst_at_def)
    moreover from Nd.IH(1) [OF Zl False] obtain q s s1 R k where
      "bst_successor c T = Some (q, s)" "plug (Nd Lf s s1) (InLeft q R # k) = Nd ll c lr" "ctx_before k = []"
      "bst_at T (Nd Lf s s1) (InLeft q R # k @ InLeft b r # K)" by blast
    ultimately show ?thesis using unf
      by (intro exI [of _ q] exI [of _ s] exI [of _ s1] exI [of _ R] exI [of _ "k @ [InLeft b r]"])
        (auto simp: plug_append ctx_before_append)
  qed
qed simp


text \<open>Joining the subtrees of a node: the tree at the hole loses exactly its root.\<close>

lemma bst_unlink_ok:
  assumes Z: "bst_at T (Nd l d r) k"
  shows "\<exists>T' t'. bst_unlink d (fst (hole k)) (snd (hole k)) T = Some T' \<and> bst_at T' t' k \<and> bt_addrs t' = bt_addrs l @ bt_addrs r \<and>
    bst_count T' = bst_count T - 1 \<and> bst_generation T' = bst_generation T + 1 \<and> bst_max_height T' = bst_max_height T"
proof -
  note get = bst_at_get [OF Z]
  have close: "bst_at (T'\<lparr>bst_count := m, bst_generation := g\<rparr>) t' k" if "bst_at T' t' k" for T' t' m g
    using that by (simp add: bst_at_def)
  consider (none) "r = Lf" | (child) b rr where "r = Nd Lf b rr" | (deep) rl b rr where "r = Nd rl b rr" "rl \<noteq> Lf"
    by (cases r) auto
  then show ?thesis
  proof cases
    case none
    have "holds_apart T l k" using bst_at_apart [OF Z] by (auto simp: holds_apart_def)
    from fill_hole [OF this] obtain T' where "set_link (fst (hole k)) (snd (hole k)) (bt_root l) T = Some T'" "bst_at T' l k"
      "bst_count T' = bst_count T" "bst_generation T' = bst_generation T" "bst_max_height T' = bst_max_height T" by blast
    with none get show ?thesis by (auto simp: bst_unlink_def intro!: exI [of _ l] close)
  next
    case child
    have Zr: "bst_at T (Nd Lf b rr) (InRight l d # k)" using Z child bst_at_right by blast
    let ?T = "T\<lparr>bst_nodes := (bst_nodes T)(b := (bst_nodes T b)\<lparr>bst_link0 := bt_root l\<rparr>)\<rparr>"
    have "holds_apart ?T (Nd l b rr) k" using bst_at_apart [OF Z] child by (auto simp: holds_apart_def)
    from fill_hole [OF this] obtain T' where "set_link (fst (hole k)) (snd (hole k)) b ?T = Some T'" "bst_at T' (Nd l b rr) k"
      "bst_count T' = bst_count T" "bst_generation T' = bst_generation T" "bst_max_height T' = bst_max_height T" by auto
    with child get bst_at_get [OF Zr] show ?thesis
      by (auto simp: bst_unlink_def mem_simps intro!: exI [of _ "Nd l b rr"] close)
  next
    case deep
    have Zr: "bst_at T (Nd rl b rr) (InRight l d # k)" using Z deep bst_at_right by blast
    from successor_ok [OF Zr deep(2)] obtain q s s1 R ks where
      succ: "bst_successor b T = Some (q, s)" "plug (Nd Lf s s1) (InLeft q R # ks) = Nd rl b rr" "ctx_before ks = []"
        "bst_at T (Nd Lf s s1) (InLeft q R # ks @ InRight l d # k)" by blast
    have nz: "bt_root rl \<noteq> NULL" using deep(2) Zr bt_root_NULL by (auto simp: bst_at_def)
    let ?r = "plug s1 (InLeft q R # ks)"
    have ads: "bt_addrs r = s # bt_addrs ?r"
      using arg_cong [OF succ(2), of bt_addrs] deep(1) succ(3) by (simp add: bt_addrs_plug)
    have "holds_apart T s1 (InLeft q R # ks @ InRight l d # k)" using bst_at_apart [OF succ(4)] by (auto simp: holds_apart_def)
    from fill_hole [OF this] obtain T1 where
      T1: "set_link (Node q) False (bt_root s1) T = Some T1" "bst_at T1 s1 (InLeft q R # ks @ InRight l d # k)"
        "bst_count T1 = bst_count T" "bst_generation T1 = bst_generation T" "bst_max_height T1 = bst_max_height T" by auto
    have "bst_at T1 ?r (InRight l d # k)" using T1(2) bst_at_append [of T1 s1 "InLeft q R # ks"] by simp
    moreover have "d \<notin> set (bt_addrs ?r)" using Z ads by (auto simp: bst_at_def)
    ultimately have Z1: "bst_at T1 (Nd l d ?r) k" using bst_at_right by blast
    have s: "s \<notin> set (bt_addrs l)" "s \<notin> set (bt_addrs ?r)" "s \<noteq> d" "s \<notin> set (ctx_addrs k)" "s \<noteq> NULL"
      using Z ads bst_at_get(1) [OF succ(4)] by (auto simp: bst_at_def)
    let ?T = "T1\<lparr>bst_nodes := (bst_nodes T1)(s := \<lparr>bst_link0 = bt_root l, bst_link1 = bt_root ?r\<rparr>)\<rparr>"
    have "holds_apart ?T (Nd l s ?r) k" using bst_at_apart [OF Z1] s by (auto simp: holds_apart_def)
    from fill_hole [OF this] obtain T' where T': "set_link (fst (hole k)) (snd (hole k)) s ?T = Some T'" "bst_at T' (Nd l s ?r) k"
      "bst_count T' = bst_count T1" "bst_generation T' = bst_generation T1" "bst_max_height T' = bst_max_height T1" by auto
    have cell: "(bst_nodes T1 s)\<lparr>bst_link0 := u, bst_link1 := v\<rparr> = \<lparr>bst_link0 = u, bst_link1 = v\<rparr>" for u v
      by (cases "bst_nodes T1 s") simp
    have "bst_unlink d (fst (hole k)) (snd (hole k)) T = Some (T'\<lparr>bst_count := bst_count T' - 1, bst_generation := bst_generation T' + 1\<rparr>)"
    proof -
      let ?T2 = "T1\<lparr>bst_nodes := (bst_nodes T1)(s := (bst_nodes T1 s)\<lparr>bst_link0 := bt_root l\<rparr>)\<rparr>"
      have "set_link (Node s) False (bt_root l) T1 = Some ?T2" "set_link (Node s) True (bt_root ?r) ?T2 = Some ?T"
        using s(5) by (simp_all add: mem_simps cell)
      moreover have "get_link (Node d) True ?T2 = Some (bt_root ?r)"
        using bst_at_get [OF Z1] s(3) by (auto simp: mem_simps)
      ultimately show ?thesis
        using get bst_at_get [OF Zr] nz succ(1) bst_at_get(3) [OF succ(4)] T1(1) bst_at_get(2) [OF Z1] T'(1) deep(1)
        by (simp add: bst_unlink_def del: set_link.simps get_link.simps)
    qed
    with T' T1 ads show ?thesis by (auto intro!: exI [of _ "Nd l s ?r"] close)
  qed
qed

text \<open>Both removals: the node the descent finds is unlinked.\<close>

lemma bst_unlink_wf:
  assumes wf: "bst_wf cmp T xs" and pts: "points_to f xs" and d: "d \<in> set xs" "f d = 0"
  shows "\<exists>p dir T'. bst_descend f Table False T = Some (d, p, dir) \<and> bst_unlink d p dir T = Some T' \<and>
    bst_wf cmp T' (remove1 d xs) \<and> bst_generation T' = bst_generation T + 1"
proof -
  from wf obtain t where t: "bst_at T t []" "bt_addrs t = xs" and srt: "cmp_sorted cmp xs"
    and cnt: "bst_count T = of_nat (length xs)" by (auto simp: bst_wf_def)
  from descend_ok [OF t(1), of f] pts t(2) obtain t' k us vs where
    D: "bst_descend f Table False T = Some (bt_root t', hole k)" "bst_at T t' k" "ctx_before k = us" "ctx_after k = vs"
      "xs = us @ bt_addrs t' @ vs" "\<forall>u\<in>set us. 0 < f u" "\<forall>v\<in>set vs. f v < 0" "t' = Lf \<or> f (bt_root t') = 0" by auto
  have dist: "distinct xs" using bst_wf_list [OF wf] by blast
  have "d \<in> set (bt_addrs t')" using d D(5-7) by force
  then obtain l a r where t': "t' = Nd l a r" by (cases t') auto
  have "f a = 0" using D(8) t' by simp
  have split: "xs = (us @ bt_addrs l) @ a # (bt_addrs r @ vs)" using D(5) t' by simp
  have "a = d"
  proof -
    from d(1) obtain ys zs where yz: "xs = ys @ d # zs" by (meson split_list)
    from points_to_find(3) [of f ys d zs] points_to_find(3) [of f "us @ bt_addrs l" a "bt_addrs r @ vs"] pts yz split d(2) \<open>f a = 0\<close>
    show ?thesis by (metis option.inject)
  qed
  from bst_unlink_ok [of T l a r k] D(2) t' obtain T' u where
    T': "bst_unlink a (fst (hole k)) (snd (hole k)) T = Some T'" "bst_at T' u k" "bt_addrs u = bt_addrs l @ bt_addrs r"
      "bst_count T' = bst_count T - 1" "bst_generation T' = bst_generation T + 1" by blast
  have rem: "remove1 d xs = us @ (bt_addrs l @ bt_addrs r) @ vs" using split \<open>a = d\<close> dist by (auto simp: remove1_append)
  have "bst_at T' (plug u k) []" using T'(2) bst_at_up by blast
  moreover have "bt_addrs (plug u k) = remove1 d xs" using rem T'(3) D(3,4) by (simp add: bt_addrs_plug)
  moreover have "cmp_sorted cmp (remove1 d xs)" using srt split rem by (auto simp: sorted_wrt_append)
  moreover have "bst_count T' = of_nat (length (remove1 d xs))"
    using T'(4) cnt split rem by simp
  ultimately have "bst_wf cmp T' (remove1 d xs)" unfolding bst_wf_def by blast
  with D(1) t' T'(1,5) \<open>a = d\<close> show ?thesis by (cases "hole k") auto
qed

lemma bst_remove_ok:
  assumes wf: "bst_wf cmp T xs" and ord: "cmp_on (set xs) cmp" and n: "n \<in> set xs"
  shows "\<exists>T'. bst_remove cmp n self T = Some (n, T') \<and> bst_wf cmp T' (remove1 n xs) \<and> bst_generation T' = bst_generation T + 1"
proof -
  have "cmp_sorted cmp xs" "NULL \<notin> set xs" using bst_wf_list [OF wf] by blast+
  then have "points_to (cmp n) xs" using points_to_cmp [of cmp xs n] ord n by (simp add: insert_absorb)
  from bst_unlink_wf [OF wf this n cmp_refl [OF ord n]] \<open>NULL \<notin> set xs\<close> n show ?thesis by (auto simp: bst_remove_def)
qed

interpretation bst: ordered_table bst_wf bst_insert "\<lambda>cmp n T. map_option snd (bst_remove cmp n True T)" bst_search
proof unfold_locales
  fix cmp T xs n
  assume "bst_wf cmp T xs" "cmp_on (set xs) cmp" "n \<in> set xs"
  from bst_remove_ok [OF this, of True]
  show "\<exists>T'. map_option snd (bst_remove cmp n True T) = Some T' \<and> bst_wf cmp T' (remove1 n xs)" by auto
qed (simp_all add: bst_wf_list bst_insert_new bst_insert_dup bst_search_ok)

end
