(* ===== verification/BST_Balance.thy ===== *)
theory BST_Balance
  imports BST_Rep
begin

text \<open>
  Balancing: \<open>slant_left\<close> turns the tree into a left vine, \<open>slant_back\<close> folds it. Both keep the
  in-order list; the folded tree has minimal height.
\<close>

lemma word_of_nat_eq_unat: "of_nat (unat w) = w" for w :: "64 word"
  by simp

lemma unat_word64: "n < 2 ^ 64 \<Longrightarrow> unat (of_nat n :: 64 word) = n"
  by (simp add: unsigned_of_nat take_bit_nat_eq_self)

section \<open>The vine\<close>

fun mass :: "bt \<Rightarrow> nat" where
  "mass Lf = 0"
| "mass (Nd l a r) = mass l + 2 * length (bt_addrs r) + 1"

function slant :: "bt \<Rightarrow> bt" where
  "slant Lf = Lf"
| "slant (Nd l a Lf) = Nd (slant l) a Lf"
| "slant (Nd l a (Nd rl b rr)) = slant (Nd (Nd l a rl) b rr)"
  by pat_completeness auto

termination by (relation "measure mass") auto

fun left_vine :: "bt \<Rightarrow> bool" where
  "left_vine Lf \<longleftrightarrow> True"
| "left_vine (Nd l a r) \<longleftrightarrow> r = Lf \<and> left_vine l"

lemma bt_addrs_slant [simp]: "bt_addrs (slant t) = bt_addrs t"
  by (induction t rule: slant.induct) auto

lemma left_vine_slant: "left_vine (slant t)"
  by (induction t rule: slant.induct) auto

lemma slant_left_from_ok:
  "bst_at T t k \<Longrightarrow> \<not> snd (hole k) \<Longrightarrow>
   \<exists>T'. slant_left_from (fst (hole k)) (bt_root t) T = Some T' \<and> bst_at T' (slant t) k \<and>
     bst_count T' = bst_count T \<and> bst_generation T' = bst_generation T \<and> bst_max_height T' = bst_max_height T"
proof (induction t arbitrary: T k rule: slant.induct)
  case 1
  then show ?case by (subst slant_left_from.simps) simp
next
  case (2 l a)
  have "bst_at T l (InLeft a Lf # k)" using 2(2) bst_at_left by blast
  from 2(1) [OF this] obtain T' where T': "slant_left_from (Node a) (bt_root l) T = Some T'"
    "bst_at T' (slant l) (InLeft a Lf # k)"
    "bst_count T' = bst_count T" "bst_generation T' = bst_generation T" "bst_max_height T' = bst_max_height T" by auto
  have "slant_left_from (fst (hole k)) a T = slant_left_from (Node a) (bt_root l) T"
    using bst_at_get [OF 2(2)] by (subst slant_left_from.simps) (simp del: get_link.simps)
  moreover have "bst_at T' (Nd (slant l) a Lf) k" using bst_at_append [of T' "slant l" "[InLeft a Lf]" k] T'(2) by simp
  ultimately show ?case using T' by simp
next
  case (3 l a rl b rr)
  have Zr: "bst_at T (Nd rl b rr) (InRight l a # k)" using 3(2) bst_at_right by blast
  let ?T1 = "T\<lparr>bst_nodes := (bst_nodes T)(a := \<lparr>bst_link0 = bt_root l, bst_link1 = bt_root rl\<rparr>)\<rparr>"
  let ?T2 = "?T1\<lparr>bst_nodes := (bst_nodes ?T1)(b := \<lparr>bst_link0 = a, bst_link1 = bt_root rr\<rparr>)\<rparr>"
  have cells: "bst_nodes T a = \<lparr>bst_link0 = bt_root l, bst_link1 = b\<rparr>" "bst_nodes T b = \<lparr>bst_link0 = bt_root rl, bst_link1 = bt_root rr\<rparr>"
    "a \<noteq> NULL" "b \<noteq> NULL" "b \<noteq> a" using 3(2) by (auto simp: bst_at_def)
  have w: "set_link (Node a) True (bt_root rl) T = Some ?T1" "set_link (Node b) False a ?T1 = Some ?T2"
    using cells by (simp_all add: mem_simps)
  have "holds_apart ?T2 (Nd (Nd l a rl) b rr) k" using bst_at_apart [OF 3(2)] by (auto simp: holds_apart_def)
  from fill_hole [OF this] 3(3) obtain T3 where T3: "set_link (fst (hole k)) False b ?T2 = Some T3" "bst_at T3 (Nd (Nd l a rl) b rr) k"
    "bst_count T3 = bst_count T" "bst_generation T3 = bst_generation T" "bst_max_height T3 = bst_max_height T" by auto
  have "slant_left_from (fst (hole k)) a T = slant_left_from (fst (hole k)) b T3"
    using bst_at_get [OF 3(2)] bst_at_get [OF Zr] w T3(1)
    by (subst slant_left_from.simps) (simp del: get_link.simps set_link.simps)
  with 3(1) [OF T3(2) 3(3)] T3 show ?case by simp
qed

section \<open>Folding\<close>

fun spine :: "bt \<Rightarrow> nat" where
  "spine Lf = 0"
| "spine (Nd l a r) = Suc (spine l)"

fun compress :: "nat \<Rightarrow> bt \<Rightarrow> bt" where
  "compress (Suc n) (Nd (Nd l b rb) a ra) = Nd (compress n l) b (Nd rb a ra)"
| "compress n t = t"

lemma bt_addrs_compress [simp]: "bt_addrs (compress n t) = bt_addrs t"
  by (induction n t rule: compress.induct) auto

lemma slant_left_back_ok:
  "bst_at T t k \<Longrightarrow> \<not> snd (hole k) \<Longrightarrow> 2 * n \<le> spine t \<Longrightarrow>
   \<exists>T'. slant_left_back n (fst (hole k)) T = Some T' \<and> bst_at T' (compress n t) k \<and>
     bst_count T' = bst_count T \<and> bst_generation T' = bst_generation T \<and> bst_max_height T' = bst_max_height T"
proof (induction n arbitrary: T t k)
  case 0
  then show ?case by (cases t) auto
next
  case (Suc n)
  then obtain l b rb a ra where t: "t = Nd (Nd l b rb) a ra" and n: "2 * n \<le> spine l"
    by (cases t; cases "case t of Nd l a r \<Rightarrow> l") auto
  have Z: "bst_at T (Nd (Nd l b rb) a ra) k" using Suc.prems(1) t by simp
  have cells: "bst_nodes T a = \<lparr>bst_link0 = b, bst_link1 = bt_root ra\<rparr>" "bst_nodes T b = \<lparr>bst_link0 = bt_root l, bst_link1 = bt_root rb\<rparr>"
    "a \<noteq> NULL" "b \<noteq> NULL" "b \<noteq> a" using Z by (auto simp: bst_at_def)
  have dis: "a \<notin> set (ctx_addrs k)" "b \<notin> set (ctx_addrs k)" "set (bt_addrs ra) \<inter> set (ctx_addrs k) = {}"
    using Z by (auto simp: bst_at_def)
  have hole: "get_link (fst (hole k)) False T = Some a" using bst_at_hole [OF Z] Suc.prems(2) by simp
  have "holds_apart T (Nd l b rb) k" using bst_at_apart [OF Z] by (auto simp: holds_apart_def)
  from fill_hole [OF this] Suc.prems(2) obtain T1 where T1: "set_link (fst (hole k)) False b T = Some T1" "bst_at T1 (Nd l b rb) k"
    "bst_count T1 = bst_count T" "bst_generation T1 = bst_generation T" "bst_max_height T1 = bst_max_height T"
    "\<forall>x. x \<notin> set (ctx_addrs k) \<longrightarrow> bst_nodes T1 x = bst_nodes T x" by auto
  have cell1: "bst_nodes T1 a = \<lparr>bst_link0 = b, bst_link1 = bt_root ra\<rparr>" "bst_nodes T1 b = \<lparr>bst_link0 = bt_root l, bst_link1 = bt_root rb\<rparr>"
    using T1(6) dis cells by auto
  let ?T2 = "T1\<lparr>bst_nodes := (bst_nodes T1)(a := \<lparr>bst_link0 = bt_root rb, bst_link1 = bt_root ra\<rparr>)\<rparr>"
  let ?T3 = "?T2\<lparr>bst_nodes := (bst_nodes ?T2)(b := \<lparr>bst_link0 = bt_root l, bst_link1 = a\<rparr>)\<rparr>"
  have "bt_at (bst_nodes T1) ra = bt_at (bst_nodes T) ra" by (rule bt_at_cong) (use T1(6) dis(3) in auto)
  then have ra: "bt_at (bst_nodes T1) ra" using Z by (simp add: bst_at_def)
  have "distinct (bt_addrs l @ b # bt_addrs rb @ a # bt_addrs ra)" "set (bt_addrs l @ b # bt_addrs rb @ a # bt_addrs ra) \<inter> set (ctx_addrs k) = {}"
    using Z by (auto simp: bst_at_def)
  with T1(2) ra dis cells have Z3: "bst_at ?T3 (Nd l b (Nd rb a ra)) k" by (auto simp: bst_at_def)
  then have "bst_at ?T3 l (InLeft b (Nd rb a ra) # k)" using bst_at_left by blast
  from Suc.IH [OF this _ n] obtain T' where T': "slant_left_back n (Node b) ?T3 = Some T'"
    "bst_at T' (compress n l) (InLeft b (Nd rb a ra) # k)"
    "bst_count T' = bst_count T1" "bst_generation T' = bst_generation T1" "bst_max_height T' = bst_max_height T1" by auto
  have "slant_left_back (Suc n) (fst (hole k)) T = slant_left_back n (Node b) ?T3"
    using hole T1(1) cells(1,3,4,5) cell1 by (simp add: mem_simps)
  moreover have "bst_at T' (Nd (compress n l) b (Nd rb a ra)) k"
    using bst_at_append [of T' "compress n l" "[InLeft b (Nd rb a ra)]" k] T'(2) by simp
  ultimately show ?case using T' T1 t by simp
qed

section \<open>Height\<close>

text \<open>\<open>comb d m t\<close>: a left spine of \<open>m\<close> nodes whose right subtrees, and the rest below, are at most \<open>d\<close> high.\<close>

fun comb :: "nat \<Rightarrow> nat \<Rightarrow> bt \<Rightarrow> bool" where
  "comb d 0 t \<longleftrightarrow> bt_height t \<le> d"
| "comb d (Suc m) Lf \<longleftrightarrow> False"
| "comb d (Suc m) (Nd l a r) \<longleftrightarrow> bt_height r \<le> d \<and> comb d m l"

lemma comb_spine: "comb d m t \<Longrightarrow> m \<le> spine t"
  by (induction d m t rule: comb.induct) auto

lemma comb_vine: "left_vine t \<Longrightarrow> comb 0 (length (bt_addrs t)) t"
  by (induction t) auto

lemma comb_mono: "comb d m t \<Longrightarrow> d \<le> d' \<Longrightarrow> comb d' m t"
  by (induction d m t rule: comb.induct) auto

lemma comb_fold: "comb d (Suc (2 * n)) t \<Longrightarrow> comb (Suc d) n (compress n t)"
proof (induction n arbitrary: t)
  case 0
  then show ?case by (cases t) auto
next
  case (Suc n)
  then obtain l b rb a ra where "t = Nd (Nd l b rb) a ra" "comb d (Suc (2 * n)) l" "bt_height rb \<le> d" "bt_height ra \<le> d"
    by (cases t; cases "case t of Nd l a r \<Rightarrow> l") auto
  with Suc.IH [of l] show ?case by simp
qed

lemma comb_leaves: "comb 0 (2 * m + j) t \<Longrightarrow> comb (if m > 0 then 1 else 0) (m + j) (compress m t)"
proof (induction m arbitrary: t)
  case 0
  then show ?case by (cases t) auto
next
  case (Suc m)
  then obtain l b rb a ra where t: "t = Nd (Nd l b rb) a ra" "comb 0 (2 * m + j) l" "bt_height rb \<le> 0" "bt_height ra \<le> 0"
    by (cases t; cases "case t of Nd l a r \<Rightarrow> l") auto
  with comb_mono [OF Suc.IH [OF t(2)], of 1] show ?case by simp
qed

lemma slant_back_loop_ok:
  assumes "bst_at T t []" and "comb d (2 ^ j - 1) t" and "j \<le> 64"
  shows "\<exists>T' t'. slant_back_loop (of_nat (2 ^ j - 1)) h T = Some (h + (j - 1), T') \<and> bst_at T' t' [] \<and> bt_addrs t' = bt_addrs t \<and>
    bt_height t' \<le> d + j \<and> bst_count T' = bst_count T \<and> bst_generation T' = bst_generation T \<and> bst_max_height T' = bst_max_height T"
  using assms
proof (induction j arbitrary: T t d h)
  case 0
  then show ?case by (subst slant_back_loop.simps) auto
next
  case (Suc j)
  show ?case
  proof (cases "j = 0")
    case True
    with Suc.prems have "bt_height t \<le> d + 1" by (cases t) auto
    with True Suc.prems show ?thesis by (subst slant_back_loop.simps) auto
  next
    case False
    let ?v = "of_nat (2 ^ Suc j - 1) :: 64 word"
    have lt: "(2 :: nat) ^ Suc j - 1 < 2 ^ 64" using Suc.prems(3) power_increasing [of "Suc j" 64 "2 :: nat"] by simp
    have v: "unat ?v = 2 ^ Suc j - 1" using unat_word64 [OF lt] .
    have d: "unat (drop_bit 1 ?v) = 2 ^ j - 1" using v by (simp add: drop_bit_eq_div unat_div)
    then have dv: "drop_bit 1 ?v = of_nat (2 ^ j - 1)" by (metis word_of_nat_eq_unat)
    have "(2 :: nat) ^ j \<ge> 2" using False power_increasing [of 1 j "2 :: nat"] by simp
    then have gt: "1 < ?v" using v by (simp add: word_less_nat_alt)
    have two: "2 ^ Suc j - 1 = Suc (2 * (2 ^ j - 1 :: nat))" using \<open>2 ^ j \<ge> 2\<close> by simp
    have sp: "2 * (2 ^ j - 1) \<le> spine t" using comb_spine [OF Suc.prems(2)] two by simp
    from slant_left_back_ok [OF Suc.prems(1) _ sp] obtain T1 where T1: "slant_left_back (2 ^ j - 1) Table T = Some T1"
      "bst_at T1 (compress (2 ^ j - 1) t) []" "bst_count T1 = bst_count T" "bst_generation T1 = bst_generation T"
      "bst_max_height T1 = bst_max_height T" by auto
    have "comb (Suc d) (2 ^ j - 1) (compress (2 ^ j - 1) t)" using comb_fold Suc.prems(2) two by metis
    from Suc.IH [OF T1(2) this, of "h + 1"] Suc.prems(3) obtain T' t' where
      "slant_back_loop (of_nat (2 ^ j - 1)) (h + 1) T1 = Some (h + 1 + (j - 1), T')" "bst_at T' t' []" "bt_addrs t' = bt_addrs t"
      "bt_height t' \<le> Suc d + j" "bst_count T' = bst_count T1" "bst_generation T' = bst_generation T1"
      "bst_max_height T' = bst_max_height T1" by auto
    with T1 gt d dv False show ?thesis by (subst slant_back_loop.simps) (auto simp del: of_nat_diff)
  qed
qed


section \<open>The number of leaves\<close>

lemma top_bit: "2 ^ k \<le> x \<Longrightarrow> x < 2 ^ Suc k \<Longrightarrow> bit x k" for x :: nat
proof -
  assume "2 ^ k \<le> x" "x < 2 ^ Suc k"
  then have "x div 2 ^ k = 1" by (intro div_nat_eqI) auto
  then show "bit x k" by (simp add: bit_iff_odd)
qed

lemma bit_ge: "bit x k \<Longrightarrow> 2 ^ k \<le> x" for x :: nat
  by (metis bit_iff_odd div_less even_zero not_le)

lemma leaves_loop_ok: "2 ^ k \<le> unat w \<Longrightarrow> unat w < 2 ^ Suc k \<Longrightarrow> unat (leaves_loop w) = 2 ^ k"
proof (induction w rule: leaves_loop.induct)
  case (1 w)
  let ?v = "w AND (w - 1)"
  have and_unat: "unat ?v = unat w AND unat (w - 1)" by (simp add: unsigned_and_eq)
  have "w \<noteq> 0" using 1(2) by (metis not_le unsigned_0 zero_less_numeral zero_less_power)
  then have pred: "unat (w - 1) = unat w - 1" by (simp add: unat_minus_one)
  have bw: "bit (unat w) k" using top_bit 1(2,3) by blast
  have both: "bit (unat ?v) k" if "2 ^ k < unat w"
    using that bw top_bit [of k "unat w - 1"] 1(3) by (simp add: and_unat pred bit_and_iff)
  show ?case
  proof (cases "?v = 0")
    case True
    then have "\<not> 2 ^ k < unat w" using both by auto
    with True 1(2) show ?thesis by (subst leaves_loop.simps) simp
  next
    case False
    have "2 ^ k < unat w"
    proof (rule ccontr)
      assume "\<not> 2 ^ k < unat w"
      then have e: "unat w = 2 ^ k" using 1(2) by simp
      have "unat ?v = 0"
      proof (rule bit_eqI)
        fix n
        show "bit (unat ?v) n = bit (0 :: nat) n"
          using bit_ge [of "2 ^ k - 1" k] by (auto simp: and_unat pred e bit_and_iff bit_exp_iff)
      qed
      with False show False by (simp add: unat_eq_0)
    qed
    from bit_ge [OF both [OF this]] have "2 ^ k \<le> unat ?v" .
    moreover have "unat ?v \<le> unat w" by (simp add: word_le_nat_alt [symmetric] word_and_le2)
    ultimately have "unat (leaves_loop ?v) = 2 ^ k" using 1(1) [OF False] 1(3) by simp
    with False show ?thesis by (subst leaves_loop.simps) simp
  qed
qed

lemma slant_back_ok:
  assumes Z: "bst_at T t []" and vine: "left_vine t" and cnt: "bst_count T = of_nat (length (bt_addrs t))"
    and len: "length (bt_addrs t) < 2 ^ 64 - 1"
  shows "\<exists>h T' t'. slant_back T = Some (h, T') \<and> bst_at T' t' [] \<and> bt_addrs t' = bt_addrs t \<and> bt_height t' \<le> h \<and>
    (t \<noteq> Lf \<longrightarrow> 2 ^ (h - 1) \<le> length (bt_addrs t)) \<and>
    bst_count T' = bst_count T \<and> bst_generation T' = bst_generation T \<and> bst_max_height T' = bst_max_height T"
proof -
  let ?n = "length (bt_addrs t)"
  obtain k where k: "2 ^ k \<le> ?n + 1" "?n + 1 < 2 ^ Suc k" using ex_power_ivl1 [of 2 "?n + 1"] by auto
  have un: "unat (bst_count T) = ?n" "unat (bst_count T + 1) = ?n + 1"
  proof -
    show "unat (bst_count T) = ?n" unfolding cnt by (rule unat_word64) (use len in simp)
    have "bst_count T + 1 = of_nat (?n + 1)" using cnt by simp
    then show "unat (bst_count T + 1) = ?n + 1" using unat_word64 [of "?n + 1"] len by (simp add: add.commute)
  qed
  have "2 ^ k < (2 :: nat) ^ 64" using k(1) len by simp
  then have k64: "k < 64" using power_less_imp_less_exp [of "2 :: nat" k 64] by simp
  have ll: "unat (leaves_loop (bst_count T + 1)) = 2 ^ k" using leaves_loop_ok [of k "bst_count T + 1"] un(2) k by simp
  let ?lv = "bst_count T + 1 - leaves_loop (bst_count T + 1)"
  let ?m = "?n + 1 - 2 ^ k"
  have m: "unat ?lv = ?m" using un(2) ll k(1) by (simp add: unat_sub word_le_nat_alt)
  have j: "?n = 2 * ?m + (?n - 2 * ?m)" "?m + (?n - 2 * ?m) = 2 ^ k - 1" "?n - ?m = 2 ^ k - 1" using k by simp_all
  have c: "comb 0 (2 * ?m + (?n - 2 * ?m)) t" using comb_vine [OF vine] j(1) by simp
  have sp: "2 * ?m \<le> spine t" using comb_spine [OF c] by simp
  from slant_left_back_ok [OF Z _ sp] obtain T1 where T1: "slant_left_back ?m Table T = Some T1"
    "bst_at T1 (compress ?m t) []" "bst_count T1 = bst_count T" "bst_generation T1 = bst_generation T"
    "bst_max_height T1 = bst_max_height T" by auto
  let ?d = "if ?m > 0 then 1 else 0 :: nat"
  have "comb ?d (2 ^ k - 1) (compress ?m t)" using comb_leaves [OF c] unfolding j(2) .
  from slant_back_loop_ok [OF T1(2) this, of "1 + ?d"] k64 obtain T' t' where
    T': "slant_back_loop (of_nat (2 ^ k - 1)) (1 + ?d) T1 = Some (1 + ?d + (k - 1), T')" "bst_at T' t' []" "bt_addrs t' = bt_addrs t"
      "bt_height t' \<le> ?d + k" "bst_count T' = bst_count T1" "bst_generation T' = bst_generation T1"
      "bst_max_height T' = bst_max_height T1" by auto
  have "leaves_loop (bst_count T + 1) \<noteq> 0" using ll by (metis power_not_zero unsigned_0 zero_neq_numeral)
  then have "unat (bst_count T - ?lv) = 2 ^ k - 1" using ll by (simp add: unat_minus_one)
  then have v: "bst_count T - ?lv = of_nat (2 ^ k - 1)" by (metis word_of_nat_eq_unat)
  have pos: "?lv > 0 \<longleftrightarrow> ?m > 0" using m by (simp add: word_less_nat_alt)
  have "slant_back T = Some (1 + ?d + (k - 1), T')"
    using T1(1,3) T'(1) v m pos by (simp add: slant_back_def)
  moreover have "bt_height t' \<le> 1 + ?d + (k - 1)" using T'(4) by (cases k) auto
  moreover have "t \<noteq> Lf \<longrightarrow> 2 ^ (1 + ?d + (k - 1) - 1) \<le> ?n"
  proof
    assume "t \<noteq> Lf"
    then have "?n > 0" by (cases t) auto
    then have "k \<noteq> 0" using k(2) by (cases k) auto
    then obtain i where "k = Suc i" by (cases k) auto
    then show "2 ^ (1 + ?d + (k - 1) - 1) \<le> ?n" using k \<open>?n > 0\<close> by auto
  qed
  ultimately show ?thesis using T' T1 by auto
qed

lemma bst_balance_ok:
  assumes wf: "bst_wf cmp T xs" and len: "length xs < 2 ^ 64 - 1"
  shows "\<exists>T' t. bst_balance T = Some T' \<and> bst_wf cmp T' xs \<and> bst_at T' t [] \<and> bt_addrs t = xs \<and>
    (xs \<noteq> [] \<longrightarrow> 2 ^ (bt_height t - 1) \<le> length xs) \<and> bst_generation T' = bst_generation T + 1 \<and> bst_max_height T' = bst_max_height T"
proof -
  from wf obtain t where t: "bst_at T t []" "bt_addrs t = xs" and srt: "cmp_sorted cmp xs"
    and cnt: "bst_count T = of_nat (length xs)" by (auto simp: bst_wf_def)
  from slant_left_from_ok [OF t(1)] obtain T1 where T1: "slant_left T = Some T1" "bst_at T1 (slant t) []"
    "bst_count T1 = bst_count T" "bst_generation T1 = bst_generation T" "bst_max_height T1 = bst_max_height T"
    using t(1) by (auto simp: slant_left_def bst_at_def)
  from slant_back_ok [OF T1(2) left_vine_slant] T1(3) cnt len t(2) obtain h T2 u where
    T2: "slant_back T1 = Some (h, T2)" "bst_at T2 u []" "bt_addrs u = xs" "bt_height u \<le> h" "slant t \<noteq> Lf \<longrightarrow> 2 ^ (h - 1) \<le> length xs"
      "bst_count T2 = bst_count T1" "bst_generation T2 = bst_generation T1" "bst_max_height T2 = bst_max_height T1" by auto
  let ?T = "T2\<lparr>bst_generation := bst_generation T2 + 1\<rparr>"
  have Z: "bst_at ?T u []" using T2(2) by (simp add: bst_at_def)
  then have "bst_wf cmp ?T xs" using T2(3,6) T1(3) cnt srt unfolding bst_wf_def by auto
  moreover have "2 ^ (bt_height u - 1) \<le> length xs" if "xs \<noteq> []"
  proof -
    have "bt_addrs (slant t) \<noteq> []" using that t(2) by simp
    then have "slant t \<noteq> Lf" by (cases "slant t") auto
    with T2(4,5) show ?thesis
      by (meson diff_le_mono le_trans one_le_numeral power_increasing)
  qed
  ultimately show ?thesis using T1 T2 Z by (intro exI [of _ ?T] exI [of _ u]) (auto simp: bst_balance_def)
qed

end
