(* ===== verification/BST_Iterator.thy ===== *)
theory BST_Iterator
  imports BST_Balance
begin

text \<open>
  The iterators of \<open>common/bst.c\<close>. An iterator keeps the path to its node on a stack of
  \<open>bst_max_height\<close> entries; when the stack is too small the tree is balanced and the step repeated,
  and when the tree has changed (its generation differs) the stack is rebuilt. Steps in the two
  directions differ in the side of the links only; \<open>dir\<close> is the side a step goes to first.
\<close>

section \<open>The code\<close>

record bst_iterator =
  it_node :: addr
  it_stack :: "addr list"
  it_generation :: "64 word"

definition it_full :: "bst_iterator \<Rightarrow> bst_table \<Rightarrow> bool" where
  "it_full it T \<longleftrightarrow> length (it_stack it) \<ge> unat (bst_max_height T)"

definition it_push :: "addr \<Rightarrow> bst_iterator \<Rightarrow> bst_iterator" where
  "it_push x it = it\<lparr>it_stack := x # it_stack it\<rparr>"

text \<open>\<open>iter_ok\<close> and \<open>stack_ok\<close>: whether the two allocations succeed.\<close>

definition bst_iterator_init :: "bool \<Rightarrow> bool \<Rightarrow> bst_table \<Rightarrow> bst_iterator option" where
  "bst_iterator_init iter_ok stack_ok T =
     (if \<not> iter_ok then None
      else if \<not> stack_ok then None
      else Some \<lparr>it_node = NULL, it_stack = [], it_generation = bst_generation T\<rparr>)"

partial_function (option) refresh_from :: "comparator \<Rightarrow> addr \<Rightarrow> addr \<Rightarrow> bst_iterator \<Rightarrow> bst_table \<Rightarrow> bst_iterator option" where
  "refresh_from cmp node i it T =
     (if i = node then Some it
      else do {
        _ \<leftarrow> c_assert (\<not> it_full it T);
        _ \<leftarrow> c_assert (i \<noteq> NULL);
        j \<leftarrow> get_link (Node i) (cmp node i > 0) T;
        refresh_from cmp node j (it_push i it) T
      })"

definition bst_iterator_refresh :: "comparator \<Rightarrow> bst_iterator \<Rightarrow> bst_table \<Rightarrow> bst_iterator option" where
  "bst_iterator_refresh cmp it T = do {
     let it = it\<lparr>it_generation := bst_generation T\<rparr>;
     if it_node it \<noteq> NULL then refresh_from cmp (it_node it) (bst_root T) (it\<lparr>it_stack := []\<rparr>) T else Some it
   }"

text \<open>Down one side to the end; \<open>None\<close> in the first component when the stack is full.\<close>

partial_function (option) go_down :: "bool \<Rightarrow> addr \<Rightarrow> bst_iterator \<Rightarrow> bst_table \<Rightarrow> (addr option \<times> bst_iterator) option" where
  "go_down dir x it T = do {
     y \<leftarrow> get_link (Node x) dir T;
     if y = NULL then Some (Some x, it)
     else if it_full it T then Some (None, it)
     else go_down dir y (it_push x it) T
   }"

partial_function (option) bst_iterator_end :: "bool \<Rightarrow> bst_iterator \<Rightarrow> bst_table \<Rightarrow> (addr \<times> bst_iterator \<times> bst_table) option" where
  "bst_iterator_end dir it T = do {
     let it = it\<lparr>it_stack := [], it_generation := bst_generation T\<rparr>;
     let x = bst_root T;
     if x = NULL then Some (NULL, it\<lparr>it_node := NULL\<rparr>, T)
     else do {
       (r, it) \<leftarrow> go_down dir x it T;
       case r of
         None \<Rightarrow> do { T \<leftarrow> bst_balance T; bst_iterator_end dir it T }
       | Some x \<Rightarrow> Some (x, it\<lparr>it_node := x\<rparr>, T)
     }
   }"

definition bst_iterator_first :: "bst_iterator \<Rightarrow> bst_table \<Rightarrow> (addr \<times> bst_iterator \<times> bst_table) option" where
  "bst_iterator_first = bst_iterator_end False"

definition bst_iterator_last :: "bst_iterator \<Rightarrow> bst_table \<Rightarrow> (addr \<times> bst_iterator \<times> bst_table) option" where
  "bst_iterator_last = bst_iterator_end True"

text \<open>Up while coming from the side \<open>dir\<close>.\<close>

fun go_up :: "bool \<Rightarrow> addr \<Rightarrow> addr list \<Rightarrow> bst_table \<Rightarrow> (addr \<times> addr list) option" where
  "go_up dir y [] T = Some (NULL, [])"
| "go_up dir y (x # st) T = do {
     l \<leftarrow> get_link (Node x) dir T;
     if y = l then go_up dir x st T else Some (x, st)
   }"

partial_function (option) bst_iterator_step ::
  "bool \<Rightarrow> comparator \<Rightarrow> bst_iterator \<Rightarrow> bst_table \<Rightarrow> (addr \<times> bst_iterator \<times> bst_table) option" where
  "bst_iterator_step dir cmp it T = do {
     it \<leftarrow> (if it_generation it \<noteq> bst_generation T then bst_iterator_refresh cmp it T else Some it);
     let x = it_node it;
     if x = NULL then bst_iterator_end (\<not> dir) it T
     else do {
       y \<leftarrow> get_link (Node x) dir T;
       if y \<noteq> NULL then
         (if it_full it T then do { T \<leftarrow> bst_balance T; bst_iterator_step dir cmp it T }
          else do {
            (r, it) \<leftarrow> go_down (\<not> dir) y (it_push x it) T;
            case r of
              None \<Rightarrow> do { T \<leftarrow> bst_balance T; bst_iterator_step dir cmp it T }
            | Some z \<Rightarrow> Some (z, it\<lparr>it_node := z\<rparr>, T)
          })
       else do {
         (z, st) \<leftarrow> go_up dir x (it_stack it) T;
         Some (z, it\<lparr>it_node := z, it_stack := st\<rparr>, T)
       }
     }
   }"

definition bst_iterator_next :: "comparator \<Rightarrow> bst_iterator \<Rightarrow> bst_table \<Rightarrow> (addr \<times> bst_iterator \<times> bst_table) option" where
  "bst_iterator_next = bst_iterator_step True"

definition bst_iterator_prev :: "comparator \<Rightarrow> bst_iterator \<Rightarrow> bst_table \<Rightarrow> (addr \<times> bst_iterator \<times> bst_table) option" where
  "bst_iterator_prev = bst_iterator_step False"

definition bst_iterator_cur :: "bst_iterator \<Rightarrow> addr" where
  "bst_iterator_cur it = it_node it"

text \<open>The descent of \<open>bst_iterator_find\<close> and \<open>bst_iterator_insert\<close> with the nodes passed on the stack.\<close>

datatype found_at = Full | At addr | Missing bst_ptr bool

partial_function (option) find_down ::
  "(addr \<Rightarrow> int) \<Rightarrow> bst_ptr \<Rightarrow> bool \<Rightarrow> bst_iterator \<Rightarrow> bst_table \<Rightarrow> (found_at \<times> bst_iterator) option" where
  "find_down f p dir it T = do {
     t \<leftarrow> get_link p dir T;
     if t = NULL then Some (Missing p dir, it)
     else if f t = 0 then Some (At t, it)
     else if it_full it T then Some (Full, it)
     else find_down f (Node t) (f t > 0) (it_push t it) T
   }"

partial_function (option) bst_iterator_find ::
  "(addr \<Rightarrow> int) \<Rightarrow> bst_iterator \<Rightarrow> bst_table \<Rightarrow> (addr \<times> bst_iterator \<times> bst_table) option" where
  "bst_iterator_find f it T = do {
     (r, it) \<leftarrow> find_down f Table False (it\<lparr>it_stack := [], it_generation := bst_generation T\<rparr>) T;
     case r of
       Full \<Rightarrow> do { T \<leftarrow> bst_balance T; bst_iterator_find f it T }
     | At t \<Rightarrow> Some (t, it\<lparr>it_node := t\<rparr>, T)
     | Missing p dir \<Rightarrow> Some (NULL, it\<lparr>it_stack := [], it_node := NULL\<rparr>, T)
   }"

partial_function (option) bst_iterator_insert ::
  "comparator \<Rightarrow> addr \<Rightarrow> bst_iterator \<Rightarrow> bst_table \<Rightarrow> (addr \<times> bst_iterator \<times> bst_table) option" where
  "bst_iterator_insert cmp n it T = do {
     (r, it) \<leftarrow> find_down (cmp n) Table False (it\<lparr>it_stack := []\<rparr>) T;
     case r of
       Full \<Rightarrow> do { T \<leftarrow> bst_balance T; bst_iterator_insert cmp n it T }
     | At t \<Rightarrow> Some (t, it\<lparr>it_node := t, it_generation := bst_generation T\<rparr>, T)
     | Missing p dir \<Rightarrow> do {
         T \<leftarrow> set_link p dir n T;
         T \<leftarrow> set_link (Node n) True NULL T;
         T \<leftarrow> set_link (Node n) False NULL T;
         let T = T\<lparr>bst_count := bst_count T + 1\<rparr>;
         Some (n, it\<lparr>it_node := n, it_generation := bst_generation T\<rparr>, T)
       }
   }"


section \<open>Paths\<close>

fun fnode :: "frame \<Rightarrow> addr" where
  "fnode (InLeft a r) = a"
| "fnode (InRight l a) = a"

text \<open>The iterator stands at node \<open>n\<close>; unless the tree has changed since, its stack is the path to it.\<close>

definition it_at :: "bst_table \<Rightarrow> bst_iterator \<Rightarrow> addr \<Rightarrow> bool" where
  "it_at T it n \<longleftrightarrow> it_node it = n \<and> (\<exists>l r k. bst_at T (Nd l n r) k \<and> length k \<le> unat (bst_max_height T) \<and>
     (it_generation it = bst_generation T \<longrightarrow> it_stack it = map fnode k))"

lemma height_up: "length k + bt_height t \<le> bt_height (plug t k)"
  by (induction t k rule: plug.induct) auto

text \<open>The store determines the tree.\<close>

lemma bt_at_unique: "bt_at h u \<Longrightarrow> bt_at h v \<Longrightarrow> bt_root u = bt_root v \<Longrightarrow> u = v"
proof (induction u arbitrary: v)
  case Lf
  then show ?case by (cases v) auto
next
  case (Nd l a r)
  then show ?case by (cases v) auto
qed

lemma bst_at_unique: "bst_at T u [] \<Longrightarrow> bst_at T v [] \<Longrightarrow> u = v"
  by (auto simp: bst_at_def intro: bt_at_unique)

lemma bst_wf_addrs: "bst_wf cmp T xs \<Longrightarrow> bst_at T t [] \<Longrightarrow> bt_addrs t = xs"
  unfolding bst_wf_def using bst_at_unique by blast

text \<open>Where a listed node stands.\<close>

lemma bst_focus:
  assumes "bst_at T t []" and "n \<in> set (bt_addrs t)"
  shows "\<exists>l r k. plug (Nd l n r) k = t \<and> bst_at T (Nd l n r) k"
proof -
  have "\<exists>l r k. plug (Nd l n r) k = t" using assms(2)
  proof (induction t)
    case (Nd tl a tr)
    consider "n = a" | "n \<in> set (bt_addrs tl)" | "n \<in> set (bt_addrs tr)" using Nd.prems by auto
    then show ?case
    proof cases
      case 1
      then show ?thesis by (intro exI [of _ tl] exI [of _ tr] exI [of _ "[]"]) simp
    next
      case 2
      from Nd.IH(1) [OF this] obtain l r k where "plug (Nd l n r) k = tl" by blast
      then show ?thesis by (intro exI [of _ l] exI [of _ r] exI [of _ "k @ [InLeft a tr]"]) (simp add: plug_append)
    next
      case 3
      from Nd.IH(2) [OF this] obtain l r k where "plug (Nd l n r) k = tr" by blast
      then show ?thesis by (intro exI [of _ l] exI [of _ r] exI [of _ "k @ [InRight tl a]"]) (simp add: plug_append)
    qed
  qed simp
  with assms(1) bst_at_up show ?thesis by blast
qed

lemma refresh_from_ok:
  assumes "bst_at T t K" and "points_to (cmp n) (bt_addrs t)" and "plug (Nd l n r) k = t"
    and "length (k @ K) \<le> unat (bst_max_height T)" and "it_stack it = map fnode K" and "cmp n n = 0"
  shows "refresh_from cmp n (bt_root t) it T = Some (it\<lparr>it_stack := map fnode (k @ K)\<rparr>)"
  using assms(1-5)
proof (induction t arbitrary: K k it)
  case Lf
  then have "bt_addrs (plug (Nd l n r) k) = []" by simp
  then show ?case by (simp add: bt_addrs_plug)
next
  case (Nd tl a tr)
  have dist: "distinct (bt_addrs tl @ a # bt_addrs tr)" using Nd.prems(1) by (simp add: bst_at_def)
  show ?case
  proof (cases k rule: rev_cases)
    case Nil
    with Nd.prems(3,5) have "a = n" "it\<lparr>it_stack := map fnode K\<rparr> = it" by auto
    with Nil show ?thesis by (subst refresh_from.simps) simp
  next
    case (snoc k' f)
    have full: "\<not> it_full it T" using Nd.prems(4,5) snoc by (simp add: it_full_def)
    have unf: "refresh_from cmp n a it T = refresh_from cmp n (bt_root (if cmp n a > 0 then tr else tl)) (it_push a it) T"
      if "a \<noteq> n" using that full bst_at_get [OF Nd.prems(1)]
      by (subst refresh_from.simps) (simp add: mem_simps)
    consider (left) "f = InLeft a tr" "plug (Nd l n r) k' = tl" | (right) "f = InRight tl a" "plug (Nd l n r) k' = tr"
      using Nd.prems(3) snoc by (cases f) (auto simp: plug_append)
    then show ?thesis
    proof cases
      case left
      then have "n \<in> set (bt_addrs tl)" by (auto simp: bt_addrs_plug)
      then have "a \<noteq> n" "cmp n a < 0" using dist Nd.prems(2) assms(6) by (force simp: sorted_wrt_append)+
      moreover have "bst_at T tl (InLeft a tr # K)" using Nd.prems(1) bst_at_left by blast
      moreover have "points_to (cmp n) (bt_addrs tl)" using Nd.prems(2) by (simp add: sorted_wrt_append)
      ultimately show ?thesis using Nd.IH(1) [of "InLeft a tr # K" k' "it_push a it"] left snoc unf Nd.prems(4,5)
        by (simp add: it_push_def)
    next
      case right
      then have "n \<in> set (bt_addrs tr)" by (auto simp: bt_addrs_plug)
      then have "a \<noteq> n" "0 < cmp n a" using dist Nd.prems(2) assms(6) by (auto simp: sorted_wrt_append not_le [symmetric])
      moreover have "bst_at T tr (InRight tl a # K)" using Nd.prems(1) bst_at_right by blast
      moreover have "points_to (cmp n) (bt_addrs tr)" using Nd.prems(2) by (simp add: sorted_wrt_append)
      ultimately show ?thesis using Nd.IH(2) [of "InRight tl a # K" k' "it_push a it"] right snoc unf Nd.prems(4,5)
        by (simp add: it_push_def)
    qed
  qed
qed

text \<open>Down the left side: to the first node of the subtree, unless the tree is too high for the stack.\<close>

lemma go_down_left_ok:
  assumes "bst_at T (Nd l x r) k" and "it_stack it = map fnode k"
  shows "(\<exists>z r' k'. go_down False x it T = Some (Some z, it\<lparr>it_stack := map fnode k'\<rparr>) \<and> bst_at T (Nd Lf z r') k' \<and>
      z = hd (bt_addrs (Nd l x r)) \<and> (length k \<le> unat (bst_max_height T) \<longrightarrow> length k' \<le> unat (bst_max_height T))) \<or>
    (\<exists>st. go_down False x it T = Some (None, it\<lparr>it_stack := st\<rparr>)) \<and> unat (bst_max_height T) < length k + bt_height (Nd l x r)"
  using assms
proof (induction l arbitrary: x r k it)
  case Lf
  have "go_down False x it T = Some (Some x, it)"
    using bst_at_get [OF Lf(1)] by (subst go_down.simps) (simp del: get_link.simps)
  moreover have "it\<lparr>it_stack := map fnode k\<rparr> = it" using Lf(2) by simp
  ultimately show ?case using Lf(1)
    by (intro disjI1 exI [of _ x] exI [of _ r] exI [of _ k]) simp
next
  case (Nd ll y lr)
  have Zy: "bst_at T (Nd ll y lr) (InLeft x r # k)" using Nd.prems(1) bst_at_left by blast
  have unf: "go_down False x it T = (if it_full it T then Some (None, it) else go_down False y (it_push x it) T)"
    using bst_at_get [OF Nd.prems(1)] bst_at_get(1) [OF Zy] by (subst go_down.simps) (simp del: get_link.simps)
  show ?case
  proof (cases "it_full it T")
    case True
    then have "unat (bst_max_height T) < length k + bt_height (Nd (Nd ll y lr) x r)" using Nd.prems(2) by (simp add: it_full_def)
    moreover have "go_down False x it T = Some (None, it\<lparr>it_stack := it_stack it\<rparr>)" using unf True by simp
    ultimately show ?thesis by blast
  next
    case False
    have len: "length (InLeft x r # k) \<le> unat (bst_max_height T)" using False Nd.prems(2) by (simp add: it_full_def)
    have "it_stack (it_push x it) = map fnode (InLeft x r # k)" using Nd.prems(2) by (simp add: it_push_def)
    note IH = Nd.IH(1) [OF Zy this]
    have hd: "hd (bt_addrs (Nd (Nd ll y lr) x r)) = hd (bt_addrs (Nd ll y lr))" by (cases "bt_addrs ll") simp_all
    have ps: "it_push x it\<lparr>it_stack := st\<rparr> = it\<lparr>it_stack := st\<rparr>" for st by (simp add: it_push_def)
    from IH show ?thesis
    proof (elim disjE)
      assume "\<exists>z r' k'. go_down False y (it_push x it) T = Some (Some z, it_push x it\<lparr>it_stack := map fnode k'\<rparr>) \<and>
        bst_at T (Nd Lf z r') k' \<and> z = hd (bt_addrs (Nd ll y lr)) \<and>
        (length (InLeft x r # k) \<le> unat (bst_max_height T) \<longrightarrow> length k' \<le> unat (bst_max_height T))"
      then obtain z r' k' where "go_down False y (it_push x it) T = Some (Some z, it\<lparr>it_stack := map fnode k'\<rparr>)"
        "bst_at T (Nd Lf z r') k'" "z = hd (bt_addrs (Nd ll y lr))" "length k' \<le> unat (bst_max_height T)" using len ps by auto
      with unf False hd show ?thesis by (intro disjI1 exI [of _ z] exI [of _ r'] exI [of _ k']) simp
    next
      assume "(\<exists>st. go_down False y (it_push x it) T = Some (None, it_push x it\<lparr>it_stack := st\<rparr>)) \<and>
        unat (bst_max_height T) < length (InLeft x r # k) + bt_height (Nd ll y lr)"
      with unf False ps show ?thesis by (intro disjI2) auto
    qed
  qed
qed

text \<open>Up to the first ancestor whose left side the node is on.\<close>

lemma go_up_right_ok:
  "bst_at T (Nd l n r) k \<Longrightarrow>
   if ctx_after k = [] then go_up True n (map fnode k) T = Some (NULL, [])
   else \<exists>l' r' k'. go_up True n (map fnode k) T = Some (hd (ctx_after k), map fnode k') \<and>
     bst_at T (Nd l' (hd (ctx_after k)) r') k' \<and> length k' \<le> length k"
proof (induction k arbitrary: l n r)
  case Nil
  then show ?case by simp
next
  case (Cons f k)
  show ?case
  proof (cases f)
    case (InLeft p s)
    have Z: "bst_at T (Nd (Nd l n r) p s) k" using Cons.prems InLeft bst_at_append [of T "Nd l n r" "[InLeft p s]" k] by simp
    have "bt_root s \<noteq> n" using Cons.prems InLeft bt_root.elims [of s] by (cases s) (auto simp: bst_at_def)
    with Z InLeft bst_at_get [OF Z] show ?thesis
      by (simp del: get_link.simps) (metis le_SucI order_refl)
  next
    case (InRight s p)
    have Z: "bst_at T (Nd s p (Nd l n r)) k" using Cons.prems InRight bst_at_append [of T "Nd l n r" "[InRight s p]" k] by simp
    have up: "go_up True n (map fnode (f # k)) T = go_up True p (map fnode k) T"
      using InRight bst_at_get [OF Z] by (simp del: get_link.simps)
    show ?thesis
    proof (cases "ctx_after k = []")
      case True
      with Cons.IH [OF Z] up InRight show ?thesis by simp
    next
      case False
      with Cons.IH [OF Z] obtain l' r' k' where "go_up True p (map fnode k) T = Some (hd (ctx_after k), map fnode k')"
        "bst_at T (Nd l' (hd (ctx_after k)) r') k'" "length k' \<le> length k" by auto
      with False up InRight show ?thesis by (simp only: ctx_after.simps if_False up) (metis le_SucI length_Cons)
    qed
  qed
qed


section \<open>A step\<close>

abbreviation arrived :: "bst_table \<Rightarrow> addr list \<Rightarrow> bst_iterator \<Rightarrow> bool" where
  "arrived T ys it \<equiv> if ys = [] then it_node it = NULL else it_at T it (hd ys)"

text \<open>One pass over the code of \<open>bst_iterator_next\<close> with an up-to-date stack.\<close>

lemma step_pass:
  assumes Z: "bst_at T (Nd l n r) k" and it: "it_node it = n" "it_generation it = bst_generation T" "it_stack it = map fnode k"
    and len: "length k \<le> unat (bst_max_height T)"
  shows "(\<exists>it'. bst_iterator_step True cmp it T = Some (first_or_NULL (bt_addrs r @ ctx_after k), it', T) \<and> arrived T (bt_addrs r @ ctx_after k) it') \<or>
    unat (bst_max_height T) < length k + bt_height (Nd l n r) \<and>
    (\<exists>it'. bst_iterator_step True cmp it T = do { T \<leftarrow> bst_balance T; bst_iterator_step True cmp it' T } \<and>
      it_node it' = n \<and> it_generation it' = bst_generation T)"
proof (cases r)
  case Lf
  have unf: "bst_iterator_step True cmp it T = do { (z, st) \<leftarrow> go_up True n (it_stack it) T; Some (z, it\<lparr>it_node := z, it_stack := st\<rparr>, T) }"
    using bst_at_get [OF Z] it(1,2) Lf by (subst bst_iterator_step.simps) (simp add: Let_def del: get_link.simps)
  show ?thesis
  proof (cases "ctx_after k = []")
    case True
    with go_up_right_ok [OF Z] unf it(3) Lf show ?thesis by simp
  next
    case False
    with go_up_right_ok [OF Z] obtain l' r' k' where up: "go_up True n (map fnode k) T = Some (hd (ctx_after k), map fnode k')"
      "bst_at T (Nd l' (hd (ctx_after k)) r') k'" "length k' \<le> length k" by auto
    let ?it = "it\<lparr>it_node := hd (ctx_after k), it_stack := map fnode k'\<rparr>"
    have "it_at T ?it (hd (ctx_after k))" unfolding it_at_def using up(2,3) len
      by (intro conjI exI [of _ l'] exI [of _ r'] exI [of _ k']) simp_all
    with unf up(1) it(3) False Lf show ?thesis by (auto simp: first_or_NULL_def split: list.splits)
  qed
next
  case (Nd rl y rr)
  have Zr: "bst_at T (Nd rl y rr) (InRight l n # k)" using Z Nd bst_at_right by blast
  have unf: "bst_iterator_step True cmp it T =
    (if it_full it T then do { T \<leftarrow> bst_balance T; bst_iterator_step True cmp it T }
     else do {
       (r, it) \<leftarrow> go_down False y (it_push n it) T;
       case r of None \<Rightarrow> do { T \<leftarrow> bst_balance T; bst_iterator_step True cmp it T } | Some z \<Rightarrow> Some (z, it\<lparr>it_node := z\<rparr>, T) })"
    using bst_at_get [OF Z] bst_at_get(1) [OF Zr] it(1,2) Nd
    by (subst bst_iterator_step.simps) (simp add: Let_def del: get_link.simps)
  show ?thesis
  proof (cases "it_full it T")
    case True
    then have "unat (bst_max_height T) < length k + bt_height (Nd l n r)" using it(3) by (simp add: it_full_def)
    with True unf it(1,2) show ?thesis by (intro disjI2) auto
  next
    case False
    have "it_stack (it_push n it) = map fnode (InRight l n # k)" using it(3) by (simp add: it_push_def)
    note down = go_down_left_ok [OF Zr this]
    have lenr: "length (InRight l n # k) \<le> unat (bst_max_height T)" using False it(3) by (simp add: it_full_def)
    from down show ?thesis
    proof (elim disjE)
      assume "\<exists>z r' k'. go_down False y (it_push n it) T = Some (Some z, it_push n it\<lparr>it_stack := map fnode k'\<rparr>) \<and>
        bst_at T (Nd Lf z r') k' \<and> z = hd (bt_addrs (Nd rl y rr)) \<and>
        (length (InRight l n # k) \<le> unat (bst_max_height T) \<longrightarrow> length k' \<le> unat (bst_max_height T))"
      then obtain z r' k' where z: "go_down False y (it_push n it) T = Some (Some z, it_push n it\<lparr>it_stack := map fnode k'\<rparr>)"
        "bst_at T (Nd Lf z r') k'" "z = hd (bt_addrs r)" "length k' \<le> unat (bst_max_height T)" using lenr Nd by auto
      let ?it = "it_push n it\<lparr>it_stack := map fnode k', it_node := z\<rparr>"
      have ne: "bt_addrs r \<noteq> []" using Nd by simp
      have "it_at T ?it z" unfolding it_at_def using z(2,4)
        by (intro conjI exI [of _ Lf] exI [of _ r'] exI [of _ k']) simp_all
      moreover have "first_or_NULL (bt_addrs r @ ctx_after k) = z" "hd (bt_addrs r @ ctx_after k) = z" using z(3) ne by (cases "bt_addrs r"; simp)+
      ultimately show ?thesis using unf False z(1) ne by (intro disjI1 exI [of _ ?it]) simp
    next
      assume "(\<exists>st. go_down False y (it_push n it) T = Some (None, it_push n it\<lparr>it_stack := st\<rparr>)) \<and>
        unat (bst_max_height T) < length (InRight l n # k) + bt_height (Nd rl y rr)"
      with unf False Nd it(1,2) show ?thesis by (intro disjI2) (auto simp: it_push_def)
    qed
  qed
qed

lemma step_refresh:
  assumes wf: "bst_wf cmp T xs" and ord: "cmp_on (set xs) cmp" and at: "it_at T it n"
  shows "\<exists>l r k it1. bst_at T (Nd l n r) k \<and> length k \<le> unat (bst_max_height T) \<and> it_node it1 = n \<and>
    it_generation it1 = bst_generation T \<and> it_stack it1 = map fnode k \<and>
    bst_iterator_step dir cmp it T = bst_iterator_step dir cmp it1 T"
proof -
  from at obtain l r k where k: "it_node it = n" "bst_at T (Nd l n r) k" "length k \<le> unat (bst_max_height T)"
    "it_generation it = bst_generation T \<longrightarrow> it_stack it = map fnode k" by (auto simp: it_at_def)
  show ?thesis
  proof (cases "it_generation it = bst_generation T")
    case True
    with k show ?thesis by blast
  next
    case False
    let ?t = "plug (Nd l n r) k"
    have Z: "bst_at T ?t []" using k(2) bst_at_up by blast
    have "bt_addrs ?t = xs" using bst_wf_addrs [OF wf Z] .
    then have n: "n \<in> set xs" by (auto simp: bt_addrs_plug)
    have pts: "points_to (cmp n) (bt_addrs ?t)"
      using points_to_cmp [of cmp xs n] bst_wf_list [OF wf] ord n \<open>bt_addrs ?t = xs\<close> by (simp add: insert_absorb)
    let ?it = "it\<lparr>it_generation := bst_generation T, it_stack := map fnode k\<rparr>"
    have "refresh_from cmp n (bt_root ?t) (it\<lparr>it_generation := bst_generation T, it_stack := []\<rparr>) T = Some ?it"
      using refresh_from_ok [where cmp = cmp and l = l and n = n and r = r and k = k, OF Z pts refl, of "it\<lparr>it_generation := bst_generation T, it_stack := []\<rparr>"] k(3) cmp_refl [OF ord n] by simp
    moreover have "bt_root ?t = bst_root T" using Z by (simp add: bst_at_def)
    ultimately have "bst_iterator_refresh cmp it T = Some ?it"
      using k(1) bst_at_get(1) [OF k(2)] by (simp add: bst_iterator_refresh_def)
    then have "bst_iterator_step dir cmp it T = bst_iterator_step dir cmp ?it T"
      using False by (subst (1 2) bst_iterator_step.simps) simp
    with k show ?thesis by (intro exI [of _ l] exI [of _ r] exI [of _ k] exI [of _ ?it]) simp
  qed
qed


lemma bst_iterator_next_ok:
  assumes wf: "bst_wf cmp T (xs @ n # ys)" and ord: "cmp_on (set (xs @ n # ys)) cmp" and at: "it_at T it n"
    and room: "length (xs @ n # ys) < 2 ^ unat (bst_max_height T)" and len: "length (xs @ n # ys) < 2 ^ 64 - 1"
  shows "\<exists>it' T'. bst_iterator_next cmp it T = Some (first_or_NULL ys, it', T') \<and> bst_wf cmp T' (xs @ n # ys) \<and>
    bst_max_height T' = bst_max_height T \<and> arrived T' ys it'"
proof -
  have pos: "bt_addrs r @ ctx_after k = ys" if "bst_wf cmp T (xs @ n # ys)" "bst_at T (Nd l n r) k" for T l r k
  proof -
    have "bt_addrs (plug (Nd l n r) k) = xs @ n # ys" using bst_wf_addrs [OF that(1)] that(2) bst_at_up by blast
    then have "(ctx_before k @ bt_addrs l) @ n # (bt_addrs r @ ctx_after k) = xs @ n # ys" by (simp add: bt_addrs_plug)
    moreover have "distinct (xs @ n # ys)" using bst_wf_list [OF that(1)] by blast
    ultimately show ?thesis by (metis append_Cons_eq_iff distinct.simps(2) distinct_append not_distinct_conv_prefix)
  qed
  from step_refresh [OF wf ord at, of True] obtain l r k it1 where
    k: "bst_at T (Nd l n r) k" "length k \<le> unat (bst_max_height T)" "it_node it1 = n" "it_generation it1 = bst_generation T"
      "it_stack it1 = map fnode k" "bst_iterator_step True cmp it T = bst_iterator_step True cmp it1 T" by blast
  from step_pass [OF k(1,3,4,5,2), of cmp] show ?thesis
  proof (elim disjE)
    assume "\<exists>it'. bst_iterator_step True cmp it1 T = Some (first_or_NULL (bt_addrs r @ ctx_after k), it', T) \<and> arrived T (bt_addrs r @ ctx_after k) it'"
    then obtain it' where "bst_iterator_step True cmp it1 T = Some (first_or_NULL ys, it', T)" "arrived T ys it'"
      unfolding pos [OF wf k(1)] by blast
    with k(6) wf show ?thesis unfolding bst_iterator_next_def by (intro exI [of _ it'] exI [of _ T]) simp
  next
    assume "unat (bst_max_height T) < length k + bt_height (Nd l n r) \<and>
      (\<exists>it'. bst_iterator_step True cmp it1 T = do { T \<leftarrow> bst_balance T; bst_iterator_step True cmp it' T } \<and>
        it_node it' = n \<and> it_generation it' = bst_generation T)"
    then obtain it2 where it2: "bst_iterator_step True cmp it1 T = do { T \<leftarrow> bst_balance T; bst_iterator_step True cmp it2 T }"
      "it_node it2 = n" "it_generation it2 = bst_generation T" by blast
    from bst_balance_ok [OF wf len] obtain T' t where
      T': "bst_balance T = Some T'" "bst_wf cmp T' (xs @ n # ys)" "bst_at T' t []" "bt_addrs t = xs @ n # ys"
        "2 ^ (bt_height t - 1) \<le> length (xs @ n # ys)" "bst_generation T' = bst_generation T + 1" "bst_max_height T' = bst_max_height T" by blast
    have "(2 :: nat) ^ (bt_height t - 1) < 2 ^ unat (bst_max_height T)" using T'(5) room by linarith
    then have "bt_height t - 1 < unat (bst_max_height T)" by (rule power_less_imp_less_exp [rotated]) simp
    then have h: "bt_height t \<le> unat (bst_max_height T')" using T'(7) by simp
    from bst_focus [OF T'(3), of n] T'(4) obtain l' r' k' where z: "plug (Nd l' n r') k' = t" "bst_at T' (Nd l' n r') k'" by auto
    have "length k' \<le> unat (bst_max_height T')" using height_up [of k' "Nd l' n r'"] z(1) h by simp
    then have "it_at T' it2 n" unfolding it_at_def using it2(2,3) z(2) T'(6) by auto
    from step_refresh [OF T'(2) ord this, of True] obtain l2 r2 k2 it3 where
      k2: "bst_at T' (Nd l2 n r2) k2" "length k2 \<le> unat (bst_max_height T')" "it_node it3 = n" "it_generation it3 = bst_generation T'"
        "it_stack it3 = map fnode k2" "bst_iterator_step True cmp it2 T' = bst_iterator_step True cmp it3 T'" by blast
    have "bst_at T' (plug (Nd l2 n r2) k2) []" using k2(1) bst_at_up by blast
    then have "plug (Nd l2 n r2) k2 = t" using T'(3) bst_at_unique by blast
    then have "\<not> unat (bst_max_height T') < length k2 + bt_height (Nd l2 n r2)" using height_up [of k2 "Nd l2 n r2"] h by simp
    with step_pass [OF k2(1,3,4,5,2), of cmp] obtain it' where
      "bst_iterator_step True cmp it3 T' = Some (first_or_NULL ys, it', T')" "arrived T' ys it'"
      unfolding pos [OF T'(2) k2(1)] by blast
    with k2(6) it2(1) k(6) T'(1,2,7) show ?thesis
      unfolding bst_iterator_next_def by (intro exI [of _ it'] exI [of _ T']) simp
  qed
qed

end
