(* ===== verification/BST_Properties.thy ===== *)
theory BST_Properties
  imports BST_Iterator
begin

text \<open>
  What the binary search tree of \<open>common/bst.c\<close> promises, each with an instance on a small table.
\<close>

section \<open>Destruction\<close>

fun mirror :: "bt \<Rightarrow> bt" where
  "mirror Lf = Lf"
| "mirror (Nd l a r) = Nd (mirror r) a (mirror l)"

lemma length_mirror [simp]: "length (bt_addrs (mirror t)) = length (bt_addrs t)"
  by (induction t) auto

lemma destroy_from_ok:
  "bt_at (bst_nodes T) t \<Longrightarrow> distinct (bt_addrs t) \<Longrightarrow>
   \<exists>T'. bst_destroy_from (bt_root t) ds T = Some (ds @ bt_addrs t, T') \<and> bst_root T' = bst_root T"
proof (induction "mass (mirror t)" arbitrary: t ds T rule: less_induct)
  case less
  show ?case
  proof (cases t)
    case Lf
    then show ?thesis by (subst bst_destroy_from.simps) simp
  next
    case (Nd l a r)
    show ?thesis
    proof (cases l)
      case Lf
      then have "bst_destroy_from a ds T = bst_destroy_from (bt_root r) (ds @ [a]) T"
        using less.prems(1) Nd by (subst bst_destroy_from.simps) (simp add: mem_simps)
      with less.hyps [of r T "ds @ [a]"] less.prems Nd Lf show ?thesis by simp
    next
      case l: (Nd ll b lr)
      let ?u = "Nd ll b (Nd lr a r)"
      let ?h = "(bst_nodes T)(a := \<lparr>bst_link0 = bt_root lr, bst_link1 = bt_root r\<rparr>, b := \<lparr>bst_link0 = bt_root ll, bst_link1 = a\<rparr>)"
      have "bt_at ?h ?u" using less.prems Nd l by auto
      moreover have "bst_destroy_from a ds T = bst_destroy_from b ds (T\<lparr>bst_nodes := ?h\<rparr>)"
        using less.prems Nd l by (subst bst_destroy_from.simps) (auto simp: mem_simps)
      ultimately show ?thesis using less.hyps [of ?u "T\<lparr>bst_nodes := ?h\<rparr>" ds] less.prems(2) Nd l by simp
    qed
  qed
qed


lemma bst_destroy_ok:
  assumes "bst_wf cmp T xs"
  shows "\<exists>T'. bst_destroy False T = Some (xs, Some T') \<and> bst_wf cmp T' [] \<and> bst_destroy True T = Some (xs, None)"
proof -
  from assms obtain t where t: "bst_at T t []" "bt_addrs t = xs" by (auto simp: bst_wf_def)
  from destroy_from_ok [of T t "[]"] t obtain T' where "bst_destroy_from (bst_root T) [] T = Some (xs, T')"
    by (auto simp: bst_at_def)
  then show ?thesis by (auto simp: bst_destroy_def bst_wf_def bst_at_def intro!: exI [of _ Lf])
qed

section \<open>A concrete table\<close>

text \<open>The nodes 1, 2, 3 in one line to the right, with room for two on the stack of an iterator.\<close>

definition line_cmp :: comparator where
  "line_cmp a b = int a - int b"

definition line_table :: bst_table where
  "line_table = \<lparr>bst_root = 1, bst_count = 3, bst_max_height = 2, bst_generation = 0, bst_nodes = (\<lambda>_. \<lparr>bst_link0 = 0, bst_link1 = 0\<rparr>)
     (1 := \<lparr>bst_link0 = 0, bst_link1 = 2\<rparr>, 2 := \<lparr>bst_link0 = 0, bst_link1 = 3\<rparr>)\<rparr>"

lemma line_cmp_on: "cmp_on A line_cmp"
  by (auto simp: cmp_on_def line_cmp_def)

lemma line_wf: "bst_wf line_cmp line_table [1, 2, 3]"
proof -
  have "bst_at line_table (Nd Lf 1 (Nd Lf 2 (Nd Lf 3 Lf))) []" by (simp add: bst_at_def line_table_def)
  moreover have "bt_addrs (Nd Lf 1 (Nd Lf 2 (Nd Lf 3 Lf))) = [1, 2, 3]" by simp
  ultimately show ?thesis unfolding bst_wf_def by (auto simp: line_cmp_def) (simp add: line_table_def)
qed

section \<open>Properties\<close>

text \<open>
  C15: the tree keeps the contract of an ordered table: inserting a fresh node returns it and puts it
  at its place in the in-order list, inserting a node that compares equal to a present one returns
  that one and changes nothing, and removing a present node returns it and takes exactly it off the list. The counter stays exact.
\<close>

theorem bst_update_correct:
  assumes "bst_wf cmp T xs" and "cmp_on (insert n (set xs)) cmp" and "n \<noteq> NULL"
  shows "if n \<in> set xs then \<exists>T'. bst_remove cmp n self T = Some (n, T') \<and> bst_wf cmp T' (remove1 n xs)
    else case find (\<lambda>x. cmp n x = 0) xs of
      Some y \<Rightarrow> bst_insert cmp n T = Some (y, T)
    | None \<Rightarrow> \<exists>T'. bst_insert cmp n T = Some (n, T') \<and> bst_wf cmp T' (cmp_insert cmp n xs)"
proof (cases "n \<in> set xs")
  case True
  then have "cmp_on (set xs) cmp" using assms(2) by (simp add: insert_absorb)
  with bst_remove_ok [OF assms(1) this True, of self] True show ?thesis by auto
next
  case False
  with bst.ins_new [OF assms(1,2,3)] bst.ins_dup [OF assms(1,2)] show ?thesis
    by (auto simp: find_None_iff find_Some_iff split: option.splits)
qed

theorem bst_update_correct_witness:
  "(\<exists>T'. bst_remove line_cmp 2 True line_table = Some (2, T') \<and> bst_wf line_cmp T' [1, 3]) \<and>
   (\<exists>T'. bst_insert line_cmp 9 line_table = Some (9, T') \<and> bst_wf line_cmp T' [1, 2, 3, 9])"
  using bst_update_correct [OF line_wf line_cmp_on, of 2 True] bst_update_correct [OF line_wf line_cmp_on, of 9 True]
  by (simp add: line_cmp_def)

text \<open>
  C16: \<open>bst_balance\<close> returns, keeps the in-order list and the counter, and leaves a tree of minimal height:
  with \<open>n\<close> nodes its height \<open>h\<close> has \<open>2 ^ (h - 1) \<le> n\<close>. The generation moves on, so iterators notice.
\<close>

theorem bst_balance_correct:
  assumes "bst_wf cmp T xs" and "length xs < 2 ^ 64 - 1"
  shows "\<exists>T' t. bst_balance T = Some T' \<and> bst_wf cmp T' xs \<and> bst_at T' t [] \<and> bt_addrs t = xs \<and>
    (xs \<noteq> [] \<longrightarrow> 2 ^ (bt_height t - 1) \<le> length xs) \<and> bst_generation T' = bst_generation T + 1 \<and> bst_max_height T' = bst_max_height T"
  using assms by (rule bst_balance_ok)

theorem bst_balance_correct_witness:
  "\<exists>T' t. bst_balance line_table = Some T' \<and> bst_wf line_cmp T' [1, 2, 3] \<and> bst_at T' t [] \<and> bt_height t \<le> 2"
proof -
  have "length [1, 2, 3 :: addr] < 2 ^ 64 - 1" by simp
  from bst_balance_correct [OF line_wf this] obtain T' t where
    t: "bst_balance line_table = Some T'" "bst_wf line_cmp T' [1, 2, 3]" "bst_at T' t []" "2 ^ (bt_height t - 1) \<le> length [1, 2, 3 :: addr]"
    by blast
  have "bt_height t \<le> 2"
  proof (rule ccontr)
    assume "\<not> bt_height t \<le> 2"
    then have "(2 :: nat) ^ 2 \<le> 2 ^ (bt_height t - 1)" by (intro power_increasing) auto
    with t(4) show False by simp
  qed
  with t show ?thesis by blast
qed

text \<open>
  C17: \<open>bst_iterator_next\<close> from a node of the tree returns its successor in the in-order list, \<open>NULL\<close>
  after the last, and leaves the iterator there, also when its stack is out of date and has to be rebuilt and when
  the stack is too small and the tree is balanced under way. The list never changes. It is enough that
  the stack has room for a balanced tree of this size.
\<close>

theorem bst_iterator_next_correct:
  assumes "bst_wf cmp T (xs @ n # ys)" and "cmp_on (set (xs @ n # ys)) cmp" and "it_at T it n"
    and "length (xs @ n # ys) < 2 ^ unat (bst_max_height T)" and "length (xs @ n # ys) < 2 ^ 64 - 1"
  shows "\<exists>it' T'. bst_iterator_next cmp it T = Some (first_or_NULL ys, it', T') \<and> bst_wf cmp T' (xs @ n # ys) \<and>
    bst_max_height T' = bst_max_height T \<and> (if ys = [] then it_node it' = NULL else it_at T' it' (hd ys))"
  using assms by (rule bst_iterator_next_ok)

theorem bst_iterator_next_correct_witness:
  "\<exists>it' T'. bst_iterator_next line_cmp \<lparr>it_node = 2, it_stack = [1], it_generation = 0\<rparr> line_table = Some (3, it', T') \<and>
     bst_wf line_cmp T' [1, 2, 3] \<and> it_at T' it' 3"
proof -
  have "bst_at line_table (Nd Lf 2 (Nd Lf 3 Lf)) [InRight Lf 1]" by (simp add: bst_at_def line_table_def)
  moreover have h: "unat (bst_max_height line_table) = 2" by (simp add: line_table_def)
  ultimately have "it_at line_table \<lparr>it_node = 2, it_stack = [1], it_generation = 0\<rparr> 2"
    unfolding it_at_def by (intro conjI exI [of _ Lf] exI [of _ "Nd Lf 3 Lf"] exI [of _ "[InRight Lf 1]"]) simp_all
  moreover have "length ([1] @ 2 # [3 :: addr]) < 2 ^ unat (bst_max_height line_table)" unfolding h by simp
  ultimately show ?thesis
    using bst_iterator_next_correct [of line_cmp line_table "[1]" 2 "[3]" "\<lparr>it_node = 2, it_stack = [1], it_generation = 0\<rparr>"]
      line_wf line_cmp_on by auto
qed

end
