(* ===== verification/Thread_Pool.thy ===== *)
theory Thread_Pool
  imports Intrusive_List
begin

unbundle bit_operations_syntax

text \<open>
  The thread pool of \<open>thread-pool/thread_pool.c\<close>: jobs wait in a list, worker threads take them
  in turn, new workers are started while there are fewer than \<open>maxthreads\<close>, and idle ones leave
  after \<open>keepalive\<close> seconds while there are more than \<open>minthreads\<close>. One mutex guards everything.
  A worker is modelled by its position between the points where it takes, waits on or releases
  the mutex; \<open>Work_loop\<close> is the head of its endless loop, where it holds the mutex.

  Results of \<open>malloc\<close>, \<open>pthread_create\<close> and of timed waits are arguments. Thread attributes and
  signal masks are not modelled.
\<close>

section \<open>Data\<close>

record thread_job =
  job_func :: addr
  job_arg :: addr

text \<open>The flag of a worker is its local variable \<open>timedout\<close>.\<close>

datatype worker_pc =
    Work_gone | Work_start | Work_loop bool | Work_wait bool | Work_timedwait bool | Work_run bool

datatype pcond = Work_signal | Wait_signal | Exit_signal

record thread_pool =
  maxthreads :: int
  minthreads :: int
  p_nthreads :: int
  p_idlethreads :: int
  keepalive :: int
  p_flags :: "32 word"
  pool_links :: links
  jobs :: "addr \<Rightarrow> thread_job"
  workers :: "addr \<Rightarrow> worker_pc"
  p_holder :: addr
  p_signals :: "pcond list"
  cancels :: "addr list"
  accepted :: "thread_job list"
  started :: "thread_job list"

text \<open>
  A worker is known by the address of its \<open>struct thread_struct\<close>; \<open>cancels\<close> are the workers
  \<open>pthread_cancel\<close> was called for. \<open>accepted\<close> and \<open>started\<close> are the jobs passed to
  \<open>thread_pool_execute\<close> and the jobs whose function was called, in order.
\<close>

definition job_head :: addr where "job_head = 1"
definition active_thread_head :: addr where "active_thread_head = 2"
definition THREAD_POOL_DESTROY :: "32 word" where "THREAD_POOL_DESTROY = 1"
definition THREAD_POOL_WAIT :: "32 word" where "THREAD_POOL_WAIT = 2"

definition pool_flag :: "32 word \<Rightarrow> thread_pool \<Rightarrow> bool" where
  "pool_flag f p \<longleftrightarrow> p_flags p AND f \<noteq> 0"

definition pool_signal :: "pcond \<Rightarrow> thread_pool \<Rightarrow> thread_pool" where
  "pool_signal c p = p\<lparr>p_signals := p_signals p @ [c]\<rparr>"

text \<open>The worker goes to \<open>pc\<close>, holding the mutex exactly at the head of its loop.\<close>

definition worker_at :: "addr \<Rightarrow> worker_pc \<Rightarrow> thread_pool \<Rightarrow> thread_pool" where
  "worker_at a pc p = p\<lparr>workers := (workers p)(a := pc), p_holder := (case pc of Work_loop _ \<Rightarrow> a | _ \<Rightarrow> NULL)\<rparr>"

section \<open>Operations\<close>

definition thread_pool_init :: "int \<Rightarrow> int \<Rightarrow> int \<Rightarrow> thread_pool \<Rightarrow> (int \<times> thread_pool) option" where
  "thread_pool_init keep minth maxth p =
     (if minth < 0 \<or> minth > maxth then Some (- 1, p)
      else do {
        let p = p\<lparr>minthreads := minth, maxthreads := maxth, keepalive := keep, p_flags := 0, p_nthreads := 0, p_idlethreads := 0\<rparr>;
        L \<leftarrow> INIT_LIST_HEAD job_head (pool_links p);
        L \<leftarrow> INIT_LIST_HEAD active_thread_head L;
        Some (0, p\<lparr>pool_links := L\<rparr>)
      })"

text \<open>The test of \<open>thread_pool_wait\<close>, made before each wait; the answer is whether it returns.\<close>

definition thread_pool_wait :: "thread_pool \<Rightarrow> (bool \<times> thread_pool) option" where
  "thread_pool_wait p = do {
     je \<leftarrow> list_empty job_head (pool_links p);
     ae \<leftarrow> list_empty active_thread_head (pool_links p);
     if \<not> je \<or> \<not> ae then Some (False, p\<lparr>p_flags := p_flags p OR THREAD_POOL_WAIT\<rparr>) else Some (True, p)
   }"

definition thread_pool_wakeup :: "thread_pool \<Rightarrow> thread_pool option" where
  "thread_pool_wakeup p = do {
     je \<leftarrow> list_empty job_head (pool_links p);
     ae \<leftarrow> list_empty active_thread_head (pool_links p);
     Some (if je \<and> ae then pool_signal Wait_signal (p\<lparr>p_flags := p_flags p AND NOT THREAD_POOL_WAIT\<rparr>) else p)
   }"

text \<open>\<open>thread_pool_destroy\<close> up to its wait, and what follows once no thread is left.\<close>

definition thread_pool_destroy :: "bool \<Rightarrow> thread_pool \<Rightarrow> thread_pool option" where
  "thread_pool_destroy deferred p = do {
     let p = p\<lparr>p_flags := p_flags p OR THREAD_POOL_DESTROY\<rparr>;
     let p = (if p_idlethreads p > 0 then pool_signal Work_signal p else p);
     if deferred then Some p
     else do {
       ts \<leftarrow> list_for_each active_thread_head (pool_links p);
       Some (p\<lparr>cancels := cancels p @ ts\<rparr>)
     }
   }"

text \<open>The jobs that are freed without having been run.\<close>

definition thread_pool_destroy_end :: "thread_pool \<Rightarrow> addr list option" where
  "thread_pool_destroy_end p = list_for_each job_head (pool_links p)"

definition thread_task_cleanup :: "addr \<Rightarrow> thread_pool \<Rightarrow> thread_pool" where
  "thread_task_cleanup a p =
     (let p = p\<lparr>p_nthreads := p_nthreads p - 1\<rparr>;
          p = (if pool_flag THREAD_POOL_DESTROY p \<and> p_nthreads p = 0 then pool_signal Exit_signal p else p)
      in worker_at a Work_gone p)"

definition thread_job_cleanup :: "addr \<Rightarrow> thread_pool \<Rightarrow> thread_pool option" where
  "thread_job_cleanup a p = do {
     L \<leftarrow> list_delete a (pool_links p);
     let p = p\<lparr>pool_links := L\<rparr>;
     if pool_flag THREAD_POOL_WAIT p then thread_pool_wakeup p else Some p
   }"

text \<open>
  \<open>thread_task\<close> after its inner loop: leave, take a job, or go round again.
\<close>

definition task_go :: "addr \<Rightarrow> bool \<Rightarrow> thread_pool \<Rightarrow> thread_pool option" where
  "task_go a timedout p = do {
     let p = p\<lparr>p_idlethreads := p_idlethreads p - 1\<rparr>;
     if pool_flag THREAD_POOL_DESTROY p then Some (thread_task_cleanup a p)
     else do {
       je \<leftarrow> list_empty job_head (pool_links p);
       if \<not> je then do {
         job \<leftarrow> list_first_entry job_head (pool_links p);
         L \<leftarrow> list_delete job (pool_links p);
         j \<leftarrow> load (jobs p) job;
         L \<leftarrow> list_add_tail a active_thread_head L;
         Some (worker_at a (Work_run timedout) (p\<lparr>pool_links := L, started := started p @ [j]\<rparr>))
       }
       else if timedout \<and> p_nthreads p > minthreads p then Some (thread_task_cleanup a p)
       else Some (worker_at a (Work_loop timedout) p)
     }
   }"

text \<open>One test of the inner loop, with the mutex held.\<close>

definition task_check :: "addr \<Rightarrow> bool \<Rightarrow> thread_pool \<Rightarrow> thread_pool option" where
  "task_check a timedout p = do {
     je \<leftarrow> list_empty job_head (pool_links p);
     if \<not> je \<or> pool_flag THREAD_POOL_DESTROY p then task_go a timedout p
     else if p_nthreads p \<le> minthreads p then Some (worker_at a (Work_wait timedout) p)
     else if keepalive p > 0 then Some (worker_at a (Work_timedwait timedout) p)
     else task_go a True p
   }"

definition task_turn :: "addr \<Rightarrow> bool \<Rightarrow> thread_pool \<Rightarrow> thread_pool option" where
  "task_turn a timedout p = task_check a timedout (p\<lparr>p_idlethreads := p_idlethreads p + 1\<rparr>)"

text \<open>The beginning of \<open>thread_task\<close> up to the lock.\<close>

definition task_start :: "addr \<Rightarrow> thread_pool \<Rightarrow> thread_pool option" where
  "task_start a p = do {
     L \<leftarrow> INIT_LIST_HEAD a (pool_links p);
     Some (worker_at a (Work_loop False) (p\<lparr>pool_links := L\<rparr>))
   }"

text \<open>The return of a timed wait, and of the job's function.\<close>

definition task_timed :: "addr \<Rightarrow> bool \<Rightarrow> bool \<Rightarrow> thread_pool \<Rightarrow> thread_pool option" where
  "task_timed a expired timedout p = (if expired then task_go a True p else task_check a timedout p)"

definition task_returned :: "addr \<Rightarrow> bool \<Rightarrow> thread_pool \<Rightarrow> thread_pool option" where
  "task_returned a timedout p = do {
     p \<leftarrow> thread_job_cleanup a p;
     Some (if timedout \<and> p_nthreads p > minthreads p then thread_task_cleanup a p else worker_at a (Work_loop timedout) p)
   }"

text \<open>
  A worker cancelled in its job runs the handlers of the job and of the thread; one cancelled in a wait would run
  those of its idle state and of the thread, once the wait has taken the mutex again.
\<close>

definition thread_idle_cleanup :: "thread_pool \<Rightarrow> thread_pool" where
  "thread_idle_cleanup p = p\<lparr>p_idlethreads := p_idlethreads p - 1\<rparr>"

definition task_cancelled_idle :: "addr \<Rightarrow> thread_pool \<Rightarrow> thread_pool option" where
  "task_cancelled_idle a p = Some (thread_task_cleanup a (thread_idle_cleanup p))"

definition task_cancelled :: "addr \<Rightarrow> thread_pool \<Rightarrow> thread_pool option" where
  "task_cancelled a p = do { p \<leftarrow> thread_job_cleanup a p; Some (thread_task_cleanup a p) }"

text \<open>
  \<open>thread_pool_execute\<close>: \<open>job\<close> is the block \<open>malloc\<close> returns, \<open>err\<close> the result of \<open>pthread_create\<close> and
  \<open>a\<close> the frame of the new worker.
\<close>

definition thread_pool_execute ::
  "addr \<Rightarrow> int \<Rightarrow> addr \<Rightarrow> addr \<Rightarrow> addr \<Rightarrow> thread_pool \<Rightarrow> (int \<times> thread_pool) option" where
  "thread_pool_execute job err a func arg p =
     (if job = NULL then Some (- 1, p)
      else do {
        js \<leftarrow> store (jobs p) job (\<lambda>_. \<lparr>job_func = func, job_arg = arg\<rparr>);
        L \<leftarrow> list_add_tail job job_head (pool_links p);
        let p = p\<lparr>jobs := js, pool_links := L, accepted := accepted p @ [\<lparr>job_func = func, job_arg = arg\<rparr>]\<rparr>;
        Some (0, if p_idlethreads p > 0 then pool_signal Work_signal p
          else if p_nthreads p < maxthreads p \<and> err = 0
            then p\<lparr>p_nthreads := p_nthreads p + 1, workers := (workers p)(a := Work_start)\<rparr>
          else p)
      })"

end
