(* ===== verification/Thread_Pool_Inv.thy ===== *)
theory Thread_Pool_Inv
  imports Thread_Pool
begin

text \<open>
  The invariant of the thread pool: the job list, the list of active workers, the counters, the
  mutex, and the history: the jobs accepted are the jobs started followed by those still queued.
\<close>

section \<open>The two lists\<close>

definition pool_lists :: "links \<Rightarrow> addr list \<Rightarrow> addr list \<Rightarrow> bool" where
  "pool_lists L js ws \<longleftrightarrow> ring L job_head js \<and> ring L active_thread_head ws \<and>
     set (job_head # js) \<inter> set (active_thread_head # ws) = {}"

lemma lists_empty:
  "pool_lists L js ws \<Longrightarrow> list_empty job_head L = Some (js = []) \<and> list_empty active_thread_head L = Some (ws = [])"
  by (simp add: pool_lists_def list_empty_ok)

lemma lists_submit:
  assumes "pool_lists L js ws" and n: "n \<noteq> NULL" "n \<notin> set (job_head # js)" "n \<notin> set (active_thread_head # ws)"
  shows "\<exists>L'. list_add_tail n job_head L = Some L' \<and> pool_lists L' (js @ [n]) ws"
proof -
  from assms(1) have r: "ring L job_head js" "ring L active_thread_head ws" "set (job_head # js) \<inter> set (active_thread_head # ws) = {}"
    by (auto simp: pool_lists_def)
  from list_add_tail_ok [OF r(1) n(1,2)] obtain L' where
    L': "list_add_tail n job_head L = Some L'" "ring L' job_head (js @ [n])" "only L L' (set (n # job_head # js))" by blast
  have "ring L' active_thread_head ws" by (rule ring_only [OF r(2) L'(3)]) (use r(3) n(3) in auto)
  with L' r(3) n(3) show ?thesis by (auto simp: pool_lists_def)
qed

lemma lists_take:
  assumes "pool_lists L (j # js) ws" and a: "a \<noteq> NULL" "a \<notin> set (job_head # j # js)" "a \<notin> set (active_thread_head # ws)"
  shows "\<exists>L1 L2. list_first_entry job_head L = Some j \<and> list_delete j L = Some L1 \<and>
    list_add_tail a active_thread_head L1 = Some L2 \<and> pool_lists L2 js (ws @ [a])"
proof -
  from assms(1) have r: "ring L job_head (j # js)" "ring L active_thread_head ws"
    "set (job_head # j # js) \<inter> set (active_thread_head # ws) = {}" by (auto simp: pool_lists_def)
  from list_delete_ok [of L job_head "[]" j js] r(1) obtain L1 where
    L1: "list_delete j L = Some L1" "ring L1 job_head js" "only L L1 (set (job_head # js))" by auto
  have w: "ring L1 active_thread_head ws" by (rule ring_only [OF r(2) L1(3)]) (use r(3) in auto)
  from list_add_tail_ok [OF w a(1,3)] obtain L2 where
    L2: "list_add_tail a active_thread_head L1 = Some L2" "ring L2 active_thread_head (ws @ [a])"
      "only L1 L2 (set (a # active_thread_head # ws))" by blast
  have "ring L2 job_head js" by (rule ring_only [OF L1(2) L2(3)]) (use r(3) a(2) in auto)
  with L1 L2 r a(2) list_first_entry_ok [OF r(1)] show ?thesis by (auto simp: pool_lists_def)
qed

lemma lists_finish:
  assumes "pool_lists L js ws" and a: "a \<in> set ws"
  shows "\<exists>L'. list_delete a L = Some L' \<and> pool_lists L' js (remove1 a ws)"
proof -
  from assms(1) have r: "ring L job_head js" "ring L active_thread_head ws" "set (job_head # js) \<inter> set (active_thread_head # ws) = {}"
    by (auto simp: pool_lists_def)
  from a obtain us vs where ws: "ws = us @ a # vs" by (meson split_list)
  then have "a \<notin> set us" using r(2) by (auto simp: ring_def)
  then have rm: "remove1 a ws = us @ vs" using ws by (simp add: remove1_append)
  from list_delete_ok [of L active_thread_head us a vs] r(2) ws obtain L' where
    L': "list_delete a L = Some L'" "ring L' active_thread_head (us @ vs)" "only L L' (set (active_thread_head # us @ vs))" by auto
  have "ring L' job_head js" by (rule ring_only [OF r(1) L'(3)]) (use r(3) ws in auto)
  with L' r(3) ws rm show ?thesis by (auto simp: pool_lists_def)
qed

section \<open>Workers\<close>

fun worker_idle :: "worker_pc \<Rightarrow> bool" where
  "worker_idle (Work_wait _) = True"
| "worker_idle (Work_timedwait _) = True"
| "worker_idle _ = False"

fun worker_runs :: "worker_pc \<Rightarrow> bool" where
  "worker_runs (Work_run _) = True"
| "worker_runs _ = False"

fun worker_holds :: "worker_pc \<Rightarrow> bool" where
  "worker_holds (Work_loop _) = True"
| "worker_holds _ = False"

definition crew_inv :: "(addr \<Rightarrow> worker_pc) \<Rightarrow> addr \<Rightarrow> int \<Rightarrow> int \<Rightarrow> addr list \<Rightarrow> bool" where
  "crew_inv pc h n i ws \<longleftrightarrow> pc NULL = Work_gone \<and> (\<forall>a. worker_holds (pc a) \<longleftrightarrow> h = a \<and> a \<noteq> NULL) \<and>
     finite {a. pc a \<noteq> Work_gone} \<and> n = int (card {a. pc a \<noteq> Work_gone}) \<and> i = int (card {a. worker_idle (pc a)}) \<and>
     set ws = {a. worker_runs (pc a)}"

definition pool_inv :: "thread_pool \<Rightarrow> addr list \<Rightarrow> addr list \<Rightarrow> bool" where
  "pool_inv p js ws \<longleftrightarrow> pool_lists (pool_links p) js ws \<and>
     crew_inv (workers p) (p_holder p) (p_nthreads p) (p_idlethreads p) ws \<and>
     (\<forall>a. workers p a \<noteq> Work_gone \<longrightarrow> a \<notin> set js \<and> a \<noteq> job_head \<and> a \<noteq> active_thread_head) \<and>
     accepted p = started p @ map (jobs p) js \<and> p_nthreads p \<le> maxthreads p"

lemma pool_invD:
  assumes "pool_inv p js ws"
  shows "pool_lists (pool_links p) js ws" and "crew_inv (workers p) (p_holder p) (p_nthreads p) (p_idlethreads p) ws"
    and "workers p a \<noteq> Work_gone \<Longrightarrow> a \<notin> set js \<and> a \<noteq> job_head \<and> a \<noteq> active_thread_head"
    and "accepted p = started p @ map (jobs p) js" and "p_nthreads p \<le> maxthreads p"
  using assms unfolding pool_inv_def by blast+

lemma crew_move:
  assumes "crew_inv pc h n i ws" and "a \<noteq> NULL" and "h = NULL \<or> h = a"
    and "h' = (if worker_holds q then a else NULL)"
    and "n' = n + of_bool (q \<noteq> Work_gone) - of_bool (pc a \<noteq> Work_gone)"
    and "i' = i + of_bool (worker_idle q) - of_bool (worker_idle (pc a))"
    and "set ws' = (if worker_runs q then insert a (set ws) else set ws - {a})"
  shows "crew_inv (pc(a := q)) h' n' i' ws'"
proof -
  have f: "finite {a. pc a \<noteq> Work_gone}" using assms(1) by (simp add: crew_inv_def)
  have fi: "finite {a. worker_idle (pc a)}" by (rule finite_subset [OF _ f]) auto
  show ?thesis
    using card_upd [where P = "\<lambda>x. x \<noteq> Work_gone", OF f, of a q] card_upd [where P = worker_idle, OF fi, of a q] assms
    unfolding crew_inv_def by auto
qed


section \<open>The worker\<close>

text \<open>
  Inside its loop with the mutex: the worker \<open>a\<close> is counted as idle although it no longer waits, or not yet.
\<close>

definition entered :: "thread_pool \<Rightarrow> addr \<Rightarrow> addr list \<Rightarrow> addr list \<Rightarrow> bool" where
  "entered p a js ws \<longleftrightarrow> pool_lists (pool_links p) js ws \<and>
     (\<exists>h i. crew_inv (workers p) h (p_nthreads p) i ws \<and> (h = NULL \<or> h = a) \<and>
        p_idlethreads p = i + 1 - of_bool (worker_idle (workers p a))) \<and>
     workers p a \<noteq> Work_gone \<and> \<not> worker_runs (workers p a) \<and>
     (\<forall>a. workers p a \<noteq> Work_gone \<longrightarrow> a \<notin> set js \<and> a \<noteq> job_head \<and> a \<noteq> active_thread_head) \<and>
     accepted p = started p @ map (jobs p) js \<and> p_nthreads p \<le> maxthreads p"

lemma worker_at_fields [simp]:
  "pool_links (worker_at a q p) = pool_links p" "workers (worker_at a q p) = (workers p)(a := q)"
  "p_holder (worker_at a q p) = (if worker_holds q then a else NULL)" "p_nthreads (worker_at a q p) = p_nthreads p"
  "p_idlethreads (worker_at a q p) = p_idlethreads p" "accepted (worker_at a q p) = accepted p"
  "started (worker_at a q p) = started p" "jobs (worker_at a q p) = jobs p" "p_flags (worker_at a q p) = p_flags p"
  "maxthreads (worker_at a q p) = maxthreads p" "minthreads (worker_at a q p) = minthreads p"
  by (cases q; simp add: worker_at_def)+

text \<open>The worker moves on without a job.\<close>

lemma entered_move:
  assumes "entered p a js ws" and "\<not> worker_runs q"
    and "pool_links p' = pool_links p" "workers p' = workers p" "accepted p' = accepted p" "started p' = started p" "jobs p' = jobs p"
    "maxthreads p' = maxthreads p"
    and "p_nthreads p' = (if q = Work_gone then p_nthreads p - 1 else p_nthreads p)"
    and "p_idlethreads p' = (if worker_idle q then p_idlethreads p else p_idlethreads p - 1)"
  shows "pool_inv (worker_at a q p') js ws"
proof -
  from assms(1) obtain h i where c: "crew_inv (workers p) h (p_nthreads p) i ws" "h = NULL \<or> h = a"
    "p_idlethreads p = i + 1 - of_bool (worker_idle (workers p a))" and w: "workers p a \<noteq> Work_gone" "\<not> worker_runs (workers p a)"
    by (auto simp: entered_def)
  have "a \<noteq> NULL" "a \<notin> set ws" using c(1) w by (auto simp: crew_inv_def)
  then have "crew_inv ((workers p)(a := q)) (if worker_holds q then a else NULL) (p_nthreads p') (p_idlethreads p') ws"
    using c w assms(2,9,10) by (intro crew_move [OF c(1)]) auto
  with assms show ?thesis by (auto simp: pool_inv_def entered_def)
qed

lemma task_cleanup_ok:
  assumes "entered p a js ws"
  shows "pool_inv (thread_task_cleanup a (p\<lparr>p_idlethreads := p_idlethreads p - 1\<rparr>)) js ws"
  unfolding thread_task_cleanup_def Let_def pool_signal_def
  by (rule entered_move [OF assms]) auto

lemma cleanup_accepted [simp]: "accepted (thread_task_cleanup a p) = accepted p"
  by (simp add: thread_task_cleanup_def Let_def pool_signal_def)

lemma task_go_ok:
  assumes e: "entered p a js ws"
  shows "\<exists>p' js' ws'. task_go a d p = Some p' \<and> pool_inv p' js' ws' \<and> accepted p' = accepted p"
proof -
  let ?p = "p\<lparr>p_idlethreads := p_idlethreads p - 1\<rparr>"
  have L: "pool_lists (pool_links p) js ws" using e by (simp add: entered_def)
  have acc: "accepted (thread_task_cleanup a ?p) = accepted p" by simp
  have loop: "pool_inv (worker_at a (Work_loop d) ?p) js ws" by (rule entered_move [OF e]) simp_all
  show ?thesis
  proof (cases js)
    case Nil
    have "task_go a d p = Some (thread_task_cleanup a ?p) \<or> task_go a d p = Some (worker_at a (Work_loop d) ?p)"
      using lists_empty [OF L] Nil by (auto simp: task_go_def Let_def)
    then show ?thesis
    proof
      assume "task_go a d p = Some (thread_task_cleanup a ?p)"
      with task_cleanup_ok [OF e] acc show ?thesis by blast
    next
      assume "task_go a d p = Some (worker_at a (Work_loop d) ?p)"
      with loop show ?thesis by auto
    qed
  next
    case (Cons j ks)
    from e obtain h i where c: "crew_inv (workers p) h (p_nthreads p) i ws" "h = NULL \<or> h = a"
      "p_idlethreads p = i + 1 - of_bool (worker_idle (workers p a))" and w: "workers p a \<noteq> Work_gone" "\<not> worker_runs (workers p a)"
      and sep: "\<forall>a. workers p a \<noteq> Work_gone \<longrightarrow> a \<notin> set js \<and> a \<noteq> job_head \<and> a \<noteq> active_thread_head"
      and hist: "accepted p = started p @ map (jobs p) js" "p_nthreads p \<le> maxthreads p" by (auto simp: entered_def)
    have a: "a \<noteq> NULL" "a \<notin> set ws" "a \<notin> set (job_head # j # ks)" "a \<notin> set (active_thread_head # ws)"
      using c(1) w sep Cons by (auto simp: crew_inv_def)
    from lists_take [of "pool_links p" j ks ws a] L Cons a obtain L1 L2 where
      L12: "list_first_entry job_head (pool_links p) = Some j" "list_delete j (pool_links p) = Some L1"
        "list_add_tail a active_thread_head L1 = Some L2" "pool_lists L2 ks (ws @ [a])" by auto
    have jn: "j \<noteq> NULL" using L Cons by (auto simp: pool_lists_def ring_def)
    let ?q = "worker_at a (Work_run d) (?p\<lparr>pool_links := L2, started := started p @ [jobs p j]\<rparr>)"
    have "crew_inv ((workers p)(a := Work_run d)) NULL (p_nthreads p) (p_idlethreads p - 1) (ws @ [a])"
      using c w a(1,2) by (intro crew_move [OF c(1)]) auto
    then have inv: "pool_inv ?q ks (ws @ [a])" using L12(4) sep w hist Cons by (auto simp: pool_inv_def)
    show ?thesis
    proof (cases "pool_flag THREAD_POOL_DESTROY ?p")
      case True
      then have "task_go a d p = Some (thread_task_cleanup a ?p)" by (simp add: task_go_def Let_def)
      with task_cleanup_ok [OF e] acc show ?thesis by blast
    next
      case False
      then have "task_go a d p = Some ?q"
        using lists_empty [OF L] Cons L12 jn by (simp add: task_go_def Let_def mem_simps)
      with inv show ?thesis by auto
    qed
  qed
qed

lemma task_check_ok:
  assumes e: "entered p a js ws"
  shows "\<exists>p' js' ws'. task_check a d p = Some p' \<and> pool_inv p' js' ws' \<and> accepted p' = accepted p"
proof -
  have L: "pool_lists (pool_links p) js ws" using e by (simp add: entered_def)
  have w: "pool_inv (worker_at a (Work_wait d) p) js ws" "pool_inv (worker_at a (Work_timedwait d) p) js ws"
    by (rule entered_move [OF e]; simp)+
  consider "task_check a d p = task_go a d p" | "task_check a d p = task_go a True p"
    | "task_check a d p = Some (worker_at a (Work_wait d) p)" | "task_check a d p = Some (worker_at a (Work_timedwait d) p)"
    using lists_empty [OF L] that by (simp add: task_check_def split: if_splits) metis
  then show ?thesis
  proof cases
    case 3
    with w(1) show ?thesis by auto
  next
    case 4
    with w(2) show ?thesis by auto
  qed (use task_go_ok [OF e] in auto)
qed

text \<open>How a worker comes to hold the mutex.\<close>

lemma entered_loop:
  "pool_inv p js ws \<Longrightarrow> workers p a = Work_loop d \<Longrightarrow> entered (p\<lparr>p_idlethreads := p_idlethreads p + 1\<rparr>) a js ws"
  unfolding pool_inv_def entered_def
  by (auto intro!: exI [of _ "p_holder p"] simp: crew_inv_def)

lemma entered_wait:
  "pool_inv p js ws \<Longrightarrow> worker_idle (workers p a) \<Longrightarrow> p_holder p = NULL \<Longrightarrow> entered p a js ws"
  unfolding pool_inv_def entered_def by (cases "workers p a") (auto intro!: exI [of _ NULL])

lemma task_start_ok:
  assumes inv: "pool_inv p js ws" and a: "workers p a = Work_start" and h: "p_holder p = NULL"
  shows "\<exists>p'. task_start a p = Some p' \<and> pool_inv p' js ws \<and> accepted p' = accepted p"
proof -
  note D = pool_invD [OF inv]
  have n: "a \<noteq> NULL" "a \<notin> set ws" using D(2) a by (auto simp: crew_inv_def)
  from INIT_LIST_HEAD_ok [OF n(1), of "pool_links p"] obtain L where
    L: "INIT_LIST_HEAD a (pool_links p) = Some L" "only (pool_links p) L {a}" by blast
  have "pool_lists L js ws"
    using D(1) D(3) [of a] a n ring_only [OF _ L(2), of job_head js] ring_only [OF _ L(2), of active_thread_head ws]
    by (auto simp: pool_lists_def)
  moreover have "crew_inv ((workers p)(a := Work_loop False)) a (p_nthreads p) (p_idlethreads p) ws"
    using a n h by (intro crew_move [OF D(2)]) auto
  ultimately have "pool_inv (worker_at a (Work_loop False) (p\<lparr>pool_links := L\<rparr>)) js ws"
    using D(3,4,5) a by (auto simp: pool_inv_def)
  with L(1) show ?thesis by (auto simp: task_start_def)
qed

section \<open>The end of a job\<close>

definition same_crew :: "thread_pool \<Rightarrow> thread_pool \<Rightarrow> bool" where
  "same_crew p p' \<longleftrightarrow> workers p' = workers p \<and> p_holder p' = p_holder p \<and> p_nthreads p' = p_nthreads p \<and>
     p_idlethreads p' = p_idlethreads p \<and> jobs p' = jobs p \<and> accepted p' = accepted p \<and> started p' = started p \<and>
     maxthreads p' = maxthreads p \<and> minthreads p' = minthreads p"

lemma thread_job_cleanup_ok:
  assumes "pool_inv p js ws" and "a \<in> set ws"
  shows "\<exists>p'. thread_job_cleanup a p = Some p' \<and> pool_lists (pool_links p') js (remove1 a ws) \<and> same_crew p p' \<and>
    (pool_flag THREAD_POOL_DESTROY p' \<longleftrightarrow> pool_flag THREAD_POOL_DESTROY p)"
proof -
  from lists_finish [OF pool_invD(1) [OF assms(1)] assms(2)] obtain L where
    L: "list_delete a (pool_links p) = Some L" "pool_lists L js (remove1 a ws)" by blast
  have "(p_flags p AND NOT 2) AND (1 :: 32 word) = p_flags p AND 1" by (rule bit_word_eqI) (auto simp: bit_simps)
  with L lists_empty [OF L(2)] show ?thesis
    by (auto simp: thread_job_cleanup_def thread_pool_wakeup_def same_crew_def pool_signal_def pool_flag_def
        THREAD_POOL_DESTROY_def THREAD_POOL_WAIT_def Let_def)
qed

lemma finish_move:
  assumes inv: "pool_inv p js ws" and a: "workers p a = Work_run d" and h: "p_holder p = NULL"
    and q: "\<not> worker_runs q" "\<not> worker_idle q" and L: "pool_lists (pool_links p') js (remove1 a ws)"
    and p': "workers p' = workers p" "p_idlethreads p' = p_idlethreads p" "jobs p' = jobs p" "accepted p' = accepted p"
      "started p' = started p" "maxthreads p' = maxthreads p"
      "p_nthreads p' = (if q = Work_gone then p_nthreads p - 1 else p_nthreads p)"
  shows "pool_inv (worker_at a q p') js (remove1 a ws)"
proof -
  note D = pool_invD [OF inv]
  have n: "a \<noteq> NULL" using D(2) a by (auto simp: crew_inv_def)
  have "distinct ws" using D(1) by (simp add: pool_lists_def ring_def)
  then have "crew_inv ((workers p)(a := q)) (if worker_holds q then a else NULL) (p_nthreads p') (p_idlethreads p') (remove1 a ws)"
    using a n h q p' by (intro crew_move [OF D(2)]) auto
  with L p' q a D(3,4,5) show ?thesis by (auto simp: pool_inv_def)
qed

lemma task_returned_ok:
  assumes inv: "pool_inv p js ws" and a: "workers p a = Work_run d" and h: "p_holder p = NULL"
  shows "\<exists>p'. task_returned a d p = Some p' \<and> pool_inv p' js (remove1 a ws) \<and> accepted p' = accepted p"
    and "\<exists>p'. task_cancelled a p = Some p' \<and> pool_inv p' js (remove1 a ws) \<and> accepted p' = accepted p"
proof -
  have "a \<in> set ws" using pool_invD(2) [OF inv] a by (auto simp: crew_inv_def)
  from thread_job_cleanup_ok [OF inv this] obtain p1 where p1: "thread_job_cleanup a p = Some p1"
    "pool_lists (pool_links p1) js (remove1 a ws)" "same_crew p p1" by blast
  have l: "pool_inv (worker_at a (Work_loop d) p1) js (remove1 a ws)"
    using p1(3) by (intro finish_move [OF inv a h _ _ p1(2)]) (simp_all add: same_crew_def)
  have g: "pool_inv (thread_task_cleanup a p1) js (remove1 a ws) \<and> accepted (thread_task_cleanup a p1) = accepted p"
    unfolding thread_task_cleanup_def Let_def pool_signal_def
    using p1(2,3) by (intro conjI finish_move [OF inv a h]) (simp_all add: same_crew_def)
  show "\<exists>p'. task_returned a d p = Some p' \<and> pool_inv p' js (remove1 a ws) \<and> accepted p' = accepted p"
    using l g p1(1,3) by (simp add: task_returned_def same_crew_def)
  show "\<exists>p'. task_cancelled a p = Some p' \<and> pool_inv p' js (remove1 a ws) \<and> accepted p' = accepted p"
    using g p1(1) by (simp add: task_cancelled_def)
qed

section \<open>Submitting a job\<close>

definition fresh_block :: "addr \<Rightarrow> thread_pool \<Rightarrow> addr list \<Rightarrow> bool" where
  "fresh_block b p js \<longleftrightarrow> b \<noteq> NULL \<and> b \<noteq> job_head \<and> b \<noteq> active_thread_head \<and> b \<notin> set js \<and> workers p b = Work_gone"

lemma thread_pool_execute_ok:
  assumes inv: "pool_inv p js ws" and h: "p_holder p = NULL" and j: "fresh_block j p js" and a: "fresh_block a p js" "a \<noteq> j"
  shows "\<exists>p'. thread_pool_execute j err a func arg p = Some (0, p') \<and> pool_inv p' (js @ [j]) ws \<and>
    accepted p' = accepted p @ [\<lparr>job_func = func, job_arg = arg\<rparr>]"
proof -
  note D = pool_invD [OF inv]
  have n: "j \<noteq> NULL" "j \<notin> set (job_head # js)" "j \<notin> set (active_thread_head # ws)" "a \<notin> set ws" "a \<noteq> NULL"
    using j a D(2) by (auto simp: fresh_block_def crew_inv_def)
  from lists_submit [OF D(1) n(1-3)] obtain L where
    L: "list_add_tail j job_head (pool_links p) = Some L" "pool_lists L (js @ [j]) ws" by blast
  let ?jb = "\<lparr>job_func = func, job_arg = arg\<rparr>"
  let ?p = "p\<lparr>jobs := (jobs p)(j := ?jb), pool_links := L, accepted := accepted p @ [?jb]\<rparr>"
  have m: "map ((jobs p)(j := ?jb)) js = map (jobs p) js" using n(2) by simp
  have base: "pool_inv ?p (js @ [j]) ws" using inv L(2) j m by (auto simp: pool_inv_def fresh_block_def)
  have sig: "pool_inv (pool_signal Work_signal ?p) (js @ [j]) ws" using base by (simp add: pool_inv_def pool_signal_def)
  have "crew_inv ((workers p)(a := Work_start)) NULL (p_nthreads p + 1) (p_idlethreads p) ws"
    using a n(4,5) h by (intro crew_move [OF D(2)]) (auto simp: fresh_block_def)
  then have new: "p_nthreads p < maxthreads p \<Longrightarrow>
      pool_inv (?p\<lparr>p_nthreads := p_nthreads p + 1, workers := (workers p)(a := Work_start)\<rparr>) (js @ [j]) ws"
    using base a h by (auto simp: pool_inv_def fresh_block_def)
  show ?thesis using n(1) L(1) base sig new
    by (simp add: thread_pool_execute_def mem_simps Let_def) (simp add: pool_signal_def)
qed

lemma thread_pool_init_ok:
  assumes "0 \<le> minth" "minth \<le> maxth" and "\<forall>a. workers p a = Work_gone" and "p_holder p = NULL" and "accepted p = []" "started p = []"
  shows "\<exists>p'. thread_pool_init keep minth maxth p = Some (0, p') \<and> pool_inv p' [] []"
proof -
  from INIT_LIST_HEAD_ok [of job_head "pool_links p"] obtain L where
    L: "INIT_LIST_HEAD job_head (pool_links p) = Some L" "ring L job_head []" by (auto simp: job_head_def)
  from INIT_LIST_HEAD_ok [of active_thread_head L] obtain L' where
    L': "INIT_LIST_HEAD active_thread_head L = Some L'" "ring L' active_thread_head []" "only L L' {active_thread_head}"
    by (auto simp: active_thread_head_def)
  have "ring L' job_head []" by (rule ring_only [OF L(2) L'(3)]) (simp add: job_head_def active_thread_head_def)
  with L'(2) have "pool_lists L' [] []" by (simp add: pool_lists_def job_head_def active_thread_head_def)
  with assms L(1) L'(1) show ?thesis
    by (auto simp: thread_pool_init_def Let_def pool_inv_def crew_inv_def worker_holds.simps)
qed

end
