(* ===== verification/Thread_Pool_Steps.thy ===== *)
theory Thread_Pool_Steps
  imports Thread_Pool_Inv
begin

text \<open>
  The threads and the callers of the pool as one transition system: an event is one stretch of code run with the
  mutex held, and any enabled event may come next.
\<close>

section \<open>Events\<close>

datatype pool_event =
    Ev_execute addr int addr addr addr
  | Ev_start addr
  | Ev_turn addr
  | Ev_wake addr bool
  | Ev_return addr
  | Ev_cancel addr
  | Ev_cancel_idle addr
  | Ev_wait
  | Ev_destroy bool

fun pool_perform :: "pool_event \<Rightarrow> thread_pool \<Rightarrow> thread_pool option" where
  "pool_perform (Ev_execute job err a func arg) p = map_option snd (thread_pool_execute job err a func arg p)"
| "pool_perform (Ev_start a) p = task_start a p"
| "pool_perform (Ev_turn a) p = (case workers p a of Work_loop d \<Rightarrow> task_turn a d p | _ \<Rightarrow> None)"
| "pool_perform (Ev_wake a expired) p =
     (case workers p a of Work_wait d \<Rightarrow> task_check a d p | Work_timedwait d \<Rightarrow> task_timed a expired d p | _ \<Rightarrow> None)"
| "pool_perform (Ev_return a) p = (case workers p a of Work_run d \<Rightarrow> task_returned a d p | _ \<Rightarrow> None)"
| "pool_perform (Ev_cancel a) p = task_cancelled a p"
| "pool_perform (Ev_cancel_idle a) p = task_cancelled_idle a p"
| "pool_perform Ev_wait p = map_option snd (thread_pool_wait p)"
| "pool_perform (Ev_destroy deferred) p = thread_pool_destroy deferred p"

definition queued :: "thread_pool \<Rightarrow> addr list" where
  "queued p = the (list_for_each job_head (pool_links p))"

text \<open>
  \<open>malloc\<close> returns \<open>NULL\<close> or a block not in use, and the frame of a new thread is no block in use either. A wait
  may return at any time.
\<close>

fun pool_enabled :: "pool_event \<Rightarrow> thread_pool \<Rightarrow> bool" where
  "pool_enabled (Ev_execute job err a func arg) p \<longleftrightarrow>
     p_holder p = NULL \<and> (job = NULL \<or> fresh_block job p (queued p)) \<and> fresh_block a p (queued p) \<and> a \<noteq> job"
| "pool_enabled (Ev_start a) p \<longleftrightarrow> p_holder p = NULL \<and> workers p a = Work_start"
| "pool_enabled (Ev_turn a) p \<longleftrightarrow> worker_holds (workers p a)"
| "pool_enabled (Ev_wake a expired) p \<longleftrightarrow> p_holder p = NULL \<and> worker_idle (workers p a)"
| "pool_enabled (Ev_return a) p \<longleftrightarrow> p_holder p = NULL \<and> worker_runs (workers p a)"
| "pool_enabled (Ev_cancel a) p \<longleftrightarrow> p_holder p = NULL \<and> worker_runs (workers p a) \<and> a \<in> set (cancels p)"
| "pool_enabled (Ev_cancel_idle a) p \<longleftrightarrow> p_holder p = NULL \<and> worker_idle (workers p a)"
| "pool_enabled Ev_wait p \<longleftrightarrow> p_holder p = NULL"
| "pool_enabled (Ev_destroy deferred) p \<longleftrightarrow> p_holder p = NULL"

lemma queued_inv: "pool_inv p js ws \<Longrightarrow> list_for_each job_head (pool_links p) = Some js \<and> queued p = js"
  using list_for_each_ok [of "pool_links p" job_head js] pool_invD(1) [of p js ws] by (auto simp: queued_def pool_lists_def)

section \<open>Every event completes\<close>

text \<open>The jobs accepted by an event.\<close>

fun submits :: "pool_event \<Rightarrow> thread_job list" where
  "submits (Ev_execute job err a func arg) = (if job = NULL then [] else [\<lparr>job_func = func, job_arg = arg\<rparr>])"
| "submits _ = []"

definition pool_good :: "pool_event \<Rightarrow> thread_pool \<Rightarrow> bool" where
  "pool_good e p \<longleftrightarrow> (\<exists>p' js ws. pool_perform e p = Some p' \<and> pool_inv p' js ws \<and> accepted p' = accepted p @ submits e)"

lemma client_good:
  assumes inv: "pool_inv p js ws"
  shows "pool_good Ev_wait p" and "pool_good (Ev_destroy df) p"
proof -
  note L = pool_invD(1) [OF inv]
  have f: "list_for_each active_thread_head (pool_links p) = Some ws"
    using L by (auto simp: pool_lists_def intro: list_for_each_ok)
  have k: "pool_inv (p\<lparr>p_flags := f\<rparr>) js ws" "pool_inv (p\<lparr>p_flags := f, p_signals := s\<rparr>) js ws"
    "pool_inv (p\<lparr>p_flags := f, cancels := c\<rparr>) js ws" "pool_inv (p\<lparr>p_flags := f, p_signals := s, cancels := c\<rparr>) js ws" for f s c
    using inv by (simp_all add: pool_inv_def)
  show "pool_good Ev_wait p" using lists_empty [OF L] k(1) inv
    by (auto simp: pool_good_def thread_pool_wait_def)
  have "\<exists>p'. thread_pool_destroy df p = Some p' \<and> pool_inv p' js ws \<and> accepted p' = accepted p"
    using f k by (auto simp: thread_pool_destroy_def pool_signal_def Let_def)
  then show "pool_good (Ev_destroy df) p" by (auto simp: pool_good_def)
qed

lemma worker_good:
  assumes inv: "pool_inv p js ws" and h: "p_holder p = NULL"
  shows "worker_idle (workers p a) \<Longrightarrow> pool_good (Ev_wake a x) p"
    and "worker_idle (workers p a) \<Longrightarrow> pool_good (Ev_cancel_idle a) p"
    and "worker_runs (workers p a) \<Longrightarrow> pool_good (Ev_return a) p"
    and "worker_runs (workers p a) \<Longrightarrow> pool_good (Ev_cancel a) p"
proof -
  assume i: "worker_idle (workers p a)"
  note e = entered_wait [OF inv i h]
  from i task_check_ok [OF e] task_go_ok [OF e] show "pool_good (Ev_wake a x) p"
    by (cases "workers p a") (auto simp: pool_good_def task_timed_def)
  from task_cleanup_ok [OF e] show "pool_good (Ev_cancel_idle a) p"
    by (auto simp: pool_good_def task_cancelled_idle_def thread_idle_cleanup_def)
next
  assume r: "worker_runs (workers p a)"
  then obtain d where d: "workers p a = Work_run d" by (cases "workers p a") auto
  from task_returned_ok [OF inv d h] d show "pool_good (Ev_return a) p" "pool_good (Ev_cancel a) p"
    by (auto simp: pool_good_def)
qed

lemma turn_good: "pool_inv p js ws \<Longrightarrow> worker_holds (workers p a) \<Longrightarrow> pool_good (Ev_turn a) p"
  using task_check_ok [OF entered_loop] by (cases "workers p a") (auto simp: pool_good_def task_turn_def)

lemma execute_good:
  assumes inv: "pool_inv p js ws" and en: "pool_enabled (Ev_execute job err a func arg) p"
  shows "pool_good (Ev_execute job err a func arg) p"
proof (cases "job = NULL")
  case True
  with inv show ?thesis by (auto simp: pool_good_def thread_pool_execute_def)
next
  case False
  with thread_pool_execute_ok [OF inv, of job a err func arg] en queued_inv [OF inv] show ?thesis
    by (auto simp: pool_good_def)
qed

lemma start_good: "pool_inv p js ws \<Longrightarrow> workers p a = Work_start \<Longrightarrow> p_holder p = NULL \<Longrightarrow> pool_good (Ev_start a) p"
  using task_start_ok [of p js ws a] by (auto simp: pool_good_def)

lemma pool_perform_ok: "pool_inv p js ws \<Longrightarrow> pool_enabled e p \<Longrightarrow> pool_good e p"
  using execute_good [of p js ws]
  by (cases e) (auto simp del: pool_enabled.simps(1) intro: client_good worker_good turn_good start_good)

section \<open>Reachable states\<close>

text \<open>Before \<open>thread_pool_init\<close> there is no worker; its \<open>memset\<close> makes any other content irrelevant.\<close>

definition pool_blank :: "thread_pool \<Rightarrow> bool" where
  "pool_blank p \<longleftrightarrow> (\<forall>a. workers p a = Work_gone) \<and> p_holder p = NULL \<and> accepted p = [] \<and> started p = []"

inductive pool_reach :: "thread_pool \<Rightarrow> bool" where
  reach_init: "pool_blank p \<Longrightarrow> thread_pool_init keep minth maxth p = Some (0, p') \<Longrightarrow> pool_reach p'"
| reach_event: "pool_reach p \<Longrightarrow> pool_enabled e p \<Longrightarrow> pool_perform e p = Some p' \<Longrightarrow> pool_reach p'"

lemma pool_reach_inv: "pool_reach p \<Longrightarrow> \<exists>js ws. pool_inv p js ws"
proof (induction rule: pool_reach.induct)
  case (reach_init p keep minth maxth p')
  then have "0 \<le> minth" "minth \<le> maxth" by (auto simp: thread_pool_init_def split: if_splits)
  with thread_pool_init_ok [of minth maxth p keep] reach_init show ?case by (auto simp: pool_blank_def)
next
  case (reach_event p e p')
  with pool_perform_ok show ?case by (fastforce simp: pool_good_def)
qed

fun pool_run :: "pool_event list \<Rightarrow> thread_pool \<Rightarrow> thread_pool option" where
  "pool_run [] p = Some p"
| "pool_run (e # es) p = (if pool_enabled e p then pool_perform e p \<bind> pool_run es else None)"

lemma pool_run_reach: "pool_reach p \<Longrightarrow> pool_run es p = Some p' \<Longrightarrow> pool_reach p'"
  by (induction es arbitrary: p) (auto split: if_splits bind_splits intro: reach_event)

section \<open>Leaving\<close>

text \<open>What a worker still has to do before it is gone, once the pool is to be destroyed.\<close>

fun worker_rank :: "worker_pc \<Rightarrow> nat" where
  "worker_rank Work_gone = 0"
| "worker_rank (Work_run _) = 2"
| "worker_rank Work_start = 2"
| "worker_rank _ = 1"

definition crew_rank :: "(addr \<Rightarrow> worker_pc) \<Rightarrow> nat" where
  "crew_rank pc = (\<Sum>a \<in> {a. pc a \<noteq> Work_gone}. worker_rank (pc a))"

lemma crew_rank_less:
  assumes f: "finite {a. pc a \<noteq> Work_gone}" and q: "worker_rank q < worker_rank (pc a)"
  shows "crew_rank (pc(a := q)) < crew_rank pc"
proof -
  let ?S = "{a. pc a \<noteq> Work_gone}"
  have a: "a \<in> ?S" using q by auto
  have "crew_rank (pc(a := q)) = (\<Sum>x \<in> ?S. worker_rank ((pc(a := q)) x))"
    unfolding crew_rank_def by (rule sum.mono_neutral_left [OF f]) (use a in auto)
  also have "\<dots> < (\<Sum>x \<in> ?S. worker_rank (pc x))" by (rule sum_strict_mono_ex1 [OF f]) (use a q in auto)
  finally show ?thesis by (simp add: crew_rank_def)
qed

text \<open>One step of the worker \<open>a\<close> towards its end; the last one to go signals the end.\<close>

definition leaves :: "addr \<Rightarrow> thread_pool \<Rightarrow> thread_pool \<Rightarrow> bool" where
  "leaves a p p' \<longleftrightarrow> (\<exists>q. worker_rank q < worker_rank (workers p a) \<and> workers p' = (workers p)(a := q) \<and>
     started p' = started p \<and> pool_flag THREAD_POOL_DESTROY p' \<and>
     (q = Work_gone \<and> p_nthreads p' = 0 \<longrightarrow> p_signals p' \<noteq> [] \<and> last (p_signals p') = Exit_signal))"

lemma leaves_cleanup:
  assumes "workers p a \<noteq> Work_gone" and "pool_flag THREAD_POOL_DESTROY p1" and "workers p1 = workers p" "started p1 = started p"
  shows "leaves a p (thread_task_cleanup a p1)"
proof -
  have "worker_rank Work_gone < worker_rank (workers p a)" using assms(1) by (cases "workers p a") auto
  with assms show ?thesis unfolding leaves_def
    by (intro exI [of _ Work_gone]) (auto simp: thread_task_cleanup_def pool_flag_def pool_signal_def worker_at_def Let_def)
qed

lemma destroy_check:
  assumes e: "entered p1 a js ws" and fl: "pool_flag THREAD_POOL_DESTROY p1" and "workers p1 = workers p" "started p1 = started p"
  shows "\<exists>p'. task_go a d p1 = Some p' \<and> leaves a p p'" "\<exists>p'. task_check a d p1 = Some p' \<and> leaves a p p'"
proof -
  let ?p = "p1\<lparr>p_idlethreads := p_idlethreads p1 - 1\<rparr>"
  have "leaves a p (thread_task_cleanup a ?p)" using assms by (intro leaves_cleanup) (auto simp: entered_def pool_flag_def)
  moreover have g: "task_go a d p1 = Some (thread_task_cleanup a ?p)"
    using fl by (simp add: task_go_def Let_def pool_flag_def)
  moreover have "task_check a d p1 = task_go a d p1"
    using fl lists_empty [of "pool_links p1" js ws] e by (auto simp: task_check_def entered_def)
  ultimately show "\<exists>p'. task_go a d p1 = Some p' \<and> leaves a p p'" "\<exists>p'. task_check a d p1 = Some p' \<and> leaves a p p'" by auto
qed

fun worker_event :: "pool_event \<Rightarrow> addr \<Rightarrow> bool" where
  "worker_event (Ev_start b) a \<longleftrightarrow> a = b"
| "worker_event (Ev_turn b) a \<longleftrightarrow> a = b"
| "worker_event (Ev_wake b _) a \<longleftrightarrow> a = b"
| "worker_event (Ev_return b) a \<longleftrightarrow> a = b"
| "worker_event (Ev_cancel b) a \<longleftrightarrow> a = b"
| "worker_event (Ev_cancel_idle b) a \<longleftrightarrow> a = b"
| "worker_event _ a \<longleftrightarrow> False"

lemma destroy_finish:
  assumes inv: "pool_inv p js ws" and fl: "pool_flag THREAD_POOL_DESTROY p" and a: "workers p a = Work_run d"
  shows "\<exists>p'. task_returned a d p = Some p' \<and> leaves a p p'" "\<exists>p'. task_cancelled a p = Some p' \<and> leaves a p p'"
proof -
  have "a \<in> set ws" using pool_invD(2) [OF inv] a by (auto simp: crew_inv_def)
  from thread_job_cleanup_ok [OF inv this] obtain p1 where p1: "thread_job_cleanup a p = Some p1" "same_crew p p1"
    "pool_flag THREAD_POOL_DESTROY p1" using fl by blast
  have g: "leaves a p (thread_task_cleanup a p1)"
    using p1(2,3) a by (intro leaves_cleanup) (auto simp: same_crew_def)
  have l: "leaves a p (worker_at a (Work_loop d) p1)"
    unfolding leaves_def using p1(2,3) a by (intro exI [of _ "Work_loop d"]) (simp add: same_crew_def pool_flag_def)
  from g l p1(1) show "\<exists>p'. task_returned a d p = Some p' \<and> leaves a p p'" "\<exists>p'. task_cancelled a p = Some p' \<and> leaves a p p'"
    by (simp_all add: task_returned_def task_cancelled_def)
qed

lemma worker_leaves:
  assumes inv: "pool_inv p js ws" and fl: "pool_flag THREAD_POOL_DESTROY p" and en: "pool_enabled e p" and w: "worker_event e a"
  shows "\<exists>p'. pool_perform e p = Some p' \<and> leaves a p p'"
proof (cases e)
  case (Ev_start b)
  with task_start_ok [OF inv] en w obtain p' where "task_start a p = Some p'" by auto
  with Ev_start en w fl show ?thesis
    by (auto simp: task_start_def leaves_def pool_flag_def intro!: exI [of _ "Work_loop False"] split: bind_splits)
next
  case (Ev_turn b)
  with en w obtain d where d: "workers p a = Work_loop d" by (cases "workers p a") auto
  from destroy_check(2) [OF entered_loop [OF inv d], of p d] fl d Ev_turn w show ?thesis
    by (simp add: task_turn_def pool_flag_def)
next
  case (Ev_wake b x)
  with en w have i: "worker_idle (workers p a)" "p_holder p = NULL" by auto
  from destroy_check [OF entered_wait [OF inv i] fl] i Ev_wake w show ?thesis
    by (cases "workers p a") (simp_all add: task_timed_def)
next
  case (Ev_return b)
  with en w obtain d where d: "workers p a = Work_run d" by (cases "workers p a") auto
  with destroy_finish(1) [OF inv fl d] Ev_return w show ?thesis by simp
next
  case (Ev_cancel b)
  with en w obtain d where d: "workers p a = Work_run d" by (cases "workers p a") auto
  with destroy_finish(2) [OF inv fl d] Ev_cancel w show ?thesis by simp
next
  case (Ev_cancel_idle b)
  with en w have "workers p a \<noteq> Work_gone" by auto
  with leaves_cleanup [of p a "thread_idle_cleanup p"] fl Ev_cancel_idle w show ?thesis
    by (simp add: task_cancelled_idle_def thread_idle_cleanup_def pool_flag_def)
qed (use w in simp_all)

text \<open>Some worker can move while there is one.\<close>

lemma worker_can_move:
  assumes inv: "pool_inv p js ws" and n: "0 < p_nthreads p"
  shows "\<exists>e a. worker_event e a \<and> pool_enabled e p"
proof (cases "p_holder p = NULL")
  case True
  have "{a. workers p a \<noteq> Work_gone} \<noteq> {}" using pool_invD(2) [OF inv] n by (auto simp: crew_inv_def)
  then obtain a where a: "workers p a \<noteq> Work_gone" by blast
  have "\<not> worker_holds (workers p a)" using pool_invD(2) [OF inv] True by (auto simp: crew_inv_def)
  with a True have "pool_enabled (Ev_start a) p \<or> pool_enabled (Ev_wake a True) p \<or> pool_enabled (Ev_return a) p"
    by (cases "workers p a") auto
  then show ?thesis using worker_event.simps by metis
next
  case False
  then have "pool_enabled (Ev_turn (p_holder p)) p" using pool_invD(2) [OF inv] by (auto simp: crew_inv_def)
  then show ?thesis using worker_event.simps(2) by metis
qed

end
