(* ===== verification/Thread_Pool_Properties.thy ===== *)
theory Thread_Pool_Properties
  imports Thread_Pool_Steps
begin

text \<open>
  What the pool of \<open>thread-pool/thread_pool.c\<close> promises in every interleaving of its threads and callers, and one
  interleaving in which a job is left behind.
\<close>

section \<open>A concrete run\<close>

text \<open>At most one worker, none kept, and a second to wait for work.\<close>

definition pool_zero :: thread_pool where
  "pool_zero = \<lparr>maxthreads = 0, minthreads = 0, p_nthreads = 0, p_idlethreads = 0, keepalive = 0, p_flags = 0,
     pool_links = (\<lambda>_. \<lparr>list_next = 0, list_prev = 0\<rparr>), jobs = (\<lambda>_. \<lparr>job_func = 0, job_arg = 0\<rparr>),
     workers = (\<lambda>_. Work_gone), p_holder = 0, p_signals = [], cancels = [], accepted = [], started = []\<rparr>"

definition pool_demo :: thread_pool where
  "pool_demo = (case thread_pool_init 1 0 1 pool_zero of Some (_, p) \<Rightarrow> p | None \<Rightarrow> pool_zero)"

lemma pool_for_each:
  "list_for_each_from head head h = Some []"
  "pos \<noteq> head \<Longrightarrow> list_for_each_from pos head h = do { c \<leftarrow> load h pos; ps \<leftarrow> list_for_each_from (list_next c) head h; Some (pos # ps) }"
  by (subst list_for_each_from.simps; simp)+

lemmas pool_eval = pool_for_each pool_demo_def pool_zero_def thread_pool_init_def INIT_LIST_HEAD_def load_def store_def job_head_def
  active_thread_head_def Let_def thread_pool_execute_def list_add_tail_def list_add_between_def fresh_block_def queued_def
  list_for_each_def list_empty_def list_first_entry_def list_delete_def task_start_def task_turn_def task_check_def
  task_go_def task_timed_def task_returned_def thread_job_cleanup_def thread_task_cleanup_def worker_at_def pool_signal_def
  pool_flag_def THREAD_POOL_DESTROY_def THREAD_POOL_WAIT_def thread_pool_destroy_def

lemma pool_demo_reach: "pool_reach pool_demo"
  by (rule reach_init [of pool_zero 1 0 1]) (simp_all add: pool_blank_def pool_eval)

text \<open>One job given to the new worker at 10, which runs it.\<close>

lemma pool_demo_busy:
  "\<exists>p. pool_run [Ev_execute 20 0 10 5 6, Ev_start 10, Ev_turn 10] pool_demo = Some p \<and> workers p 10 = Work_run False \<and>
     p_holder p = 0 \<and> p_nthreads p = 1 \<and> started p = [\<lparr>job_func = 5, job_arg = 6\<rparr>]"
  by (simp add: pool_eval)

text \<open>
  C18: In every reachable state of the pool, every step of a worker or a caller that can be taken completes without
  touching a null or stale link. Afterwards the jobs accepted are those already started, in the order they were given,
  followed by those in the queue, which \<open>thread_pool_destroy\<close> would free; \<open>nthreads\<close> counts the live workers, of which there
  are never more than \<open>maxthreads\<close>, and \<open>idlethreads\<close> those that wait.
\<close>

theorem pool_steps_correct:
  assumes "pool_reach p" and "pool_enabled e p"
  shows "\<exists>p' js. pool_perform e p = Some p' \<and> accepted p' = accepted p @ submits e \<and>
    thread_pool_destroy_end p' = Some js \<and> accepted p' = started p' @ map (jobs p') js \<and>
    p_nthreads p' = int (card {a. workers p' a \<noteq> Work_gone}) \<and> p_nthreads p' \<le> maxthreads p' \<and>
    p_idlethreads p' = int (card {a. worker_idle (workers p' a)})"
proof -
  from pool_reach_inv [OF assms(1)] obtain js ws where "pool_inv p js ws" by blast
  from pool_perform_ok [OF this assms(2)] obtain p' js' ws' where
    p': "pool_perform e p = Some p'" "pool_inv p' js' ws'" "accepted p' = accepted p @ submits e"
    by (auto simp: pool_good_def)
  with pool_invD(2,4,5) [OF p'(2)] queued_inv [OF p'(2)] show ?thesis
    by (intro exI [of _ p'] exI [of _ js']) (simp add: crew_inv_def thread_pool_destroy_end_def)
qed

theorem pool_steps_correct_witness:
  "\<exists>p' js. pool_perform (Ev_execute 20 0 10 5 6) pool_demo = Some p' \<and> accepted p' = [\<lparr>job_func = 5, job_arg = 6\<rparr>] \<and>
    thread_pool_destroy_end p' = Some js \<and> accepted p' = started p' @ map (jobs p') js"
proof -
  have "pool_enabled (Ev_execute 20 0 10 5 6) pool_demo" "accepted pool_demo = []" by (simp_all add: pool_eval)
  with pool_steps_correct [OF pool_demo_reach] show ?thesis by fastforce
qed



text \<open>
  A job can be left in the queue with no worker to run it. A worker's timed wait expires just as a second
  job arrives, so the worker runs it with \<open>timedout\<close> still set; a third job arrives meanwhile and no thread is started for it,
  there being \<open>maxthreads\<close> already; the worker then leaves without looking at the queue.
\<close>

theorem pool_job_stranded:
  "\<exists>p. pool_run [Ev_execute 20 0 10 5 6, Ev_start 10, Ev_turn 10, Ev_return 10, Ev_turn 10, Ev_execute 21 0 11 5 7,
       Ev_wake 10 True, Ev_execute 22 0 11 5 8, Ev_return 10] pool_demo = Some p \<and>
     queued p = [22] \<and> p_nthreads p = 0 \<and> {a. workers p a \<noteq> Work_gone} = {} \<and>
     accepted p = started p @ [\<lparr>job_func = 5, job_arg = 8\<rparr>]"
  by (simp add: pool_eval)

end
