(* ===== verification/Co_Switch.thy ===== *)
theory Co_Switch
  imports Prelude
begin

text \<open>
  The context switch of \<open>co/co_core.c\<close> on x86-64, built with \<open>__argoverstack__\<close> as the Makefile does:
  the assembly routine \<open>co_switch\<close> instruction by instruction, and the frame \<open>co_init\<close> lays on the stack of a
  new coroutine. Memory holds quadwords at the addresses the code uses.
\<close>

section \<open>The machine\<close>

type_synonym quad = "64 word"

record cpu =
  rdi :: quad
  rsi :: quad
  rbp :: quad
  rbx :: quad
  r12 :: quad
  r13 :: quad
  r14 :: quad
  r15 :: quad
  rsp :: quad
  rip :: quad
  mem :: "quad \<Rightarrow> quad"

definition pushq :: "(cpu \<Rightarrow> quad) \<Rightarrow> cpu \<Rightarrow> cpu" where
  "pushq r c = c\<lparr>rsp := rsp c - 8, mem := (mem c)(rsp c - 8 := r c)\<rparr>"

definition popq :: "((quad \<Rightarrow> quad) \<Rightarrow> cpu \<Rightarrow> cpu) \<Rightarrow> cpu \<Rightarrow> cpu" where
  "popq upd c = (upd (\<lambda>_. mem c (rsp c)) c)\<lparr>rsp := rsp c + 8\<rparr>"

section \<open>The switch\<close>

definition co_save :: "cpu \<Rightarrow> cpu" where
  "co_save c = (let c = pushq r15 (pushq r14 (pushq r13 (pushq r12 (pushq rbx (pushq rbp c)))))
     in c\<lparr>mem := (mem c)(rdi c := rsp c)\<rparr>)"

definition co_restore :: "cpu \<Rightarrow> cpu" where
  "co_restore c = (let c = c\<lparr>rsp := mem c (rsi c)\<rparr>
     in popq rip_update (popq rbp_update (popq rbx_update (popq r12_update (popq r13_update
          (popq r14_update (popq r15_update c)))))))"

definition co_switch :: "cpu \<Rightarrow> cpu" where
  "co_switch c = co_restore (co_save c)"

text \<open>
  The frame of a new coroutine below \<open>new_stack\<close>, and the stack pointer \<open>co->context.sp\<close>. The slots of the other
  registers keep what the memory held.
\<close>

definition co_stack_init :: "quad \<Rightarrow> quad \<Rightarrow> quad \<Rightarrow> quad \<Rightarrow> (quad \<Rightarrow> quad) \<Rightarrow> (quad \<Rightarrow> quad)" where
  "co_stack_init ctx co entry new_stack m =
     m(new_stack - 8 := co, new_stack - 16 := entry, new_stack - 24 := new_stack - 8, ctx := new_stack - 64)"

section \<open>What a switch saves\<close>

text \<open>The cells that belong to a suspended context: its stack pointer and the seven slots above it.\<close>

definition saved_cells :: "quad \<Rightarrow> quad \<Rightarrow> quad set" where
  "saved_cells ctx sp = {ctx, sp, sp - 8, sp - 16, sp - 24, sp - 32, sp - 40, sp - 48}"

definition callee_saved :: "cpu \<Rightarrow> quad list" where
  "callee_saved c = [rbp c, rbx c, r12 c, r13 c, r14 c, r15 c]"

lemma co_save_eq:
  "co_save c = c\<lparr>rsp := rsp c - 48, mem := (mem c)(rsp c - 8 := rbp c, rsp c - 16 := rbx c, rsp c - 24 := r12 c,
     rsp c - 32 := r13 c, rsp c - 40 := r14 c, rsp c - 48 := r15 c, rdi c := rsp c - 48)\<rparr>"
  by (simp add: co_save_def pushq_def Let_def diff_diff_eq)

lemma slot_distinct: "(a :: quad) - b = a - d \<longleftrightarrow> b = d" "a - b = a \<longleftrightarrow> b = 0" "a = a - b \<longleftrightarrow> b = 0"
  by (auto simp: algebra_simps)

lemma co_save_cells:
  assumes "rdi c \<notin> {rsp c, rsp c - 8, rsp c - 16, rsp c - 24, rsp c - 32, rsp c - 40, rsp c - 48}"
  shows "mem (co_save c) (rdi c) = rsp c - 48" "mem (co_save c) (rsp c) = mem c (rsp c)"
    "mem (co_save c) (rsp c - 8) = rbp c" "mem (co_save c) (rsp c - 16) = rbx c" "mem (co_save c) (rsp c - 24) = r12 c"
    "mem (co_save c) (rsp c - 32) = r13 c" "mem (co_save c) (rsp c - 40) = r14 c" "mem (co_save c) (rsp c - 48) = r15 c"
  using assms by (simp_all add: co_save_eq slot_distinct eq_commute [of "rdi c"])

lemma co_save_frame:
  "x \<notin> saved_cells (rdi c) (rsp c) \<Longrightarrow> mem (co_save c) x = mem c x" "rsi (co_save c) = rsi c"
  by (simp_all add: co_save_eq saved_cells_def)

lemma co_restore_regs:
  "callee_saved (co_restore c) = map (\<lambda>i. mem c (mem c (rsi c) + i)) [40, 32, 24, 16, 8, 0]"
  "rip (co_restore c) = mem c (mem c (rsi c) + 48)" "rsp (co_restore c) = mem c (rsi c) + 56" "mem (co_restore c) = mem c"
  by (simp_all add: co_restore_def popq_def Let_def callee_saved_def algebra_simps)

section \<open>Properties\<close>

text \<open>The scheduler, with its context at 8192, about to switch to a new coroutine with context at 8200.\<close>

definition cpu_demo :: cpu where
  "cpu_demo = \<lparr>rdi = 8192, rsi = 8200, rbp = 1, rbx = 2, r12 = 3, r13 = 4, r14 = 5, r15 = 6, rsp = 4096, rip = 0,
     mem = co_stack_init 8200 7 9 32768 ((\<lambda>_. 0)(4096 := 99))\<rparr>"

text \<open>
  C22: A coroutine that is switched away from and later switched back to goes on after its call of
  \<open>co_switch\<close> with its stack pointer and the callee-saved registers as they were, whatever ran in
  between, provided that left the saved cells alone and has its own stack elsewhere.
\<close>

theorem co_switch_roundtrip:
  assumes "rdi c \<notin> {rsp c, rsp c - 8, rsp c - 16, rsp c - 24, rsp c - 32, rsp c - 40, rsp c - 48}"
    and "\<forall>x \<in> saved_cells (rdi c) (rsp c). mem d x = mem (co_switch c) x"
    and "saved_cells (rdi c) (rsp c) \<inter> saved_cells (rdi d) (rsp d) = {}" and "rsi d = rdi c"
  shows "callee_saved (co_switch d) = callee_saved c \<and> rsp (co_switch d) = rsp c + 8 \<and> rip (co_switch d) = mem c (rsp c)"
proof -
  have keep: "mem (co_save d) x = mem (co_save c) x" if "x \<in> saved_cells (rdi c) (rsp c)" for x
    using that assms(2,3) co_save_frame(1) [of x d] by (auto simp: co_switch_def co_restore_regs)
  have sp: "mem (co_save d) (rsi (co_save d)) = rsp c - 48"
    using keep co_save_cells(1) [OF assms(1)] assms(4) by (simp add: co_save_frame saved_cells_def)
  have slots: "mem (co_save d) (rsp c - 48) = r15 c" "mem (co_save d) (rsp c - 40) = r14 c" "mem (co_save d) (rsp c - 32) = r13 c"
    "mem (co_save d) (rsp c - 24) = r12 c" "mem (co_save d) (rsp c - 16) = rbx c" "mem (co_save d) (rsp c - 8) = rbp c"
    "mem (co_save d) (rsp c) = mem c (rsp c)"
    using keep co_save_cells [OF assms(1)] by (simp_all add: saved_cells_def)
  show ?thesis
    unfolding co_switch_def co_restore_regs sp using slots by (simp add: callee_saved_def)
qed

theorem co_switch_roundtrip_witness:
  "callee_saved (co_switch ((co_switch cpu_demo)\<lparr>rdi := 8200, rsi := 8192, rsp := 32000\<rparr>)) = [1, 2, 3, 4, 5, 6]"
  using co_switch_roundtrip [of cpu_demo "(co_switch cpu_demo)\<lparr>rdi := 8200, rsi := 8192, rsp := 32000\<rparr>"]
  by (simp add: cpu_demo_def saved_cells_def callee_saved_def)

text \<open>
  The first switch to a new coroutine enters \<open>co_entry\<close>, with \<open>rbp\<close> pointing to the cell that holds
  the coroutine, which is where \<open>co_entry\<close> reads its argument, and with the stack just below the top.
\<close>

theorem co_switch_entry:
  assumes "mem c = co_stack_init (rsi c) co entry hi m"
    and "saved_cells (rsi c) (hi - 16) \<inter> saved_cells (rdi c) (rsp c) = {}" and "hi - 8 \<notin> saved_cells (rdi c) (rsp c)"
    and "rsi c \<notin> {hi - 8, hi - 16, hi - 24, hi - 32, hi - 40, hi - 48, hi - 56, hi - 64}"
  shows "rip (co_switch c) = entry \<and> mem (co_switch c) (rbp (co_switch c)) = co \<and> rsp (co_switch c) = hi - 8"
proof -
  have keep: "mem (co_save c) x = mem c x" if "x \<in> saved_cells (rsi c) (hi - 16) \<or> x = hi - 8" for x
    using that assms(2,3) by (intro co_save_frame) auto
  have sp: "mem (co_save c) (rsi (co_save c)) = hi - 64"
    using keep by (simp add: co_save_frame saved_cells_def assms(1)) (simp add: co_stack_init_def)
  have slots: "mem (co_save c) (hi - 24) = hi - 8" "mem (co_save c) (hi - 16) = entry" "mem (co_save c) (hi - 8) = co"
    using keep assms(4) by (simp_all add: saved_cells_def assms(1) co_stack_init_def slot_distinct diff_diff_eq eq_commute [of "rsi c"])
  have "rbp (co_switch c) = mem (co_save c) (mem (co_save c) (rsi (co_save c)) + 40)"
    using co_restore_regs(1) [of "co_save c"] by (simp add: callee_saved_def co_switch_def)
  with slots show ?thesis unfolding co_switch_def co_restore_regs sp by simp
qed

theorem co_switch_entry_witness: "rip (co_switch cpu_demo) = 9 \<and> rsp (co_switch cpu_demo) = 32760"
  using co_switch_entry [of cpu_demo 7 9 32768 "(\<lambda>_. 0)(4096 := 99)"] by (simp add: cpu_demo_def saved_cells_def)

end
