(* ===== verification/Co_Core.thy ===== *)
theory Co_Core
  imports RB_Query Intrusive_List
begin

text \<open>
  The coroutine scheduler of \<open>co/co_core.c\<close> and its waiting on descriptors in \<open>co/co_epoll.c\<close>. A coroutine is known by
  its address, which also stands for its embedded \<open>list\<close> and \<open>sleep_node\<close>. The code of a coroutine is not part of the
  model: what it does between two switches is a sequence of the calls below, and a call that switches away ends with
  what \<open>schedule\<close> does on return (\<open>schedule_back\<close>). Clock readings, in microseconds, and the results of
  \<open>epoll_wait\<close> are arguments; the context switch itself is in \<open>Co_Switch\<close>.
\<close>

section \<open>Data\<close>

datatype co_state = CO_READY | CO_RUNNING | CO_SLEEPING | CO_WAITING | CO_TIMEDWAIT | CO_EXITED

record co_struct =
  co_id :: int
  co_routine :: addr
  co_arg :: addr
  co_state :: co_state
  sleep_expired_time :: int

record co_scheduler =
  coid :: int
  schedret :: int
  runningco :: addr
  sleep_tree :: rb_tree
  co_links :: links
  cos :: "addr \<Rightarrow> co_struct"
  created :: "addr set"

text \<open>\<open>created\<close> are the coroutines initialised and not yet released.\<close>

definition waitsq :: addr where "waitsq = 1"
definition readyq :: addr where "readyq = 2"

abbreviation state_of :: "co_scheduler \<Rightarrow> addr \<Rightarrow> co_state" where
  "state_of S c \<equiv> co_state (cos S c)"

abbreviation wakes_at :: "co_scheduler \<Rightarrow> addr \<Rightarrow> int" where
  "wakes_at S c \<equiv> sleep_expired_time (cos S c)"

section \<open>State queues\<close>

definition co_nexttmo :: "int \<Rightarrow> co_scheduler \<Rightarrow> int option" where
  "co_nexttmo now S = do {
     n \<leftarrow> rb_first (sleep_tree S);
     Some (if n \<noteq> NULL then let tmo = wakes_at S n - now in if tmo > 0 then tmo else 0 else - 1)
   }"

definition co_transfer :: "addr \<Rightarrow> co_state \<Rightarrow> co_scheduler \<Rightarrow> co_scheduler option" where
  "co_transfer co st S = do {
     L \<leftarrow> list_del_init co (co_links S);
     L \<leftarrow> (case st of
        CO_READY \<Rightarrow> list_add_tail co readyq L
      | CO_WAITING \<Rightarrow> list_add_tail co waitsq L
      | CO_TIMEDWAIT \<Rightarrow> list_add_tail co waitsq L
      | _ \<Rightarrow> Some L);
     cs \<leftarrow> store (cos S) co (co_state_update (\<lambda>_. st));
     Some (S\<lparr>co_links := L, cos := cs\<rparr>)
   }"

definition expt_compare :: "co_scheduler \<Rightarrow> comparator" where
  "expt_compare S n1 n2 = (if wakes_at S n1 > wakes_at S n2 then 1 else 0)"

text \<open>The loop that moves the deadline until the tree takes the node.\<close>

partial_function (option) sleep_insert :: "addr \<Rightarrow> co_scheduler \<Rightarrow> co_scheduler option" where
  "sleep_insert co S = do {
     (n, T) \<leftarrow> rb_insert (expt_compare S) co (sleep_tree S);
     if n = co then Some (S\<lparr>sleep_tree := T\<rparr>)
     else do {
       cs \<leftarrow> store (cos S) co (sleep_expired_time_update (\<lambda>t. t + 1));
       sleep_insert co (S\<lparr>sleep_tree := T, cos := cs\<rparr>)
     }
   }"

definition set_deadline :: "addr \<Rightarrow> int \<Rightarrow> co_scheduler \<Rightarrow> co_scheduler option" where
  "set_deadline co t S = do {
     cs \<leftarrow> store (cos S) co (sleep_expired_time_update (\<lambda>_. t));
     sleep_insert co (S\<lparr>cos := cs\<rparr>)
   }"

section \<open>Scheduling\<close>

text \<open>The end of a round of \<open>schedule\<close>, with the callback \<open>release\<close>.\<close>

definition schedule_back :: "co_scheduler \<Rightarrow> co_scheduler option" where
  "schedule_back S = do {
     c \<leftarrow> load (cos S) (runningco S);
     let S = (if co_state c = CO_EXITED then S\<lparr>created := created S - {runningco S}\<rparr> else S);
     Some (S\<lparr>runningco := NULL\<rparr>)
   }"

text \<open>The beginning of a round, up to the switch to the coroutine.\<close>

definition schedule_resume :: "co_scheduler \<Rightarrow> co_scheduler option" where
  "schedule_resume S = do {
     co \<leftarrow> list_first_entry readyq (co_links S);
     co_transfer co CO_RUNNING (S\<lparr>runningco := co\<rparr>)
   }"

definition co_yield :: "addr \<Rightarrow> co_scheduler \<Rightarrow> co_scheduler option" where
  "co_yield co S = (if runningco S = co then schedule_back S else None)"

definition co_sleep :: "addr \<Rightarrow> int \<Rightarrow> int \<Rightarrow> co_scheduler \<Rightarrow> co_scheduler option" where
  "co_sleep co usec now S =
     (if runningco S \<noteq> co then None
      else do {
        S \<leftarrow> (if usec > 0 then set_deadline co (now + usec) S else Some S);
        S \<leftarrow> co_transfer co CO_SLEEPING S;
        co_yield co S
      })"

text \<open>The end of \<open>co_entry\<close>, when the routine has returned.\<close>

definition co_entry :: "addr \<Rightarrow> co_scheduler \<Rightarrow> co_scheduler option" where
  "co_entry co S = do { S \<leftarrow> co_transfer co CO_EXITED S; co_yield co S }"

text \<open>\<open>now i\<close> is the clock at the \<open>i\<close>-th turn of the loop of \<open>expire\<close>.\<close>

partial_function (option) expire_from :: "(nat \<Rightarrow> int) \<Rightarrow> nat \<Rightarrow> addr \<Rightarrow> co_scheduler \<Rightarrow> co_scheduler option" where
  "expire_from now i n S =
     (if n = NULL then Some S
      else do {
        S \<leftarrow> (if wakes_at S n - now i \<le> 0 then do {
                 T \<leftarrow> rb_remove n (sleep_tree S);
                 co_transfer n CO_READY (S\<lparr>sleep_tree := T\<rparr>)
               } else Some S);
        n \<leftarrow> rb_next n (sleep_tree S);
        expire_from now (Suc i) n S
      })"

definition expire_sleepers :: "(nat \<Rightarrow> int) \<Rightarrow> co_scheduler \<Rightarrow> co_scheduler option" where
  "expire_sleepers now S = do { n \<leftarrow> rb_first (sleep_tree S); expire_from now 0 n S }"

definition co_scheduler_init :: "co_scheduler \<Rightarrow> co_scheduler option" where
  "co_scheduler_init S = do {
     L \<leftarrow> INIT_LIST_HEAD readyq (co_links S);
     L \<leftarrow> INIT_LIST_HEAD waitsq L;
     Some (S\<lparr>co_links := L, coid := 0, runningco := NULL, sleep_tree := rb_tree_init (sleep_tree S)\<rparr>)
   }"

text \<open>The condition of the loop of \<open>co_scheduler_run\<close>.\<close>

definition co_scheduler_goes :: "co_scheduler \<Rightarrow> bool option" where
  "co_scheduler_goes S = do {
     we \<leftarrow> list_empty waitsq (co_links S);
     re \<leftarrow> list_empty readyq (co_links S);
     Some (\<not> we \<or> \<not> re \<or> rb_count (sleep_tree S) \<noteq> 0)
   }"

text \<open>\<open>err\<close> is the result of \<open>posix_memalign\<close>.\<close>

definition co_init :: "addr \<Rightarrow> int \<Rightarrow> addr \<Rightarrow> addr \<Rightarrow> co_scheduler \<Rightarrow> (int \<times> co_scheduler) option" where
  "co_init co err routine arg S =
     (if err \<noteq> 0 then Some (- 1, S)
      else do {
        L \<leftarrow> INIT_LIST_HEAD co (co_links S);
        cs \<leftarrow> store (cos S) co (\<lambda>c. c\<lparr>co_id := coid S, co_arg := arg, co_routine := routine\<rparr>);
        S \<leftarrow> co_transfer co CO_READY (S\<lparr>co_links := L, coid := coid S + 1, cos := cs, created := insert co (created S)\<rparr>);
        Some (0, S)
      })"

section \<open>Waiting on descriptors (co_epoll.c)\<close>

text \<open>\<open>co_epoll\<close> up to the switch; the answer after it is \<open>schedret\<close>.\<close>

definition co_epoll :: "addr \<Rightarrow> int \<Rightarrow> int \<Rightarrow> co_scheduler \<Rightarrow> co_scheduler option" where
  "co_epoll co timeout now S = do {
     S \<leftarrow> (if timeout \<ge> 0 then do {
              S \<leftarrow> set_deadline co (now + 1000 * timeout) S;
              co_transfer co CO_TIMEDWAIT S
            } else co_transfer co CO_WAITING S);
     co_yield co S
   }"

text \<open>The division truncates; its operand is positive here.\<close>

definition co_epoll_nexttmo :: "int \<Rightarrow> co_scheduler \<Rightarrow> int option" where
  "co_epoll_nexttmo now S = do {
     n \<leftarrow> rb_first (sleep_tree S);
     Some (if n = NULL then - 1
       else let tmo = wakes_at S n - now in
         if tmo > 0 then (tmo + 500) div 1000 else if tmo < 0 then - 1 else 0)
   }"

fun transfer_all :: "addr list \<Rightarrow> co_scheduler \<Rightarrow> co_scheduler option" where
  "transfer_all [] S = Some S"
| "transfer_all (c # cs) S = do { S \<leftarrow> co_transfer c CO_READY S; transfer_all cs S }"

text \<open>
  \<open>co_epoll_schedule\<close>: the answers of \<open>epoll_wait\<close> are the coroutines of its events, none for a timeout, or an
  error, of which \<open>EINTR\<close> is tried again.
\<close>

datatype poll_answer = Poll_events "addr list" | Poll_error bool

fun co_epoll_schedule :: "poll_answer list \<Rightarrow> co_scheduler \<Rightarrow> (int \<times> co_scheduler) option" where
  "co_epoll_schedule [] S = None"
| "co_epoll_schedule (Poll_events cs # as) S = do { S \<leftarrow> transfer_all cs S; Some (int (length cs), S) }"
| "co_epoll_schedule (Poll_error eintr # as) S = (if eintr then co_epoll_schedule as S else Some (- 1, S))"

text \<open>The last statement of a turn of \<open>co_scheduler_run\<close>.\<close>

definition scheduler_poll :: "poll_answer list \<Rightarrow> co_scheduler \<Rightarrow> co_scheduler option" where
  "scheduler_poll as S = do { (ret, S) \<leftarrow> co_epoll_schedule as S; Some (S\<lparr>schedret := ret\<rparr>) }"

end
