(* ===== verification/RB_Frame.thy ===== *)
theory RB_Frame
  imports RB_Query
begin

text \<open>
  What removal leaves alone: the nodes outside a set that is closed under links. In particular the
  removed node keeps its own links, so that a traversal can go on from the first node after its removal, as
  \<open>expire\<close> of \<open>co/co_core.c\<close> does.
\<close>

section \<open>Closed sets\<close>

definition node_in :: "addr set \<Rightarrow> rb_node \<Rightarrow> bool" where
  "node_in A n \<longleftrightarrow> rb_parent n \<in> insert NULL A \<and> rb_left n \<in> insert NULL A \<and> rb_right n \<in> insert NULL A"

definition closed_in :: "addr set \<Rightarrow> rb_tree \<Rightarrow> bool" where
  "closed_in A T \<longleftrightarrow> rb_root T \<in> insert NULL A \<and> (\<forall>a\<in>A. node_in A (rb_nodes T a))"

definition keeps :: "addr set \<Rightarrow> rb_tree \<Rightarrow> rb_tree \<Rightarrow> bool" where
  "keeps A T0 T \<longleftrightarrow> closed_in A T \<and> (\<forall>x. x \<notin> A \<longrightarrow> rb_nodes T x = rb_nodes T0 x)"

lemma pwp_get:
  "keeps A T0 T \<Longrightarrow> p \<in> insert NULL A \<Longrightarrow> (\<And>n. node_in A n \<Longrightarrow> p \<in> A \<Longrightarrow> Q n) \<Longrightarrow> pwp (rb_get T p) Q"
  by (auto simp: pwp_def rb_get_def load_def keeps_def closed_in_def split: if_splits)

lemma pwp_set:
  assumes "keeps A T0 T" and "p \<in> insert NULL A" and "\<And>n. node_in A n \<Longrightarrow> node_in A (f n)" and "\<And>T'. keeps A T0 T' \<Longrightarrow> Q T'"
  shows "pwp (rb_set T p f) Q"
proof -
  have "keeps A T0 (T\<lparr>rb_nodes := (rb_nodes T)(p := f (rb_nodes T p))\<rparr>)" if "p \<noteq> NULL"
    using assms(1-3) that by (auto simp: keeps_def closed_in_def)
  then show ?thesis using assms(4) by (auto simp: pwp_def rb_set_def store_def split: if_splits)
qed

lemma node_in_update [simp]:
  "node_in A (n\<lparr>rb_parent := p\<rparr>) \<longleftrightarrow> p \<in> insert NULL A \<and> rb_left n \<in> insert NULL A \<and> rb_right n \<in> insert NULL A"
  "node_in A (n\<lparr>rb_left := p\<rparr>) \<longleftrightarrow> p \<in> insert NULL A \<and> rb_parent n \<in> insert NULL A \<and> rb_right n \<in> insert NULL A"
  "node_in A (n\<lparr>rb_right := p\<rparr>) \<longleftrightarrow> p \<in> insert NULL A \<and> rb_left n \<in> insert NULL A \<and> rb_parent n \<in> insert NULL A"
  "node_in A (n\<lparr>rb_color := c\<rparr>) \<longleftrightarrow> node_in A n"
  by (auto simp: node_in_def)

lemma node_inD: "node_in A n \<Longrightarrow> rb_parent n \<in> insert NULL A" "node_in A n \<Longrightarrow> rb_left n \<in> insert NULL A" "node_in A n \<Longrightarrow> rb_right n \<in> insert NULL A"
  by (auto simp: node_in_def)

lemma pwp_red: "(\<And>b. Q b) \<Longrightarrow> pwp (rb_is_red T p) Q"
  by (simp add: pwp_def)

lemma pwp_set_color:
  assumes "keeps A T0 T" and "p \<in> insert NULL A" and "\<And>T'. keeps A T0 T' \<Longrightarrow> Q T'"
  shows "pwp (rb_set_red T p) Q" "pwp (rb_set_black T p) Q"
  unfolding rb_set_red_def rb_set_black_def by (rule pwp_set [OF assms(1,2)]; simp add: assms(3))+

lemmas pwp_intros = pwp_bind pwp_Some pwp_if pwp_let pwp_pair pwp_red

lemma pwp_replace_child:
  assumes "keeps A T0 T" and "parent \<in> insert NULL A" and "new \<in> insert NULL A" and "\<And>T'. keeps A T0 T' \<Longrightarrow> Q T'"
  shows "pwp (rb_replace_child parent old new T) Q"
  unfolding rb_replace_child_def
proof (intro pwp_intros pwp_get [OF assms(1,2)] pwp_set [OF assms(1,2)] assms(4))
  show "keeps A T0 (T\<lparr>rb_root := new\<rparr>)" using assms(1,3) by (simp add: keeps_def closed_in_def)
qed (use assms(3) in \<open>auto simp: node_in_def\<close>)

lemma pwp_rotate:
  assumes "keeps A T0 T" and "node \<in> insert NULL A" and "\<And>T'. keeps A T0 T' \<Longrightarrow> Q T'"
  shows "pwp (rb_rotate_left node T) Q" "pwp (rb_rotate_right node T) Q"
  unfolding rb_rotate_left_def rb_rotate_right_def
  by (rule pwp_intros pwp_get pwp_set pwp_replace_child assms | assumption | erule node_inD | simp add: node_in_def | (auto simp: node_in_def)[1])+

lemma pwp_swap_color:
  assumes "keeps A T0 T" and "p \<in> insert NULL A" and "s \<in> insert NULL A" and "\<And>T'. keeps A T0 T' \<Longrightarrow> Q T'"
  shows "pwp (rb_swap_color p s T) Q"
  unfolding rb_swap_color_def
  by (rule pwp_intros pwp_get pwp_set assms | assumption | simp)+

lemma keeps_root: "keeps A T0 T \<Longrightarrow> rb_root T \<in> insert NULL A"
  by (simp add: keeps_def closed_in_def)

section \<open>Removal\<close>

lemma remove_color_keeps:
  assumes "rb_remove_color node parent T = Some T'" and "keeps A T0 T" and "node \<in> insert NULL A" and "parent \<in> insert NULL A"
  shows "keeps A T0 T'"
  using assms
proof (induction node parent T T' rule: rb_remove_color.raw_induct [rotated, consumes 1])
  case (1 f node parent T T')
  note P = 1(3-5)
  have rec: "pwp (f n p U) (keeps A T0)" if "keeps A T0 U" "n \<in> insert NULL A" "p \<in> insert NULL A" for n p U
    using 1(1) that by (auto simp: pwp_def)
  have "pwp (Some T') (keeps A T0)"
    unfolding 1(2) [symmetric]
    apply (rule pwp_intros pwp_get pwp_set_color pwp_rotate pwp_swap_color rec P | assumption | erule node_inD keeps_root | simp)+
    done
  then show ?case by (simp add: pwp_def)
qed

lemma tree_closed: "tree_at h p t \<Longrightarrow> p \<in> insert NULL B \<Longrightarrow> set (addrs t) \<subseteq> B \<Longrightarrow> a \<in> set (addrs t) \<Longrightarrow> node_in B (h a)"
proof (induction t arbitrary: p)
  case (Nd l x c r)
  have "root_of l \<in> insert NULL B" "root_of r \<in> insert NULL B"
    using Nd.prems(3) root_of_in [of l] root_of_in [of r] by (cases l; cases r; auto)+
  with Nd show ?case by (auto simp: node_in_def)
qed simp

lemma ctx_closed:
  "ctx_at h rt p k \<Longrightarrow> p \<in> insert NULL B \<Longrightarrow> set (kaddrs k) \<subseteq> B \<Longrightarrow> rt \<in> insert NULL B \<and> (\<forall>a \<in> set (kaddrs k). node_in B (h a))"
proof (induction k arbitrary: p)
  case (Cons x k)
  have k: "par_of k \<in> insert NULL B" using Cons.prems(3) par_of_in [of k] by (cases "k = []") auto
  have t: "root_of (crumb_tree x) \<in> insert NULL B"
    using Cons.prems(3) root_of_in [of "crumb_tree x"] by (cases "crumb_tree x = Lf") auto
  have "\<forall>a \<in> set (addrs (crumb_tree x)). node_in B (h a)"
    using Cons.prems tree_closed [of h "crumb_addr x" "crumb_tree x" B] by (cases x) auto
  moreover have "node_in B (h (crumb_addr x))" using Cons.prems k t by (cases x) (auto simp: node_in_def)
  moreover have "rt \<in> insert NULL B \<and> (\<forall>a \<in> set (kaddrs k). node_in B (h a))"
    using Cons.IH [of "crumb_addr x"] Cons.prems by (cases x) auto
  ultimately show ?case by auto
qed simp

lemma zip_closed: "zip_at T t k \<Longrightarrow> closed_in (set (addrs t @ kaddrs k)) T"
proof -
  assume z: "zip_at T t k"
  let ?B = "set (addrs t @ kaddrs k)"
  have "par_of k \<in> insert NULL ?B" "root_of t \<in> insert NULL ?B"
    using par_of_in [of k] root_of_in [of t] by (cases "k = []"; cases "t = Lf"; auto)+
  with z tree_closed [of "rb_nodes T" "par_of k" t ?B] ctx_closed [of "rb_nodes T" "rb_root T" "root_of t" k ?B] show ?thesis
    by (auto simp: zip_at_def closed_in_def)
qed

lemma remove_one_own:
  assumes "rb_remove_one n child T = Some (ch, p, T1)" and "child \<noteq> n" and "rb_parent (rb_nodes T n) \<noteq> n"
  shows "rb_nodes T1 n = rb_nodes T n"
  using assms
  by (auto simp: rb_remove_one_def rb_replace_child_def rb_set_def rb_get_def load_def store_def Let_def
      split: bind_splits if_splits)

text \<open>The first node has no left child, and at most one node to its right.\<close>

lemma rb_wf_first:
  assumes "rb_wf cmp T (n # ys)"
  obtains c r k where "zip_at T (Nd Lf n c r) k" "kbefore k = []" "ys = addrs r @ kafter k" "r = Lf \<or> (\<exists>x d. r = Nd Lf x d Lf)"
proof -
  from assms obtain t m where t: "zip_at T t []" "rbt_ok t m" "tcol t = RB_BLACK" "addrs t = n # ys"
    by (auto simp: rb_wf_def rb_shape_def)
  from focus_exists [of n t "[]"] t(4) obtain l c r k where z: "zip_up (Nd l n c r) k = t" by auto
  with t have Z: "zip_at T (Nd l n c r) k" using zip_at_top by blast
  from kinv_zip_up [of "Nd l n c r" k m] t z obtain p where ok: "rbt_ok (Nd l n c r) p" by auto
  have a: "(kbefore k @ addrs l) @ n # (addrs r @ kafter k) = [] @ n # ys" using t(4) z by (auto simp: addrs_zip_up)
  moreover have "n \<notin> set (kbefore k @ addrs l)" "n \<notin> set (addrs r @ kafter k)"
    using Z by (auto simp: zip_at_def set_kaddrs)
  ultimately have e: "kbefore k @ addrs l = []" "ys = addrs r @ kafter k"
    using append_Cons_eq_iff [of n "kbefore k @ addrs l" "addrs r @ kafter k" "[]" ys] by (metis append_Nil)+
  then have l: "l = Lf" by (cases l) auto
  have black: "u = Lf" if "rbt_ok u 0" "tcol u = RB_BLACK" for u using that by (cases u) auto
  have "rbt_ok r 0" using ok l by auto
  then have "r = Lf \<or> (\<exists>x d. r = Nd Lf x d Lf)" by (cases r) (auto dest!: black)
  with that Z l e show ?thesis by auto
qed

text \<open>The node removed first keeps its links, the others do not point to it.\<close>

lemma remove_first_own:
  assumes wf: "rb_wf cmp T (n # ys)"
  obtains T' r c k where "rb_remove n T = Some T'" "rb_wf cmp T' ys" "zip_at T (Nd Lf n c r) k" "kbefore k = []" "ys = addrs r @ kafter k"
    "r = Lf \<or> (\<exists>x d. r = Nd Lf x d Lf)" "rb_nodes T' n = rb_nodes T n" "\<And>a. a \<in> set ys \<Longrightarrow> rb_right (rb_nodes T' a) \<noteq> n"
proof -
  from rb_wf_first [OF wf] obtain c r k where
    z: "zip_at T (Nd Lf n c r) k" and k: "kbefore k = []" "ys = addrs r @ kafter k" "r = Lf \<or> (\<exists>x d. r = Nd Lf x d Lf)" by metis
  from rb_remove_ok [OF wf, of n] obtain T' where T': "rb_remove n T = Some T'" "rb_wf cmp T' ys" by auto
  from remove_one_ok [OF z, of r] obtain T1 where T1: "rb_remove_one n (root_of r) T = Some (root_of r, par_of k, T1)" "zip_at T1 r k"
    by metis
  have nd: "rb_nodes T n = \<lparr>rb_parent = par_of k, rb_left = NULL, rb_right = root_of r, rb_color = c\<rparr>" "n \<noteq> NULL"
    using z by (auto simp: zip_at_def)
  have dist: "n \<notin> set (addrs r @ kaddrs k)" using z by (auto simp: zip_at_def)
  have ne: "root_of r \<noteq> n" "par_of k \<noteq> n"
    using dist nd(2) root_of_in [of r] par_of_in [of k] by (cases "r = Lf"; cases "k = []"; auto)+
  have own: "rb_nodes T1 n = rb_nodes T n" by (rule remove_one_own [OF T1(1)]) (use ne nd in auto)
  let ?A = "set (addrs r @ kaddrs k)"
  have c1: "keeps ?A T1 T1" using zip_closed [OF T1(2)] by (simp add: keeps_def)
  obtain T2 where T2: "T' = T2\<lparr>rb_count := rb_count T2 - 1\<rparr>" "T2 = T1 \<or> rb_remove_color (root_of r) (par_of k) T1 = Some T2"
    using T'(1) T1(1) nd own
    by (auto simp: rb_remove_def rb_get_def load_def split: bind_splits if_splits)
  have "root_of r \<in> insert NULL ?A" "par_of k \<in> insert NULL ?A"
    using root_of_in [of r] par_of_in [of k] by (cases "r = Lf"; cases "k = []"; auto)+
  then have k2: "keeps ?A T1 T2" using T2(2) c1 remove_color_keeps [of "root_of r" "par_of k" T1 T2 ?A T1] by blast
  have "rb_nodes T' n = rb_nodes T n" using k2 dist own T2(1) by (auto simp: keeps_def)
  moreover have "rb_right (rb_nodes T' a) \<noteq> n" if "a \<in> set ys" for a
  proof -
    have "a \<in> ?A" using that k(2) by (auto simp: set_kaddrs)
    then have "rb_right (rb_nodes T' a) \<in> insert NULL ?A"
      using k2 T2(1) unfolding keeps_def closed_in_def node_in_def by auto
    with dist nd(2) show ?thesis by auto
  qed
  ultimately show ?thesis using that T' z k by auto
qed

lemma next_after_remove:
  assumes wf: "rb_wf cmp T (n # ys)"
  shows "\<exists>T'. rb_remove n T = Some T' \<and> rb_wf cmp T' ys \<and> rb_next n T' = Some (first_or_NULL ys)"
proof -
  from remove_first_own [OF wf] obtain T' r c k where
    T': "rb_remove n T = Some T'" "rb_wf cmp T' ys" and z: "zip_at T (Nd Lf n c r) k" and k: "kbefore k = []" "ys = addrs r @ kafter k"
    "r = Lf \<or> (\<exists>x d. r = Nd Lf x d Lf)" and own: "rb_nodes T' n = rb_nodes T n" and off: "\<And>a. a \<in> set ys \<Longrightarrow> rb_right (rb_nodes T' a) \<noteq> n" by metis
  have nd: "rb_nodes T n = \<lparr>rb_parent = par_of k, rb_left = NULL, rb_right = root_of r, rb_color = c\<rparr>" "n \<noteq> NULL"
    using z by (auto simp: zip_at_def)
  have nn: "NULL \<notin> set ys" using T'(2) rb_shape_distinct by (auto simp: rb_wf_def)
  have "rb_next n T' = Some (first_or_NULL ys)"
  proof (cases r)
    case Lf
    show ?thesis
    proof (cases k)
      case Nil
      then show ?thesis using Lf nd own k by (simp add: rb_next_def rb_get_def mem_simps rb_climb_right.simps)
    next
      case (Cons x k')
      with k(1) obtain a d s where x: "x = LeftOf a d s" by (cases x) auto
      then have "a \<in> set ys" using k(2) Cons by auto
      with off nn have "a \<noteq> NULL" "rb_right (rb_nodes T' a) \<noteq> n" by auto
      then show ?thesis using Lf nd own k Cons x
        by (simp add: rb_next_def rb_get_def mem_simps rb_climb_right.simps)
    qed
  next
    case (Nd l' x d r')
    with k have ys: "ys = x # kafter k" by auto
    with T'(2) rb_wf_first [of cmp T' x "kafter k"] obtain e u j where "zip_at T' (Nd Lf x e u) j" by metis
    then have "rb_left (rb_nodes T' x) = NULL" "x \<noteq> NULL" by (auto simp: zip_at_def)
    then show ?thesis using Nd ys nd own by (simp add: rb_next_def rb_get_def mem_simps rb_leftmost.simps)
  qed
  with T' show ?thesis by blast
qed

end
