(* ===== verification/Co_Inv.thy ===== *)
theory Co_Inv
  imports Co_Core RB_Frame
begin

text \<open>
  The sleep tree of the scheduler. Its comparator answers 0 or 1 and never a negative number, so an insertion descends to
  the right only and takes any later deadline on the way for an equal one; the retry with a later
  deadline then ends behind the last sleeper.
\<close>

section \<open>Insertion with the comparator of the scheduler\<close>

definition by_time :: "co_scheduler \<Rightarrow> comparator" where
  "by_time S a b = wakes_at S a - wakes_at S b"

lemma by_time_on: "cmp_on A (by_time S)"
  by (auto simp: cmp_on_def by_time_def)

lemma insert_find_pos:
  assumes "zip_at T t k" and "\<forall>y\<in>set (addrs t). 0 < f n y \<and> 0 < g n y"
  shows "rb_insert_find f n (link_of k) (par_of k) T = rb_insert_find g n (link_of k) (par_of k) T"
  using assms
proof (induction t arbitrary: k)
  case Lf
  then show ?case by (simp add: rb_insert_find.simps read_link)
next
  case (Nd l a c r)
  have a: "a \<noteq> NULL" "rb_read_link T (link_of k) = Some a"
    using Nd.prems(1) zip_at_node(1) read_link by fastforce+
  have "zip_at T r (RightOf a c l # k)" using Nd.prems(1) by (simp only: zip_at_right)
  from Nd.IH(2) [OF this] Nd.prems(2) a show ?case
    by (subst (1 2) rb_insert_find.simps) simp
qed

lemma insert_find_blocked:
  assumes "zip_at T t k" and "t \<noteq> Lf" and "\<forall>y\<in>set (addrs t). 0 \<le> f n y" and "f n (last (addrs t)) = 0"
  shows "\<exists>a \<in> set (addrs t). rb_insert_find f n (link_of k) (par_of k) T = Some (Inl a)"
  using assms
proof (induction t arbitrary: k)
  case (Nd l a c r)
  have a: "a \<noteq> NULL" "rb_read_link T (link_of k) = Some a"
    using Nd.prems(1) zip_at_node(1) read_link by fastforce+
  show ?case
  proof (cases "f n a = 0")
    case True
    with a show ?thesis by (subst rb_insert_find.simps) auto
  next
    case False
    with Nd.prems(4) have r: "r \<noteq> Lf" by auto
    then have "addrs r \<noteq> []" by (cases r) auto
    have "zip_at T r (RightOf a c l # k)" using Nd.prems(1) by (simp only: zip_at_right)
    from Nd.IH(2) [OF this r] Nd.prems(3,4) \<open>addrs r \<noteq> []\<close> False a show ?thesis
      by (subst rb_insert_find.simps) (fastforce simp: order_le_less)
  qed
qed simp

lemma rb_wf_cong: "rb_wf f T xs \<Longrightarrow> (\<And>a b. a \<in> set xs \<Longrightarrow> b \<in> set xs \<Longrightarrow> f a b = g a b) \<Longrightarrow> rb_wf g T xs"
  unfolding rb_wf_def using sorted_wrt_mono_rel [of xs "\<lambda>a b. f a b < 0" "\<lambda>a b. g a b < 0"] by auto

lemma cmp_insert_end: "\<forall>y\<in>set xs. 0 < cmp n y \<Longrightarrow> cmp_insert cmp n xs = xs @ [n]"
  using cmp_insert_split [of xs cmp n "[]"] by (force simp: not_less order_le_less)

lemma insert_last:
  assumes wf: "rb_wf (by_time S) T ss" and n: "n \<noteq> NULL" "n \<notin> set ss" and late: "\<forall>y\<in>set ss. wakes_at S y < wakes_at S n"
  shows "\<exists>T'. rb_insert (expt_compare S) n T = Some (n, T') \<and> rb_wf (by_time S) T' (ss @ [n])"
proof -
  from wf obtain t where t: "zip_at T t []" "addrs t = ss" by (auto simp: rb_wf_def rb_shape_def)
  have "rb_insert (expt_compare S) n T = rb_insert (by_time S) n T"
    using insert_find_pos [OF t(1), where n = n and f = "expt_compare S" and g = "by_time S"] late t(2)
    by (simp add: rb_insert_def expt_compare_def by_time_def)
  with rb_insert_new [OF wf by_time_on n] late cmp_insert_end [of ss "by_time S" n] show ?thesis
    by (fastforce simp: by_time_def)
qed

lemma insert_refused:
  assumes wf: "rb_wf (by_time S) T ss" and "ss \<noteq> []" and early: "wakes_at S n \<le> wakes_at S (last ss)"
  shows "\<exists>y \<in> set ss. rb_insert (expt_compare S) n T = Some (y, T)"
proof -
  from wf obtain t where t: "zip_at T t []" "addrs t = ss" by (auto simp: rb_wf_def rb_shape_def)
  with assms(2) have "t \<noteq> Lf" by auto
  moreover have "\<forall>y\<in>set (addrs t). 0 \<le> expt_compare S n y" "expt_compare S n (last (addrs t)) = 0"
    using early t(2) by (auto simp: expt_compare_def)
  ultimately show ?thesis using insert_find_blocked [OF t(1), of "expt_compare S" n] t(2)
    by (auto simp: rb_insert_def)
qed

section \<open>The loop\<close>

definition deadline :: "co_scheduler \<Rightarrow> addr list \<Rightarrow> int \<Rightarrow> int" where
  "deadline S ss t = (if ss = [] then t else max t (wakes_at S (last ss) + 1))"

definition at_time :: "addr \<Rightarrow> int \<Rightarrow> co_scheduler \<Rightarrow> co_scheduler" where
  "at_time co t S = S\<lparr>cos := (cos S)(co := (cos S co)\<lparr>sleep_expired_time := t\<rparr>)\<rparr>"

lemma at_time_simps [simp]:
  "sleep_tree (at_time co t S) = sleep_tree S" "co_links (at_time co t S) = co_links S" "created (at_time co t S) = created S"
  "runningco (at_time co t S) = runningco S" "wakes_at (at_time co t S) x = (if x = co then t else wakes_at S x)"
  "state_of (at_time co t S) x = state_of S x" "at_time co t' (at_time co t S) = at_time co t' S"
  by (auto simp: at_time_def)

lemma by_time_at: "co \<notin> set ss \<Longrightarrow> rb_wf (by_time S) T ss \<Longrightarrow> rb_wf (by_time (at_time co t S)) T ss"
  by (erule rb_wf_cong) (auto simp: by_time_def)

lemma times_before_last: "cmp_sorted (by_time S) ss \<Longrightarrow> y \<in> set ss \<Longrightarrow> wakes_at S y \<le> wakes_at S (last ss)"
  by (induction ss rule: rev_induct) (auto simp: sorted_wrt_append by_time_def order_le_less)

lemma sleep_insert_ok:
  assumes "rb_wf (by_time S) (sleep_tree S) ss" and "co \<noteq> NULL" and "co \<notin> set ss"
  shows "\<exists>T'. sleep_insert co S = Some ((at_time co (deadline S ss (wakes_at S co)) S)\<lparr>sleep_tree := T'\<rparr>) \<and>
    rb_wf (by_time (at_time co (deadline S ss (wakes_at S co)) S)) T' (ss @ [co])"
  using assms(1)
proof (induction "nat (deadline S ss (wakes_at S co) - wakes_at S co)" arbitrary: S)
  case 0
  then have d: "deadline S ss (wakes_at S co) = wakes_at S co" by (auto simp: deadline_def split: if_splits)
  have same: "at_time co (wakes_at S co) S = S" by (simp add: at_time_def)
  have "\<forall>y\<in>set ss. wakes_at S y < wakes_at S co"
    using d times_before_last [of S ss] 0(2) by (fastforce simp: deadline_def rb_wf_def split: if_splits)
  from insert_last [OF 0(2) assms(2,3) this] d same show ?case
    by (subst sleep_insert.simps) auto
next
  case (Suc m)
  then have ss: "ss \<noteq> []" "wakes_at S co \<le> wakes_at S (last ss)" "deadline S ss (wakes_at S co) = wakes_at S (last ss) + 1"
    by (auto simp: deadline_def split: if_splits)
  let ?S = "at_time co (wakes_at S co + 1) S"
  from insert_refused [OF Suc(3) ss(1,2)] obtain y where y: "y \<in> set ss" "rb_insert (expt_compare S) co (sleep_tree S) = Some (y, sleep_tree S)"
    by blast
  have "last ss \<noteq> co" using ss(1) assms(3) by (metis last_in_set)
  then have dl: "deadline ?S ss (wakes_at ?S co) = deadline S ss (wakes_at S co)" using ss by (simp add: deadline_def)
  have st: "S\<lparr>cos := (cos S)(co := sleep_expired_time_update (\<lambda>t. t + 1) (cos S co))\<rparr> = ?S"
    by (cases "cos S co") (simp add: at_time_def)
  have "sleep_insert co S = sleep_insert co ?S"
    using y assms(2,3) st by (subst sleep_insert.simps) (auto simp: store_def)
  moreover have "m = nat (deadline ?S ss (wakes_at ?S co) - wakes_at ?S co)" using Suc(2) dl by simp
  ultimately show ?case using Suc(1) [of ?S] by_time_at [OF assms(3) Suc(3)] dl by simp
qed


text \<open>
  The invariant of the scheduler: the two queues hold exactly the ready and the waiting coroutines, every other
  coroutine is linked to itself, and the sleep tree holds coroutines that sleep or wait with a limit.
\<close>

section \<open>Queues\<close>

definition qlists :: "addr list \<Rightarrow> addr list \<Rightarrow> addr \<Rightarrow> addr list" where
  "qlists rs ws = (\<lambda>_. [])(readyq := rs, waitsq := ws)"

definition queues :: "links \<Rightarrow> addr set \<Rightarrow> addr list \<Rightarrow> addr list \<Rightarrow> bool" where
  "queues L F rs ws \<longleftrightarrow> rings L ({readyq, waitsq} \<union> F) (qlists rs ws) \<and> readyq \<notin> F \<and> waitsq \<notin> F"

lemma queue_heads [simp]: "readyq \<noteq> waitsq" "waitsq \<noteq> readyq" "readyq \<noteq> NULL" "waitsq \<noteq> NULL"
  by (simp_all add: readyq_def waitsq_def)

lemma qlists_simps [simp]:
  "qlists rs ws readyq = rs" "qlists rs ws waitsq = ws" "c \<noteq> readyq \<Longrightarrow> c \<noteq> waitsq \<Longrightarrow> qlists rs ws c = []"
  by (simp_all add: qlists_def)

lemma queues_out:
  assumes "queues L F rs ws" and "c \<in> set rs \<union> set ws"
  shows "c \<notin> F \<and> c \<noteq> readyq \<and> c \<noteq> waitsq \<and> c \<noteq> NULL \<and> (c \<in> set rs \<longleftrightarrow> c \<notin> set ws)"
proof -
  have R: "rings L ({readyq, waitsq} \<union> F) (qlists rs ws)" and h: "readyq \<notin> F" "waitsq \<notin> F" using assms(1) by (auto simp: queues_def)
  have q: "ring L readyq rs" "ring L waitsq ws" "set (readyq # rs) \<inter> set (waitsq # ws) = {}"
    using ringsD [OF R, of readyq] ringsD [OF R, of waitsq] rings_disj [OF R, of readyq waitsq] by auto
  have "c \<notin> F"
  proof
    assume c: "c \<in> F"
    then have ne: "c \<noteq> readyq" "c \<noteq> waitsq" using h by auto
    with c rings_disj [OF R, of c readyq] rings_disj [OF R, of c waitsq] assms(2) show False by auto
  qed
  moreover have "c \<noteq> readyq \<and> c \<noteq> waitsq \<and> c \<noteq> NULL \<and> (c \<in> set rs \<longleftrightarrow> c \<notin> set ws)"
    using assms(2) q by (auto simp: ring_def)
  ultimately show ?thesis by blast
qed

lemma del_init_self: "ring L c [] \<Longrightarrow> list_del_init c L = Some L"
  by (cases "L c") (auto simp: ring_def list_del_init_def list_del_between_def INIT_LIST_HEAD_def mem_simps intro!: ext)

lemma rings_subset: "rings L H ls \<Longrightarrow> K \<subseteq> H \<Longrightarrow> rings L K ls"
  unfolding rings_def by blast

lemma rings_change: "rings L H ls \<Longrightarrow> (\<And>a. a \<in> H \<Longrightarrow> ls a = ls' a) \<Longrightarrow> rings L H ls'"
  using rings_cong by blast

lemma rings_insert:
  assumes R: "rings L H ls" and x: "ring L x []" "\<forall>b\<in>H. x \<notin> set (b # ls b)"
  shows "rings L (insert x H) (ls(x := []))"
  unfolding rings_def
proof (intro conjI ballI impI)
  fix a assume "a \<in> insert x H"
  then show "ring L a ((ls(x := [])) a)" using ringsD [OF R, of a] x(1) by auto
next
  fix a b assume ab: "a \<in> insert x H" "b \<in> insert x H" "a \<noteq> b"
  then show "set (a # (ls(x := [])) a) \<inter> set (b # (ls(x := [])) b) = {}"
    using rings_disj [OF R, of a b] x(2) by auto
qed

lemma rings_detach:
  assumes R: "rings L H ls" and a: "a \<in> H" and x: "x \<in> set (ls a)"
  shows "\<exists>L'. list_del_init x L = Some L' \<and> rings L' (insert x H) (ls(a := remove1 x (ls a), x := []))"
proof -
  from x obtain us vs where xs: "ls a = us @ x # vs" by (meson split_list)
  have r: "ring L a (us @ x # vs)" using ringsD [OF R a] xs by simp
  then have "x \<notin> set us" "x \<noteq> a" "x \<noteq> NULL" by (auto simp: ring_def)
  with xs have rm: "remove1 x (ls a) = us @ vs" by (simp add: remove1_append)
  have nh: "x \<notin> H" using rings_disj [OF R a, of x] x \<open>x \<noteq> a\<close> by auto
  from list_del_init_ok [OF r] obtain L' where
    L': "list_del_init x L = Some L'" "ring L' a (us @ vs)" "ring L' x []" "only L L' (set (a # us @ x # vs))" by blast
  have "rings L' H (ls(a := us @ vs))"
    by (rule rings_upd [OF R a L'(2,4), of "{}"]) (use xs in auto)
  moreover have "\<forall>b\<in>H. x \<notin> set (b # (ls(a := us @ vs)) b)"
    using rings_disj [OF R a] x nh r by (auto simp: ring_def)
  ultimately have "rings L' (insert x H) (ls(a := us @ vs, x := []))"
    using rings_insert [OF _ L'(3)] by blast
  with L'(1) rm show ?thesis by auto
qed

lemma queues_detach:
  assumes Q: "queues L F rs ws" and c: "c \<in> F \<union> set rs \<union> set ws"
  shows "\<exists>L'. list_del_init c L = Some L' \<and> queues L' (insert c F) (remove1 c rs) (remove1 c ws) \<and> c \<noteq> NULL"
proof -
  have R: "rings L ({readyq, waitsq} \<union> F) (qlists rs ws)" and h: "readyq \<notin> F" "waitsq \<notin> F" using Q by (auto simp: queues_def)
  consider "c \<in> F" | "c \<in> set rs" | "c \<in> set ws" using c by blast
  then show ?thesis
  proof cases
    case 1
    then have "c \<noteq> readyq" "c \<noteq> waitsq" using h by auto
    moreover from this 1 ringsD [OF R, of c] have "ring L c []" by simp
    moreover have "c \<notin> set rs" "c \<notin> set ws" using queues_out [OF Q, of c] 1 by blast+
    ultimately show ?thesis using del_init_self [of L c] Q 1 ring_head [of L c "[]"] by (simp add: insert_absorb remove1_idem)
  next
    case 2
    note out = queues_out [OF Q, of c]
    from rings_detach [OF R, of readyq c] 2 obtain L' where
      L': "list_del_init c L = Some L'" "rings L' (insert c ({readyq, waitsq} \<union> F)) ((qlists rs ws)(readyq := remove1 c rs, c := []))" by auto
    have "rings L' ({readyq, waitsq} \<union> insert c F) (qlists (remove1 c rs) ws)"
      using rings_change [OF L'(2), of "qlists (remove1 c rs) ws"] 2 out by (auto simp: qlists_def)
    with L'(1) 2 out h show ?thesis by (auto simp: queues_def remove1_idem)
  next
    case 3
    note out = queues_out [OF Q, of c]
    from rings_detach [OF R, of waitsq c] 3 obtain L' where
      L': "list_del_init c L = Some L'" "rings L' (insert c ({readyq, waitsq} \<union> F)) ((qlists rs ws)(waitsq := remove1 c ws, c := []))" by auto
    have "rings L' ({readyq, waitsq} \<union> insert c F) (qlists rs (remove1 c ws))"
      using rings_change [OF L'(2), of "qlists rs (remove1 c ws)"] 3 out by (auto simp: qlists_def)
    with L'(1) 3 out h show ?thesis by (auto simp: queues_def remove1_idem)
  qed
qed

lemma queues_attach:
  assumes Q: "queues L (insert c F) rs ws" and c: "c \<notin> F" "c \<noteq> NULL"
  shows "\<exists>L'. list_add_tail c readyq L = Some L' \<and> queues L' F (rs @ [c]) ws"
    and "\<exists>L'. list_add_tail c waitsq L = Some L' \<and> queues L' F rs (ws @ [c])"
proof -
  have R: "rings L ({readyq, waitsq} \<union> F) (qlists rs ws)" and h: "readyq \<notin> F" "waitsq \<notin> F" "c \<noteq> readyq" "c \<noteq> waitsq"
    using Q rings_subset [of L _ "qlists rs ws" "{readyq, waitsq} \<union> F"] by (auto simp: queues_def)
  have "c \<notin> set rs" "c \<notin> set ws" using queues_out [OF Q, of c] by blast+
  then have new: "\<forall>b \<in> {readyq, waitsq} \<union> F. c \<notin> set (b # qlists rs ws b)"
    using h c by (auto simp: qlists_def)
  have e: "(qlists rs ws)(readyq := rs @ [c]) = qlists (rs @ [c]) ws" "(qlists rs ws)(waitsq := ws @ [c]) = qlists rs (ws @ [c])"
    by (auto simp: qlists_def)
  from rings_append [OF R, of readyq c] c(2) new e(1) h
  show "\<exists>L'. list_add_tail c readyq L = Some L' \<and> queues L' F (rs @ [c]) ws" by (auto simp: queues_def)
  from rings_append [OF R, of waitsq c] c(2) new e(2) h
  show "\<exists>L'. list_add_tail c waitsq L = Some L' \<and> queues L' F rs (ws @ [c])" by (auto simp: queues_def)
qed

section \<open>The invariant\<close>

fun off_queue :: "co_state \<Rightarrow> bool" where
  "off_queue CO_RUNNING = True"
| "off_queue CO_SLEEPING = True"
| "off_queue CO_EXITED = True"
| "off_queue _ = False"

fun waits :: "co_state \<Rightarrow> bool" where
  "waits CO_WAITING = True"
| "waits CO_TIMEDWAIT = True"
| "waits _ = False"

definition loose :: "co_scheduler \<Rightarrow> addr set" where
  "loose S = {c \<in> created S. off_queue (state_of S c)}"

definition queue_inv :: "co_scheduler \<Rightarrow> addr list \<Rightarrow> addr list \<Rightarrow> bool" where
  "queue_inv S rs ws \<longleftrightarrow> queues (co_links S) (loose S) rs ws \<and> set rs = {c \<in> created S. state_of S c = CO_READY} \<and>
     set ws = {c \<in> created S. waits (state_of S c)} \<and> readyq \<notin> created S \<and> waitsq \<notin> created S \<and> NULL \<notin> created S"

definition sleep_inv :: "co_scheduler \<Rightarrow> addr list \<Rightarrow> bool" where
  "sleep_inv S ss \<longleftrightarrow> rb_wf (by_time S) (sleep_tree S) ss \<and>
     (\<forall>c \<in> set ss. c \<in> created S \<and> state_of S c \<in> {CO_SLEEPING, CO_TIMEDWAIT}) \<and>
     (\<forall>c \<in> created S. state_of S c = CO_TIMEDWAIT \<longrightarrow> c \<in> set ss)"

definition co_inv :: "co_scheduler \<Rightarrow> addr list \<Rightarrow> addr list \<Rightarrow> addr list \<Rightarrow> bool" where
  "co_inv S rs ws ss \<longleftrightarrow> queue_inv S rs ws \<and> sleep_inv S ss \<and> (\<forall>c \<in> created S. state_of S c \<noteq> CO_EXITED) \<and>
     (runningco S \<noteq> NULL \<longrightarrow> runningco S \<in> created S \<and> state_of S (runningco S) = CO_RUNNING)"

text \<open>\<open>S'\<close> is \<open>S\<close> with other links and \<open>c\<close> in the state \<open>st\<close>.\<close>

definition moved :: "co_scheduler \<Rightarrow> addr \<Rightarrow> co_state \<Rightarrow> co_scheduler \<Rightarrow> bool" where
  "moved S c st S' \<longleftrightarrow> (\<exists>L. S' = S\<lparr>co_links := L, cos := (cos S)(c := (cos S c)\<lparr>co_state := st\<rparr>)\<rparr>)"

lemma movedD:
  assumes "moved S c st S'"
  shows "created S' = created S" "runningco S' = runningco S" "sleep_tree S' = sleep_tree S" "by_time S' = by_time S"
    "state_of S' x = (if x = c then st else state_of S x)" "wakes_at S' x = wakes_at S x" "schedret S' = schedret S"
  using assms by (auto simp: moved_def by_time_def fun_eq_iff)

abbreviation ready_if :: "co_state \<Rightarrow> addr \<Rightarrow> addr list" where
  "ready_if st c \<equiv> (if st = CO_READY then [c] else [])"

abbreviation wait_if :: "co_state \<Rightarrow> addr \<Rightarrow> addr list" where
  "wait_if st c \<equiv> (if waits st then [c] else [])"

lemma transfer_queues:
  assumes Q: "queues (co_links S) F rs ws" and c: "c \<in> F \<union> set rs \<union> set ws"
  shows "\<exists>S'. co_transfer c st S = Some S' \<and> moved S c st S' \<and>
    queues (co_links S') (if off_queue st then insert c F else F - {c}) (remove1 c rs @ ready_if st c) (remove1 c ws @ wait_if st c)"
proof -
  from queues_detach [OF Q c] obtain L where L: "list_del_init c (co_links S) = Some L"
    "queues L (insert c F) (remove1 c rs) (remove1 c ws)" "c \<noteq> NULL" by blast
  have L2: "queues L (insert c (F - {c})) (remove1 c rs) (remove1 c ws)" using L(2) by simp
  note at = queues_attach [OF L2 _ L(3)]
  from at obtain Lr where Lr: "list_add_tail c readyq L = Some Lr" "queues Lr (F - {c}) (remove1 c rs @ [c]) (remove1 c ws)" by blast
  from at obtain Lw where Lw: "list_add_tail c waitsq L = Some Lw" "queues Lw (F - {c}) (remove1 c rs) (remove1 c ws @ [c])" by blast
  show ?thesis
    using L Lr Lw by (cases st) (auto simp: co_transfer_def store_def moved_def)
qed

lemma co_transfer_ok:
  assumes inv: "queue_inv S rs ws" and c: "c \<in> created S"
  shows "\<exists>S'. co_transfer c st S = Some S' \<and> moved S c st S' \<and>
    queue_inv S' (remove1 c rs @ ready_if st c) (remove1 c ws @ wait_if st c)"
proof -
  have Q: "queues (co_links S) (loose S) rs ws" and rw: "set rs = {c \<in> created S. state_of S c = CO_READY}"
    "set ws = {c \<in> created S. waits (state_of S c)}" using inv by (auto simp: queue_inv_def)
  have "c \<in> loose S \<union> set rs \<union> set ws" using c rw by (cases "state_of S c") (auto simp: loose_def)
  from transfer_queues [OF Q this] obtain S' where S': "co_transfer c st S = Some S'" "moved S c st S'"
    "queues (co_links S') (if off_queue st then insert c (loose S) else loose S - {c}) (remove1 c rs @ ready_if st c) (remove1 c ws @ wait_if st c)"
    by blast
  note m = movedD [OF S'(2)]
  have "(if off_queue st then insert c (loose S) else loose S - {c}) = loose S'" using c m by (auto simp: loose_def)
  moreover have "distinct rs" "distinct ws"
    using Q ringsD [of "co_links S" _ "qlists rs ws" readyq] ringsD [of "co_links S" _ "qlists rs ws" waitsq]
    by (auto simp: queues_def ring_def)
  then have "set (remove1 c rs @ ready_if st c) = {c \<in> created S'. state_of S' c = CO_READY}"
    "set (remove1 c ws @ wait_if st c) = {c \<in> created S'. waits (state_of S' c)}" using rw m c by auto
  ultimately show ?thesis using S' inv m by (intro exI [of _ S']) (simp add: queue_inv_def)
qed

text \<open>The sleep tree when a coroutine that is not in it moves.\<close>

lemma sleep_inv_moved:
  assumes "sleep_inv S ss" and "moved S c st S'" and "c \<notin> set ss" and "st \<noteq> CO_TIMEDWAIT"
  shows "sleep_inv S' ss"
  using assms movedD [OF assms(2)] by (auto simp: sleep_inv_def)

text \<open>When it moves into the tree.\<close>

lemma set_deadline_ok:
  assumes inv: "queue_inv S rs ws" and s: "sleep_inv S ss" and c: "c \<in> created S" "state_of S c = CO_RUNNING" and st: "st \<in> {CO_SLEEPING, CO_TIMEDWAIT}"
  shows "\<exists>S1 S'. set_deadline c t S = Some S1 \<and> co_transfer c st S1 = Some S' \<and> queue_inv S' rs (ws @ wait_if st c) \<and>
    sleep_inv S' (ss @ [c]) \<and> created S' = created S \<and> runningco S' = runningco S \<and>
    (\<forall>x. state_of S' x = (if x = c then st else state_of S x)) \<and>
    (\<forall>x. wakes_at S' x = (if x = c then deadline S ss t else wakes_at S x))"
proof -
  have n: "c \<noteq> NULL" "c \<notin> set ss" using inv s c by (auto simp: queue_inv_def sleep_inv_def)
  have off: "c \<notin> set rs" "c \<notin> set ws" using inv c by (auto simp: queue_inv_def)
  let ?d = "deadline S ss t"
  have d: "deadline (at_time c t S) ss t = ?d" using n(2) by (auto simp: deadline_def)
  have "rb_wf (by_time (at_time c t S)) (sleep_tree (at_time c t S)) ss"
    using by_time_at [OF n(2)] s by (simp add: sleep_inv_def)
  from sleep_insert_ok [OF this n] obtain T' where T': "sleep_insert c (at_time c t S) = Some ((at_time c ?d S)\<lparr>sleep_tree := T'\<rparr>)"
    "rb_wf (by_time (at_time c ?d S)) T' (ss @ [c])" using d by auto
  let ?S1 = "(at_time c ?d S)\<lparr>sleep_tree := T'\<rparr>"
  have run: "set_deadline c t S = Some ?S1" using T'(1) n(1) by (simp add: set_deadline_def store_def at_time_def)
  have fields: "created ?S1 = created S" "\<And>x. state_of ?S1 x = state_of S x" "co_links ?S1 = co_links S" "runningco ?S1 = runningco S"
    "\<And>x. wakes_at ?S1 x = (if x = c then ?d else wakes_at S x)" "sleep_tree ?S1 = T'"
    by (auto simp: at_time_def)
  have "queue_inv ?S1 rs ws" using inv fields by (simp add: queue_inv_def loose_def)
  from co_transfer_ok [OF this, of c st] c(1) fields(1) off obtain S' where
    S': "co_transfer c st ?S1 = Some S'" "moved ?S1 c st S'" "queue_inv S' rs (ws @ wait_if st c)"
    using st by (auto simp: remove1_idem)
  note m = movedD [OF S'(2)]
  have "by_time ?S1 = by_time (at_time c ?d S)" by (simp add: by_time_def fun_eq_iff)
  then have "sleep_inv S' (ss @ [c])"
    using T'(2) s c st m fields unfolding sleep_inv_def by (auto simp del: at_time_simps)
  with run S' m fields show ?thesis by (intro exI [of _ ?S1] exI [of _ S']) auto
qed

end
