(* ===== verification/Co_Steps.thy ===== *)
theory Co_Steps
  imports Co_Inv
begin

text \<open>
  Every operation of the scheduler completes and keeps the invariant, and the events of a
  scheduler run as a transition system.
\<close>

section \<open>Switching away\<close>

lemma queue_inv_release:
  "queue_inv S rs ws \<Longrightarrow> state_of S c = CO_EXITED \<Longrightarrow> queue_inv (S\<lparr>created := created S - {c}\<rparr>) rs ws"
proof -
  assume q: "queue_inv S rs ws" and c: "state_of S c = CO_EXITED"
  let ?S = "S\<lparr>created := created S - {c}\<rparr>"
  have "loose ?S \<subseteq> loose S" by (auto simp: loose_def)
  then have "queues (co_links S) (loose ?S) rs ws"
    using q rings_subset [of "co_links S" "{readyq, waitsq} \<union> loose S" "qlists rs ws" "{readyq, waitsq} \<union> loose ?S"]
    unfolding queue_inv_def queues_def by blast
  moreover have "set rs = {x \<in> created ?S. state_of ?S x = CO_READY}" "set ws = {x \<in> created ?S. waits (state_of ?S x)}"
    using q c by (auto simp: queue_inv_def)
  ultimately show ?thesis using q by (simp add: queue_inv_def)
qed

lemma queue_inv_running: "queue_inv (S\<lparr>runningco := r\<rparr>) rs ws = queue_inv S rs ws"
  by (simp add: queue_inv_def loose_def)

lemma schedule_back_ok:
  assumes q: "queue_inv S rs ws" and s: "sleep_inv S ss" and c: "runningco S \<in> created S"
    and ex: "\<forall>x \<in> created S. x \<noteq> runningco S \<longrightarrow> state_of S x \<noteq> CO_EXITED"
  shows "\<exists>S'. schedule_back S = Some S' \<and> co_inv S' rs ws ss \<and> runningco S' = NULL \<and> cos S' = cos S \<and>
    created S' = (if state_of S (runningco S) = CO_EXITED then created S - {runningco S} else created S)"
proof -
  have n: "runningco S \<noteq> NULL" using q c by (auto simp: queue_inv_def)
  show ?thesis
  proof (cases "state_of S (runningco S) = CO_EXITED")
    case True
    let ?S = "S\<lparr>created := created S - {runningco S}\<rparr>"
    have bt: "by_time (?S\<lparr>runningco := NULL\<rparr>) = by_time S" by (simp add: by_time_def fun_eq_iff)
    have "queue_inv (?S\<lparr>runningco := NULL\<rparr>) rs ws" using queue_inv_release [OF q True] by (simp add: queue_inv_running)
    moreover have "sleep_inv (?S\<lparr>runningco := NULL\<rparr>) ss" using s True bt by (auto simp: sleep_inv_def)
    ultimately have "co_inv (?S\<lparr>runningco := NULL\<rparr>) rs ws ss" using ex by (auto simp: co_inv_def)
    moreover have "schedule_back S = Some (?S\<lparr>runningco := NULL\<rparr>)" using True n by (simp add: schedule_back_def load_def)
    ultimately show ?thesis using True by (intro exI [of _ "?S\<lparr>runningco := NULL\<rparr>"]) simp
  next
    case False
    have bt: "by_time (S\<lparr>runningco := NULL\<rparr>) = by_time S" by (simp add: by_time_def fun_eq_iff)
    have "co_inv (S\<lparr>runningco := NULL\<rparr>) rs ws ss"
      using q s ex False bt by (auto simp: co_inv_def queue_inv_running sleep_inv_def)
    moreover have "schedule_back S = Some (S\<lparr>runningco := NULL\<rparr>)" using False n by (simp add: schedule_back_def load_def)
    ultimately show ?thesis using False by (intro exI [of _ "S\<lparr>runningco := NULL\<rparr>"]) simp
  qed
qed

text \<open>The coroutine \<open>c\<close> runs.\<close>

definition runs :: "co_scheduler \<Rightarrow> addr \<Rightarrow> bool" where
  "runs S c \<longleftrightarrow> runningco S = c \<and> c \<noteq> NULL"

lemma runsD:
  assumes "co_inv S rs ws ss" and "runs S c"
  shows "c \<in> created S" "state_of S c = CO_RUNNING" "c \<notin> set rs" "c \<notin> set ws" "c \<notin> set ss" "runningco S = c"
  using assms by (auto simp: co_inv_def runs_def queue_inv_def sleep_inv_def)

lemma co_yield_ok:
  assumes inv: "co_inv S rs ws ss" and c: "runs S c"
  shows "\<exists>S'. co_yield c S = Some S' \<and> co_inv S' rs ws ss \<and> runningco S' = NULL \<and> cos S' = cos S"
  using schedule_back_ok [of S rs ws ss] inv runsD [OF inv c] by (fastforce simp: co_yield_def co_inv_def)

text \<open>A running coroutine that takes another state and switches away.\<close>

lemma leave_ok:
  assumes inv: "co_inv S rs ws ss" and c: "runs S c" and st: "st \<noteq> CO_TIMEDWAIT" "st \<noteq> CO_RUNNING"
  shows "\<exists>S'. (co_transfer c st S \<bind> co_yield c) = Some S' \<and> co_inv S' (rs @ ready_if st c) (ws @ wait_if st c) ss \<and>
    runningco S' = NULL \<and> created S' = (if st = CO_EXITED then created S - {c} else created S)"
proof -
  note D = runsD [OF inv c]
  have q: "queue_inv S rs ws" "sleep_inv S ss" "\<forall>x \<in> created S. state_of S x \<noteq> CO_EXITED" using inv by (auto simp: co_inv_def)
  from co_transfer_ok [OF q(1) D(1), of st] D(3,4) obtain S1 where
    S1: "co_transfer c st S = Some S1" "moved S c st S1" "queue_inv S1 (rs @ ready_if st c) (ws @ wait_if st c)"
    by (auto simp: remove1_idem)
  note m = movedD [OF S1(2)]
  have "sleep_inv S1 ss" by (rule sleep_inv_moved [OF q(2) S1(2) D(5) st(1)])
  from schedule_back_ok [OF S1(3) this] D q(3) m obtain S' where "schedule_back S1 = Some S'"
    "co_inv S' (rs @ ready_if st c) (ws @ wait_if st c) ss" "runningco S' = NULL"
    "created S' = (if st = CO_EXITED then created S - {c} else created S)" by auto
  with S1(1) m(2) D(6) show ?thesis by (auto simp: co_yield_def)
qed

lemma leave_asleep_ok:
  assumes inv: "co_inv S rs ws ss" and c: "runs S c" and st: "st \<in> {CO_SLEEPING, CO_TIMEDWAIT}"
  shows "\<exists>S'. (set_deadline c t S \<bind> (\<lambda>S. co_transfer c st S \<bind> co_yield c)) = Some S' \<and>
    co_inv S' rs (ws @ wait_if st c) (ss @ [c]) \<and> runningco S' = NULL \<and> created S' = created S \<and>
    (\<forall>x. wakes_at S' x = (if x = c then deadline S ss t else wakes_at S x))"
proof -
  note D = runsD [OF inv c]
  have q: "queue_inv S rs ws" "sleep_inv S ss" "\<forall>x \<in> created S. state_of S x \<noteq> CO_EXITED" using inv by (auto simp: co_inv_def)
  from set_deadline_ok [OF q(1,2) D(1,2) st, of t] obtain S1 S2 where
    S2: "set_deadline c t S = Some S1" "co_transfer c st S1 = Some S2" "queue_inv S2 rs (ws @ wait_if st c)" "sleep_inv S2 (ss @ [c])"
      "created S2 = created S" "runningco S2 = runningco S" "\<forall>x. state_of S2 x = (if x = c then st else state_of S x)"
      "\<forall>x. wakes_at S2 x = (if x = c then deadline S ss t else wakes_at S x)" by blast
  from schedule_back_ok [OF S2(3,4)] S2(5-7) D q(3) st obtain S' where "schedule_back S2 = Some S'"
    "co_inv S' rs (ws @ wait_if st c) (ss @ [c])" "runningco S' = NULL" "created S' = created S" "cos S' = cos S2" by auto
  with S2 D(6) show ?thesis by (intro exI [of _ S']) (simp add: co_yield_def)
qed

lemma co_sleep_ok:
  assumes inv: "co_inv S rs ws ss" and c: "runs S c"
  shows "usec > 0 \<Longrightarrow> \<exists>S'. co_sleep c usec now S = Some S' \<and> co_inv S' rs ws (ss @ [c]) \<and> runningco S' = NULL \<and> created S' = created S \<and>
      (\<forall>x. wakes_at S' x = (if x = c then deadline S ss (now + usec) else wakes_at S x))"
    and "usec \<le> 0 \<Longrightarrow> \<exists>S'. co_sleep c usec now S = Some S' \<and> co_inv S' rs ws ss \<and> runningco S' = NULL \<and> created S' = created S"
  using leave_asleep_ok [OF inv c, of CO_SLEEPING "now + usec"] leave_ok [OF inv c, of CO_SLEEPING] c
  by (auto simp: co_sleep_def runs_def)

lemma co_epoll_ok:
  assumes inv: "co_inv S rs ws ss" and c: "runs S c"
  shows "\<exists>S'. co_epoll c timeout now S = Some S' \<and> co_inv S' rs (ws @ [c]) (if timeout \<ge> 0 then ss @ [c] else ss) \<and> runningco S' = NULL"
  using leave_asleep_ok [OF inv c, of CO_TIMEDWAIT "now + 1000 * timeout"] leave_ok [OF inv c, of CO_WAITING]
  by (auto simp: co_epoll_def)

lemma co_entry_ok:
  assumes inv: "co_inv S rs ws ss" and c: "runs S c"
  shows "\<exists>S'. co_entry c S = Some S' \<and> co_inv S' rs ws ss \<and> runningco S' = NULL \<and> created S' = created S - {c}"
  using leave_ok [OF inv c, of CO_EXITED] by (auto simp: co_entry_def)

section \<open>Resuming, creating and waking\<close>

lemma schedule_resume_ok:
  assumes inv: "co_inv S (c # rs) ws ss"
  shows "\<exists>S'. schedule_resume S = Some S' \<and> co_inv S' rs ws ss \<and> runs S' c"
proof -
  have q: "queue_inv S (c # rs) ws" "sleep_inv S ss" "\<forall>x \<in> created S. state_of S x \<noteq> CO_EXITED" using inv by (auto simp: co_inv_def)
  have "c \<in> {c \<in> created S. state_of S c = CO_READY}" using q(1) unfolding queue_inv_def by (metis list.set_intros(1))
  then have c: "c \<in> created S" "c \<notin> set ss" "c \<notin> set ws" "c \<noteq> NULL" using q(1,2) by (auto simp: queue_inv_def sleep_inv_def)
  have "ring (co_links S) readyq (c # rs)"
    using q(1) ringsD [of "co_links S" _ "qlists (c # rs) ws" readyq] by (auto simp: queue_inv_def queues_def)
  then have f: "list_first_entry readyq (co_links S) = Some c" by (rule list_first_entry_ok)
  let ?S = "S\<lparr>runningco := c\<rparr>"
  have "queue_inv ?S (c # rs) ws" using q(1) by (simp add: queue_inv_running)
  from co_transfer_ok [OF this, of c CO_RUNNING] c obtain S' where
    S': "co_transfer c CO_RUNNING ?S = Some S'" "moved ?S c CO_RUNNING S'" "queue_inv S' rs ws" by (auto simp: remove1_idem)
  note m = movedD [OF S'(2)]
  have "by_time ?S = by_time S" by (simp add: by_time_def fun_eq_iff)
  then have "sleep_inv ?S ss" using q(2) by (simp add: sleep_inv_def)
  then have "sleep_inv S' ss" by (rule sleep_inv_moved [OF _ S'(2) c(2)]) simp
  then have "co_inv S' rs ws ss" using S'(3) m q(3) c by (auto simp: co_inv_def)
  moreover have "runs S' c" using m(2) c(4) by (simp add: runs_def)
  ultimately show ?thesis using f S'(1) by (auto simp: schedule_resume_def)
qed

definition fresh_co :: "addr \<Rightarrow> co_scheduler \<Rightarrow> bool" where
  "fresh_co c S \<longleftrightarrow> c \<noteq> NULL \<and> c \<noteq> readyq \<and> c \<noteq> waitsq \<and> c \<notin> created S"

lemma co_init_ok:
  assumes inv: "co_inv S rs ws ss" and c: "fresh_co c S"
  shows "\<exists>S'. co_init c 0 routine arg S = Some (0, S') \<and> co_inv S' (rs @ [c]) ws ss \<and> runningco S' = runningco S \<and>
    co_id (cos S' c) = coid S \<and> coid S' = coid S + 1"
proof -
  have q: "queue_inv S rs ws" "sleep_inv S ss" using inv by (auto simp: co_inv_def)
  have Q: "queues (co_links S) (loose S) rs ws" and out: "c \<notin> set rs" "c \<notin> set ws" "c \<notin> set ss" "c \<notin> loose S"
    using q c by (auto simp: queue_inv_def sleep_inv_def fresh_co_def loose_def)
  have R: "rings (co_links S) ({readyq, waitsq} \<union> loose S) (qlists rs ws)" using Q by (simp add: queues_def)
  have no: "\<forall>b \<in> {readyq, waitsq} \<union> loose S. c \<notin> set (qlists rs ws b)" using out by (auto simp: qlists_def)
  from rings_new_head [OF R, of c] no c out(4) obtain L where
    L: "INIT_LIST_HEAD c (co_links S) = Some L" "rings L (insert c ({readyq, waitsq} \<union> loose S)) ((qlists rs ws)(c := []))"
    by (auto simp: fresh_co_def)
  have QL: "queues L (insert c (loose S)) rs ws"
    using rings_change [OF L(2), of "qlists rs ws"] c Q by (auto simp: queues_def fresh_co_def)
  let ?cs = "(cos S)(c := (cos S c)\<lparr>co_id := coid S, co_arg := arg, co_routine := routine\<rparr>)"
  let ?S = "S\<lparr>co_links := L, coid := coid S + 1, cos := ?cs, created := insert c (created S)\<rparr>"
  from transfer_queues [of ?S "insert c (loose S)" rs ws c CO_READY] QL out obtain S' where
    S': "co_transfer c CO_READY ?S = Some S'" "moved ?S c CO_READY S'" "queues (co_links S') (loose S) (rs @ [c]) ws"
    by (auto simp: remove1_idem)
  note m = movedD [OF S'(2)]
  have ls: "loose S' = loose S" using c m by (auto simp: loose_def fresh_co_def)
  have bt: "rb_wf (by_time S') (sleep_tree S') ss"
    using q(2) out(3) m by (auto simp: sleep_inv_def by_time_def intro: rb_wf_cong [of "by_time S"])
  have "queue_inv S' (rs @ [c]) ws" using q(1) c S'(3) ls m by (auto simp: queue_inv_def fresh_co_def)
  moreover have "sleep_inv S' ss" using q(2) out(3) c m bt by (auto simp: sleep_inv_def fresh_co_def)
  ultimately have "co_inv S' (rs @ [c]) ws ss" using inv c m by (auto simp: co_inv_def fresh_co_def)
  moreover have "co_init c 0 routine arg S = Some (0, S')" using c L(1) S'(1) by (simp add: co_init_def store_def fresh_co_def)
  moreover have "co_id (cos S' c) = coid S" "coid S' = coid S + 1" using S'(2) by (auto simp: moved_def)
  ultimately show ?thesis using m(2) by auto
qed

lemma transfer_all_ok:
  assumes "co_inv S rs ws ss" and "\<forall>c \<in> set cs. c \<in> created S \<and> state_of S c \<in> {CO_WAITING, CO_READY}" and "runningco S = NULL"
  shows "\<exists>S' rs' ws'. transfer_all cs S = Some S' \<and> co_inv S' rs' ws' ss \<and> runningco S' = NULL \<and>
    (\<forall>c \<in> set cs. state_of S' c = CO_READY)"
  using assms
proof (induction cs arbitrary: S rs ws)
  case (Cons c cs)
  have q: "queue_inv S rs ws" "sleep_inv S ss" using Cons.prems(1) by (auto simp: co_inv_def)
  have c: "c \<in> created S" "c \<notin> set ss" using Cons.prems(2) q(2) by (auto simp: sleep_inv_def)
  from co_transfer_ok [OF q(1) c(1), of CO_READY] obtain S1 where
    S1: "co_transfer c CO_READY S = Some S1" "moved S c CO_READY S1" "queue_inv S1 (remove1 c rs @ [c]) (remove1 c ws)" by auto
  note m = movedD [OF S1(2)]
  have "sleep_inv S1 ss" by (rule sleep_inv_moved [OF q(2) S1(2) c(2)]) simp
  then have i1: "co_inv S1 (remove1 c rs @ [c]) (remove1 c ws) ss" using S1(3) Cons.prems(1,3) m by (auto simp: co_inv_def)
  have c1: "\<forall>x \<in> set (c # cs). x \<in> created S1 \<and> state_of S1 x \<in> {CO_WAITING, CO_READY}" using Cons.prems(2) m by auto
  have keep: "state_of S' c = CO_READY" if "transfer_all xs S0 = Some S'" "state_of S0 c = CO_READY" for xs S0 S'
    using that by (induction xs arbitrary: S0) (auto simp: co_transfer_def store_def split: bind_splits if_splits)
  from Cons.IH [OF i1] c1 Cons.prems(3) m obtain S' rs' ws' where
    S': "transfer_all cs S1 = Some S'" "co_inv S' rs' ws' ss" "runningco S' = NULL" "\<forall>c \<in> set cs. state_of S' c = CO_READY" by auto
  with S1(1) keep [OF S'(1)] m(5) show ?case by (intro exI [of _ S'] exI [of _ rs'] exI [of _ ws']) simp
qed auto

section \<open>Waking the sleepers\<close>

lemma rb_wf_nodes: "rb_wf cmp T xs \<Longrightarrow> distinct xs \<and> NULL \<notin> set xs"
  using rb_shape_distinct by (auto simp: rb_wf_def)

text \<open>The rest of the pass over coroutines whose time has not come.\<close>

lemma expire_idle:
  assumes "rb_wf cmp (sleep_tree S) (us @ vs)" and "\<forall>y \<in> set vs. \<forall>i. now i < wakes_at S y"
  shows "expire_from now i (first_or_NULL vs) S = Some S"
  using assms
proof (induction vs arbitrary: us i)
  case Nil
  then show ?case by (simp add: expire_from.simps)
next
  case (Cons v vs)
  have "v \<noteq> NULL" using rb_wf_nodes [OF Cons.prems(1)] by auto
  moreover have "rb_next v (sleep_tree S) = Some (first_or_NULL vs)" by (rule rb_next_ok [OF Cons.prems(1)])
  moreover have "expire_from now (Suc i) (first_or_NULL vs) S = Some S"
    using Cons.IH [of "us @ [v]" "Suc i"] Cons.prems by simp
  moreover have "\<not> wakes_at S v \<le> now i" using Cons.prems(2) by (simp add: not_le)
  ultimately show ?case by (simp add: expire_from.simps [of now i v])
qed

text \<open>No deadline passes during the pass.\<close>

definition steady :: "(nat \<Rightarrow> int) \<Rightarrow> co_scheduler \<Rightarrow> addr list \<Rightarrow> bool" where
  "steady now S ss \<longleftrightarrow> (\<forall>y \<in> set ss. \<forall>i. wakes_at S y \<le> now i \<longleftrightarrow> wakes_at S y \<le> now 0)"

lemma steady_mono: "steady now S ss \<Longrightarrow> set ys \<subseteq> set ss \<Longrightarrow> \<forall>x. wakes_at S' x = wakes_at S x \<Longrightarrow> steady now S' ys"
  unfolding steady_def by (metis subsetD)

lemma steadyD: "steady now S ss \<Longrightarrow> y \<in> set ss \<Longrightarrow> wakes_at S y \<le> now i \<longleftrightarrow> wakes_at S y \<le> now 0"
  unfolding steady_def by blast

definition due :: "(nat \<Rightarrow> int) \<Rightarrow> co_scheduler \<Rightarrow> addr \<Rightarrow> bool" where
  "due now S c \<longleftrightarrow> wakes_at S c \<le> now 0"

lemma expire_sleep_one:
  assumes inv: "co_inv S rs ws (n # ys)" and r: "runningco S = NULL"
  shows "\<exists>T S'. rb_remove n (sleep_tree S) = Some T \<and> co_transfer n CO_READY (S\<lparr>sleep_tree := T\<rparr>) = Some S' \<and>
    co_inv S' (rs @ [n]) (remove1 n ws) ys \<and> rb_next n (sleep_tree S') = Some (first_or_NULL ys) \<and> runningco S' = NULL \<and>
    (\<forall>x. wakes_at S' x = wakes_at S x) \<and> created S' = created S"
proof -
  have q: "queue_inv S rs ws" "sleep_inv S (n # ys)" using inv by (auto simp: co_inv_def)
  have wf: "rb_wf (by_time S) (sleep_tree S) (n # ys)" using q(2) by (simp add: sleep_inv_def)
  from next_after_remove [OF wf] obtain T where T: "rb_remove n (sleep_tree S) = Some T" "rb_wf (by_time S) T ys"
    "rb_next n T = Some (first_or_NULL ys)" by blast
  let ?S = "S\<lparr>sleep_tree := T\<rparr>"
  have n: "n \<in> created S" "n \<notin> set rs" "n \<notin> set ys"
    using q rb_wf_nodes [OF wf] by (auto simp: sleep_inv_def queue_inv_def)
  have "queue_inv ?S rs ws" using q(1) by (simp add: queue_inv_def loose_def)
  from co_transfer_ok [OF this, of n CO_READY] n obtain S' where
    S': "co_transfer n CO_READY ?S = Some S'" "moved ?S n CO_READY S'" "queue_inv S' (rs @ [n]) (remove1 n ws)" by (auto simp: remove1_idem)
  note m = movedD [OF S'(2)]
  have "by_time S' = by_time S" using m(6) by (simp add: by_time_def fun_eq_iff)
  then have "sleep_inv S' ys" using q(2) T(2) m n(3) by (auto simp: sleep_inv_def)
  then have "co_inv S' (rs @ [n]) (remove1 n ws) ys" using S'(3) inv r m by (auto simp: co_inv_def)
  with T S'(1) m r show ?thesis by (intro exI [of _ T] exI [of _ S']) simp
qed

lemma expire_sleep_from_ok:
  assumes "co_inv S rs ws ss" and "runningco S = NULL" and "steady now S ss"
  shows "\<exists>S' ws'. expire_from now i (first_or_NULL ss) S = Some S' \<and> runningco S' = NULL \<and> created S' = created S \<and>
    co_inv S' (rs @ takeWhile (due now S) ss) ws' (dropWhile (due now S) ss) \<and> (\<forall>x. wakes_at S' x = wakes_at S x)"
  using assms
proof (induction ss arbitrary: S rs ws i)
  case Nil
  then show ?case by (auto simp: expire_from.simps)
next
  case (Cons n ys)
  have wf: "rb_wf (by_time S) (sleep_tree S) (n # ys)" using Cons.prems(1) by (simp add: co_inv_def sleep_inv_def)
  have n: "n \<noteq> NULL" using rb_wf_nodes [OF wf] by auto
  show ?case
  proof (cases "due now S n")
    case True
    then have d: "wakes_at S n \<le> now i" using steadyD [OF Cons.prems(3), of n i] by (simp add: due_def)
    from expire_sleep_one [OF Cons.prems(1,2)] obtain T S1 where
      S1: "rb_remove n (sleep_tree S) = Some T" "co_transfer n CO_READY (S\<lparr>sleep_tree := T\<rparr>) = Some S1"
        "co_inv S1 (rs @ [n]) (remove1 n ws) ys" "rb_next n (sleep_tree S1) = Some (first_or_NULL ys)" "runningco S1 = NULL"
        "\<forall>x. wakes_at S1 x = wakes_at S x" "created S1 = created S" by blast
    have "expire_from now i n S = expire_from now (Suc i) (first_or_NULL ys) S1"
      using n d S1 by (subst expire_from.simps) simp
    moreover have d1: "due now S1 = due now S" by (simp add: S1(6) due_def fun_eq_iff)
    moreover have "steady now S1 ys" by (rule steady_mono [OF Cons.prems(3) _ S1(6)]) auto
    from Cons.IH [OF S1(3,5) this, of "Suc i", unfolded d1] obtain S' ws' where
      "expire_from now (Suc i) (first_or_NULL ys) S1 = Some S'" "runningco S' = NULL" "created S' = created S1"
      "co_inv S' ((rs @ [n]) @ takeWhile (due now S) ys) ws' (dropWhile (due now S) ys)" "\<forall>x. wakes_at S' x = wakes_at S1 x" by blast
    ultimately show ?thesis using True S1(6,7) by (intro exI [of _ S'] exI [of _ ws']) simp
  next
    case False
    have later: "\<forall>y \<in> set ys. wakes_at S n < wakes_at S y" using wf by (auto simp: rb_wf_def by_time_def)
    then have "\<forall>y \<in> set (n # ys). \<not> wakes_at S y \<le> now 0" using False by (auto simp: due_def)
    then have "\<forall>y \<in> set (n # ys). \<forall>i. now i < wakes_at S y" using Cons.prems(3) unfolding steady_def by (meson not_le)
    with expire_idle [of "by_time S" S "[]" "n # ys" now i] wf False Cons.prems show ?thesis by auto
  qed
qed

lemma expire_sleepers_ok:
  assumes "co_inv S rs ws ss" and "runningco S = NULL" and "steady now S ss"
  shows "\<exists>S' ws'. expire_sleepers now S = Some S' \<and> runningco S' = NULL \<and> created S' = created S \<and>
    co_inv S' (rs @ takeWhile (due now S) ss) ws' (dropWhile (due now S) ss) \<and> (\<forall>x. wakes_at S' x = wakes_at S x)"
proof -
  have "rb_first (sleep_tree S) = Some (first_or_NULL ss)"
    using assms(1) rb_first_ok by (auto simp: co_inv_def sleep_inv_def)
  with expire_sleep_from_ok [OF assms, of 0] show ?thesis by (simp add: expire_sleepers_def)
qed

section \<open>Runs of the scheduler\<close>

datatype co_event =
    Co_create addr int addr addr
  | Co_resume
  | Co_yield
  | Co_sleep int int
  | Co_epoll int int
  | Co_exit
  | Co_expire "nat \<Rightarrow> int"
  | Co_poll "poll_answer list"

fun co_perform :: "co_event \<Rightarrow> co_scheduler \<Rightarrow> co_scheduler option" where
  "co_perform (Co_create c err routine arg) S = map_option snd (co_init c err routine arg S)"
| "co_perform Co_resume S = schedule_resume S"
| "co_perform Co_yield S = co_yield (runningco S) S"
| "co_perform (Co_sleep usec now) S = co_sleep (runningco S) usec now S"
| "co_perform (Co_epoll timeout now) S = co_epoll (runningco S) timeout now S"
| "co_perform Co_exit S = co_entry (runningco S) S"
| "co_perform (Co_expire now) S = expire_sleepers now S"
| "co_perform (Co_poll as) S = scheduler_poll as S"

text \<open>
  The answers of one poll: interrupted calls, then one that is not. Its events are for coroutines that wait without
  a limit; what an event for one that waits with a limit does is a property of its own.
\<close>

fun poll_ok :: "poll_answer list \<Rightarrow> co_scheduler \<Rightarrow> bool" where
  "poll_ok [] S \<longleftrightarrow> False"
| "poll_ok (Poll_events cs # as) S \<longleftrightarrow> (\<forall>c \<in> set cs. c \<in> created S \<and> state_of S c = CO_WAITING)"
| "poll_ok (Poll_error eintr # as) S \<longleftrightarrow> eintr \<longrightarrow> poll_ok as S"

definition sleepers :: "co_scheduler \<Rightarrow> addr list \<Rightarrow> bool" where
  "sleepers S ss \<longleftrightarrow> rb_wf (by_time S) (sleep_tree S) ss"

fun co_enabled :: "co_event \<Rightarrow> co_scheduler \<Rightarrow> bool" where
  "co_enabled (Co_create c err routine arg) S \<longleftrightarrow> fresh_co c S"
| "co_enabled Co_resume S \<longleftrightarrow> runningco S = NULL \<and> list_empty readyq (co_links S) = Some False"
| "co_enabled (Co_expire now) S \<longleftrightarrow> runningco S = NULL \<and> (\<exists>ss. sleepers S ss \<and> steady now S ss)"
| "co_enabled (Co_poll as) S \<longleftrightarrow> runningco S = NULL \<and> poll_ok as S"
| "co_enabled e S \<longleftrightarrow> runningco S \<noteq> NULL"

definition co_good :: "co_scheduler option \<Rightarrow> bool" where
  "co_good r \<longleftrightarrow> (\<exists>S' rs ws ss. r = Some S' \<and> co_inv S' rs ws ss)"

lemma sleepers_unique: "sleepers S ss \<Longrightarrow> rb_wf (by_time S) (sleep_tree S) ts \<Longrightarrow> ss = ts"
proof -
  assume "sleepers S ss" "rb_wf (by_time S) (sleep_tree S) ts"
  then obtain t u where t: "zip_at (sleep_tree S) t []" "addrs t = ss" and u: "zip_at (sleep_tree S) u []" "addrs u = ts"
    by (auto simp: sleepers_def rb_wf_def rb_shape_def)
  have same: "tree_at h p v \<Longrightarrow> tree_at h p w \<Longrightarrow> root_of v = root_of w \<Longrightarrow> v = w" for h p v w
  proof (induction v arbitrary: p w)
    case Lf
    then show ?case by (cases w) auto
  next
    case (Nd l a c r)
    then obtain l' r' where w: "w = Nd l' a c r'" by (cases w) auto
    with Nd.IH(1) [of a l'] Nd.IH(2) [of a r'] Nd.prems show ?case by simp
  qed
  have "t = u" by (rule same [of "rb_nodes (sleep_tree S)" NULL]) (use zip_at_root [OF t(1)] zip_at_root [OF u(1)] t(1) u(1) in \<open>auto simp: zip_at_def\<close>)
  with t(2) u(2) show ?thesis by simp
qed

lemma co_inv_schedret: "co_inv (S\<lparr>schedret := r\<rparr>) rs ws ss = co_inv S rs ws ss"
proof -
  have "by_time (S\<lparr>schedret := r\<rparr>) = by_time S" by (simp add: by_time_def fun_eq_iff)
  then show ?thesis by (simp add: co_inv_def queue_inv_def loose_def sleep_inv_def)
qed

lemma scheduler_poll_ok: "co_inv S rs ws ss \<Longrightarrow> runningco S = NULL \<Longrightarrow> poll_ok as S \<Longrightarrow> co_good (scheduler_poll as S)"
proof (induction as)
  case (Cons a as)
  show ?case
  proof (cases a)
    case (Poll_events cs)
    with transfer_all_ok [OF Cons.prems(1), of cs] Cons.prems obtain S' rs' ws' where
      "transfer_all cs S = Some S'" "co_inv S' rs' ws' ss" by auto
    with Poll_events have "scheduler_poll (a # as) S = Some (S'\<lparr>schedret := int (length cs)\<rparr>)"
      "co_inv (S'\<lparr>schedret := int (length cs)\<rparr>) rs' ws' ss" by (simp_all add: scheduler_poll_def co_inv_schedret)
    then show ?thesis unfolding co_good_def by blast
  next
    case (Poll_error eintr)
    have "co_inv (S\<lparr>schedret := - 1\<rparr>) rs ws ss" using Cons.prems(1) by (simp add: co_inv_schedret)
    then have "co_good (Some (S\<lparr>schedret := - 1\<rparr>))" unfolding co_good_def by blast
    with Poll_error Cons show ?thesis by (cases eintr) (simp_all add: scheduler_poll_def)
  qed
qed simp

lemma co_perform_ok:
  assumes inv: "co_inv S rs ws ss" and en: "co_enabled e S"
  shows "co_good (co_perform e S)"
proof (cases e)
  case (Co_create c err routine arg)
  with co_init_ok [OF inv, of c routine arg] en inv show ?thesis by (cases "err = 0") (auto simp: co_good_def co_init_def)
next
  case Co_resume
  have "ring (co_links S) readyq rs"
    using inv ringsD [of "co_links S" _ "qlists rs ws" readyq] by (auto simp: co_inv_def queue_inv_def queues_def)
  then obtain c qs where "rs = c # qs" using en Co_resume list_empty_ok [of "co_links S" readyq rs] by (cases rs) auto
  with schedule_resume_ok [of S c qs ws ss] inv Co_resume show ?thesis by (auto simp: co_good_def)
next
  case (Co_expire now)
  with en obtain ts where "sleepers S ts" "steady now S ts" "runningco S = NULL" by auto
  moreover from this inv have "ts = ss" using sleepers_unique by (auto simp: co_inv_def sleep_inv_def)
  ultimately have "runningco S = NULL" "steady now S ss" by auto
  from expire_sleepers_ok [OF inv this] Co_expire show ?thesis unfolding co_good_def by auto
next
  case (Co_poll as)
  with scheduler_poll_ok [OF inv] en show ?thesis by simp
next
  case (Co_sleep usec now)
  with co_sleep_ok [OF inv, of "runningco S" usec now] en show ?thesis by (cases "usec > 0") (auto simp: co_good_def runs_def)
qed (use co_yield_ok [OF inv] co_epoll_ok [OF inv] co_entry_ok [OF inv] en in \<open>fastforce simp: co_good_def runs_def\<close>)+

inductive co_reach :: "co_scheduler \<Rightarrow> bool" where
  co_start: "co_scheduler_init S = Some S' \<Longrightarrow> created S = {} \<Longrightarrow> co_reach S'"
| co_step: "co_reach S \<Longrightarrow> co_enabled e S \<Longrightarrow> co_perform e S = Some S' \<Longrightarrow> co_reach S'"

lemma rb_wf_empty_tree: "rb_wf cmp (rb_tree_init T) []"
proof -
  have "zip_at (rb_tree_init T) Lf [] \<and> rbt_ok Lf 0 \<and> tcol Lf = RB_BLACK \<and> addrs Lf = []" by (simp add: zip_at_def rb_tree_init_def)
  then have "rb_shape (rb_tree_init T) []" unfolding rb_shape_def by blast
  then show ?thesis by (simp add: rb_wf_def rb_tree_init_def)
qed

lemma co_scheduler_init_ok:
  assumes "created S = {}"
  shows "\<exists>S'. co_scheduler_init S = Some S' \<and> co_inv S' [] [] [] \<and> created S' = {} \<and> runningco S' = NULL \<and> coid S' = 0"
proof -
  from INIT_LIST_HEAD_ok [of readyq "co_links S"] obtain L where
    L: "INIT_LIST_HEAD readyq (co_links S) = Some L" "ring L readyq []" by auto
  have "rings L {readyq} (\<lambda>_. [])" using L(2) by (simp add: rings_def)
  from rings_new_head [OF this, of waitsq] obtain L' where
    L': "INIT_LIST_HEAD waitsq L = Some L'" "rings L' {waitsq, readyq} ((\<lambda>_. [])(waitsq := []))" by auto
  let ?S = "S\<lparr>co_links := L', coid := 0, runningco := NULL, sleep_tree := rb_tree_init (sleep_tree S)\<rparr>"
  have "qlists [] [] = (\<lambda>_. [])(waitsq := [])" by (auto simp: qlists_def)
  then have "queues L' {} [] []" using L'(2) by (simp add: queues_def insert_commute)
  then have "co_inv ?S [] [] []"
    using assms rb_wf_empty_tree by (simp add: co_inv_def queue_inv_def loose_def sleep_inv_def)
  with L(1) L'(1) assms show ?thesis by (simp add: co_scheduler_init_def)
qed

lemma co_reach_inv: "co_reach S \<Longrightarrow> \<exists>rs ws ss. co_inv S rs ws ss"
proof (induction rule: co_reach.induct)
  case (co_start S S')
  then show ?case using co_scheduler_init_ok [of S] by auto
next
  case (co_step S e S')
  then show ?case using co_perform_ok [of S _ _ _ e] by (fastforce simp: co_good_def)
qed

end
