(* ===== verification/Co_Socket.thy ===== *)
theory Co_Socket
  imports Co_Steps Mem_Pool_Properties
begin

text \<open>
  Sockets for coroutines, \<open>co/co_socket.c\<close>: the socket calls that suspend the running coroutine instead of blocking, and the
  coroutines themselves, one per socket in a chunk of a memory cache, on the scheduler of \<open>Co_Core\<close>. The
  answers of the system calls are arguments: one per call that a loop makes, none left meaning that the call has not
  returned yet.
\<close>

section \<open>State\<close>

record co_sock =
  sockfd :: int
  sock_priv :: addr

record socket_state =
  socket_sched :: co_scheduler
  socket_cache :: addr
  socket_mem :: mem
  socks :: "addr \<Rightarrow> co_sock"
  closed_fds :: "int list"

text \<open>The coroutine is the first member of \<open>co_sock\<close> and has its address.\<close>

definition SK_CACHE_MAX_PAGES :: nat where "SK_CACHE_MAX_PAGES = 2"

definition sizeof_co_sock :: nat where "sizeof_co_sock = 136"

definition sock_cache_init :: "addr option \<Rightarrow> addr option \<Rightarrow> nat \<Rightarrow> socket_state \<Rightarrow> (int \<times> socket_state) option" where
  "sock_cache_init cache blk pagesize K = do {
     let chunk_count = mem_chunk_count pagesize SK_CACHE_MAX_PAGES sizeof_co_sock;
     (c, M) \<leftarrow> mem_cache_create cache blk True chunk_count sizeof_co_sock False (socket_mem K);
     Some (if c = NULL then - 1 else 0, K\<lparr>socket_cache := c, socket_mem := M\<rparr>)
   }"

definition sock_release :: "addr \<Rightarrow> socket_state \<Rightarrow> socket_state option" where
  "sock_release co K = do {
     s \<leftarrow> load (socks K) co;
     M \<leftarrow> mem_cache_free co (socket_mem K);
     Some (K\<lparr>closed_fds := closed_fds K @ [sockfd s], socket_mem := M\<rparr>)
   }"

definition co_socket_init ::
    "int \<Rightarrow> addr option \<Rightarrow> addr option \<Rightarrow> nat \<Rightarrow> socket_state \<Rightarrow> (int \<times> socket_state) option" where
  "co_socket_init epfd cache blk pagesize K =
     (if epfd < 0 then Some (- 1, K)
      else do {
        (r, K) \<leftarrow> sock_cache_init cache blk pagesize K;
        if r < 0 then Some (- 1, K\<lparr>closed_fds := closed_fds K @ [epfd]\<rparr>)
        else do {
          S \<leftarrow> co_scheduler_init (socket_sched K);
          Some (0, K\<lparr>socket_sched := S\<rparr>)
        }
      })"

text \<open>\<open>blk\<close> is the block a new stock of the cache would get, \<open>err\<close> the result of allocating the stack.\<close>

definition co_socket_exec ::
    "addr option \<Rightarrow> int \<Rightarrow> int \<Rightarrow> addr \<Rightarrow> addr \<Rightarrow> socket_state \<Rightarrow> (int \<times> socket_state) option" where
  "co_socket_exec blk err fd func priv K = do {
     (sock, M) \<leftarrow> mem_cache_alloc blk (socket_cache K) (socket_mem K);
     let K = K\<lparr>socket_mem := M\<rparr>;
     if sock = NULL then Some (- 1, K)
     else do {
       sk \<leftarrow> store (socks K) sock (\<lambda>s. s\<lparr>sockfd := fd, sock_priv := priv\<rparr>);
       (r, S) \<leftarrow> co_init sock err func sock (socket_sched K);
       let K = K\<lparr>socks := sk, socket_sched := S\<rparr>;
       if r = - 1 then do {
         M \<leftarrow> mem_cache_free sock (socket_mem K);
         Some (- 1, K\<lparr>socket_mem := M\<rparr>)
       }
       else Some (0, K)
     }
   }"

text \<open>The end of a coroutine: \<open>co_entry\<close> switches to the scheduler, which calls \<open>sock_release\<close>.\<close>

definition co_socket_exit :: "socket_state \<Rightarrow> socket_state option" where
  "co_socket_exit K = do {
     let co = runningco (socket_sched K);
     S \<leftarrow> co_entry co (socket_sched K);
     K \<leftarrow> sock_release co K;
     Some (K\<lparr>socket_sched := S\<rparr>)
   }"

section \<open>Calls that wait\<close>

datatype errno = EINTR | EAGAIN | EINPROGRESS | EOTHER

datatype answer = Done int | Fail errno

text \<open>\<open>opt\<close>: the results of the two calls of \<open>sock_options\<close>.\<close>

definition sock_options :: "int \<Rightarrow> int \<Rightarrow> int" where
  "sock_options ioctl_ret setsockopt_ret = (if ioctl_ret = - 1 then - 1 else if setsockopt_ret = - 1 then - 1 else 0)"

text \<open>The result and the descriptors closed.\<close>

definition co_socket :: "int \<Rightarrow> int \<Rightarrow> int \<Rightarrow> int \<times> int list" where
  "co_socket sock ioctl_ret setsockopt_ret =
     (if sock = - 1 then (- 1, [])
      else if sock_options ioctl_ret setsockopt_ret = - 1 then (- 1, [sock])
      else (sock, []))"

fun co_accept :: "answer list \<Rightarrow> int \<Rightarrow> int \<Rightarrow> (int \<times> int list) option" where
  "co_accept [] i s = None"
| "co_accept (Done sock # as) i s = Some (if sock_options i s = - 1 then (- 1, [sock]) else (sock, []))"
| "co_accept (Fail e # as) i s = (if e = EINTR \<or> e = EAGAIN then co_accept as i s else Some (- 1, []))"

text \<open>A successful \<open>connect\<close> does not leave the loop of \<open>co_connect\<close>.\<close>

fun co_connect :: "answer list \<Rightarrow> int option" where
  "co_connect [] = None"
| "co_connect (Done ret # as) = co_connect as"
| "co_connect (Fail e # as) = (if e = EINTR \<or> e = EAGAIN \<or> e = EINPROGRESS then co_connect as else Some (- 1))"

text \<open>
  \<open>ret\<close> of \<open>co_send\<close> and \<open>co_sendto\<close> is a \<open>size_t\<close>: a failed call, \<open>-1\<close>, is the greatest value, and the
  branch \<open>ret < 0\<close> is never taken. The result is the return value with the offsets at which the calls began.
\<close>

fun send_loop :: "64 word list \<Rightarrow> 64 word \<Rightarrow> 64 word \<Rightarrow> (64 word \<times> 64 word \<times> 64 word list) option" where
  "send_loop [] sent len = None"
| "send_loop (ret # as) sent len =
     (let sent' = (if ret > 0 then sent + ret else sent) in
      if sent' < len then map_option (\<lambda>(r, s, offs). (r, s, sent # offs)) (send_loop as sent' len)
      else Some (ret, sent', [sent]))"

definition co_send :: "64 word list \<Rightarrow> 64 word \<Rightarrow> (64 word \<times> 64 word list) option" where
  "co_send as len = map_option (\<lambda>(ret, sent, offs). (if sent > 0 then sent else ret, offs)) (send_loop as 0 len)"

definition co_sendto :: "64 word list \<Rightarrow> 64 word \<Rightarrow> (64 word \<times> 64 word list) option" where
  "co_sendto as len = map_option (\<lambda>(ret, sent, offs). (sent, offs)) (send_loop as 0 len)"

fun co_recv :: "answer list \<Rightarrow> int option" where
  "co_recv [] = None"
| "co_recv (Done n # as) = Some n"
| "co_recv (Fail e # as) = (if e = EINTR then co_recv as else Some (- 1))"

text \<open>The loop of \<open>co_recvfrom\<close> is the same.\<close>

definition co_recvfrom :: "answer list \<Rightarrow> int option" where
  "co_recvfrom = co_recv"

section \<open>Coroutines and their chunks\<close>

text \<open>The chunks out of the cache are exactly the coroutines of the scheduler.\<close>

definition socket_rep :: "socket_state \<Rightarrow> (addr \<Rightarrow> addr list) \<Rightarrow> addr list \<Rightarrow> (addr \<Rightarrow> addr list) \<Rightarrow> bool" where
  "socket_rep K ls xs rc \<longleftrightarrow> (\<exists>rs wts ss. co_inv (socket_sched K) rs wts ss) \<and>
     pool_ok (socket_mem K) {socket_cache K} ls xs rc \<and> taken (socket_mem K) xs rc = created (socket_sched K)"

definition socket_inv :: "socket_state \<Rightarrow> bool" where
  "socket_inv K \<longleftrightarrow> (\<exists>ls xs rc. socket_rep K ls xs rc)"

text \<open>\<open>posix_memalign\<close> has a block for a new stock when one is needed.\<close>

definition block_for :: "addr option \<Rightarrow> socket_state \<Rightarrow> (addr \<Rightarrow> addr list) \<Rightarrow> addr list \<Rightarrow> bool" where
  "block_for blk K ls xs \<longleftrightarrow> ls (free_head (socket_cache K)) = [] \<longrightarrow>
     (\<exists>b. blk = Some b \<and> Mem_Pool_Inv.fresh_block (socket_mem K) {socket_cache K} xs (socket_cache K) b)"

lemma chunk_is_fresh:
  assumes "p = start st + j * n" and "p \<notin> A"
  shows "p \<noteq> NULL \<and> p \<noteq> readyq \<and> p \<noteq> waitsq \<and> p \<notin> A"
  using assms by (simp add: start_def sizeof_mem_stock_def readyq_def waitsq_def)

lemma co_init_err: "err \<noteq> 0 \<Longrightarrow> co_init c err routine arg S = Some (- 1, S)"
  by (simp add: co_init_def)

lemma co_init_created: "co_init c 0 routine arg S = Some (0, S') \<Longrightarrow> created S' = insert c (created S)"
  by (auto simp: co_init_def co_transfer_def split: bind_splits co_state.splits)

lemma co_socket_exec_ok:
  assumes inv: "socket_rep K ls xs rc" and blk: "block_for blk K ls xs"
  shows "\<exists>p K'. co_socket_exec blk err fd func priv K = Some (if err = 0 then 0 else - 1, K') \<and> socket_inv K' \<and>
    p \<notin> created (socket_sched K) \<and>
    created (socket_sched K') = (if err = 0 then insert p (created (socket_sched K)) else created (socket_sched K)) \<and>
    (err = 0 \<longrightarrow> state_of (socket_sched K') p = CO_READY \<and> sockfd (socks K' p) = fd)"
proof -
  from inv obtain rs wts ss where c: "co_inv (socket_sched K) rs wts ss" and P: "pool_ok (socket_mem K) {socket_cache K} ls xs rc"
    and t: "taken (socket_mem K) xs rc = created (socket_sched K)" by (auto simp: socket_rep_def)
  define b where "b = the blk"
  have pre: "ls (free_head (socket_cache K)) = [] \<Longrightarrow>
      blk = Some b \<and> Mem_Pool_Inv.fresh_block (socket_mem K) {socket_cache K} xs (socket_cache K) b"
    using blk by (auto simp: block_for_def b_def)
  from chunk_alloc_ok [where ls = ls, OF P singletonI pre] obtain p M ls' xs' rc' where
    M: "chunk_alloc blk (socket_cache K) (socket_mem K) = Some (p, M)" "pool_ok M {socket_cache K} ls' xs' rc'"
      "p \<notin> taken (socket_mem K) xs rc" "taken M xs' rc' = insert p (taken (socket_mem K) xs rc)"
      and pos: "\<exists>st\<in>set xs'. \<exists>j<chunk_count (slots (socket_mem K) (socket_cache K)). p = start st + j * chunk_size (slots (socket_mem K) (socket_cache K))"
    by blast
  have fresh: "fresh_co p (socket_sched K)" using pos chunk_is_fresh [of p] M(3) t unfolding fresh_co_def by blast
  then have n: "p \<noteq> NULL" by (simp add: fresh_co_def)
  let ?sk = "(socks K)(p := (socks K p)\<lparr>sockfd := fd, sock_priv := priv\<rparr>)"
  show ?thesis
  proof (cases "err = 0")
    case True
    from co_init_ok [OF c fresh, of func p] obtain S where S: "co_init p 0 func p (socket_sched K) = Some (0, S)" "co_inv S (rs @ [p]) wts ss"
      by blast
    let ?K = "K\<lparr>socket_mem := M, socks := ?sk, socket_sched := S\<rparr>"
    have "co_socket_exec blk err fd func priv K = Some (0, ?K)"
      using M(1) n S(1) True by (simp add: co_socket_exec_def mem_cache_alloc_def store_def)
    moreover have "socket_inv ?K" unfolding socket_inv_def socket_rep_def using S(2) M(2,4) t co_init_created [OF S(1)] by auto
    moreover have "state_of S p = CO_READY" using S(2) by (auto simp: co_inv_def queue_inv_def)
    ultimately show ?thesis using True co_init_created [OF S(1)] M(3) t by (intro exI [of _ p] exI [of _ ?K]) simp
  next
    case False
    from chunk_free_ok [OF M(2), of p] M(4) obtain M' ls2 xs2 rc2 where
      M': "chunk_free p M = Some M'" "pool_ok M' {socket_cache K} ls2 xs2 rc2" "taken M' xs2 rc2 = taken M xs' rc' - {p}" by auto
    let ?K = "K\<lparr>socket_mem := M', socks := ?sk\<rparr>"
    have "co_socket_exec blk err fd func priv K = Some (- 1, ?K)"
      using M(1) n False M'(1) by (simp add: co_socket_exec_def mem_cache_alloc_def mem_cache_free_def store_def co_init_err)
    moreover have "taken M' xs2 rc2 = created (socket_sched K)" using M'(3) M(3,4) t by auto
    then have "socket_inv ?K" unfolding socket_inv_def socket_rep_def using M'(2) c by auto
    ultimately show ?thesis using False M(3) t by (intro exI [of _ p] exI [of _ ?K]) simp
  qed
qed

lemma co_socket_exit_ok:
  assumes inv: "socket_inv K" and r: "runningco (socket_sched K) \<noteq> NULL"
  shows "\<exists>K'. co_socket_exit K = Some K' \<and> socket_inv K' \<and>
    created (socket_sched K') = created (socket_sched K) - {runningco (socket_sched K)} \<and>
    closed_fds K' = closed_fds K @ [sockfd (socks K (runningco (socket_sched K)))]"
proof -
  from inv obtain rs wts ss ls xs rc where c: "co_inv (socket_sched K) rs wts ss" and P: "pool_ok (socket_mem K) {socket_cache K} ls xs rc"
    and t: "taken (socket_mem K) xs rc = created (socket_sched K)" by (auto simp: socket_inv_def socket_rep_def)
  let ?c = "runningco (socket_sched K)"
  have run: "runs (socket_sched K) ?c" using r by (simp add: runs_def)
  from co_entry_ok [OF c run] obtain S where S: "co_entry ?c (socket_sched K) = Some S" "co_inv S rs wts ss"
    "created S = created (socket_sched K) - {?c}" by blast
  have "?c \<in> taken (socket_mem K) xs rc" using runsD(1) [OF c run] t by simp
  from chunk_free_ok [OF P this] obtain M ls' xs' rc' where M: "chunk_free ?c (socket_mem K) = Some M"
    "pool_ok M {socket_cache K} ls' xs' rc'" "taken M xs' rc' = taken (socket_mem K) xs rc - {?c}" by blast
  let ?K = "K\<lparr>closed_fds := closed_fds K @ [sockfd (socks K ?c)], socket_mem := M, socket_sched := S\<rparr>"
  have "co_socket_exit K = Some ?K"
    using S(1) M(1) r by (simp add: co_socket_exit_def sock_release_def mem_cache_free_def load_def Let_def)
  moreover have "socket_inv ?K" unfolding socket_inv_def socket_rep_def using S(2,3) M(2,3) t by auto
  ultimately show ?thesis using S(3) by (intro exI [of _ ?K]) simp
qed

end
