(* ===== verification/Co_Properties.thy ===== *)
theory Co_Properties
  imports Co_Socket
begin

text \<open>
  What the coroutines promise, and where they do not keep it.
\<close>

section \<open>Concrete runs\<close>

text \<open>One coroutine at 100, created and resumed.\<close>

definition co_zero :: co_scheduler where
  "co_zero = \<lparr>coid = 0, schedret = 0, runningco = 0,
     sleep_tree = \<lparr>rb_root = 0, rb_count = 0, rb_nodes = (\<lambda>_. \<lparr>rb_parent = 0, rb_left = 0, rb_right = 0, rb_color = 0\<rparr>)\<rparr>,
     co_links = (\<lambda>_. \<lparr>list_next = 0, list_prev = 0\<rparr>),
     cos = (\<lambda>_. \<lparr>co_id = 0, co_routine = 0, co_arg = 0, co_state = CO_EXITED, sleep_expired_time = 0\<rparr>), created = {}\<rparr>"

lemma co_demo_ready:
  obtains S where "co_reach S" "co_inv S [100] [] []" "runningco S = NULL"
proof -
  from co_scheduler_init_ok [of co_zero] obtain S0 where
    S0: "co_scheduler_init co_zero = Some S0" "co_inv S0 [] [] []" "created S0 = {}" "runningco S0 = NULL" by (auto simp: co_zero_def)
  have r0: "co_reach S0" by (rule co_start [OF S0(1)]) (simp add: co_zero_def)
  have f: "fresh_co 100 S0" using S0(3) by (simp add: fresh_co_def readyq_def waitsq_def)
  from co_init_ok [OF S0(2) f, of 5 6] obtain S1 where S1: "co_init 100 0 5 6 S0 = Some (0, S1)" "co_inv S1 [100] [] []" "runningco S1 = runningco S0"
    by auto
  have "co_reach S1" by (rule co_step [OF r0, of "Co_create 100 0 5 6"]) (use f S1 in auto)
  with S1 S0(4) that show ?thesis by auto
qed

lemma co_demo_running:
  obtains S where "co_reach S" "co_inv S [] [] []" "runs S 100"
proof -
  obtain S1 where S1: "co_reach S1" "co_inv S1 [100] [] []" "runningco S1 = NULL" by (rule co_demo_ready)
  from schedule_resume_ok [OF S1(2)] obtain S2 where S2: "schedule_resume S1 = Some S2" "co_inv S2 [] [] []" "runs S2 100" by blast
  have "ring (co_links S1) readyq [100]"
    using S1(2) ringsD [of "co_links S1" _ "qlists [100] []" readyq] by (auto simp: co_inv_def queue_inv_def queues_def)
  then have "co_enabled Co_resume S1" using S1(3) list_empty_ok [of "co_links S1" readyq "[100]"] by simp
  then have "co_reach S2" by (rule co_step [OF S1(1)]) (use S2 in simp)
  with S2 that show ?thesis by blast
qed

section \<open>Scheduling\<close>

lemma co_inv_lists:
  assumes "co_inv S rs ws ss"
  shows "list_for_each readyq (co_links S) = Some rs" "list_for_each waitsq (co_links S) = Some ws"
  using assms ringsD [of "co_links S" _ "qlists rs ws" readyq] ringsD [of "co_links S" _ "qlists rs ws" waitsq]
  by (auto simp: co_inv_def queue_inv_def queues_def intro: list_for_each_ok)



text \<open>
  A coroutine that goes to sleep for a positive time is put behind all other sleepers, and its deadline is
  moved to after the last of theirs: it sleeps for the time it asked for only when every other sleeper wakes
  before. The insertion, which retries with a later deadline, ends.
\<close>

theorem co_sleep_postponed:
  assumes "co_reach S" and "runs S c" and "0 < usec" and "sleepers S ss"
  shows "\<exists>S'. co_sleep c usec now S = Some S' \<and> sleepers S' (ss @ [c]) \<and>
    wakes_at S' c = (if ss = [] then now + usec else max (now + usec) (wakes_at S (last ss) + 1)) \<and>
    (\<forall>x. x \<noteq> c \<longrightarrow> wakes_at S' x = wakes_at S x)"
proof -
  from co_reach_inv [OF assms(1)] obtain rs ws ts where inv: "co_inv S rs ws ts" by blast
  then have "ts = ss" using sleepers_unique [OF assms(4), of ts] by (simp add: co_inv_def sleep_inv_def)
  with co_sleep_ok(1) [OF inv assms(2,3), of now] obtain S' where "co_sleep c usec now S = Some S'" "co_inv S' rs ws (ss @ [c])"
    "\<forall>x. wakes_at S' x = (if x = c then deadline S ss (now + usec) else wakes_at S x)" by blast
  then show ?thesis by (intro exI [of _ S']) (simp add: co_inv_def sleep_inv_def sleepers_def deadline_def)
qed

theorem co_sleep_postponed_witness:
  "\<exists>S S'. co_sleep 100 50 1000 S = Some S' \<and> sleepers S' [100] \<and> wakes_at S' 100 = 1050"
proof -
  obtain S where S: "co_reach S" "co_inv S [] [] []" "runs S 100" by (rule co_demo_running)
  then have "sleepers S []" by (simp add: co_inv_def sleep_inv_def sleepers_def)
  from co_sleep_postponed [OF S(1,3) _ this, of 50 1000] show ?thesis by auto
qed

lemma sorted_split:
  "sorted_wrt (\<lambda>a b. f a < f b) xs \<Longrightarrow> takeWhile (\<lambda>c. f c \<le> t) xs = filter (\<lambda>c. f c \<le> t) xs \<and>
     dropWhile (\<lambda>c. f c \<le> t) xs = filter (\<lambda>c. \<not> f c \<le> t) xs" for f :: "addr \<Rightarrow> int"
proof (induction xs)
  case (Cons x xs)
  show ?case
  proof (cases "f x \<le> t")
    case False
    with Cons.prems have "\<forall>y \<in> set xs. \<not> f y \<le> t" by fastforce
    then have "filter (\<lambda>c. f c \<le> t) xs = []" "filter (\<lambda>c. \<not> f c \<le> t) xs = xs" by (simp_all add: filter_empty_conv)
    with False show ?thesis by simp
  qed (use Cons in simp)
qed simp



text \<open>
  An event for a coroutine that waits with a limit makes it ready but leaves it in the sleep tree. When
  it then returns it is released, and the tree of sleepers still holds its node.
\<close>

theorem co_timedwait_dangling:
  assumes "co_inv S [] ws ss" and "runningco S = NULL" and "c \<in> created S" and "state_of S c = CO_TIMEDWAIT"
  shows "\<exists>S1 S2 S3. scheduler_poll [Poll_events [c]] S = Some S1 \<and> schedule_resume S1 = Some S2 \<and> co_entry c S2 = Some S3 \<and>
    c \<notin> created S3 \<and> sleepers S3 ss \<and> c \<in> set ss"
proof -
  have q: "queue_inv S [] ws" and s: "sleep_inv S ss" using assms(1) by (auto simp: co_inv_def)
  have c: "c \<noteq> NULL" "c \<in> set ss" using q s assms(3,4) by (auto simp: queue_inv_def sleep_inv_def)
  from co_transfer_ok [OF q assms(3), of CO_READY] obtain T1 where
    T1: "co_transfer c CO_READY S = Some T1" "moved S c CO_READY T1" "queue_inv T1 [c] (remove1 c ws)" by auto
  let ?S1 = "T1\<lparr>schedret := 1\<rparr>"
  note m1 = movedD [OF T1(2)]
  have r1: "scheduler_poll [Poll_events [c]] S = Some ?S1" using T1(1) by (simp add: scheduler_poll_def)
  have "ring (co_links T1) readyq [c]"
    using T1(3) ringsD [of "co_links T1" _ "qlists [c] (remove1 c ws)" readyq] by (auto simp: queue_inv_def queues_def)
  then have f: "list_first_entry readyq (co_links ?S1) = Some c" using list_first_entry_ok by auto
  have "queue_inv (?S1\<lparr>runningco := c\<rparr>) [c] (remove1 c ws)" using T1(3) by (simp add: queue_inv_def loose_def)
  from co_transfer_ok [OF this, of c CO_RUNNING] assms(3) m1(1) obtain S2 us where
    S2: "co_transfer c CO_RUNNING (?S1\<lparr>runningco := c\<rparr>) = Some S2" "moved (?S1\<lparr>runningco := c\<rparr>) c CO_RUNNING S2" "queue_inv S2 [] us" by auto
  note m2 = movedD [OF S2(2)]
  have r2: "schedule_resume ?S1 = Some S2" using f S2(1) by (simp add: schedule_resume_def)
  from co_transfer_ok [OF S2(3), of c CO_EXITED] assms(3) m1(1) m2(1) obtain T3 where
    T3: "co_transfer c CO_EXITED S2 = Some T3" "moved S2 c CO_EXITED T3" by auto
  note m3 = movedD [OF T3(2)]
  let ?S3 = "T3\<lparr>created := created T3 - {c}, runningco := NULL\<rparr>"
  have r3: "co_entry c S2 = Some ?S3"
    using T3(1) m3(2,5) m2(2) c(1) by (simp add: co_entry_def co_yield_def schedule_back_def load_def)
  have "sleep_tree ?S3 = sleep_tree S" "by_time ?S3 = by_time S"
    using m1(3,6) m2(3,6) m3(3,6) by (simp_all add: by_time_def fun_eq_iff)
  then have "sleepers ?S3 ss" using s by (simp add: sleepers_def sleep_inv_def)
  with r1 r2 r3 c(2) show ?thesis by (intro exI [of _ ?S1] exI [of _ S2] exI [of _ ?S3]) simp
qed

theorem co_timedwait_dangling_witness:
  "\<exists>S S1 S2 S3. scheduler_poll [Poll_events [100]] S = Some S1 \<and> schedule_resume S1 = Some S2 \<and> co_entry 100 S2 = Some S3 \<and>
     100 \<notin> created S3 \<and> sleepers S3 [100]"
proof -
  obtain S where S: "co_inv S [] [] []" "runs S 100" using co_demo_running by metis
  from co_epoll_ok [OF S, of 5 0] obtain S1 where S1: "co_inv S1 [] [100] [100]" "runningco S1 = NULL" by auto
  then have "100 \<in> created S1" "state_of S1 100 \<in> {CO_SLEEPING, CO_TIMEDWAIT}" "waits (state_of S1 100)"
    by (auto simp: co_inv_def sleep_inv_def queue_inv_def)
  then have "100 \<in> created S1" "state_of S1 100 = CO_TIMEDWAIT" by auto
  from co_timedwait_dangling [OF S1 this] show ?thesis by blast
qed

text \<open>
  With a sleeper that is overdue, \<open>co_epoll_nexttmo\<close> answers \<open>-1\<close>, as if there were none: the scheduler waits for a
  descriptor without a limit. \<open>co_nexttmo\<close> answers 0 there.
\<close>

lemma co_epoll_overdue:
  assumes "sleepers S (c # ss)" and "wakes_at S c < now"
  shows "co_epoll_nexttmo now S = Some (- 1)" "co_nexttmo now S = Some 0"
proof -
  have "rb_first (sleep_tree S) = Some c" "c \<noteq> NULL"
    using assms(1) rb_first_ok rb_wf_nodes by (fastforce simp: sleepers_def)+
  then show "co_epoll_nexttmo now S = Some (- 1)" "co_nexttmo now S = Some 0"
    using assms(2) by (simp_all add: co_epoll_nexttmo_def co_nexttmo_def)
qed

text \<open>A coroutine that sleeps for no time, or yields, is in no queue: nothing resumes it.\<close>

lemma co_sleep_zero_lost:
  assumes "co_inv S [] [] []" and "runs S c"
  shows "\<exists>S'. co_sleep c 0 now S = Some S' \<and> c \<in> created S' \<and> co_scheduler_goes S' = Some False"
proof -
  from co_sleep_ok(2) [OF assms, of 0 now] obtain S' where S': "co_sleep c 0 now S = Some S'" "co_inv S' [] [] []" "created S' = created S" by auto
  have "ring (co_links S') readyq []" "ring (co_links S') waitsq []"
    using S'(2) ringsD [of "co_links S'" _ "qlists [] []" readyq] ringsD [of "co_links S'" _ "qlists [] []" waitsq]
    by (auto simp: co_inv_def queue_inv_def queues_def)
  moreover have "rb_count (sleep_tree S') = 0" using S'(2) by (simp add: co_inv_def sleep_inv_def rb_wf_def)
  ultimately have "co_scheduler_goes S' = Some False" by (simp add: co_scheduler_goes_def list_empty_ok)
  with S' runsD(1) [OF assms] show ?thesis by auto
qed

section \<open>Sockets\<close>

text \<open>
  A coroutine for a socket gets a chunk of the cache that no live coroutine has and is ready to run; when its
  stack cannot be allocated the chunk goes back. When it ends, its descriptor is closed once and its chunk goes back. So
  the chunks in use are always exactly the live coroutines.
\<close>

theorem co_socket_chunks:
  assumes "socket_rep K ls xs rc" and "block_for blk K ls xs"
  shows "(\<exists>p K'. co_socket_exec blk err fd func priv K = Some (if err = 0 then 0 else - 1, K') \<and> socket_inv K' \<and>
      p \<notin> created (socket_sched K) \<and>
      created (socket_sched K') = (if err = 0 then insert p (created (socket_sched K)) else created (socket_sched K)) \<and>
      (err = 0 \<longrightarrow> state_of (socket_sched K') p = CO_READY \<and> sockfd (socks K' p) = fd)) \<and>
    (runningco (socket_sched K) \<noteq> NULL \<longrightarrow> (\<exists>K'. co_socket_exit K = Some K' \<and> socket_inv K' \<and>
      created (socket_sched K') = created (socket_sched K) - {runningco (socket_sched K)} \<and>
      closed_fds K' = closed_fds K @ [sockfd (socks K (runningco (socket_sched K)))]))"
proof -
  have "socket_inv K" using assms(1) unfolding socket_inv_def by blast
  from conjI [OF co_socket_exec_ok [OF assms] impI [OF co_socket_exit_ok [OF this]]] show ?thesis .
qed

theorem co_socket_chunks_witness:
  "\<exists>K p K'. co_socket_exec None 0 3 5 6 K = Some (0, K') \<and> created (socket_sched K') = {p} \<and> state_of (socket_sched K') p = CO_READY"
proof -
  obtain M ls rc where d: "pool_ok M {4096} ls [8192] rc" "taken M [8192] rc = {}" "ls (free_head 4096) = [8192]" by (rule demo_pool)
  from co_scheduler_init_ok [of co_zero] obtain S where S: "co_inv S [] [] []" "created S = {}" by (auto simp: co_zero_def)
  let ?K = "\<lparr>socket_sched = S, socket_cache = 4096, socket_mem = M, socks = (\<lambda>_. \<lparr>sockfd = 0, sock_priv = 0\<rparr>), closed_fds = []\<rparr>"
  have "socket_rep ?K ls [8192] rc" unfolding socket_rep_def using S d by auto
  moreover have "block_for None ?K ls [8192]" using d(3) by (simp add: block_for_def)
  ultimately show ?thesis using co_socket_chunks [of ?K ls "[8192]" rc None 0 3 5 6] S(2) by auto
qed

section \<open>Sending\<close>

text \<open>Answers that are positive and add up to the length, each no more than what is left.\<close>

fun sends_all :: "64 word list \<Rightarrow> 64 word \<Rightarrow> 64 word \<Rightarrow> bool" where
  "sends_all [] sent len \<longleftrightarrow> False"
| "sends_all (r # rs) sent len \<longleftrightarrow> 0 < r \<and> r \<le> len - sent \<and> (sent + r = len \<and> rs = [] \<or> sent + r \<noteq> len \<and> sends_all rs (sent + r) len)"

fun offsets :: "64 word list \<Rightarrow> 64 word \<Rightarrow> 64 word list" where
  "offsets [] sent = []"
| "offsets (r # rs) sent = sent # offsets rs (sent + r)"

lemma word_step:
  fixes sent r len :: "64 word"
  assumes "sent < len" "r \<le> len - sent" "sent + r \<noteq> len"
  shows "sent + r < len"
  using assms by unat_arith

lemma send_loop_all:
  "sends_all rs sent len \<Longrightarrow> sent < len \<Longrightarrow> \<exists>r. send_loop rs sent len = Some (r, len, offsets rs sent)"
proof (induction rs arbitrary: sent)
  case (Cons r rs)
  show ?case
  proof (cases "sent + r = len")
    case True
    with Cons.prems show ?thesis by (cases rs) auto
  next
    case False
    then have l: "sent + r < len" using Cons.prems word_step by auto
    with Cons.IH [of "sent + r"] Cons.prems False show ?thesis by (auto simp: Let_def)
  qed
qed simp

text \<open>
  \<open>co_send\<close> sends every byte once when every call sends some of the rest: it returns the length and each call
  begins where the one before ended. But \<open>ret\<close> is unsigned, so a call that fails after \<open>k\<close> bytes takes one
  byte back, and the next call sends that byte again.
\<close>

theorem co_send_offsets:
  "(sends_all rs 0 len \<longrightarrow> co_send rs len = Some (len, offsets rs 0)) \<and>
   (1 < k \<and> k < len \<longrightarrow> co_send [k, - 1, len - k + 1] len = Some (len, [0, k, k - 1]))"
proof (intro conjI impI)
  assume a: "sends_all rs 0 len"
  then have "0 < len" by (cases rs) (auto simp: word_neq_0_conv)
  with send_loop_all [OF a] show "co_send rs len = Some (len, offsets rs 0)" by (auto simp: co_send_def)
next
  assume k: "1 < k \<and> k < len"
  then have "k - 1 < len" "0 < k" "0 < len" "len - k + 1 > 0" by unat_arith+
  moreover have "(- 1 :: 64 word) > 0" by (simp add: word_gt_0)
  ultimately have "0 < len" "send_loop [k, - 1, len - k + 1] 0 len = Some (len - k + 1, len, [0, k, k - 1])"
    using k by (simp_all add: Let_def)
  then show "co_send [k, - 1, len - k + 1] len = Some (len, [0, k, k - 1])" by (simp add: co_send_def)
qed

theorem co_send_offsets_witness:
  "co_send [3, 4] 7 = Some (7, [0, 3]) \<and> co_send [3, - 1, 5] 7 = Some (7, [0, 3, 2])"
  using co_send_offsets [of "[3, 4]" 7 3] by simp

text \<open>\<open>co_connect\<close> leaves its loop only with an error: it never reports success.\<close>

lemma co_connect_fails: "co_connect as = Some r \<Longrightarrow> r = - 1"
  by (induction as rule: co_connect.induct) (auto split: if_splits)

end
