(* ===== verification/C_Strings.thy ===== *)
theory C_Strings
  imports Prelude
begin

text \<open>
  What the configuration code uses of the C library's strings, and the binary search it does by hand in two
  places. A string is its list of characters up to the terminating zero byte.
\<close>

section \<open>Strings\<close>

definition NUL :: char where "NUL = CHR 0x00"

abbreviation newline :: char where "newline \<equiv> CHR 0x0A"

text \<open>The string that begins at a buffer: its bytes before the first zero.\<close>

definition c_str :: "string \<Rightarrow> string" where
  "c_str s = takeWhile (\<lambda>ch. ch \<noteq> NUL) s"

definition byte :: "char \<Rightarrow> int" where "byte ch = int (of_char ch)"

fun strcmp :: "string \<Rightarrow> string \<Rightarrow> int" where
  "strcmp [] [] = 0"
| "strcmp [] (y # ys) = - 1"
| "strcmp (x # xs) [] = 1"
| "strcmp (x # xs) (y # ys) = (if x = y then strcmp xs ys else byte x - byte y)"

definition isspace :: "char \<Rightarrow> bool" where
  "isspace ch \<longleftrightarrow> ch \<in> {CHR '' '', CHR 0x09, CHR 0x0A, CHR 0x0B, CHR 0x0C, CHR 0x0D}"

lemma byte_eq: "byte x = byte y \<longleftrightarrow> x = y"
  by (simp add: byte_def)

lemma strcmp_0 [simp]: "strcmp a b = 0 \<longleftrightarrow> a = b"
  by (induction a b rule: strcmp.induct) (auto simp: byte_eq)

lemma strcmp_flip: "strcmp a b < 0 \<longleftrightarrow> 0 < strcmp b a"
  by (induction a b rule: strcmp.induct) auto

lemma strcmp_Nil [simp]: "\<not> strcmp s [] < 0"
  by (cases s) auto

lemma strcmp_trans: "strcmp a b < 0 \<Longrightarrow> strcmp b c < 0 \<Longrightarrow> strcmp a c < 0"
proof (induction a c arbitrary: b rule: strcmp.induct)
  case (4 x xs y ys)
  then obtain z zs where b: "b = z # zs" by (cases b) auto
  from "4.prems" b have le: "x = z \<and> strcmp xs zs < 0 \<or> byte x < byte z" "z = y \<and> strcmp zs ys < 0 \<or> byte z < byte y"
    by (auto split: if_splits)
  show ?case
  proof (cases "x = y")
    case True
    with le "4.IH" [of zs] show ?thesis by auto
  next
    case False
    with le show ?thesis by auto
  qed
qed auto

lemma c_str_id [simp]: "NUL \<notin> set s \<Longrightarrow> c_str s = s"
  unfolding c_str_def by (rule takeWhile_eq_all_conv [THEN iffD2]) auto

lemma c_str_Nil [simp]: "c_str [] = []"
  by (simp add: c_str_def)

section \<open>Binary search\<close>

text \<open>
  The loop over \<open>l\<close>, \<open>r\<close> and \<open>m\<close>, where \<open>cmp m\<close> compares the key with entry \<open>m\<close>.
\<close>

function bin_search :: "(nat \<Rightarrow> int) \<Rightarrow> int \<Rightarrow> int \<Rightarrow> nat option" where
  "bin_search cmp l r =
     (if l \<le> r then
        let m = (l + r) div 2 in
        if cmp (nat m) < 0 then bin_search cmp l (m - 1)
        else if cmp (nat m) > 0 then bin_search cmp (m + 1) r
        else Some (nat m)
      else None)"
  by pat_completeness auto
termination by (relation "measure (\<lambda>(cmp, l, r). nat (r + 1 - l))") auto

declare bin_search.simps [simp del]

text \<open>Along the entries the answers fall from positive over at most one zero to negative.\<close>

definition falls :: "(nat \<Rightarrow> int) \<Rightarrow> nat \<Rightarrow> bool" where
  "falls cmp n \<longleftrightarrow> (\<forall>i j. i < j \<and> j < n \<and> cmp i \<le> 0 \<longrightarrow> cmp j < 0)"

lemma bin_search_range:
  assumes "falls cmp n" and "0 \<le> l" and "r < int n"
    and "\<forall>i < n. int i < l \<longrightarrow> cmp i > 0" and "\<forall>i < n. r < int i \<longrightarrow> cmp i < 0"
  shows "bin_search cmp l r = Some i \<longleftrightarrow> i < n \<and> cmp i = 0"
  using assms
proof (induction cmp l r rule: bin_search.induct)
  case (1 cmp l r)
  show ?case
  proof (cases "l \<le> r")
    case False
    have "cmp i \<noteq> 0" if "i < n" using 1(6,7) that False by (cases "int i < l") fastforce+
    then show ?thesis using False by (subst bin_search.simps) auto
  next
    case True
    define m where "m = (l + r) div 2"
    have m: "l \<le> m" "m \<le> r" "nat m < n" "int (nat m) = m" using True 1(4,5) by (auto simp: m_def)
    note un = bin_search.simps [of cmp l r] and F = 1(3) [unfolded falls_def, rule_format]
    consider "cmp (nat m) < 0" | "cmp (nat m) > 0" | "cmp (nat m) = 0" by linarith
    then show ?thesis
    proof cases
      case 1
      have "\<forall>i < n. m - 1 < int i \<longrightarrow> cmp i < 0"
      proof (intro allI impI)
        fix i assume "i < n" "m - 1 < int i"
        then show "cmp i < 0" using F [of "nat m" i] 1 m by (cases "i = nat m") auto
      qed
      with "1.IH"(1) [OF True m_def 1 "1.prems"(1,2)] "1.prems"(3,4) m True 1 show ?thesis
        unfolding un by (simp add: Let_def m_def [symmetric])
    next
      case 2
      have "\<forall>i < n. int i < m + 1 \<longrightarrow> 0 < cmp i"
      proof (intro allI impI)
        fix i assume "i < n" "int i < m + 1"
        then show "0 < cmp i" using F [of i "nat m"] 2 m by (cases "i = nat m") fastforce+
      qed
      then have "bin_search cmp (m + 1) r = Some i \<longleftrightarrow> i < n \<and> cmp i = 0"
        using "1.IH"(2) [OF True m_def _ 2 "1.prems"(1)] "1.prems"(2,3,5) m 2 by simp
      moreover have "bin_search cmp l r = bin_search cmp (m + 1) r" using True 2 unfolding un Let_def m_def [symmetric] by simp
      ultimately show ?thesis by simp
    next
      case 3
      have only: "j < n \<and> cmp j = 0 \<longleftrightarrow> nat m = j" for j
        using F [of j "nat m"] F [of "nat m" j] 3 m by (cases j "nat m" rule: linorder_cases) auto
      have "bin_search cmp l r = Some (nat m)" using True 3 unfolding un Let_def m_def [symmetric] by simp
      then show ?thesis unfolding only by simp
    qed
  qed
qed

section \<open>Tables of keys\<close>

text \<open>
  Both configuration tables are arrays in ascending order of a key that are searched by halving. The contract of a
  search, and what its clients rely on.
\<close>

definition ascending :: "('a \<Rightarrow> string) \<Rightarrow> 'a list \<Rightarrow> bool" where
  "ascending k c \<longleftrightarrow> sorted_wrt (\<lambda>a b. strcmp (k a) (k b) < 0) c"

lemma ascending_falls: "ascending k c \<Longrightarrow> falls (\<lambda>i. strcmp s (k (c ! i))) (length c)"
  unfolding falls_def
proof (intro allI impI, elim conjE)
  fix i j assume a: "ascending k c" "i < j" "j < length c" "strcmp s (k (c ! i)) \<le> 0"
  then have "strcmp (k (c ! i)) (k (c ! j)) < 0" by (simp add: ascending_def sorted_wrt_iff_nth_less)
  with a(4) show "strcmp s (k (c ! j)) < 0" using strcmp_trans [of s "k (c ! i)"] by (cases "strcmp s (k (c ! i)) = 0") auto
qed

lemma ascending_distinct: "ascending k c \<Longrightarrow> distinct (map k c)"
  unfolding ascending_def
proof (induction c)
  case (Cons a c)
  then have "\<forall>x \<in> set c. k a \<noteq> k x" by (metis order_less_irrefl sorted_wrt.simps(2) strcmp_0)
  with Cons show ?case by auto
qed simp

lemma search_ascending:
  "ascending k c \<Longrightarrow> bin_search (\<lambda>m. strcmp s (k (c ! m))) 0 (int (length c) - 1) = Some i \<longleftrightarrow> i < length c \<and> k (c ! i) = s"
  using bin_search_range [OF ascending_falls, of k c 0 "int (length c) - 1" s i] by auto

locale key_table =
  fixes k :: "'a \<Rightarrow> string" and search_key :: "'a list \<Rightarrow> string \<Rightarrow> nat option"
  assumes search_iff: "ascending k c \<Longrightarrow> search_key c s = Some i \<longleftrightarrow> i < length c \<and> k (c ! i) = s"
begin

lemma search_None: "ascending k c \<Longrightarrow> search_key c s = None \<longleftrightarrow> s \<notin> k ` set c"
proof -
  assume "ascending k c"
  then have "search_key c s = None \<longleftrightarrow> (\<forall>i. \<not> (i < length c \<and> k (c ! i) = s))"
    using search_iff by (metis not_None_eq)
  also have "\<dots> \<longleftrightarrow> s \<notin> k ` set c" by (simp add: image_iff set_conv_nth) blast
  finally show ?thesis .
qed

lemma search_nth: "ascending k c \<Longrightarrow> i < length c \<Longrightarrow> search_key c (k (c ! i)) = Some i"
  by (simp add: search_iff)

lemma search_map_of: "ascending k c \<Longrightarrow> map_option (\<lambda>i. f (c ! i)) (search_key c s) = map_of (map (\<lambda>x. (k x, f x)) c) s"
proof (cases "search_key c s")
  case None
  assume a: "ascending k c"
  with None search_None have "s \<notin> k ` set c" by blast
  then have "map_of (map (\<lambda>x. (k x, f x)) c) s = None" by (auto simp: map_of_eq_None_iff)
  with None show ?thesis by simp
next
  case (Some i)
  assume a: "ascending k c"
  with Some search_iff have i: "i < length c" "k (c ! i) = s" by blast+
  have "map_of (map (\<lambda>x. (k x, f x)) c) s = Some (f (c ! i))"
    using a ascending_distinct [OF a] i by (intro map_of_is_SomeI) (auto simp: o_def)
  with Some show ?thesis by simp
qed

lemma ascending_keys: "map k c = map k d \<Longrightarrow> ascending k c = ascending k d"
  using sorted_wrt_map [of "\<lambda>a b. strcmp a b < 0" k] unfolding ascending_def by metis

text \<open>Only the keys matter to the search.\<close>

lemma search_keys: "ascending k c \<Longrightarrow> map k c = map k d \<Longrightarrow> search_key d s = search_key c s"
proof -
  assume a: "ascending k c" and e: "map k c = map k d"
  have "search_key d s = Some i \<longleftrightarrow> search_key c s = Some i" for i
    using search_iff [OF a] search_iff [of d s i] ascending_keys [OF e] a e by (metis length_map nth_map)
  then show ?thesis by (metis option.exhaust)
qed

end


text \<open>
  More of the C library's text functions, for the components that read and write text: searching for a character,
  reading a line, decimal numbers. Printed numbers are read back by \<open>atoi\<close> and differ when the numbers do.
\<close>

section \<open>Characters\<close>

definition TAB :: char where "TAB = CHR 0x09"
definition LF :: char where "LF = CHR 0x0A"
definition CR :: char where "CR = CHR 0x0D"
definition SP :: char where "SP = CHR 0x20"

text \<open>\<open>strchr\<close>: what is before the character and what comes after it.\<close>

fun strchr :: "char \<Rightarrow> string \<Rightarrow> (string \<times> string) option" where
  "strchr c [] = None"
| "strchr c (x # xs) = (if x = c then Some ([], xs) else map_option (\<lambda>(l, r). (x # l, r)) (strchr c xs))"

lemma strchr_split: "strchr c s = (if c \<in> set s then Some (takeWhile (\<lambda>x. x \<noteq> c) s, tl (dropWhile (\<lambda>x. x \<noteq> c) s)) else None)"
  by (induction s) auto

lemma strchr_append [simp]: "c \<notin> set l \<Longrightarrow> strchr c (l @ c # r) = Some (l, r)"
  by (induction l) auto

lemma strchr_None [simp]: "c \<notin> set s \<Longrightarrow> strchr c s = None"
  by (simp add: strchr_split)

lemma strchr_shorter: "strchr c s = Some (l, r) \<Longrightarrow> length r < length s"
  by (induction s arbitrary: l) (auto split: if_splits)

text \<open>\<open>strrchr\<close>: what comes after the last one.\<close>

definition strrchr :: "char \<Rightarrow> string \<Rightarrow> string option" where
  "strrchr c s = (if c \<in> set s then Some (rev (takeWhile (\<lambda>x. x \<noteq> c) (rev s))) else None)"

lemma strrchr_append [simp]: "c \<notin> set r \<Longrightarrow> strrchr c (l @ c # r) = Some r"
proof -
  assume a: "c \<notin> set r"
  have "takeWhile (\<lambda>x. x \<noteq> c) (rev r @ c # rev l) = rev r" using a by (subst takeWhile_append2) auto
  then show ?thesis by (simp add: strrchr_def)
qed

lemma strrchr_without: "strrchr c s = Some r \<Longrightarrow> c \<notin> set r"
  by (auto simp: strrchr_def split: if_splits dest: set_takeWhileD)

section \<open>Lines\<close>

text \<open>\<open>fgets\<close> reads at most \<open>n = size - 1\<close> characters, up to and with a newline.\<close>

fun fgets :: "nat \<Rightarrow> string \<Rightarrow> string \<times> string" where
  "fgets 0 cs = ([], cs)"
| "fgets (Suc n) [] = ([], [])"
| "fgets (Suc n) (c # cs) = (if c = LF then ([c], cs) else let (l, r) = fgets n cs in (c # l, r))"

lemma fgets_rest: "length (snd (fgets n cs)) \<le> length cs"
  by (induction n cs rule: fgets.induct) (auto simp: Let_def split: prod.splits)

lemma fgets_shorter: "cs \<noteq> [] \<Longrightarrow> length (snd (fgets (Suc n) cs)) < length cs"
  using fgets_rest by (cases cs) (auto simp: Let_def less_Suc_eq_le split: prod.split, metis snd_conv)

lemma fgets_line: "LF \<notin> set s \<Longrightarrow> length s < n \<Longrightarrow> fgets n (s @ LF # r) = (s @ [LF], r)"
proof (induction s arbitrary: n)
  case Nil
  then show ?case by (cases n) simp_all
next
  case (Cons c s)
  then show ?case by (cases n) auto
qed

lemma length_fgets: "length (fst (fgets n cs)) \<le> n"
  by (induction n cs rule: fgets.induct) (auto simp: Let_def split: prod.splits)

section \<open>Decimal numbers\<close>

definition is_digit :: "char \<Rightarrow> bool" where "is_digit ch \<longleftrightarrow> 48 \<le> byte ch \<and> byte ch \<le> 57"

definition digits_value :: "string \<Rightarrow> int" where
  "digits_value s = foldl (\<lambda>n ch. 10 * n + (byte ch - 48)) 0 (takeWhile is_digit s)"

text \<open>\<open>atoi\<close>, for numbers that fit an \<open>int\<close>.\<close>

definition atoi :: "string \<Rightarrow> int" where
  "atoi s = (case dropWhile isspace s of
       [] \<Rightarrow> 0
     | ch # cs \<Rightarrow> if ch = CHR ''-'' then - digits_value cs else if ch = CHR ''+'' then digits_value cs else digits_value (ch # cs))"

text \<open>\<open>%d\<close> of \<open>printf\<close>.\<close>

definition digit :: "nat \<Rightarrow> char" where "digit n = char_of (48 + n)"

fun show_nat :: "nat \<Rightarrow> string" where
  "show_nat n = (if n < 10 then [digit n] else show_nat (n div 10) @ [digit (n mod 10)])"

declare show_nat.simps [simp del]

definition show_int :: "int \<Rightarrow> string" where
  "show_int i = (if i < 0 then CHR ''-'' # show_nat (nat (- i)) else show_nat (nat i))"

lemma byte_digit [simp]: "n < 10 \<Longrightarrow> byte (digit n) = 48 + int n"
  by (simp add: byte_def digit_def of_char_of)

lemma is_digit_digit [simp]: "n < 10 \<Longrightarrow> is_digit (digit n)"
  by (simp add: is_digit_def)

lemma show_nat_digits: "ch \<in> set (show_nat n) \<Longrightarrow> is_digit ch"
proof (induction n rule: show_nat.induct)
  case (1 n)
  then show ?case by (subst (asm) (2) show_nat.simps) (auto split: if_splits)
qed

lemma show_nat_Nil [simp]: "show_nat n \<noteq> []"
  by (subst show_nat.simps) simp

definition digits_fold :: "string \<Rightarrow> int" where
  "digits_fold s = foldl (\<lambda>n ch. 10 * n + (byte ch - 48)) 0 s"

lemma digits_fold_show: "digits_fold (show_nat n) = int n"
proof (induction n rule: show_nat.induct)
  case (1 n)
  show ?case
  proof (cases "n < 10")
    case True
    then show ?thesis by (subst show_nat.simps) (simp add: digits_fold_def)
  next
    case False
    then have "digits_fold (show_nat n) = 10 * int (n div 10) + int (n mod 10)"
      using 1 by (subst show_nat.simps) (simp add: digits_fold_def)
    also have "\<dots> = int n" by (metis mult_div_mod_eq of_nat_add of_nat_mult of_nat_numeral)
    finally show ?thesis .
  qed
qed

lemma show_nat_inj: "show_nat m = show_nat n \<Longrightarrow> m = n"
  by (metis digits_fold_show of_nat_eq_iff)

lemma digits_value_show: "r = [] \<or> \<not> is_digit (hd r) \<Longrightarrow> digits_value (show_nat n @ r) = int n"
proof -
  assume "r = [] \<or> \<not> is_digit (hd r)"
  then have "takeWhile is_digit (show_nat n @ r) = show_nat n"
    using show_nat_digits by (cases r) (auto simp: takeWhile_append2)
  then show ?thesis using digits_fold_show by (simp add: digits_value_def digits_fold_def)
qed

lemma isspace_byte: "isspace ch \<Longrightarrow> byte ch < 48"
  by (auto simp: isspace_def byte_def)

lemma hd_show_nat: "is_digit (hd (show_nat n))"
  by (rule show_nat_digits [of _ n]) simp

lemma atoi_show: "r = [] \<or> \<not> is_digit (hd r) \<Longrightarrow> atoi (show_int i @ r) = i"
proof -
  assume r: "r = [] \<or> \<not> is_digit (hd r)"
  obtain d ds where d: "show_nat (nat i) = d # ds" by (meson list.exhaust show_nat_Nil)
  have dd: "is_digit d" using hd_show_nat [of "nat i"] d by simp
  then have n: "\<not> isspace d" "d \<noteq> CHR ''-''" "d \<noteq> CHR ''+''"
    using isspace_byte [of d] by (auto simp: is_digit_def byte_def)
  show ?thesis
  proof (cases "i < 0")
    case True
    then show ?thesis using digits_value_show [OF r, of "nat (- i)"] by (simp add: atoi_def show_int_def isspace_def)
  next
    case False
    then show ?thesis using digits_value_show [OF r, of "nat i"] n d by (simp add: atoi_def show_int_def)
  qed
qed

lemma length_show_nat: "n < 10 ^ k \<Longrightarrow> 0 < k \<Longrightarrow> length (show_nat n) \<le> k"
proof (induction k arbitrary: n)
  case (Suc k)
  show ?case
  proof (cases "n < 10")
    case True
    then show ?thesis by (subst show_nat.simps) simp
  next
    case False
    then have k: "0 < k" using Suc.prems(1) by (cases k) auto
    have "n div 10 < 10 ^ k" using Suc.prems(1) by (simp add: less_mult_imp_div_less mult.commute)
    with Suc.IH [of "n div 10"] k False show ?thesis by (subst show_nat.simps) simp
  qed
qed simp

lemma length_show_int: "- (2 ^ 31) \<le> i \<Longrightarrow> i < 2 ^ 31 \<Longrightarrow> length (show_int i) \<le> 11"
proof -
  assume "- (2 ^ 31) \<le> i" "i < 2 ^ 31"
  then have "nat i < 10 ^ 10" "nat (- i) < 10 ^ 10" by simp_all
  then have "length (show_nat (nat i)) \<le> 10" "length (show_nat (nat (- i))) \<le> 10" by (simp_all add: length_show_nat)
  then show ?thesis by (simp add: show_int_def)
qed

lemma show_int_chars: "ch \<in> set (show_int i) \<Longrightarrow> 45 \<le> byte ch \<and> byte ch \<le> 57"
proof -
  assume "ch \<in> set (show_int i)"
  then have "ch = CHR ''-'' \<or> is_digit ch" by (auto simp: show_int_def split: if_splits intro: show_nat_digits)
  moreover have "byte CHR ''-'' = 45" by (simp add: byte_def)
  ultimately show ?thesis by (auto simp: is_digit_def)
qed

end
