(* ===== verification/Config_List.thy ===== *)
theory Config_List
  imports C_Strings
begin

text \<open>
  The configuration list of \<open>common/gcl.c\<close>: an array of keys in ascending order with default values, read from a
  file by a parser that works through the pieces \<open>fread\<close> delivers, and written back. The array is a list, \<open>n\<close> its
  length. \<open>oom i\<close> says that the \<open>i\<close>-th \<open>strdup\<close> of a call fails.
\<close>

section \<open>Items\<close>

record gcl_item =
  gcl_key :: string
  gcl_dval :: string
  gcl_value :: "string option"

definition EINVAL :: int where "EINVAL = 22"
definition ENOENT :: int where "ENOENT = 2"
definition ENOMEM :: int where "ENOMEM = 12"

definition GCL_BUFSIZE :: nat where "GCL_BUFSIZE = 1024"
definition GCL_TOKSIZE :: nat where "GCL_TOKSIZE = 256"

text \<open>The loop ends with its index, or at a pair of keys that is out of order.\<close>

function ascend_from :: "nat \<Rightarrow> gcl_item list \<Rightarrow> bool \<times> nat \<times> gcl_item list" where
  "ascend_from i c =
     (if Suc i < length c then
        if strcmp (gcl_key (c ! i)) (gcl_key (c ! Suc i)) \<ge> 0 then (False, i, c)
        else ascend_from (Suc i) (c[i := (c ! i)\<lparr>gcl_value := None\<rparr>])
      else (True, i, c))"
  by pat_completeness auto
termination by (relation "measure (\<lambda>(i, c). length c - i)") auto

declare ascend_from.simps [simp del]

text \<open>The statement after the loop writes before the array when there are fewer than two items.\<close>

definition ascend :: "gcl_item list \<Rightarrow> (bool \<times> gcl_item list) option" where
  "ascend c =
     (case ascend_from 0 c of
        (False, i, c) \<Rightarrow> Some (False, c)
      | (True, i, c) \<Rightarrow> if i = 0 then None else Some (True, c[i - 1 := (c ! (i - 1))\<lparr>gcl_value := None\<rparr>]))"

definition search :: "gcl_item list \<Rightarrow> string \<Rightarrow> nat option" where
  "search c k = bin_search (\<lambda>m. strcmp k (gcl_key (c ! m))) 0 (int (length c) - 1)"

definition set_value :: "nat \<Rightarrow> string option \<Rightarrow> gcl_item list \<Rightarrow> gcl_item list" where
  "set_value i v c = c[i := (c ! i)\<lparr>gcl_value := v\<rparr>]"

definition gcl_set :: "bool \<Rightarrow> string \<Rightarrow> string \<Rightarrow> gcl_item list \<Rightarrow> int \<times> gcl_item list" where
  "gcl_set oom k v c =
     (case search c k of
        None \<Rightarrow> (- 1, c)
      | Some i \<Rightarrow>
          (case gcl_value (c ! i) of
             Some old \<Rightarrow> if strcmp v old = 0 then (0, c) else if oom then (- 1, c) else (1, set_value i (Some v) c)
           | None \<Rightarrow> if oom then (- 1, c) else (1, set_value i (Some v) c)))"

definition effective :: "gcl_item \<Rightarrow> string" where
  "effective it = (case gcl_value it of Some v \<Rightarrow> v | None \<Rightarrow> gcl_dval it)"

definition gcl_get :: "string \<Rightarrow> gcl_item list \<Rightarrow> string option" where
  "gcl_get k c = (case search c k of None \<Rightarrow> None | Some i \<Rightarrow> Some (effective (c ! i)))"

definition gcl_free :: "gcl_item list \<Rightarrow> gcl_item list" where
  "gcl_free c = map (\<lambda>it. it\<lparr>gcl_value := None\<rparr>) c"

definition gcl_reset :: "bool \<Rightarrow> string \<Rightarrow> gcl_item list \<Rightarrow> int \<times> gcl_item list" where
  "gcl_reset oom k c =
     (case search c k of
        None \<Rightarrow> (- 1, c)
      | Some i \<Rightarrow>
          let d = gcl_dval (c ! i) in
          (case gcl_value (c ! i) of
             Some old \<Rightarrow> if strcmp d old = 0 then (0, c) else if oom then (- 1, c) else (1, set_value i (Some d) c)
           | None \<Rightarrow> if oom then (- 1, c) else (0, set_value i (Some d) c)))"

section \<open>The parser\<close>

datatype parse_state =
    GCL_PARSE_INITIAL | GCL_PARSE_COMMENT | GCL_PARSE_QUOTED | GCL_PARSE_UNQUOTED | GCL_HANDLE_NEWLINE | GCL_HANDLE_SEP

text \<open>\<open>tok\<close> are the bytes from \<open>tok\<close> to \<open>t\<close>; \<open>dups\<close> counts the calls of \<open>strdup\<close>.\<close>

record gcl_parser =
  p_state :: parse_state
  tok :: string
  item :: "nat option"
  line :: nat
  dups :: nat
  items :: "gcl_item list"

definition put_tok :: "char \<Rightarrow> gcl_parser \<Rightarrow> gcl_parser" where
  "put_tok ch s = (if length (tok s) < GCL_TOKSIZE - 1 then s\<lparr>tok := tok s @ [ch]\<rparr> else s)"

text \<open>A turn of the loop over the buffer: stay at the byte, go to the next one, or leave with \<open>ENOMEM\<close>.\<close>

datatype turn = Stay gcl_parser | Next gcl_parser | Out gcl_parser

definition take_value :: "(nat \<Rightarrow> bool) \<Rightarrow> nat \<Rightarrow> gcl_parser \<Rightarrow> gcl_parser" where
  "take_value oom i s = s\<lparr>items := set_value i (if oom (dups s) then None else Some (c_str (tok s))) (items s), dups := dups s + 1\<rparr>"

definition handle_newline :: "(nat \<Rightarrow> bool) \<Rightarrow> gcl_parser \<Rightarrow> turn" where
  "handle_newline oom s =
     (let done = (\<lambda>s. Next (s\<lparr>item := None, tok := [], p_state := GCL_PARSE_INITIAL, line := line s + 1\<rparr>)) in
      case item s of
        None \<Rightarrow> done s
      | Some i \<Rightarrow>
          if gcl_value (items s ! i) \<noteq> None then done s
          else if oom (dups s) then Out (take_value oom i s)
          else done (take_value oom i s))"

definition gcl_step :: "(nat \<Rightarrow> bool) \<Rightarrow> char \<Rightarrow> gcl_parser \<Rightarrow> turn" where
  "gcl_step oom ch s =
     (case p_state s of
        GCL_PARSE_INITIAL \<Rightarrow>
          if ch = CHR ''#'' then Next (s\<lparr>p_state := GCL_PARSE_COMMENT\<rparr>)
          else if ch = CHR 0x22 then Next (s\<lparr>p_state := GCL_PARSE_QUOTED\<rparr>)
          else if ch = newline then Stay (s\<lparr>p_state := GCL_HANDLE_NEWLINE\<rparr>)
          else if ch = CHR ''='' then Stay (s\<lparr>p_state := GCL_HANDLE_SEP\<rparr>)
          else if isspace ch then Next s
          else Next ((put_tok ch s)\<lparr>p_state := GCL_PARSE_UNQUOTED\<rparr>)
      | GCL_PARSE_COMMENT \<Rightarrow>
          if ch = newline then Stay (s\<lparr>p_state := GCL_HANDLE_NEWLINE\<rparr>) else Next s
      | GCL_PARSE_QUOTED \<Rightarrow>
          if ch = CHR 0x22 then Next (s\<lparr>p_state := GCL_PARSE_INITIAL\<rparr>)
          else if ch = newline then Stay (s\<lparr>p_state := GCL_HANDLE_NEWLINE\<rparr>)
          else Next (put_tok ch s)
      | GCL_PARSE_UNQUOTED \<Rightarrow>
          if ch = CHR ''#'' then Next (s\<lparr>p_state := GCL_PARSE_COMMENT\<rparr>)
          else if ch = newline then Stay (s\<lparr>p_state := GCL_HANDLE_NEWLINE\<rparr>)
          else if ch = CHR ''='' then Stay (s\<lparr>p_state := GCL_HANDLE_SEP\<rparr>)
          else if isspace ch then Next (s\<lparr>p_state := GCL_PARSE_INITIAL\<rparr>)
          else Next (put_tok ch s)
      | GCL_HANDLE_SEP \<Rightarrow>
          if item s \<noteq> None then
            (if ch = newline then Stay (s\<lparr>p_state := GCL_HANDLE_NEWLINE\<rparr>) else Next s)
          else
            Next ((if tok s = [] then s else s\<lparr>item := search (items s) (c_str (tok s)), tok := []\<rparr>)\<lparr>p_state := GCL_PARSE_INITIAL\<rparr>)
      | GCL_HANDLE_NEWLINE \<Rightarrow> handle_newline oom s)"

fun parse_rank :: "parse_state \<Rightarrow> nat" where
  "parse_rank GCL_HANDLE_NEWLINE = 0"
| "parse_rank GCL_HANDLE_SEP = 1"
| "parse_rank _ = 2"

lemma stay_rank: "gcl_step oom ch s = Stay s' \<Longrightarrow> parse_rank (p_state s') < parse_rank (p_state s)"
  by (auto simp: gcl_step_def handle_newline_def Let_def split: parse_state.splits option.splits if_splits)

text \<open>The loop over the bytes of a buffer. \<open>Inl\<close> is the jump to \<open>out\<close>.\<close>

function gcl_scan :: "(nat \<Rightarrow> bool) \<Rightarrow> string \<Rightarrow> gcl_parser \<Rightarrow> gcl_parser + gcl_parser" where
  "gcl_scan oom [] s = Inr s"
| "gcl_scan oom (ch # cs) s =
     (case gcl_step oom ch s of
        Stay s' \<Rightarrow> gcl_scan oom (ch # cs) s'
      | Next s' \<Rightarrow> gcl_scan oom cs s'
      | Out s' \<Rightarrow> Inl s')"
  by pat_completeness auto
termination
  by (relation "measures [\<lambda>(oom, cs, s). length cs, \<lambda>(oom, cs, s). parse_rank (p_state s)]") (auto dest: stay_rank)

text \<open>The statements after the loop: a last line without a newline.\<close>

definition gcl_finish :: "(nat \<Rightarrow> bool) \<Rightarrow> gcl_parser \<Rightarrow> int \<times> gcl_item list" where
  "gcl_finish oom s =
     (case item s of
        None \<Rightarrow> (0, items s)
      | Some i \<Rightarrow> (if oom (dups s) then ENOMEM else 0, items (take_value oom i s)))"

text \<open>
  The reading loop: each answer of \<open>fread\<close> is its bytes and whether \<open>feof\<close> holds after it. Without another
  answer the loop has not ended.
\<close>

fun gcl_load :: "(nat \<Rightarrow> bool) \<Rightarrow> (string \<times> bool) list \<Rightarrow> gcl_parser \<Rightarrow> (int \<times> gcl_item list) option" where
  "gcl_load oom [] s = None"
| "gcl_load oom ((buf, eof) # reads) s =
     (case gcl_scan oom buf s of
        Inl s' \<Rightarrow> Some (ENOMEM, items s')
      | Inr s' \<Rightarrow> if eof then Some (gcl_finish oom s') else gcl_load oom reads s')"

definition parser_start :: "gcl_item list \<Rightarrow> gcl_parser" where
  "parser_start c = \<lparr>p_state = GCL_PARSE_INITIAL, tok = [], item = None, line = 1, dups = 0, items = c\<rparr>"

definition gcl_init :: "bool \<Rightarrow> (nat \<Rightarrow> bool) \<Rightarrow> (string \<times> bool) list \<Rightarrow> gcl_item list \<Rightarrow> (int \<times> gcl_item list) option" where
  "gcl_init opened oom reads c = do {
     (ok, c) \<leftarrow> ascend c;
     if \<not> ok then Some (EINVAL, c)
     else if \<not> opened then Some (ENOENT, c)
     else gcl_load oom reads (parser_start c)
   }"

section \<open>Writing\<close>

text \<open>
  \<open>gcl_sync\<close>: a line that does not fit into \<open>buf\<close> overruns it; \<open>counts\<close> are the answers of \<open>fwrite\<close>. The result is
  the return value, the bytes written and whether the file was closed.
\<close>

definition gcl_line :: "gcl_item \<Rightarrow> string" where
  "gcl_line it = gcl_key it @ ''='' @ effective it @ [newline]"

fun gcl_write :: "nat list \<Rightarrow> gcl_item list \<Rightarrow> (int \<times> string \<times> bool) option" where
  "gcl_write counts [] = Some (1, [], True)"
| "gcl_write [] (it # c) = None"
| "gcl_write (w # counts) (it # c) =
     (if length (gcl_line it) \<ge> GCL_BUFSIZE then None
      else if length (gcl_line it) \<noteq> w then Some (0, take w (gcl_line it), False)
      else map_option (\<lambda>(r, out, cl). (r, gcl_line it @ out, cl)) (gcl_write counts c))"

definition gcl_sync :: "bool \<Rightarrow> nat list \<Rightarrow> gcl_item list \<Rightarrow> (int \<times> string \<times> bool) option" where
  "gcl_sync opened counts c = (if \<not> opened then Some (0, [], True) else gcl_write counts c)"

section \<open>The table\<close>

interpretation gcl: key_table gcl_key search
  by unfold_locales (simp add: search_def search_ascending)

lemma set_value_key [simp]: "map gcl_key (set_value i v c) = map gcl_key c" "length (set_value i v c) = length c"
  by (simp_all add: set_value_def map_update list_update_same_conv) (metis list_update_id map_update nth_map gcl_item.select_convs(1))

end
