(* ===== verification/Config_Properties.thy ===== *)
theory Config_Properties
  imports Config_List
begin

text \<open>
  What the configuration list promises: it is a finite map from its keys, its parser stays inside its buffers whatever
  the file holds, and a list that is written is read back.
\<close>

section \<open>The list as a map\<close>

lemma gcl_get_map_of: "ascending gcl_key c \<Longrightarrow> gcl_get k c = map_of (map (\<lambda>it. (gcl_key it, effective it)) c) k"
  using gcl.search_map_of [of c effective k] unfolding gcl_get_def by (cases "search c k") auto

lemma ascending_set_value: "ascending gcl_key (set_value i v c) = ascending gcl_key c"
  by (rule gcl.ascending_keys) simp

lemma set_value_nth: "i < length c \<Longrightarrow> set_value i v c ! j = (if j = i then (c ! i)\<lparr>gcl_value := v\<rparr> else c ! j)"
  by (simp add: set_value_def nth_list_update)

lemma gcl_get_set_value:
  assumes "ascending gcl_key c" and "search c k = Some i"
  shows "gcl_get k' (set_value i (Some v) c) = (if k' = k then Some v else gcl_get k' c)"
proof -
  have i: "i < length c" "gcl_key (c ! i) = k" using assms gcl.search_iff by blast+
  have s: "search (set_value i (Some v) c) k' = search c k'" using gcl.search_keys [OF assms(1)] set_value_key(1) by metis
  show ?thesis
  proof (cases "search c k'")
    case None
    with s assms(2) show ?thesis by (auto simp: gcl_get_def)
  next
    case (Some j)
    then have "gcl_key (c ! j) = k'" "j < length c" using gcl.search_iff [OF assms(1)] by blast+
    then have "j = i \<longleftrightarrow> k' = k" using assms(2) Some i by (metis option.inject)
    with Some s i show ?thesis by (auto simp: gcl_get_def set_value_nth effective_def)
  qed
qed

definition demo_config :: "gcl_item list" where
  "demo_config = [\<lparr>gcl_key = ''delay'', gcl_dval = ''3'', gcl_value = None\<rparr>, \<lparr>gcl_key = ''name'', gcl_dval = ''none'', gcl_value = Some ''x''\<rparr>]"

lemma demo_config_ascending: "ascending gcl_key demo_config"
  by (simp add: ascending_def demo_config_def byte_def)



section \<open>Any file\<close>

text \<open>
  The token fits its buffer with the terminating zero, the item is one of the array, and only values have changed.
\<close>

definition parser_ok :: "gcl_item list \<Rightarrow> gcl_parser \<Rightarrow> bool" where
  "parser_ok c s \<longleftrightarrow> length (tok s) < GCL_TOKSIZE \<and> (\<forall>i. item s = Some i \<longrightarrow> i < length (items s)) \<and>
     map gcl_key (items s) = map gcl_key c \<and> map gcl_dval (items s) = map gcl_dval c"

lemma set_value_dval [simp]: "map gcl_dval (set_value i v c) = map gcl_dval c"
  by (simp add: set_value_def map_update) (metis list_update_id map_update gcl_item.select_convs(2))

lemma parser_ok_put: "parser_ok c s \<Longrightarrow> parser_ok c (put_tok ch s)"
  by (auto simp: parser_ok_def put_tok_def GCL_TOKSIZE_def)

lemma parser_ok_take: "parser_ok c s \<Longrightarrow> parser_ok c (take_value oom i s)"
  by (auto simp: parser_ok_def take_value_def split: option.splits)

fun turn_state :: "turn \<Rightarrow> gcl_parser" where
  "turn_state (Stay s) = s"
| "turn_state (Next s) = s"
| "turn_state (Out s) = s"

lemma parser_ok_state:
  "parser_ok c s \<Longrightarrow> parser_ok c (s\<lparr>p_state := st\<rparr>)"
  "parser_ok c s \<Longrightarrow> parser_ok c (s\<lparr>item := None, tok := [], p_state := st, line := l\<rparr>)"
  by (simp_all add: parser_ok_def GCL_TOKSIZE_def)

lemma parser_ok_search:
  assumes "ascending gcl_key c" and "parser_ok c s"
  shows "parser_ok c (s\<lparr>item := search (items s) k, tok := []\<rparr>)"
proof -
  have "ascending gcl_key (items s)" using assms gcl.ascending_keys [of "items s" c] by (simp add: parser_ok_def)
  then have "search (items s) k = Some i \<Longrightarrow> i < length (items s)" for i using gcl.search_iff by blast
  with assms(2) show ?thesis unfolding parser_ok_def by (simp add: GCL_TOKSIZE_def)
qed

lemma gcl_step_ok:
  assumes "ascending gcl_key c" and "parser_ok c s"
  shows "parser_ok c (turn_state (gcl_step oom ch s))"
proof (cases "p_state s")
  case GCL_HANDLE_NEWLINE
  then show ?thesis
    using assms(2) by (auto simp: gcl_step_def handle_newline_def Let_def split: option.splits intro!: parser_ok_state parser_ok_take)
next
  case GCL_HANDLE_SEP
  then show ?thesis
    using assms parser_ok_search [OF assms] by (auto simp: gcl_step_def intro!: parser_ok_state)
qed (use assms(2) in \<open>auto simp: gcl_step_def intro!: parser_ok_state parser_ok_put\<close>)

definition scan_state :: "gcl_parser + gcl_parser \<Rightarrow> gcl_parser" where
  "scan_state r = (case r of Inl s \<Rightarrow> s | Inr s \<Rightarrow> s)"

lemma gcl_scan_ok: "ascending gcl_key c \<Longrightarrow> parser_ok c s \<Longrightarrow> parser_ok c (scan_state (gcl_scan oom buf s))"
proof (induction oom buf s rule: gcl_scan.induct)
  case (2 oom ch cs s)
  have t: "parser_ok c (turn_state (gcl_step oom ch s))" using gcl_step_ok "2.prems" by blast
  show ?case
  proof (cases "gcl_step oom ch s")
    case (Stay s')
    with 2 t show ?thesis by (simp add: gcl_step_def)
  next
    case (Next s')
    with 2 t show ?thesis by simp
  next
    case (Out s')
    with t show ?thesis by (simp add: scan_state_def)
  qed
qed (simp add: scan_state_def)

text \<open>How the file is cut into buffers makes no difference.\<close>

lemma gcl_scan_append:
  "gcl_scan oom (a @ b) s = (case gcl_scan oom a s of Inl s' \<Rightarrow> Inl s' | Inr s' \<Rightarrow> gcl_scan oom b s')"
  by (induction oom a s rule: gcl_scan.induct) (auto split: turn.splits)

definition pieces_of :: "string \<Rightarrow> (string \<times> bool) list \<Rightarrow> bool" where
  "pieces_of bytes reads \<longleftrightarrow> reads \<noteq> [] \<and> concat (map fst reads) = bytes \<and> (\<forall>r \<in> set (butlast reads). \<not> snd r) \<and> snd (last reads)"

lemma gcl_load_pieces: "pieces_of bytes reads \<Longrightarrow> gcl_load oom reads s = gcl_load oom [(bytes, True)] s"
proof (induction reads arbitrary: bytes s)
  case (Cons r reads)
  show ?case
  proof (cases reads)
    case Nil
    with Cons.prems show ?thesis by (cases r) (simp add: pieces_of_def)
  next
    case (Cons r' reads')
    let ?rest = "concat (map fst reads)"
    from Cons Cons.prems have p: "pieces_of ?rest reads" "bytes = fst r @ ?rest" "\<not> snd r" by (auto simp: pieces_of_def)
    then show ?thesis using Cons.IH [OF p(1)] by (cases r) (simp add: gcl_scan_append split: sum.splits)
  qed
qed (simp add: pieces_of_def)

text \<open>
  C24: Whatever a file holds and however it is cut into buffers, the parser ends with it, keeps the keys and defaults of
  the list and never has more than 255 bytes in its token buffer. The cut makes no difference to the result. But when
  reading fails, which sets no end of file, the loop goes on for ever.
\<close>

theorem gcl_parser_safe:
  assumes "ascending gcl_key c" and "pieces_of bytes reads"
  shows "(\<forall>pre suf. bytes = pre @ suf \<longrightarrow> length (tok (scan_state (gcl_scan oom pre (parser_start c)))) \<le> 255) \<and>
    (\<exists>r c'. gcl_load oom reads (parser_start c) = Some (r, c') \<and> r \<in> {0, ENOMEM} \<and> map gcl_key c' = map gcl_key c \<and>
       map gcl_dval c' = map gcl_dval c \<and> gcl_load oom [(bytes, True)] (parser_start c) = Some (r, c')) \<and>
    gcl_load oom (replicate n ([], False)) (parser_start c) = None"
proof (intro conjI allI impI)
  have start: "parser_ok c (parser_start c)" by (simp add: parser_ok_def parser_start_def GCL_TOKSIZE_def)
  note ok = gcl_scan_ok [OF assms(1) start, of oom]
  show "length (tok (scan_state (gcl_scan oom pre (parser_start c)))) \<le> 255" for pre suf
    using ok [of pre] by (simp add: parser_ok_def GCL_TOKSIZE_def)
  have fin: "\<exists>r c'. gcl_load oom [(bytes, True)] (parser_start c) = Some (r, c') \<and> r \<in> {0, ENOMEM} \<and> map gcl_key c' = map gcl_key c \<and>
      map gcl_dval c' = map gcl_dval c"
    using ok [of bytes] parser_ok_take [of c]
    by (cases "gcl_scan oom bytes (parser_start c)") (auto simp: gcl_finish_def parser_ok_def scan_state_def split: option.splits)
  then show "\<exists>r c'. gcl_load oom reads (parser_start c) = Some (r, c') \<and> r \<in> {0, ENOMEM} \<and> map gcl_key c' = map gcl_key c \<and>
       map gcl_dval c' = map gcl_dval c \<and> gcl_load oom [(bytes, True)] (parser_start c) = Some (r, c')"
    unfolding gcl_load_pieces [OF assms(2)] by blast
  show "gcl_load oom (replicate n ([], False)) (parser_start c) = None" by (induction n) auto
qed

theorem gcl_parser_safe_witness:
  "\<exists>r c'. gcl_load (\<lambda>_. False) [(''delay'', False), (''=9'', False), ([newline], True)] (parser_start demo_config) = Some (r, c') \<and>
     map gcl_key c' = [''delay'', ''name'']"
proof -
  have "pieces_of (''delay=9'' @ [newline]) [(''delay'', False), (''=9'', False), ([newline], True)]" by (simp add: pieces_of_def)
  from gcl_parser_safe [OF demo_config_ascending this, of "\<lambda>_. False"] have "\<exists>r c'. gcl_load (\<lambda>_. False) [(''delay'', False), (''=9'', False), ([newline], True)] (parser_start demo_config) = Some (r, c') \<and>
      map gcl_key c' = map gcl_key demo_config" by blast
  moreover have "map gcl_key demo_config = [''delay'', ''name'']" by (simp add: demo_config_def)
  ultimately show ?thesis by simp
qed

section \<open>Writing and reading back\<close>

text \<open>Characters that the parser takes as they are, outside quotes.\<close>

definition plain :: "char \<Rightarrow> bool" where
  "plain ch \<longleftrightarrow> ch \<notin> {NUL, CHR ''#'', CHR ''='', CHR 0x22} \<and> \<not> isspace ch"

lemma plainD: "plain ch \<Longrightarrow> ch \<noteq> NUL \<and> ch \<noteq> CHR ''#'' \<and> ch \<noteq> CHR ''='' \<and> ch \<noteq> CHR 0x22 \<and> ch \<noteq> newline \<and> \<not> isspace ch"
  by (auto simp: plain_def isspace_def)

lemma plain_c_str: "\<forall>ch \<in> set s. plain ch \<Longrightarrow> c_str s = s"
  using plainD by (intro c_str_id) blast

lemma scan_plain:
  assumes "\<forall>ch \<in> set cs. plain ch" and "p_state s \<in> {GCL_PARSE_INITIAL, GCL_PARSE_UNQUOTED}" and "length (tok s) + length cs \<le> 255"
  shows "gcl_scan oom (cs @ rest) s = gcl_scan oom rest (s\<lparr>tok := tok s @ cs, p_state := if cs = [] then p_state s else GCL_PARSE_UNQUOTED\<rparr>)"
  using assms
proof (induction cs arbitrary: s)
  case (Cons ch cs)
  have st: "gcl_step oom ch s = Next (s\<lparr>tok := tok s @ [ch], p_state := GCL_PARSE_UNQUOTED\<rparr>)"
    using Cons.prems plainD [of ch] by (auto simp: gcl_step_def put_tok_def GCL_TOKSIZE_def)
  with Cons.IH [of "s\<lparr>tok := tok s @ [ch], p_state := GCL_PARSE_UNQUOTED\<rparr>"] Cons.prems show ?case by simp
qed simp

definition at_start :: "gcl_parser \<Rightarrow> bool" where
  "at_start s \<longleftrightarrow> p_state s = GCL_PARSE_INITIAL \<and> tok s = [] \<and> item s = None"

text \<open>The head of a line, \<open>key=value\<close>, when the key is known.\<close>

definition has_read :: "string \<Rightarrow> nat \<Rightarrow> gcl_parser \<Rightarrow> gcl_parser" where
  "has_read v i s = s\<lparr>p_state := if v = [] then GCL_PARSE_INITIAL else GCL_PARSE_UNQUOTED, tok := v, item := Some i\<rparr>"

lemma has_read_fields [simp]:
  "p_state (has_read v i s) \<in> {GCL_PARSE_INITIAL, GCL_PARSE_UNQUOTED}" "item (has_read v i s) = Some i" "tok (has_read v i s) = v"
  "items (has_read v i s) = items s"
  by (simp_all add: has_read_def)

lemma scan_pair:
  assumes "at_start s" and "search (items s) k = Some i"
    and "k \<noteq> []" and "\<forall>ch \<in> set (k @ v). plain ch" and "length k \<le> 255" and "length v \<le> 255"
  shows "gcl_scan oom (k @ CHR ''='' # v @ rest) s = gcl_scan oom rest (has_read v i s)"
proof -
  let ?s1 = "s\<lparr>tok := k, p_state := GCL_PARSE_UNQUOTED\<rparr>" and ?s2 = "s\<lparr>tok := [], item := Some i, p_state := GCL_PARSE_INITIAL\<rparr>"
  have k: "gcl_scan oom (k @ CHR ''='' # v @ rest) s = gcl_scan oom (CHR ''='' # v @ rest) ?s1"
    using assms scan_plain [of k s oom] by (simp add: at_start_def)
  have "gcl_step oom CHR ''='' ?s1 = Stay (?s1\<lparr>p_state := GCL_HANDLE_SEP\<rparr>)"
    "gcl_step oom CHR ''='' (?s1\<lparr>p_state := GCL_HANDLE_SEP\<rparr>) = Next ?s2"
    using assms plain_c_str [of k] by (simp_all add: gcl_step_def isspace_def at_start_def)
  then have "gcl_scan oom (CHR ''='' # v @ rest) ?s1 = gcl_scan oom (v @ rest) ?s2" by simp
  also have "\<dots> = gcl_scan oom rest (?s2\<lparr>tok := [] @ v, p_state := if v = [] then GCL_PARSE_INITIAL else GCL_PARSE_UNQUOTED\<rparr>)"
    using assms scan_plain [of v ?s2 oom] by simp
  also have "?s2\<lparr>tok := [] @ v, p_state := if v = [] then GCL_PARSE_INITIAL else GCL_PARSE_UNQUOTED\<rparr> = has_read v i s"
    by (simp add: has_read_def)
  finally show ?thesis unfolding k .
qed

lemma scan_newline:
  assumes "p_state s \<in> {GCL_PARSE_INITIAL, GCL_PARSE_UNQUOTED}" and "item s = Some i" and "\<not> oom (dups s)"
  shows "\<exists>s'. gcl_scan oom (newline # rest) s = gcl_scan oom rest s' \<and> at_start s' \<and>
    items s' = (if gcl_value (items s ! i) = None then set_value i (Some (c_str (tok s))) (items s) else items s)"
  using assms by (auto simp: gcl_step_def handle_newline_def take_value_def at_start_def isspace_def)

lemma scan_line:
  assumes "at_start s" and "search (items s) k = Some i"
    and "k \<noteq> []" and "\<forall>ch \<in> set (k @ v). plain ch" and "length k \<le> 255" and "length v \<le> 255"
  obtains s' where "gcl_scan (\<lambda>_. False) (k @ CHR ''='' # v @ newline # rest) s = gcl_scan (\<lambda>_. False) rest s'" "at_start s'"
    "items s' = (if gcl_value (items s ! i) = None then set_value i (Some v) (items s) else items s)"
proof -
  have "c_str v = v" using assms(4) plain_c_str by simp
  with scan_newline [OF has_read_fields(1,2), of "\<lambda>_. False" v i s rest] obtain s' where
    "gcl_scan (\<lambda>_. False) (newline # rest) (has_read v i s) = gcl_scan (\<lambda>_. False) rest s'" "at_start s'"
    "items s' = (if gcl_value (items s ! i) = None then set_value i (Some v) (items s) else items s)"
    by (auto simp del: gcl_scan.simps)
  with scan_pair [OF assms, of "\<lambda>_. False" "newline # rest"] that show ?thesis by simp
qed

definition writable :: "gcl_item \<Rightarrow> bool" where
  "writable it \<longleftrightarrow> gcl_key it \<noteq> [] \<and> (\<forall>ch \<in> set (gcl_key it @ effective it). plain ch) \<and>
     length (gcl_key it) \<le> 255 \<and> length (effective it) \<le> 255"

definition pinned :: "gcl_item \<Rightarrow> gcl_item" where
  "pinned it = it\<lparr>gcl_value := Some (effective it)\<rparr>"

lemma scan_lines:
  assumes "ascending gcl_key (ps @ qs)" and "\<forall>it \<in> set qs. writable it" and "at_start s"
    and "items s = map pinned ps @ gcl_free qs"
  shows "\<exists>s'. gcl_scan (\<lambda>_. False) (concat (map gcl_line qs)) s = Inr s' \<and> at_start s' \<and> items s' = map pinned (ps @ qs)"
  using assms
proof (induction qs arbitrary: ps s)
  case (Cons q qs)
  have keys: "map gcl_key (ps @ q # qs) = map gcl_key (items s)" by (simp add: Cons.prems(4) gcl_free_def pinned_def o_def)
  have "search (items s) (gcl_key q) = Some (length ps)"
    using gcl.search_keys [OF Cons.prems(1) keys] gcl.search_nth [OF Cons.prems(1), of "length ps"] by simp
  from scan_line [OF Cons.prems(3) this, of "effective q" "concat (map gcl_line qs)"] Cons.prems(2) obtain s' where
    s': "gcl_scan (\<lambda>_. False) (gcl_line q @ concat (map gcl_line qs)) s = gcl_scan (\<lambda>_. False) (concat (map gcl_line qs)) s'"
    "at_start s'" "items s' = (if gcl_value (items s ! length ps) = None then set_value (length ps) (Some (effective q)) (items s) else items s)"
    by (auto simp add: gcl_line_def writable_def simp del: gcl_scan.simps)
  have "items s ! length ps = q\<lparr>gcl_value := None\<rparr>" by (simp add: Cons.prems(4) gcl_free_def nth_append)
  then have "items s' = map pinned (ps @ [q]) @ gcl_free qs"
    by (simp add: s'(3) set_value_def Cons.prems(4) gcl_free_def pinned_def list_update_append)
  with Cons.IH [of "ps @ [q]" s'] Cons.prems(1,2) s'(1,2) show ?case
    by (simp del: gcl_scan.simps)
qed (simp add: gcl_free_def)

lemma gcl_write_all: "\<forall>it \<in> set c. writable it \<Longrightarrow> gcl_write (map (length \<circ> gcl_line) c) c = Some (1, concat (map gcl_line c), True)"
  by (induction c) (auto simp: writable_def gcl_line_def GCL_BUFSIZE_def)

lemma ascend_clean:
  assumes "ascending gcl_key c" and "2 \<le> length c" and "\<forall>it \<in> set c. gcl_value it = None"
  shows "ascend c = Some (True, c)"
proof -
  have same: "c[i := (c ! i)\<lparr>gcl_value := None\<rparr>] = c" for i
    using assms(3) by (cases "i < length c") (auto simp: list_update_same_conv list_update_beyond)
  have "ascend_from i c = (True, length c - 1, c)" if "i < length c" for i
    using that
  proof (induction "length c - i" arbitrary: i)
    case (Suc n)
    have "strcmp (gcl_key (c ! i)) (gcl_key (c ! Suc i)) < 0" if "Suc i < length c"
      using assms(1) that by (simp add: ascending_def sorted_wrt_iff_nth_less)
    with Suc same show ?case by (subst ascend_from.simps) auto
  qed simp
  moreover have "0 < length c" using assms(2) by linarith
  ultimately have "ascend_from 0 c = (True, length c - 1, c)" by blast
  with assms(2) same show ?thesis by (simp add: ascend_def)
qed

lemma gcl_get_pinned: "ascending gcl_key c \<Longrightarrow> gcl_get k (map pinned c) = gcl_get k c"
proof -
  assume a: "ascending gcl_key c"
  then have "ascending gcl_key (map pinned c)" using gcl.ascending_keys [of "map pinned c" c] by (simp add: pinned_def o_def)
  with a show ?thesis by (simp add: gcl_get_map_of pinned_def effective_def o_def)
qed



section \<open>Repeated and unknown keys\<close>

text \<open>
  Of two lines for a key the first one counts, unless the second is the last line and has no newline: then the second
  overwrites the first. A value after an unknown key is taken for a key when another separator follows it.
\<close>

theorem gcl_repeated_key:
  assumes "ascending gcl_key c" and "\<forall>it \<in> set c. gcl_value it = None" and "k \<in> gcl_key ` set c" and "x \<notin> gcl_key ` set c"
    and "k \<noteq> []" and "x \<noteq> []" and "\<forall>ch \<in> set (x @ k @ u @ v). plain ch" and "length (x @ k @ u @ v) \<le> 255"
  shows "(\<exists>c'. gcl_load (\<lambda>_. False) [(k @ ''='' @ u @ [newline] @ k @ ''='' @ v @ [newline], True)] (parser_start c) = Some (0, c') \<and> gcl_get k c' = Some u) \<and>
    (\<exists>c'. gcl_load (\<lambda>_. False) [(k @ ''='' @ u @ [newline] @ k @ ''='' @ v, True)] (parser_start c) = Some (0, c') \<and> gcl_get k c' = Some v) \<and>
    (\<exists>c'. gcl_load (\<lambda>_. False) [(x @ ''='' @ k @ ''='' @ v @ [newline], True)] (parser_start c) = Some (0, c') \<and> gcl_get k c' = Some v)"
proof -
  let ?scan = "gcl_scan (\<lambda>_. False)"
  from assms(3) gcl.search_None [OF assms(1), of k] obtain i where i: "search c k = Some i" by (cases "search c k") auto
  then have ci: "i < length c" "gcl_value (c ! i) = None" using assms(1,2) gcl.search_iff nth_mem by blast+
  have str: "c_str u = u" "c_str v = v" "c_str x = x" using assms(7) by (simp_all add: plain_c_str)
  let ?d = "set_value i (Some u) c"
  have d: "ascending gcl_key ?d" "search ?d k = Some i" "gcl_value (?d ! i) = Some u"
    using assms(1) i ci gcl.search_keys [OF assms(1), of ?d k] by (simp_all add: ascending_set_value set_value_nth)
  have st: "at_start (parser_start c)" "items (parser_start c) = c" by (simp_all add: at_start_def parser_start_def)
  have line: "\<exists>s'. ?scan (k @ ''='' @ w @ newline # rest) s = ?scan rest s' \<and> at_start s' \<and>
      items s' = (if gcl_value (items s ! i) = None then set_value i (Some w) (items s) else items s)"
    if "at_start s" "search (items s) k = Some i" "w = u \<or> w = v" for s w rest
  proof -
    note start = that(1,2)
    have w: "\<forall>ch \<in> set (k @ w). plain ch" "length k \<le> 255" "length w \<le> 255" using that(3) assms(7,8) by auto
    obtain s' where "?scan (k @ CHR ''='' # w @ newline # rest) s = ?scan rest s'" "at_start s'"
      "items s' = (if gcl_value (items s ! i) = None then set_value i (Some w) (items s) else items s)"
      by (rule scan_line [OF start assms(5) w])
    then show ?thesis by (intro exI [of _ s']) (simp del: gcl_scan.simps)
  qed
  have get: "gcl_get k (set_value i (Some w) e) = Some w" if "ascending gcl_key e" "search e k = Some i" for w e
    using gcl_get_set_value [OF that] by simp
  from line [of "parser_start c" u "k @ ''='' @ v @ [newline]"] line [of "parser_start c" u "k @ ''='' @ v"] st i ci
  obtain s1 s2 where s1: "?scan (k @ ''='' @ u @ [newline] @ k @ ''='' @ v @ [newline]) (parser_start c) = ?scan (k @ ''='' @ v @ [newline]) s1"
      "at_start s1" "items s1 = ?d"
    and s2: "?scan (k @ ''='' @ u @ [newline] @ k @ ''='' @ v) (parser_start c) = ?scan (k @ ''='' @ v) s2" "at_start s2" "items s2 = ?d"
    by auto
  from line [of s1 v "[]"] s1 d obtain s3 where "?scan (k @ ''='' @ v @ [newline]) s1 = Inr s3" "at_start s3" "items s3 = ?d" by auto
  then have a: "\<exists>c'. gcl_load (\<lambda>_. False) [(k @ ''='' @ u @ [newline] @ k @ ''='' @ v @ [newline], True)] (parser_start c) = Some (0, c') \<and> gcl_get k c' = Some u"
    using s1(1) get [OF assms(1) i] by (simp add: gcl_finish_def at_start_def)
  have kv: "\<forall>ch \<in> set (k @ v). plain ch" using assms(7) by auto
  have "?scan (k @ ''='' @ v) s2 = Inr (has_read v i s2)"
    using scan_pair [OF s2(2) _ assms(5) kv, of i "\<lambda>_. False" "[]"] s2(3) d(2) assms(8) by simp
  then have b: "\<exists>c'. gcl_load (\<lambda>_. False) [(k @ ''='' @ u @ [newline] @ k @ ''='' @ v, True)] (parser_start c) = Some (0, c') \<and> gcl_get k c' = Some v"
    using s2(1,3) get [OF d(1,2)] str by (simp add: gcl_finish_def take_value_def)
  let ?x = "(parser_start c)\<lparr>tok := x, p_state := GCL_PARSE_UNQUOTED\<rparr>"
  have "search c x = None" using assms(1,4) gcl.search_None by blast
  then have "gcl_step (\<lambda>_. False) CHR ''='' ?x = Stay (?x\<lparr>p_state := GCL_HANDLE_SEP\<rparr>)"
    "gcl_step (\<lambda>_. False) CHR ''='' (?x\<lparr>p_state := GCL_HANDLE_SEP\<rparr>) = Next (parser_start c)"
    using assms(6) str by (simp_all add: gcl_step_def isspace_def parser_start_def)
  then have "?scan (CHR ''='' # rest) ?x = ?scan rest (parser_start c)" for rest by simp
  moreover have "?scan (x @ rest) (parser_start c) = ?scan rest ?x" for rest
    using scan_plain [of x "parser_start c" "\<lambda>_. False" rest] assms(6,7,8) by (simp add: parser_start_def)
  ultimately have "?scan (x @ ''='' @ k @ ''='' @ v @ [newline]) (parser_start c) = ?scan (k @ ''='' @ v @ [newline]) (parser_start c)"
    by (simp del: gcl_scan.simps)
  with line [of "parser_start c" v "[]"] st i ci obtain s4 where
    "?scan (x @ ''='' @ k @ ''='' @ v @ [newline]) (parser_start c) = Inr s4" "at_start s4" "items s4 = set_value i (Some v) c" by auto
  then have "\<exists>c'. gcl_load (\<lambda>_. False) [(x @ ''='' @ k @ ''='' @ v @ [newline], True)] (parser_start c) = Some (0, c') \<and> gcl_get k c' = Some v"
    using get [OF assms(1) i] by (simp add: gcl_finish_def at_start_def)
  with a b show ?thesis by blast
qed

theorem gcl_repeated_key_witness:
  "\<exists>c'. gcl_load (\<lambda>_. False) [(''name'' @ ''='' @ ''a'' @ [newline] @ ''name'' @ ''='' @ ''b'', True)] (parser_start (gcl_free demo_config)) = Some (0, c') \<and>
     gcl_get ''name'' c' = Some ''b''"
proof -
  have "map gcl_key (gcl_free demo_config) = map gcl_key demo_config" by (simp add: gcl_free_def o_def)
  then have a: "ascending gcl_key (gcl_free demo_config)" using gcl.ascending_keys demo_config_ascending by blast
  have "\<forall>it \<in> set (gcl_free demo_config). gcl_value it = None" "''name'' \<in> gcl_key ` set (gcl_free demo_config)"
    "''z'' \<notin> gcl_key ` set (gcl_free demo_config)" "''name'' \<noteq> []" "''z'' \<noteq> []"
    "\<forall>ch \<in> set (''z'' @ ''name'' @ ''a'' @ ''b''). plain ch" "length (''z'' @ ''name'' @ ''a'' @ ''b'') \<le> 255"
    by (simp_all add: gcl_free_def demo_config_def plain_def isspace_def NUL_def)
  from gcl_repeated_key [OF a this] show ?thesis by blast
qed

end
