(* ===== verification/Simple_Config.thy ===== *)
theory Simple_Config
  imports C_Strings
begin

text \<open>
  The parser \<open>config_parser\<close> of \<open>common/scl.c\<close>, which hands each pair of a file to a callback, and the daemon's
  configuration \<open>sample/mc-daemon/mc_config.c\<close> that is read with it. The callback does not write to the buffers
  it gets, so a run of the parser is the sequence of its calls.
\<close>

section \<open>The parser\<close>

datatype conf_state =
    CONF_PARSE_INITIAL | CONF_PARSE_COMMENT | CONF_PARSE_QUOTED | CONF_PARSE_UNQUOTED | CONF_HANDLE_NEWLINE | CONF_HANDLE_SEP

definition CONF_TOKSIZE :: nat where "CONF_TOKSIZE = 128"

text \<open>\<open>in_val\<close>: \<open>t\<close> is \<open>val\<close>, not \<open>key\<close>. \<open>pos\<close> is \<open>i\<close>.\<close>

record scl_parser =
  s_state :: conf_state
  key_buf :: string
  val_buf :: string
  in_val :: bool
  pos :: nat
  calls :: "(string \<times> string) list"

definition write_t :: "nat \<Rightarrow> char \<Rightarrow> scl_parser \<Rightarrow> scl_parser" where
  "write_t i ch s = (if in_val s then s\<lparr>val_buf := (val_buf s)[i := ch]\<rparr> else s\<lparr>key_buf := (key_buf s)[i := ch]\<rparr>)"

definition put_char :: "char \<Rightarrow> scl_parser \<Rightarrow> scl_parser" where
  "put_char ch s = (if pos s < CONF_TOKSIZE - 1 then (write_t (pos s) ch s)\<lparr>pos := pos s + 1\<rparr> else s)"

definition end_line :: "scl_parser \<Rightarrow> scl_parser" where
  "end_line s =
     (let s = (if key_buf s ! 0 \<noteq> NUL then
                 let s = write_t (pos s) NUL s in
                 s\<lparr>calls := calls s @ [(c_str (key_buf s), c_str (val_buf s))], key_buf := (key_buf s)[0 := NUL], val_buf := (val_buf s)[0 := NUL]\<rparr>
               else s)
      in s\<lparr>in_val := False, pos := 0, s_state := CONF_PARSE_INITIAL\<rparr>)"

text \<open>A turn of the loop: stay at the byte (\<open>Inl\<close>) or go to the next one.\<close>

definition scl_step :: "char \<Rightarrow> char \<Rightarrow> char \<Rightarrow> char \<Rightarrow> scl_parser \<Rightarrow> scl_parser + scl_parser" where
  "scl_step comment_char sep_char str_char ch s =
     (case s_state s of
        CONF_PARSE_INITIAL \<Rightarrow>
          if ch = comment_char then Inr (s\<lparr>s_state := CONF_PARSE_COMMENT\<rparr>)
          else if ch = str_char then Inr (s\<lparr>s_state := CONF_PARSE_QUOTED\<rparr>)
          else if ch = newline then Inl (s\<lparr>s_state := CONF_HANDLE_NEWLINE\<rparr>)
          else if ch = sep_char then Inl (s\<lparr>s_state := CONF_HANDLE_SEP\<rparr>)
          else if isspace ch then Inr s
          else Inr ((put_char ch s)\<lparr>s_state := CONF_PARSE_UNQUOTED\<rparr>)
      | CONF_PARSE_COMMENT \<Rightarrow>
          if ch = newline then Inl (s\<lparr>s_state := CONF_HANDLE_NEWLINE\<rparr>) else Inr s
      | CONF_PARSE_QUOTED \<Rightarrow>
          if ch = str_char then Inr (s\<lparr>s_state := CONF_PARSE_INITIAL\<rparr>)
          else if ch = newline then Inl (s\<lparr>s_state := CONF_HANDLE_NEWLINE\<rparr>)
          else Inr (put_char ch s)
      | CONF_PARSE_UNQUOTED \<Rightarrow>
          if ch = comment_char then Inr (s\<lparr>s_state := CONF_PARSE_COMMENT\<rparr>)
          else if ch = newline then Inl (s\<lparr>s_state := CONF_HANDLE_NEWLINE\<rparr>)
          else if ch = sep_char then Inl (s\<lparr>s_state := CONF_HANDLE_SEP\<rparr>)
          else if isspace ch then Inr (s\<lparr>s_state := CONF_PARSE_INITIAL\<rparr>)
          else Inr (put_char ch s)
      | CONF_HANDLE_SEP \<Rightarrow>
          if in_val s then
            (if ch = newline then Inl (s\<lparr>s_state := CONF_HANDLE_NEWLINE\<rparr>) else Inr s)
          else Inr ((write_t (pos s) NUL s)\<lparr>in_val := True, pos := 0, s_state := CONF_PARSE_INITIAL\<rparr>)
      | CONF_HANDLE_NEWLINE \<Rightarrow> Inr (end_line s))"

fun conf_rank :: "conf_state \<Rightarrow> nat" where
  "conf_rank CONF_HANDLE_NEWLINE = 0"
| "conf_rank CONF_HANDLE_SEP = 1"
| "conf_rank _ = 2"

lemma scl_stay_rank: "scl_step cc sc qc ch s = Inl s' \<Longrightarrow> conf_rank (s_state s') < conf_rank (s_state s)"
  by (auto simp: scl_step_def split: conf_state.splits if_splits)

function scl_scan :: "char \<Rightarrow> char \<Rightarrow> char \<Rightarrow> string \<Rightarrow> scl_parser \<Rightarrow> scl_parser" where
  "scl_scan cc sc qc [] s = s"
| "scl_scan cc sc qc (ch # cs) s =
     (case scl_step cc sc qc ch s of
        Inl s' \<Rightarrow> scl_scan cc sc qc (ch # cs) s'
      | Inr s' \<Rightarrow> scl_scan cc sc qc cs s')"
  by pat_completeness auto
termination
  by (relation "measures [\<lambda>(cc, sc, qc, cs, s). length cs, \<lambda>(cc, sc, qc, cs, s). conf_rank (s_state s)]")
    (auto dest: scl_stay_rank)

text \<open>The statements after the loop.\<close>

definition scl_finish :: "scl_parser \<Rightarrow> (string \<times> string) list" where
  "scl_finish s =
     (if key_buf s ! 0 \<noteq> NUL then
        let s = write_t (pos s) NUL s in calls s @ [(c_str (key_buf s), c_str (val_buf s))]
      else calls s)"

fun scl_load :: "char \<Rightarrow> char \<Rightarrow> char \<Rightarrow> (string \<times> bool) list \<Rightarrow> scl_parser \<Rightarrow> (string \<times> string) list option" where
  "scl_load cc sc qc [] s = None"
| "scl_load cc sc qc ((buf, eof) # reads) s =
     (let s' = scl_scan cc sc qc buf s in if eof then Some (scl_finish s') else scl_load cc sc qc reads s')"

definition scl_start :: scl_parser where
  "scl_start = \<lparr>s_state = CONF_PARSE_INITIAL, key_buf = replicate CONF_TOKSIZE NUL, val_buf = replicate CONF_TOKSIZE NUL,
     in_val = False, pos = 0, calls = []\<rparr>"

text \<open>
  The result and the calls of \<open>fn\<close>. \<open>path\<close> says whether a path is given, \<open>opened\<close> whether the file can be opened.
\<close>

definition config_parser ::
    "char \<Rightarrow> char \<Rightarrow> char \<Rightarrow> bool \<Rightarrow> bool \<Rightarrow> (string \<times> bool) list \<Rightarrow> (int \<times> (string \<times> string) list) option" where
  "config_parser comment_char sep_char str_char path opened reads =
     (if \<not> path then Some (22, [])
      else if \<not> opened then Some (2, [])
      else map_option (\<lambda>cs. (0, cs)) (scl_load comment_char sep_char str_char reads scl_start))"

section \<open>Any file\<close>

definition scl_ok :: "scl_parser \<Rightarrow> bool" where
  "scl_ok s \<longleftrightarrow> length (key_buf s) = CONF_TOKSIZE \<and> length (val_buf s) = CONF_TOKSIZE \<and> pos s < CONF_TOKSIZE"

lemma scl_ok_write: "scl_ok s \<Longrightarrow> scl_ok (write_t i ch s)"
  by (simp add: scl_ok_def write_t_def)

lemma write_t_fields [simp]:
  "pos (write_t i ch s) = pos s" "in_val (write_t i ch s) = in_val s" "calls (write_t i ch s) = calls s" "s_state (write_t i ch s) = s_state s"
  by (simp_all add: write_t_def)

lemma scl_ok_put: "scl_ok s \<Longrightarrow> scl_ok (put_char ch s)"
  using scl_ok_write [of s "pos s" ch] by (auto simp: put_char_def scl_ok_def CONF_TOKSIZE_def)

lemma scl_ok_end_line: "scl_ok s \<Longrightarrow> scl_ok (end_line s)"
  using scl_ok_write [of s "pos s" NUL] by (auto simp: end_line_def scl_ok_def Let_def CONF_TOKSIZE_def)

lemma scl_ok_state: "scl_ok s \<Longrightarrow> scl_ok (s\<lparr>s_state := st\<rparr>)" "scl_ok s \<Longrightarrow> scl_ok (s\<lparr>s_state := st, in_val := b, pos := 0\<rparr>)"
  by (simp_all add: scl_ok_def CONF_TOKSIZE_def)

fun either :: "'a + 'a \<Rightarrow> 'a" where
  "either (Inl s) = s"
| "either (Inr s) = s"

lemma scl_step_ok: "scl_ok s \<Longrightarrow> scl_ok (either (scl_step cc sc qc ch s))"
proof (cases "s_state s")
  case CONF_HANDLE_NEWLINE
  then show "scl_ok s \<Longrightarrow> ?thesis" by (simp add: scl_step_def scl_ok_end_line)
next
  case CONF_HANDLE_SEP
  then show "scl_ok s \<Longrightarrow> ?thesis"
    using scl_ok_write [of s "pos s" NUL] by (auto simp: scl_step_def scl_ok_def CONF_TOKSIZE_def)
qed (auto simp: scl_step_def intro!: scl_ok_state scl_ok_put)

lemma scl_scan_ok: "scl_ok s \<Longrightarrow> scl_ok (scl_scan cc sc qc buf s)"
proof (induction cc sc qc buf s rule: scl_scan.induct)
  case (2 cc sc qc ch cs s)
  then show ?case using scl_step_ok [of s cc sc qc ch] by (cases "scl_step cc sc qc ch s") auto
qed simp

lemma scl_scan_append: "scl_scan cc sc qc (a @ b) s = scl_scan cc sc qc b (scl_scan cc sc qc a s)"
proof (induction cc sc qc a s rule: scl_scan.induct)
  case (2 cc sc qc ch cs s)
  then show ?case by (cases "scl_step cc sc qc ch s") simp_all
qed simp

definition scl_pieces :: "string \<Rightarrow> (string \<times> bool) list \<Rightarrow> bool" where
  "scl_pieces bytes reads \<longleftrightarrow> reads \<noteq> [] \<and> concat (map fst reads) = bytes \<and> (\<forall>r \<in> set (butlast reads). \<not> snd r) \<and> snd (last reads)"

lemma scl_load_pieces: "scl_pieces bytes reads \<Longrightarrow> scl_load cc sc qc reads s = Some (scl_finish (scl_scan cc sc qc bytes s))"
proof (induction reads arbitrary: bytes s)
  case (Cons r reads)
  show ?case
  proof (cases reads)
    case Nil
    with Cons.prems show ?thesis by (cases r) (simp add: scl_pieces_def)
  next
    case (Cons r' reads')
    let ?rest = "concat (map fst reads)"
    from Cons Cons.prems have p: "scl_pieces ?rest reads" "bytes = fst r @ ?rest" "\<not> snd r" by (auto simp: scl_pieces_def)
    then show ?thesis using Cons.IH [OF p(1)] by (cases r) (simp add: scl_scan_append)
  qed
qed (simp add: scl_pieces_def)

section \<open>Lines\<close>

definition cur :: "scl_parser \<Rightarrow> string" where
  "cur s = take (pos s) (if in_val s then val_buf s else key_buf s)"

text \<open>Characters without a meaning for the parser.\<close>

definition ordinary :: "char \<Rightarrow> char \<Rightarrow> char \<Rightarrow> char \<Rightarrow> bool" where
  "ordinary cc sc qc ch \<longleftrightarrow> ch \<notin> {NUL, cc, sc, qc, newline} \<and> \<not> isspace ch"

lemma c_str_end: "NUL \<notin> set (take i b) \<Longrightarrow> i < length b \<Longrightarrow> c_str (b[i := NUL]) = take i b"
proof -
  assume a: "NUL \<notin> set (take i b)" "i < length b"
  have "b[i := NUL] = take i b @ NUL # drop (Suc i) b" using a by (simp add: upd_conv_take_nth_drop)
  moreover have "takeWhile (\<lambda>ch. ch \<noteq> NUL) (take i b @ NUL # drop (Suc i) b) = take i b"
    using a(1) by (subst takeWhile_append2) auto
  ultimately show ?thesis by (simp add: c_str_def)
qed

lemma scl_plain:
  assumes "\<forall>ch \<in> set cs. ordinary cc sc qc ch" and "s_state s \<in> {CONF_PARSE_INITIAL, CONF_PARSE_UNQUOTED}" and "scl_ok s"
    and "pos s + length cs < CONF_TOKSIZE"
  shows "\<exists>s'. scl_scan cc sc qc (cs @ rest) s = scl_scan cc sc qc rest s' \<and> scl_ok s' \<and>
    s_state s' \<in> {CONF_PARSE_INITIAL, CONF_PARSE_UNQUOTED} \<and> in_val s' = in_val s \<and> pos s' = pos s + length cs \<and>
    cur s' = cur s @ cs \<and> calls s' = calls s \<and> (if in_val s then key_buf s' = key_buf s else val_buf s' = val_buf s)"
  using assms
proof (induction cs arbitrary: s)
  case (Cons ch cs)
  let ?s = "(put_char ch s)\<lparr>s_state := CONF_PARSE_UNQUOTED\<rparr>"
  have p: "pos s < CONF_TOKSIZE - 1" using Cons.prems(4) by simp
  have "s_state (put_char ch s) = s_state s" by (simp add: put_char_def)
  then have "s_state s = CONF_PARSE_UNQUOTED \<Longrightarrow> put_char ch s = ?s" by (metis scl_parser.surjective scl_parser.update_convs(1) scl_parser.select_convs(1))
  then have st: "scl_step cc sc qc ch s = Inr ?s"
    using Cons.prems(1,2) by (elim insertE) (simp_all add: scl_step_def ordinary_def)
  have n: "scl_ok ?s" "in_val ?s = in_val s" "pos ?s = pos s + 1" "calls ?s = calls s" "s_state ?s = CONF_PARSE_UNQUOTED"
    "cur ?s = cur s @ [ch]" "if in_val s then key_buf ?s = key_buf s else val_buf ?s = val_buf s"
    using Cons.prems(3) p scl_ok_put [OF Cons.prems(3), of ch]
    by (simp_all add: scl_ok_def put_char_def write_t_def cur_def take_Suc_conv_app_nth)
  from Cons.IH [of ?s] n Cons.prems(1,4) obtain s' where
    "scl_scan cc sc qc (cs @ rest) ?s = scl_scan cc sc qc rest s'" "scl_ok s'"
    "s_state s' \<in> {CONF_PARSE_INITIAL, CONF_PARSE_UNQUOTED}" "in_val s' = in_val s" "pos s' = pos s + 1 + length cs"
    "cur s' = cur s @ ch # cs" "calls s' = calls s" "if in_val s then key_buf s' = key_buf ?s else val_buf s' = val_buf ?s"
    by auto
  with st n(7) show ?case by (intro exI [of _ s']) (simp split: if_splits)
qed auto

definition at_line :: "scl_parser \<Rightarrow> bool" where
  "at_line s \<longleftrightarrow> scl_ok s \<and> s_state s = CONF_PARSE_INITIAL \<and> \<not> in_val s \<and> pos s = 0 \<and> key_buf s ! 0 = NUL"

definition plain_pair :: "char \<Rightarrow> char \<Rightarrow> char \<Rightarrow> string \<times> string \<Rightarrow> bool" where
  "plain_pair cc sc qc p \<longleftrightarrow> fst p \<noteq> [] \<and> (\<forall>ch \<in> set (fst p @ snd p). ordinary cc sc qc ch) \<and>
     length (fst p) < CONF_TOKSIZE \<and> length (snd p) < CONF_TOKSIZE"

text \<open>The separator is none of the other special characters.\<close>

definition good_chars :: "char \<Rightarrow> char \<Rightarrow> char \<Rightarrow> bool" where
  "good_chars cc sc qc \<longleftrightarrow> sc \<notin> {cc, qc, newline} \<and> newline \<notin> {cc, qc}"

lemma ordinary_NUL: "\<forall>ch \<in> set k. ordinary cc sc qc ch \<Longrightarrow> NUL \<notin> set k"
  by (auto simp: ordinary_def)

lemma scl_sep:
  assumes "good_chars cc sc qc" and "s_state s \<in> {CONF_PARSE_INITIAL, CONF_PARSE_UNQUOTED}" and "\<not> in_val s"
  shows "scl_scan cc sc qc (sc # rest) s =
    scl_scan cc sc qc rest (s\<lparr>key_buf := (key_buf s)[pos s := NUL], in_val := True, pos := 0, s_state := CONF_PARSE_INITIAL\<rparr>)"
proof -
  have "scl_step cc sc qc sc s = Inl (s\<lparr>s_state := CONF_HANDLE_SEP\<rparr>)" using assms by (auto simp: scl_step_def good_chars_def)
  moreover have "scl_step cc sc qc sc (s\<lparr>s_state := CONF_HANDLE_SEP\<rparr>) =
      Inr (s\<lparr>key_buf := (key_buf s)[pos s := NUL], in_val := True, pos := 0, s_state := CONF_PARSE_INITIAL\<rparr>)"
    using assms(3) by (simp add: scl_step_def write_t_def)
  ultimately show ?thesis by simp
qed

lemma scl_newline:
  assumes "good_chars cc sc qc" and "s_state s \<in> {CONF_PARSE_INITIAL, CONF_PARSE_UNQUOTED}"
  shows "scl_scan cc sc qc (newline # rest) s = scl_scan cc sc qc rest (end_line (s\<lparr>s_state := CONF_HANDLE_NEWLINE\<rparr>))"
proof -
  have "scl_step cc sc qc newline s = Inl (s\<lparr>s_state := CONF_HANDLE_NEWLINE\<rparr>)" using assms by (auto simp: scl_step_def good_chars_def)
  moreover have "scl_step cc sc qc newline (s\<lparr>s_state := CONF_HANDLE_NEWLINE\<rparr>) = Inr (end_line (s\<lparr>s_state := CONF_HANDLE_NEWLINE\<rparr>))"
    by (simp add: scl_step_def)
  ultimately show ?thesis by simp
qed

text \<open>A line \<open>key=value\<close> is one call with the two strings, and the next line starts afresh.\<close>

lemma scl_line:
  assumes "good_chars cc sc qc" and "at_line s" and "plain_pair cc sc qc (k, v)"
  shows "\<exists>s'. scl_scan cc sc qc (k @ sc # v @ newline # rest) s = scl_scan cc sc qc rest s' \<and> at_line s' \<and> calls s' = calls s @ [(k, v)]"
proof -
  have kv: "k \<noteq> []" "\<forall>ch \<in> set k. ordinary cc sc qc ch" "\<forall>ch \<in> set v. ordinary cc sc qc ch" "length k < CONF_TOKSIZE" "length v < CONF_TOKSIZE"
    using assms(3) by (auto simp: plain_pair_def)
  from scl_plain [OF kv(2), of s "sc # v @ newline # rest"] assms(2) kv(4) obtain s1 where
    s1: "scl_scan cc sc qc (k @ sc # v @ newline # rest) s = scl_scan cc sc qc (sc # v @ newline # rest) s1" "scl_ok s1"
      "s_state s1 \<in> {CONF_PARSE_INITIAL, CONF_PARSE_UNQUOTED}" "\<not> in_val s1" "pos s1 = length k" "cur s1 = k" "calls s1 = calls s"
    by (auto simp: at_line_def cur_def)
  let ?s2 = "s1\<lparr>key_buf := (key_buf s1)[pos s1 := NUL], in_val := True, pos := 0, s_state := CONF_PARSE_INITIAL\<rparr>"
  have s2: "scl_ok ?s2" "cur ?s2 = []" using s1(2) by (simp_all add: scl_ok_def cur_def CONF_TOKSIZE_def)
  from scl_plain [OF kv(3), of ?s2 "newline # rest"] s2 kv(5) obtain s3 where
    s3: "scl_scan cc sc qc (v @ newline # rest) ?s2 = scl_scan cc sc qc (newline # rest) s3" "scl_ok s3"
      "s_state s3 \<in> {CONF_PARSE_INITIAL, CONF_PARSE_UNQUOTED}" "in_val s3" "pos s3 = length v" "cur s3 = v" "calls s3 = calls s"
      "key_buf s3 = (key_buf s1)[pos s1 := NUL]"
    using s1(7) by auto
  have len: "length (key_buf s1) = CONF_TOKSIZE" "length (val_buf s3) = CONF_TOKSIZE" using s1(2) s3(2) by (simp_all add: scl_ok_def)
  have tk: "take (length k) (key_buf s1) = k" "take (length v) (val_buf s3) = v" using s1(4,5,6) s3(4,5,6) by (simp_all add: cur_def)
  then have key: "c_str (key_buf s3) = k" and val: "c_str ((val_buf s3)[length v := NUL]) = v"
    using c_str_end [of "length k" "key_buf s1"] c_str_end [of "length v" "val_buf s3"] kv len ordinary_NUL s1(5) s3(8)
    by metis+
  have k0: "key_buf s3 ! 0 \<noteq> NUL" using key kv(1) by (cases "key_buf s3") (auto simp: c_str_def)
  let ?s4 = "end_line (s3\<lparr>s_state := CONF_HANDLE_NEWLINE\<rparr>)"
  have "at_line ?s4" "calls ?s4 = calls s @ [(k, v)]"
    using k0 s3(2,4,5,7) key val len(1) by (simp_all add: end_line_def write_t_def at_line_def scl_ok_def Let_def CONF_TOKSIZE_def)
  moreover have "scl_scan cc sc qc (k @ sc # v @ newline # rest) s = scl_scan cc sc qc rest ?s4"
    unfolding s1(1) scl_sep [OF assms(1) s1(3,4)] s3(1) scl_newline [OF assms(1) s3(3)] ..
  ultimately show ?thesis by blast
qed

definition pair_line :: "char \<Rightarrow> string \<times> string \<Rightarrow> string" where
  "pair_line sc p = fst p @ sc # snd p @ [newline]"

lemma scl_lines:
  "good_chars cc sc qc \<Longrightarrow> \<forall>p \<in> set ps. plain_pair cc sc qc p \<Longrightarrow> at_line s \<Longrightarrow>
     \<exists>s'. scl_scan cc sc qc (concat (map (pair_line sc) ps)) s = s' \<and> at_line s' \<and> calls s' = calls s @ ps"
proof (induction ps arbitrary: s)
  case (Cons p ps)
  obtain k v where p: "p = (k, v)" by (cases p)
  from scl_line [OF Cons.prems(1,3), of k v "concat (map (pair_line sc) ps)"] Cons.prems(2) p obtain s1 where
    s1: "scl_scan cc sc qc (pair_line sc p @ concat (map (pair_line sc) ps)) s = scl_scan cc sc qc (concat (map (pair_line sc) ps)) s1"
      "at_line s1" "calls s1 = calls s @ [p]"
    by (auto simp: pair_line_def simp del: scl_scan.simps)
  with Cons.IH [OF Cons.prems(1) _ s1(2)] Cons.prems(2) show ?case by (simp del: scl_scan.simps)
qed simp

lemma scl_start_line: "at_line scl_start" "calls scl_start = []"
  by (simp_all add: scl_start_def at_line_def scl_ok_def CONF_TOKSIZE_def)

lemma config_parser_lines:
  assumes "good_chars cc sc qc" and "\<forall>p \<in> set ps. plain_pair cc sc qc p" and "scl_pieces (concat (map (pair_line sc) ps)) reads"
  shows "config_parser cc sc qc True True reads = Some (0, ps)"
  using scl_lines [OF assms(1,2) scl_start_line(1)] scl_start_line(2)
  by (simp add: config_parser_def scl_load_pieces [OF assms(3)] scl_finish_def at_line_def)

section \<open>Properties\<close>

text \<open>
  C26: Whatever the file holds and however it is read in pieces, the parser ends with it and writes only inside its two
  buffers. For a file of plain lines it calls the callback once per line, in order, with the key and the value of the line.
\<close>

theorem config_parser_correct:
  assumes "scl_pieces bytes reads"
  shows "(\<forall>pre suf. bytes = pre @ suf \<longrightarrow> scl_ok (scl_scan cc sc qc pre scl_start)) \<and>
    (\<exists>cs. config_parser cc sc qc True True reads = Some (0, cs) \<and>
       (\<forall>ps. good_chars cc sc qc \<and> (\<forall>p \<in> set ps. plain_pair cc sc qc p) \<and> bytes = concat (map (pair_line sc) ps) \<longrightarrow> cs = ps))"
proof (intro conjI allI impI)
  have "scl_ok scl_start" using scl_start_line(1) by (simp add: at_line_def)
  then show "scl_ok (scl_scan cc sc qc pre scl_start)" for pre suf by (rule scl_scan_ok)
  show "\<exists>cs. config_parser cc sc qc True True reads = Some (0, cs) \<and>
       (\<forall>ps. good_chars cc sc qc \<and> (\<forall>p \<in> set ps. plain_pair cc sc qc p) \<and> bytes = concat (map (pair_line sc) ps) \<longrightarrow> cs = ps)"
    using config_parser_lines [of cc sc qc _ reads] assms
    by (intro exI [of _ "scl_finish (scl_scan cc sc qc bytes scl_start)"]) (auto simp: config_parser_def scl_load_pieces [OF assms])
qed

theorem config_parser_correct_witness:
  "config_parser CHR ''#'' CHR ''='' CHR 0x22 True True [(''k='', False), (''v'' @ [newline], True)] = Some (0, [(''k'', ''v'')])"
proof -
  have "scl_pieces (''k=v'' @ [newline]) [(''k='', False), (''v'' @ [newline], True)]" by (simp add: scl_pieces_def)
  moreover have "good_chars CHR ''#'' CHR ''='' CHR 0x22 \<and> (\<forall>p \<in> set [(''k'', ''v'')]. plain_pair CHR ''#'' CHR ''='' CHR 0x22 p) \<and>
      ''k=v'' @ [newline] = concat (map (pair_line CHR ''='') [(''k'', ''v'')])"
    by (simp add: good_chars_def plain_pair_def pair_line_def ordinary_def isspace_def NUL_def CONF_TOKSIZE_def)
  ultimately show ?thesis
    using config_parser_correct [of "''k=v'' @ [newline]" "[(''k='', False), (''v'' @ [newline], True)]" "CHR ''#''" "CHR ''=''" "CHR 0x22"]
    by blast
qed

text \<open>
  A value without a key is not handed on, but it stays in its buffer: the next line that has a key and no separator gets it.
\<close>

lemma scl_stale_value:
  "config_parser CHR ''#'' CHR ''='' CHR 0x22 True True [(''=7'' @ newline # ''k'' @ [newline], True)] = Some (0, [(''k'', ''7'')])"
  by code_simp

end
