(* ===== verification/Mc_Config.thy ===== *)
theory Mc_Config
  imports Simple_Config C_Strings
begin

text \<open>
  The daemon's configuration, \<open>sample/mc-daemon/mc_config.c\<close>: a table of names with a setter, the member it sets and
  a default, filled from a file by \<open>config_parser\<close>.
\<close>

section \<open>The table\<close>

record mc_config =
  delay_online :: int
  delay_reboot :: int
  delay_restart :: int
  guard_conf :: string
  guard_delay :: int
  guard_interval :: int
  loss_max :: int
  patrol_interval :: int
  probe_interval :: int
  watchdog_interval :: int
  watchdog_timeout :: int
  auto_reboot_timeout :: int

text \<open>An entry: its \<open>set\<close> applied to its \<open>addr\<close> is one function.\<close>

record conf_item =
  conf_name :: string
  conf_set :: "string \<Rightarrow> mc_config \<Rightarrow> mc_config"
  conf_def :: "string option"

definition CONF_ITEM_I :: "string \<Rightarrow> ((int \<Rightarrow> int) \<Rightarrow> mc_config \<Rightarrow> mc_config) \<Rightarrow> string \<Rightarrow> conf_item" where
  "CONF_ITEM_I name upd d = \<lparr>conf_name = name, conf_set = (\<lambda>v. upd (\<lambda>_. atoi v)), conf_def = Some d\<rparr>"

definition CONF_ITEM_S :: "string \<Rightarrow> ((string \<Rightarrow> string) \<Rightarrow> mc_config \<Rightarrow> mc_config) \<Rightarrow> string \<Rightarrow> conf_item" where
  "CONF_ITEM_S name upd d = \<lparr>conf_name = name, conf_set = (\<lambda>v. upd (\<lambda>_. v)), conf_def = Some d\<rparr>"

definition mc_conf_items :: "conf_item list" where
  "mc_conf_items =
    [CONF_ITEM_I ''auto_reboot_timeout'' auto_reboot_timeout_update ''604800'',
     CONF_ITEM_I ''delay_online'' delay_online_update ''3'',
     CONF_ITEM_I ''delay_reboot'' delay_reboot_update ''30'',
     CONF_ITEM_I ''delay_restart'' delay_restart_update ''2'',
     CONF_ITEM_S ''guard_conf'' guard_conf_update ''/var/log/patrol.list'',
     CONF_ITEM_I ''guard_delay'' guard_delay_update ''10'',
     CONF_ITEM_I ''guard_interval'' guard_interval_update ''5'',
     CONF_ITEM_I ''loss_max'' loss_max_update ''3'',
     CONF_ITEM_I ''patrol_interval'' patrol_interval_update ''2'',
     CONF_ITEM_I ''probe_interval'' probe_interval_update ''15'',
     CONF_ITEM_I ''watchdog_interval'' watchdog_interval_update ''12'',
     CONF_ITEM_I ''watchdog_timeout'' watchdog_timeout_update ''60'']"

definition conf_search :: "conf_item list \<Rightarrow> string \<Rightarrow> nat option" where
  "conf_search items k = bin_search (\<lambda>m. strcmp k (conf_name (items ! m))) 0 (int (length items) - 1)"

definition mc_config_fn :: "string \<times> string \<Rightarrow> conf_item list \<times> mc_config \<Rightarrow> conf_item list \<times> mc_config" where
  "mc_config_fn p S =
     (case S of (its, conf) \<Rightarrow>
        (case conf_search its (fst p) of
           None \<Rightarrow> (its, conf)
         | Some m \<Rightarrow> (its[m := (its ! m)\<lparr>conf_def := None\<rparr>], conf_set (its ! m) (snd p) conf)))"

definition mc_config_default :: "conf_item list \<times> mc_config \<Rightarrow> mc_config" where
  "mc_config_default S =
     (case S of (its, conf) \<Rightarrow>
        foldl (\<lambda>conf it. case conf_def it of None \<Rightarrow> conf | Some d \<Rightarrow> conf_set it d conf) conf its)"

text \<open>\<open>None\<close>: reading the file does not end.\<close>

definition mc_config_init :: "bool \<Rightarrow> (string \<times> bool) list \<Rightarrow> conf_item list \<times> mc_config \<Rightarrow> mc_config option" where
  "mc_config_init opened reads S =
     map_option (\<lambda>(ret, calls). mc_config_default (fold mc_config_fn calls S))
       (config_parser CHR ''#'' CHR ''='' CHR 0x22 True opened reads)"

section \<open>What the file sets\<close>

interpretation conf: key_table conf_name conf_search
  by unfold_locales (simp add: conf_search_def search_ascending)

lemma mc_conf_ascending: "ascending conf_name mc_conf_items"
  by (simp add: ascending_def mc_conf_items_def CONF_ITEM_I_def CONF_ITEM_S_def byte_def)

text \<open>Setting a member by its name.\<close>

definition assign :: "string \<times> string \<Rightarrow> mc_config \<Rightarrow> mc_config" where
  "assign p conf = (case find (\<lambda>it. conf_name it = fst p) mc_conf_items of None \<Rightarrow> conf | Some it \<Rightarrow> conf_set it (snd p) conf)"

lemma setters_commute:
  "\<forall>a \<in> set mc_conf_items. \<forall>b \<in> set mc_conf_items. conf_name a \<noteq> conf_name b \<longrightarrow>
     conf_set a u (conf_set b v c) = conf_set b v (conf_set a u c)"
  by (simp add: mc_conf_items_def CONF_ITEM_I_def CONF_ITEM_S_def)

lemma setters_overwrite: "\<forall>a \<in> set mc_conf_items. conf_set a u (conf_set a v c) = conf_set a u c"
  by (simp add: mc_conf_items_def CONF_ITEM_I_def CONF_ITEM_S_def)

lemma find_name: "find (\<lambda>it. conf_name it = k) its = Some it \<Longrightarrow> it \<in> set its \<and> conf_name it = k"
  by (auto simp: find_Some_iff)

lemma assign_commute: "k \<noteq> k' \<Longrightarrow> assign (k, u) (assign (k', v) c) = assign (k', v) (assign (k, u) c)"
  unfolding assign_def using setters_commute find_name by (auto split: option.splits) blast

lemma assign_overwrite: "assign (k, u) (assign (k, v) c) = assign (k, u) c"
  unfolding assign_def using setters_overwrite find_name by (auto split: option.splits) blast

text \<open>A table in which defaults may be gone.\<close>

definition conf_table :: "conf_item list \<Rightarrow> bool" where
  "conf_table its \<longleftrightarrow> map conf_name its = map conf_name mc_conf_items \<and>
     (\<forall>it \<in> set its. \<forall>v c. conf_set it v c = assign (conf_name it, v) c)"

lemma find_self: "distinct (map f xs) \<Longrightarrow> x \<in> set xs \<Longrightarrow> find (\<lambda>y. f y = f x) xs = Some x"
  by (induction xs) auto

lemma assign_item: "it \<in> set mc_conf_items \<Longrightarrow> assign (conf_name it, v) c = conf_set it v c"
  using find_self [OF ascending_distinct [OF mc_conf_ascending]] by (simp add: assign_def)

lemma mc_conf_table: "conf_table mc_conf_items"
  by (simp add: conf_table_def assign_item)

lemma conf_table_ascending: "conf_table its \<Longrightarrow> ascending conf_name its"
  using conf.ascending_keys mc_conf_ascending unfolding conf_table_def by blast

abbreviation defaults_from :: "conf_item list \<Rightarrow> mc_config \<Rightarrow> mc_config" where
  "defaults_from its conf \<equiv> mc_config_default (its, conf)"

definition no_default :: "string \<Rightarrow> conf_item \<Rightarrow> conf_item" where
  "no_default k it = (if conf_name it = k then it\<lparr>conf_def := None\<rparr> else it)"

lemma defaults_assign:
  "\<forall>it \<in> set its. \<forall>v c. conf_set it v c = assign (conf_name it, v) c \<Longrightarrow>
     defaults_from (map (no_default k) its) (assign (k, v) conf) = assign (k, v) (defaults_from its conf)"
proof (induction its arbitrary: conf)
  case (Cons it its)
  show ?case
  proof (cases "conf_name it = k")
    case True
    show ?thesis
    proof (cases "conf_def it")
      case (Some d)
      from Cons.IH [of "assign (k, d) conf"] Cons.prems True Some show ?thesis
        by (simp add: mc_config_default_def no_default_def assign_overwrite)
    qed (use Cons True in \<open>simp add: mc_config_default_def no_default_def\<close>)
  next
    case False
    show ?thesis
    proof (cases "conf_def it")
      case (Some d)
      from Cons.IH [of "assign (conf_name it, d) conf"] Cons.prems False Some show ?thesis
        by (simp add: mc_config_default_def no_default_def assign_commute [of k "conf_name it"])
    qed (use Cons False in \<open>simp add: mc_config_default_def no_default_def\<close>)
  qed
qed (simp add: mc_config_default_def)

lemma mc_config_fn_eq:
  assumes "conf_table its"
  shows "mc_config_fn (k, v) (its, conf) = (map (no_default k) its, assign (k, v) conf)" and "conf_table (map (no_default k) its)"
proof -
  note asc = conf_table_ascending [OF assms]
  have names: "conf_name ` set its = conf_name ` set mc_conf_items" using assms unfolding conf_table_def by (metis set_map)
  show "conf_table (map (no_default k) its)"
    using assms by (auto simp: conf_table_def no_default_def o_def if_distrib cong: if_cong)
  show "mc_config_fn (k, v) (its, conf) = (map (no_default k) its, assign (k, v) conf)"
  proof (cases "conf_search its k")
    case None
    then have "k \<notin> conf_name ` set its" using conf.search_None [OF asc] by blast
    then have "\<forall>it \<in> set its. conf_name it \<noteq> k" "\<forall>it \<in> set mc_conf_items. conf_name it \<noteq> k" using names by blast+
    then have "map (no_default k) its = its" "find (\<lambda>it. conf_name it = k) mc_conf_items = None"
      by (simp_all add: no_default_def find_None_iff map_idI)
    with None show ?thesis by (simp add: mc_config_fn_def assign_def)
  next
    case (Some m)
    then have m: "m < length its" "conf_name (its ! m) = k" using conf.search_iff [OF asc] by blast+
    have only: "j < length its \<Longrightarrow> conf_name (its ! j) = k \<longleftrightarrow> j = m" for j
      using conf.search_iff [OF asc, of k] Some by (metis option.inject)
    have "its[m := (its ! m)\<lparr>conf_def := None\<rparr>] = map (no_default k) its"
      by (rule nth_equalityI) (auto simp: nth_list_update no_default_def only m)
    moreover have "conf_set (its ! m) v conf = assign (k, v) conf" using assms m by (auto simp: conf_table_def)
    ultimately show ?thesis using Some by (simp add: mc_config_fn_def)
  qed
qed

lemma defaults_after:
  "conf_table its \<Longrightarrow> mc_config_default (fold mc_config_fn ps (its, conf)) = fold assign ps (defaults_from its conf)"
proof (induction ps arbitrary: its conf)
  case (Cons p ps)
  obtain k v where p: "p = (k, v)" by (cases p)
  have "\<forall>it \<in> set its. \<forall>v c. conf_set it v c = assign (conf_name it, v) c" using Cons.prems by (simp add: conf_table_def)
  with Cons.IH [OF mc_config_fn_eq(2) [OF Cons.prems, of k], of "assign (k, v) conf"] show ?case
    by (simp add: p mc_config_fn_eq(1) [OF Cons.prems] defaults_assign)
qed simp

lemma fold_defaults:
  "set its \<subseteq> set mc_conf_items \<Longrightarrow> fold assign (map (\<lambda>it. (conf_name it, the (conf_def it))) its) conf = fold (\<lambda>it. conf_set it (the (conf_def it))) its conf"
  by (induction its arbitrary: conf) (auto simp: assign_item)

lemma defaults_eq:
  "defaults_from mc_conf_items conf = fold assign (map (\<lambda>it. (conf_name it, the (conf_def it))) mc_conf_items) conf"
  unfolding fold_defaults [OF subset_refl] by (simp add: mc_conf_items_def mc_config_default_def CONF_ITEM_I_def CONF_ITEM_S_def)

text \<open>
  The daemon's configuration is the defaults overridden by the file: of a file of plain lines, read in whatever
  pieces, every pair is assigned in order to the member of its name, so the last one counts and names that are no members
  are passed over; a file that cannot be opened leaves the defaults.
\<close>

theorem mc_config_init_correct:
  assumes "\<forall>p \<in> set ps. plain_pair CHR ''#'' CHR ''='' CHR 0x22 p" and "scl_pieces (concat (map (pair_line CHR ''='') ps)) reads"
  shows "mc_config_init True reads (mc_conf_items, conf) =
      Some (fold assign (map (\<lambda>it. (conf_name it, the (conf_def it))) mc_conf_items @ ps) conf) \<and>
    mc_config_init False reads (mc_conf_items, conf) = Some (fold assign (map (\<lambda>it. (conf_name it, the (conf_def it))) mc_conf_items) conf)"
proof -
  have "good_chars CHR ''#'' CHR ''='' CHR 0x22" by (simp add: good_chars_def)
  from config_parser_lines [OF this assms] show ?thesis
    by (simp add: mc_config_init_def config_parser_def defaults_after [OF mc_conf_table] defaults_eq)
qed

theorem mc_config_init_correct_witness:
  "\<forall>c0. \<exists>conf. mc_config_init True [(''loss_max=7'', False), ([newline], True)] (mc_conf_items, c0) = Some conf \<and> loss_max conf = 7 \<and> delay_reboot conf = 30"
proof
  fix c0 :: mc_config
  have "\<forall>p \<in> set [(''loss_max'', ''7'')]. plain_pair CHR ''#'' CHR ''='' CHR 0x22 p"
    by (simp add: plain_pair_def ordinary_def isspace_def NUL_def CONF_TOKSIZE_def)
  moreover have "scl_pieces (concat (map (pair_line CHR ''='') [(''loss_max'', ''7'')])) [(''loss_max=7'', False), ([newline], True)]"
    by (simp add: scl_pieces_def pair_line_def)
  ultimately show "\<exists>conf. mc_config_init True [(''loss_max=7'', False), ([newline], True)] (mc_conf_items, c0) = Some conf \<and> loss_max conf = 7 \<and> delay_reboot conf = 30"
    using mc_config_init_correct [of "[(''loss_max'', ''7'')]" "[(''loss_max=7'', False), ([newline], True)]" c0]
      fold_defaults [OF subset_refl, of c0] assign_item [of "mc_conf_items ! 7" "''7''"]
    by (simp add: mc_conf_items_def CONF_ITEM_I_def CONF_ITEM_S_def atoi_def digits_value_def is_digit_def byte_def isspace_def)
qed

end
