(* ===== verification/Bit_Utils.thy ===== *)
theory Bit_Utils
  imports Prelude
begin

text \<open>
  The bit utilities of \<open>common/generic_bit.c\<close> and \<open>include/generic_bit.h\<close> on arrays of \<open>unsigned long\<close>, 64 bits each.
  An access outside the array is \<open>None\<close>.
\<close>

unbundle bit_operations_syntax

section \<open>Single bits\<close>

type_synonym longs = "64 word list"

definition BITS_PER_LONG :: nat where "BITS_PER_LONG = 64"
definition BITS_MSK_LONG :: "64 word" where "BITS_MSK_LONG = NOT 0"
definition BIT_MASK :: "nat \<Rightarrow> 64 word" where "BIT_MASK nr = push_bit (nr mod BITS_PER_LONG) 1"
definition BIT_WORD :: "nat \<Rightarrow> nat" where "BIT_WORD nr = nr div BITS_PER_LONG"
definition BITS_TO_LONGS :: "nat \<Rightarrow> nat" where "BITS_TO_LONGS nr = (nr + BITS_PER_LONG - 1) div BITS_PER_LONG"

definition at_word :: "nat \<Rightarrow> (64 word \<Rightarrow> 64 word) \<Rightarrow> longs \<Rightarrow> longs option" where
  "at_word nr f a = (if BIT_WORD nr < length a then Some (a[BIT_WORD nr := f (a ! BIT_WORD nr)]) else None)"

definition set_bit :: "nat \<Rightarrow> longs \<Rightarrow> longs option" where
  "set_bit nr a = at_word nr (\<lambda>w. w OR BIT_MASK nr) a"

definition clear_bit :: "nat \<Rightarrow> longs \<Rightarrow> longs option" where
  "clear_bit nr a = at_word nr (\<lambda>w. w AND NOT (BIT_MASK nr)) a"

definition change_bit :: "nat \<Rightarrow> longs \<Rightarrow> longs option" where
  "change_bit nr a = at_word nr (\<lambda>w. w XOR BIT_MASK nr) a"

definition test_bit :: "nat \<Rightarrow> longs \<Rightarrow> 64 word option" where
  "test_bit nr a = (if BIT_WORD nr < length a then Some (1 AND drop_bit (nr AND (BITS_PER_LONG - 1)) (a ! BIT_WORD nr)) else None)"

section \<open>Searching\<close>

text \<open>The loops that shift a word while a condition holds and count the shift.\<close>

partial_function (option) shift_while :: "(64 word \<Rightarrow> bool) \<Rightarrow> nat \<Rightarrow> 64 word \<Rightarrow> nat \<Rightarrow> (64 word \<times> nat) option" where
  "shift_while c k tmp offset =
     (if c tmp then shift_while c k (drop_bit k tmp) (offset + k) else Some (tmp, offset))"

text \<open>The first word that is not as given, with its index.\<close>

fun skip_words :: "64 word \<Rightarrow> longs \<Rightarrow> (nat \<times> 64 word) option" where
  "skip_words x [] = None"
| "skip_words x (w # ws) = (if w = x then map_option (\<lambda>(i, v). (Suc i, v)) (skip_words x ws) else Some (0, w))"

definition fhs :: "64 word \<Rightarrow> nat option" where
  "fhs n = map_option snd (shift_while (\<lambda>n. n \<noteq> 0) 1 n 0)"

definition first_bit_zero :: "longs \<Rightarrow> nat option" where
  "first_bit_zero a = do {
     (i, tmp) \<leftarrow> skip_words BITS_MSK_LONG a;
     (tmp, offset) \<leftarrow> shift_while (\<lambda>tmp. tmp AND 0xff = 0xff) 8 tmp (i * BITS_PER_LONG);
     (tmp, offset) \<leftarrow> shift_while (\<lambda>tmp. tmp AND 1 \<noteq> 0) 1 tmp offset;
     Some offset
   }"

definition first_bit_one :: "longs \<Rightarrow> nat option" where
  "first_bit_one a = do {
     (i, tmp) \<leftarrow> skip_words 0 a;
     (tmp, offset) \<leftarrow> shift_while (\<lambda>tmp. tmp AND 0xff = 0) 8 tmp (i * BITS_PER_LONG);
     (tmp, offset) \<leftarrow> shift_while (\<lambda>tmp. tmp AND 1 = 0) 1 tmp offset;
     Some offset
   }"

section \<open>Sets of bits\<close>

definition bits_of :: "longs \<Rightarrow> nat set" where
  "bits_of a = {n. n < 64 * length a \<and> bit (a ! (n div 64)) (n mod 64)}"

lemma BIT_WORD_less: "BIT_WORD nr < length a \<longleftrightarrow> nr < 64 * length a"
  by (simp add: BIT_WORD_def BITS_PER_LONG_def div_less_iff_less_mult mult.commute)

lemma bits_of_update:
  assumes "nr < 64 * length a" and "\<And>w i. i < 64 \<Longrightarrow> bit (f w) i = (if i = nr mod 64 then g (bit w i) else bit w i)"
  shows "\<exists>a'. at_word nr f a = Some a' \<and> length a' = length a \<and>
    bits_of a' = {n. n \<noteq> nr \<and> n \<in> bits_of a \<or> n = nr \<and> g (nr \<in> bits_of a)}"
proof -
  let ?a = "a[nr div 64 := f (a ! (nr div 64))]"
  have q: "nr div 64 < length a" using assms(1) by (simp add: div_less_iff_less_mult mult.commute)
  have "n \<in> bits_of ?a \<longleftrightarrow> (n \<noteq> nr \<and> n \<in> bits_of a \<or> n = nr \<and> g (nr \<in> bits_of a))" for n
  proof (cases "n div 64 = nr div 64")
    case True
    then have "n mod 64 = nr mod 64 \<longleftrightarrow> n = nr" by (metis div_mult_mod_eq)
    with True q assms show ?thesis by (auto simp: bits_of_def)
  next
    case False
    then show ?thesis by (auto simp: bits_of_def)
  qed
  then show ?thesis using q by (auto simp: at_word_def BIT_WORD_def BITS_PER_LONG_def)
qed

lemma bit_BIT_MASK: "i < 64 \<Longrightarrow> bit (BIT_MASK nr) i \<longleftrightarrow> i = nr mod 64"
  by (auto simp: BIT_MASK_def BITS_PER_LONG_def bit_simps)

lemma test_bit_index: "nr AND (BITS_PER_LONG - 1) = nr mod 64"
  using take_bit_eq_mask [of 6 nr] by (simp add: BITS_PER_LONG_def mask_eq_exp_minus_1 take_bit_eq_mod)

section \<open>Loops\<close>

lemma shift_while_ok:
  assumes "0 < k" and "\<And>i. i \<le> z \<Longrightarrow> c (drop_bit i w) \<Longrightarrow> i + k \<le> z" and "i \<le> z"
  shows "\<exists>j. i \<le> j \<and> j \<le> z \<and> \<not> c (drop_bit j w) \<and> shift_while c k (drop_bit i w) (b + i) = Some (drop_bit j w, b + j)"
  using assms(3)
proof (induction "z - i" arbitrary: i rule: less_induct)
  case less
  show ?case
  proof (cases "c (drop_bit i w)")
    case True
    then have le: "i + k \<le> z" using assms(2) less.prems by blast
    then have "z - (i + k) < z - i" using assms(1) by linarith
    from less(1) [OF this le] obtain j where
      "i + k \<le> j" "j \<le> z" "\<not> c (drop_bit j w)" "shift_while c k (drop_bit (i + k) w) (b + (i + k)) = Some (drop_bit j w, b + j)" by blast
    with True show ?thesis by (intro exI [of _ j]) (simp add: shift_while.simps [of c k "drop_bit i w"] add.assoc [symmetric] add.commute [of k])
  next
    case False
    with less.prems show ?thesis by (intro exI [of _ i]) (simp add: shift_while.simps)
  qed
qed

lemma and_ff: "(t :: 64 word) AND 0xff = 0xff \<longleftrightarrow> (\<forall>i < 8. bit t i)" "t AND 0xff = 0 \<longleftrightarrow> (\<forall>i < 8. \<not> bit t i)"
proof -
  have m: "(0xff :: 64 word) = mask 8" by (simp add: mask_eq_exp_minus_1)
  have b: "bit (t AND mask 8) i \<longleftrightarrow> i < 8 \<and> bit t i" "bit (mask 8 :: 64 word) i \<longleftrightarrow> i < 8" for i
    by (auto simp: bit_simps)
  have l: "(\<forall>i < 64. i < 8 \<longrightarrow> Q i) \<longleftrightarrow> (\<forall>i < 8. Q i)" for Q :: "nat \<Rightarrow> bool"
    using order_less_trans [of _ 8 "64 :: nat"] by force
  show "t AND 0xff = 0xff \<longleftrightarrow> (\<forall>i < 8. bit t i)" 
  proof -
    have "((n < 8 \<and> bit t n) = (n < 8)) \<longleftrightarrow> (n < 8 \<longrightarrow> bit t n)" for n by blast
    then show ?thesis using l [of "bit t"] unfolding m bit_eq_iff b by simp
  qed
  show "t AND 0xff = 0 \<longleftrightarrow> (\<forall>i < 8. \<not> bit t i)" using l [of "\<lambda>i. \<not> bit t i"] unfolding m bit_eq_iff b by simp
qed

lemma and_one: "(t :: 64 word) AND 1 = 0 \<longleftrightarrow> \<not> bit t 0"
  by (simp add: and_one_eq odd_iff_mod_2_eq_one even_iff_mod_2_eq_zero bit_0)

section \<open>Properties\<close>

definition first_such :: "(nat \<Rightarrow> bool) \<Rightarrow> nat \<Rightarrow> bool" where
  "first_such P n \<longleftrightarrow> P n \<and> (\<forall>m < n. \<not> P m)"

lemma first_exists: "P n \<Longrightarrow> \<exists>m. first_such P m"
  unfolding first_such_def using LeastI not_less_Least by metis

lemma word_first_zero:
  assumes "first_such (\<lambda>i. \<not> bit w i) z" and "z < 64"
  shows "(do { (tmp, offset) \<leftarrow> shift_while (\<lambda>tmp. tmp AND 0xff = 0xff) 8 w b;
      (tmp, offset) \<leftarrow> shift_while (\<lambda>tmp. tmp AND 1 \<noteq> 0) 1 tmp offset; Some offset }) = Some (b + z)"
proof -
  have z: "\<not> bit w z" "\<And>i. i < z \<Longrightarrow> bit w i" using assms(1) by (auto simp: first_such_def)
  have "i + 8 \<le> z" if "i \<le> z" "drop_bit i w AND 0xff = 0xff" for i
  proof (rule ccontr)
    assume "\<not> i + 8 \<le> z"
    then have "z - i < 8" by linarith
    with that(2) have "bit (drop_bit i w) (z - i)" unfolding and_ff by blast
    with that(1) z(1) show False by (simp add: bit_drop_bit_eq)
  qed
  from shift_while_ok [where c = "\<lambda>tmp. tmp AND 0xff = 0xff" and i = 0 and b = b, OF _ this] obtain j where j: "j \<le> z" "shift_while (\<lambda>tmp. tmp AND 0xff = 0xff) 8 w b = Some (drop_bit j w, b + j)"
    by auto
  have "i + 1 \<le> z" if "i \<le> z" "drop_bit i w AND 1 \<noteq> 0" for i
    using that z(1) by (cases "i = z") (auto simp: and_one bit_drop_bit_eq)
  from shift_while_ok [where c = "\<lambda>tmp. tmp AND 1 \<noteq> 0" and b = b, OF _ this j(1)] obtain l where
    l: "l \<le> z" "\<not> bit w l" "shift_while (\<lambda>tmp. tmp AND 1 \<noteq> 0) 1 (drop_bit j w) (b + j) = Some (drop_bit l w, b + l)"
    by (auto simp: and_one bit_drop_bit_eq)
  then have "l = z" using z(2) [of l] by (cases "l = z") auto
  with j l show ?thesis by simp
qed

lemma word_first_one:
  assumes "first_such (bit w) z"
  shows "(do { (tmp, offset) \<leftarrow> shift_while (\<lambda>tmp. tmp AND 0xff = 0) 8 w b;
      (tmp, offset) \<leftarrow> shift_while (\<lambda>tmp. tmp AND 1 = 0) 1 tmp offset; Some offset }) = Some (b + z)"
proof -
  have z: "bit w z" "\<And>i. i < z \<Longrightarrow> \<not> bit w i" using assms(1) by (auto simp: first_such_def)
  have "i + 8 \<le> z" if "i \<le> z" "drop_bit i w AND 0xff = 0" for i
  proof (rule ccontr)
    assume "\<not> i + 8 \<le> z"
    then have "z - i < 8" by linarith
    with that(2) have "\<not> bit (drop_bit i w) (z - i)" unfolding and_ff by blast
    with that(1) z(1) show False by (simp add: bit_drop_bit_eq)
  qed
  from shift_while_ok [where c = "\<lambda>tmp. tmp AND 0xff = 0" and i = 0 and b = b, OF _ this] obtain j where j: "j \<le> z" "shift_while (\<lambda>tmp. tmp AND 0xff = 0) 8 w b = Some (drop_bit j w, b + j)"
    by auto
  have "i + 1 \<le> z" if "i \<le> z" "drop_bit i w AND 1 = 0" for i
    using that z(1) by (cases "i = z") (auto simp: and_one bit_drop_bit_eq)
  from shift_while_ok [where c = "\<lambda>tmp. tmp AND 1 = 0" and b = b, OF _ this j(1)] obtain l where
    l: "l \<le> z" "bit w l" "shift_while (\<lambda>tmp. tmp AND 1 = 0) 1 (drop_bit j w) (b + j) = Some (drop_bit l w, b + l)"
    by (auto simp: and_one bit_drop_bit_eq)
  then have "l = z" using z(2) [of l] by (cases "l = z") auto
  with j l show ?thesis by simp
qed

lemma skip_words_ok:
  "skip_words x a = Some (i, w) \<longleftrightarrow> i < length a \<and> w = a ! i \<and> w \<noteq> x \<and> (\<forall>j < i. a ! j = x)"
proof (induction a arbitrary: i w)
  case (Cons v a)
  show ?case by (cases i) (auto simp: Cons.IH less_Suc_eq_0_disj)
qed simp

lemma skip_words_None: "skip_words x a = None \<Longrightarrow> w \<in> set a \<Longrightarrow> w = x"
  by (induction a) (auto split: if_splits)

lemma word_has_first:
  assumes "\<exists>i < 64. P i" shows "\<exists>z < 64. first_such P z"
proof -
  have "first_such P (LEAST i. P i)" using assms unfolding first_such_def by (metis LeastI not_less_Least)
  moreover have "(LEAST i. P i) < 64" using assms by (metis Least_le le_less_trans)
  ultimately show ?thesis by blast
qed

text \<open>Of an array, the first bit with a property is in the first word that is not all without it.\<close>

lemma first_of_words:
  assumes "i < length a" and "\<forall>j < i. \<forall>n < 64. \<not> P (bit (a ! j) n)" and "first_such (\<lambda>n. P (bit (a ! i) n)) z" and "z < 64"
  shows "first_such (\<lambda>n. n < 64 * length a \<longrightarrow> P (bit (a ! (n div 64)) (n mod 64))) (i * 64 + z)"
  unfolding first_such_def
proof (intro conjI allI impI)
  show "P (bit (a ! ((i * 64 + z) div 64)) ((i * 64 + z) mod 64))" using assms(3,4) by (simp add: first_such_def)
  fix n assume n: "n < i * 64 + z"
  have lt: "n < 64 * length a" using n assms(1,4) by linarith
  have "\<not> P (bit (a ! (n div 64)) (n mod 64))"
  proof (cases "n div 64 < i")
    case True
    with assms(2) show ?thesis by simp
  next
    case False
    then have "n div 64 = i" "n mod 64 < z" using n assms(4) div_mult_mod_eq [of n 64] by linarith+
    with assms(3) show ?thesis by (simp add: first_such_def)
  qed
  with lt show "\<not> (n < 64 * length a \<longrightarrow> P (bit (a ! (n div 64)) (n mod 64)))" by blast
qed

lemma first_unique: "first_such P m \<Longrightarrow> first_such P n \<Longrightarrow> m = n"
  unfolding first_such_def by (metis linorder_neqE_nat)

lemma first_bit_zero_iff: "first_bit_zero a = Some n \<longleftrightarrow> n < 64 * length a \<and> first_such (\<lambda>n. n \<notin> bits_of a) n"
proof (cases "skip_words BITS_MSK_LONG a")
  case None
  then have "w = BITS_MSK_LONG" if "w \<in> set a" for w using skip_words_None that by blast
  then have "n < 64 * length a \<Longrightarrow> n \<in> bits_of a" for n
    using nth_mem [of "n div 64" a] by (fastforce simp: bits_of_def BITS_MSK_LONG_def bit_simps)
  with None show ?thesis by (auto simp: first_bit_zero_def first_such_def)
next
  case (Some r)
  then obtain i w where r: "skip_words BITS_MSK_LONG a = Some (i, w)" by (cases r) auto
  then have w: "i < length a" "w = a ! i" "w \<noteq> BITS_MSK_LONG" "\<forall>j < i. a ! j = BITS_MSK_LONG" using skip_words_ok by blast+
  then have "\<exists>n < 64. \<not> bit (a ! i) n" by (auto simp: BITS_MSK_LONG_def bit_eq_iff)
  from word_has_first [OF this] obtain z where z: "z < 64" "first_such (\<lambda>n. \<not> bit (a ! i) n) z" by blast
  have "\<forall>j < i. \<forall>n < 64. \<not> \<not> bit (a ! j) n" using w(4) by (auto simp: BITS_MSK_LONG_def bit_simps)
  from first_of_words [OF w(1) this z(2,1)] have f: "first_such (\<lambda>n. n \<notin> bits_of a) (i * 64 + z)"
    by (simp add: bits_of_def)
  have lt: "i * 64 + z < 64 * length a" using w(1) z(1) by linarith
  have "first_bit_zero a = Some (i * 64 + z)"
    using r word_first_zero [OF z(2,1), of "i * 64"] w(2) by (simp add: first_bit_zero_def BITS_PER_LONG_def)
  then show ?thesis using f lt first_unique [OF f, of n] by auto
qed

lemma first_bit_one_iff: "first_bit_one a = Some n \<longleftrightarrow> first_such (\<lambda>n. n \<in> bits_of a) n"
proof (cases "skip_words 0 a")
  case None
  then have "w = 0" if "w \<in> set a" for w using skip_words_None that by blast
  then have "n \<notin> bits_of a" for n
    using nth_mem [of "n div 64" a] by (fastforce simp: bits_of_def bit_simps)
  with None show ?thesis by (auto simp: first_bit_one_def first_such_def)
next
  case (Some r)
  then obtain i w where r: "skip_words 0 a = Some (i, w)" by (cases r) auto
  then have w: "i < length a" "w = a ! i" "w \<noteq> 0" "\<forall>j < i. a ! j = 0" using skip_words_ok by blast+
  then have "\<exists>n < 64. bit (a ! i) n" by (auto simp: bit_eq_iff)
  from word_has_first [OF this] obtain z where z: "z < 64" "first_such (\<lambda>n. bit (a ! i) n) z" by blast
  have "\<forall>j < i. \<forall>n < 64. \<not> bit (a ! j) n" using w(4) by auto
  from first_of_words [OF w(1) this z(2,1)] have f: "first_such (\<lambda>n. n < 64 * length a \<longrightarrow> bit (a ! (n div 64)) (n mod 64)) (i * 64 + z)" .
  have lt: "i * 64 + z < 64 * length a" using w(1) z(1) by linarith
  have g: "first_such (\<lambda>n. n \<in> bits_of a) (i * 64 + z)" using f lt by (auto simp: first_such_def bits_of_def)
  have "first_bit_one a = Some (i * 64 + z)"
    using r word_first_one [OF z(2), of "i * 64"] w(2) by (simp add: first_bit_one_def BITS_PER_LONG_def)
  then show ?thesis using g first_unique [OF g, of n] by auto
qed

text \<open>\<open>fhs\<close> is the number of significant bits.\<close>

lemma fhs_correct: "\<exists>p. fhs n = Some p \<and> unat n < 2 ^ p \<and> (n \<noteq> 0 \<longrightarrow> 0 < p \<and> 2 ^ (p - 1) \<le> unat n)"
proof -
  have zero: "drop_bit i n = 0 \<longleftrightarrow> unat n < 2 ^ i" for i
  proof -
    have "unat (drop_bit i n) = unat n div 2 ^ i" unfolding unat_drop_bit_eq by (rule drop_bit_eq_div)
    then show ?thesis by (metis div_eq_0_iff power_not_zero unat_eq_zero zero_neq_numeral)
  qed
  have "unat n < 2 ^ 64" using unsigned_less [of n] by simp
  then have "drop_bit 64 n = 0" by (simp only: zero)
  then obtain z where z: "first_such (\<lambda>i. drop_bit i n = 0) z" using first_exists [of "\<lambda>i. drop_bit i n = 0"] by blast
  have "i + 1 \<le> z" if "i \<le> z" "drop_bit i n \<noteq> 0" for i using that z by (cases "i = z") (auto simp: first_such_def)
  then have "\<exists>j. 0 \<le> j \<and> j \<le> z \<and> \<not> drop_bit j n \<noteq> 0 \<and> shift_while (\<lambda>n. n \<noteq> 0) 1 (drop_bit 0 n) (0 + 0) = Some (drop_bit j n, 0 + j)"
    by (intro shift_while_ok) auto
  then obtain j where
    j: "j \<le> z" "drop_bit j n = 0" "shift_while (\<lambda>n. n \<noteq> 0) 1 n 0 = Some (drop_bit j n, j)" by auto
  then have "j = z" using z by (cases "j = z") (auto simp: first_such_def)
  with j have f: "fhs n = Some z" by (simp add: fhs_def)
  have "n \<noteq> 0 \<Longrightarrow> 0 < z" using z by (cases z) (auto simp: first_such_def)
  moreover have "0 < z \<Longrightarrow> 2 ^ (z - 1) \<le> unat n" using z zero [of "z - 1"] by (auto simp: first_such_def linorder_not_less)
  ultimately show ?thesis using f zero [of z] z by (auto simp: first_such_def)
qed

lemma bit_array_set:
  assumes "nr < 64 * length a"
  shows "\<exists>a'. set_bit nr a = Some a' \<and> length a' = length a \<and> bits_of a' = insert nr (bits_of a)"
proof -
  have "bit (w OR BIT_MASK nr) i = (if i = nr mod 64 then (\<lambda>_. True) (bit w i) else bit w i)" if "i < 64" for w i
    using that by (simp add: bit_or_iff bit_and_iff bit_xor_iff bit_not_iff bit_BIT_MASK)
  from bits_of_update [where g = "\<lambda>_. True", OF assms this] show ?thesis by (auto simp: set_bit_def)
qed

lemma bit_array_clear:
  assumes "nr < 64 * length a"
  shows "\<exists>a'. clear_bit nr a = Some a' \<and> length a' = length a \<and> bits_of a' = bits_of a - {nr}"
proof -
  have "bit (w AND NOT (BIT_MASK nr)) i = (if i = nr mod 64 then (\<lambda>_. False) (bit w i) else bit w i)" if "i < 64" for w i
    using that by (simp add: bit_or_iff bit_and_iff bit_xor_iff bit_not_iff bit_BIT_MASK)
  from bits_of_update [where g = "\<lambda>_. False", OF assms this] show ?thesis by (auto simp: clear_bit_def)
qed

lemma bit_array_change:
  assumes "nr < 64 * length a"
  shows "\<exists>a'. change_bit nr a = Some a' \<and> length a' = length a \<and> bits_of a' = (if nr \<in> bits_of a then bits_of a - {nr} else insert nr (bits_of a))"
proof -
  have "bit (w XOR BIT_MASK nr) i = (if i = nr mod 64 then (\<lambda>b. \<not> b) (bit w i) else bit w i)" if "i < 64" for w i
    using that by (simp add: bit_or_iff bit_and_iff bit_xor_iff bit_not_iff bit_BIT_MASK)
  from bits_of_update [where g = "\<lambda>b. \<not> b", OF assms this] show ?thesis by (auto simp: change_bit_def)
qed

text \<open>
  An array of longs is a set of bit numbers: setting, clearing, changing and testing a bit inside the array are
  insertion, removal, toggling and membership. \<open>first_bit_zero\<close> and \<open>first_bit_one\<close> return the least number that is
  not, or is, in the set; they run past the array exactly when there is none.
\<close>

theorem bit_array_correct:
  assumes "nr < 64 * length a"
  shows "(\<exists>a'. set_bit nr a = Some a' \<and> length a' = length a \<and> bits_of a' = insert nr (bits_of a)) \<and>
    (\<exists>a'. clear_bit nr a = Some a' \<and> length a' = length a \<and> bits_of a' = bits_of a - {nr}) \<and>
    (\<exists>a'. change_bit nr a = Some a' \<and> length a' = length a \<and> bits_of a' = (if nr \<in> bits_of a then bits_of a - {nr} else insert nr (bits_of a))) \<and>
    test_bit nr a = Some (if nr \<in> bits_of a then 1 else 0) \<and>
    (first_bit_zero a = Some nr \<longleftrightarrow> nr \<notin> bits_of a \<and> {..<nr} \<subseteq> bits_of a) \<and>
    (first_bit_one a = Some nr \<longleftrightarrow> nr \<in> bits_of a \<and> {..<nr} \<inter> bits_of a = {}) \<and>
    (first_bit_zero a = None \<longleftrightarrow> bits_of a = {..<64 * length a}) \<and> (first_bit_one a = None \<longleftrightarrow> bits_of a = {})"
proof (intro conjI)
  show "\<exists>a'. set_bit nr a = Some a' \<and> length a' = length a \<and> bits_of a' = insert nr (bits_of a)"
    by (rule bit_array_set [OF assms])
  show "\<exists>a'. clear_bit nr a = Some a' \<and> length a' = length a \<and> bits_of a' = bits_of a - {nr}"
    by (rule bit_array_clear [OF assms])
  show "\<exists>a'. change_bit nr a = Some a' \<and> length a' = length a \<and> bits_of a' = (if nr \<in> bits_of a then bits_of a - {nr} else insert nr (bits_of a))"
    by (rule bit_array_change [OF assms])
  have "1 AND drop_bit (nr mod 64) w = (if bit w (nr mod 64) then 1 else 0)" for w :: "64 word"
    by (simp add: and.commute [of 1] and_one_eq bit_iff_odd_drop_bit mod_2_eq_odd)
  then show "test_bit nr a = Some (if nr \<in> bits_of a then 1 else 0)"
    using assms BIT_WORD_less [of nr a] unfolding test_bit_def test_bit_index by (simp add: bits_of_def BIT_WORD_def BITS_PER_LONG_def)
  show "first_bit_zero a = Some nr \<longleftrightarrow> nr \<notin> bits_of a \<and> {..<nr} \<subseteq> bits_of a"
    unfolding first_bit_zero_iff first_such_def using assms by auto
  show "first_bit_one a = Some nr \<longleftrightarrow> nr \<in> bits_of a \<and> {..<nr} \<inter> bits_of a = {}"
    unfolding first_bit_one_iff first_such_def by auto
  have sub: "bits_of a \<subseteq> {..<64 * length a}" by (auto simp: bits_of_def)
  have ex: "\<exists>n. P n \<Longrightarrow> \<exists>n. first_such P n" for P using first_exists by blast
  show "first_bit_one a = None \<longleftrightarrow> bits_of a = {}"
    using first_bit_one_iff [of a] ex [of "\<lambda>n. n \<in> bits_of a"] first_such_def [of "\<lambda>n. n \<in> bits_of a"]
    by (metis equals0I empty_iff option.exhaust option.distinct(1))
  show "first_bit_zero a = None \<longleftrightarrow> bits_of a = {..<64 * length a}"
  proof
    assume none: "first_bit_zero a = None"
    have "n \<in> bits_of a" if "n < 64 * length a" for n
    proof (rule ccontr)
      assume "n \<notin> bits_of a"
      with ex [of "\<lambda>n. n \<notin> bits_of a"] obtain m where m: "first_such (\<lambda>n. n \<notin> bits_of a) m" by blast
      then have "m \<le> n" using \<open>n \<notin> bits_of a\<close> by (auto simp: first_such_def linorder_not_less [symmetric])
      with m that none first_bit_zero_iff [of a m] show False by simp
    qed
    with sub show "bits_of a = {..<64 * length a}" by blast
  next
    assume "bits_of a = {..<64 * length a}"
    then show "first_bit_zero a = None" using first_bit_zero_iff [of a] by (cases "first_bit_zero a") (auto simp: first_such_def)
  qed
qed

theorem bit_array_correct_witness: "first_bit_zero [5] = Some 1 \<and> test_bit 1 [5] = Some 0"
proof -
  have "1 \<notin> bits_of [5]" "{..<1} \<subseteq> bits_of [5]" by (auto simp: bits_of_def bit_1_iff bit_Suc)
  then show ?thesis using bit_array_correct [of 1 "[5]"] by simp
qed

end
