(* ===== verification/Mc_Base.thy ===== *)
theory Mc_Base
  imports Mc_Config Bit_Utils Intrusive_List
begin

text \<open>
  The state of the supervising daemon, \<open>sample/mc-daemon\<close>: registered clients with their tasks, statically guarded
  processes, subscribers of the message server and the bitmaps of its barriers and votes (\<open>mc_base.h\<close>,
  \<open>mc_define.h\<close>). Structures that are allocated and freed live in partial maps, so that the use of a freed one is \<open>None\<close>; lists
  are intrusive, an entry is known by the address of its structure. What the daemon asks of the message server, the
  timers and the kernel is recorded in order in \<open>effects\<close>.
\<close>

section \<open>Constants\<close>

definition MC_BITMAP_SIZE :: nat where "MC_BITMAP_SIZE = 2"
definition MC_CLIENT_MAX :: nat where "MC_CLIENT_MAX = MC_BITMAP_SIZE * BITS_PER_LONG"

definition MC_GUARD_MASK :: "64 word" where "MC_GUARD_MASK = 1"
definition MC_SYNC_MASK :: "64 word" where "MC_SYNC_MASK = 2"
definition MC_SYSTEM_MASK :: "64 word" where "MC_SYSTEM_MASK = 4"
definition MC_EXCEPTION_MASK :: "64 word" where "MC_EXCEPTION_MASK = 8"

datatype mc_ind =
    MC_IND_PROBE | MC_IND_EXIT | MC_IND_SYNC_READY | MC_IND_SYNC_DEAD | MC_IND_SYNC_RESTART | MC_IND_SYS_REBOOT
  | MC_IND_SYS_RSTMODEM | MC_IND_SYS_SLEEP | MC_IND_SYS_WAKEUP | MC_IND_SYS_NETWORK | MC_IND_SYS_VOTE_SLEEP
  | MC_IND_SYS_VOTE_REBOOT | MC_IND_SYS_SHUTDOWN

abbreviation BIT :: "nat \<Rightarrow> 32 word" where "BIT nr \<equiv> push_bit nr 1"

text \<open>States and flags of a client (\<open>mc_core.c\<close>).\<close>

definition MC_CLIENT_RUNNING :: "32 word" where "MC_CLIENT_RUNNING = 1"
definition MC_CLIENT_DEAD :: "32 word" where "MC_CLIENT_DEAD = 2"
definition MC_CLIENT_PRESTART :: "32 word" where "MC_CLIENT_PRESTART = 4"
definition MC_CLIENT_STARTING :: "32 word" where "MC_CLIENT_STARTING = 8"
definition MC_CLIENT_BLOCKED :: "32 word" where "MC_CLIENT_BLOCKED = 16"
definition MC_CLIENT_DETACHED :: "32 word" where "MC_CLIENT_DETACHED = 32"

definition MC_CLIENT_F_EXIT :: nat where "MC_CLIENT_F_EXIT = 0"
definition MC_CLIENT_F_KILL :: nat where "MC_CLIENT_F_KILL = 1"
definition MC_CLIENT_F_UNREG :: nat where "MC_CLIENT_F_UNREG = 2"

definition MC_STRATEGY_RESTART :: nat where "MC_STRATEGY_RESTART = 16"
definition MC_STRATEGY_REBOOT :: nat where "MC_STRATEGY_REBOOT = 18"

definition MC_F_REBOOT :: nat where "MC_F_REBOOT = 1"
definition MC_F_SHUTDOWN :: nat where "MC_F_SHUTDOWN = 2"
definition MC_F_GUARD_RUN :: nat where "MC_F_GUARD_RUN = 3"

definition MC_AF_PWROFF :: nat where "MC_AF_PWROFF = 0"
definition MC_AF_RFORCE :: nat where "MC_AF_RFORCE = 1"

definition MC_GUARD_STATE_NEW :: nat where "MC_GUARD_STATE_NEW = 0"
definition MC_GUARD_STATE_RUN :: nat where "MC_GUARD_STATE_RUN = 1"
definition MC_GUARD_STATE_DETACH :: nat where "MC_GUARD_STATE_DETACH = 2"

definition MC_IPC_COOKIE_REGONLY :: nat where "MC_IPC_COOKIE_REGONLY = 0"
definition MC_IPC_COOKIE_CLIENT :: nat where "MC_IPC_COOKIE_CLIENT = 1"

section \<open>Structures\<close>

record mc_task =
  tid :: int
  t_interval :: int
  t_strategy :: nat
  t_expire :: int
  t_client :: addr

record mc_guard =
  g_id :: int
  g_state :: nat
  g_pid :: int
  g_name :: string
  g_cmdline :: string
  g_pidfile :: "string option"

record mc_client =
  c_state :: "32 word"
  c_flags :: "32 word"
  probe_expire :: int
  birth_time :: int
  c_pid :: int
  latch_time :: int
  c_name :: string
  c_cmdline :: string
  c_guard :: addr
  c_tasks :: "addr list"
  c_subscriber :: addr

text \<open>\<open>c_tasks\<close> is the array \<open>tasks\<close>, its length is \<open>count\<close>. \<open>s_mask\<close> is the mask of the handle \<open>sevr\<close>.\<close>

record mc_subscriber =
  cookie_type :: nat
  index :: nat
  s_sevr :: addr
  s_mask :: "64 word"
  s_client :: addr

text \<open>
  Of the flags of a barrier or vote only \<open>AF_WAIT\<close> is used. \<open>signalled\<close> is a history variable: the condition has been
  broadcast since the last wait began.
\<close>

record mc_synchor =
  syn_wait :: bool
  ack_bitmap :: longs
  syn_signalled :: bool

record mc_referee =
  ref_wait :: bool
  vote_bitmap :: longs
  vote_approved :: longs
  ref_signalled :: bool

datatype syn_id = MC_SYN_SLEEP | MC_SYN_RESUME | MC_SYN_REBOOT

datatype apply_id = MC_APPLY_SLEEP | MC_APPLY_REBOOT

text \<open>Work handed to the threads of the message server.\<close>

datatype mc_async = Sync_waiting "syn_id option" | Apply_waiting "apply_id option" | Reboot_waiting

datatype effect =
    Publish "64 word" mc_ind string
  | Notify addr "64 word" mc_ind
  | Timing_register addr bool int
  | Timing_unregister addr
  | Kill int int
  | Process_restart string string
  | Process_latch string
  | Event_reboot
  | Event_shutdown
  | Reboot_thread
  | Exec_wait string
  | Sys_reboot bool
  | Async_execute mc_async
  | Unlock_not_held

record mc_struct =
  mc_flags :: "32 word"
  mc_af :: "32 word"
  subscribers :: nat
  probe_time :: int
  index_stock :: longs
  full_bitmap :: longs
  synchors :: "syn_id \<Rightarrow> mc_synchor"
  referees :: "apply_id \<Rightarrow> mc_referee"
  einfo_count :: "int list"
  einfo_exception :: longs
  ready_bitmap :: longs
  ready_name :: string
  mc_conf :: mc_config
  mc_links :: links
  clients :: "addr \<rightharpoonup> mc_client"
  mc_tasks :: "addr \<rightharpoonup> mc_task"
  guards :: "addr \<rightharpoonup> mc_guard"
  guard_tab :: "addr list"
  subs :: "addr \<rightharpoonup> mc_subscriber"
  effects :: "effect list"

text \<open>The heads of the lists. \<open>guard_tab\<close> is the static table of guarded processes, in order of their names.\<close>

definition client_deadq :: addr where "client_deadq = 1"
definition client_lossq :: addr where "client_lossq = 2"
definition client_runningq :: addr where "client_runningq = 3"
definition client_detachdq :: addr where "client_detachdq = 4"
definition task_head :: addr where "task_head = 5"
definition guard_head :: addr where "guard_head = 6"

lemmas head_defs = client_deadq_def client_lossq_def client_runningq_def client_detachdq_def task_head_def guard_head_def

section \<open>Access\<close>

definition upd_client :: "addr \<Rightarrow> (mc_client \<Rightarrow> mc_client) \<Rightarrow> mc_struct \<Rightarrow> mc_struct option" where
  "upd_client p f S = do { c \<leftarrow> clients S p; Some (S\<lparr>clients := (clients S)(p \<mapsto> f c)\<rparr>) }"

definition upd_task :: "addr \<Rightarrow> (mc_task \<Rightarrow> mc_task) \<Rightarrow> mc_struct \<Rightarrow> mc_struct option" where
  "upd_task p f S = do { t \<leftarrow> mc_tasks S p; Some (S\<lparr>mc_tasks := (mc_tasks S)(p \<mapsto> f t)\<rparr>) }"

definition upd_guard :: "addr \<Rightarrow> (mc_guard \<Rightarrow> mc_guard) \<Rightarrow> mc_struct \<Rightarrow> mc_struct option" where
  "upd_guard p f S = do { g \<leftarrow> guards S p; Some (S\<lparr>guards := (guards S)(p \<mapsto> f g)\<rparr>) }"

definition on_links :: "(links \<Rightarrow> links option) \<Rightarrow> mc_struct \<Rightarrow> mc_struct option" where
  "on_links f S = do { L \<leftarrow> f (mc_links S); Some (S\<lparr>mc_links := L\<rparr>) }"

definition emit :: "effect \<Rightarrow> mc_struct \<Rightarrow> mc_struct" where
  "emit e S = S\<lparr>effects := effects S @ [e]\<rparr>"

definition list_move :: "addr \<Rightarrow> addr \<Rightarrow> links \<Rightarrow> links option" where
  "list_move node head L = do { L \<leftarrow> list_del node L; list_add_tail node head L }"

text \<open>A bit number that is an \<open>int\<close> is converted to \<open>unsigned long\<close> by the macros.\<close>

definition bit_nr :: "int \<Rightarrow> nat" where "bit_nr i = nat (i mod 2 ^ 64)"

definition has :: "32 word \<Rightarrow> 32 word \<Rightarrow> bool" where "has w m \<longleftrightarrow> w AND m \<noteq> 0"

definition shutting_down :: "mc_struct \<Rightarrow> bool" where
  "shutting_down S \<longleftrightarrow> has (mc_flags S) (BIT MC_F_REBOOT OR BIT MC_F_SHUTDOWN)"

end
