(* ===== verification/Mc_Core.thy ===== *)
theory Mc_Core
  imports Mc_Base
begin

text \<open>
  Clients and guards of the daemon, \<open>mc_core.c\<close> and the guard table of \<open>mc_guard.c\<close>: registration and its undoing,
  heartbeats and probes in lists ordered by expiry, the periodic inspection, detaching and attaching. Answers of the kernel
  and of the message server are in a record; \<open>now i\<close> is the clock at the \<open>i\<close>-th reading of a call.
\<close>

section \<open>The outside\<close>

record kernel =
  proc_name :: "int \<Rightarrow> string option"
  alive :: "int \<Rightarrow> bool"
  kill_ok :: "int \<Rightarrow> bool"
  notify_ok :: "addr \<Rightarrow> bool"
  restart_pid :: "string \<Rightarrow> int"
  find_pid :: "string \<Rightarrow> int"
  pidfile_pid :: "string \<Rightarrow> int"
  latch_pid :: "string \<Rightarrow> int"

definition mc_process_validate :: "kernel \<Rightarrow> string \<Rightarrow> int \<Rightarrow> bool" where
  "mc_process_validate K name pid = (case proc_name K pid of None \<Rightarrow> False | Some n \<Rightarrow> strcmp n name = 0)"

section \<open>Indices\<close>

definition mc_index_alloc :: "mc_struct \<Rightarrow> (nat \<times> mc_struct) option" where
  "mc_index_alloc S = do {
     i \<leftarrow> first_bit_zero (index_stock S);
     a \<leftarrow> set_bit i (index_stock S);
     Some (i, S\<lparr>index_stock := a\<rparr>)
   }"

definition mc_index_free :: "nat \<Rightarrow> mc_struct \<Rightarrow> mc_struct option" where
  "mc_index_free i S = do { a \<leftarrow> clear_bit i (index_stock S); Some (S\<lparr>index_stock := a\<rparr>) }"

section \<open>Processes\<close>

fun kill_guards :: "kernel \<Rightarrow> int \<Rightarrow> addr list \<Rightarrow> mc_struct \<Rightarrow> mc_struct option" where
  "kill_guards K sig [] S = Some S"
| "kill_guards K sig (g # gs) S = do {
     x \<leftarrow> guards S g;
     kill_guards K sig gs (if mc_process_validate K (g_name x) (g_pid x) then emit (Kill (g_pid x) sig) S else S)
   }"

definition mc_kill_guard :: "kernel \<Rightarrow> int \<Rightarrow> mc_struct \<Rightarrow> mc_struct option" where
  "mc_kill_guard K sig S = do { gs \<leftarrow> list_for_each guard_head (mc_links S); kill_guards K sig gs S }"

definition mc_kill_client :: "kernel \<Rightarrow> addr \<Rightarrow> int \<Rightarrow> mc_struct \<Rightarrow> (int \<times> mc_struct) option" where
  "mc_kill_client K p sig S = do {
     c \<leftarrow> clients S p;
     let name = (case proc_name K (c_pid c) of None \<Rightarrow> [] | Some n \<Rightarrow> n);
     if alive K (c_pid c) \<and> strcmp name (c_name c) = 0 \<and> \<not> kill_ok K (c_pid c) then Some (- 1, emit (Kill (c_pid c) sig) S)
     else do {
       let S = (if alive K (c_pid c) \<and> strcmp name (c_name c) = 0 then emit (Kill (c_pid c) sig) S else S);
       S \<leftarrow> upd_client p (\<lambda>c. c\<lparr>c_flags := c_flags c OR BIT MC_CLIENT_F_KILL\<rparr>) S;
       Some (0, S)
     }
   }"

definition mc_exit_client :: "kernel \<Rightarrow> addr \<Rightarrow> mc_struct \<Rightarrow> mc_struct option" where
  "mc_exit_client K p S = do {
     c \<leftarrow> clients S p;
     if has (c_state c) MC_CLIENT_RUNNING then do {
       c_assert (c_subscriber c \<noteq> NULL);
       s \<leftarrow> subs S (c_subscriber c);
       let S = emit (Notify (s_sevr s) MC_GUARD_MASK MC_IND_EXIT) S;
       if notify_ok K (s_sevr s) then upd_client p (\<lambda>c. c\<lparr>c_flags := c_flags c OR BIT MC_CLIENT_F_EXIT\<rparr>) S else Some S
     }
     else Some S
   }"

definition client_restart_review :: "kernel \<Rightarrow> addr \<Rightarrow> mc_struct \<Rightarrow> mc_struct option" where
  "client_restart_review K p S = do {
     c \<leftarrow> clients S p;
     Some (if c_state c = MC_CLIENT_RUNNING then emit (Timing_unregister p) S
           else if c_state c = MC_CLIENT_STARTING \<and> find_pid K (c_name c) = 0 then emit (Process_latch (c_cmdline c)) S
           else S)
   }"

definition set_client_state :: "addr \<Rightarrow> 32 word \<Rightarrow> mc_struct \<Rightarrow> mc_struct option" where
  "set_client_state p st S = upd_client p (\<lambda>c. c\<lparr>c_state := st\<rparr>) S"

definition client_restart :: "kernel \<Rightarrow> addr \<Rightarrow> mc_struct \<Rightarrow> (int \<times> mc_struct) option" where
  "client_restart K p S = do {
     c \<leftarrow> clients S p;
     let S = emit (Process_restart (c_name c) (c_cmdline c)) S;
     if restart_pid K (c_cmdline c) < 0 then Some (- 1, S)
     else do {
       S \<leftarrow> set_client_state p MC_CLIENT_STARTING S;
       let S = emit (Publish MC_SYNC_MASK MC_IND_SYNC_RESTART (c_name c)) S;
       Some (0, emit (Timing_register p True (latch_time c)) S)
     }
   }"

definition mcd_client_restart :: "kernel \<Rightarrow> int \<Rightarrow> addr \<Rightarrow> int \<Rightarrow> mc_struct \<Rightarrow> mc_struct option" where
  "mcd_client_restart K now p delay S = do {
     c \<leftarrow> clients S p;
     if now < birth_time c + latch_time c then
       set_client_state p MC_CLIENT_PRESTART (emit (Timing_register p False delay) S)
     else map_option snd (client_restart K p S)
   }"

section \<open>Lists by expiry\<close>

text \<open>
  The search for the place of an entry: the first one that expires no later, or the head. \<open>key\<close> reads the expiry of an entry.
\<close>

partial_function (option) insert_pos :: "(addr \<Rightarrow> int option) \<Rightarrow> int \<Rightarrow> addr \<Rightarrow> addr \<Rightarrow> links \<Rightarrow> addr option" where
  "insert_pos key e tmp head L =
     (if tmp = head then Some head
      else do {
        k \<leftarrow> key tmp;
        if e \<ge> k then Some tmp
        else do { c \<leftarrow> load L tmp; insert_pos key e (list_next c) head L }
      })"

definition insert_by :: "(addr \<Rightarrow> int option) \<Rightarrow> int \<Rightarrow> addr \<Rightarrow> addr \<Rightarrow> links \<Rightarrow> links option" where
  "insert_by key e n head L = do {
     c \<leftarrow> load L head;
     pos \<leftarrow> insert_pos key e (list_next c) head L;
     list_add_tail n pos L
   }"

definition task_key :: "mc_struct \<Rightarrow> addr \<Rightarrow> int option" where
  "task_key S p = map_option t_expire (mc_tasks S p)"

definition client_key :: "mc_struct \<Rightarrow> addr \<Rightarrow> int option" where
  "client_key S p = map_option probe_expire (clients S p)"

definition mc_task_active :: "int \<Rightarrow> addr \<Rightarrow> mc_struct \<Rightarrow> mc_struct option" where
  "mc_task_active now t S = do {
     x \<leftarrow> mc_tasks S t;
     S \<leftarrow> on_links (list_del t) S;
     let e = now + loss_max (mc_conf S) * t_interval x;
     S \<leftarrow> upd_task t (\<lambda>x. x\<lparr>t_expire := e\<rparr>) S;
     on_links (insert_by (task_key S) e t task_head) S
   }"

definition mcd_client_active :: "addr \<Rightarrow> int \<Rightarrow> mc_struct \<Rightarrow> mc_struct option" where
  "mcd_client_active p pt S = do {
     let e = pt + loss_max (mc_conf S) * probe_interval (mc_conf S);
     S \<leftarrow> upd_client p (\<lambda>c. c\<lparr>probe_expire := e\<rparr>) S;
     S \<leftarrow> on_links (list_del p) S;
     on_links (insert_by (client_key S) e p client_runningq) S
   }"

section \<open>Construction and destruction\<close>

record mc_tskinfo =
  ti_tid :: int
  ti_strategy :: nat
  ti_interval :: int

record mc_reginfo =
  r_pid :: int
  r_latch :: int
  r_name :: string
  r_cmdline :: string
  r_tasks :: "mc_tskinfo list"

definition mc_guard_search :: "mc_struct \<Rightarrow> string \<Rightarrow> addr" where
  "mc_guard_search S name =
     (case bin_search (\<lambda>m. strcmp name (case guards S (guard_tab S ! m) of None \<Rightarrow> [] | Some g \<Rightarrow> g_name g)) 0 (int (length (guard_tab S)) - 1) of
        None \<Rightarrow> NULL
      | Some m \<Rightarrow> guard_tab S ! m)"

definition matches :: "mc_reginfo \<Rightarrow> mc_client \<Rightarrow> bool" where
  "matches r c \<longleftrightarrow> strcmp (r_name r) (c_name c) = 0 \<and> strcmp (r_cmdline r) (c_cmdline c) = 0 \<and> length (r_tasks r) = length (c_tasks c)"

fun find_dead :: "mc_reginfo \<Rightarrow> addr list \<Rightarrow> mc_struct \<Rightarrow> addr option option" where
  "find_dead r [] S = Some None"
| "find_dead r (p # ps) S = do { c \<leftarrow> clients S p; if matches r c then Some (Some p) else find_dead r ps S }"

text \<open>The loop over the tasks of a client.\<close>

fun register_tasks :: "(nat \<Rightarrow> int) \<Rightarrow> nat \<Rightarrow> addr \<Rightarrow> (addr \<times> mc_tskinfo) list \<Rightarrow> mc_struct \<Rightarrow> mc_struct option" where
  "register_tasks now i p [] S = Some S"
| "register_tasks now i p ((t, ti) # ts) S = do {
     S \<leftarrow> upd_task t (\<lambda>x. x\<lparr>tid := ti_tid ti, t_strategy := ti_strategy ti, t_interval := ti_interval ti, t_client := p\<rparr>) S;
     S \<leftarrow> on_links (INIT_LIST_HEAD t) S;
     S \<leftarrow> mc_task_active (now i) t S;
     register_tasks now (Suc i) p ts S
   }"

text \<open>From the label \<open>out\<close>.\<close>

definition construct_out :: "(nat \<Rightarrow> int) \<Rightarrow> mc_reginfo \<Rightarrow> addr \<Rightarrow> addr \<Rightarrow> mc_struct \<Rightarrow> mc_struct option" where
  "construct_out now r subscriber p S = do {
     S \<leftarrow> upd_client p (\<lambda>c. c\<lparr>c_pid := r_pid r, c_flags := 0, c_subscriber := subscriber, birth_time := now 0\<rparr>) S;
     c \<leftarrow> clients S p;
     S \<leftarrow> register_tasks now 1 p (zip (c_tasks c) (r_tasks r)) S;
     S \<leftarrow> mcd_client_active p (probe_time S) S;
     set_client_state p MC_CLIENT_RUNNING S
   }"

definition new_task :: mc_task where
  "new_task = \<lparr>tid = 0, t_interval = 0, t_strategy = 0, t_expire = 0, t_client = NULL\<rparr>"

text \<open>A new client; the array of tasks is \<open>ts\<close>.\<close>

definition construct_new :: "mc_reginfo \<Rightarrow> addr \<Rightarrow> addr list \<Rightarrow> mc_struct \<Rightarrow> mc_struct option" where
  "construct_new r p ts S = do {
     let g = mc_guard_search S (r_name r);
     let S = S\<lparr>clients := (clients S)(p \<mapsto> \<lparr>c_state = 0, c_flags = 0, probe_expire = 0, birth_time = 0, c_pid = 0,
         latch_time = r_latch r, c_name = r_name r, c_cmdline = r_cmdline r, c_guard = g, c_tasks = ts, c_subscriber = NULL\<rparr>),
       mc_tasks := (\<lambda>t. if t \<in> set ts then Some new_task else mc_tasks S t)\<rparr>;
     S \<leftarrow> on_links (INIT_LIST_HEAD p) S;
     if g \<noteq> NULL then on_links (list_del_init g) S else Some S
   }"

text \<open>\<open>client\<close> and \<open>tasks\<close> are the results of \<open>malloc\<close> and \<open>calloc\<close>.\<close>

definition mcd_client_construct ::
    "(nat \<Rightarrow> int) \<Rightarrow> addr option \<Rightarrow> addr list option \<Rightarrow> mc_reginfo \<Rightarrow> addr \<Rightarrow> mc_struct \<Rightarrow> (addr \<times> mc_struct) option" where
  "mcd_client_construct now client tasks r subscriber S = do {
     dead \<leftarrow> list_for_each client_deadq (mc_links S);
     found \<leftarrow> find_dead r dead S;
     case found of
       Some p \<Rightarrow> do {
         S \<leftarrow> on_links (list_del_init p) S;
         c \<leftarrow> clients S p;
         let S = (if has (c_state c) (MC_CLIENT_STARTING OR MC_CLIENT_PRESTART) then emit (Timing_unregister p) S else S);
         S \<leftarrow> construct_out now r subscriber p S;
         Some (p, S)
       }
     | None \<Rightarrow>
         (case (client, tasks) of
            (Some p, Some ts) \<Rightarrow> do {
              S \<leftarrow> construct_new r p ts S;
              S \<leftarrow> construct_out now r subscriber p S;
              Some (p, S)
            }
          | _ \<Rightarrow> Some (NULL, S))
   }"

fun del_all :: "(addr \<Rightarrow> links \<Rightarrow> links option) \<Rightarrow> addr list \<Rightarrow> links \<Rightarrow> links option" where
  "del_all del [] L = Some L"
| "del_all del (t # ts) L = do { L \<leftarrow> del t L; del_all del ts L }"

definition clear_ready :: "addr \<Rightarrow> mc_struct \<Rightarrow> mc_struct option" where
  "clear_ready g S =
     (if g = NULL then Some S
      else do { x \<leftarrow> guards S g; b \<leftarrow> clear_bit (bit_nr (g_id x)) (ready_bitmap S); Some (S\<lparr>ready_bitmap := b\<rparr>) })"

definition mcd_client_destroy :: "addr \<Rightarrow> mc_struct \<Rightarrow> mc_struct option" where
  "mcd_client_destroy p S = do {
     c \<leftarrow> clients S p;
     if has (c_flags c) (BIT MC_CLIENT_F_UNREG) then do {
       S \<leftarrow> on_links (list_del p) S;
       S \<leftarrow> on_links (del_all list_del (c_tasks c)) S;
       S \<leftarrow> clear_ready (c_guard c) S;
       S \<leftarrow> (if c_guard c = NULL then Some S
            else do {
              S \<leftarrow> upd_guard (c_guard c) (\<lambda>g. g\<lparr>g_pid := c_pid c,
                     g_state := if has (c_state c) MC_CLIENT_DETACHED then MC_GUARD_STATE_DETACH else MC_GUARD_STATE_NEW\<rparr>) S;
              on_links (list_add_tail (c_guard c) guard_head) S
            });
       Some (S\<lparr>mc_tasks := (\<lambda>t. if t \<in> set (c_tasks c) then None else mc_tasks S t), clients := (clients S)(p := None)\<rparr>)
     }
     else do {
       S \<leftarrow> on_links (del_all list_del_init (c_tasks c)) S;
       S \<leftarrow> clear_ready (c_guard c) S;
       S \<leftarrow> upd_client p (\<lambda>c. c\<lparr>c_flags := 0, c_pid := 0, c_subscriber := NULL\<rparr>) S;
       if has (c_state c) MC_CLIENT_DETACHED then set_client_state p (MC_CLIENT_DEAD OR MC_CLIENT_DETACHED) S
       else do {
         S \<leftarrow> set_client_state p MC_CLIENT_DEAD S;
         on_links (list_move p client_deadq) S
       }
     }
   }"

end
