(* ===== verification/Mc_Handlers.thy ===== *)
theory Mc_Handlers
  imports Mc_Core
begin

text \<open>
  The messages of clients and the periodic work of the daemon, \<open>mc_core.c\<close>. A cookie is what the server hands back with a
  message: nothing, an asynchronous request, or the subscriber the daemon bound to the handle.
\<close>

datatype mc_cookie = No_cookie | Async_cookie | User_cookie addr

definition is_client :: "mc_cookie \<Rightarrow> mc_struct \<Rightarrow> bool option" where
  "is_client cookie S =
     (case cookie of User_cookie q \<Rightarrow> do { s \<leftarrow> subs S q; Some (cookie_type s = MC_IPC_COOKIE_CLIENT) } | _ \<Rightarrow> Some False)"

text \<open>\<open>get_client_from_cookie\<close>, for a cookie of a client.\<close>

definition cookie_client :: "mc_cookie \<Rightarrow> mc_struct \<Rightarrow> addr option" where
  "cookie_client cookie S = (case cookie of User_cookie q \<Rightarrow> do { s \<leftarrow> subs S q; Some (s_client s) } | _ \<Rightarrow> None)"

definition subscribed :: "addr \<Rightarrow> 64 word \<Rightarrow> mc_struct \<Rightarrow> bool option" where
  "subscribed q m S = do { s \<leftarrow> subs S q; Some (s_mask s AND m \<noteq> 0) }"

definition assert_guarded :: "mc_client \<Rightarrow> mc_struct \<Rightarrow> unit option" where
  "assert_guarded c S = do { b \<leftarrow> subscribed (c_subscriber c) MC_GUARD_MASK S; c_assert b }"

section \<open>Heartbeats and probes\<close>

fun find_task :: "int \<Rightarrow> addr list \<Rightarrow> mc_struct \<Rightarrow> addr option option" where
  "find_task n [] S = Some None"
| "find_task n (t # ts) S = do { x \<leftarrow> mc_tasks S t; if tid x = n then Some (Some t) else find_task n ts S }"

definition mcd_client_heartbeat_msg :: "int \<Rightarrow> bool \<Rightarrow> mc_cookie \<Rightarrow> int \<Rightarrow> int \<Rightarrow> mc_struct \<Rightarrow> (int \<times> mc_struct) option" where
  "mcd_client_heartbeat_msg now from_subscriber cookie pid n S =
     (if \<not> from_subscriber then Some (- 1, S)
      else do {
        cl \<leftarrow> is_client cookie S;
        if \<not> cl then Some (- 1, S)
        else do {
          p \<leftarrow> cookie_client cookie S;
          c \<leftarrow> clients S p;
          assert_guarded c S;
          if c_pid c \<noteq> pid then Some (- 1, S)
          else if has (c_state c) MC_CLIENT_DETACHED then Some (0, S)
          else do {
            found \<leftarrow> find_task n (c_tasks c) S;
            case found of
              None \<Rightarrow> Some (- 1, S)
            | Some t \<Rightarrow> do {
                S \<leftarrow> mc_task_active now t S;
                x \<leftarrow> mc_tasks S t;
                S \<leftarrow> upd_client (t_client x) (\<lambda>c. c\<lparr>c_flags := c_flags c AND NOT (BIT (t_strategy x))\<rparr>) S;
                Some (0, S)
              }
          }
        }
      })"

definition mcd_client_probe_msg :: "bool \<Rightarrow> mc_cookie \<Rightarrow> int \<Rightarrow> mc_struct \<Rightarrow> mc_struct option" where
  "mcd_client_probe_msg from_subscriber cookie pt S = do {
     cl \<leftarrow> is_client cookie S;
     if from_subscriber \<and> cl then do {
       p \<leftarrow> cookie_client cookie S;
       c \<leftarrow> clients S p;
       assert_guarded c S;
       if has (c_state c) MC_CLIENT_DETACHED then Some S else mcd_client_active p pt S
     }
     else Some S
   }"

definition mcd_client_ready_msg :: "bool \<Rightarrow> mc_cookie \<Rightarrow> string \<Rightarrow> mc_struct \<Rightarrow> (int \<times> mc_struct) option" where
  "mcd_client_ready_msg from_subscriber cookie name S = do {
     cl \<leftarrow> is_client cookie S;
     if from_subscriber \<and> cl then do {
       p \<leftarrow> cookie_client cookie S;
       c \<leftarrow> clients S p;
       assert_guarded c S;
       if strcmp name (c_name c) \<noteq> 0 then Some (- 1, S)
       else do {
         S \<leftarrow> (if c_guard c \<noteq> NULL then do {
                  g \<leftarrow> guards S (c_guard c);
                  b \<leftarrow> set_bit (bit_nr (g_id g)) (ready_bitmap S);
                  Some (S\<lparr>ready_bitmap := b\<rparr>)
                } else Some S);
         Some (0, emit (Publish MC_SYNC_MASK MC_IND_SYNC_READY (c_name c)) (S\<lparr>ready_name := c_name c\<rparr>))
       }
     }
     else Some (- 1, S)
   }"

section \<open>Inspection\<close>

text \<open>
  The loop over the tasks, last first, with the successor taken before the body as the macro does. The result has the
  actions that were due.
\<close>

partial_function (option) inspect_tasks :: "int \<Rightarrow> addr \<Rightarrow> addr \<Rightarrow> 32 word \<Rightarrow> mc_struct \<Rightarrow> (32 word \<times> mc_struct) option" where
  "inspect_tasks current q n action S =
     (if q = task_head then Some (action, S)
      else do {
        t \<leftarrow> mc_tasks S q;
        if current < t_expire t then Some (action, S)
        else do {
          c \<leftarrow> clients S (t_client t);
          (action, S) \<leftarrow>
            (if has (c_flags c) (BIT (t_strategy t)) then Some (action, S)
             else do {
               S \<leftarrow> upd_client (t_client t) (\<lambda>c. c\<lparr>c_flags := c_flags c OR BIT (t_strategy t)\<rparr>) S;
               S \<leftarrow> (if t_strategy t = MC_STRATEGY_RESTART then on_links (list_move (t_client t) client_lossq) S else Some S);
               Some (action OR BIT (t_strategy t), S)
             });
          m \<leftarrow> load (mc_links S) n;
          inspect_tasks current n (list_prev m) action S
        }
      })"

partial_function (option) inspect_probes :: "addr \<Rightarrow> addr \<Rightarrow> mc_struct \<Rightarrow> mc_struct option" where
  "inspect_probes q n S =
     (if q = client_runningq then Some S
      else do {
        c \<leftarrow> clients S q;
        if probe_time S < probe_expire c then Some S
        else do {
          S \<leftarrow> upd_client q (\<lambda>c. c\<lparr>c_flags := c_flags c OR BIT MC_STRATEGY_RESTART\<rparr>) S;
          S \<leftarrow> on_links (list_move q client_lossq) S;
          m \<leftarrow> load (mc_links S) n;
          inspect_probes n (list_prev m) S
        }
      })"

text \<open>The first two entries of a reverse iteration.\<close>

definition reverse_start :: "addr \<Rightarrow> links \<Rightarrow> (addr \<times> addr) option" where
  "reverse_start head L = do { h \<leftarrow> load L head; c \<leftarrow> load L (list_prev h); Some (list_prev h, list_prev c) }"

fun inspect_lost :: "kernel \<Rightarrow> addr list \<Rightarrow> mc_struct \<Rightarrow> mc_struct option" where
  "inspect_lost K [] S = Some S"
| "inspect_lost K (p # ps) S = do {
     c \<leftarrow> clients S p;
     S \<leftarrow> (if \<not> has (c_flags c) (BIT MC_CLIENT_F_EXIT) then mc_exit_client K p S
          else if \<not> has (c_flags c) (BIT MC_CLIENT_F_KILL) then map_option snd (mc_kill_client K p 9 S)
          else set_client_state p MC_CLIENT_BLOCKED S);
     inspect_lost K ps S
   }"

definition mc_reboot :: "bool \<Rightarrow> bool \<Rightarrow> mc_struct \<Rightarrow> mc_struct" where
  "mc_reboot force pwroff S =
     (let S = emit Event_shutdown S;
          S = emit (Publish MC_SYSTEM_MASK MC_IND_SYS_SHUTDOWN (if pwroff then ''mcd-pwroff'' else ''mcd-reboot'')) S;
          S = (if force then S else emit (Exec_wait (if pwroff then ''poweroff'' else ''reboot'')) S)
      in emit (Sys_reboot pwroff) S)"

text \<open>\<open>created\<close>: whether the thread for the reboot can be created.\<close>

definition mc_reboot_system :: "bool \<Rightarrow> bool \<Rightarrow> bool \<Rightarrow> mc_struct \<Rightarrow> mc_struct" where
  "mc_reboot_system created force pwroff S =
     (let S = (if force then S\<lparr>mc_af := mc_af S OR BIT MC_AF_RFORCE\<rparr> else S);
          S = (if pwroff then S\<lparr>mc_af := mc_af S OR BIT MC_AF_PWROFF\<rparr> else S)
      in if created then emit Reboot_thread S else mc_reboot force pwroff S)"

definition mcd_inspect :: "kernel \<Rightarrow> int \<Rightarrow> bool \<Rightarrow> mc_struct \<Rightarrow> mc_struct option" where
  "mcd_inspect K current created S = do {
     (q, n) \<leftarrow> reverse_start task_head (mc_links S);
     (action, S) \<leftarrow> inspect_tasks current q n 0 S;
     (q, n) \<leftarrow> reverse_start client_runningq (mc_links S);
     S \<leftarrow> inspect_probes q n S;
     lost \<leftarrow> list_for_each client_lossq (mc_links S);
     S \<leftarrow> inspect_lost K lost S;
     Some (if has action (BIT MC_STRATEGY_REBOOT) then mc_reboot_system created False False S else S)
   }"

definition mcd_probe :: "int \<Rightarrow> mc_struct \<Rightarrow> mc_struct" where
  "mcd_probe now S = emit (Publish MC_GUARD_MASK MC_IND_PROBE []) (S\<lparr>probe_time := now\<rparr>)"

section \<open>Detaching and attaching\<close>

fun find_client :: "string \<Rightarrow> addr list \<Rightarrow> mc_struct \<Rightarrow> addr option option" where
  "find_client name [] S = Some None"
| "find_client name (p # ps) S = do { c \<leftarrow> clients S p; if strcmp (c_name c) name = 0 then Some (Some p) else find_client name ps S }"

text \<open>The first guard of a name whose state is, or is not, detached.\<close>

fun find_guard :: "bool \<Rightarrow> string \<Rightarrow> addr list \<Rightarrow> mc_struct \<Rightarrow> addr option option" where
  "find_guard det name [] S = Some None"
| "find_guard det name (g # gs) S = do {
     x \<leftarrow> guards S g;
     if (g_state x = MC_GUARD_STATE_DETACH) = det \<and> strcmp (g_name x) name = 0 then Some (Some g) else find_guard det name gs S
   }"

fun activate_all :: "(nat \<Rightarrow> int) \<Rightarrow> nat \<Rightarrow> addr list \<Rightarrow> mc_struct \<Rightarrow> mc_struct option" where
  "activate_all now i [] S = Some S"
| "activate_all now i (t # ts) S = do { S \<leftarrow> mc_task_active (now i) t S; activate_all now (Suc i) ts S }"

definition not_detached :: "addr \<Rightarrow> mc_struct \<Rightarrow> mc_struct option" where
  "not_detached p S = upd_client p (\<lambda>c. c\<lparr>c_state := c_state c AND NOT MC_CLIENT_DETACHED\<rparr>) S"

definition mcd_client_attach :: "kernel \<Rightarrow> (nat \<Rightarrow> int) \<Rightarrow> string \<Rightarrow> mc_struct \<Rightarrow> (int \<times> mc_struct) option" where
  "mcd_client_attach K now name S = do {
     det \<leftarrow> list_for_each client_detachdq (mc_links S);
     found \<leftarrow> find_client name det S;
     case found of
       Some p \<Rightarrow> do {
         c \<leftarrow> clients S p;
         if has (c_state c) MC_CLIENT_RUNNING then do {
           S \<leftarrow> activate_all now 0 (c_tasks c) S;
           S \<leftarrow> mcd_client_active p (probe_time S) S;
           S \<leftarrow> not_detached p S;
           S \<leftarrow> on_links (list_move p client_runningq) S;
           Some (1, S)
         }
         else if has (c_state c) MC_CLIENT_DEAD then do {
           S \<leftarrow> not_detached p S;
           S \<leftarrow> on_links (list_move p client_deadq) S;
           S \<leftarrow> mcd_client_restart K (now 0) p (delay_restart (mc_conf S)) S;
           Some (1, S)
         }
         else Some (0, S)
       }
     | None \<Rightarrow> do {
         gs \<leftarrow> list_for_each guard_head (mc_links S);
         g \<leftarrow> find_guard True name gs S;
         case g of
           None \<Rightarrow> Some (0, S)
         | Some g \<Rightarrow> do { S \<leftarrow> upd_guard g (\<lambda>x. x\<lparr>g_state := MC_GUARD_STATE_NEW\<rparr>) S; Some (1, S) }
       }
   }"

definition mcd_client_detach :: "kernel \<Rightarrow> string \<Rightarrow> bool \<Rightarrow> mc_struct \<Rightarrow> (int \<times> mc_struct) option" where
  "mcd_client_detach K name exits S = do {
     run \<leftarrow> list_for_each client_runningq (mc_links S);
     found \<leftarrow> find_client name run S;
     case found of
       Some p \<Rightarrow> do {
         c \<leftarrow> clients S p;
         S \<leftarrow> on_links (del_all list_del_init (c_tasks c)) S;
         S \<leftarrow> on_links (list_move p client_detachdq) S;
         S \<leftarrow> upd_client p (\<lambda>c. c\<lparr>c_state := c_state c OR MC_CLIENT_DETACHED\<rparr>) S;
         S \<leftarrow> (if exits \<and> \<not> has (c_flags c) (BIT MC_CLIENT_F_EXIT) then mc_exit_client K p S else Some S);
         Some (1, S)
       }
     | None \<Rightarrow> do {
         gs \<leftarrow> list_for_each guard_head (mc_links S);
         g \<leftarrow> find_guard False name gs S;
         case g of
           None \<Rightarrow> Some (0, S)
         | Some g \<Rightarrow> do {
             x \<leftarrow> guards S g;
             S \<leftarrow> upd_guard g (\<lambda>x. x\<lparr>g_state := MC_GUARD_STATE_DETACH\<rparr>) S;
             Some (1, if exits then emit (Kill (g_pid x) 9) S else S)
           }
       }
   }"

text \<open>The answer is \<open>found\<close>.\<close>

definition mcd_client_restart_msg :: "kernel \<Rightarrow> string \<Rightarrow> mc_struct \<Rightarrow> (bool \<times> mc_struct) option" where
  "mcd_client_restart_msg K name S = do {
     run \<leftarrow> list_for_each client_runningq (mc_links S);
     found \<leftarrow> find_client name run S;
     case found of
       Some p \<Rightarrow> do { S \<leftarrow> mc_exit_client K p S; Some (True, S) }
     | None \<Rightarrow> do {
         gs \<leftarrow> list_for_each guard_head (mc_links S);
         g \<leftarrow> find_guard False name gs S;
         case g of
           None \<Rightarrow> Some (False, S)
         | Some g \<Rightarrow> do {
             x \<leftarrow> guards S g;
             let S = (if mc_process_validate K (g_name x) (g_pid x) then emit (Kill (g_pid x) 15) S else S);
             let S = emit (Process_restart (g_name x) (g_cmdline x)) S;
             S \<leftarrow> upd_guard g (\<lambda>y. y\<lparr>g_pid := restart_pid K (g_cmdline x), g_state := MC_GUARD_STATE_NEW\<rparr>) S;
             Some (True, S)
           }
       }
   }"

definition mcd_client_detach_msg :: "kernel \<Rightarrow> (nat \<Rightarrow> int) \<Rightarrow> bool \<Rightarrow> string \<Rightarrow> bool \<Rightarrow> mc_struct \<Rightarrow> (int \<times> mc_struct) option" where
  "mcd_client_detach_msg K now state name exits S = (if state then mcd_client_detach K name exits S else mcd_client_attach K now name S)"

end
