(* ===== verification/Mc_System.thy ===== *)
theory Mc_System
  imports Mc_Handlers
begin

text \<open>
  Barriers and votes of the whole system, \<open>mc_system.c\<close>, and what the daemon does when the message server reports a
  connection, \<open>mc_core.c\<close>. A wait on a condition splits a function into its critical sections: what is done before the wait,
  with the answer whether it waits, and what is done after it.
\<close>

section \<open>Barriers\<close>

abbreviation sync_ind :: "syn_id \<Rightarrow> mc_ind" where
  "sync_ind k \<equiv> (case k of MC_SYN_SLEEP \<Rightarrow> MC_IND_SYS_SLEEP | MC_SYN_RESUME \<Rightarrow> MC_IND_SYS_WAKEUP | MC_SYN_REBOOT \<Rightarrow> MC_IND_SYS_REBOOT)"

abbreviation vote_ind :: "apply_id \<Rightarrow> mc_ind" where
  "vote_ind k \<equiv> (case k of MC_APPLY_SLEEP \<Rightarrow> MC_IND_SYS_VOTE_SLEEP | MC_APPLY_REBOOT \<Rightarrow> MC_IND_SYS_VOTE_REBOOT)"

definition upd_sync :: "syn_id \<Rightarrow> (mc_synchor \<Rightarrow> mc_synchor) \<Rightarrow> mc_struct \<Rightarrow> mc_struct" where
  "upd_sync k f S = S\<lparr>synchors := (synchors S)(k := f (synchors S k))\<rparr>"

definition upd_vote :: "apply_id \<Rightarrow> (mc_referee \<Rightarrow> mc_referee) \<Rightarrow> mc_struct \<Rightarrow> mc_struct" where
  "upd_vote k f S = S\<lparr>referees := (referees S)(k := f (referees S k))\<rparr>"

definition zero_bitmap :: longs where "zero_bitmap = replicate MC_BITMAP_SIZE 0"

definition is_bitmap_full :: "longs \<Rightarrow> mc_struct \<Rightarrow> bool" where
  "is_bitmap_full b S \<longleftrightarrow> b = full_bitmap S"

definition mc_synchor_wait :: "syn_id \<Rightarrow> mc_struct \<Rightarrow> bool \<times> mc_struct" where
  "mc_synchor_wait k S =
     (let S = (if \<not> syn_wait (synchors S k)
               then emit (Publish MC_SYSTEM_MASK (sync_ind k) []) (upd_sync k (\<lambda>y. y\<lparr>ack_bitmap := zero_bitmap\<rparr>) S) else S)
      in if \<not> is_bitmap_full (ack_bitmap (synchors S k)) S
         then (True, upd_sync k (\<lambda>y. y\<lparr>syn_wait := True, syn_signalled := False\<rparr>) S) else (False, S))"

definition mc_synchor_done :: "syn_id \<Rightarrow> bool \<Rightarrow> mc_struct \<Rightarrow> mc_struct" where
  "mc_synchor_done k waited S =
     (let S = (if waited then upd_sync k (\<lambda>y. y\<lparr>syn_wait := False\<rparr>) S else S)
      in if k = MC_SYN_REBOOT then emit Event_reboot S else S)"

definition mc_referee_wait :: "apply_id \<Rightarrow> mc_struct \<Rightarrow> bool \<times> mc_struct" where
  "mc_referee_wait k S =
     (let S = (if \<not> ref_wait (referees S k)
               then emit (Publish MC_SYSTEM_MASK (vote_ind k) [])
                      (upd_vote k (\<lambda>r. r\<lparr>vote_approved := full_bitmap S, vote_bitmap := zero_bitmap\<rparr>) S) else S)
      in if \<not> is_bitmap_full (vote_bitmap (referees S k)) S
         then (True, upd_vote k (\<lambda>r. r\<lparr>ref_wait := True, ref_signalled := False\<rparr>) S) else (False, S))"

text \<open>The answer is whether the application is approved.\<close>

definition mc_referee_done :: "apply_id \<Rightarrow> bool \<Rightarrow> mc_struct \<Rightarrow> bool \<times> mc_struct" where
  "mc_referee_done k waited S =
     (let S = (if waited then upd_vote k (\<lambda>r. r\<lparr>ref_wait := False\<rparr>) S else S)
      in (is_bitmap_full (vote_approved (referees S k)) S, S))"

section \<open>Acknowledgements and votes\<close>

definition sync_broadcast :: "syn_id \<Rightarrow> mc_struct \<Rightarrow> mc_struct" where
  "sync_broadcast k S = upd_sync k (\<lambda>y. y\<lparr>syn_signalled := True\<rparr>) S"

definition vote_broadcast :: "apply_id \<Rightarrow> mc_struct \<Rightarrow> mc_struct" where
  "vote_broadcast k S = upd_vote k (\<lambda>r. r\<lparr>ref_signalled := True\<rparr>) S"

definition mcd_client_ack_msg :: "bool \<Rightarrow> mc_cookie \<Rightarrow> syn_id option \<Rightarrow> mc_struct \<Rightarrow> (int \<times> mc_struct) option" where
  "mcd_client_ack_msg from_subscriber cookie synid S =
     (if \<not> from_subscriber then Some (- 1, S)
      else do {
        cl \<leftarrow> is_client cookie S;
        if \<not> cl then Some (- 1, S)
        else
          (case cookie of
             User_cookie q \<Rightarrow> do {
               s \<leftarrow> subs S q;
               if s_mask s AND MC_SYSTEM_MASK = 0 then Some (- 1, S)
               else
                 (case synid of
                    None \<Rightarrow> Some (- 1, S)
                  | Some k \<Rightarrow> do {
                      b \<leftarrow> set_bit (index s) (ack_bitmap (synchors S k));
                      let S = upd_sync k (\<lambda>y. y\<lparr>ack_bitmap := b\<rparr>) S;
                      Some (0, if is_bitmap_full b S \<and> syn_wait (synchors S k) then sync_broadcast k S else S)
                    })
             }
           | _ \<Rightarrow> None)
      })"

definition mcd_client_vote_msg :: "bool \<Rightarrow> mc_cookie \<Rightarrow> apply_id option \<Rightarrow> bool \<Rightarrow> mc_struct \<Rightarrow> (int \<times> mc_struct) option" where
  "mcd_client_vote_msg from_subscriber cookie applyid approved S =
     (if \<not> from_subscriber then Some (- 1, S)
      else do {
        cl \<leftarrow> is_client cookie S;
        if \<not> cl then Some (- 1, S)
        else
          (case cookie of
             User_cookie q \<Rightarrow> do {
               s \<leftarrow> subs S q;
               if s_mask s AND MC_SYSTEM_MASK = 0 then Some (- 1, S)
               else
                 (case applyid of
                    None \<Rightarrow> Some (- 1, S)
                  | Some k \<Rightarrow> do {
                      b \<leftarrow> set_bit (index s) (vote_bitmap (referees S k));
                      a \<leftarrow> (if approved then Some (vote_approved (referees S k)) else clear_bit (index s) (vote_approved (referees S k)));
                      let S = upd_vote k (\<lambda>r. r\<lparr>vote_bitmap := b, vote_approved := a\<rparr>) S;
                      Some (0, if is_bitmap_full b S \<and> ref_wait (referees S k) then vote_broadcast k S else S)
                    })
             }
           | _ \<Rightarrow> None)
      })"

section \<open>Requests for a barrier, a vote and a reboot\<close>

datatype syn_code = MC_SYN_DONE | MC_SYN_ERR | MC_SYN_TMO

datatype apply_ret = MC_APPLY_R_UNAPPROVED | MC_APPLY_R_APPROVED | MC_APPLY_R_ERR

text \<open>
  What is answered after the wait; \<open>err\<close> is the result of the wait. \<open>started\<close>: the message server has taken over the work. The
  middle component is the answer, if there is one yet.
\<close>

definition sync_waiting :: "syn_id \<Rightarrow> bool \<Rightarrow> bool \<Rightarrow> mc_struct \<Rightarrow> syn_code \<times> mc_struct" where
  "sync_waiting k waited err S = (if waited \<and> err then MC_SYN_TMO else MC_SYN_DONE, mc_synchor_done k waited S)"

definition apply_waiting :: "apply_id \<Rightarrow> bool \<Rightarrow> mc_struct \<Rightarrow> apply_ret \<times> mc_struct" where
  "apply_waiting k waited S =
     (let (approved, S) = mc_referee_done k waited S in (if approved then MC_APPLY_R_APPROVED else MC_APPLY_R_UNAPPROVED, S))"

definition reboot_waiting :: "bool \<Rightarrow> mc_struct \<Rightarrow> mc_struct" where
  "reboot_waiting waited S =
     (let S = mc_synchor_done MC_SYN_REBOOT waited S in mc_reboot False (has (mc_af S) (BIT MC_AF_PWROFF)) S)"

definition mcd_client_syn_msg :: "bool \<Rightarrow> bool \<Rightarrow> mc_cookie \<Rightarrow> syn_id option \<Rightarrow> mc_struct \<Rightarrow> int \<times> syn_code option \<times> mc_struct" where
  "mcd_client_syn_msg started requester cookie synid S =
     (if \<not> requester \<or> cookie \<noteq> Async_cookie then (- 1, None, S)
      else if started then (0, None, emit (Async_execute (Sync_waiting synid)) S)
      else (0, Some MC_SYN_ERR, S))"

definition mcd_client_apply_msg :: "bool \<Rightarrow> bool \<Rightarrow> mc_cookie \<Rightarrow> apply_id option \<Rightarrow> mc_struct \<Rightarrow> int \<times> apply_ret option \<times> mc_struct" where
  "mcd_client_apply_msg started requester cookie applyid S =
     (if \<not> requester \<or> cookie \<noteq> Async_cookie then (- 1, None, S)
      else if started then (0, None, emit (Async_execute (Apply_waiting applyid)) S)
      else (0, Some MC_APPLY_R_ERR, S))"

text \<open>When the work is not taken over the mutex is unlocked, which the handler does not hold.\<close>

definition mcd_client_reboot_msg :: "bool \<Rightarrow> bool \<Rightarrow> bool \<Rightarrow> mc_cookie \<Rightarrow> bool \<Rightarrow> mc_struct \<Rightarrow> int \<times> mc_struct" where
  "mcd_client_reboot_msg started created requester cookie pwroff S =
     (if \<not> requester \<or> cookie \<noteq> Async_cookie then (- 1, S)
      else
        let S = (if pwroff then S\<lparr>mc_af := mc_af S OR BIT MC_AF_PWROFF\<rparr> else S)
        in if started then (0, emit (Async_execute Reboot_waiting) S)
           else (0, mc_reboot_system created True pwroff (emit Unlock_not_held S)))"

text \<open>
  The thread of a reboot, cut at its waits: it applies for the reboot until nobody objects, unless it is forced, then waits
  for the acknowledgements and reboots. \<open>force\<close> and \<open>pwroff\<close> are read from the flags when it begins.
\<close>

datatype reboot_pc = Reboot_begin | Reboot_vote bool | Reboot_sync | Reboot_ack bool | Reboot_end

definition reboot_flags :: "mc_struct \<Rightarrow> bool \<times> bool" where
  "reboot_flags S = (has (mc_af S) (BIT MC_AF_RFORCE), has (mc_af S) (BIT MC_AF_PWROFF))"

definition mc_reboot_entry :: "bool \<Rightarrow> bool \<Rightarrow> reboot_pc \<Rightarrow> mc_struct \<Rightarrow> reboot_pc \<times> mc_struct" where
  "mc_reboot_entry force pwroff pc S =
     (case pc of
        Reboot_begin \<Rightarrow> if force then (Reboot_sync, S) else (let (w, S) = mc_referee_wait MC_APPLY_REBOOT S in (Reboot_vote w, S))
      | Reboot_vote w \<Rightarrow> (let (approved, S) = mc_referee_done MC_APPLY_REBOOT w S in (if approved then Reboot_sync else Reboot_begin, S))
      | Reboot_sync \<Rightarrow> (let (w, S) = mc_synchor_wait MC_SYN_REBOOT S in (Reboot_ack w, S))
      | Reboot_ack w \<Rightarrow> (Reboot_end, mc_reboot force pwroff (mc_synchor_done MC_SYN_REBOOT w S))
      | Reboot_end \<Rightarrow> (Reboot_end, S))"

section \<open>Connections\<close>

text \<open>The bits of a subscriber of the system topic.\<close>

definition all_bitmaps :: "(longs \<Rightarrow> longs option) \<Rightarrow> mc_struct \<Rightarrow> mc_struct option" where
  "all_bitmaps f S = do {
     full \<leftarrow> f (full_bitmap S);
     a \<leftarrow> f (ack_bitmap (synchors S MC_SYN_SLEEP));
     b \<leftarrow> f (ack_bitmap (synchors S MC_SYN_RESUME));
     c \<leftarrow> f (ack_bitmap (synchors S MC_SYN_REBOOT));
     d \<leftarrow> f (vote_bitmap (referees S MC_APPLY_SLEEP));
     e \<leftarrow> f (vote_approved (referees S MC_APPLY_SLEEP));
     g \<leftarrow> f (vote_bitmap (referees S MC_APPLY_REBOOT));
     h \<leftarrow> f (vote_approved (referees S MC_APPLY_REBOOT));
     let S = S\<lparr>full_bitmap := full\<rparr>;
     let S = upd_sync MC_SYN_SLEEP (\<lambda>y. y\<lparr>ack_bitmap := a\<rparr>) S;
     let S = upd_sync MC_SYN_RESUME (\<lambda>y. y\<lparr>ack_bitmap := b\<rparr>) S;
     let S = upd_sync MC_SYN_REBOOT (\<lambda>y. y\<lparr>ack_bitmap := c\<rparr>) S;
     let S = upd_vote MC_APPLY_SLEEP (\<lambda>r. r\<lparr>vote_bitmap := d, vote_approved := e\<rparr>) S;
     Some (upd_vote MC_APPLY_REBOOT (\<lambda>r. r\<lparr>vote_bitmap := g, vote_approved := h\<rparr>) S)
   }"

definition supported_mask :: "64 word" where
  "supported_mask = MC_GUARD_MASK OR MC_SYNC_MASK OR MC_SYSTEM_MASK OR MC_EXCEPTION_MASK"

text \<open>
  \<open>mc_ipc_register_process\<close> for the handle \<open>sevr\<close> of process \<open>identity\<close> with mask \<open>msk\<close>. \<open>sub\<close>, \<open>client\<close>, \<open>tasks\<close> and \<open>dup\<close> are the
  results of the allocations; \<open>bound\<close>: \<open>ipc_server_bind\<close> succeeds. Its result for a handle without a cookie is success.
\<close>

definition register_error :: "addr \<Rightarrow> addr \<Rightarrow> mc_struct \<Rightarrow> (int \<times> mc_struct) option" where
  "register_error q p S = do {
     S \<leftarrow> (if p \<noteq> NULL then mcd_client_destroy p S else Some S);
     Some (- 1, S\<lparr>subs := (subs S)(q := None)\<rparr>)
   }"

definition register_bind :: "bool \<Rightarrow> addr \<Rightarrow> addr \<Rightarrow> 64 word \<Rightarrow> addr \<Rightarrow> nat \<Rightarrow> mc_struct \<Rightarrow> (int \<times> mc_struct) option" where
  "register_bind bound q sevr msk p ctype S = do {
     (i, S) \<leftarrow> mc_index_alloc S;
     let S = S\<lparr>subs := (subs S)(q \<mapsto> \<lparr>cookie_type = ctype, index = i, s_sevr = sevr, s_mask = msk, s_client = p\<rparr>)\<rparr>;
     if \<not> bound then register_error q p S
     else do {
       S \<leftarrow> (if msk AND MC_SYSTEM_MASK \<noteq> 0 then all_bitmaps (set_bit i) S else Some S);
       Some (0, S\<lparr>subscribers := subscribers S + 1\<rparr>)
     }
   }"

definition mc_ipc_register_process ::
    "kernel \<Rightarrow> (nat \<Rightarrow> int) \<Rightarrow> addr option \<Rightarrow> addr option \<Rightarrow> addr list option \<Rightarrow> bool \<Rightarrow> bool \<Rightarrow> addr \<Rightarrow> int \<Rightarrow> 64 word \<Rightarrow> mc_reginfo \<Rightarrow>
     mc_struct \<Rightarrow> (int \<times> mc_struct) option" where
  "mc_ipc_register_process K now sub client tasks dup bound sevr identity msk r S =
     (if shutting_down S then Some (- 1, S)
      else case proc_name K identity of None \<Rightarrow> Some (- 1, S) | Some name \<Rightarrow>
        if subscribers S \<ge> MC_CLIENT_MAX then Some (- 1, S)
        else if msk AND supported_mask = 0 \<or> msk AND NOT supported_mask \<noteq> 0 then Some (- 1, S)
        else case sub of None \<Rightarrow> Some (- 1, S) | Some q \<Rightarrow>
          if msk AND MC_GUARD_MASK \<noteq> 0 then
            if identity \<noteq> r_pid r \<or> strcmp name (r_name r) \<noteq> 0 then register_error q NULL S
            else do {
              (p, S) \<leftarrow> mcd_client_construct now client tasks r q S;
              if p = NULL then register_error q NULL S
              else register_bind bound q sevr msk p MC_IPC_COOKIE_CLIENT S
            }
          else if \<not> dup then register_error q NULL S
          else register_bind bound q sevr msk NULL MC_IPC_COOKIE_REGONLY S)"

text \<open>The tests after a subscriber of the system topic is gone; the second one reads the bitmap of another barrier.\<close>

definition release_wakeups :: "mc_struct \<Rightarrow> mc_struct" where
  "release_wakeups S =
     (let S = (if syn_wait (synchors S MC_SYN_SLEEP) \<and> is_bitmap_full (ack_bitmap (synchors S MC_SYN_SLEEP)) S then sync_broadcast MC_SYN_SLEEP S else S);
          S = (if syn_wait (synchors S MC_SYN_RESUME) \<and> is_bitmap_full (ack_bitmap (synchors S MC_SYN_REBOOT)) S then sync_broadcast MC_SYN_RESUME S else S);
          S = (if syn_wait (synchors S MC_SYN_REBOOT) \<and> is_bitmap_full (ack_bitmap (synchors S MC_SYN_REBOOT)) S then sync_broadcast MC_SYN_REBOOT S else S);
          S = (if ref_wait (referees S MC_APPLY_SLEEP) \<and> is_bitmap_full (vote_bitmap (referees S MC_APPLY_SLEEP)) S then vote_broadcast MC_APPLY_SLEEP S else S)
      in if ref_wait (referees S MC_APPLY_REBOOT) \<and> is_bitmap_full (vote_bitmap (referees S MC_APPLY_REBOOT)) S then vote_broadcast MC_APPLY_REBOOT S else S)"

text \<open>For a subscriber's handle.\<close>

definition mc_ipc_release_process :: "mc_cookie \<Rightarrow> mc_struct \<Rightarrow> mc_struct option" where
  "mc_ipc_release_process cookie S =
     (case cookie of
        User_cookie q \<Rightarrow> do {
          s \<leftarrow> subs S q;
          S \<leftarrow> (if s_mask s AND MC_SYSTEM_MASK \<noteq> 0 then map_option release_wakeups (all_bitmaps (clear_bit (index s)) S) else Some S);
          S \<leftarrow> mc_index_free (index s) S;
          Some (S\<lparr>subs := (subs S)(q := None), subscribers := subscribers S - 1\<rparr>)
        }
      | _ \<Rightarrow> Some S)"

definition mc_ipc_unregister_process :: "mc_cookie \<Rightarrow> mc_struct \<Rightarrow> mc_struct option" where
  "mc_ipc_unregister_process cookie S = do {
     cl \<leftarrow> is_client cookie S;
     if cl then do {
       p \<leftarrow> cookie_client cookie S;
       upd_client p (\<lambda>c. c\<lparr>c_flags := c_flags c OR BIT MC_CLIENT_F_UNREG\<rparr>) S
     }
     else Some S
   }"

definition mc_ipc_shutdown_process :: "kernel \<Rightarrow> int \<Rightarrow> mc_cookie \<Rightarrow> mc_struct \<Rightarrow> mc_struct option" where
  "mc_ipc_shutdown_process K now cookie S = do {
     cl \<leftarrow> is_client cookie S;
     if cl then do {
       p \<leftarrow> cookie_client cookie S;
       c \<leftarrow> clients S p;
       (case cookie of User_cookie q \<Rightarrow> do { b \<leftarrow> subscribed q MC_GUARD_MASK S; c_assert b } | _ \<Rightarrow> None);
       let S = emit (Publish MC_SYNC_MASK MC_IND_SYNC_DEAD (c_name c)) S;
       let need_restart = (\<not> has (c_state c) MC_CLIENT_DETACHED \<and> \<not> shutting_down S);
       S \<leftarrow> mcd_client_destroy p S;
       if need_restart then mcd_client_restart K now p (delay_restart (mc_conf S)) S else Some S
     }
     else Some S
   }"

definition mc_ipc_sync_process :: "mc_cookie \<Rightarrow> mc_struct \<Rightarrow> mc_struct option" where
  "mc_ipc_sync_process cookie S = do {
     cl \<leftarrow> is_client cookie S;
     if cl then do {
       p \<leftarrow> cookie_client cookie S;
       c \<leftarrow> clients S p;
       assert_guarded c S;
       s \<leftarrow> subs S (c_subscriber c);
       Some (if s_mask s AND MC_SYNC_MASK \<noteq> 0 then emit (Notify (s_sevr s) MC_SYNC_MASK MC_IND_SYNC_READY) S else S)
     }
     else Some S
   }"

section \<open>Shutdown\<close>

definition patrol_timing :: addr where "patrol_timing = 7"

definition mc_shutdown :: "kernel \<Rightarrow> mc_struct \<Rightarrow> mc_struct option" where
  "mc_shutdown K S = do {
     S \<leftarrow> mc_kill_guard K 15 (S\<lparr>mc_flags := mc_flags S OR BIT MC_F_SHUTDOWN\<rparr>);
     Some (emit (Timing_register patrol_timing True 5) (emit (Timing_unregister patrol_timing) S))
   }"

text \<open>The events of the daemon's own socket that change its state.\<close>

definition mc_event_reboot :: "mc_struct \<Rightarrow> mc_struct" where
  "mc_event_reboot S = S\<lparr>mc_flags := mc_flags S OR BIT MC_F_REBOOT\<rparr>"

end
