(* ===== verification/Mc_Barrier.thy ===== *)
theory Mc_Barrier
  imports Mc_System
begin

text \<open>
  The invariant of the daemon's subscribers and bitmaps, and that every operation keeps it: each subscriber has an index of
  its own, the full bitmap has exactly the subscribers of the system topic, acknowledgements and votes come only from
  these, and a thread that waits for all of them is woken when they are complete.
\<close>

section \<open>What the client part leaves alone\<close>

definition sys_of :: "mc_struct \<Rightarrow> nat \<times> longs \<times> longs \<times> (syn_id \<Rightarrow> mc_synchor) \<times> (apply_id \<Rightarrow> mc_referee) \<times> (addr \<rightharpoonup> mc_subscriber)" where
  "sys_of S = (subscribers S, index_stock S, full_bitmap S, synchors S, referees S, subs S)"

lemma sys_emit [simp]: "sys_of (emit e S) = sys_of S"
  by (simp add: sys_of_def emit_def)

lemma sys_fields [simp]:
  "sys_of (S\<lparr>ready_bitmap := b\<rparr>) = sys_of S" "sys_of (S\<lparr>clients := cs\<rparr>) = sys_of S" "sys_of (S\<lparr>mc_tasks := ts\<rparr>) = sys_of S"
  "sys_of (S\<lparr>mc_tasks := ts, clients := cs\<rparr>) = sys_of S" "sys_of (S\<lparr>clients := cs, mc_tasks := ts\<rparr>) = sys_of S"
  "sys_of (S\<lparr>mc_links := L\<rparr>) = sys_of S" "sys_of (S\<lparr>guards := G\<rparr>) = sys_of S"
  "sys_of (S\<lparr>ready_name := n\<rparr>) = sys_of S" "sys_of (S\<lparr>mc_af := f\<rparr>) = sys_of S" "sys_of (S\<lparr>mc_flags := f\<rparr>) = sys_of S"
  "sys_of (S\<lparr>probe_time := t\<rparr>) = sys_of S" "sys_of (S\<lparr>einfo_exception := a, einfo_count := c\<rparr>) = sys_of S"
  by (simp_all add: sys_of_def)

lemma sys_upd:
  "upd_client p f S = Some S' \<Longrightarrow> sys_of S' = sys_of S" "upd_task t g S = Some S' \<Longrightarrow> sys_of S' = sys_of S"
  "upd_guard q h S = Some S' \<Longrightarrow> sys_of S' = sys_of S" "on_links l S = Some S' \<Longrightarrow> sys_of S' = sys_of S"
  "set_client_state p st S = Some S' \<Longrightarrow> sys_of S' = sys_of S" "clear_ready q S = Some S' \<Longrightarrow> sys_of S' = sys_of S"
  by (auto simp: upd_client_def upd_task_def upd_guard_def on_links_def set_client_state_def clear_ready_def bind_eq_Some_conv split: if_splits)

lemma sys_active:
  "mc_task_active now t S = Some S' \<Longrightarrow> sys_of S' = sys_of S" "mcd_client_active p pt S = Some S' \<Longrightarrow> sys_of S' = sys_of S"
  by (auto simp: mc_task_active_def mcd_client_active_def bind_eq_Some_conv Let_def dest!: sys_upd)

lemma sys_register_tasks: "register_tasks now i p ts S = Some S' \<Longrightarrow> sys_of S' = sys_of S"
proof (induction now i p ts S arbitrary: S' rule: register_tasks.induct)
  case (2 now i p t ti ts S)
  from "2.prems" obtain A B C where st: "upd_task t (\<lambda>x. x\<lparr>tid := ti_tid ti, t_strategy := ti_strategy ti, t_interval := ti_interval ti, t_client := p\<rparr>) S = Some A"
    "on_links (INIT_LIST_HEAD t) A = Some B" "mc_task_active (now i) t B = Some C" "register_tasks now (Suc i) p ts C = Some S'"
    by (auto simp: bind_eq_Some_conv)
  from "2.IH" [OF st(1,2,3,4)] sys_upd(2) [OF st(1)] sys_upd(4) [OF st(2)] sys_active(1) [OF st(3)] show ?case by simp
qed simp

lemma sys_construct_out: "construct_out now r q p S = Some S' \<Longrightarrow> sys_of S' = sys_of S"
  by (auto simp: construct_out_def bind_eq_Some_conv dest!: sys_upd sys_active sys_register_tasks)

lemma sys_construct_new: "construct_new r p ts S = Some S' \<Longrightarrow> sys_of S' = sys_of S"
  by (auto simp: construct_new_def bind_eq_Some_conv Let_def dest!: sys_upd split: if_splits)

lemma sys_construct: "mcd_client_construct now client tasks r q S = Some (p, S') \<Longrightarrow> sys_of S' = sys_of S"
proof -
  assume a: "mcd_client_construct now client tasks r q S = Some (p, S')"
  then obtain dead found where f: "find_dead r dead S = Some found"
    and rest: "(case found of
       Some p \<Rightarrow> do {
         S \<leftarrow> on_links (list_del_init p) S;
         c \<leftarrow> clients S p;
         let S = (if has (c_state c) (MC_CLIENT_STARTING OR MC_CLIENT_PRESTART) then emit (Timing_unregister p) S else S);
         S \<leftarrow> construct_out now r q p S;
         Some (p, S)
       }
     | None \<Rightarrow>
         (case (client, tasks) of
            (Some p, Some ts) \<Rightarrow> do {
              S \<leftarrow> construct_new r p ts S;
              S \<leftarrow> construct_out now r q p S;
              Some (p, S)
            }
          | _ \<Rightarrow> Some (NULL, S))) = Some (p, S')"
    unfolding mcd_client_construct_def bind_eq_Some_conv by blast
  show ?thesis
  proof (cases found)
    case None
    with rest show ?thesis
      by (cases client; cases tasks) (auto simp: bind_eq_Some_conv dest!: sys_construct_out sys_construct_new)
  next
    case (Some x)
    with rest obtain A and c :: mc_client where "on_links (list_del_init x) S = Some A"
      "construct_out now r q x (if has (c_state c) (MC_CLIENT_STARTING OR MC_CLIENT_PRESTART) then emit (Timing_unregister x) A else A) = Some S'"
      by (auto simp: bind_eq_Some_conv Let_def)
    then show ?thesis using sys_upd(4) sys_construct_out by (fastforce split: if_splits)
  qed
qed

lemma sys_destroy: "mcd_client_destroy p S = Some S' \<Longrightarrow> sys_of S' = sys_of S"
  by (auto simp: mcd_client_destroy_def bind_eq_Some_conv split: if_splits dest!: sys_upd)

section \<open>The invariant\<close>

definition ids :: "mc_struct \<Rightarrow> (mc_subscriber \<Rightarrow> bool) \<Rightarrow> nat set" where
  "ids S P = index ` {s \<in> ran (subs S). P s}"

definition in_system :: "mc_subscriber \<Rightarrow> bool" where
  "in_system s \<longleftrightarrow> s_mask s AND MC_SYSTEM_MASK \<noteq> 0"

definition sized :: "longs \<Rightarrow> bool" where "sized b \<longleftrightarrow> length b = MC_BITMAP_SIZE"

definition subs_inv :: "mc_struct \<Rightarrow> bool" where
  "subs_inv S \<longleftrightarrow> finite (dom (subs S)) \<and> subscribers S = card (dom (subs S)) \<and>
     (\<forall>q q' s s'. subs S q = Some s \<and> subs S q' = Some s' \<and> index s = index s' \<longrightarrow> q = q') \<and>
     sized (index_stock S) \<and> bits_of (index_stock S) = ids S (\<lambda>_. True) \<and>
     sized (full_bitmap S) \<and> bits_of (full_bitmap S) = ids S in_system"

definition sync_inv :: "longs \<Rightarrow> bool \<Rightarrow> mc_synchor \<Rightarrow> bool" where
  "sync_inv full woken y \<longleftrightarrow> sized (ack_bitmap y) \<and> bits_of (ack_bitmap y) \<subseteq> bits_of full \<and>
     (woken \<and> syn_wait y \<and> ack_bitmap y = full \<longrightarrow> syn_signalled y)"

definition vote_inv :: "longs \<Rightarrow> mc_referee \<Rightarrow> bool" where
  "vote_inv full r \<longleftrightarrow> sized (vote_bitmap r) \<and> bits_of (vote_bitmap r) \<subseteq> bits_of full \<and>
     sized (vote_approved r) \<and> bits_of (vote_approved r) \<subseteq> bits_of full \<and>
     (ref_wait r \<and> vote_bitmap r = full \<longrightarrow> ref_signalled r)"

definition sys_inv :: "mc_struct \<Rightarrow> bool" where
  "sys_inv S \<longleftrightarrow> subs_inv S \<and> (\<forall>k. sync_inv (full_bitmap S) (k \<noteq> MC_SYN_RESUME) (synchors S k)) \<and> (\<forall>k. vote_inv (full_bitmap S) (referees S k))"

lemma sys_of_inv: "sys_of S' = sys_of S \<Longrightarrow> sys_inv S' = sys_inv S"
  by (simp add: sys_of_def sys_inv_def subs_inv_def ids_def)

lemma bits_of_inj:
  assumes "length a = length b" and "bits_of a = bits_of b"
  shows "a = b"
proof (rule nth_equalityI [OF assms(1)])
  fix i assume i: "i < length a"
  have "bit (a ! i) n = bit (b ! i) n" if "n < 64" for n
  proof -
    have "i * 64 + n < 64 * length a" using i that by linarith
    moreover have "(i * 64 + n) div 64 = i" "(i * 64 + n) mod 64 = n" using that by auto
    ultimately show ?thesis using assms unfolding bits_of_def set_eq_iff by (metis (mono_tags, lifting) mem_Collect_eq)
  qed
  then show "a ! i = b ! i" by (intro bit_word_eqI) simp
qed

lemma sized_eq: "sized a \<Longrightarrow> sized b \<Longrightarrow> a = b \<longleftrightarrow> bits_of a = bits_of b"
  using bits_of_inj by (auto simp: sized_def)

lemma sized_bits: "sized b \<Longrightarrow> i \<in> bits_of b \<Longrightarrow> i < MC_CLIENT_MAX"
  by (simp add: sized_def bits_of_def MC_CLIENT_MAX_def MC_BITMAP_SIZE_def BITS_PER_LONG_def)

lemma set_bit_sized: "sized b \<Longrightarrow> i < MC_CLIENT_MAX \<Longrightarrow> \<exists>b'. set_bit i b = Some b' \<and> sized b' \<and> bits_of b' = insert i (bits_of b)"
  using bit_array_set [of i b] by (simp add: sized_def MC_CLIENT_MAX_def MC_BITMAP_SIZE_def BITS_PER_LONG_def)

lemma clear_bit_sized: "sized b \<Longrightarrow> i < MC_CLIENT_MAX \<Longrightarrow> \<exists>b'. clear_bit i b = Some b' \<and> sized b' \<and> bits_of b' = bits_of b - {i}"
  using bit_array_clear [of i b] by (simp add: sized_def MC_CLIENT_MAX_def MC_BITMAP_SIZE_def BITS_PER_LONG_def)

lemma zero_bitmap_ok: "sized zero_bitmap" "bits_of zero_bitmap = {}"
  by (auto simp: sized_def zero_bitmap_def bits_of_def)

section \<open>The operations\<close>

lemma ids_upd:
  assumes "subs S q = None"
  shows "ids (S\<lparr>subs := (subs S)(q \<mapsto> s)\<rparr>) P = (if P s then insert (index s) (ids S P) else ids S P)"
proof -
  have "ran ((subs S)(q \<mapsto> s)) = insert s (ran (subs S))" using assms by (rule ran_map_upd)
  then show ?thesis by (simp add: ids_def) blast
qed

lemma ids_del:
  assumes "subs_inv S" and "subs S q = Some s"
  shows "ids (S\<lparr>subs := (subs S)(q := None)\<rparr>) P = ids S P - {index s}"
proof -
  have u: "q' = q" if "subs S q' = Some s'" "index s' = index s" for q' s' using assms that unfolding subs_inv_def by blast
  have r: "x \<in> ran ((subs S)(q := None)) \<longleftrightarrow> x \<in> ran (subs S) \<and> index x \<noteq> index s" for x
  proof
    assume "x \<in> ran ((subs S)(q := None))"
    then obtain q' where q': "q' \<noteq> q" "subs S q' = Some x" by (auto simp: ran_def split: if_splits)
    then show "x \<in> ran (subs S) \<and> index x \<noteq> index s" using u ranI by metis
  next
    assume "x \<in> ran (subs S) \<and> index x \<noteq> index s"
    then obtain q' where q': "subs S q' = Some x" "index x \<noteq> index s" by (auto simp: ran_def)
    then have "q' \<noteq> q" using assms(2) by auto
    with q' show "x \<in> ran ((subs S)(q := None))" by (auto simp: ran_def)
  qed
  show ?thesis unfolding ids_def by (auto simp: r)
qed

lemma upd_sync_simps [simp]:
  "synchors (upd_sync k f S) = (synchors S)(k := f (synchors S k))" "referees (upd_sync k f S) = referees S"
  "full_bitmap (upd_sync k f S) = full_bitmap S" "subs (upd_sync k f S) = subs S" "index_stock (upd_sync k f S) = index_stock S"
  "subscribers (upd_sync k f S) = subscribers S"
  by (simp_all add: upd_sync_def)

lemma upd_vote_simps [simp]:
  "referees (upd_vote k g S) = (referees S)(k := g (referees S k))" "synchors (upd_vote k g S) = synchors S"
  "full_bitmap (upd_vote k g S) = full_bitmap S" "subs (upd_vote k g S) = subs S" "index_stock (upd_vote k g S) = index_stock S"
  "subscribers (upd_vote k g S) = subscribers S"
  by (simp_all add: upd_vote_def)

lemma subs_inv_upd [simp]: "subs_inv (upd_sync k f S) = subs_inv S" "subs_inv (upd_vote l g S) = subs_inv S"
  by (simp_all add: subs_inv_def ids_def)

lemma sys_inv_sync:
  assumes "sys_inv S" and "sync_inv (full_bitmap S) (k \<noteq> MC_SYN_RESUME) (f (synchors S k))"
  shows "sys_inv (upd_sync k f S)"
  using assms by (simp add: sys_inv_def)

lemma sys_inv_vote:
  assumes "sys_inv S" and "vote_inv (full_bitmap S) (f (referees S k))"
  shows "sys_inv (upd_vote k f S)"
  using assms by (simp add: sys_inv_def)

lemma sys_invD:
  assumes "sys_inv S"
  shows "subs_inv S" "sync_inv (full_bitmap S) (k \<noteq> MC_SYN_RESUME) (synchors S k)" "vote_inv (full_bitmap S) (referees S l)" "sized (full_bitmap S)"
  using assms by (auto simp: sys_inv_def subs_inv_def)

lemma sys_inv_emit [simp]: "sys_inv (emit e S) = sys_inv S"
  by (rule sys_of_inv) simp

text \<open>A barrier.\<close>

lemma mc_synchor_wait_inv: "sys_inv S \<Longrightarrow> sys_inv (snd (mc_synchor_wait k S))"
proof -
  assume inv: "sys_inv S"
  define T where "T = (if \<not> syn_wait (synchors S k)
               then emit (Publish MC_SYSTEM_MASK (sync_ind k) []) (upd_sync k (\<lambda>y. y\<lparr>ack_bitmap := zero_bitmap\<rparr>) S) else S)"
  have i: "sys_inv T"
    unfolding T_def using inv zero_bitmap_ok by (auto simp: sync_inv_def intro!: sys_inv_sync)
  have "sys_inv (upd_sync k (\<lambda>y. y\<lparr>syn_wait := True, syn_signalled := False\<rparr>) T)" if "\<not> is_bitmap_full (ack_bitmap (synchors T k)) T"
    using sys_invD(2) [OF i, of k] that by (intro sys_inv_sync [OF i]) (simp add: sync_inv_def is_bitmap_full_def)
  moreover have "mc_synchor_wait k S = (if \<not> is_bitmap_full (ack_bitmap (synchors T k)) T then (True, upd_sync k (\<lambda>y. y\<lparr>syn_wait := True, syn_signalled := False\<rparr>) T) else (False, T))"
    unfolding mc_synchor_wait_def T_def Let_def ..
  ultimately show ?thesis using i by simp
qed

lemma mc_synchor_done_inv: "sys_inv S \<Longrightarrow> sys_inv (mc_synchor_done k waited S)"
  using sys_invD(2) [of S k] by (auto simp: mc_synchor_done_def sync_inv_def Let_def intro!: sys_inv_sync)

lemma mc_referee_wait_inv: "sys_inv S \<Longrightarrow> sys_inv (snd (mc_referee_wait k S))"
proof -
  assume inv: "sys_inv S"
  define T where "T = (if \<not> ref_wait (referees S k)
               then emit (Publish MC_SYSTEM_MASK (vote_ind k) [])
                      (upd_vote k (\<lambda>r. r\<lparr>vote_approved := full_bitmap S, vote_bitmap := zero_bitmap\<rparr>) S) else S)"
  have i: "sys_inv T"
    unfolding T_def using inv zero_bitmap_ok sys_invD(4) [OF inv] by (auto simp: vote_inv_def intro!: sys_inv_vote)
  have "sys_inv (upd_vote k (\<lambda>r. r\<lparr>ref_wait := True, ref_signalled := False\<rparr>) T)" if "\<not> is_bitmap_full (vote_bitmap (referees T k)) T"
    using sys_invD(3) [OF i, of k] that by (intro sys_inv_vote [OF i]) (simp add: vote_inv_def is_bitmap_full_def)
  moreover have "mc_referee_wait k S = (if \<not> is_bitmap_full (vote_bitmap (referees T k)) T then (True, upd_vote k (\<lambda>r. r\<lparr>ref_wait := True, ref_signalled := False\<rparr>) T) else (False, T))"
    unfolding mc_referee_wait_def T_def Let_def ..
  ultimately show ?thesis using i by simp
qed

lemma mc_referee_done_inv: "sys_inv S \<Longrightarrow> sys_inv (snd (mc_referee_done k waited S))"
  using sys_invD(3) [of S k] by (auto simp: mc_referee_done_def vote_inv_def Let_def intro!: sys_inv_vote)

text \<open>Acknowledgements and votes.\<close>

lemma subs_index:
  assumes "subs_inv S" and "subs S q = Some s"
  shows "index s < MC_CLIENT_MAX" "index s \<in> bits_of (index_stock S)" "in_system s \<longleftrightarrow> index s \<in> bits_of (full_bitmap S)"
proof -
  have m: "s \<in> ran (subs S)" using assms(2) by (rule ranI)
  then show i: "index s \<in> bits_of (index_stock S)" using assms(1) by (auto simp: subs_inv_def ids_def)
  then show "index s < MC_CLIENT_MAX" using assms(1) sized_bits by (auto simp: subs_inv_def)
  show "in_system s \<longleftrightarrow> index s \<in> bits_of (full_bitmap S)"
  proof
    assume "in_system s"
    with m show "index s \<in> bits_of (full_bitmap S)" using assms(1) by (auto simp: subs_inv_def ids_def)
  next
    assume "index s \<in> bits_of (full_bitmap S)"
    then obtain s' where s': "s' \<in> ran (subs S)" "in_system s'" "index s' = index s" using assms(1) by (auto simp: subs_inv_def ids_def)
    then obtain q' where "subs S q' = Some s'" by (auto simp: ran_def)
    with s'(3) assms have "q' = q" unfolding subs_inv_def by blast
    with \<open>subs S q' = Some s'\<close> assms(2) s'(2) show "in_system s" by simp
  qed
qed

lemma mcd_client_ack_ok:
  assumes inv: "sys_inv S" and q: "subs S q = Some s" "cookie_type s = MC_IPC_COOKIE_CLIENT" "in_system s"
  shows "\<exists>S'. mcd_client_ack_msg True (User_cookie q) (Some k) S = Some (0, S') \<and> sys_inv S' \<and>
    full_bitmap S' = full_bitmap S \<and> subs S' = subs S \<and>
    bits_of (ack_bitmap (synchors S' k)) = insert (index s) (bits_of (ack_bitmap (synchors S k))) \<and>
    (syn_signalled (synchors S' k) \<longleftrightarrow> syn_signalled (synchors S k) \<or>
       syn_wait (synchors S k) \<and> bits_of (ack_bitmap (synchors S' k)) = bits_of (full_bitmap S))"
proof -
  note ix = subs_index [OF sys_invD(1) [OF inv] q(1)]
  have y: "sync_inv (full_bitmap S) (k \<noteq> MC_SYN_RESUME) (synchors S k)" using inv by (rule sys_invD)
  then obtain b where b: "set_bit (index s) (ack_bitmap (synchors S k)) = Some b" "sized b"
      "bits_of b = insert (index s) (bits_of (ack_bitmap (synchors S k)))"
    using set_bit_sized ix(1) unfolding sync_inv_def by blast
  let ?T = "upd_sync k (\<lambda>y. y\<lparr>ack_bitmap := b\<rparr>) S"
  let ?S = "if is_bitmap_full b ?T \<and> syn_wait (synchors ?T k) then sync_broadcast k ?T else ?T"
  have r: "mcd_client_ack_msg True (User_cookie q) (Some k) S = Some (0, ?S)"
    using b(1) q by (simp add: mcd_client_ack_msg_def is_client_def in_system_def Let_def)
  have full: "is_bitmap_full b ?T \<longleftrightarrow> bits_of b = bits_of (full_bitmap S)"
    using sized_eq [OF b(2) sys_invD(4) [OF inv]] by (simp add: is_bitmap_full_def)
  have S: "?S = upd_sync k (\<lambda>y. y\<lparr>ack_bitmap := b, syn_signalled := syn_signalled y \<or> syn_wait y \<and> b = full_bitmap S\<rparr>) S"
    by (auto simp: sync_broadcast_def upd_sync_def is_bitmap_full_def)
  have sub: "bits_of b \<subseteq> bits_of (full_bitmap S)" using y ix(3) q(3) b(3) by (auto simp: sync_inv_def)
  have "sys_inv ?S" unfolding S using y b(2) sub by (intro sys_inv_sync [OF inv]) (auto simp: sync_inv_def)
  with r b(3) show ?thesis unfolding S using sized_eq [OF b(2) sys_invD(4) [OF inv]] by auto
qed

lemma mcd_client_vote_ok:
  assumes inv: "sys_inv S" and q: "subs S q = Some s" "cookie_type s = MC_IPC_COOKIE_CLIENT" "in_system s"
  shows "\<exists>S'. mcd_client_vote_msg True (User_cookie q) (Some k) approved S = Some (0, S') \<and> sys_inv S' \<and>
    full_bitmap S' = full_bitmap S \<and> subs S' = subs S \<and>
    bits_of (vote_bitmap (referees S' k)) = insert (index s) (bits_of (vote_bitmap (referees S k))) \<and>
    bits_of (vote_approved (referees S' k)) = bits_of (vote_approved (referees S k)) - (if approved then {} else {index s}) \<and>
    (ref_signalled (referees S' k) \<longleftrightarrow> ref_signalled (referees S k) \<or>
       ref_wait (referees S k) \<and> bits_of (vote_bitmap (referees S' k)) = bits_of (full_bitmap S))"
proof -
  note ix = subs_index [OF sys_invD(1) [OF inv] q(1)]
  have y: "vote_inv (full_bitmap S) (referees S k)" using inv by (rule sys_invD)
  then obtain b where b: "set_bit (index s) (vote_bitmap (referees S k)) = Some b" "sized b"
      "bits_of b = insert (index s) (bits_of (vote_bitmap (referees S k)))"
    using set_bit_sized ix(1) unfolding vote_inv_def by blast
  obtain a where a: "(if approved then Some (vote_approved (referees S k)) else clear_bit (index s) (vote_approved (referees S k))) = Some a"
      "sized a" "bits_of a = bits_of (vote_approved (referees S k)) - (if approved then {} else {index s})"
    using clear_bit_sized [of "vote_approved (referees S k)" "index s"] ix(1) y by (cases approved) (auto simp: vote_inv_def)
  let ?T = "upd_vote k (\<lambda>r. r\<lparr>vote_bitmap := b, vote_approved := a\<rparr>) S"
  let ?S = "if is_bitmap_full b ?T \<and> ref_wait (referees ?T k) then vote_broadcast k ?T else ?T"
  have r: "mcd_client_vote_msg True (User_cookie q) (Some k) approved S = Some (0, ?S)"
    using b(1) a(1) q by (simp add: mcd_client_vote_msg_def is_client_def in_system_def Let_def)
  have S: "?S = upd_vote k (\<lambda>r. r\<lparr>vote_bitmap := b, vote_approved := a, ref_signalled := ref_signalled r \<or> ref_wait r \<and> b = full_bitmap S\<rparr>) S"
    by (auto simp: vote_broadcast_def upd_vote_def is_bitmap_full_def)
  have sub: "bits_of b \<subseteq> bits_of (full_bitmap S)" "bits_of a \<subseteq> bits_of (full_bitmap S)" using y ix(3) q(3) b(3) a(3) by (auto simp: vote_inv_def)
  have "sys_inv ?S" unfolding S using y b(2) a(2) sub by (intro sys_inv_vote [OF inv]) (auto simp: vote_inv_def)
  with r b(3) a(3) show ?thesis unfolding S using sized_eq [OF b(2) sys_invD(4) [OF inv]] by auto
qed

text \<open>Registration and release.\<close>

lemma all_bitmaps_ok:
  assumes inv: "sys_inv S" and f: "\<And>b. sized b \<Longrightarrow> \<exists>b'. f b = Some b' \<and> sized b' \<and> bits_of b' = g (bits_of b)"
  shows "\<exists>S'. all_bitmaps f S = Some S' \<and> subs S' = subs S \<and> index_stock S' = index_stock S \<and> subscribers S' = subscribers S \<and>
    sized (full_bitmap S') \<and> bits_of (full_bitmap S') = g (bits_of (full_bitmap S)) \<and>
    (\<forall>k. \<exists>a. synchors S' k = (synchors S k)\<lparr>ack_bitmap := a\<rparr> \<and> sized a \<and> bits_of a = g (bits_of (ack_bitmap (synchors S k)))) \<and>
    (\<forall>k. \<exists>b c. referees S' k = (referees S k)\<lparr>vote_bitmap := b, vote_approved := c\<rparr> \<and> sized b \<and> sized c \<and>
       bits_of b = g (bits_of (vote_bitmap (referees S k))) \<and> bits_of c = g (bits_of (vote_approved (referees S k))))"
proof -
  have z: "sized (ack_bitmap (synchors S k))" "sized (vote_bitmap (referees S l))" "sized (vote_approved (referees S l))" for k l
    using sys_invD(2,3) [OF inv] by (auto simp: sync_inv_def vote_inv_def)
  define h where "h b = the (f b)" for b
  have h: "f b = Some (h b)" "sized (h b)" "bits_of (h b) = g (bits_of b)" if z: "sized b" for b
  proof -
    obtain b' where b': "f b = Some b'" "sized b'" "bits_of b' = g (bits_of b)" using f [OF z] by blast
    then have "h b = b'" by (simp add: h_def)
    with b' show "f b = Some (h b)" "sized (h b)" "bits_of (h b) = g (bits_of b)" by simp_all
  qed
  let ?S = "upd_vote MC_APPLY_REBOOT (\<lambda>r. r\<lparr>vote_bitmap := h (vote_bitmap (referees S MC_APPLY_REBOOT)), vote_approved := h (vote_approved (referees S MC_APPLY_REBOOT))\<rparr>)
     (upd_vote MC_APPLY_SLEEP (\<lambda>r. r\<lparr>vote_bitmap := h (vote_bitmap (referees S MC_APPLY_SLEEP)), vote_approved := h (vote_approved (referees S MC_APPLY_SLEEP))\<rparr>)
     (upd_sync MC_SYN_REBOOT (\<lambda>y. y\<lparr>ack_bitmap := h (ack_bitmap (synchors S MC_SYN_REBOOT))\<rparr>)
     (upd_sync MC_SYN_RESUME (\<lambda>y. y\<lparr>ack_bitmap := h (ack_bitmap (synchors S MC_SYN_RESUME))\<rparr>)
     (upd_sync MC_SYN_SLEEP (\<lambda>y. y\<lparr>ack_bitmap := h (ack_bitmap (synchors S MC_SYN_SLEEP))\<rparr>) (S\<lparr>full_bitmap := h (full_bitmap S)\<rparr>)))))"
  have "all_bitmaps f S = Some ?S" 
    unfolding all_bitmaps_def Let_def h(1) [OF z(1)] h(1) [OF z(2)] h(1) [OF z(3)] h(1) [OF sys_invD(4) [OF inv]] bind.bind_lunit ..
  moreover have "synchors ?S k = (synchors S k)\<lparr>ack_bitmap := h (ack_bitmap (synchors S k))\<rparr>" for k by (cases k) simp_all
  moreover have "referees ?S k = (referees S k)\<lparr>vote_bitmap := h (vote_bitmap (referees S k)), vote_approved := h (vote_approved (referees S k))\<rparr>" for k
    by (cases k) simp_all
  ultimately show ?thesis using h(2,3) z sys_invD(4) [OF inv] by (intro exI [of _ ?S]) (simp, blast)
qed

lemma stock_room: "subs_inv S \<Longrightarrow> subscribers S < MC_CLIENT_MAX \<Longrightarrow>
   \<exists>i a. first_bit_zero (index_stock S) = Some i \<and> i < MC_CLIENT_MAX \<and> i \<notin> bits_of (index_stock S) \<and>
     set_bit i (index_stock S) = Some a \<and> sized a \<and> bits_of a = insert i (bits_of (index_stock S))"
proof -
  assume inv: "subs_inv S" and lt: "subscribers S < MC_CLIENT_MAX"
  have z: "sized (index_stock S)" and f: "finite (dom (subs S))" using inv by (auto simp: subs_inv_def)
  have "bits_of (index_stock S) = index ` ran (subs S)" using inv by (simp add: subs_inv_def ids_def)
  moreover have "index ` ran (subs S) \<subseteq> (\<lambda>q. index (the (subs S q))) ` dom (subs S)"
  proof
    fix i assume "i \<in> index ` ran (subs S)"
    then obtain s where s: "s \<in> ran (subs S)" "i = index s" by (rule imageE)
    then obtain q where q: "subs S q = Some s" unfolding ran_def by blast
    with s have "i = index (the (subs S q))" "q \<in> dom (subs S)" by (simp_all add: domI)
    then show "i \<in> (\<lambda>q. index (the (subs S q))) ` dom (subs S)" by (rule image_eqI)
  qed
  moreover have "subscribers S = card (dom (subs S))" using inv by (simp add: subs_inv_def)
  ultimately have c: "card (bits_of (index_stock S)) \<le> subscribers S"
    using card_image_le [OF f, of "\<lambda>q. index (the (subs S q))"] card_mono [OF finite_imageI [OF f]] by (metis order.trans)
  have "bits_of (index_stock S) \<noteq> {..<MC_CLIENT_MAX}"
  proof
    assume "bits_of (index_stock S) = {..<MC_CLIENT_MAX}"
    then have "card (bits_of (index_stock S)) = MC_CLIENT_MAX" by (simp only: card_lessThan)
    with c lt show False by linarith
  qed
  moreover have l: "64 * length (index_stock S) = MC_CLIENT_MAX" using z by (simp add: sized_def MC_CLIENT_MAX_def MC_BITMAP_SIZE_def BITS_PER_LONG_def)
  moreover have "bits_of (index_stock S) \<subseteq> {..<MC_CLIENT_MAX}" using sized_bits [OF z] by blast
  ultimately obtain n where n: "n < MC_CLIENT_MAX" "n \<notin> bits_of (index_stock S)" by blast
  from first_exists [of "\<lambda>n. n \<notin> bits_of (index_stock S)", OF n(2)] obtain i where i: "first_such (\<lambda>n. n \<notin> bits_of (index_stock S)) i" by blast
  then have "i \<le> n" using n(2) by (auto simp: first_such_def linorder_not_less [symmetric])
  then have lt': "i < MC_CLIENT_MAX" using n(1) by simp
  then have "first_bit_zero (index_stock S) = Some i" using i l first_bit_zero_iff by simp
  with i lt' set_bit_sized [OF z lt'] show ?thesis by (auto simp: first_such_def)
qed

lemma sync_inv_insert:
  assumes "sync_inv full w y" and "sized full" and "i \<notin> bits_of full" and "sized full'" and "bits_of full' = insert i (bits_of full)"
    and "sized a" and "bits_of a = insert i (bits_of (ack_bitmap y))"
  shows "sync_inv full' w (y\<lparr>ack_bitmap := a\<rparr>)"
proof -
  have "a = full' \<Longrightarrow> ack_bitmap y = full"
    using assms sized_eq [of "ack_bitmap y" full] by (auto simp: sync_inv_def)
  with assms show ?thesis by (auto simp: sync_inv_def)
qed

lemma vote_inv_insert:
  assumes "vote_inv full r" and "sized full" and "i \<notin> bits_of full" and "sized full'" and "bits_of full' = insert i (bits_of full)"
    and "sized b" and "bits_of b = insert i (bits_of (vote_bitmap r))" and "sized c" and "bits_of c = insert i (bits_of (vote_approved r))"
  shows "vote_inv full' (r\<lparr>vote_bitmap := b, vote_approved := c\<rparr>)"
proof -
  have "b = full' \<Longrightarrow> vote_bitmap r = full"
    using assms sized_eq [of "vote_bitmap r" full] by (auto simp: vote_inv_def)
  with assms show ?thesis by (auto simp: vote_inv_def)
qed

lemma subs_inv_insert:
  assumes inv: "subs_inv S" and q: "subs S q = None" and i: "index s \<notin> bits_of (index_stock S)"
    and S': "subs S' = (subs S)(q \<mapsto> s)" "subscribers S' = subscribers S + 1"
      "sized (index_stock S')" "bits_of (index_stock S') = insert (index s) (bits_of (index_stock S))"
      "sized (full_bitmap S')" "bits_of (full_bitmap S') = (if in_system s then insert (index s) (bits_of (full_bitmap S)) else bits_of (full_bitmap S))"
  shows "subs_inv S'"
proof -
  have b: "finite (dom (subs S))" "card (dom (subs S)) = subscribers S" "q \<notin> dom (subs S)" using inv q by (simp_all add: subs_inv_def domIff)
  have d: "dom (subs S') = insert q (dom (subs S))" by (simp add: S'(1))
  have c: "finite (dom (subs S'))" "subscribers S' = card (dom (subs S'))"
    unfolding d S'(2) using b card_insert_disjoint [OF b(1,3)] by (simp_all only: finite_insert Suc_eq_plus1)
  have inj: "q1 = q2" if m: "subs S' q1 = Some s1" "subs S' q2 = Some s2" "index s1 = index s2" for q1 q2 s1 s2
  proof -
    have new: "index s' \<noteq> index s" if "subs S q' = Some s'" for q' s' using subs_index(2) [OF inv that] i by metis
    have old: "subs S q1 = Some s1 \<Longrightarrow> subs S q2 = Some s2 \<Longrightarrow> q1 = q2" using inv m(3) unfolding subs_inv_def by blast
    show "q1 = q2" using m new old unfolding S'(1) by (cases "q1 = q"; cases "q2 = q") auto
  qed
  have ids: "ids S' P = (if P s then insert (index s) (ids S P) else ids S P)" for P
    using ids_upd [OF q, of s P] S'(1) by (simp add: ids_def)
  have e: "bits_of (index_stock S) = ids S (\<lambda>_. True)" "bits_of (full_bitmap S) = ids S in_system" using inv by (simp_all add: subs_inv_def)
  show ?thesis unfolding subs_inv_def ids S'(4) S'(6) e using c inj S'(3,5) by (intro conjI) (blast | simp)+
qed

lemma subs_inv_delete:
  assumes inv: "subs_inv S" and q: "subs S q = Some s"
    and S': "subs S' = (subs S)(q := None)" "subscribers S' = subscribers S - 1"
      "sized (index_stock S')" "bits_of (index_stock S') = bits_of (index_stock S) - {index s}"
      "sized (full_bitmap S')" "bits_of (full_bitmap S') = bits_of (full_bitmap S) - {index s}"
  shows "subs_inv S'"
proof -
  have b: "finite (dom (subs S))" "card (dom (subs S)) = subscribers S" "q \<in> dom (subs S)" using inv q by (simp_all add: subs_inv_def domI)
  have d: "dom (subs S') = dom (subs S) - {q}" by (simp add: S'(1))
  have c: "finite (dom (subs S'))" "subscribers S' = card (dom (subs S'))"
    unfolding d S'(2) using b card_Diff_singleton [OF b(3)] by (simp_all only: finite_Diff)
  have inj: "q1 = q2" if m: "subs S' q1 = Some s1" "subs S' q2 = Some s2" "index s1 = index s2" for q1 q2 s1 s2
  proof -
    have "subs S q1 = Some s1" "subs S q2 = Some s2" using m(1,2) unfolding S'(1) by (auto split: if_splits)
    then show "q1 = q2" using inv m(3) unfolding subs_inv_def by blast
  qed
  have ids: "ids S' P = ids S P - {index s}" for P using ids_del [OF inv q, of P] S'(1) by (simp add: ids_def)
  have e: "bits_of (index_stock S) = ids S (\<lambda>_. True)" "bits_of (full_bitmap S) = ids S in_system" using inv by (simp_all add: subs_inv_def)
  show ?thesis unfolding subs_inv_def ids S'(4) S'(6) e using c inj S'(3,5) by (intro conjI) (blast | simp)+
qed

text \<open>The bitmaps do not depend on the maps of the subscribers.\<close>

lemma all_bitmaps_comm:
  assumes "all_bitmaps f S = Some V"
  shows "all_bitmaps f (S\<lparr>index_stock := a, subs := m\<rparr>) = Some (V\<lparr>index_stock := a, subs := m\<rparr>)"
  using assms by (auto simp: all_bitmaps_def upd_sync_def upd_vote_def Let_def bind_eq_Some_conv)

lemma register_bind_ok:
  assumes inv: "sys_inv S" and room: "subscribers S < MC_CLIENT_MAX" and q: "subs S q = None"
  shows "\<exists>S' s. register_bind True q sevr msk p ctype S = Some (0, S') \<and> sys_inv S' \<and> subs S' = (subs S)(q \<mapsto> s) \<and>
    index s \<notin> bits_of (index_stock S) \<and> s_mask s = msk \<and> cookie_type s = ctype"
proof -
  note si = sys_invD(1) [OF inv]
  from stock_room [OF si room] obtain i a where
    i: "first_bit_zero (index_stock S) = Some i" "i < MC_CLIENT_MAX" "i \<notin> bits_of (index_stock S)"
      "set_bit i (index_stock S) = Some a" "sized a" "bits_of a = insert i (bits_of (index_stock S))" by blast
  define s where "s = \<lparr>cookie_type = ctype, index = i, s_sevr = sevr, s_mask = msk, s_client = p\<rparr>"
  let ?T = "S\<lparr>index_stock := a, subs := (subs S)(q \<mapsto> s)\<rparr>"
  have ix: "index s = i" "in_system s \<longleftrightarrow> msk AND MC_SYSTEM_MASK \<noteq> 0" "s_mask s = msk" "cookie_type s = ctype"
    by (simp_all add: s_def in_system_def)
  have sub: "i \<notin> bits_of (full_bitmap S)" using si i(3) by (auto simp: subs_inv_def ids_def)
  have un: "register_bind True q sevr msk p ctype S =
      do { S \<leftarrow> (if in_system s then all_bitmaps (set_bit i) ?T else Some ?T); Some (0, S\<lparr>subscribers := subscribers S + 1\<rparr>) }"
    using i(1,4) by (simp add: register_bind_def mc_index_alloc_def s_def Let_def in_system_def)
  show ?thesis
  proof (cases "in_system s")
    case False
    let ?S = "?T\<lparr>subscribers := subscribers S + 1\<rparr>"
    have "subs_inv ?S" using subs_inv_insert [OF si q, of s ?S] i(3,5,6) ix(1) False sys_invD(4) [OF inv] by simp
    then have "sys_inv ?S" using inv by (simp add: sys_inv_def)
    moreover have "register_bind True q sevr msk p ctype S = Some (0, ?S)" using un False by simp
    ultimately show ?thesis using i(3) ix by (intro exI [of _ ?S] exI [of _ s]) simp
  next
    case True
    from all_bitmaps_ok [OF inv, of "set_bit i" "insert i"] set_bit_sized [OF _ i(2)] obtain V where
      V: "all_bitmaps (set_bit i) S = Some V" "subs V = subs S" "index_stock V = index_stock S" "subscribers V = subscribers S"
        "sized (full_bitmap V)" "bits_of (full_bitmap V) = insert i (bits_of (full_bitmap S))"
        "\<And>k. \<exists>a. synchors V k = (synchors S k)\<lparr>ack_bitmap := a\<rparr> \<and> sized a \<and> bits_of a = insert i (bits_of (ack_bitmap (synchors S k)))"
        "\<And>k. \<exists>b c. referees V k = (referees S k)\<lparr>vote_bitmap := b, vote_approved := c\<rparr> \<and> sized b \<and> sized c \<and>
           bits_of b = insert i (bits_of (vote_bitmap (referees S k))) \<and> bits_of c = insert i (bits_of (vote_approved (referees S k)))"
      by blast
    let ?S = "V\<lparr>index_stock := a, subs := (subs S)(q \<mapsto> s), subscribers := subscribers S + 1\<rparr>"
    have "subs_inv ?S" using subs_inv_insert [OF si q, of s ?S] i(3,5,6) ix(1) True V(5,6) by simp
    moreover have "sync_inv (full_bitmap V) (k \<noteq> MC_SYN_RESUME) (synchors V k)" for k
      using V(7) [of k] sync_inv_insert [OF sys_invD(2) [OF inv, of k] sys_invD(4) [OF inv] sub V(5,6)] by metis
    moreover have "vote_inv (full_bitmap V) (referees V k)" for k
      using V(8) [of k] vote_inv_insert [OF sys_invD(3) [OF inv, of k] sys_invD(4) [OF inv] sub V(5,6)] by metis
    ultimately have "sys_inv ?S" by (simp add: sys_inv_def)
    moreover have "register_bind True q sevr msk p ctype S = Some (0, ?S)"
      using un True V(4) all_bitmaps_comm [OF V(1), where a = a and m = "(subs S)(q \<mapsto> s)"] by simp
    ultimately show ?thesis using i(3) ix by (intro exI [of _ ?S] exI [of _ s]) simp
  qed
qed

lemma broadcast_if:
  "(if P then sync_broadcast k S else S) = upd_sync k (\<lambda>y. y\<lparr>syn_signalled := syn_signalled y \<or> P\<rparr>) S"
  "(if P then vote_broadcast l S else S) = upd_vote l (\<lambda>r. r\<lparr>ref_signalled := ref_signalled r \<or> P\<rparr>) S"
  by (simp_all add: sync_broadcast_def vote_broadcast_def upd_sync_def upd_vote_def)

lemma release_wakeups_sync:
  "synchors (release_wakeups S) k = (synchors S k)\<lparr>syn_signalled := syn_signalled (synchors S k) \<or>
     syn_wait (synchors S k) \<and> ack_bitmap (synchors S (if k = MC_SYN_RESUME then MC_SYN_REBOOT else k)) = full_bitmap S\<rparr>"
  by (cases k) (simp_all add: release_wakeups_def broadcast_if is_bitmap_full_def Let_def)

lemma release_wakeups_vote:
  "referees (release_wakeups S) k = (referees S k)\<lparr>ref_signalled := ref_signalled (referees S k) \<or>
     ref_wait (referees S k) \<and> vote_bitmap (referees S k) = full_bitmap S\<rparr>"
  by (cases k) (simp_all add: release_wakeups_def broadcast_if is_bitmap_full_def Let_def)

lemma release_wakeups_rest [simp]:
  "full_bitmap (release_wakeups S) = full_bitmap S" "subs (release_wakeups S) = subs S"
  "index_stock (release_wakeups S) = index_stock S" "subscribers (release_wakeups S) = subscribers S"
  by (simp_all add: release_wakeups_def broadcast_if Let_def)

lemma mc_ipc_release_ok:
  assumes inv: "sys_inv S" and q: "subs S q = Some s"
  shows "\<exists>S'. mc_ipc_release_process (User_cookie q) S = Some S' \<and> sys_inv S' \<and> subs S' = (subs S)(q := None) \<and> subscribers S' < subscribers S"
proof -
  note si = sys_invD(1) [OF inv]
  note ix = subs_index [OF si q]
  have st: "sized (index_stock S)" and pos: "0 < subscribers S"
    using si q by (auto simp: subs_inv_def card_gt_0_iff)
  obtain a where a: "clear_bit (index s) (index_stock S) = Some a" "sized a" "bits_of a = bits_of (index_stock S) - {index s}"
    using clear_bit_sized [OF st ix(1)] by blast
  show ?thesis
  proof (cases "in_system s")
    case False
    let ?S = "S\<lparr>index_stock := a, subs := (subs S)(q := None), subscribers := subscribers S - 1\<rparr>"
    have "subs_inv ?S" using subs_inv_delete [OF si q, of ?S] a ix(3) False sys_invD(4) [OF inv] by simp
    then have "sys_inv ?S" using inv by (simp add: sys_inv_def)
    moreover have "mc_ipc_release_process (User_cookie q) S = Some ?S"
      using False q a(1) by (simp add: mc_ipc_release_process_def mc_index_free_def in_system_def)
    ultimately show ?thesis using pos by (intro exI [of _ ?S]) simp
  next
    case True
    from all_bitmaps_ok [OF inv, of "clear_bit (index s)" "\<lambda>b. b - {index s}"] clear_bit_sized [OF _ ix(1)] obtain V where
      V: "all_bitmaps (clear_bit (index s)) S = Some V" "subs V = subs S" "index_stock V = index_stock S" "subscribers V = subscribers S"
        "sized (full_bitmap V)" "bits_of (full_bitmap V) = bits_of (full_bitmap S) - {index s}"
        "\<And>k. \<exists>a. synchors V k = (synchors S k)\<lparr>ack_bitmap := a\<rparr> \<and> sized a \<and> bits_of a = bits_of (ack_bitmap (synchors S k)) - {index s}"
        "\<And>k. \<exists>b c. referees V k = (referees S k)\<lparr>vote_bitmap := b, vote_approved := c\<rparr> \<and> sized b \<and> sized c \<and>
           bits_of b = bits_of (vote_bitmap (referees S k)) - {index s} \<and> bits_of c = bits_of (vote_approved (referees S k)) - {index s}"
      by blast
    let ?S = "(release_wakeups V)\<lparr>index_stock := a, subs := (subs S)(q := None), subscribers := subscribers S - 1\<rparr>"
    have "subs_inv ?S" using subs_inv_delete [OF si q, of ?S] a V(5,6) by simp
    moreover have "sync_inv (full_bitmap V) (k \<noteq> MC_SYN_RESUME) (synchors (release_wakeups V) k)" for k
    proof -
      obtain b where "synchors V k = (synchors S k)\<lparr>ack_bitmap := b\<rparr>" "sized b" "bits_of b = bits_of (ack_bitmap (synchors S k)) - {index s}"
        using V(7) [of k] by blast
      moreover have "bits_of (ack_bitmap (synchors S k)) \<subseteq> bits_of (full_bitmap S)" using sys_invD(2) [OF inv, of k] by (simp add: sync_inv_def)
      ultimately show ?thesis unfolding release_wakeups_sync sync_inv_def V(6) by auto
    qed
    moreover have "vote_inv (full_bitmap V) (referees (release_wakeups V) k)" for k
    proof -
      obtain b c where "referees V k = (referees S k)\<lparr>vote_bitmap := b, vote_approved := c\<rparr>" "sized b" "sized c"
        "bits_of b = bits_of (vote_bitmap (referees S k)) - {index s}" "bits_of c = bits_of (vote_approved (referees S k)) - {index s}"
        using V(8) [of k] by blast
      moreover have "bits_of (vote_bitmap (referees S k)) \<subseteq> bits_of (full_bitmap S)" "bits_of (vote_approved (referees S k)) \<subseteq> bits_of (full_bitmap S)"
        using sys_invD(3) [OF inv, of k] by (simp_all add: vote_inv_def)
      ultimately show ?thesis unfolding release_wakeups_vote vote_inv_def V(6) by auto
    qed
    ultimately have "sys_inv ?S" by (simp add: sys_inv_def)
    moreover have "mc_ipc_release_process (User_cookie q) S = Some ?S"
      using True q a(1) V by (simp add: mc_ipc_release_process_def mc_index_free_def in_system_def)
    ultimately show ?thesis using pos by (intro exI [of _ ?S]) simp
  qed
qed

end
