(* ===== verification/Mc_Exec.thy ===== *)
theory Mc_Exec
  imports C_Strings
begin

text \<open>
  How the daemon starts a process, \<open>mc_utils.c\<close>: a command line is cut into arguments in place, with quotes and a
  redirection, and up to three commands can be joined. A cut text is given by its value, that is up to the character that
  the code overwrites by a NUL. \<open>exec\<close> stands for \<open>mc_exec\<close>: the process started or its status, or an error.
\<close>

section \<open>The command line\<close>

definition EINVAL :: int where "EINVAL = 22"
definition ENOMEM :: int where "ENOMEM = 12"
definition ENOENT :: int where "ENOENT = 2"
definition ARGC_MAX :: nat where "ARGC_MAX = 63"

definition trunc_space :: "string \<Rightarrow> string" where
  "trunc_space s = dropWhile (\<lambda>c. c = SP) s"

definition word :: "string \<Rightarrow> string" where
  "word s = takeWhile (\<lambda>c. c \<noteq> SP) s"

text \<open>\<open>e_argv\<close> has the \<open>x\<close> arguments so far; a redirection leaves a null pointer.\<close>

record exec_args =
  e_argv :: "string option list"
  e_redirect :: "string option"
  e_append :: bool

text \<open>One round of the loop, for the text after a run of spaces: the arguments, and the text to search next.\<close>

definition cmd_arg :: "string \<Rightarrow> exec_args \<Rightarrow> int + (string \<times> exec_args)" where
  "cmd_arg p a =
     (case p of
        [] \<Rightarrow> Inr ([], a)
      | c # cs \<Rightarrow>
          let put = (\<lambda>w rest a. if length (e_argv a) + 1 > ARGC_MAX then Inl (- ENOMEM) else Inr (rest, a\<lparr>e_argv := e_argv a @ [w]\<rparr>)) in
          if c = CHR 0x22 \<or> c = CHR 0x27 then
            (case strchr c cs of None \<Rightarrow> Inl (- EINVAL) | Some (w, rest) \<Rightarrow> put (Some w) rest a)
          else if c = CHR ''>'' then
            let app = (cs \<noteq> [] \<and> hd cs = CHR ''>'');
                f = trunc_space (if app then tl cs else cs)
            in if f = [] then Inl (- EINVAL) else put None f (a\<lparr>e_redirect := Some (word f), e_append := e_append a \<or> app\<rparr>)
          else put (Some (word p)) p a)"

lemma cmd_arg_shorter: "cmd_arg p a = Inr (rest, a') \<Longrightarrow> length rest \<le> length p"
proof -
  have t: "length (trunc_space s) \<le> length s" for s by (simp add: trunc_space_def length_dropWhile_le)
  assume "cmd_arg p a = Inr (rest, a')"
  then show ?thesis
    using t [of "tl (tl p)"] t [of "tl p"]
    by (auto simp: cmd_arg_def Let_def split: list.splits option.splits if_splits dest!: strchr_shorter)
qed

function cmd_args :: "string \<Rightarrow> exec_args \<Rightarrow> int + exec_args" where
  "cmd_args p a =
     (case strchr SP p of
        None \<Rightarrow> Inr a
      | Some (_, r) \<Rightarrow> (case cmd_arg (trunc_space r) a of Inl e \<Rightarrow> Inl e | Inr (rest, a) \<Rightarrow> cmd_args rest a))"
  by auto
termination
proof (relation "measure (\<lambda>(p, a). length p)", simp)
  fix p :: string and a lr l r aa rest a'
  assume s: "strchr SP p = Some lr" "(l, r) = lr" and c: "cmd_arg (trunc_space r) a = Inr aa" "(rest, a') = aa"
  have "length rest \<le> length (trunc_space r)" using cmd_arg_shorter c by metis
  also have "\<dots> \<le> length r" by (simp add: trunc_space_def length_dropWhile_le)
  also have "\<dots> < length p" using strchr_shorter s by metis
  finally show "((rest, a'), p, a) \<in> measure (\<lambda>(p, a). length p)" by simp
qed

declare cmd_args.simps [simp del]

text \<open>A call of \<open>mc_exec\<close>: the arguments up to the null pointer, the file, whether to append, whether to wait.\<close>

type_synonym exec_call = "string list \<times> string option \<times> bool \<times> bool"

definition argv_of :: "string option list \<Rightarrow> string list" where
  "argv_of as = map the (takeWhile (\<lambda>x. x \<noteq> None) as)"

definition mc_exec_cmdline :: "(exec_call \<Rightarrow> int) \<Rightarrow> string \<Rightarrow> bool \<Rightarrow> int \<times> exec_call list" where
  "mc_exec_cmdline exec cmdline wait =
     (let p = trunc_space cmdline in
      if p = [] then (- EINVAL, [])
      else case cmd_args p \<lparr>e_argv = [Some (word p)], e_redirect = None, e_append = False\<rparr> of
        Inl err \<Rightarrow> (err, [])
      | Inr a \<Rightarrow> let call = (argv_of (e_argv a), e_redirect a, e_append a, wait) in (exec call, [call]))"

section \<open>Joined commands\<close>

definition delim :: "char \<Rightarrow> bool" where "delim c \<longleftrightarrow> c = CHR '';'' \<or> c = CHR 0x26"

definition strtok_r :: "string \<Rightarrow> (string \<times> string) option" where
  "strtok_r s =
     (let t = dropWhile delim s in
      if t = [] then None else Some (takeWhile (\<lambda>c. \<not> delim c) t, tl (dropWhile (\<lambda>c. \<not> delim c) t)))"

lemma strtok_shorter: "strtok_r s = Some (w, rest) \<Longrightarrow> length rest < length s"
proof -
  assume a: "strtok_r s = Some (w, rest)"
  let ?t = "dropWhile delim s"
  have t: "?t \<noteq> []" "rest = tl (dropWhile (\<lambda>c. \<not> delim c) ?t)" using a by (auto simp: strtok_r_def Let_def split: if_splits)
  have "length rest \<le> length (dropWhile (\<lambda>c. \<not> delim c) ?t) - 1" using t(2) by simp
  also have "\<dots> < length ?t" using length_dropWhile_le [of "\<lambda>c. \<not> delim c" ?t] t(1) by (cases ?t) auto
  also have "\<dots> \<le> length s" by (rule length_dropWhile_le)
  finally show ?thesis .
qed

text \<open>The loop over the commands. \<open>pid\<close> is the array, with \<open>None\<close> where nothing was stored; a store outside it is \<open>None\<close>.\<close>

function latch_loop :: "(exec_call \<Rightarrow> int) \<Rightarrow> string \<Rightarrow> nat \<Rightarrow> int option list \<Rightarrow> exec_call list \<Rightarrow> (nat \<times> int option list \<times> exec_call list) option" where
  "latch_loop exec outer i pid calls =
     (case strtok_r outer of
        None \<Rightarrow> Some (i, pid, calls)
      | Some (command, outer) \<Rightarrow>
          if i < length pid then
            let wait = (outer \<noteq> [] \<and> hd outer = CHR 0x26);
                (r, cs) = mc_exec_cmdline exec command wait
            in if i \<ge> 2 then Some (i + 1, pid[i := Some r], calls @ cs) else latch_loop exec outer (i + 1) (pid[i := Some r]) (calls @ cs)
          else None)"
  by auto
termination
  by (relation "measure (\<lambda>(exec, outer, i, pid, calls). length outer)") (auto, metis strtok_shorter)

declare latch_loop.simps [simp del]

text \<open>\<open>commands\<close> is the copy of the command line, \<open>None\<close> when there is no memory. A value that was never stored is \<open>None\<close>.\<close>

definition mc_process_latch :: "(exec_call \<Rightarrow> int) \<Rightarrow> string option \<Rightarrow> (int \<times> exec_call list) option" where
  "mc_process_latch exec commands =
     (case commands of
        None \<Rightarrow> Some (- ENOMEM, [])
      | Some s \<Rightarrow>
          let lead = (s \<noteq> [] \<and> hd s = CHR '';'') in
          (case latch_loop exec s (if lead then 1 else 0) [if lead then Some (- ENOENT) else None, None, None] [] of
             None \<Rightarrow> None
           | Some (i, pid, calls) \<Rightarrow> map_option (\<lambda>r. (r, calls)) (if i > 1 then pid ! 1 else pid ! 0)))"

section \<open>Arguments\<close>

definition plain :: "string \<Rightarrow> bool" where
  "plain w \<longleftrightarrow> w \<noteq> [] \<and> SP \<notin> set w \<and> hd w \<notin> {CHR 0x22, CHR 0x27, CHR ''>''}"

definition spaced :: "string list \<Rightarrow> string" where
  "spaced ws = concat (map (\<lambda>w. SP # w) ws)"

lemma word_spaced: "SP \<notin> set w \<Longrightarrow> word (w @ spaced ws) = w"
  by (cases ws) (auto simp: word_def spaced_def takeWhile_append)

lemma trunc_plain: "w \<noteq> [] \<Longrightarrow> SP \<notin> set w \<Longrightarrow> trunc_space (w @ r) = w @ r"
  by (cases w) (auto simp: trunc_space_def)

lemma cmd_args_words:
  assumes "\<forall>w\<in>set ws. plain w" and "SP \<notin> set q" and "length (e_argv a) \<le> ARGC_MAX"
  shows "cmd_args (q @ spaced ws) a =
    (if length (e_argv a) + length ws \<le> ARGC_MAX then Inr (a\<lparr>e_argv := e_argv a @ map Some ws\<rparr>) else Inl (- ENOMEM))"
  using assms
proof (induction ws arbitrary: q a)
  case Nil
  then show ?case by (simp add: cmd_args.simps [of q] spaced_def)
next
  case (Cons w ws)
  let ?r = "w @ spaced ws"
  have w: "w \<noteq> []" "SP \<notin> set w" "hd w \<notin> {CHR 0x22, CHR 0x27, CHR ''>''}" using Cons.prems(1) by (simp_all add: plain_def)
  have s: "strchr SP (q @ spaced (w # ws)) = Some (q, ?r)" using Cons.prems(2) by (simp add: spaced_def)
  have c: "cmd_arg (trunc_space ?r) a = (if length (e_argv a) + 1 > ARGC_MAX then Inl (- ENOMEM) else Inr (?r, a\<lparr>e_argv := e_argv a @ [Some w]\<rparr>))"
    using w word_spaced [OF w(2)] unfolding trunc_plain [OF w(1,2)]
    by (cases w) (auto simp: cmd_arg_def Let_def)
  have "cmd_args (q @ spaced (w # ws)) a = (case cmd_arg (trunc_space ?r) a of Inl e \<Rightarrow> Inl e | Inr (rest, a) \<Rightarrow> cmd_args rest a)"
    unfolding cmd_args.simps [of "q @ spaced (w # ws)"] s by simp
  then show ?case
    using Cons.IH [of w "a\<lparr>e_argv := e_argv a @ [Some w]\<rparr>"] Cons.prems(1) w(2) by (auto simp: c)
qed

lemma cmd_arg_bound: "cmd_arg p a = Inr (rest, a') \<Longrightarrow> length (e_argv a) \<le> ARGC_MAX \<Longrightarrow> length (e_argv a') \<le> ARGC_MAX"
  by (auto simp: cmd_arg_def Let_def split: list.splits option.splits if_splits)

lemma cmd_args_bound: "cmd_args p a = Inr a' \<Longrightarrow> length (e_argv a) \<le> ARGC_MAX \<Longrightarrow> length (e_argv a') \<le> ARGC_MAX"
proof (induction p a rule: cmd_args.induct)
  case (1 p a)
  show ?case
  proof (cases "strchr SP p")
    case None
    with "1.prems" show ?thesis by (simp add: cmd_args.simps [of p])
  next
    case (Some lr)
    then obtain l r where s: "strchr SP p = Some (l, r)" by (cases lr) simp
    show ?thesis
    proof (cases "cmd_arg (trunc_space r) a")
      case (Inl e)
      with "1.prems" s show ?thesis by (simp add: cmd_args.simps [of p])
    next
      case (Inr x)
      then obtain rest b where c: "cmd_arg (trunc_space r) a = Inr (rest, b)" by (cases x) simp
      with "1.prems"(1) s have "cmd_args rest b = Inr a'" by (simp add: cmd_args.simps [of p])
      then show ?thesis using "1.IH" [OF s refl c refl] cmd_arg_bound [OF c "1.prems"(2)] by blast
    qed
  qed
qed

lemma argv_of_Some [simp]: "argv_of (map Some ws) = ws"
  by (induction ws) (auto simp: argv_of_def)

lemma argv_of_length: "length (argv_of as) \<le> length as"
  by (simp add: argv_of_def length_takeWhile_le)

text \<open>
  A command line of words that are separated by single spaces is started with exactly these arguments, when they
  are at most 63, and refused otherwise; and whatever the command line is, the array of the arguments is never exceeded.
\<close>

theorem mc_exec_cmdline_correct:
  fixes exec :: "exec_call \<Rightarrow> int"
  assumes "w \<noteq> []" and "SP \<notin> set w" and "\<forall>x\<in>set ws. plain x"
  shows "mc_exec_cmdline exec (w @ spaced ws) wait =
      (if length ws < ARGC_MAX then (exec (w # ws, None, False, wait), [(w # ws, None, False, wait)]) else (- ENOMEM, [])) \<and>
    (\<forall>(argv, f)\<in>set (snd (mc_exec_cmdline exec s wait)). length argv \<le> ARGC_MAX)"
proof (intro conjI)
  have e: "argv_of (Some w # map Some ws) = w # ws" using argv_of_Some [of "w # ws"] by simp
  have l: "length [Some w] \<le> ARGC_MAX" by (simp add: ARGC_MAX_def)
  show "mc_exec_cmdline exec (w @ spaced ws) wait =
      (if length ws < ARGC_MAX then (exec (w # ws, None, False, wait), [(w # ws, None, False, wait)]) else (- ENOMEM, []))"
    using assms cmd_args_words [OF assms(3,2), of "\<lparr>e_argv = [Some w], e_redirect = None, e_append = False\<rparr>"] l
    by (auto simp: mc_exec_cmdline_def Let_def trunc_plain [OF assms(1,2)] word_spaced e)
  show "\<forall>(argv, f)\<in>set (snd (mc_exec_cmdline exec s wait)). length argv \<le> ARGC_MAX"
    using argv_of_length cmd_args_bound
    by (fastforce simp: mc_exec_cmdline_def Let_def ARGC_MAX_def split: sum.splits if_splits intro: order.trans)
qed

theorem mc_exec_cmdline_correct_witness:
  "mc_exec_cmdline (\<lambda>_. 7) ''ls -l /tmp'' True = (7, [([''ls'', ''-l'', ''/tmp''], None, False, True)])"
proof -
  have j: "''ls -l /tmp'' = ''ls'' @ spaced [''-l'', ''/tmp'']" by (simp add: spaced_def SP_def)
  show ?thesis unfolding j 
    by (subst mc_exec_cmdline_correct [where s = "[]", THEN conjunct1]) (simp_all add: plain_def SP_def ARGC_MAX_def)
qed

section \<open>The commands\<close>

text \<open>The commands of a joined command line, each with whether it is waited for.\<close>

function commands :: "string \<Rightarrow> (string \<times> bool) list" where
  "commands s = (case strtok_r s of None \<Rightarrow> [] | Some (c, outer) \<Rightarrow> (c, outer \<noteq> [] \<and> hd outer = CHR 0x26) # commands outer)"
  by auto
termination
  by (relation "measure length") (auto, metis strtok_shorter)

declare commands.simps [simp del]

lemma commands_sep:
  assumes "c \<noteq> []" and "\<forall>x\<in>set c. \<not> delim x" and "delim d"
  shows "commands (c @ d # rest) = (c, rest \<noteq> [] \<and> hd rest = CHR 0x26) # commands rest" "commands c = [(c, False)]"
    "commands (d # rest) = commands rest"
proof -
  have d: "dropWhile delim (c @ r) = c @ r" for r using assms(1,2) by (cases c) auto
  have t: "takeWhile (\<lambda>x. \<not> delim x) (c @ r) = c @ takeWhile (\<lambda>x. \<not> delim x) r"
      "dropWhile (\<lambda>x. \<not> delim x) (c @ r) = dropWhile (\<lambda>x. \<not> delim x) r" for r
    using assms(2) by (simp_all add: takeWhile_append2 dropWhile_append2)
  have "strtok_r (c @ r) = Some (c @ takeWhile (\<lambda>x. \<not> delim x) r, tl (dropWhile (\<lambda>x. \<not> delim x) r))" for r
    using assms(1) by (simp add: strtok_r_def d t)
  from this [of "d # rest"] this [of "[]"] have "strtok_r (c @ d # rest) = Some (c, rest)" "strtok_r c = Some (c, [])"
    using assms(3) by simp_all
  moreover have "strtok_r [] = None" by (simp add: strtok_r_def)
  ultimately show "commands (c @ d # rest) = (c, rest \<noteq> [] \<and> hd rest = CHR 0x26) # commands rest" "commands c = [(c, False)]"
    by (simp_all add: commands.simps [of "c @ d # rest"] commands.simps [of c] commands.simps [of "[]"])
  have "strtok_r (d # rest) = strtok_r rest" using assms(3) by (simp add: strtok_r_def)
  then show "commands (d # rest) = commands rest" by (simp add: commands.simps [of "d # rest"] commands.simps [of rest])
qed

definition run :: "(exec_call \<Rightarrow> int) \<Rightarrow> string \<times> bool \<Rightarrow> int \<times> exec_call list" where
  "run exec c = mc_exec_cmdline exec (fst c) (snd c)"

lemma latch_loop_eq:
  assumes "i \<le> 2" and "length pid = 3"
  shows "latch_loop exec s i pid calls =
    (let cs = take (3 - i) (commands s) in
     Some (i + length cs, take i pid @ map (\<lambda>c. Some (fst (run exec c))) cs @ drop (i + length cs) pid, calls @ concat (map (\<lambda>c. snd (run exec c)) cs)))"
  using assms
proof (induction exec s i pid calls rule: latch_loop.induct)
  case (1 exec s i pid calls)
  show ?case
  proof (cases "strtok_r s")
    case None
    then show ?thesis by (simp add: latch_loop.simps [of exec s] commands.simps [of s])
  next
    case (Some co)
    then obtain c outer where s: "strtok_r s = Some (c, outer)" by (cases co) simp
    let ?w = "outer \<noteq> [] \<and> hd outer = CHR 0x26"
    obtain r cs where e: "mc_exec_cmdline exec c ?w = (r, cs)" by (cases "mc_exec_cmdline exec c ?w")
    have k: "commands s = (c, ?w) # commands outer" using s by (simp add: commands.simps [of s])
    have ru: "run exec (c, ?w) = (r, cs)" by (simp only: run_def fst_conv snd_conv e)
    have lt: "i < length pid" using "1.prems" by simp
    have u: "take (Suc i) (pid[i := Some r]) = take i pid @ [Some r]" "drop (Suc i + n) (pid[i := Some r]) = drop (Suc i + n) pid" for n
      using lt by (simp_all add: take_Suc_conv_app_nth)
    have step: "latch_loop exec s i pid calls =
        (if i \<ge> 2 then Some (i + 1, pid[i := Some r], calls @ cs) else latch_loop exec outer (i + 1) (pid[i := Some r]) (calls @ cs))"
      by (subst latch_loop.simps) (simp add: s e lt)
    show ?thesis
    proof (cases "i = 2")
      case True
      have "pid[2 := Some r] = take 2 pid @ Some r # drop 3 pid" using lt True by (simp add: upd_conv_take_nth_drop)
      then show ?thesis unfolding step k using True ru by (simp add: Let_def numeral_3_eq_3)
    next
      case False
      then have i: "i + 1 \<le> 2" "\<not> 2 \<le> i" "3 - i = Suc (3 - (i + 1))" using "1.prems"(1) by auto
      have "latch_loop exec outer (i + 1) (pid[i := Some r]) (calls @ cs) =
        (let xs = take (3 - (i + 1)) (commands outer) in
         Some (i + 1 + length xs, take (i + 1) (pid[i := Some r]) @ map (\<lambda>c. Some (fst (run exec c))) xs @ drop (i + 1 + length xs) (pid[i := Some r]),
           (calls @ cs) @ concat (map (\<lambda>c. snd (run exec c)) xs)))"
        using "1.IH" [OF s refl lt refl _ refl] e i "1.prems" by simp
      then show ?thesis unfolding step k using i ru u by (simp add: Let_def)
    qed
  qed
qed

text \<open>
  C30: A joined command line runs its first three commands in order, the first two when it starts with a semicolon. The
  result is that of the second command, or of the first when there is only one or when the line starts with a semicolon; a line
  without any command gives \<open>- ENOENT\<close> when it starts with a semicolon, and otherwise a value that was never stored.
\<close>

theorem mc_process_latch_correct:
  "mc_process_latch exec (Some s) =
    (let lead = (s \<noteq> [] \<and> hd s = CHR '';'');
         cs = take (if lead then 2 else 3) (commands s);
         calls = concat (map (\<lambda>c. snd (run exec c)) cs)
     in case cs of
          [] \<Rightarrow> if lead then Some (- ENOENT, calls) else None
        | [c] \<Rightarrow> Some (fst (run exec c), calls)
        | c # d # _ \<Rightarrow> Some (fst (run exec (if lead then c else d)), calls))"
proof (cases "s \<noteq> [] \<and> hd s = CHR '';''")
  case True
  show ?thesis
    using True latch_loop_eq [of 1 "[Some (- ENOENT), None, None]" exec s "[]"]
    by (simp add: mc_process_latch_def Let_def split: list.split)
next
  case False
  show ?thesis
    using False latch_loop_eq [of 0 "[None, None, None]" exec s "[]"]
    by (auto simp: mc_process_latch_def Let_def split: list.split)
qed

end
