(* ===== verification/Mc_Guard.thy ===== *)
theory Mc_Guard
  imports Mc_System Mc_Exec
begin

text \<open>
  Processes that are watched without being registered, \<open>mc_guard.c\<close>: the table of the program and the list of a file, the
  scan for running ones and the periodic check. Reports of exceptions, \<open>mc_exception.c\<close>.
\<close>

definition MC_IDENTITY_DYNAMIC :: int where "MC_IDENTITY_DYNAMIC = - 2"
definition MC_IDENTITY_DUMMY :: int where "MC_IDENTITY_DUMMY = - 1"
definition MC_IDENTITY_BROKER :: int where "MC_IDENTITY_BROKER = 0"
definition MC_IDENTITY_MAX :: nat where "MC_IDENTITY_MAX = 2"

definition MC_CLIENT_CMDLINE_LEN :: nat where "MC_CLIENT_CMDLINE_LEN = 127"

text \<open>The table \<open>__mc_guard\<close>.\<close>

definition mc_guard_table :: "mc_guard list" where
  "mc_guard_table =
     [\<lparr>g_id = MC_IDENTITY_BROKER, g_state = 0, g_pid = 0, g_name = ''broker'', g_cmdline = ''broker'', g_pidfile = None\<rparr>,
      \<lparr>g_id = MC_IDENTITY_DUMMY, g_state = 0, g_pid = 0, g_name = ''ipc-sample'', g_cmdline = ''ipc-sample server'', g_pidfile = None\<rparr>]"

section \<open>The file of guarded processes\<close>

text \<open>The lines of a file, for a buffer of \<open>n + 2\<close> characters.\<close>

function file_lines :: "nat \<Rightarrow> string \<Rightarrow> string list" where
  "file_lines n cs = (if cs = [] then [] else let (l, r) = fgets (Suc n) cs in l # file_lines n r)"
  by auto
termination
  by (relation "measure (\<lambda>(n, cs). length cs)") (auto, metis fgets_shorter snd_conv)

declare file_lines.simps [simp del]

definition mc_guard_skip_spaces :: "string \<Rightarrow> string" where
  "mc_guard_skip_spaces s = dropWhile (\<lambda>c. c = SP \<or> c = TAB) s"

text \<open>Spaces at the end of a name are eaten, but not its first character.\<close>

definition eat_ending :: "string \<Rightarrow> string" where
  "eat_ending s = (case s of [] \<Rightarrow> [] | c # cs \<Rightarrow> c # rev (dropWhile (\<lambda>x. x = SP) (rev cs)))"

definition split_name :: "string \<Rightarrow> (string \<times> string) option" where
  "split_name name =
     (case strchr TAB name of Some (l, r) \<Rightarrow> Some (eat_ending l, r) | None \<Rightarrow> strchr SP name)"

text \<open>The loop over the command line: the text up to the first tab or line end, and what follows the last tab.\<close>

fun split_cmdline :: "string \<Rightarrow> string \<times> string option" where
  "split_cmdline [] = ([], None)"
| "split_cmdline (c # cs) =
     (if c = LF \<or> c = CR then ([], None)
      else let (l, p) = split_cmdline cs
           in if c = TAB then ([], case p of None \<Rightarrow> Some l | Some t \<Rightarrow> Some t) else (c # l, p))"

definition guard_line :: "string \<Rightarrow> (string \<times> string \<times> string option) option" where
  "guard_line buf =
     (case split_name (mc_guard_skip_spaces buf) of
        None \<Rightarrow> None
      | Some (name, rest) \<Rightarrow>
          if name = [] then None
          else (case split_cmdline (mc_guard_skip_spaces rest) of (cmdline, pidfile) \<Rightarrow>
            if cmdline = [] then None
            else Some (name, cmdline,
              case pidfile of None \<Rightarrow> None | Some p \<Rightarrow> (let p = mc_guard_skip_spaces p in if p = [] then None else Some p))))"

text \<open>\<open>mem\<close> has, for each new guard, its address, or \<open>None\<close> when one of its allocations fails.\<close>

fun append_guards :: "addr option list \<Rightarrow> string list \<Rightarrow> mc_struct \<Rightarrow> (int \<times> mc_struct) option" where
  "append_guards mem [] S = Some (0, S)"
| "append_guards mem (buf # bufs) S =
     (case guard_line buf of
        None \<Rightarrow> append_guards mem bufs S
      | Some (name, cmdline, pidfile) \<Rightarrow>
          (case mem of
             Some g # mem \<Rightarrow> do {
               let S = S\<lparr>guards := (guards S)(g \<mapsto> \<lparr>g_id = MC_IDENTITY_DYNAMIC, g_state = MC_GUARD_STATE_NEW, g_pid = 0,
                   g_name = name, g_cmdline = cmdline, g_pidfile = pidfile\<rparr>)\<rparr>;
               S \<leftarrow> on_links (list_add_tail g guard_head) S;
               append_guards mem bufs S
             }
           | _ \<Rightarrow> Some (- 1, S)))"

text \<open>\<open>content\<close> is the content of the file, \<open>None\<close> when it cannot be opened.\<close>

definition mc_guard_conf_append :: "addr option list \<Rightarrow> string option \<Rightarrow> mc_struct \<Rightarrow> (int \<times> mc_struct) option" where
  "mc_guard_conf_append mem content S =
     (case content of None \<Rightarrow> Some (- 1, S) | Some cs \<Rightarrow> append_guards mem (file_lines ((MC_CLIENT_CMDLINE_LEN + 1) * 2 + 256 - 2) cs) S)"

section \<open>The scan\<close>

text \<open>The dynamic guards are at the end of the list.\<close>

fun find_dynamic :: "string \<Rightarrow> addr list \<Rightarrow> mc_struct \<Rightarrow> addr option option" where
  "find_dynamic name [] S = Some None"
| "find_dynamic name (g # gs) S = do {
     x \<leftarrow> guards S g;
     if g_id x \<noteq> MC_IDENTITY_DYNAMIC then Some None
     else if strcmp name (g_name x) = 0 then Some (Some g) else find_dynamic name gs S
   }"

definition guard_scan :: "string \<Rightarrow> int \<Rightarrow> mc_struct \<Rightarrow> mc_struct option" where
  "guard_scan name pid S = do {
     found \<leftarrow> (let g = mc_guard_search S name in
       if g \<noteq> NULL then Some (Some g) else do { gs \<leftarrow> list_for_each_prev guard_head (mc_links S); find_dynamic name gs S });
     case found of
       None \<Rightarrow> Some S
     | Some g \<Rightarrow> do {
         x \<leftarrow> guards S g;
         if g_pid x = 0 then upd_guard g (\<lambda>x. x\<lparr>g_pid := pid, g_state := MC_GUARD_STATE_RUN\<rparr>) S else Some S
       }
   }"

text \<open>\<open>procs\<close> are the processes of the system, as \<open>for_each_process\<close> finds them.\<close>

fun mc_guard_scan :: "(string \<times> int) list \<Rightarrow> mc_struct \<Rightarrow> mc_struct option" where
  "mc_guard_scan [] S = Some S"
| "mc_guard_scan ((name, pid) # procs) S = do { S \<leftarrow> guard_scan name pid S; mc_guard_scan procs S }"

section \<open>The check\<close>

text \<open>The answer is whether the process was found, \<open>- 1\<close> for an error.\<close>

definition mc_guard_find :: "kernel \<Rightarrow> addr \<Rightarrow> mc_struct \<Rightarrow> (int \<times> mc_struct) option" where
  "mc_guard_find K g S = do {
     x \<leftarrow> guards S g;
     let filed = (case g_pidfile x of None \<Rightarrow> 0 | Some f \<Rightarrow> pidfile_pid K f);
     if filed > 0 \<and> mc_process_validate K (g_name x) filed then do { S \<leftarrow> upd_guard g (\<lambda>x. x\<lparr>g_pid := filed\<rparr>) S; Some (1, S) }
     else do {
       let pid = find_pid K (g_name x);
       if pid > 0 then do { S \<leftarrow> upd_guard g (\<lambda>x. x\<lparr>g_pid := pid\<rparr>) S; Some (1, S) }
       else if pid = 0 then Some (0, S) else Some (- 1, S)
     }
   }"

definition guard_check :: "kernel \<Rightarrow> addr \<Rightarrow> mc_struct \<Rightarrow> mc_struct option" where
  "guard_check K g S = do {
     x \<leftarrow> guards S g;
     if g_state x = MC_GUARD_STATE_NEW then
       if g_pid x > 0 \<and> mc_process_validate K (g_name x) (g_pid x) then upd_guard g (\<lambda>x. x\<lparr>g_state := MC_GUARD_STATE_RUN\<rparr>) S
       else do {
         (found, S) \<leftarrow> mc_guard_find K g S;
         if found = 0 then
           upd_guard g (\<lambda>y. y\<lparr>g_pid := latch_pid K (g_cmdline x), g_state := MC_GUARD_STATE_NEW\<rparr>) (emit (Process_latch (g_cmdline x)) S)
         else Some S
       }
     else if g_state x = MC_GUARD_STATE_RUN then
       if mc_process_validate K (g_name x) (g_pid x) then Some S
       else upd_guard g (\<lambda>y. y\<lparr>g_pid := restart_pid K (g_cmdline x), g_state := MC_GUARD_STATE_NEW\<rparr>)
              (emit (Process_restart (g_name x) (g_cmdline x)) S)
     else if g_state x = MC_GUARD_STATE_DETACH then Some S
     else None
   }"

fun guard_checks :: "kernel \<Rightarrow> addr list \<Rightarrow> mc_struct \<Rightarrow> mc_struct option" where
  "guard_checks K [] S = Some S"
| "guard_checks K (g # gs) S = do { S \<leftarrow> guard_check K g S; guard_checks K gs S }"

definition mcd_guard :: "kernel \<Rightarrow> mc_struct \<Rightarrow> mc_struct option" where
  "mcd_guard K S =
     (if shutting_down S then Some S else do { gs \<leftarrow> list_for_each guard_head (mc_links S); guard_checks K gs S })"

definition guard_timing :: addr where "guard_timing = 8"

definition mcd_guard_run :: "addr option list \<Rightarrow> string option \<Rightarrow> (string \<times> int) list \<Rightarrow> mc_struct \<Rightarrow> mc_struct option" where
  "mcd_guard_run mem content procs S = do {
     (_, S) \<leftarrow> mc_guard_conf_append mem content S;
     S \<leftarrow> mc_guard_scan procs S;
     Some (if guard_interval (mc_conf S) > 0
           then (emit (Timing_register guard_timing True (guard_interval (mc_conf S))) S)\<lparr>mc_flags := mc_flags S OR BIT MC_F_GUARD_RUN\<rparr>
           else S)
   }"

definition mcd_guard_start :: "addr option list \<Rightarrow> string option \<Rightarrow> (string \<times> int) list \<Rightarrow> mc_struct \<Rightarrow> mc_struct option" where
  "mcd_guard_start mem content procs S =
     (if has (mc_flags S) (BIT MC_F_GUARD_RUN) then Some S else mcd_guard_run mem content procs (emit (Timing_unregister guard_timing) S))"

fun mcd_guard_init :: "addr list \<Rightarrow> mc_struct \<Rightarrow> mc_struct option" where
  "mcd_guard_init [] S = Some S"
| "mcd_guard_init (g # gs) S = do {
     S \<leftarrow> upd_guard g (\<lambda>x. x\<lparr>g_pid := 0, g_state := MC_GUARD_STATE_NEW\<rparr>) S;
     S \<leftarrow> on_links (list_add_tail g guard_head) S;
     mcd_guard_init gs S
   }"

section \<open>Exceptions\<close>

definition MC_EXCEPTION_CPU_USAGE :: int where "MC_EXCEPTION_CPU_USAGE = 0"
definition MC_EXCEPTION_MEM_USAGE :: int where "MC_EXCEPTION_MEM_USAGE = 1"
definition MC_EXCEPTION_CPU_TEMP :: int where "MC_EXCEPTION_CPU_TEMP = 2"
definition MC_EXCEPTION_DISK_USAGE :: int where "MC_EXCEPTION_DISK_USAGE = 3"
definition MC_EXCEPTION_NONE_CONN :: int where "MC_EXCEPTION_NONE_CONN = 4"
definition MC_EXCEPTION_MAX :: int where "MC_EXCEPTION_MAX = 5"

lemmas exception_defs = MC_EXCEPTION_CPU_USAGE_def MC_EXCEPTION_MEM_USAGE_def MC_EXCEPTION_CPU_TEMP_def MC_EXCEPTION_DISK_USAGE_def
  MC_EXCEPTION_NONE_CONN_def MC_EXCEPTION_MAX_def

definition count_exception :: "int \<Rightarrow> mc_struct \<Rightarrow> mc_struct option" where
  "count_exception e S = do {
     b \<leftarrow> set_bit (bit_nr e) (einfo_exception S);
     c_assert (nat e < length (einfo_count S));
     Some (S\<lparr>einfo_exception := b, einfo_count := (einfo_count S)[nat e := einfo_count S ! nat e + 1]\<rparr>)
   }"

definition mcd_client_exception_msg :: "bool \<Rightarrow> mc_cookie \<Rightarrow> int \<Rightarrow> mc_struct \<Rightarrow> (int \<times> mc_struct) option" where
  "mcd_client_exception_msg from_subscriber cookie eid S =
     (if \<not> from_subscriber then Some (- 1, S)
      else do {
        cl \<leftarrow> is_client cookie S;
        if \<not> cl then Some (- 1, S)
        else
          (case cookie of
             User_cookie q \<Rightarrow> do {
               b \<leftarrow> subscribed q MC_EXCEPTION_MASK S;
               if \<not> b then Some (- 1, S)
               else if eid \<in> {MC_EXCEPTION_CPU_TEMP, MC_EXCEPTION_DISK_USAGE, MC_EXCEPTION_NONE_CONN} then do { S \<leftarrow> count_exception eid S; Some (0, S) }
               else Some (0, S)
             }
           | _ \<Rightarrow> None)
      })"

definition mc_exception_test :: "int \<Rightarrow> mc_struct \<Rightarrow> (bool \<times> mc_struct) option" where
  "mc_exception_test e S = do {
     c_assert (- 1 < e \<and> e < MC_EXCEPTION_MAX);
     w \<leftarrow> test_bit (bit_nr e) (einfo_exception S);
     if w \<noteq> 0 then do { b \<leftarrow> clear_bit (bit_nr e) (einfo_exception S); Some (True, S\<lparr>einfo_exception := b\<rparr>) } else Some (False, S)
   }"

definition mc_exception_test_only :: "int \<Rightarrow> mc_struct \<Rightarrow> bool option" where
  "mc_exception_test_only e S = do {
     c_assert (- 1 < e \<and> e < MC_EXCEPTION_MAX);
     w \<leftarrow> test_bit (bit_nr e) (einfo_exception S);
     Some (w \<noteq> 0)
   }"

section \<open>Reading a line\<close>

definition field :: "string \<Rightarrow> bool" where
  "field s \<longleftrightarrow> s \<noteq> [] \<and> hd s \<noteq> SP \<and> set s \<inter> {TAB, LF, CR} = {}"

lemma skip_field: "field s \<Longrightarrow> mc_guard_skip_spaces (s @ r) = s @ r"
  by (cases s) (auto simp: field_def mc_guard_skip_spaces_def)

lemma split_cmdline_end: "set s \<inter> {TAB, LF, CR} = {} \<Longrightarrow> c = LF \<or> c = CR \<Longrightarrow> split_cmdline (s @ c # r) = (s, None)"
  by (induction s) auto

lemma split_cmdline_tab: "set s \<inter> {TAB, LF, CR} = {} \<Longrightarrow> split_cmdline r = (l, None) \<Longrightarrow> split_cmdline (s @ TAB # r) = (s, Some l)"
  by (induction s) (auto simp: TAB_def LF_def CR_def)

lemma eat_ending_same: "last s \<noteq> SP \<Longrightarrow> eat_ending s = s"
proof (cases s)
  case (Cons c cs)
  moreover assume "last s \<noteq> SP"
  ultimately show ?thesis by (cases cs rule: rev_cases) (simp_all add: eat_ending_def)
qed (simp add: eat_ending_def)

text \<open>
  A line of the file of guarded processes with its fields separated by tabs gives back these fields, with and without the
  name of a pid file; a space does as a separator after a name without spaces.
\<close>

theorem guard_line_roundtrip:
  assumes n: "field name" "last name \<noteq> SP" and c: "field cmdline" and p: "field pidfile"
  shows "guard_line (name @ TAB # cmdline @ TAB # pidfile @ [LF]) = Some (name, cmdline, Some pidfile) \<and>
    guard_line (name @ TAB # cmdline @ [LF]) = Some (name, cmdline, None) \<and>
    (SP \<notin> set name \<longrightarrow> guard_line (name @ SP # cmdline @ [LF]) = Some (name, cmdline, None))"
proof -
  have t: "TAB \<notin> set name" "name \<noteq> []" "cmdline \<noteq> []" "pidfile \<noteq> []" and d: "LF \<noteq> TAB" "SP \<noteq> TAB"
    using n c p by (auto simp: field_def TAB_def LF_def SP_def)
  have s: "split_cmdline (cmdline @ [LF]) = (cmdline, None)" "split_cmdline (pidfile @ [LF]) = (pidfile, None)"
    using c p by (simp_all add: field_def split_cmdline_end)
  have s2: "split_cmdline (cmdline @ TAB # pidfile @ [LF]) = (cmdline, Some pidfile)"
    using c s(2) by (simp add: field_def split_cmdline_tab)
  have sp: "split_name (name @ TAB # r) = Some (name, r)" for r using t(1) n(2) by (simp add: split_name_def eat_ending_same)
  have pf: "mc_guard_skip_spaces pidfile = pidfile" using skip_field [OF p, of "[]"] by simp
  have "guard_line (name @ TAB # cmdline @ TAB # pidfile @ [LF]) = Some (name, cmdline, Some pidfile)"
    by (simp add: guard_line_def skip_field [OF n(1)] skip_field [OF c] sp s2 t pf)
  moreover have "guard_line (name @ TAB # cmdline @ [LF]) = Some (name, cmdline, None)"
    by (simp add: guard_line_def skip_field [OF n(1)] skip_field [OF c] sp s t)
  moreover have "guard_line (name @ SP # cmdline @ [LF]) = Some (name, cmdline, None)" if "SP \<notin> set name"
  proof -
    have "TAB \<notin> set (name @ SP # cmdline @ [LF])" using t(1) c d by (auto simp: field_def)
    then have z: "strchr TAB (name @ SP # cmdline @ [LF]) = None" by (rule strchr_None)
    have "split_name (name @ SP # cmdline @ [LF]) = Some (name, cmdline @ [LF])"
      unfolding split_name_def z using that by simp
    then show ?thesis by (simp add: guard_line_def skip_field [OF n(1)] skip_field [OF c] s t)
  qed
  ultimately show ?thesis by blast
qed

theorem guard_line_roundtrip_witness:
  "guard_line (''sshd'' @ TAB # ''/usr/sbin/sshd -D'' @ TAB # ''/run/sshd.pid'' @ [LF]) = Some (''sshd'', ''/usr/sbin/sshd -D'', Some ''/run/sshd.pid'')"
  by (rule guard_line_roundtrip [THEN conjunct1]) (simp_all add: field_def TAB_def LF_def CR_def SP_def)

section \<open>What a check does\<close>

definition running :: "kernel \<Rightarrow> mc_guard \<Rightarrow> bool" where
  "running K x \<longleftrightarrow> mc_process_validate K (g_name x) (g_pid x)"

text \<open>The process of a guard that is not running under its number can be found neither by its file nor by its name.\<close>

definition lost :: "kernel \<Rightarrow> mc_guard \<Rightarrow> bool" where
  "lost K x \<longleftrightarrow> \<not> (case g_pidfile x of None \<Rightarrow> False | Some f \<Rightarrow> pidfile_pid K f > 0 \<and> mc_process_validate K (g_name x) (pidfile_pid K f)) \<and> find_pid K (g_name x) = 0"

definition starts :: "kernel \<Rightarrow> mc_guard \<Rightarrow> bool" where
  "starts K x \<longleftrightarrow> (g_state x = MC_GUARD_STATE_NEW \<and> \<not> (g_pid x > 0 \<and> running K x) \<and> lost K x) \<or> (g_state x = MC_GUARD_STATE_RUN \<and> \<not> running K x)"

lemmas guard_states = MC_GUARD_STATE_NEW_def MC_GUARD_STATE_RUN_def MC_GUARD_STATE_DETACH_def

text \<open>A guard before and after a check whose effects are among \<open>es\<close>.\<close>

definition guard_after :: "kernel \<Rightarrow> effect list \<Rightarrow> mc_guard \<Rightarrow> mc_guard \<Rightarrow> bool" where
  "guard_after K es x y \<longleftrightarrow> g_name y = g_name x \<and> g_cmdline y = g_cmdline x \<and>
     (g_state x = MC_GUARD_STATE_DETACH \<longrightarrow> y = x) \<and>
     (g_state x \<noteq> MC_GUARD_STATE_DETACH \<and> g_pid x > 0 \<and> running K x \<longrightarrow> y = x\<lparr>g_state := MC_GUARD_STATE_RUN\<rparr>) \<and>
     (starts K x \<longrightarrow> g_state y = MC_GUARD_STATE_NEW \<and>
        (Process_latch (g_cmdline x) \<in> set es \<and> g_pid y = latch_pid K (g_cmdline x) \<or>
         Process_restart (g_name x) (g_cmdline x) \<in> set es \<and> g_pid y = restart_pid K (g_cmdline x)))"

lemma guard_after_mono: "guard_after K es x y \<Longrightarrow> set es \<subseteq> set fs \<Longrightarrow> guard_after K fs x y"
  by (auto simp: guard_after_def)

lemma guard_check_ok:
  assumes "guards S g = Some x" and "g_state x \<le> MC_GUARD_STATE_DETACH"
  shows "\<exists>S' y es. guard_check K g S = Some S' \<and> guards S' g = Some y \<and> (\<forall>g'. g' \<noteq> g \<longrightarrow> guards S' g' = guards S g') \<and>
    effects S' = effects S @ es \<and> length es = (if starts K x then 1 else 0) \<and> guard_after K es x y"
proof -
  note d = guard_check_def upd_guard_def emit_def starts_def running_def lost_def guard_states Let_def guard_after_def
  consider "g_state x = MC_GUARD_STATE_NEW" | "g_state x = MC_GUARD_STATE_RUN" | "g_state x = MC_GUARD_STATE_DETACH"
    using assms(2) by (auto simp: guard_states le_Suc_eq numeral_2_eq_2)
  then show ?thesis
  proof cases
    case 1
    then show ?thesis using assms by (cases "g_pidfile x") (auto simp: d mc_guard_find_def)
  next
    case 2
    then have "x\<lparr>g_state := MC_GUARD_STATE_RUN\<rparr> = x" by (simp add: 2 [symmetric])
    with 2 show ?thesis using assms by (auto simp: d)
  next
    case 3
    then show ?thesis using assms by (auto simp: d)
  qed
qed

lemma guard_checks_ok:
  assumes "distinct gs" and "\<forall>g\<in>set gs. \<exists>x. guards S g = Some x \<and> g_state x \<le> MC_GUARD_STATE_DETACH"
  shows "\<exists>S' es. guard_checks K gs S = Some S' \<and> effects S' = effects S @ es \<and>
    length es = length (filter (\<lambda>g. starts K (the (guards S g))) gs) \<and> (\<forall>g. g \<notin> set gs \<longrightarrow> guards S' g = guards S g) \<and>
    (\<forall>g\<in>set gs. \<exists>y. guards S' g = Some y \<and> guard_after K es (the (guards S g)) y)"
  using assms
proof (induction gs arbitrary: S)
  case (Cons g gs)
  then obtain x where x: "guards S g = Some x" "g_state x \<le> MC_GUARD_STATE_DETACH" by auto
  from guard_check_ok [OF this, of K] obtain T y es where
    T: "guard_check K g S = Some T" "guards T g = Some y" "\<And>g'. g' \<noteq> g \<Longrightarrow> guards T g' = guards S g'" "effects T = effects S @ es"
      "length es = (if starts K x then 1 else 0)" "guard_after K es x y" by blast
  have ne: "g' \<noteq> g" if "g' \<in> set gs" for g' using Cons.prems(1) that by auto
  have "\<forall>g'\<in>set gs. \<exists>x. guards T g' = Some x \<and> g_state x \<le> MC_GUARD_STATE_DETACH" using Cons.prems(2) T(3) [OF ne] by auto
  with Cons.IH [of T] Cons.prems(1) obtain S' fs where
    S': "guard_checks K gs T = Some S'" "effects S' = effects T @ fs" "length fs = length (filter (\<lambda>g. starts K (the (guards T g))) gs)"
      "\<And>g. g \<notin> set gs \<Longrightarrow> guards S' g = guards T g" "\<And>g. g \<in> set gs \<Longrightarrow> \<exists>y. guards S' g = Some y \<and> guard_after K fs (the (guards T g)) y" by auto
  have "filter (\<lambda>g. starts K (the (guards T g))) gs = filter (\<lambda>g. starts K (the (guards S g))) gs"
    using T(3) [OF ne] by (intro filter_cong) auto
  then have len: "length (es @ fs) = length (filter (\<lambda>g. starts K (the (guards S g))) (g # gs))" using S'(3) T(5) x(1) by simp
  have "\<exists>y. guards S' g' = Some y \<and> guard_after K (es @ fs) (the (guards S g')) y" if "g' \<in> set (g # gs)" for g'
  proof (cases "g' = g")
    case True
    moreover have "guards S' g = Some y" using S'(4) Cons.prems(1) T(2) by simp
    ultimately show ?thesis using x(1) T(6) guard_after_mono [of K es x y "es @ fs"] by simp
  next
    case False
    with that obtain z where "guards S' g' = Some z" "guard_after K fs (the (guards T g')) z" using S'(5) by auto
    with False show ?thesis using T(3) guard_after_mono [of K fs _ z "es @ fs"] by auto
  qed
  with T S' len show ?case by (intro exI [of _ S'] exI [of _ "es @ fs"]) auto
qed simp

end
