(* ===== verification/Mc_Main.thy ===== *)
theory Mc_Main
  imports Mc_Guard
begin

text \<open>
  The daemon as a whole, \<open>mc_core.c\<close>: its start, the messages and the events it reacts to.
\<close>

section \<open>Start\<close>

definition feedwd_timing :: addr where "feedwd_timing = 9"
definition probe_timing :: addr where "probe_timing = 10"
definition auto_reboot_timing :: addr where "auto_reboot_timing = 11"

definition register_if :: "addr \<Rightarrow> bool \<Rightarrow> int \<Rightarrow> mc_struct \<Rightarrow> mc_struct" where
  "register_if t cyclic n S = (if n > 0 then emit (Timing_register t cyclic n) S else S)"

definition mc_timers_init :: "mc_struct \<Rightarrow> mc_struct" where
  "mc_timers_init S =
     (let S = register_if feedwd_timing True (watchdog_interval (mc_conf S)) S;
          S = register_if patrol_timing True (patrol_interval (mc_conf S)) S;
          S = register_if probe_timing True (probe_interval (mc_conf S)) S;
          S = register_if guard_timing False (guard_delay (mc_conf S)) S
      in register_if auto_reboot_timing False (auto_reboot_timeout (mc_conf S)) S)"

fun init_lists :: "addr list \<Rightarrow> mc_struct \<Rightarrow> mc_struct option" where
  "init_lists [] S = Some S"
| "init_lists (h # hs) S = do { S \<leftarrow> on_links (INIT_LIST_HEAD h) S; init_lists hs S }"

text \<open>The memory of the program before the start is \<open>L\<close>; \<open>tab\<close> are the addresses of the table's entries, \<open>conf\<close> is the configuration read.\<close>

definition mc_zero :: "links \<Rightarrow> mc_config \<Rightarrow> addr list \<Rightarrow> mc_struct" where
  "mc_zero L conf tab = \<lparr>mc_flags = 0, mc_af = 0, subscribers = 0, probe_time = 0, index_stock = zero_bitmap, full_bitmap = zero_bitmap,
     synchors = (\<lambda>_. \<lparr>syn_wait = False, ack_bitmap = zero_bitmap, syn_signalled = False\<rparr>),
     referees = (\<lambda>_. \<lparr>ref_wait = False, vote_bitmap = zero_bitmap, vote_approved = zero_bitmap, ref_signalled = False\<rparr>),
     einfo_count = replicate (nat MC_EXCEPTION_MAX) 0, einfo_exception = replicate (BITS_TO_LONGS (nat MC_EXCEPTION_MAX)) 0,
     ready_bitmap = replicate (BITS_TO_LONGS MC_IDENTITY_MAX) 0, ready_name = [],
     mc_conf = conf, mc_links = L, clients = Map.empty, mc_tasks = Map.empty, guards = map_of (zip tab mc_guard_table), guard_tab = tab,
     subs = Map.empty, effects = []\<rparr>"

definition mc_init :: "int \<Rightarrow> links \<Rightarrow> mc_config \<Rightarrow> addr list \<Rightarrow> mc_struct option" where
  "mc_init now L conf tab = do {
     S \<leftarrow> init_lists [client_deadq, client_lossq, client_runningq, client_detachdq, task_head, guard_head] (mc_zero L conf tab);
     S \<leftarrow> mcd_guard_init tab S;
     let S = mc_timers_init S;
     Some (S\<lparr>probe_time := now\<rparr>)
   }"

section \<open>Messages\<close>

datatype mc_msg =
    MC_MSG_PROBE int
  | MC_MSG_READY string
  | MC_MSG_EXIT
  | MC_MSG_HEARTBEAT int int
  | MC_MSG_DETACH bool string bool
  | MC_MSG_EXCEPTION int
  | MC_MSG_SYN "syn_id option"
  | MC_MSG_ACK "syn_id option"
  | MC_MSG_APPLY "apply_id option"
  | MC_MSG_VOTE "apply_id option" bool
  | MC_MSG_REBOOT bool
  | MC_MSG_RESTART string

datatype mc_answer = No_answer | Syn_answer syn_code | Apply_answer apply_ret | Found_answer bool

definition mcd_client_exit_msg :: "mc_cookie \<Rightarrow> mc_struct \<Rightarrow> (int \<times> mc_struct) option" where
  "mcd_client_exit_msg cookie S = do { cl \<leftarrow> is_client cookie S; if cl then do { p \<leftarrow> cookie_client cookie S; c \<leftarrow> clients S p; Some (0, S) } else Some (0, S) }"

definition plain_answer :: "(int \<times> mc_struct) option \<Rightarrow> (int \<times> mc_answer \<times> mc_struct) option" where
  "plain_answer r = map_option (\<lambda>(n, S). (n, No_answer, S)) r"

definition some_answer :: "('a \<Rightarrow> mc_answer) \<Rightarrow> int \<times> 'a option \<times> mc_struct \<Rightarrow> int \<times> mc_answer \<times> mc_struct" where
  "some_answer f r = (case r of (n, a, S) \<Rightarrow> (n, case a of None \<Rightarrow> No_answer | Some x \<Rightarrow> f x, S))"

text \<open>\<open>sub\<close>: the sender's class is that of a subscriber, otherwise that of a requester.\<close>

definition mc_ipc_handler ::
    "kernel \<Rightarrow> (nat \<Rightarrow> int) \<Rightarrow> bool \<Rightarrow> bool \<Rightarrow> bool \<Rightarrow> mc_cookie \<Rightarrow> mc_msg \<Rightarrow> mc_struct \<Rightarrow> (int \<times> mc_answer \<times> mc_struct) option" where
  "mc_ipc_handler K now started created sub cookie m S =
     (case m of
        MC_MSG_PROBE t \<Rightarrow> plain_answer (map_option (Pair 0) (mcd_client_probe_msg sub cookie t S))
      | MC_MSG_READY name \<Rightarrow> plain_answer (mcd_client_ready_msg sub cookie name S)
      | MC_MSG_EXIT \<Rightarrow> plain_answer (mcd_client_exit_msg cookie S)
      | MC_MSG_HEARTBEAT pid n \<Rightarrow> plain_answer (mcd_client_heartbeat_msg (now 0) sub cookie pid n S)
      | MC_MSG_DETACH state name exits \<Rightarrow>
          map_option (\<lambda>(r, S). (0, Found_answer (r \<noteq> 0), S)) (mcd_client_detach_msg K now state name exits S)
      | MC_MSG_EXCEPTION e \<Rightarrow> plain_answer (mcd_client_exception_msg sub cookie e S)
      | MC_MSG_SYN k \<Rightarrow> Some (some_answer Syn_answer (mcd_client_syn_msg started (\<not> sub) cookie k S))
      | MC_MSG_ACK k \<Rightarrow> plain_answer (mcd_client_ack_msg sub cookie k S)
      | MC_MSG_APPLY k \<Rightarrow> Some (some_answer Apply_answer (mcd_client_apply_msg started (\<not> sub) cookie k S))
      | MC_MSG_VOTE k ok \<Rightarrow> plain_answer (mcd_client_vote_msg sub cookie k ok S)
      | MC_MSG_REBOOT pwroff \<Rightarrow> plain_answer (Some (mcd_client_reboot_msg started created (\<not> sub) cookie pwroff S))
      | MC_MSG_RESTART name \<Rightarrow> map_option (\<lambda>(found, S). (0, Found_answer found, S)) (mcd_client_restart_msg K name S))"

section \<open>Events\<close>

definition mc_shutdown_fn :: "kernel \<Rightarrow> mc_struct \<Rightarrow> mc_struct option" where
  "mc_shutdown_fn K S = do {
     S \<leftarrow> (if has (mc_flags S) (BIT MC_F_SHUTDOWN) then mc_kill_guard K 9 S else Some S);
     Some (if has (mc_flags S) (BIT MC_F_REBOOT) then mc_reboot True (has (mc_af S) (BIT MC_AF_PWROFF)) S else S)
   }"

definition device_reboot :: "bool \<Rightarrow> mc_struct \<Rightarrow> mc_struct" where
  "device_reboot created S = mc_reboot_system created False False S"

definition mc_ipc_filter :: "kernel \<Rightarrow> mc_ind \<Rightarrow> mc_struct \<Rightarrow> mc_struct option" where
  "mc_ipc_filter K ind S = (if ind = MC_IND_SYS_SHUTDOWN then mc_shutdown K S else Some S)"

datatype mc_evt = SIGUSR1 | MC_EVENT_REBOOT | MC_EVENT_SHUTDOWN | Other_event

definition mc_event_handler :: "kernel \<Rightarrow> addr option list \<Rightarrow> string option \<Rightarrow> (string \<times> int) list \<Rightarrow> mc_evt \<Rightarrow> mc_struct \<Rightarrow> mc_struct option" where
  "mc_event_handler K mem content procs event S =
     (case event of
        SIGUSR1 \<Rightarrow> mcd_guard_start mem content procs S
      | MC_EVENT_REBOOT \<Rightarrow> Some (mc_event_reboot S)
      | MC_EVENT_SHUTDOWN \<Rightarrow> mc_shutdown K S
      | Other_event \<Rightarrow> Some S)"

section \<open>Connections\<close>

datatype mc_cmd = IPC_CLIENT_RELEASE | IPC_CLIENT_REGISTER mc_reginfo | IPC_CLIENT_SYNC | IPC_CLIENT_UNREGISTER | IPC_CLIENT_SHUTDOWN

text \<open>For the handle of a subscriber; a requester is only given the cookie of asynchronous requests.\<close>

definition mc_ipc_manager ::
    "kernel \<Rightarrow> (nat \<Rightarrow> int) \<Rightarrow> addr option \<Rightarrow> addr option \<Rightarrow> addr list option \<Rightarrow> bool \<Rightarrow> bool \<Rightarrow> addr \<Rightarrow> int \<Rightarrow> 64 word \<Rightarrow> mc_cookie \<Rightarrow> mc_cmd \<Rightarrow>
     mc_struct \<Rightarrow> (int \<times> mc_struct) option" where
  "mc_ipc_manager K now sub client tasks dup bound sevr identity msk cookie cmd S =
     (case cmd of
        IPC_CLIENT_RELEASE \<Rightarrow> map_option (Pair 0) (mc_ipc_release_process cookie S)
      | IPC_CLIENT_REGISTER r \<Rightarrow> mc_ipc_register_process K now sub client tasks dup bound sevr identity msk r S
      | IPC_CLIENT_SYNC \<Rightarrow> map_option (Pair 0) (mc_ipc_sync_process cookie S)
      | IPC_CLIENT_UNREGISTER \<Rightarrow> map_option (Pair 0) (mc_ipc_unregister_process cookie S)
      | IPC_CLIENT_SHUTDOWN \<Rightarrow> map_option (Pair 0) (mc_ipc_shutdown_process K (now 0) cookie S))"

end
