(* ===== verification/Mc_Steps.thy ===== *)
theory Mc_Steps
  imports Mc_Barrier Mc_Main
begin

text \<open>
  The daemon as a step relation: messages, connections, timers, events and the threads of barriers, votes and reboots, in
  any order. Every step keeps the invariant of the subscribers and bitmaps.
\<close>

section \<open>What leaves the bitmaps alone\<close>

lemma sys_kill_guards: "kill_guards K sig gs S = Some S' \<Longrightarrow> sys_of S' = sys_of S"
  by (induction K sig gs S rule: kill_guards.induct) (auto simp: bind_eq_Some_conv split: if_splits)

lemma sys_processes:
  "mc_kill_guard K sig S = Some S' \<Longrightarrow> sys_of S' = sys_of S"
  "mc_kill_client K p sig S = Some (r, S') \<Longrightarrow> sys_of S' = sys_of S"
  "mc_exit_client K p S = Some S' \<Longrightarrow> sys_of S' = sys_of S"
  "client_restart_review K p S = Some S' \<Longrightarrow> sys_of S' = sys_of S"
  by (auto simp: mc_kill_guard_def mc_kill_client_def mc_exit_client_def client_restart_review_def Let_def bind_eq_Some_conv
      split: if_splits option.splits dest!: sys_upd sys_kill_guards)

lemma sys_client_restart: "client_restart K p S = Some (r, S') \<Longrightarrow> sys_of S' = sys_of S"
  by (auto simp: client_restart_def Let_def bind_eq_Some_conv split: if_splits dest!: sys_upd)

lemma sys_mcd_client_restart: "mcd_client_restart K now p delay S = Some S' \<Longrightarrow> sys_of S' = sys_of S"
  by (auto simp: mcd_client_restart_def bind_eq_Some_conv split: if_splits dest!: sys_upd sys_client_restart)

lemma sys_activate_all: "activate_all now i ts S = Some S' \<Longrightarrow> sys_of S' = sys_of S"
proof (induction now i ts S rule: activate_all.induct)
  case (2 now i t ts S)
  from "2.prems" obtain A where st: "mc_task_active (now i) t S = Some A" "activate_all now (Suc i) ts A = Some S'"
    by (auto simp: bind_eq_Some_conv)
  from "2.IH" [OF st] sys_active(1) [OF st(1)] show ?case by simp
qed simp

lemma sys_messages:
  "mcd_client_heartbeat_msg now sub cookie pid n S = Some (r, S') \<Longrightarrow> sys_of S' = sys_of S"
  "mcd_client_probe_msg sub cookie pt S = Some S' \<Longrightarrow> sys_of S' = sys_of S"
  "mcd_client_ready_msg sub cookie name S = Some (r, S') \<Longrightarrow> sys_of S' = sys_of S"
  by (auto simp: mcd_client_heartbeat_msg_def mcd_client_probe_msg_def mcd_client_ready_msg_def bind_eq_Some_conv
      split: if_splits option.splits dest!: sys_upd sys_active)

lemma sys_detach:
  "not_detached p S = Some S' \<Longrightarrow> sys_of S' = sys_of S"
  "mcd_client_attach K now name S = Some (r, S') \<Longrightarrow> sys_of S' = sys_of S"
  "mcd_client_detach K name exits S = Some (r, S') \<Longrightarrow> sys_of S' = sys_of S"
proof -
  show n: "not_detached p S = Some S' \<Longrightarrow> sys_of S' = sys_of S" for p S S' by (auto simp: not_detached_def dest!: sys_upd)
  show "mcd_client_attach K now name S = Some (r, S') \<Longrightarrow> sys_of S' = sys_of S"
    by (auto simp: mcd_client_attach_def bind_eq_Some_conv split: if_splits option.splits
        dest!: sys_upd sys_active n sys_activate_all sys_mcd_client_restart)
  show "mcd_client_detach K name exits S = Some (r, S') \<Longrightarrow> sys_of S' = sys_of S"
    by (auto simp: mcd_client_detach_def bind_eq_Some_conv split: if_splits option.splits dest!: sys_upd sys_processes)
qed

lemma sys_restart_msg: "mcd_client_restart_msg K name S = Some (r, S') \<Longrightarrow> sys_of S' = sys_of S"
  by (auto simp: mcd_client_restart_msg_def Let_def bind_eq_Some_conv split: if_splits option.splits dest!: sys_upd sys_processes)

lemma sys_reboot [simp]: "sys_of (mc_reboot f w S) = sys_of S" "sys_of (mc_reboot_system c f w S) = sys_of S"
  by (simp_all add: mc_reboot_def mc_reboot_system_def Let_def)

lemma sys_requests:
  "sys_of (snd (snd (mcd_client_syn_msg st rq cookie k S))) = sys_of S" "sys_of (snd (snd (mcd_client_apply_msg st rq cookie l S))) = sys_of S"
  "sys_of (snd (mcd_client_reboot_msg st c rq cookie w S)) = sys_of S"
  by (simp_all add: mcd_client_syn_msg_def mcd_client_apply_msg_def mcd_client_reboot_msg_def Let_def)

lemma sys_exception: "mcd_client_exception_msg sub cookie e S = Some (r, S') \<Longrightarrow> sys_of S' = sys_of S"
  by (auto simp: mcd_client_exception_msg_def count_exception_def c_assert_def bind_eq_Some_conv split: if_splits option.splits mc_cookie.splits)

lemma sys_connections:
  "mc_ipc_unregister_process cookie S = Some S' \<Longrightarrow> sys_of S' = sys_of S"
  "mc_ipc_shutdown_process K now cookie S = Some S' \<Longrightarrow> sys_of S' = sys_of S"
  "mc_ipc_sync_process cookie S = Some S' \<Longrightarrow> sys_of S' = sys_of S"
  by (auto simp: mc_ipc_unregister_process_def mc_ipc_shutdown_process_def mc_ipc_sync_process_def Let_def bind_eq_Some_conv
      split: if_splits dest!: sys_upd sys_destroy sys_mcd_client_restart)

section \<open>Inspection and guards\<close>

lemma sys_inspect_tasks: "inspect_tasks current q n action S = Some r \<Longrightarrow> sys_of (snd r) = sys_of S"
proof (induction current q n action S r rule: inspect_tasks.raw_induct [rotated, consumes 1])
  case (1 rec current q n action S r)
  from 1(2) show ?case
    by (auto simp: bind_eq_Some_conv split: if_splits dest!: 1(1) sys_upd)
qed

lemma sys_inspect_probes: "inspect_probes q n S = Some S' \<Longrightarrow> sys_of S' = sys_of S"
proof (induction q n S S' rule: inspect_probes.raw_induct [rotated, consumes 1])
  case (1 rec q n S S')
  from 1(2) show ?case
    by (auto simp: bind_eq_Some_conv split: if_splits dest!: 1(1) sys_upd)
qed

lemma sys_inspect_lost: "inspect_lost K ps S = Some S' \<Longrightarrow> sys_of S' = sys_of S"
proof (induction ps arbitrary: S)
  case (Cons p ps)
  then obtain c :: mc_client and A where st: "(if \<not> has (c_flags c) (BIT MC_CLIENT_F_EXIT) then mc_exit_client K p S
          else if \<not> has (c_flags c) (BIT MC_CLIENT_F_KILL) then map_option snd (mc_kill_client K p 9 S)
          else set_client_state p MC_CLIENT_BLOCKED S) = Some A" "inspect_lost K ps A = Some S'"
    by (auto simp: bind_eq_Some_conv)
  have "sys_of A = sys_of S" using st(1) by (auto split: if_splits dest!: sys_upd sys_processes)
  with Cons.IH [OF st(2)] show ?case by simp
qed simp

lemma sys_inspect: "mcd_inspect K current created S = Some S' \<Longrightarrow> sys_of S' = sys_of S"
  by (auto simp: mcd_inspect_def bind_eq_Some_conv dest!: sys_inspect_tasks sys_inspect_probes sys_inspect_lost)

lemma sys_append_guards: "append_guards mem bufs S = Some (r, S') \<Longrightarrow> sys_of S' = sys_of S"
proof (induction bufs arbitrary: mem S r)
  case (Cons buf bufs)
  from Cons.prems show ?case
    by (auto simp: bind_eq_Some_conv Let_def split: option.splits list.splits dest!: sys_upd Cons.IH)
qed simp

lemma sys_guard_scan: "guard_scan name pid S = Some S' \<Longrightarrow> sys_of S' = sys_of S"
  by (auto simp: guard_scan_def Let_def bind_eq_Some_conv split: if_splits option.splits dest!: sys_upd)

lemma sys_mc_guard_scan: "mc_guard_scan procs S = Some S' \<Longrightarrow> sys_of S' = sys_of S"
proof (induction procs S rule: mc_guard_scan.induct)
  case (2 name pid procs S)
  from "2.prems" obtain A where "guard_scan name pid S = Some A" "mc_guard_scan procs A = Some S'" by (auto simp: bind_eq_Some_conv)
  with "2.IH" sys_guard_scan show ?case by metis
qed simp

lemma sys_guard_check: "guard_check K g S = Some S' \<Longrightarrow> sys_of S' = sys_of S"
  by (auto simp: guard_check_def mc_guard_find_def Let_def bind_eq_Some_conv split: if_splits option.splits dest!: sys_upd)

lemma sys_guard_checks: "guard_checks K gs S = Some S' \<Longrightarrow> sys_of S' = sys_of S"
proof (induction K gs S rule: guard_checks.induct)
  case (2 K g gs S)
  from "2.prems" obtain A where "guard_check K g S = Some A" "guard_checks K gs A = Some S'" by (auto simp: bind_eq_Some_conv)
  with "2.IH" sys_guard_check show ?case by metis
qed simp

lemma sys_guard:
  "mcd_guard K S = Some S' \<Longrightarrow> sys_of S' = sys_of S"
  "mcd_guard_run mem content procs S = Some S' \<Longrightarrow> sys_of S' = sys_of S"
  "mcd_guard_start mem content procs S = Some S' \<Longrightarrow> sys_of S' = sys_of S"
proof -
  show "mcd_guard K S = Some S' \<Longrightarrow> sys_of S' = sys_of S" by (auto simp: mcd_guard_def bind_eq_Some_conv split: if_splits dest!: sys_guard_checks)
  have a: "mc_guard_conf_append mem content S = Some (r, S') \<Longrightarrow> sys_of S' = sys_of S" for r S S'
    by (auto simp: mc_guard_conf_append_def split: option.splits dest!: sys_append_guards)
  show r: "mcd_guard_run mem content procs S = Some S' \<Longrightarrow> sys_of S' = sys_of S" for S S'
    by (auto simp: mcd_guard_run_def bind_eq_Some_conv split: if_splits dest!: a sys_mc_guard_scan)
  show "mcd_guard_start mem content procs S = Some S' \<Longrightarrow> sys_of S' = sys_of S"
    by (auto simp: mcd_guard_start_def split: if_splits dest!: r)
qed

lemma sys_events:
  "mc_shutdown K S = Some S' \<Longrightarrow> sys_of S' = sys_of S"
  "mc_event_handler K mem content procs event S = Some S' \<Longrightarrow> sys_of S' = sys_of S"
  "mc_ipc_filter K ind S = Some S' \<Longrightarrow> sys_of S' = sys_of S"
proof -
  show s: "mc_shutdown K S = Some S' \<Longrightarrow> sys_of S' = sys_of S" for S S' by (auto simp: mc_shutdown_def bind_eq_Some_conv dest!: sys_processes)
  show "mc_event_handler K mem content procs event S = Some S' \<Longrightarrow> sys_of S' = sys_of S"
    by (cases event) (auto simp: mc_event_handler_def mc_event_reboot_def dest!: s sys_guard)
  show "mc_ipc_filter K ind S = Some S' \<Longrightarrow> sys_of S' = sys_of S" by (auto simp: mc_ipc_filter_def split: if_splits dest!: s)
qed

section \<open>Steps\<close>

text \<open>
  \<open>malloc\<close> returns memory that is not in use, and the message server binds a new handle successfully. The threads that wait for
  a barrier or a vote may go on at any time, since a wait ends with its timeout.
\<close>

inductive mc_step :: "mc_struct \<Rightarrow> mc_struct \<Rightarrow> bool" where
  Message: "mc_ipc_handler K now started created sub cookie m S = Some (r, a, S') \<Longrightarrow> mc_step S S'"
| Register: "subs S q = None \<Longrightarrow>
    mc_ipc_manager K now (Some q) client tasks dup True sevr identity msk cookie (IPC_CLIENT_REGISTER reg) S = Some (r, S') \<Longrightarrow> mc_step S S'"
| Manage: "(\<forall>reg. cmd \<noteq> IPC_CLIENT_REGISTER reg) \<Longrightarrow>
    mc_ipc_manager K now sub client tasks dup bound sevr identity msk cookie cmd S = Some (r, S') \<Longrightarrow> mc_step S S'"
| Inspect: "mcd_inspect K current created S = Some S' \<Longrightarrow> mc_step S S'"
| Probe: "mc_step S (mcd_probe current S)"
| Guard: "mcd_guard K S = Some S' \<Longrightarrow> mc_step S S'"
| Guard_delay: "mcd_guard_run mem content procs S = Some S' \<Longrightarrow> mc_step S S'"
| Auto_reboot: "mc_step S (device_reboot created S)"
| Restart: "client_restart K p S = Some (r, S') \<Longrightarrow> mc_step S S'"
| Review: "client_restart_review K p S = Some S' \<Longrightarrow> mc_step S S'"
| Event: "mc_event_handler K mem content procs event S = Some S' \<Longrightarrow> mc_step S S'"
| Filter: "mc_ipc_filter K ind S = Some S' \<Longrightarrow> mc_step S S'"
| Sync_begin: "mc_step S (snd (mc_synchor_wait k S))"
| Sync_end: "mc_step S (snd (sync_waiting k waited err S))"
| Vote_begin: "mc_step S (snd (mc_referee_wait l S))"
| Vote_end: "mc_step S (snd (apply_waiting l waited S))"
| Reboot_end: "mc_step S (reboot_waiting waited S)"
| Reboot_thread: "mc_step S (snd (mc_reboot_entry force pwroff pc S))"

inductive mc_reach :: "mc_struct \<Rightarrow> bool" where
  Init: "mc_init now L conf tab = Some S \<Longrightarrow> mc_reach S"
| Step: "mc_reach S \<Longrightarrow> mc_step S S' \<Longrightarrow> mc_reach S'"

section \<open>Every step keeps the invariant\<close>

lemma ack_inv:
  assumes inv: "sys_inv S" and a: "mcd_client_ack_msg sub cookie synid S = Some (r, S')"
  shows "sys_inv S'"
proof (cases "S' = S")
  case False
  then obtain q s k where q: "sub" "cookie = User_cookie q" "subs S q = Some s" "cookie_type s = MC_IPC_COOKIE_CLIENT" "in_system s" "synid = Some k"
    using a by (auto simp: mcd_client_ack_msg_def is_client_def in_system_def bind_eq_Some_conv split: if_splits mc_cookie.splits option.splits)
  from mcd_client_ack_ok [OF inv q(3-5), of k] a q show ?thesis by auto
qed (use inv in simp)

lemma vote_inv_msg:
  assumes inv: "sys_inv S" and a: "mcd_client_vote_msg sub cookie applyid approved S = Some (r, S')"
  shows "sys_inv S'"
proof (cases "S' = S")
  case False
  then obtain q s k where q: "sub" "cookie = User_cookie q" "subs S q = Some s" "cookie_type s = MC_IPC_COOKIE_CLIENT" "in_system s" "applyid = Some k"
    using a by (auto simp: mcd_client_vote_msg_def is_client_def in_system_def bind_eq_Some_conv split: if_splits mc_cookie.splits option.splits)
  from mcd_client_vote_ok [OF inv q(3-5), of k approved] a q show ?thesis by auto
qed (use inv in simp)

lemma handler_inv:
  assumes inv: "sys_inv S" and a: "mc_ipc_handler K now started created sub cookie m S = Some (r, ans, S')"
  shows "sys_inv S'"
proof -
  note frame = sys_of_inv [THEN iffD2, OF _ inv]
  note simps = mc_ipc_handler_def plain_answer_def some_answer_def
  show ?thesis
  proof (cases m)
    case (MC_MSG_ACK k)
    with a show ?thesis by (auto simp: simps intro: ack_inv [OF inv])
  next
    case (MC_MSG_VOTE k ok)
    with a show ?thesis by (auto simp: simps intro: vote_inv_msg [OF inv])
  next
    case (MC_MSG_SYN k)
    with a sys_requests(1) [of started "\<not> sub" cookie k S] show ?thesis
      by (auto simp: simps split: prod.splits intro: frame)
  next
    case (MC_MSG_APPLY k)
    with a sys_requests(2) [of started "\<not> sub" cookie k S] show ?thesis
      by (auto simp: simps split: prod.splits intro: frame)
  next
    case (MC_MSG_REBOOT w)
    with a sys_requests(3) [of started created "\<not> sub" cookie w S] show ?thesis
      by (auto simp: simps split: prod.splits intro: frame)
  next
    case MC_MSG_EXIT
    with a show ?thesis by (auto simp: simps mcd_client_exit_msg_def bind_eq_Some_conv split: if_splits intro: frame)
  next
    case (MC_MSG_DETACH state name exits)
    with a show ?thesis by (auto simp: simps mcd_client_detach_msg_def split: if_splits dest!: sys_detach intro: frame)
  qed (use a in \<open>auto simp: simps dest!: sys_messages sys_exception sys_restart_msg intro: frame\<close>)
qed

lemma register_inv:
  assumes inv: "sys_inv S" and q: "subs S q = None"
    and a: "mc_ipc_register_process K now (Some q) client tasks dup True sevr identity msk reg S = Some (r, S')"
  shows "sys_inv S'"
proof -
  have err: "sys_inv V" if "sys_of U = sys_of S" "register_error q NULL U = Some (n, V)" for U V n
  proof -
    have "subs U = subs S" using that(1) by (simp add: sys_of_def)
    then have "V = U" using that(2) q by (auto simp: register_error_def fun_upd_idem)
    then show ?thesis using sys_of_inv [OF that(1)] inv by simp
  qed
  have bind: "sys_inv V" if lt: "subscribers S < MC_CLIENT_MAX" and e: "sys_of U = sys_of S" and b: "register_bind True q sevr msk p ct U = Some (n, V)" for U V n p ct
  proof -
    have u: "subs U q = None" "subscribers U < MC_CLIENT_MAX" using e q lt by (simp_all add: sys_of_def)
    have "sys_inv U" using sys_of_inv [OF e] inv by simp
    from register_bind_ok [OF this u(2,1), of sevr msk p ct] b show ?thesis by auto
  qed
  show ?thesis
    using a inv err [OF refl] bind [OF _ refl]
    by (auto simp: mc_ipc_register_process_def bind_eq_Some_conv split: if_splits option.splits dest!: sys_construct intro: err bind)
qed

lemma manager_inv:
  assumes inv: "sys_inv S" and n: "\<forall>reg. cmd \<noteq> IPC_CLIENT_REGISTER reg"
    and a: "mc_ipc_manager K now sub client tasks dup bound sevr identity msk cookie cmd S = Some (r, S')"
  shows "sys_inv S'"
proof (cases cmd)
  case IPC_CLIENT_RELEASE
  with a have e: "mc_ipc_release_process cookie S = Some S'" by (auto simp: mc_ipc_manager_def)
  show ?thesis
  proof (cases "\<exists>q s. cookie = User_cookie q \<and> subs S q = Some s")
    case True
    with mc_ipc_release_ok [OF inv] e show ?thesis by fastforce
  next
    case False
    with e inv show ?thesis by (cases cookie) (auto simp: mc_ipc_release_process_def bind_eq_Some_conv)
  qed
qed (use a n sys_of_inv [THEN iffD2, OF _ inv] in \<open>auto simp: mc_ipc_manager_def dest!: sys_connections\<close>)

lemma wait_inv:
  assumes "sys_inv S"
  shows "sys_inv (snd (sync_waiting k waited err S))" "sys_inv (snd (apply_waiting l waited S))" "sys_inv (reboot_waiting waited S)"
    "sys_inv (snd (mc_reboot_entry force pwroff pc S))"
  using mc_synchor_done_inv [OF assms] mc_referee_done_inv [OF assms] mc_synchor_wait_inv [OF assms] mc_referee_wait_inv [OF assms] assms
    sys_of_inv [OF sys_reboot(1)]
  by (auto simp: sync_waiting_def apply_waiting_def reboot_waiting_def mc_reboot_entry_def Let_def split: reboot_pc.split prod.splits)
    (metis snd_conv)+

lemma mc_step_inv:
  assumes "mc_step S S'" and inv: "sys_inv S"
  shows "sys_inv S'"
proof -
  note frame = sys_of_inv [THEN iffD2, OF _ inv]
  show ?thesis
    using assms(1)
  proof cases
    case Message
    then show ?thesis using handler_inv [OF inv] by blast
  next
    case Register
    then show ?thesis using register_inv [OF inv] by (simp add: mc_ipc_manager_def)
  next
    case Manage
    then show ?thesis using manager_inv [OF inv] by blast
  next
    case Inspect
    then show ?thesis by (blast intro: frame sys_inspect)
  next
    case Probe
    then show ?thesis by (simp add: mcd_probe_def frame)
  next
    case Guard
    then show ?thesis by (blast intro: frame sys_guard)
  next
    case Guard_delay
    then show ?thesis by (blast intro: frame sys_guard)
  next
    case Auto_reboot
    then show ?thesis by (simp add: device_reboot_def frame)
  next
    case Restart
    then show ?thesis by (blast intro: frame sys_client_restart)
  next
    case Review
    then show ?thesis by (blast intro: frame sys_processes)
  next
    case Event
    then show ?thesis by (blast intro: frame sys_events)
  next
    case Filter
    then show ?thesis by (blast intro: frame sys_events)
  qed (simp_all add: wait_inv [OF inv] mc_synchor_wait_inv [OF inv] mc_referee_wait_inv [OF inv])
qed

lemma mc_zero_inv: "sys_inv (mc_zero L conf tab)"
  using zero_bitmap_ok by (auto simp: sys_inv_def subs_inv_def sync_inv_def vote_inv_def ids_def mc_zero_def)

lemma mc_init_sys: "mc_init now L conf tab = Some S \<Longrightarrow> sys_of S = sys_of (mc_zero L conf tab)"
proof -
  have h: "init_lists hs S = Some S' \<Longrightarrow> sys_of S' = sys_of S" for hs S S'
    by (induction hs arbitrary: S) (auto simp: bind_eq_Some_conv dest!: sys_upd)
  have g: "mcd_guard_init gs S = Some S' \<Longrightarrow> sys_of S' = sys_of S" for gs S S'
    by (induction gs arbitrary: S) (auto simp: bind_eq_Some_conv dest!: sys_upd)
  have t: "sys_of (mc_timers_init S) = sys_of S" for S by (simp add: mc_timers_init_def register_if_def Let_def)
  assume "mc_init now L conf tab = Some S"
  then show ?thesis unfolding mc_init_def Let_def bind_eq_Some_conv using h g t by fastforce
qed

lemma mc_init_inv: "mc_init now L conf tab = Some S \<Longrightarrow> sys_inv S"
  using mc_init_sys mc_zero_inv sys_of_inv by blast

lemma mc_reach_inv: "mc_reach S \<Longrightarrow> sys_inv S"
  by (induction rule: mc_reach.induct) (auto intro: mc_init_inv mc_step_inv)

end
