(* ===== verification/Mc_Order.thy ===== *)
theory Mc_Order
  imports Mc_Steps
begin

text \<open>
  The lists of the daemon: where an entry is put, that the list of tasks stays in order of expiry, and that the inspection
  therefore finds every task that is overdue although it stops at the first that is not.
\<close>

definition client_heads :: "addr set" where
  "client_heads = {client_deadq, client_lossq, client_runningq, client_detachdq}"

definition mc_heads :: "addr set" where
  "mc_heads = insert task_head (insert guard_head client_heads)"

lemma heads [simp]: "task_head \<in> mc_heads" "client_lossq \<in> mc_heads" "h \<in> client_heads \<Longrightarrow> h \<in> mc_heads" "task_head \<notin> client_heads"
    "client_lossq \<in> client_heads" "client_runningq \<in> client_heads" "client_runningq \<in> mc_heads"
    "client_lossq \<noteq> task_head" "client_runningq \<noteq> task_head" "client_lossq \<noteq> client_runningq" "task_head \<noteq> NULL"
  by (auto simp: mc_heads_def client_heads_def head_defs)

section \<open>Insertion by expiry\<close>

definition place :: "(addr \<Rightarrow> int) \<Rightarrow> int \<Rightarrow> addr \<Rightarrow> addr list \<Rightarrow> addr list" where
  "place k e n xs = takeWhile (\<lambda>x. e < k x) xs @ n # dropWhile (\<lambda>x. e < k x) xs"

lemma insert_pos_ok:
  assumes "ring L a (us @ vs)" and "\<forall>x\<in>set vs. key x = Some (k x)"
  shows "insert_pos key e (hd (vs @ [a])) a L = Some (hd (dropWhile (\<lambda>x. e < k x) vs @ [a]))"
  using assms
proof (induction vs arbitrary: us)
  case Nil
  then show ?case by (subst insert_pos.simps) simp
next
  case (Cons v vs)
  have r: "v \<noteq> a" "v \<noteq> NULL" "dlseg L v vs a" using Cons.prems(1) by (auto simp: ring_def dlseg_append)
  then have "list_next (L v) = hd (vs @ [a])" using dlseg_next by blast
  moreover have "insert_pos key e (hd (vs @ [a])) a L = Some (hd (dropWhile (\<lambda>x. e < k x) vs @ [a]))"
    using Cons.IH [of "us @ [v]"] Cons.prems by simp
  ultimately show ?case using r Cons.prems(2) by (subst insert_pos.simps) (auto simp: mem_simps)
qed

lemma insert_by_ok:
  assumes R: "rings L H ls" and a: "a \<in> H" and n: "n \<noteq> NULL" "\<forall>b\<in>H. n \<notin> set (b # ls b)" and k: "\<forall>x\<in>set (ls a). key x = Some (k x)"
  shows "\<exists>L'. insert_by key e n a L = Some L' \<and> rings L' H (ls(a := place k e n (ls a)))"
proof -
  let ?us = "takeWhile (\<lambda>x. e < k x) (ls a)" and ?vs = "dropWhile (\<lambda>x. e < k x) (ls a)"
  have r: "ring L a (ls a)" using R a by (rule ringsD)
  have "insert_pos key e (list_next (L a)) a L = Some (hd (?vs @ [a]))"
    using insert_pos_ok [of L a "[]" "ls a" key k e] r k dlseg_next [of L a "ls a" a] by (simp add: ring_def)
  moreover have "n \<notin> set (a # ?us @ ?vs)" using n(2) a by simp
  with list_insert_before_ok [of L a ?us ?vs n] r n(1) obtain L' where
    L': "list_add_tail n (hd (?vs @ [a])) L = Some L'" "ring L' a (place k e n (ls a))" "only L L' (set (n # a # ls a))"
    by (auto simp: place_def simp del: set_append)
  moreover have "rings L' H (ls(a := place k e n (ls a)))"
    by (rule rings_upd [OF R a L'(2,3), of "{n}"]) (use n(2) in \<open>auto simp: place_def dest: set_takeWhileD set_dropWhileD\<close>)
  ultimately show ?thesis using ring_head [OF r] by (auto simp: insert_by_def mem_simps)
qed

lemma place_sorted:
  assumes "sorted_wrt (\<lambda>x y. k x \<ge> k y) xs" and "k n = e"
  shows "sorted_wrt (\<lambda>x y. k x \<ge> k y) (place k e n xs)"
  using assms
proof (induction xs)
  case (Cons x xs)
  show ?case
  proof (cases "e < k x")
    case True
    have "place k e n (x # xs) = x # place k e n xs" using True by (simp add: place_def)
    moreover have "set (place k e n xs) = insert n (set xs)" by (auto simp: place_def dest: set_takeWhileD set_dropWhileD) (metis takeWhile_dropWhile_id Un_iff set_append)
    ultimately show ?thesis using Cons True by auto
  next
    case False
    then show ?thesis using Cons.prems by (auto simp: place_def)
  qed
qed (simp add: place_def)

lemma place_set: "set (place k e n xs) = insert n (set xs)"
  by (auto simp: place_def dest: set_takeWhileD set_dropWhileD) (metis takeWhile_dropWhile_id Un_iff set_append)

lemma place_cong: "(\<And>x. x \<in> set xs \<Longrightarrow> k x = k' x) \<Longrightarrow> place k e n xs = place k' e n xs"
  unfolding place_def by (metis (mono_tags, lifting) dropWhile_cong takeWhile_cong)

section \<open>The list of tasks\<close>

definition expire :: "mc_struct \<Rightarrow> addr \<Rightarrow> int" where
  "expire S t = (case mc_tasks S t of None \<Rightarrow> 0 | Some x \<Rightarrow> t_expire x)"

text \<open>The lists are rings, and the tasks in them exist and are in order, the last to expire first.\<close>

definition tasks_ok :: "mc_struct \<Rightarrow> (addr \<Rightarrow> addr list) \<Rightarrow> bool" where
  "tasks_ok S ls \<longleftrightarrow> rings (mc_links S) mc_heads ls \<and> set (ls task_head) \<subseteq> dom (mc_tasks S) \<and>
     sorted_wrt (\<lambda>x y. expire S x \<ge> expire S y) (ls task_head)"

lemma list_del_self:
  assumes "ring L t []"
  shows "\<exists>L'. list_del t L = Some L' \<and> only L L' {t}"
  using assms by (auto simp: ring_def list_del_def list_del_between_def mem_simps only_def)

text \<open>A task that is taken out, from the list or from a ring of its own.\<close>

lemma task_out:
  assumes R: "rings L mc_heads ls" and t: "t \<in> set (ls task_head) \<or> ring L t [] \<and> (\<forall>b\<in>mc_heads. t \<notin> set (b # ls b))"
  shows "t \<noteq> NULL \<and> (\<exists>L'. list_del t L = Some L' \<and> rings L' mc_heads (ls(task_head := remove1 t (ls task_head))) \<and>
    (\<forall>b\<in>mc_heads. t \<notin> set (b # (ls(task_head := remove1 t (ls task_head))) b)))"
proof (cases "t \<in> set (ls task_head)")
  case True
  have r: "ring L task_head (ls task_head)" using R by (rule ringsD) simp
  with True have d: "t \<noteq> NULL" "t \<noteq> task_head" "distinct (ls task_head)" by (auto simp: ring_def)
  have "t \<notin> set (b # (ls(task_head := remove1 t (ls task_head))) b)" if "b \<in> mc_heads" for b
    using rings_disj [OF R heads(1) that] d True by (auto simp: set_remove1_eq)
  with rings_del [OF R heads(1) True] d show ?thesis by blast
next
  case False
  with t have s: "ring L t []" "\<forall>b\<in>mc_heads. t \<notin> set (b # ls b)" by blast+
  from list_del_self [OF s(1)] obtain L' where L': "list_del t L = Some L'" "only L L' {t}" by blast
  have "ring L' task_head (ls task_head)" by (rule ring_only [OF ringsD [OF R] L'(2)]) (use s(2) heads(1) in auto)
  then have "rings L' mc_heads (ls(task_head := ls task_head))"
    by (intro rings_upd [OF R heads(1) _ L'(2), of _ "{t}"]) (use s(2) in auto)
  moreover have "remove1 t (ls task_head) = ls task_head" using False by (rule remove1_idem)
  moreover have "t \<noteq> NULL" using s(1) by (rule ring_head)
  ultimately show ?thesis using L' s(2) by auto
qed

lemma sorted_remove1: "sorted_wrt R xs \<Longrightarrow> sorted_wrt R (remove1 x xs)"
  by (induction xs) (auto dest: notin_set_remove1 [rotated] set_remove1_subset [THEN subsetD])

lemma task_active_run:
  assumes ok: "tasks_ok S ls" and x: "mc_tasks S t = Some x"
    and t: "t \<in> set (ls task_head) \<or> ring (mc_links S) t [] \<and> (\<forall>b\<in>mc_heads. t \<notin> set (b # ls b))"
  shows "\<exists>S' ys. mc_task_active now t S = Some S' \<and> tasks_ok S' (ls(task_head := ys)) \<and> set ys = insert t (set (ls task_head)) \<and>
    mc_tasks S' = (mc_tasks S)(t \<mapsto> x\<lparr>t_expire := now + loss_max (mc_conf S) * t_interval x\<rparr>) \<and> clients S' = clients S"
proof -
  let ?e = "now + loss_max (mc_conf S) * t_interval x" and ?xs = "remove1 t (ls task_head)"
  let ?k = "\<lambda>u. if u = t then ?e else expire S u"
  have R: "rings (mc_links S) mc_heads ls" and dom: "set (ls task_head) \<subseteq> dom (mc_tasks S)"
    and srt: "sorted_wrt (\<lambda>x y. expire S x \<ge> expire S y) (ls task_head)" using ok by (simp_all add: tasks_ok_def)
  from task_out [OF R t] obtain L' where t0: "t \<noteq> NULL" and L': "list_del t (mc_links S) = Some L'" "rings L' mc_heads (ls(task_head := ?xs))"
    "\<forall>b\<in>mc_heads. t \<notin> set (b # (ls(task_head := ?xs)) b)" by blast
  let ?S1 = "S\<lparr>mc_links := L', mc_tasks := (mc_tasks S)(t \<mapsto> x\<lparr>t_expire := ?e\<rparr>)\<rparr>"
  have nt: "t \<notin> set ?xs" using L'(3) heads(1) by fastforce
  have "\<forall>u\<in>set ((ls(task_head := ?xs)) task_head). task_key ?S1 u = Some (?k u)"
    using dom set_remove1_subset [of t "ls task_head"] nt by (auto simp: task_key_def expire_def split: option.splits)
  from insert_by_ok [OF L'(2) heads(1) t0 L'(3) this, of ?e] obtain L2 where
    L2: "insert_by (task_key ?S1) ?e t task_head L' = Some L2" "rings L2 mc_heads (ls(task_head := place ?k ?e t ?xs))"
    unfolding fun_upd_upd fun_upd_same by blast
  let ?S' = "?S1\<lparr>mc_links := L2\<rparr>" and ?ys = "place ?k ?e t ?xs"
  have "mc_task_active now t S = Some ?S'"
    using x L'(1) L2(1) by (simp add: mc_task_active_def on_links_def upd_task_def Let_def)
  moreover have "tasks_ok ?S' (ls(task_head := ?ys))"
  proof -
    have e: "expire ?S' u = ?k u" for u by (simp add: expire_def)
    have "sorted_wrt (\<lambda>x y. ?k x \<ge> ?k y) ?xs"
      by (rule sorted_wrt_mono_rel [OF _ sorted_remove1 [OF srt, of t]]) (use nt in auto)
    then have "sorted_wrt (\<lambda>x y. expire ?S' x \<ge> expire ?S' y) ?ys" unfolding e by (rule place_sorted) simp
    then show ?thesis using L2(2) dom set_remove1_subset [of t "ls task_head"] by (auto simp: tasks_ok_def place_set)
  qed
  moreover have "set ?ys = insert t (set (ls task_head))"
  proof -
    have "distinct (ls task_head)" using ringsD [OF R heads(1)] by (simp add: ring_def)
    then show ?thesis by (auto simp: place_set set_remove1_eq)
  qed
  ultimately show ?thesis by (intro exI [of _ ?S'] exI [of _ ?ys]) simp
qed

section \<open>Inspection\<close>

text \<open>The strategies that overdue tasks \<open>E\<close> call for at a client.\<close>

definition due :: "mc_task set \<Rightarrow> addr \<Rightarrow> nat \<Rightarrow> bool" where
  "due E p i \<longleftrightarrow> i < 32 \<and> (\<exists>t\<in>E. t_client t = p \<and> t_strategy t = i)"

definition owned :: "mc_struct \<Rightarrow> (addr \<Rightarrow> addr list) \<Rightarrow> bool" where
  "owned S ls \<longleftrightarrow> (\<forall>t\<in>set (ls task_head). \<exists>x c. mc_tasks S t = Some x \<and> clients S (t_client x) = Some c \<and> (\<exists>h\<in>client_heads. t_client x \<in> set (ls h)))"

text \<open>What the loop has done when the overdue tasks it met are \<open>E\<close>.\<close>

definition marked :: "mc_task set \<Rightarrow> mc_struct \<Rightarrow> (addr \<Rightarrow> addr list) \<Rightarrow> 32 word \<Rightarrow> mc_struct \<Rightarrow> (addr \<Rightarrow> addr list) \<Rightarrow> 32 word \<Rightarrow> bool" where
  "marked E S ls a S' ls' a' \<longleftrightarrow>
     rings (mc_links S') mc_heads ls' \<and> ls' task_head = ls task_head \<and> mc_tasks S' = mc_tasks S \<and> owned S' ls' \<and>
     (\<forall>p. case clients S p of None \<Rightarrow> clients S' p = None
        | Some c \<Rightarrow> \<exists>c'. clients S' p = Some c' \<and> c\<lparr>c_flags := c_flags c'\<rparr> = c' \<and> (\<forall>i. bit (c_flags c') i \<longleftrightarrow> bit (c_flags c) i \<or> due E p i)) \<and>
     (\<forall>i. bit a' i \<longleftrightarrow> bit a i \<or> (\<exists>p c. clients S p = Some c \<and> due E p i \<and> \<not> bit (c_flags c) i)) \<and>
     set (ls client_lossq) \<subseteq> set (ls' client_lossq) \<and>
     (\<forall>p c. clients S p = Some c \<and> due E p MC_STRATEGY_RESTART \<and> \<not> bit (c_flags c) MC_STRATEGY_RESTART \<longrightarrow> p \<in> set (ls' client_lossq))"

lemma bit_BIT [simp]: "bit (BIT i) j \<longleftrightarrow> i = j \<and> i < 32"
  by (auto simp: bit_simps)

lemma has_BIT: "has w (BIT i) \<longleftrightarrow> bit w i"
proof -
  have "w AND BIT i = (if bit w i then BIT i else 0)"
    by (rule bit_word_eqI) (auto simp: bit_simps)
  moreover have "BIT i \<noteq> 0" if w: "bit w i"
  proof
    assume z: "BIT i = 0"
    have "i < 32" using bit_imp_le_length [OF w] by simp
    then have "bit (BIT i) i" by (simp only: bit_BIT simp_thms)
    then show False unfolding z by simp
  qed
  ultimately show ?thesis by (auto simp: has_def)
qed

text \<open>A client goes to the end of a list from wherever it is.\<close>

lemma rings_list_move:
  assumes R: "rings L mc_heads ls" and h: "h \<in> mc_heads" and p: "p \<in> set (ls h)" and b: "b \<in> mc_heads"
  shows "\<exists>L' ls'. list_move p b L = Some L' \<and> rings L' mc_heads ls' \<and> set (ls' b) = insert p (set (ls b)) \<and>
    (\<forall>k\<in>mc_heads. k \<noteq> b \<longrightarrow> ls' k = (if k = h then remove1 p (ls h) else ls k))"
proof -
  let ?ls = "ls(h := remove1 p (ls h))"
  from rings_del [OF R h p] obtain L1 where L1: "list_del p L = Some L1" "rings L1 mc_heads ?ls" by blast
  have d: "distinct (h # ls h)" "p \<noteq> NULL" using ringsD [OF R h] p by (auto simp: ring_def)
  have n: "\<forall>c\<in>mc_heads. p \<notin> set (c # ?ls c)" using rings_disj [OF R h] d p by (fastforce simp: set_remove1_eq)
  then have nb: "p \<notin> set (b # ?ls b)" using b by blast
  from list_add_tail_ok [OF ringsD [OF L1(2) b] d(2) nb] obtain L2 where
    L2: "list_add_tail p b L1 = Some L2" "ring L2 b (?ls b @ [p])" "only L1 L2 (set (p # b # ?ls b))" by blast
  have "rings L2 mc_heads (?ls(b := ?ls b @ [p]))"
    by (rule rings_upd [OF L1(2) b L2(2,3), of "{p}"]) (use n in auto)
  moreover have "set ((?ls(b := ?ls b @ [p])) b) = insert p (set (ls b))" using d p by (auto simp: set_remove1_eq)
  ultimately show ?thesis using L1(1) L2(1) by (intro exI [of _ L2] exI [of _ "?ls(b := ?ls b @ [p])"]) (simp add: list_move_def)
qed

text \<open>One round of the loop.\<close>

definition mark_task :: "mc_task \<Rightarrow> 32 word \<Rightarrow> mc_struct \<Rightarrow> (32 word \<times> mc_struct) option" where
  "mark_task t action S = do {
     c \<leftarrow> clients S (t_client t);
     if has (c_flags c) (BIT (t_strategy t)) then Some (action, S)
     else do {
       S \<leftarrow> upd_client (t_client t) (\<lambda>c. c\<lparr>c_flags := c_flags c OR BIT (t_strategy t)\<rparr>) S;
       S \<leftarrow> (if t_strategy t = MC_STRATEGY_RESTART then on_links (list_move (t_client t) client_lossq) S else Some S);
       Some (action OR BIT (t_strategy t), S)
     }
   }"

lemma inspect_tasks_step:
  assumes "q \<noteq> task_head" and "mc_tasks S q = Some t"
  shows "inspect_tasks current q n action S =
    (if current < t_expire t then Some (action, S)
     else do { (action, S) \<leftarrow> mark_task t action S; m \<leftarrow> load (mc_links S) n; inspect_tasks current n (list_prev m) action S })"
proof (cases "clients S (t_client t)")
  case None
  then show ?thesis using assms by (subst inspect_tasks.simps) (simp add: mark_task_def)
next
  case (Some c)
  then show ?thesis using assms by (subst inspect_tasks.simps) (simp add: mark_task_def)
qed

lemma mark_task_flag:
  fixes t :: mc_task
  assumes R: "rings (mc_links S) mc_heads ls" and o: "owned S ls" and c: "clients S (t_client t) = Some c"
    and h: "h \<in> client_heads" "t_client t \<in> set (ls h)" and nb: "\<not> bit (c_flags c) (t_strategy t)"
  shows "\<exists>S' ls'. mark_task t a S = Some (a OR BIT (t_strategy t), S') \<and>
    rings (mc_links S') mc_heads ls' \<and> ls' task_head = ls task_head \<and> mc_tasks S' = mc_tasks S \<and>
    clients S' = (clients S)(t_client t \<mapsto> c\<lparr>c_flags := c_flags c OR BIT (t_strategy t)\<rparr>) \<and>
    (\<forall>p. (\<exists>k\<in>client_heads. p \<in> set (ls k)) \<longrightarrow> (\<exists>k\<in>client_heads. p \<in> set (ls' k))) \<and> set (ls client_lossq) \<subseteq> set (ls' client_lossq) \<and>
    (t_strategy t = MC_STRATEGY_RESTART \<longrightarrow> t_client t \<in> set (ls' client_lossq))"
proof -
  let ?S = "S\<lparr>clients := (clients S)(t_client t \<mapsto> c\<lparr>c_flags := c_flags c OR BIT (t_strategy t)\<rparr>)\<rparr>"
  have m: "mark_task t a S = do {
       S \<leftarrow> (if t_strategy t = MC_STRATEGY_RESTART then on_links (list_move (t_client t) client_lossq) ?S else Some ?S);
       Some (a OR BIT (t_strategy t), S) }"
    using c nb [folded has_BIT] by (simp add: mark_task_def upd_client_def)
  show ?thesis
  proof (cases "t_strategy t = MC_STRATEGY_RESTART")
    case False
    with m R show ?thesis by (intro exI [of _ ?S] exI [of _ ls]) auto
  next
    case True
    from rings_list_move [OF R heads(3) [OF h(1)] h(2) heads(2)] obtain L' ls' where
      L': "list_move (t_client t) client_lossq (mc_links S) = Some L'" "rings L' mc_heads ls'"
        "set (ls' client_lossq) = insert (t_client t) (set (ls client_lossq))"
        "\<forall>k\<in>mc_heads. k \<noteq> client_lossq \<longrightarrow> ls' k = (if k = h then remove1 (t_client t) (ls h) else ls k)" by blast
    have "\<exists>k\<in>client_heads. p \<in> set (ls' k)" if k: "k \<in> client_heads" "p \<in> set (ls k)" for p k
    proof (cases "p = t_client t \<or> k = client_lossq")
      case True
      then show ?thesis using k L'(3) heads(5) by (intro bexI [of _ client_lossq]) auto
    next
      case False
      then have "p \<in> set (ls' k)" using k L'(4) heads(3) [OF k(1)] by (auto simp: in_set_remove1)
      then show ?thesis using k(1) by blast
    qed
    moreover have "ls' task_head = ls task_head" using L'(4) h(1) heads by (metis (full_types))
    ultimately show ?thesis using True m L' by (intro exI [of _ "?S\<lparr>mc_links := L'\<rparr>"] exI [of _ ls']) (auto simp: on_links_def)
  qed
qed

lemma bit_OR_BIT: "bit (w OR BIT i) j \<longleftrightarrow> bit w j \<or> i = j \<and> i < 32" for w :: "32 word"
  by (simp only: bit_or_iff bit_BIT)

lemma mark_task_ok:
  assumes R: "rings (mc_links S) mc_heads ls" and o: "owned S ls" and q: "q \<in> set (ls task_head)" "mc_tasks S q = Some t"
  shows "\<exists>a' S' ls'. mark_task t a S = Some (a', S') \<and> marked {t} S ls a S' ls' a'"
proof -
  obtain c h where c: "clients S (t_client t) = Some c" and h: "h \<in> client_heads" "t_client t \<in> set (ls h)"
    using o q unfolding owned_def by fastforce
  show ?thesis
  proof (cases "bit (c_flags c) (t_strategy t)")
    case True
    then have "mark_task t a S = Some (a, S)" using c by (simp only: mark_task_def has_BIT bind.bind_lunit if_True)
    moreover have "marked {t} S ls a S ls a"
      using True R o c by (auto simp: marked_def due_def split: option.split)
    ultimately show ?thesis by blast
  next
    case False
    from mark_task_flag [OF R o c h False, of a] obtain S' ls' where
      S': "mark_task t a S = Some (a OR BIT (t_strategy t), S')" "rings (mc_links S') mc_heads ls'" "ls' task_head = ls task_head"
        "mc_tasks S' = mc_tasks S" "clients S' = (clients S)(t_client t \<mapsto> c\<lparr>c_flags := c_flags c OR BIT (t_strategy t)\<rparr>)"
        "\<forall>p. (\<exists>k\<in>client_heads. p \<in> set (ls k)) \<longrightarrow> (\<exists>k\<in>client_heads. p \<in> set (ls' k))" "set (ls client_lossq) \<subseteq> set (ls' client_lossq)"
        "t_strategy t = MC_STRATEGY_RESTART \<longrightarrow> t_client t \<in> set (ls' client_lossq)" by blast
    have "owned S' ls'" unfolding owned_def
    proof
      fix u assume "u \<in> set (ls' task_head)"
      with S'(3) o obtain x d where x: "mc_tasks S u = Some x" "clients S (t_client x) = Some d" "\<exists>k\<in>client_heads. t_client x \<in> set (ls k)"
        unfolding owned_def by fastforce
      then have "\<exists>k\<in>client_heads. t_client x \<in> set (ls' k)" using S'(6) by blast
      with x S'(4,5) show "\<exists>x c. mc_tasks S' u = Some x \<and> clients S' (t_client x) = Some c \<and> (\<exists>k\<in>client_heads. t_client x \<in> set (ls' k))"
        by (intro exI [of _ x]) auto
    qed
    moreover have "case clients S p of None \<Rightarrow> clients S' p = None
        | Some d \<Rightarrow> \<exists>d'. clients S' p = Some d' \<and> d\<lparr>c_flags := c_flags d'\<rparr> = d' \<and> (\<forall>i. bit (c_flags d') i \<longleftrightarrow> bit (c_flags d) i \<or> due {t} p i)" for p
      using c S'(5) by (cases "p = t_client t") (auto simp: bit_OR_BIT due_def split: option.split simp del: push_bit_of_1)
    moreover have "bit (a OR BIT (t_strategy t)) i \<longleftrightarrow> bit a i \<or> (\<exists>p c. clients S p = Some c \<and> due {t} p i \<and> \<not> bit (c_flags c) i)" for i
      using c False by (auto simp: bit_OR_BIT due_def simp del: push_bit_of_1)
    ultimately show ?thesis using S' by (intro exI conjI) (assumption, auto simp: marked_def due_def)
  qed
qed

lemma marked_trans:
  assumes "marked E S ls a S1 ls1 a1" and "marked F S1 ls1 a1 S2 ls2 a2"
  shows "marked (E \<union> F) S ls a S2 ls2 a2"
proof -
  have d: "due (E \<union> F) p i \<longleftrightarrow> due E p i \<or> due F p i" for p i by (auto simp: due_def)
  have c1: "case clients S p of None \<Rightarrow> clients S1 p = None
        | Some c \<Rightarrow> \<exists>c'. clients S1 p = Some c' \<and> c\<lparr>c_flags := c_flags c'\<rparr> = c' \<and> (\<forall>i. bit (c_flags c') i \<longleftrightarrow> bit (c_flags c) i \<or> due E p i)" for p
    using assms(1) by (simp add: marked_def)
  have c2: "case clients S1 p of None \<Rightarrow> clients S2 p = None
        | Some c \<Rightarrow> \<exists>c'. clients S2 p = Some c' \<and> c\<lparr>c_flags := c_flags c'\<rparr> = c' \<and> (\<forall>i. bit (c_flags c') i \<longleftrightarrow> bit (c_flags c) i \<or> due F p i)" for p
    using assms(2) by (simp add: marked_def)
  have cl: "case clients S p of None \<Rightarrow> clients S2 p = None
        | Some c \<Rightarrow> \<exists>c'. clients S2 p = Some c' \<and> c\<lparr>c_flags := c_flags c'\<rparr> = c' \<and> (\<forall>i. bit (c_flags c') i \<longleftrightarrow> bit (c_flags c) i \<or> due (E \<union> F) p i)" for p
  proof (cases "clients S p")
    case None
    with c1 [of p] c2 [of p] show ?thesis by simp
  next
    case (Some c)
    with c1 [of p] obtain c' where c': "clients S1 p = Some c'" "c\<lparr>c_flags := c_flags c'\<rparr> = c'" "\<And>i. bit (c_flags c') i \<longleftrightarrow> bit (c_flags c) i \<or> due E p i" by auto
    with c2 [of p] obtain c'' where c'': "clients S2 p = Some c''" "c'\<lparr>c_flags := c_flags c''\<rparr> = c''" "\<And>i. bit (c_flags c'') i \<longleftrightarrow> bit (c_flags c') i \<or> due F p i" by auto
    have "c\<lparr>c_flags := c_flags c''\<rparr> = (c\<lparr>c_flags := c_flags c'\<rparr>)\<lparr>c_flags := c_flags c''\<rparr>" by simp
    then have "c\<lparr>c_flags := c_flags c''\<rparr> = c''" using c'(2) c''(2) by simp
    with Some c'(3) c''(1,3) show ?thesis by (auto simp: d)
  qed
  have into: "\<exists>c'. clients S1 p = Some c' \<and> (\<forall>i. bit (c_flags c') i \<longleftrightarrow> bit (c_flags c) i \<or> due E p i)" if "clients S p = Some c" for p c
    using c1 [of p] that by auto
  have forth: "\<exists>c. clients S p = Some c \<and> (\<forall>i. bit (c_flags c') i \<longleftrightarrow> bit (c_flags c) i \<or> due E p i)" if "clients S1 p = Some c'" for p c'
    using c1 [of p] that by (auto split: option.splits)
  have act: "bit a2 i \<longleftrightarrow> bit a i \<or> (\<exists>p c. clients S p = Some c \<and> due (E \<union> F) p i \<and> \<not> bit (c_flags c) i)" for i
  proof -
    have "bit a2 i \<longleftrightarrow> bit a i \<or> (\<exists>p c. clients S p = Some c \<and> due E p i \<and> \<not> bit (c_flags c) i) \<or> (\<exists>p c'. clients S1 p = Some c' \<and> due F p i \<and> \<not> bit (c_flags c') i)"
      using assms by (simp add: marked_def)
    also have "\<dots> \<longleftrightarrow> bit a i \<or> (\<exists>p c. clients S p = Some c \<and> due (E \<union> F) p i \<and> \<not> bit (c_flags c) i)"
      using into forth d by meson
    finally show ?thesis .
  qed
  have loss: "p \<in> set (ls2 client_lossq)"
    if p: "clients S p = Some c" "due (E \<union> F) p MC_STRATEGY_RESTART" "\<not> bit (c_flags c) MC_STRATEGY_RESTART" for p c
  proof (cases "due E p MC_STRATEGY_RESTART")
    case True
    then have "p \<in> set (ls1 client_lossq)" using assms(1) p by (auto simp: marked_def)
    then show ?thesis using assms(2) by (auto simp: marked_def)
  next
    case False
    with p(2) have f: "due F p MC_STRATEGY_RESTART" by (simp add: d)
    obtain c' where "clients S1 p = Some c'" "\<not> bit (c_flags c') MC_STRATEGY_RESTART" using into [OF p(1)] p(3) False by blast
    with f show ?thesis using assms(2) unfolding marked_def by blast
  qed
  show ?thesis unfolding marked_def using assms cl act loss by (simp add: marked_def) blast
qed

lemma marked_refl: "rings (mc_links S) mc_heads ls \<Longrightarrow> owned S ls \<Longrightarrow> marked {} S ls a S ls a"
  by (auto simp: marked_def due_def split: option.split)

definition overdue :: "int \<Rightarrow> mc_struct \<Rightarrow> addr list \<Rightarrow> mc_task set" where
  "overdue current S ts = {x. \<exists>t\<in>set ts. mc_tasks S t = Some x \<and> t_expire x \<le> current}"

lemma inspect_run:
  assumes "rings (mc_links S) mc_heads ls" and "owned S ls" and "ls task_head = us @ vs" and "us \<noteq> [] \<longrightarrow> n = last (task_head # butlast us)"
  shows "\<exists>a' S' ls'. inspect_tasks current (last (task_head # us)) n a S = Some (a', S') \<and>
    marked (overdue current S (takeWhile (\<lambda>t. expire S t \<le> current) (rev us))) S ls a S' ls' a'"
  using assms
proof (induction us arbitrary: vs n a S ls rule: rev_induct)
  case Nil
  then show ?case by (subst inspect_tasks.simps) (simp add: overdue_def, blast intro: marked_refl)
next
  case (snoc q us)
  note R = snoc.prems(1)
  have r: "ring (mc_links S) task_head (us @ q # vs)" using ringsD [OF R heads(1)] snoc.prems(3) by simp
  then have q: "q \<noteq> task_head" "q \<in> set (ls task_head)" using snoc.prems(3) by (auto simp: ring_def)
  then obtain t where t: "mc_tasks S q = Some t" using snoc.prems(2) by (auto simp: owned_def)
  have n: "n = last (task_head # us)" using snoc.prems(4) by simp
  show ?case
  proof (cases "current < t_expire t")
    case True
    then have "takeWhile (\<lambda>t. expire S t \<le> current) (rev (us @ [q])) = []" using t by (simp add: expire_def)
    with True show ?thesis using inspect_tasks_step [OF q(1) t] marked_refl [OF R snoc.prems(2), of a] by (auto simp: overdue_def)
  next
    case False
    from mark_task_ok [OF R snoc.prems(2) q(2) t, of a] obtain a1 S1 ls1 where
      m: "mark_task t a S = Some (a1, S1)" "marked {t} S ls a S1 ls1 a1" by blast
    then have m': "rings (mc_links S1) mc_heads ls1" "ls1 task_head = us @ q # vs" "mc_tasks S1 = mc_tasks S" "owned S1 ls1"
      using snoc.prems(3) by (simp_all add: marked_def)
    have r1: "ring (mc_links S1) task_head (us @ q # vs)" using ringsD [OF m'(1) heads(1)] m'(2) by simp
    have "n \<noteq> NULL" using r1 n by (cases us rule: rev_cases) (auto simp: ring_def)
    moreover have "us \<noteq> [] \<longrightarrow> list_prev (mc_links S1 n) = last (task_head # butlast us)"
      using r1 n by (cases us rule: rev_cases) (auto simp: ring_def dlseg_append dest: dlseg_prev)
    ultimately obtain a' S' ls' where
      i: "inspect_tasks current n (list_prev (mc_links S1 n)) a1 S1 = Some (a', S')"
        "marked (overdue current S1 (takeWhile (\<lambda>t. expire S1 t \<le> current) (rev us))) S1 ls1 a1 S' ls' a'"
      using snoc.IH [OF m'(1,4), of "q # vs"] m'(2) n by fastforce
    have e: "expire S1 = expire S" "overdue current S1 = overdue current S" using m'(3) by (simp_all add: expire_def overdue_def fun_eq_iff)
    have "overdue current S (takeWhile (\<lambda>t. expire S t \<le> current) (rev (us @ [q]))) = {t} \<union> overdue current S (takeWhile (\<lambda>t. expire S t \<le> current) (rev us))"
      using False t by (auto simp: expire_def overdue_def)
    then have "marked (overdue current S (takeWhile (\<lambda>t. expire S t \<le> current) (rev (us @ [q])))) S ls a S' ls' a'"
      using marked_trans [OF m(2) i(2)] by (simp only: e)
    moreover have "inspect_tasks current (last (task_head # us @ [q])) n a S = Some (a', S')"
      using inspect_tasks_step [OF q(1) t, of current n a] False m(1) i(1) \<open>n \<noteq> NULL\<close> by (simp add: mem_simps)
    ultimately show ?thesis by blast
  qed
qed

lemma overdue_all:
  assumes "sorted_wrt (\<lambda>x y. expire S x \<ge> expire S y) ts"
  shows "overdue current S (takeWhile (\<lambda>t. expire S t \<le> current) (rev ts)) = overdue current S ts"
proof -
  have "\<not> expire S x \<le> current" if m: "x \<in> set (dropWhile (\<lambda>t. expire S t \<le> current) (rev ts))" for x
  proof -
    let ?d = "dropWhile (\<lambda>t. expire S t \<le> current) (rev ts)"
    obtain y ys where d: "?d = y # ys" using m by (cases ?d) auto
    have "sorted_wrt (\<lambda>x y. expire S y \<ge> expire S x) (rev ts)" using assms by (simp add: sorted_wrt_rev)
    then have "sorted_wrt (\<lambda>x y. expire S y \<ge> expire S x) ?d" by (metis sorted_wrt_append takeWhile_dropWhile_id)
    then have "expire S x \<ge> expire S y" using m d by auto
    moreover have "\<not> expire S y \<le> current" using hd_dropWhile [of "\<lambda>t. expire S t \<le> current" "rev ts"] d by auto
    ultimately show ?thesis by simp
  qed
  then have "takeWhile (\<lambda>t. expire S t \<le> current) (rev ts) = filter (\<lambda>t. expire S t \<le> current) (rev ts)" by (rule takeWhile_eq_filter)
  then show ?thesis by (auto simp: overdue_def expire_def)
qed

end
