(* ===== verification/Mc_Properties.thy ===== *)
theory Mc_Properties
  imports Mc_Order
begin

text \<open>
  The properties of the daemon.
\<close>

section \<open>Examples\<close>

definition conf0 :: mc_config where
  "conf0 = \<lparr>delay_online = 0, delay_reboot = 30, delay_restart = 1, guard_conf = [], guard_delay = 3, guard_interval = 5, loss_max = 3,
     patrol_interval = 5, probe_interval = 5, watchdog_interval = 0, watchdog_timeout = 0, auto_reboot_timeout = 0\<rparr>"

definition kernel0 :: kernel where
  "kernel0 = \<lparr>proc_name = (\<lambda>_. Some ''app''), alive = (\<lambda>_. True), kill_ok = (\<lambda>_. True), notify_ok = (\<lambda>_. True), restart_pid = (\<lambda>_. 100),
     find_pid = (\<lambda>_. 0), pidfile_pid = (\<lambda>_. 0), latch_pid = (\<lambda>_. 100)\<rparr>"

definition links0 :: links where
  "links0 = (\<lambda>_. \<lparr>list_next = NULL, list_prev = NULL\<rparr>)"

definition reg0 :: mc_reginfo where
  "reg0 = \<lparr>r_pid = 1, r_latch = 5, r_name = ''app'', r_cmdline = ''app'', r_tasks = []\<rparr>"

text \<open>The daemon after its start, and after two processes have subscribed to the system topic.\<close>

definition boot :: "mc_struct option" where
  "boot = mc_init 0 links0 conf0 [20, 21]"

definition subscribe :: "addr \<Rightarrow> mc_struct \<Rightarrow> mc_struct option" where
  "subscribe q S = map_option snd (mc_ipc_manager kernel0 (\<lambda>_. 0) (Some q) None None True True q 1 MC_SYSTEM_MASK No_cookie (IPC_CLIENT_REGISTER reg0) S)"

definition release :: "addr \<Rightarrow> mc_struct \<Rightarrow> mc_struct option" where
  "release q S = map_option snd (mc_ipc_manager kernel0 (\<lambda>_. 0) None None None True True q 1 MC_SYSTEM_MASK (User_cookie q) IPC_CLIENT_RELEASE S)"

lemma boot_reach: "boot = Some S \<Longrightarrow> mc_reach S"
  unfolding boot_def by (rule Init)

lemma subscribe_reach: "mc_reach S \<Longrightarrow> subs S q = None \<Longrightarrow> subscribe q S = Some S' \<Longrightarrow> mc_reach S'"
  by (auto simp: subscribe_def intro: mc_reach.Step Register)

lemma release_step: "release q S = Some S' \<Longrightarrow> mc_step S S'"
  using Manage [of IPC_CLIENT_RELEASE] by (auto simp: release_def)

text \<open>All bitmaps are the same.\<close>

definition uniform :: "longs \<Rightarrow> mc_struct \<Rightarrow> bool" where
  "uniform b S \<longleftrightarrow> mc_flags S = 0 \<and> index_stock S = b \<and> full_bitmap S = b \<and>
     (\<forall>k. synchors S k = \<lparr>syn_wait = False, ack_bitmap = b, syn_signalled = False\<rparr>) \<and>
     (\<forall>k. referees S k = \<lparr>ref_wait = False, vote_bitmap = b, vote_approved = b, ref_signalled = False\<rparr>)"

lemma all_ids: "(\<forall>k. P k) \<longleftrightarrow> P MC_SYN_SLEEP \<and> P MC_SYN_RESUME \<and> P MC_SYN_REBOOT" "(\<forall>l. Q l) \<longleftrightarrow> Q MC_APPLY_SLEEP \<and> Q MC_APPLY_REBOOT"
  by (metis syn_id.exhaust) (metis apply_id.exhaust)

lemma upd_flags: "mc_flags (upd_sync k f S) = mc_flags S" "mc_flags (upd_vote l g S) = mc_flags S"
  by (simp_all add: upd_sync_def upd_vote_def)

lemma boot_ok: "\<exists>S. boot = Some S \<and> uniform [0, 0] S \<and> subs S = Map.empty \<and> subscribers S = 0"
proof -
  have n: "boot \<noteq> None" by code_simp
  then obtain S where S: "boot = Some S" by blast
  have "sys_of S = sys_of (mc_zero links0 conf0 [20, 21])" using S mc_init_sys unfolding boot_def by blast
  moreover have "map_option mc_flags boot = Some 0" by code_simp
  then have "mc_flags S = 0" unfolding S by simp
  ultimately show ?thesis using S
    by (intro exI [of _ S]) (auto simp: uniform_def sys_of_def mc_zero_def zero_bitmap_def MC_BITMAP_SIZE_def numeral_2_eq_2)
qed

lemma subscribe_ok:
  assumes u: "uniform b S" and s: "subscribers S < MC_CLIENT_MAX" and b: "first_bit_zero b = Some i" "set_bit i b = Some b'"
  shows "\<exists>S'. subscribe q S = Some S' \<and> uniform b' S' \<and> subscribers S' = subscribers S + 1 \<and>
    subs S' = (subs S)(q \<mapsto> \<lparr>cookie_type = MC_IPC_COOKIE_REGONLY, index = i, s_sevr = q, s_mask = MC_SYSTEM_MASK, s_client = NULL\<rparr>)"
proof -
  have m: "MC_SYSTEM_MASK AND supported_mask \<noteq> 0" "MC_SYSTEM_MASK AND NOT supported_mask = 0" "MC_SYSTEM_MASK AND MC_GUARD_MASK = 0" "MC_SYSTEM_MASK AND MC_SYSTEM_MASK \<noteq> 0"
    by (simp_all add: supported_mask_def MC_SYSTEM_MASK_def MC_GUARD_MASK_def MC_SYNC_MASK_def MC_EXCEPTION_MASK_def)
  have f: "\<not> shutting_down S" "index_stock S = b" "full_bitmap S = b" "\<And>k. ack_bitmap (synchors S k) = b" "\<And>k. vote_bitmap (referees S k) = b" "\<And>k. vote_approved (referees S k) = b"
    using u by (simp_all add: uniform_def shutting_down_def has_def)
  show ?thesis
    using u s m b unfolding subscribe_def mc_ipc_manager_def mc_ipc_register_process_def
    by (auto simp: f kernel0_def register_bind_def mc_index_alloc_def all_bitmaps_def Let_def uniform_def all_ids upd_flags)
qed

lemma bits_run:
  "first_bit_zero [0, 0] = Some 0" "set_bit 0 [0, 0] = Some [1, 0]" "first_bit_zero [1, 0] = Some 1" "set_bit 1 [1, 0] = Some [3, 0]"
  "clear_bit 0 [3, 0] = Some [2, 0]" "clear_bit 0 [0, 0] = Some [0, 0]"
  by (simp_all add: first_bit_zero_def shift_while.simps BITS_MSK_LONG_def BITS_PER_LONG_def set_bit_def clear_bit_def at_word_def BIT_WORD_def BIT_MASK_def)

lemma two_subscribers:
  "\<exists>S. mc_reach S \<and> uniform [3, 0] S \<and> subscribers S = 2 \<and> (\<exists>s. subs S 30 = Some s \<and> index s = 0 \<and> s_mask s = MC_SYSTEM_MASK) \<and> (\<exists>s. subs S 31 = Some s \<and> index s = 1)"
proof -
  obtain S0 where S0: "boot = Some S0" "uniform [0, 0] S0" "subs S0 = Map.empty" "subscribers S0 = 0" using boot_ok by blast
  have m: "0 < MC_CLIENT_MAX" "1 < MC_CLIENT_MAX" by (simp_all add: MC_CLIENT_MAX_def MC_BITMAP_SIZE_def BITS_PER_LONG_def)
  obtain S1 where S1: "subscribe 30 S0 = Some S1" "uniform [1, 0] S1" "subscribers S1 = 1"
    "subs S1 = [30 \<mapsto> \<lparr>cookie_type = MC_IPC_COOKIE_REGONLY, index = 0, s_sevr = 30, s_mask = MC_SYSTEM_MASK, s_client = NULL\<rparr>]"
    using subscribe_ok [OF S0(2) _ bits_run(1,2), of 30] S0(3,4) m by auto
  obtain S2 where S2: "subscribe 31 S1 = Some S2" "uniform [3, 0] S2" "subscribers S2 = 2"
    "subs S2 = (subs S1)(31 \<mapsto> \<lparr>cookie_type = MC_IPC_COOKIE_REGONLY, index = 1, s_sevr = 31, s_mask = MC_SYSTEM_MASK, s_client = NULL\<rparr>)"
    using subscribe_ok [OF S1(2) _ bits_run(3,4), of 31] S1(3) m by auto
  have "mc_reach S0" using S0(1) by (rule boot_reach)
  then have "mc_reach S1" using subscribe_reach [OF _ _ S1(1)] S0(3) by simp
  then have "mc_reach S2" using subscribe_reach [OF _ _ S2(1)] S1(4) by simp
  with S2 S1(4) show ?thesis by auto
qed

section \<open>Barriers and votes\<close>



text \<open>
  A thread that waits for the acknowledgements of a resume is woken as if they were complete when another subscriber
  disconnects, although the one that is left has not acknowledged: the test reads the bitmap of the reboot.
\<close>

theorem mc_resume_woken_early:
  "\<exists>S S' s. mc_reach S \<and> mc_step S S' \<and> mc_ipc_release_process (User_cookie 30) S = Some S' \<and>
    syn_wait (synchors S MC_SYN_RESUME) \<and> \<not> syn_signalled (synchors S MC_SYN_RESUME) \<and> syn_signalled (synchors S' MC_SYN_RESUME) \<and>
    subs S' 31 = Some s \<and> index s \<in> bits_of (full_bitmap S') \<and> index s \<notin> bits_of (ack_bitmap (synchors S' MC_SYN_RESUME))"
proof -
  from two_subscribers obtain S2 s t where S2: "mc_reach S2" "uniform [3, 0] S2" "subscribers S2 = 2"
    and s: "subs S2 30 = Some s" "index s = 0" "s_mask s = MC_SYSTEM_MASK" and t: "subs S2 31 = Some t" "index t = 1" by blast
  define S where "S = snd (mc_synchor_wait MC_SYN_RESUME S2)"
  have r: "mc_reach S" unfolding S_def using S2(1) Sync_begin by (rule mc_reach.Step)
  have u: "index_stock S2 = [3, 0]" "full_bitmap S2 = [3, 0]" "\<And>k. ack_bitmap (synchors S2 k) = [3, 0]" "\<And>k. vote_bitmap (referees S2 k) = [3, 0]"
      "\<And>k. vote_approved (referees S2 k) = [3, 0]" "\<And>k. \<not> syn_wait (synchors S2 k)"
    using S2(2) by (simp_all add: uniform_def)
  have z: "zero_bitmap = [0, 0]" by (simp add: zero_bitmap_def MC_BITMAP_SIZE_def numeral_2_eq_2)
  have f: "subs S = subs S2" "index_stock S = [3, 0]" "full_bitmap S = [3, 0]" "referees S = referees S2"
      "synchors S = (synchors S2)(MC_SYN_RESUME := (synchors S2 MC_SYN_RESUME)\<lparr>ack_bitmap := [0, 0], syn_wait := True, syn_signalled := False\<rparr>)"
    using u by (simp_all add: S_def mc_synchor_wait_def z is_bitmap_full_def emit_def upd_sync_def Let_def)
  obtain V where V: "all_bitmaps (clear_bit 0) S = Some V" "subs V = subs S" "full_bitmap V = [2, 0]" "index_stock V = [3, 0]"
      "ack_bitmap (synchors V MC_SYN_REBOOT) = [2, 0]" "synchors V MC_SYN_RESUME = (synchors S MC_SYN_RESUME)\<lparr>ack_bitmap := [0, 0]\<rparr>"
    using bits_run(5,6) u f by (simp add: all_bitmaps_def Let_def)
  let ?S' = "(release_wakeups V)\<lparr>index_stock := [2, 0], subs := (subs S)(30 := None), subscribers := subscribers V - 1\<rparr>"
  have "s_mask s AND MC_SYSTEM_MASK \<noteq> 0" by (simp add: s MC_SYSTEM_MASK_def)
  then have rel: "mc_ipc_release_process (User_cookie 30) S = Some ?S'"
    using s f(1) V bits_run(5) by (simp add: mc_ipc_release_process_def mc_index_free_def)
  then have "mc_step S ?S'" by (intro release_step [of 30]) (simp add: release_def mc_ipc_manager_def)
  moreover have "1 \<in> bits_of [2, 0]" "1 \<notin> bits_of [0, 0]" by (simp_all add: bits_of_def bit_Suc)
  ultimately show ?thesis
    using r rel t f(1,5) V by (intro exI [of _ S] exI [of _ ?S'] exI [of _ t]) (simp add: release_wakeups_sync)
qed

section \<open>Tasks\<close>

text \<open>A state with two tasks of one client, one of them overdue at time 9.\<close>

definition cell :: "addr \<Rightarrow> addr \<Rightarrow> list_head" where
  "cell n p = \<lparr>list_next = n, list_prev = p\<rparr>"

definition links1 :: links where
  "links1 = links0(client_deadq := cell client_deadq client_deadq, client_lossq := cell client_lossq client_lossq, client_detachdq := cell client_detachdq client_detachdq,
     guard_head := cell guard_head guard_head, client_runningq := cell 40 40, 40 := cell client_runningq client_runningq,
     task_head := cell 50 51, 50 := cell 51 task_head, 51 := cell task_head 50)"

definition lists1 :: "addr \<Rightarrow> addr list" where
  "lists1 = (\<lambda>_. [])(client_runningq := [40], task_head := [50, 51])"

definition client1 :: mc_client where
  "client1 = \<lparr>c_state = MC_CLIENT_RUNNING, c_flags = 0, probe_expire = 20, birth_time = 0, c_pid = 1, latch_time = 5, c_name = ''app'', c_cmdline = ''app'',
     c_guard = NULL, c_tasks = [50, 51], c_subscriber = 30\<rparr>"

definition task1 :: "nat \<Rightarrow> int \<Rightarrow> mc_task" where
  "task1 st e = \<lparr>tid = e, t_interval = 2, t_strategy = st, t_expire = e, t_client = 40\<rparr>"

definition busy :: mc_struct where
  "busy = (mc_zero links1 conf0 [])\<lparr>clients := [40 \<mapsto> client1], mc_tasks := [50 \<mapsto> task1 MC_STRATEGY_REBOOT 12, 51 \<mapsto> task1 MC_STRATEGY_RESTART 9],
     subs := [30 \<mapsto> \<lparr>cookie_type = MC_IPC_COOKIE_CLIENT, index = 0, s_sevr = 30, s_mask = MC_GUARD_MASK, s_client = 40\<rparr>]\<rparr>"

lemma busy_rings: "rings links1 mc_heads lists1"
  by (auto simp: rings_def ring_def mc_heads_def client_heads_def head_defs links1_def lists1_def links0_def cell_def)

lemma busy_ok: "tasks_ok busy lists1" "owned busy lists1"
  using busy_rings
  by (auto simp: tasks_ok_def owned_def busy_def mc_zero_def expire_def task1_def client_heads_def)
    (auto simp: lists1_def head_defs)

text \<open>
  When a task reports, or is registered, it is put into the list of tasks with its new time of expiry, and the list stays a
  list of the same tasks, in order of expiry.
\<close>

theorem mc_task_active_ordered:
  assumes "tasks_ok S ls" and "mc_tasks S t = Some x"
    and "t \<in> set (ls task_head) \<or> ring (mc_links S) t [] \<and> (\<forall>b\<in>mc_heads. t \<notin> set (b # ls b))"
  shows "\<exists>S' ys. mc_task_active now t S = Some S' \<and> tasks_ok S' (ls(task_head := ys)) \<and> set ys = insert t (set (ls task_head)) \<and>
    mc_tasks S' = (mc_tasks S)(t \<mapsto> x\<lparr>t_expire := now + loss_max (mc_conf S) * t_interval x\<rparr>) \<and> clients S' = clients S"
  using assms by (rule task_active_run)

theorem mc_task_active_ordered_witness:
  "\<exists>S' ys. mc_task_active 9 51 busy = Some S' \<and> tasks_ok S' (lists1(task_head := ys)) \<and> set ys = {50, 51} \<and> expire S' 51 = 15"
proof -
  have t: "mc_tasks busy 51 = Some (task1 MC_STRATEGY_RESTART 9)" "51 \<in> set (lists1 task_head)" by (simp_all add: busy_def lists1_def)
  have c: "loss_max (mc_conf busy) = 3" by (simp add: busy_def mc_zero_def conf0_def)
  have l: "lists1 task_head = [50, 51]" by (simp add: lists1_def)
  from mc_task_active_ordered [OF busy_ok(1) t(1), of 9] t(2) c l show ?thesis by (auto simp: expire_def task1_def insert_commute)
qed



section \<open>Clients\<close>

lemma all_bitmaps_frame: "all_bitmaps f S = Some S' \<Longrightarrow> clients S' = clients S \<and> mc_links S' = mc_links S"
  by (auto simp: all_bitmaps_def upd_sync_def upd_vote_def Let_def bind_eq_Some_conv)

lemma broadcast_frame [simp]:
  "clients (sync_broadcast k S) = clients S" "mc_links (sync_broadcast k S) = mc_links S"
  "clients (vote_broadcast a S) = clients S" "mc_links (vote_broadcast a S) = mc_links S"
  by (simp_all add: sync_broadcast_def vote_broadcast_def upd_sync_def upd_vote_def)

lemma release_wakeups_frame [simp]: "clients (release_wakeups S) = clients S" "mc_links (release_wakeups S) = mc_links S"
  unfolding release_wakeups_def Let_def by (simp_all only: broadcast_frame if_distrib [of clients] if_distrib [of mc_links] if_cancel)

lemma release_frame:
  "mc_ipc_release_process (User_cookie q) S = Some S' \<Longrightarrow> subs S' q = None \<and> clients S' = clients S \<and> mc_links S' = mc_links S"
  by (auto simp: mc_ipc_release_process_def mc_index_free_def bind_eq_Some_conv split: if_splits dest!: all_bitmaps_frame)

text \<open>
  C31: A client that unregisters is not forgotten. The server reports the UNREGISTER and then releases the handle, with which the daemon frees the
  subscriber; the client stays in the list of running clients and keeps its pointer to it. The next request to restart it uses the freed
  subscriber.
\<close>

theorem mc_unregister_dangling:
  assumes s: "subs S q = Some s" "cookie_type s = MC_IPC_COOKIE_CLIENT" "s_client s = p"
    and c: "clients S p = Some c" "c_subscriber c = q" "has (c_state c) MC_CLIENT_RUNNING"
    and run: "mc_ipc_unregister_process (User_cookie q) S = Some S1" "mc_ipc_release_process (User_cookie q) S1 = Some S2"
  shows "subs S2 q = None \<and> (\<exists>c'. clients S2 p = Some c' \<and> c_subscriber c' = q) \<and> mc_links S2 = mc_links S \<and> mc_exit_client K p S2 = None \<and>
    (\<forall>ps. list_for_each client_runningq (mc_links S) = Some (p # ps) \<longrightarrow> mcd_client_restart_msg K (c_name c) S2 = None)"
proof -
  let ?c = "c\<lparr>c_flags := c_flags c OR BIT MC_CLIENT_F_UNREG\<rparr>"
  have "S1 = S\<lparr>clients := (clients S)(p \<mapsto> ?c)\<rparr>"
    using run(1) s c(1) by (simp add: mc_ipc_unregister_process_def is_client_def cookie_client_def upd_client_def)
  with release_frame [OF run(2)] have S2: "subs S2 q = None" "clients S2 p = Some ?c" "mc_links S2 = mc_links S" by simp_all
  then have e: "mc_exit_client K p S2 = None" using c by (simp add: mc_exit_client_def)
  then have "mcd_client_restart_msg K (c_name c) S2 = None" if "list_for_each client_runningq (mc_links S) = Some (p # ps)" for ps
    using that S2 by (simp add: mcd_client_restart_msg_def)
  with S2 e c(2) show ?thesis by auto
qed

theorem mc_unregister_dangling_witness:
  "\<exists>S1 S2. mc_ipc_unregister_process (User_cookie 30) busy = Some S1 \<and> mc_ipc_release_process (User_cookie 30) S1 = Some S2 \<and>
    mcd_client_restart_msg kernel0 ''app'' S2 = None"
proof -
  let ?s = "\<lparr>cookie_type = MC_IPC_COOKIE_CLIENT, index = 0, s_sevr = 30, s_mask = MC_GUARD_MASK, s_client = 40\<rparr>"
  have b: "subs busy 30 = Some ?s" "clients busy 40 = Some client1" "has (c_state client1) MC_CLIENT_RUNNING" "c_subscriber client1 = 30" "c_name client1 = ''app''"
    by (simp_all add: busy_def client1_def has_def MC_CLIENT_RUNNING_def)
  have "ring links1 client_runningq (lists1 client_runningq)" using busy_rings by (simp add: rings_def mc_heads_def client_heads_def)
  then have "list_for_each client_runningq (mc_links busy) = Some [40]" by (simp add: list_for_each_ok busy_def mc_zero_def lists1_def head_defs)
  moreover have "case mc_ipc_unregister_process (User_cookie 30) busy of None \<Rightarrow> False | Some S1 \<Rightarrow> mc_ipc_release_process (User_cookie 30) S1 \<noteq> None" by code_simp
  then obtain S1 S2 where "mc_ipc_unregister_process (User_cookie 30) busy = Some S1" "mc_ipc_release_process (User_cookie 30) S1 = Some S2" by (auto split: option.splits)
  ultimately show ?thesis using mc_unregister_dangling [OF b(1) _ _ b(2) b(4,3), of S1 S2 kernel0] b(5) by auto
qed

section \<open>The start\<close>

lemma init_lists_ok:
  assumes "rings (mc_links S) H ls" and "distinct hs" and "NULL \<notin> set hs" and "set hs \<inter> H = {}" and "\<forall>b\<in>H. ls b = []"
  shows "\<exists>L. init_lists hs S = Some (S\<lparr>mc_links := L\<rparr>) \<and> rings L (set hs \<union> H) (\<lambda>_. [])"
  using assms
proof (induction hs arbitrary: S H ls)
  case Nil
  then have "rings (mc_links S) H (\<lambda>_. [])" using rings_cong [of H ls "\<lambda>_. []"] by simp
  then show ?case by (intro exI [of _ "mc_links S"]) simp
next
  case (Cons h hs)
  then have h: "h \<noteq> NULL" "h \<notin> H" "\<forall>b\<in>H. h \<notin> set (ls b)" by auto
  from rings_new_head [OF Cons.prems(1) this] obtain L' where
    L': "INIT_LIST_HEAD h (mc_links S) = Some L'" "rings L' (insert h H) (ls(h := []))" by blast
  have "\<exists>L. init_lists hs (S\<lparr>mc_links := L'\<rparr>) = Some (S\<lparr>mc_links := L', mc_links := L\<rparr>) \<and> rings L (set hs \<union> insert h H) (\<lambda>_. [])"
    using Cons.prems L'(2) by (intro Cons.IH) auto
  with L'(1) show ?case by (auto simp: on_links_def)
qed

lemma guard_init_ok:
  assumes "rings (mc_links S) mc_heads ls" and "distinct gs" and "\<forall>g\<in>set gs. g \<noteq> NULL \<and> (\<forall>b\<in>mc_heads. g \<notin> set (b # ls b)) \<and> guards S g \<noteq> None"
  shows "\<exists>L G. mcd_guard_init gs S = Some (S\<lparr>mc_links := L, guards := G\<rparr>) \<and> rings L mc_heads (ls(guard_head := ls guard_head @ gs)) \<and>
    (\<forall>g. G g = (if g \<in> set gs then map_option (\<lambda>x. x\<lparr>g_pid := 0, g_state := MC_GUARD_STATE_NEW\<rparr>) (guards S g) else guards S g))"
  using assms
proof (induction gs arbitrary: S ls)
  case Nil
  then show ?case by (intro exI [of _ "mc_links S"] exI [of _ "guards S"]) simp
next
  case (Cons g gs)
  have gh: "guard_head \<in> mc_heads" by (simp add: mc_heads_def)
  from Cons.prems(3) obtain x where g: "g \<noteq> NULL" "\<forall>b\<in>mc_heads. g \<notin> set (b # ls b)" "guards S g = Some x" by auto
  from rings_append [OF Cons.prems(1) gh g(1,2)] obtain L' where
    L': "list_add_tail g guard_head (mc_links S) = Some L'" "rings L' mc_heads (ls(guard_head := ls guard_head @ [g]))" by blast
  let ?S = "S\<lparr>guards := (guards S)(g \<mapsto> x\<lparr>g_pid := 0, g_state := MC_GUARD_STATE_NEW\<rparr>), mc_links := L'\<rparr>"
  have "\<exists>L G. mcd_guard_init gs ?S = Some (?S\<lparr>mc_links := L, guards := G\<rparr>) \<and>
      rings L mc_heads ((ls(guard_head := ls guard_head @ [g]))(guard_head := (ls(guard_head := ls guard_head @ [g])) guard_head @ gs)) \<and>
      (\<forall>u. G u = (if u \<in> set gs then map_option (\<lambda>x. x\<lparr>g_pid := 0, g_state := MC_GUARD_STATE_NEW\<rparr>) (guards ?S u) else guards ?S u))"
  proof (rule Cons.IH)
    have m: "mc_links ?S = L'" by simp
    show "rings (mc_links ?S) mc_heads (ls(guard_head := ls guard_head @ [g]))" unfolding m by (rule L'(2))
  qed (use Cons.prems in auto)
  then obtain L G where i: "mcd_guard_init gs ?S = Some (?S\<lparr>mc_links := L, guards := G\<rparr>)" "rings L mc_heads (ls(guard_head := ls guard_head @ g # gs))"
      "\<forall>u. G u = (if u \<in> set gs then map_option (\<lambda>x. x\<lparr>g_pid := 0, g_state := MC_GUARD_STATE_NEW\<rparr>) (guards ?S u) else guards ?S u)"
    by auto
  have "mcd_guard_init (g # gs) S = mcd_guard_init gs ?S" using g(3) L'(1) by (simp add: upd_guard_def on_links_def)
  then have "mcd_guard_init (g # gs) S = Some (S\<lparr>mc_links := L, guards := G\<rparr>)" using i(1) by simp
  moreover have "G u = (if u \<in> set (g # gs) then map_option (\<lambda>x. x\<lparr>g_pid := 0, g_state := MC_GUARD_STATE_NEW\<rparr>) (guards S u) else guards S u)" for u
    using i(3) [rule_format, of u] g(3) Cons.prems(2) by (cases "u = g") simp_all
  ultimately show ?case using i(2) by blast
qed

definition table_ok :: "addr list \<Rightarrow> bool" where
  "table_ok tab \<longleftrightarrow> length tab = length mc_guard_table \<and> distinct tab \<and> (\<forall>g\<in>set tab. g \<noteq> NULL \<and> g \<notin> mc_heads)"

lemma mc_init_run:
  assumes "table_ok tab"
  shows "\<exists>S. mc_init now L conf tab = Some S \<and> rings (mc_links S) mc_heads ((\<lambda>_. [])(guard_head := tab)) \<and> mc_tasks S = Map.empty \<and>
    (\<forall>g. guards S g = map_option (\<lambda>x. x\<lparr>g_pid := 0, g_state := MC_GUARD_STATE_NEW\<rparr>) (map_of (zip tab mc_guard_table) g))"
proof -
  let ?hs = "[client_deadq, client_lossq, client_runningq, client_detachdq, task_head, guard_head]"
  have h: "set ?hs = mc_heads" "distinct ?hs" "NULL \<notin> set ?hs" by (auto simp: mc_heads_def client_heads_def head_defs)
  have e: "rings (mc_links (mc_zero L conf tab)) {} (\<lambda>_. [])" by (simp add: rings_def)
  obtain L1 where L1: "init_lists ?hs (mc_zero L conf tab) = Some ((mc_zero L conf tab)\<lparr>mc_links := L1\<rparr>)" "rings L1 mc_heads (\<lambda>_. [])"
    using init_lists_ok [OF e h(2,3)] unfolding h(1) Un_empty_right Int_empty_right by blast
  let ?S = "(mc_zero L conf tab)\<lparr>mc_links := L1\<rparr>"
  have g: "guards ?S = map_of (zip tab mc_guard_table)" by (simp add: mc_zero_def)
  have d: "distinct tab" and len: "length tab = length mc_guard_table" using assms by (simp_all add: table_ok_def)
  have r: "rings (mc_links ?S) mc_heads (\<lambda>_. [])" using L1(2) by simp
  have "guards ?S u \<noteq> None" if "u \<in> set tab" for u 
    unfolding g map_of_eq_None_iff using that map_fst_zip [OF len] by (metis list.set_map)
  then have "\<forall>u\<in>set tab. u \<noteq> NULL \<and> (\<forall>b\<in>mc_heads. u \<notin> set [b]) \<and> guards ?S u \<noteq> None" using assms unfolding table_ok_def by auto
  from guard_init_ok [OF r d this] obtain L2 G where
    L2: "mcd_guard_init tab ?S = Some (?S\<lparr>mc_links := L2, guards := G\<rparr>)" "rings L2 mc_heads ((\<lambda>_. [])(guard_head := tab))"
      "\<forall>g. G g = (if g \<in> set tab then map_option (\<lambda>x. x\<lparr>g_pid := 0, g_state := MC_GUARD_STATE_NEW\<rparr>) (guards ?S g) else guards ?S g)"
    unfolding append_Nil by blast
  have "map_of (zip tab mc_guard_table) g = None" if "g \<notin> set tab" for g
    unfolding map_of_eq_None_iff using that map_fst_zip [OF len] by (metis list.set_map)
  then have G: "G g = map_option (\<lambda>x. x\<lparr>g_pid := 0, g_state := MC_GUARD_STATE_NEW\<rparr>) (map_of (zip tab mc_guard_table) g)" for g
    using L2(3) unfolding g by auto
  have t: "mc_links (mc_timers_init U) = mc_links U" "guards (mc_timers_init U) = guards U" "mc_tasks (mc_timers_init U) = mc_tasks U" for U
    by (simp_all add: mc_timers_init_def register_if_def emit_def Let_def)
  show ?thesis using L1(1) L2(1,2) G by (simp add: mc_init_def t) (simp add: mc_zero_def)
qed

text \<open>
  The daemon starts with all lists in place: the lists of clients and of tasks are empty, and the guarded processes of the
  table are listed in the order of the table, none of them started.
\<close>

theorem mc_init_correct:
  assumes "table_ok tab"
  shows "\<exists>S. mc_init now L conf tab = Some S \<and> mc_reach S \<and> tasks_ok S ((\<lambda>_. [])(guard_head := tab)) \<and> owned S ((\<lambda>_. [])(guard_head := tab)) \<and>
    (\<forall>g. guards S g = map_option (\<lambda>x. x\<lparr>g_pid := 0, g_state := MC_GUARD_STATE_NEW\<rparr>) (map_of (zip tab mc_guard_table) g))"
proof -
  have "task_head \<noteq> guard_head" by (simp add: head_defs)
  with mc_init_run [OF assms, of now L conf] show ?thesis by (auto simp: tasks_ok_def owned_def intro: mc_reach.Init)
qed

theorem mc_init_correct_witness: "\<exists>S. mc_init 0 links0 conf0 [20, 21] = Some S \<and> mc_reach S"
proof -
  have "table_ok [20, 21]" by (simp add: table_ok_def mc_guard_table_def mc_heads_def client_heads_def head_defs)
  from mc_init_correct [OF this, of 0 links0 conf0] show ?thesis by blast
qed

text \<open>
  When a guarded process that has not been started is detached with the request to end it, the daemon sends the kill
  signal to process number 0, that is to its own process group.
\<close>

theorem mc_detach_kills_own_group:
  assumes t: "table_ok tab" and n: "name \<in> g_name ` set mc_guard_table" and S: "mc_init now L conf tab = Some S"
  shows "\<exists>S'. mcd_client_detach K name True S = Some (1, S') \<and> effects S' = effects S @ [Kill 0 9]"
proof -
  obtain g h where tab: "tab = [g, h]" "g \<noteq> h" using t by (auto simp: table_ok_def mc_guard_table_def length_Suc_conv)
  from mc_init_run [OF t, of now L conf] S have R: "rings (mc_links S) mc_heads ((\<lambda>_. [])(guard_head := tab))"
    and G: "\<And>g. guards S g = map_option (\<lambda>x. x\<lparr>g_pid := 0, g_state := MC_GUARD_STATE_NEW\<rparr>) (map_of (zip tab mc_guard_table) g)" by auto
  have hd: "guard_head \<in> mc_heads" "client_runningq \<noteq> guard_head" by (auto simp: mc_heads_def head_defs)
  have l: "list_for_each client_runningq (mc_links S) = Some []" "list_for_each guard_head (mc_links S) = Some tab"
    using list_for_each_ok [OF ringsD [OF R heads(7)]] list_for_each_ok [OF ringsD [OF R hd(1)]] hd(2) by simp_all
  have s: "strcmp ''broker'' ''broker'' = 0" "strcmp ''broker'' ''ipc-sample'' \<noteq> 0" "strcmp ''ipc-sample'' ''ipc-sample'' = 0" by (simp_all add: byte_def)
  show ?thesis using n l tab s
    by (auto simp: mcd_client_detach_def G mc_guard_table_def guard_states upd_guard_def emit_def)
qed

theorem mc_detach_kills_own_group_witness:
  "\<exists>S S'. mc_init 0 links0 conf0 [20, 21] = Some S \<and> mcd_client_detach kernel0 ''broker'' True S = Some (1, S') \<and> effects S' = effects S @ [Kill 0 9]"
proof -
  have t: "table_ok [20, 21]" by (simp add: table_ok_def mc_guard_table_def mc_heads_def client_heads_def head_defs)
  from mc_init_run [OF this, of 0 links0 conf0] obtain S where S: "mc_init 0 links0 conf0 [20, 21] = Some S" by blast
  have "''broker'' \<in> g_name ` set mc_guard_table" by (simp add: mc_guard_table_def)
  from mc_detach_kills_own_group [OF t this S, of kernel0] S show ?thesis by blast
qed

section \<open>Guarded processes\<close>

text \<open>
  C29: The periodic check of the guarded processes returns, and for each of them: a detached one is left alone; one that runs
  under its number and name is marked as running; one whose process is gone and cannot be found is started again, once, and
  its number is that of the new process. No other process is started, and during a shutdown nothing happens.
\<close>

theorem mcd_guard_correct:
  assumes "ring (mc_links S) guard_head gs" and "\<forall>g\<in>set gs. \<exists>x. guards S g = Some x \<and> g_state x \<le> MC_GUARD_STATE_DETACH"
  shows "\<exists>S' es. mcd_guard K S = Some S' \<and> effects S' = effects S @ es \<and> (\<forall>g. g \<notin> set gs \<longrightarrow> guards S' g = guards S g) \<and>
    (if shutting_down S then S' = S
     else length es = length (filter (\<lambda>g. starts K (the (guards S g))) gs) \<and>
       (\<forall>g\<in>set gs. \<exists>y. guards S' g = Some y \<and> guard_after K es (the (guards S g)) y))"
proof (cases "shutting_down S")
  case True
  then show ?thesis by (simp add: mcd_guard_def)
next
  case False
  have "distinct gs" using assms(1) by (simp add: ring_def)
  from guard_checks_ok [OF this assms(2), of K] False list_for_each_ok [OF assms(1)] show ?thesis by (simp add: mcd_guard_def) blast
qed

theorem mcd_guard_correct_witness:
  "\<exists>S S'. mc_init 0 links0 conf0 [20, 21] = Some S \<and> mcd_guard kernel0 S = Some S' \<and> (\<exists>y. guards S' 20 = Some y \<and> g_pid y = 100)"
proof -
  have t: "table_ok [20, 21]" by (simp add: table_ok_def mc_guard_table_def mc_heads_def client_heads_def head_defs)
  from mc_init_run [OF this, of 0 links0 conf0] obtain S where S: "mc_init 0 links0 conf0 [20, 21] = Some S" "rings (mc_links S) mc_heads ((\<lambda>_. [])(guard_head := [20, 21]))"
    and G: "\<And>g. guards S g = map_option (\<lambda>x. x\<lparr>g_pid := 0, g_state := MC_GUARD_STATE_NEW\<rparr>) (map_of (zip [20, 21] mc_guard_table) g)" by blast
  have r: "ring (mc_links S) guard_head [20, 21]" using ringsD [OF S(2), of guard_head] by (simp add: mc_heads_def)
  have "\<forall>g\<in>set [20, 21]. \<exists>x. guards S g = Some x \<and> g_state x \<le> MC_GUARD_STATE_DETACH" by (simp add: G mc_guard_table_def guard_states)
  from mcd_guard_correct [OF r this, of kernel0] obtain S' es where
    S': "mcd_guard kernel0 S = Some S'" "if shutting_down S then S' = S
     else length es = length (filter (\<lambda>g. starts kernel0 (the (guards S g))) [20, 21]) \<and>
       (\<forall>g\<in>set [20, 21]. \<exists>y. guards S' g = Some y \<and> guard_after kernel0 es (the (guards S g)) y)" by blast
  have "boot = Some S" using S(1) by (simp add: boot_def)
  then have "uniform [0, 0] S" using boot_ok by (metis option.inject)
  then have "\<not> shutting_down S" by (simp add: uniform_def shutting_down_def has_def)
  then obtain y where y: "guards S' 20 = Some y" "guard_after kernel0 es (the (guards S 20)) y" using S'(2) by auto
  have "starts kernel0 (the (guards S 20))"
    by (simp add: G mc_guard_table_def starts_def lost_def guard_states kernel0_def)
  then have "g_pid y = 100" using y(2) by (auto simp: guard_after_def kernel0_def)
  with S(1) S'(1) y(1) show ?thesis by blast
qed

text \<open>The second entry of the table has no number of its own; its bit is far outside the bitmap of the ready processes.\<close>

lemma dummy_guard_bit:
  assumes "guards S g = Some x" and "g \<noteq> NULL" and "g_id x = MC_IDENTITY_DUMMY" and "length (ready_bitmap S) = BITS_TO_LONGS MC_IDENTITY_MAX"
  shows "clear_ready g S = None" "set_bit (bit_nr (g_id x)) (ready_bitmap S) = None"
proof -
  have "\<not> BIT_WORD (bit_nr (g_id x)) < length (ready_bitmap S)"
    using assms by (simp add: BIT_WORD_def bit_nr_def MC_IDENTITY_DUMMY_def BITS_TO_LONGS_def MC_IDENTITY_MAX_def BITS_PER_LONG_def)
  then show "clear_ready g S = None" "set_bit (bit_nr (g_id x)) (ready_bitmap S) = None"
    using assms by (simp_all add: clear_ready_def clear_bit_def set_bit_def at_word_def)
qed

end
