(* ===== verification/File_Sys.thy ===== *)
theory File_Sys
  imports C_Strings "HOL-Library.AList"
begin

text \<open>
  The files of the operating system as the library code sees them. A name leads to an inode, an open descriptor to an
  inode and a position; renaming a file does not disturb its descriptors. \<open>refused\<close> are the names that may not be opened,
  \<open>room\<close> is the space left on the device. Names are absolute and free of symbolic links, so that \<open>realpath\<close> of a file that
  exists is its name.
\<close>

section \<open>State\<close>

datatype fnode = File string | Dir

record fdesc =
  fd_ino :: nat
  fd_pos :: nat
  fd_append :: bool

record os =
  names :: "(string \<times> nat) list"
  inodes :: "nat \<Rightarrow> fnode"
  next_ino :: nat
  refused :: "string \<Rightarrow> bool"
  room :: nat
  fds :: "(nat \<times> fdesc) list"

section \<open>System calls\<close>

text \<open>The lowest free number.\<close>

definition free_fd :: "(nat \<times> fdesc) list \<Rightarrow> nat" where
  "free_fd ds = hd (filter (\<lambda>n. n \<notin> fst ` set ds) [0..<Suc (length ds)])"

definition add_fd :: "nat \<Rightarrow> bool \<Rightarrow> os \<Rightarrow> int \<times> os" where
  "add_fd i app S =
     (int (free_fd (fds S)), S\<lparr>fds := (free_fd (fds S), \<lparr>fd_ino = i, fd_pos = 0, fd_append = app\<rparr>) # fds S\<rparr>)"

record open_flags =
  o_write :: bool
  o_creat :: bool
  o_trunc :: bool
  o_append :: bool

definition sys_open :: "open_flags \<Rightarrow> string \<Rightarrow> os \<Rightarrow> int \<times> os" where
  "sys_open fl p S =
     (if refused S p then (- 1, S)
      else case map_of (names S) p of
        None \<Rightarrow>
          if o_creat fl
          then add_fd (next_ino S) (o_append fl)
                 (S\<lparr>names := (p, next_ino S) # names S, inodes := (inodes S)(next_ino S := File []), next_ino := next_ino S + 1\<rparr>)
          else (- 1, S)
      | Some i \<Rightarrow>
          (case inodes S i of
             Dir \<Rightarrow> if o_write fl then (- 1, S) else add_fd i (o_append fl) S
           | File s \<Rightarrow> add_fd i (o_append fl)
               (if o_trunc fl then S\<lparr>inodes := (inodes S)(i := File []), room := room S + length s\<rparr> else S)))"

definition sys_close :: "int \<Rightarrow> os \<Rightarrow> os" where
  "sys_close fd S = S\<lparr>fds := AList.delete (nat fd) (fds S)\<rparr>"

text \<open>A call transfers at most this many bytes, and as many as there is room for.\<close>

definition MAX_RW :: nat where "MAX_RW = 0x7FFFF000"

definition file_put :: "nat \<Rightarrow> string \<Rightarrow> string \<Rightarrow> nat \<Rightarrow> nat \<times> string" where
  "file_put pos s c free =
     (let n = min (length s) (min (free + (length c - pos)) MAX_RW)
      in (n, take pos (c @ replicate (pos - length c) NUL) @ take n s @ drop (pos + n) c))"

definition sys_write :: "int \<Rightarrow> string \<Rightarrow> os \<Rightarrow> int \<times> os" where
  "sys_write fd s S =
     (case map_of (fds S) (nat fd) of
        None \<Rightarrow> (- 1, S)
      | Some d \<Rightarrow>
          (case inodes S (fd_ino d) of
             Dir \<Rightarrow> (- 1, S)
           | File c \<Rightarrow>
               let pos = (if fd_append d then length c else fd_pos d) in
               case file_put pos s c (room S) of (n, c') \<Rightarrow>
                 if n = 0 \<and> s \<noteq> [] then (- 1, S)
                 else (int n, S\<lparr>inodes := (inodes S)(fd_ino d := File c'), room := room S - (length c' - length c),
                    fds := AList.update (nat fd) (d\<lparr>fd_pos := pos + n\<rparr>) (fds S)\<rparr>)))"

text \<open>\<open>None\<close> for an error.\<close>

definition sys_read :: "int \<Rightarrow> nat \<Rightarrow> os \<Rightarrow> string option \<times> os" where
  "sys_read fd n S =
     (case map_of (fds S) (nat fd) of
        None \<Rightarrow> (None, S)
      | Some d \<Rightarrow>
          (case inodes S (fd_ino d) of
             Dir \<Rightarrow> (None, S)
           | File c \<Rightarrow>
               let bs = take (min n MAX_RW) (drop (fd_pos d) c)
               in (Some bs, S\<lparr>fds := AList.update (nat fd) (d\<lparr>fd_pos := fd_pos d + length bs\<rparr>) (fds S)\<rparr>)))"

text \<open>Overwrites the new name; \<open>False\<close> when the old one does not exist.\<close>

definition sys_rename :: "string \<Rightarrow> string \<Rightarrow> os \<Rightarrow> bool \<times> os" where
  "sys_rename old new S =
     (case map_of (names S) old of
        None \<Rightarrow> (False, S)
      | Some i \<Rightarrow> (True, S\<lparr>names := AList.update new i (AList.delete old (names S))\<rparr>))"

definition sys_unlink :: "string \<Rightarrow> os \<Rightarrow> os" where
  "sys_unlink p S = S\<lparr>names := AList.delete p (names S)\<rparr>"

text \<open>\<open>ftruncate\<close> to length 0.\<close>

definition sys_ftruncate :: "int \<Rightarrow> os \<Rightarrow> os" where
  "sys_ftruncate fd S =
     (case map_of (fds S) (nat fd) of
        None \<Rightarrow> S
      | Some d \<Rightarrow>
          (case inodes S (fd_ino d) of
             Dir \<Rightarrow> S
           | File c \<Rightarrow> S\<lparr>inodes := (inodes S)(fd_ino d := File []), room := room S + length c\<rparr>))"

text \<open>The link \<open>/proc/self/fd/N\<close>: the name the file has now; \<open>None\<close> for one that has been removed.\<close>

definition fd_name :: "int \<Rightarrow> os \<Rightarrow> string option" where
  "fd_name fd S =
     (case map_of (fds S) (nat fd) of
        None \<Rightarrow> None
      | Some d \<Rightarrow> map_option fst (find (\<lambda>(p, i). i = fd_ino d) (names S)))"

section \<open>Streams\<close>

definition O_RDONLY :: open_flags where "O_RDONLY = \<lparr>o_write = False, o_creat = False, o_trunc = False, o_append = False\<rparr>"
definition O_REPLACE :: open_flags where "O_REPLACE = \<lparr>o_write = True, o_creat = True, o_trunc = True, o_append = False\<rparr>"
definition O_APPEND :: open_flags where "O_APPEND = \<lparr>o_write = True, o_creat = True, o_trunc = False, o_append = True\<rparr>"

text \<open>
  The modes \<open>"r"\<close>, \<open>"w+"\<close> and \<open>"a+"\<close> of \<open>fopen\<close>. A stream keeps what is written to it until it is flushed or closed;
  \<open>acc\<close> is how much of it the stream accepts, \<open>fwrite\<close> of one item answers whether that is all of it.
\<close>

definition fopen_r :: "string \<Rightarrow> os \<Rightarrow> int \<times> os" where "fopen_r = sys_open O_RDONLY"
definition fopen_w :: "string \<Rightarrow> os \<Rightarrow> int \<times> os" where "fopen_w = sys_open O_REPLACE"
definition fopen_a :: "string \<Rightarrow> os \<Rightarrow> int \<times> os" where "fopen_a = sys_open O_APPEND"

definition fwrite :: "nat \<Rightarrow> string \<Rightarrow> int \<times> string" where
  "fwrite acc s = (if s \<noteq> [] \<and> length s \<le> acc then 1 else 0, take acc s)"

definition fflush :: "int \<Rightarrow> string \<Rightarrow> os \<Rightarrow> os" where
  "fflush fd out S = snd (sys_write fd out S)"

definition fclose :: "int \<Rightarrow> string \<Rightarrow> os \<Rightarrow> os" where
  "fclose fd out S = sys_close fd (fflush fd out S)"

text \<open>The rest of the file behind a stream that has just been opened.\<close>

definition stream_rest :: "int \<Rightarrow> os \<Rightarrow> string" where
  "stream_rest fd S =
     (case map_of (fds S) (nat fd) of
        None \<Rightarrow> []
      | Some d \<Rightarrow> (case inodes S (fd_ino d) of Dir \<Rightarrow> [] | File c \<Rightarrow> drop (fd_pos d) c))"

section \<open>Facts\<close>

definition fd_table :: "os \<Rightarrow> bool" where "fd_table S \<longleftrightarrow> distinct (map fst (fds S))"

text \<open>What is at a name.\<close>

definition at :: "os \<Rightarrow> string \<Rightarrow> fnode option" where
  "at S p = map_option (inodes S) (map_of (names S) p)"

text \<open>No inode in use is fresh, and no file has two names.\<close>

definition os_wf :: "os \<Rightarrow> bool" where
  "os_wf S \<longleftrightarrow> distinct (map fst (names S)) \<and> (\<forall>p q i. map_of (names S) p = Some i \<longrightarrow> map_of (names S) q = Some i \<longrightarrow> p = q) \<and>
     (\<forall>p i. map_of (names S) p = Some i \<longrightarrow> i < next_ino S) \<and> distinct (map fst (fds S)) \<and> (\<forall>d \<in> snd ` set (fds S). fd_ino d < next_ino S)"

lemma free_fd_new: "free_fd ds \<notin> fst ` set ds"
proof -
  have "\<exists>n \<in> set [0..<Suc (length ds)]. n \<notin> fst ` set ds"
  proof (rule ccontr)
    assume "\<not> ?thesis"
    then have "set [0..<Suc (length ds)] \<subseteq> fst ` set ds" by blast
    then have "card (set [0..<Suc (length ds)]) \<le> card (fst ` set ds)" by (rule card_mono [rotated]) simp
    also have "\<dots> \<le> length ds" using card_image_le [of "set ds" fst] card_length [of ds] by simp
    finally show False by simp
  qed
  then have "filter (\<lambda>n. n \<notin> fst ` set ds) [0..<Suc (length ds)] \<noteq> []" by (auto simp: filter_empty_conv)
  from hd_in_set [OF this] show ?thesis unfolding free_fd_def [symmetric] set_filter by blast
qed

lemma free_fd_pos: "0 \<in> fst ` set ds \<Longrightarrow> 0 < free_fd ds"
  using free_fd_new [of ds] by (metis gr0I)

lemma delete_new [simp]: "k \<notin> fst ` set ds \<Longrightarrow> AList.delete k ds = ds"
  by (simp add: delete_id)

lemma delete_Cons [simp]: "AList.delete k ((a, b) # ds) = (if a = k then AList.delete k ds else (a, b) # AList.delete k ds)"
  by (simp add: AList.delete_eq)

lemma close_open [simp]: "AList.delete (free_fd ds) ds = ds"
  by (rule delete_new) (rule free_fd_new)

lemma update_Cons [simp]: "AList.update k v ((k, w) # ds) = (k, v) # ds"
  by simp

section \<open>Replacing, appending, reading\<close>

text \<open>One file gets a content and everything else stays; the descriptors are those of before.\<close>

definition puts :: "string \<Rightarrow> string \<Rightarrow> os \<Rightarrow> os \<Rightarrow> bool" where
  "puts p s S S' \<longleftrightarrow> at S' p = Some (File s) \<and> (\<forall>q. q \<noteq> p \<longrightarrow> at S' q = at S q) \<and> fds S' = fds S \<and> os_wf S' \<and> refused S' = refused S"

text \<open>The content that a name has for an appending writer.\<close>

definition old_text :: "os \<Rightarrow> string \<Rightarrow> string" where
  "old_text S p = (case at S p of Some (File c) \<Rightarrow> c | _ \<Rightarrow> [])"

definition writable :: "os \<Rightarrow> string \<Rightarrow> bool" where
  "writable S p \<longleftrightarrow> \<not> refused S p \<and> at S p \<noteq> Some Dir"

lemma one_name: "os_wf S \<Longrightarrow> map_of (names S) p = Some i \<Longrightarrow> map_of (names S) q = Some i \<Longrightarrow> p = q"
  unfolding os_wf_def by blast

lemma old_ino: "os_wf S \<Longrightarrow> map_of (names S) p = Some i \<Longrightarrow> i < next_ino S"
  unfolding os_wf_def by blast

lemma fresh_name: "os_wf S \<Longrightarrow> map_of (names S) q \<noteq> Some (next_ino S)"
  using old_ino by blast

lemma os_wf_fds:
  "os_wf S \<Longrightarrow> names S' = names S \<Longrightarrow> next_ino S' = next_ino S \<Longrightarrow> fds S' = (k, d) # fds S \<Longrightarrow> k \<notin> fst ` set (fds S) \<Longrightarrow> fd_ino d < next_ino S \<Longrightarrow> os_wf S'"
  unfolding os_wf_def by simp

lemma opened_for_writing:
  assumes "os_wf S" and "writable S p" and "o_creat fl \<or> at S p \<noteq> None" and "o_write fl"
  obtains S' i fd where "sys_open fl p S = (int fd, S')" and "fd = free_fd (fds S)"
    and "fds S' = (fd, \<lparr>fd_ino = i, fd_pos = 0, fd_append = o_append fl\<rparr>) # fds S"
    and "map_of (names S') p = Some i" and "inodes S' i = File (if o_trunc fl then [] else old_text S p)"
    and "\<And>q. q \<noteq> p \<Longrightarrow> at S' q = at S q" and "os_wf S'" and "refused S' = refused S" and "room S \<le> room S'"
    and "\<And>q. q \<noteq> p \<Longrightarrow> map_of (names S') q = map_of (names S) q"
proof (cases "map_of (names S) p")
  case None
  let ?S = "S\<lparr>names := (p, next_ino S) # names S, inodes := (inodes S)(next_ino S := File []), next_ino := next_ino S + 1\<rparr>"
  let ?S' = "snd (add_fd (next_ino S) (o_append fl) ?S)"
  have "p \<notin> fst ` set (names S)" using None by (simp add: map_of_eq_None_iff)
  then have "os_wf ?S" using assms(1) fresh_name [OF assms(1)] old_ino [OF assms(1)]
    by (auto simp: os_wf_def less_Suc_eq split: if_splits dest: one_name [OF assms(1)])
  then have wf: "os_wf ?S'" by (rule os_wf_fds) (use free_fd_new [of "fds S"] in \<open>auto simp: add_fd_def\<close>)
  have o: "sys_open fl p S = (int (free_fd (fds S)), ?S')"
    using assms None by (simp add: sys_open_def writable_def add_fd_def at_def)
  have "at ?S' q = at S q" if "q \<noteq> p" for q
    using that fresh_name [OF assms(1), of q] by (cases "map_of (names S) q") (auto simp: at_def add_fd_def)
  with o wf None show thesis by (intro that [of "free_fd (fds S)" ?S' "next_ino S"]) (auto simp: add_fd_def old_text_def at_def)
next
  case (Some i)
  then obtain c where c: "inodes S i = File c" using assms(2) by (cases "inodes S i") (auto simp: writable_def at_def)
  let ?S = "if o_trunc fl then S\<lparr>inodes := (inodes S)(i := File []), room := room S + length c\<rparr> else S"
  let ?S' = "snd (add_fd i (o_append fl) ?S)"
  have "os_wf ?S" using assms(1) by (simp add: os_wf_def)
  then have wf: "os_wf ?S'" by (rule os_wf_fds) (use free_fd_new [of "fds S"] old_ino [OF assms(1) Some] in \<open>auto simp: add_fd_def\<close>)
  have o: "sys_open fl p S = (int (free_fd (fds S)), ?S')"
    using assms Some c by (simp add: sys_open_def writable_def add_fd_def)
  have "at ?S' q = at S q" if "q \<noteq> p" for q
    using that one_name [OF assms(1) Some, of q] by (cases "map_of (names S) q") (auto simp: at_def add_fd_def)
  with o wf Some c show thesis by (intro that [of "free_fd (fds S)" ?S' i]) (auto simp: add_fd_def old_text_def at_def)
qed

lemma written:
  assumes "fds S = (fd, d) # ds" and "map_of (names S) p = Some (fd_ino d)" and "inodes S (fd_ino d) = File c"
    and "fd_append d \<or> fd_pos d = length c" and "length s \<le> room S" and "length s \<le> MAX_RW" and "os_wf S"
  obtains S' where "sys_write (int fd) s S = (int (length s), S')" and "map_of (names S') p = Some (fd_ino d)"
    and "inodes S' (fd_ino d) = File (c @ s)" and "\<And>q. q \<noteq> p \<Longrightarrow> at S' q = at S q" and "os_wf S'" and "refused S' = refused S"
    and "room S' = room S - length s" and "fds S' = (fd, d\<lparr>fd_pos := length (c @ s)\<rparr>) # ds"
proof -
  let ?S' = "S\<lparr>inodes := (inodes S)(fd_ino d := File (c @ s)), room := room S - length s,
     fds := (fd, d\<lparr>fd_pos := length (c @ s)\<rparr>) # ds\<rparr>"
  have w: "sys_write (int fd) s S = (int (length s), ?S')"
    using assms(1,3,4,5,6) by (auto simp: sys_write_def file_put_def Let_def)
  have "at ?S' q = at S q" if "q \<noteq> p" for q
    using that one_name [OF assms(7,2), of q] by (cases "map_of (names S) q") (auto simp: at_def)
  moreover have "os_wf ?S'" using assms(1,7) by (simp add: os_wf_def)
  ultimately show thesis using w assms(2) by (intro that [of ?S']) auto
qed

lemma closed:
  assumes "fds S = (fd, d) # ds" and "os_wf S" and "map_of (names S) p = Some i" and "inodes S i = File s"
    and "\<And>q. q \<noteq> p \<Longrightarrow> at S q = at S0 q" and "refused S = refused S0" and "ds = fds S0"
  shows "puts p s S0 (sys_close (int fd) S)"
proof -
  have "fd \<notin> fst ` set ds" using assms(1,2) by (simp add: os_wf_def)
  then have "fds (sys_close (int fd) S) = ds" using assms(1) by (simp add: sys_close_def)
  with assms show ?thesis by (auto simp: puts_def at_def sys_close_def os_wf_def)
qed

text \<open>Opening for reading.\<close>

lemma opened_for_reading:
  assumes "\<not> refused S p" and "at S p = Some (File c)"
  obtains S' d where "sys_open O_RDONLY p S = (int (free_fd (fds S)), S')" and "fds S' = (free_fd (fds S), d) # fds S"
    and "inodes S' (fd_ino d) = File c" and "fd_pos d = 0"
    and "S'\<lparr>fds := fds S\<rparr> = S"
  using assms by (auto simp: at_def sys_open_def O_RDONLY_def add_fd_def)

text \<open>What a write leaves alone.\<close>

lemma sys_write_fds: "fds S = (k, d) # ds \<Longrightarrow> \<exists>e. fds (snd (sys_write (int k) s S)) = (k, e) # ds"
  by (cases "inodes S (fd_ino d)") (simp_all add: sys_write_def Let_def split: prod.split)

lemma sys_write_names: "names (snd (sys_write fd s S)) = names S" "refused (snd (sys_write fd s S)) = refused S"
    "inodes S i = Dir \<Longrightarrow> inodes (snd (sys_write fd s S)) i = Dir"
proof -
  have "names (snd (sys_write fd s S)) = names S \<and> refused (snd (sys_write fd s S)) = refused S \<and>
      (inodes S i = Dir \<longrightarrow> inodes (snd (sys_write fd s S)) i = Dir)"
  proof (cases "map_of (fds S) (nat fd)")
    case (Some d)
    then show ?thesis by (cases "inodes S (fd_ino d)") (auto simp: sys_write_def Let_def split: prod.split)
  qed (simp add: sys_write_def)
  then show "names (snd (sys_write fd s S)) = names S" "refused (snd (sys_write fd s S)) = refused S"
    "inodes S i = Dir \<Longrightarrow> inodes (snd (sys_write fd s S)) i = Dir" by blast+
qed

lemma fclose_fds: "fds S = (free_fd ds, d) # ds \<Longrightarrow> fds (fclose (int (free_fd ds)) s S) = ds"
  using sys_write_fds [of S "free_fd ds" d ds s] by (auto simp: fclose_def fflush_def sys_close_def)

lemma fclose_names: "names (fclose fd s S) = names S" "refused (fclose fd s S) = refused S" "inodes S i = Dir \<Longrightarrow> inodes (fclose fd s S) i = Dir"
  by (simp_all add: fclose_def fflush_def sys_close_def sys_write_names)

text \<open>Renaming, and the name of a descriptor.\<close>

lemma rename_names:
  assumes "map_of (names S) old = Some i" and "old \<noteq> new"
  shows "map_of (names (snd (sys_rename old new S))) = (map_of (names S))(old := None, new := Some i)"
  using assms by (simp add: sys_rename_def update_conv' delete_conv' fun_upd_def fun_eq_iff)

lemma rename_rest:
  "inodes (snd (sys_rename old new S)) = inodes S" "fds (snd (sys_rename old new S)) = fds S"
  "refused (snd (sys_rename old new S)) = refused S" "room (snd (sys_rename old new S)) = room S" "next_ino (snd (sys_rename old new S)) = next_ino S"
  by (simp_all add: sys_rename_def split: option.split)

lemma rename_wf: "os_wf S \<Longrightarrow> old \<noteq> new \<Longrightarrow> os_wf (snd (sys_rename old new S))"
proof (cases "map_of (names S) old")
  case (Some i)
  assume w: "os_wf S" "old \<noteq> new"
  have "distinct (map fst (names (snd (sys_rename old new S))))"
    using w Some by (simp add: sys_rename_def os_wf_def distinct_update distinct_delete)
  with w(1) show ?thesis unfolding os_wf_def rename_names [OF Some w(2)] rename_rest
    using one_name [OF w(1) Some] old_ino [OF w(1) Some] by (auto split: if_splits)
qed (simp add: sys_rename_def)

lemma fd_name_iff:
  assumes "os_wf S" and "map_of (fds S) (nat fd) = Some d"
  shows "fd_name fd S = Some p \<longleftrightarrow> map_of (names S) p = Some (fd_ino d)"
proof -
  have d: "distinct (map fst (names S))" using assms(1) by (simp add: os_wf_def)
  show ?thesis
  proof (cases "find (\<lambda>(p, i). i = fd_ino d) (names S)")
    case None
    then have "map_of (names S) p \<noteq> Some (fd_ino d)" by (auto simp: find_None_iff dest: map_of_SomeD)
    with None assms(2) show ?thesis by (simp add: fd_name_def)
  next
    case (Some x)
    then have "(fst x, fd_ino d) \<in> set (names S)" by (auto simp: find_Some_iff in_set_conv_nth)
    then have "map_of (names S) (fst x) = Some (fd_ino d)" using d by simp
    with Some assms(2) one_name [OF assms(1)] show ?thesis by (auto simp: fd_name_def)
  qed
qed

end
