(* ===== verification/Generic_File.thy ===== *)
theory Generic_File
  imports File_Sys
begin

text \<open>
  \<open>common/generic_file.c\<close>: files that hold one number or one string, written and read by streams (\<open>utils_file\<close>) or by
  system calls (\<open>sys_file\<close>), truncation and copying. A destination buffer is the list of its characters before the call;
  a computation that leaves a buffer is \<open>None\<close>.
\<close>

section \<open>Numbers\<close>

text \<open>A number that is read is first converted to \<open>long\<close>, at its limits, and then to \<open>int\<close>.\<close>

definition int_conv :: "int \<Rightarrow> int" where
  "int_conv i = (max (- (2 ^ 63)) (min (2 ^ 63 - 1) i) + 2 ^ 31) mod 2 ^ 32 - 2 ^ 31"

definition is_int :: "int \<Rightarrow> bool" where "is_int i \<longleftrightarrow> - (2 ^ 31) \<le> i \<and> i < 2 ^ 31"

lemma int_conv_id [simp]: "is_int i \<Longrightarrow> int_conv i = i"
  unfolding is_int_def int_conv_def by (subst mod_pos_pos_trivial) auto

text \<open>\<open>%d\<close> of \<open>sscanf\<close>; no digits, no conversion.\<close>

definition sscanf_d :: "string \<Rightarrow> int option" where
  "sscanf_d s =
     (let t = dropWhile isspace s; u = (if t \<noteq> [] \<and> hd t \<in> {CHR ''-'', CHR ''+''} then tl t else t)
      in if u \<noteq> [] \<and> is_digit (hd u) then Some (int_conv (atoi s)) else None)"

text \<open>Whether \<open>atoi\<close> reads on to the end of its argument.\<close>

definition all_number :: "string \<Rightarrow> bool" where
  "all_number s \<longleftrightarrow>
     (let t = dropWhile isspace s; u = (if t \<noteq> [] \<and> hd t \<in> {CHR ''-'', CHR ''+''} then tl t else t) in \<forall>c \<in> set u. is_digit c)"

definition utils_file_write_integer :: "nat \<Rightarrow> string \<Rightarrow> int \<Rightarrow> os \<Rightarrow> (int \<times> os) option" where
  "utils_file_write_integer acc filename i S = do {
     let buf = show_int i @ [LF];
     c_assert (length buf < 32);
     let (fp, S) = fopen_w filename S;
     if fp < 0 then Some (0, S)
     else (case fwrite acc buf of (ssize, out) \<Rightarrow> Some (of_bool (ssize = 1), fclose fp out S))
   }"

definition utils_file_read_integer :: "string \<Rightarrow> int \<Rightarrow> os \<Rightarrow> int \<times> os" where
  "utils_file_read_integer filename dvalue S =
     (case fopen_r filename S of (fp, S) \<Rightarrow>
        if fp < 0 then (dvalue, S)
        else case fgets 63 (stream_rest fp S) of (buf, r) \<Rightarrow>
          (if buf \<noteq> [] then (case sscanf_d (c_str buf) of Some i \<Rightarrow> i | None \<Rightarrow> dvalue) else dvalue, sys_close fp S))"

definition write_number :: "open_flags \<Rightarrow> string \<Rightarrow> int \<Rightarrow> os \<Rightarrow> (int \<times> os) option" where
  "write_number fl filename i S = do {
     let buf = show_int i @ [LF];
     c_assert (length buf < 16);
     let (fd, S) = sys_open fl filename S;
     if fd < 0 then Some (0, S)
     else (case sys_write fd buf S of (sz, S) \<Rightarrow> Some (of_bool (sz = int (length buf)), sys_close fd S))
   }"

definition sys_file_wronly_integer :: "string \<Rightarrow> int \<Rightarrow> os \<Rightarrow> (int \<times> os) option" where
  "sys_file_wronly_integer = write_number (O_REPLACE\<lparr>o_creat := False\<rparr>)"

definition sys_file_write_integer :: "string \<Rightarrow> int \<Rightarrow> os \<Rightarrow> (int \<times> os) option" where
  "sys_file_write_integer = write_number O_REPLACE"

text \<open>The test is \<open>fd > 0\<close>. The 32 bytes of the buffer may all be read; then nothing ends the text.\<close>

definition sys_file_read_integer :: "string \<Rightarrow> int \<Rightarrow> os \<Rightarrow> (int \<times> os) option" where
  "sys_file_read_integer filename dvalue S =
     (case sys_open O_RDONLY filename S of (fd, S) \<Rightarrow>
        if fd > 0
        then (case sys_read fd 32 S of (r, S) \<Rightarrow>
               let S = sys_close fd S in
               case r of
                 None \<Rightarrow> Some (dvalue, S)
               | Some bs \<Rightarrow>
                   if bs = [] then Some (dvalue, S)
                   else if length bs = 32 \<and> NUL \<notin> set bs \<and> all_number bs then None
                   else Some (int_conv (atoi (c_str bs)), S))
        else Some (dvalue, S))"

section \<open>Strings\<close>

text \<open>\<open>mem\<close> is the memory at the string; reading behind it is a fault.\<close>

definition stream_string :: "(string \<Rightarrow> os \<Rightarrow> int \<times> os) \<Rightarrow> nat \<Rightarrow> nat \<Rightarrow> string \<Rightarrow> string \<Rightarrow> nat \<Rightarrow> os \<Rightarrow> (int \<times> os) option" where
  "stream_string fopen acc acc2 filename mem sz S =
     (case fopen filename S of (fp, S) \<Rightarrow>
        if fp < 0 then Some (0, S)
        else do {
          c_assert (sz \<le> length mem);
          case fwrite acc (take sz mem) of (n, out) \<Rightarrow>
            Some (of_bool (n = 1), fclose fp (out @ snd (fwrite acc2 [LF])) S)
        })"

definition utils_file_write_string :: "nat \<Rightarrow> nat \<Rightarrow> string \<Rightarrow> string \<Rightarrow> nat \<Rightarrow> os \<Rightarrow> (int \<times> os) option" where
  "utils_file_write_string = stream_string fopen_w"

definition utils_file_append_string :: "nat \<Rightarrow> nat \<Rightarrow> string \<Rightarrow> string \<Rightarrow> nat \<Rightarrow> os \<Rightarrow> (int \<times> os) option" where
  "utils_file_append_string = stream_string fopen_a"

text \<open>The loop that ends the string at a newline: up to the first newline or zero.\<close>

definition cut_line :: "string \<Rightarrow> (int \<times> string) option" where
  "cut_line dest =
     (let i = length (takeWhile (\<lambda>c. c \<noteq> NUL \<and> c \<noteq> LF) dest)
      in if i < length dest then Some (int i, dest[i := NUL]) else None)"

definition utils_file_read_string :: "string \<Rightarrow> string \<Rightarrow> nat \<Rightarrow> os \<Rightarrow> (int \<times> string \<times> os) option" where
  "utils_file_read_string filename dest sz S =
     (case fopen_r filename S of (fp, S) \<Rightarrow>
        if fp < 0 then Some (- 1, dest, S)
        else case fgets (sz - 1) (stream_rest fp S) of (line, r) \<Rightarrow>
          if sz = 0 \<or> sz > 1 \<and> line = [] then Some (- 1, dest, sys_close fp S)
          else do {
            c_assert (length line < length dest);
            (i, dest) \<leftarrow> cut_line (line @ NUL # drop (length line + 1) dest);
            Some (i, dest, sys_close fp S)
          })"

definition sys_file_wronly_string :: "string \<Rightarrow> string \<Rightarrow> os \<Rightarrow> int \<times> os" where
  "sys_file_wronly_string filename s S =
     (case sys_open (O_REPLACE\<lparr>o_creat := False\<rparr>) filename S of (fd, S) \<Rightarrow>
        if fd < 0 then (0, S)
        else case sys_write fd s S of (sz, S) \<Rightarrow> (of_bool (sz = int (length s)), sys_close fd S))"

definition sys_file_write_string :: "string \<Rightarrow> string \<Rightarrow> nat \<Rightarrow> os \<Rightarrow> (int \<times> os) option" where
  "sys_file_write_string filename mem sz S =
     (case sys_open O_REPLACE filename S of (fd, S) \<Rightarrow>
        if fd < 0 then Some (0, S)
        else do {
          c_assert (sz \<le> length mem);
          case sys_write fd (take sz mem) S of (ssize, S) \<Rightarrow>
            (case sys_write fd [LF] S of (r, S) \<Rightarrow> Some (of_bool (ssize = int sz), sys_close fd S))
        })"

text \<open>
  The result of \<open>read\<close> is kept in the unsigned \<open>size\<close>, so that the test for an error is never true: after an error the loop
  looks for a newline in \<open>2 ^ 32 - 1\<close> bytes.
\<close>

definition sys_file_read_string :: "string \<Rightarrow> string \<Rightarrow> nat \<Rightarrow> os \<Rightarrow> (int \<times> string \<times> os) option" where
  "sys_file_read_string filename dest sz S =
     (case sys_open O_RDONLY filename S of (fd, S) \<Rightarrow>
        if fd < 0 then Some (- 1, dest, S)
        else case sys_read fd (if sz = 0 then 2 ^ 32 - 1 else sz - 1) S of (r, S) \<Rightarrow>
          do {
            (sz, dest) \<leftarrow> (case r of
               None \<Rightarrow> Some (2 ^ 32 - 1, dest)
             | Some bs \<Rightarrow> if length bs \<le> length dest then Some (length bs, bs @ drop (length bs) dest) else None);
            let S = sys_close fd S;
            let i = length (takeWhile (\<lambda>c. c \<noteq> LF) (take sz dest));
            if i < length dest then Some (int i, dest[i := NUL], S) else None
          })"

section \<open>Truncation and copying\<close>

definition utils_file_trunc :: "string \<Rightarrow> os \<Rightarrow> int \<times> os" where
  "utils_file_trunc filename S =
     (case fopen_w filename S of (fp, S) \<Rightarrow> if fp < 0 then (- 1, S) else (0, fclose fp [] S))"

definition sys_file_trunc :: "string option \<Rightarrow> os \<Rightarrow> int \<times> os" where
  "sys_file_trunc filename S =
     (case filename of
        None \<Rightarrow> (- 1, S)
      | Some p \<Rightarrow> (case sys_open O_REPLACE p S of (fd, S) \<Rightarrow> if fd < 0 then (- 1, S) else (0, sys_close fd S)))"

text \<open>The mapping of a file: its bytes. An empty one and one that is no file cannot be mapped.\<close>

definition mmap_file :: "int \<Rightarrow> os \<Rightarrow> string option" where
  "mmap_file fd S = (let s = stream_rest fd S in if s = [] then None else Some s)"

definition utils_file_copy :: "string \<Rightarrow> string \<Rightarrow> os \<Rightarrow> int \<times> os" where
  "utils_file_copy src_file dst_file S =
     (case sys_open O_RDONLY src_file S of (src_fd, S) \<Rightarrow>
        if src_fd = - 1 then (- 1, S)
        else case sys_open O_REPLACE dst_file S of (dst_fd, S) \<Rightarrow>
          if dst_fd = - 1 then (- 1, sys_close src_fd S)
          else case mmap_file src_fd S of
              None \<Rightarrow> (- 1, sys_close dst_fd (sys_close src_fd S))
            | Some mm \<Rightarrow>
                (case sys_write dst_fd mm S of (sz, S) \<Rightarrow>
                   (if sz = int (length mm) then 0 else - 1, sys_close src_fd (sys_close dst_fd S))))"

section \<open>Facts\<close>

lemma number_text: "atoi (show_int i @ [LF]) = i"
  by (rule atoi_show) (simp add: is_digit_def byte_def LF_def)

lemma number_clean: "NUL \<notin> set (show_int i @ [LF])" "LF \<notin> set (show_int i)"
proof -
  have n: "byte NUL = 0" "byte LF = 10" by (simp_all add: byte_def NUL_def LF_def)
  show "NUL \<notin> set (show_int i @ [LF])" using show_int_chars [of NUL i] n by (auto simp: NUL_def LF_def)
  show "LF \<notin> set (show_int i)" using show_int_chars [of LF i] n by auto
qed

lemma number_scan: "is_int i \<Longrightarrow> sscanf_d (show_int i @ [LF]) = Some i"
proof -
  assume i: "is_int i"
  obtain d ds where d: "show_nat (nat i) = d # ds" by (meson list.exhaust show_nat_Nil)
  obtain e es where e: "show_nat (nat (- i)) = e # es" by (meson list.exhaust show_nat_Nil)
  have dg: "is_digit d" "is_digit e" using hd_show_nat [of "nat i"] hd_show_nat [of "nat (- i)"] d e by simp_all
  then have "\<not> isspace d" "d \<noteq> CHR ''-''" "d \<noteq> CHR ''+''"
    using isspace_byte [of d] by (auto simp: is_digit_def byte_def)
  then show ?thesis using number_text [of i] i d e dg
    by (cases "i < 0") (simp_all add: sscanf_d_def show_int_def Let_def isspace_def)
qed

lemma number_read: "is_int i \<Longrightarrow> length (show_int i @ [LF]) \<le> 12 \<and> c_str (show_int i @ [LF]) = show_int i @ [LF]"
  using length_show_int number_clean(1) unfolding is_int_def by (simp add: length_show_int)

end
