(* ===== verification/File_Properties.thy ===== *)
theory File_Properties
  imports Generic_File
begin

text \<open>
  What the functions of \<open>generic_file.c\<close> do to the files: the writers leave exactly their text under the name, the
  readers give it back, and all of them return the descriptors they open.
\<close>

section \<open>Writing\<close>

lemmas write_flags = O_REPLACE_def O_APPEND_def O_RDONLY_def

lemma written_to:
  assumes "os_wf S" and "writable S p" and "o_creat fl \<or> at S p \<noteq> None" and "o_write fl" and "o_trunc fl \<or> o_append fl"
    and "length s \<le> room S" and "length s \<le> MAX_RW"
  obtains fd S1 S2 d where "sys_open fl p S = (int fd, S1)" and "sys_write (int fd) s S1 = (int (length s), S2)"
    and "puts p ((if o_trunc fl then [] else old_text S p) @ s) S (sys_close (int fd) S2)"
proof -
  let ?c = "if o_trunc fl then [] else old_text S p"
  obtain S1 i fd where o: "sys_open fl p S = (int fd, S1)" "fd = free_fd (fds S)"
      "fds S1 = (fd, \<lparr>fd_ino = i, fd_pos = 0, fd_append = o_append fl\<rparr>) # fds S"
      "map_of (names S1) p = Some i" "inodes S1 i = File ?c"
      "\<And>q. q \<noteq> p \<Longrightarrow> at S1 q = at S q" "os_wf S1" "refused S1 = refused S" "room S \<le> room S1"
    using opened_for_writing [OF assms(1-4)] by metis
  have "fd_append \<lparr>fd_ino = i, fd_pos = 0, fd_append = o_append fl\<rparr> \<or> fd_pos \<lparr>fd_ino = i, fd_pos = 0, fd_append = o_append fl\<rparr> = length ?c"
    using assms(5) by auto
  then obtain S2 where w: "sys_write (int fd) s S1 = (int (length s), S2)" "map_of (names S2) p = Some i"
      "inodes S2 i = File (?c @ s)" "\<And>q. q \<noteq> p \<Longrightarrow> at S2 q = at S1 q" "os_wf S2" "refused S2 = refused S1"
      "fds S2 = (fd, \<lparr>fd_ino = i, fd_pos = length (?c @ s), fd_append = o_append fl\<rparr>) # fds S"
    using written [OF o(3), of p ?c s] o(4,5,7,9) assms(6,7) by auto
  have "puts p (?c @ s) S (sys_close (int fd) S2)"
    by (rule closed [OF w(7,5,2,3)]) (use w(4,6) o(6,8) in auto)
  with o(1) w(1) show thesis using that by blast
qed

lemma write_number_puts:
  assumes "os_wf S" and "writable S p" and "is_int i" and "12 \<le> room S" and "o_creat fl \<or> at S p \<noteq> None"
    and "o_write fl" "o_trunc fl"
  obtains S' where "write_number fl p i S = Some (1, S')" and "puts p (show_int i @ [LF]) S S'"
proof -
  have l: "length (show_int i @ [LF]) \<le> 12" using number_read [OF assms(3)] by simp
  obtain fd S1 S2 where "sys_open fl p S = (int fd, S1)"
      "sys_write (int fd) (show_int i @ [LF]) S1 = (int (length (show_int i @ [LF])), S2)"
      "puts p ((if o_trunc fl then [] else old_text S p) @ show_int i @ [LF]) S (sys_close (int fd) S2)"
    by (rule written_to [OF assms(1,2,5,6), of "show_int i @ [LF]"]) (use assms(4,7) l in \<open>auto simp: MAX_RW_def\<close>)
  with l assms(7) show thesis by (intro that [of "sys_close (int fd) S2"]) (auto simp: write_number_def c_assert_def)
qed

lemma stream_puts:
  assumes "os_wf S" and "writable S p" and "o_creat fl" and "o_write fl" and "o_trunc fl \<or> o_append fl"
    and "length s \<le> room S" and "length s \<le> MAX_RW"
  obtains fd S1 where "sys_open fl p S = (int fd, S1)"
    and "puts p ((if o_trunc fl then [] else old_text S p) @ s) S (fclose (int fd) s S1)"
proof -
  obtain fd S1 S2 where "sys_open fl p S = (int fd, S1)" "sys_write (int fd) s S1 = (int (length s), S2)"
      "puts p ((if o_trunc fl then [] else old_text S p) @ s) S (sys_close (int fd) S2)"
    using written_to [OF assms(1,2) _ assms(4-7)] assms(3) by metis
  then show thesis by (intro that [of fd S1]) (auto simp: fclose_def fflush_def)
qed

lemma utils_write_integer_puts:
  assumes "os_wf S" and "writable S p" and "is_int i" and "12 \<le> room S" and "12 \<le> acc"
  obtains S' where "utils_file_write_integer acc p i S = Some (1, S')" and "puts p (show_int i @ [LF]) S S'"
proof -
  have l: "length (show_int i @ [LF]) \<le> 12" using number_read [OF assms(3)] by simp
  then have m: "length (show_int i @ [LF]) \<le> MAX_RW" "length (show_int i @ [LF]) \<le> room S" using assms(4) by (simp_all add: MAX_RW_def)
  obtain fd S1 where "sys_open O_REPLACE p S = (int fd, S1)" "puts p (show_int i @ [LF]) S (fclose (int fd) (show_int i @ [LF]) S1)"
    using stream_puts [OF assms(1,2) _ _ _ m(2,1), of O_REPLACE] by (auto simp: O_REPLACE_def)
  with l assms(5) show thesis
    by (intro that [of "fclose (int fd) (show_int i @ [LF]) S1"]) (auto simp: utils_file_write_integer_def fopen_w_def fwrite_def c_assert_def)
qed

section \<open>Reading\<close>

lemma read_state:
  assumes "\<not> refused S p" and "at S p = Some (File c)" and "n \<le> MAX_RW"
  obtains S' S2 fd where "sys_open O_RDONLY p S = (int fd, S')" and "fd = free_fd (fds S)" and "stream_rest (int fd) S' = c"
    and "sys_close (int fd) S' = S" and "sys_read (int fd) n S' = (Some (take n c), S2)" and "sys_close (int fd) S2 = S"
proof -
  let ?fd = "free_fd (fds S)"
  obtain S' d where o: "sys_open O_RDONLY p S = (int ?fd, S')" "fds S' = (?fd, d) # fds S"
      "inodes S' (fd_ino d) = File c" "fd_pos d = 0" "S'\<lparr>fds := fds S\<rparr> = S"
    using opened_for_reading [OF assms(1,2)] .
  let ?S2 = "S'\<lparr>fds := (?fd, d\<lparr>fd_pos := length (take n c)\<rparr>) # fds S\<rparr>"
  have "sys_read (int ?fd) n S' = (Some (take n c), ?S2)" using o assms(3) by (simp add: sys_read_def Let_def min_absorb1)
  moreover have "sys_close (int ?fd) ?S2 = S" using o(5) by (simp add: sys_close_def)
  moreover have "stream_rest (int ?fd) S' = c" using o by (simp add: stream_rest_def)
  moreover have "sys_close (int ?fd) S' = S" using o(2,5) by (simp add: sys_close_def)
  ultimately show thesis using o(1) that by blast
qed

lemma utils_read_first_number:
  assumes "\<not> refused S p" and "at S p = Some (File (show_int i @ LF # r))" and "is_int i"
  shows "utils_file_read_integer p d S = (i, S)"
proof -
  obtain S' fd where "sys_open O_RDONLY p S = (int fd, S')" "stream_rest (int fd) S' = show_int i @ LF # r" "sys_close (int fd) S' = S"
    using read_state [OF assms(1,2), of 0] by (metis zero_le)
  moreover have "fgets 63 (show_int i @ LF # r) = (show_int i @ [LF], r)"
    using fgets_line [OF number_clean(2), of i 63 r] number_read [OF assms(3)] by simp
  ultimately show ?thesis using number_read [OF assms(3)] number_scan [OF assms(3)] by (simp add: utils_file_read_integer_def fopen_r_def)
qed

lemmas utils_read_number = utils_read_first_number [where r = "[]"]

lemma sys_read_number:
  assumes "\<not> refused S p" and "at S p = Some (File (show_int i @ [LF]))" and "is_int i" and "0 \<in> fst ` set (fds S)"
  shows "sys_file_read_integer p d S = Some (i, S)"
proof -
  let ?t = "show_int i @ [LF]"
  have t: "length ?t \<le> 12" "c_str ?t = ?t" "take 32 ?t = ?t" using number_read [OF assms(3)] by auto
  obtain S' S2 fd where "sys_open O_RDONLY p S = (int fd, S')" "fd = free_fd (fds S)" "sys_read (int fd) 32 S' = (Some (take 32 ?t), S2)"
      "sys_close (int fd) S2 = S"
    by (rule read_state [OF assms(1,2), of 32]) (simp add: MAX_RW_def)
  moreover have "0 < free_fd (fds S)" using free_fd_pos assms(4) by blast
  ultimately show ?thesis using t number_text [of i] assms(3) by (simp add: sys_file_read_integer_def Let_def)
qed

section \<open>Strings\<close>

lemma stream_string_puts:
  assumes "os_wf S" and "writable S p" and "sz \<le> length mem" and "sz + 1 \<le> room S" and "sz + 1 \<le> MAX_RW"
    and "0 < sz" and "sz \<le> acc" and "0 < acc2" and "o_creat fl" and "o_write fl" and "o_trunc fl \<or> o_append fl"
  obtains S' where "stream_string (sys_open fl) acc acc2 p mem sz S = Some (1, S')"
    and "puts p ((if o_trunc fl then [] else old_text S p) @ take sz mem @ [LF]) S S'"
proof -
  have l: "length (take sz mem @ [LF]) \<le> room S" "length (take sz mem @ [LF]) \<le> MAX_RW" using assms(3-5) by auto
  obtain fd S1 where o: "sys_open fl p S = (int fd, S1)"
      "puts p ((if o_trunc fl then [] else old_text S p) @ take sz mem @ [LF]) S (fclose (int fd) (take sz mem @ [LF]) S1)"
    using stream_puts [OF assms(1,2,9-11) l] by metis
  have "snd (fwrite acc2 [LF]) = [LF]" using assms(8) by (cases acc2) (simp_all add: fwrite_def)
  moreover have "fwrite acc (take sz mem) = (1, take sz mem)" using assms(3,6,7) by (auto simp: fwrite_def)
  ultimately have "stream_string (sys_open fl) acc acc2 p mem sz S = Some (1, fclose (int fd) (take sz mem @ [LF]) S1)"
    using o(1) assms(3) by (simp add: stream_string_def c_assert_def)
  with o(2) show thesis using that by blast
qed

lemma sys_write_string_puts:
  assumes "os_wf S" and "writable S p" and "sz \<le> length mem" and "sz + 1 \<le> room S" and "sz + 1 \<le> MAX_RW"
  obtains S' where "sys_file_write_string p mem sz S = Some (1, S')" and "puts p (take sz mem @ [LF]) S S'"
proof -
  obtain S1 i fd where o: "sys_open O_REPLACE p S = (int fd, S1)" "fd = free_fd (fds S)"
      "fds S1 = (fd, \<lparr>fd_ino = i, fd_pos = 0, fd_append = False\<rparr>) # fds S"
      "map_of (names S1) p = Some i" "inodes S1 i = File []"
      "\<And>q. q \<noteq> p \<Longrightarrow> at S1 q = at S q" "os_wf S1" "refused S1 = refused S" "room S \<le> room S1"
    by (rule opened_for_writing [OF assms(1,2), of O_REPLACE]) (auto simp: O_REPLACE_def)
  let ?t = "take sz mem"
  have t: "length ?t = sz" using assms(3) by simp
  obtain S2 where w: "sys_write (int fd) ?t S1 = (int (length ?t), S2)" "map_of (names S2) p = Some i"
      "inodes S2 i = File ?t" "\<And>q. q \<noteq> p \<Longrightarrow> at S2 q = at S1 q" "os_wf S2" "refused S2 = refused S1"
      "room S2 = room S1 - length ?t" "fds S2 = (fd, \<lparr>fd_ino = i, fd_pos = length ?t, fd_append = False\<rparr>) # fds S"
    by (rule written [OF o(3), of p "[]" ?t]) (use o(4,5,7,9) assms(4,5) t in auto)
  obtain S3 where v: "sys_write (int fd) [LF] S2 = (int (length [LF]), S3)" "map_of (names S3) p = Some i"
      "inodes S3 i = File (?t @ [LF])" "\<And>q. q \<noteq> p \<Longrightarrow> at S3 q = at S2 q" "os_wf S3" "refused S3 = refused S2"
      "fds S3 = (fd, \<lparr>fd_ino = i, fd_pos = length (?t @ [LF]), fd_append = False\<rparr>) # fds S"
    by (rule written [OF w(8), of p ?t "[LF]"]) (use w(2,3,5,7) o(9) assms(4,5) t in auto)
  have "puts p (?t @ [LF]) S (sys_close (int fd) S3)"
    by (rule closed [OF v(7,5,2,3)]) (use v(4,6) w(4,6) o(6,8) in auto)
  moreover have "sys_file_write_string p mem sz S = Some (1, sys_close (int fd) S3)"
    using o(1) w(1) v(1) assms(3) t by (simp add: sys_file_write_string_def c_assert_def)
  ultimately show thesis using that by blast
qed

lemma fgets_full: "LF \<notin> set s \<Longrightarrow> fgets (length s) (s @ r) = (s, r)"
  by (induction s) auto

text \<open>A buffer that holds the string and its end.\<close>

definition holds_string :: "string \<Rightarrow> string \<Rightarrow> bool" where
  "holds_string dest s \<longleftrightarrow> length s < length dest \<and> take (length s + 1) dest = s @ [NUL]"

lemma cut_line_ok:
  assumes "NUL \<notin> set s" "LF \<notin> set s" "length s < length dest" "take (length s) dest = s" "dest ! length s \<in> {NUL, LF}"
  shows "\<exists>d. cut_line dest = Some (int (length s), d) \<and> holds_string d s \<and> length d = length dest"
proof -
  have e: "dest = s @ dest ! length s # drop (Suc (length s)) dest"
    using id_take_nth_drop [OF assms(3)] assms(4) by simp
  have "takeWhile (\<lambda>c. c \<noteq> NUL \<and> c \<noteq> LF) (s @ dest ! length s # drop (Suc (length s)) dest) = s"
    by (subst takeWhile_append2) (use assms in auto)
  then have "takeWhile (\<lambda>c. c \<noteq> NUL \<and> c \<noteq> LF) dest = s" using e by metis
  moreover have "take (length s + 1) (dest[length s := NUL]) = s @ [NUL]"
    using assms(3,4) by (simp add: take_Suc_conv_app_nth)
  ultimately show ?thesis using assms(3) by (simp add: cut_line_def holds_string_def Let_def)
qed

lemma utils_read_string_ok:
  assumes "\<not> refused S p" and "at S p = Some (File (s @ [LF]))" and "NUL \<notin> set s" and "LF \<notin> set s" and "s \<noteq> []"
    and "length s < sz" and "sz \<le> length dest"
  obtains d where "utils_file_read_string p dest sz S = Some (int (length s), d, S)" and "holds_string d s"
proof -
  obtain S' fd where r: "sys_open O_RDONLY p S = (int fd, S')" "stream_rest (int fd) S' = s @ [LF]" "sys_close (int fd) S' = S"
    using read_state [OF assms(1,2), of 0] by (metis zero_le)
  obtain line rest where f: "fgets (sz - 1) (s @ [LF]) = (line, rest)" "line \<noteq> []" "length line < sz" "take (length s) line = s"
      "line = s \<or> line = s @ [LF]"
  proof (cases "length s = sz - 1")
    case True
    then have "fgets (sz - 1) (s @ [LF]) = (s, [LF])" using fgets_full [OF assms(4)] by metis
    with True assms(5,6) show thesis using that [of s] by simp
  next
    case False
    with assms(6) have "fgets (sz - 1) (s @ [LF]) = (s @ [LF], [])" using fgets_line [OF assms(4), of "sz - 1" "[]"] by simp
    with False assms(6) show thesis using that [of "s @ [LF]"] by simp
  qed
  have "\<exists>d. cut_line (line @ NUL # drop (length line + 1) dest) = Some (int (length s), d) \<and> holds_string d s \<and>
      length d = length (line @ NUL # drop (length line + 1) dest)"
    by (rule cut_line_ok) (use f(5) assms(3,4) in \<open>auto simp: nth_append\<close>)
  then obtain d where "cut_line (line @ NUL # drop (length line + 1) dest) = Some (int (length s), d)" "holds_string d s" by blast
  with r f assms(6,7) show thesis
    by (intro that [of d]) (auto simp: utils_file_read_string_def fopen_r_def c_assert_def)
qed

lemma sys_read_string_ok:
  assumes "\<not> refused S p" and "at S p = Some (File (s @ [LF]))" and "LF \<notin> set s" and "length s < sz" and "sz \<le> length dest"
    and "sz \<le> MAX_RW"
  obtains d where "sys_file_read_string p dest sz S = Some (int (length s), d, S)" and "holds_string d s"
proof -
  define b where "b = take (sz - 1) (s @ [LF])"
  obtain S' S2 fd where r: "sys_open O_RDONLY p S = (int fd, S')" "sys_read (int fd) (sz - 1) S' = (Some b, S2)" "sys_close (int fd) S2 = S"
    unfolding b_def by (rule read_state [OF assms(1,2), of "sz - 1"]) (use assms(6) in auto)
  have sb: "b = s \<or> b = s @ [LF]" using assms(4) by (cases "length s = sz - 1") (auto simp: b_def)
  have lb: "length b \<le> length dest" "sz \<noteq> 0" using assms(4,5) by (auto simp: b_def)
  have "takeWhile (\<lambda>c. c \<noteq> LF) (s @ [LF]) = s" by (subst takeWhile_append2) (use assms(3) in auto)
  moreover have "takeWhile (\<lambda>c. c \<noteq> LF) s = s" by (rule takeWhile_eq_all_conv [THEN iffD2]) (use assms(3) in auto)
  ultimately have tw: "takeWhile (\<lambda>c. c \<noteq> LF) b = s" using sb by auto
  define d where "d = b @ drop (length b) dest"
  have d: "take (length b) d = b" "take (length s) d = s" "length s < length d" using sb assms(4,5) lb by (auto simp: d_def b_def)
  define e where "e = d[length s := NUL]"
  have "take (Suc (length s)) e = take (length s) e @ [e ! length s]" using d(3) by (intro take_Suc_conv_app_nth) (simp add: e_def)
  then have "holds_string e s" using d by (simp add: holds_string_def e_def)
  moreover have "sys_file_read_string p dest sz S = Some (int (length s), e, S)"
    using r lb d(1,3) tw by (simp add: sys_file_read_string_def Let_def d_def [symmetric] e_def [symmetric])
  ultimately show thesis using that by blast
qed

section \<open>Properties\<close>

text \<open>A system with the three standard descriptors, a file and a directory.\<close>

definition demo_os :: os where
  "demo_os = \<lparr>names = [(''/tmp/a'', 1), (''/tmp'', 2)], inodes = (\<lambda>_. Dir)(0 := File [], 1 := File ''old''), next_ino = 3,
     refused = (\<lambda>_. False), room = 100,
     fds = [(0, \<lparr>fd_ino = 0, fd_pos = 0, fd_append = False\<rparr>), (1, \<lparr>fd_ino = 0, fd_pos = 0, fd_append = False\<rparr>),
            (2, \<lparr>fd_ino = 0, fd_pos = 0, fd_append = False\<rparr>)]\<rparr>"

lemma demo_os_ok: "os_wf demo_os" "writable demo_os ''/tmp/a''" "0 \<in> fst ` set (fds demo_os)" "room demo_os = 100"
    "at demo_os ''/tmp/a'' = Some (File ''old'')" "at demo_os ''/tmp'' = Some Dir" "\<not> refused demo_os p"
  by (auto simp: demo_os_def os_wf_def writable_def at_def split: if_splits)

lemma puts_readable: "puts p s S S' \<Longrightarrow> writable S p \<Longrightarrow> \<not> refused S' p \<and> at S' p = Some (File s) \<and> fds S' = fds S"
  by (simp add: puts_def writable_def)

text \<open>
  A number written to a file that may be written, by either family of functions, replaces exactly that file's content
  and is read back by both, with every descriptor returned.
\<close>

theorem file_integer_roundtrip:
  assumes "os_wf S" and "writable S p" and "is_int i" and "12 \<le> room S" and "12 \<le> acc" and "0 \<in> fst ` set (fds S)"
  shows "\<exists>S1 S2. utils_file_write_integer acc p i S = Some (1, S1) \<and> sys_file_write_integer p i S = Some (1, S2) \<and>
    puts p (show_int i @ [LF]) S S1 \<and> puts p (show_int i @ [LF]) S S2 \<and>
    utils_file_read_integer p d S1 = (i, S1) \<and> sys_file_read_integer p d S1 = Some (i, S1) \<and>
    utils_file_read_integer p d S2 = (i, S2) \<and> sys_file_read_integer p d S2 = Some (i, S2)"
proof -
  obtain S1 where 1: "utils_file_write_integer acc p i S = Some (1, S1)" "puts p (show_int i @ [LF]) S S1"
    using utils_write_integer_puts [OF assms(1-5)] .
  obtain S2 where 2: "sys_file_write_integer p i S = Some (1, S2)" "puts p (show_int i @ [LF]) S S2"
    using write_number_puts [OF assms(1-4), of O_REPLACE] by (auto simp: sys_file_write_integer_def O_REPLACE_def)
  note rd = utils_read_number [OF _ _ assms(3)] sys_read_number [OF _ _ assms(3)]
  from puts_readable [OF 1(2) assms(2)] puts_readable [OF 2(2) assms(2)] 1 2 assms(6) show ?thesis by (simp add: rd)
qed

theorem file_integer_roundtrip_witness:
  "\<exists>S1 S2. utils_file_write_integer 4096 ''/tmp/a'' (- 7) demo_os = Some (1, S1) \<and> sys_file_write_integer ''/tmp/a'' (- 7) demo_os = Some (1, S2) \<and>
    puts ''/tmp/a'' (show_int (- 7) @ [LF]) demo_os S1 \<and> puts ''/tmp/a'' (show_int (- 7) @ [LF]) demo_os S2 \<and>
    utils_file_read_integer ''/tmp/a'' 0 S1 = (- 7, S1) \<and> sys_file_read_integer ''/tmp/a'' 0 S1 = Some (- 7, S1) \<and>
    utils_file_read_integer ''/tmp/a'' 0 S2 = (- 7, S2) \<and> sys_file_read_integer ''/tmp/a'' 0 S2 = Some (- 7, S2)"
  by (rule file_integer_roundtrip) (use demo_os_ok in \<open>auto simp: is_int_def\<close>)

text \<open>
  C32: a string without line ends written to a file, by either family, is that file's line and is read back by both into
  any buffer that has room for it; appending keeps what the file had.
\<close>

theorem file_string_roundtrip:
  assumes "os_wf S" and "writable S p" and "s \<noteq> []" and "NUL \<notin> set s" and "LF \<notin> set s" and "length s + 1 \<le> room S"
    and "length s \<le> acc" and "0 < acc2" and "length s < sz" and "sz \<le> length dest" and "sz \<le> MAX_RW"
  shows "\<exists>S1 S2 S3. utils_file_write_string acc acc2 p s (length s) S = Some (1, S1) \<and> puts p (s @ [LF]) S S1 \<and>
    sys_file_write_string p s (length s) S = Some (1, S2) \<and> puts p (s @ [LF]) S S2 \<and>
    utils_file_append_string acc acc2 p s (length s) S = Some (1, S3) \<and> puts p (old_text S p @ s @ [LF]) S S3 \<and>
    (\<forall>S' \<in> {S1, S2}. (\<exists>e. utils_file_read_string p dest sz S' = Some (int (length s), e, S') \<and> holds_string e s) \<and>
       (\<exists>e. sys_file_read_string p dest sz S' = Some (int (length s), e, S') \<and> holds_string e s))"
proof -
  have m: "length s + 1 \<le> MAX_RW" using assms(9,11) by simp
  obtain S1 where 1: "utils_file_write_string acc acc2 p s (length s) S = Some (1, S1)" "puts p (s @ [LF]) S S1"
    using stream_string_puts [OF assms(1,2) _ assms(6) m _ assms(7,8), of s O_REPLACE] assms(3)
    by (auto simp: utils_file_write_string_def fopen_w_def O_REPLACE_def)
  obtain S2 where 2: "sys_file_write_string p s (length s) S = Some (1, S2)" "puts p (s @ [LF]) S S2"
    using sys_write_string_puts [OF assms(1,2) _ assms(6) m, of s] by auto
  obtain S3 where 3: "utils_file_append_string acc acc2 p s (length s) S = Some (1, S3)" "puts p (old_text S p @ s @ [LF]) S S3"
    using stream_string_puts [OF assms(1,2) _ assms(6) m _ assms(7,8), of s O_APPEND] assms(3)
    by (auto simp: utils_file_append_string_def fopen_a_def O_APPEND_def)
  have "(\<exists>e. utils_file_read_string p dest sz S' = Some (int (length s), e, S') \<and> holds_string e s) \<and>
       (\<exists>e. sys_file_read_string p dest sz S' = Some (int (length s), e, S') \<and> holds_string e s)" if "puts p (s @ [LF]) S S'" for S'
    using puts_readable [OF that assms(2)] utils_read_string_ok [of S' p s sz dest] sys_read_string_ok [of S' p s sz dest] assms(3-5,9-11)
    by metis
  with 1 2 3 show ?thesis by auto
qed

theorem file_string_roundtrip_witness:
  "\<exists>S1 S2 S3. utils_file_write_string 4096 4096 ''/tmp/a'' ''net up'' (length ''net up'') demo_os = Some (1, S1) \<and>
    puts ''/tmp/a'' (''net up'' @ [LF]) demo_os S1 \<and>
    sys_file_write_string ''/tmp/a'' ''net up'' (length ''net up'') demo_os = Some (1, S2) \<and> puts ''/tmp/a'' (''net up'' @ [LF]) demo_os S2 \<and>
    utils_file_append_string 4096 4096 ''/tmp/a'' ''net up'' (length ''net up'') demo_os = Some (1, S3) \<and>
    puts ''/tmp/a'' (old_text demo_os ''/tmp/a'' @ ''net up'' @ [LF]) demo_os S3 \<and>
    (\<forall>S' \<in> {S1, S2}. (\<exists>e. utils_file_read_string ''/tmp/a'' (replicate 8 NUL) 7 S' = Some (int (length ''net up''), e, S') \<and> holds_string e ''net up'') \<and>
       (\<exists>e. sys_file_read_string ''/tmp/a'' (replicate 8 NUL) 7 S' = Some (int (length ''net up''), e, S') \<and> holds_string e ''net up''))"
  by (rule file_string_roundtrip) (use demo_os_ok in \<open>auto simp: NUL_def LF_def MAX_RW_def\<close>)

text \<open>
  A name that can be opened but not read, such as a directory: \<open>utils_file_read_string\<close> answers - 1, while
  \<open>sys_file_read_string\<close> takes the error for a length and, unless the caller's buffer happens to hold a newline, runs past its end.
\<close>

theorem read_string_of_directory:
  assumes "\<not> refused S p" and "at S p = Some Dir" and "2 \<le> sz" and "LF \<notin> set dest" and "length dest < 2 ^ 32"
  shows "utils_file_read_string p dest sz S = Some (- 1, dest, S) \<and> sys_file_read_string p dest sz S = None"
proof -
  let ?fd = "free_fd (fds S)" and ?d = "\<lambda>i. \<lparr>fd_ino = i, fd_pos = 0, fd_append = False\<rparr>"
  obtain i where i: "map_of (names S) p = Some i" "inodes S i = Dir" using assms(2) by (auto simp: at_def)
  have o: "sys_open O_RDONLY p S = (int ?fd, S\<lparr>fds := (?fd, ?d i) # fds S\<rparr>)"
    using assms(1) i by (simp add: sys_open_def O_RDONLY_def add_fd_def)
  have "length (takeWhile (\<lambda>c. c \<noteq> LF) dest) = length dest"
    by (rule arg_cong [where f = length], rule takeWhile_eq_all_conv [THEN iffD2]) (use assms(4) in auto)
  then have "sys_file_read_string p dest sz S = None"
    using o i assms(5) by (simp add: sys_file_read_string_def sys_read_def Let_def)
  moreover have "fgets (sz - 1) [] = ([], [])" using assms(3) by (cases "sz - 1") auto
  ultimately show ?thesis using o i assms(3) by (simp add: utils_file_read_string_def fopen_r_def stream_rest_def sys_close_def)
qed

theorem read_string_of_directory_witness:
  "utils_file_read_string ''/tmp'' (replicate 8 NUL) 8 demo_os = Some (- 1, replicate 8 NUL, demo_os) \<and>
   sys_file_read_string ''/tmp'' (replicate 8 NUL) 8 demo_os = None"
  by (rule read_string_of_directory) (use demo_os_ok in \<open>auto simp: NUL_def LF_def\<close>)

text \<open>A write that the stream accepts is reported as done although nothing of it fits on the device.\<close>

theorem utils_write_full_device:
  assumes "os_wf S" and "writable S p" and "at S p = None" and "room S = 0" and "is_int i" and "12 \<le> acc"
  shows "\<exists>S'. utils_file_write_integer acc p i S = Some (1, S') \<and> at S' p = Some (File [])"
proof -
  have l: "length (show_int i @ [LF]) \<le> 12" using number_read [OF assms(5)] by simp
  have n: "map_of (names S) p = None" using assms(3) by (simp add: at_def)
  then show ?thesis using assms(2,4,6) l
    by (auto simp: utils_file_write_integer_def fopen_w_def sys_open_def O_REPLACE_def add_fd_def fwrite_def fclose_def fflush_def
        sys_write_def file_put_def sys_close_def at_def c_assert_def writable_def Let_def)
qed

theorem utils_write_full_device_witness:
  "\<exists>S'. utils_file_write_integer 4096 ''/tmp/b'' 5 (demo_os\<lparr>room := 0\<rparr>) = Some (1, S') \<and> at S' ''/tmp/b'' = Some (File [])"
  by (rule utils_write_full_device) (auto simp: demo_os_def os_wf_def writable_def at_def is_int_def split: if_splits)

lemma close_commute: "sys_close a (sys_close b S) = sys_close b (sys_close a S)"
  by (simp add: sys_close_def AList.delete_eq conj_commute)

text \<open>Copying: the source must not be empty, because an empty mapping is refused.\<close>

theorem utils_file_copy_correct:
  assumes "os_wf S" and "\<not> refused S src" and "at S src = Some (File c)" and "writable S dst" and "src \<noteq> dst"
    and "length c \<le> room S" and "length c \<le> MAX_RW"
  shows "if c = [] then \<exists>S'. utils_file_copy src dst S = (- 1, S') \<and> puts dst [] S S'
    else \<exists>S'. utils_file_copy src dst S = (0, S') \<and> puts dst c S S'"
proof -
  let ?s = "free_fd (fds S)"
  obtain i where i: "map_of (names S) src = Some i" "inodes S i = File c" using assms(3) by (auto simp: at_def)
  define S1 where "S1 = S\<lparr>fds := (?s, \<lparr>fd_ino = i, fd_pos = 0, fd_append = False\<rparr>) # fds S\<rparr>"
  have o: "sys_open O_RDONLY src S = (int ?s, S1)" using assms(2) i by (simp add: sys_open_def O_RDONLY_def add_fd_def S1_def)
  have wf1: "os_wf S1"
    by (rule os_wf_fds [OF assms(1)]) (use free_fd_new [of "fds S"] old_ino [OF assms(1) i(1)] in \<open>auto simp: S1_def\<close>)
  have w1: "writable S1 dst" using assms(4) by (simp add: writable_def at_def S1_def)
  obtain S2 j t where t: "sys_open O_REPLACE dst S1 = (int t, S2)" "t = free_fd (fds S1)"
      "fds S2 = (t, \<lparr>fd_ino = j, fd_pos = 0, fd_append = False\<rparr>) # fds S1" "map_of (names S2) dst = Some j" "inodes S2 j = File []"
      "\<And>q. q \<noteq> dst \<Longrightarrow> at S2 q = at S1 q" "os_wf S2" "refused S2 = refused S1" "room S1 \<le> room S2"
      "\<And>q. q \<noteq> dst \<Longrightarrow> map_of (names S2) q = map_of (names S1) q"
    by (rule opened_for_writing [OF wf1 w1, of O_REPLACE]) (auto simp: O_REPLACE_def)
  have ts: "t \<noteq> ?s" using t(2) free_fd_new [of "fds S1"] by (auto simp: S1_def)
  have "inodes S2 i = File c" using t(6,10) [of src] assms(5) i by (simp add: at_def S1_def)
  then have mm: "mmap_file (int ?s) S2 = (if c = [] then None else Some c)"
    using t(3) ts by (auto simp: mmap_file_def stream_rest_def S1_def Let_def)
  note copy = utils_file_copy_def o t(1) mm
  have fin: "puts dst v S (sys_close (int t) (sys_close (int ?s) S'))"
    if "fds S' = (t, d) # fds S1" "os_wf S'" "map_of (names S') dst = Some j" "inodes S' j = File v"
      "\<And>q. q \<noteq> dst \<Longrightarrow> at S' q = at S1 q" "refused S' = refused S1" for S' d v
    by (rule closed [where d = d and i = j])
      (use that ts free_fd_new [of "fds S"] in \<open>auto simp: sys_close_def S1_def os_wf_def at_def\<close>)
  show ?thesis
  proof (cases "c = []")
    case True
    with fin [OF t(3,7,4,5,6,8)] show ?thesis by (simp add: copy)
  next
    case False
    obtain S3 where w: "sys_write (int t) c S2 = (int (length c), S3)" "map_of (names S3) dst = Some j" "inodes S3 j = File c"
        "\<And>q. q \<noteq> dst \<Longrightarrow> at S3 q = at S2 q" "os_wf S3" "refused S3 = refused S2"
        "fds S3 = (t, \<lparr>fd_ino = j, fd_pos = length c, fd_append = False\<rparr>) # fds S1"
      by (rule written [OF t(3), of dst "[]" c]) (use t(4,5,7,9) assms(6,7) in \<open>auto simp: S1_def\<close>)
    have "puts dst c S (sys_close (int t) (sys_close (int ?s) S3))"
      by (rule fin [OF w(7,5,2,3)]) (use w(4,6) t(6,8) in auto)
    with False w(1) close_commute [of "int ?s" "int t" S3] show ?thesis by (simp add: copy)
  qed
qed

theorem utils_file_copy_correct_witness:
  "if ''old'' = [] then \<exists>S'. utils_file_copy ''/tmp/a'' ''/tmp/b'' demo_os = (- 1, S') \<and> puts ''/tmp/b'' [] demo_os S'
    else \<exists>S'. utils_file_copy ''/tmp/a'' ''/tmp/b'' demo_os = (0, S') \<and> puts ''/tmp/b'' ''old'' demo_os S'"
  by (rule utils_file_copy_correct) (use demo_os_ok in \<open>auto simp: MAX_RW_def demo_os_def writable_def at_def\<close>)

text \<open>With descriptor 0 free \<open>sys_file_read_integer\<close> answers the default for a file it has opened, and keeps it open.\<close>

lemma sys_read_integer_zero_fd:
  assumes "\<not> refused S p" and "at S p = Some (File c)" and "free_fd (fds S) = 0"
  shows "\<exists>S' e. sys_file_read_integer p d S = Some (d, S') \<and> fds S' = (0, e) # fds S"
proof -
  obtain S' e where "sys_open O_RDONLY p S = (int (free_fd (fds S)), S')" "fds S' = (free_fd (fds S), e) # fds S"
    using opened_for_reading [OF assms(1,2)] by metis
  with assms(3) show ?thesis by (simp add: sys_file_read_integer_def)
qed

end
