(* ===== verification/Generic_Proc.thy ===== *)
theory Generic_Proc
  imports File_Sys
begin

text \<open>
  \<open>common/generic_proc.c\<close>: names of processes as \<open>/proc\<close> shows them, the walk over all processes, and files that hold a
  process id. What \<open>/proc\<close> has for a process is \<open>proc_info\<close>; a buffer that receives a name is given by the string in it.
\<close>

section \<open>What the kernel shows of a process\<close>

datatype pfile = No_open | Bad_read | Text string

record proc_info =
  pi_cmdline :: pfile
  pi_comm :: pfile
  pi_exe :: "string option"

text \<open>\<open>snprintf (buf, size, "%s", s)\<close> into a buffer that is not empty: the string that is left in it; the answer is the length of \<open>s\<close>.\<close>

definition put_string :: "nat \<Rightarrow> string \<Rightarrow> string" where
  "put_string sz s = take (sz - 1) s"

text \<open>\<open>readlink\<close>: as many bytes as fit, without an end.\<close>

definition sys_readlink :: "string option \<Rightarrow> nat \<Rightarrow> string option" where
  "sys_readlink l sz = map_option (take sz) l"

section \<open>Names\<close>

definition process_exe :: "proc_info \<Rightarrow> nat \<Rightarrow> int \<times> string" where
  "process_exe I sz =
     (case sys_readlink (pi_exe I) sz of
        None \<Rightarrow> (- 1, [])
      | Some s \<Rightarrow> if sz \<le> length s then (- 1, []) else (int (length s), s))"

text \<open>The loop that enlarges the buffer; \<open>mem\<close> answers whether so many bytes can be had. \<open>None\<close> when the link cannot be read into it.\<close>

function exe_loop :: "(nat \<Rightarrow> bool) \<Rightarrow> string \<Rightarrow> nat \<Rightarrow> string option" where
  "exe_loop mem l bsize =
     (let ssize = length (take bsize l) in
      if bsize \<le> ssize then if mem (bsize + 80) then exe_loop mem l (bsize + 80) else None
      else Some (take bsize l))"
  by auto
termination by (relation "measure (\<lambda>(mem, l, bsize). length l + 1 - bsize)") auto

declare exe_loop.simps [simp del]

definition process_exename :: "(nat \<Rightarrow> bool) \<Rightarrow> proc_info \<Rightarrow> nat \<Rightarrow> string \<Rightarrow> (int \<times> string) option" where
  "process_exename mem I sz buf =
     (case pi_exe I of
        None \<Rightarrow> Some (- 1, buf)
      | Some l \<Rightarrow>
          (case exe_loop mem l 1024 of
             None \<Rightarrow> Some (- 1, buf)
           | Some exe \<Rightarrow> do {
               name \<leftarrow> (case strrchr (CHR ''/'') (c_str exe) of
                   Some r \<Rightarrow> Some r
                 | None \<Rightarrow> (case c_str exe of [] \<Rightarrow> None | ch # r \<Rightarrow> Some r));
               Some (if length name \<ge> sz then - 1 else int (length name), put_string sz name)
             }))"

definition TASK_COMM :: nat where "TASK_COMM = 15"

text \<open>The first word of the command line after its last slash.\<close>

definition word_name :: "string \<Rightarrow> string" where
  "word_name temp =
     (let t = (case strchr SP temp of Some (l, r) \<Rightarrow> l | None \<Rightarrow> temp)
      in case strrchr (CHR ''/'') t of Some r \<Rightarrow> r | None \<Rightarrow> t)"

definition comm_name :: "(nat \<Rightarrow> bool) \<Rightarrow> proc_info \<Rightarrow> nat \<Rightarrow> string \<Rightarrow> (int \<times> string) option" where
  "comm_name mem I sz buf =
     (case pi_comm I of
        Text t \<Rightarrow>
          let temp = take 1023 t;
              comm = (if temp \<noteq> [] \<and> last temp = LF then butlast temp else temp) in
          if temp \<noteq> [] \<and> sz \<le> length comm then Some (- 1, buf)
          else
            let buf = (if temp \<noteq> [] then c_str comm else buf) in
            if 0 < length comm \<and> length comm < TASK_COMM then Some (int (length comm), buf)
            else do {
              (exesize, buf) \<leftarrow> process_exename mem I sz buf;
              Some (if exesize > 0 then exesize else int (length comm), buf)
            }
      | _ \<Rightarrow> Some (- 1, buf))"

definition process_name :: "(nat \<Rightarrow> bool) \<Rightarrow> proc_info \<Rightarrow> nat \<Rightarrow> string \<Rightarrow> (int \<times> string) option" where
  "process_name mem I sz buf =
     (case pi_cmdline I of
        No_open \<Rightarrow> Some (- 1, buf)
      | Text t \<Rightarrow>
          if t \<noteq> []
          then let s = word_name (c_str (take 1023 t)) in Some (if length s \<ge> sz then - 1 else int (length s), put_string sz s)
          else comm_name mem I sz buf
      | Bad_read \<Rightarrow> comm_name mem I sz buf)"

section \<open>All processes\<close>

text \<open>\<open>dir\<close> are the entries of \<open>/proc\<close> in the order \<open>readdir\<close> gives them, \<open>None\<close> when it cannot be opened.\<close>

definition is_digital :: "string \<Rightarrow> bool" where
  "is_digital s \<longleftrightarrow> list_all is_digit s"

fun each_pid :: "(int \<Rightarrow> 's \<Rightarrow> int \<times> 's) \<Rightarrow> string list \<Rightarrow> 's \<Rightarrow> int \<times> 's" where
  "each_pid action [] s = (0, s)"
| "each_pid action (d # ds) s =
     (if \<not> is_digital d then each_pid action ds s
      else case action (atoi d) s of (ret, s) \<Rightarrow> if ret = 0 then each_pid action ds s else (ret, s))"

definition for_each_pid :: "(int \<Rightarrow> 's \<Rightarrow> int \<times> 's) \<Rightarrow> string list option \<Rightarrow> 's \<Rightarrow> int \<times> 's" where
  "for_each_pid action dir s = (case dir of None \<Rightarrow> (- 1, s) | Some ds \<Rightarrow> each_pid action ds s)"

definition PROCESS_NAME_MAX :: nat where "PROCESS_NAME_MAX = 64"

type_synonym proc_fs = "int \<Rightarrow> proc_info"

fun each_process ::
    "(nat \<Rightarrow> bool) \<Rightarrow> proc_fs \<Rightarrow> (string \<Rightarrow> int \<Rightarrow> 's \<Rightarrow> int \<times> 's) \<Rightarrow> string list \<Rightarrow> string \<Rightarrow> 's \<Rightarrow> (int \<times> 's) option" where
  "each_process mem P action [] name s = Some (0, s)"
| "each_process mem P action (d # ds) name s =
     (if \<not> is_digital d then each_process mem P action ds name s
      else do {
        (r, name) \<leftarrow> process_name mem (P (atoi d)) PROCESS_NAME_MAX name;
        if r < 0 then each_process mem P action ds name s
        else case action name (atoi d) s of (ret, s) \<Rightarrow>
          if ret = 0 then each_process mem P action ds name s else Some (ret, s)
      })"

text \<open>\<open>name\<close> is what the buffer on the stack holds at first.\<close>

definition for_each_process ::
    "(nat \<Rightarrow> bool) \<Rightarrow> proc_fs \<Rightarrow> (string \<Rightarrow> int \<Rightarrow> 's \<Rightarrow> int \<times> 's) \<Rightarrow> string list option \<Rightarrow> string \<Rightarrow> 's \<Rightarrow> (int \<times> 's) option" where
  "for_each_process mem P action dir name s =
     (case dir of None \<Rightarrow> Some (- 1, s) | Some ds \<Rightarrow> each_process mem P action ds name s)"

definition find_action :: "string \<Rightarrow> string \<Rightarrow> int \<Rightarrow> unit \<Rightarrow> int \<times> unit" where
  "find_action arg comm pid u = (if strcmp comm arg \<noteq> 0 then 0 else pid, u)"

definition process_find :: "(nat \<Rightarrow> bool) \<Rightarrow> proc_fs \<Rightarrow> string list option \<Rightarrow> string \<Rightarrow> string \<Rightarrow> int option" where
  "process_find mem P dir name0 name = map_option fst (for_each_process mem P (find_action name) dir name0 ())"

text \<open>\<open>killed\<close> answers the \<open>kill\<close> of a process; the state is the processes signalled.\<close>

definition kill_action :: "(int \<Rightarrow> int) \<Rightarrow> string \<Rightarrow> string \<Rightarrow> int \<Rightarrow> int list \<Rightarrow> int \<times> int list" where
  "kill_action killed arg comm pid sent = (if strcmp comm arg = 0 then (killed pid, sent @ [pid]) else (0, sent))"

definition process_kill :: "(nat \<Rightarrow> bool) \<Rightarrow> proc_fs \<Rightarrow> (int \<Rightarrow> int) \<Rightarrow> string list option \<Rightarrow> string \<Rightarrow> string \<Rightarrow> (int \<times> int list) option" where
  "process_kill mem P killed dir name0 name = for_each_process mem P (kill_action killed name) dir name0 []"

definition count_action :: "string \<Rightarrow> string \<Rightarrow> int \<Rightarrow> int \<Rightarrow> int \<times> int" where
  "count_action arg comm pid n = (0, if strcmp comm arg = 0 then n + 1 else n)"

definition process_count :: "(nat \<Rightarrow> bool) \<Rightarrow> proc_fs \<Rightarrow> string list option \<Rightarrow> string \<Rightarrow> string \<Rightarrow> int option" where
  "process_count mem P dir name0 name = map_option snd (for_each_process mem P (count_action name) dir name0 0)"

section \<open>Files that hold a process id\<close>

text \<open>\<open>lockf\<close> only delays the caller. \<open>other\<close> is what another thread does to the files between \<open>fclose\<close> and \<open>close\<close>.\<close>

definition process_pidfile_acquire :: "string option \<Rightarrow> os \<Rightarrow> int \<times> os" where
  "process_pidfile_acquire pidfile S =
     (case pidfile of None \<Rightarrow> (- 1, S) | Some p \<Rightarrow> sys_open \<lparr>o_write = True, o_creat = True, o_trunc = False, o_append = False\<rparr> p S)"

definition process_pidfile_write_release :: "int \<Rightarrow> bool \<Rightarrow> (os \<Rightarrow> os) \<Rightarrow> int \<Rightarrow> os \<Rightarrow> os" where
  "process_pidfile_write_release pid fdopen_ok other pid_fd S =
     (if pid_fd < 0 then S
      else let S = (if fdopen_ok then fclose pid_fd (show_int pid @ [LF]) S else S) in sys_close pid_fd (other S))"

definition process_pidfile_delete :: "string option \<Rightarrow> os \<Rightarrow> os" where
  "process_pidfile_delete pidfile S = (case pidfile of None \<Rightarrow> S | Some p \<Rightarrow> sys_unlink p S)"

text \<open>\<open>msleep\<close>: the time that \<open>select\<close> is given; it is called again, with the time that is left, as long as a signal interrupts it.\<close>

definition msleep_time :: "int \<Rightarrow> int \<times> int" where
  "msleep_time msec = (msec sdiv 1000, (msec smod 1000) * 1000)"

fun msleep :: "bool list \<Rightarrow> bool list option" where
  "msleep [] = None"
| "msleep (eintr # rs) = (if eintr then msleep rs else Some rs)"

end
