(* ===== verification/Proc_Properties.thy ===== *)
theory Proc_Properties
  imports Generic_Proc File_Properties
begin

text \<open>
  The walk over the processes calls the action with the processes that have a name, in order, until one answers; finding,
  counting and signalling follow. Names are the last component of the program's path.
\<close>

section \<open>The walk\<close>

text \<open>The processes for which the action is called when it never stops the walk.\<close>

fun proc_list :: "(nat \<Rightarrow> bool) \<Rightarrow> proc_fs \<Rightarrow> string list \<Rightarrow> string \<Rightarrow> (string \<times> int) list option" where
  "proc_list mem P [] name = Some []"
| "proc_list mem P (d # ds) name =
     (if \<not> is_digital d then proc_list mem P ds name
      else do {
        (r, name) \<leftarrow> process_name mem (P (atoi d)) PROCESS_NAME_MAX name;
        ps \<leftarrow> proc_list mem P ds name;
        Some (if r < 0 then ps else (name, atoi d) # ps)
      })"

fun act_until :: "(string \<Rightarrow> int \<Rightarrow> 's \<Rightarrow> int \<times> 's) \<Rightarrow> (string \<times> int) list \<Rightarrow> 's \<Rightarrow> int \<times> 's" where
  "act_until action [] s = (0, s)"
| "act_until action ((n, p) # ps) s = (case action n p s of (ret, s) \<Rightarrow> if ret = 0 then act_until action ps s else (ret, s))"

lemma each_process_list:
  "proc_list mem P ds name = Some ps \<Longrightarrow> each_process mem P action ds name s = Some (act_until action ps s)"
proof (induction mem P ds name arbitrary: ps s rule: proc_list.induct)
  case (2 mem P d ds name)
  show ?case
  proof (cases "is_digital d")
    case False
    with 2 show ?thesis by simp
  next
    case True
    with "2.prems" obtain r n qs where n: "process_name mem (P (atoi d)) PROCESS_NAME_MAX name = Some (r, n)"
        "proc_list mem P ds n = Some qs" "ps = (if r < 0 then qs else (n, atoi d) # qs)"
      by (auto split: bind_splits prod.splits)
    with "2.IH"(2) True show ?thesis by (auto split: prod.splits)
  qed
qed simp

lemma find_until: "fst (act_until (find_action name) ps u) = (case find (\<lambda>(n, p). n = name \<and> p \<noteq> 0) ps of Some (n, p) \<Rightarrow> p | None \<Rightarrow> 0)"
proof (induction ps)
  case (Cons x ps)
  then show ?case by (cases x) (simp add: find_action_def)
qed simp

lemma count_until: "act_until (count_action name) ps k = (0, k + int (length (filter (\<lambda>(n, p). n = name) ps)))"
  by (induction ps arbitrary: k) (auto simp: count_action_def)

text \<open>The processes signalled: those of the name up to the first that cannot be.\<close>

fun upto_failure :: "(int \<Rightarrow> int) \<Rightarrow> int list \<Rightarrow> int list" where
  "upto_failure killed [] = []"
| "upto_failure killed (p # ps) = p # (if killed p = 0 then upto_failure killed ps else [])"

lemma kill_until:
  "snd (act_until (kill_action killed name) ps sent) = sent @ upto_failure killed (map snd (filter (\<lambda>(n, p). n = name) ps))"
  by (induction ps arbitrary: sent) (auto simp: kill_action_def)

section \<open>Names\<close>

lemma c_str_cut: "NUL \<notin> set s \<Longrightarrow> r = [] \<or> hd r = NUL \<Longrightarrow> c_str (s @ r) = s"
proof -
  assume s: "NUL \<notin> set s" and r: "r = [] \<or> hd r = NUL"
  have "takeWhile (\<lambda>ch. ch \<noteq> NUL) r = []" using r by (cases r) auto
  then show ?thesis using s unfolding c_str_def by (subst takeWhile_append2) auto
qed

lemma word_name_path:
  assumes "SP \<notin> set d" and "SP \<notin> set b" and "CHR ''/'' \<notin> set b" and "r = [] \<or> hd r = SP"
  shows "word_name (d @ CHR ''/'' # b @ r) = b"
proof -
  have sl: "SP \<noteq> CHR ''/''" by (simp add: SP_def)
  have "(case strchr SP (d @ CHR ''/'' # b @ r) of Some (l, r) \<Rightarrow> l | None \<Rightarrow> d @ CHR ''/'' # b @ r) = d @ CHR ''/'' # b"
  proof (cases r)
    case Nil
    with assms(1,2) sl show ?thesis by simp
  next
    case (Cons c cs)
    with assms(4) have "d @ CHR ''/'' # b @ r = (d @ CHR ''/'' # b) @ SP # cs" by simp
    moreover have "strchr SP ((d @ CHR ''/'' # b) @ SP # cs) = Some (d @ CHR ''/'' # b, cs)"
      using assms(1,2) sl by (intro strchr_append) auto
    ultimately show ?thesis by simp
  qed
  then show ?thesis using assms(3) by (simp add: word_name_def Let_def)
qed

lemma exe_loop_ok: "\<forall>n. mem n \<Longrightarrow> exe_loop mem l n = Some l"
proof (induction "length l + 1 - n" arbitrary: n rule: less_induct)
  case less
  have "exe_loop mem l (n + 80) = Some l" if "n \<le> length l" using less that by simp
  then show ?case using less.prems by (subst exe_loop.simps) (simp add: Let_def)
qed

text \<open>The link to the program is a path.\<close>

definition path_of :: "string \<Rightarrow> string \<Rightarrow> string" where
  "path_of d b = d @ CHR ''/'' # b"

lemma process_exename_path:
  assumes "\<forall>n. mem n" and "pi_exe I = Some (path_of d b)" and "NUL \<notin> set d" and "NUL \<notin> set b" and "CHR ''/'' \<notin> set b"
  shows "process_exename mem I sz buf = Some (if sz \<le> length b then - 1 else int (length b), put_string sz b)"
proof -
  have "c_str (path_of d b) = path_of d b" using assms(3,4) by (intro c_str_id) (auto simp: path_of_def NUL_def)
  then show ?thesis using exe_loop_ok [OF assms(1), of "path_of d b"] assms(2,5)
    by (simp add: process_exename_def path_of_def)
qed

section \<open>Properties\<close>

text \<open>Three processes, among entries that are no processes.\<close>

definition demo_proc :: proc_fs where
  "demo_proc pid =
     (if pid = 10 then \<lparr>pi_cmdline = Text (''/bin/broker'' @ [NUL] @ ''-f'' @ [NUL]), pi_comm = Text (''broker'' @ [LF]), pi_exe = Some ''/bin/broker''\<rparr>
      else if pid = 11 then \<lparr>pi_cmdline = Text [], pi_comm = Text (''kworker'' @ [LF]), pi_exe = None\<rparr>
      else \<lparr>pi_cmdline = Text (''broker'' @ [NUL]), pi_comm = Text (''broker'' @ [LF]), pi_exe = Some ''/bin/broker''\<rparr>)"

definition demo_dir :: "string list" where "demo_dir = [''self'', ''10'', ''11'', ''12'']"

lemmas demo_proc_defs = demo_proc_def demo_dir_def is_digital_def is_digit_def byte_def atoi_def digits_value_def isspace_def process_name_def
  PROCESS_NAME_MAX_def word_name_def c_str_def strrchr_def NUL_def SP_def LF_def put_string_def comm_name_def TASK_COMM_def

lemma demo_procs: "proc_list (\<lambda>_. True) demo_proc demo_dir [] = Some [(''broker'', 10), (''kworker'', 11), (''broker'', 12)]"
  by (simp add: demo_proc_defs Let_def)

text \<open>
  When \<open>/proc\<close> shows the processes \<open>ps\<close>, \<open>process_find\<close> returns the first of the given name or 0, \<open>process_count\<close> counts
  them and \<open>process_kill\<close> signals them in order up to the first that cannot be signalled; without \<open>/proc\<close> the search answers - 1.
\<close>

theorem process_walk_correct:
  assumes "proc_list mem P dir name0 = Some ps"
  shows "process_find mem P (Some dir) name0 name = Some (case find (\<lambda>(n, p). n = name \<and> p \<noteq> 0) ps of Some (n, p) \<Rightarrow> p | None \<Rightarrow> 0) \<and>
    process_count mem P (Some dir) name0 name = Some (int (length (filter (\<lambda>(n, p). n = name) ps))) \<and>
    map_option snd (process_kill mem P killed (Some dir) name0 name) = Some (upto_failure killed (map snd (filter (\<lambda>(n, p). n = name) ps))) \<and>
    process_find mem P None name0 name = Some (- 1)"
  by (simp add: process_find_def process_count_def process_kill_def for_each_process_def each_process_list [OF assms] find_until
      count_until kill_until)

theorem process_walk_correct_witness:
  "process_find (\<lambda>_. True) demo_proc (Some demo_dir) [] ''broker'' = Some 10 \<and>
   process_count (\<lambda>_. True) demo_proc (Some demo_dir) [] ''broker'' = Some 2 \<and>
   map_option snd (process_kill (\<lambda>_. True) demo_proc (\<lambda>_. 0) (Some demo_dir) [] ''broker'') = Some [10, 12] \<and>
   process_find (\<lambda>_. True) demo_proc None [] ''broker'' = Some (- 1)"
  using process_walk_correct [OF demo_procs, of "''broker''" "\<lambda>_. 0"] by simp

text \<open>
  The name of a process started by a path is the last component of the path, as the command line or, for a process
  without one and with a name as long as the kernel keeps, the link to the program shows it. A name that does not fit is an error, except that in the second case the length of the
  kernel's name is returned while the buffer holds what fits of the longer one.
\<close>

theorem process_name_correct:
  assumes "\<forall>ch \<in> {NUL, SP}. ch \<notin> set d \<and> ch \<notin> set b" and "CHR ''/'' \<notin> set b" and "r = [] \<or> hd r \<in> {NUL, SP}"
    and "length (path_of d b) \<le> 1022" and "0 < length b" and "\<forall>n. mem n"
  shows "(pi_cmdline I = Text (path_of d b @ r) \<longrightarrow>
      process_name mem I sz buf = Some (if sz \<le> length b then - 1 else int (length b), put_string sz b)) \<and>
    (pi_cmdline I = Text [] \<and> pi_comm I = Text (take TASK_COMM b @ [LF]) \<and> TASK_COMM \<le> length b \<and> TASK_COMM < sz \<and> LF \<notin> set b \<and>
        pi_exe I = Some (path_of d b) \<longrightarrow>
      process_name mem I sz buf = Some (if sz \<le> length b then int TASK_COMM else int (length b), put_string sz b))"
proof (intro conjI impI)
  assume c: "pi_cmdline I = Text (path_of d b @ r)"
  let ?l = "1023 - length (path_of d b)"
  have t: "take 1023 (path_of d b @ r) = path_of d b @ take ?l r" using assms(4) by simp
  have nul: "NUL \<notin> set (path_of d b)" using assms(1) by (auto simp: path_of_def NUL_def)
  have "\<exists>r'. c_str (path_of d b @ take ?l r) = path_of d b @ r' \<and> (r' = [] \<or> hd r' = SP)"
  proof (cases "r = [] \<or> hd r = NUL")
    case True
    then have "c_str (path_of d b @ take ?l r) = path_of d b" using assms(4) by (intro c_str_cut nul) (cases r; auto)
    then show ?thesis by auto
  next
    case False
    then obtain cs where cs: "take ?l r = SP # cs" using assms(3,4) by (cases r) (auto simp: take_Cons')
    have "c_str (path_of d b @ SP # cs) = path_of d b @ SP # takeWhile (\<lambda>ch. ch \<noteq> NUL) cs"
      using nul unfolding c_str_def by (subst takeWhile_append2) (auto simp: SP_def NUL_def)
    then show ?thesis using cs by auto
  qed
  then obtain r' where "c_str (path_of d b @ take ?l r) = path_of d b @ r'" "r' = [] \<or> hd r' = SP" by blast
  with word_name_path [of d b r'] assms(1,2) t
  have "word_name (c_str (take 1023 (path_of d b @ r))) = b" by (simp add: path_of_def)
  moreover have "path_of d b @ r \<noteq> []" by (simp add: path_of_def)
  ultimately show "process_name mem I sz buf = Some (if sz \<le> length b then - 1 else int (length b), put_string sz b)"
    using c by (simp add: process_name_def Let_def)
next
  assume c: "pi_cmdline I = Text [] \<and> pi_comm I = Text (take TASK_COMM b @ [LF]) \<and> TASK_COMM \<le> length b \<and> TASK_COMM < sz \<and> LF \<notin> set b \<and>
        pi_exe I = Some (path_of d b)"
  have "process_exename mem I sz (c_str (take TASK_COMM b)) = Some (if sz \<le> length b then - 1 else int (length b), put_string sz b)"
    using process_exename_path [OF assms(6), of I d b sz] c assms(1,2) by simp
  moreover have "take 1023 (take TASK_COMM b @ [LF]) = take TASK_COMM b @ [LF]" by (simp add: TASK_COMM_def)
  ultimately show "process_name mem I sz buf = Some (if sz \<le> length b then int TASK_COMM else int (length b), put_string sz b)"
    using c assms(5) by (simp add: process_name_def comm_name_def Let_def)
qed

definition long_named :: proc_info where
  "long_named = \<lparr>pi_cmdline = Text [], pi_comm = Text (take TASK_COMM ''abcdefghijklmnopqrs'' @ [LF]), pi_exe = Some (path_of ''/bin'' ''abcdefghijklmnopqrs'')\<rparr>"

definition started_sh :: proc_info where
  "started_sh = \<lparr>pi_cmdline = Text (path_of ''/bin'' ''sh'' @ [NUL, CHR ''a'']), pi_comm = Text ''sh'', pi_exe = None\<rparr>"

theorem process_name_correct_witness:
  "process_name (\<lambda>_. True) started_sh 16 [] = Some (2, put_string 16 ''sh'') \<and>
   process_name (\<lambda>_. True) long_named 16 [] = Some (int TASK_COMM, put_string 16 ''abcdefghijklmnopqrs'')"
proof
  show "process_name (\<lambda>_. True) started_sh 16 [] = Some (2, put_string 16 ''sh'')"
    using process_name_correct [of "''/bin''" "''sh''" "[NUL, CHR ''a'']" "\<lambda>_. True" started_sh 16 "[]"]
    by (auto simp: started_sh_def path_of_def NUL_def SP_def)
  show "process_name (\<lambda>_. True) long_named 16 [] = Some (int TASK_COMM, put_string 16 ''abcdefghijklmnopqrs'')"
    using process_name_correct [of "''/bin''" "''abcdefghijklmnopqrs''" "[]" "\<lambda>_. True" long_named 16 "[]"]
    by (auto simp: long_named_def path_of_def NUL_def SP_def LF_def TASK_COMM_def)
qed

text \<open>
  The file of a process id that is written after being acquired holds the id in its first line, followed by what a longer old
  content leaves behind it; the id is read back, and every descriptor is returned.
\<close>

theorem pidfile_correct:
  assumes "os_wf S" and "writable S p" and "is_int pid" and "12 \<le> room S"
  shows "\<exists>fd S1 S2. process_pidfile_acquire (Some p) S = (int fd, S1) \<and>
    process_pidfile_write_release pid True id (int fd) S1 = S2 \<and>
    puts p (show_int pid @ LF # drop (length (show_int pid) + 1) (old_text S p)) S S2 \<and>
    utils_file_read_integer p d S2 = (pid, S2)"
proof -
  let ?fl = "\<lparr>o_write = True, o_creat = True, o_trunc = False, o_append = False\<rparr>" and ?c = "old_text S p"
  let ?t = "show_int pid @ [LF]"
  have t: "length ?t \<le> 12" using number_read [OF assms(3)] by simp
  obtain S1 i fd where o: "sys_open ?fl p S = (int fd, S1)" "fd = free_fd (fds S)"
      "fds S1 = (fd, \<lparr>fd_ino = i, fd_pos = 0, fd_append = False\<rparr>) # fds S" "map_of (names S1) p = Some i" "inodes S1 i = File ?c"
      "\<And>q. q \<noteq> p \<Longrightarrow> at S1 q = at S q" "os_wf S1" "refused S1 = refused S" "room S \<le> room S1"
    by (rule opened_for_writing [OF assms(1,2), of ?fl]) auto
  let ?c' = "?t @ drop (length ?t) ?c"
  let ?S2 = "S1\<lparr>inodes := (inodes S1)(i := File ?c'), room := room S1 - (length ?c' - length ?c),
    fds := (fd, \<lparr>fd_ino = i, fd_pos = length ?t, fd_append = False\<rparr>) # fds S\<rparr>"
  have w: "sys_write (int fd) ?t S1 = (int (length ?t), ?S2)"
    using o(3,5,9) t assms(4) by (auto simp: sys_write_def file_put_def Let_def MAX_RW_def)
  have "puts p ?c' S (sys_close (int fd) ?S2)"
  proof (rule closed)
    show "os_wf ?S2" using o(3,7) by (simp add: os_wf_def)
    show "at ?S2 q = at S q" if "q \<noteq> p" for q
      using o(6) [OF that] one_name [OF o(7,4), of q] that by (cases "map_of (names S1) q") (auto simp: at_def)
  qed (use o(4,8) in auto)
  moreover have "fds (sys_close (int fd) ?S2) = fds S" using o(2) by (simp add: sys_close_def)
  then have "sys_close (int fd) (sys_close (int fd) ?S2) = sys_close (int fd) ?S2" using o(2) by (simp add: sys_close_def)
  moreover have "process_pidfile_write_release pid True id (int fd) S1 = sys_close (int fd) (sys_close (int fd) ?S2)"
    using w by (simp add: process_pidfile_write_release_def fclose_def fflush_def)
  moreover have "utils_file_read_integer p d (sys_close (int fd) ?S2) = (pid, sys_close (int fd) ?S2)"
    by (rule utils_read_first_number [OF _ _ assms(3)])
      (use calculation(1) assms(2) in \<open>auto simp: puts_def writable_def\<close>)
  ultimately show ?thesis using o(1) by (auto simp: process_pidfile_acquire_def)
qed

theorem pidfile_correct_witness:
  "\<exists>fd S1 S2. process_pidfile_acquire (Some ''/tmp/a'') demo_os = (int fd, S1) \<and>
    process_pidfile_write_release 7 True id (int fd) S1 = S2 \<and>
    puts ''/tmp/a'' (show_int 7 @ LF # drop (length (show_int 7) + 1) (old_text demo_os ''/tmp/a'')) demo_os S2 \<and>
    utils_file_read_integer ''/tmp/a'' 0 S2 = (7, S2)"
  by (rule pidfile_correct) (use demo_os_ok in \<open>auto simp: is_int_def\<close>)

text \<open>
  The descriptor is closed by \<open>fclose\<close> and again by \<open>close\<close>: a file that another thread opens in between gets its number and
  is closed under that thread.
\<close>

theorem pidfile_closed_twice:
  assumes "process_pidfile_acquire (Some p) S = (int fd, S1)" and "fst (sys_open fl q (fclose (int fd) (show_int pid @ [LF]) S1)) \<ge> 0"
  shows "fst (sys_open fl q (fclose (int fd) (show_int pid @ [LF]) S1)) = int fd \<and>
    fds (process_pidfile_write_release pid True (\<lambda>S. snd (sys_open fl q S)) (int fd) S1) = fds S"
proof -
  have opn: "0 \<le> fst (sys_open fl p S) \<Longrightarrow> fst (sys_open fl p S) = int (free_fd (fds S)) \<and> (\<exists>d. fds (snd (sys_open fl p S)) = (free_fd (fds S), d) # fds S)"
    for fl p S by (auto simp: sys_open_def add_fd_def split: option.splits fnode.splits if_splits)
  let ?fl = "\<lparr>o_write = True, o_creat = True, o_trunc = False, o_append = False\<rparr>"
  have "sys_open ?fl p S = (int fd, S1)" using assms(1) by (simp add: process_pidfile_acquire_def)
  then have f: "fd = free_fd (fds S)" and "\<exists>d. fds S1 = (fd, d) # fds S" using opn [of ?fl p S] by auto
  then obtain d where d: "fds S1 = (fd, d) # fds S" by blast
  have "fds (fclose (int fd) s S1) = fds S" for s
    using d f fclose_fds by simp
  with opn [of fl q "fclose (int fd) (show_int pid @ [LF]) S1"] assms(2) f show ?thesis
    by (auto simp: process_pidfile_write_release_def sys_close_def Let_def)
qed

theorem pidfile_closed_twice_witness:
  "fst (sys_open O_RDONLY ''/tmp'' (fclose (int 3) (show_int 7 @ [LF]) (snd (process_pidfile_acquire (Some ''/tmp/a'') demo_os)))) = int 3 \<and>
    fds (process_pidfile_write_release 7 True (\<lambda>S. snd (sys_open O_RDONLY ''/tmp'' S)) (int 3) (snd (process_pidfile_acquire (Some ''/tmp/a'') demo_os)))
      = fds demo_os"
proof (rule pidfile_closed_twice)
  let ?S = "snd (process_pidfile_acquire (Some ''/tmp/a'') demo_os)"
  show "process_pidfile_acquire (Some ''/tmp/a'') demo_os = (int 3, ?S)"
    by (simp add: process_pidfile_acquire_def demo_os_def sys_open_def add_fd_def free_fd_def)
  have "map_of (names ?S) ''/tmp'' = Some 2" "inodes ?S 2 = Dir" "\<not> refused ?S ''/tmp''"
    by (simp_all add: process_pidfile_acquire_def demo_os_def sys_open_def add_fd_def)
  then show "0 \<le> fst (sys_open O_RDONLY ''/tmp'' (fclose (int 3) (show_int 7 @ [LF]) ?S))"
    by (simp add: sys_open_def O_RDONLY_def fclose_names add_fd_def)
qed

end
