(* ===== verification/Generic_Log.thy ===== *)
theory Generic_Log
  imports Generic_Proc
begin

text \<open>
  \<open>common/generic_log.c\<close> without its lock: lines of a log file, and the chain of backups that a file is moved to when it
  has grown over its size. The time and the message are given as the texts that \<open>strftime\<close> and \<open>vsnprintf\<close> produce.
\<close>

section \<open>Lines\<close>

definition LOG_FILE_PATH_MAX :: nat where "LOG_FILE_PATH_MAX = 255"
definition LOG_LINE_MAX :: nat where "LOG_LINE_MAX = 1024"

record logger_struct =
  file_size :: int
  file_bakup :: int
  file_path :: string

definition logger0 :: logger_struct where "logger0 = \<lparr>file_size = 0, file_bakup = 0, file_path = []\<rparr>"

text \<open>
  The length and the bytes of a line of at most \<open>line_max\<close> bytes. \<open>date\<close> is the time with a space after it, empty when 32 bytes are too few; \<open>body\<close> is the whole
  message, \<open>None\<close> for an encoding error, which counts \<open>- 1\<close>.
\<close>

definition format_line :: "nat \<Rightarrow> string \<Rightarrow> string option \<Rightarrow> int \<times> string" where
  "format_line line_max date body =
     (case body of
        None \<Rightarrow> (int (length date) - 1, date)
      | Some t \<Rightarrow>
          if length date + length t \<ge> line_max then (int line_max, take (line_max - 1) (date @ t) @ [LF])
          else (int (length (date @ t)), date @ t))"

definition log_format :: "string \<Rightarrow> string option \<Rightarrow> int \<times> string" where
  "log_format = format_line LOG_LINE_MAX"

text \<open>The name of the process, or the number of the thread.\<close>

definition log_pname :: "pfile \<Rightarrow> int \<Rightarrow> string" where
  "log_pname comm tid =
     (case comm of
        Text t \<Rightarrow>
          (let name = take 16 t
           in if name = [] then show_int tid else c_str (if last name = LF then butlast name else name))
      | _ \<Rightarrow> show_int tid)"

text \<open>\<open>fwrite\<close> of a line: all of its \<open>size\<close> bytes have to be in the buffer.\<close>

definition line_bytes :: "int \<times> string \<Rightarrow> string option" where
  "line_bytes l = (case l of (size_, buf) \<Rightarrow> if 0 \<le> size_ then Some (take (nat size_) buf) else None)"

text \<open>The position of an appending stream after it is flushed.\<close>

definition ftell :: "int \<Rightarrow> os \<Rightarrow> int" where
  "ftell fd S =
     (case map_of (fds S) (nat fd) of
        None \<Rightarrow> - 1
      | Some d \<Rightarrow> (case inodes S (fd_ino d) of Dir \<Rightarrow> - 1 | File c \<Rightarrow> int (length c)))"

definition samlog :: string where "samlog = ''/var/volatile/log/samlog.lk''"

definition log_debug :: "string \<Rightarrow> string option \<Rightarrow> os \<Rightarrow> os option" where
  "log_debug date body S =
     (case fopen_a samlog S of (io, S) \<Rightarrow>
        if io < 0 then Some S
        else if ftell io S < 32 * 1024 then do { l \<leftarrow> line_bytes (log_format date body); Some (fclose io l S) }
        else Some (fclose io [] S))"

section \<open>Backups\<close>

definition backup_name :: "string \<Rightarrow> nat \<Rightarrow> string" where
  "backup_name path i = path @ CHR ''.'' # show_nat i"

text \<open>
  The two names \<open>file\<close> are used in turns: \<open>file[n]\<close>, with \<open>n\<close> the lowest bit of \<open>i\<close>, is moved to the other one. The argument is
  \<open>i + 1\<close>.
\<close>

fun backup_loop :: "nat \<Rightarrow> bool \<Rightarrow> string \<Rightarrow> (bool \<Rightarrow> string) \<Rightarrow> os \<Rightarrow> bool \<times> (bool \<Rightarrow> string) \<times> os" where
  "backup_loop 0 n path file S = (n, file, S)"
| "backup_loop (Suc i) n path file S =
     (let n = odd i;
          file = file(n := backup_name path i);
          S = (if map_of (names S) (file n) \<noteq> None then snd (sys_rename (file n) (file (\<not> n)) S) else S)
      in backup_loop i n path file S)"

text \<open>What \<open>log_backup\<close> does between \<open>log_lock\<close> and \<open>log_unlock\<close>.\<close>

definition log_backup :: "int \<Rightarrow> int \<Rightarrow> string \<Rightarrow> os \<Rightarrow> os" where
  "log_backup fd bakup path S =
     (if fd_name fd S \<noteq> Some path then S
      else
        let i = nat (bakup - 1);
            n = odd i;
            file = (\<lambda>_. path)(n := backup_name path i)
        in case backup_loop i n path file S of (n, file, S) \<Rightarrow> snd (sys_rename path (file n) S))"

section \<open>Logging\<close>

text \<open>\<open>printf ("%s", buf)\<close>: the text on the terminal; a full line has no end.\<close>

definition generic_print :: "string \<Rightarrow> string option \<Rightarrow> string option" where
  "generic_print date body =
     (case log_format date body of (n, buf) \<Rightarrow> if length buf < LOG_LINE_MAX \<or> NUL \<in> set buf then Some (c_str buf) else None)"

definition print_line :: "nat \<Rightarrow> logger_struct \<Rightarrow> string \<Rightarrow> string option \<Rightarrow> os \<Rightarrow> os option" where
  "print_line line_max lg date body S =
     (case fopen_a (file_path lg) S of (io, S) \<Rightarrow>
        if io < 0 then Some S
        else do {
          l \<leftarrow> line_bytes (format_line line_max date body);
          let S = fflush io l S;
          let S = (if ftell io S > file_size lg
                   then if file_bakup lg > 0 then log_backup io (file_bakup lg) (file_path lg) S else sys_ftruncate io S
                   else S);
          Some (sys_close io S)
        })"

definition generic_log_print :: "logger_struct \<Rightarrow> string \<Rightarrow> string option \<Rightarrow> os \<Rightarrow> os option" where
  "generic_log_print = print_line LOG_LINE_MAX"

definition GENERIC_LOG_INIT :: "string \<Rightarrow> int \<Rightarrow> int \<Rightarrow> logger_struct \<Rightarrow> int \<times> logger_struct" where
  "GENERIC_LOG_INIT path sz count lg =
     (if length path > LOG_FILE_PATH_MAX then (- 1, lg)
      else (0, lg\<lparr>file_path := path, file_size := sz, file_bakup := count - 1\<rparr>))"

text \<open>The files afterwards and the text printed.\<close>

definition GENERIC_LOG :: "logger_struct \<Rightarrow> string \<Rightarrow> string option \<Rightarrow> os \<Rightarrow> (os \<times> string) option" where
  "GENERIC_LOG lg date body S =
     (if file_size lg > 0 then map_option (\<lambda>S. (S, [])) (generic_log_print lg date body S)
      else map_option (Pair S) (generic_print date body))"

definition SIMPLE_LOG :: "string \<Rightarrow> int \<Rightarrow> string \<Rightarrow> string option \<Rightarrow> os \<Rightarrow> os option" where
  "SIMPLE_LOG path sz date body S =
     (case fopen_a path S of (io, S) \<Rightarrow>
        if io < 0 then Some S
        else do {
          l \<leftarrow> line_bytes (log_format date body);
          let S = fflush io l S;
          let S = (if ftell io S > sz then log_backup io 1 path S else S);
          Some (sys_close io S)
        })"

end
