(* ===== verification/Log_Properties.thy ===== *)
theory Log_Properties
  imports Generic_Log File_Properties
begin

text \<open>
  The rotation of log files: every backup moves one place on, the file itself becomes the first one, a second writer that
  comes late does not rotate again, and the files stay within their bounds.
\<close>

section \<open>Names of backups\<close>

lemma backup_name_inj [simp]: "backup_name p i = backup_name p j \<longleftrightarrow> i = j"
  using show_nat_inj by (auto simp: backup_name_def)

lemma backup_name_path [simp]: "backup_name p i \<noteq> p" "p \<noteq> backup_name p i"
  by (simp_all add: backup_name_def)

section \<open>The loop\<close>

text \<open>One move and all moves from \<open>k - 1\<close> down to 0, on the map of names.\<close>

definition move_on :: "string \<Rightarrow> nat \<Rightarrow> (string \<rightharpoonup> nat) \<Rightarrow> (string \<rightharpoonup> nat)" where
  "move_on p i m = (case m (backup_name p i) of None \<Rightarrow> m | Some x \<Rightarrow> m(backup_name p i := None, backup_name p (Suc i) := Some x))"

fun moves_on :: "string \<Rightarrow> nat \<Rightarrow> (string \<rightharpoonup> nat) \<Rightarrow> (string \<rightharpoonup> nat)" where
  "moves_on p 0 m = m"
| "moves_on p (Suc i) m = moves_on p i (move_on p i m)"

lemma moves_on_other: "(\<And>j. j \<le> k \<Longrightarrow> q \<noteq> backup_name p j) \<Longrightarrow> moves_on p k m q = m q"
  by (induction k arbitrary: m) (auto simp: move_on_def split: option.split)

lemma moves_on_first: "0 < k \<Longrightarrow> moves_on p k m (backup_name p 0) = None"
proof (induction k arbitrary: m)
  case (Suc k)
  then show ?case by (cases k) (auto simp: move_on_def split: option.split)
qed simp

lemma moves_on_next:
  "0 < j \<Longrightarrow> j \<le> k \<Longrightarrow> moves_on p k m (backup_name p j) =
     (case m (backup_name p (j - 1)) of Some x \<Rightarrow> Some x | None \<Rightarrow> if j = k then m (backup_name p k) else None)"
proof (induction k arbitrary: m)
  case (Suc k)
  show ?case
  proof (cases "j = Suc k")
    case True
    then show ?thesis using moves_on_other [of k "backup_name p (Suc k)" p "move_on p k m"]
      by (auto simp: move_on_def split: option.split)
  next
    case False
    then have "moves_on p (Suc k) m (backup_name p j) =
        (case move_on p k m (backup_name p (j - 1)) of Some x \<Rightarrow> Some x | None \<Rightarrow> if j = k then move_on p k m (backup_name p k) else None)"
      using Suc by simp
    also have "move_on p k m (backup_name p (j - 1)) = m (backup_name p (j - 1))"
      using False Suc.prems by (auto simp: move_on_def split: option.split)
    also have "move_on p k m (backup_name p k) = None" by (simp add: move_on_def split: option.split)
    finally show ?thesis using False by (simp split: option.split)
  qed
qed simp

text \<open>Everything but the names stays.\<close>

definition same_files :: "os \<Rightarrow> os \<Rightarrow> bool" where
  "same_files S S' \<longleftrightarrow> inodes S' = inodes S \<and> fds S' = fds S \<and> refused S' = refused S \<and> room S' = room S \<and> next_ino S' = next_ino S"

lemma same_files_rename: "same_files S S' \<Longrightarrow> same_files S (snd (sys_rename old new S'))"
  by (simp add: same_files_def rename_rest)

lemma backup_loop_ok:
  assumes "os_wf S" and "n = odd k" and "fl n = backup_name p k"
  shows "\<exists>fl' S'. backup_loop k n p fl S = (False, fl', S') \<and> fl' False = backup_name p 0 \<and>
    map_of (names S') = moves_on p k (map_of (names S)) \<and> os_wf S' \<and> same_files S S'"
  using assms
proof (induction k arbitrary: n fl S)
  case 0
  then show ?case by (simp add: same_files_def)
next
  case (Suc k)
  let ?fl = "fl(odd k := backup_name p k)"
  let ?S = "if map_of (names S) (backup_name p k) \<noteq> None then snd (sys_rename (backup_name p k) (backup_name p (Suc k)) S) else S"
  have f: "?fl (\<not> odd k) = backup_name p (Suc k)" using Suc.prems by auto
  have w: "os_wf ?S" using Suc.prems(1) by (simp add: rename_wf)
  have "map_of (names ?S) = move_on p k (map_of (names S))"
    using rename_names [of S "backup_name p k" _ "backup_name p (Suc k)"] by (auto simp: move_on_def)
  moreover have "same_files S ?S" using same_files_rename [of S S] by (simp add: same_files_def)
  moreover have "backup_loop (Suc k) n p fl S = backup_loop k (odd k) p ?fl ?S" using f by (simp add: Let_def)
  ultimately show ?case using Suc.IH [OF w refl, of ?fl] by (fastforce simp: same_files_def)
qed

section \<open>The rotation\<close>

definition rotated :: "string \<Rightarrow> nat \<Rightarrow> (string \<rightharpoonup> nat) \<Rightarrow> (string \<rightharpoonup> nat) \<Rightarrow> bool" where
  "rotated p n m m' \<longleftrightarrow> m' p = None \<and> m' (backup_name p 0) = m p \<and>
     (\<forall>j. 0 < j \<and> j < n \<longrightarrow> m' (backup_name p j) =
        (case m (backup_name p (j - 1)) of Some x \<Rightarrow> Some x | None \<Rightarrow> if j = n - 1 then m (backup_name p j) else None)) \<and>
     (\<forall>q. q \<noteq> p \<and> (\<forall>j < n. q \<noteq> backup_name p j) \<longrightarrow> m' q = m q)"

lemma log_backup_ok:
  assumes "os_wf S" and "fd_name fd S = Some p" and "1 \<le> n"
  shows "rotated p n (map_of (names S)) (map_of (names (log_backup fd (int n) p S))) \<and> os_wf (log_backup fd (int n) p S) \<and>
    same_files S (log_backup fd (int n) p S)"
proof -
  let ?k = "n - 1" and ?m = "map_of (names S)"
  have k: "nat (int n - 1) = ?k" using assms(3) by simp
  obtain d where d: "map_of (fds S) (nat fd) = Some d" using assms(2) by (auto simp: fd_name_def split: option.splits)
  have mp: "?m p = Some (fd_ino d)" using fd_name_iff [OF assms(1) d] assms(2) by blast
  obtain fl' S' where l: "backup_loop ?k (odd ?k) p ((\<lambda>_. p)(odd ?k := backup_name p ?k)) S = (False, fl', S')"
      "fl' False = backup_name p 0" "map_of (names S') = moves_on p ?k ?m" "os_wf S'" "same_files S S'"
    using backup_loop_ok [OF assms(1) refl, of "(\<lambda>_. p)(odd ?k := backup_name p ?k)" ?k p] by auto
  have r: "log_backup fd (int n) p S = snd (sys_rename p (backup_name p 0) S')"
    using assms(2) l(1,2) k by (simp add: log_backup_def Let_def)
  have "map_of (names S') p = ?m p" unfolding l(3) by (rule moves_on_other) simp
  then have m': "map_of (names (log_backup fd (int n) p S)) = (moves_on p ?k ?m)(p := None, backup_name p 0 := Some (fd_ino d))"
    using rename_names [of S' p _ "backup_name p 0"] mp l(3) unfolding r by simp
  have "rotated p n ?m (map_of (names (log_backup fd (int n) p S)))"
    unfolding rotated_def m'
  proof (intro conjI allI impI)
    fix j assume j: "0 < j \<and> j < n"
    then show "((moves_on p ?k ?m)(p := None, backup_name p 0 := Some (fd_ino d))) (backup_name p j) =
        (case ?m (backup_name p (j - 1)) of None \<Rightarrow> if j = n - 1 then ?m (backup_name p j) else None | Some x \<Rightarrow> Some x)"
      using moves_on_next [of j ?k p ?m] by (auto split: option.split)
  next
    fix q assume q: "q \<noteq> p \<and> (\<forall>j < n. q \<noteq> backup_name p j)"
    then have "moves_on p ?k ?m q = ?m q" using assms(3) by (intro moves_on_other) auto
    then show "((moves_on p ?k ?m)(p := None, backup_name p 0 := Some (fd_ino d))) q = ?m q" using q assms(3) by auto
  qed (use mp in auto)
  then show ?thesis using rename_wf [OF l(4), of p "backup_name p 0"] same_files_rename [OF l(5), of p "backup_name p 0"] r by simp
qed

lemma log_backup_late:
  assumes "os_wf S" and "fd_name fd S = Some p" and "1 \<le> n" and "map_of (fds S) (nat fd) = Some d" and "map_of (fds S) (nat fd') = Some d'"
    and "fd_ino d' = fd_ino d"
  shows "log_backup fd' m p (log_backup fd (int n) p S) = log_backup fd (int n) p S"
proof -
  let ?S = "log_backup fd (int n) p S"
  note ok = log_backup_ok [OF assms(1-3)]
  then have "map_of (names ?S) p = None" by (simp add: rotated_def)
  moreover have "map_of (fds ?S) (nat fd') = Some d'" using ok assms(5) by (simp add: same_files_def)
  ultimately have "fd_name fd' ?S \<noteq> Some p" using fd_name_iff [of ?S fd' d' p] ok by simp
  then show ?thesis by (simp add: log_backup_def)
qed

section \<open>Bounds\<close>

definition text_at :: "os \<Rightarrow> string \<Rightarrow> nat \<Rightarrow> bool" where
  "text_at S p n \<longleftrightarrow> (\<forall>c. at S p = Some (File c) \<longrightarrow> length c \<le> n)"

lemma text_at_mono: "text_at S p m \<Longrightarrow> m \<le> n \<Longrightarrow> text_at S p n"
  by (meson text_at_def order_trans)

text \<open>The log file keeps to its size, a backup exceeds it by less than one line.\<close>

definition log_bounds :: "nat \<Rightarrow> logger_struct \<Rightarrow> os \<Rightarrow> bool" where
  "log_bounds line_max lg S \<longleftrightarrow> os_wf S \<and> writable S (file_path lg) \<and> text_at S (file_path lg) (nat (file_size lg)) \<and>
     (\<forall>j. text_at S (backup_name (file_path lg) j) (nat (file_size lg) + line_max))"

definition log_names :: "logger_struct \<Rightarrow> string set" where
  "log_names lg = insert (file_path lg) (backup_name (file_path lg) ` {j. int j < file_bakup lg})"

lemma appended:
  assumes "fds S = (fd, d) # ds" and "fd_append d" and "map_of (names S) p = Some (fd_ino d)" and "inodes S (fd_ino d) = File c" and "os_wf S"
  obtains k S' e where "fflush (int fd) s S = S'" and "inodes S' (fd_ino d) = File (c @ take k s)" and "names S' = names S"
    and "\<And>q. q \<noteq> p \<Longrightarrow> at S' q = at S q" and "fds S' = (fd, e) # ds" and "fd_ino e = fd_ino d" and "os_wf S'" and "refused S' = refused S"
proof -
  define n where "n = min (length s) (min (room S) MAX_RW)"
  have fp: "file_put (length c) s c (room S) = (n, c @ take n s)" by (simp add: file_put_def Let_def n_def)
  have w: "fflush (int fd) s S = (if n = 0 \<and> s \<noteq> [] then S else S\<lparr>inodes := (inodes S)(fd_ino d := File (c @ take n s)),
      room := room S - (length (c @ take n s) - length c), fds := (fd, d\<lparr>fd_pos := length c + n\<rparr>) # ds\<rparr>)"
    using assms(1,2,4) fp by (simp add: fflush_def sys_write_def Let_def)
  show thesis
  proof (cases "n = 0 \<and> s \<noteq> []")
    case True
    with w assms show thesis by (intro that [of S 0 d]) auto
  next
    case False
    let ?S = "S\<lparr>inodes := (inodes S)(fd_ino d := File (c @ take n s)), room := room S - (length (c @ take n s) - length c),
      fds := (fd, d\<lparr>fd_pos := length c + n\<rparr>) # ds\<rparr>"
    have "at ?S q = at S q" if "q \<noteq> p" for q
      using that one_name [OF assms(5,3), of q] by (cases "map_of (names S) q") (auto simp: at_def)
    moreover have "os_wf ?S" using assms(1,5) by (simp add: os_wf_def)
    moreover have "fflush (int fd) s S = ?S" using w False by presburger
    ultimately show thesis by (intro that [of ?S n "d\<lparr>fd_pos := length c + n\<rparr>"]) simp_all
  qed
qed

lemma line_length: "line_bytes (format_line line_max date body) = Some l \<Longrightarrow> length date < 32 \<Longrightarrow> 32 \<le> line_max \<Longrightarrow> length l \<le> line_max"
  by (auto simp: line_bytes_def format_line_def split: option.splits if_splits prod.splits)

lemma at_close [simp]: "at (sys_close fd S) q = at S q"
  by (simp add: at_def sys_close_def)

lemma os_wf_close: "os_wf S \<Longrightarrow> os_wf (sys_close fd S)"
  by (auto simp: os_wf_def sys_close_def distinct_delete AList.delete_eq distinct_map_filter)

lemma rotated_bounds:
  assumes "rotated p n (map_of (names S)) (map_of (names S'))" and "same_files S S'" and "text_at S p m"
    and "\<forall>j. text_at S (backup_name p j) m" and "1 \<le> n"
  shows "at S' p = None \<and> (\<forall>j. text_at S' (backup_name p j) m) \<and> (\<forall>q. q \<noteq> p \<and> (\<forall>j < n. q \<noteq> backup_name p j) \<longrightarrow> at S' q = at S q)"
proof (intro conjI allI impI)
  note r = assms(1) [unfolded rotated_def] and i = assms(2) [unfolded same_files_def]
  show "at S' p = None" using r by (simp add: at_def)
  fix j
  have "at S' (backup_name p j) = None \<or> at S' (backup_name p j) = at S p \<or> (\<exists>i. at S' (backup_name p j) = at S (backup_name p i))"
  proof (cases "j < n")
    case False
    then have "map_of (names S') (backup_name p j) = map_of (names S) (backup_name p j)" using r by auto
    then show ?thesis using i by (auto simp: at_def)
  next
    case True
    show ?thesis
    proof (cases "j = 0")
      case True
      then show ?thesis using r i by (auto simp: at_def)
    next
      case False
      with \<open>j < n\<close> r have "map_of (names S') (backup_name p j) =
          (case map_of (names S) (backup_name p (j - 1)) of Some x \<Rightarrow> Some x | None \<Rightarrow> if j = n - 1 then map_of (names S) (backup_name p j) else None)"
        by blast
      then have "map_of (names S') (backup_name p j) = None \<or> (\<exists>i. map_of (names S') (backup_name p j) = map_of (names S) (backup_name p i))"
        by (cases "map_of (names S) (backup_name p (j - 1))") (simp_all, (metis | blast)+)
      then show ?thesis using i unfolding at_def by (metis option.map(1))
    qed
  qed
  then show "text_at S' (backup_name p j) m" using assms(3,4) by (auto simp: text_at_def)
next
  fix q assume "q \<noteq> p \<and> (\<forall>j < n. q \<noteq> backup_name p j)"
  then show "at S' q = at S q" using assms(1,2) by (auto simp: at_def rotated_def same_files_def)
qed

lemma print_line_bounds:
  assumes "log_bounds line_max lg S" and "0 < file_size lg" and "print_line line_max lg date body S = Some S'" and "length date < 32" and "32 \<le> line_max"
  shows "log_bounds line_max lg S' \<and> (\<forall>q. q \<notin> log_names lg \<longrightarrow> at S' q = at S q) \<and> fds S' = fds S"
proof -
  let ?p = "file_path lg" and ?m = "nat (file_size lg)"
  have b: "os_wf S" "writable S ?p" "text_at S ?p ?m" "\<forall>j. text_at S (backup_name ?p j) (?m + line_max)"
    using assms(1) by (auto simp: log_bounds_def)
  obtain S1 i fd where o: "sys_open O_APPEND ?p S = (int fd, S1)" "fd = free_fd (fds S)"
      "fds S1 = (fd, \<lparr>fd_ino = i, fd_pos = 0, fd_append = True\<rparr>) # fds S"
      "map_of (names S1) ?p = Some i" "inodes S1 i = File (old_text S ?p)"
      "\<And>q. q \<noteq> ?p \<Longrightarrow> at S1 q = at S q" "os_wf S1" "refused S1 = refused S"
    by (rule opened_for_writing [OF b(1,2), of O_APPEND]) (auto simp: O_APPEND_def)
  obtain l where l: "line_bytes (format_line line_max date body) = Some l"
    using assms(3) o(1) by (auto simp: print_line_def fopen_a_def split: bind_splits)
  have ll: "length l \<le> line_max" using line_length [OF l assms(4,5)] .
  obtain k S2 e where a: "fflush (int fd) l S1 = S2" "inodes S2 i = File (old_text S ?p @ take k l)" "names S2 = names S1"
      "\<And>q. q \<noteq> ?p \<Longrightarrow> at S2 q = at S1 q" "fds S2 = (fd, e) # fds S" "fd_ino e = i" "os_wf S2" "refused S2 = refused S1"
    by (rule appended [OF o(3), of ?p "old_text S ?p" l]) (use o(4,5,7) in auto)
  let ?c = "old_text S ?p @ take k l"
  have c0: "length (old_text S ?p) \<le> ?m" using b(3) by (auto simp: text_at_def old_text_def split: option.split fnode.split)
  then have c: "length ?c \<le> ?m + line_max" using ll by simp
  have at2: "at S2 ?p = Some (File ?c)" using a(2,3) o(4) by (simp add: at_def)
  have tb: "text_at S2 ?p (?m + line_max)" "\<forall>j. text_at S2 (backup_name ?p j) (?m + line_max)"
    using c at2 b(4) a(4) o(6) by (auto simp: text_at_def)
  have rf: "\<not> refused S2 ?p" using a(8) o(8) b(2) by (simp add: writable_def)
  have tell: "ftell (int fd) S2 = int (length ?c)" using a(2,5,6) by (simp add: ftell_def)
  have name: "fd_name (int fd) S2 = Some ?p" using fd_name_iff [of S2 "int fd" e ?p] a(3,5,6,7) o(4) by simp
  have closed: "fds (sys_close (int fd) S3) = fds S" if "fds S3 = (fd, e) # fds S" for S3 using that o(2) by (simp add: sys_close_def)
  have S': "S' = sys_close (int fd) (if ftell (int fd) S2 > file_size lg
      then if file_bakup lg > 0 then log_backup (int fd) (file_bakup lg) ?p S2 else sys_ftruncate (int fd) S2 else S2)"
    using assms(3) o(1) l unfolding a(1) [symmetric] by (simp add: print_line_def fopen_a_def Let_def)
  consider "int (length ?c) \<le> file_size lg" | "int (length ?c) > file_size lg" "file_bakup lg > 0" | "int (length ?c) > file_size lg" "file_bakup lg \<le> 0"
    by linarith
  then show ?thesis
  proof cases
    case 1
    then have S3: "S' = sys_close (int fd) S2" using S' tell by simp
    have "log_bounds line_max lg S'" using 1 at2 tb rf os_wf_close [OF a(7), of "int fd"] unfolding S3 log_bounds_def writable_def
      by (auto simp: text_at_def sys_close_def at_def nat_le_iff le_nat_iff assms(2))
    moreover have "at S' q = at S q" if "q \<notin> log_names lg" for q using that a(4) o(6) unfolding S3 by (simp add: log_names_def)
    ultimately show ?thesis using closed [OF a(5)] S3 by blast
  next
    case 2
    let ?n = "nat (file_bakup lg)" and ?S3 = "log_backup (int fd) (file_bakup lg) ?p S2"
    have S3: "S' = sys_close (int fd) ?S3" using S' tell 2 by simp
    have n: "1 \<le> ?n" "int ?n = file_bakup lg" using 2(2) by simp_all
    have bk: "rotated ?p ?n (map_of (names S2)) (map_of (names ?S3))" "os_wf ?S3" "same_files S2 ?S3"
      using log_backup_ok [OF a(7) name n(1)] n(2) by simp_all
    note rb = rotated_bounds [OF bk(1,3) tb n(1)]
    have "log_bounds line_max lg S'" using rb rf bk(3) os_wf_close [OF bk(2), of "int fd"] unfolding S3 log_bounds_def writable_def
      by (auto simp: text_at_def same_files_def sys_close_def at_def)
    moreover have "at S' q = at S q" if "q \<notin> log_names lg" for q
      using that rb a(4) o(6) n(2) unfolding S3 by (auto simp: log_names_def)
    moreover have "fds S' = fds S" using closed [of ?S3] bk(3) a(5) S3 by (simp add: same_files_def)
    ultimately show ?thesis by blast
  next
    case 3
    let ?S3 = "sys_ftruncate (int fd) S2"
    have S3: "S' = sys_close (int fd) ?S3" using S' tell 3 by simp
    have t: "?S3 = S2\<lparr>inodes := (inodes S2)(i := File []), room := room S2 + length ?c\<rparr>" using a(2,5,6) by (simp add: sys_ftruncate_def)
    have w: "os_wf ?S3" using a(7) unfolding t by (simp add: os_wf_def)
    have p: "at ?S3 ?p = Some (File [])" using a(3) o(4) unfolding t by (simp add: at_def)
    have q: "at ?S3 q = at S q" if "q \<noteq> ?p" for q
    proof -
      have "at ?S3 q = at S2 q" using that a(3) one_name [OF o(7,4), of q] unfolding t by (cases "map_of (names S1) q") (auto simp: at_def)
      then show ?thesis using a(4) [OF that] o(6) [OF that] by simp
    qed
    have "log_bounds line_max lg S'" using p q b(4) rf os_wf_close [OF w, of "int fd"] unfolding S3 log_bounds_def writable_def t
      by (auto simp: text_at_def sys_close_def at_def)
    moreover have "at S' x = at S x" if "x \<notin> log_names lg" for x using that q unfolding S3 by (simp add: log_names_def)
    moreover have "fds S' = fds S" using closed [of ?S3] a(5) S3 unfolding t by simp
    ultimately show ?thesis by blast
  qed
qed

section \<open>Properties\<close>

text \<open>A log of 10 bytes with two backups, of which the first exists, and two writers with the file open.\<close>

definition demo_logger :: logger_struct where "demo_logger = \<lparr>file_size = 10, file_bakup = 2, file_path = ''/l''\<rparr>"

definition demo_log_os :: os where
  "demo_log_os = \<lparr>names = [(''/l'', 1), (backup_name ''/l'' 0, 2)], inodes = (\<lambda>_. Dir)(1 := File ''newer'', 2 := File ''older''), next_ino = 3,
     refused = (\<lambda>_. False), room = 5000,
     fds = [(3, \<lparr>fd_ino = 1, fd_pos = 0, fd_append = True\<rparr>), (4, \<lparr>fd_ino = 1, fd_pos = 0, fd_append = True\<rparr>)]\<rparr>"

lemma demo_log_wf: "os_wf demo_log_os" "fd_name (int 3) demo_log_os = Some ''/l''"
  by (auto simp: demo_log_os_def os_wf_def fd_name_def split: if_splits)

text \<open>
  C33: rotating with \<open>n\<close> backups moves the log file to the first backup and every backup to the next one, overwriting the last;
  every other name, the contents and the descriptors stay. A writer whose descriptor is on the file that has just been moved
  does not rotate again.
\<close>

theorem log_backup_correct:
  assumes "os_wf S" and "fd_name fd S = Some p" and "1 \<le> n" and "map_of (fds S) (nat fd) = Some d" and "map_of (fds S) (nat fd') = Some d'"
    and "fd_ino d' = fd_ino d"
  shows "rotated p n (map_of (names S)) (map_of (names (log_backup fd (int n) p S))) \<and> os_wf (log_backup fd (int n) p S) \<and>
    same_files S (log_backup fd (int n) p S) \<and> log_backup fd' m p (log_backup fd (int n) p S) = log_backup fd (int n) p S"
  using log_backup_ok [OF assms(1-3)] log_backup_late [OF assms] by blast

theorem log_backup_correct_witness:
  "rotated ''/l'' 2 (map_of (names demo_log_os)) (map_of (names (log_backup (int 3) (int 2) ''/l'' demo_log_os))) \<and>
    os_wf (log_backup (int 3) (int 2) ''/l'' demo_log_os) \<and> same_files demo_log_os (log_backup (int 3) (int 2) ''/l'' demo_log_os) \<and>
    log_backup (int 4) 2 ''/l'' (log_backup (int 3) (int 2) ''/l'' demo_log_os) = log_backup (int 3) (int 2) ''/l'' demo_log_os"
  by (rule log_backup_correct [OF demo_log_wf, where d = "\<lparr>fd_ino = 1, fd_pos = 0, fd_append = True\<rparr>" and
        d' = "\<lparr>fd_ino = 1, fd_pos = 0, fd_append = True\<rparr>"]) (simp_all add: demo_log_os_def)

text \<open>A program that logs a sequence of messages.\<close>

fun log_all :: "logger_struct \<Rightarrow> (string \<times> string option) list \<Rightarrow> os \<Rightarrow> os option" where
  "log_all lg [] S = Some S"
| "log_all lg ((date, body) # ms) S = do { (S, out) \<leftarrow> GENERIC_LOG lg date body S; log_all lg ms S }"

text \<open>
  C34: whatever is logged, and with whatever space on the device, the log file never stays longer than its size, a backup
  never exceeds it by more than one line, no file but these is touched and no descriptor is kept.
\<close>

theorem log_bounded:
  assumes "log_bounds LOG_LINE_MAX lg S" and "0 < file_size lg" and "log_all lg ms S = Some S'" and "\<forall>(date, body) \<in> set ms. length date < 32"
  shows "log_bounds LOG_LINE_MAX lg S' \<and> (\<forall>q. q \<notin> log_names lg \<longrightarrow> at S' q = at S q) \<and> fds S' = fds S"
  using assms
proof (induction ms arbitrary: S)
  case (Cons x ms)
  obtain date body where x: "x = (date, body)" by (cases x)
  with Cons.prems(2,3) obtain S1 where S1: "generic_log_print lg date body S = Some S1" "log_all lg ms S1 = Some S'"
    by (auto simp: GENERIC_LOG_def bind_eq_Some_conv)
  from print_line_bounds [OF Cons.prems(1,2) S1(1) [unfolded generic_log_print_def]] Cons.prems(4) x
  have "log_bounds LOG_LINE_MAX lg S1 \<and> (\<forall>q. q \<notin> log_names lg \<longrightarrow> at S1 q = at S q) \<and> fds S1 = fds S" by (auto simp: LOG_LINE_MAX_def)
  with Cons.IH [of S1] Cons.prems(2,4) S1(2) show ?case by auto
qed simp

theorem log_bounded_witness:
  "\<exists>S'. log_all demo_logger [(''Jan 1 '', Some ''started''), ([], Some ''ready'')] demo_log_os = Some S' \<and> log_bounds LOG_LINE_MAX demo_logger S' \<and>
    (\<forall>q. q \<notin> log_names demo_logger \<longrightarrow> at S' q = at demo_log_os q) \<and> fds S' = fds demo_log_os"
proof -
  have b: "text_at demo_log_os q 5" for q by (auto simp: text_at_def at_def demo_log_os_def)
  then have "text_at demo_log_os q 10" "text_at demo_log_os q (10 + LOG_LINE_MAX)" for q
    by (rule text_at_mono, simp)+
  then have lb: "log_bounds LOG_LINE_MAX demo_logger demo_log_os" using demo_log_wf(1)
    by (simp add: log_bounds_def demo_logger_def) (simp add: writable_def at_def demo_log_os_def)
  have g: "\<exists>S'. GENERIC_LOG demo_logger date (Some t) S = Some (S', [])" for date t S
    by (auto simp: GENERIC_LOG_def demo_logger_def generic_log_print_def print_line_def line_bytes_def format_line_def LOG_LINE_MAX_def Let_def split: prod.split)
  obtain S1 where 1: "GENERIC_LOG demo_logger ''Jan 1 '' (Some ''started'') demo_log_os = Some (S1, [])" using g by blast
  obtain S2 where 2: "GENERIC_LOG demo_logger [] (Some ''ready'') S1 = Some (S2, [])" using g by blast
  have l: "log_all demo_logger [(''Jan 1 '', Some ''started''), ([], Some ''ready'')] demo_log_os = Some S2" using 1 2 by simp
  show ?thesis using log_bounded [OF lb _ l] l by (simp add: demo_logger_def)
qed

text \<open>A message longer than a line is printed from a buffer without an end when no log file has been set.\<close>

theorem generic_print_overrun:
  "length date + length t \<ge> LOG_LINE_MAX \<Longrightarrow> NUL \<notin> set date \<Longrightarrow> NUL \<notin> set t \<Longrightarrow> GENERIC_LOG logger0 date (Some t) S = None"
  by (auto simp: GENERIC_LOG_def generic_print_def log_format_def format_line_def logger0_def LOG_LINE_MAX_def NUL_def LF_def dest!: in_set_takeD)

end
