(* ===== verification/Log_Lock.thy ===== *)
theory Log_Lock
  imports Prelude
begin

text \<open>
  The locks of \<open>common/generic_log.c\<close> and \<open>common/lock.c\<close>. A semaphore that all processes share guards the rotation of log
  files; each process finds or creates it once, in \<open>lock_init\<close>, where threads of one process are kept apart by a
  compare-and-swap. Threads go on in any order; a step stands for one atomic operation.
\<close>

section \<open>Single calls (common/lock.c)\<close>

text \<open>Calls are repeated while they are interrupted: \<open>rs\<close> are the results, with whether \<open>errno\<close> is \<open>EINTR\<close>.\<close>

fun retry_eintr :: "(int \<times> bool) list \<Rightarrow> (int \<times> (int \<times> bool) list) option" where
  "retry_eintr [] = None"
| "retry_eintr ((r, eintr) # rs) = (if r < 0 \<and> eintr then retry_eintr rs else Some (r, rs))"

definition fd_lock :: "(int \<times> bool) list \<Rightarrow> (int \<times> (int \<times> bool) list) option" where
  "fd_lock fcntls = retry_eintr fcntls"

definition fd_unlock :: "(int \<times> bool) list \<Rightarrow> (int \<times> (int \<times> bool) list) option" where
  "fd_unlock fcntls = retry_eintr fcntls"

definition sem_create :: "int \<Rightarrow> int \<Rightarrow> bool \<Rightarrow> int \<Rightarrow> int \<Rightarrow> int" where
  "sem_create key excl eexist again setval =
     (if key = - 1 then - 1
      else if excl = - 1 then if eexist then again else - 1
      else if setval = - 1 then - 1 else excl)"

definition sem_lock :: "(int \<times> bool) list \<Rightarrow> (int \<times> (int \<times> bool) list) option" where
  "sem_lock semops = retry_eintr semops"

definition sem_unlock :: "(int \<times> bool) list \<Rightarrow> (int \<times> (int \<times> bool) list) option" where
  "sem_unlock semops = retry_eintr semops"

section \<open>The lock of the log (common/generic_log.c)\<close>

definition LOCK_INVALID :: int where "LOCK_INVALID = - 1"
definition LOCK_INITING :: int where "LOCK_INITING = - 2"

text \<open>
  Where a thread is: outside, in the loop of \<open>lock_init\<close>, before \<open>semget\<close>, between \<open>semget\<close> and \<open>semctl\<close>, in \<open>semop\<close> of
  \<open>log_lock\<close>, in the critical section with the semaphore, or there without it because \<open>log_lock\<close> failed, which its caller ignores.
\<close>

datatype lock_pc = Outside | Spinning | Getting | Setting | Acquiring | Holding | Without

text \<open>\<open>lk_var\<close> is the variable \<open>__lock\<close> of a process, \<open>lk_sem\<close> the value of the semaphore once it exists.\<close>

record log_locks =
  lk_var :: "nat \<Rightarrow> int"
  lk_sem :: "nat option"
  lk_pc :: "nat \<Rightarrow> lock_pc"

definition locks0 :: log_locks where
  "locks0 = \<lparr>lk_var = (\<lambda>_. LOCK_INVALID), lk_sem = None, lk_pc = (\<lambda>_. Outside)\<rparr>"

definition lock_cas :: "nat \<Rightarrow> int \<Rightarrow> int \<Rightarrow> log_locks \<Rightarrow> log_locks" where
  "lock_cas p old new S = (if lk_var S p = old then S\<lparr>lk_var := (lk_var S)(p := new)\<rparr> else S)"

definition goto :: "nat \<Rightarrow> lock_pc \<Rightarrow> log_locks \<Rightarrow> log_locks" where
  "goto t pc S = S\<lparr>lk_pc := (lk_pc S)(t := pc)\<rparr>"

text \<open>The end of \<open>lock_init\<close>, with the semaphore or with - 1, and the call of \<open>log_lock\<close> going on.\<close>

definition lock_out :: "nat \<Rightarrow> nat \<Rightarrow> int \<Rightarrow> log_locks \<Rightarrow> log_locks" where
  "lock_out p t sem S = goto t (if sem = - 1 then Without else Acquiring) (lock_cas p LOCK_INITING sem S)"

definition sem_post :: "log_locks \<Rightarrow> log_locks" where
  "sem_post S = S\<lparr>lk_sem := map_option Suc (lk_sem S)\<rparr>"

text \<open>
  Threads \<open>t\<close> of processes \<open>proc t\<close>; \<open>fails\<close> allows the system calls to fail. \<open>sem\<close> is the identifier of the semaphore. A thread
  that reads \<open>LOCK_INITING\<close>, or loses the swap, sleeps and looks again: it does not move.
\<close>

inductive lock_step :: "bool \<Rightarrow> (nat \<Rightarrow> nat) \<Rightarrow> int \<Rightarrow> log_locks \<Rightarrow> log_locks \<Rightarrow> bool" for fails proc sem where
  log_lock: "lk_pc S t = Outside \<Longrightarrow> lock_step fails proc sem S (goto t (if lk_var S (proc t) < 0 then Spinning else Acquiring) S)"
| lock_found: "lk_pc S t = Spinning \<Longrightarrow> lk_var S (proc t) \<notin> {LOCK_INVALID, LOCK_INITING} \<Longrightarrow> lock_step fails proc sem S (goto t Acquiring S)"
| lock_claim: "lk_pc S t = Spinning \<Longrightarrow> lk_var S (proc t) = LOCK_INVALID \<Longrightarrow>
    lock_step fails proc sem S (goto t Getting (lock_cas (proc t) LOCK_INVALID LOCK_INITING S))"
| semget_new: "lk_pc S t = Getting \<Longrightarrow> lk_sem S = None \<Longrightarrow> lock_step fails proc sem S (goto t Setting (S\<lparr>lk_sem := Some 0\<rparr>))"
| semget_old: "lk_pc S t = Getting \<Longrightarrow> lk_sem S = Some v \<Longrightarrow> lock_step fails proc sem S (lock_out (proc t) t sem S)"
| semget_fails: "fails \<Longrightarrow> lk_pc S t = Getting \<Longrightarrow> lock_step fails proc sem S (lock_out (proc t) t (- 1) S)"
| semctl: "lk_pc S t = Setting \<Longrightarrow> lk_sem S = Some v \<Longrightarrow> lock_step fails proc sem S (lock_out (proc t) t sem (S\<lparr>lk_sem := Some 1\<rparr>))"
| semctl_fails: "fails \<Longrightarrow> lk_pc S t = Setting \<Longrightarrow> lock_step fails proc sem S (lock_out (proc t) t (- 1) S)"
| semop: "lk_pc S t = Acquiring \<Longrightarrow> lk_sem S = Some (Suc v) \<Longrightarrow> lock_step fails proc sem S (goto t Holding (S\<lparr>lk_sem := Some v\<rparr>))"
| semop_fails: "fails \<Longrightarrow> lk_pc S t = Acquiring \<Longrightarrow> lock_step fails proc sem S (goto t Without S)"
| log_unlock: "lk_pc S t = Holding \<or> lk_pc S t = Without \<Longrightarrow>
    lock_step fails proc sem S (goto t Outside (if lk_var S (proc t) < 0 then S else sem_post S))"

inductive_cases lock_stepE: "lock_step fails proc sem S S'"

inductive lock_reach :: "bool \<Rightarrow> (nat \<Rightarrow> nat) \<Rightarrow> int \<Rightarrow> log_locks \<Rightarrow> bool" for fails proc sem where
  start: "lock_reach fails proc sem locks0"
| lock_move: "lock_reach fails proc sem S \<Longrightarrow> lock_step fails proc sem S S' \<Longrightarrow> lock_reach fails proc sem S'"

section \<open>Initialisation\<close>

text \<open>A process's variable says that it is being initialised exactly while one of its threads does so.\<close>

definition initing :: "lock_pc \<Rightarrow> bool" where "initing pc \<longleftrightarrow> pc = Getting \<or> pc = Setting"

definition init_inv :: "(nat \<Rightarrow> nat) \<Rightarrow> int \<Rightarrow> log_locks \<Rightarrow> bool" where
  "init_inv proc sem S \<longleftrightarrow>
     (\<forall>p. lk_var S p \<in> {LOCK_INVALID, LOCK_INITING, sem}) \<and>
     (\<forall>t. initing (lk_pc S t) \<longrightarrow> lk_var S (proc t) = LOCK_INITING) \<and>
     (\<forall>t u. initing (lk_pc S t) \<and> initing (lk_pc S u) \<and> proc t = proc u \<longrightarrow> t = u)"

lemmas lock_defs = goto_def lock_cas_def lock_out_def sem_post_def LOCK_INVALID_def LOCK_INITING_def

lemma init_out:
  assumes "init_inv proc sem S" and "initing (lk_pc S t)" and "x = - 1 \<or> x = sem"
  shows "init_inv proc sem (lock_out (proc t) t x (S\<lparr>lk_sem := v\<rparr>))"
proof -
  note i = assms(1) [unfolded init_inv_def]
  let ?S = "lock_out (proc t) t x (S\<lparr>lk_sem := v\<rparr>)"
  have "lk_var S (proc t) = LOCK_INITING" using i assms(2) by blast
  then have S': "lk_var ?S = (lk_var S)(proc t := x)" "lk_pc ?S = (lk_pc S)(t := if x = - 1 then Without else Acquiring)"
    by (simp_all add: lock_out_def goto_def lock_cas_def)
  have old: "initing (lk_pc S u) \<and> u \<noteq> t" if "initing (lk_pc ?S u)" for u
    using that by (cases "u = t") (auto simp: S' initing_def split: if_splits)
  then have apart: "proc u \<noteq> proc t" if "initing (lk_pc ?S u)" for u using that i assms(2) by blast
  show ?thesis unfolding init_inv_def
  proof (intro conjI allI impI)
    show "lk_var ?S p \<in> {LOCK_INVALID, LOCK_INITING, sem}" for p using i assms(3) by (auto simp: S' LOCK_INVALID_def)
    show "lk_var ?S (proc u) = LOCK_INITING" if "initing (lk_pc ?S u)" for u using old [OF that] apart [OF that] i by (simp add: S')
    show "u = w" if "initing (lk_pc ?S u) \<and> initing (lk_pc ?S w) \<and> proc u = proc w" for u w using old that i by blast
  qed
qed

lemma init_same:
  assumes "init_inv proc sem S" and "lk_var S' = lk_var S" and "\<And>u. initing (lk_pc S' u) \<Longrightarrow> initing (lk_pc S u)"
  shows "init_inv proc sem S'"
  using assms unfolding init_inv_def by metis

lemma init_claim:
  assumes "init_inv proc sem S" and "lk_var S (proc t) = LOCK_INVALID"
  shows "init_inv proc sem (goto t Getting (lock_cas (proc t) LOCK_INVALID LOCK_INITING S))" (is "init_inv _ _ ?S")
proof -
  have no: "\<not> initing (lk_pc S u)" if "proc u = proc t" for u
    using assms(1) assms(2) that by (auto simp: init_inv_def LOCK_INVALID_def LOCK_INITING_def)
  have S': "lk_var ?S = (lk_var S)(proc t := LOCK_INITING)" "lk_pc ?S = (lk_pc S)(t := Getting)"
    using assms(2) by (simp_all add: goto_def lock_cas_def)
  note i = assms(1) [unfolded init_inv_def]
  show ?thesis unfolding init_inv_def
  proof (intro conjI allI impI)
    show "lk_var ?S p \<in> {LOCK_INVALID, LOCK_INITING, sem}" for p using i by (simp add: S')
    show "lk_var ?S (proc u) = LOCK_INITING" if "initing (lk_pc ?S u)" for u using i that by (cases "u = t") (auto simp: S')
    show "u = v" if "initing (lk_pc ?S u) \<and> initing (lk_pc ?S v) \<and> proc u = proc v" for u v
    proof (cases "u = t \<or> v = t")
      case True
      then show ?thesis using that no by (cases "u = t"; cases "v = t") (auto simp: S')
    next
      case False
      then show ?thesis using that i by (simp add: S')
    qed
  qed
qed

lemma init_step:
  assumes "init_inv proc sem S" and "lock_step fails proc sem S S'" and "0 \<le> sem"
  shows "init_inv proc sem S'"
  using assms(2)
proof cases
  case (lock_claim t)
  then show ?thesis using init_claim [OF assms(1)] by simp
next
  case (semget_old t v)
  have "init_inv proc sem (lock_out (proc t) t sem (S\<lparr>lk_sem := lk_sem S\<rparr>))"
    by (rule init_out [OF assms(1)]) (use semget_old in \<open>simp_all add: initing_def\<close>)
  then show ?thesis unfolding semget_old(1) by simp
next
  case (semctl t v)
  then show ?thesis using init_out [OF assms(1), of t sem "Some 1"] by (simp add: initing_def)
next
  case (semget_fails t)
  then show ?thesis using init_out [OF assms(1), of t "- 1" "lk_sem S"] by (simp add: initing_def)
next
  case (semctl_fails t)
  then show ?thesis using init_out [OF assms(1), of t "- 1" "lk_sem S"] by (simp add: initing_def)
qed (rule init_same [OF assms(1)]; auto simp: goto_def sem_post_def initing_def split: if_splits)+

section \<open>Mutual exclusion\<close>

text \<open>Threads whose part of the semaphore is taken: the creator before it is set, and the holder.\<close>

definition takers :: "log_locks \<Rightarrow> nat set" where
  "takers S = {t. lk_pc S t \<in> {Setting, Holding}}"

definition var_inv :: "(nat \<Rightarrow> nat) \<Rightarrow> int \<Rightarrow> log_locks \<Rightarrow> bool" where
  "var_inv proc sem S \<longleftrightarrow> (\<forall>t. lk_pc S t \<noteq> Without) \<and> (\<forall>t. lk_pc S t \<in> {Acquiring, Holding} \<longrightarrow> lk_var S (proc t) = sem)"

definition sem_inv :: "(nat \<Rightarrow> nat) \<Rightarrow> int \<Rightarrow> log_locks \<Rightarrow> bool" where
  "sem_inv proc sem S \<longleftrightarrow>
     (case lk_sem S of
        None \<Rightarrow> takers S = {} \<and> (\<forall>p. lk_var S p \<noteq> sem)
      | Some v \<Rightarrow> v = 0 \<and> (\<exists>t. takers S \<subseteq> {t}) \<or> v = 1 \<and> takers S = {})"

lemma takers_simps [simp]:
  "takers (goto t pc S) = (if pc \<in> {Setting, Holding} then insert t (takers S) else takers S - {t})"
  "takers (lock_cas p old new S) = takers S" "takers (S\<lparr>lk_sem := x\<rparr>) = takers S" "takers (sem_post S) = takers S"
  by (auto simp: takers_def goto_def lock_cas_def sem_post_def)

lemma lock_fields [simp]:
  "lk_sem (goto t pc S) = lk_sem S" "lk_var (goto t pc S) = lk_var S" "lk_sem (lock_cas p old new S) = lk_sem S"
  "lk_var (lock_cas p old new S) = (if lk_var S p = old then (lk_var S)(p := new) else lk_var S)"
  "lk_sem (sem_post S) = map_option Suc (lk_sem S)" "lk_var (sem_post S) = lk_var S"
  by (simp_all add: goto_def lock_cas_def sem_post_def)

lemma var_step:
  assumes "var_inv proc sem S" and "init_inv proc sem S" and "lock_step False proc sem S S'" and "0 \<le> sem"
  shows "var_inv proc sem S'"
proof -
  have v: "lk_var S p < 0 \<or> lk_var S p = sem" for p using assms(2) by (auto simp: init_inv_def lock_defs dest: spec [of _ p])
  have i: "lk_pc S t \<in> {Getting, Setting} \<Longrightarrow> lk_var S (proc t) = LOCK_INITING" for t
    using assms(2) by (auto simp: init_inv_def initing_def)
  from assms(3) show ?thesis
  proof cases
    case (log_lock t)
    with v [of "proc t"] assms(1) show ?thesis by (auto simp: var_inv_def goto_def)
  next
    case (lock_found t)
    with assms(1,2) show ?thesis by (auto simp: var_inv_def init_inv_def goto_def)
  next
    case (lock_claim t)
    with assms(1,4) show ?thesis by (auto simp: var_inv_def lock_defs)
  next
    case (semget_old t v)
    with i [of t] assms(1,4) show ?thesis by (auto simp: var_inv_def lock_defs)
  next
    case (semctl t v)
    with i [of t] assms(1,4) show ?thesis by (auto simp: var_inv_def lock_defs)
  qed (use assms(1) in \<open>auto simp: var_inv_def lock_defs\<close>)
qed

lemma sem_step:
  assumes "sem_inv proc sem S" and "var_inv proc sem S" and "init_inv proc sem S" and "lock_step False proc sem S S'" and "0 \<le> sem"
  shows "sem_inv proc sem S'"
  using assms(4)
proof cases
  case (log_lock t)
  with assms(1) show ?thesis by (auto simp: sem_inv_def split: option.splits)
next
  case (lock_found t)
  with assms(1) show ?thesis by (auto simp: sem_inv_def split: option.splits)
next
  case (lock_claim t)
  with assms(1,5) show ?thesis by (auto simp: sem_inv_def LOCK_INVALID_def LOCK_INITING_def split: option.splits)
next
  case (semget_new t)
  with assms(1) show ?thesis by (auto simp: sem_inv_def split: option.splits)
next
  case (semget_old t v)
  with assms(1,5) show ?thesis by (auto simp: sem_inv_def lock_out_def LOCK_INITING_def split: option.splits)
next
  case (semctl t v)
  then have "t \<in> takers S" by (simp add: takers_def)
  with semctl assms(1,5) show ?thesis by (auto simp: sem_inv_def lock_out_def LOCK_INITING_def split: option.splits)
next
  case (semop t v)
  with assms(1) show ?thesis by (auto simp: sem_inv_def split: option.splits)
next
  case (log_unlock t)
  then have "t \<in> takers S" "lk_var S (proc t) = sem" using assms(2) by (auto simp: takers_def var_inv_def)
  with log_unlock assms(1,5) show ?thesis by (auto simp: sem_inv_def split: option.splits)
qed auto

lemma lock_reach_inv:
  assumes "lock_reach fails proc sem S" and "0 \<le> sem"
  shows "init_inv proc sem S \<and> (\<not> fails \<longrightarrow> var_inv proc sem S \<and> sem_inv proc sem S)"
  using assms
proof (induction rule: lock_reach.induct)
  case start
  then show ?case by (auto simp: locks0_def init_inv_def var_inv_def sem_inv_def takers_def initing_def LOCK_INVALID_def)
next
  case (lock_move S S')
  then show ?case using init_step [of proc sem S fails S'] var_step [of proc sem S S'] sem_step [of proc sem S S'] by (cases fails) auto
qed

section \<open>Properties\<close>

text \<open>
  C35: at any time at most one thread of a process initialises its lock. As long as no system call fails, threads of any
  number of processes are in the critical section only one at a time, and the semaphore is never raised above 1.
\<close>

theorem log_lock_exclusive:
  assumes "lock_reach fails proc sem S" and "0 \<le> sem"
  shows "(\<forall>t u. initing (lk_pc S t) \<and> initing (lk_pc S u) \<and> proc t = proc u \<longrightarrow> t = u) \<and>
    (\<not> fails \<longrightarrow> (\<forall>t u. lk_pc S t = Holding \<and> lk_pc S u = Holding \<longrightarrow> t = u) \<and> (\<forall>t. lk_pc S t \<noteq> Without) \<and> (\<forall>v. lk_sem S = Some v \<longrightarrow> v \<le> 1))"
proof -
  note inv = lock_reach_inv [OF assms]
  have "(\<forall>t u. lk_pc S t = Holding \<and> lk_pc S u = Holding \<longrightarrow> t = u)" if "sem_inv proc sem S"
  proof (intro allI impI)
    fix t u assume "lk_pc S t = Holding \<and> lk_pc S u = Holding"
    then have "t \<in> takers S" "u \<in> takers S" by (simp_all add: takers_def)
    with that show "t = u" by (auto simp: sem_inv_def split: option.splits)
  qed
  moreover have "\<forall>v. lk_sem S = Some v \<longrightarrow> v \<le> 1" if "sem_inv proc sem S" using that by (auto simp: sem_inv_def)
  ultimately show ?thesis using inv by (auto simp: init_inv_def var_inv_def)
qed

text \<open>Two threads of one process; the first creates the semaphore and takes it.\<close>

lemma demo_lock_run:
  "lock_reach fails (\<lambda>_. 0) 7 (goto 0 Holding ((goto 0 Acquiring (goto 0 Setting (goto 0 Getting (goto 0 Spinning locks0))))
     \<lparr>lk_var := (\<lambda>_. LOCK_INVALID)(0 := 7), lk_sem := Some 0\<rparr>))"
proof -
  let ?p = "\<lambda>_::nat. 0::nat"
  note st = lock_reach.lock_move [where fails = fails and proc = ?p and sem = 7]
  note d = locks0_def goto_def lock_cas_def lock_out_def LOCK_INVALID_def LOCK_INITING_def
  let ?S1 = "goto 0 Spinning locks0"
  let ?S2 = "goto 0 Getting (lock_cas 0 LOCK_INVALID LOCK_INITING ?S1)"
  let ?S3 = "goto 0 Setting (?S2\<lparr>lk_sem := Some 0\<rparr>)"
  let ?S4 = "lock_out 0 0 7 (?S3\<lparr>lk_sem := Some 1\<rparr>)"
  have "lock_step fails ?p 7 locks0 ?S1" using lock_step.log_lock [of locks0 0 fails ?p 7] by (simp add: locks0_def LOCK_INVALID_def)
  then have 1: "lock_reach fails ?p 7 ?S1" by (rule st [OF lock_reach.start])
  have 2: "lock_reach fails ?p 7 ?S2" by (rule st [OF 1], rule lock_step.lock_claim) (simp_all add: locks0_def goto_def)
  have 3: "lock_reach fails ?p 7 ?S3" by (rule st [OF 2], rule lock_step.semget_new) (simp_all add: d)
  have 4: "lock_reach fails ?p 7 ?S4" by (rule st [OF 3], rule lock_step.semctl [where v = 0]) (simp_all add: d)
  have 5: "lock_reach fails ?p 7 (goto 0 Holding (?S4\<lparr>lk_sem := Some 0\<rparr>))" by (rule st [OF 4], rule lock_step.semop) (simp_all add: d)
  moreover have "goto 0 Holding (?S4\<lparr>lk_sem := Some 0\<rparr>) = goto 0 Holding ((goto 0 Acquiring (goto 0 Setting (goto 0 Getting (goto 0 Spinning locks0))))
     \<lparr>lk_var := (\<lambda>_. LOCK_INVALID)(0 := 7), lk_sem := Some 0\<rparr>)" by (simp add: d fun_eq_iff)
  ultimately show ?thesis by simp
qed

theorem log_lock_exclusive_witness:
  "\<exists>S. lock_reach False (\<lambda>_. 0) 7 S \<and> lk_pc S 0 = Holding \<and> (\<forall>t u. lk_pc S t = Holding \<and> lk_pc S u = Holding \<longrightarrow> t = u)"
proof (intro exI conjI)
  show r: "lock_reach False (\<lambda>_. 0) 7 (goto 0 Holding ((goto 0 Acquiring (goto 0 Setting (goto 0 Getting (goto 0 Spinning locks0))))
     \<lparr>lk_var := (\<lambda>_. LOCK_INVALID)(0 := 7), lk_sem := Some 0\<rparr>))" (is "lock_reach _ _ _ ?S") by (rule demo_lock_run)
  show "lk_pc ?S 0 = Holding" by (simp add: goto_def)
  show "\<forall>t u. lk_pc ?S t = Holding \<and> lk_pc ?S u = Holding \<longrightarrow> t = u" using log_lock_exclusive [OF r zero_le_numeral] by blast
qed

text \<open>
  When \<open>semop\<close> fails for one thread, it works on without the semaphore and raises it when it leaves; then two threads are
  in the critical section at once.
\<close>

theorem log_unlock_without_lock:
  "\<exists>S. lock_reach True (\<lambda>_. 0) 7 S \<and> lk_pc S 0 = Holding \<and> lk_pc S 2 = Holding"
proof -
  let ?p = "\<lambda>_::nat. 0::nat"
  note st = lock_reach.lock_move [where fails = True and proc = ?p and sem = 7]
  define S where "S = goto 0 Holding ((goto 0 Acquiring (goto 0 Setting (goto 0 Getting (goto 0 Spinning locks0))))
     \<lparr>lk_var := (\<lambda>_. LOCK_INVALID)(0 := 7), lk_sem := Some 0\<rparr>)"
  have S: "lk_pc S 0 = Holding" "lk_pc S 1 = Outside" "lk_pc S 2 = Outside" "lk_sem S = Some 0" "lk_var S 0 = 7"
    by (simp_all add: S_def locks0_def goto_def)
  have 0: "lock_reach True ?p 7 S" unfolding S_def by (rule demo_lock_run)
  have 1: "lock_reach True ?p 7 (goto 1 Acquiring S)"
    using st [OF 0 lock_step.log_lock [of S 1]] S by simp
  have 2: "lock_reach True ?p 7 (goto 1 Without (goto 1 Acquiring S))"
    by (rule st [OF 1], rule lock_step.semop_fails) (simp_all add: goto_def)
  let ?S3 = "goto 1 Outside (sem_post (goto 1 Without (goto 1 Acquiring S)))"
  have 3: "lock_reach True ?p 7 ?S3"
    using st [OF 2 lock_step.log_unlock [of "goto 1 Without (goto 1 Acquiring S)" 1]] S by (simp add: goto_def)
  have 4: "lock_reach True ?p 7 (goto 2 Acquiring ?S3)"
    using st [OF 3 lock_step.log_lock [of ?S3 2]] S by (simp add: goto_def sem_post_def)
  have 5: "lock_reach True ?p 7 (goto 2 Holding ((goto 2 Acquiring ?S3)\<lparr>lk_sem := Some 0\<rparr>))"
    by (rule st [OF 4], rule lock_step.semop) (use S in \<open>simp_all add: goto_def sem_post_def\<close>)
  moreover have "lk_pc (goto 2 Holding ((goto 2 Acquiring ?S3)\<lparr>lk_sem := Some 0\<rparr>)) 0 = Holding"
    "lk_pc (goto 2 Holding ((goto 2 Acquiring ?S3)\<lparr>lk_sem := Some 0\<rparr>)) 2 = Holding" using S by (simp_all add: goto_def sem_post_def)
  ultimately show ?thesis by blast
qed

end
