(* ===== verification/Ipc_Log.thy ===== *)
theory Ipc_Log
  imports Log_Properties Log_Lock
begin

text \<open>
  The log of the message library, \<open>ipc/ipc_log.c\<close>: lines of at most 256 bytes in one fixed file with two backups, and its own
  variant of the lock: a thread that finds the lock being initialised, or cannot have it, does not rotate the files.
\<close>

section \<open>Files\<close>

definition IPC_LOG_FILE :: string where "IPC_LOG_FILE = ''/tmp/ipclog''"
definition IPC_LOG_SIZE :: int where "IPC_LOG_SIZE = 128 * 1024"
definition IPC_LOG_NUM :: int where "IPC_LOG_NUM = 2"
definition IPC_LOG_LINE :: nat where "IPC_LOG_LINE = 256"

definition ipc_logger :: logger_struct where
  "ipc_logger = \<lparr>file_size = IPC_LOG_SIZE, file_bakup = IPC_LOG_NUM, file_path = IPC_LOG_FILE\<rparr>"

definition ipc_log_format :: "string \<Rightarrow> string option \<Rightarrow> int \<times> string" where
  "ipc_log_format = format_line IPC_LOG_LINE"

text \<open>\<open>tell\<close> is the position of a stream that has just been opened for appending, which the C library is free to choose.\<close>

definition ipc_log_output :: "int \<Rightarrow> string \<Rightarrow> string option \<Rightarrow> os \<Rightarrow> os option" where
  "ipc_log_output tell date body S =
     (case fopen_a (IPC_LOG_FILE @ ''.lk'') S of (fp, S) \<Rightarrow>
        if fp < 0 then Some S
        else if tell < IPC_LOG_SIZE then do { l \<leftarrow> line_bytes (ipc_log_format date body); Some (fclose fp l S) }
        else Some (fclose fp [] S))"

text \<open>What \<open>log_backup\<close> does when it has the lock; \<open>lock_ok\<close> is the result of \<open>lock_hold\<close>.\<close>

definition ipc_log_backup :: "bool \<Rightarrow> int \<Rightarrow> os \<Rightarrow> os" where
  "ipc_log_backup lock_ok fd S = (if lock_ok then log_backup fd IPC_LOG_NUM IPC_LOG_FILE S else S)"

definition ipc_log_print :: "bool \<Rightarrow> string \<Rightarrow> string option \<Rightarrow> os \<Rightarrow> os option" where
  "ipc_log_print lock_ok date body S =
     (case fopen_a IPC_LOG_FILE S of (fp, S) \<Rightarrow>
        if fp < 0 then Some S
        else do {
          l \<leftarrow> line_bytes (ipc_log_format date body);
          let S = fflush fp l S;
          let S = (if ftell fp S > IPC_LOG_SIZE then ipc_log_backup lock_ok fp S else S);
          Some (sys_close fp S)
        })"

definition ipc_log :: "bool \<Rightarrow> string \<Rightarrow> string option \<Rightarrow> os \<Rightarrow> os option" where
  "ipc_log = ipc_log_print"

text \<open>\<open>printf ("%s", buf)\<close>, as in \<open>generic_print\<close>.\<close>

definition ipc_dbg :: "string \<Rightarrow> string option \<Rightarrow> string option" where
  "ipc_dbg date body =
     (case ipc_log_format date body of (n, buf) \<Rightarrow> if length buf < IPC_LOG_LINE \<or> NUL \<in> set buf then Some (c_str buf) else None)"

lemma ipc_log_print_line: "ipc_log_print True = print_line IPC_LOG_LINE ipc_logger"
  by (simp add: fun_eq_iff ipc_log_print_def print_line_def ipc_log_format_def ipc_log_backup_def ipc_logger_def IPC_LOG_NUM_def Let_def
      split: prod.split cong: if_cong)

section \<open>The lock\<close>

text \<open>\<open>lock_hold\<close>, with \<open>lock_init\<close> inside it, and \<open>lock_relase\<close>.\<close>

inductive ipc_lock_step :: "(nat \<Rightarrow> nat) \<Rightarrow> int \<Rightarrow> log_locks \<Rightarrow> log_locks \<Rightarrow> bool" for proc sem where
  hold: "lk_pc S t = Outside \<Longrightarrow> 0 \<le> lk_var S (proc t) \<Longrightarrow> ipc_lock_step proc sem S (goto t Acquiring S)"
| claim: "lk_pc S t = Outside \<Longrightarrow> lk_var S (proc t) = LOCK_INVALID \<Longrightarrow>
    ipc_lock_step proc sem S (goto t Getting (lock_cas (proc t) LOCK_INVALID LOCK_INITING S))"
| get_new: "lk_pc S t = Getting \<Longrightarrow> lk_sem S = None \<Longrightarrow> ipc_lock_step proc sem S (goto t Setting (S\<lparr>lk_sem := Some 0\<rparr>))"
| get_old: "lk_pc S t = Getting \<Longrightarrow> lk_sem S = Some v \<Longrightarrow> ipc_lock_step proc sem S (lock_out (proc t) t sem S)"
| get_fails: "lk_pc S t = Getting \<Longrightarrow> ipc_lock_step proc sem S (goto t Outside (lock_out (proc t) t (- 1) S))"
| set_value: "lk_pc S t = Setting \<Longrightarrow> lk_sem S = Some v \<Longrightarrow> ipc_lock_step proc sem S (lock_out (proc t) t sem (S\<lparr>lk_sem := Some 1\<rparr>))"
| set_fails: "lk_pc S t = Setting \<Longrightarrow> ipc_lock_step proc sem S (goto t Outside (lock_out (proc t) t (- 1) S))"
| take: "lk_pc S t = Acquiring \<Longrightarrow> lk_sem S = Some (Suc v) \<Longrightarrow> ipc_lock_step proc sem S (goto t Holding (S\<lparr>lk_sem := Some v\<rparr>))"
| take_fails: "lk_pc S t = Acquiring \<Longrightarrow> ipc_lock_step proc sem S (goto t Outside S)"
| release: "lk_pc S t = Holding \<Longrightarrow> ipc_lock_step proc sem S (goto t Outside (if lk_var S (proc t) < 0 then S else sem_post S))"

inductive ipc_lock_reach :: "(nat \<Rightarrow> nat) \<Rightarrow> int \<Rightarrow> log_locks \<Rightarrow> bool" for proc sem where
  ipc_start: "ipc_lock_reach proc sem locks0"
| ipc_step: "ipc_lock_reach proc sem S \<Longrightarrow> ipc_lock_step proc sem S S' \<Longrightarrow> ipc_lock_reach proc sem S'"

lemma init_goto: "init_inv proc sem S \<Longrightarrow> \<not> initing pc \<Longrightarrow> init_inv proc sem (goto t pc S)"
  by (rule init_same) (auto simp: goto_def split: if_splits)

lemma ipc_init_step:
  assumes "init_inv proc sem S" and "ipc_lock_step proc sem S S'"
  shows "init_inv proc sem S'"
  using assms(2)
proof cases
  case (claim t)
  then show ?thesis using init_claim [OF assms(1)] by simp
next
  case (get_old t v)
  have "init_inv proc sem (lock_out (proc t) t sem (S\<lparr>lk_sem := lk_sem S\<rparr>))"
    by (rule init_out [OF assms(1)]) (use get_old in \<open>simp_all add: initing_def\<close>)
  then show ?thesis unfolding get_old(1) by simp
next
  case (set_value t v)
  then show ?thesis using init_out [OF assms(1), of t sem "Some 1"] by (simp add: initing_def)
next
  case (get_fails t)
  then have "init_inv proc sem (lock_out (proc t) t (- 1) S)" using init_out [OF assms(1), of t "- 1" "lk_sem S"] by (simp add: initing_def)
  then show ?thesis unfolding get_fails(1) by (rule init_goto) (simp add: initing_def)
next
  case (set_fails t)
  then have "init_inv proc sem (lock_out (proc t) t (- 1) S)" using init_out [OF assms(1), of t "- 1" "lk_sem S"] by (simp add: initing_def)
  then show ?thesis unfolding set_fails(1) by (rule init_goto) (simp add: initing_def)
qed (rule init_same [OF assms(1)]; auto simp: goto_def sem_post_def initing_def split: if_splits)+

lemma ipc_var_step:
  assumes "var_inv proc sem S" and "init_inv proc sem S" and "ipc_lock_step proc sem S S'" and "0 \<le> sem"
  shows "var_inv proc sem S'"
proof -
  have v: "lk_var S p < 0 \<or> lk_var S p = sem" for p using assms(2) by (auto simp: init_inv_def lock_defs dest: spec [of _ p])
  have i: "lk_pc S t \<in> {Getting, Setting} \<Longrightarrow> lk_var S (proc t) = LOCK_INITING" for t
    using assms(2) by (auto simp: init_inv_def initing_def)
  from assms(3) show ?thesis
  proof cases
    case (hold t)
    with v [of "proc t"] assms(1) show ?thesis by (auto simp: var_inv_def goto_def)
  next
    case (claim t)
    with assms(1,4) show ?thesis by (auto simp: var_inv_def lock_defs)
  next
    case (get_old t v)
    with i [of t] assms(1,4) show ?thesis by (auto simp: var_inv_def lock_defs)
  next
    case (set_value t v)
    with i [of t] assms(1,4) show ?thesis by (auto simp: var_inv_def lock_defs)
  next
    case (get_fails t)
    with i [of t] assms(1,4) show ?thesis by (auto simp: var_inv_def lock_defs)
  next
    case (set_fails t)
    with i [of t] assms(1,4) show ?thesis by (auto simp: var_inv_def lock_defs)
  qed (use assms(1) in \<open>auto simp: var_inv_def lock_defs\<close>)
qed

lemma ipc_sem_step:
  assumes "sem_inv proc sem S" and "var_inv proc sem S" and "ipc_lock_step proc sem S S'" and "0 \<le> sem"
  shows "sem_inv proc sem S'"
  using assms(3)
proof cases
  case (set_value t v)
  then have "t \<in> takers S" by (simp add: takers_def)
  with set_value assms(1,4) show ?thesis by (auto simp: sem_inv_def lock_out_def LOCK_INITING_def split: option.splits)
next
  case (release t)
  then have "t \<in> takers S" "lk_var S (proc t) = sem" using assms(2) by (auto simp: takers_def var_inv_def)
  with release assms(1,4) show ?thesis by (auto simp: sem_inv_def split: option.splits)
qed (use assms(1,4) in \<open>auto simp: sem_inv_def lock_out_def LOCK_INVALID_def LOCK_INITING_def split: option.splits\<close>)

section \<open>Properties\<close>

text \<open>
  Whatever system calls fail, threads of any number of processes rotate the log only one at a time: a thread that
  does not get the lock does not rotate and does not release it.
\<close>

theorem ipc_lock_exclusive:
  assumes "ipc_lock_reach proc sem S" and "0 \<le> sem" and "lk_pc S t = Holding" and "lk_pc S u = Holding"
  shows "t = u"
proof -
  have "init_inv proc sem S \<and> var_inv proc sem S \<and> sem_inv proc sem S" using assms(1)
  proof (induction rule: ipc_lock_reach.induct)
    case ipc_start
    then show ?case using assms(2)
      by (auto simp: locks0_def init_inv_def var_inv_def sem_inv_def takers_def initing_def LOCK_INVALID_def)
  next
    case (ipc_step S S')
    then show ?case using ipc_init_step [of proc sem S S'] ipc_var_step [of proc sem S S'] ipc_sem_step [of proc sem S S'] assms(2) by blast
  qed
  moreover have "t \<in> takers S" "u \<in> takers S" using assms(3,4) by (simp_all add: takers_def)
  ultimately show ?thesis by (auto simp: sem_inv_def split: option.splits)
qed

theorem ipc_lock_exclusive_witness:
  "\<exists>S. ipc_lock_reach (\<lambda>_. 0) 7 S \<and> lk_pc S 0 = Holding \<and> (\<forall>u. lk_pc S u = Holding \<longrightarrow> 0 = u)"
proof -
  let ?p = "\<lambda>_::nat. 0::nat"
  note st = ipc_step [where proc = ?p and sem = 7] and d = locks0_def goto_def lock_cas_def lock_out_def LOCK_INVALID_def LOCK_INITING_def
  let ?S2 = "goto 0 Getting (lock_cas 0 LOCK_INVALID LOCK_INITING locks0)"
  let ?S3 = "goto 0 Setting (?S2\<lparr>lk_sem := Some 0\<rparr>)"
  let ?S4 = "lock_out 0 0 7 (?S3\<lparr>lk_sem := Some 1\<rparr>)" and ?S5 = "\<lambda>S. goto 0 Holding (S\<lparr>lk_sem := Some 0\<rparr>)"
  have 2: "ipc_lock_reach ?p 7 ?S2" by (rule st [OF ipc_start], rule claim) (simp_all add: d)
  have 3: "ipc_lock_reach ?p 7 ?S3" by (rule st [OF 2], rule get_new) (simp_all add: d)
  have 4: "ipc_lock_reach ?p 7 ?S4" by (rule st [OF 3], rule set_value [where v = 0]) (simp_all add: d)
  have 5: "ipc_lock_reach ?p 7 (?S5 ?S4)" by (rule st [OF 4], rule ipc_lock_step.take) (simp_all add: d)
  moreover have h: "lk_pc (?S5 ?S4) 0 = Holding" by (simp add: goto_def)
  ultimately show ?thesis using ipc_lock_exclusive [OF 5 zero_le_numeral h] by blast
qed

text \<open>The files of the message library's log stay within their bounds.\<close>

theorem ipc_log_bounded:
  assumes "log_bounds IPC_LOG_LINE ipc_logger S" and "ipc_log True date body S = Some S'" and "length date < 32"
  shows "log_bounds IPC_LOG_LINE ipc_logger S' \<and> (\<forall>q. q \<notin> log_names ipc_logger \<longrightarrow> at S' q = at S q) \<and> fds S' = fds S"
  using print_line_bounds [OF assms(1) _ _ assms(3), of body S'] assms(2) ipc_log_print_line
  by (simp add: ipc_log_def ipc_logger_def IPC_LOG_SIZE_def IPC_LOG_LINE_def)

end
