(* ===== verification/Mc_Client.thy ===== *)
theory Mc_Client
  imports Mc_Main IPC_Subscriber Generic_Proc
begin

unbundle bit_operations_syntax

text \<open>
  The library that programs use to talk to the daemon, \<open>api/client/mc_client.c\<close>. Its state is the one registration of the process and
  the connection that \<open>mc_client_request\<close> keeps between calls. Structures are laid out as bytes, little endian. Members that
  \<open>malloc\<close> leaves indeterminate are \<open>None\<close> until they are stored; using one, writing past a buffer and reading past the data
  of a message are \<open>None\<close>.
\<close>

section \<open>Strings in structures\<close>

definition bytes_of :: "string \<Rightarrow> byte list" where "bytes_of s = map of_char s"

definition chars_of :: "byte list \<Rightarrow> string" where "chars_of bs = map (\<lambda>b. char_of (unat b)) bs"

text \<open>A string in a member of \<open>n\<close> bytes that are zero otherwise, and back.\<close>

definition str_field :: "nat \<Rightarrow> string \<Rightarrow> byte list" where
  "str_field n s = bytes_of s @ replicate (n - length s) 0"

definition field_str :: "byte list \<Rightarrow> string" where "field_str bs = c_str (chars_of bs)"

section \<open>Messages and state\<close>

definition MC_SERVER :: string where "MC_SERVER = ''IPC_MC''"
definition MC_CLIENT_NAME_LEN :: nat where "MC_CLIENT_NAME_LEN = 31"
definition MC_CLIENT_CMDLINE_LEN :: nat where "MC_CLIENT_CMDLINE_LEN = 127"
definition MC_EXCEPTION_R_SIZE :: nat where "MC_EXCEPTION_R_SIZE = 1024"
definition MC_STRING_TRUE :: string where "MC_STRING_TRUE = ''true''"
definition MC_STRING_FALSE :: string where "MC_STRING_FALSE = ''false''"

definition ID_PROBE :: "32 word" where "ID_PROBE = 0"
definition ID_READY :: "32 word" where "ID_READY = 1"
definition ID_EXIT :: "32 word" where "ID_EXIT = 2"
definition ID_HEARTBEAT :: "32 word" where "ID_HEARTBEAT = 3"
definition ID_DETACH :: "32 word" where "ID_DETACH = 4"
definition ID_EXCEPTION :: "32 word" where "ID_EXCEPTION = 5"
definition ID_SYN :: "32 word" where "ID_SYN = 6"
definition ID_ACK :: "32 word" where "ID_ACK = 7"
definition ID_APPLY :: "32 word" where "ID_APPLY = 8"
definition ID_VOTE :: "32 word" where "ID_VOTE = 9"
definition ID_REBOOT :: "32 word" where "ID_REBOOT = 10"
definition ID_RESTART :: "32 word" where "ID_RESTART = 11"

definition ind_list :: "mc_ind list" where
  "ind_list = [MC_IND_PROBE, MC_IND_EXIT, MC_IND_SYNC_READY, MC_IND_SYNC_DEAD, MC_IND_SYNC_RESTART, MC_IND_SYS_REBOOT, MC_IND_SYS_RSTMODEM,
     MC_IND_SYS_SLEEP, MC_IND_SYS_WAKEUP, MC_IND_SYS_NETWORK, MC_IND_SYS_VOTE_SLEEP, MC_IND_SYS_VOTE_REBOOT, MC_IND_SYS_SHUTDOWN]"

definition ind_of :: "32 word \<Rightarrow> mc_ind option" where
  "ind_of i = (if unat i < length ind_list then Some (ind_list ! unat i) else None)"

definition IND_NETWORK :: "32 word" where "IND_NETWORK = 9"

fun syn_code_of :: "syn_id \<Rightarrow> 32 word" where
  "syn_code_of MC_SYN_SLEEP = 0" | "syn_code_of MC_SYN_RESUME = 1" | "syn_code_of MC_SYN_REBOOT = 2"

fun apply_code_of :: "apply_id \<Rightarrow> 32 word" where
  "apply_code_of MC_APPLY_SLEEP = 0" | "apply_code_of MC_APPLY_REBOOT = 1"

text \<open>The registration of the process, and with it the connection kept for requests.\<close>

record mc_cltinfo =
  ci_name :: string
  ci_fn :: "nat option"
  ci_arg :: nat
  ci_subscriber :: "ipc_subscriber option"

record mc_lib =
  lib_client :: "mc_cltinfo option"
  lib_request :: "ipc_client option"

text \<open>
  What a call finds: the pid, whether the next \<open>malloc\<close> and the one for a large notification succeed, and what the stack holds in the
  flags of a message, in padding and in a \<open>struct ipc_client\<close> that are not initialised.
\<close>

record mc_env =
  e_pid :: int
  e_malloc :: bool
  e_alloc :: bool
  e_flags :: "16 word"
  e_pad :: "32 word"
  e_client :: ipc_client

definition mk_msg :: "16 word \<Rightarrow> 32 word \<Rightarrow> byte list \<Rightarrow> ipc_msg" where
  "mk_msg fl i data = \<lparr>msg_from = 0, msg_id = i, msg_flags = fl, msg_data_len = of_nat (length data), msg_data = data\<rparr>"

section \<open>Sending\<close>

definition mc_client_push :: "mc_env \<Rightarrow> 64 word \<Rightarrow> 32 word \<Rightarrow> byte list option \<Rightarrow> 32 word \<Rightarrow> mc_lib \<Rightarrow> net \<Rightarrow> (int \<times> net) option" where
  "mc_client_push E msk i data sz lib N = do {
     (r, N) \<leftarrow> (case lib_client lib of
         Some ci \<Rightarrow> do {
           s \<leftarrow> ci_subscriber ci;
           ipc_client_publish (e_alloc E) (e_pid E) (su_client s) IPC_TO_BROADCAST msk i data sz 0 N
         }
       | None \<Rightarrow> do {
           (r, c, N) \<leftarrow> ipc_client_init (e_pid E) MC_SERVER (e_client E) N;
           if r < 0 then Some (- 1, N)
           else do {
             (r, N) \<leftarrow> ipc_client_publish (e_alloc E) (e_pid E) c IPC_TO_BROADCAST msk i data sz 0 N;
             Some (r, snd (ipc_client_close c N))
           }
         });
     Some (if r = IPC_REQUEST_SUCCESS then 0 else - 1, N)
   }"

definition mc_client_request_easy :: "mc_env \<Rightarrow> ipc_msg \<Rightarrow> nat \<Rightarrow> int \<Rightarrow> net \<Rightarrow> (int \<times> ipc_msg \<times> net) option" where
  "mc_client_request_easy E m sz tmo N = do {
     (r, c, N) \<leftarrow> ipc_client_init (e_pid E) MC_SERVER (e_client E) N;
     if r < 0 then Some (- 1, m, N)
     else do {
       (r, m, N) \<leftarrow> ipc_client_request (e_pid E) c m sz tmo N;
       Some (if r < 0 then - 1 else 0, m, snd (ipc_client_close c N))
     }
   }"

definition mc_client_request :: "mc_env \<Rightarrow> ipc_msg \<Rightarrow> nat \<Rightarrow> int \<Rightarrow> mc_lib \<Rightarrow> net \<Rightarrow> (int \<times> ipc_msg \<times> mc_lib \<times> net) option" where
  "mc_client_request E m sz tmo lib N = do {
     (co, N) \<leftarrow> (case lib_request lib of
         Some c \<Rightarrow> Some (Some c, N)
       | None \<Rightarrow> ipc_client_create (e_malloc E) (e_pid E) MC_SERVER N);
     case co of
       None \<Rightarrow> Some (- 1, m, lib\<lparr>lib_request := None\<rparr>, N)
     | Some c \<Rightarrow> do {
         (r, m, N) \<leftarrow> ipc_client_request (e_pid E) c m sz tmo N;
         Some (if r \<noteq> IPC_REQUEST_SUCCESS then (- 1, m, lib\<lparr>lib_request := None\<rparr>, ipc_client_destroy (Some c) N)
               else (0, m, lib\<lparr>lib_request := Some c\<rparr>, N))
       }
   }"

definition mc_report :: "mc_env \<Rightarrow> mc_cltinfo \<Rightarrow> ipc_msg \<Rightarrow> net \<Rightarrow> (int \<times> net) option" where
  "mc_report E ci m N = do {
     s \<leftarrow> ci_subscriber ci;
     (r, N) \<leftarrow> ipc_subscriber_report (e_pid E) s m N;
     Some (if r = IPC_REQUEST_SUCCESS then 0 else - 1, N)
   }"

section \<open>The callback\<close>

definition mc_client_probe :: "mc_env \<Rightarrow> mc_cltinfo \<Rightarrow> byte list \<Rightarrow> net \<Rightarrow> (int \<times> net) option" where
  "mc_client_probe E ci probe N = do {
     c_assert (8 \<le> length probe);
     mc_report E ci (mk_msg (e_flags E) ID_PROBE (take 8 probe)) N
   }"

text \<open>\<open>mc_client_exit\<close> does not return: it reports and aborts the program.\<close>

definition mc_client_exit :: "mc_env \<Rightarrow> mc_cltinfo \<Rightarrow> net \<Rightarrow> net option" where
  "mc_client_exit E ci N = do { (r, N) \<leftarrow> mc_report E ci (mk_msg (e_flags E) ID_EXIT []) N; Some N }"

text \<open>The call of the user's function with its arguments, whether the program is aborted, and the net.\<close>

definition mc_client_callback ::
    "mc_env \<Rightarrow> mc_cltinfo \<Rightarrow> 32 word \<Rightarrow> byte list \<Rightarrow> 32 word \<Rightarrow> net \<Rightarrow> ((nat \<times> 32 word \<times> byte list \<times> 32 word \<times> nat) \<times> bool \<times> net) option" where
  "mc_client_callback E ci i data sz N = do {
     fn \<leftarrow> ci_fn ci;
     let call = (fn, i, data, sz, ci_arg ci);
     case ind_of i of
       Some MC_IND_PROBE \<Rightarrow> do { (r, N) \<leftarrow> mc_client_probe E ci data N; Some (call, False, N) }
     | Some MC_IND_EXIT \<Rightarrow> do { N \<leftarrow> mc_client_exit E ci N; Some (call, True, N) }
     | Some MC_IND_SYS_SHUTDOWN \<Rightarrow> do { N \<leftarrow> mc_client_exit E ci N; Some (call, True, N) }
     | _ \<Rightarrow> Some (call, False, N)
   }"

section \<open>Registration\<close>

definition tskinfo_bytes :: "mc_tskinfo \<Rightarrow> byte list" where
  "tskinfo_bytes t = le32 (of_int (ti_tid t)) @ le32 (of_nat (ti_strategy t)) @ le32 (of_int (ti_interval t))"

definition reginfo_bytes :: "mc_reginfo \<Rightarrow> byte list" where
  "reginfo_bytes r = le32 (of_int (r_pid r)) @ le32 (of_int (r_latch r)) @ le32 (of_nat (length (r_tasks r))) @
     str_field (MC_CLIENT_NAME_LEN + 1) (r_name r) @ str_field (MC_CLIENT_CMDLINE_LEN + 1) (r_cmdline r) @ concat (map tskinfo_bytes (r_tasks r))"

text \<open>
  Up to the start of the subscriber's thread, which from then on runs the callback with the new block; \<open>mems\<close> are the results of the
  allocations of the subscriber, \<open>thread\<close> is that of \<open>pthread_create\<close>.
\<close>

definition register_start ::
    "mc_env \<Rightarrow> bool \<times> bool \<times> bool \<Rightarrow> int \<times> nat \<Rightarrow> 64 word \<Rightarrow> mc_reginfo option \<Rightarrow> nat \<Rightarrow> mc_lib \<Rightarrow> net \<Rightarrow> (ipc_subscriber option \<times> net) option" where
  "register_start E mems thread msk info block lib N =
     (if lib_client lib \<noteq> None then Some (None, N)
      else if \<not> e_malloc E then Some (None, N)
      else let sz = (case info of Some r \<Rightarrow> 172 + 12 * of_nat (length (r_tasks r)) | None \<Rightarrow> 0) in
        ipc_subscriber_register (fst mems) (fst (snd mems)) (snd (snd mems)) thread (e_pid E) MC_SERVER msk (map_option reginfo_bytes info) sz True block N)"

definition new_cltinfo :: "string \<Rightarrow> mc_cltinfo" where
  "new_cltinfo name0 = \<lparr>ci_name = name0, ci_fn = None, ci_arg = 0, ci_subscriber = None\<rparr>"

text \<open>\<open>name0\<close> is what the new block holds in the name; \<open>mem\<close> and \<open>I\<close> are what \<open>process_name\<close> finds.\<close>

definition mc_client_register ::
    "mc_env \<Rightarrow> bool \<times> bool \<times> bool \<Rightarrow> int \<times> nat \<Rightarrow> (nat \<Rightarrow> bool) \<Rightarrow> proc_info \<Rightarrow> string \<Rightarrow> nat \<Rightarrow> 64 word \<Rightarrow> mc_reginfo option \<Rightarrow> nat \<Rightarrow> nat \<Rightarrow>
     mc_lib \<Rightarrow> net \<Rightarrow> (int \<times> mc_lib \<times> net) option" where
  "mc_client_register E mems thread mem I name0 block msk info fn arg lib N = do {
     (so, N) \<leftarrow> register_start E mems thread msk info block lib N;
     case so of
       None \<Rightarrow> Some (- 1, lib, N)
     | Some s \<Rightarrow> do {
         let ci = (new_cltinfo name0)\<lparr>ci_arg := arg, ci_fn := Some fn, ci_subscriber := Some s\<rparr>;
         name \<leftarrow> (case info of
             Some r \<Rightarrow> do { c_assert (length (r_name r) \<le> MC_CLIENT_NAME_LEN); Some (r_name r) }
           | None \<Rightarrow> do { (n, name) \<leftarrow> process_name mem I (MC_CLIENT_NAME_LEN + 1) name0; Some name });
         Some (0, lib\<lparr>lib_client := Some (ci\<lparr>ci_name := name\<rparr>)\<rparr>, N)
       }
   }"

section \<open>Requests about a process\<close>

text \<open>A string used as a format without arguments: a conversion has nothing to convert.\<close>

fun printf_plain :: "string \<Rightarrow> string option" where
  "printf_plain [] = Some []"
| "printf_plain (ch # s) =
     (if ch \<noteq> CHR ''%'' then map_option (Cons ch) (printf_plain s)
      else case s of
          ch' # s' \<Rightarrow> if ch' = CHR ''%'' then map_option (Cons ch') (printf_plain s') else None
        | [] \<Rightarrow> None)"

definition reply_true :: "ipc_msg \<Rightarrow> bool option" where
  "reply_true m = do { c_assert (NUL \<in> set (chars_of (msg_data m))); Some (strcmp (field_str (msg_data m)) MC_STRING_TRUE = 0) }"

definition detach_bytes :: "string \<Rightarrow> 32 word \<Rightarrow> 32 word \<Rightarrow> 32 word \<Rightarrow> byte list" where
  "detach_bytes s identity state exits =
     le32 state @ le32 exits @ le32 identity @ str_field (MC_CLIENT_NAME_LEN + 1) (take MC_CLIENT_NAME_LEN s)"

definition mc_client_detach :: "mc_env \<Rightarrow> string \<Rightarrow> 32 word \<Rightarrow> 32 word \<Rightarrow> 32 word \<Rightarrow> net \<Rightarrow> (int \<times> net) option" where
  "mc_client_detach E name identity state exits N = do {
     s \<leftarrow> printf_plain name;
     (r, m, N) \<leftarrow> mc_client_request_easy E (mk_msg 1 ID_DETACH (detach_bytes s identity state exits)) 128 1 N;
     if r < 0 then Some (- 1, N)
     else do { b \<leftarrow> reply_true m; Some (if b then 1 else 0, N) }
   }"

definition mc_client_restart :: "mc_env \<Rightarrow> string \<Rightarrow> net \<Rightarrow> (int \<times> net) option" where
  "mc_client_restart E name N =
     (if length name > MC_CLIENT_NAME_LEN then Some (- 1, N)
      else do {
        (r, m, N) \<leftarrow> mc_client_request_easy E (mk_msg 1 ID_RESTART (str_field (length name + 1) name)) (MC_CLIENT_NAME_LEN + 17) 5 N;
        if r < 0 then Some (- 1, N)
        else do { b \<leftarrow> reply_true m; Some (if b then 1 else 0, N) }
      })"

section \<open>Reports\<close>

definition mc_client_ready :: "mc_env \<Rightarrow> mc_lib \<Rightarrow> net \<Rightarrow> (int \<times> net) option" where
  "mc_client_ready E lib N = do {
     ci \<leftarrow> lib_client lib;
     mc_report E ci (mk_msg (e_flags E) ID_READY (str_field (length (ci_name ci) + 1) (ci_name ci))) N
   }"

definition mc_client_ready_test :: "int \<Rightarrow> longs \<Rightarrow> 64 word option" where
  "mc_client_ready_test i bitmap = do { c_assert (i < int MC_IDENTITY_MAX \<and> 0 \<le> i); test_bit (nat i) bitmap }"

definition mc_client_heartbeat :: "mc_env \<Rightarrow> 64 word \<Rightarrow> mc_lib \<Rightarrow> net \<Rightarrow> (int \<times> net) option" where
  "mc_client_heartbeat E mc_gettid lib N = do {
     ci \<leftarrow> lib_client lib;
     s \<leftarrow> ci_subscriber ci;
     mc_report E ci (mk_msg (e_flags E) ID_HEARTBEAT (le32 (of_int (cl_identity (su_client s))) @ le32 (e_pad E) @ le64 mc_gettid)) N
   }"

definition exception_bytes :: "32 word \<Rightarrow> byte list \<Rightarrow> 32 word \<Rightarrow> byte list" where
  "exception_bytes eid einfo elen = le32 eid @ le32 elen @ take (unat elen) einfo"

definition mc_client_exeception :: "mc_env \<Rightarrow> 32 word \<Rightarrow> byte list \<Rightarrow> 32 word \<Rightarrow> mc_lib \<Rightarrow> net \<Rightarrow> (int \<times> net) option" where
  "mc_client_exeception E eid einfo elen lib N = do {
     ci \<leftarrow> lib_client lib;
     s \<leftarrow> ci_subscriber ci;
     c_assert (su_mask s AND MC_EXCEPTION_MASK \<noteq> 0);
     if 12 + 8 + unat elen > MC_EXCEPTION_R_SIZE \<and> \<not> e_malloc E then Some (- 1, N)
     else do {
       c_assert (unat elen \<le> length einfo);
       mc_report E ci (mk_msg (e_flags E) ID_EXCEPTION (exception_bytes eid einfo elen)) N
     }
   }"

definition mc_client_network_syn :: "mc_env \<Rightarrow> 32 word \<Rightarrow> mc_lib \<Rightarrow> net \<Rightarrow> (int \<times> net) option" where
  "mc_client_network_syn E status lib N = mc_client_push E MC_SYSTEM_MASK IND_NETWORK (Some (le32 status)) 4 lib N"

section \<open>Barriers and votes\<close>

text \<open>The first member of the answer.\<close>

definition reply_int :: "ipc_msg \<Rightarrow> int option" where
  "reply_int m = do { c_assert (4 \<le> length (msg_data m)); Some (sint (from_le32 (take 4 (msg_data m)))) }"

definition syn_bytes :: "32 word \<Rightarrow> int \<Rightarrow> string \<Rightarrow> byte list \<Rightarrow> byte list" where
  "syn_bytes synid tmo sponsor data =
     le32 synid @ le32 (of_int tmo) @ str_field (MC_CLIENT_NAME_LEN + 1) sponsor @ le32 (of_nat (length data)) @ data"

definition on_system :: "mc_lib \<Rightarrow> mc_cltinfo option" where
  "on_system lib = do {
     ci \<leftarrow> lib_client lib;
     s \<leftarrow> ci_subscriber ci;
     c_assert (su_mask s AND MC_SYSTEM_MASK \<noteq> 0);
     Some ci
   }"

definition mc_client_syn :: "mc_env \<Rightarrow> 32 word \<Rightarrow> byte list option \<Rightarrow> int \<Rightarrow> mc_lib \<Rightarrow> net \<Rightarrow> (int \<times> mc_lib \<times> net) option" where
  "mc_client_syn E synid data tmo lib N = do {
     ci \<leftarrow> on_system lib;
     let data = (case data of Some d \<Rightarrow> d | None \<Rightarrow> []);
     c_assert (length (ci_name ci) \<le> MC_CLIENT_NAME_LEN \<and> 12 + 44 + length data \<le> 128);
     (r, m, lib, N) \<leftarrow> mc_client_request E (mk_msg 1 ID_SYN (syn_bytes synid tmo (ci_name ci) data)) 128 (tmo + 1) lib N;
     if r < 0 then Some (- 1, lib, N)
     else do { code \<leftarrow> reply_int m; Some (code, lib, N) }
   }"

definition mc_client_ack :: "mc_env \<Rightarrow> 32 word \<Rightarrow> 32 word \<Rightarrow> mc_lib \<Rightarrow> net \<Rightarrow> (int \<times> net) option" where
  "mc_client_ack E identity synid lib N = do {
     ci \<leftarrow> lib_client lib;
     c_assert (length (ci_name ci) \<le> MC_CLIENT_NAME_LEN);
     mc_report E ci (mk_msg 0 ID_ACK (le32 synid @ le32 identity @ str_field (MC_CLIENT_NAME_LEN + 1) (ci_name ci))) N
   }"

definition mc_client_sleep_syn :: "mc_env \<Rightarrow> int \<Rightarrow> mc_lib \<Rightarrow> net \<Rightarrow> (int \<times> mc_lib \<times> net) option" where
  "mc_client_sleep_syn E tmo lib N = mc_client_syn E (syn_code_of MC_SYN_SLEEP) None tmo lib N"

definition mc_client_sleep_ack :: "mc_env \<Rightarrow> 32 word \<Rightarrow> mc_lib \<Rightarrow> net \<Rightarrow> (int \<times> net) option" where
  "mc_client_sleep_ack E identity lib N = mc_client_ack E identity (syn_code_of MC_SYN_SLEEP) lib N"

definition mc_client_resume_syn :: "mc_env \<Rightarrow> 32 word \<Rightarrow> int \<Rightarrow> mc_lib \<Rightarrow> net \<Rightarrow> (int \<times> mc_lib \<times> net) option" where
  "mc_client_resume_syn E source tmo lib N = mc_client_syn E (syn_code_of MC_SYN_RESUME) (Some (le32 source)) tmo lib N"

definition mc_client_resume_ack :: "mc_env \<Rightarrow> 32 word \<Rightarrow> mc_lib \<Rightarrow> net \<Rightarrow> (int \<times> net) option" where
  "mc_client_resume_ack E identity lib N = mc_client_ack E identity (syn_code_of MC_SYN_RESUME) lib N"

definition mc_client_reboot_syn :: "mc_env \<Rightarrow> int \<Rightarrow> mc_lib \<Rightarrow> net \<Rightarrow> (int \<times> mc_lib \<times> net) option" where
  "mc_client_reboot_syn E tmo lib N = mc_client_syn E (syn_code_of MC_SYN_REBOOT) None tmo lib N"

definition mc_client_reboot_ack :: "mc_env \<Rightarrow> 32 word \<Rightarrow> mc_lib \<Rightarrow> net \<Rightarrow> (int \<times> net) option" where
  "mc_client_reboot_ack E identity lib N = mc_client_ack E identity (syn_code_of MC_SYN_REBOOT) lib N"

definition mc_client_apply :: "mc_env \<Rightarrow> 32 word \<Rightarrow> int \<Rightarrow> mc_lib \<Rightarrow> net \<Rightarrow> (int \<times> mc_lib \<times> net) option" where
  "mc_client_apply E applyid tmo lib N = do {
     ci \<leftarrow> on_system lib;
     c_assert (length (ci_name ci) \<le> MC_CLIENT_NAME_LEN);
     (r, m, lib, N) \<leftarrow> mc_client_request E (mk_msg 1 ID_APPLY (le32 applyid @ le32 (of_int tmo) @ str_field (MC_CLIENT_NAME_LEN + 1) (ci_name ci))) 128
        (tmo + 1) lib N;
     if r < 0 then Some (- 1, lib, N)
     else do { approved \<leftarrow> reply_int m; Some (approved, lib, N) }
   }"

definition mc_client_vote :: "mc_env \<Rightarrow> 32 word \<Rightarrow> 32 word \<Rightarrow> 32 word \<Rightarrow> mc_lib \<Rightarrow> net \<Rightarrow> (int \<times> net) option" where
  "mc_client_vote E applyid identity approved lib N = do {
     ci \<leftarrow> lib_client lib;
     c_assert (length (ci_name ci) \<le> MC_CLIENT_NAME_LEN);
     mc_report E ci (mk_msg 0 ID_VOTE (le32 applyid @ le32 approved @ le32 identity @ str_field (MC_CLIENT_NAME_LEN + 1) (ci_name ci))) N
   }"

definition mc_client_apply_sleep :: "mc_env \<Rightarrow> int \<Rightarrow> mc_lib \<Rightarrow> net \<Rightarrow> (int \<times> mc_lib \<times> net) option" where
  "mc_client_apply_sleep E tmo lib N = mc_client_apply E (apply_code_of MC_APPLY_SLEEP) tmo lib N"

definition mc_client_apply_reboot :: "mc_env \<Rightarrow> int \<Rightarrow> mc_lib \<Rightarrow> net \<Rightarrow> (int \<times> mc_lib \<times> net) option" where
  "mc_client_apply_reboot E tmo lib N = mc_client_apply E (apply_code_of MC_APPLY_REBOOT) tmo lib N"

definition mc_client_vote_sleep :: "mc_env \<Rightarrow> 32 word \<Rightarrow> 32 word \<Rightarrow> mc_lib \<Rightarrow> net \<Rightarrow> (int \<times> net) option" where
  "mc_client_vote_sleep E identity approved lib N = mc_client_vote E (apply_code_of MC_APPLY_SLEEP) identity approved lib N"

definition mc_client_vote_reboot :: "mc_env \<Rightarrow> 32 word \<Rightarrow> 32 word \<Rightarrow> mc_lib \<Rightarrow> net \<Rightarrow> (int \<times> net) option" where
  "mc_client_vote_reboot E identity approved lib N = mc_client_vote E (apply_code_of MC_APPLY_REBOOT) identity approved lib N"

section \<open>Reboot\<close>

text \<open>
  The second component is set when the request fails and the program asks the kernel itself; \<open>True\<close> is for power off. \<open>mem\<close> and \<open>I\<close> are
  what \<open>process_name\<close> finds.
\<close>

definition mc_client_reboot ::
    "mc_env \<Rightarrow> (nat \<Rightarrow> bool) \<Rightarrow> proc_info \<Rightarrow> bool \<Rightarrow> bool \<Rightarrow> int \<Rightarrow> mc_lib \<Rightarrow> net \<Rightarrow> (int \<times> bool option \<times> mc_lib \<times> net) option" where
  "mc_client_reboot E mem I poweroff block wait_tmo lib N = do {
     (n, sponsor) \<leftarrow> process_name mem I (MC_CLIENT_NAME_LEN + 1) [];
     let data = syn_bytes (syn_code_of MC_SYN_REBOOT) wait_tmo sponsor (le32 (if poweroff then 1 else 0));
     (r, m, lib, N) \<leftarrow> mc_client_request E (mk_msg (if block then 1 else 0) ID_REBOOT data) 128 (wait_tmo + 30) lib N;
     Some (if r < 0 then (- 1, Some poweroff, lib, N) else (0, None, lib, N))
   }"

section \<open>The other end\<close>

text \<open>
  How the handlers of the daemon read the data of a message, and what they put in its place as an answer. An identifier that is none of the
  enumeration falls to the default case of their switches.
\<close>

definition syn_of :: "32 word \<Rightarrow> syn_id option" where
  "syn_of w = (if w = 0 then Some MC_SYN_SLEEP else if w = 1 then Some MC_SYN_RESUME else if w = 2 then Some MC_SYN_REBOOT else None)"

definition apply_of :: "32 word \<Rightarrow> apply_id option" where
  "apply_of w = (if w = 0 then Some MC_APPLY_SLEEP else if w = 1 then Some MC_APPLY_REBOOT else None)"

definition int_at :: "nat \<Rightarrow> byte list \<Rightarrow> 32 word option" where
  "int_at k d = (if k + 4 \<le> length d then Some (from_le32 (take 4 (drop k d))) else None)"

definition long_at :: "nat \<Rightarrow> byte list \<Rightarrow> 64 word option" where
  "long_at k d = (if k + 8 \<le> length d then Some (from_le64 (take 8 (drop k d))) else None)"

definition string_at :: "nat \<Rightarrow> byte list \<Rightarrow> string option" where
  "string_at k d = (if NUL \<in> set (chars_of (drop k d)) then Some (field_str (drop k d)) else None)"

definition mc_msg_of :: "ipc_msg \<Rightarrow> mc_msg option" where
  "mc_msg_of m =
     (let i = msg_id m; d = msg_data m in
      if i = ID_PROBE then do { t \<leftarrow> long_at 0 d; Some (MC_MSG_PROBE (sint t)) }
      else if i = ID_READY then do { s \<leftarrow> string_at 0 d; Some (MC_MSG_READY s) }
      else if i = ID_EXIT then Some MC_MSG_EXIT
      else if i = ID_HEARTBEAT then do { pid \<leftarrow> int_at 0 d; t \<leftarrow> long_at 8 d; Some (MC_MSG_HEARTBEAT (sint pid) (uint t)) }
      else if i = ID_DETACH then do {
        state \<leftarrow> int_at 0 d; exits \<leftarrow> int_at 4 d; s \<leftarrow> string_at 12 d; Some (MC_MSG_DETACH (state \<noteq> 0) s (exits \<noteq> 0))
      }
      else if i = ID_EXCEPTION then do { eid \<leftarrow> int_at 0 d; Some (MC_MSG_EXCEPTION (sint eid)) }
      else if i = ID_SYN then do { k \<leftarrow> int_at 0 d; Some (MC_MSG_SYN (syn_of k)) }
      else if i = ID_ACK then do { k \<leftarrow> int_at 0 d; Some (MC_MSG_ACK (syn_of k)) }
      else if i = ID_APPLY then do { k \<leftarrow> int_at 0 d; Some (MC_MSG_APPLY (apply_of k)) }
      else if i = ID_VOTE then do { k \<leftarrow> int_at 0 d; ok \<leftarrow> int_at 4 d; Some (MC_MSG_VOTE (apply_of k) (ok \<noteq> 0)) }
      else if i = ID_REBOOT then do { v \<leftarrow> int_at 44 d; Some (MC_MSG_REBOOT (v \<noteq> 0)) }
      else if i = ID_RESTART then do { s \<leftarrow> string_at 0 d; Some (MC_MSG_RESTART s) }
      else None)"

text \<open>From the bytes on the wire, through the token.\<close>

definition mc_wire :: "byte list \<Rightarrow> mc_msg option" where
  "mc_wire bs = (case friendly (msg_at bs) of None \<Rightarrow> None | Some m \<Rightarrow> mc_msg_of m)"

fun syn_code_num :: "syn_code \<Rightarrow> 32 word" where
  "syn_code_num MC_SYN_DONE = 0" | "syn_code_num MC_SYN_ERR = 1" | "syn_code_num MC_SYN_TMO = 2"

fun apply_ret_num :: "apply_ret \<Rightarrow> 32 word" where
  "apply_ret_num MC_APPLY_R_UNAPPROVED = 0" | "apply_ret_num MC_APPLY_R_APPROVED = 1" | "apply_ret_num MC_APPLY_R_ERR = 2"

fun answer_data :: "mc_answer \<Rightarrow> byte list" where
  "answer_data No_answer = []"
| "answer_data (Syn_answer c) = le32 (syn_code_num c)"
| "answer_data (Apply_answer c) = le32 (apply_ret_num c)"
| "answer_data (Found_answer b) = (let s = (if b then MC_STRING_TRUE else MC_STRING_FALSE) in str_field (length s + 1) s)"

text \<open>The registration, as \<open>mc_ipc_register_process\<close> and \<open>mcd_client_construct\<close> read it; \<open>strategy\<close> is used as a bit number.\<close>

fun tasks_at :: "nat \<Rightarrow> byte list \<Rightarrow> mc_tskinfo list option" where
  "tasks_at 0 d = Some []"
| "tasks_at (Suc n) d = do {
     t \<leftarrow> int_at 0 d; s \<leftarrow> int_at 4 d; i \<leftarrow> int_at 8 d;
     ts \<leftarrow> tasks_at n (drop 12 d);
     Some (\<lparr>ti_tid = sint t, ti_strategy = unat s, ti_interval = sint i\<rparr> # ts)
   }"

definition reginfo_at :: "byte list \<Rightarrow> mc_reginfo option" where
  "reginfo_at d = do {
     pid \<leftarrow> int_at 0 d; latch \<leftarrow> int_at 4 d; n \<leftarrow> int_at 8 d;
     name \<leftarrow> string_at 12 d; cmdline \<leftarrow> string_at 44 d;
     ts \<leftarrow> tasks_at (unat n) (drop 172 d);
     Some \<lparr>r_pid = sint pid, r_latch = sint latch, r_name = name, r_cmdline = cmdline, r_tasks = ts\<rparr>
   }"

end
