(* ===== verification/Mc_Client_Properties.thy ===== *)
theory Mc_Client_Properties
  imports Mc_Client IPC_Client_Properties IPC_Handlers
begin

unbundle bit_operations_syntax

text \<open>
  The client library against the daemon: what a call sends is read by the daemon as the message that the call means, and its answer
  comes back as the value of the call.
\<close>

section \<open>Fields\<close>

lemma chars_bytes [simp]: "chars_of (bytes_of s) = s"
proof -
  have "char_of (unat (of_char ch :: 8 word)) = ch" for ch :: char
  proof -
    have "unat (of_nat (of_char ch) :: 8 word) = (of_char ch :: nat)"
      by (simp add: unat_of_nat)
    then show ?thesis by (simp add: of_nat_of_char)
  qed
  then show ?thesis by (simp add: chars_of_def bytes_of_def comp_def)
qed

lemma chars_append [simp]: "chars_of (a @ b) = chars_of a @ chars_of b"
  by (simp add: chars_of_def)

lemma chars_zero [simp]: "chars_of (replicate n 0) = replicate n NUL"
  by (simp add: chars_of_def NUL_def char_of_def)

lemma length_bytes_of [simp]: "length (bytes_of s) = length s" by (simp add: bytes_of_def)

lemma length_str_field: "length s \<le> n \<Longrightarrow> length (str_field n s) = n" by (simp add: str_field_def)

lemma length_le64 [simp]: "length (le64 w) = 8" by (simp add: le64_def)

lemma field_str_append: "NUL \<notin> set s \<Longrightarrow> length s < n \<Longrightarrow> field_str (str_field n s @ r) = s"
proof -
  assume s: "NUL \<notin> set s" "length s < n"
  then have "takeWhile (\<lambda>ch. ch \<noteq> NUL) (s @ replicate (n - length s) NUL @ chars_of r) = s @ takeWhile (\<lambda>ch. ch \<noteq> NUL) (replicate (n - length s) NUL @ chars_of r)"
    by (intro takeWhile_append2) auto
  also have "takeWhile (\<lambda>ch. ch \<noteq> NUL) (replicate (n - length s) NUL @ chars_of r) = []" using s(2) by (cases "n - length s") auto
  finally show ?thesis by (simp add: field_str_def str_field_def c_str_def)
qed

lemma string_at_field:
  assumes "NUL \<notin> set s" and "length s < n" and "drop k d = str_field n s @ r"
  shows "string_at k d = Some s"
proof -
  have "NUL \<in> set (chars_of (str_field n s @ r))" using assms(2) by (simp add: str_field_def)
  then show ?thesis using field_str_append [OF assms(1,2), of r] by (simp add: string_at_def assms(3))
qed

lemma int_at_le: "drop k d = le32 w @ r \<Longrightarrow> int_at k d = Some w"
proof -
  assume d: "drop k d = le32 w @ r"
  then have "length d - k = 4 + length r" by (metis length_drop length_append length_le(2))
  then show ?thesis using d by (simp add: int_at_def from_le32_le32)
qed

lemma long_at_le: "drop k d = le64 w @ r \<Longrightarrow> long_at k d = Some w"
proof -
  assume d: "drop k d = le64 w @ r"
  then have "length d - k = 8 + length r" by (metis length_drop length_append length_le64)
  then show ?thesis using d by (simp add: long_at_def from_le64_le64)
qed

section \<open>Sending\<close>

definition mc_ids :: "32 word list" where
  "mc_ids = [ID_PROBE, ID_READY, ID_EXIT, ID_HEARTBEAT, ID_DETACH, ID_EXCEPTION, ID_SYN, ID_ACK, ID_APPLY, ID_VOTE, ID_REBOOT, ID_RESTART]"

lemmas mc_id_defs = ID_PROBE_def ID_READY_def ID_EXIT_def ID_HEARTBEAT_def ID_DETACH_def ID_EXCEPTION_def ID_SYN_def ID_ACK_def ID_APPLY_def
  ID_VOTE_def ID_REBOOT_def ID_RESTART_def

lemma mc_ids_ok: "msg_id m \<in> set mc_ids \<Longrightarrow> id_ok m \<and> users_msg m"
  by (auto simp: mc_ids_def mc_id_defs id_ok_def users_msg_def IPC_MSG_TOKEN_MASK_def IPC_MSG_SDK_def word_sless_alt)

lemma mc_msg_of_cong: "msg_id m = msg_id m' \<Longrightarrow> msg_data m = msg_data m' \<Longrightarrow> mc_msg_of m = mc_msg_of m'"
  by (simp add: mc_msg_of_def)

text \<open>One message has been sent on the socket, and the daemon reads it as \<open>x\<close>.\<close>

definition sends :: "int \<Rightarrow> mc_msg \<Rightarrow> net \<Rightarrow> net \<Rightarrow> bool" where
  "sends sk x N N' \<longleftrightarrow> (\<exists>m. n_sent N' = n_sent N @ [(sk, m)] \<and> mc_wire (msg_bytes m) = Some x)"

lemma mc_wire_tokened:
  assumes "msg_id m \<in> set mc_ids" and "msg_wf m" and "mc_msg_of m = Some x"
  shows "mc_wire (msg_bytes (tokened m)) = Some x"
  using msg_at_msg_bytes [of "tokened m" "[]"] friendly_tokened [of m] mc_ids_ok [OF assms(1)] assms(2,3) by (simp add: mc_wire_def)

lemma msg_wf_mk: "length data < 2 ^ 16 \<Longrightarrow> msg_wf (mk_msg fl i data)"
  by (simp add: msg_wf_def mk_msg_def unat_of_nat)

lemma mc_report_sends:
  assumes "ci_subscriber ci = Some s" and "client_valid (e_pid E) (su_client s)" and "n_sends N = k # ks" and "i \<in> set mc_ids"
    and "length data < 2 ^ 16" and "mc_msg_of (mk_msg 0 i data) = Some x"
  shows "\<exists>N'. mc_report E ci (mk_msg fl i data) N = Some (if k > 0 then 0 else - 1, N') \<and> sends (cl_sock (su_client s)) x N N'"
proof -
  let ?m = "(mk_msg fl i data)\<lparr>msg_flags := (fl AND NOT 1) AND 0xFF, msg_from := of_int (cl_identity (su_client s))\<rparr>"
  let ?N = "N\<lparr>n_sends := ks, n_sent := n_sent N @ [(cl_sock (su_client s), tokened ?m)]\<rparr>"
  have i: "msg_id ?m \<in> set mc_ids" "msg_wf ?m" "mc_msg_of ?m = Some x"
    using assms(4,6) msg_wf_mk [OF assms(5), of fl i] mc_msg_of_cong [of ?m "mk_msg 0 i data"] by (simp_all add: mk_msg_def msg_wf_def)
  have u: "users_msg (mk_msg fl i data)" using mc_ids_ok [of "mk_msg fl i data"] assms(4) by (simp add: mk_msg_def)
  have "mc_report E ci (mk_msg fl i data) N = Some (if k > 0 then 0 else - 1, ?N)"
    using assms(1-3) u by (simp add: mc_report_def ipc_subscriber_report_def net_send_msg_def IPC_REQUEST_SUCCESS_def IPC_REQUEST_EMO_def IPC_ESEND_def
        mk_msg_def Let_def)
  moreover have "sends (cl_sock (su_client s)) x N ?N" using mc_wire_tokened [OF i] by (simp add: sends_def)
  ultimately show ?thesis by blast
qed

section \<open>Reading\<close>

lemma syn_of_code [simp]: "syn_of (syn_code_of k) = Some k" by (cases k) (simp_all add: syn_of_def)

lemma apply_of_code [simp]: "apply_of (apply_code_of k) = Some k" by (cases k) (simp_all add: apply_of_def)

lemma read_msgs:
  "NUL \<notin> set s \<Longrightarrow> mc_msg_of (mk_msg 0 ID_READY (str_field (length s + 1) s)) = Some (MC_MSG_READY s)"
  "NUL \<notin> set s \<Longrightarrow> mc_msg_of (mk_msg 0 ID_RESTART (str_field (length s + 1) s)) = Some (MC_MSG_RESTART s)"
  "mc_msg_of (mk_msg 0 ID_EXIT []) = Some MC_MSG_EXIT"
  "mc_msg_of (mk_msg 0 ID_PROBE (le64 t)) = Some (MC_MSG_PROBE (sint t))"
  "mc_msg_of (mk_msg 0 ID_HEARTBEAT (le32 p @ le32 w @ le64 t)) = Some (MC_MSG_HEARTBEAT (sint p) (uint t))"
  "mc_msg_of (mk_msg 0 ID_EXCEPTION (exception_bytes eid einfo elen)) = Some (MC_MSG_EXCEPTION (sint eid))"
  "mc_msg_of (mk_msg 0 ID_SYN (syn_bytes (syn_code_of k) tmo sp data)) = Some (MC_MSG_SYN (Some k))"
  "mc_msg_of (mk_msg 0 ID_ACK (le32 (syn_code_of k) @ r)) = Some (MC_MSG_ACK (Some k))"
  "mc_msg_of (mk_msg 0 ID_APPLY (le32 (apply_code_of a) @ r)) = Some (MC_MSG_APPLY (Some a))"
  "mc_msg_of (mk_msg 0 ID_VOTE (le32 (apply_code_of a) @ le32 w @ r)) = Some (MC_MSG_VOTE (Some a) (w \<noteq> 0))"
  using string_at_field [of s "length s + 1" 0 _ "[]"]
  by (simp_all add: mc_msg_of_def mk_msg_def mc_id_defs int_at_le [of 0] int_at_le [of 4] long_at_le [of 0 _ _ "[]"] long_at_le [of 8 _ _ "[]"] exception_bytes_def syn_bytes_def)

lemma read_detach:
  assumes "NUL \<notin> set s"
  shows "mc_msg_of (mk_msg 0 ID_DETACH (detach_bytes s ident state exits)) = Some (MC_MSG_DETACH (state \<noteq> 0) (take 31 s) (exits \<noteq> 0))"
proof -
  have "string_at 12 (detach_bytes s ident state exits) = Some (take 31 s)"
    using assms by (intro string_at_field [where n = 32 and r = "[]"]) (auto simp: detach_bytes_def MC_CLIENT_NAME_LEN_def dest: in_set_takeD)
  moreover have "int_at 0 (detach_bytes s ident state exits) = Some state" "int_at 4 (detach_bytes s ident state exits) = Some exits"
    by (simp_all add: detach_bytes_def int_at_le [of 0] int_at_le [of 4])
  ultimately show ?thesis by (simp add: mc_msg_of_def mk_msg_def mc_id_defs)
qed

lemma read_reboot:
  assumes "length sp \<le> 32"
  shows "mc_msg_of (mk_msg 0 ID_REBOOT (syn_bytes k tmo sp (le32 w))) = Some (MC_MSG_REBOOT (w \<noteq> 0))"
proof -
  have "drop 44 (syn_bytes k tmo sp (le32 w)) = le32 w @ []" using assms by (simp add: syn_bytes_def MC_CLIENT_NAME_LEN_def length_str_field)
  then have "int_at 44 (syn_bytes k tmo sp (le32 w)) = Some w" by (rule int_at_le)
  then show ?thesis by (simp add: mc_msg_of_def mk_msg_def mc_id_defs)
qed

section \<open>Reports\<close>

text \<open>A process that is registered over a connection that works.\<close>

definition registered :: "mc_env \<Rightarrow> mc_lib \<Rightarrow> mc_cltinfo \<Rightarrow> ipc_subscriber \<Rightarrow> bool" where
  "registered E lib ci s \<longleftrightarrow> lib_client lib = Some ci \<and> ci_subscriber ci = Some s \<and> client_valid (e_pid E) (su_client s) \<and>
     e_pid E < 2 ^ 31 \<and> length (ci_name ci) \<le> MC_CLIENT_NAME_LEN \<and> NUL \<notin> set (ci_name ci)"

section \<open>A program and its registration\<close>

text \<open>Process 9, registered over socket 4 for everything, with a connection for requests over socket 6.\<close>

definition demo_env :: mc_env where
  "demo_env = \<lparr>e_pid = 9, e_malloc = True, e_alloc = True, e_flags = 0xABCD, e_pad = 7,
     e_client = \<lparr>cl_server = [], cl_sock = 0, cl_identity = 0, cl_state = IPC_S_CONNECTING\<rparr>\<rparr>"

definition demo_sub :: ipc_subscriber where
  "demo_sub = example_subscriber\<lparr>su_mask := 15\<rparr>"

definition demo_ci :: mc_cltinfo where
  "demo_ci = \<lparr>ci_name = ''app'', ci_fn = Some 1, ci_arg = 2, ci_subscriber = Some demo_sub\<rparr>"

definition demo_kept :: ipc_client where
  "demo_kept = \<lparr>cl_server = ''/tmp/IPC_MC'', cl_sock = 6, cl_identity = 9, cl_state = IPC_S_CONNECTED\<rparr>"

definition demo_lib :: mc_lib where
  "demo_lib = \<lparr>lib_client = Some demo_ci, lib_request = Some demo_kept\<rparr>"

definition demo_net :: "recv_ret list \<Rightarrow> net" where
  "demo_net rs = \<lparr>n_sockets = [5], n_opts = [0], n_connects = [ConnOk], n_sends = [1, 1], n_io = \<lparr>io_sels = [SelReady], io_recvs = rs\<rparr>,
     n_sent = [], n_closed = [], n_slept = 0\<rparr>"

lemmas demo_client_defs = demo_env_def demo_sub_def demo_ci_def demo_kept_def demo_lib_def example_subscriber_def

lemma demo_registered: "registered demo_env demo_lib demo_ci demo_sub" "client_valid (e_pid demo_env) demo_kept"
  by (simp_all add: registered_def demo_client_defs client_valid_def MC_CLIENT_NAME_LEN_def NUL_def)

section \<open>What a report means\<close>



section \<open>Requests\<close>

lemma ipc_request_sends:
  assumes "client_valid pid c" and "n_sends N = k # ks" and "0 \<le> k" and "i \<in> set mc_ids"
    and "length data < 2 ^ 16" and "mc_msg_of (mk_msg 0 i data) = Some x" and "recv_msg sz tmo (n_io N) = Some (Inr reply, got, io')"
  shows "\<exists>N'. ipc_client_request pid c (mk_msg 1 i data) sz tmo N = Some (0, reply, N') \<and> sends (cl_sock c) x N N'"
proof -
  let ?m = "(mk_msg 1 i data)\<lparr>msg_from := of_int (cl_identity c)\<rparr>"
  let ?N = "N\<lparr>n_sends := ks, n_sent := n_sent N @ [(cl_sock c, tokened ?m)], n_io := io'\<rparr>"
  have i: "msg_id ?m \<in> set mc_ids" "msg_wf ?m" "mc_msg_of ?m = Some x"
    using assms(4,6) msg_wf_mk [OF assms(5), of 1 i] mc_msg_of_cong [of ?m "mk_msg 0 i data"] by (simp_all add: mk_msg_def msg_wf_def)
  have u: "users_msg (mk_msg 1 i data)" using mc_ids_ok [of "mk_msg 1 i data"] assms(4) by (simp add: mk_msg_def)
  have "ipc_client_request pid c (mk_msg 1 i data) sz tmo N = Some (0, reply, ?N)"
    using assms(1-3,7) u
    by (simp add: ipc_client_request_def ipc_request_def net_send_msg_def IPC_REQUEST_SUCCESS_def mk_msg_def tokened_def Let_def)
  moreover have "sends (cl_sock c) x N ?N" using mc_wire_tokened [OF i] by (simp add: sends_def)
  ultimately show ?thesis by blast
qed

lemma mc_request_sends:
  assumes "lib_request lib = Some c" and "client_valid (e_pid E) c" and "n_sends N = k # ks" and "0 \<le> k" and "i \<in> set mc_ids"
    and "length data < 2 ^ 16" and "mc_msg_of (mk_msg 0 i data) = Some x" and "recv_msg sz tmo (n_io N) = Some (Inr reply, got, io')"
  shows "\<exists>N'. mc_client_request E (mk_msg 1 i data) sz tmo lib N = Some (0, reply, lib, N') \<and> sends (cl_sock c) x N N'"
  using ipc_request_sends [OF assms(2-8)] assms(1) by (auto simp: mc_client_request_def IPC_REQUEST_SUCCESS_def)

lemma mc_easy_sends:
  assumes "ipc_client_init (e_pid E) MC_SERVER (e_client E) N = Some (0, c, N1)" and "client_valid (e_pid E) c" and "n_sends N1 = k # ks" and "0 \<le> k"
    and "i \<in> set mc_ids" and "length data < 2 ^ 16" and "mc_msg_of (mk_msg 0 i data) = Some x" and "recv_msg sz tmo (n_io N1) = Some (Inr reply, got, io')"
  shows "\<exists>N'. mc_client_request_easy E (mk_msg 1 i data) sz tmo N = Some (0, reply, N') \<and> sends (cl_sock c) x N1 N' \<and>
    (0 < cl_sock c \<longrightarrow> cl_sock c \<in> set (n_closed N'))"
  using ipc_request_sends [OF assms(2-8)] assms(1) by (auto simp: mc_client_request_easy_def ipc_client_close_def net_close_def sends_def)

lemma reply_true_found: "msg_data m = answer_data (Found_answer b) \<Longrightarrow> reply_true m = Some b"
  using field_str_append [of MC_STRING_TRUE "length MC_STRING_TRUE + 1" "[]"] field_str_append [of MC_STRING_FALSE "length MC_STRING_FALSE + 1" "[]"]
  by (cases b) (simp_all add: reply_true_def Let_def c_assert_def, simp_all add: MC_STRING_TRUE_def MC_STRING_FALSE_def NUL_def byte_def str_field_def chars_of_def char_of_def)

lemma reply_int_code: "msg_data m = le32 w \<Longrightarrow> reply_int m = Some (sint w)"
  by (simp add: reply_int_def c_assert_def from_le32_le32)


definition demo_reply :: ipc_msg where
  "demo_reply = mk_msg 0 ID_SYN (le32 2)"


section \<open>The kept connection\<close>

lemma ipc_connect_sockets: "ipc_connect c N = Some (r, c', N') \<Longrightarrow> \<exists>sk. n_sockets N = sk # n_sockets N'"
  by (auto simp: ipc_connect_def net_socket_def net_opts_def net_close_def Let_def split: if_splits list.splits option.splits bind_splits prod.splits)

lemma ipc_request_sockets: "ipc_request c m sz tmo N = Some (r, m', N') \<Longrightarrow> n_sockets N' = n_sockets N"
  by (auto simp: ipc_request_def net_send_msg_def Let_def split: if_splits list.splits option.splits bind_splits prod.splits sum.splits)

lemma ipc_client_request_frame:
  "ipc_client_request pid c m sz tmo N = Some (r, m', N') \<Longrightarrow> n_sockets N' = n_sockets N \<and> n_closed N' = n_closed N \<and> (r = 0 \<longrightarrow> client_valid pid c) \<and>
    (\<not> client_valid pid c \<longrightarrow> n_sent N' = n_sent N)"
  by (auto simp: ipc_client_request_def IPC_REQUEST_EVAL_def IPC_EVAL_def IPC_REQUEST_EMSG_def IPC_EMSG_def split: if_splits
      dest: ipc_request_sockets ipc_request_frame)

text \<open>The socket of the kept connection.\<close>

definition kept :: "mc_lib \<Rightarrow> int list" where
  "kept lib = (case lib_request lib of None \<Rightarrow> [] | Some c \<Rightarrow> [cl_sock c])"

lemma create_sockets:
  assumes "ipc_client_create ok pid MC_SERVER N = Some (co, N')" and "\<forall>sk \<in> set (n_sockets N). 0 < sk" and "0 < pid"
  shows "\<exists>used. n_sockets N = used @ n_sockets N' \<and> n_closed N' @ (case co of None \<Rightarrow> [] | Some c \<Rightarrow> [cl_sock c]) = n_closed N @ used \<and>
    (\<forall>c. co = Some c \<longrightarrow> cl_sock c \<in> set used)"
proof (cases ok)
  case False
  with assms(1) show ?thesis by (auto simp: ipc_client_create_def)
next
  case True
  have "set_server MC_SERVER c = (True, c\<lparr>cl_server := take 63 (UNIX_SOCK_DIR @ MC_SERVER)\<rparr>)" for c
    by (simp add: set_server_def UNIX_SOCK_DIR_def server_size_def MC_SERVER_def)
  with assms(1) True obtain c0 r c' where c': "ipc_client_connect c0 N = Some (r, c', N')"
    by (auto simp: ipc_client_create_def split: bind_splits)
  then obtain r1 c1 N1 where c1: "ipc_connect c0 N = Some (r1, c1, N1)" by (auto simp: ipc_client_connect_def split: bind_splits)
  then obtain sk where sk: "n_sockets N = sk # n_sockets N1" by (auto dest: ipc_connect_sockets)
  have "n_sockets N' = n_sockets N1"
    using c' c1 by (auto simp: ipc_client_connect_def ipc_client_close_def net_close_def split: bind_splits if_splits dest!: ipc_request_sockets)
  moreover have "case co of Some c \<Rightarrow> client_valid pid c \<and> cl_sock c = sk \<and> n_closed N' = n_closed N | None \<Rightarrow> n_closed N' = n_closed N @ [sk]"
    using client_create_no_leak [of pid MC_SERVER N co N' sk] assms sk True by (simp add: MC_SERVER_def)
  ultimately show ?thesis using sk by (intro exI [of _ "[sk]"]) (auto split: option.splits)
qed

lemma mc_request_step:
  assumes "mc_client_request E m sz tmo lib N = Some (r, m', lib', N')" and "\<forall>sk \<in> set (n_sockets N @ kept lib). 0 < sk" and "0 < e_pid E"
  shows "(\<exists>used. n_sockets N = used @ n_sockets N' \<and> n_closed N' @ kept lib' = n_closed N @ kept lib @ used) \<and>
    (if r = 0 then \<exists>c. lib_request lib' = Some c \<and> client_valid (e_pid E) c else r = - 1 \<and> lib_request lib' = None)"
proof -
  from assms(1) obtain co N1 where co: "(case lib_request lib of Some c \<Rightarrow> Some (Some c, N) | None \<Rightarrow> ipc_client_create (e_malloc E) (e_pid E) MC_SERVER N) = Some (co, N1)"
    by (auto simp: mc_client_request_def split: bind_splits)
  have u: "(\<exists>used. n_sockets N = used @ n_sockets N1 \<and> n_closed N1 @ (case co of None \<Rightarrow> [] | Some c \<Rightarrow> [cl_sock c]) = n_closed N @ kept lib @ used) \<and>
    (\<forall>c. co = Some c \<longrightarrow> 0 < cl_sock c)"
  proof (cases "lib_request lib")
    case None
    with co create_sockets [of "e_malloc E" "e_pid E" N co N1] assms(2,3) obtain used where "n_sockets N = used @ n_sockets N1"
      "n_closed N1 @ (case co of None \<Rightarrow> [] | Some c \<Rightarrow> [cl_sock c]) = n_closed N @ used" "\<forall>c. co = Some c \<longrightarrow> cl_sock c \<in> set used" by auto
    with None assms(2) show ?thesis by (auto simp: kept_def)
  qed (use co assms(2) in \<open>auto simp: kept_def\<close>)
  show ?thesis
  proof (cases co)
    case None
    with u co assms(1) show ?thesis by (auto simp: mc_client_request_def kept_def)
  next
    case (Some c)
    with co assms(1) obtain r1 N2 where r: "ipc_client_request (e_pid E) c m sz tmo N1 = Some (r1, m', N2)"
      "(r, lib', N') = (if r1 \<noteq> 0 then (- 1, lib\<lparr>lib_request := None\<rparr>, ipc_client_destroy (Some c) N2) else (0, lib\<lparr>lib_request := Some c\<rparr>, N2))"
      by (auto simp: mc_client_request_def IPC_REQUEST_SUCCESS_def split: bind_splits if_splits)
    from ipc_client_request_frame [OF r(1)] r(2) u Some show ?thesis
      by (auto simp: kept_def ipc_client_destroy_def net_close_def split: if_splits)
  qed
qed

lemma mc_request_kept:
  assumes "mc_client_request E m sz tmo lib N = Some (r, m', lib', N')" and "\<forall>sk \<in> set (n_sockets N @ kept lib). 0 < sk" and "0 < e_pid E"
  shows "\<forall>sk \<in> set (kept lib'). 0 < sk"
proof (cases "lib_request lib")
  case (Some c)
  with assms(1,2) show ?thesis by (auto simp: mc_client_request_def kept_def split: bind_splits if_splits)
next
  case None
  with assms(1) obtain co N1 where co: "ipc_client_create (e_malloc E) (e_pid E) MC_SERVER N = Some (co, N1)" by (auto simp: mc_client_request_def split: bind_splits)
  with create_sockets [OF co _ assms(3)] assms(2) obtain used where "n_sockets N = used @ n_sockets N1" "\<forall>c. co = Some c \<longrightarrow> cl_sock c \<in> set used" by auto
  with assms(1,2) co None show ?thesis by (auto simp: mc_client_request_def kept_def split: bind_splits if_splits option.splits)
qed

text \<open>A sequence of requests, each as its caller finds the process.\<close>

fun mc_request_run :: "(mc_env \<times> ipc_msg \<times> nat \<times> int) list \<Rightarrow> mc_lib \<Rightarrow> net \<Rightarrow> (mc_lib \<times> net) option" where
  "mc_request_run [] lib N = Some (lib, N)"
| "mc_request_run ((E, m, sz, tmo) # rs) lib N = do {
     (r, m, lib, N) \<leftarrow> mc_client_request E m sz tmo lib N;
     mc_request_run rs lib N
   }"



section \<open>Registration\<close>

abbreviation int32 :: "int \<Rightarrow> bool" where "int32 x \<equiv> - (2 ^ 31) \<le> x \<and> x < 2 ^ 31"

lemma sint_int32 [simp]: "int32 x \<Longrightarrow> sint (of_int x :: 32 word) = x"
  by (simp add: signed_of_int signed_take_bit_int_eq_self)

definition tskinfo_ok :: "mc_tskinfo \<Rightarrow> bool" where
  "tskinfo_ok t \<longleftrightarrow> int32 (ti_tid t) \<and> int32 (ti_interval t) \<and> ti_strategy t < 2 ^ 32"

text \<open>What fits into a \<open>struct mc_reginfo\<close>, and with it into a message.\<close>

definition reginfo_ok :: "mc_reginfo \<Rightarrow> bool" where
  "reginfo_ok r \<longleftrightarrow> int32 (r_pid r) \<and> int32 (r_latch r) \<and> length (r_name r) \<le> MC_CLIENT_NAME_LEN \<and> NUL \<notin> set (r_name r) \<and>
     length (r_cmdline r) \<le> MC_CLIENT_CMDLINE_LEN \<and> NUL \<notin> set (r_cmdline r) \<and> list_all tskinfo_ok (r_tasks r) \<and> length (r_tasks r) \<le> 5445"

lemma length_tskinfo: "length (tskinfo_bytes t) = 12" by (simp add: tskinfo_bytes_def)

lemma tasks_at_bytes: "list_all tskinfo_ok ts \<Longrightarrow> tasks_at (length ts) (concat (map tskinfo_bytes ts) @ z) = Some ts"
proof (induction ts)
  case (Cons t ts)
  have d: "drop 0 (tskinfo_bytes t @ r) = le32 (of_int (ti_tid t)) @ le32 (of_nat (ti_strategy t)) @ le32 (of_int (ti_interval t)) @ r"
    "drop 4 (tskinfo_bytes t @ r) = le32 (of_nat (ti_strategy t)) @ le32 (of_int (ti_interval t)) @ r" "drop 8 (tskinfo_bytes t @ r) = le32 (of_int (ti_interval t)) @ r" for r
    by (simp_all add: tskinfo_bytes_def)
  have "ti_strategy t < 2 ^ 32" "int32 (ti_tid t)" "int32 (ti_interval t)" using Cons.prems by (simp_all add: tskinfo_ok_def)
  then show ?case using Cons int_at_le [OF d(1)] int_at_le [OF d(2)] int_at_le [OF d(3)] by (simp add: unat_of_nat length_tskinfo)
qed simp

lemma length_tskinfos: "length (concat (map tskinfo_bytes ts)) = 12 * length ts"
  by (induction ts) (simp_all add: length_tskinfo)

lemma length_reginfo: "reginfo_ok r \<Longrightarrow> length (reginfo_bytes r) = 172 + 12 * length (r_tasks r)"
  by (simp add: reginfo_bytes_def reginfo_ok_def length_str_field MC_CLIENT_NAME_LEN_def MC_CLIENT_CMDLINE_LEN_def length_tskinfos)

lemma reginfo_roundtrip:
  assumes "reginfo_ok r"
  shows "reginfo_at (reginfo_bytes r @ z) = Some r"
proof -
  let ?d = "reginfo_bytes r @ z"
  have l: "length (str_field 32 (r_name r)) = 32" "length (str_field 128 (r_cmdline r)) = 128"
    using assms by (simp_all add: reginfo_ok_def length_str_field MC_CLIENT_NAME_LEN_def MC_CLIENT_CMDLINE_LEN_def)
  have d: "drop 0 ?d = le32 (of_int (r_pid r)) @ drop 4 ?d" "drop 4 ?d = le32 (of_int (r_latch r)) @ drop 8 ?d"
    "drop 8 ?d = le32 (of_nat (length (r_tasks r))) @ drop 12 ?d" "drop 12 ?d = str_field 32 (r_name r) @ drop 44 ?d"
    "drop 44 ?d = str_field 128 (r_cmdline r) @ drop 172 ?d" "drop 172 ?d = concat (map tskinfo_bytes (r_tasks r)) @ z"
    using l by (simp_all add: reginfo_bytes_def MC_CLIENT_NAME_LEN_def MC_CLIENT_CMDLINE_LEN_def)
  have s: "string_at 12 ?d = Some (r_name r)" "string_at 44 ?d = Some (r_cmdline r)"
    using assms by (intro string_at_field [OF _ _ d(4)] string_at_field [OF _ _ d(5)]; simp add: reginfo_ok_def MC_CLIENT_NAME_LEN_def MC_CLIENT_CMDLINE_LEN_def)+
  have t: "tasks_at (length (r_tasks r)) (drop 172 ?d) = Some (r_tasks r)" unfolding d(6) using assms by (intro tasks_at_bytes) (simp add: reginfo_ok_def)
  have "unat (of_nat (length (r_tasks r)) :: 32 word) = length (r_tasks r)" using assms by (simp add: reginfo_ok_def unat_of_nat)
  then show ?thesis unfolding reginfo_at_def int_at_le [OF d(1)] int_at_le [OF d(2)] int_at_le [OF d(3)] s
    using t assms by (simp add: reginfo_ok_def)
qed

lemma ipc_request_sent:
  "ipc_request c m sz tmo N = Some (r, m', N') \<Longrightarrow>
   n_sent N' = n_sent N @ [(cl_sock c, tokened (m\<lparr>msg_from := of_int (cl_identity c), msg_flags := msg_flags m AND 0xFF\<rparr>))]"
  by (auto simp: ipc_request_def net_send_msg_def Let_def split: if_splits list.splits option.splits bind_splits prod.splits sum.splits)

lemma ipc_connect_frame: "ipc_connect c N = Some (r, c', N') \<Longrightarrow> n_sent N' = n_sent N"
  using ipc_connect_sockets [of c N r c' N'] ipc_connect_cases [of c N r c' N'] by blast

lemma subscriber_connect_ret: "ipc_subscriber_connect ok2 ok3 s N = Some (r, s', N') \<Longrightarrow> r = 0 \<or> r = - 1"
  by (auto simp: ipc_subscriber_connect_def Let_def split: bind_splits if_splits option.splits prod.splits)

lemma subscriber_connect_sent:
  assumes "ipc_subscriber_connect ok2 ok3 s N = Some (0, s', N')"
  shows "\<exists>c1 N1 m1 sb. cl_sock (su_client s') = cl_sock c1 \<and> su_mask s' = su_mask s \<and> ipc_request c1 (reg_msg s) sb IPC_MSG_SDK_TIMEOUT N1 = Some (0, m1, N')"
  using assms by (auto simp: ipc_subscriber_connect_def Let_def IPC_REQUEST_SUCCESS_def split: bind_splits if_splits option.splits prod.splits) blast+

text \<open>The registration reaches the server: its mask, and its data behind the length.\<close>

lemma subscriber_register_sent:
  assumes "ipc_subscriber_register ok1 ok2 ok3 thread pid MC_SERVER msk (Some d) sz True arg N = Some (Some s, N')" and "msk \<noteq> 0"
    and "unat sz = length d" and "length d + 16 < 2 ^ 16"
  shows "\<exists>m. (cl_sock (su_client s), tokened m) \<in> set (n_sent N') \<and> msg_id m = IPC_SDK_MSG_REGISTER \<and> msg_wf m \<and> reg_mask m = msk \<and>
    reg_data m = d @ replicate 4 0 \<and> su_mask s = msk"
proof -
  have "\<exists>c. set_server MC_SERVER c0 = (True, c)" for c0 by (simp add: set_server_def UNIX_SOCK_DIR_def server_size_def MC_SERVER_def)
  then obtain c where c: "set_server MC_SERVER \<lparr>cl_server = [], cl_sock = 0, cl_identity = 0, cl_state = IPC_S_CONNECTING\<rparr> = (True, c)" by blast
  define s0 where "s0 = \<lparr>su_task_id = 0, su_mask = msk, su_handler = False, su_arg = arg, su_buf = None,
      su_client = c\<lparr>cl_identity := pid\<rparr>, su_data_len = sz, su_data = take (unat sz) d\<rparr>"
  from assms(1,2) c obtain s1 where con: "ipc_subscriber_connect ok2 ok3 s0 N = Some (0, s1, N')"
    and s: "su_client s = su_client s1" "su_mask s = su_mask s1"
    by (auto simp: ipc_subscriber_register_def ipc_subscriber_create_def ipc_subscriber_run_def s0_def Let_def split: bind_splits if_splits option.splits
        dest!: subscriber_connect_ret)
  from subscriber_connect_sent [OF con] obtain c1 N1 m1 sb where st: "cl_sock (su_client s1) = cl_sock c1" "su_mask s1 = msk"
    and rq: "ipc_request c1 (reg_msg s0) sb IPC_MSG_SDK_TIMEOUT N1 = Some (0, m1, N')" by (auto simp: s0_def)
  let ?m = "(reg_msg s0)\<lparr>msg_from := of_int (cl_identity c1), msg_flags := 1\<rparr>"
  have "(cl_sock c1, tokened ?m) \<in> set (n_sent N')" using ipc_request_sent [OF rq] by (simp add: reg_msg_def)
  moreover have "unat (16 + sz) = 16 + length d" using assms(3,4) by (simp add: unat_word_ariths)
  then have "unat (ucast (16 + sz) :: 16 word) = 16 + length d" using assms(4) by (simp add: unsigned_ucast_eq take_bit_eq_mod)
  then have "msg_wf ?m \<and> reg_mask ?m = msk \<and> reg_data ?m = d @ replicate 4 0 \<and> msg_id ?m = IPC_SDK_MSG_REGISTER"
    using assms(3,4) by (simp add: reg_msg_def s0_def msg_wf_def reg_mask_def reg_data_def from_le64_le64)
  ultimately show ?thesis using st s by auto
qed

text \<open>
  C38: a process that has registered with what fits into the structure has sent the daemon exactly that: the mask, and the process, its
  tasks and its command as the daemon reads them.
\<close>

theorem mc_register_read:
  assumes "reginfo_ok r" and "msk \<noteq> 0" and "mc_client_register E mems thread mem I name0 block msk (Some r) fn arg lib N = Some (0, lib', N')"
  shows "\<exists>s m. lib_client lib' = Some \<lparr>ci_name = r_name r, ci_fn = Some fn, ci_arg = arg, ci_subscriber = Some s\<rparr> \<and> lib_request lib' = lib_request lib \<and>
    lib_client lib = None \<and> su_mask s = msk \<and> (cl_sock (su_client s), tokened m) \<in> set (n_sent N') \<and>
    friendly (msg_at (msg_bytes (tokened m))) = Some m \<and> msg_id m = IPC_SDK_MSG_REGISTER \<and> reg_mask m = msk \<and> reginfo_at (reg_data m) = Some r"
proof -
  define sz :: "32 word" where "sz = 172 + 12 * of_nat (length (r_tasks r))"
  have n: "length (r_tasks r) \<le> 5445" using assms(1) by (simp add: reginfo_ok_def)
  have "sz = of_nat (172 + 12 * length (r_tasks r))" by (simp add: sz_def)
  then have sz: "unat sz = length (reginfo_bytes r)" "length (reginfo_bytes r) + 16 < 2 ^ 16"
    using n by (simp_all add: length_reginfo [OF assms(1)] unat_of_nat del: of_nat_add)
  from assms(3) obtain s where s: "ipc_subscriber_register (fst mems) (fst (snd mems)) (snd (snd mems)) thread (e_pid E) MC_SERVER msk (Some (reginfo_bytes r)) sz True block N
      = Some (Some s, N')" "lib_client lib = None" "lib' = lib\<lparr>lib_client := Some \<lparr>ci_name = r_name r, ci_fn = Some fn, ci_arg = arg, ci_subscriber = Some s\<rparr>\<rparr>"
    by (auto simp: mc_client_register_def register_start_def new_cltinfo_def sz_def split: bind_splits if_splits option.splits)
  from subscriber_register_sent [OF s(1) assms(2) sz] obtain m where m: "(cl_sock (su_client s), tokened m) \<in> set (n_sent N')" "msg_id m = IPC_SDK_MSG_REGISTER"
    "msg_wf m" "reg_mask m = msk" "reg_data m = reginfo_bytes r @ replicate 4 0" "su_mask s = msk" by blast
  have "id_ok m" using m(2) by (simp add: id_ok_def IPC_SDK_MSG_REGISTER_def IPC_MSG_SDK_def IPC_MSG_TOKEN_MASK_def)
  then have "friendly (msg_at (msg_bytes (tokened m))) = Some m" using msg_at_msg_bytes [of "tokened m" "[]"] m(3) friendly_tokened by simp
  then show ?thesis using m s reginfo_roundtrip [OF assms(1)] by auto
qed

definition demo_info :: mc_reginfo where
  "demo_info = \<lparr>r_pid = 9, r_latch = 3, r_name = ''app'', r_cmdline = ''/bin/app -d'', r_tasks = [\<lparr>ti_tid = 9, ti_strategy = 16, ti_interval = 30\<rparr>]\<rparr>"

definition demo_success :: ipc_msg where
  "demo_success = mk_msg 0 IPC_SDK_MSG_SUCCESS (le32 2048)"

definition demo_free :: mc_lib where "demo_free = \<lparr>lib_client = None, lib_request = None\<rparr>"

lemma demo_success_recv: "\<exists>io'. recv_msg sz 5 (ready [msg_bytes (tokened demo_success)] [] []) = Some (Inr demo_success, msg_bytes (tokened demo_success), io')" if "16 \<le> sz"
proof -
  have m: "msg_wf demo_success" "id_ok demo_success" "msg_size demo_success = 16"
    by (simp_all add: demo_success_def mk_msg_def msg_wf_def id_ok_def IPC_SDK_MSG_SUCCESS_def IPC_MSG_SDK_def IPC_MSG_TOKEN_MASK_def msg_size_def IPC_MSG_HDRLEN_def)
  then have "length (msg_bytes (tokened demo_success)) = 16" using length_msg_bytes [of "tokened demo_success"] by simp
  then have "msg_bytes (tokened demo_success) \<noteq> []" by auto
  then show ?thesis using recv_msg_loop_ready [OF m(1,2), of sz 5 "[]" "[msg_bytes (tokened demo_success)]"] m(3) that
    by (simp add: recv_msg_def IPC_MSG_HDRLEN_def)
qed

lemma demo_register:
  "\<exists>lib' N'. mc_client_register demo_env (True, True, True) (0, 11) (\<lambda>_. True) \<lparr>pi_cmdline = No_open, pi_comm = No_open, pi_exe = None\<rparr> [] 8 15 (Some demo_info) 1 2
     demo_free (demo_net [RecvBytes (msg_bytes (tokened demo_success))]) = Some (0, lib', N')"
proof -
  obtain io' where r: "recv_msg 1024 5 (ready [msg_bytes (tokened demo_success)] [] []) = Some (Inr demo_success, msg_bytes (tokened demo_success), io')"
    using demo_success_recv [of 1024] by auto
  have n: "n_io (demo_net [RecvBytes (msg_bytes (tokened demo_success))]) = ready [msg_bytes (tokened demo_success)] [] []" by (simp add: demo_net_def ready_def)
  have s: "msg_id demo_success = IPC_SDK_MSG_SUCCESS" by (simp add: demo_success_def mk_msg_def)
  have f: "msg_flags (tokened m) = msg_flags m" for m by (simp add: tokened_def)
  show ?thesis using r n s
    by (simp add: mc_client_register_def register_start_def demo_free_def demo_env_def demo_info_def ipc_subscriber_register_def ipc_subscriber_create_def
        ipc_subscriber_connect_def set_server_def UNIX_SOCK_DIR_def server_size_def MC_SERVER_def ipc_connect_def net_socket_def net_opts_def ipc_request_def net_send_msg_def
        demo_net_def sizeof_ipc_reg_def IPC_MSG_HDRLEN_def IPC_MSG_SDK_TIMEOUT_def IPC_REQUEST_SUCCESS_def alloc_buf_def ipc_subscriber_run_def MC_CLIENT_NAME_LEN_def
        c_assert_def reg_msg_def f Let_def)
qed

theorem mc_register_read_witness:
  "\<exists>lib' N' (s :: ipc_subscriber) (m :: ipc_msg). mc_client_register demo_env (True, True, True) (0, 11) (\<lambda>_. True) \<lparr>pi_cmdline = No_open, pi_comm = No_open, pi_exe = None\<rparr> [] 8 15 (Some demo_info) 1 2
     demo_free (demo_net [RecvBytes (msg_bytes (tokened demo_success))]) = Some (0, lib', N') \<and>
     (cl_sock (su_client s), tokened m) \<in> set (n_sent N') \<and> reg_mask m = 15 \<and> reginfo_at (reg_data m) = Some demo_info"
proof -
  have k: "reginfo_ok demo_info"
    by (simp add: reginfo_ok_def demo_info_def tskinfo_ok_def MC_CLIENT_NAME_LEN_def MC_CLIENT_CMDLINE_LEN_def NUL_def)
  obtain lib' N' where r: "mc_client_register demo_env (True, True, True) (0, 11) (\<lambda>_. True) \<lparr>pi_cmdline = No_open, pi_comm = No_open, pi_exe = None\<rparr> [] 8 15 (Some demo_info)
      1 2 demo_free (demo_net [RecvBytes (msg_bytes (tokened demo_success))]) = Some (0, lib', N')" using demo_register by blast
  from mc_register_read [OF k _ r] r show ?thesis by auto
qed

section \<open>The callback\<close>

text \<open>
  Then a probe is answered with its own time, a request to exit or
  the shutdown of the system is reported and ends the program, and nothing else happens for any other notification.
\<close>

theorem mc_callback_correct:
  assumes "registered E lib ci s" and "ci_fn ci = Some fn" and "n_sends N = k # ks"
  shows "(\<exists>N'. mc_client_callback E ci 0 (le64 time) sz N = Some ((fn, 0, le64 time, sz, ci_arg ci), False, N') \<and>
       sends (cl_sock (su_client s)) (MC_MSG_PROBE (sint time)) N N') \<and>
    (i \<in> {1, 12} \<longrightarrow> (\<exists>N'. mc_client_callback E ci i data sz N = Some ((fn, i, data, sz, ci_arg ci), True, N') \<and> sends (cl_sock (su_client s)) MC_MSG_EXIT N N')) \<and>
    (i \<notin> {0, 1, 12} \<longrightarrow> mc_client_callback E ci i data sz N = Some ((fn, i, data, sz, ci_arg ci), False, N))"
proof (intro conjI impI)
  have c: "ci_subscriber ci = Some s" "client_valid (e_pid E) (su_client s)" using assms(1) by (simp_all add: registered_def)
  note rep = mc_report_sends [OF c assms(3)]
  have "ind_of 0 = Some MC_IND_PROBE" by (simp add: ind_of_def ind_list_def)
  then show "\<exists>N'. mc_client_callback E ci 0 (le64 time) sz N = Some ((fn, 0, le64 time, sz, ci_arg ci), False, N') \<and>
       sends (cl_sock (su_client s)) (MC_MSG_PROBE (sint time)) N N'"
    using rep [of ID_PROBE "le64 time" _ "e_flags E"] read_msgs(4) [of time] assms(2) by (auto simp: mc_client_callback_def mc_client_probe_def mc_ids_def c_assert_def)
  assume "i \<in> {1, 12}"
  then have "ind_of i = Some MC_IND_EXIT \<or> ind_of i = Some MC_IND_SYS_SHUTDOWN" by (auto simp: ind_of_def ind_list_def)
  then show "\<exists>N'. mc_client_callback E ci i data sz N = Some ((fn, i, data, sz, ci_arg ci), True, N') \<and> sends (cl_sock (su_client s)) MC_MSG_EXIT N N'"
    using rep [of ID_EXIT "[]" _ "e_flags E"] read_msgs(3) assms(2) by (auto simp: mc_client_callback_def mc_client_exit_def mc_ids_def)
next
  assume i: "i \<notin> {0, 1, 12}"
  have "ind_of i \<notin> {Some MC_IND_PROBE, Some MC_IND_EXIT, Some MC_IND_SYS_SHUTDOWN}"
  proof (cases "unat i < 13")
    case True
    have d: "distinct ind_list" "length ind_list = 13" by (simp_all add: ind_list_def)
    have e: "ind_list ! 0 = MC_IND_PROBE" "ind_list ! 1 = MC_IND_EXIT" "ind_list ! 12 = MC_IND_SYS_SHUTDOWN" by (simp_all add: ind_list_def)
    have "unat i \<noteq> 0" "unat i \<noteq> 1" "unat i \<noteq> 12" using i by (auto simp: word_unat_eq_iff)
    then show ?thesis using True d nth_eq_iff_index_eq [OF d(1), of "unat i"] by (simp add: ind_of_def e [symmetric])
  qed (simp add: ind_of_def ind_list_def)
  then show "mc_client_callback E ci i data sz N = Some ((fn, i, data, sz, ci_arg ci), False, N)"
    using assms(2) by (cases "ind_of i") (auto simp: mc_client_callback_def Let_def split: mc_ind.splits)
qed

theorem mc_callback_correct_witness:
  "\<exists>N'. mc_client_callback demo_env demo_ci 0 (le64 5) 8 (demo_net []) = Some ((1, 0, le64 5, 8, 2), False, N') \<and> sends 4 (MC_MSG_PROBE 5) (demo_net []) N'"
  using mc_callback_correct [OF demo_registered(1), of 1 "demo_net []" 1 "[1]" 5 8] by (simp add: demo_client_defs demo_net_def)

text \<open>
  The thread of the subscriber runs the callback as soon as \<open>ipc_subscriber_register\<close> has started it; until \<open>mc_client_register\<close> has stored
  the function and the subscriber a notification uses members that were never set.
\<close>

lemma mc_callback_early: "mc_client_callback E (new_cltinfo name0) i data sz N = None"
  by (simp add: mc_client_callback_def new_cltinfo_def)

text \<open>The length of an exception of 65528 bytes wraps to 0: the daemon cannot read it, and the call reports success.\<close>

theorem mc_exception_wraps:
  assumes "registered E lib ci s" and "su_mask s AND MC_EXCEPTION_MASK \<noteq> 0" and "unat elen = 65528" and "unat elen \<le> length einfo" and "e_malloc E"
    and "n_sends N = k # ks" and "0 < k"
  shows "\<exists>N' m. mc_client_exeception E eid einfo elen lib N = Some (0, N') \<and> n_sent N' = n_sent N @ [(cl_sock (su_client s), m)] \<and> msg_data_len m = 0 \<and>
    mc_wire (msg_bytes m) = None"
proof -
  have r: "lib_client lib = Some ci" "ci_subscriber ci = Some s" and v: "client_valid (e_pid E) (su_client s)" using assms(1) by (auto simp: registered_def)
  let ?d = "exception_bytes eid einfo elen"
  let ?m = "(mk_msg (e_flags E) ID_EXCEPTION ?d)\<lparr>msg_flags := (e_flags E AND NOT 1) AND 0xFF, msg_from := of_int (cl_identity (su_client s))\<rparr>"
  have l: "length ?d = 65536" using assms(3,4) by (simp add: exception_bytes_def)
  then have z: "msg_data_len ?m = 0" by (simp add: mk_msg_def)
  have u: "users_msg (mk_msg fl ID_EXCEPTION d)" for fl d using mc_ids_ok [of "mk_msg fl ID_EXCEPTION d"] by (simp add: mk_msg_def mc_ids_def)
  have "mc_client_exeception E eid einfo elen lib N = Some (0, N\<lparr>n_sends := ks, n_sent := n_sent N @ [(cl_sock (su_client s), tokened ?m)]\<rparr>)"
    using assms(2-7) r v u by (simp add: mc_client_exeception_def c_assert_def mc_report_def ipc_subscriber_report_def net_send_msg_def IPC_REQUEST_SUCCESS_def
        mk_msg_def Let_def)
  moreover have "mc_wire (msg_bytes (tokened ?m)) = None"
  proof -
    let ?e = "?m\<lparr>msg_data := []\<rparr>"
    have "msg_bytes (tokened ?m) = msg_bytes (tokened ?e)" using z by (simp add: msg_bytes_def tokened_def)
    moreover have "msg_wf ?e" "id_ok ?e" using z mc_ids_ok [of ?e] by (simp_all add: msg_wf_def mk_msg_def mc_ids_def)
    then have "friendly (msg_at (msg_bytes (tokened ?e))) = Some ?e" using msg_at_msg_bytes [of "tokened ?e" "[]"] friendly_tokened [of ?e] by simp
    ultimately show ?thesis by (simp add: mc_wire_def mc_msg_of_def mk_msg_def mc_id_defs int_at_def)
  qed
  ultimately show ?thesis using z by (auto simp: tokened_def)
qed

theorem mc_exception_wraps_witness:
  "\<exists>N' m. mc_client_exeception demo_env 1 (replicate 65528 0) 65528 demo_lib (demo_net []) = Some (0, N') \<and> n_sent N' = [(4, m)] \<and> mc_wire (msg_bytes m) = None"
  using mc_exception_wraps [OF demo_registered(1), of 65528 "replicate 65528 0" "demo_net []" 1 "[1]" 1]
  by (auto simp: demo_client_defs demo_net_def MC_EXCEPTION_MASK_def)

end
