(* ===== verification/Client_Api.thy ===== *)
theory Client_Api
  imports IPC_Client_Properties
begin

unbundle bit_operations_syntax

text \<open>
  The convenience calls for programs of the message system, \<open>api/client/client.c\<close> and \<open>api/client/ipcc.c\<close>: a request with its data and a
  buffer for the answer, over a client, a subscriber or a connection of its own, and publishing. The buffer of the caller is \<open>None\<close> for
  \<open>NULL\<close>; \<open>size\<close> and \<open>rsplen\<close> are not negative. A copy past the end of a buffer is \<open>None\<close>.
\<close>

section \<open>Messages and buffers\<close>

definition MSG_MAX_SIZE :: nat where "MSG_MAX_SIZE = 4096"

definition empty_msg :: ipc_msg where
  "empty_msg = \<lparr>msg_from = 0, msg_id = 0, msg_flags = 0, msg_data_len = 0, msg_data = []\<rparr>"

text \<open>The request in a buffer of \<open>cap\<close> bytes: id, flag and data.\<close>

definition put_request :: "nat \<Rightarrow> 32 word \<Rightarrow> byte list option \<Rightarrow> nat \<Rightarrow> byte list option \<Rightarrow> ipc_msg \<Rightarrow> ipc_msg option" where
  "put_request cap i data sz response m = do {
     let m = m\<lparr>msg_id := i, msg_flags := (if response \<noteq> None then 1 else 0)\<rparr>;
     case data of
       None \<Rightarrow> Some m
     | Some d \<Rightarrow> do {
         c_assert (IPC_MSG_HDRLEN + sz \<le> cap \<and> sz \<le> length d);
         Some (m\<lparr>msg_data_len := of_nat sz, msg_data := take sz d\<rparr>)
       }
   }"

text \<open>The answer in the caller's buffer.\<close>

definition take_response :: "byte list option \<Rightarrow> nat \<Rightarrow> ipc_msg \<Rightarrow> byte list option option" where
  "take_response response rsplen m =
     (case response of
        None \<Rightarrow> Some None
      | Some b \<Rightarrow> do {
          let n = min (unat (msg_data_len m)) rsplen;
          c_assert (n \<le> length b);
          Some (Some (take n (msg_data m) @ drop n b))
        })"

section \<open>client.c\<close>

text \<open>The common end of the requests: what \<open>ipc_client_request\<close> or \<open>ipc_subscriber_request\<close> has returned.\<close>

definition finish_request :: "byte list option \<Rightarrow> nat \<Rightarrow> int \<Rightarrow> ipc_msg \<Rightarrow> net \<Rightarrow> (int \<times> byte list option \<times> net) option" where
  "finish_request response rsplen r m N =
     (if r = IPC_REQUEST_SUCCESS then do { b \<leftarrow> take_response response rsplen m; Some (0, b, N) } else Some (- 1, response, N))"

definition ipcc_common_request ::
    "int \<Rightarrow> ipc_client \<Rightarrow> 32 word \<Rightarrow> byte list option \<Rightarrow> nat \<Rightarrow> byte list option \<Rightarrow> nat \<Rightarrow> net \<Rightarrow> (int \<times> byte list option \<times> net) option" where
  "ipcc_common_request pid c i data sz response rsplen N = do {
     m \<leftarrow> put_request MSG_MAX_SIZE i data sz response empty_msg;
     (r, m, N) \<leftarrow> ipc_client_request pid c m MSG_MAX_SIZE 5 N;
     finish_request response rsplen r m N
   }"

text \<open>\<open>c0\<close> is what the stack holds in the client.\<close>

definition with_client :: "int \<Rightarrow> ipc_client \<Rightarrow> string \<Rightarrow> (ipc_client \<Rightarrow> net \<Rightarrow> (int \<times> 'a \<times> net) option) \<Rightarrow> 'a \<Rightarrow> net \<Rightarrow> (int \<times> 'a \<times> net) option" where
  "with_client pid c0 server f a N = do {
     (r, c, N) \<leftarrow> ipc_client_init pid server c0 N;
     if r < 0 then Some (- 1, a, N)
     else do { (r, b, N) \<leftarrow> f c N; Some (r, b, snd (ipc_client_close c N)) }
   }"

definition ipcc_common_request_easy ::
    "int \<Rightarrow> ipc_client \<Rightarrow> string \<Rightarrow> 32 word \<Rightarrow> byte list option \<Rightarrow> nat \<Rightarrow> byte list option \<Rightarrow> nat \<Rightarrow> net \<Rightarrow> (int \<times> byte list option \<times> net) option" where
  "ipcc_common_request_easy pid c0 server i data sz response rsplen =
     with_client pid c0 server (\<lambda>c. ipcc_common_request pid c i data sz response rsplen) response"

text \<open>\<open>sock0\<close> and \<open>state0\<close> are those of \<open>ipc_subscriber_request\<close>.\<close>

definition ipcs_common_request ::
    "int \<Rightarrow> int \<Rightarrow> ipc_state \<Rightarrow> ipc_subscriber \<Rightarrow> 32 word \<Rightarrow> byte list option \<Rightarrow> nat \<Rightarrow> byte list option \<Rightarrow> nat \<Rightarrow> net \<Rightarrow> (int \<times> byte list option \<times> net) option" where
  "ipcs_common_request pid sock0 state0 s i data sz response rsplen N = do {
     m \<leftarrow> put_request MSG_MAX_SIZE i data sz response empty_msg;
     (r, m, N) \<leftarrow> ipc_subscriber_request pid sock0 state0 s m MSG_MAX_SIZE 5 N;
     finish_request response rsplen r m N
   }"

definition ipcc_common_topic_publish ::
    "bool \<Rightarrow> int \<Rightarrow> ipc_client \<Rightarrow> string \<Rightarrow> 64 word \<Rightarrow> 32 word \<Rightarrow> byte list option \<Rightarrow> 32 word \<Rightarrow> net \<Rightarrow> (int \<times> unit \<times> net) option" where
  "ipcc_common_topic_publish alloc_ok pid c0 broker topic i data sz =
     with_client pid c0 broker (\<lambda>c N. do {
       (r, N) \<leftarrow> ipc_client_publish alloc_ok pid c IPC_TO_BROADCAST topic i data sz 3 N;
       Some (if r = IPC_REQUEST_SUCCESS then 0 else - 1, (), N)
     }) ()"

definition WW_SERVICE_TEST :: int where "WW_SERVICE_TEST = 1"
definition IPC_SERVER_TEST :: string where "IPC_SERVER_TEST = ''IPC_TEST''"

text \<open>The argument \<open>arg\<close> of the caller is not passed on.\<close>

definition client_subscriber_register ::
    "bool \<times> bool \<times> bool \<Rightarrow> int \<times> nat \<Rightarrow> int \<Rightarrow> int \<Rightarrow> 64 word \<Rightarrow> bool \<Rightarrow> nat \<Rightarrow> net \<Rightarrow> (ipc_subscriber option \<times> net) option" where
  "client_subscriber_register mems thread pid service topic_set cb arg N =
     (if service = WW_SERVICE_TEST
      then ipc_subscriber_register (fst mems) (fst (snd mems)) (snd (snd mems)) thread pid IPC_SERVER_TEST topic_set None 0 cb 0 N
      else Some (None, N))"

definition client_subscriber_unregister :: "ipc_subscriber option \<Rightarrow> net \<Rightarrow> net option" where
  "client_subscriber_unregister handle N = (case handle of None \<Rightarrow> Some N | Some s \<Rightarrow> ipc_subscriber_unregister s N)"

definition client_send_request_msg ::
    "int \<Rightarrow> int \<Rightarrow> ipc_state \<Rightarrow> ipc_subscriber option \<Rightarrow> 32 word \<Rightarrow> byte list option \<Rightarrow> nat \<Rightarrow> byte list option \<Rightarrow> nat \<Rightarrow> net \<Rightarrow>
     (int \<times> byte list option \<times> net) option" where
  "client_send_request_msg pid sock0 state0 handle i request reqlen response rsplen N =
     (case handle of
        None \<Rightarrow> Some (- 1, response, N)
      | Some s \<Rightarrow> ipcs_common_request pid sock0 state0 s i request reqlen response rsplen N)"

section \<open>ipcc.c\<close>

definition ipc_msg_space_check :: "nat \<Rightarrow> nat \<Rightarrow> bool" where
  "ipc_msg_space_check mx sz \<longleftrightarrow> mx \<ge> IPC_MSG_HDRLEN + sz"

text \<open>
  The message and its capacity: the buffer on the stack when \<open>need\<close> bytes fit, otherwise a block for \<open>bufsize\<close> bytes; \<open>None\<close> when there is no memory.
\<close>

definition request_buffer :: "bool \<Rightarrow> nat \<Rightarrow> nat \<Rightarrow> (ipc_msg \<times> nat) option" where
  "request_buffer mem need bufsize =
     (if ipc_msg_space_check 1024 need then Some (empty_msg, 1024) else ipc_alloc_msg mem (of_nat bufsize))"

definition ipcc_request ::
    "bool \<Rightarrow> int \<Rightarrow> ipc_client \<Rightarrow> 32 word \<Rightarrow> byte list option \<Rightarrow> nat \<Rightarrow> byte list option \<Rightarrow> nat \<Rightarrow> net \<Rightarrow> (int \<times> byte list option \<times> net) option" where
  "ipcc_request mem pid c i data sz response rsplen N =
     (let bufsize = max rsplen sz in
      case request_buffer mem bufsize bufsize of
        None \<Rightarrow> Some (- 1, response, N)
      | Some (m, cap) \<Rightarrow> do {
          m \<leftarrow> put_request cap i data sz response m;
          (r, m, N) \<leftarrow> ipc_client_request pid c m (if ipc_msg_space_check 1024 bufsize then 1024 else bufsize + IPC_MSG_HDRLEN) 5 N;
          finish_request response rsplen r m N
        })"

definition ipcc_request_easy ::
    "bool \<Rightarrow> int \<Rightarrow> ipc_client \<Rightarrow> string \<Rightarrow> 32 word \<Rightarrow> byte list option \<Rightarrow> nat \<Rightarrow> byte list option \<Rightarrow> nat \<Rightarrow> net \<Rightarrow> (int \<times> byte list option \<times> net) option" where
  "ipcc_request_easy mem pid c0 server i data sz response rsplen =
     with_client pid c0 server (\<lambda>c. ipcc_request mem pid c i data sz response rsplen) response"

text \<open>Only \<open>rsplen\<close> is tested here.\<close>

definition ipcs_request ::
    "bool \<Rightarrow> int \<Rightarrow> int \<Rightarrow> ipc_state \<Rightarrow> ipc_subscriber \<Rightarrow> 32 word \<Rightarrow> byte list option \<Rightarrow> nat \<Rightarrow> byte list option \<Rightarrow> nat \<Rightarrow> net \<Rightarrow>
     (int \<times> byte list option \<times> net) option" where
  "ipcs_request mem pid sock0 state0 s i data sz response rsplen N =
     (let bufsize = max rsplen sz in
      case request_buffer mem rsplen bufsize of
        None \<Rightarrow> Some (- 1, response, N)
      | Some (m, cap) \<Rightarrow> do {
          m \<leftarrow> put_request cap i data sz response m;
          (r, m, N) \<leftarrow> ipc_subscriber_request pid sock0 state0 s m (if ipc_msg_space_check 1024 rsplen then 1024 else bufsize + IPC_MSG_HDRLEN) 5 N;
          finish_request response rsplen r m N
        })"

definition ipcc_publish ::
    "bool \<Rightarrow> int \<Rightarrow> ipc_client \<Rightarrow> string \<Rightarrow> 64 word \<Rightarrow> 32 word \<Rightarrow> byte list option \<Rightarrow> 32 word \<Rightarrow> net \<Rightarrow> (int \<times> unit \<times> net) option" where
  "ipcc_publish alloc_ok pid c0 broker topic i data sz =
     with_client pid c0 broker (\<lambda>c N. do {
       (r, N) \<leftarrow> ipc_client_publish alloc_ok pid c IPC_TO_BROADCAST topic i data sz 3 N;
       Some (if r = IPC_REQUEST_SUCCESS then 0 else - 1, (), N)
     }) ()"

section \<open>Properties\<close>

lemma request_buffer_ok:
  assumes "request_buffer mem (max a b) (max a b) = Some (m, cap)" and "max a b < 2 ^ 32"
  shows "m = empty_msg \<and> IPC_MSG_HDRLEN + max a b \<le> cap"
  using assms by (auto simp: request_buffer_def ipc_msg_space_check_def ipc_alloc_msg_def empty_msg_def unat_of_nat split: if_splits)


text \<open>The requests of \<open>client.c\<close> and those of a subscriber write past their buffers when the data are too long for them.\<close>

theorem request_overflows:
  assumes "4084 < sz" and "sz' > 1012" and "rsplen \<le> 1012"
  shows "ipcc_common_request pid c i (Some d) sz response rsplen N = None \<and> ipcs_request mem pid sock0 state0 s i (Some d) sz' response rsplen N = None"
  using assms by (simp add: ipcc_common_request_def ipcs_request_def put_request_def request_buffer_def ipc_msg_space_check_def c_assert_def MSG_MAX_SIZE_def
      IPC_MSG_HDRLEN_def Let_def)

text \<open>
  Whatever the handle, \<open>client_send_request_msg\<close> returns - 1 and sends nothing, because \<open>ipc_subscriber_request\<close> does; and the argument given at the
  registration never reaches the callback.
\<close>

theorem client_handle_broken:
  assumes "n_sockets N = sk # sks"
  shows "(client_send_request_msg pid sock0 state0 handle i request reqlen response rsplen N = Some (r, b, N') \<longrightarrow> r = - 1 \<and> b = response \<and> n_sent N' = n_sent N) \<and>
    client_subscriber_register mems thread pid service topic_set cb arg N = client_subscriber_register mems thread pid service topic_set cb arg' N"
proof
  show "client_send_request_msg pid sock0 state0 handle i request reqlen response rsplen N = Some (r, b, N') \<longrightarrow> r = - 1 \<and> b = response \<and> n_sent N' = n_sent N"
    using assms by (auto simp: client_send_request_msg_def ipcs_common_request_def finish_request_def IPC_REQUEST_EVAL_def IPC_REQUEST_ECN_def IPC_EVAL_def
        IPC_ECONN_def IPC_REQUEST_SUCCESS_def split: option.splits bind_splits if_splits dest: subscriber_request_refused)
qed (simp add: client_subscriber_register_def)

text \<open>A client of process 9 that asks over socket 4 and is answered with two bytes.\<close>

definition api_client :: ipc_client where
  "api_client = \<lparr>cl_server = ''/tmp/mc'', cl_sock = 4, cl_identity = 9, cl_state = IPC_S_CONNECTED\<rparr>"

definition api_reply :: ipc_msg where
  "api_reply = \<lparr>msg_from = 0, msg_id = 7, msg_flags = 0, msg_data_len = 2, msg_data = [8, 9]\<rparr>"

definition api_net :: net where
  "api_net = example_net\<lparr>n_sends := [1], n_io := ready [msg_bytes (tokened api_reply)] [] []\<rparr>"


theorem request_overflows_witness:
  "ipcc_common_request 9 api_client 7 (Some (replicate 5000 0)) 5000 None 0 api_net = None"
  using request_overflows [of 5000 5000 0] by simp

theorem client_handle_broken_witness:
  "client_send_request_msg 9 0 IPC_S_CONNECTING (Some example_subscriber) 7 None 0 None 0 (example_net\<lparr>n_connects := [ConnOk]\<rparr>) =
     Some (- 1, None, example_net\<lparr>n_sockets := [], n_opts := [], n_connects := [], n_closed := [5]\<rparr>) \<and>
   client_subscriber_register (True, True, True) (0, 1) 9 1 1 True 3 example_net = client_subscriber_register (True, True, True) (0, 1) 9 1 1 True 4 example_net"
proof
  show "client_subscriber_register (True, True, True) (0, 1) 9 1 1 True 3 example_net = client_subscriber_register (True, True, True) (0, 1) 9 1 1 True 4 example_net"
    using client_handle_broken [of example_net 5 "[]"] by (simp add: example_net_def)
qed (simp add: client_send_request_msg_def ipcs_common_request_def put_request_def empty_msg_def finish_request_def ipc_subscriber_request_def example_subscriber_def
    ipc_connect_def example_net_def net_socket_def net_opts_def net_close_def ipc_client_request_def client_valid_def ipc_client_close_def
    IPC_REQUEST_EVAL_def IPC_EVAL_def IPC_REQUEST_SUCCESS_def Let_def)

end
