(* ===== verification/Spec2Isabelle.thy ===== *)
theory Spec2Isabelle
  imports RB_Properties Mem_Pool_Properties IPC_Properties IPC_Client_Properties Timer_Properties BST_Properties
    Thread_Pool_Properties Co_Switch Co_Properties Config_Properties Mc_Properties
    File_Properties Proc_Properties Log_Properties Ipc_Log Mc_Client_Properties Client_Api
begin

text \<open>
  A verification development for the C library of this repository: containers, a memory pool,
  timers, a thread pool, coroutines, configuration files, a publish/subscribe message system over local sockets and a
  daemon built on it that supervises processes. Each theory opens with what it holds; this is the map.

  \<^bold>\<open>The program.\<close> \<open>common/rb_tree.c\<close> and \<open>include/list.h\<close> are the intrusive
  containers the other parts are built on. \<open>memory-pool/mem_pool.c\<close> carves chunks out of
  aligned stocks, keeps stocks with room in a list and finds the owner of a freed chunk through
  a red-black tree of stocks. \<open>ipc/ipc_base.c\<close> frames messages on a byte stream.
  \<open>ipc/ipc_server.c\<close> is a broker: clients connect as requesters or subscribers, subscribers
  register a mask of topics and are put on one list per topic after their SYNC; a notification goes
  to the list of its topic. \<open>ipc/ipc_client.c\<close> is the other end. \<open>timer/timer.c\<close> runs
  callbacks at given times: an inspector thread waits for the earliest timer of a red-black tree and
  executor threads run the ones marked for a thread. \<open>thread-pool/thread_pool.c\<close> runs jobs on a
  varying number of workers. \<open>common/bst.c\<close> is a second search tree, balanced on demand, with
  iterators that survive modifications. \<open>co\<close> runs coroutines with a scheduler of its own, which
  keeps sleepers in a red-black tree and waits for sockets with epoll. \<open>common/gcl.c\<close> and \<open>common/scl.c\<close> read
  configuration files. \<open>sample/mc-daemon\<close> is a server of the message system: processes register with it and report, it
  inspects them periodically and restarts those that are lost, starts the processes of a list, and coordinates sleep and reboot by barriers
  and votes among its subscribers.

  \<^bold>\<open>Conventions (Prelude).\<close> A pointer is a natural number, \<open>NULL\<close> is 0. A member that is
  linked in place lives in a store from addresses to cells. A computation that dereferences
  \<open>NULL\<close>, fails an \<open>assert\<close> or does not return is \<open>None\<close>; loops are
  \<open>partial_function (option)\<close>, so a statement with \<open>Some\<close> says that the code returns.
  Results of the kernel and of \<open>malloc\<close> (sockets, byte counts, clocks, blocks) are arguments,
  and so are user callbacks. No loop has fuel.

  \<^bold>\<open>Red-black tree.\<close> \<open>RB_Tree\<close> translates \<open>rb_tree.c\<close> on a store of nodes with
  parent pointers. \<open>RB_Shape\<close> relates the store to a functional tree with a zipper for the
  position of a loop; \<open>RB_Insert\<close>, \<open>RB_Recolor\<close> and \<open>RB_Remove\<close> carry the
  operations through; \<open>Ordered_Table\<close> is the contract of a search tree as a locale and
  \<open>RB_Query\<close> interprets it. \<open>RB_Properties\<close>: insertion, removal, search and traversal are list
  operations on the sorted in-order list and keep the red-black invariant; height bound.

  \<^bold>\<open>Lists.\<close> \<open>Intrusive_List\<close> translates \<open>list.h\<close> and shows each operation to be a list
  operation on the ring of entries; the contract of a linked queue is a locale, interpreted there.

  \<^bold>\<open>Memory pool.\<close> \<open>Mem_Pool\<close> holds the code of \<open>mem_pool.c\<close>, \<open>Mem_Pool_Inv\<close> the
  invariant of a slot (free lists, stock tree, exhausted stocks, chunks out), \<open>Mem_Pool_Ops\<close>
  its preservation, \<open>Mem_Pool_Properties\<close> the safety of allocation and
  release and an out-of-bounds slot.

  \<^bold>\<open>IPC base.\<close> \<open>IPC_Base\<close> and \<open>IPC_Parse\<close> model message layout, tokens, the receive buffer
  and \<open>find_msg\<close>, against the specification of a stream of frames; \<open>IPC_Bits\<close> the topic masks.

  \<^bold>\<open>IPC server.\<close> \<open>IPC_Server\<close>, \<open>IPC_Timing\<close>, \<open>IPC_Handlers\<close> and \<open>IPC_Loop\<close> hold
  \<open>ipc_server.c\<close> in the select build: handles and topic lists, timings, socket handlers, event
  loop and the critical sections of asynchronous requests. \<open>IPC_Broker\<close> has the representation
  of the broker (which subscriber is on which list, which descriptors are watched) and its preservation
  by SYNC, dispatch and release; \<open>IPC_Connect\<close> by registration and connection;
  \<open>IPC_Timing_Proofs\<close> the sorted list of timings. \<open>IPC_Properties\<close> has a concrete broker, on which
  it instantiates its theorems.

  \<^bold>\<open>IPC client.\<close> \<open>IPC_Client\<close> and \<open>IPC_Subscriber\<close> hold \<open>ipc_client.c\<close>;
  \<open>IPC_Client_Properties\<close> shows reception of a message in any pieces, delivery of exactly the
  subscribed notifications, bounded connection attempts, and sockets that are not leaked.

  \<^bold>\<open>Timer.\<close> \<open>Timer\<close> holds \<open>timer.c\<close>. A thread is a program counter between the points where
  the mutex changes hands, and the code between two such points is one definition, so an interleaving
  is a sequence of steps; a signal may be lost or spurious. \<open>Timer_Inv\<close>
  has the invariant (tree and expired list agree with the flags, exact counts of threads, one holder of
  the mutex) and its preservation by clients and threads, \<open>Timer_Steps\<close> the transition system
  and its reachable states. \<open>Timer_Properties\<close>: no reachable step faults; adding and firing are
  exact; three races in \<open>timer_mod\<close> and \<open>timer_destroy\<close>. The bound on the number of timer ids is the
  range of the C \<open>int\<close> counter.

  \<^bold>\<open>Binary search tree.\<close> \<open>BST\<close> and \<open>BST_Iterator\<close> hold \<open>bst.c\<close>; the root pointer is
  treated as a node, as the code does. \<open>BST_Rep\<close> relates the store to a tree and
  interprets the contract \<open>ordered_table\<close> a second time, \<open>BST_Balance\<close> shows that the vine
  algorithm leaves minimal height. \<open>BST_Properties\<close>: updates, balancing, and the successor of an
  iterator whose stack is stale or full.

  \<^bold>\<open>Thread pool.\<close> \<open>Thread_Pool\<close> holds \<open>thread_pool.c\<close>, with workers as program counters
  and two history fields; \<open>Thread_Pool_Inv\<close> the invariant, \<open>Thread_Pool_Steps\<close> the transition
  system and the rank that decreases while the pool is destroyed. \<open>Thread_Pool_Properties\<close>: jobs start
  in the order given and none is lost, counters are exact, destroying ends, and a run that leaves a
  queued job without a worker.

  \<^bold>\<open>Coroutines.\<close> \<open>Co_Switch\<close> has the x86-64 context switch of \<open>co_core.c\<close>
  instruction by instruction and the first frame of a coroutine. \<open>Co_Core\<close> holds the scheduler and \<open>co_epoll.c\<close>,
  \<open>Co_Socket\<close> the socket layer with its chunks from a memory cache. \<open>RB_Frame\<close> adds to the tree what the
  scheduler relies on beyond its contract: a removed node keeps the links to its successor. \<open>Co_Inv\<close> shows that
  the retrying insertion of a sleeper ends and has the invariant (each coroutine is in the queue of its state),
  \<open>Co_Steps\<close> the transition system. \<open>Co_Properties\<close>: all reachable calls complete and keep the queues exact,
  expiry wakes exactly the due sleepers, chunks of live coroutines are never shared; a sleeper is postponed behind all
  others, and a timed wait ended by an event leaves a dangling node.

  \<^bold>\<open>Configuration.\<close> \<open>C_Strings\<close> has the functions of the C library on strings, lines and numbers as text, and the binary search that three
  parts use; a table sorted by its keys is the locale \<open>key_table\<close>. \<open>Config_List\<close> holds \<open>gcl.c\<close> and interprets it,
  \<open>Simple_Config\<close> holds \<open>scl.c\<close>, \<open>Mc_Config\<close> the daemon's settings, and interprets the locale again.
  \<open>Config_Properties\<close>: lookup and update, a parser that stays inside its buffers and ends on any file in any pieces, the round trip
  of writing and reading, and the defaults overridden by a file.

  \<^bold>\<open>Bit utilities.\<close> \<open>Bit_Utils\<close> holds \<open>generic_bit.c\<close>; an array of longs is a set of numbers, and the operations
  are those of sets.

  \<^bold>\<open>Daemon.\<close> \<open>Mc_Base\<close> has the state (clients, tasks, guarded processes and subscribers in maps, so that the use of a freed one is
  \<open>None\<close>) and the recorded effects; \<open>Mc_Core\<close> the life of a client, \<open>Mc_Handlers\<close> messages, inspection and detaching,
  \<open>Mc_System\<close> barriers, votes, reboot and connections, \<open>Mc_Guard\<close> the guarded processes with the file that lists them, and exceptions,
  \<open>Mc_Exec\<close> how a command line is cut and started, \<open>Mc_Main\<close> the start and the dispatch. \<open>Mc_Barrier\<close> has the invariant of
  subscribers and bitmaps, \<open>Mc_Steps\<close> the transition system of messages, connections, timers and waiting threads in any order, which keeps
  it, \<open>Mc_Order\<close> the lists by expiry. \<open>Mc_Properties\<close>: barriers and votes wake their waiters, inspection finds exactly the overdue
  tasks, guarded processes are started exactly when lost; and three faults: a resume that wakes early, a client that unregistered and stays listed with its freed subscriber, a kill of the
  daemon's own group. A wait with a timeout is two steps that may follow each other at any distance.

  \<^bold>\<open>Client library.\<close> \<open>Mc_Client\<close> holds \<open>api/client/mc_client.c\<close> over \<open>IPC_Client\<close> and \<open>IPC_Subscriber\<close>: a message is the bytes the
  code stores, with the parts it does not initialise as arguments; beside it, how the handlers of the daemon read these bytes.
  \<open>Mc_Client_Properties\<close>: the daemon reads what was meant, its answer is the value of the call, and of the request connections at most one
  stays open. \<open>Client_Api\<close> has the requests of \<open>client.c\<close> and \<open>ipcc.c\<close> with the sizes of their buffers.

  \<^bold>\<open>Files and processes.\<close> \<open>File_Sys\<close> is a file system: names and inodes, so that a renamed file keeps its readers, descriptors with positions, space on the
  device. On it \<open>Generic_File\<close> holds \<open>generic_file.c\<close>, and \<open>File_Properties\<close> shows that numbers and lines come back as they were
  written, copies are copies, and which failures are not seen. \<open>Generic_Proc\<close> holds \<open>generic_proc.c\<close>, with \<open>/proc\<close> as a function of
  the pid; \<open>Proc_Properties\<close>: the name of a process, the walk over all of them, pid files.

  \<^bold>\<open>Logging and locks.\<close> \<open>Generic_Log\<close> holds the log files of \<open>generic_log.c\<close>: lines in a fixed buffer, rotation, truncation.
  \<open>Log_Properties\<close>: rotation moves each file to the next name once, although several writers find the file too long, and the files stay
  within their size. \<open>Log_Lock\<close> has \<open>lock.c\<close> and the semaphore of the log as a transition system of threads of several processes, whose
  steps are the atomic operations and system calls: mutual exclusion while no call fails, and its loss afterwards. \<open>Ipc_Log\<close> has
  \<open>ipc_log.c\<close>, whose lock is exclusive also when calls fail.

  \<^bold>\<open>Not modelled.\<close> Text to the terminal and the tree printers; the expansion of \<open>printf\<close> formats and dates, which are arguments of
  the log; the epoll build of the server; thread
  attributes and signal masks; cancellation outside the thread pool; the sample programs; the i386 and ARM
  variants of the context switch. Of the daemon, the listing for the tools, \<open>fork\<close> and \<open>exec\<close>, signals and the
  watchdog, which is compiled out. The JSON layer \<open>uapi\<close> is
  built on a third-party JSON library that is not part of the repository.
\<close>

end
